(* ===== verification/Sky_Prelude.thy ===== *)
theory Sky_Prelude
  imports Complex_Main "HOL-Library.AList" "HOL-Library.Monad_Syntax"
begin

text \<open>
  Shared vocabulary of the development.

  A Go map is an association list with distinct keys: the order of the list is the order in
  which one \<^verbatim>\<open>range\<close> over the map visits its entries, which the language leaves open, so
  theorems quantify over it.  \<open>gm_set\<close> and \<open>gm_del\<close> are \<^verbatim>\<open>m[k] = v\<close> and
  \<^verbatim>\<open>delete(m, k)\<close>; reading is \<open>map_of\<close>.  A Go \<^verbatim>\<open>int64\<close> is an \<open>int\<close> in
  range, with the wrap-around of arithmetic written out by \<open>wrap64\<close>.  An \<^verbatim>\<open>error\<close>
  result is a value of \<open>go_error\<close>, on the left of a sum or in an option.
\<close>

named_theorems gomap_simps \<open>lookup, keys and distinctness of Go maps after an update\<close>
named_theorems result_simps \<open>computation rules of error results\<close>

section \<open>Go maps\<close>

type_synonym ('k, 'v) gomap = "('k \<times> 'v) list"

abbreviation gm_set :: "'k \<Rightarrow> 'v \<Rightarrow> ('k, 'v) gomap \<Rightarrow> ('k, 'v) gomap" where
  "gm_set \<equiv> AList.update"

abbreviation gm_del :: "'k \<Rightarrow> ('k, 'v) gomap \<Rightarrow> ('k, 'v) gomap" where
  "gm_del \<equiv> AList.delete"

definition gm_wf :: "('k, 'v) gomap \<Rightarrow> bool" where
  "gm_wf m \<longleftrightarrow> distinct (map fst m)"

lemma gm_wf_empty [simp, intro]: "gm_wf []"
  by (simp add: gm_wf_def)

lemma gm_wf_set [simp, intro]: "gm_wf m \<Longrightarrow> gm_wf (gm_set k v m)"
  by (simp add: gm_wf_def distinct_update)

lemma gm_wf_del [simp, intro]: "gm_wf m \<Longrightarrow> gm_wf (gm_del k m)"
  by (simp add: gm_wf_def distinct_delete)

lemma map_of_gm_set [simp, gomap_simps]: "map_of (gm_set k v m) = (map_of m)(k \<mapsto> v)"
  by (simp add: update_conv')

lemma map_of_gm_del [simp, gomap_simps]: "map_of (gm_del k m) = (map_of m)(k := None)"
  by (simp add: delete_conv')

lemma gm_lookup_iff: "gm_wf m \<Longrightarrow> map_of m k = Some v \<longleftrightarrow> (k, v) \<in> set m"
  by (simp add: gm_wf_def)

lemma gm_keys_iff: "k \<in> fst ` set m \<longleftrightarrow> map_of m k \<noteq> None"
  by (simp add: dom_map_of_conv_image_fst [symmetric] dom_def)

lemma gm_values: "gm_wf m \<Longrightarrow> snd ` set m = ran (map_of m)"
  by (simp add: gm_wf_def ran_distinct)

lemma gm_del_shorter: "map_of m k = Some v \<Longrightarrow> length (gm_del k m) < length m"
  by (induction m) (auto split: if_splits simp: le_imp_less_Suc length_delete_le)

lemma gm_del_missing: "map_of m k = None \<Longrightarrow> gm_del k m = m"
  by (simp add: map_of_eq_None_iff)

lemma gm_set_same: "map_of m k = Some v \<Longrightarrow> gm_set k v m = m"
  by (induction m) (auto split: if_splits)

lemma gm_del_set_fresh: "map_of m k = None \<Longrightarrow> gm_del k (gm_set k v m) = m"
  by (induction m) (auto split: if_splits)

lemma gm_set_nonempty [simp]: "gm_set k v m \<noteq> []"
  by (cases m) auto

section \<open>Machine integers\<close>

definition wrap64 :: "int \<Rightarrow> int" where
  "wrap64 i = (i + 2 ^ 63) mod 2 ^ 64 - 2 ^ 63"

definition is_int64 :: "int \<Rightarrow> bool" where
  "is_int64 i \<longleftrightarrow> - (2 ^ 63) \<le> i \<and> i < 2 ^ 63"

lemma wrap64_range [simp, intro]: "is_int64 (wrap64 i)"
  by (simp add: is_int64_def wrap64_def)

lemma wrap64_id [simp]: "is_int64 i \<Longrightarrow> wrap64 i = i"
  by (simp add: is_int64_def wrap64_def)

lemma wrap64_idem [simp]: "wrap64 (wrap64 i) = wrap64 i"
  by simp

lemma wrap64_cong: "wrap64 i = wrap64 j \<longleftrightarrow> i mod 2 ^ 64 = j mod 2 ^ 64"
proof -
  have "wrap64 i = wrap64 j \<longleftrightarrow> (i + 2 ^ 63) mod 2 ^ 64 = (j + 2 ^ 63) mod 2 ^ 64"
    by (simp add: wrap64_def)
  also have "\<dots> \<longleftrightarrow> i mod 2 ^ 64 = j mod 2 ^ 64"
    by (simp add: mod_eq_dvd_iff)
  finally show ?thesis .
qed

lemma wrap64_mod [simp]: "wrap64 i mod 2 ^ 64 = i mod 2 ^ 64"
  by (simp add: wrap64_def mod_diff_left_eq)

lemma wrap64_add_sub: "is_int64 x \<Longrightarrow> wrap64 (y + wrap64 (x - y)) = x"
proof -
  assume x: "is_int64 x"
  have "wrap64 (y + wrap64 (x - y)) = wrap64 x"
    unfolding wrap64_cong by (metis (no_types, opaque_lifting) add.commute diff_add_cancel mod_add_left_eq wrap64_mod)
  then show ?thesis using x by simp
qed

text \<open>Integer division of Go truncates towards zero.\<close>

definition go_quot :: "int \<Rightarrow> int \<Rightarrow> int" where
  "go_quot a b = sgn a * sgn b * (\<bar>a\<bar> div \<bar>b\<bar>)"

section \<open>Error results\<close>

datatype go_error =
    ErrFieldNotFound | ErrFieldWrongType | ErrNotSupportedType | ErrToInt64 | ErrParseInt
  | ErrElementNotFound | ErrNodeNotFound | ErrEdgeNotFound | ErrParentNotFound
  | ErrChildNotFound | ErrEdgeConflict | ErrNodeConflict | ErrInternal
  | ErrNoHistory | ErrNoID | ErrDecode | ErrParentFormat | ErrChildFormat
  | ErrFlowProtocol | ErrLayerNotFound | ErrExtraLayer | ErrLayerKeyMode | ErrLinkType
  | ErrBackend | ErrNoMatchingType | ErrInvalidPortRange | ErrNoPortLeft | ErrMsg string

type_synonym 'a result = "go_error + 'a"

definition is_ok :: "'a result \<Rightarrow> bool" where
  "is_ok r = (case r of Inl _ \<Rightarrow> False | Inr _ \<Rightarrow> True)"

definition ok_value :: "'a result \<Rightarrow> 'a option" where
  "ok_value r = (case r of Inl _ \<Rightarrow> None | Inr v \<Rightarrow> Some v)"

text \<open>The value a caller sees that ignores the error: the zero value on an error.\<close>

definition value_or :: "'a \<Rightarrow> 'a result \<Rightarrow> 'a" where
  "value_or z r = (case r of Inl _ \<Rightarrow> z | Inr v \<Rightarrow> v)"

lemma is_ok_simps [simp, result_simps]: "is_ok (Inr v)" "\<not> is_ok (Inl e)"
  by (simp_all add: is_ok_def)

lemma ok_value_simps [simp, result_simps]: "ok_value (Inr v) = Some v" "ok_value (Inl e) = None"
  by (simp_all add: ok_value_def)

lemma value_or_simps [simp, result_simps]: "value_or z (Inr v) = v" "value_or z (Inl e) = z"
  by (simp_all add: value_or_def)

lemma is_ok_iff: "is_ok r \<longleftrightarrow> (\<exists>v. r = Inr v)"
  by (cases r) auto

lemma ok_value_Some_iff [simp]: "ok_value r = Some v \<longleftrightarrow> r = Inr v"
  by (cases r) auto

section \<open>Dotted keys\<close>

text \<open>\<^verbatim>\<open>strings.Split(k, ".")\<close> and \<^verbatim>\<open>strings.Join(l, ".")\<close>.\<close>

fun split_dot :: "string \<Rightarrow> string list" where
  "split_dot [] = [[]]"
| "split_dot (c # cs) =
     (if c = CHR ''.'' then [] # split_dot cs
      else (case split_dot cs of [] \<Rightarrow> [[c]] | w # ws \<Rightarrow> (c # w) # ws))"

fun join_dot :: "string list \<Rightarrow> string" where
  "join_dot [] = []"
| "join_dot [w] = w"
| "join_dot (w # ws) = w @ ''.'' @ join_dot ws"

text \<open>\<^verbatim>\<open>strings.Index(s, ".")\<close> with the two halves around the first dot.\<close>

definition cut_dot :: "string \<Rightarrow> (string \<times> string) option" where
  "cut_dot s = (if CHR ''.'' \<in> set s
                then Some (takeWhile (\<lambda>c. c \<noteq> CHR ''.'') s, tl (dropWhile (\<lambda>c. c \<noteq> CHR ''.'') s))
                else None)"

lemma split_dot_nonempty [simp]: "split_dot s \<noteq> []"
  by (induction s) (auto split: list.splits)

lemma split_dot_no_dot: "w \<in> set (split_dot s) \<Longrightarrow> CHR ''.'' \<notin> set w"
  by (induction s arbitrary: w) (auto split: if_splits list.splits)

lemma split_dot_plain: "CHR ''.'' \<notin> set w \<Longrightarrow> split_dot w = [w]"
  by (induction w) (auto split: list.splits)

lemma split_dot_append:
  "CHR ''.'' \<notin> set w \<Longrightarrow> split_dot (w @ ''.'' @ s) = w # split_dot s"
  by (induction w) (auto split: list.splits)

lemma split_join:
  "ws \<noteq> [] \<Longrightarrow> \<forall>w \<in> set ws. CHR ''.'' \<notin> set w \<Longrightarrow> split_dot (join_dot ws) = ws"
proof (induction ws rule: join_dot.induct)
  case (3 w v vs)
  then show ?case using split_dot_append [of w "join_dot (v # vs)"] by simp
qed (simp_all add: split_dot_plain)

lemma join_split: "join_dot (split_dot s) = s"
proof (induction s)
  case (Cons c s)
  obtain w ws where eq: "split_dot s = w # ws" by (cases "split_dot s") auto
  show ?case
  proof (cases "c = CHR ''.''")
    case True
    with Cons eq show ?thesis by simp
  next
    case False
    with Cons eq show ?thesis by (cases ws) auto
  qed
qed simp

end
