(* ===== verification/Go_Values.thy ===== *)
theory Go_Values
  imports Sky_Prelude
begin

text \<open>
  The dynamically typed values that graph metadata holds (\<^verbatim>\<open>interface{}\<close> in
  \<^verbatim>\<open>src/common/types.go\<close>) and the dotted-key operations on trees of such values:
  \<^verbatim>\<open>SetMapField\<close>, \<^verbatim>\<open>GetMapField\<close>, \<^verbatim>\<open>DelField\<close>, \<^verbatim>\<open>getFieldKeys\<close> and
  \<^verbatim>\<open>ToInt64\<close>.

  A value is a JSON-like value, a typed slice, a Go integer of any width, or a nested
  \<^verbatim>\<open>graph.Metadata\<close>, which is the one metadata value here that implements the \<^verbatim>\<open>Getter\<close>
  interface; Go structs stored as metadata are not represented, and a nil slice is not
  distinguished from an empty one.  The operations take the list of components of the key
  (\<^verbatim>\<open>strings.Split(k, ".")\<close>); \<open>SetMapField\<close>, \<open>GetMapField\<close> and \<open>DelField\<close> apply
  them to a dotted key.
\<close>

section \<open>Values\<close>

datatype int_kind =
  KInt | KUint | KInt8 | KUint8 | KInt16 | KUint16 | KInt32 | KUint32 | KInt64 | KUint64

datatype gval =
    VNil
  | VBool bool
  | VInt int_kind int
  | VFloat rat
  | VNumber "int option" "rat option" \<comment> \<open>\<^verbatim>\<open>json.Number\<close>, by what its \<^verbatim>\<open>Int64()\<close> and \<^verbatim>\<open>Float64()\<close> return\<close>
  | VString string
  | VList "gval list"
  | VStrings "string list"
  | VInts "int list"
  | VBools "bool list"
  | VMap "(string \<times> gval) list"
  | VMetadata "(string \<times> gval) list"

type_synonym tree = "(string, gval) gomap"

abbreviation VInt64 :: "int \<Rightarrow> gval" where
  "VInt64 \<equiv> VInt KInt64"

section \<open>Conversion to int64\<close>

definition is_digit :: "char \<Rightarrow> bool" where
  "is_digit c \<longleftrightarrow> c \<in> set ''0123456789''"

definition digit_value :: "char \<Rightarrow> int" where
  "digit_value c = int (of_char c) - 48"

definition digits_value :: "string \<Rightarrow> int" where
  "digits_value s = foldl (\<lambda>acc c. 10 * acc + digit_value c) 0 s"

text \<open>\<^verbatim>\<open>strconv.ParseInt(s, 10, 64)\<close>: an optional sign, digits, and the range check.\<close>

definition ParseInt :: "string \<Rightarrow> int result" where
  "ParseInt s =
     (let (neg, ds) = (case s of c # cs \<Rightarrow> if c = CHR ''-'' then (True, cs)
                                             else if c = CHR ''+'' then (False, cs) else (False, s)
                              | [] \<Rightarrow> (False, s));
          n = (if neg then - digits_value ds else digits_value ds)
      in if ds = [] \<or> \<not> list_all is_digit ds then Inl ErrParseInt
         else if is_int64 n then Inr n else Inl ErrParseInt)"

text \<open>\<^verbatim>\<open>int64(f)\<close> truncates; out of range the hardware result is the least int64.\<close>

definition float_to_int64 :: "rat \<Rightarrow> int" where
  "float_to_int64 q = (let t = (if q < 0 then - \<lfloor>- q\<rfloor> else \<lfloor>q\<rfloor>) in if is_int64 t then t else - (2 ^ 63))"

fun ToInt64 :: "gval \<Rightarrow> int result" where
  "ToInt64 (VNumber (Some i) _) = Inr i"
| "ToInt64 (VNumber None (Some f)) = Inr (float_to_int64 f)"
| "ToInt64 (VString s) = ParseInt s"
| "ToInt64 (VInt _ i) = Inr (wrap64 i)"
| "ToInt64 (VFloat f) = Inr (float_to_int64 f)"
| "ToInt64 _ = Inl ErrToInt64"

definition MinInt64 :: "int \<Rightarrow> int \<Rightarrow> int" where
  "MinInt64 a b = (if a < b then a else b)"

definition MaxInt64 :: "int \<Rightarrow> int \<Rightarrow> int" where
  "MaxInt64 a b = (if a > b then a else b)"

text \<open>\<^verbatim>\<open>UnixMillis\<close>: a time is its nanoseconds since the epoch, \<^verbatim>\<open>UnixNano\<close> wraps.\<close>

definition UnixMillis :: "int \<Rightarrow> int" where
  "UnixMillis t = go_quot (wrap64 t) 1000000"

section \<open>Trees with dotted keys\<close>

text \<open>The type assertions \<^verbatim>\<open>v.(map[string]interface{})\<close>, \<^verbatim>\<open>v.(Getter)\<close> and \<^verbatim>\<open>v.([]interface{})\<close>.\<close>

fun asMap :: "gval \<Rightarrow> tree option" where
  "asMap (VMap m) = Some m"
| "asMap _ = None"

fun asGetter :: "gval \<Rightarrow> tree option" where
  "asGetter (VMetadata m) = Some m"
| "asGetter _ = None"

fun asList :: "gval \<Rightarrow> gval list option" where
  "asList (VList vs) = Some vs"
| "asList _ = None"

fun setMapField :: "tree \<Rightarrow> string list \<Rightarrow> gval \<Rightarrow> tree \<times> bool" where
  "setMapField obj [] v = (obj, True)"
| "setMapField obj (c # cs) v =
     (if cs = [] then (gm_set c v obj, True)
      else (case map_of obj c of
              None \<Rightarrow> (let (m, ok) = setMapField [] cs v in (gm_set c (VMap m) obj, ok))
            | Some w \<Rightarrow>
                (case asMap w of
                   None \<Rightarrow> (obj, False)
                 | Some m \<Rightarrow> (let (m', ok) = setMapField m cs v in (gm_set c (VMap m') obj, ok)))))"

fun delField :: "tree \<Rightarrow> string list \<Rightarrow> tree \<times> bool" where
  "delField obj [] = (obj, False)"
| "delField obj (c # cs) =
     (case map_of obj c of
        None \<Rightarrow> (obj, False)
      | Some w \<Rightarrow>
          (if cs = [] then (gm_del c obj, length obj \<noteq> length (gm_del c obj))
           else (case asMap w of
                   None \<Rightarrow> (obj, False)
                 | Some m \<Rightarrow> (let (m', removed) = delField m cs
                             in (if removed \<and> m' = [] then gm_del c obj
                                 else gm_set c (VMap m') obj, removed)))))"

fun getMapField :: "tree \<Rightarrow> string list \<Rightarrow> gval result" where
  "getMapField obj [] = Inr (VMap obj)"
| "getMapField obj (c # cs) =
     (case map_of obj c of
        None \<Rightarrow> Inl ErrFieldNotFound
      | Some i \<Rightarrow>
          (if cs = [] then Inr i
           else (case asGetter i of
                   Some m \<Rightarrow> getMapField m cs
                 | None \<Rightarrow>
           (case asList i of
                   Some vs \<Rightarrow>
                     Inr (VList (List.map_filter
                       (\<lambda>v. case asGetter v of
                              Some m \<Rightarrow> ok_value (getMapField m cs)
                            | None \<Rightarrow> (case asMap v of
                                         Some m \<Rightarrow> ok_value (getMapField m cs)
                                       | None \<Rightarrow> None)) vs))
                 | None \<Rightarrow>
           (case asMap i of
                   Some m \<Rightarrow> getMapField m cs
                 | None \<Rightarrow> Inl ErrNotSupportedType)))))"

definition SetMapField :: "tree \<Rightarrow> string \<Rightarrow> gval \<Rightarrow> tree \<times> bool" where
  "SetMapField obj k v = setMapField obj (split_dot k) v"

definition DelField :: "tree \<Rightarrow> string \<Rightarrow> tree \<times> bool" where
  "DelField obj k = delField obj (split_dot k)"

definition GetMapField :: "tree \<Rightarrow> string \<Rightarrow> gval result" where
  "GetMapField obj k = getMapField obj (split_dot k)"

text \<open>
  \<^verbatim>\<open>getFieldKeys\<close>: every key with its path; below a nested \<^verbatim>\<open>Metadata\<close> (a \<^verbatim>\<open>Getter\<close>) the
  source prepends the key alone and not the path that led to it.
\<close>

fun getFieldKeys :: "tree \<Rightarrow> string \<Rightarrow> string list" where
  "getFieldKeys [] path = []"
| "getFieldKeys ((k, v) # obj) path =
     (let p = (if path = [] then [] else path @ ''.'')
      in (p @ k) #
         (case v of
            VMetadata m \<Rightarrow> map (\<lambda>sub. k @ ''.'' @ sub) (getFieldKeys m [])
          | VMap m \<Rightarrow> getFieldKeys m (p @ k)
          | _ \<Rightarrow> []) @
         getFieldKeys obj path)"

definition GetMapFieldKeys :: "tree \<Rightarrow> string list" where
  "GetMapFieldKeys obj = getFieldKeys obj []"

text \<open>\<^verbatim>\<open>normalizeNumbers\<close> of \<^verbatim>\<open>src/graffiti/graph/graph.go\<close>: integral floats become int64.\<close>

fun normalizeNumbers :: "gval \<Rightarrow> gval" where
  "normalizeNumbers (VFloat f) =
     (if of_int (float_to_int64 f) = f then VInt64 (float_to_int64 f) else VFloat f)"
| "normalizeNumbers (VList vs) = VList (map normalizeNumbers vs)"
| "normalizeNumbers (VMap m) = VMap (map (\<lambda>(k, v). (k, normalizeNumbers v)) m)"
| "normalizeNumbers v = v"

text \<open>
  \<^verbatim>\<open>reflect.DeepEqual\<close>: same dynamic type and, for maps, the same keys with deeply equal
  values, whatever the iteration order.
\<close>

fun DeepEqual :: "gval \<Rightarrow> gval \<Rightarrow> bool" where
  "DeepEqual (VList xs) (VList ys) \<longleftrightarrow> list_all2 DeepEqual xs ys"
| "DeepEqual (VMap xs) (VMap ys) \<longleftrightarrow>
     length xs = length ys \<and>
     (\<forall>(k, v) \<in> set xs. case map_of ys k of None \<Rightarrow> False | Some w \<Rightarrow> DeepEqual v w)"
| "DeepEqual (VMetadata xs) (VMetadata ys) \<longleftrightarrow>
     length xs = length ys \<and>
     (\<forall>(k, v) \<in> set xs. case map_of ys k of None \<Rightarrow> False | Some w \<Rightarrow> DeepEqual v w)"
| "DeepEqual x y \<longleftrightarrow> x = y"

section \<open>Well-formed values\<close>

text \<open>Every map inside a value has distinct keys.\<close>

fun val_wf :: "gval \<Rightarrow> bool" where
  "val_wf (VList vs) \<longleftrightarrow> (\<forall>v \<in> set vs. val_wf v)"
| "val_wf (VMap m) \<longleftrightarrow> gm_wf m \<and> (\<forall>(k, v) \<in> set m. val_wf v)"
| "val_wf (VMetadata m) \<longleftrightarrow> gm_wf m \<and> (\<forall>(k, v) \<in> set m. val_wf v)"
| "val_wf _ \<longleftrightarrow> True"

definition tree_wf :: "tree \<Rightarrow> bool" where
  "tree_wf m \<longleftrightarrow> val_wf (VMap m)"

text \<open>Trees whose keys are the non-empty words without a dot, with plain maps inside.\<close>

definition plain_key :: "string \<Rightarrow> bool" where
  "plain_key k \<longleftrightarrow> k \<noteq> [] \<and> CHR ''.'' \<notin> set k"

fun plain_val :: "gval \<Rightarrow> bool" where
  "plain_val (VMap m) \<longleftrightarrow> gm_wf m \<and> (\<forall>(k, v) \<in> set m. plain_key k \<and> plain_val v)"
| "plain_val (VMetadata m) \<longleftrightarrow> False"
| "plain_val _ \<longleftrightarrow> True"

lemma tree_wf_empty [simp, intro]: "tree_wf []"
  by (simp add: tree_wf_def)

lemma tree_wf_lookup: "tree_wf m \<Longrightarrow> map_of m k = Some v \<Longrightarrow> val_wf v"
  by (auto simp: tree_wf_def dest: map_of_SomeD)

lemma asMap_Some [simp]: "asMap v = Some m \<longleftrightarrow> v = VMap m"
  by (cases v) auto

lemma set_gm_set_subset: "(a, b) \<in> set (gm_set k v m) \<Longrightarrow> (a, b) = (k, v) \<or> (a, b) \<in> set m"
  by (induction m) (auto split: if_splits)

lemma set_gm_del_subset: "x \<in> set (gm_del k m) \<Longrightarrow> x \<in> set m"
  by (induction m) (auto split: if_splits)

lemma tree_wf_set: "tree_wf m \<Longrightarrow> val_wf v \<Longrightarrow> tree_wf (gm_set k v m)"
  by (auto simp: tree_wf_def dest!: set_gm_set_subset)

lemma tree_wf_set_map: "tree_wf m \<Longrightarrow> tree_wf m' \<Longrightarrow> tree_wf (gm_set k (VMap m') m)"
  by (rule tree_wf_set) (simp_all add: tree_wf_def)

lemma tree_wf_del: "tree_wf m \<Longrightarrow> tree_wf (gm_del k m)"
  by (auto simp: tree_wf_def dest!: set_gm_del_subset)

lemma tree_wf_sub: "tree_wf obj \<Longrightarrow> map_of obj c = Some (VMap m) \<Longrightarrow> tree_wf m"
  using tree_wf_lookup [of obj c "VMap m"] by (simp add: tree_wf_def)

section \<open>Set, get and delete\<close>

lemma setMapField_wf:
  "tree_wf obj \<Longrightarrow> val_wf v \<Longrightarrow> tree_wf (fst (setMapField obj cs v))"
proof (induction cs arbitrary: obj)
  case (Cons c cs)
  then show ?case
    by (auto intro: tree_wf_set tree_wf_set_map dest: tree_wf_sub simp: case_prod_beta split: option.split)
qed simp

lemma setMapField_get:
  "cs \<noteq> [] \<Longrightarrow> snd (setMapField obj cs v) \<Longrightarrow> getMapField (fst (setMapField obj cs v)) cs = Inr v"
proof (induction cs arbitrary: obj)
  case (Cons c cs)
  then show ?case
    by (auto simp: case_prod_beta split: option.splits if_splits)
qed simp

lemma setMapField_new: "cs \<noteq> [] \<Longrightarrow> snd (setMapField [] cs v) \<and> fst (setMapField [] cs v) \<noteq> []"
proof (induction cs)
  case (Cons c cs)
  then show ?case by (cases cs) (auto simp: case_prod_beta)
qed simp

lemma setMapField_fail: "\<not> snd (setMapField obj cs v) \<Longrightarrow> fst (setMapField obj cs v) = obj"
proof (induction cs arbitrary: obj)
  case (Cons c cs)
  then show ?case
    using setMapField_new [of cs v]
    by (auto simp: case_prod_beta gm_set_same split: option.splits if_splits)
qed simp

text \<open>A key that leaves the path of the update at some component keeps its value.\<close>

lemma setMapField_other:
  "a \<noteq> b \<Longrightarrow>
   getMapField (fst (setMapField obj (p @ a # xs) v)) (p @ b # ys) = getMapField obj (p @ b # ys)"
proof (induction p arbitrary: obj)
  case Nil
  then show ?case by (auto simp: case_prod_beta split: option.split)
next
  case (Cons c p)
  have empty: "getMapField [] (p @ b # ys) = Inl ErrFieldNotFound" by (cases p) auto
  show ?case
    using Cons.IH [OF Cons.prems] empty
    by (auto simp: case_prod_beta split: option.split)
qed

lemma delField_wf: "tree_wf obj \<Longrightarrow> tree_wf (fst (delField obj cs))"
proof (induction cs arbitrary: obj)
  case (Cons c cs)
  then show ?case
    by (auto intro: tree_wf_del tree_wf_set_map dest: tree_wf_sub simp: case_prod_beta split: option.split)
qed simp

lemma delField_get: "snd (delField obj cs) \<Longrightarrow> getMapField (fst (delField obj cs)) cs = Inl ErrFieldNotFound"
proof (induction cs arbitrary: obj)
  case (Cons c cs)
  then show ?case
    by (auto simp: case_prod_beta split: option.splits if_splits)
qed simp

lemma delField_fail: "\<not> snd (delField obj cs) \<Longrightarrow> fst (delField obj cs) = obj"
proof (induction cs arbitrary: obj)
  case (Cons c cs)
  then show ?case
    using gm_del_shorter [of obj c]
    by (auto simp: case_prod_beta gm_set_same split: option.splits if_splits)
qed simp

text \<open>Setting a key whose first component is new and deleting it again restores the tree.\<close>

lemma set_del_restores:
  "cs \<noteq> [] \<Longrightarrow> map_of obj (hd cs) = None \<Longrightarrow> delField (fst (setMapField obj cs v)) cs = (obj, True)"
proof (induction cs arbitrary: obj)
  case (Cons c cs)
  have shorter: "length (gm_del c (gm_set c w obj)) \<noteq> length (gm_set c w obj)" for w
    using gm_del_shorter [of "gm_set c w obj" c w] by simp
  show ?case
  proof (cases "cs = []")
    case True
    with Cons.prems shorter [of v] show ?thesis by (simp add: gm_del_set_fresh)
  next
    case False
    then obtain d ds where cs: "cs = d # ds" by (cases cs) auto
    with Cons.IH [of "[]"] have "delField (fst (setMapField [] cs v)) cs = ([], True)" by simp
    with False Cons.prems show ?thesis
      by (simp add: case_prod_beta gm_del_set_fresh)
  qed
qed simp

section \<open>Deep equality and the list of keys\<close>

lemma DeepEqual_map_refl:
  "gm_wf m \<Longrightarrow> (\<And>k v. (k, v) \<in> set m \<Longrightarrow> DeepEqual v v) \<Longrightarrow>
   \<forall>(k, v) \<in> set m. case map_of m k of None \<Rightarrow> False | Some w \<Rightarrow> DeepEqual v w"
  by (auto simp: gm_lookup_iff [symmetric])

lemma DeepEqual_refl: "val_wf v \<Longrightarrow> DeepEqual v v"
proof (induction v rule: val_wf.induct)
  case (1 vs)
  then show ?case by (auto intro: list.rel_refl_strong)
next
  case (2 m)
  then have "DeepEqual v v" if "(k, v) \<in> set m" for k v using that by fastforce
  with 2 show ?case using DeepEqual_map_refl [of m] by simp
next
  case (3 m)
  then have "DeepEqual v v" if "(k, v) \<in> set m" for k v using that by fastforce
  with 3 show ?case using DeepEqual_map_refl [of m] by simp
qed simp_all

text \<open>Deeply equal maps have the same keys and deeply equal entries.\<close>

lemma DeepEqual_map_lookup:
  assumes wf: "gm_wf xs" and eq: "DeepEqual (VMap xs) (VMap ys)" and x: "map_of xs k = Some v"
  shows "\<exists>w. map_of ys k = Some w \<and> DeepEqual v w"
proof -
  from wf x have "(k, v) \<in> set xs" by (simp add: gm_lookup_iff)
  with eq show ?thesis by (auto split: option.splits)
qed

lemma DeepEqual_map_keys:
  assumes "gm_wf xs" "gm_wf ys" and eq: "DeepEqual (VMap xs) (VMap ys)"
  shows "fst ` set xs = fst ` set ys"
proof (rule card_subset_eq)
  show "finite (fst ` set ys)" by simp
  show "fst ` set xs \<subseteq> fst ` set ys"
    using eq by (force split: option.splits dest: map_of_SomeD)
  have "card (fst ` set zs) = length zs" if "gm_wf zs" for zs :: tree
    using that distinct_card [of "map fst zs"] by (simp add: gm_wf_def)
  with assms show "card (fst ` set xs) = card (fst ` set ys)" by simp
qed

lemma plain_sub: "plain_val (VMap ((k, v) # obj)) \<Longrightarrow> plain_val (VMap obj) \<and> plain_key k \<and> plain_val v"
  by (auto simp: gm_wf_def)

lemma getMapField_tail:
  assumes "plain_val (VMap ((k, v) # obj))" "cs \<noteq> []" "is_ok (getMapField obj cs)"
  shows "getMapField ((k, v) # obj) cs = getMapField obj cs"
proof -
  obtain c ds where cs: "cs = c # ds" using assms(2) by (cases cs) auto
  with assms(3) have "map_of obj c \<noteq> None" by (auto split: option.splits)
  then have "c \<in> fst ` set obj" by (simp add: gm_keys_iff)
  with assms(1) have "c \<noteq> k" by (auto simp: gm_wf_def)
  with cs show ?thesis by simp
qed

lemma getFieldKeys_resolves:
  assumes "plain_val (VMap obj)" and "x \<in> set (getFieldKeys obj path)"
  shows "\<exists>cs. cs \<noteq> [] \<and> (\<forall>c \<in> set cs. plain_key c) \<and> is_ok (getMapField obj cs) \<and>
              x = (if path = [] then [] else path @ ''.'') @ join_dot cs"
  using assms
proof (induction obj path arbitrary: x rule: getFieldKeys.induct)
  case (2 k v obj path)
  let ?p = "if path = [] then [] else path @ ''.''"
  from plain_sub [OF "2.prems"(1)] have plain: "plain_val (VMap obj)" "plain_key k" "plain_val v"
    by simp_all
  from "2.prems"(2) plain(3) consider "x = ?p @ k"
    | m where "v = VMap m" "x \<in> set (getFieldKeys m (?p @ k))"
    | "x \<in> set (getFieldKeys obj path)"
    by (cases v) (auto simp: Let_def)
  then show ?case
  proof cases
    case 1
    with plain(2) show ?thesis by (intro exI [of _ "[k]"]) simp
  next
    case (2 m)
    from "2.IH"(1) [OF refl 2(1) _ 2(2)] 2(1) plain(3) obtain cs where cs: "cs \<noteq> []"
      "\<forall>c \<in> set cs. plain_key c" "is_ok (getMapField m cs)" "x = (?p @ k @ ''.'') @ join_dot cs"
      using plain(2) by (auto simp: plain_key_def split: if_splits)
    with 2(1) plain(2) show ?thesis
      by (intro exI [of _ "k # cs"]) (cases cs; simp)
  next
    case 3
    from "2.IH"(3) [OF refl plain(1) this] obtain cs where cs: "cs \<noteq> []"
      "\<forall>c \<in> set cs. plain_key c" "is_ok (getMapField obj cs)" "x = ?p @ join_dot cs" by auto
    with getMapField_tail [OF "2.prems"(1) cs(1,3)] show ?thesis by (intro exI [of _ cs]) simp
  qed
qed simp

end
