(* ===== verification/Filters.thy ===== *)
theory Filters
  imports Go_Values
begin

text \<open>
  The filter language of \<^verbatim>\<open>src/filters/filters.go\<close> over any object that implements the
  \<^verbatim>\<open>Getter\<close> interface of \<^verbatim>\<open>src/common/types.go\<close>.  An interface value is the record of its
  methods.  A \<^verbatim>\<open>Filter\<close> is, as in the protobuf message, a struct of optional sub-filters of
  which the evaluator takes the first one set.  The regular-expression engine and
  \<^verbatim>\<open>common.IPV4CIDRToRegex\<close> are parameters (\<open>regex_env\<close>), and so is the content of the
  process-wide expression cache when a filter is evaluated.
\<close>

section \<open>The Getter interface\<close>

record getter =
  GetField :: "string \<Rightarrow> gval result"
  GetFieldKeys :: "string list"
  GetFieldBool :: "string \<Rightarrow> bool result"
  GetFieldInt64 :: "string \<Rightarrow> int result"
  GetFieldString :: "string \<Rightarrow> string result"
  MatchBool :: "string \<Rightarrow> (bool \<Rightarrow> bool) \<Rightarrow> bool"
  MatchInt64 :: "string \<Rightarrow> (int \<Rightarrow> bool) \<Rightarrow> bool"
  MatchString :: "string \<Rightarrow> (string \<Rightarrow> bool) \<Rightarrow> bool"

record regex_env =
  regexpCache :: "(string, string) gomap" \<comment> \<open>cache key to expression source\<close>
  cidrRegex :: "string \<Rightarrow> string" \<comment> \<open>\<^verbatim>\<open>common.IPV4CIDRToRegex\<close>\<close>
  regexMatch :: "string \<Rightarrow> string \<Rightarrow> bool" \<comment> \<open>expression source, subject\<close>

section \<open>Filters\<close>

datatype BoolFilterOp = OR_op | AND_op | NOT_op

datatype Filter = Filter
  (TermStringFilter: "(string \<times> string) option")
  (TermInt64Filter: "(string \<times> int) option")
  (TermBoolFilter: "(string \<times> bool) option")
  (GtInt64Filter: "(string \<times> int) option")
  (LtInt64Filter: "(string \<times> int) option")
  (GteInt64Filter: "(string \<times> int) option")
  (LteInt64Filter: "(string \<times> int) option")
  (BoolFilter: "(BoolFilterOp \<times> Filter list) option")
  (RegexFilter: "(string \<times> string) option")
  (NullFilter: "string option")
  (IPV4RangeFilter: "(string \<times> string) option")

abbreviation NoFilter :: Filter where
  "NoFilter \<equiv> Filter None None None None None None None None None None None"

text \<open>The predicate of a \<^verbatim>\<open>RegexFilter\<close> and of an \<^verbatim>\<open>IPV4RangeFilter\<close>: both look the value up in
  the same cache before they compile it.\<close>

definition regexPredicate :: "regex_env \<Rightarrow> string \<Rightarrow> string \<Rightarrow> bool" where
  "regexPredicate env v s =
     regexMatch env (case map_of (regexpCache env) v of Some re \<Rightarrow> re | None \<Rightarrow> v) s"

definition ipv4RangePredicate :: "regex_env \<Rightarrow> string \<Rightarrow> string \<Rightarrow> bool" where
  "ipv4RangePredicate env v s =
     regexMatch env (case map_of (regexpCache env) v of Some re \<Rightarrow> re | None \<Rightarrow> cidrRegex env v) s"

text \<open>
  The tests of \<^verbatim>\<open>Filter.Eval\<close> after the one for a boolean filter, in the source's order:
  \<open>ifSet o p rest\<close> is \<^verbatim>\<open>if o != nil { return p }\<close> followed by \<open>rest\<close>.
\<close>

definition ifSet :: "'a option \<Rightarrow> ('a \<Rightarrow> bool) \<Rightarrow> bool \<Rightarrow> bool" where
  "ifSet x p rest = (case x of Some v \<Rightarrow> p v | None \<Rightarrow> rest)"

definition EvalLeaf :: "regex_env \<Rightarrow> getter \<Rightarrow> Filter \<Rightarrow> bool" where
  "EvalLeaf env g f =
     ifSet (TermStringFilter f) (\<lambda>(k, v). MatchString g k (\<lambda>s. s = v)) (
     ifSet (TermInt64Filter f) (\<lambda>(k, v). MatchInt64 g k (\<lambda>i. i = v)) (
     ifSet (TermBoolFilter f) (\<lambda>(k, v). MatchBool g k (\<lambda>b. b = v)) (
     ifSet (GtInt64Filter f) (\<lambda>(k, v). MatchInt64 g k (\<lambda>i. i > v)) (
     ifSet (LtInt64Filter f) (\<lambda>(k, v). MatchInt64 g k (\<lambda>i. i < v)) (
     ifSet (GteInt64Filter f) (\<lambda>(k, v). MatchInt64 g k (\<lambda>i. i \<ge> v)) (
     ifSet (LteInt64Filter f) (\<lambda>(k, v). MatchInt64 g k (\<lambda>i. i \<le> v)) (
     ifSet (RegexFilter f) (\<lambda>(k, v). MatchString g k (regexPredicate env v)) (
     ifSet (NullFilter f) (\<lambda>k. \<not> is_ok (GetField g k)) (
     ifSet (IPV4RangeFilter f) (\<lambda>(k, v). MatchString g k (ipv4RangePredicate env v)) True)))))))))"

lemma ifSet_simps [simp]: "ifSet (Some x) p r = p x" "ifSet None p r = r"
  by (simp_all add: ifSet_def)

lemma BoolFilter_smaller: "BoolFilter f = Some (op, fs) \<Longrightarrow> size_list size fs < size f"
  by (cases f) simp

text \<open>\<open>BoolEval op n fs\<close> is the loop of \<^verbatim>\<open>BoolFilter.Eval\<close>, with \<open>n\<close> the length of the whole list.\<close>

function (sequential) Eval :: "regex_env \<Rightarrow> getter \<Rightarrow> Filter \<Rightarrow> bool"
  and BoolEval :: "regex_env \<Rightarrow> getter \<Rightarrow> BoolFilterOp \<Rightarrow> nat \<Rightarrow> Filter list \<Rightarrow> bool" where
  "Eval env g f =
     (case BoolFilter f of Some (op, fs) \<Rightarrow> BoolEval env g op (length fs) fs
                         | None \<Rightarrow> EvalLeaf env g f)"
| "BoolEval env g op n [] = (op = AND_op \<or> n = 0)"
| "BoolEval env g op n (f # fs) =
     (let result = Eval env g f
      in if op = NOT_op \<and> \<not> result then True
         else if op = AND_op \<and> \<not> result then False
         else if op = OR_op \<and> result then True
         else BoolEval env g op n fs)"
  by pat_completeness auto
termination
  by (relation "measure (\<lambda>x. case x of Inl (_, _, f) \<Rightarrow> size f | Inr (_, _, _, _, fs) \<Rightarrow> size_list size fs)")
    (auto dest: BoolFilter_smaller)

declare Eval.simps [simp del]

section \<open>Constructors\<close>

text \<open>The argument filters of a boolean filter may be nil; those are left out.\<close>

definition NewBoolFilter :: "BoolFilterOp \<Rightarrow> Filter option list \<Rightarrow> Filter" where
  "NewBoolFilter op fs =
     Filter None None None None None None None (Some (op, List.map_filter (\<lambda>f. f) fs)) None None None"

definition NewAndFilter :: "Filter option list \<Rightarrow> Filter" where
  "NewAndFilter fs = NewBoolFilter AND_op fs"

definition NewOrFilter :: "Filter option list \<Rightarrow> Filter" where
  "NewOrFilter fs = NewBoolFilter OR_op fs"

definition NewNotFilter :: "Filter option \<Rightarrow> Filter" where
  "NewNotFilter f = NewBoolFilter NOT_op [f]"

definition NewGtInt64Filter :: "string \<Rightarrow> int \<Rightarrow> Filter" where
  "NewGtInt64Filter k v = Filter None None None (Some (k, v)) None None None None None None None"

definition NewGteInt64Filter :: "string \<Rightarrow> int \<Rightarrow> Filter" where
  "NewGteInt64Filter k v = Filter None None None None None (Some (k, v)) None None None None None"

definition NewLtInt64Filter :: "string \<Rightarrow> int \<Rightarrow> Filter" where
  "NewLtInt64Filter k v = Filter None None None None (Some (k, v)) None None None None None None"

definition NewLteInt64Filter :: "string \<Rightarrow> int \<Rightarrow> Filter" where
  "NewLteInt64Filter k v = Filter None None None None None None (Some (k, v)) None None None None"

definition NewTermInt64Filter :: "string \<Rightarrow> int \<Rightarrow> Filter" where
  "NewTermInt64Filter k v = Filter None (Some (k, v)) None None None None None None None None None"

definition NewTermStringFilter :: "string \<Rightarrow> string \<Rightarrow> Filter" where
  "NewTermStringFilter k v = Filter (Some (k, v)) None None None None None None None None None None"

definition NewTermBoolFilter :: "string \<Rightarrow> bool \<Rightarrow> Filter" where
  "NewTermBoolFilter k v = Filter None None (Some (k, v)) None None None None None None None None"

definition NewNullFilter :: "string \<Rightarrow> Filter" where
  "NewNullFilter k = Filter None None None None None None None None None (Some k) None"

definition NewNotNullFilter :: "string \<Rightarrow> Filter" where
  "NewNotNullFilter k = NewNotFilter (Some (NewNullFilter k))"

text \<open>\<^verbatim>\<open>NewRegexFilter\<close> and \<^verbatim>\<open>NewIPV4RangeFilter\<close>: a compilation that fails is an error, one that
  succeeds is stored in the cache under the filter's value.\<close>

definition NewRegexFilter ::
  "(string \<Rightarrow> bool) \<Rightarrow> regex_env \<Rightarrow> string \<Rightarrow> string \<Rightarrow> regex_env \<times> Filter result" where
  "NewRegexFilter compiles env k pattern =
     (if compiles pattern
      then (env\<lparr>regexpCache := gm_set pattern pattern (regexpCache env)\<rparr>,
            Inr (Filter None None None None None None None None (Some (k, pattern)) None None))
      else (env, Inl ErrDecode))"

definition NewIPV4RangeFilter ::
  "(string \<Rightarrow> bool) \<Rightarrow> (string \<Rightarrow> bool) \<Rightarrow> regex_env \<Rightarrow> string \<Rightarrow> string \<Rightarrow> regex_env \<times> Filter result" where
  "NewIPV4RangeFilter isCIDR compiles env k cidr =
     (if \<not> isCIDR cidr then (env, Inl ErrDecode)
      else if \<not> compiles (cidrRegex env cidr) then (env, Inl ErrDecode)
      else (env\<lparr>regexpCache := gm_set cidr (cidrRegex env cidr) (regexpCache env)\<rparr>,
            Inr (Filter None None None None None None None None None None (Some (k, cidr)))))"

definition NewOrTermStringFilter :: "string list \<Rightarrow> string list \<Rightarrow> Filter" where
  "NewOrTermStringFilter vals attrs =
     NewOrFilter (concat (map (\<lambda>v. map (\<lambda>a. Some (NewTermStringFilter a v)) attrs) vals))"

record Range =
  From :: int
  To :: int

definition NewFilterActiveIn :: "Range \<Rightarrow> string \<Rightarrow> Filter" where
  "NewFilterActiveIn fr prefix =
     NewAndFilter [Some (NewLteInt64Filter (prefix @ ''Start'') (To fr)),
                   Some (NewGteInt64Filter (prefix @ ''Last'') (From fr))]"

definition NewFilterIncludedIn :: "Range \<Rightarrow> string \<Rightarrow> Filter" where
  "NewFilterIncludedIn fr prefix =
     NewAndFilter [Some (NewGteInt64Filter (prefix @ ''Start'') (From fr)),
                   Some (NewLteInt64Filter (prefix @ ''Last'') (To fr))]"

section \<open>Graph filters\<close>

text \<open>The constructors of \<^verbatim>\<open>src/graffiti/graph/filters.go\<close>; \<open>now\<close> is the clock's reading.\<close>

record TimeSlice =
  Start :: int
  Last :: int

definition NewFilterForEdge :: "string \<Rightarrow> string \<Rightarrow> Filter" where
  "NewFilterForEdge parent child =
     NewOrFilter [Some (NewTermStringFilter ''Parent'' parent), Some (NewTermStringFilter ''Child'' child)]"

definition filterForTimeSlice :: "int \<Rightarrow> TimeSlice option \<Rightarrow> string \<Rightarrow> string \<Rightarrow> Filter" where
  "filterForTimeSlice now t startName endName =
     (let t = (case t of None \<Rightarrow> \<lparr>Start = UnixMillis now, Last = UnixMillis now\<rparr> | Some t \<Rightarrow> t)
      in NewAndFilter
           [Some (NewLteInt64Filter startName (Last t)),
            Some (NewOrFilter [Some (NewNullFilter endName), Some (NewGteInt64Filter endName (Start t))])])"

definition getTimeFilter :: "int \<Rightarrow> TimeSlice option \<Rightarrow> Filter" where
  "getTimeFilter now t =
     (case t of
        None \<Rightarrow> NewNullFilter ''ArchivedAt''
      | Some _ \<Rightarrow> NewAndFilter [Some (filterForTimeSlice now t ''CreatedAt'' ''DeletedAt''),
                               Some (filterForTimeSlice now t ''UpdatedAt'' ''ArchivedAt'')])"

lemmas filter_leaf_defs =
  Eval.simps EvalLeaf_def NewGtInt64Filter_def NewGteInt64Filter_def NewLtInt64Filter_def NewLteInt64Filter_def
  NewTermInt64Filter_def NewTermStringFilter_def NewTermBoolFilter_def NewNullFilter_def

section \<open>Evaluation of the constructors\<close>

lemma BoolEval_and: "BoolEval env g AND_op n fs \<longleftrightarrow> (\<forall>f \<in> set fs. Eval env g f)"
  by (induction fs) (auto simp: Let_def)

lemma BoolEval_or: "BoolEval env g OR_op n fs \<longleftrightarrow> n = 0 \<or> (\<exists>f \<in> set fs. Eval env g f)"
  by (induction fs) (auto simp: Let_def)

lemma BoolEval_not: "BoolEval env g NOT_op n fs \<longleftrightarrow> n = 0 \<or> (\<exists>f \<in> set fs. \<not> Eval env g f)"
  by (induction fs) (auto simp: Let_def)

lemma set_map_filter_id: "set (List.map_filter (\<lambda>f. f) fs) = {f. Some f \<in> set fs}"
  by (induction fs) (auto simp: List.map_filter_simps split: option.split)

lemma map_filter_id_empty: "List.map_filter (\<lambda>f. f) fs = [] \<longleftrightarrow> (\<forall>f. Some f \<notin> set fs)"
  by (induction fs) (auto simp: List.map_filter_simps split: option.split)

lemma Eval_and: "Eval env g (NewAndFilter fs) \<longleftrightarrow> (\<forall>f. Some f \<in> set fs \<longrightarrow> Eval env g f)"
  by (auto simp: Eval.simps [of _ _ "NewAndFilter _"] NewAndFilter_def NewBoolFilter_def
      Eval.simps [of _ _ "Filter _ _ _ _ _ _ _ _ _ _ _"] BoolEval_and set_map_filter_id)

lemma Eval_or:
  "Eval env g (NewOrFilter fs) \<longleftrightarrow>
     (\<forall>f. Some f \<notin> set fs) \<or> (\<exists>f. Some f \<in> set fs \<and> Eval env g f)"
  by (auto simp: NewOrFilter_def NewBoolFilter_def Eval.simps [of _ _ "Filter _ _ _ _ _ _ _ _ _ _ _"]
      BoolEval_or set_map_filter_id map_filter_id_empty)

lemma Eval_and2 [simp]: "Eval env g (NewAndFilter [Some a, Some b]) \<longleftrightarrow> Eval env g a \<and> Eval env g b"
  by (auto simp: Eval_and)

lemma Eval_or2 [simp]: "Eval env g (NewOrFilter [Some a, Some b]) \<longleftrightarrow> Eval env g a \<or> Eval env g b"
  by (auto simp: Eval_or)

lemma Eval_not [simp]: "Eval env g (NewNotFilter (Some f)) \<longleftrightarrow> \<not> Eval env g f"
  by (simp add: NewNotFilter_def NewBoolFilter_def Eval.simps [of _ _ "Filter _ _ _ _ _ _ _ _ _ _ _"]
      BoolEval_not List.map_filter_simps del: BoolEval.simps)

lemma Eval_leaves [simp]:
  "Eval env g (NewGtInt64Filter k v) = MatchInt64 g k (\<lambda>i. i > v)"
  "Eval env g (NewGteInt64Filter k v) = MatchInt64 g k (\<lambda>i. i \<ge> v)"
  "Eval env g (NewLtInt64Filter k v) = MatchInt64 g k (\<lambda>i. i < v)"
  "Eval env g (NewLteInt64Filter k v) = MatchInt64 g k (\<lambda>i. i \<le> v)"
  "Eval env g (NewTermInt64Filter k v) = MatchInt64 g k (\<lambda>i. i = v)"
  "Eval env g (NewTermStringFilter k w) = MatchString g k (\<lambda>s. s = w)"
  "Eval env g (NewTermBoolFilter k u) = MatchBool g k (\<lambda>b. b = u)"
  "Eval env g (NewNullFilter k) = (\<not> is_ok (GetField g k))"
  by (simp_all add: filter_leaf_defs)

lemma Eval_or_terms:
  "Eval env g (NewOrTermStringFilter vals attrs) \<longleftrightarrow>
     vals = [] \<or> attrs = [] \<or> (\<exists>v \<in> set vals. \<exists>a \<in> set attrs. MatchString g a (\<lambda>s. s = v))"
proof -
  let ?fs = "concat (map (\<lambda>v. map (\<lambda>a. Some (NewTermStringFilter a v)) attrs) vals)"
  have "(\<forall>f. Some f \<notin> set ?fs) \<longleftrightarrow> vals = [] \<or> attrs = []"
    by (cases vals; cases attrs) auto
  moreover have "(\<exists>f. Some f \<in> set ?fs \<and> Eval env g f) \<longleftrightarrow>
    (\<exists>v \<in> set vals. \<exists>a \<in> set attrs. Eval env g (NewTermStringFilter a v))"
    by (auto simp del: Eval_leaves)
  ultimately show ?thesis by (simp add: NewOrTermStringFilter_def Eval_or)
qed

section \<open>Getters whose matches read one scalar field\<close>

text \<open>
  The contract of a getter without repeated fields, such as a flow or an edge: a match holds
  when the field of that type can be read and satisfies the predicate.
\<close>

locale scalar_getter =
  fixes g :: getter
  assumes match_bool: "MatchBool g k p \<longleftrightarrow> (\<exists>b. GetFieldBool g k = Inr b \<and> p b)"
    and match_int64: "MatchInt64 g k q \<longleftrightarrow> (\<exists>i. GetFieldInt64 g k = Inr i \<and> q i)"
    and match_string: "MatchString g k r \<longleftrightarrow> (\<exists>s. GetFieldString g k = Inr s \<and> r s)"
begin

lemma int64_trichotomy:
  "is_ok (GetFieldInt64 g k) \<Longrightarrow>
     Eval env g (NewGtInt64Filter k v) \<longleftrightarrow> \<not> Eval env g (NewLteInt64Filter k v)"
  by (auto simp: match_int64 is_ok_iff)

lemma term_string: "Eval env g (NewTermStringFilter k v) \<longleftrightarrow> GetFieldString g k = Inr v"
  by (auto simp: match_string)

lemma active_in:
  "Eval env g (NewFilterActiveIn fr prefix) \<longleftrightarrow>
     (\<exists>s l. GetFieldInt64 g (prefix @ ''Start'') = Inr s \<and> GetFieldInt64 g (prefix @ ''Last'') = Inr l
            \<and> s \<le> To fr \<and> From fr \<le> l)"
  by (auto simp: NewFilterActiveIn_def match_int64)

lemma included_in:
  "Eval env g (NewFilterIncludedIn fr prefix) \<longleftrightarrow>
     (\<exists>s l. GetFieldInt64 g (prefix @ ''Start'') = Inr s \<and> GetFieldInt64 g (prefix @ ''Last'') = Inr l
            \<and> From fr \<le> s \<and> l \<le> To fr)"
  by (auto simp: NewFilterIncludedIn_def match_int64)

lemma or_terms:
  "vals \<noteq> [] \<Longrightarrow> Eval env g (NewOrTermStringFilter vals [a]) \<longleftrightarrow>
     (\<exists>v \<in> set vals. GetFieldString g a = Inr v)"
  by (auto simp: Eval_or_terms match_string)

end

end
