(* ===== verification/Elements.thy ===== *)
theory Elements
  imports Filters
begin

text \<open>
  Graph elements: metadata (\<^verbatim>\<open>src/graffiti/graph/metadata.go\<close>), the fields shared by nodes and
  edges, their field access and matching, their creation, normalisation after decoding and
  de-duplication by revision (\<^verbatim>\<open>src/graffiti/graph/graph.go\<close>).  The clock and the JSON
  decoder are arguments.  Metadata are values: that two elements may share one Go map is left out.
\<close>

section \<open>Metadata\<close>

type_synonym metadata = tree

definition Metadata_GetField :: "metadata \<Rightarrow> string \<Rightarrow> gval result" where
  "Metadata_GetField m key = GetMapField m key"

definition Metadata_GetFieldBool :: "metadata \<Rightarrow> string \<Rightarrow> bool result" where
  "Metadata_GetFieldBool m key =
     (case GetMapField m key of
        Inl err \<Rightarrow> Inl err
      | Inr v \<Rightarrow> (case v of VBool b \<Rightarrow> Inr b | _ \<Rightarrow> Inl ErrFieldNotFound))"

definition Metadata_GetFieldInt64 :: "metadata \<Rightarrow> string \<Rightarrow> int result" where
  "Metadata_GetFieldInt64 m key =
     (case GetMapField m key of Inl err \<Rightarrow> Inl err | Inr v \<Rightarrow> ToInt64 v)"

definition Metadata_GetFieldString :: "metadata \<Rightarrow> string \<Rightarrow> string result" where
  "Metadata_GetFieldString m key =
     (case GetMapField m key of
        Inl err \<Rightarrow> Inl err
      | Inr v \<Rightarrow> (case v of VString s \<Rightarrow> Inr s | _ \<Rightarrow> Inl ErrFieldNotFound))"

text \<open>The type switches at the end of the three match methods.\<close>

fun boolField :: "(bool \<Rightarrow> bool) \<Rightarrow> gval \<Rightarrow> bool" where
  "boolField p (VList vs) = (\<exists>v \<in> set vs. case v of VBool b \<Rightarrow> p b | _ \<Rightarrow> False)"
| "boolField p (VBools bs) = (\<exists>b \<in> set bs. p b)"
| "boolField p (VBool b) = p b"
| "boolField p _ = False"

fun int64Field :: "(int \<Rightarrow> bool) \<Rightarrow> gval \<Rightarrow> bool" where
  "int64Field p (VList vs) = (\<exists>v \<in> set vs. case ToInt64 v of Inr i \<Rightarrow> p i | Inl _ \<Rightarrow> False)"
| "int64Field p (VInts is) = (\<exists>i \<in> set is. p i)"
| "int64Field p (VInt KInt64 i) = p i"
| "int64Field p v = (case ToInt64 v of Inr i \<Rightarrow> p i | Inl _ \<Rightarrow> False)"

fun stringField :: "(string \<Rightarrow> bool) \<Rightarrow> gval \<Rightarrow> bool" where
  "stringField p (VList vs) = (\<exists>v \<in> set vs. case v of VString s \<Rightarrow> p s | _ \<Rightarrow> False)"
| "stringField p (VStrings ss) = (\<exists>s \<in> set ss. p s)"
| "stringField p (VString s) = p s"
| "stringField p _ = False"

text \<open>
  The three match methods share their shape: a nested \<^verbatim>\<open>Getter\<close> under the first component
  answers for the rest of the key, otherwise the whole key is looked up in the tree.
\<close>

fun matchPath :: "(gval \<Rightarrow> bool) \<Rightarrow> tree \<Rightarrow> string list \<Rightarrow> bool" where
  "matchPath p m [] = False"
| "matchPath p m (c # cs) =
     (case (if cs = [] then None else Option.bind (map_of m c) asGetter) of
        Some sub \<Rightarrow> matchPath p sub cs
      | None \<Rightarrow> (case getMapField m (c # cs) of Inl _ \<Rightarrow> False | Inr v \<Rightarrow> p v))"

definition Metadata_MatchBool :: "metadata \<Rightarrow> string \<Rightarrow> (bool \<Rightarrow> bool) \<Rightarrow> bool" where
  "Metadata_MatchBool m key p = matchPath (boolField p) m (split_dot key)"

definition Metadata_MatchInt64 :: "metadata \<Rightarrow> string \<Rightarrow> (int \<Rightarrow> bool) \<Rightarrow> bool" where
  "Metadata_MatchInt64 m key p = matchPath (int64Field p) m (split_dot key)"

definition Metadata_MatchString :: "metadata \<Rightarrow> string \<Rightarrow> (string \<Rightarrow> bool) \<Rightarrow> bool" where
  "Metadata_MatchString m key p = matchPath (stringField p) m (split_dot key)"

definition Metadata_SetField :: "metadata \<Rightarrow> string \<Rightarrow> gval \<Rightarrow> metadata \<times> bool" where
  "Metadata_SetField m k v = SetMapField m k v"

text \<open>The filter of a metadata value, term by term; the first value without a conversion is an error.\<close>

fun metadataTerms :: "metadata \<Rightarrow> Filter option list result" where
  "metadataTerms [] = Inr []"
| "metadataTerms ((k, v) # m) =
     (case (case v of
              VInt kind i \<Rightarrow> Inr (NewTermInt64Filter k (if kind = KInt64 then i else wrap64 i))
            | VString s \<Rightarrow> Inr (NewTermStringFilter k s)
            | VBool b \<Rightarrow> Inr (NewTermBoolFilter k b)
            | VMap sm \<Rightarrow> (case metadataTerms sm of Inl err \<Rightarrow> Inl err | Inr fs \<Rightarrow> Inr (NewAndFilter fs))
            | _ \<Rightarrow> (case ToInt64 v of Inl err \<Rightarrow> Inl err | Inr i \<Rightarrow> Inr (NewTermInt64Filter k i))) of
        Inl err \<Rightarrow> Inl err
      | Inr f \<Rightarrow> (case metadataTerms m of Inl err \<Rightarrow> Inl err | Inr fs \<Rightarrow> Inr (Some f # fs)))"

definition Metadata_Filter :: "metadata \<Rightarrow> Filter result" where
  "Metadata_Filter m = (case metadataTerms m of Inl err \<Rightarrow> Inl err | Inr fs \<Rightarrow> Inr (NewAndFilter fs))"

definition Metadata_Match :: "regex_env \<Rightarrow> metadata \<Rightarrow> getter \<Rightarrow> bool" where
  "Metadata_Match env m g = (case Metadata_Filter m of Inl _ \<Rightarrow> False | Inr f \<Rightarrow> Eval env g f)"

section \<open>Nodes and edges\<close>

type_synonym Identifier = string

text \<open>A time is the number of nanoseconds since the Unix epoch; the zero time is year 1.\<close>

definition zero_time :: int where
  "zero_time = - 62135596800000000000"

record graphElement =
  ID :: Identifier
  Metadata :: metadata
  Host :: string
  Origin :: string
  CreatedAt :: int
  UpdatedAt :: int
  DeletedAt :: int
  Revision :: int

type_synonym Node = graphElement

record Edge = graphElement +
  Parent :: Identifier
  Child :: Identifier

definition graphElementKeys :: "string list" where
  "graphElementKeys =
     [''ID'', ''Host'', ''Origin'', ''CreatedAt'', ''UpdatedAt'', ''DeletedAt'', ''Revision'']"

definition element_GetFieldBool :: "'e graphElement_scheme \<Rightarrow> string \<Rightarrow> bool result" where
  "element_GetFieldBool e field = Metadata_GetFieldBool (Metadata e) field"

definition element_GetFieldInt64 :: "'e graphElement_scheme \<Rightarrow> string \<Rightarrow> int result" where
  "element_GetFieldInt64 e field =
     (if field = ''CreatedAt'' then Inr (UnixMillis (CreatedAt e))
      else if field = ''UpdatedAt'' then Inr (UnixMillis (UpdatedAt e))
      else if field = ''DeletedAt'' then Inr (UnixMillis (DeletedAt e))
      else if field = ''Revision'' then Inr (Revision e)
      else Metadata_GetFieldInt64 (Metadata e) field)"

definition element_GetFieldString :: "'e graphElement_scheme \<Rightarrow> string \<Rightarrow> string result" where
  "element_GetFieldString e field =
     (if field = ''ID'' then Inr (ID e)
      else if field = ''Host'' then Inr (Host e)
      else if field = ''Origin'' then Inr (Origin e)
      else Metadata_GetFieldString (Metadata e) field)"

definition element_GetField :: "'e graphElement_scheme \<Rightarrow> string \<Rightarrow> gval result" where
  "element_GetField e name =
     (case element_GetFieldInt64 e name of
        Inr i \<Rightarrow> Inr (VInt64 i)
      | Inl _ \<Rightarrow>
          (case element_GetFieldString e name of
             Inr s \<Rightarrow> Inr (VString s)
           | Inl _ \<Rightarrow> Metadata_GetField (Metadata e) name))"

definition element_GetFieldKeys :: "'e graphElement_scheme \<Rightarrow> string list" where
  "element_GetFieldKeys e = graphElementKeys @ GetMapFieldKeys (Metadata e)"

text \<open>
  The match methods of an element first try a nested getter; the source looks it up under the
  text after the first dot (\<^verbatim>\<open>first := field[index+1:]\<close>), and the model does so too.
\<close>

definition nestedGetter :: "'e graphElement_scheme \<Rightarrow> string \<Rightarrow> (metadata \<times> string) option" where
  "nestedGetter e field =
     (case cut_dot field of
        None \<Rightarrow> None
      | Some (_, rest) \<Rightarrow>
          (case map_of (Metadata e) rest of
             None \<Rightarrow> None
           | Some v \<Rightarrow> (case asGetter v of None \<Rightarrow> None | Some m \<Rightarrow> Some (m, rest))))"

definition element_MatchBool :: "'e graphElement_scheme \<Rightarrow> string \<Rightarrow> (bool \<Rightarrow> bool) \<Rightarrow> bool" where
  "element_MatchBool e field p =
     (case nestedGetter e field of
        Some (m, rest) \<Rightarrow> Metadata_MatchBool m rest p
      | None \<Rightarrow> Metadata_MatchBool (Metadata e) field p)"

definition element_MatchInt64 :: "'e graphElement_scheme \<Rightarrow> string \<Rightarrow> (int \<Rightarrow> bool) \<Rightarrow> bool" where
  "element_MatchInt64 e field p =
     (case (if field \<in> set graphElementKeys then ok_value (element_GetFieldInt64 e field) else None) of
        Some i \<Rightarrow> p i
      | None \<Rightarrow>
          (case nestedGetter e field of
             Some (m, rest) \<Rightarrow> Metadata_MatchInt64 m rest p
           | None \<Rightarrow> Metadata_MatchInt64 (Metadata e) field p))"

definition element_MatchString :: "'e graphElement_scheme \<Rightarrow> string \<Rightarrow> (string \<Rightarrow> bool) \<Rightarrow> bool" where
  "element_MatchString e field p =
     (case (if field \<in> set graphElementKeys then ok_value (element_GetFieldString e field) else None) of
        Some s \<Rightarrow> p s
      | None \<Rightarrow>
          (case nestedGetter e field of
             Some (m, rest) \<Rightarrow> Metadata_MatchString m rest p
           | None \<Rightarrow> Metadata_MatchString (Metadata e) field p))"

text \<open>\<^verbatim>\<open>GetFieldStringList\<close>: every element of a list has to be a string.\<close>

fun asString :: "gval \<Rightarrow> string option" where
  "asString (VString s) = Some s"
| "asString _ = None"

definition element_GetFieldStringList :: "'e graphElement_scheme \<Rightarrow> string \<Rightarrow> string list result" where
  "element_GetFieldStringList e key =
     (case element_GetField e key of
        Inl err \<Rightarrow> Inl err
      | Inr (VList vs) \<Rightarrow>
          (case those (map asString vs) of Some ss \<Rightarrow> Inr ss | None \<Rightarrow> Inl ErrFieldWrongType)
      | Inr (VStrings ss) \<Rightarrow> Inr ss
      | Inr _ \<Rightarrow> Inl ErrFieldNotFound)"

definition nodeGetter :: "Node \<Rightarrow> getter" where
  "nodeGetter n =
     \<lparr>GetField = element_GetField n, GetFieldKeys = element_GetFieldKeys n,
      GetFieldBool = element_GetFieldBool n, GetFieldInt64 = element_GetFieldInt64 n,
      GetFieldString = element_GetFieldString n, MatchBool = element_MatchBool n,
      MatchInt64 = element_MatchInt64 n, MatchString = element_MatchString n\<rparr>"

text \<open>An edge has its own string fields and match methods; \<^verbatim>\<open>GetField\<close> is the promoted one.\<close>

definition Edge_GetFieldString :: "Edge \<Rightarrow> string \<Rightarrow> string result" where
  "Edge_GetFieldString e name =
     (if name = ''Parent'' then Inr (Parent e)
      else if name = ''Child'' then Inr (Child e)
      else element_GetFieldString e name)"

definition Edge_MatchBool :: "Edge \<Rightarrow> string \<Rightarrow> (bool \<Rightarrow> bool) \<Rightarrow> bool" where
  "Edge_MatchBool e name p = (case element_GetFieldBool e name of Inr b \<Rightarrow> p b | Inl _ \<Rightarrow> False)"

definition Edge_MatchInt64 :: "Edge \<Rightarrow> string \<Rightarrow> (int \<Rightarrow> bool) \<Rightarrow> bool" where
  "Edge_MatchInt64 e name p = (case element_GetFieldInt64 e name of Inr n \<Rightarrow> p n | Inl _ \<Rightarrow> False)"

definition Edge_MatchString :: "Edge \<Rightarrow> string \<Rightarrow> (string \<Rightarrow> bool) \<Rightarrow> bool" where
  "Edge_MatchString e name p = (case Edge_GetFieldString e name of Inr s \<Rightarrow> p s | Inl _ \<Rightarrow> False)"

definition edgeGetter :: "Edge \<Rightarrow> getter" where
  "edgeGetter e =
     \<lparr>GetField = element_GetField e, GetFieldKeys = element_GetFieldKeys e,
      GetFieldBool = element_GetFieldBool e, GetFieldInt64 = element_GetFieldInt64 e,
      GetFieldString = Edge_GetFieldString e, MatchBool = Edge_MatchBool e,
      MatchInt64 = Edge_MatchInt64 e, MatchString = Edge_MatchString e\<rparr>"

section \<open>Matchers\<close>

text \<open>The two implementations of \<^verbatim>\<open>ElementMatcher\<close>; a nil matcher is \<open>None\<close>.\<close>

datatype ElementMatcher = MetadataMatcher metadata | ElementFilter Filter

fun Match :: "regex_env \<Rightarrow> ElementMatcher \<Rightarrow> getter \<Rightarrow> bool" where
  "Match env (MetadataMatcher m) g = Metadata_Match env m g"
| "Match env (ElementFilter f) g = Eval env g f"

definition Node_MatchMetadata :: "regex_env \<Rightarrow> ElementMatcher option \<Rightarrow> Node \<Rightarrow> bool" where
  "Node_MatchMetadata env f n = (case f of None \<Rightarrow> True | Some f \<Rightarrow> Match env f (nodeGetter n))"

definition Edge_MatchMetadata :: "regex_env \<Rightarrow> ElementMatcher option \<Rightarrow> Edge \<Rightarrow> bool" where
  "Edge_MatchMetadata env f e = (case f of None \<Rightarrow> True | Some f \<Rightarrow> Match env f (edgeGetter e))"

section \<open>Creation\<close>

definition originOf :: "string \<Rightarrow> string \<Rightarrow> string" where
  "originOf service h = (if length h > 0 then service @ ''.'' @ h else service)"

definition CreateNode :: "Identifier \<Rightarrow> metadata option \<Rightarrow> int \<Rightarrow> string \<Rightarrow> string \<Rightarrow> Node" where
  "CreateNode i m t h s =
     \<lparr>ID = i, Metadata = (case m of Some m \<Rightarrow> m | None \<Rightarrow> []), Host = h, Origin = originOf s h,
      CreatedAt = t, UpdatedAt = t, DeletedAt = zero_time, Revision = 1\<rparr>"

definition CreateEdge ::
  "Identifier \<Rightarrow> Node \<Rightarrow> Node \<Rightarrow> metadata option \<Rightarrow> int \<Rightarrow> string \<Rightarrow> string \<Rightarrow> Edge" where
  "CreateEdge i p c m t h s =
     \<lparr>ID = i, Metadata = (case m of Some m \<Rightarrow> m | None \<Rightarrow> []), Host = h, Origin = originOf s h,
      CreatedAt = t, UpdatedAt = t, DeletedAt = zero_time, Revision = 1,
      Parent = ID p, Child = ID c\<rparr>"

section \<open>Normalisation after decoding\<close>

text \<open>
  \<^verbatim>\<open>normalize\<close>: \<open>raw\<close> is the undecoded metadata, \<open>decoders\<close> the registered decoders,
  \<open>unmarshal\<close> the JSON decoder of any other key, \<open>now\<close> the clock.
\<close>

fun decodeMetadata ::
  "(string \<Rightarrow> gval result) \<Rightarrow> (string, string \<Rightarrow> gval result) gomap \<Rightarrow> (string, string) gomap \<Rightarrow>
   metadata \<Rightarrow> metadata result" where
  "decodeMetadata unmarshal decoders [] m = Inr m"
| "decodeMetadata unmarshal decoders ((k, r) # raw) m =
     (if r = [] then decodeMetadata unmarshal decoders raw m
      else (case map_of decoders k of
              Some decoder \<Rightarrow>
                (case decoder r of
                   Inl err \<Rightarrow> Inl err
                 | Inr v \<Rightarrow> decodeMetadata unmarshal decoders raw (gm_set k v m))
            | None \<Rightarrow>
                (case unmarshal r of
                   Inl err \<Rightarrow> Inl err
                 | Inr v \<Rightarrow> decodeMetadata unmarshal decoders raw (gm_set k (normalizeNumbers v) m))))"

definition normalize ::
  "int \<Rightarrow> (string \<Rightarrow> gval result) \<Rightarrow> (string, string \<Rightarrow> gval result) gomap \<Rightarrow> (string, string) gomap \<Rightarrow>
   'e graphElement_scheme \<Rightarrow> 'e graphElement_scheme result" where
  "normalize now unmarshal decoders raw e =
     (if ID e = [] then Inl ErrNoID
      else let e = e\<lparr>Metadata := [],
                     CreatedAt := (if CreatedAt e = zero_time then now else CreatedAt e),
                     UpdatedAt := (if UpdatedAt e = zero_time then now else UpdatedAt e)\<rparr>
           in case decodeMetadata unmarshal decoders raw [] of
                Inl err \<Rightarrow> Inl err
              | Inr m \<Rightarrow> Inr (e\<lparr>Metadata := m\<rparr>))"

section \<open>De-duplication by revision\<close>

text \<open>\<^verbatim>\<open>dedupNodes\<close> and \<^verbatim>\<open>dedupEdges\<close>: the latest revision of every identifier.\<close>

fun latests ::
  "'e graphElement_scheme list \<Rightarrow> (Identifier, 'e graphElement_scheme) gomap \<Rightarrow>
   (Identifier, 'e graphElement_scheme) gomap" where
  "latests [] m = m"
| "latests (x # xs) m =
     latests xs (case map_of m (ID x) of
                   None \<Rightarrow> gm_set (ID x) x m
                 | Some y \<Rightarrow> if Revision x > Revision y then gm_set (ID x) x m else m)"

definition dedupNodes :: "Node list \<Rightarrow> Node list" where
  "dedupNodes xs = map snd (latests xs [])"

definition dedupEdges :: "Edge list \<Rightarrow> Edge list" where
  "dedupEdges xs = map snd (latests xs [])"

section \<open>The latest revision of every identifier\<close>

lemma latests_wf: "gm_wf m \<Longrightarrow> gm_wf (latests xs m)"
  by (induction xs m rule: latests.induct) (auto split: option.splits)

lemma latests_source: "map_of (latests xs m) k = Some y \<Longrightarrow> map_of m k = Some y \<or> y \<in> set xs \<and> ID y = k"
  by (induction xs m rule: latests.induct) (fastforce split: option.splits if_splits)+

lemma latest_step:
  fixes m :: "(Identifier, 'e graphElement_scheme) gomap"
  defines "m' x \<equiv> (case map_of m (ID x) of None \<Rightarrow> gm_set (ID x) x m
            | Some y \<Rightarrow> if Revision x > Revision y then gm_set (ID x) x m else m)"
  shows "\<exists>w. map_of (m' x) (ID x) = Some w \<and> Revision x \<le> Revision w"
    and "map_of m k = Some y \<Longrightarrow> \<exists>w. map_of (m' x) k = Some w \<and> Revision y \<le> Revision w"
  unfolding m'_def by (cases "map_of m (ID x)"; auto)+

lemma latests_old:
  "map_of m k = Some y \<Longrightarrow> \<exists>z. map_of (latests xs m) k = Some z \<and> Revision y \<le> Revision z"
proof (induction xs m arbitrary: y rule: latests.induct)
  case (2 x xs m)
  from latest_step(2) [OF "2.prems", where x = x] "2.IH" show ?case
    unfolding latests.simps by (meson order_trans)
qed auto

lemma latests_max:
  "x \<in> set xs \<Longrightarrow> \<exists>z. map_of (latests xs m) (ID x) = Some z \<and> Revision x \<le> Revision z"
proof (induction xs m rule: latests.induct)
  case (2 y ys m)
  show ?case
  proof (cases "x = y")
    case True
    from latest_step(1) [where m = m and x = y] latests_old show ?thesis
      unfolding latests.simps True by (meson order_trans)
  next
    case False
    with 2 show ?thesis by simp
  qed
qed simp

lemma latests_dedup:
  shows "distinct (map ID (map snd (latests xs [])))"
    and "set (map snd (latests xs [])) \<subseteq> set xs"
    and "x \<in> set xs \<Longrightarrow> \<exists>y \<in> set (map snd (latests xs [])). ID y = ID x \<and> Revision x \<le> Revision y"
proof -
  let ?m = "latests xs []"
  have wf: "gm_wf ?m" by (simp add: latests_wf)
  have src: "map_of ?m k = Some y \<Longrightarrow> y \<in> set xs \<and> ID y = k" for k y
    using latests_source [of xs "[]" k y] by simp
  have eq: "map ID (map snd ?m) = map fst ?m"
    using wf src by (auto simp: gm_lookup_iff)
  from wf show "distinct (map ID (map snd ?m))" unfolding eq gm_wf_def .
  show "set (map snd ?m) \<subseteq> set xs"
    using wf src by (auto simp: gm_lookup_iff)
  assume "x \<in> set xs"
  from latests_max [OF this, of "[]"] obtain z where
    z: "map_of ?m (ID x) = Some z" "Revision x \<le> Revision z" by auto
  with wf have "z \<in> set (map snd ?m)" by (force simp: gm_lookup_iff)
  with z src [OF z(1)] show "\<exists>y \<in> set (map snd ?m). ID y = ID x \<and> Revision x \<le> Revision y" by auto
qed

section \<open>Edges as scalar getters\<close>

interpretation edge: scalar_getter "edgeGetter e" for e
  by unfold_locales
    (auto simp: edgeGetter_def Edge_MatchBool_def Edge_MatchInt64_def Edge_MatchString_def split: sum.splits)

lemma Edge_filter_endpoints:
  "Eval env (edgeGetter e) (NewFilterForEdge p c) \<longleftrightarrow> Parent e = p \<or> Child e = c"
  by (simp add: NewFilterForEdge_def edge.match_string) (simp add: edgeGetter_def Edge_GetFieldString_def)

section \<open>Flat metadata as a matcher\<close>

fun scalar :: "gval \<Rightarrow> bool" where
  "scalar (VInt k i) \<longleftrightarrow> k = KInt64"
| "scalar (VString s) \<longleftrightarrow> True"
| "scalar (VBool b) \<longleftrightarrow> True"
| "scalar _ \<longleftrightarrow> False"

text \<open>What a scalar of a matcher asks of the value the element holds under the same key.\<close>

fun scalarMatch :: "gval \<Rightarrow> gval \<Rightarrow> bool" where
  "scalarMatch (VInt k i) w \<longleftrightarrow> int64Field (\<lambda>x. x = i) w"
| "scalarMatch (VString s) w \<longleftrightarrow> stringField (\<lambda>x. x = s) w"
| "scalarMatch (VBool b) w \<longleftrightarrow> boolField (\<lambda>x. x = b) w"
| "scalarMatch _ w \<longleftrightarrow> False"

lemma scalarMatch_self: "scalar v \<Longrightarrow> scalarMatch v v"
  by (cases v) auto

lemma matchPath_plain:
  "plain_key k \<Longrightarrow> matchPath p m (split_dot k) \<longleftrightarrow> (\<exists>w. map_of m k = Some w \<and> p w)"
  by (auto simp: plain_key_def split_dot_plain split: option.splits)

lemma nestedGetter_plain: "plain_key k \<Longrightarrow> nestedGetter e k = None"
  by (simp add: plain_key_def nestedGetter_def cut_dot_def)

lemmas element_match_defs = element_MatchBool_def element_MatchInt64_def element_MatchString_def
  Metadata_MatchBool_def Metadata_MatchInt64_def Metadata_MatchString_def

lemma metadataTerms_flat:
  "\<forall>(k, v) \<in> set m. scalar v \<Longrightarrow>
   \<exists>fs. metadataTerms m = Inr fs \<and>
     ((\<forall>f. Some f \<in> set fs \<longrightarrow> Eval env (nodeGetter n) f) \<longleftrightarrow>
      (\<forall>(k, v) \<in> set m. case v of
           VInt _ i \<Rightarrow> element_MatchInt64 n k (\<lambda>x. x = i)
         | VString s \<Rightarrow> element_MatchString n k (\<lambda>x. x = s)
         | VBool b \<Rightarrow> element_MatchBool n k (\<lambda>x. x = b)
         | _ \<Rightarrow> False))"
proof (induction m)
  case (Cons kv m)
  obtain k v where kv: "kv = (k, v)" by (cases kv)
  from Cons kv obtain fs where fs: "metadataTerms m = Inr fs" and "scalar v"
    and eq: "(\<forall>f. Some f \<in> set fs \<longrightarrow> Eval env (nodeGetter n) f) \<longleftrightarrow>
      (\<forall>(k, v) \<in> set m. case v of
           VInt _ i \<Rightarrow> element_MatchInt64 n k (\<lambda>x. x = i)
         | VString s \<Rightarrow> element_MatchString n k (\<lambda>x. x = s)
         | VBool b \<Rightarrow> element_MatchBool n k (\<lambda>x. x = b)
         | _ \<Rightarrow> False)" by auto
  show ?case
  proof (cases v)
    case (VInt kind i)
    with \<open>scalar v\<close> fs eq show ?thesis by (simp add: kv) (auto simp: nodeGetter_def)
  next
    case (VString s)
    with fs eq show ?thesis by (simp add: kv) (auto simp: nodeGetter_def)
  next
    case (VBool b)
    with fs eq show ?thesis by (simp add: kv) (auto simp: nodeGetter_def)
  qed (use \<open>scalar v\<close> in simp_all)
qed simp

lemma Metadata_Match_flat:
  assumes flat: "\<forall>(k, v) \<in> set m. scalar v \<and> plain_key k \<and> k \<notin> set graphElementKeys"
  shows "Metadata_Match env m (nodeGetter n) \<longleftrightarrow>
    (\<forall>(k, v) \<in> set m. \<exists>w. map_of (Metadata n) k = Some w \<and> scalarMatch v w)"
proof -
  from flat have sc: "\<forall>(k, v) \<in> set m. scalar v" by auto
  obtain fs where "metadataTerms m = Inr fs" and eq:
    "(\<forall>f. Some f \<in> set fs \<longrightarrow> Eval env (nodeGetter n) f) \<longleftrightarrow>
      (\<forall>(k, v) \<in> set m. case v of
           VInt _ i \<Rightarrow> element_MatchInt64 n k (\<lambda>x. x = i)
         | VString s \<Rightarrow> element_MatchString n k (\<lambda>x. x = s)
         | VBool b \<Rightarrow> element_MatchBool n k (\<lambda>x. x = b)
         | _ \<Rightarrow> False)" using metadataTerms_flat [OF sc, of env n] by auto
  moreover have "(case v of
           VInt _ i \<Rightarrow> element_MatchInt64 n k (\<lambda>x. x = i)
         | VString s \<Rightarrow> element_MatchString n k (\<lambda>x. x = s)
         | VBool b \<Rightarrow> element_MatchBool n k (\<lambda>x. x = b)
         | _ \<Rightarrow> False) \<longleftrightarrow> (\<exists>w. map_of (Metadata n) k = Some w \<and> scalarMatch v w)"
    if "(k, v) \<in> set m" for k v
    using flat that
    by (cases v) (auto simp: element_match_defs nestedGetter_plain matchPath_plain)
  ultimately show ?thesis
    by (simp add: Metadata_Match_def Metadata_Filter_def Eval_and) blast
qed

section \<open>Normalisation\<close>

lemma decodeMetadata_wf:
  "gm_wf m \<Longrightarrow> decodeMetadata u ds raw m = Inr m' \<Longrightarrow> gm_wf m'"
  by (induction u ds raw m rule: decodeMetadata.induct) (auto split: if_splits option.splits sum.splits)

lemma decodeMetadata_keys:
  "decodeMetadata u ds raw m = Inr m' \<Longrightarrow>
   dom (map_of m') = dom (map_of m) \<union> {k. \<exists>r. (k, r) \<in> set raw \<and> r \<noteq> []}"
  by (induction u ds raw m rule: decodeMetadata.induct)
    (auto split: if_splits option.splits sum.splits)

end
