(* ===== verification/Backend.thy ===== *)
theory Backend
  imports Elements
begin

text \<open>
  The storage interface \<^verbatim>\<open>Backend\<close> of \<^verbatim>\<open>src/graffiti/graph/graph.go\<close>.  Nodes and edges are shared
  by pointers between the graph, its backend and the callers, so they live in an explicit store
  (\<open>world\<close>) and a pointer is an address in it.  An interface value is the record of its methods
  over the implementation's own state.  The locale \<open>backend_laws\<close> states what the graph relies
  on: a backend in the live context is a finite map from identifiers to addresses, whose edges
  never dangle.
\<close>

section \<open>The store\<close>

type_synonym nref = nat
type_synonym eref = nat

record world =
  h_node :: "nref \<Rightarrow> Node"
  h_edge :: "eref \<Rightarrow> Edge"
  h_next :: nat \<comment> \<open>the next free address, of nodes and of edges\<close>
  h_env :: regex_env \<comment> \<open>the process-wide state filters depend on\<close>

text \<open>The dynamic type of an \<^verbatim>\<open>interface{}\<close> argument that holds a graph element.\<close>

datatype element = NodeElem nref | EdgeElem eref

definition put_node :: "nref \<Rightarrow> Node \<Rightarrow> world \<Rightarrow> world" where
  "put_node r n w = w\<lparr>h_node := (h_node w)(r := n)\<rparr>"

definition put_edge :: "eref \<Rightarrow> Edge \<Rightarrow> world \<Rightarrow> world" where
  "put_edge e x w = w\<lparr>h_edge := (h_edge w)(e := x)\<rparr>"

definition new_node :: "Node \<Rightarrow> world \<Rightarrow> world \<times> nref" where
  "new_node n w = (put_node (h_next w) n w\<lparr>h_next := Suc (h_next w)\<rparr>, h_next w)"

definition new_edge :: "Edge \<Rightarrow> world \<Rightarrow> world \<times> eref" where
  "new_edge x w = (put_edge (h_next w) x w\<lparr>h_next := Suc (h_next w)\<rparr>, h_next w)"

lemma put_node_sel [simp]:
  "h_node (put_node r n w) = (h_node w)(r := n)" "h_edge (put_node r n w) = h_edge w"
  "h_next (put_node r n w) = h_next w" "h_env (put_node r n w) = h_env w"
  by (simp_all add: put_node_def)

lemma put_edge_sel [simp]:
  "h_edge (put_edge e x w) = (h_edge w)(e := x)" "h_node (put_edge e x w) = h_node w"
  "h_next (put_edge e x w) = h_next w" "h_env (put_edge e x w) = h_env w"
  by (simp_all add: put_edge_def)

section \<open>The interface\<close>

record Context =
  ctxTimeSlice :: "TimeSlice option"
  TimePoint :: bool

definition liveContext :: Context where
  "liveContext = \<lparr>ctxTimeSlice = None, TimePoint = True\<rparr>"

text \<open>
  One field per method; \<open>None\<close> as the error is success.  \<open>be_GetEdgeNodes\<close> is \<open>None\<close> when
  the method panics.
\<close>

record 'b Backend =
  be_NodeAdded :: "world \<Rightarrow> 'b \<Rightarrow> nref \<Rightarrow> 'b \<times> go_error option"
  be_NodeDeleted :: "world \<Rightarrow> 'b \<Rightarrow> nref \<Rightarrow> 'b \<times> go_error option"
  be_GetNode :: "world \<Rightarrow> 'b \<Rightarrow> Identifier \<Rightarrow> Context \<Rightarrow> nref list"
  be_GetNodeEdges :: "world \<Rightarrow> 'b \<Rightarrow> nref \<Rightarrow> Context \<Rightarrow> ElementMatcher option \<Rightarrow> eref list"
  be_EdgeAdded :: "world \<Rightarrow> 'b \<Rightarrow> eref \<Rightarrow> 'b \<times> go_error option"
  be_EdgeDeleted :: "world \<Rightarrow> 'b \<Rightarrow> eref \<Rightarrow> 'b \<times> go_error option"
  be_GetEdge :: "world \<Rightarrow> 'b \<Rightarrow> Identifier \<Rightarrow> Context \<Rightarrow> eref list"
  be_GetEdgeNodes :: "world \<Rightarrow> 'b \<Rightarrow> eref \<Rightarrow> Context \<Rightarrow> ElementMatcher option \<Rightarrow> ElementMatcher option \<Rightarrow>
                      (nref list \<times> nref list) option"
  be_MetadataUpdated :: "world \<Rightarrow> 'b \<Rightarrow> element \<Rightarrow> 'b \<times> go_error option"
  be_GetNodes :: "world \<Rightarrow> 'b \<Rightarrow> Context \<Rightarrow> ElementMatcher option \<Rightarrow> nref list"
  be_GetEdges :: "world \<Rightarrow> 'b \<Rightarrow> Context \<Rightarrow> ElementMatcher option \<Rightarrow> eref list"
  be_IsHistorySupported :: "'b \<Rightarrow> bool"

section \<open>The contract\<close>

text \<open>Two stores that agree on the identity of the elements a backend holds.\<close>

definition same_ids ::
  "(Identifier \<rightharpoonup> nref) \<Rightarrow> (Identifier \<rightharpoonup> eref) \<Rightarrow> world \<Rightarrow> world \<Rightarrow> bool" where
  "same_ids ns es w w' \<longleftrightarrow>
     (\<forall>r \<in> ran ns. ID (h_node w' r) = ID (h_node w r)) \<and>
     (\<forall>e \<in> ran es. ID (h_edge w' e) = ID (h_edge w e) \<and> Parent (h_edge w' e) = Parent (h_edge w e)
                   \<and> Child (h_edge w' e) = Child (h_edge w e))"

definition incident :: "world \<Rightarrow> eref \<Rightarrow> Identifier \<Rightarrow> bool" where
  "incident w e i \<longleftrightarrow> Parent (h_edge w e) = i \<or> Child (h_edge w e) = i"

locale backend_laws =
  fixes B :: "'b Backend"
    and binv :: "world \<Rightarrow> 'b \<Rightarrow> bool" \<comment> \<open>what every operation keeps\<close>
    and nrefs :: "'b \<Rightarrow> Identifier \<rightharpoonup> nref"
    and erefs :: "'b \<Rightarrow> Identifier \<rightharpoonup> eref"
  assumes node_id: "binv w b \<Longrightarrow> nrefs b i = Some r \<Longrightarrow> ID (h_node w r) = i"
    and edge_id: "binv w b \<Longrightarrow> erefs b j = Some e \<Longrightarrow> ID (h_edge w e) = j"
    and edge_ends: "binv w b \<Longrightarrow> erefs b j = Some e \<Longrightarrow>
      nrefs b (Parent (h_edge w e)) \<noteq> None \<and> nrefs b (Child (h_edge w e)) \<noteq> None"
    and binv_frame: "binv w b \<Longrightarrow> same_ids (nrefs b) (erefs b) w w' \<Longrightarrow> binv w' b"
    and get_node: "ctxTimeSlice t = None \<Longrightarrow>
      be_GetNode B w b i t = (case nrefs b i of Some r \<Rightarrow> [r] | None \<Rightarrow> [])"
    and get_edge: "ctxTimeSlice t = None \<Longrightarrow>
      be_GetEdge B w b j t = (case erefs b j of Some e \<Rightarrow> [e] | None \<Rightarrow> [])"
    and get_nodes: "binv w b \<Longrightarrow> ctxTimeSlice t = None \<Longrightarrow>
      distinct (be_GetNodes B w b t m) \<and>
      set (be_GetNodes B w b t m) = {r \<in> ran (nrefs b). Node_MatchMetadata (h_env w) m (h_node w r)}"
    and get_edges: "binv w b \<Longrightarrow> ctxTimeSlice t = None \<Longrightarrow>
      distinct (be_GetEdges B w b t m) \<and>
      set (be_GetEdges B w b t m) = {e \<in> ran (erefs b). Edge_MatchMetadata (h_env w) m (h_edge w e)}"
    and get_node_edges: "binv w b \<Longrightarrow> ctxTimeSlice t = None \<Longrightarrow>
      distinct (be_GetNodeEdges B w b r t m) \<and>
      set (be_GetNodeEdges B w b r t m) =
        {e \<in> ran (erefs b). incident w e (ID (h_node w r)) \<and> Edge_MatchMetadata (h_env w) m (h_edge w e)}"
    and get_edge_nodes: "ctxTimeSlice t = None \<Longrightarrow>
      be_GetEdgeNodes B w b e t pm cm =
        (case (nrefs b (Parent (h_edge w e)), nrefs b (Child (h_edge w e))) of
           (Some p, Some c) \<Rightarrow>
             Some (if Node_MatchMetadata (h_env w) pm (h_node w p) \<and> Node_MatchMetadata (h_env w) cm (h_node w c)
                   then ([p], [c]) else ([], []))
         | _ \<Rightarrow> None)"
    and node_added: "binv w b \<Longrightarrow> be_NodeAdded B w b r = (b', err) \<Longrightarrow>
      (if nrefs b (ID (h_node w r)) \<noteq> None then b' = b \<and> err = Some ErrNodeConflict
       else binv w b' \<and> nrefs b' = (nrefs b)(ID (h_node w r) \<mapsto> r) \<and> erefs b' = erefs b)"
    and node_deleted: "binv w b \<Longrightarrow> be_NodeDeleted B w b r = (b', err) \<Longrightarrow>
      (if nrefs b (ID (h_node w r)) = None then b' = b \<and> err = Some ErrNodeNotFound
       else nrefs b' = (nrefs b)(ID (h_node w r) := None) \<and> erefs b' = erefs b \<and>
            ((\<forall>e \<in> ran (erefs b). \<not> incident w e (ID (h_node w r))) \<longrightarrow> binv w b'))"
    and edge_added: "binv w b \<Longrightarrow> be_EdgeAdded B w b e = (b', err) \<Longrightarrow>
      (if erefs b (ID (h_edge w e)) \<noteq> None then b' = b \<and> err = Some ErrEdgeConflict
       else if nrefs b (Parent (h_edge w e)) = None then b' = b \<and> err = Some ErrParentNotFound
       else if nrefs b (Child (h_edge w e)) = None then b' = b \<and> err = Some ErrChildNotFound
       else binv w b' \<and> nrefs b' = nrefs b \<and> erefs b' = (erefs b)(ID (h_edge w e) \<mapsto> e))"
    and edge_deleted: "binv w b \<Longrightarrow> be_EdgeDeleted B w b e = (b', err) \<Longrightarrow>
      (case erefs b (ID (h_edge w e)) of
         None \<Rightarrow> b' = b \<and> err = Some ErrEdgeNotFound
       | Some e' \<Rightarrow>
           nrefs b' = nrefs b \<and> erefs b' = (erefs b)(ID (h_edge w e) := None) \<and>
           (Parent (h_edge w e) = Parent (h_edge w e') \<and> Child (h_edge w e) = Child (h_edge w e') \<longrightarrow> binv w b'))"
    and metadata_updated: "be_MetadataUpdated B w b x = (b', err) \<Longrightarrow>
      nrefs b' = nrefs b \<and> erefs b' = erefs b \<and> (binv w b \<longrightarrow> binv w b') \<and>
      (case x of NodeElem r \<Rightarrow> nrefs b (ID (h_node w r)) = None \<longrightarrow> err = Some ErrNodeNotFound
               | EdgeElem e \<Rightarrow> erefs b (ID (h_edge w e)) = None \<longrightarrow> err = Some ErrEdgeNotFound)"

text \<open>A backend whose writes fail only for the reasons the in-memory index has.\<close>

locale reliable_backend = backend_laws +
  assumes node_added_ok: "nrefs b (ID (h_node w r)) = None \<Longrightarrow> snd (be_NodeAdded B w b r) = None"
    and node_deleted_ok: "nrefs b (ID (h_node w r)) \<noteq> None \<Longrightarrow> snd (be_NodeDeleted B w b r) = None"
    and edge_added_ok: "erefs b (ID (h_edge w e)) = None \<Longrightarrow> nrefs b (Parent (h_edge w e)) \<noteq> None \<Longrightarrow>
      nrefs b (Child (h_edge w e)) \<noteq> None \<Longrightarrow> snd (be_EdgeAdded B w b e) = None"
    and edge_deleted_ok: "erefs b (ID (h_edge w e)) \<noteq> None \<Longrightarrow> snd (be_EdgeDeleted B w b e) = None"
    and metadata_updated_ok: "(case x of NodeElem r \<Rightarrow> nrefs b (ID (h_node w r)) \<noteq> None
        | EdgeElem e \<Rightarrow> erefs b (ID (h_edge w e)) \<noteq> None) \<Longrightarrow> snd (be_MetadataUpdated B w b x) = None"

lemma same_ids_refl [simp]: "same_ids ns es w w"
  by (simp add: same_ids_def)

lemma same_ids_put_node: "ID n = ID (h_node w r) \<Longrightarrow> same_ids ns es w (put_node r n w)"
  by (simp add: same_ids_def)

lemma same_ids_put_edge:
  "ID x = ID (h_edge w e) \<Longrightarrow> Parent x = Parent (h_edge w e) \<Longrightarrow> Child x = Child (h_edge w e) \<Longrightarrow>
   same_ids ns es w (put_edge e x w)"
  by (simp add: same_ids_def)

end
