(* ===== verification/EventHandler.thy ===== *)
theory EventHandler
  imports Backend
begin

text \<open>
  The event handler of \<^verbatim>\<open>src/graffiti/graph/graph.go\<close>: a list of listeners and a bounded channel
  of pending events, drained by the outermost notification.  A callback may notify further events
  (\<open>react\<close>, any function of the callbacks made so far); they are queued behind the pending ones
  and carry the listener that produced them, which is not called for them.  \<open>None\<close> is a
  notification that does not return: a full channel whose only consumer is the sender, an event
  whose kind does not fit its element (a failed type assertion), or an endless exchange.
\<close>

datatype graphEventType = NodeUpdated | NodeAdded | NodeDeleted | EdgeUpdated | EdgeAdded | EdgeDeleted

type_synonym EventListener = nat

record graphEvent =
  evKind :: graphEventType
  evElement :: element
  evListener :: "EventListener option"

type_synonym callback = "EventListener \<times> graphEventType \<times> element"

record EventHandler =
  eventListeners :: "EventListener list"
  eventChan :: "graphEvent list"
  eventConsumed :: bool
  currentEventListener :: "EventListener option"
  callbacks :: "callback list" \<comment> \<open>the calls made to the listeners, oldest first\<close>

definition maxEvents :: nat where
  "maxEvents = 50"

type_synonym reaction = "callback list \<Rightarrow> (graphEventType \<times> element) list"

section \<open>Operations\<close>

definition pushEvent :: "EventHandler \<Rightarrow> graphEventType \<times> element \<Rightarrow> EventHandler option" where
  "pushEvent g ke =
     (if length (eventChan g) < maxEvents
      then Some (g\<lparr>eventChan := eventChan g @
             [\<lparr>evKind = fst ke, evElement = snd ke, evListener = currentEventListener g\<rparr>]\<rparr>)
      else None)"

fun pushAll :: "(graphEventType \<times> element) list \<Rightarrow> EventHandler \<Rightarrow> EventHandler option" where
  "pushAll [] g = Some g"
| "pushAll (ke # kes) g = Option.bind (pushEvent g ke) (pushAll kes)"

text \<open>The type assertion \<^verbatim>\<open>ge.element.(*Node)\<close> or \<^verbatim>\<open>ge.element.(*Edge)\<close> of the event's kind.\<close>

fun kindFits :: "graphEventType \<Rightarrow> element \<Rightarrow> bool" where
  "kindFits NodeUpdated x = (\<exists>r. x = NodeElem r)"
| "kindFits NodeAdded x = (\<exists>r. x = NodeElem r)"
| "kindFits NodeDeleted x = (\<exists>r. x = NodeElem r)"
| "kindFits EdgeUpdated x = (\<exists>e. x = EdgeElem e)"
| "kindFits EdgeAdded x = (\<exists>e. x = EdgeElem e)"
| "kindFits EdgeDeleted x = (\<exists>e. x = EdgeElem e)"

lemma kindFits_code [code]:
  "kindFits k x = (case x of NodeElem _ \<Rightarrow> k \<in> {NodeUpdated, NodeAdded, NodeDeleted}
                           | EdgeElem _ \<Rightarrow> k \<in> {EdgeUpdated, EdgeAdded, EdgeDeleted})"
  by (cases k; cases x) auto

fun notifyListeners :: "reaction \<Rightarrow> graphEvent \<Rightarrow> EventListener list \<Rightarrow> EventHandler \<Rightarrow> EventHandler option" where
  "notifyListeners react ge [] g = Some g"
| "notifyListeners react ge (l # ls) g =
     (let g = g\<lparr>currentEventListener := Some l\<rparr>
      in if evListener ge = Some l then notifyListeners react ge ls g
         else if \<not> kindFits (evKind ge) (evElement ge) then None
         else (let g = g\<lparr>callbacks := callbacks g @ [(l, evKind ge, evElement ge)]\<rparr>
               in Option.bind (pushAll (react (callbacks g)) g) (notifyListeners react ge ls)))"

partial_function (option) drain :: "reaction \<Rightarrow> EventHandler \<Rightarrow> EventHandler option" where
  [code]: "drain react g =
     (case eventChan g of
        [] \<Rightarrow> Some g
      | ge # rest \<Rightarrow>
          Option.bind (notifyListeners react ge (eventListeners g) (g\<lparr>eventChan := rest\<rparr>)) (drain react))"

definition NotifyEvent :: "reaction \<Rightarrow> graphEventType \<Rightarrow> element \<Rightarrow> EventHandler \<Rightarrow> EventHandler option" where
  "NotifyEvent react kind x g =
     Option.bind (pushEvent g (kind, x)) (\<lambda>g.
       if eventConsumed g then Some g
       else Option.bind (drain react (g\<lparr>eventConsumed := True\<rparr>)) (\<lambda>g.
              Some (g\<lparr>currentEventListener := None, eventConsumed := False\<rparr>)))"

definition AddEventListener :: "EventListener \<Rightarrow> EventHandler \<Rightarrow> EventHandler" where
  "AddEventListener l g = g\<lparr>eventListeners := eventListeners g @ [l]\<rparr>"

definition RemoveEventListener :: "EventListener \<Rightarrow> EventHandler \<Rightarrow> EventHandler" where
  "RemoveEventListener l g = g\<lparr>eventListeners := remove1 l (eventListeners g)\<rparr>"

definition NewEventHandler :: EventHandler where
  "NewEventHandler =
     \<lparr>eventListeners = [], eventChan = [], eventConsumed = False, currentEventListener = None, callbacks = []\<rparr>"

section \<open>What a notification delivers\<close>

definition idle :: "EventHandler \<Rightarrow> bool" where
  "idle g \<longleftrightarrow> eventChan g = [] \<and> \<not> eventConsumed g \<and> currentEventListener g = None"

text \<open>The callbacks one event gives: every listener in order, its producer left out.\<close>

definition deliveries :: "EventListener list \<Rightarrow> graphEvent \<Rightarrow> callback list" where
  "deliveries ls ge = map (\<lambda>l. (l, evKind ge, evElement ge)) (filter (\<lambda>l. evListener ge \<noteq> Some l) ls)"

text \<open>The events produced by a sequence of callbacks made after the callbacks \<open>tr\<close>.\<close>

fun produced :: "reaction \<Rightarrow> callback list \<Rightarrow> callback list \<Rightarrow> graphEvent list" where
  "produced react tr [] = []"
| "produced react tr (c # cs) =
     map (\<lambda>(k, x). \<lparr>evKind = k, evElement = x, evListener = Some (fst c)\<rparr>) (react (tr @ [c]))
     @ produced react (tr @ [c]) cs"

lemma produced_append: "produced react tr (cs @ ds) = produced react tr cs @ produced react (tr @ cs) ds"
  by (induction cs arbitrary: tr) simp_all

lemma pushAll_Some:
  "pushAll kes g = Some g' \<Longrightarrow>
   g' = g\<lparr>eventChan := eventChan g @
          map (\<lambda>(k, x). \<lparr>evKind = k, evElement = x, evListener = currentEventListener g\<rparr>) kes\<rparr>"
  by (induction kes arbitrary: g) (fastforce simp: pushEvent_def bind_eq_Some_conv split: if_splits)+

lemma pushAll_fits:
  "length (eventChan g) + length kes \<le> maxEvents \<Longrightarrow>
   pushAll kes g = Some (g\<lparr>eventChan := eventChan g @
          map (\<lambda>(k, x). \<lparr>evKind = k, evElement = x, evListener = currentEventListener g\<rparr>) kes\<rparr>)"
  by (induction kes arbitrary: g) (auto simp: pushEvent_def)

lemma notifyListeners_Some:
  "notifyListeners react ge ls g = Some g' \<Longrightarrow>
   callbacks g' = callbacks g @ deliveries ls ge \<and>
   eventChan g' = eventChan g @ produced react (callbacks g) (deliveries ls ge) \<and>
   eventListeners g' = eventListeners g \<and> eventConsumed g' = eventConsumed g \<and>
   (deliveries ls ge \<noteq> [] \<longrightarrow> kindFits (evKind ge) (evElement ge))"
proof (induction ls arbitrary: g)
  case (Cons l ls)
  show ?case
  proof (cases "evListener ge = Some l")
    case True
    then show ?thesis using Cons by (force simp: deliveries_def)
  next
    case False
    let ?g = "g\<lparr>currentEventListener := Some l, callbacks := callbacks g @ [(l, evKind ge, evElement ge)]\<rparr>"
    from False Cons.prems obtain g1 where fit: "kindFits (evKind ge) (evElement ge)"
      and push: "pushAll (react (callbacks ?g)) ?g = Some g1" and rest: "notifyListeners react ge ls g1 = Some g'"
      by (auto simp: Let_def bind_eq_Some_conv split: if_splits)
    show ?thesis using Cons.IH [OF rest] pushAll_Some [OF push] False fit
      by (auto simp: deliveries_def)
  qed
qed (simp add: deliveries_def)

definition delivered :: "reaction \<Rightarrow> EventHandler \<Rightarrow> EventHandler \<Rightarrow> bool" where
  "delivered react g g' \<longleftrightarrow>
     (\<exists>evs. callbacks g' = callbacks g @ concat (map (deliveries (eventListeners g)) evs) \<and>
            evs = eventChan g @ produced react (callbacks g) (concat (map (deliveries (eventListeners g)) evs)) \<and>
            eventListeners g' = eventListeners g \<and> eventConsumed g' = eventConsumed g \<and> eventChan g' = [])"

lemma drain_delivers:
  assumes "drain react g = Some g'"
  shows "delivered react g g'"
proof (rule drain.raw_induct [OF _ assms])
  fix drain' :: "reaction \<Rightarrow> EventHandler \<Rightarrow> EventHandler option" and react g g'
  assume IH: "\<And>react g g'. drain' react g = Some g' \<Longrightarrow> delivered react g g'"
    and eq: "(case eventChan g of [] \<Rightarrow> Some g
       | ge # rest \<Rightarrow> Option.bind (notifyListeners react ge (eventListeners g) (g\<lparr>eventChan := rest\<rparr>)) (drain' react)) = Some g'"
  show "delivered react g g'"
  proof (cases "eventChan g")
    case Nil
    with eq show ?thesis by (auto simp: delivered_def intro: exI [of _ "[]"])
  next
    case (Cons ge rest)
    with eq obtain g1 where
      one: "notifyListeners react ge (eventListeners g) (g\<lparr>eventChan := rest\<rparr>) = Some g1" and
      more: "drain' react g1 = Some g'"
      by (auto simp: bind_eq_Some_conv)
    from IH [OF more] obtain evs where
      evs: "callbacks g' = callbacks g1 @ concat (map (deliveries (eventListeners g1)) evs)"
        "evs = eventChan g1 @ produced react (callbacks g1) (concat (map (deliveries (eventListeners g1)) evs))"
        "eventListeners g' = eventListeners g1" "eventConsumed g' = eventConsumed g1" "eventChan g' = []"
      unfolding delivered_def by blast
    note s = notifyListeners_Some [OF one]
    have "ge # evs = eventChan g @ produced react (callbacks g) (concat (map (deliveries (eventListeners g)) (ge # evs)))"
      using evs(2) s Cons by (simp add: produced_append)
    with evs s Cons show ?thesis unfolding delivered_def by (intro exI [of _ "ge # evs"]) simp
  qed
qed

section \<open>Notifications that return\<close>

text \<open>Listeners of which only \<open>l\<close> reacts: what it produces is not delivered to it, so it falls silent.\<close>

definition onlyReacts :: "EventListener \<Rightarrow> reaction \<Rightarrow> bool" where
  "onlyReacts l react \<longleftrightarrow> (\<forall>tr l' k x. l' \<noteq> l \<longrightarrow> react (tr @ [(l', k, x)]) = [])"

abbreviation noReaction :: reaction where
  "noReaction \<equiv> \<lambda>_. []"

definition reactionsFit :: "reaction \<Rightarrow> bool" where
  "reactionsFit react \<longleftrightarrow> (\<forall>tr. \<forall>(k, x) \<in> set (react tr). kindFits k x)"

lemma notifyListeners_fits:
  assumes "kindFits (evKind ge) (evElement ge)"
    and "length (eventChan g) + length (produced react (callbacks g) (deliveries ls ge)) \<le> maxEvents"
  shows "\<exists>c. notifyListeners react ge ls g =
    Some (g\<lparr>eventChan := eventChan g @ produced react (callbacks g) (deliveries ls ge),
            currentEventListener := c, callbacks := callbacks g @ deliveries ls ge\<rparr>)"
  using assms(2)
proof (induction ls arbitrary: g)
  case (Cons l ls)
  show ?case
  proof (cases "evListener ge = Some l")
    case True
    then show ?thesis using Cons.IH [of "g\<lparr>currentEventListener := Some l\<rparr>"] Cons.prems
      by (simp add: deliveries_def)
  next
    case False
    let ?g = "g\<lparr>currentEventListener := Some l, callbacks := callbacks g @ [(l, evKind ge, evElement ge)]\<rparr>"
    let ?new = "map (\<lambda>(k, x). \<lparr>evKind = k, evElement = x, evListener = Some l\<rparr>) (react (callbacks ?g))"
    have d: "deliveries (l # ls) ge = (l, evKind ge, evElement ge) # deliveries ls ge"
      using False by (simp add: deliveries_def)
    have push: "pushAll (react (callbacks ?g)) ?g = Some (?g\<lparr>eventChan := eventChan g @ ?new\<rparr>)"
      using pushAll_fits [of ?g "react (callbacks ?g)"] Cons.prems by (simp add: d)
    show ?thesis
      using Cons.IH [of "?g\<lparr>eventChan := eventChan g @ ?new\<rparr>"] Cons.prems assms(1) False push
      by (simp add: d Let_def)
  qed
next
  case Nil
  show ?case by (auto simp: deliveries_def intro!: exI [of _ "currentEventListener g"])
qed

lemma produced_silent:
  "\<forall>c \<in> set cs. fst c \<noteq> l \<Longrightarrow> onlyReacts l react \<Longrightarrow> produced react tr cs = []"
  by (induction cs arbitrary: tr) (auto simp: onlyReacts_def)

lemma drain_silent:
  assumes "\<forall>ge \<in> set (eventChan g). evListener ge = Some l \<and> kindFits (evKind ge) (evElement ge)"
    and "onlyReacts l react" and "length (eventChan g) \<le> maxEvents"
  shows "\<exists>c. drain react g = Some (g\<lparr>eventChan := [], currentEventListener := c,
           callbacks := callbacks g @ concat (map (deliveries (eventListeners g)) (eventChan g))\<rparr>)"
  using assms
proof (induction "eventChan g" arbitrary: g)
  case Nil
  then show ?case by (subst drain.simps) (auto intro!: exI [of _ "currentEventListener g"])
next
  case (Cons ge rest)
  note chan = Cons.hyps(2) [symmetric]
  let ?ds = "deliveries (eventListeners g) ge"
  have "produced react (callbacks g) ?ds = []"
    using Cons.prems chan by (intro produced_silent [where l = l]) (auto simp: deliveries_def)
  then obtain c where one: "notifyListeners react ge (eventListeners g) (g\<lparr>eventChan := rest\<rparr>) =
      Some (g\<lparr>eventChan := rest, currentEventListener := c, callbacks := callbacks g @ ?ds\<rparr>)"
    using notifyListeners_fits [of ge "g\<lparr>eventChan := rest\<rparr>" react "eventListeners g"] Cons.prems chan by auto
  show ?case
    using Cons.hyps(1) [of "g\<lparr>eventChan := rest, currentEventListener := c, callbacks := callbacks g @ ?ds\<rparr>"]
      Cons.prems chan
    by (subst drain.simps) (simp add: one)
qed

lemma produced_from:
  "ge \<in> set (produced react tr cs) \<Longrightarrow> onlyReacts l react \<Longrightarrow> reactionsFit react \<Longrightarrow>
   evListener ge = Some l \<and> kindFits (evKind ge) (evElement ge)"
proof (induction cs arbitrary: tr)
  case (Cons c cs)
  show ?case
  proof (cases "ge \<in> set (produced react (tr @ [c]) cs)")
    case True
    with Cons show ?thesis by blast
  next
    case False
    then obtain k x where kx: "(k, x) \<in> set (react (tr @ [c]))"
      and ge: "ge = \<lparr>evKind = k, evElement = x, evListener = Some (fst c)\<rparr>" using Cons.prems(1) by auto
    then have "fst c = l" using Cons.prems(2)
      unfolding onlyReacts_def by (metis empty_iff empty_set prod.collapse)
    with kx ge Cons.prems(3) show ?thesis by (auto simp: reactionsFit_def)
  qed
qed simp

lemma NotifyEvent_one_reacts:
  assumes "idle g" "kindFits k x" "onlyReacts l react" "reactionsFit react"
    and "length (produced react (callbacks g) (deliveries (eventListeners g) \<lparr>evKind = k, evElement = x, evListener = None\<rparr>))
         \<le> maxEvents"
  defines "ds \<equiv> deliveries (eventListeners g) \<lparr>evKind = k, evElement = x, evListener = None\<rparr>"
  shows "NotifyEvent react k x g =
     Some (g\<lparr>callbacks := callbacks g @ ds @
       concat (map (deliveries (eventListeners g)) (produced react (callbacks g) ds))\<rparr>)"
proof -
  let ?ge = "\<lparr>evKind = k, evElement = x, evListener = None\<rparr>" and ?evs = "produced react (callbacks g) ds"
  let ?g = "g\<lparr>eventChan := [?ge], eventConsumed := True\<rparr>"
  have push: "pushEvent g (k, x) = Some (g\<lparr>eventChan := [?ge]\<rparr>)"
    using assms(1) by (simp add: pushEvent_def idle_def maxEvents_def)
  obtain c where one: "notifyListeners react ?ge (eventListeners g) (?g\<lparr>eventChan := []\<rparr>) =
      Some (?g\<lparr>eventChan := ?evs, currentEventListener := c, callbacks := callbacks g @ ds\<rparr>)"
    using notifyListeners_fits [of ?ge "?g\<lparr>eventChan := []\<rparr>" react "eventListeners g"] assms(2,5)
    by (auto simp: ds_def)
  obtain c' where "drain react (?g\<lparr>eventChan := ?evs, currentEventListener := c, callbacks := callbacks g @ ds\<rparr>) =
      Some (?g\<lparr>eventChan := [], currentEventListener := c',
         callbacks := callbacks g @ ds @ concat (map (deliveries (eventListeners g)) ?evs)\<rparr>)"
    using drain_silent [of "?g\<lparr>eventChan := ?evs, currentEventListener := c, callbacks := callbacks g @ ds\<rparr>" l react]
      produced_from [OF _ assms(3,4)] assms(3,5) by (auto simp: ds_def)
  with one have "drain react ?g = Some (?g\<lparr>eventChan := [], currentEventListener := c',
         callbacks := callbacks g @ ds @ concat (map (deliveries (eventListeners g)) ?evs)\<rparr>)"
    by (subst drain.simps) simp
  with push assms(1) show ?thesis by (simp add: NotifyEvent_def idle_def)
qed

lemma NotifyEvent_no_reaction:
  assumes "idle g" "kindFits k x"
  shows "NotifyEvent noReaction k x g =
     Some (g\<lparr>callbacks := callbacks g @ map (\<lambda>l. (l, k, x)) (eventListeners g)\<rparr>)"
proof -
  have "produced noReaction tr cs = []" for tr cs by (induction cs arbitrary: tr) auto
  then show ?thesis
    using NotifyEvent_one_reacts [OF assms, of 0 noReaction]
    by (simp add: onlyReacts_def reactionsFit_def deliveries_def)
qed

section \<open>Notifications that do not return\<close>

lemma produced_length: "\<forall>tr. tr \<noteq> [] \<longrightarrow> react tr \<noteq> [] \<Longrightarrow> length cs \<le> length (produced react tr cs)"
proof (induction cs arbitrary: tr)
  case (Cons c cs)
  then have "1 \<le> length (react (tr @ [c]))" by (simp add: Suc_leI)
  with Cons.IH [OF Cons.prems, of "tr @ [c]"] show ?case by simp
qed simp

lemma deliveries_nonempty: "a \<in> set ls \<Longrightarrow> b \<in> set ls \<Longrightarrow> a \<noteq> b \<Longrightarrow> deliveries ls ge \<noteq> []"
  unfolding deliveries_def by (simp add: filter_empty_conv) (metis option.inject)

lemma concat_length: "\<forall>x \<in> set xs. f x \<noteq> [] \<Longrightarrow> length xs \<le> length (concat (map f xs))"
proof (induction xs)
  case (Cons x xs)
  then have "1 \<le> length (f x)" by (simp add: Suc_leI)
  with Cons show ?case by simp
qed simp

lemma drain_endless:
  assumes "a \<in> set (eventListeners g)" "b \<in> set (eventListeners g)" "a \<noteq> b" "eventChan g \<noteq> []"
    and react: "\<forall>tr. tr \<noteq> [] \<longrightarrow> react tr \<noteq> []"
  shows "drain react g = None"
proof (rule ccontr)
  assume "drain react g \<noteq> None"
  then obtain g' where "drain react g = Some g'" by auto
  from drain_delivers [OF this] obtain evs where
    evs: "evs = eventChan g @ produced react (callbacks g) (concat (map (deliveries (eventListeners g)) evs))"
    unfolding delivered_def by blast
  have "length evs \<le> length (concat (map (deliveries (eventListeners g)) evs))"
    using deliveries_nonempty [OF assms(1-3)] by (intro concat_length) auto
  also have "\<dots> \<le> length (produced react (callbacks g) (concat (map (deliveries (eventListeners g)) evs)))"
    by (rule produced_length [OF react])
  also have "\<dots> < length evs" using assms(4) by (subst (2) evs) simp
  finally show False by simp
qed

lemma NotifyEvent_idle_Some:
  assumes "idle g" "NotifyEvent react k x g = Some g'"
  shows "idle g'" and "\<exists>evs. callbacks g' = callbacks g @ concat (map (deliveries (eventListeners g)) evs) \<and>
      evs = \<lparr>evKind = k, evElement = x, evListener = None\<rparr> #
        produced react (callbacks g) (concat (map (deliveries (eventListeners g)) evs))"
    and "eventListeners g' = eventListeners g"
proof -
  let ?g = "g\<lparr>eventChan := [\<lparr>evKind = k, evElement = x, evListener = None\<rparr>], eventConsumed := True\<rparr>"
  from assms obtain g1 where d: "drain react ?g = Some g1"
    and g': "g' = g1\<lparr>currentEventListener := None, eventConsumed := False\<rparr>"
    by (auto simp: NotifyEvent_def pushEvent_def idle_def maxEvents_def bind_eq_Some_conv)
  from drain_delivers [OF d] g' show "idle g'" "eventListeners g' = eventListeners g"
    "\<exists>evs. callbacks g' = callbacks g @ concat (map (deliveries (eventListeners g)) evs) \<and>
      evs = \<lparr>evKind = k, evElement = x, evListener = None\<rparr> #
        produced react (callbacks g) (concat (map (deliveries (eventListeners g)) evs))"
    by (auto simp: delivered_def idle_def)
qed

end
