(* ===== verification/Memory.thy ===== *)
theory Memory
  imports Backend
begin

text \<open>
  The in-memory backend, \<^verbatim>\<open>src/graffiti/graph/memory.go\<close>: a map of nodes, each with the map of
  its incident edges, and a map of edges.  Its invariant is that the two maps are indexed by the
  identifiers of the elements they hold, that no edge dangles, and that the adjacency of a node
  is exactly the set of edges with that node as an end.
\<close>

record MemoryBackendNode =
  mn_Node :: nref
  mn_edges :: "(Identifier, eref) gomap"

record MemoryBackend =
  mb_nodes :: "(Identifier, MemoryBackendNode) gomap"
  mb_edges :: "(Identifier, eref) gomap"

definition Memory_MetadataUpdated ::
  "world \<Rightarrow> MemoryBackend \<Rightarrow> element \<Rightarrow> MemoryBackend \<times> go_error option" where
  "Memory_MetadataUpdated w m i =
     (m, case i of
           NodeElem r \<Rightarrow> (if map_of (mb_nodes m) (ID (h_node w r)) = None then Some ErrNodeNotFound else None)
         | EdgeElem e \<Rightarrow> (if map_of (mb_edges m) (ID (h_edge w e)) = None then Some ErrEdgeNotFound else None))"

text \<open>\<^verbatim>\<open>n.edges[id] = e\<close> and \<^verbatim>\<open>delete(n.edges, id)\<close> on the node stored under \<open>i\<close>.\<close>

definition setAdjacent :: "Identifier \<Rightarrow> Identifier \<Rightarrow> eref \<Rightarrow>
    (Identifier, MemoryBackendNode) gomap \<Rightarrow> (Identifier, MemoryBackendNode) gomap" where
  "setAdjacent i j e ns =
     (case map_of ns i of None \<Rightarrow> ns
      | Some n \<Rightarrow> gm_set i (n\<lparr>mn_edges := gm_set j e (mn_edges n)\<rparr>) ns)"

definition delAdjacent :: "Identifier \<Rightarrow> Identifier \<Rightarrow>
    (Identifier, MemoryBackendNode) gomap \<Rightarrow> (Identifier, MemoryBackendNode) gomap" where
  "delAdjacent i j ns =
     (case map_of ns i of None \<Rightarrow> ns
      | Some n \<Rightarrow> gm_set i (n\<lparr>mn_edges := gm_del j (mn_edges n)\<rparr>) ns)"

definition Memory_EdgeAdded :: "world \<Rightarrow> MemoryBackend \<Rightarrow> eref \<Rightarrow> MemoryBackend \<times> go_error option" where
  "Memory_EdgeAdded w m e =
     (let x = h_edge w e in
      if map_of (mb_edges m) (ID x) \<noteq> None then (m, Some ErrEdgeConflict)
      else if map_of (mb_nodes m) (Parent x) = None then (m, Some ErrParentNotFound)
      else if map_of (mb_nodes m) (Child x) = None then (m, Some ErrChildNotFound)
      else (m\<lparr>mb_edges := gm_set (ID x) e (mb_edges m),
              mb_nodes := setAdjacent (Child x) (ID x) e (setAdjacent (Parent x) (ID x) e (mb_nodes m))\<rparr>, None))"

definition Memory_GetEdge :: "world \<Rightarrow> MemoryBackend \<Rightarrow> Identifier \<Rightarrow> Context \<Rightarrow> eref list" where
  "Memory_GetEdge w m i t = (case map_of (mb_edges m) i of Some e \<Rightarrow> [e] | None \<Rightarrow> [])"

definition Memory_GetEdgeNodes ::
  "world \<Rightarrow> MemoryBackend \<Rightarrow> eref \<Rightarrow> Context \<Rightarrow> ElementMatcher option \<Rightarrow> ElementMatcher option \<Rightarrow>
   (nref list \<times> nref list) option" where
  "Memory_GetEdgeNodes w m e t parentMetadata childMetadata =
     (case map_of (mb_nodes m) (Parent (h_edge w e)) of
        None \<Rightarrow> None
      | Some p \<Rightarrow>
          (case map_of (mb_nodes m) (Child (h_edge w e)) of
             None \<Rightarrow> None
           | Some c \<Rightarrow>
               Some (if Node_MatchMetadata (h_env w) parentMetadata (h_node w (mn_Node p)) \<and>
                        Node_MatchMetadata (h_env w) childMetadata (h_node w (mn_Node c))
                     then ([mn_Node p], [mn_Node c]) else ([], []))))"

definition Memory_NodeAdded :: "world \<Rightarrow> MemoryBackend \<Rightarrow> nref \<Rightarrow> MemoryBackend \<times> go_error option" where
  "Memory_NodeAdded w m r =
     (if map_of (mb_nodes m) (ID (h_node w r)) \<noteq> None then (m, Some ErrNodeConflict)
      else (m\<lparr>mb_nodes := gm_set (ID (h_node w r)) \<lparr>mn_Node = r, mn_edges = []\<rparr> (mb_nodes m)\<rparr>, None))"

definition Memory_GetNode :: "world \<Rightarrow> MemoryBackend \<Rightarrow> Identifier \<Rightarrow> Context \<Rightarrow> nref list" where
  "Memory_GetNode w m i t = (case map_of (mb_nodes m) i of Some n \<Rightarrow> [mn_Node n] | None \<Rightarrow> [])"

definition Memory_GetNodeEdges ::
  "world \<Rightarrow> MemoryBackend \<Rightarrow> nref \<Rightarrow> Context \<Rightarrow> ElementMatcher option \<Rightarrow> eref list" where
  "Memory_GetNodeEdges w m r t meta =
     (case map_of (mb_nodes m) (ID (h_node w r)) of
        Some n \<Rightarrow> filter (\<lambda>e. Edge_MatchMetadata (h_env w) meta (h_edge w e)) (map snd (mn_edges n))
      | None \<Rightarrow> [])"

definition Memory_EdgeDeleted :: "world \<Rightarrow> MemoryBackend \<Rightarrow> eref \<Rightarrow> MemoryBackend \<times> go_error option" where
  "Memory_EdgeDeleted w m e =
     (let x = h_edge w e in
      if map_of (mb_edges m) (ID x) = None then (m, Some ErrEdgeNotFound)
      else (m\<lparr>mb_nodes := delAdjacent (Child x) (ID x) (delAdjacent (Parent x) (ID x) (mb_nodes m)),
              mb_edges := gm_del (ID x) (mb_edges m)\<rparr>, None))"

definition Memory_NodeDeleted :: "world \<Rightarrow> MemoryBackend \<Rightarrow> nref \<Rightarrow> MemoryBackend \<times> go_error option" where
  "Memory_NodeDeleted w m r =
     (if map_of (mb_nodes m) (ID (h_node w r)) = None then (m, Some ErrNodeNotFound)
      else (m\<lparr>mb_nodes := gm_del (ID (h_node w r)) (mb_nodes m)\<rparr>, None))"

definition Memory_GetNodes :: "world \<Rightarrow> MemoryBackend \<Rightarrow> Context \<Rightarrow> ElementMatcher option \<Rightarrow> nref list" where
  "Memory_GetNodes w m t metadata =
     filter (\<lambda>r. Node_MatchMetadata (h_env w) metadata (h_node w r)) (map (mn_Node \<circ> snd) (mb_nodes m))"

definition Memory_GetEdges :: "world \<Rightarrow> MemoryBackend \<Rightarrow> Context \<Rightarrow> ElementMatcher option \<Rightarrow> eref list" where
  "Memory_GetEdges w m t metadata =
     filter (\<lambda>e. Edge_MatchMetadata (h_env w) metadata (h_edge w e)) (map snd (mb_edges m))"

definition Memory_IsHistorySupported :: "MemoryBackend \<Rightarrow> bool" where
  "Memory_IsHistorySupported m = False"

definition NewMemoryBackend :: MemoryBackend where
  "NewMemoryBackend = \<lparr>mb_nodes = [], mb_edges = []\<rparr>"

definition memoryBackend :: "MemoryBackend Backend" where
  "memoryBackend =
     \<lparr>be_NodeAdded = Memory_NodeAdded, be_NodeDeleted = Memory_NodeDeleted,
      be_GetNode = Memory_GetNode, be_GetNodeEdges = Memory_GetNodeEdges,
      be_EdgeAdded = Memory_EdgeAdded, be_EdgeDeleted = Memory_EdgeDeleted,
      be_GetEdge = Memory_GetEdge, be_GetEdgeNodes = Memory_GetEdgeNodes,
      be_MetadataUpdated = Memory_MetadataUpdated, be_GetNodes = Memory_GetNodes,
      be_GetEdges = Memory_GetEdges, be_IsHistorySupported = Memory_IsHistorySupported\<rparr>"

section \<open>The invariant\<close>

definition memNodeRefs :: "MemoryBackend \<Rightarrow> Identifier \<rightharpoonup> nref" where
  "memNodeRefs m i = map_option mn_Node (map_of (mb_nodes m) i)"

definition memEdgeRefs :: "MemoryBackend \<Rightarrow> Identifier \<rightharpoonup> eref" where
  "memEdgeRefs m = map_of (mb_edges m)"

text \<open>The adjacency of the node stored under \<open>i\<close>; empty when there is none.\<close>

definition adjacency :: "(Identifier, MemoryBackendNode) gomap \<Rightarrow> Identifier \<Rightarrow> (Identifier, eref) gomap" where
  "adjacency ns i = (case map_of ns i of None \<Rightarrow> [] | Some n \<Rightarrow> mn_edges n)"

definition mem_inv :: "world \<Rightarrow> MemoryBackend \<Rightarrow> bool" where
  "mem_inv w m \<longleftrightarrow>
     gm_wf (mb_nodes m) \<and> gm_wf (mb_edges m) \<and>
     (\<forall>i. gm_wf (adjacency (mb_nodes m) i)) \<and>
     (\<forall>i r. memNodeRefs m i = Some r \<longrightarrow> ID (h_node w r) = i) \<and>
     (\<forall>j e. memEdgeRefs m j = Some e \<longrightarrow>
        ID (h_edge w e) = j \<and> memNodeRefs m (Parent (h_edge w e)) \<noteq> None \<and>
        memNodeRefs m (Child (h_edge w e)) \<noteq> None) \<and>
     (\<forall>i j e. map_of (adjacency (mb_nodes m) i) j = Some e \<longleftrightarrow> memEdgeRefs m j = Some e \<and> incident w e i)"

lemma adjacency_set:
  "adjacency (setAdjacent i j e ns) k =
     (if k = i \<and> map_of ns i \<noteq> None then gm_set j e (adjacency ns i) else adjacency ns k)"
  by (auto simp: adjacency_def setAdjacent_def split: option.splits)

lemma adjacency_del:
  "adjacency (delAdjacent i j ns) k =
     (if k = i \<and> map_of ns i \<noteq> None then gm_del j (adjacency ns i) else adjacency ns k)"
  by (auto simp: adjacency_def delAdjacent_def split: option.splits)

lemma node_of_adjacent [simp]:
  "map_option mn_Node (map_of (setAdjacent i j e ns) k) = map_option mn_Node (map_of ns k)"
  "map_option mn_Node (map_of (delAdjacent i j ns) k) = map_option mn_Node (map_of ns k)"
  "map_of (setAdjacent i j e ns) k = None \<longleftrightarrow> map_of ns k = None"
  "map_of (delAdjacent i j ns) k = None \<longleftrightarrow> map_of ns k = None"
  by (auto simp: setAdjacent_def delAdjacent_def split: option.splits)

lemma adjacent_wf [simp]:
  "gm_wf ns \<Longrightarrow> gm_wf (setAdjacent i j e ns)" "gm_wf ns \<Longrightarrow> gm_wf (delAdjacent i j ns)"
  by (auto simp: setAdjacent_def delAdjacent_def split: option.splits)

lemma adjacency_missing: "map_of ns i = None \<Longrightarrow> adjacency ns i = []"
  by (simp add: adjacency_def)

lemma memNodeRefs_None: "map_of (mb_nodes m) i = None \<longleftrightarrow> memNodeRefs m i = None"
  by (simp add: memNodeRefs_def)

lemmas mem_invD =
  mem_inv_def [THEN iffD1, THEN conjunct1]
  mem_inv_def [THEN iffD1, THEN conjunct2, THEN conjunct1]
  mem_inv_def [THEN iffD1, THEN conjunct2, THEN conjunct2, THEN conjunct1, rule_format]
  mem_inv_def [THEN iffD1, THEN conjunct2, THEN conjunct2, THEN conjunct2, THEN conjunct1, rule_format]
  mem_inv_def [THEN iffD1, THEN conjunct2, THEN conjunct2, THEN conjunct2, THEN conjunct2, THEN conjunct1, rule_format]
  mem_inv_def [THEN iffD1, THEN conjunct2, THEN conjunct2, THEN conjunct2, THEN conjunct2, THEN conjunct2, rule_format]

section \<open>Every operation keeps it\<close>

lemma NewMemoryBackend_inv: "mem_inv w NewMemoryBackend"
  by (simp add: mem_inv_def NewMemoryBackend_def memEdgeRefs_def memNodeRefs_def adjacency_def)

lemma mem_inv_frame:
  assumes inv: "mem_inv w m" and same: "same_ids (memNodeRefs m) (memEdgeRefs m) w w'"
  shows "mem_inv w' m"
proof -
  have n: "memNodeRefs m i = Some r \<Longrightarrow> ID (h_node w' r) = ID (h_node w r)" for i r
    using same by (auto simp: same_ids_def ranI)
  have e: "memEdgeRefs m j = Some x \<Longrightarrow> ID (h_edge w' x) = ID (h_edge w x) \<and>
      Parent (h_edge w' x) = Parent (h_edge w x) \<and> Child (h_edge w' x) = Child (h_edge w x)" for j x
    using same by (auto simp: same_ids_def ranI)
  show ?thesis
    unfolding mem_inv_def using mem_invD(1-5) [OF inv] mem_invD(6) [OF inv] n e
    by (auto simp: incident_def)
qed

lemma Memory_NodeAdded_inv:
  assumes inv: "mem_inv w m" and new: "memNodeRefs m (ID (h_node w r)) = None"
  shows "mem_inv w (fst (Memory_NodeAdded w m r))"
    and "memNodeRefs (fst (Memory_NodeAdded w m r)) = (memNodeRefs m)(ID (h_node w r) \<mapsto> r)"
    and "memEdgeRefs (fst (Memory_NodeAdded w m r)) = memEdgeRefs m"
proof -
  let ?m = "fst (Memory_NodeAdded w m r)"
  show n: "memNodeRefs ?m = (memNodeRefs m)(ID (h_node w r) \<mapsto> r)"
    using new by (auto simp: Memory_NodeAdded_def memNodeRefs_def fun_eq_iff)
  show e: "memEdgeRefs ?m = memEdgeRefs m"
    using new by (simp add: Memory_NodeAdded_def memEdgeRefs_def memNodeRefs_None)
  have adj: "adjacency (mb_nodes ?m) i = adjacency (mb_nodes m) i" for i
    using new by (auto simp: Memory_NodeAdded_def adjacency_def memNodeRefs_def)
  show "mem_inv w ?m"
    unfolding mem_inv_def adj n e using mem_invD [OF inv] new
    by (auto simp: Memory_NodeAdded_def memNodeRefs_None)
qed

lemma Memory_NodeDeleted_inv:
  assumes inv: "mem_inv w m" and old: "memNodeRefs m (ID (h_node w r)) \<noteq> None"
  shows "(\<forall>e \<in> ran (memEdgeRefs m). \<not> incident w e (ID (h_node w r))) \<Longrightarrow> mem_inv w (fst (Memory_NodeDeleted w m r))"
    and "memNodeRefs (fst (Memory_NodeDeleted w m r)) = (memNodeRefs m)(ID (h_node w r) := None)"
    and "memEdgeRefs (fst (Memory_NodeDeleted w m r)) = memEdgeRefs m"
proof -
  let ?m = "fst (Memory_NodeDeleted w m r)" and ?i = "ID (h_node w r)"
  show n: "memNodeRefs ?m = (memNodeRefs m)(?i := None)"
    using old by (auto simp: Memory_NodeDeleted_def memNodeRefs_def fun_eq_iff)
  show e: "memEdgeRefs ?m = memEdgeRefs m"
    using old by (auto simp: Memory_NodeDeleted_def memEdgeRefs_def memNodeRefs_None)
  assume free: "\<forall>e \<in> ran (memEdgeRefs m). \<not> incident w e ?i"
  then have no: "memEdgeRefs m j = Some x \<Longrightarrow> \<not> incident w x ?i" for j x by (auto simp: ranI)
  have adj: "adjacency (mb_nodes ?m) i = (if i = ?i then [] else adjacency (mb_nodes m) i)" for i
    using old by (auto simp: Memory_NodeDeleted_def adjacency_def memNodeRefs_def)
  show "mem_inv w ?m"
    unfolding mem_inv_def adj n e using mem_invD [OF inv] no old
    by (auto simp: Memory_NodeDeleted_def incident_def memNodeRefs_None)
qed

lemma Memory_EdgeAdded_inv:
  assumes inv: "mem_inv w m" and new: "memEdgeRefs m (ID (h_edge w e)) = None"
    and ends: "memNodeRefs m (Parent (h_edge w e)) \<noteq> None" "memNodeRefs m (Child (h_edge w e)) \<noteq> None"
  shows "mem_inv w (fst (Memory_EdgeAdded w m e))"
    and "memNodeRefs (fst (Memory_EdgeAdded w m e)) = memNodeRefs m"
    and "memEdgeRefs (fst (Memory_EdgeAdded w m e)) = (memEdgeRefs m)(ID (h_edge w e) \<mapsto> e)"
proof -
  let ?m = "fst (Memory_EdgeAdded w m e)" and ?x = "h_edge w e"
  have eq: "?m = m\<lparr>mb_edges := gm_set (ID ?x) e (mb_edges m),
      mb_nodes := setAdjacent (Child ?x) (ID ?x) e (setAdjacent (Parent ?x) (ID ?x) e (mb_nodes m))\<rparr>"
    using new ends by (auto simp: Memory_EdgeAdded_def memEdgeRefs_def memNodeRefs_None Let_def)
  show n: "memNodeRefs ?m = memNodeRefs m"
    by (simp add: eq memNodeRefs_def fun_eq_iff)
  show e: "memEdgeRefs ?m = (memEdgeRefs m)(ID ?x \<mapsto> e)"
    by (simp add: eq memEdgeRefs_def)
  have adj: "map_of (adjacency (mb_nodes ?m) i) =
      (if incident w e i then (map_of (adjacency (mb_nodes m) i))(ID ?x \<mapsto> e) else map_of (adjacency (mb_nodes m) i))"
    and wf: "gm_wf (adjacency (mb_nodes ?m) i)" for i
    using ends mem_invD(3) [OF inv]
    by (auto simp: eq adjacency_set memNodeRefs_None incident_def)
  show "mem_inv w ?m"
    unfolding mem_inv_def adj n e using mem_invD [OF inv] new ends wf
    by (auto simp: eq)
qed

lemma Memory_EdgeDeleted_inv:
  assumes inv: "mem_inv w m" and old: "memEdgeRefs m (ID (h_edge w e)) = Some e'"
  shows "Parent (h_edge w e) = Parent (h_edge w e') \<Longrightarrow> Child (h_edge w e) = Child (h_edge w e') \<Longrightarrow>
      mem_inv w (fst (Memory_EdgeDeleted w m e))"
    and "memNodeRefs (fst (Memory_EdgeDeleted w m e)) = memNodeRefs m"
    and "memEdgeRefs (fst (Memory_EdgeDeleted w m e)) = (memEdgeRefs m)(ID (h_edge w e) := None)"
proof -
  let ?m = "fst (Memory_EdgeDeleted w m e)" and ?x = "h_edge w e"
  have eq: "?m = m\<lparr>mb_nodes := delAdjacent (Child ?x) (ID ?x) (delAdjacent (Parent ?x) (ID ?x) (mb_nodes m)),
      mb_edges := gm_del (ID ?x) (mb_edges m)\<rparr>"
    using old by (simp add: Memory_EdgeDeleted_def memEdgeRefs_def Let_def)
  show n: "memNodeRefs ?m = memNodeRefs m"
    by (simp add: eq memNodeRefs_def fun_eq_iff)
  show e: "memEdgeRefs ?m = (memEdgeRefs m)(ID ?x := None)"
    by (simp add: eq memEdgeRefs_def)
  assume ends: "Parent ?x = Parent (h_edge w e')" "Child ?x = Child (h_edge w e')"
  have adj: "map_of (adjacency (mb_nodes ?m) i) =
      (if incident w e i then (map_of (adjacency (mb_nodes m) i))(ID ?x := None) else map_of (adjacency (mb_nodes m) i))"
    and wf: "gm_wf (adjacency (mb_nodes ?m) i)" for i
    using mem_invD(3) [OF inv]
    by (auto simp: eq adjacency_del adjacency_missing incident_def fun_eq_iff)
  show "mem_inv w ?m"
    unfolding mem_inv_def adj n e using mem_invD [OF inv] old ends wf
    by (auto simp: eq incident_def)
qed

section \<open>The queries\<close>

lemma map_of_adjacency:
  "map_of (mb_nodes m) i = Some n \<Longrightarrow> adjacency (mb_nodes m) i = mn_edges n"
  by (simp add: adjacency_def)

lemma distinct_by_key:
  assumes "distinct (map fst m)" and "\<And>k v. (k, v) \<in> set m \<Longrightarrow> f v = k"
  shows "distinct (map snd m)"
  using assms
proof (induction m)
  case (Cons a m)
  have "snd a \<notin> snd ` set m"
  proof
    assume "snd a \<in> snd ` set m"
    then obtain k where "(k, snd a) \<in> set m" by auto
    moreover have "f (snd a) = fst a" using Cons.prems(2) [of "fst a" "snd a"] by simp
    ultimately have "(fst a, snd a) \<in> set m" using Cons.prems(2) [of k "snd a"] by simp
    then show False using Cons.prems(1) by (auto simp: image_iff)
  qed
  with Cons show ?case by simp
qed simp

lemma distinct_mn_Node:
  assumes inv: "mem_inv w m"
  shows "distinct (map (mn_Node \<circ> snd) (mb_nodes m))"
proof -
  have "distinct (map snd (map (\<lambda>(i, n). (i, mn_Node n)) (mb_nodes m)))"
  proof (rule distinct_by_key [where f = "\<lambda>r. ID (h_node w r)"])
    show "distinct (map fst (map (\<lambda>(i, n). (i, mn_Node n)) (mb_nodes m)))"
      using mem_invD(1) [OF inv] by (simp add: gm_wf_def comp_def case_prod_beta)
    fix i r
    assume "(i, r) \<in> set (map (\<lambda>(i, n). (i, mn_Node n)) (mb_nodes m))"
    then have "memNodeRefs m i = Some r"
      using mem_invD(1) [OF inv] by (auto simp: memNodeRefs_def gm_lookup_iff)
    then show "ID (h_node w r) = i" by (rule mem_invD(4) [OF inv])
  qed
  then show ?thesis by (simp add: comp_def case_prod_beta)
qed

lemma distinct_edge_refs:
  assumes wf: "gm_wf es" and id: "\<And>j e. map_of es j = Some e \<Longrightarrow> ID (h_edge w e) = j"
  shows "distinct (map snd es)"
  using wf unfolding gm_wf_def
  by (rule distinct_by_key [where f = "\<lambda>e. ID (h_edge w e)"]) (use wf in \<open>simp add: id gm_lookup_iff\<close>)

lemma Memory_GetNodes_live:
  assumes inv: "mem_inv w m"
  shows "distinct (Memory_GetNodes w m t f)"
    and "set (Memory_GetNodes w m t f) =
      {r \<in> ran (memNodeRefs m). Node_MatchMetadata (h_env w) f (h_node w r)}"
proof -
  show "distinct (Memory_GetNodes w m t f)"
    using distinct_mn_Node [OF inv] by (simp add: Memory_GetNodes_def)
  have "set (map (mn_Node \<circ> snd) (mb_nodes m)) = ran (memNodeRefs m)"
    using gm_values [OF mem_invD(1) [OF inv]]
    by (auto simp: memNodeRefs_def ran_def image_iff) (metis snd_conv gm_lookup_iff mem_invD(1) [OF inv])+
  then show "set (Memory_GetNodes w m t f) =
      {r \<in> ran (memNodeRefs m). Node_MatchMetadata (h_env w) f (h_node w r)}"
    by (auto simp: Memory_GetNodes_def)
qed

lemma Memory_GetEdges_live:
  assumes inv: "mem_inv w m"
  shows "distinct (Memory_GetEdges w m t f)"
    and "set (Memory_GetEdges w m t f) =
      {e \<in> ran (memEdgeRefs m). Edge_MatchMetadata (h_env w) f (h_edge w e)}"
proof -
  show "distinct (Memory_GetEdges w m t f)"
    unfolding Memory_GetEdges_def using mem_invD(2,5) [OF inv] unfolding memEdgeRefs_def
    by (intro distinct_filter distinct_edge_refs) auto
  show "set (Memory_GetEdges w m t f) =
      {e \<in> ran (memEdgeRefs m). Edge_MatchMetadata (h_env w) f (h_edge w e)}"
    using gm_values [OF mem_invD(2) [OF inv]] by (auto simp: Memory_GetEdges_def memEdgeRefs_def)
qed

lemma Memory_GetNodeEdges_live:
  assumes inv: "mem_inv w m"
  shows "distinct (Memory_GetNodeEdges w m r t f)"
    and "set (Memory_GetNodeEdges w m r t f) =
      {e \<in> ran (memEdgeRefs m). incident w e (ID (h_node w r)) \<and> Edge_MatchMetadata (h_env w) f (h_edge w e)}"
proof -
  let ?adj = "adjacency (mb_nodes m) (ID (h_node w r))"
  have eq: "Memory_GetNodeEdges w m r t f =
      filter (\<lambda>e. Edge_MatchMetadata (h_env w) f (h_edge w e)) (map snd ?adj)"
    by (simp add: Memory_GetNodeEdges_def adjacency_def split: option.split)
  have id: "map_of ?adj j = Some e \<Longrightarrow> ID (h_edge w e) = j" for j e
    using mem_invD(5,6) [OF inv] by auto
  show "distinct (Memory_GetNodeEdges w m r t f)"
    unfolding eq using distinct_edge_refs [OF mem_invD(3) [OF inv] id] by (rule distinct_filter)
  have "snd ` set ?adj = {e \<in> ran (memEdgeRefs m). incident w e (ID (h_node w r))}"
    using gm_values [OF mem_invD(3) [OF inv]] mem_invD(6) [OF inv] by (auto simp: ran_def)
  then show "set (Memory_GetNodeEdges w m r t f) =
      {e \<in> ran (memEdgeRefs m). incident w e (ID (h_node w r)) \<and> Edge_MatchMetadata (h_env w) f (h_edge w e)}"
    unfolding eq by auto
qed

section \<open>The in-memory backend implements the contract\<close>

lemma memoryBackend_sel:
  "be_NodeAdded memoryBackend = Memory_NodeAdded" "be_NodeDeleted memoryBackend = Memory_NodeDeleted"
  "be_GetNode memoryBackend = Memory_GetNode" "be_GetNodeEdges memoryBackend = Memory_GetNodeEdges"
  "be_EdgeAdded memoryBackend = Memory_EdgeAdded" "be_EdgeDeleted memoryBackend = Memory_EdgeDeleted"
  "be_GetEdge memoryBackend = Memory_GetEdge" "be_GetEdgeNodes memoryBackend = Memory_GetEdgeNodes"
  "be_MetadataUpdated memoryBackend = Memory_MetadataUpdated" "be_GetNodes memoryBackend = Memory_GetNodes"
  "be_GetEdges memoryBackend = Memory_GetEdges" "be_IsHistorySupported memoryBackend = Memory_IsHistorySupported"
  by (simp_all add: memoryBackend_def)

lemma Memory_GetNode_live:
  "Memory_GetNode w b i t = (case memNodeRefs b i of Some r \<Rightarrow> [r] | None \<Rightarrow> [])"
  by (simp add: Memory_GetNode_def memNodeRefs_def split: option.split)

lemma Memory_GetEdge_live:
  "Memory_GetEdge w b j t = (case memEdgeRefs b j of Some e \<Rightarrow> [e] | None \<Rightarrow> [])"
  by (simp add: Memory_GetEdge_def memEdgeRefs_def)

lemma Memory_GetEdgeNodes_live:
  "Memory_GetEdgeNodes w b e t pm cm =
        (case (memNodeRefs b (Parent (h_edge w e)), memNodeRefs b (Child (h_edge w e))) of
           (Some p, Some c) \<Rightarrow>
             Some (if Node_MatchMetadata (h_env w) pm (h_node w p) \<and> Node_MatchMetadata (h_env w) cm (h_node w c)
                   then ([p], [c]) else ([], []))
         | _ \<Rightarrow> None)"
  by (auto simp: Memory_GetEdgeNodes_def memNodeRefs_def split: option.splits)

lemma Memory_NodeAdded_law:
  "mem_inv w b \<Longrightarrow> Memory_NodeAdded w b r = (b', err) \<Longrightarrow>
      (if memNodeRefs b (ID (h_node w r)) \<noteq> None then b' = b \<and> err = Some ErrNodeConflict
       else mem_inv w b' \<and> memNodeRefs b' = (memNodeRefs b)(ID (h_node w r) \<mapsto> r) \<and> memEdgeRefs b' = memEdgeRefs b)"
  apply (cases "memNodeRefs b (ID (h_node w r)) = None")
  subgoal using Memory_NodeAdded_inv [of w b r] by simp
  subgoal by (auto simp: Memory_NodeAdded_def memNodeRefs_def)
  done

lemma Memory_NodeDeleted_law:
  "mem_inv w b \<Longrightarrow> Memory_NodeDeleted w b r = (b', err) \<Longrightarrow>
      (if memNodeRefs b (ID (h_node w r)) = None then b' = b \<and> err = Some ErrNodeNotFound
       else memNodeRefs b' = (memNodeRefs b)(ID (h_node w r) := None) \<and> memEdgeRefs b' = memEdgeRefs b \<and>
            ((\<forall>e \<in> ran (memEdgeRefs b). \<not> incident w e (ID (h_node w r))) \<longrightarrow> mem_inv w b'))"
  apply (cases "memNodeRefs b (ID (h_node w r)) = None")
  subgoal by (auto simp: Memory_NodeDeleted_def memNodeRefs_def)
  subgoal using Memory_NodeDeleted_inv [of w b r] by auto
  done

lemma Memory_EdgeAdded_law:
  "mem_inv w b \<Longrightarrow> Memory_EdgeAdded w b e = (b', err) \<Longrightarrow>
      (if memEdgeRefs b (ID (h_edge w e)) \<noteq> None then b' = b \<and> err = Some ErrEdgeConflict
       else if memNodeRefs b (Parent (h_edge w e)) = None then b' = b \<and> err = Some ErrParentNotFound
       else if memNodeRefs b (Child (h_edge w e)) = None then b' = b \<and> err = Some ErrChildNotFound
       else mem_inv w b' \<and> memNodeRefs b' = memNodeRefs b \<and> memEdgeRefs b' = (memEdgeRefs b)(ID (h_edge w e) \<mapsto> e))"
  apply (cases "memEdgeRefs b (ID (h_edge w e)) = None \<and> memNodeRefs b (Parent (h_edge w e)) \<noteq> None \<and>
        memNodeRefs b (Child (h_edge w e)) \<noteq> None")
  subgoal using Memory_EdgeAdded_inv [of w b e] by auto
  subgoal by (auto simp: Memory_EdgeAdded_def memEdgeRefs_def memNodeRefs_None Let_def split: if_splits)
  done

lemma Memory_EdgeDeleted_law:
  "mem_inv w b \<Longrightarrow> Memory_EdgeDeleted w b e = (b', err) \<Longrightarrow>
      (case memEdgeRefs b (ID (h_edge w e)) of
         None \<Rightarrow> b' = b \<and> err = Some ErrEdgeNotFound
       | Some e' \<Rightarrow>
           memNodeRefs b' = memNodeRefs b \<and> memEdgeRefs b' = (memEdgeRefs b)(ID (h_edge w e) := None) \<and>
           (Parent (h_edge w e) = Parent (h_edge w e') \<and> Child (h_edge w e) = Child (h_edge w e') \<longrightarrow> mem_inv w b'))"
  apply (cases "memEdgeRefs b (ID (h_edge w e))")
  subgoal by (auto simp: Memory_EdgeDeleted_def memEdgeRefs_def Let_def)
  subgoal using Memory_EdgeDeleted_inv [of w b e] by simp
  done

lemma Memory_MetadataUpdated_law:
  "Memory_MetadataUpdated w b x = (b', err) \<Longrightarrow>
      memNodeRefs b' = memNodeRefs b \<and> memEdgeRefs b' = memEdgeRefs b \<and> (mem_inv w b \<longrightarrow> mem_inv w b') \<and>
      (case x of NodeElem r \<Rightarrow> memNodeRefs b (ID (h_node w r)) = None \<longrightarrow> err = Some ErrNodeNotFound
               | EdgeElem e \<Rightarrow> memEdgeRefs b (ID (h_edge w e)) = None \<longrightarrow> err = Some ErrEdgeNotFound)"
  by (auto simp: Memory_MetadataUpdated_def memNodeRefs_None memEdgeRefs_def split: element.splits)

lemma Memory_writes_ok:
  "memNodeRefs b (ID (h_node w r)) = None \<Longrightarrow> snd (Memory_NodeAdded w b r) = None"
  "memNodeRefs b (ID (h_node w r)) \<noteq> None \<Longrightarrow> snd (Memory_NodeDeleted w b r) = None"
  "memEdgeRefs b (ID (h_edge w e)) = None \<Longrightarrow> memNodeRefs b (Parent (h_edge w e)) \<noteq> None \<Longrightarrow>
     memNodeRefs b (Child (h_edge w e)) \<noteq> None \<Longrightarrow> snd (Memory_EdgeAdded w b e) = None"
  "memEdgeRefs b (ID (h_edge w e)) \<noteq> None \<Longrightarrow> snd (Memory_EdgeDeleted w b e) = None"
  by (simp_all add: Memory_NodeAdded_def Memory_NodeDeleted_def Memory_EdgeAdded_def Memory_EdgeDeleted_def
      memNodeRefs_None memEdgeRefs_def Let_def)

lemma Memory_MetadataUpdated_ok:
  "(case x of NodeElem r \<Rightarrow> memNodeRefs b (ID (h_node w r)) \<noteq> None
            | EdgeElem e \<Rightarrow> memEdgeRefs b (ID (h_edge w e)) \<noteq> None) \<Longrightarrow> snd (Memory_MetadataUpdated w b x) = None"
  by (cases x) (simp_all add: Memory_MetadataUpdated_def memNodeRefs_None memEdgeRefs_def)

lemma mem_edge_id: "mem_inv w b \<Longrightarrow> memEdgeRefs b j = Some e \<Longrightarrow> ID (h_edge w e) = j"
  by (simp add: mem_invD(5))

lemma mem_edge_ends: "mem_inv w b \<Longrightarrow> memEdgeRefs b j = Some e \<Longrightarrow>
    memNodeRefs b (Parent (h_edge w e)) \<noteq> None \<and> memNodeRefs b (Child (h_edge w e)) \<noteq> None"
  using mem_invD(5) by blast

lemmas memory_laws = Memory_NodeAdded_law Memory_NodeDeleted_law Memory_EdgeAdded_law Memory_EdgeDeleted_law
  Memory_MetadataUpdated_law Memory_writes_ok Memory_MetadataUpdated_ok mem_invD(4) mem_edge_id mem_edge_ends
  mem_inv_frame

lemmas memory_queries = Memory_GetNode_live Memory_GetEdge_live Memory_GetEdgeNodes_live
  conjI [OF Memory_GetNodes_live] conjI [OF Memory_GetEdges_live] conjI [OF Memory_GetNodeEdges_live]

interpretation mem: reliable_backend memoryBackend mem_inv memNodeRefs memEdgeRefs
  by (unfold_locales; (unfold memoryBackend_sel)?; (fact memory_laws | rule memory_queries; assumption))

end
