(* ===== verification/Cached.thy ===== *)
theory Cached
  imports Memory
begin

text \<open>
  The cached backend, \<^verbatim>\<open>src/graffiti/graph/cachedbackend.go\<close>: the in-memory backend in front of
  an optional persistent one.  Writes go to the memory first and, outside the cache-only mode, to
  the persistent backend, whose failure is reported although the memory keeps the write.  Reads of
  the live graph go to the memory.  The persistent backend is any implementation of the interface
  (\<open>P\<close>; \<open>None\<close> is nil).
\<close>

datatype cacheMode = CacheOnlyMode | DefaultMode

record 'p CachedBackend =
  cb_memory :: MemoryBackend
  cb_persistent :: 'p
  cb_cacheMode :: cacheMode

definition SetMode :: "cacheMode \<Rightarrow> 'p CachedBackend \<Rightarrow> 'p CachedBackend" where
  "SetMode mode c = c\<lparr>cb_cacheMode := mode\<rparr>"

text \<open>
  Every write has the same body: the memory's method, then the persistent one's.  \<open>wm\<close> and
  \<open>wp\<close> are the two calls.
\<close>

definition cachedWrite ::
  "(MemoryBackend \<Rightarrow> MemoryBackend \<times> go_error option) \<Rightarrow> ('p \<Rightarrow> 'p \<times> go_error option) option \<Rightarrow>
   'p CachedBackend \<Rightarrow> 'p CachedBackend \<times> go_error option" where
  "cachedWrite wm wp c =
     (let (m, err) = wm (cb_memory c); c = c\<lparr>cb_memory := m\<rparr>
      in if err \<noteq> None then (c, err)
         else (case wp of
                 Some f \<Rightarrow>
                   if cb_cacheMode c \<noteq> CacheOnlyMode
                   then (let (p, err) = f (cb_persistent c) in (c\<lparr>cb_persistent := p\<rparr>, err))
                   else (c, None)
               | None \<Rightarrow> (c, None)))"

text \<open>Every read asks the memory in the live context, in cache-only mode and without persistence.\<close>

definition cachedRead ::
  "'p Backend option \<Rightarrow> 'p CachedBackend \<Rightarrow> Context \<Rightarrow> (MemoryBackend \<Rightarrow> 'r) \<Rightarrow> ('p Backend \<Rightarrow> 'p \<Rightarrow> 'r) \<Rightarrow> 'r" where
  "cachedRead P c t rm rp =
     (case P of
        Some p \<Rightarrow> (if ctxTimeSlice t = None \<or> cb_cacheMode c = CacheOnlyMode then rm (cb_memory c)
                   else rp p (cb_persistent c))
      | None \<Rightarrow> rm (cb_memory c))"

definition Cached_NodeAdded ::
  "'p Backend option \<Rightarrow> world \<Rightarrow> 'p CachedBackend \<Rightarrow> nref \<Rightarrow> 'p CachedBackend \<times> go_error option" where
  "Cached_NodeAdded P w c n =
     cachedWrite (\<lambda>m. Memory_NodeAdded w m n) (map_option (\<lambda>p s. be_NodeAdded p w s n) P) c"

definition Cached_NodeDeleted ::
  "'p Backend option \<Rightarrow> world \<Rightarrow> 'p CachedBackend \<Rightarrow> nref \<Rightarrow> 'p CachedBackend \<times> go_error option" where
  "Cached_NodeDeleted P w c n =
     cachedWrite (\<lambda>m. Memory_NodeDeleted w m n) (map_option (\<lambda>p s. be_NodeDeleted p w s n) P) c"

definition Cached_GetNode ::
  "'p Backend option \<Rightarrow> world \<Rightarrow> 'p CachedBackend \<Rightarrow> Identifier \<Rightarrow> Context \<Rightarrow> nref list" where
  "Cached_GetNode P w c i t =
     cachedRead P c t (\<lambda>m. Memory_GetNode w m i t) (\<lambda>p s. be_GetNode p w s i t)"

definition Cached_GetNodeEdges ::
  "'p Backend option \<Rightarrow> world \<Rightarrow> 'p CachedBackend \<Rightarrow> nref \<Rightarrow> Context \<Rightarrow> ElementMatcher option \<Rightarrow> eref list" where
  "Cached_GetNodeEdges P w c n t f =
     cachedRead P c t (\<lambda>m. Memory_GetNodeEdges w m n t f) (\<lambda>p s. be_GetNodeEdges p w s n t f)"

definition Cached_EdgeAdded ::
  "'p Backend option \<Rightarrow> world \<Rightarrow> 'p CachedBackend \<Rightarrow> eref \<Rightarrow> 'p CachedBackend \<times> go_error option" where
  "Cached_EdgeAdded P w c e =
     cachedWrite (\<lambda>m. Memory_EdgeAdded w m e) (map_option (\<lambda>p s. be_EdgeAdded p w s e) P) c"

definition Cached_EdgeDeleted ::
  "'p Backend option \<Rightarrow> world \<Rightarrow> 'p CachedBackend \<Rightarrow> eref \<Rightarrow> 'p CachedBackend \<times> go_error option" where
  "Cached_EdgeDeleted P w c e =
     cachedWrite (\<lambda>m. Memory_EdgeDeleted w m e) (map_option (\<lambda>p s. be_EdgeDeleted p w s e) P) c"

definition Cached_GetEdge ::
  "'p Backend option \<Rightarrow> world \<Rightarrow> 'p CachedBackend \<Rightarrow> Identifier \<Rightarrow> Context \<Rightarrow> eref list" where
  "Cached_GetEdge P w c i t =
     cachedRead P c t (\<lambda>m. Memory_GetEdge w m i t) (\<lambda>p s. be_GetEdge p w s i t)"

definition Cached_GetEdgeNodes ::
  "'p Backend option \<Rightarrow> world \<Rightarrow> 'p CachedBackend \<Rightarrow> eref \<Rightarrow> Context \<Rightarrow> ElementMatcher option \<Rightarrow>
   ElementMatcher option \<Rightarrow> (nref list \<times> nref list) option" where
  "Cached_GetEdgeNodes P w c e t parentMetadata childMetadata =
     cachedRead P c t (\<lambda>m. Memory_GetEdgeNodes w m e t parentMetadata childMetadata)
       (\<lambda>p s. be_GetEdgeNodes p w s e t parentMetadata childMetadata)"

definition Cached_MetadataUpdated ::
  "'p Backend option \<Rightarrow> world \<Rightarrow> 'p CachedBackend \<Rightarrow> element \<Rightarrow> 'p CachedBackend \<times> go_error option" where
  "Cached_MetadataUpdated P w c i =
     cachedWrite (\<lambda>m. Memory_MetadataUpdated w m i) (map_option (\<lambda>p s. be_MetadataUpdated p w s i) P) c"

definition Cached_GetNodes ::
  "'p Backend option \<Rightarrow> world \<Rightarrow> 'p CachedBackend \<Rightarrow> Context \<Rightarrow> ElementMatcher option \<Rightarrow> nref list" where
  "Cached_GetNodes P w c t f =
     cachedRead P c t (\<lambda>m. Memory_GetNodes w m t f) (\<lambda>p s. be_GetNodes p w s t f)"

definition Cached_GetEdges ::
  "'p Backend option \<Rightarrow> world \<Rightarrow> 'p CachedBackend \<Rightarrow> Context \<Rightarrow> ElementMatcher option \<Rightarrow> eref list" where
  "Cached_GetEdges P w c t f =
     cachedRead P c t (\<lambda>m. Memory_GetEdges w m t f) (\<lambda>p s. be_GetEdges p w s t f)"

definition Cached_IsHistorySupported :: "'p Backend option \<Rightarrow> 'p CachedBackend \<Rightarrow> bool" where
  "Cached_IsHistorySupported P c = (case P of Some p \<Rightarrow> be_IsHistorySupported p (cb_persistent c) | None \<Rightarrow> False)"

definition NewCachedBackend :: "'p \<Rightarrow> 'p CachedBackend" where
  "NewCachedBackend persistent =
     \<lparr>cb_memory = NewMemoryBackend, cb_persistent = persistent, cb_cacheMode = DefaultMode\<rparr>"

definition cachedBackend :: "'p Backend option \<Rightarrow> 'p CachedBackend Backend" where
  "cachedBackend P =
     \<lparr>be_NodeAdded = Cached_NodeAdded P, be_NodeDeleted = Cached_NodeDeleted P,
      be_GetNode = Cached_GetNode P, be_GetNodeEdges = Cached_GetNodeEdges P,
      be_EdgeAdded = Cached_EdgeAdded P, be_EdgeDeleted = Cached_EdgeDeleted P,
      be_GetEdge = Cached_GetEdge P, be_GetEdgeNodes = Cached_GetEdgeNodes P,
      be_MetadataUpdated = Cached_MetadataUpdated P, be_GetNodes = Cached_GetNodes P,
      be_GetEdges = Cached_GetEdges P, be_IsHistorySupported = Cached_IsHistorySupported P\<rparr>"

section \<open>The cached backend implements the contract\<close>

lemma cachedBackend_sel:
  "be_NodeAdded (cachedBackend P) = Cached_NodeAdded P" "be_NodeDeleted (cachedBackend P) = Cached_NodeDeleted P"
  "be_GetNode (cachedBackend P) = Cached_GetNode P" "be_GetNodeEdges (cachedBackend P) = Cached_GetNodeEdges P"
  "be_EdgeAdded (cachedBackend P) = Cached_EdgeAdded P" "be_EdgeDeleted (cachedBackend P) = Cached_EdgeDeleted P"
  "be_GetEdge (cachedBackend P) = Cached_GetEdge P" "be_GetEdgeNodes (cachedBackend P) = Cached_GetEdgeNodes P"
  "be_MetadataUpdated (cachedBackend P) = Cached_MetadataUpdated P" "be_GetNodes (cachedBackend P) = Cached_GetNodes P"
  "be_GetEdges (cachedBackend P) = Cached_GetEdges P"
  "be_IsHistorySupported (cachedBackend P) = Cached_IsHistorySupported P"
  by (simp_all add: cachedBackend_def)

text \<open>A write leaves the memory as the memory's own method does, and reports its error if there is one.\<close>

lemma cachedWrite_memory: "cb_memory (fst (cachedWrite wm wp c)) = fst (wm (cb_memory c))"
  by (simp add: cachedWrite_def Let_def case_prod_beta split: option.split)

lemma cachedWrite_err: "snd (wm (cb_memory c)) = Some err \<Longrightarrow>
    cachedWrite wm wp c = (c\<lparr>cb_memory := fst (wm (cb_memory c))\<rparr>, Some err)"
  by (simp add: cachedWrite_def Let_def case_prod_beta)

lemma cachedWrite_mode [simp]: "cb_cacheMode (fst (cachedWrite wm wp c)) = cb_cacheMode c"
  by (simp add: cachedWrite_def Let_def case_prod_beta split: option.split)

lemma cachedWrite_reaches:
  "cb_cacheMode c = DefaultMode \<Longrightarrow> snd (wm (cb_memory c)) = None \<Longrightarrow>
   cb_persistent (fst (cachedWrite wm (Some f) c)) = fst (f (cb_persistent c)) \<and>
   snd (cachedWrite wm (Some f) c) = snd (f (cb_persistent c))"
  by (simp add: cachedWrite_def Let_def case_prod_beta)

lemma cachedWrite_cacheOnly:
  "cb_cacheMode c = CacheOnlyMode \<or> wp = None \<Longrightarrow>
   cachedWrite wm wp c = (c\<lparr>cb_memory := fst (wm (cb_memory c))\<rparr>, snd (wm (cb_memory c)))"
  by (auto simp: cachedWrite_def Let_def case_prod_beta split: option.split)

lemma cachedRead_live [simp]: "ctxTimeSlice t = None \<Longrightarrow> cachedRead P c t rm rp = rm (cb_memory c)"
  by (simp add: cachedRead_def split: option.split)

abbreviation cached_inv :: "world \<Rightarrow> 'p CachedBackend \<Rightarrow> bool" where
  "cached_inv w c \<equiv> mem_inv w (cb_memory c)"

abbreviation cachedNodeRefs :: "'p CachedBackend \<Rightarrow> Identifier \<rightharpoonup> nref" where
  "cachedNodeRefs c \<equiv> memNodeRefs (cb_memory c)"

abbreviation cachedEdgeRefs :: "'p CachedBackend \<Rightarrow> Identifier \<rightharpoonup> eref" where
  "cachedEdgeRefs c \<equiv> memEdgeRefs (cb_memory c)"

text \<open>Each law of a write follows from the memory's own, which speaks of the same memory and error.\<close>

lemma cachedWrite_cases:
  assumes "cachedWrite wm wp c = (c', err)"
  obtains (failed) e where "snd (wm (cb_memory c)) = Some e" "err = Some e"
      "c' = c\<lparr>cb_memory := fst (wm (cb_memory c))\<rparr>"
    | (written) "snd (wm (cb_memory c)) = None" "cb_memory c' = fst (wm (cb_memory c))"
proof (cases "snd (wm (cb_memory c))")
  case None
  then show ?thesis using cachedWrite_memory [of wm wp c] assms written by simp
next
  case (Some e)
  then show ?thesis using cachedWrite_err [of wm c e wp] assms failed by simp
qed

lemma Cached_NodeAdded_law:
  assumes "cached_inv w c" "Cached_NodeAdded P w c r = (c', err)"
  shows "if cachedNodeRefs c (ID (h_node w r)) \<noteq> None then c' = c \<and> err = Some ErrNodeConflict
     else cached_inv w c' \<and> cachedNodeRefs c' = (cachedNodeRefs c)(ID (h_node w r) \<mapsto> r) \<and> cachedEdgeRefs c' = cachedEdgeRefs c"
  using assms(2) Memory_NodeAdded_law [OF assms(1) prod.collapse [symmetric], of r]
  unfolding Cached_NodeAdded_def by (cases rule: cachedWrite_cases) (auto split: if_splits)

lemma Cached_NodeDeleted_law:
  assumes "cached_inv w c" "Cached_NodeDeleted P w c r = (c', err)"
  shows "if cachedNodeRefs c (ID (h_node w r)) = None then c' = c \<and> err = Some ErrNodeNotFound
     else cachedNodeRefs c' = (cachedNodeRefs c)(ID (h_node w r) := None) \<and> cachedEdgeRefs c' = cachedEdgeRefs c \<and>
       ((\<forall>e \<in> ran (cachedEdgeRefs c). \<not> incident w e (ID (h_node w r))) \<longrightarrow> cached_inv w c')"
  using assms(2) Memory_NodeDeleted_law [OF assms(1) prod.collapse [symmetric], of r]
  unfolding Cached_NodeDeleted_def by (cases rule: cachedWrite_cases) (auto split: if_splits)

lemma Cached_EdgeAdded_law:
  assumes "cached_inv w c" "Cached_EdgeAdded P w c e = (c', err)"
  shows "if cachedEdgeRefs c (ID (h_edge w e)) \<noteq> None then c' = c \<and> err = Some ErrEdgeConflict
     else if cachedNodeRefs c (Parent (h_edge w e)) = None then c' = c \<and> err = Some ErrParentNotFound
     else if cachedNodeRefs c (Child (h_edge w e)) = None then c' = c \<and> err = Some ErrChildNotFound
     else cached_inv w c' \<and> cachedNodeRefs c' = cachedNodeRefs c \<and> cachedEdgeRefs c' = (cachedEdgeRefs c)(ID (h_edge w e) \<mapsto> e)"
  using assms(2) Memory_EdgeAdded_law [OF assms(1) prod.collapse [symmetric], of e]
  unfolding Cached_EdgeAdded_def by (cases rule: cachedWrite_cases) (auto split: if_splits)

lemma Cached_EdgeDeleted_law:
  assumes "cached_inv w c" "Cached_EdgeDeleted P w c e = (c', err)"
  shows "case cachedEdgeRefs c (ID (h_edge w e)) of
       None \<Rightarrow> c' = c \<and> err = Some ErrEdgeNotFound
     | Some e' \<Rightarrow> cachedNodeRefs c' = cachedNodeRefs c \<and> cachedEdgeRefs c' = (cachedEdgeRefs c)(ID (h_edge w e) := None) \<and>
         (Parent (h_edge w e) = Parent (h_edge w e') \<and> Child (h_edge w e) = Child (h_edge w e') \<longrightarrow> cached_inv w c')"
  using assms(2) Memory_EdgeDeleted_law [OF assms(1) prod.collapse [symmetric], of e]
  unfolding Cached_EdgeDeleted_def by (cases rule: cachedWrite_cases) (auto split: option.splits)

lemma Cached_MetadataUpdated_law:
  assumes "Cached_MetadataUpdated P w c x = (c', err)"
  shows "cachedNodeRefs c' = cachedNodeRefs c \<and> cachedEdgeRefs c' = cachedEdgeRefs c \<and> (cached_inv w c \<longrightarrow> cached_inv w c') \<and>
      (case x of NodeElem r \<Rightarrow> cachedNodeRefs c (ID (h_node w r)) = None \<longrightarrow> err = Some ErrNodeNotFound
               | EdgeElem e \<Rightarrow> cachedEdgeRefs c (ID (h_edge w e)) = None \<longrightarrow> err = Some ErrEdgeNotFound)"
  using assms Memory_MetadataUpdated_law [OF prod.collapse [symmetric], of w "cb_memory c" x]
  unfolding Cached_MetadataUpdated_def by (cases rule: cachedWrite_cases) (auto split: element.splits)

lemmas cached_laws = Cached_NodeAdded_law Cached_NodeDeleted_law Cached_EdgeAdded_law Cached_EdgeDeleted_law
  Cached_MetadataUpdated_law mem_invD(4) mem_edge_id mem_edge_ends mem_inv_frame

lemmas cached_reads = Cached_GetNode_def Cached_GetEdge_def Cached_GetEdgeNodes_def Cached_GetNodes_def
  Cached_GetEdges_def Cached_GetNodeEdges_def

interpretation cached: backend_laws "cachedBackend P" cached_inv cachedNodeRefs cachedEdgeRefs for P
  by (unfold_locales; (unfold cachedBackend_sel)?;
      (fact cached_laws | simp only: cached_reads cachedRead_live, rule memory_queries, assumption?))

end
