(* ===== verification/Graph.thy ===== *)
theory Graph
  imports EventHandler Cached
begin

text \<open>
  The graph of \<^verbatim>\<open>src/graffiti/graph/graph.go\<close> over any backend \<open>B\<close>, and the metadata transactions
  of \<^verbatim>\<open>src/graffiti/graph/transaction.go\<close>.  An operation takes the graph to the next one with the
  error it returns (\<open>None\<close> is nil); \<open>None\<close> in place of the pair is a panic.  The clock's
  reading and fresh identifiers are arguments.  Listeners here only observe; notifications from
  inside a callback are the subject of \<^verbatim>\<open>EventHandler\<close>.
\<close>

text \<open>
  \<open>g_published\<close> is history that no operation reads: what a listener that serialises the element it
  is called with has sent.
\<close>

datatype snapshot = NodeSnap Node | EdgeSnap Edge

fun snapshotOf :: "world \<Rightarrow> element \<Rightarrow> snapshot" where
  "snapshotOf w (NodeElem r) = NodeSnap (h_node w r)"
| "snapshotOf w (EdgeElem e) = EdgeSnap (h_edge w e)"

record 'b Graph =
  g_world :: world
  g_backend :: 'b
  g_eventHandler :: EventHandler
  g_context :: Context
  g_host :: string
  g_service :: string
  g_published :: "(graphEventType \<times> snapshot) list" \<comment> \<open>history: the events notified so far\<close>

type_synonym 'b outcome = "('b Graph \<times> go_error option) option"

section \<open>Calls into the backend and the event handler\<close>

definition callBackend ::
  "(world \<Rightarrow> 'b \<Rightarrow> 'b \<times> go_error option) \<Rightarrow> 'b Graph \<Rightarrow> 'b Graph \<times> go_error option" where
  "callBackend f g = (let (b, err) = f (g_world g) (g_backend g) in (g\<lparr>g_backend := b\<rparr>, err))"

definition notify :: "graphEventType \<Rightarrow> element \<Rightarrow> 'b Graph \<Rightarrow> 'b Graph option" where
  "notify kind x g =
     map_option (\<lambda>h. g\<lparr>g_eventHandler := h, g_published := g_published g @ [(kind, snapshotOf (g_world g) x)]\<rparr>)
       (NotifyEvent noReaction kind x (g_eventHandler g))"

text \<open>\<^verbatim>\<open>if err := backend.f(); err != nil { return err }; NotifyEvent(kind, x); return nil\<close>\<close>

definition publish ::
  "(world \<Rightarrow> 'b \<Rightarrow> 'b \<times> go_error option) \<Rightarrow> graphEventType \<Rightarrow> element \<Rightarrow> 'b Graph \<Rightarrow> 'b outcome" where
  "publish f kind x g =
     (let (g, err) = callBackend f g
      in if err \<noteq> None then Some (g, err) else map_option (\<lambda>g. (g, None)) (notify kind x g))"

section \<open>Queries\<close>

definition Graph_GetNode :: "'b Backend \<Rightarrow> 'b Graph \<Rightarrow> Identifier \<Rightarrow> nref option" where
  "Graph_GetNode B g i =
     (case be_GetNode B (g_world g) (g_backend g) i (g_context g) of [] \<Rightarrow> None | r # _ \<Rightarrow> Some r)"

definition Graph_GetEdge :: "'b Backend \<Rightarrow> 'b Graph \<Rightarrow> Identifier \<Rightarrow> eref option" where
  "Graph_GetEdge B g i =
     (case be_GetEdge B (g_world g) (g_backend g) i (g_context g) of [] \<Rightarrow> None | e # _ \<Rightarrow> Some e)"

definition Graph_GetNodes :: "'b Backend \<Rightarrow> 'b Graph \<Rightarrow> ElementMatcher option \<Rightarrow> nref list" where
  "Graph_GetNodes B g m = be_GetNodes B (g_world g) (g_backend g) (g_context g) m"

definition Graph_GetEdges :: "'b Backend \<Rightarrow> 'b Graph \<Rightarrow> ElementMatcher option \<Rightarrow> eref list" where
  "Graph_GetEdges B g m = be_GetEdges B (g_world g) (g_backend g) (g_context g) m"

definition Graph_GetEdgeNodes ::
  "'b Backend \<Rightarrow> 'b Graph \<Rightarrow> eref \<Rightarrow> ElementMatcher option \<Rightarrow> ElementMatcher option \<Rightarrow>
   (nref list \<times> nref list) option" where
  "Graph_GetEdgeNodes B g e parentMetadata childMetadata =
     be_GetEdgeNodes B (g_world g) (g_backend g) e (g_context g) parentMetadata childMetadata"

definition Graph_GetNodeEdges :: "'b Backend \<Rightarrow> 'b Graph \<Rightarrow> nref \<Rightarrow> ElementMatcher option \<Rightarrow> eref list" where
  "Graph_GetNodeEdges B g n m = be_GetNodeEdges B (g_world g) (g_backend g) n (g_context g) m"

text \<open>A loop over edges that collects nodes; it panics when one of its steps does.\<close>

definition collectNodes :: "(eref \<Rightarrow> nref list option) \<Rightarrow> eref list \<Rightarrow> nref list option" where
  "collectNodes f es = map_option concat (those (map f es))"

definition getNeighborNodes :: "'b Backend \<Rightarrow> 'b Graph \<Rightarrow> nref \<Rightarrow> ElementMatcher option \<Rightarrow> nref list option" where
  "getNeighborNodes B g n em =
     collectNodes (\<lambda>e. map_option (\<lambda>(parents, children). parents @ children) (Graph_GetEdgeNodes B g e None None))
       (Graph_GetNodeEdges B g n em)"

definition LookupParents ::
  "'b Backend \<Rightarrow> 'b Graph \<Rightarrow> nref \<Rightarrow> ElementMatcher option \<Rightarrow> ElementMatcher option \<Rightarrow> nref list option" where
  "LookupParents B g n f em =
     collectNodes (\<lambda>e. if Child (h_edge (g_world g) e) = ID (h_node (g_world g) n)
                       then map_option fst (Graph_GetEdgeNodes B g e f None) else Some [])
       (Graph_GetNodeEdges B g n em)"

definition LookupChildren ::
  "'b Backend \<Rightarrow> 'b Graph \<Rightarrow> nref \<Rightarrow> ElementMatcher option \<Rightarrow> ElementMatcher option \<Rightarrow> nref list option" where
  "LookupChildren B g n f em =
     collectNodes (\<lambda>e. if Parent (h_edge (g_world g) e) = ID (h_node (g_world g) n)
                       then map_option snd (Graph_GetEdgeNodes B g e None f) else Some [])
       (Graph_GetNodeEdges B g n em)"

definition LookupFirstChild ::
  "'b Backend \<Rightarrow> 'b Graph \<Rightarrow> nref \<Rightarrow> ElementMatcher option \<Rightarrow> nref option option" where
  "LookupFirstChild B g n f =
     map_option (\<lambda>nodes. if length nodes > 0 then Some (nodes ! 0) else None) (LookupChildren B g n f None)"

text \<open>The inner loop of \<^verbatim>\<open>AreLinked\<close> indexes the children by the position of the parent.\<close>

fun linkedEnds :: "world \<Rightarrow> nref list \<Rightarrow> nref list \<Rightarrow> Identifier \<Rightarrow> bool option" where
  "linkedEnds w [] cs i = Some False"
| "linkedEnds w (p # ps) [] i = None"
| "linkedEnds w (p # ps) (c # cs) i =
     (if ID (h_node w c) = i \<or> ID (h_node w p) = i then Some True else linkedEnds w ps cs i)"

fun areLinkedLoop :: "'b Backend \<Rightarrow> 'b Graph \<Rightarrow> Identifier \<Rightarrow> eref list \<Rightarrow> bool option" where
  "areLinkedLoop B g i [] = Some False"
| "areLinkedLoop B g i (e # es) =
     (case Graph_GetEdgeNodes B g e None None of
        None \<Rightarrow> None
      | Some (parents, children) \<Rightarrow>
          if parents = [] \<or> children = [] then areLinkedLoop B g i es
          else (case linkedEnds (g_world g) parents children i of
                  None \<Rightarrow> None
                | Some True \<Rightarrow> Some True
                | Some False \<Rightarrow> areLinkedLoop B g i es))"

definition AreLinked :: "'b Backend \<Rightarrow> 'b Graph \<Rightarrow> nref \<Rightarrow> nref \<Rightarrow> ElementMatcher option \<Rightarrow> bool option" where
  "AreLinked B g n1 n2 m = areLinkedLoop B g (ID (h_node (g_world g) n2)) (Graph_GetNodeEdges B g n1 m)"

definition GetFirstLink ::
  "'b Backend \<Rightarrow> 'b Graph \<Rightarrow> nref \<Rightarrow> nref \<Rightarrow> ElementMatcher option \<Rightarrow> eref option" where
  "GetFirstLink B g parent child m =
     List.find (\<lambda>e. Child (h_edge (g_world g) e) = ID (h_node (g_world g) child)) (Graph_GetNodeEdges B g parent m)"

definition LookupFirstNode :: "'b Backend \<Rightarrow> 'b Graph \<Rightarrow> ElementMatcher option \<Rightarrow> nref option" where
  "LookupFirstNode B g m = (case Graph_GetNodes B g m of [] \<Rightarrow> None | r # _ \<Rightarrow> Some r)"

section \<open>Additions\<close>

definition Graph_AddEdge :: "'b Backend \<Rightarrow> eref \<Rightarrow> 'b Graph \<Rightarrow> 'b outcome" where
  "Graph_AddEdge B e g = publish (\<lambda>w b. be_EdgeAdded B w b e) EdgeAdded (EdgeElem e) g"

definition Graph_EdgeAdded :: "'b Backend \<Rightarrow> eref \<Rightarrow> 'b Graph \<Rightarrow> 'b outcome" where
  "Graph_EdgeAdded B e g =
     (if Graph_GetEdge B g (ID (h_edge (g_world g) e)) = None then Graph_AddEdge B e g else Some (g, None))"

definition Graph_AddNode :: "'b Backend \<Rightarrow> nref \<Rightarrow> 'b Graph \<Rightarrow> 'b outcome" where
  "Graph_AddNode B n g = publish (\<lambda>w b. be_NodeAdded B w b n) NodeAdded (NodeElem n) g"

definition Graph_NodeAdded :: "'b Backend \<Rightarrow> nref \<Rightarrow> 'b Graph \<Rightarrow> 'b outcome" where
  "Graph_NodeAdded B n g =
     (if Graph_GetNode B g (ID (h_node (g_world g) n)) = None then Graph_AddNode B n g else Some (g, None))"

text \<open>The optional host argument \<^verbatim>\<open>h ...string\<close> replaces the graph's own host.\<close>

definition Graph_CreateNode ::
  "'b Graph \<Rightarrow> Identifier \<Rightarrow> metadata option \<Rightarrow> int \<Rightarrow> string list \<Rightarrow> Node" where
  "Graph_CreateNode g i m t h =
     CreateNode i m t (case h of [] \<Rightarrow> g_host g | h0 # _ \<Rightarrow> h0) (g_service g)"

definition Graph_NewNode ::
  "'b Backend \<Rightarrow> int \<Rightarrow> Identifier \<Rightarrow> metadata option \<Rightarrow> string list \<Rightarrow> 'b Graph \<Rightarrow>
   ('b Graph \<times> nref result) option" where
  "Graph_NewNode B now i m h g =
     (let (w, n) = new_node (Graph_CreateNode g i m now h) (g_world g)
      in map_option (\<lambda>(g, err). (g, case err of Some x \<Rightarrow> Inl x | None \<Rightarrow> Inr n))
           (Graph_AddNode B n (g\<lparr>g_world := w\<rparr>)))"

text \<open>An empty identifier is replaced by the name-based UUID (\<open>uuid5\<close>) of the two ends.\<close>

definition Graph_CreateEdge ::
  "(string \<Rightarrow> string) \<Rightarrow> 'b Graph \<Rightarrow> Identifier \<Rightarrow> Node \<Rightarrow> Node \<Rightarrow> metadata option \<Rightarrow> int \<Rightarrow> string list \<Rightarrow> Edge" where
  "Graph_CreateEdge uuid5 g i p c m t h =
     CreateEdge (if i = [] then uuid5 (ID p @ ID c) else i) p c m t
       (case h of [] \<Rightarrow> g_host g | h0 # _ \<Rightarrow> h0) (g_service g)"

definition Graph_NewEdge ::
  "(string \<Rightarrow> string) \<Rightarrow> 'b Backend \<Rightarrow> int \<Rightarrow> Identifier \<Rightarrow> nref \<Rightarrow> nref \<Rightarrow> metadata option \<Rightarrow> string list \<Rightarrow>
   'b Graph \<Rightarrow> ('b Graph \<times> eref result) option" where
  "Graph_NewEdge uuid5 B now i p c m h g =
     (let (w, e) = new_edge (Graph_CreateEdge uuid5 g i (h_node (g_world g) p) (h_node (g_world g) c) m now h) (g_world g)
      in map_option (\<lambda>(g, err). (g, case err of Some x \<Rightarrow> Inl x | None \<Rightarrow> Inr e))
           (Graph_AddEdge B e (g\<lparr>g_world := w\<rparr>)))"

definition Graph_Link ::
  "(string \<Rightarrow> string) \<Rightarrow> 'b Backend \<Rightarrow> int \<Rightarrow> Identifier \<Rightarrow> nref \<Rightarrow> nref \<Rightarrow> metadata \<Rightarrow> string list \<Rightarrow>
   'b Graph \<Rightarrow> ('b Graph \<times> eref result) option" where
  "Graph_Link uuid5 B now genID n1 n2 m h g =
     (if length m > 0 then Graph_NewEdge uuid5 B now genID n1 n2 (Some m) h g
      else Graph_NewEdge uuid5 B now genID n1 n2 None h g)"

section \<open>Deletions\<close>

definition Graph_EdgeDeleted :: "'b Backend \<Rightarrow> eref \<Rightarrow> 'b Graph \<Rightarrow> 'b outcome" where
  "Graph_EdgeDeleted B e g = publish (\<lambda>w b. be_EdgeDeleted B w b e) EdgeDeleted (EdgeElem e) g"

definition Graph_delEdge :: "'b Backend \<Rightarrow> int \<Rightarrow> eref \<Rightarrow> 'b Graph \<Rightarrow> 'b outcome" where
  "Graph_delEdge B t e g =
     publish (\<lambda>w b. be_EdgeDeleted B w b e) EdgeDeleted (EdgeElem e)
       (g\<lparr>g_world := put_edge e ((h_edge (g_world g) e)\<lparr>DeletedAt := t\<rparr>) (g_world g)\<rparr>)"

definition Graph_DelEdge :: "'b Backend \<Rightarrow> int \<Rightarrow> eref \<Rightarrow> 'b Graph \<Rightarrow> 'b outcome" where
  "Graph_DelEdge B now e g = Graph_delEdge B now e g"

fun delEdges :: "'b Backend \<Rightarrow> int \<Rightarrow> eref list \<Rightarrow> 'b Graph \<Rightarrow> 'b outcome" where
  "delEdges B t [] g = Some (g, None)"
| "delEdges B t (e # es) g =
     (case Graph_delEdge B t e g of
        None \<Rightarrow> None
      | Some (g, Some err) \<Rightarrow> Some (g, Some err)
      | Some (g, None) \<Rightarrow> delEdges B t es g)"

definition Graph_delNode :: "'b Backend \<Rightarrow> int \<Rightarrow> nref \<Rightarrow> 'b Graph \<Rightarrow> 'b outcome" where
  "Graph_delNode B t n g =
     (case delEdges B t (be_GetNodeEdges B (g_world g) (g_backend g) n liveContext None) g of
        None \<Rightarrow> None
      | Some (g, Some err) \<Rightarrow> Some (g, Some err)
      | Some (g, None) \<Rightarrow>
          publish (\<lambda>w b. be_NodeDeleted B w b n) NodeDeleted (NodeElem n)
            (g\<lparr>g_world := put_node n ((h_node (g_world g) n)\<lparr>DeletedAt := t\<rparr>) (g_world g)\<rparr>))"

definition Graph_NodeDeleted :: "'b Backend \<Rightarrow> nref \<Rightarrow> 'b Graph \<Rightarrow> 'b outcome" where
  "Graph_NodeDeleted B n g = Graph_delNode B (DeletedAt (h_node (g_world g) n)) n g"

definition Graph_DelNode :: "'b Backend \<Rightarrow> int \<Rightarrow> nref \<Rightarrow> 'b Graph \<Rightarrow> 'b outcome" where
  "Graph_DelNode B now n g = Graph_delNode B now n g"

fun delNodesLoop :: "'b Backend \<Rightarrow> int \<Rightarrow> nref list \<Rightarrow> 'b Graph \<Rightarrow> 'b outcome" where
  "delNodesLoop B t [] g = Some (g, None)"
| "delNodesLoop B t (n # ns) g =
     (case Graph_delNode B t n g of
        None \<Rightarrow> None
      | Some (g, Some err) \<Rightarrow> Some (g, Some err)
      | Some (g, None) \<Rightarrow> delNodesLoop B t ns g)"

definition Graph_DelNodes :: "'b Backend \<Rightarrow> int \<Rightarrow> ElementMatcher option \<Rightarrow> 'b Graph \<Rightarrow> 'b outcome" where
  "Graph_DelNodes B now m g = delNodesLoop B now (Graph_GetNodes B g m) g"

text \<open>\<^verbatim>\<open>Unlink\<close> goes on after a failed deletion and returns the last error.\<close>

fun unlinkLoop :: "'b Backend \<Rightarrow> int \<Rightarrow> Identifier \<Rightarrow> eref list \<Rightarrow> go_error option \<Rightarrow> 'b Graph \<Rightarrow> 'b outcome" where
  "unlinkLoop B now i [] err g = Some (g, err)"
| "unlinkLoop B now i (e # es) err g =
     (case be_GetEdgeNodes B (g_world g) (g_backend g) e liveContext None None of
        None \<Rightarrow> None
      | Some (parents, children) \<Rightarrow>
          (if parents = [] \<or> children = [] then unlinkLoop B now i es err g
           else if ID (h_node (g_world g) (children ! 0)) = i \<or> ID (h_node (g_world g) (parents ! 0)) = i
           then (case Graph_DelEdge B now e g of
                   None \<Rightarrow> None
                 | Some (g, Some currErr) \<Rightarrow> unlinkLoop B now i es (Some currErr) g
                 | Some (g, None) \<Rightarrow> unlinkLoop B now i es err g)
           else unlinkLoop B now i es err g))"

definition Graph_Unlink :: "'b Backend \<Rightarrow> int \<Rightarrow> nref \<Rightarrow> nref \<Rightarrow> 'b Graph \<Rightarrow> 'b outcome" where
  "Graph_Unlink B now n1 n2 g =
     unlinkLoop B now (ID (h_node (g_world g) n2))
       (be_GetNodeEdges B (g_world g) (g_backend g) n1 liveContext None) None g"

section \<open>Updates\<close>

definition Graph_NodeUpdated :: "'b Backend \<Rightarrow> nref \<Rightarrow> 'b Graph \<Rightarrow> 'b outcome" where
  "Graph_NodeUpdated B n g =
     (let new = h_node (g_world g) n in
      case Graph_GetNode B g (ID new) of
        None \<Rightarrow> Some (g, Some ErrNodeNotFound)
      | Some node \<Rightarrow>
          (let old = h_node (g_world g) node in
           if Revision old < Revision new
           then publish (\<lambda>w b. be_MetadataUpdated B w b (NodeElem node)) NodeUpdated (NodeElem node)
                  (g\<lparr>g_world := put_node node (old\<lparr>Metadata := Metadata new, UpdatedAt := UpdatedAt new,
                       Revision := Revision new\<rparr>) (g_world g)\<rparr>)
           else Some (g, None)))"

definition Graph_EdgeUpdated :: "'b Backend \<Rightarrow> eref \<Rightarrow> 'b Graph \<Rightarrow> 'b outcome" where
  "Graph_EdgeUpdated B e g =
     (let new = h_edge (g_world g) e in
      case Graph_GetEdge B g (ID new) of
        None \<Rightarrow> Some (g, Some ErrEdgeNotFound)
      | Some edge \<Rightarrow>
          (let old = h_edge (g_world g) edge in
           if Revision old < Revision new
           then publish (\<lambda>w b. be_MetadataUpdated B w b (EdgeElem edge)) EdgeUpdated (EdgeElem edge)
                  (g\<lparr>g_world := put_edge edge (old\<lparr>Metadata := Metadata new, UpdatedAt := UpdatedAt new\<rparr>) (g_world g)\<rparr>)
           else Some (g, Some ErrEdgeNotFound)))"

text \<open>
  The other updates work on a node or an edge through its embedded \<^verbatim>\<open>graphElement\<close>: \<open>e.Metadata = m;
  e.UpdatedAt = t; e.Revision++\<close>, the revision being an \<^verbatim>\<open>int64\<close>.
\<close>

definition revise :: "metadata \<Rightarrow> int \<Rightarrow> 'e graphElement_scheme \<Rightarrow> 'e graphElement_scheme" where
  "revise m t e = e\<lparr>Metadata := m, UpdatedAt := t, Revision := wrap64 (Revision e + 1)\<rparr>"

fun elementMetadata :: "world \<Rightarrow> element \<Rightarrow> metadata" where
  "elementMetadata w (NodeElem r) = Metadata (h_node w r)"
| "elementMetadata w (EdgeElem e) = Metadata (h_edge w e)"

fun reviseElement :: "metadata \<Rightarrow> int \<Rightarrow> element \<Rightarrow> world \<Rightarrow> world" where
  "reviseElement m t (NodeElem r) w = put_node r (revise m t (h_node w r)) w"
| "reviseElement m t (EdgeElem e) w = put_edge e (revise m t (h_edge w e)) w"

fun updatedKind :: "element \<Rightarrow> graphEventType" where
  "updatedKind (NodeElem r) = NodeUpdated"
| "updatedKind (EdgeElem e) = EdgeUpdated"

definition publishRevision :: "'b Backend \<Rightarrow> metadata \<Rightarrow> int \<Rightarrow> element \<Rightarrow> 'b Graph \<Rightarrow> 'b outcome" where
  "publishRevision B m t i g =
     publish (\<lambda>w b. be_MetadataUpdated B w b i) (updatedKind i) i (g\<lparr>g_world := reviseElement m t i (g_world g)\<rparr>)"

definition Graph_SetMetadata :: "'b Backend \<Rightarrow> int \<Rightarrow> element \<Rightarrow> metadata \<Rightarrow> 'b Graph \<Rightarrow> 'b outcome" where
  "Graph_SetMetadata B now i m g =
     (if DeepEqual (VMetadata m) (VMetadata (elementMetadata (g_world g) i)) then Some (g, None)
      else publishRevision B m now i g)"

definition Graph_DelMetadata :: "'b Backend \<Rightarrow> int \<Rightarrow> element \<Rightarrow> string \<Rightarrow> 'b Graph \<Rightarrow> 'b outcome" where
  "Graph_DelMetadata B now i k g =
     (let (m, updated) = DelField (elementMetadata (g_world g) i) k
      in if \<not> updated then Some (g, None) else publishRevision B m now i g)"

definition Graph_addMetadata :: "'b Backend \<Rightarrow> element \<Rightarrow> string \<Rightarrow> gval \<Rightarrow> int \<Rightarrow> 'b Graph \<Rightarrow> 'b outcome" where
  "Graph_addMetadata B i k v t g =
     (let old = elementMetadata (g_world g) i in
      if (case map_of old k of Some x \<Rightarrow> DeepEqual x v | None \<Rightarrow> False) then Some (g, None)
      else (let (m, updated) = Metadata_SetField old k v
            in if \<not> updated then Some (g, None) else publishRevision B m t i g))"

definition Graph_AddMetadata :: "'b Backend \<Rightarrow> int \<Rightarrow> element \<Rightarrow> string \<Rightarrow> gval \<Rightarrow> 'b Graph \<Rightarrow> 'b outcome" where
  "Graph_AddMetadata B now i k v g = Graph_addMetadata B i k v now g"

text \<open>
  \<^verbatim>\<open>UpdateMetadata\<close>: the mutator gets the field and, maps and getters being shared, may change the
  element's metadata through it; it says whether it did.  The event is always a node event.
\<close>

fun elementField :: "world \<Rightarrow> element \<Rightarrow> string \<Rightarrow> gval result" where
  "elementField w (NodeElem r) k = element_GetField (h_node w r) k"
| "elementField w (EdgeElem e) k = element_GetField (h_edge w e) k"

definition Graph_UpdateMetadata ::
  "'b Backend \<Rightarrow> int \<Rightarrow> element \<Rightarrow> string \<Rightarrow> (gval \<Rightarrow> metadata \<Rightarrow> metadata \<times> bool) \<Rightarrow> 'b Graph \<Rightarrow> 'b outcome" where
  "Graph_UpdateMetadata B now i key mutator g =
     (case elementField (g_world g) i key of
        Inl err \<Rightarrow> Some (g, Some err)
      | Inr field \<Rightarrow>
          (let (m, updated) = mutator field (elementMetadata (g_world g) i);
               g = g\<lparr>g_world := reviseElement m now i (g_world g)\<rparr>
           in if updated then publish (\<lambda>w b. be_MetadataUpdated B w b i) NodeUpdated i g
              else Some (g, None)))"

section \<open>Metadata transactions\<close>

record MetadataTransaction =
  t_graphElement :: element
  t_adds :: "(string, gval) gomap"
  t_removes :: "string list"

definition StartMetadataTransaction :: "element \<Rightarrow> MetadataTransaction" where
  "StartMetadataTransaction i = \<lparr>t_graphElement = i, t_adds = [], t_removes = []\<rparr>"

definition Transaction_AddMetadata :: "string \<Rightarrow> gval \<Rightarrow> MetadataTransaction \<Rightarrow> MetadataTransaction" where
  "Transaction_AddMetadata k v t = t\<lparr>t_adds := gm_set k v (t_adds t)\<rparr>"

definition Transaction_DelMetadata :: "string \<Rightarrow> MetadataTransaction \<Rightarrow> MetadataTransaction" where
  "Transaction_DelMetadata k t = t\<lparr>t_removes := t_removes t @ [k]\<rparr>"

fun commitAdds :: "(string, gval) gomap \<Rightarrow> metadata \<times> bool \<Rightarrow> metadata \<times> bool" where
  "commitAdds [] (m, updated) = (m, updated)"
| "commitAdds ((k, v) # adds) (m, updated) =
     (if (case map_of m k of Some x \<Rightarrow> DeepEqual x v | None \<Rightarrow> False) then commitAdds adds (m, updated)
      else (let (m', done) = Metadata_SetField m k v in commitAdds adds (m', updated \<or> done)))"

fun commitRemoves :: "string list \<Rightarrow> metadata \<times> bool \<Rightarrow> metadata \<times> bool" where
  "commitRemoves [] (m, updated) = (m, updated)"
| "commitRemoves (k # ks) (m, updated) =
     (let (m', done) = DelField m k in commitRemoves ks (m', done \<or> updated))"

definition Transaction_Commit :: "'b Backend \<Rightarrow> int \<Rightarrow> MetadataTransaction \<Rightarrow> 'b Graph \<Rightarrow> 'b outcome" where
  "Transaction_Commit B now t g =
     (let i = t_graphElement t;
          (m, updated) = commitRemoves (t_removes t) (commitAdds (t_adds t) (elementMetadata (g_world g) i, False))
      in if \<not> updated then Some (g, None) else publishRevision B m now i g)"

section \<open>Contexts, differences and construction\<close>

definition NewGraph :: "string \<Rightarrow> world \<Rightarrow> 'b \<Rightarrow> string \<Rightarrow> 'b Graph" where
  "NewGraph host w backend service =
     \<lparr>g_world = w, g_backend = backend, g_eventHandler = NewEventHandler,
      g_context = \<lparr>ctxTimeSlice = None, TimePoint = True\<rparr>, g_host = host, g_service = service, g_published = []\<rparr>"

definition CloneWithContext :: "'b Backend \<Rightarrow> 'b Graph \<Rightarrow> Context \<Rightarrow> 'b Graph result" where
  "CloneWithContext B g context =
     (let ng = NewGraph (g_host g) (g_world g) (g_backend g) (g_service g)
      in if ctxTimeSlice context \<noteq> None \<and> \<not> be_IsHistorySupported B (g_backend g) then Inl ErrNoHistory
         else Inr (ng\<lparr>g_context := context\<rparr>))"

definition Graph_Origin :: "'b Graph \<Rightarrow> string" where
  "Graph_Origin g = originOf (g_service g) (g_host g)"

text \<open>\<^verbatim>\<open>Diff\<close> of two graphs, which may have different backends.\<close>

definition Graph_Diff ::
  "'b Backend \<Rightarrow> 'b Graph \<Rightarrow> 'c Backend \<Rightarrow> 'c Graph \<Rightarrow> nref list \<times> nref list \<times> eref list \<times> eref list" where
  "Graph_Diff B g B' newGraph =
     (filter (\<lambda>n. Graph_GetNode B g (ID (h_node (g_world newGraph) n)) = None) (Graph_GetNodes B' newGraph None),
      filter (\<lambda>n. Graph_GetNode B' newGraph (ID (h_node (g_world g) n)) = None) (Graph_GetNodes B g None),
      filter (\<lambda>e. Graph_GetEdge B g (ID (h_edge (g_world newGraph) e)) = None) (Graph_GetEdges B' newGraph None),
      filter (\<lambda>e. Graph_GetEdge B' newGraph (ID (h_edge (g_world g) e)) = None) (Graph_GetEdges B g None))"

definition Graph_AddEventListener :: "EventListener \<Rightarrow> 'b Graph \<Rightarrow> 'b Graph" where
  "Graph_AddEventListener l g = g\<lparr>g_eventHandler := AddEventListener l (g_eventHandler g)\<rparr>"

definition Graph_RemoveEventListener :: "EventListener \<Rightarrow> 'b Graph \<Rightarrow> 'b Graph" where
  "Graph_RemoveEventListener l g = g\<lparr>g_eventHandler := RemoveEventListener l (g_eventHandler g)\<rparr>"

end
