(* ===== verification/Graph_Spec.thy ===== *)
theory Graph_Spec
  imports Graph
begin

text \<open>
  What the graph promises.  The abstract graph is a map of nodes and a map of edges; \<open>absGraph\<close>
  reads it off a graph whose backend satisfies the contract.  Every operation returns, keeps the
  graph well formed, changes the abstract graph as its specification says, and announces what it
  changed: replaying the published events from the empty graph gives the graph
  (\<open>synced\<close>).
\<close>

section \<open>The abstract graph\<close>

record agraph =
  a_nodes :: "Identifier \<rightharpoonup> Node"
  a_edges :: "Identifier \<rightharpoonup> Edge"

definition absGraph ::
  "('b \<Rightarrow> Identifier \<rightharpoonup> nref) \<Rightarrow> ('b \<Rightarrow> Identifier \<rightharpoonup> eref) \<Rightarrow> 'b Graph \<Rightarrow> agraph" where
  "absGraph nrefs erefs g =
     \<lparr>a_nodes = (\<lambda>i. map_option (h_node (g_world g)) (nrefs (g_backend g) i)),
      a_edges = (\<lambda>j. map_option (h_edge (g_world g)) (erefs (g_backend g) j))\<rparr>"

definition agraph_wf :: "agraph \<Rightarrow> bool" where
  "agraph_wf a \<longleftrightarrow>
     (\<forall>i n. a_nodes a i = Some n \<longrightarrow> ID n = i) \<and>
     (\<forall>j e. a_edges a j = Some e \<longrightarrow> ID e = j \<and> a_nodes a (Parent e) \<noteq> None \<and> a_nodes a (Child e) \<noteq> None)"

definition specAddNode :: "Node \<Rightarrow> agraph \<Rightarrow> agraph \<times> go_error option" where
  "specAddNode n a =
     (if a_nodes a (ID n) \<noteq> None then (a, Some ErrNodeConflict)
      else (a\<lparr>a_nodes := (a_nodes a)(ID n \<mapsto> n)\<rparr>, None))"

definition specAddEdge :: "Edge \<Rightarrow> agraph \<Rightarrow> agraph \<times> go_error option" where
  "specAddEdge e a =
     (if a_edges a (ID e) \<noteq> None then (a, Some ErrEdgeConflict)
      else if a_nodes a (Parent e) = None then (a, Some ErrParentNotFound)
      else if a_nodes a (Child e) = None then (a, Some ErrChildNotFound)
      else (a\<lparr>a_edges := (a_edges a)(ID e \<mapsto> e)\<rparr>, None))"

definition specDelEdge :: "Identifier \<Rightarrow> agraph \<Rightarrow> agraph \<times> go_error option" where
  "specDelEdge j a =
     (if a_edges a j = None then (a, Some ErrEdgeNotFound)
      else (a\<lparr>a_edges := (a_edges a)(j := None)\<rparr>, None))"

text \<open>Deleting a node takes the edges that touch it along.\<close>

definition specDelNode :: "Identifier \<Rightarrow> agraph \<Rightarrow> agraph \<times> go_error option" where
  "specDelNode i a =
     (if a_nodes a i = None then (a, Some ErrNodeNotFound)
      else (a\<lparr>a_nodes := (a_nodes a)(i := None),
              a_edges := (\<lambda>j. case a_edges a j of
                 Some e \<Rightarrow> if Parent e = i \<or> Child e = i then None else Some e | None \<Rightarrow> None)\<rparr>, None))"

section \<open>Replaying events\<close>

fun applyEvent :: "graphEventType \<times> snapshot \<Rightarrow> agraph \<Rightarrow> agraph" where
  "applyEvent (k, NodeSnap n) a =
     a\<lparr>a_nodes := (a_nodes a)(ID n := (if k = NodeDeleted then None else Some n))\<rparr>"
| "applyEvent (k, EdgeSnap e) a =
     a\<lparr>a_edges := (a_edges a)(ID e := (if k = EdgeDeleted then None else Some e))\<rparr>"

definition emptyAbs :: agraph where
  "emptyAbs = \<lparr>a_nodes = Map.empty, a_edges = Map.empty\<rparr>"

definition replay :: "(graphEventType \<times> snapshot) list \<Rightarrow> agraph" where
  "replay evs = fold applyEvent evs emptyAbs"

text \<open>
  The events a graph announces are lawful where they happen: only what is missing is added and only what is there is updated
  or deleted, an update changes nothing but the metadata, its time and the revision, the ends of a new edge are there, and a
  node goes after its edges.
\<close>

definition sameButData :: "'e graphElement_scheme \<Rightarrow> 'e graphElement_scheme \<Rightarrow> bool" where
  "sameButData x y \<longleftrightarrow> y = x\<lparr>Metadata := Metadata y, UpdatedAt := UpdatedAt y, Revision := Revision y\<rparr>"

lemma sameButDataD: "sameButData x y \<Longrightarrow> ID y = ID x"
  unfolding sameButData_def by (drule arg_cong [where f = ID]) simp

lemma sameButData_ends: "sameButData x y \<Longrightarrow> Parent y = Parent x" "sameButData x y \<Longrightarrow> Child y = Child x"
  unfolding sameButData_def by (drule arg_cong [where f = Parent], simp) (drule arg_cong [where f = Child], simp)

lemma sameButData_update [simp]: "sameButData x (x\<lparr>Metadata := m, UpdatedAt := t, Revision := v\<rparr>)"
  "sameButData x (x\<lparr>Metadata := m, UpdatedAt := t\<rparr>)"
  by (simp_all add: sameButData_def)

fun lawful :: "agraph \<Rightarrow> graphEventType \<times> snapshot \<Rightarrow> bool" where
  "lawful a (k, NodeSnap n) \<longleftrightarrow>
     (case a_nodes a (ID n) of
        None \<Rightarrow> k = NodeAdded
      | Some old \<Rightarrow>
          k = NodeUpdated \<and> sameButData old n \<or>
          k = NodeDeleted \<and> (\<forall>j e. a_edges a j = Some e \<longrightarrow> Parent e \<noteq> ID n \<and> Child e \<noteq> ID n))"
| "lawful a (k, EdgeSnap e) \<longleftrightarrow>
     (case a_edges a (ID e) of
        None \<Rightarrow> k = EdgeAdded \<and> a_nodes a (Parent e) \<noteq> None \<and> a_nodes a (Child e) \<noteq> None
      | Some old \<Rightarrow>
          k = EdgeUpdated \<and> sameButData old e \<or>
          k = EdgeDeleted \<and> Parent old = Parent e \<and> Child old = Child e)"

fun lawfulFrom :: "agraph \<Rightarrow> (graphEventType \<times> snapshot) list \<Rightarrow> bool" where
  "lawfulFrom a [] = True"
| "lawfulFrom a (ev # evs) = (lawful a ev \<and> lawfulFrom (applyEvent ev a) evs)"

lemma lawfulFrom_append: "lawfulFrom a (xs @ ys) \<longleftrightarrow> lawfulFrom a xs \<and> lawfulFrom (fold applyEvent xs a) ys"
  by (induction xs arbitrary: a) auto

definition synced :: "('b \<Rightarrow> Identifier \<rightharpoonup> nref) \<Rightarrow> ('b \<Rightarrow> Identifier \<rightharpoonup> eref) \<Rightarrow> 'b Graph \<Rightarrow> bool" where
  "synced nrefs erefs g \<longleftrightarrow> replay (g_published g) = absGraph nrefs erefs g \<and> lawfulFrom emptyAbs (g_published g)"

section \<open>Well-formed graphs\<close>

definition graph_ok ::
  "(world \<Rightarrow> 'b \<Rightarrow> bool) \<Rightarrow> ('b \<Rightarrow> Identifier \<rightharpoonup> nref) \<Rightarrow> ('b \<Rightarrow> Identifier \<rightharpoonup> eref) \<Rightarrow> 'b Graph \<Rightarrow> bool" where
  "graph_ok binv nrefs erefs g \<longleftrightarrow>
     binv (g_world g) (g_backend g) \<and> idle (g_eventHandler g) \<and> ctxTimeSlice (g_context g) = None \<and>
     (\<forall>r \<in> ran (nrefs (g_backend g)). r < h_next (g_world g)) \<and>
     (\<forall>e \<in> ran (erefs (g_backend g)). e < h_next (g_world g))"

text \<open>
  How one operation that publishes at most the event \<open>(k, x)\<close> leaves the graph: the store \<open>w\<close>, the
  indexes \<open>ns\<close> and \<open>es\<close>, and the event exactly when there is no error.
\<close>

definition effect ::
  "('b \<Rightarrow> Identifier \<rightharpoonup> nref) \<Rightarrow> ('b \<Rightarrow> Identifier \<rightharpoonup> eref) \<Rightarrow> 'b Graph \<Rightarrow> world \<Rightarrow> (Identifier \<rightharpoonup> nref) \<Rightarrow>
   (Identifier \<rightharpoonup> eref) \<Rightarrow> graphEventType \<Rightarrow> element \<Rightarrow> 'b Graph \<Rightarrow> go_error option \<Rightarrow> bool" where
  "effect nrefs erefs g w ns es k x g' err \<longleftrightarrow>
     g_world g' = w \<and> nrefs (g_backend g') = ns \<and> erefs (g_backend g') = es \<and>
     g_context g' = g_context g \<and> g_host g' = g_host g \<and> g_service g' = g_service g \<and>
     eventListeners (g_eventHandler g') = eventListeners (g_eventHandler g) \<and>
     (if err = None
      then g_published g' = g_published g @ [(k, snapshotOf w x)] \<and>
        callbacks (g_eventHandler g') =
          callbacks (g_eventHandler g) @ map (\<lambda>l. (l, k, x)) (eventListeners (g_eventHandler g))
      else g_published g' = g_published g \<and> g_eventHandler g' = g_eventHandler g)"

text \<open>An edge passed for deletion has the ends of the stored edge with its identifier, if there is one.\<close>

definition endsAgree :: "('b \<Rightarrow> Identifier \<rightharpoonup> eref) \<Rightarrow> 'b Graph \<Rightarrow> eref \<Rightarrow> bool" where
  "endsAgree erefs g e \<longleftrightarrow>
     (case erefs (g_backend g) (ID (h_edge (g_world g) e)) of
        None \<Rightarrow> True
      | Some e' \<Rightarrow> Parent (h_edge (g_world g) e) = Parent (h_edge (g_world g) e') \<and>
          Child (h_edge (g_world g) e) = Child (h_edge (g_world g) e'))"

text \<open>A backend that never fails to delete an edge it has.\<close>

definition deletesEdges :: "'b Backend \<Rightarrow> ('b \<Rightarrow> Identifier \<rightharpoonup> eref) \<Rightarrow> bool" where
  "deletesEdges B erefs \<longleftrightarrow>
     (\<forall>w b e. erefs b (ID (h_edge w e)) \<noteq> None \<longrightarrow> snd (be_EdgeDeleted B w b e) = None)"

text \<open>How the deletion of the edges \<open>es\<close> at time \<open>t\<close> leaves the graph.\<close>

definition delWorld :: "int \<Rightarrow> eref list \<Rightarrow> world \<Rightarrow> world" where
  "delWorld t es w = w\<lparr>h_edge := (\<lambda>e. if e \<in> set es then (h_edge w e)\<lparr>DeletedAt := t\<rparr> else h_edge w e)\<rparr>"

definition without :: "eref list \<Rightarrow> (Identifier \<rightharpoonup> eref) \<Rightarrow> (Identifier \<rightharpoonup> eref)" where
  "without es m = (\<lambda>j. case m j of Some e \<Rightarrow> if e \<in> set es then None else Some e | None \<Rightarrow> None)"

definition edgesDeleted ::
  "('b \<Rightarrow> Identifier \<rightharpoonup> nref) \<Rightarrow> ('b \<Rightarrow> Identifier \<rightharpoonup> eref) \<Rightarrow> int \<Rightarrow> eref list \<Rightarrow> 'b Graph \<Rightarrow> 'b Graph \<Rightarrow> bool" where
  "edgesDeleted nrefs erefs t es g g' \<longleftrightarrow>
     g_world g' = delWorld t es (g_world g) \<and>
     nrefs (g_backend g') = nrefs (g_backend g) \<and> erefs (g_backend g') = without es (erefs (g_backend g)) \<and>
     g_context g' = g_context g \<and> g_host g' = g_host g \<and> g_service g' = g_service g \<and>
     eventListeners (g_eventHandler g') = eventListeners (g_eventHandler g) \<and>
     g_published g' = g_published g @ map (\<lambda>e. (EdgeDeleted, EdgeSnap ((h_edge (g_world g) e)\<lparr>DeletedAt := t\<rparr>))) es \<and>
     callbacks (g_eventHandler g') = callbacks (g_eventHandler g) @
       concat (map (\<lambda>e. map (\<lambda>l. (l, EdgeDeleted, EdgeElem e)) (eventListeners (g_eventHandler g))) es)"

lemma publish_idle:
  assumes "idle (g_eventHandler g)" "kindFits k x" "f (g_world g) (g_backend g) = (b, err)"
  shows "publish f k x g = Some
    (if err = None
     then g\<lparr>g_backend := b, g_eventHandler := (g_eventHandler g)\<lparr>callbacks := callbacks (g_eventHandler g) @
             map (\<lambda>l. (l, k, x)) (eventListeners (g_eventHandler g))\<rparr>,
            g_published := g_published g @ [(k, snapshotOf (g_world g) x)]\<rparr>
     else g\<lparr>g_backend := b\<rparr>, err)"
  using assms by (auto simp: publish_def callBackend_def notify_def NotifyEvent_no_reaction)

lemma publish_effect:
  assumes "idle (g_eventHandler g)" "kindFits k x" "ctxTimeSlice (g_context g) = None"
    and "f (g_world g) (g_backend g) = (b, err)" "binv (g_world g) b"
    and "\<forall>r \<in> ran (nrefs b). r < h_next (g_world g)" "\<forall>e \<in> ran (erefs b). e < h_next (g_world g)"
  shows "\<exists>g'. publish f k x g = Some (g', err) \<and> graph_ok binv nrefs erefs g' \<and>
    effect nrefs erefs g (g_world g) (nrefs b) (erefs b) k x g' err \<and>
    (err \<noteq> None \<longrightarrow> g' = g\<lparr>g_backend := b\<rparr>)"
  using publish_idle [of g k x f b err] assms by (simp add: effect_def graph_ok_def idle_def)

lemma effect_world: "effect nrefs erefs (g\<lparr>g_world := w'\<rparr>) = effect nrefs erefs g"
  by (simp add: effect_def fun_eq_iff)

lemma edgesDeleted_Cons:
  assumes "edgesDeleted nrefs erefs t es g1 g'"
    and "effect nrefs erefs g (put_edge e ((h_edge (g_world g) e)\<lparr>DeletedAt := t\<rparr>) (g_world g))
           (nrefs (g_backend g)) ((erefs (g_backend g))(j := None)) EdgeDeleted (EdgeElem e) g1 None"
    and "erefs (g_backend g) j = Some e" "e \<notin> set es"
    and "\<And>i. erefs (g_backend g) i = Some e \<Longrightarrow> i = j"
  shows "edgesDeleted nrefs erefs t (e # es) g g'"
proof -
  have "delWorld t es (put_edge e ((h_edge (g_world g) e)\<lparr>DeletedAt := t\<rparr>) (g_world g)) = delWorld t (e # es) (g_world g)"
    using assms(4) by (auto simp: delWorld_def put_edge_def fun_eq_iff)
  moreover have "without es ((erefs (g_backend g))(j := None)) = without (e # es) (erefs (g_backend g))"
  proof
    fix i
    show "without es ((erefs (g_backend g))(j := None)) i = without (e # es) (erefs (g_backend g)) i"
      using assms(3) assms(5) [of i] by (cases "i = j") (auto simp: without_def split: option.split)
  qed
  moreover have "map (\<lambda>x. (EdgeDeleted, EdgeSnap ((h_edge (g_world g1) x)\<lparr>DeletedAt := t\<rparr>))) es =
      map (\<lambda>x. (EdgeDeleted, EdgeSnap ((h_edge (g_world g) x)\<lparr>DeletedAt := t\<rparr>))) es"
    using assms(2,4) by (auto simp: effect_def)
  ultimately show ?thesis using assms(1,2) unfolding edgesDeleted_def effect_def by simp
qed

lemma applyEvent_all: "replay (evs @ [ev]) = applyEvent ev (replay evs)"
  by (simp add: replay_def)

section \<open>Operations on a backend that keeps its contract\<close>

context backend_laws
begin

lemma ref_id_inj: "binv w b \<Longrightarrow> nrefs b i = Some r \<Longrightarrow> nrefs b j = Some r \<Longrightarrow> i = j"
  using node_id by blast

lemma eref_id_inj: "binv w b \<Longrightarrow> erefs b i = Some e \<Longrightarrow> erefs b j = Some e \<Longrightarrow> i = j"
  using edge_id by blast

lemma agraph_wf_abs: "graph_ok binv nrefs erefs g \<Longrightarrow> agraph_wf (absGraph nrefs erefs g)"
  by (auto simp: agraph_wf_def absGraph_def graph_ok_def dest: node_id edge_id edge_ends)

lemma incident_stored:
  assumes "binv w b" "e \<in> ran (erefs b)" "incident w e i"
  shows "nrefs b i \<noteq> None"
proof -
  from assms(2) obtain j where "erefs b j = Some e" by (auto simp: ran_def)
  from edge_ends [OF assms(1) this] assms(3) show ?thesis unfolding incident_def by blast
qed

lemma GetNode_live: "graph_ok binv nrefs erefs g \<Longrightarrow> Graph_GetNode B g i = nrefs (g_backend g) i"
  by (simp add: Graph_GetNode_def graph_ok_def get_node split: option.split)

lemma GetEdge_live: "graph_ok binv nrefs erefs g \<Longrightarrow> Graph_GetEdge B g i = erefs (g_backend g) i"
  by (simp add: Graph_GetEdge_def graph_ok_def get_edge split: option.split)

lemma AddNode_effect:
  assumes ok: "graph_ok binv nrefs erefs g" and r: "r < h_next (g_world g)"
    and i: "i = ID (h_node (g_world g) r)"
  shows "\<exists>g' err. Graph_AddNode B r g = Some (g', err) \<and> graph_ok binv nrefs erefs g' \<and> err = snd (be_NodeAdded B (g_world g) (g_backend g) r) \<and>
    (if nrefs (g_backend g) i \<noteq> None then g' = g \<and> err = Some ErrNodeConflict
     else effect nrefs erefs g (g_world g) ((nrefs (g_backend g))(i \<mapsto> r)) (erefs (g_backend g))
            NodeAdded (NodeElem r) g' err)"
proof -
  obtain b err where b: "be_NodeAdded B (g_world g) (g_backend g) r = (b, err)" by fastforce
  from ok have inv: "binv (g_world g) (g_backend g)" by (simp add: graph_ok_def)
  note law = node_added [OF inv b, folded i]
  have b_ok: "binv (g_world g) b" "\<forall>r \<in> ran (nrefs b). r < h_next (g_world g)"
    "\<forall>e \<in> ran (erefs b). e < h_next (g_world g)"
    using law ok r by (auto simp: graph_ok_def ran_def split: if_splits)
  with publish_effect [of g NodeAdded "NodeElem r" "\<lambda>w b. be_NodeAdded B w b r" b err binv nrefs erefs] ok b law
  show ?thesis unfolding Graph_AddNode_def by (auto simp: graph_ok_def split: if_splits)
qed

lemma AddEdge_effect:
  assumes ok: "graph_ok binv nrefs erefs g" and e: "e < h_next (g_world g)"
    and x: "x = h_edge (g_world g) e"
  shows "\<exists>g' err. Graph_AddEdge B e g = Some (g', err) \<and> graph_ok binv nrefs erefs g' \<and> err = snd (be_EdgeAdded B (g_world g) (g_backend g) e) \<and>
    (if erefs (g_backend g) (ID x) \<noteq> None then g' = g \<and> err = Some ErrEdgeConflict
     else if nrefs (g_backend g) (Parent x) = None then g' = g \<and> err = Some ErrParentNotFound
     else if nrefs (g_backend g) (Child x) = None then g' = g \<and> err = Some ErrChildNotFound
     else effect nrefs erefs g (g_world g) (nrefs (g_backend g)) ((erefs (g_backend g))(ID x \<mapsto> e))
            EdgeAdded (EdgeElem e) g' err)"
proof -
  obtain b err where b: "be_EdgeAdded B (g_world g) (g_backend g) e = (b, err)" by fastforce
  from ok have inv: "binv (g_world g) (g_backend g)" by (simp add: graph_ok_def)
  note law = edge_added [OF inv b, folded x]
  have b_ok: "binv (g_world g) b" "\<forall>r \<in> ran (nrefs b). r < h_next (g_world g)"
    "\<forall>e \<in> ran (erefs b). e < h_next (g_world g)"
    using law ok e by (auto simp: graph_ok_def ran_def split: if_splits)
  with publish_effect [of g EdgeAdded "EdgeElem e" "\<lambda>w b. be_EdgeAdded B w b e" b err binv nrefs erefs] ok b law
  show ?thesis unfolding Graph_AddEdge_def by (auto simp: graph_ok_def split: if_splits)
qed

lemma graph_ok_world:
  assumes "graph_ok binv nrefs erefs g" "same_ids (nrefs (g_backend g)) (erefs (g_backend g)) (g_world g) w"
    and "h_next (g_world g) \<le> h_next w"
  shows "graph_ok binv nrefs erefs (g\<lparr>g_world := w\<rparr>)"
  using assms binv_frame [of "g_world g" "g_backend g" w] unfolding graph_ok_def by (auto intro: less_le_trans)

lemma EdgeDeleted_effect:
  assumes ok: "graph_ok binv nrefs erefs g" and x: "x = h_edge (g_world g) e"
    and ends: "endsAgree erefs g e"
  shows "\<exists>g' err. Graph_EdgeDeleted B e g = Some (g', err) \<and> graph_ok binv nrefs erefs g' \<and> err = snd (be_EdgeDeleted B (g_world g) (g_backend g) e) \<and>
    (if erefs (g_backend g) (ID x) = None then g' = g \<and> err = Some ErrEdgeNotFound
     else effect nrefs erefs g (g_world g) (nrefs (g_backend g)) ((erefs (g_backend g))(ID x := None))
            EdgeDeleted (EdgeElem e) g' err)"
proof -
  obtain b err where b: "be_EdgeDeleted B (g_world g) (g_backend g) e = (b, err)" by fastforce
  from ok have inv: "binv (g_world g) (g_backend g)" by (simp add: graph_ok_def)
  note law = edge_deleted [OF inv b, folded x]
  have b_ok: "binv (g_world g) b" "\<forall>r \<in> ran (nrefs b). r < h_next (g_world g)"
    "\<forall>e \<in> ran (erefs b). e < h_next (g_world g)"
    using law ok ends x by (auto simp: graph_ok_def ran_def endsAgree_def split: if_splits option.splits)
  with publish_effect [of g EdgeDeleted "EdgeElem e" "\<lambda>w b. be_EdgeDeleted B w b e" b err binv nrefs erefs] ok b law
  show ?thesis unfolding Graph_EdgeDeleted_def by (auto simp: graph_ok_def split: if_splits option.splits)
qed

text \<open>\<^verbatim>\<open>delEdge\<close> is \<^verbatim>\<open>EdgeDeleted\<close> after the deletion time is set.\<close>

lemma delEdge_effect:
  assumes ok: "graph_ok binv nrefs erefs g" and x: "x = h_edge (g_world g) e"
    and w: "w = put_edge e (x\<lparr>DeletedAt := t\<rparr>) (g_world g)" and ends: "endsAgree erefs g e"
  shows "\<exists>g' err. Graph_delEdge B t e g = Some (g', err) \<and> graph_ok binv nrefs erefs g' \<and> err = snd (be_EdgeDeleted B w (g_backend g) e) \<and>
    (if erefs (g_backend g) (ID x) = None then g' = g\<lparr>g_world := w\<rparr> \<and> err = Some ErrEdgeNotFound
     else effect nrefs erefs g w (nrefs (g_backend g)) ((erefs (g_backend g))(ID x := None))
            EdgeDeleted (EdgeElem e) g' err)"
proof -
  let ?g = "g\<lparr>g_world := w\<rparr>"
  have ok': "graph_ok binv nrefs erefs ?g"
    using ok x w by (intro graph_ok_world) (auto intro: same_ids_put_edge)
  have ends': "endsAgree erefs ?g e"
    using ends unfolding endsAgree_def x w by (simp split: option.splits)
  have eq: "Graph_delEdge B t e g = Graph_EdgeDeleted B e ?g"
    by (simp add: Graph_delEdge_def Graph_EdgeDeleted_def x w)
  have sel: "ID (h_edge w e) = ID x" "g_backend ?g = g_backend g" "g_world ?g = w" using w by simp_all
  show ?thesis
    using EdgeDeleted_effect [OF ok' refl ends'] unfolding eq sel(2,3) sel(1) effect_world .
qed

lemma publish_NodeDeleted:
  assumes ok: "graph_ok binv nrefs erefs g" and i: "i = ID (h_node (g_world g) r)"
    and free: "\<forall>e \<in> ran (erefs (g_backend g)). \<not> incident (g_world g) e i"
  shows "\<exists>g' err. publish (\<lambda>w b. be_NodeDeleted B w b r) NodeDeleted (NodeElem r) g = Some (g', err) \<and>
    graph_ok binv nrefs erefs g' \<and> err = snd (be_NodeDeleted B (g_world g) (g_backend g) r) \<and>
    (if nrefs (g_backend g) i = None then g' = g \<and> err = Some ErrNodeNotFound
     else effect nrefs erefs g (g_world g) ((nrefs (g_backend g))(i := None)) (erefs (g_backend g))
            NodeDeleted (NodeElem r) g' err)"
proof -
  obtain b err where b: "be_NodeDeleted B (g_world g) (g_backend g) r = (b, err)" by fastforce
  from ok have inv: "binv (g_world g) (g_backend g)" by (simp add: graph_ok_def)
  note law = node_deleted [OF inv b, folded i]
  have b_ok: "binv (g_world g) b" "\<forall>r \<in> ran (nrefs b). r < h_next (g_world g)"
    "\<forall>e \<in> ran (erefs b). e < h_next (g_world g)"
    using law ok free by (auto simp: graph_ok_def ran_def split: if_splits)
  with publish_effect [of g NodeDeleted "NodeElem r" "\<lambda>w b. be_NodeDeleted B w b r" b err binv nrefs erefs] ok b law
  show ?thesis by (auto simp: graph_ok_def split: if_splits)
qed

lemma publish_MetadataUpdated:
  assumes ok: "graph_ok binv nrefs erefs g" and k: "kindFits k x"
  shows "\<exists>g' err. publish (\<lambda>w b. be_MetadataUpdated B w b x) k x g = Some (g', err) \<and>
    graph_ok binv nrefs erefs g' \<and> err = snd (be_MetadataUpdated B (g_world g) (g_backend g) x) \<and>
    effect nrefs erefs g (g_world g) (nrefs (g_backend g)) (erefs (g_backend g)) k x g' err"
proof -
  obtain b err where b: "be_MetadataUpdated B (g_world g) (g_backend g) x = (b, err)" by fastforce
  note law = metadata_updated [OF b]
  show ?thesis
    using publish_effect [of g k x "\<lambda>w b. be_MetadataUpdated B w b x" b err binv nrefs erefs] ok b k law
    by (auto simp: graph_ok_def)
qed

section \<open>Deleting a node with its edges\<close>

lemma delEdges_effect:
  assumes "graph_ok binv nrefs erefs g" "distinct es" "set es \<subseteq> ran (erefs (g_backend g))"
  shows "\<exists>g' err. delEdges B t es g = Some (g', err) \<and> graph_ok binv nrefs erefs g' \<and>
    (deletesEdges B erefs \<longrightarrow> err = None) \<and>
    (err = None \<longrightarrow> edgesDeleted nrefs erefs t es g g')"
  using assms
proof (induction es arbitrary: g)
  case Nil
  then show ?case by (auto simp: edgesDeleted_def delWorld_def without_def fun_eq_iff split: option.splits)
next
  case (Cons e es)
  let ?w = "put_edge e ((h_edge (g_world g) e)\<lparr>DeletedAt := t\<rparr>) (g_world g)"
  from Cons.prems obtain j where j: "erefs (g_backend g) j = Some e" by (auto simp: ran_def)
  have inv: "binv (g_world g) (g_backend g)" using Cons.prems(1) by (simp add: graph_ok_def)
  have id: "ID (h_edge (g_world g) e) = j" by (rule edge_id [OF inv j])
  have "endsAgree erefs g e" by (simp add: endsAgree_def id j)
  from delEdge_effect [OF Cons.prems(1) refl refl this, of t] obtain g1 err where
    one: "Graph_delEdge B t e g = Some (g1, err)" "graph_ok binv nrefs erefs g1"
      "err = snd (be_EdgeDeleted B ?w (g_backend g) e)"
      "effect nrefs erefs g ?w (nrefs (g_backend g)) ((erefs (g_backend g))(j := None)) EdgeDeleted (EdgeElem e) g1 err"
    unfolding id using j by auto
  show ?case
  proof (cases err)
    case (Some x)
    have "erefs (g_backend g) (ID (h_edge ?w e)) \<noteq> None" using j id by simp
    with one(3) Some have "\<not> deletesEdges B erefs"
      unfolding deletesEdges_def by (metis option.distinct(1))
    moreover have "delEdges B t (e # es) g = Some (g1, Some x)" using one(1) Some by simp
    ultimately show ?thesis using one(2) by blast
  next
    case None
    have "set es \<subseteq> ran (erefs (g_backend g1))"
    proof
      fix e' assume "e' \<in> set es"
      with Cons.prems obtain j' where "erefs (g_backend g) j' = Some e'" "e' \<noteq> e" by (auto simp: ran_def)
      then show "e' \<in> ran (erefs (g_backend g1))"
        using one(4) j by (auto simp: effect_def ran_def intro!: exI [of _ j'])
    qed
    from Cons.IH [OF one(2) _ this] Cons.prems obtain g' err' where
      rest: "delEdges B t es g1 = Some (g', err')" "graph_ok binv nrefs erefs g'"
      "deletesEdges B erefs \<longrightarrow> err' = None"
      "err' = None \<longrightarrow> edgesDeleted nrefs erefs t es g1 g'" by auto
    have "edgesDeleted nrefs erefs t es g1 g' \<Longrightarrow> edgesDeleted nrefs erefs t (e # es) g g'"
      by (rule edgesDeleted_Cons [OF _ one(4) [unfolded None] j])
        (use Cons.prems eref_id_inj [OF inv _ j] in auto)
    with rest one(1) None show ?thesis by auto
  qed
qed

lemma without_incident:
  assumes inv: "binv w b" and e: "without es (erefs b) j = Some e"
    and es: "set es = {e \<in> ran (erefs b). incident w e i}"
  shows "\<not> incident (delWorld t es w) e i"
proof -
  from e have "erefs b j = Some e" "e \<notin> set es"
    by (auto simp: without_def split: option.splits if_splits)
  then show ?thesis using es by (auto simp: incident_def delWorld_def ranI)
qed

lemma delNode_effect:
  assumes ok: "graph_ok binv nrefs erefs g" and i: "i = ID (h_node (g_world g) r)"
    and es: "es = be_GetNodeEdges B (g_world g) (g_backend g) r liveContext None"
    and w: "w = put_node r ((h_node (g_world g) r)\<lparr>DeletedAt := t\<rparr>) (delWorld t es (g_world g))"
  shows "\<exists>g' err. Graph_delNode B t r g = Some (g', err) \<and> graph_ok binv nrefs erefs g' \<and>
    (nrefs (g_backend g) i = None \<longrightarrow> err = Some ErrNodeNotFound \<and> g' = g\<lparr>g_world := w\<rparr>) \<and>
    (deletesEdges B erefs \<and> nrefs (g_backend g) i \<noteq> None \<longrightarrow>
      (\<exists>g1. edgesDeleted nrefs erefs t es g g1 \<and> err = snd (be_NodeDeleted B w (g_backend g1) r) \<and>
        effect nrefs erefs g1 w ((nrefs (g_backend g))(i := None)) (without es (erefs (g_backend g)))
          NodeDeleted (NodeElem r) g' err))"
proof -
  have inv: "binv (g_world g) (g_backend g)" using ok by (simp add: graph_ok_def)
  have live: "ctxTimeSlice liveContext = None" by (simp add: liveContext_def)
  have es_set: "distinct es" "set es = {e \<in> ran (erefs (g_backend g)). incident (g_world g) e i}"
    using get_node_edges [OF inv live, of r None] by (auto simp: es i Edge_MatchMetadata_def)
  have missing: "es = []" if "nrefs (g_backend g) i = None"
    using es_set(2) incident_stored [OF inv] that by (metis (mono_tags, lifting) empty_Collect_eq set_empty2)
  obtain g1 err1 where g1: "delEdges B t es g = Some (g1, err1)" "graph_ok binv nrefs erefs g1"
    "deletesEdges B erefs \<longrightarrow> err1 = None" "err1 = None \<longrightarrow> edgesDeleted nrefs erefs t es g g1"
    using delEdges_effect [OF ok es_set(1), of t] es_set(2) by auto
  show ?thesis
  proof (cases err1)
    case (Some x)
    then have "es \<noteq> []" using g1(1) by (cases es) auto
    with g1 Some missing show ?thesis by (auto simp: Graph_delNode_def es [symmetric])
  next
    case None
    with g1(4) have del: "edgesDeleted nrefs erefs t es g g1" by simp
    let ?g = "g1\<lparr>g_world := w\<rparr>"
    have w1: "w = put_node r ((h_node (g_world g1) r)\<lparr>DeletedAt := t\<rparr>) (g_world g1)"
      using del w by (simp add: edgesDeleted_def delWorld_def)
    have ok': "graph_ok binv nrefs erefs ?g"
      using g1(2) w1 by (intro graph_ok_world) (auto intro: same_ids_put_node)
    have i': "i = ID (h_node (g_world ?g) r)" using w i by simp
    have free: "\<forall>e \<in> ran (erefs (g_backend ?g)). \<not> incident (g_world ?g) e i"
      using del without_incident [OF inv _ es_set(2), of _ _ t] w
      by (auto simp: edgesDeleted_def ran_def incident_def)
    have sel: "g_backend ?g = g_backend g1" "g_world ?g = w" by simp_all
    have refs: "nrefs (g_backend g1) = nrefs (g_backend g)" "erefs (g_backend g1) = without es (erefs (g_backend g))"
      using del by (simp_all add: edgesDeleted_def)
    from publish_NodeDeleted [OF ok' i' free] obtain g' err where
      last: "publish (\<lambda>w b. be_NodeDeleted B w b r) NodeDeleted (NodeElem r) ?g = Some (g', err)"
        "graph_ok binv nrefs erefs g'" "err = snd (be_NodeDeleted B w (g_backend g1) r)"
        "if nrefs (g_backend g) i = None then g' = ?g \<and> err = Some ErrNodeNotFound
         else effect nrefs erefs g1 w ((nrefs (g_backend g))(i := None)) (without es (erefs (g_backend g)))
                NodeDeleted (NodeElem r) g' err"
      unfolding sel refs effect_world by blast
    have call: "Graph_delNode B t r g = Some (g', err)"
      using g1(1) None last(1) w1 by (simp add: Graph_delNode_def es [symmetric])
    show ?thesis
    proof (cases "nrefs (g_backend g) i = None")
      case True
      then have "g1 = g" using missing g1(1) by simp
      with True call last show ?thesis by auto
    next
      case False
      with call last del show ?thesis by auto
    qed
  qed
qed

end

end
