(* ===== verification/Graph_Steps.thy ===== *)
theory Graph_Steps
  imports Graph_Spec
begin

text \<open>
  The calls of the graph's interface as one datatype, their execution, and what every call from a
  well-formed graph guarantees: it returns, the graph stays well formed and, on a backend whose
  writes do not fail, the published events stay a faithful history of the graph.  The last needs more of a call (\<open>callOk\<close>)
  than the first two (\<open>callSafe\<close>).
\<close>

datatype gop =
    AddNodeOp nref | NodeAddedOp nref | NewNodeOp int Identifier "metadata option" "string list"
  | AddEdgeOp eref | EdgeAddedOp eref | NewEdgeOp int Identifier nref nref "metadata option" "string list"
  | LinkOp int Identifier nref nref metadata "string list" | UnlinkOp int nref nref
  | DelEdgeOp int eref | EdgeDeletedOp eref
  | DelNodeOp int nref | NodeDeletedOp nref | DelNodesOp int "ElementMatcher option"
  | NodeUpdatedOp nref | EdgeUpdatedOp eref
  | SetMetadataOp int element metadata | DelMetadataOp int element string
  | AddMetadataOp int element string gval | CommitOp int MetadataTransaction
  | UpdateMetadataOp int element string "gval \<Rightarrow> metadata \<Rightarrow> metadata \<times> bool"

definition dropResult :: "('b Graph \<times> 'r result) option \<Rightarrow> 'b outcome" where
  "dropResult out = map_option (\<lambda>(g, r). (g, case r of Inl err \<Rightarrow> Some err | Inr _ \<Rightarrow> None)) out"

fun runOp :: "(string \<Rightarrow> string) \<Rightarrow> 'b Backend \<Rightarrow> gop \<Rightarrow> 'b Graph \<Rightarrow> 'b outcome" where
  "runOp u B (AddNodeOp r) g = Graph_AddNode B r g"
| "runOp u B (NodeAddedOp r) g = Graph_NodeAdded B r g"
| "runOp u B (NewNodeOp now i m h) g = dropResult (Graph_NewNode B now i m h g)"
| "runOp u B (AddEdgeOp e) g = Graph_AddEdge B e g"
| "runOp u B (EdgeAddedOp e) g = Graph_EdgeAdded B e g"
| "runOp u B (NewEdgeOp now i p c m h) g = dropResult (Graph_NewEdge u B now i p c m h g)"
| "runOp u B (LinkOp now i p c m h) g = dropResult (Graph_Link u B now i p c m h g)"
| "runOp u B (UnlinkOp now n1 n2) g = Graph_Unlink B now n1 n2 g"
| "runOp u B (DelEdgeOp now e) g = Graph_DelEdge B now e g"
| "runOp u B (EdgeDeletedOp e) g = Graph_EdgeDeleted B e g"
| "runOp u B (DelNodeOp now r) g = Graph_DelNode B now r g"
| "runOp u B (NodeDeletedOp r) g = Graph_NodeDeleted B r g"
| "runOp u B (DelNodesOp now m) g = Graph_DelNodes B now m g"
| "runOp u B (NodeUpdatedOp r) g = Graph_NodeUpdated B r g"
| "runOp u B (EdgeUpdatedOp e) g = Graph_EdgeUpdated B e g"
| "runOp u B (SetMetadataOp now i m) g = Graph_SetMetadata B now i m g"
| "runOp u B (DelMetadataOp now i k) g = Graph_DelMetadata B now i k g"
| "runOp u B (AddMetadataOp now i k v) g = Graph_AddMetadata B now i k v g"
| "runOp u B (CommitOp now t) g = Transaction_Commit B now t g"
| "runOp u B (UpdateMetadataOp now i k f) g = Graph_UpdateMetadata B now i k f g"

section \<open>What a caller has to respect\<close>

text \<open>
  The element a caller updates is the one the graph holds, not a copy with the same identifier.
\<close>

fun ownElement :: "('b \<Rightarrow> Identifier \<rightharpoonup> nref) \<Rightarrow> ('b \<Rightarrow> Identifier \<rightharpoonup> eref) \<Rightarrow> 'b Graph \<Rightarrow> element \<Rightarrow> bool" where
  "ownElement nrefs erefs g (NodeElem r) \<longleftrightarrow>
     (case nrefs (g_backend g) (ID (h_node (g_world g) r)) of None \<Rightarrow> True | Some r' \<Rightarrow> r' = r)"
| "ownElement nrefs erefs g (EdgeElem e) \<longleftrightarrow>
     (case erefs (g_backend g) (ID (h_edge (g_world g) e)) of None \<Rightarrow> True | Some e' \<Rightarrow> e' = e)"

text \<open>
  \<^verbatim>\<open>UpdateMetadata\<close> announces every change as a change of a node, and nothing when its callback
  reports no change, although the revision is bumped: only nodes, and callbacks that report one.
\<close>

fun callOk :: "('b \<Rightarrow> Identifier \<rightharpoonup> nref) \<Rightarrow> ('b \<Rightarrow> Identifier \<rightharpoonup> eref) \<Rightarrow> 'b Graph \<Rightarrow> gop \<Rightarrow> bool" where
  "callOk nrefs erefs g (AddNodeOp r) \<longleftrightarrow> r < h_next (g_world g)"
| "callOk nrefs erefs g (NodeAddedOp r) \<longleftrightarrow> r < h_next (g_world g)"
| "callOk nrefs erefs g (AddEdgeOp e) \<longleftrightarrow> e < h_next (g_world g)"
| "callOk nrefs erefs g (EdgeAddedOp e) \<longleftrightarrow> e < h_next (g_world g)"
| "callOk nrefs erefs g (DelEdgeOp t e) \<longleftrightarrow> endsAgree erefs g e"
| "callOk nrefs erefs g (EdgeDeletedOp e) \<longleftrightarrow> endsAgree erefs g e"
| "callOk nrefs erefs g (SetMetadataOp t i m) \<longleftrightarrow> ownElement nrefs erefs g i"
| "callOk nrefs erefs g (DelMetadataOp t i k) \<longleftrightarrow> ownElement nrefs erefs g i"
| "callOk nrefs erefs g (AddMetadataOp t i k v) \<longleftrightarrow> ownElement nrefs erefs g i"
| "callOk nrefs erefs g (CommitOp now t) \<longleftrightarrow> ownElement nrefs erefs g (t_graphElement t)"
| "callOk nrefs erefs g (UpdateMetadataOp t i k f) \<longleftrightarrow>
     ownElement nrefs erefs g i \<and> kindFits NodeUpdated i \<and>
     (case elementField (g_world g) i k of Inl _ \<Rightarrow> True | Inr v \<Rightarrow> snd (f v (elementMetadata (g_world g) i)))"
| "callOk nrefs erefs g _ \<longleftrightarrow> True"

section \<open>One step\<close>

definition reliableWrites ::
  "'b Backend \<Rightarrow> ('b \<Rightarrow> Identifier \<rightharpoonup> nref) \<Rightarrow> ('b \<Rightarrow> Identifier \<rightharpoonup> eref) \<Rightarrow> bool" where
  "reliableWrites B nrefs erefs \<longleftrightarrow>
     (\<forall>w b r. nrefs b (ID (h_node w r)) = None \<longrightarrow> snd (be_NodeAdded B w b r) = None) \<and>
     (\<forall>w b r. nrefs b (ID (h_node w r)) \<noteq> None \<longrightarrow> snd (be_NodeDeleted B w b r) = None) \<and>
     (\<forall>w b e. erefs b (ID (h_edge w e)) = None \<longrightarrow> nrefs b (Parent (h_edge w e)) \<noteq> None \<longrightarrow>
        nrefs b (Child (h_edge w e)) \<noteq> None \<longrightarrow> snd (be_EdgeAdded B w b e) = None) \<and>
     deletesEdges B erefs \<and>
     (\<forall>w b r. nrefs b (ID (h_node w r)) \<noteq> None \<longrightarrow> snd (be_MetadataUpdated B w b (NodeElem r)) = None) \<and>
     (\<forall>w b e. erefs b (ID (h_edge w e)) \<noteq> None \<longrightarrow> snd (be_MetadataUpdated B w b (EdgeElem e)) = None)"

lemma reliableWritesD:
  assumes "reliableWrites B nrefs erefs"
  shows "nrefs b (ID (h_node w r)) = None \<Longrightarrow> snd (be_NodeAdded B w b r) = None"
    and "nrefs b (ID (h_node w r)) \<noteq> None \<Longrightarrow> snd (be_NodeDeleted B w b r) = None"
    and "erefs b (ID (h_edge w e)) \<noteq> None \<Longrightarrow> snd (be_EdgeDeleted B w b e) = None"
    and "nrefs b (ID (h_node w r)) \<noteq> None \<Longrightarrow> snd (be_MetadataUpdated B w b (NodeElem r)) = None"
    and "erefs b (ID (h_edge w e)) \<noteq> None \<Longrightarrow> snd (be_MetadataUpdated B w b (EdgeElem e)) = None"
  using assms by (simp_all add: reliableWrites_def deletesEdges_def)

definition okStep ::
  "'b Backend \<Rightarrow> (world \<Rightarrow> 'b \<Rightarrow> bool) \<Rightarrow> ('b \<Rightarrow> Identifier \<rightharpoonup> nref) \<Rightarrow> ('b \<Rightarrow> Identifier \<rightharpoonup> eref) \<Rightarrow>
   'b Graph \<Rightarrow> 'b outcome \<Rightarrow> bool" where
  "okStep B binv nrefs erefs g out \<longleftrightarrow>
     (\<exists>g' err. out = Some (g', err) \<and> graph_ok binv nrefs erefs g' \<and>
        (reliableWrites B nrefs erefs \<longrightarrow> synced nrefs erefs g \<longrightarrow> synced nrefs erefs g'))"

lemma okStepI:
  "out = Some (g', err) \<Longrightarrow> graph_ok binv nrefs erefs g' \<Longrightarrow>
   (reliableWrites B nrefs erefs \<Longrightarrow> synced nrefs erefs g \<Longrightarrow> synced nrefs erefs g') \<Longrightarrow>
   okStep B binv nrefs erefs g out"
  by (auto simp: okStep_def)

lemma okStep_refl: "graph_ok binv nrefs erefs g \<Longrightarrow> okStep B binv nrefs erefs g (Some (g, err))"
  by (simp add: okStep_def)

lemma synced_effect:
  assumes "effect nrefs erefs g w ns es k x g' None" "synced nrefs erefs g"
    and "\<lparr>a_nodes = (\<lambda>i. map_option (h_node w) (ns i)), a_edges = (\<lambda>j. map_option (h_edge w) (es j))\<rparr> =
         applyEvent (k, snapshotOf w x) (absGraph nrefs erefs g)"
    and "lawful (absGraph nrefs erefs g) (k, snapshotOf w x)"
  shows "synced nrefs erefs g'"
  using assms by (simp add: synced_def effect_def applyEvent_all absGraph_def lawfulFrom_append replay_def)

lemma synced_same:
  "synced nrefs erefs g \<Longrightarrow> g_published g' = g_published g \<Longrightarrow>
   absGraph nrefs erefs g' = absGraph nrefs erefs g \<Longrightarrow> synced nrefs erefs g'"
  by (simp add: synced_def)

lemma fold_EdgeDeleted:
  "fold applyEvent (map (\<lambda>e. (EdgeDeleted, EdgeSnap (f e))) es) a =
   a\<lparr>a_edges := (\<lambda>j. if \<exists>e \<in> set es. ID (f e) = j then None else a_edges a j)\<rparr>"
  by (induction es arbitrary: a) (auto simp: fun_eq_iff)

text \<open>An edge taken from the graph when \<^verbatim>\<open>Unlink\<close> starts: the graph has its ends, and has it or no edge of
  its identifier any more.\<close>

definition unlinkable :: "('b \<Rightarrow> Identifier \<rightharpoonup> nref) \<Rightarrow> ('b \<Rightarrow> Identifier \<rightharpoonup> eref) \<Rightarrow> 'b Graph \<Rightarrow> eref \<Rightarrow> bool" where
  "unlinkable nrefs erefs g e \<longleftrightarrow>
     nrefs (g_backend g) (Parent (h_edge (g_world g) e)) \<noteq> None \<and>
     nrefs (g_backend g) (Child (h_edge (g_world g) e)) \<noteq> None \<and>
     (case erefs (g_backend g) (ID (h_edge (g_world g) e)) of None \<Rightarrow> True | Some e' \<Rightarrow> e' = e)"

lemma unlinkable_delete:
  assumes "if erefs (g_backend g) (ID (h_edge (g_world g) e)) = None
     then g1 = g\<lparr>g_world := put_edge e ((h_edge (g_world g) e)\<lparr>DeletedAt := t\<rparr>) (g_world g)\<rparr> \<and> P
     else effect nrefs erefs g (put_edge e ((h_edge (g_world g) e)\<lparr>DeletedAt := t\<rparr>) (g_world g)) (nrefs (g_backend g))
       ((erefs (g_backend g))(ID (h_edge (g_world g) e) := None)) k x g1 err"
    and "unlinkable nrefs erefs g e'"
  shows "unlinkable nrefs erefs g1 e'"
  using assms by (auto simp: unlinkable_def effect_def split: if_splits option.splits)

context backend_laws
begin

lemma AddNode_step:
  assumes ok: "graph_ok binv nrefs erefs g" and r: "r < h_next (g_world g)"
  shows "okStep B binv nrefs erefs g (Graph_AddNode B r g)"
proof -
  let ?i = "ID (h_node (g_world g) r)"
  obtain g' err where g': "Graph_AddNode B r g = Some (g', err)" "graph_ok binv nrefs erefs g'"
    "err = snd (be_NodeAdded B (g_world g) (g_backend g) r)"
    and eff: "if nrefs (g_backend g) ?i \<noteq> None then g' = g \<and> err = Some ErrNodeConflict
     else effect nrefs erefs g (g_world g) ((nrefs (g_backend g))(?i \<mapsto> r)) (erefs (g_backend g))
            NodeAdded (NodeElem r) g' err"
    using AddNode_effect [OF ok r refl] by blast
  show ?thesis
  proof (rule okStepI [OF g'(1,2)])
    assume rel: "reliableWrites B nrefs erefs" and sync: "synced nrefs erefs g"
    show "synced nrefs erefs g'"
    proof (cases "nrefs (g_backend g) ?i = None")
      case True
      with rel g'(3) have "err = None" by (simp add: reliableWrites_def)
      with True eff sync show ?thesis
        by (auto elim!: synced_effect simp: absGraph_def fun_eq_iff)
    qed (use eff sync in simp)
  qed
qed

lemma AddEdge_step:
  assumes ok: "graph_ok binv nrefs erefs g" and e: "e < h_next (g_world g)"
  shows "okStep B binv nrefs erefs g (Graph_AddEdge B e g)"
proof -
  let ?x = "h_edge (g_world g) e"
  let ?fresh = "erefs (g_backend g) (ID ?x) = None \<and> nrefs (g_backend g) (Parent ?x) \<noteq> None \<and>
    nrefs (g_backend g) (Child ?x) \<noteq> None"
  obtain g' err where g': "Graph_AddEdge B e g = Some (g', err)" "graph_ok binv nrefs erefs g'"
    "err = snd (be_EdgeAdded B (g_world g) (g_backend g) e)"
    and eff: "\<not> ?fresh \<Longrightarrow> g' = g"
    "?fresh \<Longrightarrow> effect nrefs erefs g (g_world g) (nrefs (g_backend g)) ((erefs (g_backend g))(ID ?x \<mapsto> e))
            EdgeAdded (EdgeElem e) g' err"
    using AddEdge_effect [OF ok e refl] by (auto split: if_splits)
  show ?thesis
  proof (rule okStepI [OF g'(1,2)])
    assume rel: "reliableWrites B nrefs erefs" and sync: "synced nrefs erefs g"
    show "synced nrefs erefs g'"
    proof (cases ?fresh)
      case True
      with rel g'(3) have "err = None" by (simp add: reliableWrites_def)
      with eff(2) [OF True] sync True show ?thesis
        by (auto elim!: synced_effect simp: absGraph_def fun_eq_iff)
    qed (use eff(1) sync in simp)
  qed
qed

text \<open>A store that differs only in elements the backend does not hold.\<close>

lemma stored_edge_id:
  assumes "graph_ok binv nrefs erefs g" "erefs (g_backend g) j = Some e"
  shows "ID (h_edge (g_world g) e) = j"
  using assms edge_id by (auto simp: graph_ok_def)

lemma stored_node_id:
  assumes "graph_ok binv nrefs erefs g" "nrefs (g_backend g) i = Some r"
  shows "ID (h_node (g_world g) r) = i"
  using assms node_id by (auto simp: graph_ok_def)

lemma abs_put_edge:
  assumes ok: "graph_ok binv nrefs erefs g" and j: "j = ID (h_edge (g_world g) e)"
  shows "i \<noteq> j \<Longrightarrow> map_option (h_edge (put_edge e x (g_world g))) (erefs (g_backend g) i) =
    map_option (h_edge (g_world g)) (erefs (g_backend g) i)"
  using stored_edge_id [OF ok, of i] j by (cases "erefs (g_backend g) i") auto

lemma abs_put_node:
  assumes ok: "graph_ok binv nrefs erefs g" and j: "j = ID (h_node (g_world g) r)"
  shows "i \<noteq> j \<Longrightarrow> map_option (h_node (put_node r x (g_world g))) (nrefs (g_backend g) i) =
    map_option (h_node (g_world g)) (nrefs (g_backend g) i)"
  using stored_node_id [OF ok, of i] j by (cases "nrefs (g_backend g) i") auto

lemma abs_put_edge_missing:
  assumes ok: "graph_ok binv nrefs erefs g" and "erefs (g_backend g) (ID (h_edge (g_world g) e)) = None"
  shows "absGraph nrefs erefs (g\<lparr>g_world := put_edge e x (g_world g)\<rparr>) = absGraph nrefs erefs g"
proof -
  have "map_option (h_edge (put_edge e x (g_world g))) (erefs (g_backend g) i) =
    map_option (h_edge (g_world g)) (erefs (g_backend g) i)" for i
    using abs_put_edge [OF ok refl, of i e x] assms(2) by (cases "i = ID (h_edge (g_world g) e)") auto
  then show ?thesis by (simp add: absGraph_def)
qed

lemma abs_put_node_missing:
  assumes ok: "graph_ok binv nrefs erefs g" and "nrefs (g_backend g) (ID (h_node (g_world g) r)) = None"
  shows "absGraph nrefs erefs (g\<lparr>g_world := put_node r x (g_world g)\<rparr>) = absGraph nrefs erefs g"
proof -
  have "map_option (h_node (put_node r x (g_world g))) (nrefs (g_backend g) i) =
    map_option (h_node (g_world g)) (nrefs (g_backend g) i)" for i
    using abs_put_node [OF ok refl, of i r x] assms(2) by (cases "i = ID (h_node (g_world g) r)") auto
  then show ?thesis by (simp add: absGraph_def)
qed

lemma delEdge_step:
  assumes ok: "graph_ok binv nrefs erefs g" and ends: "endsAgree erefs g e"
  shows "okStep B binv nrefs erefs g (Graph_delEdge B t e g)"
proof -
  let ?x = "h_edge (g_world g) e" and ?j = "ID (h_edge (g_world g) e)"
  let ?w = "put_edge e (?x\<lparr>DeletedAt := t\<rparr>) (g_world g)"
  obtain g' err where g': "Graph_delEdge B t e g = Some (g', err)" "graph_ok binv nrefs erefs g'"
    "err = snd (be_EdgeDeleted B ?w (g_backend g) e)"
    and eff: "if erefs (g_backend g) ?j = None then g' = g\<lparr>g_world := ?w\<rparr> \<and> err = Some ErrEdgeNotFound
     else effect nrefs erefs g ?w (nrefs (g_backend g)) ((erefs (g_backend g))(?j := None))
            EdgeDeleted (EdgeElem e) g' err"
    using delEdge_effect [OF ok refl refl ends] by blast
  show ?thesis
  proof (rule okStepI [OF g'(1,2)])
    assume rel: "reliableWrites B nrefs erefs" and sync: "synced nrefs erefs g"
    show "synced nrefs erefs g'"
    proof (cases "erefs (g_backend g) ?j = None")
      case True
      with eff abs_put_edge_missing [OF ok True] show ?thesis by (auto intro: synced_same [OF sync])
    next
      case False
      have "err = None"
        using False rel g'(3) by (simp add: reliableWrites_def deletesEdges_def)
      with False eff have "effect nrefs erefs g ?w (nrefs (g_backend g)) ((erefs (g_backend g))(?j := None))
            EdgeDeleted (EdgeElem e) g' None" by (simp del: not_None_eq)
      then show ?thesis
      proof (rule synced_effect [OF _ sync])
        have "map_option (h_edge ?w) (((erefs (g_backend g))(?j := None)) i) =
          (if i = ?j then None else map_option (h_edge (g_world g)) (erefs (g_backend g) i))" for i
          using abs_put_edge [OF ok refl, of i e] by simp
        then show "\<lparr>a_nodes = (\<lambda>i. map_option (h_node ?w) (nrefs (g_backend g) i)),
            a_edges = (\<lambda>j. map_option (h_edge ?w) (((erefs (g_backend g))(?j := None)) j))\<rparr> =
          applyEvent (EdgeDeleted, snapshotOf ?w (EdgeElem e)) (absGraph nrefs erefs g)"
          by (simp add: absGraph_def fun_eq_iff)
        show "lawful (absGraph nrefs erefs g) (EdgeDeleted, snapshotOf ?w (EdgeElem e))"
          using ends False by (auto simp: absGraph_def endsAgree_def split: option.splits)
      qed
    qed
  qed
qed

lemma EdgeDeleted_step:
  assumes ok: "graph_ok binv nrefs erefs g" and ends: "endsAgree erefs g e"
  shows "okStep B binv nrefs erefs g (Graph_EdgeDeleted B e g)"
proof -
  have "Graph_EdgeDeleted B e g = Graph_delEdge B (DeletedAt (h_edge (g_world g) e)) e g"
    by (simp add: Graph_EdgeDeleted_def Graph_delEdge_def put_edge_def)
  then show ?thesis using delEdge_step [OF ok ends] by simp
qed

lemma lawful_deletions:
  assumes "distinct (map (\<lambda>e. ID (f e)) es)"
    and "\<forall>e \<in> set es. \<exists>old. a_edges a (ID (f e)) = Some old \<and> Parent old = Parent (f e) \<and> Child old = Child (f e)"
  shows "lawfulFrom a (map (\<lambda>e. (EdgeDeleted, EdgeSnap (f e))) es)"
  using assms
proof (induction es arbitrary: a)
  case (Cons e es)
  have "\<forall>x \<in> set es. \<exists>old. a_edges (applyEvent (EdgeDeleted, EdgeSnap (f e)) a) (ID (f x)) = Some old \<and>
      Parent old = Parent (f x) \<and> Child old = Child (f x)"
  proof
    fix x assume x: "x \<in> set es"
    then have "ID (f x) \<noteq> ID (f e)" using Cons.prems(1) by (auto simp: image_iff)
    then show "\<exists>old. a_edges (applyEvent (EdgeDeleted, EdgeSnap (f e)) a) (ID (f x)) = Some old \<and>
      Parent old = Parent (f x) \<and> Child old = Child (f x)" using Cons.prems(2) x by simp
  qed
  with Cons show ?case by auto
qed simp

lemma synced_edgesDeleted:
  assumes ok: "graph_ok binv nrefs erefs g" and es: "set es \<subseteq> ran (erefs (g_backend g))" "distinct es"
    and del: "edgesDeleted nrefs erefs t es g g1" and sync: "synced nrefs erefs g"
  shows "synced nrefs erefs g1"
proof -
  have id_inj: "inj_on (\<lambda>e. ID (h_edge (g_world g) e)) (set es)"
  proof (rule inj_onI)
    fix e e' assume "e \<in> set es" "e' \<in> set es" and eq: "ID (h_edge (g_world g) e) = ID (h_edge (g_world g) e')"
    with es(1) obtain j j' where "erefs (g_backend g) j = Some e" "erefs (g_backend g) j' = Some e'"
      unfolding ran_def by blast
    with stored_edge_id [OF ok] eq show "e = e'" by (metis option.inject)
  qed
  have "(\<exists>e \<in> set es. ID (h_edge (g_world g) e) = j) \<longleftrightarrow> (\<exists>e \<in> set es. erefs (g_backend g) j = Some e)" for j
    using es stored_edge_id [OF ok] by (auto simp: ran_def)
  then have "a_edges (absGraph nrefs erefs g1) j =
      (if \<exists>e \<in> set es. ID (h_edge (g_world g) e) = j then None else a_edges (absGraph nrefs erefs g) j)" for j
    using del by (auto simp: absGraph_def edgesDeleted_def without_def delWorld_def split: option.split)
  moreover have "a_nodes (absGraph nrefs erefs g1) = a_nodes (absGraph nrefs erefs g)"
    using del by (simp add: absGraph_def edgesDeleted_def delWorld_def)
  ultimately have "absGraph nrefs erefs g1 = fold applyEvent
      (map (\<lambda>e. (EdgeDeleted, EdgeSnap ((h_edge (g_world g) e)\<lparr>DeletedAt := t\<rparr>))) es) (absGraph nrefs erefs g)"
    by (simp add: fold_EdgeDeleted fun_eq_iff)
  moreover have "lawfulFrom (absGraph nrefs erefs g)
      (map (\<lambda>e. (EdgeDeleted, EdgeSnap ((h_edge (g_world g) e)\<lparr>DeletedAt := t\<rparr>))) es)"
  proof (rule lawful_deletions)
    show "distinct (map (\<lambda>e. ID ((h_edge (g_world g) e)\<lparr>DeletedAt := t\<rparr>)) es)"
      using es(2) id_inj by (simp add: distinct_map)
    show "\<forall>e \<in> set es. \<exists>old. a_edges (absGraph nrefs erefs g) (ID ((h_edge (g_world g) e)\<lparr>DeletedAt := t\<rparr>)) = Some old \<and>
        Parent old = Parent ((h_edge (g_world g) e)\<lparr>DeletedAt := t\<rparr>) \<and> Child old = Child ((h_edge (g_world g) e)\<lparr>DeletedAt := t\<rparr>)"
      using es(1) stored_edge_id [OF ok] by (fastforce simp: absGraph_def ran_def)
  qed
  ultimately show ?thesis using sync del by (simp add: synced_def edgesDeleted_def replay_def lawfulFrom_append)
qed

lemma GetNodeEdges_member:
  assumes "graph_ok binv nrefs erefs g"
  shows "set (be_GetNodeEdges B (g_world g) (g_backend g) r liveContext None) =
      {e \<in> ran (erefs (g_backend g)). incident (g_world g) e (ID (h_node (g_world g) r))}"
    and "distinct (be_GetNodeEdges B (g_world g) (g_backend g) r liveContext None)"
  using assms get_node_edges [of "g_world g" "g_backend g" liveContext r None]
  by (auto simp: graph_ok_def liveContext_def Edge_MatchMetadata_def)

lemma delNode_step:
  assumes ok: "graph_ok binv nrefs erefs g"
  shows "okStep B binv nrefs erefs g (Graph_delNode B t r g)"
proof -
  let ?i = "ID (h_node (g_world g) r)"
  define es where "es = be_GetNodeEdges B (g_world g) (g_backend g) r liveContext None"
  let ?w = "put_node r ((h_node (g_world g) r)\<lparr>DeletedAt := t\<rparr>) (delWorld t es (g_world g))"
  obtain g' err where g': "Graph_delNode B t r g = Some (g', err)" "graph_ok binv nrefs erefs g'"
    and missing: "nrefs (g_backend g) ?i = None \<longrightarrow> err = Some ErrNodeNotFound \<and> g' = g\<lparr>g_world := ?w\<rparr>"
    and found: "deletesEdges B erefs \<and> nrefs (g_backend g) ?i \<noteq> None \<longrightarrow>
      (\<exists>g1. edgesDeleted nrefs erefs t es g g1 \<and> err = snd (be_NodeDeleted B ?w (g_backend g1) r) \<and>
        effect nrefs erefs g1 ?w ((nrefs (g_backend g))(?i := None)) (without es (erefs (g_backend g)))
          NodeDeleted (NodeElem r) g' err)"
    using delNode_effect [OF ok refl es_def refl, where t = t] by (elim exE conjE) (rule that)
  have es: "set es \<subseteq> ran (erefs (g_backend g))" "distinct es" using GetNodeEdges_member [OF ok] by (auto simp: es_def)
  show ?thesis
  proof (rule okStepI [OF g'])
    assume rel: "reliableWrites B nrefs erefs" and sync: "synced nrefs erefs g"
    show "synced nrefs erefs g'"
    proof (cases "nrefs (g_backend g) ?i = None")
      case True
      have inv: "binv (g_world g) (g_backend g)" using ok by (simp add: graph_ok_def)
      have "e \<notin> set es" for e
        using GetNodeEdges_member(1) [OF ok, of r] incident_stored [OF inv, of e ?i] True by (auto simp: es_def)
      then have "?w = put_node r ((h_node (g_world g) r)\<lparr>DeletedAt := t\<rparr>) (g_world g)"
        by (simp add: delWorld_def put_node_def)
      with True missing abs_put_node_missing [OF ok True] show ?thesis by (auto intro: synced_same [OF sync])
    next
      case False
      with found rel obtain g1 where del: "edgesDeleted nrefs erefs t es g g1"
        and err: "err = snd (be_NodeDeleted B ?w (g_backend g1) r)"
        and eff: "effect nrefs erefs g1 ?w ((nrefs (g_backend g))(?i := None)) (without es (erefs (g_backend g)))
          NodeDeleted (NodeElem r) g' err" by (auto simp: reliableWrites_def)
      have "nrefs (g_backend g1) (ID (h_node ?w r)) \<noteq> None" using del False by (simp add: edgesDeleted_def)
      from reliableWritesD(2) [OF rel this] err have None: "err = None" by simp
      have sync1: "synced nrefs erefs g1" by (rule synced_edgesDeleted [OF ok es del sync])
      have "map_option (h_node ?w) (((nrefs (g_backend g))(?i := None)) i) =
          (if i = ?i then None else map_option (h_node (g_world g)) (nrefs (g_backend g) i))" for i
        using abs_put_node [OF ok refl, of i r] by (simp add: delWorld_def put_node_def)
      moreover have "lawful (absGraph nrefs erefs g1) (NodeDeleted, snapshotOf ?w (NodeElem r))"
      proof -
        have inv: "binv (g_world g) (g_backend g)" using ok by (simp add: graph_ok_def)
        have "\<not> incident (delWorld t es (g_world g)) e ?i" if "without es (erefs (g_backend g)) j = Some e" for j e
          by (rule without_incident [OF inv that]) (simp add: es_def GetNodeEdges_member(1) [OF ok])
        note free = this [unfolded incident_def]
        have "g_world g1 = delWorld t es (g_world g)" "nrefs (g_backend g1) = nrefs (g_backend g)"
          "erefs (g_backend g1) = without es (erefs (g_backend g))" using del by (simp_all add: edgesDeleted_def)
        with free False show ?thesis by (auto simp: absGraph_def)
      qed
      ultimately show ?thesis using del
        by (intro synced_effect [OF eff [unfolded None] sync1])
          (simp_all add: absGraph_def edgesDeleted_def fun_eq_iff delWorld_def del: lawful.simps)
    qed
  qed
qed

section \<open>Updates\<close>

lemma updateNode_step:
  assumes ok: "graph_ok binv nrefs erefs g" and upd: "sameButData (h_node (g_world g) r) n"
    and own: "ownElement nrefs erefs g (NodeElem r)"
  shows "okStep B binv nrefs erefs g
    (publish (\<lambda>w b. be_MetadataUpdated B w b (NodeElem r)) NodeUpdated (NodeElem r)
       (g\<lparr>g_world := put_node r n (g_world g)\<rparr>))"
proof -
  let ?w = "put_node r n (g_world g)" and ?i = "ID (h_node (g_world g) r)"
  let ?g = "g\<lparr>g_world := ?w\<rparr>"
  note id = sameButDataD [OF upd]
  have ok': "graph_ok binv nrefs erefs ?g"
    using ok id by (intro graph_ok_world) (auto intro: same_ids_put_node)
  have sel: "g_backend ?g = g_backend g" "g_world ?g = ?w" by simp_all
  obtain g' err where g': "publish (\<lambda>w b. be_MetadataUpdated B w b (NodeElem r)) NodeUpdated (NodeElem r) ?g = Some (g', err)"
    "graph_ok binv nrefs erefs g'" and err: "err = snd (be_MetadataUpdated B ?w (g_backend g) (NodeElem r))"
    and eff: "effect nrefs erefs g ?w (nrefs (g_backend g)) (erefs (g_backend g)) NodeUpdated (NodeElem r) g' err"
    using publish_MetadataUpdated [OF ok', of NodeUpdated "NodeElem r"] unfolding sel effect_world by auto
  show ?thesis
  proof (rule okStepI [OF g'])
    assume rel: "reliableWrites B nrefs erefs" and sync: "synced nrefs erefs g"
    show "synced nrefs erefs g'"
    proof (cases "nrefs (g_backend g) ?i = None")
      case True
      obtain b' where "be_MetadataUpdated B ?w (g_backend g) (NodeElem r) = (b', err)" using err by (metis prod.collapse)
      from metadata_updated [OF this] True id have "err = Some ErrNodeNotFound" by simp
      with eff have "g_published g' = g_published g" "absGraph nrefs erefs g' = absGraph nrefs erefs ?g"
        by (simp_all add: effect_def absGraph_def)
      with abs_put_node_missing [OF ok True] show ?thesis by (auto intro: synced_same [OF sync])
    next
      case False
      have "err = None" using reliableWritesD(4) [OF rel, of "g_backend g" ?w r] err False id by simp
      with eff show ?thesis
      proof (intro synced_effect [OF _ sync])
        have "map_option (h_node ?w) (nrefs (g_backend g) i) =
          (if i = ?i then Some n else map_option (h_node (g_world g)) (nrefs (g_backend g) i))" for i
          using abs_put_node [OF ok refl, of i r n] own False by (auto split: option.splits)
        then show "\<lparr>a_nodes = (\<lambda>i. map_option (h_node ?w) (nrefs (g_backend g) i)),
            a_edges = (\<lambda>j. map_option (h_edge ?w) (erefs (g_backend g) j))\<rparr> =
          applyEvent (NodeUpdated, snapshotOf ?w (NodeElem r)) (absGraph nrefs erefs g)"
          using id by (simp add: absGraph_def fun_eq_iff)
        show "lawful (absGraph nrefs erefs g) (NodeUpdated, snapshotOf ?w (NodeElem r))"
          using id upd own False by (auto simp: absGraph_def split: option.splits)
      qed simp
    qed
  qed
qed

lemma updateEdge_step:
  assumes ok: "graph_ok binv nrefs erefs g"
    and upd: "sameButData (h_edge (g_world g) e) x"
    and own: "ownElement nrefs erefs g (EdgeElem e)"
  shows "okStep B binv nrefs erefs g
    (publish (\<lambda>w b. be_MetadataUpdated B w b (EdgeElem e)) EdgeUpdated (EdgeElem e)
       (g\<lparr>g_world := put_edge e x (g_world g)\<rparr>))"
proof -
  let ?w = "put_edge e x (g_world g)" and ?i = "ID (h_edge (g_world g) e)"
  let ?g = "g\<lparr>g_world := ?w\<rparr>"
  note id = sameButDataD [OF upd] sameButData_ends [OF upd]
  have ok': "graph_ok binv nrefs erefs ?g"
    using ok id by (intro graph_ok_world) (auto intro: same_ids_put_edge)
  have sel: "g_backend ?g = g_backend g" "g_world ?g = ?w" by simp_all
  obtain g' err where g': "publish (\<lambda>w b. be_MetadataUpdated B w b (EdgeElem e)) EdgeUpdated (EdgeElem e) ?g = Some (g', err)"
    "graph_ok binv nrefs erefs g'" and err: "err = snd (be_MetadataUpdated B ?w (g_backend g) (EdgeElem e))"
    and eff: "effect nrefs erefs g ?w (nrefs (g_backend g)) (erefs (g_backend g)) EdgeUpdated (EdgeElem e) g' err"
    using publish_MetadataUpdated [OF ok', of EdgeUpdated "EdgeElem e"] unfolding sel effect_world by auto
  show ?thesis
  proof (rule okStepI [OF g'])
    assume rel: "reliableWrites B nrefs erefs" and sync: "synced nrefs erefs g"
    show "synced nrefs erefs g'"
    proof (cases "erefs (g_backend g) ?i = None")
      case True
      obtain b' where "be_MetadataUpdated B ?w (g_backend g) (EdgeElem e) = (b', err)" using err by (metis prod.collapse)
      from metadata_updated [OF this] True id have "err = Some ErrEdgeNotFound" by simp
      with eff have "g_published g' = g_published g" "absGraph nrefs erefs g' = absGraph nrefs erefs ?g"
        by (simp_all add: effect_def absGraph_def)
      with abs_put_edge_missing [OF ok True] show ?thesis by (auto intro: synced_same [OF sync])
    next
      case False
      have "err = None" using reliableWritesD(5) [OF rel, of "g_backend g" ?w e] err False id by simp
      with eff show ?thesis
      proof (intro synced_effect [OF _ sync])
        have "map_option (h_edge ?w) (erefs (g_backend g) i) =
          (if i = ?i then Some x else map_option (h_edge (g_world g)) (erefs (g_backend g) i))" for i
          using abs_put_edge [OF ok refl, of i e x] own False by (auto split: option.splits)
        then show "\<lparr>a_nodes = (\<lambda>i. map_option (h_node ?w) (nrefs (g_backend g) i)),
            a_edges = (\<lambda>j. map_option (h_edge ?w) (erefs (g_backend g) j))\<rparr> =
          applyEvent (EdgeUpdated, snapshotOf ?w (EdgeElem e)) (absGraph nrefs erefs g)"
          using id by (simp add: absGraph_def fun_eq_iff)
        show "lawful (absGraph nrefs erefs g) (EdgeUpdated, snapshotOf ?w (EdgeElem e))"
          using id upd own False by (auto simp: absGraph_def split: option.splits)
      qed simp
    qed
  qed
qed

lemma publishRevision_step:
  assumes "graph_ok binv nrefs erefs g" "ownElement nrefs erefs g i"
  shows "okStep B binv nrefs erefs g (publishRevision B m t i g)"
  using assms updateNode_step updateEdge_step
  by (cases i) (simp_all add: publishRevision_def revise_def del: ownElement.simps)

section \<open>Allocation\<close>

lemma new_node_ok:
  assumes ok: "graph_ok binv nrefs erefs g" and new: "new_node n (g_world g) = (w, r)"
  shows "graph_ok binv nrefs erefs (g\<lparr>g_world := w\<rparr>)" "r < h_next w" "h_node w r = n"
    and "synced nrefs erefs g \<Longrightarrow> synced nrefs erefs (g\<lparr>g_world := w\<rparr>)"
    and "absGraph nrefs erefs (g\<lparr>g_world := w\<rparr>) = absGraph nrefs erefs g"
proof -
  from new have w: "w = put_node r n (g_world g)\<lparr>h_next := Suc (h_next (g_world g))\<rparr>" and r: "r = h_next (g_world g)"
    by (auto simp: new_node_def put_node_def)
  have fresh: "nrefs (g_backend g) i = Some r' \<Longrightarrow> r' \<noteq> r" for i r'
    using ok r by (auto simp: graph_ok_def ran_def)
  show "graph_ok binv nrefs erefs (g\<lparr>g_world := w\<rparr>)"
    by (rule graph_ok_world [OF ok]) (use w fresh in \<open>auto simp: same_ids_def ran_def\<close>)
  show "r < h_next w" "h_node w r = n" using w r by simp_all
  have eq: "map_option (h_node w) (nrefs (g_backend g) i) = map_option (h_node (g_world g)) (nrefs (g_backend g) i)" for i
    using fresh [of i] by (cases "nrefs (g_backend g) i") (simp_all add: w)
  have "h_edge w = h_edge (g_world g)" by (simp add: w)
  then show "absGraph nrefs erefs (g\<lparr>g_world := w\<rparr>) = absGraph nrefs erefs g"
    by (simp add: absGraph_def eq)
  then show "synced nrefs erefs (g\<lparr>g_world := w\<rparr>)" if "synced nrefs erefs g"
    using that by (simp add: synced_def)
qed

lemma new_edge_ok:
  assumes ok: "graph_ok binv nrefs erefs g" and new: "new_edge x (g_world g) = (w, e)"
  shows "graph_ok binv nrefs erefs (g\<lparr>g_world := w\<rparr>)" "e < h_next w" "h_edge w e = x"
    and "synced nrefs erefs g \<Longrightarrow> synced nrefs erefs (g\<lparr>g_world := w\<rparr>)"
    and "absGraph nrefs erefs (g\<lparr>g_world := w\<rparr>) = absGraph nrefs erefs g"
proof -
  from new have w: "w = put_edge e x (g_world g)\<lparr>h_next := Suc (h_next (g_world g))\<rparr>" and e: "e = h_next (g_world g)"
    by (auto simp: new_edge_def put_edge_def)
  have fresh: "erefs (g_backend g) i = Some e' \<Longrightarrow> e' \<noteq> e" for i e'
    using ok e by (auto simp: graph_ok_def ran_def)
  show "graph_ok binv nrefs erefs (g\<lparr>g_world := w\<rparr>)"
    by (rule graph_ok_world [OF ok]) (use w fresh in \<open>auto simp: same_ids_def ran_def\<close>)
  show "e < h_next w" "h_edge w e = x" using w e by simp_all
  have eq: "map_option (h_edge w) (erefs (g_backend g) i) = map_option (h_edge (g_world g)) (erefs (g_backend g) i)" for i
    using fresh [of i] by (cases "erefs (g_backend g) i") (simp_all add: w)
  have "h_node w = h_node (g_world g)" by (simp add: w)
  then show "absGraph nrefs erefs (g\<lparr>g_world := w\<rparr>) = absGraph nrefs erefs g"
    by (simp add: absGraph_def eq)
  then show "synced nrefs erefs (g\<lparr>g_world := w\<rparr>)" if "synced nrefs erefs g"
    using that by (simp add: synced_def)
qed

lemma okStep_from:
  assumes "okStep B binv nrefs erefs g1 out" "synced nrefs erefs g \<Longrightarrow> synced nrefs erefs g1"
  shows "okStep B binv nrefs erefs g out"
  using assms unfolding okStep_def by blast

lemma okStep_drop:
  assumes "okStep B binv nrefs erefs g out"
  shows "okStep B binv nrefs erefs g
    (dropResult (map_option (\<lambda>(g, err). (g, case err of Some x \<Rightarrow> Inl x | None \<Rightarrow> Inr v)) out))"
  using assms unfolding okStep_def dropResult_def by fastforce

lemma NewNode_step:
  assumes ok: "graph_ok binv nrefs erefs g"
  shows "okStep B binv nrefs erefs g (dropResult (Graph_NewNode B now i m h g))"
proof -
  obtain w r where new: "new_node (Graph_CreateNode g i m now h) (g_world g) = (w, r)" by fastforce
  note n = new_node_ok [OF ok new]
  have "okStep B binv nrefs erefs (g\<lparr>g_world := w\<rparr>) (Graph_AddNode B r (g\<lparr>g_world := w\<rparr>))"
    using n by (intro AddNode_step) simp_all
  then have "okStep B binv nrefs erefs g (Graph_AddNode B r (g\<lparr>g_world := w\<rparr>))"
    by (rule okStep_from) (rule n(4))
  then show ?thesis unfolding Graph_NewNode_def new Let_def prod.case by (rule okStep_drop)
qed

lemma NewEdge_step:
  assumes ok: "graph_ok binv nrefs erefs g"
  shows "okStep B binv nrefs erefs g (dropResult (Graph_NewEdge u B now i p c m h g))"
proof -
  obtain w e where new: "new_edge (Graph_CreateEdge u g i (h_node (g_world g) p) (h_node (g_world g) c) m now h) (g_world g) = (w, e)"
    by fastforce
  note n = new_edge_ok [OF ok new]
  have "okStep B binv nrefs erefs (g\<lparr>g_world := w\<rparr>) (Graph_AddEdge B e (g\<lparr>g_world := w\<rparr>))"
    using n by (intro AddEdge_step) simp_all
  then have "okStep B binv nrefs erefs g (Graph_AddEdge B e (g\<lparr>g_world := w\<rparr>))"
    by (rule okStep_from) (rule n(4))
  then show ?thesis unfolding Graph_NewEdge_def new Let_def prod.case by (rule okStep_drop)
qed

section \<open>Loops\<close>

lemma delNodesLoop_step:
  "graph_ok binv nrefs erefs g \<Longrightarrow> okStep B binv nrefs erefs g (delNodesLoop B t ns g)"
proof (induction ns arbitrary: g)
  case (Cons n ns)
  from delNode_step [OF Cons.prems, of t n] obtain g1 err where
    one: "Graph_delNode B t n g = Some (g1, err)" "graph_ok binv nrefs erefs g1"
      "reliableWrites B nrefs erefs \<longrightarrow> synced nrefs erefs g \<longrightarrow> synced nrefs erefs g1"
    unfolding okStep_def by blast
  show ?case
  proof (cases err)
    case None
    then show ?thesis using one Cons.IH [OF one(2)] unfolding okStep_def by auto
  next
    case (Some x)
    then show ?thesis using one unfolding okStep_def by auto
  qed
qed (simp add: okStep_refl)

lemma unlinkLoop_step:
  assumes "graph_ok binv nrefs erefs g" "\<forall>e \<in> set es. unlinkable nrefs erefs g e"
  shows "okStep B binv nrefs erefs g (unlinkLoop B now i es err g)"
  using assms
proof (induction es arbitrary: err g)
  case (Cons e es)
  let ?x = "h_edge (g_world g) e"
  let ?w = "put_edge e (?x\<lparr>DeletedAt := now\<rparr>) (g_world g)"
  from Cons.prems(2) obtain p c where pc: "nrefs (g_backend g) (Parent ?x) = Some p" "nrefs (g_backend g) (Child ?x) = Some c"
    by (auto simp: unlinkable_def)
  have live: "ctxTimeSlice liveContext = None" by (simp add: liveContext_def)
  have ends: "be_GetEdgeNodes B (g_world g) (g_backend g) e liveContext None None = Some ([p], [c])"
    using pc by (simp add: get_edge_nodes [OF live] Node_MatchMetadata_def)
  have agree: "endsAgree erefs g e"
    using Cons.prems(2) by (auto simp: unlinkable_def endsAgree_def split: option.splits)
  from delEdge_step [OF Cons.prems(1) agree, of now] delEdge_effect [OF Cons.prems(1) refl refl agree, of now]
  obtain g1 err1 where one: "Graph_delEdge B now e g = Some (g1, err1)" "graph_ok binv nrefs erefs g1"
      "reliableWrites B nrefs erefs \<longrightarrow> synced nrefs erefs g \<longrightarrow> synced nrefs erefs g1"
    and eff: "if erefs (g_backend g) (ID ?x) = None then g1 = g\<lparr>g_world := ?w\<rparr> \<and> err1 = Some ErrEdgeNotFound
     else effect nrefs erefs g ?w (nrefs (g_backend g)) ((erefs (g_backend g))(ID ?x := None)) EdgeDeleted (EdgeElem e) g1 err1"
    unfolding okStep_def by force
  have "\<forall>e' \<in> set es. unlinkable nrefs erefs g1 e'"
    using unlinkable_delete [OF eff] Cons.prems(2) by auto
  from Cons.IH [OF one(2) this] have rest: "okStep B binv nrefs erefs g (unlinkLoop B now i es err' g1)" for err'
    using one(3) unfolding okStep_def by blast
  show ?case
    using ends rest Cons.IH [OF Cons.prems(1)] Cons.prems(2) one(1)
    by (auto simp: Graph_DelEdge_def split: option.splits)
qed (simp add: okStep_refl)

lemma Unlink_step:
  assumes ok: "graph_ok binv nrefs erefs g"
  shows "okStep B binv nrefs erefs g (Graph_Unlink B now n1 n2 g)"
  unfolding Graph_Unlink_def
proof (rule unlinkLoop_step [OF ok], rule ballI)
  fix e assume "e \<in> set (be_GetNodeEdges B (g_world g) (g_backend g) n1 liveContext None)"
  then obtain j where j: "erefs (g_backend g) j = Some e" using GetNodeEdges_member [OF ok] by (auto simp: ran_def)
  with stored_edge_id [OF ok j] edge_ends [OF _ j, of "g_world g"] ok show "unlinkable nrefs erefs g e"
    by (auto simp: unlinkable_def graph_ok_def)
qed

section \<open>Every call\<close>

lemma runOp_step:
  assumes ok: "graph_ok binv nrefs erefs g" and call: "callOk nrefs erefs g op"
  shows "okStep B binv nrefs erefs g (runOp u B op g)"
proof (cases op)
  case (NodeUpdatedOp r)
  show ?thesis
  proof (cases "nrefs (g_backend g) (ID (h_node (g_world g) r))")
    case (Some r')
    with stored_node_id [OF ok this] show ?thesis
      using NodeUpdatedOp updateNode_step [OF ok, where r = r'] okStep_refl [OF ok]
      by (simp add: Graph_NodeUpdated_def GetNode_live [OF ok] Let_def)
  qed (simp add: NodeUpdatedOp Graph_NodeUpdated_def GetNode_live [OF ok] okStep_refl [OF ok])
next
  case (EdgeUpdatedOp e)
  show ?thesis
  proof (cases "erefs (g_backend g) (ID (h_edge (g_world g) e))")
    case (Some e')
    with stored_edge_id [OF ok this] show ?thesis
      using EdgeUpdatedOp updateEdge_step [OF ok, where e = e'] okStep_refl [OF ok]
      by (simp add: Graph_EdgeUpdated_def GetEdge_live [OF ok] Let_def)
  qed (simp add: EdgeUpdatedOp Graph_EdgeUpdated_def GetEdge_live [OF ok] okStep_refl [OF ok])
next
  case (UpdateMetadataOp now i k f)
  with call obtain r where r: "i = NodeElem r" by (cases i) auto
  show ?thesis
  proof (cases "elementField (g_world g) i k")
    case (Inr v)
    have "snd (f v (elementMetadata (g_world g) i))" using call UpdateMetadataOp Inr by simp
    then show ?thesis
      using Inr call UpdateMetadataOp r updateNode_step [OF ok, of r "revise _ now (h_node (g_world g) r)"]
      by (simp add: Graph_UpdateMetadata_def case_prod_beta Let_def revise_def)
  qed (simp add: UpdateMetadataOp Graph_UpdateMetadata_def okStep_refl [OF ok])
qed (use call in \<open>simp_all add: ok okStep_refl AddNode_step AddEdge_step NewNode_step NewEdge_step Unlink_step
    delEdge_step EdgeDeleted_step delNode_step delNodesLoop_step publishRevision_step Graph_NodeAdded_def
    Graph_EdgeAdded_def Graph_Link_def Graph_DelEdge_def Graph_DelNode_def Graph_NodeDeleted_def Graph_DelNodes_def
    Graph_SetMetadata_def Graph_DelMetadata_def Graph_AddMetadata_def Graph_addMetadata_def Transaction_Commit_def
    case_prod_beta Let_def\<close>)

end

context reliable_backend
begin

lemma reliable: "reliableWrites B nrefs erefs"
  unfolding reliableWrites_def deletesEdges_def
  using node_added_ok node_deleted_ok edge_added_ok edge_deleted_ok metadata_updated_ok by auto

end

section \<open>Runs\<close>

fun callsOk :: "('b \<Rightarrow> Identifier \<rightharpoonup> nref) \<Rightarrow> ('b \<Rightarrow> Identifier \<rightharpoonup> eref) \<Rightarrow> (string \<Rightarrow> string) \<Rightarrow> 'b Backend \<Rightarrow>
    gop list \<Rightarrow> 'b Graph \<Rightarrow> bool" where
  "callsOk nrefs erefs u B [] g = True"
| "callsOk nrefs erefs u B (op # ops) g =
     (callOk nrefs erefs g op \<and>
      (case runOp u B op g of None \<Rightarrow> True | Some (g', _) \<Rightarrow> callsOk nrefs erefs u B ops g'))"

fun runOps :: "(string \<Rightarrow> string) \<Rightarrow> 'b Backend \<Rightarrow> gop list \<Rightarrow> 'b Graph \<Rightarrow> 'b Graph option" where
  "runOps u B [] g = Some g"
| "runOps u B (op # ops) g = (case runOp u B op g of None \<Rightarrow> None | Some (g', _) \<Rightarrow> runOps u B ops g')"

context backend_laws
begin

lemma runOps_ok:
  assumes "graph_ok binv nrefs erefs g" "callsOk nrefs erefs u B ops g"
  shows "\<exists>g'. runOps u B ops g = Some g' \<and> graph_ok binv nrefs erefs g' \<and>
    (reliableWrites B nrefs erefs \<longrightarrow> synced nrefs erefs g \<longrightarrow> synced nrefs erefs g')"
  using assms
proof (induction ops arbitrary: g)
  case (Cons op ops)
  from runOp_step [OF Cons.prems(1), of op u] Cons.prems(2) obtain g1 err where
    one: "runOp u B op g = Some (g1, err)" "graph_ok binv nrefs erefs g1"
      "reliableWrites B nrefs erefs \<longrightarrow> synced nrefs erefs g \<longrightarrow> synced nrefs erefs g1"
    by (auto simp: okStep_def)
  with Cons.IH [OF one(2)] Cons.prems(2) show ?case by auto
qed simp

end

section \<open>Calls that need less\<close>

text \<open>
  What a call needs to return and to keep the graph well formed: the pointer it gets is one to an object, an edge it deletes has
  the ends of the edge of the graph, and an edge is given to \<^verbatim>\<open>UpdateMetadata\<close> only while nobody listens.
\<close>

fun callSafe :: "('b \<Rightarrow> Identifier \<rightharpoonup> eref) \<Rightarrow> 'b Graph \<Rightarrow> gop \<Rightarrow> bool" where
  "callSafe erefs g (AddNodeOp r) \<longleftrightarrow> r < h_next (g_world g)"
| "callSafe erefs g (NodeAddedOp r) \<longleftrightarrow> r < h_next (g_world g)"
| "callSafe erefs g (AddEdgeOp e) \<longleftrightarrow> e < h_next (g_world g)"
| "callSafe erefs g (EdgeAddedOp e) \<longleftrightarrow> e < h_next (g_world g)"
| "callSafe erefs g (DelEdgeOp t e) \<longleftrightarrow> endsAgree erefs g e"
| "callSafe erefs g (EdgeDeletedOp e) \<longleftrightarrow> endsAgree erefs g e"
| "callSafe erefs g (UpdateMetadataOp t i k f) \<longleftrightarrow> kindFits NodeUpdated i \<or> eventListeners (g_eventHandler g) = []"
| "callSafe erefs g _ \<longleftrightarrow> True"

fun callsSafe :: "('b \<Rightarrow> Identifier \<rightharpoonup> eref) \<Rightarrow> (string \<Rightarrow> string) \<Rightarrow> 'b Backend \<Rightarrow> gop list \<Rightarrow> 'b Graph \<Rightarrow> bool" where
  "callsSafe erefs u B [] g = True"
| "callsSafe erefs u B (op # ops) g =
     (callSafe erefs g op \<and> (case runOp u B op g of None \<Rightarrow> True | Some (g', _) \<Rightarrow> callsSafe erefs u B ops g'))"

lemma NotifyEvent_unheard:
  "idle h \<Longrightarrow> eventListeners h = [] \<Longrightarrow> NotifyEvent noReaction k x h = Some h"
  by (cases h) (simp add: NotifyEvent_def pushEvent_def maxEvents_def idle_def drain.simps)

lemma listener_ok:
  "graph_ok binv nrefs erefs (Graph_AddEventListener l g) = graph_ok binv nrefs erefs g"
  "synced nrefs erefs (Graph_AddEventListener l g) = synced nrefs erefs g"
  "absGraph nrefs erefs (Graph_AddEventListener l g) = absGraph nrefs erefs g"
  "g_published (Graph_AddEventListener l g) = g_published g"
  by (simp_all add: graph_ok_def synced_def absGraph_def Graph_AddEventListener_def AddEventListener_def idle_def)

text \<open>Listeners added one after the other.\<close>

definition listening :: "EventListener list \<Rightarrow> 'b Graph \<Rightarrow> 'b Graph" where
  "listening ls g = fold Graph_AddEventListener ls g"

lemma listening_ok:
  "graph_ok binv nrefs erefs (listening ls g) = graph_ok binv nrefs erefs g"
  "synced nrefs erefs (listening ls g) = synced nrefs erefs g"
  unfolding listening_def by (induction ls arbitrary: g) (simp_all add: listener_ok)

context backend_laws
begin

lemma publish_safe:
  assumes ok: "graph_ok binv nrefs erefs g" and fit: "kindFits k x \<or> eventListeners (g_eventHandler g) = []"
  shows "\<exists>g' err. publish (\<lambda>w b. be_MetadataUpdated B w b x) k x g = Some (g', err) \<and> graph_ok binv nrefs erefs g'"
proof (cases "kindFits k x")
  case True
  from publish_MetadataUpdated [OF ok this] show ?thesis by blast
next
  case False
  obtain b err where b: "be_MetadataUpdated B (g_world g) (g_backend g) x = (b, err)" by fastforce
  have "idle (g_eventHandler g)" using ok by (simp add: graph_ok_def)
  then show ?thesis
    using fit False ok metadata_updated [OF b] NotifyEvent_unheard [of "g_eventHandler g" k x]
    by (simp add: publish_def callBackend_def notify_def b graph_ok_def)
qed

lemma graph_ok_revise:
  "graph_ok binv nrefs erefs g \<Longrightarrow> graph_ok binv nrefs erefs (g\<lparr>g_world := reviseElement m t i (g_world g)\<rparr>)"
  by (cases i) (auto intro!: graph_ok_world simp: revise_def intro: same_ids_put_node same_ids_put_edge)

lemma publishRevision_safe:
  assumes "graph_ok binv nrefs erefs g"
  shows "\<exists>g' err. publishRevision B m t i g = Some (g', err) \<and> graph_ok binv nrefs erefs g'"
  unfolding publishRevision_def by (rule publish_safe [OF graph_ok_revise [OF assms]]) (cases i; simp)

lemma UpdateMetadata_safe:
  assumes ok: "graph_ok binv nrefs erefs g" and fit: "kindFits NodeUpdated i \<or> eventListeners (g_eventHandler g) = []"
  shows "\<exists>g' err. Graph_UpdateMetadata B now i k f g = Some (g', err) \<and> graph_ok binv nrefs erefs g'"
  using ok graph_ok_revise [OF ok] publish_safe [OF graph_ok_revise [OF ok], of NodeUpdated i] fit
  by (auto simp: Graph_UpdateMetadata_def Let_def split: sum.split prod.split)

lemma runOp_safe:
  assumes ok: "graph_ok binv nrefs erefs g" and call: "callSafe erefs g op"
  shows "\<exists>g' err. runOp u B op g = Some (g', err) \<and> graph_ok binv nrefs erefs g'"
proof (cases "callOk nrefs erefs g op")
  case True
  then show ?thesis using runOp_step [OF ok True, of u] unfolding okStep_def by blast
next
  case False
  note safe = publishRevision_safe [OF ok] ok
  show ?thesis
  proof (cases op)
    case (UpdateMetadataOp t i k f)
    then show ?thesis using UpdateMetadata_safe [OF ok] call by simp
  qed (use False call safe in \<open>auto simp: Graph_SetMetadata_def Graph_DelMetadata_def Graph_AddMetadata_def Graph_addMetadata_def
      Transaction_Commit_def Let_def split: prod.split\<close>)
qed

lemma runOps_safe:
  assumes "graph_ok binv nrefs erefs g" "callsSafe erefs u B ops g"
  shows "\<exists>g'. runOps u B ops g = Some g' \<and> graph_ok binv nrefs erefs g'"
  using assms
proof (induction ops arbitrary: g)
  case (Cons op ops)
  from runOp_safe [OF Cons.prems(1), of op u] Cons.prems(2) obtain g1 err where
    one: "runOp u B op g = Some (g1, err)" "graph_ok binv nrefs erefs g1" by auto
  with Cons.IH [OF one(2)] Cons.prems(2) show ?case by auto
qed simp

end

end
