(* ===== verification/ShortestPath.thy ===== *)
theory ShortestPath
  imports Graph_Steps "HOL-Library.Word"
begin

text \<open>
  \<^verbatim>\<open>Graph.LookupShortestPath\<close> (\<^verbatim>\<open>src/graffiti/graph/graph.go\<close>): Dijkstra's algorithm from the first node
  that matches, with unit weights, distances of type \<^verbatim>\<open>uint\<close> (64 bits, unreached is the largest value and
  one more wraps to 0), and the walk back along the predecessors.  Both loops are
  \<open>partial_function\<close>s; the theorems show that they return.
\<close>

section \<open>The algorithm\<close>

record search =
  unvisited :: "(Identifier, nref) gomap" \<comment> \<open>\<^verbatim>\<open>nodesMap\<close>\<close>
  distance :: "(Identifier, 64 word) gomap"
  previous :: "(Identifier, nref) gomap"

definition findNodeMatchMetadata ::
  "world \<Rightarrow> (Identifier, nref) gomap \<Rightarrow> ElementMatcher option \<Rightarrow> nref option" where
  "findNodeMatchMetadata w nodesMap m =
     List.find (\<lambda>r. Node_MatchMetadata (h_env w) m (h_node w r)) (map snd nodesMap)"

fun minDistanceLoop ::
  "(Identifier, nref) gomap \<Rightarrow> (Identifier, 64 word) gomap \<Rightarrow> 64 word \<times> Identifier \<Rightarrow> 64 word \<times> Identifier" where
  "minDistanceLoop nodesMap [] (mn, minID) = (mn, minID)"
| "minDistanceLoop nodesMap ((i, d) # ds) (mn, minID) =
     (if map_of nodesMap i = None then minDistanceLoop nodesMap ds (mn, minID)
      else (let minID = (if minID = [] then i else minID)
            in if d < mn then minDistanceLoop nodesMap ds (d, i)
               else minDistanceLoop nodesMap ds (mn, minID)))"

definition getNodeMinDistance :: "(Identifier, nref) gomap \<Rightarrow> (Identifier, 64 word) gomap \<Rightarrow> nref option" where
  "getNodeMinDistance nodesMap dmap = map_of nodesMap (snd (minDistanceLoop nodesMap dmap (- 1, [])))"

definition GetNodesMap :: "'b Backend \<Rightarrow> 'b Graph \<Rightarrow> Context \<Rightarrow> (Identifier, nref) gomap" where
  "GetNodesMap B g t =
     fold (\<lambda>n m. gm_set (ID (h_node (g_world g) n)) n m) (be_GetNodes B (g_world g) (g_backend g) t None) []"

text \<open>A read of a missing key gives the zero value.\<close>

definition distOf :: "search \<Rightarrow> Identifier \<Rightarrow> 64 word" where
  "distOf s i = (case map_of (distance s) i of Some d \<Rightarrow> d | None \<Rightarrow> 0)"

fun relaxAll :: "(nref \<Rightarrow> Identifier) \<Rightarrow> nref \<Rightarrow> nref list \<Rightarrow> search \<Rightarrow> search" where
  "relaxAll idOf u [] s = s"
| "relaxAll idOf u (v # vs) s =
     (if map_of (unvisited s) (idOf v) = None then relaxAll idOf u vs s
      else (let alt = distOf s (idOf u) + 1
            in if alt < distOf s (idOf v)
               then relaxAll idOf u vs (s\<lparr>distance := gm_set (idOf v) alt (distance s),
                                         previous := gm_set (idOf v) u (previous s)\<rparr>)
               else relaxAll idOf u vs s))"

partial_function (option) dijkstra ::
  "(nref \<Rightarrow> Identifier) \<Rightarrow> (nref \<Rightarrow> nref list option) \<Rightarrow> search \<Rightarrow> search option" where
  [code]: "dijkstra idOf nbrs s =
     (if unvisited s = [] then Some s
      else (case getNodeMinDistance (unvisited s) (distance s) of
              None \<Rightarrow> Some s
            | Some u \<Rightarrow>
                (case nbrs u of
                   None \<Rightarrow> None
                 | Some vs \<Rightarrow>
                     dijkstra idOf nbrs
                       (relaxAll idOf u vs (s\<lparr>unvisited := gm_del (idOf u) (unvisited s)\<rparr>)))))"

partial_function (option) followPath ::
  "(nref \<Rightarrow> Identifier) \<Rightarrow> (Identifier, nref) gomap \<Rightarrow> nref \<Rightarrow> nref list \<Rightarrow> nref list option" where
  [code]: "followPath idOf prev node retNodes =
     (case map_of prev (idOf node) of
        None \<Rightarrow> Some (retNodes @ [node])
      | Some prevNode \<Rightarrow>
          (if idOf node = idOf prevNode then Some (retNodes @ [node])
           else followPath idOf prev prevNode (retNodes @ [node])))"

definition initialSearch :: "(nref \<Rightarrow> Identifier) \<Rightarrow> (Identifier, nref) gomap \<Rightarrow> nref \<Rightarrow> search" where
  "initialSearch idOf nodesMap target =
     \<lparr>unvisited = nodesMap,
      distance = gm_set (idOf target) 0 (fold (\<lambda>v d. gm_set (idOf v) (- 1) d) (map snd nodesMap) []),
      previous = []\<rparr>"

definition LookupShortestPath ::
  "'b Backend \<Rightarrow> 'b Graph \<Rightarrow> nref \<Rightarrow> ElementMatcher option \<Rightarrow> ElementMatcher option \<Rightarrow> nref list option" where
  "LookupShortestPath B g n m em =
     (let idOf = (\<lambda>r. ID (h_node (g_world g) r));
          nodesMap = GetNodesMap B g (g_context g)
      in case findNodeMatchMetadata (g_world g) nodesMap m of
           None \<Rightarrow> Some []
         | Some target \<Rightarrow>
             Option.bind (dijkstra idOf (\<lambda>u. getNeighborNodes B g u em) (initialSearch idOf nodesMap target)) (\<lambda>s.
             Option.bind (followPath idOf (previous s) n []) (\<lambda>retNodes.
             Some (if idOf (last retNodes) \<noteq> idOf target then [] else retNodes))))"

section \<open>The closest unvisited node\<close>

lemma minDistanceLoop_spec:
  assumes "minDistanceLoop nm ds (mn, i) = (mn', i')" and "map_of nm [] = None"
    and "distinct (map fst (ps @ ds))"
    and "if i = [] then mn = - 1 \<and> (\<forall>(j, d) \<in> set ps. map_of nm j = None)
         else (i, mn) \<in> set ps \<and> map_of nm i \<noteq> None \<and> (\<forall>(j, d) \<in> set ps. map_of nm j \<noteq> None \<longrightarrow> mn \<le> d)"
  shows "if i' = [] then (\<forall>(j, d) \<in> set (ps @ ds). map_of nm j = None)
         else (i', mn') \<in> set (ps @ ds) \<and> map_of nm i' \<noteq> None \<and>
           (\<forall>(j, d) \<in> set (ps @ ds). map_of nm j \<noteq> None \<longrightarrow> mn' \<le> d)"
  using assms
proof (induction ds arbitrary: ps mn i)
  case Nil
  then show ?case by (auto split: if_splits)
next
  case (Cons jd ds)
  obtain j d where jd: "jd = (j, d)" by (cases jd)
  have step: "ps @ jd # ds = (ps @ [jd]) @ ds" by simp
  show ?case
  proof (cases "map_of nm j = None")
    case True
    show ?thesis unfolding step
      by (rule Cons.IH [of mn i]) (use Cons.prems True in \<open>auto simp: jd split: if_splits\<close>)
  next
    case False
    then have j: "j \<noteq> []" using Cons.prems(2) by auto
    show ?thesis
    proof (cases "d < mn")
      case True
      show ?thesis unfolding step
        by (rule Cons.IH [of d j]) (use Cons.prems False True j in \<open>auto simp: jd split: if_splits\<close>)
    next
      case not: False
      then have "mn = - 1 \<Longrightarrow> d = - 1"
        using word_order.extremum [of d] by (simp add: not_less)
      note not = not this
      show ?thesis unfolding step
        by (rule Cons.IH [of mn "if i = [] then j else i"])
          (use Cons.prems False not j in \<open>auto simp: jd Let_def not_less split: if_splits\<close>)
    qed
  qed
qed

lemma getNodeMinDistance_spec:
  assumes "gm_wf dmap" "map_of nm [] = None" "map_of nm j = Some v" "map_of dmap j \<noteq> None"
  obtains u i where "getNodeMinDistance nm dmap = Some u" "map_of nm i = Some u"
    "\<And>k d. map_of nm k \<noteq> None \<Longrightarrow> map_of dmap k = Some d \<Longrightarrow> the (map_of dmap i) \<le> d" "map_of dmap i \<noteq> None"
proof -
  obtain mn i where loop: "minDistanceLoop nm dmap (- 1, []) = (mn, i)" by fastforce
  have res: "if i = [] then (\<forall>(j, d) \<in> set dmap. map_of nm j = None)
         else (i, mn) \<in> set dmap \<and> map_of nm i \<noteq> None \<and> (\<forall>(j, d) \<in> set dmap. map_of nm j \<noteq> None \<longrightarrow> mn \<le> d)"
    by (rule minDistanceLoop_spec [OF loop assms(2), of "[]", unfolded append_Nil])
      (use assms(1) in \<open>simp_all add: gm_wf_def\<close>)
  from assms(3,4) obtain d where "(j, d) \<in> set dmap" by (auto dest: map_of_SomeD)
  with res assms(3) have i: "i \<noteq> []" "map_of dmap i = Some mn" "map_of nm i \<noteq> None"
    "\<And>j d. (j, d) \<in> set dmap \<Longrightarrow> map_of nm j \<noteq> None \<Longrightarrow> mn \<le> d"
    using gm_lookup_iff [OF assms(1)] by (auto split: if_splits)
  from i(3) obtain u where u: "map_of nm i = Some u" by auto
  show thesis
    by (rule that [of u i]) (use loop u i in \<open>auto simp: getNodeMinDistance_def dest: map_of_SomeD\<close>)
qed

section \<open>Relaxation\<close>

lemma relaxAll_unvisited [simp]: "unvisited (relaxAll idOf u vs s) = unvisited s"
  by (induction vs arbitrary: s) (auto simp: Let_def)

lemma relaxAll_wf:
  "gm_wf (distance s) \<Longrightarrow> gm_wf (distance (relaxAll idOf u vs s))"
  by (induction vs arbitrary: s) (auto simp: Let_def)

lemma relaxAll_result:
  assumes "map_of (unvisited s) (idOf u) = None"
  shows "distOf (relaxAll idOf u vs s) i =
      (if (\<exists>v \<in> set vs. idOf v = i) \<and> map_of (unvisited s) i \<noteq> None \<and> distOf s (idOf u) + 1 < distOf s i
       then distOf s (idOf u) + 1 else distOf s i) \<and>
    map_of (previous (relaxAll idOf u vs s)) i =
      (if (\<exists>v \<in> set vs. idOf v = i) \<and> map_of (unvisited s) i \<noteq> None \<and> distOf s (idOf u) + 1 < distOf s i
       then Some u else map_of (previous s) i)"
  using assms
proof (induction vs arbitrary: s)
  case (Cons v vs)
  let ?alt = "distOf s (idOf u) + 1"
  let ?s = "s\<lparr>distance := gm_set (idOf v) ?alt (distance s), previous := gm_set (idOf v) u (previous s)\<rparr>"
  show ?case
  proof (cases "map_of (unvisited s) (idOf v) \<noteq> None \<and> ?alt < distOf s (idOf v)")
    case True
    then have "idOf v \<noteq> idOf u" using Cons.prems by auto
    then have d: "distOf ?s (idOf u) = distOf s (idOf u)"
      "distOf ?s i = (if i = idOf v then ?alt else distOf s i)" by (auto simp: distOf_def)
    show ?thesis using True Cons.IH [of ?s] Cons.prems d by (auto simp: Let_def)
  next
    case False
    then show ?thesis using Cons.IH [of s] Cons.prems by (auto simp: Let_def)
  qed
qed simp

lemma relaxAll_dom:
  "map_of (distance s) i \<noteq> None \<Longrightarrow> map_of (distance (relaxAll idOf u vs s)) i \<noteq> None"
  by (induction vs arbitrary: s) (auto simp: Let_def)

section \<open>Distances in the graph\<close>

text \<open>
  The setting of a search: \<open>V\<close> is the set of nodes, with distinct non-empty identifiers, fewer of
  them than the largest distance; \<open>E\<close> relates a node to its neighbours; the search starts at \<open>t\<close>.
\<close>

definition searchGraph ::
  "(nref \<Rightarrow> Identifier) \<Rightarrow> (nref \<Rightarrow> nref list option) \<Rightarrow> nref set \<Rightarrow> (nref \<times> nref) set \<Rightarrow> nref \<Rightarrow> bool" where
  "searchGraph idOf nbrs V E t \<longleftrightarrow>
     finite V \<and> card V < 2 ^ 64 \<and> inj_on idOf V \<and> (\<forall>r \<in> V. idOf r \<noteq> []) \<and> t \<in> V \<and> E \<subseteq> V \<times> V \<and>
     (\<forall>u \<in> V. \<exists>vs. nbrs u = Some vs \<and> set vs \<subseteq> V \<and> (\<forall>v. v \<noteq> u \<longrightarrow> v \<in> set vs \<longleftrightarrow> (u, v) \<in> E))"

definition hops :: "(nref \<times> nref) set \<Rightarrow> nref \<Rightarrow> nref \<Rightarrow> nat" where
  "hops E t r = (LEAST k. (t, r) \<in> E ^^ k)"

lemma hops_path: "(t, r) \<in> E\<^sup>* \<Longrightarrow> (t, r) \<in> E ^^ hops E t r"
  unfolding hops_def by (rule LeastI_ex) (simp add: rtrancl_imp_relpow)

lemma hops_le: "(t, r) \<in> E ^^ k \<Longrightarrow> hops E t r \<le> k"
  unfolding hops_def by (rule Least_le)

lemma hops_self [simp]: "hops E t t = 0"
  using hops_le [where k = 0 and t = t and r = t] by simp

lemma hops_zero: "(t, r) \<in> E\<^sup>* \<Longrightarrow> hops E t r = 0 \<Longrightarrow> r = t"
  using hops_path [of t r] by fastforce

lemma hops_step: "(t, u) \<in> E\<^sup>* \<Longrightarrow> (u, v) \<in> E \<Longrightarrow> hops E t v \<le> Suc (hops E t u)"
  by (rule hops_le) (auto intro: hops_path)

lemma hops_pred:
  assumes "(t, r) \<in> E\<^sup>*" "r \<noteq> t"
  obtains u where "(t, u) \<in> E\<^sup>*" "(u, r) \<in> E" "hops E t r = Suc (hops E t u)"
proof -
  obtain k where k: "hops E t r = Suc k" using assms hops_zero by (cases "hops E t r") auto
  with hops_path [OF assms(1)] obtain u where u: "(t, u) \<in> E ^^ k" "(u, r) \<in> E" by auto
  then have reach: "(t, u) \<in> E\<^sup>*" by (auto intro: relpow_imp_rtrancl)
  have "hops E t r \<le> Suc (hops E t u)" by (rule hops_step [OF reach u(2)])
  with k hops_le [OF u(1)] have "hops E t r = Suc (hops E t u)" by simp
  with reach u(2) show thesis by (rule that)
qed

lemma hops_levels: "(t, r) \<in> E\<^sup>* \<Longrightarrow> k \<le> hops E t r \<Longrightarrow> \<exists>u. (t, u) \<in> E\<^sup>* \<and> hops E t u = k"
proof (induction "hops E t r" arbitrary: r)
  case 0
  then show ?case by auto
next
  case (Suc n)
  show ?case
  proof (cases "k = Suc n")
    case True
    with Suc show ?thesis by auto
  next
    case False
    have "r \<noteq> t" using Suc.hyps(2) by auto
    with Suc.prems(1) obtain u where "(t, u) \<in> E\<^sup>*" "hops E t r = Suc (hops E t u)" by (rule hops_pred)
    with Suc.hyps False Suc.prems(2) show ?thesis by auto
  qed
qed

lemma reach_nodes: "searchGraph idOf nbrs V E t \<Longrightarrow> (t, r) \<in> E\<^sup>* \<Longrightarrow> r \<in> V"
  by (erule rtranclE) (auto simp: searchGraph_def)

lemma hops_bound:
  assumes sg: "searchGraph idOf nbrs V E t" and r: "(t, r) \<in> E\<^sup>*"
  shows "hops E t r < card V"
proof -
  have "{0..hops E t r} \<subseteq> hops E t ` V"
    using hops_levels [OF r] reach_nodes [OF sg] by force
  moreover have "finite V" using sg by (simp add: searchGraph_def)
  ultimately have "card {0..hops E t r} \<le> card V" by (rule surj_card_le [rotated])
  then show ?thesis by simp
qed

lemma unat_unreached: "unat (- 1 :: 64 word) = 2 ^ 64 - 1"
  by (simp add: unsigned_minus_1_eq_mask mask_eq_exp_minus_1)

section \<open>The invariant of the search\<close>

abbreviation unv :: "search \<Rightarrow> nref set" where
  "unv s \<equiv> ran (map_of (unvisited s))"

abbreviation prevOf :: "search \<Rightarrow> Identifier \<Rightarrow> nref option" where
  "prevOf s i \<equiv> map_of (previous s) i"

definition shape :: "(nref \<Rightarrow> Identifier) \<Rightarrow> nref set \<Rightarrow> search \<Rightarrow> bool" where
  "shape idOf V s \<longleftrightarrow>
     (\<forall>i r. map_of (unvisited s) i = Some r \<longrightarrow> r \<in> V \<and> idOf r = i) \<and>
     gm_wf (distance s) \<and> (\<forall>r \<in> V. map_of (distance s) (idOf r) \<noteq> None) \<and>
     (\<forall>i. prevOf s i \<noteq> None \<longrightarrow> i \<in> idOf ` V)"

definition ranked :: "(nref \<Rightarrow> Identifier) \<Rightarrow> nref set \<Rightarrow> search \<Rightarrow> bool" where
  "ranked idOf V s \<longleftrightarrow>
     (\<exists>rank N. (\<forall>r \<in> V - unv s. rank r < (N::nat)) \<and> (\<forall>r \<in> unv s. rank r = N) \<and>
        (\<forall>r \<in> V. \<forall>u. prevOf s (idOf r) = Some u \<longrightarrow> u \<in> V - unv s \<and> rank u < rank r))"

abbreviation dnat :: "(nref \<Rightarrow> Identifier) \<Rightarrow> search \<Rightarrow> nref \<Rightarrow> nat" where
  "dnat idOf s r \<equiv> unat (distOf s (idOf r))"

definition correct :: "(nref \<Rightarrow> Identifier) \<Rightarrow> nref set \<Rightarrow> (nref \<times> nref) set \<Rightarrow> nref \<Rightarrow> search \<Rightarrow> bool" where
  "correct idOf V E t s \<longleftrightarrow>
     (\<forall>r. (t, r) \<in> E\<^sup>* \<longrightarrow> r \<notin> unv s \<longrightarrow> dnat idOf s r = hops E t r) \<and>
     (\<forall>r. (t, r) \<in> E\<^sup>* \<longrightarrow> hops E t r \<le> dnat idOf s r) \<and>
     (\<forall>u v. (t, u) \<in> E\<^sup>* \<longrightarrow> u \<notin> unv s \<longrightarrow> v \<in> unv s \<longrightarrow> (u, v) \<in> E \<longrightarrow> dnat idOf s v \<le> Suc (hops E t u)) \<and>
     dnat idOf s t = 0 \<and>
     (\<forall>r u. (t, r) \<in> E\<^sup>* \<longrightarrow> prevOf s (idOf r) = Some u \<longrightarrow>
        (t, u) \<in> E\<^sup>* \<and> (u, r) \<in> E \<and> dnat idOf s r = Suc (hops E t u)) \<and>
     (\<forall>r. (t, r) \<in> E\<^sup>* \<longrightarrow> r \<noteq> t \<longrightarrow> distOf s (idOf r) \<noteq> - 1 \<longrightarrow> prevOf s (idOf r) \<noteq> None) \<and>
     prevOf s (idOf t) = None \<and>
     (\<forall>r u. r \<in> V \<longrightarrow> (t, r) \<notin> E\<^sup>* \<longrightarrow> prevOf s (idOf r) = Some u \<longrightarrow> (t, u) \<notin> E\<^sup>*) \<and>
     (\<forall>x \<in> unv s. (t, x) \<in> E\<^sup>* \<longrightarrow> (\<forall>r \<in> V. (t, r) \<notin> E\<^sup>* \<longrightarrow> distOf s (idOf r) = - 1))"

lemma correctD:
  assumes "correct idOf V E t s"
  shows "(t, r) \<in> E\<^sup>* \<Longrightarrow> r \<notin> unv s \<Longrightarrow> dnat idOf s r = hops E t r"
    and "(t, r) \<in> E\<^sup>* \<Longrightarrow> hops E t r \<le> dnat idOf s r"
    and "(t, u) \<in> E\<^sup>* \<Longrightarrow> u \<notin> unv s \<Longrightarrow> v \<in> unv s \<Longrightarrow> (u, v) \<in> E \<Longrightarrow> dnat idOf s v \<le> Suc (hops E t u)"
    and "dnat idOf s t = 0"
    and "(t, r) \<in> E\<^sup>* \<Longrightarrow> prevOf s (idOf r) = Some u \<Longrightarrow>
        (t, u) \<in> E\<^sup>* \<and> (u, r) \<in> E \<and> dnat idOf s r = Suc (hops E t u)"
    and "(t, r) \<in> E\<^sup>* \<Longrightarrow> r \<noteq> t \<Longrightarrow> distOf s (idOf r) \<noteq> - 1 \<Longrightarrow> prevOf s (idOf r) \<noteq> None"
    and "prevOf s (idOf t) = None"
    and "r \<in> V \<Longrightarrow> (t, r) \<notin> E\<^sup>* \<Longrightarrow> prevOf s (idOf r) = Some u \<Longrightarrow> (t, u) \<notin> E\<^sup>*"
    and "x \<in> unv s \<Longrightarrow> (t, x) \<in> E\<^sup>* \<Longrightarrow> r \<in> V \<Longrightarrow> (t, r) \<notin> E\<^sup>* \<Longrightarrow> distOf s (idOf r) = - 1"
  using assms unfolding correct_def by blast+

lemma closest_exists:
  assumes sg: "searchGraph idOf nbrs V E t" and sh: "shape idOf V s" and ne: "unvisited s \<noteq> []"
  obtains u where "getNodeMinDistance (unvisited s) (distance s) = Some u" "u \<in> unv s"
    "\<And>v. v \<in> unv s \<Longrightarrow> distOf s (idOf u) \<le> distOf s (idOf v)"
proof -
  obtain j r xs where "unvisited s = (j, r) # xs" using ne by (cases "unvisited s") auto
  then have j: "map_of (unvisited s) j = Some r" by simp
  have key: "map_of (unvisited s) i = Some x \<Longrightarrow> x \<in> V \<and> idOf x = i" for i x
    using sh by (auto simp: shape_def)
  have nokey: "map_of (unvisited s) [] = None"
    using key sg by (cases "map_of (unvisited s) []") (auto simp: searchGraph_def)
  have wf: "gm_wf (distance s)" using sh by (simp add: shape_def)
  have "map_of (distance s) j \<noteq> None" using key [OF j] sh by (auto simp: shape_def)
  from getNodeMinDistance_spec [OF wf nokey j this] obtain u i where
    u: "getNodeMinDistance (unvisited s) (distance s) = Some u" "map_of (unvisited s) i = Some u"
    and least: "\<And>k d. map_of (unvisited s) k \<noteq> None \<Longrightarrow> map_of (distance s) k = Some d \<Longrightarrow> the (map_of (distance s) i) \<le> d"
    and di: "map_of (distance s) i \<noteq> None" by metis
  show thesis
  proof (rule that [OF u(1)])
    show "u \<in> unv s" using u(2) by (rule ranI)
    fix v assume "v \<in> unv s"
    then obtain k where k: "map_of (unvisited s) k = Some v" by (auto simp: ran_def)
    then have "v \<in> V" "idOf v = k" using key by auto
    then obtain d where "map_of (distance s) k = Some d" using sh by (auto simp: shape_def)
    with least [of k d] k key [OF u(2)] di \<open>idOf v = k\<close> show "distOf s (idOf u) \<le> distOf s (idOf v)"
      by (auto simp: distOf_def)
  qed
qed

lemma visit:
  assumes sg: "searchGraph idOf nbrs V E t" and sh: "shape idOf V s" and u: "u \<in> unv s" and vs: "nbrs u = Some vs"
  defines "s' \<equiv> relaxAll idOf u vs (s\<lparr>unvisited := gm_del (idOf u) (unvisited s)\<rparr>)"
  defines "upd r \<equiv> (u, r) \<in> E \<and> r \<in> unv s - {u} \<and> distOf s (idOf u) + 1 < distOf s (idOf r)"
  shows "shape idOf V s'" "unv s' = unv s - {u}" "length (unvisited s') < length (unvisited s)"
    and "\<And>r. r \<in> V \<Longrightarrow> distOf s' (idOf r) = (if upd r then distOf s (idOf u) + 1 else distOf s (idOf r))"
    and "\<And>r. r \<in> V \<Longrightarrow> prevOf s' (idOf r) = (if upd r then Some u else prevOf s (idOf r))"
proof -
  let ?s = "s\<lparr>unvisited := gm_del (idOf u) (unvisited s)\<rparr>"
  have key: "map_of (unvisited s) i = Some x \<Longrightarrow> x \<in> V \<and> idOf x = i" for i x
    using sh by (auto simp: shape_def)
  have mem: "r \<in> unv s \<longleftrightarrow> map_of (unvisited s) (idOf r) = Some r" for r
    using key by (auto simp: ran_def)
  have inj: "r \<in> V \<Longrightarrow> r' \<in> V \<Longrightarrow> idOf r = idOf r' \<longleftrightarrow> r = r'" for r r'
    using sg by (auto simp: searchGraph_def inj_on_def)
  have uV: "u \<in> V" using key u mem by auto
  obtain vs' where "nbrs u = Some vs'" "set vs' \<subseteq> V" "\<forall>v. v \<noteq> u \<longrightarrow> v \<in> set vs' \<longleftrightarrow> (u, v) \<in> E"
    using sg uV unfolding searchGraph_def by blast
  with vs have vsV: "set vs \<subseteq> V" and adj: "\<And>v. v \<noteq> u \<Longrightarrow> v \<in> set vs \<longleftrightarrow> (u, v) \<in> E" by auto
  have gone: "map_of (unvisited ?s) (idOf u) = None" by simp
  have unv': "map_of (unvisited s') = (map_of (unvisited s))(idOf u := None)" by (simp add: s'_def)
  show "unv s' = unv s - {u}"
  proof (rule set_eqI)
    fix x
    have "x \<in> unv s' \<longleftrightarrow> map_of (unvisited s) (idOf x) = Some x \<and> idOf x \<noteq> idOf u"
      unfolding unv' using key by (auto simp: ran_def)
    then show "x \<in> unv s' \<longleftrightarrow> x \<in> unv s - {u}" using mem [of x] inj [of x u] key [of "idOf x" x] uV by auto
  qed
  show "length (unvisited s') < length (unvisited s)"
    using gm_del_shorter [of "unvisited s" "idOf u" u] u mem by (simp add: s'_def)
  have cond: "(\<exists>v \<in> set vs. idOf v = idOf r) \<and> map_of (unvisited ?s) (idOf r) \<noteq> None \<and>
      distOf ?s (idOf u) + 1 < distOf ?s (idOf r) \<longleftrightarrow> upd r" if "r \<in> V" for r
  proof -
    have "(\<exists>v \<in> set vs. idOf v = idOf r) \<longleftrightarrow> r \<in> set vs" using inj [OF _ that] vsV by blast
    moreover have "map_of (unvisited ?s) (idOf r) \<noteq> None \<longleftrightarrow> r \<in> unv s - {u}"
      using inj [OF that uV] mem [of r] key inj that by auto
    ultimately show ?thesis using adj [of r] by (auto simp: upd_def distOf_def)
  qed
  show dist': "distOf s' (idOf r) = (if upd r then distOf s (idOf u) + 1 else distOf s (idOf r))"
    and "prevOf s' (idOf r) = (if upd r then Some u else prevOf s (idOf r))" if "r \<in> V" for r
    using relaxAll_result [of ?s idOf u vs "idOf r", OF gone] cond [OF that]
    by (auto simp: s'_def distOf_def)
  have "prevOf s' i \<noteq> None \<Longrightarrow> i \<in> idOf ` V" for i
    using relaxAll_result [of ?s idOf u vs i, OF gone] sh vsV by (auto simp: s'_def shape_def split: if_splits)
  moreover have "gm_wf (distance s')" using sh relaxAll_wf [of ?s] by (simp add: s'_def shape_def)
  moreover have "map_of (distance s') (idOf r) \<noteq> None" if "r \<in> V" for r
    using sh that relaxAll_dom [of ?s "idOf r"] by (auto simp: s'_def shape_def)
  ultimately show "shape idOf V s'"
    unfolding shape_def unv' using key by (auto split: if_splits)
qed

lemma ranked_visit:
  assumes sh: "shape idOf V s" and u: "u \<in> unv s" and rk: "ranked idOf V s"
    and unv': "unv s' = unv s - {u}"
    and prev': "\<And>r. r \<in> V \<Longrightarrow> prevOf s' (idOf r) = (if upd r then Some u else prevOf s (idOf r))"
    and upd: "\<And>r. upd r \<Longrightarrow> r \<in> unv s - {u}"
  shows "ranked idOf V s'"
proof -
  from rk obtain rank N where rank: "\<forall>r \<in> V - unv s. rank r < (N::nat)" "\<forall>r \<in> unv s. rank r = N"
    "\<forall>r \<in> V. \<forall>u. prevOf s (idOf r) = Some u \<longrightarrow> u \<in> V - unv s \<and> rank u < rank r"
    unfolding ranked_def by blast
  have uV: "u \<in> V" using u sh by (auto simp: shape_def ran_def)
  let ?rank = "\<lambda>r. if r \<in> unv s - {u} then Suc N else rank r"
  have "u' \<in> V - unv s' \<and> ?rank u' < ?rank r" if r: "r \<in> V" "prevOf s' (idOf r) = Some u'" for r u'
  proof (cases "upd r")
    case True
    with r prev' [OF r(1)] upd [OF True] uV u rank(2) show ?thesis by (auto simp: unv')
  next
    case False
    with r prev' rank(3) have "u' \<in> V - unv s" "rank u' < rank r" by auto
    with rank(1,2) show ?thesis by (auto simp: unv' intro: less_SucI)
  qed
  moreover have "\<forall>r \<in> V - unv s'. ?rank r < Suc N" using rank(1,2) u by (auto simp: unv' less_SucI)
  moreover have "\<forall>r \<in> unv s'. ?rank r = Suc N" by (simp add: unv')
  ultimately show ?thesis unfolding ranked_def by (intro exI [of _ ?rank] exI [of _ "Suc N"]) blast
qed

lemma frontier:
  assumes cor: "correct idOf V E t s" and x: "(t, x) \<in> E\<^sup>*" "x \<in> unv s"
  obtains y where "(t, y) \<in> E\<^sup>*" "y \<in> unv s" "hops E t y \<le> hops E t x" "dnat idOf s y = hops E t y"
  using x
proof (induction "hops E t x" arbitrary: x thesis)
  case 0
  then have "x = t" by (auto dest: hops_zero)
  then show ?case using 0 cor by (intro 0(2) [of t]) (auto simp: correct_def)
next
  case (Suc k)
  have "x \<noteq> t" using Suc.hyps(2) by auto
  with Suc.prems(2) obtain u where u: "(t, u) \<in> E\<^sup>*" "(u, x) \<in> E" "hops E t x = Suc (hops E t u)" by (rule hops_pred)
  show ?case
  proof (cases "u \<in> unv s")
    case True
    from u(3) Suc.hyps(2) have k: "k = hops E t u" by simp
    obtain y where "(t, y) \<in> E\<^sup>*" "y \<in> unv s" "hops E t y \<le> hops E t u" "dnat idOf s y = hops E t y"
      using Suc.hyps(1) [OF k _ u(1) True] by metis
    then show ?thesis using u(3) by (intro Suc.prems(1) [of y]) auto
  next
    case False
    have "dnat idOf s x \<le> Suc (hops E t u)" using cor u False Suc.prems(3) unfolding correct_def by blast
    moreover have "hops E t x \<le> dnat idOf s x" using cor Suc.prems(2) unfolding correct_def by blast
    ultimately show ?thesis using u(3) Suc.prems(2,3) by (intro Suc.prems(1) [of x]) auto
  qed
qed

lemma closest_correct:
  assumes sg: "searchGraph idOf nbrs V E t" and cor: "correct idOf V E t s" and sh: "shape idOf V s"
    and u: "u \<in> unv s" "\<And>v. v \<in> unv s \<Longrightarrow> distOf s (idOf u) \<le> distOf s (idOf v)"
    and x: "(t, x) \<in> E\<^sup>*" "x \<in> unv s"
  shows "(t, u) \<in> E\<^sup>* \<and> dnat idOf s u = hops E t u"
proof -
  from frontier [OF cor x] obtain y where y: "(t, y) \<in> E\<^sup>*" "y \<in> unv s" "dnat idOf s y = hops E t y" by metis
  from hops_bound [OF sg y(1)] sg y(3) have "dnat idOf s y < 2 ^ 64 - 1" by (auto simp: searchGraph_def)
  moreover have "dnat idOf s u \<le> dnat idOf s y" using u(2) [OF y(2)] by (simp add: word_le_nat_alt)
  ultimately have "distOf s (idOf u) \<noteq> - 1" by (auto simp: unat_unreached)
  moreover have "u \<in> V" using u(1) sh by (auto simp: shape_def ran_def)
  ultimately have reach: "(t, u) \<in> E\<^sup>*" using cor x unfolding correct_def by blast
  from frontier [OF cor reach u(1)] obtain z where z: "z \<in> unv s" "hops E t z \<le> hops E t u" "dnat idOf s z = hops E t z"
    by metis
  have "dnat idOf s u \<le> dnat idOf s z" using u(2) [OF z(1)] by (simp add: word_le_nat_alt)
  moreover have "hops E t u \<le> dnat idOf s u" using cor reach unfolding correct_def by blast
  ultimately show ?thesis using z reach by simp
qed

lemma unat_next: "unat (x :: 64 word) < 2 ^ 64 - 1 \<Longrightarrow> unat (x + 1) = Suc (unat x)"
  by (simp add: unat_word_ariths)

lemma correct_visit:
  assumes sg: "searchGraph idOf nbrs V E t" and cor: "correct idOf V E t s"
    and u: "u \<in> unv s" "(t, u) \<in> E\<^sup>*" "dnat idOf s u = hops E t u"
    and unv': "unv s' = unv s - {u}"
  defines "upd r \<equiv> (u, r) \<in> E \<and> r \<in> unv s - {u} \<and> distOf s (idOf u) + 1 < distOf s (idOf r)"
  assumes dist': "\<And>r. r \<in> V \<Longrightarrow> distOf s' (idOf r) = (if upd r then distOf s (idOf u) + 1 else distOf s (idOf r))"
    and prev': "\<And>r. r \<in> V \<Longrightarrow> prevOf s' (idOf r) = (if upd r then Some u else prevOf s (idOf r))"
  shows "correct idOf V E t s'"
proof -
  let ?alt = "distOf s (idOf u) + 1"
  have "hops E t u < 2 ^ 64 - 1" using hops_bound [OF sg u(2)] sg by (auto simp: searchGraph_def)
  then have alt: "unat ?alt = Suc (hops E t u)" using unat_next [of "distOf s (idOf u)"] u(3) by simp
  note inV = reach_nodes [OF sg]
  have tV: "t \<in> V" using sg by (simp add: searchGraph_def)
  have dn: "dnat idOf s' r = (if upd r then Suc (hops E t u) else dnat idOf s r)" if "r \<in> V" for r
    using dist' [OF that] alt by simp
  have upd_reach: "upd r \<Longrightarrow> (t, r) \<in> E\<^sup>*" for r using u(2) by (auto simp: upd_def)
  have upd_lt: "upd r \<Longrightarrow> Suc (hops E t u) < dnat idOf s r" for r
    using alt by (auto simp: upd_def word_less_nat_alt)
  have not_upd: "(u, r) \<in> E \<Longrightarrow> r \<in> unv s - {u} \<Longrightarrow> \<not> upd r \<Longrightarrow> dnat idOf s r \<le> Suc (hops E t u)" for r
    using alt by (auto simp: upd_def word_less_nat_alt)
  have t0: "\<not> upd t" using upd_lt [of t] cor by (auto simp: correct_def)
  note c = correctD [OF cor]
  show ?thesis
    unfolding correct_def
  proof (intro conjI allI impI ballI)
    fix r assume r: "(t, r) \<in> E\<^sup>*" "r \<notin> unv s'"
    then have "\<not> upd r" by (auto simp: upd_def unv')
    then show "dnat idOf s' r = hops E t r" using r c(1) [of r] u(3) dn [OF inV [OF r(1)]] by (cases "r = u") (auto simp: unv')
  next
    fix r assume r: "(t, r) \<in> E\<^sup>*"
    have "upd r \<Longrightarrow> hops E t r \<le> Suc (hops E t u)" using hops_step [OF u(2)] by (auto simp: upd_def)
    then show "hops E t r \<le> dnat idOf s' r" using c(2) [OF r] dn [OF inV [OF r]] by simp
  next
    fix x v assume x: "(t, x) \<in> E\<^sup>*" "x \<notin> unv s'" "v \<in> unv s'" "(x, v) \<in> E"
    have vV: "v \<in> V" using x(4) sg by (auto simp: searchGraph_def)
    show "dnat idOf s' v \<le> Suc (hops E t x)"
    proof (cases "x = u")
      case True
      then show ?thesis using dn [OF vV] not_upd [of v] x by (auto simp: unv')
    next
      case False
      then have "dnat idOf s v \<le> Suc (hops E t x)" using c(3) [of x v] x unv' by simp
      then show ?thesis using dn [OF vV] upd_lt [of v] by auto
    qed
  next
    show "dnat idOf s' t = 0" using dn [OF tV] t0 c(4) by simp
  next
    fix r x assume r: "(t, r) \<in> E\<^sup>*" and p: "prevOf s' (idOf r) = Some x"
    show "(t, x) \<in> E\<^sup>*" "(x, r) \<in> E" "dnat idOf s' r = Suc (hops E t x)"
      using prev' [OF inV [OF r]] dn [OF inV [OF r]] p c(5) [OF r] u(2) by (auto simp: upd_def split: if_splits)
  next
    fix r assume r: "(t, r) \<in> E\<^sup>*" "r \<noteq> t" "distOf s' (idOf r) \<noteq> - 1"
    then show "prevOf s' (idOf r) \<noteq> None"
      using prev' [OF inV [OF r(1)]] dist' [OF inV [OF r(1)]] c(6) [of r] by (auto split: if_splits)
  next
    show "prevOf s' (idOf t) = None" using prev' [OF tV] t0 c(7) by simp
  next
    fix r x assume "r \<in> V" "(t, r) \<notin> E\<^sup>*" "prevOf s' (idOf r) = Some x"
    then show "(t, x) \<notin> E\<^sup>*" using prev' [of r] upd_reach [of r] c(8) [of r x] by (auto split: if_splits)
  next
    fix x r assume "x \<in> unv s'" "(t, x) \<in> E\<^sup>*" "r \<in> V" "(t, r) \<notin> E\<^sup>*"
    then show "distOf s' (idOf r) = - 1" using dist' [of r] upd_reach [of r] c(9) [of x r] unv' by auto
  qed
qed

lemma correct_visit_far:
  assumes sg: "searchGraph idOf nbrs V E t" and cor: "correct idOf V E t s"
    and u: "u \<in> unv s" and far: "\<And>x. x \<in> unv s \<Longrightarrow> (t, x) \<notin> E\<^sup>*"
    and unv': "unv s' = unv s - {u}"
    and dist': "\<And>r. r \<in> V \<Longrightarrow> distOf s' (idOf r) = (if upd r then alt else distOf s (idOf r))"
    and prev': "\<And>r. r \<in> V \<Longrightarrow> prevOf s' (idOf r) = (if upd r then Some u else prevOf s (idOf r))"
    and upd: "\<And>r. upd r \<Longrightarrow> r \<in> unv s - {u}"
  shows "correct idOf V E t s'"
proof -
  have same: "distOf s' (idOf r) = distOf s (idOf r)" "prevOf s' (idOf r) = prevOf s (idOf r)" if "(t, r) \<in> E\<^sup>*" for r
    using dist' prev' reach_nodes [OF sg that] upd [of r] far [of r] that by auto
  have t: "(t, t) \<in> E\<^sup>*" by simp
  note c = correctD [OF cor]
  show ?thesis
    unfolding correct_def
  proof (intro conjI allI impI ballI)
    fix r assume r: "(t, r) \<in> E\<^sup>*"
    then have "r \<notin> unv s" using far by blast
    then show "dnat idOf s' r = hops E t r" using same(1) [OF r] c(1) [OF r] by simp
    show "hops E t r \<le> dnat idOf s' r" using same(1) [OF r] c(2) [OF r] by simp
    show "prevOf s' (idOf r) \<noteq> None" if "r \<noteq> t" "distOf s' (idOf r) \<noteq> - 1"
      using same [OF r] c(6) [OF r] that by simp
    fix x
    show "dnat idOf s' x \<le> Suc (hops E t r)" if "x \<in> unv s'" "(r, x) \<in> E"
      using far [of x] rtrancl_into_rtrancl [OF r that(2)] that(1) unv' by simp
    show "(t, x) \<in> E\<^sup>*" "(x, r) \<in> E" "dnat idOf s' r = Suc (hops E t x)" if "prevOf s' (idOf r) = Some x"
      using same [OF r] c(5) [OF r, of x] that by auto
  next
    show "dnat idOf s' t = 0" "prevOf s' (idOf t) = None" using same [OF t] c(4,7) by simp_all
  next
    fix r x assume "r \<in> V" "(t, r) \<notin> E\<^sup>*" "prevOf s' (idOf r) = Some x"
    then show "(t, x) \<notin> E\<^sup>*" using prev' [of r] far [OF u] c(8) [of r x] by (auto split: if_splits)
  next
    fix x r assume "x \<in> unv s'" "(t, x) \<in> E\<^sup>*"
    then show "distOf s' (idOf r) = - 1" using far [of x] unv' by simp
  qed
qed

section \<open>The search returns\<close>

lemma dijkstra_returns:
  assumes sg: "searchGraph idOf nbrs V E t"
    and "shape idOf V s" "correct idOf V E t s" "ranked idOf V s"
  shows "\<exists>s'. dijkstra idOf nbrs s = Some s' \<and> unvisited s' = [] \<and>
    shape idOf V s' \<and> correct idOf V E t s' \<and> ranked idOf V s'"
  using assms(2-4)
proof (induction "length (unvisited s)" arbitrary: s rule: less_induct)
  case less
  show ?case
  proof (cases "unvisited s = []")
    case True
    with less.prems show ?thesis by (subst dijkstra.simps) simp
  next
    case False
    from closest_exists [OF sg less.prems(1) False] obtain u where
      u: "getNodeMinDistance (unvisited s) (distance s) = Some u" "u \<in> unv s"
      and least: "\<And>v. v \<in> unv s \<Longrightarrow> distOf s (idOf u) \<le> distOf s (idOf v)" by metis
    have uV: "u \<in> V" using u(2) less.prems(1) by (auto simp: shape_def ran_def)
    then obtain vs where vs: "nbrs u = Some vs" using sg unfolding searchGraph_def by blast
    define s' where "s' = relaxAll idOf u vs (s\<lparr>unvisited := gm_del (idOf u) (unvisited s)\<rparr>)"
    define upd where "upd r \<longleftrightarrow> (u, r) \<in> E \<and> r \<in> unv s - {u} \<and> distOf s (idOf u) + 1 < distOf s (idOf r)" for r
    note v = visit [OF sg less.prems(1) u(2) vs, folded s'_def upd_def]
    have rk: "ranked idOf V s'"
      by (rule ranked_visit [OF less.prems(1) u(2) less.prems(3) v(2) v(5)]) (auto simp: upd_def)
    have cor: "correct idOf V E t s'"
    proof (cases "\<exists>x \<in> unv s. (t, x) \<in> E\<^sup>*")
      case True
      then obtain x where "(t, x) \<in> E\<^sup>*" "x \<in> unv s" by blast
      from closest_correct [OF sg less.prems(2,1) u(2) least this] show ?thesis
        using correct_visit [OF sg less.prems(2) u(2) _ _ v(2), folded upd_def] v(4,5) by blast
    next
      case False
      then show ?thesis
        by (intro correct_visit_far [OF sg less.prems(2) u(2) _ v(2) v(4,5)]) (auto simp: upd_def)
    qed
    have "dijkstra idOf nbrs s = dijkstra idOf nbrs s'"
      using False u(1) vs by (subst dijkstra.simps) (simp add: s'_def)
    with less.hyps [OF v(3) v(1) cor rk] show ?thesis by simp
  qed
qed

lemma initial_distance:
  "map_of (fold (\<lambda>v d. gm_set (idOf v) (- 1 :: 64 word) d) vs m) i =
     (if i \<in> idOf ` set vs then Some (- 1) else map_of m i)"
  by (induction vs arbitrary: m) auto

lemma initial_wf: "gm_wf m \<Longrightarrow> gm_wf (fold (\<lambda>v d. gm_set (idOf v) x d) vs m)"
  by (induction vs arbitrary: m) auto

lemma initial_ok:
  assumes sg: "searchGraph idOf nbrs V E t" and nm: "\<And>i r. map_of nm i = Some r \<longleftrightarrow> r \<in> V \<and> idOf r = i" "gm_wf nm"
  defines "s \<equiv> initialSearch idOf nm t"
  shows "shape idOf V s" "correct idOf V E t s" "ranked idOf V s"
proof -
  have unv: "unv s = V" using nm by (auto simp: s_def initialSearch_def ran_def)
  have "snd ` set nm = V" using gm_values [OF nm(2)] unv by (simp add: s_def initialSearch_def)
  then have vals: "set (map snd nm) = V" by simp
  have tV: "t \<in> V" and inj: "inj_on idOf V" using sg by (simp_all add: searchGraph_def)
  have dist: "distOf s (idOf r) = (if r = t then 0 else - 1)" if "r \<in> V" for r
    using that tV inj unfolding s_def initialSearch_def distOf_def
    by (auto simp: initial_distance vals inj_on_def simp del: set_map)
  show "shape idOf V s"
    unfolding shape_def s_def initialSearch_def
    by (auto simp: nm(1) initial_distance vals gm_wf_set initial_wf simp del: set_map)
  show "ranked idOf V s"
    unfolding ranked_def unv by (intro exI [of _ "\<lambda>_. 0"] exI [of _ 0]) (simp add: s_def initialSearch_def)
  have prev: "prevOf s i = None" for i by (simp add: s_def initialSearch_def)
  have "hops E t r \<le> dnat idOf s r" if "(t, r) \<in> E\<^sup>*" for r
    using dist [OF reach_nodes [OF sg that]] hops_bound [OF sg that] sg
    by (auto simp: searchGraph_def unat_unreached)
  then show "correct idOf V E t s"
    unfolding correct_def unv prev using dist tV reach_nodes [OF sg] by auto
qed

section \<open>The walk back\<close>

text \<open>A walk along \<open>E\<close> backwards, from its first node to its last.\<close>

fun walk :: "(nref \<times> nref) set \<Rightarrow> nref list \<Rightarrow> bool" where
  "walk E [] = False"
| "walk E [x] = True"
| "walk E (x # y # xs) = ((y, x) \<in> E \<and> walk E (y # xs))"

lemma followPath_step:
  "map_of p (idOf n) = None \<Longrightarrow> followPath idOf p n acc = Some (acc @ [n])"
  "map_of p (idOf n) = Some u \<Longrightarrow> idOf n \<noteq> idOf u \<Longrightarrow> followPath idOf p n acc = followPath idOf p u (acc @ [n])"
  by (subst followPath.simps, simp)+

text \<open>\<open>n\<close> is any pointer to a node with the identifier of \<open>r\<close>.\<close>

lemma follow_reachable:
  assumes sg: "searchGraph idOf nbrs V E t" and s: "unvisited s = []" "correct idOf V E t s" and r: "(t, r) \<in> E\<^sup>*" "idOf n = idOf r"
  shows "\<exists>xs. (\<forall>acc. followPath idOf (previous s) n acc = Some (acc @ n # xs)) \<and>
    walk E (r # xs) \<and> last (r # xs) = t \<and> length xs = hops E t r"
  using r
proof (induction "hops E t r" arbitrary: r n)
  case 0
  then have "r = t" by (auto dest: hops_zero)
  with 0 correctD(7) [OF s(2)] show ?case by (auto simp: followPath_step intro!: exI [of _ "[]"])
next
  case (Suc k)
  have rt: "r \<noteq> t" using Suc.hyps(2) by auto
  have "dnat idOf s r = hops E t r" using correctD(1) [OF s(2) Suc.prems(1)] s(1) by simp
  then have "distOf s (idOf r) \<noteq> - 1"
    using hops_bound [OF sg Suc.prems(1)] sg by (auto simp: searchGraph_def unat_unreached)
  with correctD(6) [OF s(2) Suc.prems(1) rt] obtain u where p: "prevOf s (idOf r) = Some u" by auto
  from correctD(5) [OF s(2) Suc.prems(1) p] \<open>dnat idOf s r = _\<close> Suc.hyps(2)
  have u: "(t, u) \<in> E\<^sup>*" "(u, r) \<in> E" "k = hops E t u" by auto
  have "u \<noteq> r" using u(3) Suc.hyps(2) by auto
  then have ne: "idOf r \<noteq> idOf u"
    using sg reach_nodes [OF sg u(1)] reach_nodes [OF sg Suc.prems(1)] by (auto simp: searchGraph_def inj_on_def)
  from Suc.hyps(1) [OF u(3) u(1) refl] obtain xs where
    "\<forall>acc. followPath idOf (previous s) u acc = Some (acc @ u # xs)" "walk E (u # xs)" "last (u # xs) = t" "length xs = hops E t u"
    by blast
  then show ?case using p ne u Suc.hyps(2) Suc.prems(2) by (intro exI [of _ "u # xs"]) (simp add: followPath_step)
qed

lemma follow_unreachable:
  assumes sg: "searchGraph idOf nbrs V E t" and s: "correct idOf V E t s" "ranked idOf V s"
    and r: "r \<in> V" "(t, r) \<notin> E\<^sup>*" "idOf n = idOf r"
  shows "\<exists>xs. (\<forall>acc. followPath idOf (previous s) n acc = Some (acc @ n # xs)) \<and> idOf (last (n # xs)) \<noteq> idOf t"
proof -
  from s(2) obtain rank :: "nref \<Rightarrow> nat" where
    rank: "\<And>r u. r \<in> V \<Longrightarrow> prevOf s (idOf r) = Some u \<Longrightarrow> u \<in> V \<and> rank u < rank r"
    unfolding ranked_def by blast
  have inj: "x \<in> V \<Longrightarrow> y \<in> V \<Longrightarrow> idOf x = idOf y \<Longrightarrow> x = y" for x y
    using sg by (auto simp: searchGraph_def inj_on_def)
  have tV: "t \<in> V" using sg by (simp add: searchGraph_def)
  show ?thesis using r
  proof (induction "rank r" arbitrary: r n rule: less_induct)
    case less
    show ?case
    proof (cases "prevOf s (idOf r)")
      case None
      have "r \<noteq> t" using less.prems(2) by auto
      then have "idOf r \<noteq> idOf t" using inj tV less.prems(1) by blast
      with None less.prems(3) show ?thesis by (auto simp: followPath_step intro!: exI [of _ "[]"])
    next
      case (Some u)
      have u: "u \<in> V" "rank u < rank r" using rank [OF less.prems(1) Some] by auto
      have far: "(t, u) \<notin> E\<^sup>*" by (rule correctD(8) [OF s(1) less.prems(1,2) Some])
      have "idOf r \<noteq> idOf u" using inj [OF less.prems(1) u(1)] u(2) by auto
      moreover obtain xs where "\<forall>acc. followPath idOf (previous s) u acc = Some (acc @ u # xs)"
        "idOf (last (u # xs)) \<noteq> idOf t" using less.hyps [OF u(2,1) far refl] by blast
      ultimately show ?thesis
        using Some less.prems(3) by (intro exI [of _ "u # xs"]) (simp add: followPath_step)
    qed
  qed
qed

section \<open>Shortest paths of a graph\<close>

text \<open>Two nodes of the graph are linked by an edge that matches \<open>em\<close>, in either direction.\<close>

definition linked ::
  "('b \<Rightarrow> Identifier \<rightharpoonup> nref) \<Rightarrow> ('b \<Rightarrow> Identifier \<rightharpoonup> eref) \<Rightarrow> 'b Graph \<Rightarrow> ElementMatcher option \<Rightarrow> (nref \<times> nref) set" where
  "linked nrefs erefs g em =
     {(u, v). u \<in> ran (nrefs (g_backend g)) \<and> v \<in> ran (nrefs (g_backend g)) \<and>
        (\<exists>e \<in> ran (erefs (g_backend g)).
           Edge_MatchMetadata (h_env (g_world g)) em (h_edge (g_world g) e) \<and>
           {Parent (h_edge (g_world g) e), Child (h_edge (g_world g) e)} =
             {ID (h_node (g_world g) u), ID (h_node (g_world g) v)})}"

lemma collectNodes_Some: "(\<And>e. e \<in> set es \<Longrightarrow> f e = Some (h e)) \<Longrightarrow> collectNodes f es = Some (concat (map h es))"
proof -
  assume h: "\<And>e. e \<in> set es \<Longrightarrow> f e = Some (h e)"
  then have "those (map f es) = Some (map h es)" by (induction es) auto
  then show ?thesis by (simp add: collectNodes_def)
qed

lemma fold_gm_set:
  assumes "inj_on idOf (set ns)"
  shows "map_of (fold (\<lambda>n m. gm_set (idOf n) n m) ns m) i = Some r \<longleftrightarrow>
    (r \<in> set ns \<and> idOf r = i) \<or> (i \<notin> idOf ` set ns \<and> map_of m i = Some r)"
  using assms by (induction ns arbitrary: m) (auto simp: inj_on_def)

lemma fold_gm_wf: "gm_wf m \<Longrightarrow> gm_wf (fold (\<lambda>n m. gm_set (idOf n) n m) ns m)"
  by (induction ns arbitrary: m) auto

context backend_laws
begin

lemma ends_live:
  assumes ok: "graph_ok binv nrefs erefs g" and e: "e \<in> ran (erefs (g_backend g))"
  obtains p c where "nrefs (g_backend g) (Parent (h_edge (g_world g) e)) = Some p"
    "nrefs (g_backend g) (Child (h_edge (g_world g) e)) = Some c"
    "\<And>pm cm. Graph_GetEdgeNodes B g e pm cm =
      Some (if Node_MatchMetadata (h_env (g_world g)) pm (h_node (g_world g) p) \<and>
               Node_MatchMetadata (h_env (g_world g)) cm (h_node (g_world g) c) then ([p], [c]) else ([], []))"
proof -
  have inv: "binv (g_world g) (g_backend g)" and live: "ctxTimeSlice (g_context g) = None"
    using ok by (auto simp: graph_ok_def)
  from e obtain j where "erefs (g_backend g) j = Some e" by (auto simp: ran_def)
  from edge_ends [OF inv this] obtain p c where
    "nrefs (g_backend g) (Parent (h_edge (g_world g) e)) = Some p"
    "nrefs (g_backend g) (Child (h_edge (g_world g) e)) = Some c" by auto
  with that [of p c] show thesis by (simp add: Graph_GetEdgeNodes_def get_edge_nodes [OF live])
qed

lemma GetNodeEdges_live:
  assumes ok: "graph_ok binv nrefs erefs g"
  shows "set (Graph_GetNodeEdges B g r em) = {e \<in> ran (erefs (g_backend g)).
      incident (g_world g) e (ID (h_node (g_world g) r)) \<and> Edge_MatchMetadata (h_env (g_world g)) em (h_edge (g_world g) e)}"
  using ok get_node_edges [of "g_world g" "g_backend g" "g_context g" r em]
  by (auto simp: graph_ok_def Graph_GetNodeEdges_def)

lemma getNeighborNodes_live:
  assumes ok: "graph_ok binv nrefs erefs g" and u: "u \<in> ran (nrefs (g_backend g))"
  shows "\<exists>vs. getNeighborNodes B g u em = Some vs \<and> set vs \<subseteq> ran (nrefs (g_backend g)) \<and>
    (\<forall>v. v \<noteq> u \<longrightarrow> v \<in> set vs \<longleftrightarrow> (u, v) \<in> linked nrefs erefs g em)"
proof -
  let ?w = "g_world g" and ?b = "g_backend g" and ?es = "Graph_GetNodeEdges B g u em"
  let ?id = "\<lambda>r. ID (h_node (g_world g) r)" and ?x = "h_edge (g_world g)"
  define ends where "ends e = [the (nrefs ?b (Parent (?x e))), the (nrefs ?b (Child (?x e)))]" for e
  have stored: "r \<in> ran (nrefs ?b) \<longleftrightarrow> nrefs ?b (?id r) = Some r" for r
    using stored_node_id [OF ok] by (auto simp: ran_def)
  have ends: "map_option (\<lambda>(parents, children). parents @ children) (Graph_GetEdgeNodes B g e None None) = Some (ends e) \<and>
      set (ends e) \<subseteq> ran (nrefs ?b) \<and> (\<forall>v \<in> ran (nrefs ?b). v \<in> set (ends e) \<longleftrightarrow> ?id v = Parent (?x e) \<or> ?id v = Child (?x e))"
    if "e \<in> ran (erefs ?b)" for e
  proof -
    from ends_live [OF ok that] obtain p c where pc: "nrefs ?b (Parent (?x e)) = Some p" "nrefs ?b (Child (?x e)) = Some c"
      and "\<And>pm cm. Graph_GetEdgeNodes B g e pm cm =
      Some (if Node_MatchMetadata (h_env ?w) pm (h_node ?w p) \<and>
               Node_MatchMetadata (h_env ?w) cm (h_node ?w c) then ([p], [c]) else ([], []))" by metis
    then have "Graph_GetEdgeNodes B g e None None = Some ([p], [c])" by (simp add: Node_MatchMetadata_def)
    then show ?thesis
      using pc stored_node_id [OF ok pc(1)] stored_node_id [OF ok pc(2)] stored by (auto simp: ends_def ranI)
  qed
  have es: "e \<in> set ?es \<longleftrightarrow> e \<in> ran (erefs ?b) \<and> (Parent (?x e) = ?id u \<or> Child (?x e) = ?id u) \<and>
      Edge_MatchMetadata (h_env ?w) em (?x e)" for e
    using GetNodeEdges_live [OF ok, of u em] by (auto simp: incident_def)
  have "getNeighborNodes B g u em = Some (concat (map ends ?es))"
    unfolding getNeighborNodes_def by (rule collectNodes_Some) (use ends es in blast)
  moreover have "set (concat (map ends ?es)) \<subseteq> ran (nrefs ?b)" using ends es by fastforce
  moreover have "v \<in> set (concat (map ends ?es)) \<longleftrightarrow> (u, v) \<in> linked nrefs erefs g em" if "v \<noteq> u" for v
  proof (cases "v \<in> ran (nrefs ?b)")
    case True
    then have "?id v \<noteq> ?id u" using stored u that by (metis option.inject)
    then have "{Parent (?x e), Child (?x e)} = {?id u, ?id v} \<longleftrightarrow>
        (Parent (?x e) = ?id u \<or> Child (?x e) = ?id u) \<and> (?id v = Parent (?x e) \<or> ?id v = Child (?x e))" for e
      by (auto simp: doubleton_eq_iff)
    then show ?thesis using True u ends es by (auto simp: linked_def)
  next
    case False
    then show ?thesis using ends es by (fastforce simp: linked_def)
  qed
  ultimately show ?thesis by blast
qed

lemma GetNodes_live:
  assumes ok: "graph_ok binv nrefs erefs g"
  shows "set (be_GetNodes B (g_world g) (g_backend g) (g_context g) None) = ran (nrefs (g_backend g))"
  using ok get_nodes [of "g_world g" "g_backend g" "g_context g" None]
  by (auto simp: graph_ok_def Node_MatchMetadata_def)

lemma ids_inj: "graph_ok binv nrefs erefs g \<Longrightarrow> inj_on (\<lambda>r. ID (h_node (g_world g) r)) (ran (nrefs (g_backend g)))"
proof (rule inj_onI)
  fix x y
  assume ok: "graph_ok binv nrefs erefs g" and "x \<in> ran (nrefs (g_backend g))" "y \<in> ran (nrefs (g_backend g))"
    and eq: "ID (h_node (g_world g) x) = ID (h_node (g_world g) y)"
  then obtain i j where ij: "nrefs (g_backend g) i = Some x" "nrefs (g_backend g) j = Some y" by (auto simp: ran_def)
  with stored_node_id [OF ok ij(1)] stored_node_id [OF ok ij(2)] eq show "x = y" by simp
qed

lemma GetNodesMap_live:
  assumes ok: "graph_ok binv nrefs erefs g"
  shows "map_of (GetNodesMap B g (g_context g)) i = Some r \<longleftrightarrow>
      r \<in> ran (nrefs (g_backend g)) \<and> ID (h_node (g_world g) r) = i"
    and "gm_wf (GetNodesMap B g (g_context g))"
  unfolding GetNodesMap_def
  using fold_gm_set [of "\<lambda>r. ID (h_node (g_world g) r)" "be_GetNodes B (g_world g) (g_backend g) (g_context g) None"]
    ids_inj [OF ok] by (simp_all add: GetNodes_live [OF ok] fold_gm_wf)

lemma searchGraph_live:
  assumes ok: "graph_ok binv nrefs erefs g" and "nrefs (g_backend g) [] = None"
    and "card (ran (nrefs (g_backend g))) < 2 ^ 64" and t: "t \<in> ran (nrefs (g_backend g))"
  shows "searchGraph (\<lambda>r. ID (h_node (g_world g) r)) (\<lambda>u. getNeighborNodes B g u em)
    (ran (nrefs (g_backend g))) (linked nrefs erefs g em) t"
proof -
  have "finite (ran (nrefs (g_backend g)))" unfolding GetNodes_live [OF ok, symmetric] by simp
  moreover have "ID (h_node (g_world g) r) \<noteq> []" if "r \<in> ran (nrefs (g_backend g))" for r
    using that assms(2) stored_node_id [OF ok] by (auto simp: ran_def)
  ultimately show ?thesis
    using assms ids_inj [OF ok] getNeighborNodes_live [OF ok] unfolding searchGraph_def
    by (auto simp: linked_def)
qed

lemma findNode_Some:
  assumes ok: "graph_ok binv nrefs erefs g"
    and t: "findNodeMatchMetadata (g_world g) (GetNodesMap B g (g_context g)) m = Some t"
  shows "t \<in> ran (nrefs (g_backend g))" "Node_MatchMetadata (h_env (g_world g)) m (h_node (g_world g) t)"
proof -
  from t have "t \<in> snd ` set (GetNodesMap B g (g_context g))"
    and "Node_MatchMetadata (h_env (g_world g)) m (h_node (g_world g) t)"
    by (auto simp: findNodeMatchMetadata_def find_Some_iff)
  then show "t \<in> ran (nrefs (g_backend g))" "Node_MatchMetadata (h_env (g_world g)) m (h_node (g_world g) t)"
    using GetNodesMap_live [OF ok] by (auto simp: gm_lookup_iff [symmetric])
qed

lemma LookupShortestPath_live:
  assumes ok: "graph_ok binv nrefs erefs g" and "nrefs (g_backend g) [] = None"
    and "card (ran (nrefs (g_backend g))) < 2 ^ 64"
    and t: "findNodeMatchMetadata (g_world g) (GetNodesMap B g (g_context g)) m = Some t"
    and E: "E = linked nrefs erefs g em"
  shows "\<exists>p. LookupShortestPath B g n m em = Some p \<and>
    (\<forall>r. nrefs (g_backend g) (ID (h_node (g_world g) n)) = Some r \<and> (t, r) \<in> E\<^sup>* \<longrightarrow>
       (\<exists>xs. p = n # xs \<and> walk E (r # xs) \<and> last (r # xs) = t \<and> length xs = hops E t r)) \<and>
    ((\<forall>r. nrefs (g_backend g) (ID (h_node (g_world g) n)) = Some r \<longrightarrow> (t, r) \<notin> E\<^sup>*) \<longrightarrow> p = [])"
proof -
  let ?id = "\<lambda>r. ID (h_node (g_world g) r)" and ?V = "ran (nrefs (g_backend g))"
  let ?s = "initialSearch ?id (GetNodesMap B g (g_context g)) t"
  have sg: "searchGraph ?id (\<lambda>u. getNeighborNodes B g u em) ?V E t"
    unfolding E by (rule searchGraph_live [OF ok assms(2,3) findNode_Some(1) [OF ok t]])
  from dijkstra_returns [OF sg initial_ok [OF sg GetNodesMap_live [OF ok]]] obtain s where
    s: "dijkstra ?id (\<lambda>u. getNeighborNodes B g u em) ?s = Some s" "unvisited s = []"
      "shape ?id ?V s" "correct ?id ?V E t s" "ranked ?id ?V s" by blast
  have look: "LookupShortestPath B g n m em =
      Option.bind (followPath ?id (previous s) n []) (\<lambda>p. Some (if ?id (last p) \<noteq> ?id t then [] else p))"
    by (simp add: LookupShortestPath_def Let_def t s(1))
  show ?thesis
  proof (cases "nrefs (g_backend g) (?id n)")
    case None
    have "prevOf s (?id n) = None"
      using s(3) None stored_node_id [OF ok] by (auto simp: shape_def ran_def)
    moreover have "?id n \<noteq> ?id t" using None findNode_Some(1) [OF ok t] stored_node_id [OF ok] by (auto simp: ran_def)
    ultimately show ?thesis using None by (simp add: look followPath_step)
  next
    case (Some r)
    then have r: "r \<in> ?V" "?id n = ?id r" using stored_node_id [OF ok Some] by (auto simp: ranI)
    show ?thesis
    proof (cases "(t, r) \<in> E\<^sup>*")
      case True
      from follow_reachable [OF sg s(2,4) True r(2)] obtain xs where
        xs: "\<forall>acc. followPath ?id (previous s) n acc = Some (acc @ n # xs)" "walk E (r # xs)" "last (r # xs) = t"
          "length xs = hops E t r" by blast
      moreover have "?id (last (n # xs)) = ?id t" using xs(3) r(2) by (cases xs) auto
      ultimately show ?thesis using Some True by (simp add: look)
    next
      case False
      from follow_unreachable [OF sg s(4,5) r(1) False r(2)] obtain xs where
        "\<forall>acc. followPath ?id (previous s) n acc = Some (acc @ n # xs)" "?id (last (n # xs)) \<noteq> ?id t" by blast
      then show ?thesis using Some False by (simp add: look)
    qed
  qed
qed

end

end
