(* ===== verification/Graph_Queries.thy ===== *)
theory Graph_Queries
  imports ShortestPath
begin

text \<open>
  What the queries of a well-formed live graph answer: the neighbourhood look-ups never panic and
  return exactly the nodes the edges lead to; the difference of two graphs is the difference of
  their identifiers.
\<close>

lemma MatchMetadata_None [simp]: "Node_MatchMetadata env None n" "Edge_MatchMetadata env None e"
  by (simp_all add: Node_MatchMetadata_def Edge_MatchMetadata_def)

lemma ids_of_new:
  "(\<lambda>r. ID (h r)) ` set (filter (\<lambda>n. m (ID (h n)) = None) xs) = (\<lambda>r. ID (h r)) ` set xs - dom m"
  by (auto simp: domIff)

context backend_laws
begin

lemma LookupChildren_live:
  assumes ok: "graph_ok binv nrefs erefs g"
  shows "\<exists>ns. LookupChildren B g n f em = Some ns \<and>
    set ns = {c \<in> ran (nrefs (g_backend g)). Node_MatchMetadata (h_env (g_world g)) f (h_node (g_world g) c) \<and>
      (\<exists>e \<in> ran (erefs (g_backend g)). Edge_MatchMetadata (h_env (g_world g)) em (h_edge (g_world g) e) \<and>
         Parent (h_edge (g_world g) e) = ID (h_node (g_world g) n) \<and>
         Child (h_edge (g_world g) e) = ID (h_node (g_world g) c))}"
proof -
  let ?w = "g_world g" and ?b = "g_backend g" and ?x = "h_edge (g_world g)" and ?id = "\<lambda>r. ID (h_node (g_world g) r)"
  let ?m = "\<lambda>f c. Node_MatchMetadata (h_env ?w) f (h_node ?w c)"
  define kids where "kids e = (if Parent (?x e) = ?id n then filter (?m f) [the (nrefs ?b (Child (?x e)))] else [])" for e
  have step: "(if Parent (?x e) = ?id n then map_option snd (Graph_GetEdgeNodes B g e None f) else Some []) = Some (kids e) \<and>
      (\<forall>c. c \<in> set (kids e) \<longleftrightarrow> Parent (?x e) = ?id n \<and> c \<in> ran (nrefs ?b) \<and> ?m f c \<and> Child (?x e) = ?id c)"
    if "e \<in> ran (erefs ?b)" for e
  proof -
    from ends_live [OF ok that] obtain p c where pc: "nrefs ?b (Child (?x e)) = Some c"
      and nodes: "\<And>pm cm. Graph_GetEdgeNodes B g e pm cm = Some (if ?m pm p \<and> ?m cm c then ([p], [c]) else ([], []))"
      by metis
    have uniq: "c' \<in> ran (nrefs ?b) \<and> Child (?x e) = ?id c' \<longleftrightarrow> c' = c" for c'
      using pc stored_node_id [OF ok pc] ids_inj [OF ok] unfolding inj_on_def by (metis ranI)
    have "c' \<in> set (kids e) \<longleftrightarrow> Parent (?x e) = ?id n \<and> (c' \<in> ran (nrefs ?b) \<and> Child (?x e) = ?id c') \<and> ?m f c'" for c'
      unfolding uniq by (auto simp: kids_def pc)
    then show ?thesis by (simp add: kids_def pc nodes conj_ac)
  qed
  have es: "e \<in> set (Graph_GetNodeEdges B g n em) \<longleftrightarrow> e \<in> ran (erefs ?b) \<and> incident ?w e (?id n) \<and>
      Edge_MatchMetadata (h_env ?w) em (?x e)" for e
    using GetNodeEdges_live [OF ok, of n em] by auto
  have "LookupChildren B g n f em = Some (concat (map kids (Graph_GetNodeEdges B g n em)))"
    unfolding LookupChildren_def by (rule collectNodes_Some) (use step es in blast)
  moreover have "c \<in> set (concat (map kids (Graph_GetNodeEdges B g n em))) \<longleftrightarrow>
      c \<in> ran (nrefs ?b) \<and> ?m f c \<and> (\<exists>e \<in> ran (erefs ?b). Edge_MatchMetadata (h_env ?w) em (?x e) \<and>
        Parent (?x e) = ?id n \<and> Child (?x e) = ?id c)" for c
    using step by (auto simp: es incident_def)
  ultimately show ?thesis by blast
qed

lemma LookupParents_live:
  assumes ok: "graph_ok binv nrefs erefs g"
  shows "\<exists>ns. LookupParents B g n f em = Some ns \<and>
    set ns = {p \<in> ran (nrefs (g_backend g)). Node_MatchMetadata (h_env (g_world g)) f (h_node (g_world g) p) \<and>
      (\<exists>e \<in> ran (erefs (g_backend g)). Edge_MatchMetadata (h_env (g_world g)) em (h_edge (g_world g) e) \<and>
         Child (h_edge (g_world g) e) = ID (h_node (g_world g) n) \<and>
         Parent (h_edge (g_world g) e) = ID (h_node (g_world g) p))}"
proof -
  let ?w = "g_world g" and ?b = "g_backend g" and ?x = "h_edge (g_world g)" and ?id = "\<lambda>r. ID (h_node (g_world g) r)"
  let ?m = "\<lambda>f c. Node_MatchMetadata (h_env ?w) f (h_node ?w c)"
  define tops where "tops e = (if Child (?x e) = ?id n then filter (?m f) [the (nrefs ?b (Parent (?x e)))] else [])" for e
  have step: "(if Child (?x e) = ?id n then map_option fst (Graph_GetEdgeNodes B g e f None) else Some []) = Some (tops e) \<and>
      (\<forall>p. p \<in> set (tops e) \<longleftrightarrow> Child (?x e) = ?id n \<and> p \<in> ran (nrefs ?b) \<and> ?m f p \<and> Parent (?x e) = ?id p)"
    if "e \<in> ran (erefs ?b)" for e
  proof -
    from ends_live [OF ok that] obtain p c where pc: "nrefs ?b (Parent (?x e)) = Some p"
      and nodes: "\<And>pm cm. Graph_GetEdgeNodes B g e pm cm = Some (if ?m pm p \<and> ?m cm c then ([p], [c]) else ([], []))"
      by metis
    have uniq: "p' \<in> ran (nrefs ?b) \<and> Parent (?x e) = ?id p' \<longleftrightarrow> p' = p" for p'
      using pc stored_node_id [OF ok pc] ids_inj [OF ok] unfolding inj_on_def by (metis ranI)
    have "p' \<in> set (tops e) \<longleftrightarrow> Child (?x e) = ?id n \<and> (p' \<in> ran (nrefs ?b) \<and> Parent (?x e) = ?id p') \<and> ?m f p'" for p'
      unfolding uniq by (auto simp: tops_def pc)
    then show ?thesis by (simp add: tops_def pc nodes conj_ac)
  qed
  have es: "e \<in> set (Graph_GetNodeEdges B g n em) \<longleftrightarrow> e \<in> ran (erefs ?b) \<and> incident ?w e (?id n) \<and>
      Edge_MatchMetadata (h_env ?w) em (?x e)" for e
    using GetNodeEdges_live [OF ok, of n em] by auto
  have "LookupParents B g n f em = Some (concat (map tops (Graph_GetNodeEdges B g n em)))"
    unfolding LookupParents_def by (rule collectNodes_Some) (use step es in blast)
  moreover have "p \<in> set (concat (map tops (Graph_GetNodeEdges B g n em))) \<longleftrightarrow>
      p \<in> ran (nrefs ?b) \<and> ?m f p \<and> (\<exists>e \<in> ran (erefs ?b). Edge_MatchMetadata (h_env ?w) em (?x e) \<and>
        Child (?x e) = ?id n \<and> Parent (?x e) = ?id p)" for p
    using step by (auto simp: es incident_def)
  ultimately show ?thesis by blast
qed

lemma areLinkedLoop_live:
  assumes ok: "graph_ok binv nrefs erefs g" and "set es \<subseteq> ran (erefs (g_backend g))"
  shows "areLinkedLoop B g i es = Some (\<exists>e \<in> set es. incident (g_world g) e i)"
  using assms(2)
proof (induction es)
  case (Cons e es)
  then have "e \<in> ran (erefs (g_backend g))" by simp
  from ends_live [OF ok this] obtain p c where
    pc: "nrefs (g_backend g) (Parent (h_edge (g_world g) e)) = Some p" "nrefs (g_backend g) (Child (h_edge (g_world g) e)) = Some c"
    and nodes: "\<And>pm cm. Graph_GetEdgeNodes B g e pm cm =
      Some (if Node_MatchMetadata (h_env (g_world g)) pm (h_node (g_world g) p) \<and>
               Node_MatchMetadata (h_env (g_world g)) cm (h_node (g_world g) c) then ([p], [c]) else ([], []))"
    by metis
  from nodes [of None None] have "Graph_GetEdgeNodes B g e None None = Some ([p], [c])" by simp
  with Cons stored_node_id [OF ok pc(1)] stored_node_id [OF ok pc(2)] show ?case
    by (auto simp: incident_def)
qed simp

lemma AreLinked_live:
  assumes ok: "graph_ok binv nrefs erefs g"
  shows "AreLinked B g n1 n2 m = Some (\<exists>e \<in> ran (erefs (g_backend g)).
      Edge_MatchMetadata (h_env (g_world g)) m (h_edge (g_world g) e) \<and>
      incident (g_world g) e (ID (h_node (g_world g) n1)) \<and> incident (g_world g) e (ID (h_node (g_world g) n2)))"
proof -
  have "set (Graph_GetNodeEdges B g n1 m) \<subseteq> ran (erefs (g_backend g))" using GetNodeEdges_live [OF ok] by auto
  from areLinkedLoop_live [OF ok this] show ?thesis
    unfolding AreLinked_def by (auto simp: GetNodeEdges_live [OF ok])
qed

lemma GetEdges_live:
  assumes ok: "graph_ok binv nrefs erefs g"
  shows "set (Graph_GetEdges B g None) = ran (erefs (g_backend g))"
  using ok get_edges [of "g_world g" "g_backend g" "g_context g" None]
  by (auto simp: graph_ok_def Edge_MatchMetadata_def Graph_GetEdges_def)

lemma node_ids_live:
  assumes ok: "graph_ok binv nrefs erefs g"
  shows "(\<lambda>r. ID (h_node (g_world g) r)) ` set (Graph_GetNodes B g None) = dom (nrefs (g_backend g))"
    and "(\<lambda>e. ID (h_edge (g_world g) e)) ` set (Graph_GetEdges B g None) = dom (erefs (g_backend g))"
  using GetNodes_live [OF ok] GetEdges_live [OF ok] stored_node_id [OF ok] stored_edge_id [OF ok]
  by (force simp: Graph_GetNodes_def ran_def dom_def image_def)+

end

section \<open>Differences\<close>

text \<open>A graph compared with itself after some calls, or with another graph on the same kind of backend.\<close>

context backend_laws
begin

lemma Diff_live:
  assumes ok: "graph_ok binv nrefs erefs g" "graph_ok binv nrefs erefs g'"
    and diff: "Graph_Diff B g B g' = (addedNodes, removedNodes, addedEdges, removedEdges)"
  shows "(\<lambda>r. ID (h_node (g_world g') r)) ` set addedNodes = dom (nrefs (g_backend g')) - dom (nrefs (g_backend g))"
    and "(\<lambda>r. ID (h_node (g_world g) r)) ` set removedNodes = dom (nrefs (g_backend g)) - dom (nrefs (g_backend g'))"
    and "(\<lambda>e. ID (h_edge (g_world g') e)) ` set addedEdges = dom (erefs (g_backend g')) - dom (erefs (g_backend g))"
    and "(\<lambda>e. ID (h_edge (g_world g) e)) ` set removedEdges = dom (erefs (g_backend g)) - dom (erefs (g_backend g'))"
  using diff [symmetric] node_ids_live [OF ok(1)] node_ids_live [OF ok(2)]
  unfolding Graph_Diff_def GetNode_live [OF ok(1)] GetNode_live [OF ok(2)] GetEdge_live [OF ok(1)] GetEdge_live [OF ok(2)]
  by (simp_all only: prod.inject ids_of_new simp_thms)

end

end
