(* ===== verification/Indexer.thy ===== *)
theory Indexer
  imports Graph_Queries
begin

text \<open>
  The node indexer of \<^verbatim>\<open>src/graffiti/graph/indexer.go\<close>: two maps, from hashes to the nodes (and
  values) they index and from nodes to their hashes.  The hashing of structured values is a
  parameter (\<open>structHash\<close>).  Seen through \<open>lookupIx\<close>, the indexer is a map from a node to the
  hash-value pairs it was last indexed with.
\<close>

record 'v Indexer =
  ix_eventHandler :: EventHandler
  ix_appendOnly :: bool
  ix_hashToValues :: "(string, (Identifier, 'v) gomap) gomap"
  ix_nodeToHashes :: "(Identifier, (string, bool) gomap) gomap"

definition Hash :: "(gval list \<Rightarrow> string) \<Rightarrow> gval list \<Rightarrow> string" where
  "Hash structHash vs = (case vs of [VString s] \<Rightarrow> s | _ \<Rightarrow> structHash vs)"

definition orEmpty :: "('k, 'v) gomap option \<Rightarrow> ('k, 'v) gomap" where
  "orEmpty m = (case m of None \<Rightarrow> [] | Some m \<Rightarrow> m)"

text \<open>\<^verbatim>\<open>index\<close> is only called for a node that has an entry in \<^verbatim>\<open>nodeToHashes\<close>.\<close>

definition Indexer_index :: "Identifier \<Rightarrow> string \<times> 'v \<Rightarrow> 'v Indexer \<Rightarrow> 'v Indexer" where
  "Indexer_index nid hv i =
     i\<lparr>ix_hashToValues := gm_set (fst hv) (gm_set nid (snd hv) (orEmpty (map_of (ix_hashToValues i) (fst hv)))) (ix_hashToValues i),
       ix_nodeToHashes := gm_set nid (gm_set (fst hv) True (orEmpty (map_of (ix_nodeToHashes i) nid))) (ix_nodeToHashes i)\<rparr>"

definition Indexer_unindex :: "Identifier \<Rightarrow> string \<Rightarrow> 'v Indexer \<Rightarrow> 'v Indexer" where
  "Indexer_unindex nid h i =
     (let left = gm_del nid (orEmpty (map_of (ix_hashToValues i) h))
      in i\<lparr>ix_hashToValues := (if left = [] then gm_del h (ix_hashToValues i)
                               else gm_set h left (ix_hashToValues i))\<rparr>)"

definition ixNotify :: "graphEventType \<Rightarrow> nref \<Rightarrow> 'v Indexer \<Rightarrow> 'v Indexer option" where
  "ixNotify kind n i =
     map_option (\<lambda>h. i\<lparr>ix_eventHandler := h\<rparr>) (NotifyEvent noReaction kind (NodeElem n) (ix_eventHandler i))"

definition Indexer_Index :: "Identifier \<Rightarrow> nref \<Rightarrow> (string, 'v) gomap \<Rightarrow> 'v Indexer \<Rightarrow> 'v Indexer option" where
  "Indexer_Index nid n kv i =
     (case map_of (ix_nodeToHashes i) nid of
        None \<Rightarrow>
          ixNotify NodeAdded n
            (fold (Indexer_index nid) kv (i\<lparr>ix_nodeToHashes := gm_set nid [] (ix_nodeToHashes i)\<rparr>))
      | Some hashes \<Rightarrow>
          (let i = (if \<not> ix_appendOnly i
                    then fold (Indexer_unindex nid) (filter (\<lambda>h. map_of kv h = None) (map fst hashes)) i else i)
           in ixNotify NodeUpdated n (fold (Indexer_index nid) kv i)))"

definition Indexer_Unindex :: "Identifier \<Rightarrow> nref \<Rightarrow> 'v Indexer \<Rightarrow> 'v Indexer option" where
  "Indexer_Unindex nid n i =
     (case map_of (ix_nodeToHashes i) nid of
        None \<Rightarrow> Some i
      | Some hashes \<Rightarrow>
          ixNotify NodeDeleted n
            (i\<lparr>ix_nodeToHashes := gm_del nid (ix_nodeToHashes i),
               ix_hashToValues := fold (\<lambda>h m. case map_of m h of None \<Rightarrow> m | Some ids \<Rightarrow> gm_set h (gm_del nid ids) m)
                                    (map fst hashes) (ix_hashToValues i)\<rparr>))"

definition Indexer_OnNodeAdded ::
  "(Node \<Rightarrow> (string, 'v) gomap) \<Rightarrow> world \<Rightarrow> nref \<Rightarrow> 'v Indexer \<Rightarrow> 'v Indexer option" where
  "Indexer_OnNodeAdded hashNode w n i =
     (let kv = hashNode (h_node w n)
      in if kv \<noteq> [] then Indexer_Index (ID (h_node w n)) n kv i else Some i)"

definition Indexer_OnNodeUpdated ::
  "(Node \<Rightarrow> (string, 'v) gomap) \<Rightarrow> world \<Rightarrow> nref \<Rightarrow> 'v Indexer \<Rightarrow> 'v Indexer option" where
  "Indexer_OnNodeUpdated hashNode w n i =
     (let kv = hashNode (h_node w n)
      in if kv \<noteq> [] then Indexer_Index (ID (h_node w n)) n kv i else Indexer_Unindex (ID (h_node w n)) n i)"

definition Indexer_OnNodeDeleted :: "world \<Rightarrow> nref \<Rightarrow> 'v Indexer \<Rightarrow> 'v Indexer option" where
  "Indexer_OnNodeDeleted w n i = Indexer_Unindex (ID (h_node w n)) n i"

text \<open>A node that left the graph since it was indexed is nil in the result.\<close>

definition Indexer_FromHash :: "'b Backend \<Rightarrow> 'b Graph \<Rightarrow> 'v Indexer \<Rightarrow> string \<Rightarrow> nref option list \<times> 'v list" where
  "Indexer_FromHash B g i hash =
     (case map_of (ix_hashToValues i) hash of
        Some ids \<Rightarrow> (map (\<lambda>(nid, obj). Graph_GetNode B g nid) ids, map snd ids)
      | None \<Rightarrow> ([], []))"

definition Indexer_Get ::
  "(gval list \<Rightarrow> string) \<Rightarrow> 'b Backend \<Rightarrow> 'b Graph \<Rightarrow> 'v Indexer \<Rightarrow> gval list \<Rightarrow> nref option list \<times> 'v list" where
  "Indexer_Get structHash B g i vs = Indexer_FromHash B g i (Hash structHash vs)"

definition Indexer_GetNode ::
  "(gval list \<Rightarrow> string) \<Rightarrow> 'b Backend \<Rightarrow> 'b Graph \<Rightarrow> 'v Indexer \<Rightarrow> gval list \<Rightarrow> (nref option \<times> 'v) option" where
  "Indexer_GetNode structHash B g i vs =
     (case Indexer_Get structHash B g i vs of (n # _, v # _) \<Rightarrow> Some (n, v) | _ \<Rightarrow> None)"

definition NewIndexer :: "bool \<Rightarrow> 'v Indexer" where
  "NewIndexer appendOnly =
     \<lparr>ix_eventHandler = NewEventHandler, ix_appendOnly = appendOnly, ix_hashToValues = [], ix_nodeToHashes = []\<rparr>"

section \<open>Metadata indexers\<close>

text \<open>\<^verbatim>\<open>cartN\<close> and \<^verbatim>\<open>getFieldsAsArray\<close> of \<^verbatim>\<open>linker.go\<close>: every choice of one value per field.\<close>

fun cartN :: "'a list list \<Rightarrow> 'a list list" where
  "cartN [] = [[]]"
| "cartN (a # as) = concat (map (\<lambda>e. map (\<lambda>p. e # p) (cartN as)) a)"

fun fieldValues :: "getter \<Rightarrow> string list \<Rightarrow> gval list list result" where
  "fieldValues obj [] = Inr []"
| "fieldValues obj (f # fs) =
     (case GetField obj f of
        Inl err \<Rightarrow> Inl err
      | Inr v \<Rightarrow>
          (case fieldValues obj fs of
             Inl err \<Rightarrow> Inl err
           | Inr vs \<Rightarrow> Inr ((case asList v of Some l \<Rightarrow> l | None \<Rightarrow> [v]) # vs)))"

definition getFieldsAsArray :: "getter \<Rightarrow> string list \<Rightarrow> gval list list result" where
  "getFieldsAsArray obj names =
     (case fieldValues obj names of
        Inl err \<Rightarrow> Inl err
      | Inr [vs] \<Rightarrow> Inr (map (\<lambda>v. [v]) vs)
      | Inr vss \<Rightarrow> Inr (cartN vss))"

definition metadataHashNode ::
  "(gval list \<Rightarrow> string) \<Rightarrow> regex_env \<Rightarrow> ElementMatcher option \<Rightarrow> string list \<Rightarrow> Node \<Rightarrow> (string, gval list) gomap" where
  "metadataHashNode structHash env m indexes n =
     (if Node_MatchMetadata env m n
      then (case getFieldsAsArray (nodeGetter n) indexes of
              Inl _ \<Rightarrow> []
            | Inr vss \<Rightarrow>
                fold (\<lambda>vs kv. if length indexes = length vs then gm_set (Hash structHash vs) vs kv else kv) vss [])
      else [])"

fun syncLoop ::
  "(Node \<Rightarrow> (string, 'v) gomap) \<Rightarrow> world \<Rightarrow> nref list \<Rightarrow> 'v Indexer \<Rightarrow> 'v Indexer option" where
  "syncLoop hashNode w [] i = Some i"
| "syncLoop hashNode w (n # ns) i =
     Option.bind (Indexer_OnNodeAdded hashNode w n i) (syncLoop hashNode w ns)"

definition MetadataIndexer_Sync ::
  "'b Backend \<Rightarrow> 'b Graph \<Rightarrow> ElementMatcher option \<Rightarrow> (Node \<Rightarrow> (string, 'v) gomap) \<Rightarrow> 'v Indexer \<Rightarrow> 'v Indexer option" where
  "MetadataIndexer_Sync B g matcher hashNode i =
     syncLoop hashNode (g_world g) (Graph_GetNodes B g matcher) (i\<lparr>ix_hashToValues := [], ix_nodeToHashes := []\<rparr>)"

section \<open>The index as a map\<close>

definition lookupIx :: "'v Indexer \<Rightarrow> Identifier \<Rightarrow> string \<Rightarrow> 'v option" where
  "lookupIx i nid h = map_of (orEmpty (map_of (ix_hashToValues i) h)) nid"

definition hashesOf :: "'v Indexer \<Rightarrow> Identifier \<Rightarrow> string set" where
  "hashesOf i nid = fst ` set (orEmpty (map_of (ix_nodeToHashes i) nid))"

text \<open>Every hash under which a node is found is recorded for the node.\<close>

definition ix_ok :: "'v Indexer \<Rightarrow> bool" where
  "ix_ok i \<longleftrightarrow> idle (ix_eventHandler i) \<and> (\<forall>nid h. lookupIx i nid h \<noteq> None \<longrightarrow> h \<in> hashesOf i nid)"

lemma orEmpty_simps [simp]: "orEmpty None = []" "orEmpty (Some m) = m"
  by (simp_all add: orEmpty_def)

lemma lookupIx_nodeToHashes [simp]: "lookupIx (i\<lparr>ix_nodeToHashes := x\<rparr>) = lookupIx i"
  by (simp add: lookupIx_def fun_eq_iff)

lemma hashesOf_reset:
  "hashesOf (i\<lparr>ix_nodeToHashes := gm_set nid [] (ix_nodeToHashes i)\<rparr>) nid' = (if nid' = nid then {} else hashesOf i nid')"
  by (simp add: hashesOf_def)

lemma lookupIx_index:
  "lookupIx (Indexer_index nid hv i) nid' h = (if nid' = nid \<and> h = fst hv then Some (snd hv) else lookupIx i nid' h)"
  by (auto simp: lookupIx_def Indexer_index_def)

lemma hashesOf_index:
  "hashesOf (Indexer_index nid hv i) nid' = (if nid' = nid then insert (fst hv) (hashesOf i nid) else hashesOf i nid')"
  by (auto simp: hashesOf_def Indexer_index_def gm_keys_iff set_eq_iff)

lemma index_fields [simp]:
  "ix_eventHandler (Indexer_index nid hv i) = ix_eventHandler i" "ix_appendOnly (Indexer_index nid hv i) = ix_appendOnly i"
  by (simp_all add: Indexer_index_def)

lemma lookupIx_indexes:
  assumes "gm_wf kv"
  shows "lookupIx (fold (Indexer_index nid) kv i) nid' h =
    (case map_of kv h of Some v \<Rightarrow> if nid' = nid then Some v else lookupIx i nid' h | None \<Rightarrow> lookupIx i nid' h)"
  using assms
proof (induction kv arbitrary: i)
  case (Cons hv kv)
  then have "fst hv \<notin> fst ` set kv" by (simp add: gm_wf_def)
  then have "map_of kv (fst hv) = None" by (simp add: map_of_eq_None_iff)
  with Cons show ?case by (cases hv) (auto simp: lookupIx_index gm_wf_def split: option.splits)
qed simp

lemma hashesOf_indexes:
  "hashesOf (fold (Indexer_index nid) kv i) nid' = (if nid' = nid then fst ` set kv \<union> hashesOf i nid else hashesOf i nid')"
  by (induction kv arbitrary: i) (auto simp: hashesOf_index)

lemma indexes_fields [simp]:
  "ix_eventHandler (fold (Indexer_index nid) kv i) = ix_eventHandler i"
  "ix_appendOnly (fold (Indexer_index nid) kv i) = ix_appendOnly i"
  by (induction kv arbitrary: i) simp_all

lemma lookupIx_unindex:
  "lookupIx (Indexer_unindex nid h i) nid' h' = (if nid' = nid \<and> h' = h then None else lookupIx i nid' h')"
proof -
  let ?left = "gm_del nid (orEmpty (map_of (ix_hashToValues i) h))"
  have "map_of ?left nid' = (if nid' = nid then None else lookupIx i nid' h)" by (simp add: lookupIx_def)
  then show ?thesis
    by (cases "?left = []") (auto simp: lookupIx_def Indexer_unindex_def Let_def)
qed

lemma unindex_fields [simp]:
  "ix_eventHandler (Indexer_unindex nid h i) = ix_eventHandler i" "ix_appendOnly (Indexer_unindex nid h i) = ix_appendOnly i"
  "hashesOf (Indexer_unindex nid h i) = hashesOf i"
  by (simp_all add: Indexer_unindex_def Let_def hashesOf_def fun_eq_iff)

lemma lookupIx_unindexes:
  "lookupIx (fold (Indexer_unindex nid) hs i) nid' h = (if nid' = nid \<and> h \<in> set hs then None else lookupIx i nid' h)"
  by (induction hs arbitrary: i) (auto simp: lookupIx_unindex)

lemma unindexes_fields [simp]:
  "ix_eventHandler (fold (Indexer_unindex nid) hs i) = ix_eventHandler i"
  "ix_appendOnly (fold (Indexer_unindex nid) hs i) = ix_appendOnly i"
  "hashesOf (fold (Indexer_unindex nid) hs i) = hashesOf i"
  by (induction hs arbitrary: i) simp_all

section \<open>The operations on it\<close>

definition ixKinds :: "graphEventType \<Rightarrow> bool" where
  "ixKinds k \<longleftrightarrow> k = NodeAdded \<or> k = NodeUpdated \<or> k = NodeDeleted"

lemma ixNotify_idle:
  assumes "idle (ix_eventHandler i)" "ixKinds k"
  shows "\<exists>i'. ixNotify k n i = Some i' \<and> idle (ix_eventHandler i') \<and> ix_appendOnly i' = ix_appendOnly i \<and>
    lookupIx i' = lookupIx i \<and> hashesOf i' = hashesOf i \<and> ix_nodeToHashes i' = ix_nodeToHashes i"
proof -
  have "kindFits k (NodeElem n)" using assms(2) by (auto simp: ixKinds_def)
  from NotifyEvent_no_reaction [OF assms(1) this] assms(1) show ?thesis
    by (auto simp: ixNotify_def idle_def lookupIx_def hashesOf_def fun_eq_iff)
qed

lemma ok_unknown:
  assumes "ix_ok i" "map_of (ix_nodeToHashes i) nid = None"
  shows "lookupIx i nid h = None"
proof -
  have "h \<notin> hashesOf i nid" using assms(2) by (simp add: hashesOf_def)
  with assms(1) show ?thesis unfolding ix_ok_def by blast
qed

lemma ok_known:
  assumes "ix_ok i" "map_of (ix_nodeToHashes i) nid = Some hashes" "lookupIx i nid h \<noteq> None"
  shows "h \<in> fst ` set hashes"
proof -
  have "h \<in> hashesOf i nid" using assms(1,3) unfolding ix_ok_def by blast
  with assms(2) show ?thesis by (simp add: hashesOf_def)
qed

lemma Index_lookup:
  assumes ok: "ix_ok i" and kv: "gm_wf kv"
  shows "\<exists>i'. Indexer_Index nid n kv i = Some i' \<and> ix_ok i' \<and> ix_appendOnly i' = ix_appendOnly i \<and>
    lookupIx i' = (lookupIx i)(nid := (if ix_appendOnly i then lookupIx i nid ++ map_of kv else map_of kv))"
proof (cases "map_of (ix_nodeToHashes i) nid")
  case None
  let ?i = "fold (Indexer_index nid) kv (i\<lparr>ix_nodeToHashes := gm_set nid [] (ix_nodeToHashes i)\<rparr>)"
  have empty: "lookupIx i nid h = None" for h
    using ok_unknown [OF ok None] .
  have look: "lookupIx ?i nid' h = (if nid' = nid then map_of kv h else lookupIx i nid' h)" for nid' h
    using empty by (auto simp: lookupIx_indexes [OF kv] split: option.splits)
  have hs: "hashesOf ?i nid' = (if nid' = nid then fst ` set kv else hashesOf i nid')" for nid'
    by (simp add: hashesOf_indexes hashesOf_reset)
  have "idle (ix_eventHandler ?i)" using ok by (simp add: ix_ok_def)
  from ixNotify_idle [OF this, of NodeAdded n] obtain i' where
    i': "ixNotify NodeAdded n ?i = Some i'" "idle (ix_eventHandler i')" "ix_appendOnly i' = ix_appendOnly i"
      "lookupIx i' = lookupIx ?i" "hashesOf i' = hashesOf ?i" by (auto simp: ixKinds_def)
  have "ix_ok i'"
    using ok i'(2) unfolding ix_ok_def i'(4,5) look hs by (auto simp: gm_keys_iff)
  moreover have "lookupIx i' = (lookupIx i)(nid := (if ix_appendOnly i then lookupIx i nid ++ map_of kv else map_of kv))"
    using empty by (auto simp: i'(4) look fun_eq_iff map_add_def split: option.splits)
  ultimately show ?thesis using None i' by (simp add: Indexer_Index_def)
next
  case (Some hashes)
  let ?gone = "filter (\<lambda>h. map_of kv h = None) (map fst hashes)"
  let ?j = "if \<not> ix_appendOnly i then fold (Indexer_unindex nid) ?gone i else i"
  let ?i = "fold (Indexer_index nid) kv ?j"
  have known: "h \<notin> fst ` set hashes \<Longrightarrow> lookupIx i nid h = None" for h
    using ok_known [OF ok Some, of h] by blast
  have look: "lookupIx ?i nid' h = (if nid' = nid
      then (if ix_appendOnly i then (lookupIx i nid ++ map_of kv) h else map_of kv h) else lookupIx i nid' h)" for nid' h
    using known [of h]
    by (auto simp: lookupIx_indexes [OF kv] lookupIx_unindexes map_add_def image_iff split: option.splits)
  have hs: "hashesOf ?i nid' = (if nid' = nid then fst ` set kv \<union> hashesOf i nid else hashesOf i nid')" for nid'
    by (simp add: hashesOf_indexes)
  have app: "ix_appendOnly ?i = ix_appendOnly i" by simp
  have "idle (ix_eventHandler ?i)" using ok by (simp add: ix_ok_def)
  from ixNotify_idle [OF this, of NodeUpdated n] obtain i' where
    i': "ixNotify NodeUpdated n ?i = Some i'" "idle (ix_eventHandler i')" "ix_appendOnly i' = ix_appendOnly i"
      "lookupIx i' = lookupIx ?i" "hashesOf i' = hashesOf ?i" unfolding app ixKinds_def by blast
  have "lookupIx i' nid' h \<noteq> None \<Longrightarrow> h \<in> hashesOf i' nid'" for nid' h
    using ok gm_keys_iff [of h kv] unfolding ix_ok_def i'(4,5) look hs by (auto simp: map_add_def split: if_splits option.splits)
  then have "ix_ok i'" using i'(2) by (simp add: ix_ok_def)
  moreover have "lookupIx i' = (lookupIx i)(nid := (if ix_appendOnly i then lookupIx i nid ++ map_of kv else map_of kv))"
    by (auto simp: i'(4) look fun_eq_iff)
  ultimately show ?thesis using Some i' by (simp add: Indexer_Index_def Let_def)
qed

lemma Unindex_lookup:
  assumes ok: "ix_ok i"
  shows "\<exists>i'. Indexer_Unindex nid n i = Some i' \<and> ix_ok i' \<and> ix_appendOnly i' = ix_appendOnly i \<and>
    lookupIx i' = (lookupIx i)(nid := Map.empty)"
proof (cases "map_of (ix_nodeToHashes i) nid")
  case None
  then have "lookupIx i nid h = None" for h by (rule ok_unknown [OF ok])
  then show ?thesis using None ok by (auto simp: Indexer_Unindex_def fun_eq_iff)
next
  case (Some hashes)
  let ?del = "\<lambda>h m. case map_of m h of None \<Rightarrow> m | Some ids \<Rightarrow> gm_set h (gm_del nid ids) m"
  let ?i = "i\<lparr>ix_nodeToHashes := gm_del nid (ix_nodeToHashes i),
              ix_hashToValues := fold ?del (map fst hashes) (ix_hashToValues i)\<rparr>"
  have del: "map_of (orEmpty (map_of (fold ?del hs m) h)) nid' =
      (if nid' = nid \<and> h \<in> set hs then None else map_of (orEmpty (map_of m h)) nid')" for hs m h nid'
    by (induction hs arbitrary: m) (auto split: option.splits)
  have known: "h \<notin> fst ` set hashes \<Longrightarrow> lookupIx i nid h = None" for h
    using ok_known [OF ok Some, of h] by blast
  have look: "lookupIx ?i nid' h = (if nid' = nid then None else lookupIx i nid' h)" for nid' h
    using known [of h] by (cases "h \<in> fst ` set hashes") (auto simp: lookupIx_def del)
  have hs: "hashesOf ?i nid' = (if nid' = nid then {} else hashesOf i nid')" for nid'
    by (simp add: hashesOf_def)
  have "idle (ix_eventHandler ?i)" using ok by (simp add: ix_ok_def)
  from ixNotify_idle [OF this, of NodeDeleted n] obtain i' where
    i': "ixNotify NodeDeleted n ?i = Some i'" "idle (ix_eventHandler i')" "ix_appendOnly i' = ix_appendOnly i"
      "lookupIx i' = lookupIx ?i" "hashesOf i' = hashesOf ?i" by (auto simp: ixKinds_def)
  have "ix_ok i'" using ok i'(2) unfolding ix_ok_def i'(4,5) look hs by auto
  then show ?thesis using Some i' by (auto simp: Indexer_Unindex_def look fun_eq_iff)
qed

section \<open>Sequences of node events\<close>

text \<open>What an event does to the index, seen as a map: an update replaces the hashes of the node.\<close>

definition specIndex :: "bool \<Rightarrow> (string, 'v) gomap \<Rightarrow> (string \<rightharpoonup> 'v) \<Rightarrow> (string \<rightharpoonup> 'v)" where
  "specIndex appendOnly kv old = (if appendOnly then old ++ map_of kv else map_of kv)"

fun specEvent ::
  "bool \<Rightarrow> (Node \<Rightarrow> (string, 'v) gomap) \<Rightarrow> graphEventType \<times> Node \<Rightarrow> (string \<rightharpoonup> 'v) \<Rightarrow> (string \<rightharpoonup> 'v)" where
  "specEvent appendOnly hashNode (NodeAdded, n) old =
     (if hashNode n \<noteq> [] then specIndex appendOnly (hashNode n) old else old)"
| "specEvent appendOnly hashNode (NodeUpdated, n) old =
     (if hashNode n \<noteq> [] then specIndex appendOnly (hashNode n) old else Map.empty)"
| "specEvent appendOnly hashNode (NodeDeleted, n) old = Map.empty"
| "specEvent appendOnly hashNode (_, n) old = old"

fun Indexer_event ::
  "(Node \<Rightarrow> (string, 'v) gomap) \<Rightarrow> graphEventType \<times> world \<times> nref \<Rightarrow> 'v Indexer \<Rightarrow> 'v Indexer option" where
  "Indexer_event hashNode (NodeAdded, w, n) i = Indexer_OnNodeAdded hashNode w n i"
| "Indexer_event hashNode (NodeUpdated, w, n) i = Indexer_OnNodeUpdated hashNode w n i"
| "Indexer_event hashNode (NodeDeleted, w, n) i = Indexer_OnNodeDeleted w n i"
| "Indexer_event hashNode (_, w, n) i = Some i"

fun Indexer_events ::
  "(Node \<Rightarrow> (string, 'v) gomap) \<Rightarrow> (graphEventType \<times> world \<times> nref) list \<Rightarrow> 'v Indexer \<Rightarrow> 'v Indexer option" where
  "Indexer_events hashNode [] i = Some i"
| "Indexer_events hashNode (ev # evs) i = Option.bind (Indexer_event hashNode ev i) (Indexer_events hashNode evs)"

text \<open>The events of one node, with the node as it is at the event.\<close>

definition eventsOf :: "Identifier \<Rightarrow> (graphEventType \<times> world \<times> nref) list \<Rightarrow> (graphEventType \<times> Node) list" where
  "eventsOf nid evs = map (\<lambda>(k, w, n). (k, h_node w n)) (filter (\<lambda>(k, w, n). ID (h_node w n) = nid) evs)"

lemma Indexer_event_lookup:
  assumes ok: "ix_ok i" and kv: "\<And>n. gm_wf (hashNode n)"
  shows "\<exists>i'. Indexer_event hashNode (k, w, n) i = Some i' \<and> ix_ok i' \<and> ix_appendOnly i' = ix_appendOnly i \<and>
    lookupIx i' = (lookupIx i)(ID (h_node w n) :=
      specEvent (ix_appendOnly i) hashNode (k, h_node w n) (lookupIx i (ID (h_node w n))))"
  using Index_lookup [OF ok kv, of "ID (h_node w n)" n] Unindex_lookup [OF ok, of "ID (h_node w n)" n] ok
  by (cases k) (auto simp: Indexer_OnNodeAdded_def Indexer_OnNodeUpdated_def Indexer_OnNodeDeleted_def
      specIndex_def Let_def)

lemma Indexer_events_lookup:
  assumes ok: "ix_ok i" and kv: "\<And>n. gm_wf (hashNode n)"
  shows "\<exists>i'. Indexer_events hashNode evs i = Some i' \<and> ix_ok i' \<and> ix_appendOnly i' = ix_appendOnly i \<and>
    (\<forall>nid. lookupIx i' nid = fold (specEvent (ix_appendOnly i) hashNode) (eventsOf nid evs) (lookupIx i nid))"
  using ok
proof (induction evs arbitrary: i)
  case (Cons ev evs)
  obtain k w n where ev: "ev = (k, w, n)" by (cases ev) auto
  from Indexer_event_lookup [where hashNode = hashNode and k = k and w = w and n = n, OF Cons.prems kv] obtain i1 where
    i1: "Indexer_event hashNode (k, w, n) i = Some i1" "ix_ok i1" "ix_appendOnly i1 = ix_appendOnly i"
      "lookupIx i1 = (lookupIx i)(ID (h_node w n) :=
         specEvent (ix_appendOnly i) hashNode (k, h_node w n) (lookupIx i (ID (h_node w n))))"
    by blast
  from Cons.IH [OF i1(2)] obtain i' where i': "Indexer_events hashNode evs i1 = Some i'" "ix_ok i'"
      "ix_appendOnly i' = ix_appendOnly i"
      "\<forall>nid. lookupIx i' nid = fold (specEvent (ix_appendOnly i) hashNode) (eventsOf nid evs) (lookupIx i1 nid)"
    unfolding i1(3) by blast
  then show ?case using i1(1) by (simp add: i1(4) ev eventsOf_def)
qed (simp add: eventsOf_def)

lemma NewIndexer_ok: "ix_ok (NewIndexer a)" "lookupIx (NewIndexer a) = (\<lambda>nid. Map.empty)" "ix_appendOnly (NewIndexer a) = a"
  by (simp_all add: ix_ok_def NewIndexer_def lookupIx_def idle_def NewEventHandler_def fun_eq_iff)

section \<open>Reading the index\<close>

text \<open>Under a hash each node has one entry.\<close>

definition ix_wf :: "'v Indexer \<Rightarrow> bool" where
  "ix_wf i \<longleftrightarrow> (\<forall>h. gm_wf (orEmpty (map_of (ix_hashToValues i) h)))"

lemma ix_wf_index: "ix_wf i \<Longrightarrow> ix_wf (Indexer_index nid hv i)"
  by (auto simp: ix_wf_def Indexer_index_def)

lemma ix_wf_unindex: "ix_wf i \<Longrightarrow> ix_wf (Indexer_unindex nid h i)"
  by (auto simp: ix_wf_def Indexer_unindex_def Let_def)

lemma ix_wf_fold: "(\<And>x i. ix_wf i \<Longrightarrow> ix_wf (f x i)) \<Longrightarrow> ix_wf i \<Longrightarrow> ix_wf (fold f xs i)"
  by (induction xs arbitrary: i) simp_all

lemma ix_wf_notify: "ix_wf i \<Longrightarrow> ixNotify k n i = Some i' \<Longrightarrow> ix_wf i'"
  by (auto simp: ixNotify_def ix_wf_def)

lemma ix_wf_Index:
  assumes "ix_wf i" "Indexer_Index nid n kv i = Some i'"
  shows "ix_wf i'"
proof -
  have "ix_wf (i\<lparr>ix_nodeToHashes := x\<rparr>)" for x using assms(1) by (simp add: ix_wf_def)
  then show ?thesis using assms
    by (auto simp: Indexer_Index_def Let_def split: option.splits if_splits
        elim!: ix_wf_notify [rotated] intro!: ix_wf_fold ix_wf_index ix_wf_unindex)
qed

lemma gm_wf_unindexed:
  "(\<And>h. gm_wf (orEmpty (map_of m h))) \<Longrightarrow>
   gm_wf (orEmpty (map_of (fold (\<lambda>h m. case map_of m h of None \<Rightarrow> m | Some ids \<Rightarrow> gm_set h (gm_del nid ids) m) hs m) h'))"
proof (induction hs arbitrary: m)
  case (Cons h hs)
  have "gm_wf (orEmpty (map_of (case map_of m h of None \<Rightarrow> m | Some ids \<Rightarrow> gm_set h (gm_del nid ids) m) x))" for x
    using Cons.prems [of x] by (auto split: option.splits)
  then show ?case using Cons.IH by simp
qed simp

lemma ix_wf_Unindex: "ix_wf i \<Longrightarrow> Indexer_Unindex nid n i = Some i' \<Longrightarrow> ix_wf i'"
  by (auto simp: Indexer_Unindex_def split: option.splits elim!: ix_wf_notify [rotated])
    (auto simp: ix_wf_def intro!: gm_wf_unindexed)

lemma ix_wf_event: "ix_wf i \<Longrightarrow> Indexer_event hashNode ev i = Some i' \<Longrightarrow> ix_wf i'"
  by (cases "(hashNode, ev, i)" rule: Indexer_event.cases)
    (auto simp: Indexer_OnNodeAdded_def Indexer_OnNodeUpdated_def Indexer_OnNodeDeleted_def Let_def
      split: if_splits dest: ix_wf_Index ix_wf_Unindex)

lemma ix_wf_events: "ix_wf i \<Longrightarrow> Indexer_events hashNode evs i = Some i' \<Longrightarrow> ix_wf i'"
  by (induction evs arbitrary: i) (auto simp: Option.bind_eq_Some_conv dest: ix_wf_event)

lemma zip_entries: "zip (map (\<lambda>(k, v). f k) ids) (map snd ids) = map (\<lambda>(k, v). (f k, v)) ids"
  by (induction ids) auto

lemma FromHash_lookup:
  assumes "ix_wf i"
  shows "set (zip (fst (Indexer_FromHash B g i h)) (snd (Indexer_FromHash B g i h))) =
    {(Graph_GetNode B g nid, v) | nid v. lookupIx i nid h = Some v}"
proof -
  let ?ids = "orEmpty (map_of (ix_hashToValues i) h)"
  have "zip (fst (Indexer_FromHash B g i h)) (snd (Indexer_FromHash B g i h)) =
      map (\<lambda>(nid, obj). (Graph_GetNode B g nid, obj)) ?ids"
    by (simp add: Indexer_FromHash_def orEmpty_def zip_entries split: option.split)
  moreover have "map_of ?ids nid = Some v \<longleftrightarrow> (nid, v) \<in> set ?ids" for nid v
    using assms by (simp add: ix_wf_def gm_lookup_iff)
  ultimately show ?thesis by (auto simp: lookupIx_def image_iff)
qed

end
