(* ===== verification/Processor.thy ===== *)
theory Processor
  imports Indexer
begin

text \<open>
  The processor of \<^verbatim>\<open>src/graffiti/graph/processor.go\<close>: actions waiting for nodes with given values
  of the indexed fields.  An action is any value of \<open>'a\<close> with its \<^verbatim>\<open>ProcessNode\<close> callback
  \<open>process\<close>, which works on a state of its own (\<open>'s\<close>) and says whether the action stays active.
  Callbacks that call the processor again are not covered.
\<close>

record ('v, 'a) Processor =
  p_indexer :: "'v Indexer"
  p_indexes :: "string list"
  p_actions :: "(string, 'a list) gomap"

type_synonym ('a, 's) NodeAction = "'a \<Rightarrow> nref option \<Rightarrow> 's \<Rightarrow> 's \<times> bool"

definition NewProcessor :: "EventListener \<Rightarrow> string list \<Rightarrow> ('v, 'a) Processor option" where
  "NewProcessor self indexes =
     (if length indexes = 0 then None
      else Some \<lparr>p_indexer = (NewIndexer False)\<lparr>ix_eventHandler := AddEventListener self NewEventHandler\<rparr>,
                 p_indexes = indexes, p_actions = []\<rparr>)"

fun doActionLoop :: "('a, 's) NodeAction \<Rightarrow> 'a \<Rightarrow> nref option list \<Rightarrow> 's \<Rightarrow> 's \<times> bool" where
  "doActionLoop process action [] st = (st, True)"
| "doActionLoop process action (n # ns) st =
     (case process action n st of
        (st, True) \<Rightarrow> doActionLoop process action ns st
      | (st, False) \<Rightarrow> (st, False))"

definition Processor_DoAction ::
  "(gval list \<Rightarrow> string) \<Rightarrow> 'b Backend \<Rightarrow> 'b Graph \<Rightarrow> ('a, 's) NodeAction \<Rightarrow> 'a \<Rightarrow> gval list \<Rightarrow>
   ('v, 'a) Processor \<times> 's \<Rightarrow> ('v, 'a) Processor \<times> 's" where
  "Processor_DoAction structHash B g process action vs ps =
     (let (p, st) = ps;
          (nodes, _) = Indexer_Get structHash B g (p_indexer p) vs;
          (st, kont) = doActionLoop process action nodes st
      in if kont
         then (p\<lparr>p_actions := gm_set (Hash structHash vs)
                   (case map_of (p_actions p) (Hash structHash vs) of
                      Some actions \<Rightarrow> actions @ [action] | None \<Rightarrow> [action]) (p_actions p)\<rparr>, st)
         else (p, st))"

definition Processor_Cancel :: "(gval list \<Rightarrow> string) \<Rightarrow> gval list \<Rightarrow> ('v, 'a) Processor \<Rightarrow> ('v, 'a) Processor" where
  "Processor_Cancel structHash vs p = p\<lparr>p_actions := gm_del (Hash structHash vs) (p_actions p)\<rparr>"

fun runActions :: "('a, 's) NodeAction \<Rightarrow> nref \<Rightarrow> 'a list \<Rightarrow> 's \<Rightarrow> 's \<times> 'a list" where
  "runActions process n [] st = (st, [])"
| "runActions process n (a # as) st =
     (let (st, ok) = process a (Some n) st;
          (st, keep) = runActions process n as st
      in (st, if ok then a # keep else keep))"

definition nodeHash ::
  "(gval list \<Rightarrow> string) \<Rightarrow> ('a, 's) NodeAction \<Rightarrow> nref \<Rightarrow> gval list \<Rightarrow>
   (string, 'a list) gomap \<times> 's \<Rightarrow> (string, 'a list) gomap \<times> 's" where
  "nodeHash structHash process n vs as =
     (let (m, st) = as; hash = Hash structHash vs in
      case map_of m hash of
        None \<Rightarrow> (m, st)
      | Some actions \<Rightarrow>
          (let (st, keep) = runActions process n actions st
           in (if keep = [] then gm_del hash m else gm_set hash keep m, st)))"

definition Processor_OnNodeAdded ::
  "(gval list \<Rightarrow> string) \<Rightarrow> ('a, 's) NodeAction \<Rightarrow> world \<Rightarrow> nref \<Rightarrow> ('v, 'a) Processor \<times> 's \<Rightarrow> ('v, 'a) Processor \<times> 's" where
  "Processor_OnNodeAdded structHash process w n ps =
     (let (p, st) = ps in
      case getFieldsAsArray (nodeGetter (h_node w n)) (p_indexes p) of
        Inl _ \<Rightarrow> (p, st)
      | Inr vValues \<Rightarrow>
          (let (m, st) = fold (nodeHash structHash process n) vValues (p_actions p, st)
           in (p\<lparr>p_actions := m\<rparr>, st)))"

section \<open>Which actions run and which stay\<close>

text \<open>
  Actions that note their calls in the state and whose answer is a function of the action and the
  node.
\<close>

definition logged :: "('a \<Rightarrow> nref option \<Rightarrow> bool) \<Rightarrow> ('a, ('a \<times> nref option) list) NodeAction" where
  "logged verdict a n calls = (calls @ [(a, n)], verdict a n)"

definition waiting :: "(string, 'a list) gomap \<Rightarrow> string \<Rightarrow> 'a list" where
  "waiting m h = (case map_of m h of None \<Rightarrow> [] | Some actions \<Rightarrow> actions)"

definition nodeHashes :: "(gval list \<Rightarrow> string) \<Rightarrow> ('v, 'a) Processor \<Rightarrow> Node \<Rightarrow> string list" where
  "nodeHashes structHash p n =
     (case getFieldsAsArray (nodeGetter n) (p_indexes p) of Inl _ \<Rightarrow> [] | Inr vss \<Rightarrow> map (Hash structHash) vss)"

lemma runActions_logged:
  "runActions (logged v) n as calls = (calls @ map (\<lambda>a. (a, Some n)) as, filter (\<lambda>a. v a (Some n)) as)"
  by (induction as arbitrary: calls) (simp_all add: logged_def)

lemma doActionLoop_logged:
  "doActionLoop (logged v) a ns calls =
     (calls @ map (Pair a) (takeWhile (v a) ns @ take 1 (dropWhile (v a) ns)), \<forall>n \<in> set ns. v a n)"
proof (induction ns arbitrary: calls)
  case (Cons n ns)
  then show ?case by (cases "v a n") (simp_all add: logged_def)
qed simp

lemma nodeHash_logged:
  assumes "nodeHash structHash (logged v) n vs (m, calls) = (m', calls')" "h = Hash structHash vs"
  shows "waiting m' h' = (if h' = h then filter (\<lambda>a. v a (Some n)) (waiting m h) else waiting m h')"
    and "calls' = calls @ map (\<lambda>a. (a, Some n)) (waiting m h)"
  using assms by (auto simp: nodeHash_def waiting_def runActions_logged Let_def split: option.splits if_splits)

lemma nodeHashes_logged:
  assumes "fold (nodeHash structHash (logged v) n) vss (m, calls) = (m', calls')"
  shows "waiting m' h = (if h \<in> Hash structHash ` set vss then filter (\<lambda>a. v a (Some n)) (waiting m h) else waiting m h)"
    and "distinct (map (Hash structHash) vss) \<Longrightarrow>
      calls' = calls @ concat (map (\<lambda>vs. map (\<lambda>a. (a, Some n)) (waiting m (Hash structHash vs))) vss)"
proof -
  have "waiting m' h = (if h \<in> Hash structHash ` set vss then filter (\<lambda>a. v a (Some n)) (waiting m h) else waiting m h) \<and>
    (distinct (map (Hash structHash) vss) \<longrightarrow>
      calls' = calls @ concat (map (\<lambda>vs. map (\<lambda>a. (a, Some n)) (waiting m (Hash structHash vs))) vss))"
    using assms
  proof (induction vss arbitrary: m calls)
    case (Cons vs vss)
    obtain m1 calls1 where one: "nodeHash structHash (logged v) n vs (m, calls) = (m1, calls1)" by fastforce
    note w = nodeHash_logged [OF one refl]
    from Cons.prems one have rest: "fold (nodeHash structHash (logged v) n) vss (m1, calls1) = (m', calls')" by simp
    have same: "waiting m1 (Hash structHash us) = waiting m (Hash structHash us)"
      if "Hash structHash vs \<notin> Hash structHash ` set vss" "us \<in> set vss" for us
      using that w(1) [of "Hash structHash us"] imageI [of us "set vss" "Hash structHash"] by metis
    show ?case using Cons.IH [OF rest] w(1) [of h] w(2) same by (auto cong: map_cong)
  qed simp
  then show "waiting m' h = (if h \<in> Hash structHash ` set vss then filter (\<lambda>a. v a (Some n)) (waiting m h) else waiting m h)"
    and "distinct (map (Hash structHash) vss) \<Longrightarrow>
      calls' = calls @ concat (map (\<lambda>vs. map (\<lambda>a. (a, Some n)) (waiting m (Hash structHash vs))) vss)" by blast+
qed

lemma OnNodeAdded_logged:
  assumes "Processor_OnNodeAdded structHash (logged v) w n (p, calls) = (p', calls')"
    and "hs = nodeHashes structHash p (h_node w n)"
  shows "waiting (p_actions p') h =
      (if h \<in> set hs then filter (\<lambda>a. v a (Some n)) (waiting (p_actions p) h) else waiting (p_actions p) h)"
    and "distinct hs \<Longrightarrow> calls' = calls @ concat (map (\<lambda>h. map (\<lambda>a. (a, Some n)) (waiting (p_actions p) h)) hs)"
    and "p_indexes p' = p_indexes p"
proof -
  note def = assms(1) [unfolded Processor_OnNodeAdded_def Let_def prod.case]
  show "waiting (p_actions p') h =
      (if h \<in> set hs then filter (\<lambda>a. v a (Some n)) (waiting (p_actions p) h) else waiting (p_actions p) h)"
    using def assms(2) nodeHashes_logged(1) [of structHash v n]
    by (auto simp: nodeHashes_def split: sum.splits prod.splits)
  show "distinct hs \<Longrightarrow> calls' = calls @ concat (map (\<lambda>h. map (\<lambda>a. (a, Some n)) (waiting (p_actions p) h)) hs)"
    using def assms(2) nodeHashes_logged(2) [of structHash v n]
    by (auto simp: nodeHashes_def comp_def split: sum.splits prod.splits)
  show "p_indexes p' = p_indexes p" using def by (auto split: sum.splits prod.splits)
qed

lemma DoAction_logged:
  assumes "Processor_DoAction structHash B g (logged v) a vs (p, calls) = (p', calls')"
    and "ns = fst (Indexer_Get structHash B g (p_indexer p) vs)"
  shows "waiting (p_actions p') h = waiting (p_actions p) h @
      (if h = Hash structHash vs \<and> (\<forall>n \<in> set ns. v a n) then [a] else [])"
    and "calls' = calls @ map (Pair a) (takeWhile (v a) ns @ take 1 (dropWhile (v a) ns))"
  using assms by (auto simp: Processor_DoAction_def doActionLoop_logged waiting_def Let_def
      split: prod.splits if_splits option.splits)

lemma Cancel_waiting:
  "waiting (p_actions (Processor_Cancel structHash vs p)) h =
     (if h = Hash structHash vs then [] else waiting (p_actions p) h)"
  by (simp add: Processor_Cancel_def waiting_def)

end
