(* ===== verification/Linker.thy ===== *)
theory Linker
  imports Processor
begin

text \<open>
  The resource linkers of \<^verbatim>\<open>src/graffiti/graph/linker.go\<close>.  When a node appears, changes or leaves,
  \<open>nodeEvent\<close> compares the links the node should have with the managed links it has, and adds,
  updates and removes edges of the graph.  The order of Go's \<^verbatim>\<open>range\<close> over a map is the parameter
  \<open>rangeOrder\<close>, any function that permutes its argument; \<open>clock j\<close> is the time read while the link
  \<open>j\<close> is handled.  The event is handled outside a notification of the graph itself.
\<close>

record 'b linkState =
  ls_graph :: "'b Graph"
  ls_links :: "(Identifier, bool) gomap"
  ls_errors :: "(nat \<times> go_error) list" \<comment> \<open>the calls of \<^verbatim>\<open>OnError\<close>, oldest first\<close>

record ResourceLinker =
  rl_metadata :: metadata
  rl_eventListeners :: "nat list"

definition NewResourceLinker :: "metadata \<Rightarrow> ResourceLinker" where
  "NewResourceLinker m = \<lparr>rl_metadata = m, rl_eventListeners = []\<rparr>"

definition ResourceLinker_AddEventListener :: "nat \<Rightarrow> ResourceLinker \<Rightarrow> ResourceLinker" where
  "ResourceLinker_AddEventListener l rl = rl\<lparr>rl_eventListeners := rl_eventListeners rl @ [l]\<rparr>"

definition ResourceLinker_RemoveEventListener :: "nat \<Rightarrow> ResourceLinker \<Rightarrow> ResourceLinker" where
  "ResourceLinker_RemoveEventListener l rl = rl\<lparr>rl_eventListeners := remove1 l (rl_eventListeners rl)\<rparr>"

definition notifyError :: "ResourceLinker \<Rightarrow> go_error \<Rightarrow> 'b linkState \<Rightarrow> 'b linkState" where
  "notifyError rl err st = st\<lparr>ls_errors := ls_errors st @ map (\<lambda>l. (l, err)) (rl_eventListeners rl)\<rparr>"

definition reportError :: "ResourceLinker \<Rightarrow> go_error option \<Rightarrow> 'b linkState \<Rightarrow> 'b linkState" where
  "reportError rl err st = (case err of None \<Rightarrow> st | Some err \<Rightarrow> notifyError rl err st)"

definition mapOfLinks :: "world \<Rightarrow> eref list \<Rightarrow> (Identifier, eref) gomap" where
  "mapOfLinks w edges = fold (\<lambda>e. gm_set (ID (h_edge w e)) e) edges []"

definition mergeMetadata :: "metadata \<Rightarrow> metadata \<Rightarrow> metadata" where
  "mergeMetadata extra m = fold (\<lambda>(k, v). gm_set k v) extra m"

section \<open>Node events\<close>

type_synonym 'b newLinks = "nref \<Rightarrow> 'b Graph \<Rightarrow> ('b Graph \<times> eref list) option"

text \<open>The body of the loop over the wanted links: the existing links left, and the next state.\<close>

definition linkOne ::
  "'b Backend \<Rightarrow> (Identifier \<Rightarrow> int) \<Rightarrow> ResourceLinker \<Rightarrow> Identifier \<times> eref \<Rightarrow>
   (Identifier, eref) gomap \<times> 'b linkState \<Rightarrow> ((Identifier, eref) gomap \<times> 'b linkState) option" where
  "linkOne B clock rl link es =
     (let (i, newLink) = link; (existing, st) = es; g = ls_graph st;
          x = (h_edge (g_world g) newLink)\<lparr>Metadata := mergeMetadata (rl_metadata rl) (Metadata (h_edge (g_world g) newLink))\<rparr>;
          g = g\<lparr>g_world := put_edge newLink x (g_world g)\<rparr>
      in case map_of existing i of
           None \<Rightarrow>
             (case Graph_AddEdge B newLink g of
                None \<Rightarrow> None
              | Some (g, Some err) \<Rightarrow> Some (existing, notifyError rl err (st\<lparr>ls_graph := g\<rparr>))
              | Some (g, None) \<Rightarrow> Some (existing, st\<lparr>ls_graph := g, ls_links := gm_set (ID x) True (ls_links st)\<rparr>))
         | Some oldLink \<Rightarrow>
             (case (if \<not> DeepEqual (VMetadata (Metadata x)) (VMetadata (Metadata (h_edge (g_world g) oldLink)))
                    then Graph_SetMetadata B (clock i) (EdgeElem oldLink) (Metadata x) g else Some (g, None)) of
                None \<Rightarrow> None
              | Some (g, err) \<Rightarrow> Some (gm_del i existing, reportError rl err (st\<lparr>ls_graph := g\<rparr>))))"

fun linkNew ::
  "'b Backend \<Rightarrow> (Identifier \<Rightarrow> int) \<Rightarrow> ResourceLinker \<Rightarrow> (Identifier \<times> eref) list \<Rightarrow>
   (Identifier, eref) gomap \<times> 'b linkState \<Rightarrow> ((Identifier, eref) gomap \<times> 'b linkState) option" where
  "linkNew B clock rl [] es = Some es"
| "linkNew B clock rl (link # links) es = Option.bind (linkOne B clock rl link es) (linkNew B clock rl links)"

fun unlinkOld ::
  "'b Backend \<Rightarrow> (Identifier \<Rightarrow> int) \<Rightarrow> ResourceLinker \<Rightarrow> (Identifier \<times> eref) list \<Rightarrow> 'b linkState \<Rightarrow> 'b linkState option" where
  "unlinkOld B clock rl [] st = Some st"
| "unlinkOld B clock rl ((i, oldLink) # olds) st =
     (let j = ID (h_edge (g_world (ls_graph st)) oldLink) in
      if map_of (ls_links st) j \<noteq> None
      then (case Graph_DelEdge B (clock i) oldLink (ls_graph st) of
              None \<Rightarrow> None
            | Some (g, err) \<Rightarrow>
                unlinkOld B clock rl olds
                  ((reportError rl err (st\<lparr>ls_graph := g\<rparr>))\<lparr>ls_links := gm_del j (ls_links st)\<rparr>))
      else unlinkOld B clock rl olds st)"

definition nodeEvent ::
  "'b Backend \<Rightarrow> (Identifier \<Rightarrow> int) \<Rightarrow> ((Identifier \<times> eref) list \<Rightarrow> (Identifier \<times> eref) list) \<Rightarrow> ResourceLinker \<Rightarrow>
   'b newLinks \<Rightarrow> (nref \<Rightarrow> 'b Graph \<Rightarrow> eref list) \<Rightarrow> nref \<Rightarrow> bool \<Rightarrow> 'b linkState \<Rightarrow> 'b linkState option" where
  "nodeEvent B clock rangeOrder rl newLinksFunc existingLinksFunc node deleted st =
     (case (if \<not> deleted then newLinksFunc node (ls_graph st) else Some (ls_graph st, [])) of
        None \<Rightarrow> None
      | Some (g, edges) \<Rightarrow>
          (let st = st\<lparr>ls_graph := g\<rparr>;
               newLinks = mapOfLinks (g_world g) edges;
               existingLinks = mapOfLinks (g_world g) (existingLinksFunc node g)
           in Option.bind (linkNew B clock rl (rangeOrder newLinks) (existingLinks, st))
                (\<lambda>(existingLinks, st). unlinkOld B clock rl (rangeOrder existingLinks) st)))"

definition getLinks :: "'b Backend \<Rightarrow> ResourceLinker \<Rightarrow> string \<Rightarrow> nref \<Rightarrow> 'b Graph \<Rightarrow> eref list" where
  "getLinks B rl direction node g =
     Graph_GetNodeEdges B g node
       (Some (MetadataMatcher (gm_set direction (VString (ID (h_node (g_world g) node))) (mergeMetadata (rl_metadata rl) []))))"

text \<open>The two listeners \<^verbatim>\<open>Start\<close> creates; they share the links map.\<close>

definition abEvent where
  "abEvent B clock rangeOrder rl getABLinks =
     nodeEvent B clock rangeOrder rl getABLinks (getLinks B rl ''Parent'')"

definition baEvent where
  "baEvent B clock rangeOrder rl getBALinks =
     nodeEvent B clock rangeOrder rl getBALinks (getLinks B rl ''Child'')"

text \<open>\<^verbatim>\<open>Start\<close> and \<^verbatim>\<open>Stop\<close>: a listener is registered with every handler of its side.\<close>

definition ResourceLinker_Start ::
  "EventListener \<Rightarrow> EventListener \<Rightarrow> EventHandler list \<Rightarrow> EventHandler list \<Rightarrow> EventHandler list \<times> EventHandler list" where
  "ResourceLinker_Start ab ba glhs1 glhs2 = (map (AddEventListener ab) glhs1, map (AddEventListener ba) glhs2)"

definition ResourceLinker_Stop ::
  "EventListener \<Rightarrow> EventListener \<Rightarrow> EventHandler list \<Rightarrow> EventHandler list \<Rightarrow> EventHandler list \<times> EventHandler list" where
  "ResourceLinker_Stop ab ba glhs1 glhs2 = (map (RemoveEventListener ab) glhs1, map (RemoveEventListener ba) glhs2)"

section \<open>Linking two metadata indexers\<close>

record MetadataIndexerLinker =
  mil_indexer1 :: "gval list Indexer"
  mil_indexes1 :: "string list"
  mil_indexer2 :: "gval list Indexer"
  mil_indexes2 :: "string list"
  mil_edgeMetadata :: "metadata option"

text \<open>\<^verbatim>\<open>NewMetadataIndexerLinker\<close> leaves the linker's own \<^verbatim>\<open>edgeMetadata\<close> nil.\<close>

definition NewMetadataIndexerLinker ::
  "gval list Indexer \<Rightarrow> string list \<Rightarrow> gval list Indexer \<Rightarrow> string list \<Rightarrow> metadata \<Rightarrow> MetadataIndexerLinker \<times> ResourceLinker" where
  "NewMetadataIndexerLinker indexer1 indexes1 indexer2 indexes2 edgeMetadata =
     (\<lparr>mil_indexer1 = indexer1, mil_indexes1 = indexes1, mil_indexer2 = indexer2, mil_indexes2 = indexes2,
       mil_edgeMetadata = None\<rparr>, NewResourceLinker edgeMetadata)"

fun joinSlash :: "string list \<Rightarrow> string" where
  "joinSlash [] = []"
| "joinSlash [w] = w"
| "joinSlash (w # ws) = w @ ''/'' @ joinSlash ws"

definition GenID :: "(string \<Rightarrow> string) \<Rightarrow> string list \<Rightarrow> Identifier \<Rightarrow> Identifier" where
  "GenID uuid5 s uuid4 = (if length s > 0 then uuid5 (joinSlash s) else uuid4)"

fun stringArgs :: "metadata \<Rightarrow> string list option" where
  "stringArgs [] = Some []"
| "stringArgs ((k, VString v) # m) = map_option (\<lambda>args. k # v # args) (stringArgs m)"
| "stringArgs ((k, _) # m) = None"

text \<open>\<open>None\<close> is the panic of a nil node or of a metadata value that is no string.\<close>

definition genID :: "(string \<Rightarrow> string) \<Rightarrow> MetadataIndexerLinker \<Rightarrow> world \<Rightarrow> nref \<Rightarrow> nref \<Rightarrow> Identifier option" where
  "genID uuid5 mil w parent child =
     map_option (\<lambda>args. GenID uuid5 ([ID (h_node w parent), ID (h_node w child)] @ args) [])
       (stringArgs (case mil_edgeMetadata mil of None \<Rightarrow> [] | Some m \<Rightarrow> m))"

definition createEdge ::
  "(string \<Rightarrow> string) \<Rightarrow> (Identifier \<Rightarrow> int) \<Rightarrow> MetadataIndexerLinker \<Rightarrow> nref option \<Rightarrow> nref option \<Rightarrow>
   'b Graph \<Rightarrow> ('b Graph \<times> eref) option" where
  "createEdge uuid5 clock mil node1 node2 g =
     (case (node1, node2) of
        (Some n1, Some n2) \<Rightarrow>
          (case genID uuid5 mil (g_world g) n1 n2 of
             None \<Rightarrow> None
           | Some i \<Rightarrow>
               (let (w, e) = new_edge (Graph_CreateEdge uuid5 g i (h_node (g_world g) n1) (h_node (g_world g) n2)
                                (mil_edgeMetadata mil) (clock i) [[]]) (g_world g)
                in Some (g\<lparr>g_world := w\<rparr>, e)))
      | _ \<Rightarrow> None)"

fun createEdges ::
  "(string \<Rightarrow> string) \<Rightarrow> (Identifier \<Rightarrow> int) \<Rightarrow> MetadataIndexerLinker \<Rightarrow> (nref option \<times> nref option) list \<Rightarrow>
   'b Graph \<Rightarrow> ('b Graph \<times> eref list) option" where
  "createEdges uuid5 clock mil [] g = Some (g, [])"
| "createEdges uuid5 clock mil ((n1, n2) # ends) g =
     (case createEdge uuid5 clock mil n1 n2 g of
        None \<Rightarrow> None
      | Some (g, e) \<Rightarrow> map_option (\<lambda>(g, es). (g, e # es)) (createEdges uuid5 clock mil ends g))"

definition GetABLinks ::
  "(gval list \<Rightarrow> string) \<Rightarrow> (string \<Rightarrow> string) \<Rightarrow> (Identifier \<Rightarrow> int) \<Rightarrow> 'b Backend \<Rightarrow> MetadataIndexerLinker \<Rightarrow> 'b newLinks" where
  "GetABLinks structHash uuid5 clock B mil node g =
     (case getFieldsAsArray (nodeGetter (h_node (g_world g) node)) (mil_indexes1 mil) of
        Inl _ \<Rightarrow> Some (g, [])
      | Inr vFields \<Rightarrow>
          createEdges uuid5 clock mil
            (concat (map (\<lambda>vs. map (\<lambda>n. (Some node, n)) (fst (Indexer_Get structHash B g (mil_indexer2 mil) vs))) vFields)) g)"

definition GetBALinks ::
  "(gval list \<Rightarrow> string) \<Rightarrow> (string \<Rightarrow> string) \<Rightarrow> (Identifier \<Rightarrow> int) \<Rightarrow> 'b Backend \<Rightarrow> MetadataIndexerLinker \<Rightarrow> 'b newLinks" where
  "GetBALinks structHash uuid5 clock B mil node g =
     (case getFieldsAsArray (nodeGetter (h_node (g_world g) node)) (mil_indexes2 mil) of
        Inl _ \<Rightarrow> Some (g, [])
      | Inr vFields \<Rightarrow>
          createEdges uuid5 clock mil
            (concat (map (\<lambda>vs. map (\<lambda>n. (n, Some node)) (fst (Indexer_Get structHash B g (mil_indexer1 mil) vs))) vFields)) g)"

section \<open>What a node event does to the graph\<close>

text \<open>
  Wanted links are fresh objects with distinct identifiers; existing links are stored under their
  identifiers.
\<close>

definition freshLinks :: "('b \<Rightarrow> Identifier \<rightharpoonup> eref) \<Rightarrow> 'b Graph \<Rightarrow> (Identifier \<times> eref) list \<Rightarrow> bool" where
  "freshLinks erefs g ls \<longleftrightarrow>
     distinct (map fst ls) \<and> distinct (map snd ls) \<and>
     (\<forall>(i, e) \<in> set ls. ID (h_edge (g_world g) e) = i \<and> e < h_next (g_world g) \<and> e \<notin> ran (erefs (g_backend g)))"

definition storedLinks :: "('b \<Rightarrow> Identifier \<rightharpoonup> eref) \<Rightarrow> 'b Graph \<Rightarrow> (Identifier \<times> eref) list \<Rightarrow> bool" where
  "storedLinks erefs g ls \<longleftrightarrow> distinct (map fst ls) \<and> (\<forall>(i, e) \<in> set ls. erefs (g_backend g) i = Some e)"

lemma storedLinks_mono:
  assumes "storedLinks erefs g ls" "erefs (g_backend g) \<subseteq>\<^sub>m erefs (g_backend g')"
  shows "storedLinks erefs g' ls"
proof -
  have "erefs (g_backend g) i = Some e \<Longrightarrow> erefs (g_backend g') i = Some e" for i e
    using assms(2) by (metis domI map_le_def)
  with assms(1) show ?thesis by (auto simp: storedLinks_def)
qed

text \<open>The link a wanted edge becomes.\<close>

definition wanted :: "ResourceLinker \<Rightarrow> 'b Graph \<Rightarrow> eref \<Rightarrow> Edge" where
  "wanted rl g e = (h_edge (g_world g) e)\<lparr>Metadata := mergeMetadata (rl_metadata rl) (Metadata (h_edge (g_world g) e))\<rparr>"

definition linkable :: "('b \<Rightarrow> Identifier \<rightharpoonup> nref) \<Rightarrow> 'b Graph \<Rightarrow> Edge \<Rightarrow> bool" where
  "linkable nrefs g x \<longleftrightarrow> nrefs (g_backend g) (Parent x) \<noteq> None \<and> nrefs (g_backend g) (Child x) \<noteq> None"

lemma linkOne_eq:
  "linkOne B clock rl (i, e) (existing, st) =
     (let x = wanted rl (ls_graph st) e; g = (ls_graph st)\<lparr>g_world := put_edge e x (g_world (ls_graph st))\<rparr>
      in case map_of existing i of
           None \<Rightarrow>
             (case Graph_AddEdge B e g of
                None \<Rightarrow> None
              | Some (g, Some err) \<Rightarrow> Some (existing, notifyError rl err (st\<lparr>ls_graph := g\<rparr>))
              | Some (g, None) \<Rightarrow> Some (existing, st\<lparr>ls_graph := g, ls_links := gm_set (ID x) True (ls_links st)\<rparr>))
         | Some old \<Rightarrow>
             (case (if \<not> DeepEqual (VMetadata (Metadata x)) (VMetadata (Metadata (h_edge (g_world g) old)))
                    then Graph_SetMetadata B (clock i) (EdgeElem old) (Metadata x) g else Some (g, None)) of
                None \<Rightarrow> None
              | Some (g, err) \<Rightarrow> Some (gm_del i existing, reportError rl err (st\<lparr>ls_graph := g\<rparr>))))"
  by (simp add: linkOne_def wanted_def Let_def)

text \<open>Only edges with identifiers in \<open>J\<close> change, and changes are published.\<close>

definition onlyEdges ::
  "'b Backend \<Rightarrow> ('b \<Rightarrow> Identifier \<rightharpoonup> nref) \<Rightarrow> ('b \<Rightarrow> Identifier \<rightharpoonup> eref) \<Rightarrow> Identifier set \<Rightarrow> 'b Graph \<Rightarrow> 'b Graph \<Rightarrow> bool" where
  "onlyEdges B nrefs erefs J g g' \<longleftrightarrow>
     nrefs (g_backend g') = nrefs (g_backend g) \<and>
     a_nodes (absGraph nrefs erefs g') = a_nodes (absGraph nrefs erefs g) \<and>
     (\<forall>j. j \<notin> J \<longrightarrow> a_edges (absGraph nrefs erefs g') j = a_edges (absGraph nrefs erefs g) j) \<and>
     (reliableWrites B nrefs erefs \<longrightarrow> synced nrefs erefs g \<longrightarrow> synced nrefs erefs g')"

lemma onlyEdges_trans:
  "onlyEdges B nrefs erefs J g g1 \<Longrightarrow> onlyEdges B nrefs erefs K g1 g' \<Longrightarrow> onlyEdges B nrefs erefs (J \<union> K) g g'"
  by (simp add: onlyEdges_def)

lemma onlyEdges_mono: "onlyEdges B nrefs erefs J g g' \<Longrightarrow> J \<subseteq> K \<Longrightarrow> onlyEdges B nrefs erefs K g g'"
  by (auto simp: onlyEdges_def)

text \<open>The graph has the link, with metadata the same or indistinguishable.\<close>

definition linkedAs :: "Edge \<Rightarrow> agraph \<Rightarrow> bool" where
  "linkedAs x a \<longleftrightarrow>
     (\<exists>y. a_edges a (ID x) = Some y \<and>
       (Metadata y = Metadata x \<or> DeepEqual (VMetadata (Metadata x)) (VMetadata (Metadata y))))"

text \<open>How one wanted link is dealt with.\<close>

definition linkDone ::
  "'b Backend \<Rightarrow> (world \<Rightarrow> 'b \<Rightarrow> bool) \<Rightarrow> ('b \<Rightarrow> Identifier \<rightharpoonup> nref) \<Rightarrow> ('b \<Rightarrow> Identifier \<rightharpoonup> eref) \<Rightarrow> Edge \<Rightarrow>
   (Identifier, eref) gomap \<Rightarrow> 'b linkState \<Rightarrow> 'b linkState \<Rightarrow> bool" where
  "linkDone B binv nrefs erefs x existing st st' \<longleftrightarrow>
     graph_ok binv nrefs erefs (ls_graph st') \<and> onlyEdges B nrefs erefs {ID x} (ls_graph st) (ls_graph st') \<and>
     erefs (g_backend (ls_graph st)) \<subseteq>\<^sub>m erefs (g_backend (ls_graph st')) \<and>
     h_next (g_world (ls_graph st')) = h_next (g_world (ls_graph st)) \<and>
     (\<forall>j. j \<noteq> ID x \<longrightarrow> map_of (ls_links st') j = map_of (ls_links st) j) \<and>
     (map_of existing (ID x) \<noteq> None \<longrightarrow> ls_links st' = ls_links st) \<and>
     (reliableWrites B nrefs erefs \<and> linkable nrefs (ls_graph st) x \<and>
        (map_of existing (ID x) \<noteq> None \<or> erefs (g_backend (ls_graph st)) (ID x) = None) \<longrightarrow>
      ls_errors st' = ls_errors st \<and>
      (map_of existing (ID x) = None \<longrightarrow> map_of (ls_links st') (ID x) = Some True) \<and>
      linkedAs x (absGraph nrefs erefs (ls_graph st')))"

text \<open>How the wanted links \<open>ls\<close> are dealt with; \<open>existing'\<close> are the existing links that remain.\<close>

definition linksDone ::
  "'b Backend \<Rightarrow> (world \<Rightarrow> 'b \<Rightarrow> bool) \<Rightarrow> ('b \<Rightarrow> Identifier \<rightharpoonup> nref) \<Rightarrow> ('b \<Rightarrow> Identifier \<rightharpoonup> eref) \<Rightarrow> ResourceLinker \<Rightarrow>
   (Identifier \<times> eref) list \<Rightarrow> (Identifier, eref) gomap \<Rightarrow> 'b linkState \<Rightarrow> (Identifier, eref) gomap \<Rightarrow> 'b linkState \<Rightarrow> bool" where
  "linksDone B binv nrefs erefs rl ls existing st existing' st' \<longleftrightarrow>
     graph_ok binv nrefs erefs (ls_graph st') \<and> onlyEdges B nrefs erefs (fst ` set ls) (ls_graph st) (ls_graph st') \<and>
     storedLinks erefs (ls_graph st') existing' \<and> map_of existing' = map_of existing |` (- fst ` set ls) \<and>
     (\<forall>j. j \<notin> fst ` set ls \<longrightarrow> map_of (ls_links st') j = map_of (ls_links st) j) \<and>
     (reliableWrites B nrefs erefs \<and>
        (\<forall>(i, e) \<in> set ls. linkable nrefs (ls_graph st) (wanted rl (ls_graph st) e) \<and>
           (map_of existing i \<noteq> None \<or> a_edges (absGraph nrefs erefs (ls_graph st)) i = None)) \<longrightarrow>
      ls_errors st' = ls_errors st \<and>
      (\<forall>(i, e) \<in> set ls.
         (map_of existing i = None \<longrightarrow> map_of (ls_links st') i = Some True) \<and>
         linkedAs (wanted rl (ls_graph st) e) (absGraph nrefs erefs (ls_graph st'))))"

lemma linksDone_Cons:
  assumes one: "linkDone B binv nrefs erefs (wanted rl (ls_graph st) e) existing st st1"
    and same: "\<forall>(j, e') \<in> set ls. wanted rl (ls_graph st1) e' = wanted rl (ls_graph st) e'"
    and rest: "linksDone B binv nrefs erefs rl ls (gm_del i existing) st1 existing' st'"
    and id: "ID (wanted rl (ls_graph st) e) = i" and notin: "i \<notin> fst ` set ls"
  shows "linksDone B binv nrefs erefs rl ((i, e) # ls) existing st existing' st'"
proof -
  let ?x = "wanted rl (ls_graph st) e"
  note fin = one [unfolded linkDone_def id] and ok = rest [unfolded linksDone_def]
  have only: "onlyEdges B nrefs erefs (fst ` set ((i, e) # ls)) (ls_graph st) (ls_graph st')"
    using onlyEdges_trans [of B nrefs erefs "{i}" "ls_graph st" "ls_graph st1" "fst ` set ls" "ls_graph st'"] fin ok by simp
  have map: "map_of existing' = map_of existing |` (- fst ` set ((i, e) # ls))"
    using ok by (auto simp: restrict_map_def fun_eq_iff)
  have links: "\<forall>j. j \<notin> fst ` set ((i, e) # ls) \<longrightarrow> map_of (ls_links st') j = map_of (ls_links st) j"
    using ok fin by simp
  have keep: "linkedAs ?x (absGraph nrefs erefs (ls_graph st'))" if "linkedAs ?x (absGraph nrefs erefs (ls_graph st1))"
    using that ok notin by (simp add: linkedAs_def onlyEdges_def id)
  have only1: "onlyEdges B nrefs erefs {i} (ls_graph st) (ls_graph st1)" using fin by simp
  have ne: "j \<noteq> i" if "(j, e') \<in> set ls" for j e' using that notin by force
  have want: "wanted rl (ls_graph st1) e' = wanted rl (ls_graph st) e'" if "(j, e') \<in> set ls" for j e'
    using that same by auto
  have linkable: "linkable nrefs (ls_graph st1) y \<longleftrightarrow> linkable nrefs (ls_graph st) y" for y
    using only1 by (simp add: onlyEdges_def linkable_def)
  have edges: "a_edges (absGraph nrefs erefs (ls_graph st1)) j = a_edges (absGraph nrefs erefs (ls_graph st)) j"
    if "j \<noteq> i" for j using that only1 by (simp add: onlyEdges_def)
  have none: "a_edges (absGraph nrefs erefs (ls_graph st)) i = None \<Longrightarrow> erefs (g_backend (ls_graph st)) i = None"
    by (simp add: absGraph_def)
  have "ls_errors st' = ls_errors st \<and> (\<forall>(j, e) \<in> set ((i, e) # ls).
        (map_of existing j = None \<longrightarrow> map_of (ls_links st') j = Some True) \<and>
        linkedAs (wanted rl (ls_graph st) e) (absGraph nrefs erefs (ls_graph st')))"
    if rel: "reliableWrites B nrefs erefs" and pre: "\<forall>(j, e) \<in> set ((i, e) # ls).
        linkable nrefs (ls_graph st) (wanted rl (ls_graph st) e) \<and>
        (map_of existing j \<noteq> None \<or> a_edges (absGraph nrefs erefs (ls_graph st)) j = None)"
  proof -
    have "\<forall>(j, e) \<in> set ls. linkable nrefs (ls_graph st1) (wanted rl (ls_graph st1) e) \<and>
        (map_of (gm_del i existing) j \<noteq> None \<or> a_edges (absGraph nrefs erefs (ls_graph st1)) j = None)"
      using pre ne want linkable edges by fastforce
    with ok rel have "ls_errors st' = ls_errors st1 \<and> (\<forall>(j, e) \<in> set ls.
        (map_of (gm_del i existing) j = None \<longrightarrow> map_of (ls_links st') j = Some True) \<and>
        linkedAs (wanted rl (ls_graph st1) e) (absGraph nrefs erefs (ls_graph st')))" by blast
    then have "ls_errors st' = ls_errors st1 \<and> (\<forall>(j, e) \<in> set ls.
        (map_of existing j = None \<longrightarrow> map_of (ls_links st') j = Some True) \<and>
        linkedAs (wanted rl (ls_graph st) e) (absGraph nrefs erefs (ls_graph st')))"
      using ne want by fastforce
    moreover have "map_of (ls_links st') i = map_of (ls_links st1) i" using ok notin by blast
    moreover have "ls_errors st1 = ls_errors st \<and> (map_of existing i = None \<longrightarrow> map_of (ls_links st1) i = Some True) \<and>
        linkedAs ?x (absGraph nrefs erefs (ls_graph st1))"
      using fin rel pre none by (cases "map_of existing i") simp_all
    ultimately show ?thesis using keep by simp
  qed
  then show ?thesis using ok only map links unfolding linksDone_def by blast
qed

context backend_laws
begin

lemma fresh_put_edge:
  assumes ok: "graph_ok binv nrefs erefs g" and e: "e \<notin> ran (erefs (g_backend g))"
  shows "graph_ok binv nrefs erefs (g\<lparr>g_world := put_edge e x (g_world g)\<rparr>)"
    and "absGraph nrefs erefs (g\<lparr>g_world := put_edge e x (g_world g)\<rparr>) = absGraph nrefs erefs g"
proof -
  show "graph_ok binv nrefs erefs (g\<lparr>g_world := put_edge e x (g_world g)\<rparr>)"
    using e by (intro graph_ok_world [OF ok]) (auto simp: same_ids_def)
  have "map_option ((h_edge (g_world g))(e := x)) (erefs (g_backend g) j) = map_option (h_edge (g_world g)) (erefs (g_backend g) j)" for j
    using e by (cases "erefs (g_backend g) j") (auto simp: ran_def)
  then show "absGraph nrefs erefs (g\<lparr>g_world := put_edge e x (g_world g)\<rparr>) = absGraph nrefs erefs g"
    by (simp add: absGraph_def)
qed

text \<open>Setting the metadata of a stored edge.\<close>

lemma SetMetadata_edge:
  assumes ok: "graph_ok binv nrefs erefs g" and e: "erefs (g_backend g) j = Some e"
    and diff: "\<not> DeepEqual (VMetadata m) (VMetadata (Metadata (h_edge (g_world g) e)))"
  shows "\<exists>g' err. Graph_SetMetadata B t (EdgeElem e) m g = Some (g', err) \<and> graph_ok binv nrefs erefs g' \<and>
    (reliableWrites B nrefs erefs \<longrightarrow> err = None) \<and>
    effect nrefs erefs g (put_edge e (revise m t (h_edge (g_world g) e)) (g_world g)) (nrefs (g_backend g)) (erefs (g_backend g))
      EdgeUpdated (EdgeElem e) g' err"
proof -
  let ?w = "put_edge e (revise m t (h_edge (g_world g) e)) (g_world g)"
  let ?g = "g\<lparr>g_world := ?w\<rparr>"
  have ok': "graph_ok binv nrefs erefs ?g"
    by (intro graph_ok_world [OF ok] same_ids_put_edge) (simp_all add: revise_def)
  have "ID (h_edge ?w e) = j"
    using edge_id [OF _ e, of "g_world g"] ok by (simp add: graph_ok_def revise_def)
  then have "reliableWrites B nrefs erefs \<longrightarrow> snd (be_MetadataUpdated B ?w (g_backend g) (EdgeElem e)) = None"
    using e reliableWritesD(5) [of B nrefs erefs "g_backend g" ?w e] by simp
  with publish_MetadataUpdated [OF ok', of EdgeUpdated "EdgeElem e"] diff show ?thesis
    by (auto simp: Graph_SetMetadata_def publishRevision_def effect_world)
qed

lemma onlyEdges_refl: "onlyEdges B nrefs erefs J g g"
  by (simp add: onlyEdges_def)

lemma onlyEdges_fresh:
  "graph_ok binv nrefs erefs g \<Longrightarrow> e \<notin> ran (erefs (g_backend g)) \<Longrightarrow>
   onlyEdges B nrefs erefs J g (g\<lparr>g_world := put_edge e x (g_world g)\<rparr>)"
  by (simp add: onlyEdges_def fresh_put_edge(2) synced_def)

lemma AddEdge_only:
  assumes ok: "graph_ok binv nrefs erefs g" and e: "e < h_next (g_world g)" and x: "x = h_edge (g_world g) e"
    and fresh: "e \<notin> ran (erefs (g_backend g))"
  shows "\<exists>g' err. Graph_AddEdge B e g = Some (g', err) \<and> graph_ok binv nrefs erefs g' \<and>
    onlyEdges B nrefs erefs {ID x} g g' \<and> erefs (g_backend g) \<subseteq>\<^sub>m erefs (g_backend g') \<and>
    ran (erefs (g_backend g')) \<subseteq> insert e (ran (erefs (g_backend g))) \<and> g_world g' = g_world g \<and>
    (reliableWrites B nrefs erefs \<and> linkable nrefs g x \<and> erefs (g_backend g) (ID x) = None \<longrightarrow>
      err = None \<and> a_edges (absGraph nrefs erefs g') (ID x) = Some x)"
proof -
  obtain g' err where g': "Graph_AddEdge B e g = Some (g', err)" "graph_ok binv nrefs erefs g'"
    and err: "err = snd (be_EdgeAdded B (g_world g) (g_backend g) e)"
    and eff: "if erefs (g_backend g) (ID x) \<noteq> None then g' = g \<and> err = Some ErrEdgeConflict
     else if nrefs (g_backend g) (Parent x) = None then g' = g \<and> err = Some ErrParentNotFound
     else if nrefs (g_backend g) (Child x) = None then g' = g \<and> err = Some ErrChildNotFound
     else effect nrefs erefs g (g_world g) (nrefs (g_backend g)) ((erefs (g_backend g))(ID x \<mapsto> e)) EdgeAdded (EdgeElem e) g' err"
    using AddEdge_effect [OF ok e x] by (elim exE conjE) (rule that)
  have sync: "reliableWrites B nrefs erefs \<longrightarrow> synced nrefs erefs g \<longrightarrow> synced nrefs erefs g'"
    using AddEdge_step [OF ok e] g'(1) by (simp add: okStep_def)
  have refs: "g_world g' = g_world g \<and> nrefs (g_backend g') = nrefs (g_backend g) \<and>
      (erefs (g_backend g') = erefs (g_backend g) \<or>
       erefs (g_backend g) (ID x) = None \<and> erefs (g_backend g') = (erefs (g_backend g))(ID x \<mapsto> e))"
    using eff by (auto simp: effect_def split: if_splits)
  then have "onlyEdges B nrefs erefs {ID x} g g' \<and> erefs (g_backend g) \<subseteq>\<^sub>m erefs (g_backend g')"
    using sync by (auto simp: onlyEdges_def absGraph_def map_le_def)
  moreover have "err = None \<and> a_edges (absGraph nrefs erefs g') (ID x) = Some x"
    if "reliableWrites B nrefs erefs" "linkable nrefs g x" "erefs (g_backend g) (ID x) = None"
    using that eff err x by (auto simp: reliableWrites_def linkable_def effect_def absGraph_def)
  ultimately show ?thesis using g' refs by (intro exI [of _ g'] exI [of _ err]) (auto simp: ran_def split: if_splits)
qed

lemma SetMetadata_only:
  assumes ok: "graph_ok binv nrefs erefs g" and e: "erefs (g_backend g) j = Some e"
    and diff: "\<not> DeepEqual (VMetadata m) (VMetadata (Metadata (h_edge (g_world g) e)))"
  shows "\<exists>g' err. Graph_SetMetadata B t (EdgeElem e) m g = Some (g', err) \<and> graph_ok binv nrefs erefs g' \<and>
    onlyEdges B nrefs erefs {j} g g' \<and> erefs (g_backend g') = erefs (g_backend g) \<and>
    g_world g' = put_edge e (revise m t (h_edge (g_world g) e)) (g_world g) \<and>
    (reliableWrites B nrefs erefs \<longrightarrow> err = None) \<and>
    (\<exists>y. a_edges (absGraph nrefs erefs g') j = Some y \<and> Metadata y = m)"
proof -
  have id: "ID (h_edge (g_world g) e) = j" using edge_id [OF _ e] ok by (simp add: graph_ok_def)
  obtain g' err where g': "Graph_SetMetadata B t (EdgeElem e) m g = Some (g', err)" "graph_ok binv nrefs erefs g'"
    "reliableWrites B nrefs erefs \<longrightarrow> err = None"
    and eff: "effect nrefs erefs g (put_edge e (revise m t (h_edge (g_world g) e)) (g_world g)) (nrefs (g_backend g))
      (erefs (g_backend g)) EdgeUpdated (EdgeElem e) g' err"
    using SetMetadata_edge [OF ok e diff, of t] by (elim exE conjE) (rule that)
  have "okStep B binv nrefs erefs g (runOp (\<lambda>_. []) B (SetMetadataOp t (EdgeElem e) m) g)"
    using e id by (intro runOp_step [OF ok]) simp
  then have sync: "reliableWrites B nrefs erefs \<longrightarrow> synced nrefs erefs g \<longrightarrow> synced nrefs erefs g'"
    using g'(1) by (simp add: okStep_def)
  have others: "map_option ((h_edge (g_world g))(e := x)) (erefs (g_backend g) k) =
      map_option (h_edge (g_world g)) (erefs (g_backend g) k)" if "k \<noteq> j" for k x
    using that ok e by (cases "erefs (g_backend g) k") (auto simp: graph_ok_def dest: eref_id_inj)
  show ?thesis using g' eff sync others e
    by (intro exI [of _ g'] exI [of _ err]) (auto simp: onlyEdges_def effect_def absGraph_def revise_def)
qed

text \<open>What is still to be linked stays fresh.\<close>

lemma freshLinks_later:
  assumes "freshLinks erefs g ((i, e) # ls)" "h_next (g_world g') = h_next (g_world g)"
    and "ran (erefs (g_backend g')) \<subseteq> insert e (ran (erefs (g_backend g)))"
    and "\<forall>e'. e' \<noteq> e \<and> e' \<notin> ran (erefs (g_backend g)) \<longrightarrow> h_edge (g_world g') e' = h_edge (g_world g) e'"
  shows "freshLinks erefs g' ls \<and> (\<forall>(j, e') \<in> set ls. wanted rl g' e' = wanted rl g e')"
proof -
  have "\<forall>(j, e') \<in> set ls. e' \<noteq> e \<and> j \<noteq> i" using assms(1) by (auto simp: freshLinks_def image_iff)
  then show ?thesis using assms by (fastforce simp: freshLinks_def wanted_def)
qed

lemma linkOne_done:
  assumes ok: "graph_ok binv nrefs erefs (ls_graph st)"
    and fresh: "freshLinks erefs (ls_graph st) ((i, e) # ls)" and stored: "storedLinks erefs (ls_graph st) existing"
    and x: "x = wanted rl (ls_graph st) e"
  shows "\<exists>st'. linkOne B clock rl (i, e) (existing, st) = Some (gm_del i existing, st') \<and>
    linkDone B binv nrefs erefs x existing st st' \<and> freshLinks erefs (ls_graph st') ls \<and>
    storedLinks erefs (ls_graph st') (gm_del i existing) \<and>
    (\<forall>(j, e') \<in> set ls. wanted rl (ls_graph st') e' = wanted rl (ls_graph st) e')"
proof -
  let ?g = "ls_graph st"
  let ?h = "?g\<lparr>g_world := put_edge e x (g_world ?g)\<rparr>"
  from fresh have e: "e \<notin> ran (erefs (g_backend ?g))" "e < h_next (g_world ?g)" "ID (h_edge (g_world ?g) e) = i"
    by (auto simp: freshLinks_def)
  have id: "ID x = i" using x e(3) by (simp add: wanted_def)
  have okh: "graph_ok binv nrefs erefs ?h" by (rule fresh_put_edge [OF ok e(1)])
  have only: "onlyEdges B nrefs erefs {i} ?g ?h" by (rule onlyEdges_fresh [OF ok e(1)])
  note def = linkOne_eq [of B clock rl i e existing st, folded x] and later = freshLinks_later [OF fresh, of _ rl]
  show ?thesis
  proof (cases "map_of existing i")
    case None
    have xh: "x = h_edge (g_world ?h) e" by simp
    obtain g' err where g': "Graph_AddEdge B e ?h = Some (g', err)" "graph_ok binv nrefs erefs g'"
      "onlyEdges B nrefs erefs {ID x} ?h g'" "erefs (g_backend ?h) \<subseteq>\<^sub>m erefs (g_backend g')"
      "ran (erefs (g_backend g')) \<subseteq> insert e (ran (erefs (g_backend ?h)))" "g_world g' = g_world ?h"
      "reliableWrites B nrefs erefs \<and> linkable nrefs ?h x \<and> erefs (g_backend ?h) (ID x) = None \<longrightarrow>
        err = None \<and> a_edges (absGraph nrefs erefs g') (ID x) = Some x"
      using AddEdge_only [OF okh _ xh] e by auto
    have only': "onlyEdges B nrefs erefs {i} ?g g'" using onlyEdges_trans [OF only g'(3)] id by simp
    have stored': "storedLinks erefs g' existing"
      by (rule storedLinks_mono [OF stored]) (use g'(4) in simp)
    have later': "freshLinks erefs g' ls \<and> (\<forall>(j, e') \<in> set ls. wanted rl g' e' = wanted rl ?g e')"
      by (rule later) (use g'(5,6) in simp_all)
    show ?thesis unfolding def using None g' only' stored' later' id
      by (cases err) (auto simp: linkDone_def linkedAs_def notifyError_def gm_del_missing linkable_def)
  next
    case (Some old)
    then have old: "erefs (g_backend ?h) i = Some old" using stored map_of_SomeD [OF Some] by (auto simp: storedLinks_def)
    then have ne: "old \<noteq> e" using e(1) by (auto simp: ran_def)
    have stored': "storedLinks erefs g' (gm_del i existing)" if "erefs (g_backend g') = erefs (g_backend ?g)" for g'
      using stored that distinct_delete [of existing i] by (auto simp: storedLinks_def AList.delete_eq)
    show ?thesis
    proof (cases "DeepEqual (VMetadata (Metadata x)) (VMetadata (Metadata (h_edge (g_world ?h) old)))")
      case True
      have "freshLinks erefs ?h ls \<and> (\<forall>(j, e') \<in> set ls. wanted rl ?h e' = wanted rl ?g e')" by (rule later) auto
      with True show ?thesis unfolding def using Some okh only stored' [of ?h] id old ne
        by (auto simp: linkDone_def linkedAs_def reportError_def absGraph_def simp del: DeepEqual.simps)
    next
      case False
      obtain g' err y where g': "Graph_SetMetadata B (clock i) (EdgeElem old) (Metadata x) ?h = Some (g', err)"
        "graph_ok binv nrefs erefs g'" "onlyEdges B nrefs erefs {i} ?h g'" "erefs (g_backend g') = erefs (g_backend ?h)"
        "g_world g' = put_edge old (revise (Metadata x) (clock i) (h_edge (g_world ?h) old)) (g_world ?h)"
        "reliableWrites B nrefs erefs \<longrightarrow> err = None"
        "a_edges (absGraph nrefs erefs g') i = Some y" "Metadata y = Metadata x"
        using SetMetadata_only [OF okh old False, of "clock i"] by (elim exE conjE) (rule that)
      have only': "onlyEdges B nrefs erefs {i} ?g g'" using onlyEdges_trans [OF only g'(3)] by simp
      have later': "freshLinks erefs g' ls \<and> (\<forall>(j, e') \<in> set ls. wanted rl g' e' = wanted rl ?g e')"
        by (rule later) (use g'(4,5) old in \<open>auto simp: ran_def\<close>)
      show ?thesis unfolding def using Some False g' only' stored' [of g'] later' id
        by (cases err) (auto simp: linkDone_def linkedAs_def reportError_def notifyError_def simp del: DeepEqual.simps)
    qed
  qed
qed

text \<open>The loop over the wanted links.\<close>

lemma linkNew_done:
  assumes "graph_ok binv nrefs erefs (ls_graph st)"
    and "freshLinks erefs (ls_graph st) ls" and "storedLinks erefs (ls_graph st) existing"
  shows "\<exists>existing' st'. linkNew B clock rl ls (existing, st) = Some (existing', st') \<and>
    linksDone B binv nrefs erefs rl ls existing st existing' st'"
  using assms
proof (induction ls arbitrary: existing st)
  case Nil
  then show ?case by (auto simp: linksDone_def onlyEdges_refl restrict_map_def)
next
  case (Cons l ls)
  obtain i e where l: "l = (i, e)" by (cases l)
  obtain st1 where one: "linkOne B clock rl (i, e) (existing, st) = Some (gm_del i existing, st1)"
      "linkDone B binv nrefs erefs (wanted rl (ls_graph st) e) existing st st1" "freshLinks erefs (ls_graph st1) ls"
      "storedLinks erefs (ls_graph st1) (gm_del i existing)"
      "\<forall>(j, e') \<in> set ls. wanted rl (ls_graph st1) e' = wanted rl (ls_graph st) e'"
    using linkOne_done [OF Cons.prems(1) Cons.prems(2) [unfolded l] Cons.prems(3) refl, of clock rl]
    by (elim exE conjE) (rule that)
  have id: "ID (wanted rl (ls_graph st) e) = i" "i \<notin> fst ` set ls"
    using Cons.prems(2) by (auto simp: l wanted_def freshLinks_def)
  have "graph_ok binv nrefs erefs (ls_graph st1)" using one(2) by (simp add: linkDone_def)
  from Cons.IH [OF this one(3,4)] obtain existing' st' where
    rest: "linkNew B clock rl ls (gm_del i existing, st1) = Some (existing', st')"
      "linksDone B binv nrefs erefs rl ls (gm_del i existing) st1 existing' st'" by blast
  show ?case using linksDone_Cons [OF one(2,5) rest(2) id] one(1) rest(1) by (auto simp: l)
qed

text \<open>The loop over the existing links nobody wants any more: the managed ones go.\<close>

lemma DelEdge_only:
  assumes ok: "graph_ok binv nrefs erefs g" and e: "erefs (g_backend g) j = Some e"
  shows "\<exists>g' err. Graph_DelEdge B t e g = Some (g', err) \<and> graph_ok binv nrefs erefs g' \<and>
    onlyEdges B nrefs erefs {j} g g' \<and> erefs (g_backend g') = (erefs (g_backend g))(j := None) \<and>
    (reliableWrites B nrefs erefs \<longrightarrow> err = None)"
proof -
  have id: "ID (h_edge (g_world g) e) = j" using edge_id [OF _ e] ok by (simp add: graph_ok_def)
  have ends: "endsAgree erefs g e" by (simp add: endsAgree_def id e)
  let ?w = "put_edge e ((h_edge (g_world g) e)\<lparr>DeletedAt := t\<rparr>) (g_world g)"
  obtain g' err where g': "Graph_delEdge B t e g = Some (g', err)" "graph_ok binv nrefs erefs g'"
    and err: "err = snd (be_EdgeDeleted B ?w (g_backend g) e)"
    and eff: "effect nrefs erefs g ?w (nrefs (g_backend g)) ((erefs (g_backend g))(j := None)) EdgeDeleted (EdgeElem e) g' err"
    using delEdge_effect [OF ok refl refl ends, of t] unfolding id e by auto
  have sync: "reliableWrites B nrefs erefs \<longrightarrow> synced nrefs erefs g \<longrightarrow> synced nrefs erefs g'"
    using delEdge_step [OF ok ends, of t] g'(1) by (simp add: okStep_def)
  have others: "map_option ((h_edge (g_world g))(e := x)) (erefs (g_backend g) k) =
      map_option (h_edge (g_world g)) (erefs (g_backend g) k)" if "k \<noteq> j" for k x
    using that ok e by (cases "erefs (g_backend g) k") (auto simp: graph_ok_def dest: eref_id_inj)
  have "reliableWrites B nrefs erefs \<longrightarrow> err = None"
    using reliableWritesD(3) [of B nrefs erefs "g_backend g" ?w e] err id e by simp
  then show ?thesis using g' eff sync others
    by (intro exI [of _ g'] exI [of _ err]) (auto simp: Graph_DelEdge_def onlyEdges_def effect_def absGraph_def)
qed

lemma unlinkOld_done:
  assumes "graph_ok binv nrefs erefs (ls_graph st)" "storedLinks erefs (ls_graph st) olds"
  shows "\<exists>st'. unlinkOld B clock rl olds st = Some st' \<and> graph_ok binv nrefs erefs (ls_graph st') \<and>
    onlyEdges B nrefs erefs (fst ` set olds \<inter> dom (map_of (ls_links st))) (ls_graph st) (ls_graph st') \<and>
    map_of (ls_links st') = map_of (ls_links st) |` (- fst ` set olds) \<and>
    (\<forall>j \<in> fst ` set olds \<inter> dom (map_of (ls_links st)). a_edges (absGraph nrefs erefs (ls_graph st')) j = None) \<and>
    (reliableWrites B nrefs erefs \<longrightarrow> ls_errors st' = ls_errors st)"
  using assms
proof (induction olds arbitrary: st)
  case Nil
  then show ?case by (simp add: onlyEdges_refl restrict_map_def)
next
  case (Cons l olds)
  obtain i e where l: "l = (i, e)" by (cases l)
  have e: "erefs (g_backend (ls_graph st)) i = Some e" and notin: "i \<notin> fst ` set olds"
    and rest: "storedLinks erefs (ls_graph st) olds" using Cons.prems(2) by (auto simp: l storedLinks_def)
  have id: "ID (h_edge (g_world (ls_graph st)) e) = i" using edge_id [OF _ e] Cons.prems(1) by (simp add: graph_ok_def)
  show ?case
  proof (cases "map_of (ls_links st) i")
    case None
    have "m |` (- insert i S) = m |` (- S)" if "m i = None" for m :: "Identifier \<rightharpoonup> bool" and S
      using that by (auto simp: restrict_map_def fun_eq_iff)
    with Cons.IH [OF Cons.prems(1) rest] None show ?thesis by (auto simp: l id dom_def)
  next
    case (Some v)
    obtain g' err where g': "Graph_DelEdge B (clock i) e (ls_graph st) = Some (g', err)" "graph_ok binv nrefs erefs g'"
      "onlyEdges B nrefs erefs {i} (ls_graph st) g'" "erefs (g_backend g') = (erefs (g_backend (ls_graph st)))(i := None)"
      "reliableWrites B nrefs erefs \<longrightarrow> err = None"
      using DelEdge_only [OF Cons.prems(1) e, of "clock i"] by (elim exE conjE) (rule that)
    let ?st = "(reportError rl err (st\<lparr>ls_graph := g'\<rparr>))\<lparr>ls_links := gm_del i (ls_links st)\<rparr>"
    have sel: "ls_graph ?st = g'" "ls_links ?st = gm_del i (ls_links st)"
      "reliableWrites B nrefs erefs \<longrightarrow> ls_errors ?st = ls_errors st"
      using g'(5) by (auto simp: reportError_def notifyError_def split: option.split)
    have "storedLinks erefs (ls_graph ?st) olds" using rest g'(4) notin by (force simp: sel storedLinks_def)
    from Cons.IH [OF _ this] g'(2) obtain st' where st': "unlinkOld B clock rl olds ?st = Some st'"
      "graph_ok binv nrefs erefs (ls_graph st')"
      "onlyEdges B nrefs erefs (fst ` set olds \<inter> dom (map_of (ls_links ?st))) g' (ls_graph st')"
      "map_of (ls_links st') = map_of (ls_links ?st) |` (- fst ` set olds)"
      "\<forall>j \<in> fst ` set olds \<inter> dom (map_of (ls_links ?st)). a_edges (absGraph nrefs erefs (ls_graph st')) j = None"
      "reliableWrites B nrefs erefs \<longrightarrow> ls_errors st' = ls_errors ?st" unfolding sel(1) by blast
    have call: "unlinkOld B clock rl (l # olds) st = Some st'" using st'(1) g'(1) Some by (simp add: l id Let_def)
    have doms: "fst ` set (l # olds) \<inter> dom (map_of (ls_links st)) = insert i (fst ` set olds \<inter> dom (map_of (ls_links ?st)))"
      using Some notin unfolding sel by (auto simp: l dom_def)
    have only: "onlyEdges B nrefs erefs (fst ` set (l # olds) \<inter> dom (map_of (ls_links st))) (ls_graph st) (ls_graph st')"
      using onlyEdges_trans [OF g'(3) st'(3)] unfolding doms by simp
    have "a_edges (absGraph nrefs erefs (ls_graph st')) i = a_edges (absGraph nrefs erefs g') i"
      using st'(3) notin by (auto simp: onlyEdges_def)
    then have gone: "a_edges (absGraph nrefs erefs (ls_graph st')) i = None" using g'(4) by (simp add: absGraph_def)
    have links: "map_of (ls_links st') = map_of (ls_links st) |` (- fst ` set (l # olds))"
      unfolding st'(4) sel by (auto simp: l restrict_map_def fun_eq_iff)
    show ?thesis using call st'(2,5,6) only gone links sel(3) unfolding doms by auto
  qed
qed

end

text \<open>A \<^verbatim>\<open>range\<close> visits every entry of the map once.\<close>

definition rangeOk :: "(('k \<times> 'v) list \<Rightarrow> ('k \<times> 'v) list) \<Rightarrow> bool" where
  "rangeOk rangeOrder \<longleftrightarrow>
     (\<forall>m. distinct (map fst m) \<longrightarrow> distinct (map fst (rangeOrder m)) \<and> set (rangeOrder m) = set m)"

lemma mapOfLinks_wf: "distinct (map fst (mapOfLinks w es))"
proof -
  have "distinct (map fst m) \<Longrightarrow> distinct (map fst (fold (\<lambda>e. gm_set (ID (h_edge w e)) e) es m))" for m
    by (induction es arbitrary: m) (simp_all add: distinct_update)
  then show ?thesis by (simp add: mapOfLinks_def)
qed

lemma mapOfLinks_lookup:
  "map_of (mapOfLinks w es) j = Some e \<Longrightarrow> e \<in> set es \<and> ID (h_edge w e) = j"
proof -
  have "map_of (fold (\<lambda>e. gm_set (ID (h_edge w e)) e) es m) j = Some e \<Longrightarrow>
      map_of m j = Some e \<or> e \<in> set es \<and> ID (h_edge w e) = j" for m
  proof (induction es arbitrary: m)
    case (Cons x es)
    from Cons.IH [of "gm_set (ID (h_edge w x)) x m"] Cons.prems show ?case by (auto split: if_splits)
  qed simp
  then show "map_of (mapOfLinks w es) j = Some e \<Longrightarrow> e \<in> set es \<and> ID (h_edge w e) = j"
    by (fastforce simp: mapOfLinks_def)
qed

lemma mapOfLinks_member: "(j, e) \<in> set (mapOfLinks w es) \<Longrightarrow> e \<in> set es \<and> ID (h_edge w e) = j"
  by (rule mapOfLinks_lookup) (simp add: mapOfLinks_wf)

lemma mapOfLinks_keys: "fst ` set (mapOfLinks w es) = (\<lambda>e. ID (h_edge w e)) ` set es"
proof -
  have "fst ` set (fold (\<lambda>e. gm_set (ID (h_edge w e)) e) es m) = fst ` set m \<union> (\<lambda>e. ID (h_edge w e)) ` set es" for m
    by (induction es arbitrary: m) (auto simp: dom_update)
  then show ?thesis by (simp add: mapOfLinks_def)
qed

text \<open>The edges an indexer linker wants, for pairs of nodes that are in the graph.\<close>

definition newEdges ::
  "'b Graph \<Rightarrow> (nref option \<times> nref option) list \<Rightarrow> 'b Graph \<Rightarrow> eref list \<Rightarrow> bool" where
  "newEdges g ends g' es \<longleftrightarrow>
     g' = g\<lparr>g_world := g_world g'\<rparr> \<and> h_node (g_world g') = h_node (g_world g) \<and> h_env (g_world g') = h_env (g_world g) \<and>
     h_next (g_world g) \<le> h_next (g_world g') \<and>
     (\<forall>e < h_next (g_world g). h_edge (g_world g') e = h_edge (g_world g) e) \<and>
     (\<forall>e \<in> set es. h_next (g_world g) \<le> e \<and> e < h_next (g_world g')) \<and>
     map (\<lambda>e. (Some (Parent (h_edge (g_world g') e)), Some (Child (h_edge (g_world g') e)))) es =
       map (\<lambda>(p, c). (map_option (\<lambda>n. ID (h_node (g_world g) n)) p, map_option (\<lambda>n. ID (h_node (g_world g) n)) c)) ends"

text \<open>The identifiers of the wanted links and of the managed links a node has.\<close>

definition linkIds :: "'b Graph \<Rightarrow> eref list \<Rightarrow> Identifier set" where
  "linkIds g es = (\<lambda>e. ID (h_edge (g_world g) e)) ` set es"

definition managed :: "'b linkState \<Rightarrow> Identifier set" where
  "managed st = dom (map_of (ls_links st))"

context backend_laws
begin

lemma freshLinks_map:
  assumes "rangeOk ro" and "\<forall>e \<in> set es. e < h_next (g_world g) \<and> e \<notin> ran (erefs (g_backend g))"
  shows "freshLinks erefs g (ro (mapOfLinks (g_world g) es))"
proof -
  let ?m = "ro (mapOfLinks (g_world g) es)"
  have m: "distinct (map fst ?m)" "set ?m = set (mapOfLinks (g_world g) es)"
    using assms(1) mapOfLinks_wf by (auto simp: rangeOk_def)
  have "inj_on snd (set ?m)" by (rule inj_onI) (auto simp: m(2) dest!: mapOfLinks_member)
  with m(1) have "distinct (map snd ?m)" by (simp add: distinct_map)
  with m assms(2) show ?thesis by (auto simp: freshLinks_def dest: mapOfLinks_member)
qed

lemma storedLinks_map:
  assumes "graph_ok binv nrefs erefs g" "set es \<subseteq> ran (erefs (g_backend g))"
  shows "storedLinks erefs g (mapOfLinks (g_world g) es)"
proof -
  have "erefs (g_backend g) i = Some e" if "(i, e) \<in> set (mapOfLinks (g_world g) es)" for i e
    using assms mapOfLinks_member [OF that] edge_id unfolding graph_ok_def ran_def by blast
  then show ?thesis by (auto simp: storedLinks_def mapOfLinks_wf)
qed

text \<open>
  A node event over wanted links \<open>es\<close>, fresh edges created by \<open>newLinksFunc\<close>, and existing links
  \<open>old\<close>: it returns, touches only these links, has every wanted link in the graph and no managed
  one that is not wanted.
\<close>

lemma nodeEvent_done:
  assumes ro: "rangeOk rangeOrder"
    and new: "(if \<not> deleted then newLinksFunc node (ls_graph st) else Some (ls_graph st, [])) = Some (g, es)"
    and ok: "graph_ok binv nrefs erefs g"
    and fresh: "\<forall>e \<in> set es. e < h_next (g_world g) \<and> e \<notin> ran (erefs (g_backend g))"
    and old: "old = existingLinksFunc node g" "set old \<subseteq> ran (erefs (g_backend g))"
  shows "\<exists>st'. nodeEvent B clock rangeOrder rl newLinksFunc existingLinksFunc node deleted st = Some st' \<and>
    graph_ok binv nrefs erefs (ls_graph st') \<and>
    onlyEdges B nrefs erefs (linkIds g es \<union> linkIds g old \<inter> managed st) g (ls_graph st') \<and>
    (\<forall>j \<in> (linkIds g old - linkIds g es) \<inter> managed st. a_edges (absGraph nrefs erefs (ls_graph st')) j = None) \<and>
    (reliableWrites B nrefs erefs \<and> (\<forall>e \<in> set es. linkable nrefs g (h_edge (g_world g) e)) \<and>
      (\<forall>j \<in> linkIds g es. j \<in> linkIds g old \<or> a_edges (absGraph nrefs erefs g) j = None) \<longrightarrow>
     ls_errors st' = ls_errors st \<and>
     (\<forall>(j, e) \<in> set (mapOfLinks (g_world g) es). linkedAs (wanted rl g e) (absGraph nrefs erefs (ls_graph st'))))"
proof -
  let ?ls = "rangeOrder (mapOfLinks (g_world g) es)" and ?ex = "mapOfLinks (g_world g) old"
  let ?st = "st\<lparr>ls_graph := g\<rparr>"
  have ls: "set ?ls = set (mapOfLinks (g_world g) es)" using ro mapOfLinks_wf by (auto simp: rangeOk_def)
  have ids: "fst ` set ?ls = linkIds g es" "fst ` set ?ex = linkIds g old"
    by (simp_all add: ls mapOfLinks_keys linkIds_def)
  obtain ex st1 where one: "linkNew B clock rl ?ls (?ex, ?st) = Some (ex, st1)"
      "linksDone B binv nrefs erefs rl ?ls ?ex ?st ex st1"
    using linkNew_done [of ?st ?ls ?ex clock rl] ok freshLinks_map [OF ro fresh] storedLinks_map [OF ok old(2)] by auto
  have sel: "ls_graph ?st = g" "ls_links ?st = ls_links st" "ls_errors ?st = ls_errors st" by simp_all
  note fin = one(2) [unfolded linksDone_def ids sel]
  have ex: "distinct (map fst ex)" "map_of ex = map_of ?ex |` (- linkIds g es)" using fin by (simp_all add: storedLinks_def)
  have ro': "set (rangeOrder ex) = set ex" "distinct (map fst (rangeOrder ex))" using ro ex(1) by (auto simp: rangeOk_def)
  have exk: "fst ` set (rangeOrder ex) = linkIds g old - linkIds g es"
    unfolding ro' dom_map_of_conv_image_fst [symmetric] ex(2) dom_restrict
    using ids(2) by (auto simp: dom_map_of_conv_image_fst)
  have "storedLinks erefs (ls_graph st1) (rangeOrder ex)" using fin ro' by (simp add: storedLinks_def)
  with unlinkOld_done [of st1 "rangeOrder ex" clock rl] fin obtain st' where
    two: "unlinkOld B clock rl (rangeOrder ex) st1 = Some st'" "graph_ok binv nrefs erefs (ls_graph st')"
      "onlyEdges B nrefs erefs (fst ` set (rangeOrder ex) \<inter> dom (map_of (ls_links st1))) (ls_graph st1) (ls_graph st')"
      "\<forall>j \<in> fst ` set (rangeOrder ex) \<inter> dom (map_of (ls_links st1)). a_edges (absGraph nrefs erefs (ls_graph st')) j = None"
      "reliableWrites B nrefs erefs \<longrightarrow> ls_errors st' = ls_errors st1" by blast
  have call: "nodeEvent B clock rangeOrder rl newLinksFunc existingLinksFunc node deleted st = Some st'"
    using one(1) two(1) by (simp add: nodeEvent_def new old(1) Let_def)
  have dom1: "fst ` set (rangeOrder ex) \<inter> dom (map_of (ls_links st1)) = (linkIds g old - linkIds g es) \<inter> managed st"
    using fin unfolding exk managed_def dom_def by auto
  have only: "onlyEdges B nrefs erefs (linkIds g es \<union> linkIds g old \<inter> managed st) g (ls_graph st')"
    by (rule onlyEdges_mono [OF onlyEdges_trans [OF _ two(3)], of "linkIds g es"]) (use fin dom1 in auto)
  have keep: "linkedAs x (absGraph nrefs erefs (ls_graph st'))"
    if "linkedAs x (absGraph nrefs erefs (ls_graph st1))" "ID x \<in> linkIds g es" for x
    using that two(3) exk by (simp add: linkedAs_def onlyEdges_def)
  have "ls_errors st' = ls_errors st \<and>
      (\<forall>(j, e) \<in> set (mapOfLinks (g_world g) es). linkedAs (wanted rl g e) (absGraph nrefs erefs (ls_graph st')))"
    if rel: "reliableWrites B nrefs erefs" and pre: "\<forall>e \<in> set es. linkable nrefs g (h_edge (g_world g) e)"
      "\<forall>j \<in> linkIds g es. j \<in> linkIds g old \<or> a_edges (absGraph nrefs erefs g) j = None"
  proof -
    have "linkable nrefs g (wanted rl g e) \<and> (map_of ?ex i \<noteq> None \<or> a_edges (absGraph nrefs erefs g) i = None)"
      if "(i, e) \<in> set ?ls" for i e
    proof -
      from that have e: "e \<in> set es" "ID (h_edge (g_world g) e) = i" unfolding ls by (auto dest: mapOfLinks_member)
      then have "i \<in> linkIds g es" by (auto simp: linkIds_def)
      with pre e show ?thesis by (auto simp: linkable_def wanted_def gm_keys_iff [symmetric] ids(2) simp del: not_None_eq)
    qed
    then have "\<forall>(i, e) \<in> set ?ls. linkable nrefs g (wanted rl g e) \<and>
        (map_of ?ex i \<noteq> None \<or> a_edges (absGraph nrefs erefs g) i = None)"
      by (intro ballI) (auto simp del: not_None_eq)
    with fin rel have "ls_errors st1 = ls_errors st \<and> (\<forall>(i, e) \<in> set ?ls.
        (map_of ?ex i = None \<longrightarrow> map_of (ls_links st1) i = Some True) \<and>
        linkedAs (wanted rl g e) (absGraph nrefs erefs (ls_graph st1)))" by blast
    moreover have "ID (wanted rl g e) \<in> linkIds g es" if "(i, e) \<in> set ?ls" for i e
      using that unfolding ls by (auto simp: wanted_def linkIds_def dest: mapOfLinks_member)
    ultimately show ?thesis using two(5) rel keep unfolding ls by fastforce
  qed
  then show ?thesis using call two(2,4) only unfolding dom1 by (intro exI [of _ st'] conjI impI) simp_all
qed

lemma createEdges_new:
  assumes "graph_ok binv nrefs erefs g" "mil_edgeMetadata mil = None" "\<forall>(p, c) \<in> set ends. p \<noteq> None \<and> c \<noteq> None"
  shows "\<exists>g' es. createEdges uuid5 clock mil ends g = Some (g', es) \<and> graph_ok binv nrefs erefs g' \<and>
    newEdges g ends g' es \<and> (synced nrefs erefs g \<longrightarrow> synced nrefs erefs g')"
  using assms
proof (induction ends arbitrary: g)
  case Nil
  then show ?case by (simp add: newEdges_def)
next
  case (Cons pc ends)
  obtain p c where pc: "pc = (Some p, Some c)" using Cons.prems(3) by auto
  obtain w e where new: "new_edge (Graph_CreateEdge uuid5 g (GenID uuid5 [ID (h_node (g_world g) p), ID (h_node (g_world g) c)] [])
      (h_node (g_world g) p) (h_node (g_world g) c) None (clock (GenID uuid5 [ID (h_node (g_world g) p), ID (h_node (g_world g) c)] [])) [[]])
      (g_world g) = (w, e)" by fastforce
  let ?g = "g\<lparr>g_world := w\<rparr>"
  have one: "createEdge uuid5 clock mil (Some p) (Some c) g = Some (?g, e)"
    using new Cons.prems(2) by (simp add: createEdge_def genID_def)
  note n = new_edge_ok [OF Cons.prems(1) new]
  from Cons.IH [OF n(1) Cons.prems(2)] Cons.prems(3) obtain g' es where
    rest: "createEdges uuid5 clock mil ends ?g = Some (g', es)" "graph_ok binv nrefs erefs g'" "newEdges ?g ends g' es"
      "synced nrefs erefs ?g \<longrightarrow> synced nrefs erefs g'" by auto
  have w: "h_node w = h_node (g_world g)" "h_env w = h_env (g_world g)" "e = h_next (g_world g)" "h_next w = Suc e"
    "\<forall>x < h_next (g_world g). h_edge w x = h_edge (g_world g) x"
    "Parent (h_edge w e) = ID (h_node (g_world g) p)" "Child (h_edge w e) = ID (h_node (g_world g) c)"
    using new by (auto simp: new_edge_def Graph_CreateEdge_def CreateEdge_def)
  have "newEdges g (pc # ends) g' (e # es)"
    using rest(3) w by (auto simp: newEdges_def pc)
  then show ?case using one rest n(4) by (auto simp: pc)
qed

end

end
