(* ===== verification/Graph_Theorems.thy ===== *)
theory Graph_Theorems
  imports ShortestPath Graph_Queries Linker
begin

text \<open>
  The properties of the graph and of what is built on it, stated over the in-memory and the cached
  backend through the interpretations of the backend contract, each with a concrete instance.
\<close>

section \<open>Refinement of the abstract graph\<close>

context reliable_backend
begin

lemma AddNode_spec:
  assumes ok: "graph_ok binv nrefs erefs g" and r: "r < h_next (g_world g)" and n: "n = h_node (g_world g) r"
  shows "\<exists>g' err. Graph_AddNode B r g = Some (g', err) \<and> graph_ok binv nrefs erefs g' \<and>
    (absGraph nrefs erefs g', err) = specAddNode n (absGraph nrefs erefs g) \<and>
    g_published g' = g_published g @ (if err = None then [(NodeAdded, NodeSnap n)] else [])"
proof -
  obtain g' err where g': "Graph_AddNode B r g = Some (g', err)" "graph_ok binv nrefs erefs g'"
    "err = snd (be_NodeAdded B (g_world g) (g_backend g) r)"
    "if nrefs (g_backend g) (ID n) \<noteq> None then g' = g \<and> err = Some ErrNodeConflict
     else effect nrefs erefs g (g_world g) ((nrefs (g_backend g))(ID n \<mapsto> r)) (erefs (g_backend g)) NodeAdded (NodeElem r) g' err"
    using AddNode_effect [OF ok r, of "ID n"] n by blast
  have "nrefs (g_backend g) (ID n) = None \<Longrightarrow> err = None" using node_added_ok g'(3) n by simp
  then show ?thesis using g'(1,2,4) n
    by (cases "nrefs (g_backend g) (ID n)")
      (auto simp: specAddNode_def absGraph_def effect_def fun_eq_iff)
qed

lemma AddEdge_spec:
  assumes ok: "graph_ok binv nrefs erefs g" and e: "e < h_next (g_world g)" and x: "x = h_edge (g_world g) e"
  shows "\<exists>g' err. Graph_AddEdge B e g = Some (g', err) \<and> graph_ok binv nrefs erefs g' \<and>
    (absGraph nrefs erefs g', err) = specAddEdge x (absGraph nrefs erefs g) \<and>
    g_published g' = g_published g @ (if err = None then [(EdgeAdded, EdgeSnap x)] else [])"
proof -
  obtain g' err where g': "Graph_AddEdge B e g = Some (g', err)" "graph_ok binv nrefs erefs g'"
    "err = snd (be_EdgeAdded B (g_world g) (g_backend g) e)"
    "if erefs (g_backend g) (ID x) \<noteq> None then g' = g \<and> err = Some ErrEdgeConflict
     else if nrefs (g_backend g) (Parent x) = None then g' = g \<and> err = Some ErrParentNotFound
     else if nrefs (g_backend g) (Child x) = None then g' = g \<and> err = Some ErrChildNotFound
     else effect nrefs erefs g (g_world g) (nrefs (g_backend g)) ((erefs (g_backend g))(ID x \<mapsto> e)) EdgeAdded (EdgeElem e) g' err"
    using AddEdge_effect [OF ok e x] by (elim exE conjE) (rule that)
  have "erefs (g_backend g) (ID x) = None \<Longrightarrow> nrefs (g_backend g) (Parent x) \<noteq> None \<Longrightarrow>
      nrefs (g_backend g) (Child x) \<noteq> None \<Longrightarrow> err = None" using edge_added_ok g'(3) x by simp
  then show ?thesis using g'(1,2,4) x
    by (cases "erefs (g_backend g) (ID x)"; cases "nrefs (g_backend g) (Parent x)"; cases "nrefs (g_backend g) (Child x)")
      (auto simp: specAddEdge_def absGraph_def effect_def fun_eq_iff)
qed

lemma abs_without:
  assumes ok: "graph_ok binv nrefs erefs g" and es: "set es = {e \<in> ran (erefs (g_backend g)). incident (g_world g) e i}"
  shows "map_option (h_edge (delWorld t es (g_world g))) (without es (erefs (g_backend g)) j) =
    (case a_edges (absGraph nrefs erefs g) j of
       Some e \<Rightarrow> if Parent e = i \<or> Child e = i then None else Some e | None \<Rightarrow> None)"
  using es by (cases "erefs (g_backend g) j") (auto simp: without_def absGraph_def delWorld_def incident_def ranI)

lemma DelNode_spec:
  assumes ok: "graph_ok binv nrefs erefs g" and i: "i = ID (h_node (g_world g) r)"
  shows "\<exists>g' err es. Graph_DelNode B t r g = Some (g', err) \<and> graph_ok binv nrefs erefs g' \<and>
    (absGraph nrefs erefs g', err) = specDelNode i (absGraph nrefs erefs g) \<and>
    (err = None \<longrightarrow> set es = {e \<in> ran (erefs (g_backend g)). incident (g_world g) e i} \<and> distinct es \<and>
      g_published g' = g_published g @
        map (\<lambda>e. (EdgeDeleted, EdgeSnap ((h_edge (g_world g) e)\<lparr>DeletedAt := t\<rparr>))) es @
        [(NodeDeleted, NodeSnap ((h_node (g_world g) r)\<lparr>DeletedAt := t\<rparr>))])"
proof -
  define es where "es = be_GetNodeEdges B (g_world g) (g_backend g) r liveContext None"
  let ?w = "put_node r ((h_node (g_world g) r)\<lparr>DeletedAt := t\<rparr>) (delWorld t es (g_world g))"
  have inv: "binv (g_world g) (g_backend g)" using ok by (simp add: graph_ok_def)
  have es: "distinct es" "set es = {e \<in> ran (erefs (g_backend g)). incident (g_world g) e i}"
    using get_node_edges [OF inv, of liveContext r None] by (auto simp: es_def i Edge_MatchMetadata_def liveContext_def)
  have del: "deletesEdges B erefs" by (simp add: deletesEdges_def edge_deleted_ok)
  obtain g' err where g': "Graph_delNode B t r g = Some (g', err)" "graph_ok binv nrefs erefs g'"
    "nrefs (g_backend g) i = None \<longrightarrow> err = Some ErrNodeNotFound \<and> g' = g\<lparr>g_world := ?w\<rparr>"
    "deletesEdges B erefs \<and> nrefs (g_backend g) i \<noteq> None \<longrightarrow>
      (\<exists>g1. edgesDeleted nrefs erefs t es g g1 \<and> err = snd (be_NodeDeleted B ?w (g_backend g1) r) \<and>
        effect nrefs erefs g1 ?w ((nrefs (g_backend g))(i := None)) (without es (erefs (g_backend g)))
          NodeDeleted (NodeElem r) g' err)"
    using delNode_effect [OF ok i es_def refl, of t] by (elim exE conjE) (rule that)
  have nodes: "map_option (h_node ?w) (((nrefs (g_backend g))(i := None)) k) =
      (if k = i then None else map_option (h_node (g_world g)) (nrefs (g_backend g) k))" for k
    using node_id [OF inv, of k r] i by (cases "nrefs (g_backend g) k") (auto simp: delWorld_def)
  show ?thesis
  proof (cases "nrefs (g_backend g) i")
    case None
    then have "es = []" using es(2) incident_stored [OF inv] by (metis (mono_tags, lifting) empty_Collect_eq set_empty2)
    then have "delWorld t es (g_world g) = g_world g" by (simp add: delWorld_def)
    then have "absGraph nrefs erefs g' = absGraph nrefs erefs g"
      using abs_put_node_missing [OF ok, of r] None g'(3) i by simp
    then show ?thesis using g' None by (auto simp: Graph_DelNode_def specDelNode_def absGraph_def)
  next
    case (Some r')
    with g'(4) del obtain g1 where g1: "edgesDeleted nrefs erefs t es g g1" "err = snd (be_NodeDeleted B ?w (g_backend g1) r)"
      "effect nrefs erefs g1 ?w ((nrefs (g_backend g))(i := None)) (without es (erefs (g_backend g))) NodeDeleted (NodeElem r) g' err"
      by auto
    have "err = None"
      using g1(1,2) node_deleted_ok [of "g_backend g1" ?w r] Some i by (simp add: edgesDeleted_def)
    with g1(3) have eff: "g_world g' = ?w" "nrefs (g_backend g') = (nrefs (g_backend g))(i := None)"
      "erefs (g_backend g') = without es (erefs (g_backend g))"
      "g_published g' = g_published g1 @ [(NodeDeleted, NodeSnap ((h_node (g_world g) r)\<lparr>DeletedAt := t\<rparr>))]"
      by (simp_all add: effect_def)
    have "a_nodes (absGraph nrefs erefs g') = (a_nodes (absGraph nrefs erefs g))(i := None)"
      using nodes by (simp add: absGraph_def eff fun_eq_iff)
    moreover have "a_edges (absGraph nrefs erefs g') j = (case a_edges (absGraph nrefs erefs g) j of
        Some e \<Rightarrow> if Parent e = i \<or> Child e = i then None else Some e | None \<Rightarrow> None)" for j
      using abs_without [OF ok es(2), of t j] by (simp add: absGraph_def eff)
    moreover have "a_nodes (absGraph nrefs erefs g) i \<noteq> None" using Some by (simp add: absGraph_def)
    ultimately have "(absGraph nrefs erefs g', err) = specDelNode i (absGraph nrefs erefs g)"
      using \<open>err = None\<close> by (simp add: specDelNode_def fun_eq_iff)
    then show ?thesis using g'(1,2) es eff(4) g1(1)
      by (intro exI [of _ g'] exI [of _ err] exI [of _ es]) (simp add: Graph_DelNode_def edgesDeleted_def)
  qed
qed

end

section \<open>Concrete graphs\<close>

definition someNode :: Node where
  "someNode = CreateNode [] None 0 [] []"

definition emptyEnv :: regex_env where
  "emptyEnv = \<lparr>regexpCache = [], cidrRegex = (\<lambda>s. s), regexMatch = (=)\<rparr>"

definition emptyWorld :: world where
  "emptyWorld = \<lparr>h_node = (\<lambda>_. someNode), h_edge = (\<lambda>_. CreateEdge [] someNode someNode None 0 [] []),
                 h_next = 0, h_env = emptyEnv\<rparr>"

definition sampleOps :: "gop list" where
  "sampleOps =
     [NewNodeOp 1 ''a'' None [], NewNodeOp 2 ''b'' None [], NewNodeOp 3 ''c'' (Some [(''Type'', VString ''veth'')]) [],
      LinkOp 4 ''ab'' 0 1 [] [], NewEdgeOp 5 ''bc'' 1 2 None [], AddMetadataOp 6 (NodeElem 2) ''MTU'' (VInt KInt64 1500),
      DelNodeOp 7 1]"

lemma NewGraph_ok: "graph_ok mem_inv memNodeRefs memEdgeRefs (NewGraph host w NewMemoryBackend service)"
  by (simp add: graph_ok_def NewGraph_def NewMemoryBackend_inv idle_def NewEventHandler_def)
    (simp add: NewMemoryBackend_def memNodeRefs_def memEdgeRefs_def ran_def)

lemma NewGraph_synced: "synced memNodeRefs memEdgeRefs (NewGraph host w NewMemoryBackend service)"
  by (simp add: synced_def replay_def emptyAbs_def absGraph_def NewGraph_def NewMemoryBackend_def memNodeRefs_def memEdgeRefs_def)

definition sampleGraph :: "MemoryBackend Graph" where
  "sampleGraph = the (runOps (\<lambda>s. s) memoryBackend sampleOps (NewGraph ''h'' emptyWorld NewMemoryBackend ''agent''))"

text \<open>The graph of the first six calls, before the node is deleted again.\<close>

definition linkedGraph :: "MemoryBackend Graph" where
  "linkedGraph = the (runOps (\<lambda>s. s) memoryBackend (butlast sampleOps) (NewGraph ''h'' emptyWorld NewMemoryBackend ''agent''))"

lemma linkedGraph_ok: "graph_ok mem_inv memNodeRefs memEdgeRefs linkedGraph"
proof -
  have "callsOk memNodeRefs memEdgeRefs (\<lambda>s. s) memoryBackend (butlast sampleOps)
      (NewGraph ''h'' emptyWorld NewMemoryBackend ''agent'')" by code_simp
  from mem.runOps_ok [OF NewGraph_ok this] show ?thesis by (auto simp: linkedGraph_def)
qed

section \<open>Graphs over their life\<close>

text \<open>C1: Sequences of calls on a new in-memory graph with any listeners that produce no events of their own.  Every call returns,
  errors included, and the graph stays well formed, provided that the calls get pointers to existing nodes and edges, that an edge to
  delete has the ends of the edge of the graph, and that \<^verbatim>\<open>UpdateMetadata\<close> gets no edge while somebody listens
  (\<open>callsSafe\<close>).  When moreover metadata are changed through the elements the graph holds and not through copies, and
  \<^verbatim>\<open>UpdateMetadata\<close> is called for nodes with callbacks that report a change (\<open>callsOk\<close>), replaying the events that
  were published from the empty graph gives exactly the graph, so a listener that mirrors the events never diverges, and every
  event is lawful where it happens: it adds what is missing, updates or deletes what is there, and removes a node after its
  edges.\<close>

theorem memory_graph_replay:
  assumes new: "g0 = listening ls (NewGraph host w NewMemoryBackend service)" and safe: "callsSafe memEdgeRefs uuid5 memoryBackend ops g0"
  shows "\<exists>g. runOps uuid5 memoryBackend ops g0 = Some g \<and> graph_ok mem_inv memNodeRefs memEdgeRefs g \<and>
    (callsOk memNodeRefs memEdgeRefs uuid5 memoryBackend ops g0 \<longrightarrow>
       replay (g_published g) = absGraph memNodeRefs memEdgeRefs g \<and> lawfulFrom emptyAbs (g_published g))"
proof -
  have ok: "graph_ok mem_inv memNodeRefs memEdgeRefs g0" "synced memNodeRefs memEdgeRefs g0"
    by (simp_all add: new listening_ok NewGraph_ok NewGraph_synced)
  from mem.runOps_safe [OF ok(1) safe] obtain g where "runOps uuid5 memoryBackend ops g0 = Some g"
    "graph_ok mem_inv memNodeRefs memEdgeRefs g" by blast
  then show ?thesis using mem.runOps_ok [OF ok(1), of uuid5 ops] ok(2) mem.reliable unfolding synced_def by auto
qed

theorem memory_graph_replay_witness:
  "\<exists>g. runOps id memoryBackend sampleOps (listening [0, 1] (NewGraph ''h'' emptyWorld NewMemoryBackend ''agent'')) = Some g \<and>
    graph_ok mem_inv memNodeRefs memEdgeRefs g \<and>
    replay (g_published g) = absGraph memNodeRefs memEdgeRefs g \<and> lawfulFrom emptyAbs (g_published g)"
proof -
  have "callsSafe memEdgeRefs id memoryBackend sampleOps (listening [0, 1] (NewGraph ''h'' emptyWorld NewMemoryBackend ''agent''))"
    "callsOk memNodeRefs memEdgeRefs id memoryBackend sampleOps (listening [0, 1] (NewGraph ''h'' emptyWorld NewMemoryBackend ''agent''))"
    by code_simp+
  with memory_graph_replay [OF refl this(1)] show ?thesis by auto
qed

text \<open>
  The second condition is needed: a callback of \<^verbatim>\<open>UpdateMetadata\<close> that reports no change leaves the node with a new
  revision that no event has.
\<close>

definition silentOps :: "gop list" where
  "silentOps = [NewNodeOp 1 ''a'' (Some [(''Name'', VString ''x'')]) [], UpdateMetadataOp 2 (NodeElem 0) ''Name'' (\<lambda>v m. (m, False))]"

lemma silent_update_diverges:
  "callsSafe memEdgeRefs id memoryBackend silentOps (NewGraph ''h'' emptyWorld NewMemoryBackend ''agent'')"
  "case runOps id memoryBackend silentOps (NewGraph ''h'' emptyWorld NewMemoryBackend ''agent'') of
     Some g \<Rightarrow> a_nodes (replay (g_published g)) ''a'' \<noteq> a_nodes (absGraph memNodeRefs memEdgeRefs g) ''a'' | None \<Rightarrow> False"
  by code_simp+

text \<open>A persistent backend every write of which fails.\<close>

definition brokenBackend :: "unit Backend" where
  "brokenBackend =
     \<lparr>be_NodeAdded = (\<lambda>w b r. (b, Some ErrBackend)), be_NodeDeleted = (\<lambda>w b r. (b, Some ErrBackend)),
      be_GetNode = (\<lambda>w b i t. []), be_GetNodeEdges = (\<lambda>w b r t m. []),
      be_EdgeAdded = (\<lambda>w b e. (b, Some ErrBackend)), be_EdgeDeleted = (\<lambda>w b e. (b, Some ErrBackend)),
      be_GetEdge = (\<lambda>w b i t. []), be_GetEdgeNodes = (\<lambda>w b e t pm cm. Some ([], [])),
      be_MetadataUpdated = (\<lambda>w b x. (b, Some ErrBackend)), be_GetNodes = (\<lambda>w b t m. []),
      be_GetEdges = (\<lambda>w b t m. []), be_IsHistorySupported = (\<lambda>b. False)\<rparr>"

lemma NewCachedGraph_ok: "graph_ok cached_inv cachedNodeRefs cachedEdgeRefs (NewGraph host w (NewCachedBackend p) service)"
  using NewGraph_ok [of host w service]
  by (simp add: graph_ok_def NewGraph_def NewCachedBackend_def)

text \<open>C18: On the cached backend over any persistent backend, failing ones included, from a new graph with any listeners
  that produce no events of their own: every call returns, and the live graph stays well formed, identifiers match and no edge
  dangles.  The calls get pointers to existing nodes and edges, an edge to delete has the ends of the edge of the graph, and
  \<^verbatim>\<open>UpdateMetadata\<close> gets no edge while somebody listens.\<close>

theorem cached_graph_safe:
  assumes new: "g0 = listening ls (NewGraph host w (NewCachedBackend p) service)"
    and safe: "callsSafe cachedEdgeRefs uuid5 (cachedBackend P) ops g0"
  shows "\<exists>g. runOps uuid5 (cachedBackend P) ops g0 = Some g \<and>
    graph_ok cached_inv cachedNodeRefs cachedEdgeRefs g \<and> agraph_wf (absGraph cachedNodeRefs cachedEdgeRefs g)"
proof -
  have "graph_ok cached_inv cachedNodeRefs cachedEdgeRefs g0" by (simp add: new listening_ok NewCachedGraph_ok)
  from cached.runOps_safe [OF this safe] cached.agraph_wf_abs show ?thesis by blast
qed

theorem cached_graph_safe_witness:
  "\<exists>g. runOps (\<lambda>s. s) (cachedBackend (Some brokenBackend)) sampleOps (listening [0] (NewGraph ''h'' emptyWorld (NewCachedBackend ()) ''agent'')) = Some g \<and>
    graph_ok cached_inv cachedNodeRefs cachedEdgeRefs g \<and> agraph_wf (absGraph cachedNodeRefs cachedEdgeRefs g)"
proof (rule cached_graph_safe [OF refl])
  show "callsSafe cachedEdgeRefs (\<lambda>s. s) (cachedBackend (Some brokenBackend)) sampleOps
      (listening [0] (NewGraph ''h'' emptyWorld (NewCachedBackend ()) ''agent''))" by code_simp
qed

text \<open>C2: \<^verbatim>\<open>DelNode\<close> refines the abstract deletion: the node goes together with every edge that touches
  it and nothing else, a missing node is an error and changes nothing, and the listeners first
  hear of the edges and then of the node.\<close>

theorem DelNode_refines:
  assumes "graph_ok mem_inv memNodeRefs memEdgeRefs g" "i = ID (h_node (g_world g) r)"
  shows "\<exists>g' err es. Graph_DelNode memoryBackend t r g = Some (g', err) \<and> graph_ok mem_inv memNodeRefs memEdgeRefs g' \<and>
    (absGraph memNodeRefs memEdgeRefs g', err) = specDelNode i (absGraph memNodeRefs memEdgeRefs g) \<and>
    (err = None \<longrightarrow> set es = {e \<in> ran (memEdgeRefs (g_backend g)). incident (g_world g) e i} \<and> distinct es \<and>
      g_published g' = g_published g @
        map (\<lambda>e. (EdgeDeleted, EdgeSnap ((h_edge (g_world g) e)\<lparr>DeletedAt := t\<rparr>))) es @
        [(NodeDeleted, NodeSnap ((h_node (g_world g) r)\<lparr>DeletedAt := t\<rparr>))])"
  by (rule mem.DelNode_spec [OF assms])

theorem DelNode_refines_witness:
  "\<exists>g' err es. Graph_DelNode memoryBackend 9 1 linkedGraph = Some (g', err) \<and> graph_ok mem_inv memNodeRefs memEdgeRefs g' \<and>
    (absGraph memNodeRefs memEdgeRefs g', err) = specDelNode ''b'' (absGraph memNodeRefs memEdgeRefs linkedGraph) \<and>
    (err = None \<longrightarrow> set es = {e \<in> ran (memEdgeRefs (g_backend linkedGraph)). incident (g_world linkedGraph) e ''b''} \<and> distinct es \<and>
      g_published g' = g_published linkedGraph @
        map (\<lambda>e. (EdgeDeleted, EdgeSnap ((h_edge (g_world linkedGraph) e)\<lparr>DeletedAt := 9\<rparr>))) es @
        [(NodeDeleted, NodeSnap ((h_node (g_world linkedGraph) 1)\<lparr>DeletedAt := 9\<rparr>))])"
proof (rule DelNode_refines [OF linkedGraph_ok])
  show "''b'' = ID (h_node (g_world linkedGraph) 1)" by code_simp
qed

text \<open>\<^verbatim>\<open>AddEdge\<close> refines the abstract insertion: an edge is added when its identifier is free and both
  ends are in the graph; otherwise the error names the first reason and nothing changes.\<close>

theorem AddEdge_refines:
  assumes "graph_ok mem_inv memNodeRefs memEdgeRefs g" "e < h_next (g_world g)" "x = h_edge (g_world g) e"
  shows "\<exists>g' err. Graph_AddEdge memoryBackend e g = Some (g', err) \<and> graph_ok mem_inv memNodeRefs memEdgeRefs g' \<and>
    (absGraph memNodeRefs memEdgeRefs g', err) = specAddEdge x (absGraph memNodeRefs memEdgeRefs g) \<and>
    g_published g' = g_published g @ (if err = None then [(EdgeAdded, EdgeSnap x)] else [])"
  by (rule mem.AddEdge_spec [OF assms])

theorem AddEdge_refines_witness:
  "\<exists>g' err. Graph_AddEdge memoryBackend 3 linkedGraph = Some (g', err) \<and> graph_ok mem_inv memNodeRefs memEdgeRefs g' \<and>
    (absGraph memNodeRefs memEdgeRefs g', err) =
      specAddEdge (h_edge (g_world linkedGraph) 3) (absGraph memNodeRefs memEdgeRefs linkedGraph) \<and>
    g_published g' = g_published linkedGraph @ (if err = None then [(EdgeAdded, EdgeSnap (h_edge (g_world linkedGraph) 3))] else [])"
proof (rule AddEdge_refines [OF linkedGraph_ok _ refl])
  show "3 < h_next (g_world linkedGraph)" by code_simp
qed

text \<open>\<^verbatim>\<open>AddNode\<close> refines the abstract insertion: a node is added and announced when its identifier is
  free, and is a conflict that changes nothing otherwise.\<close>

theorem AddNode_refines:
  assumes "graph_ok mem_inv memNodeRefs memEdgeRefs g" "r < h_next (g_world g)" "n = h_node (g_world g) r"
  shows "\<exists>g' err. Graph_AddNode memoryBackend r g = Some (g', err) \<and> graph_ok mem_inv memNodeRefs memEdgeRefs g' \<and>
    (absGraph memNodeRefs memEdgeRefs g', err) = specAddNode n (absGraph memNodeRefs memEdgeRefs g) \<and>
    g_published g' = g_published g @ (if err = None then [(NodeAdded, NodeSnap n)] else [])"
  by (rule mem.AddNode_spec [OF assms])

theorem AddNode_refines_witness:
  "\<exists>g' err. Graph_AddNode memoryBackend 2 linkedGraph = Some (g', err) \<and> graph_ok mem_inv memNodeRefs memEdgeRefs g' \<and>
    (absGraph memNodeRefs memEdgeRefs g', err) =
      specAddNode (h_node (g_world linkedGraph) 2) (absGraph memNodeRefs memEdgeRefs linkedGraph) \<and>
    g_published g' = g_published linkedGraph @ (if err = None then [(NodeAdded, NodeSnap (h_node (g_world linkedGraph) 2))] else [])"
proof (rule AddNode_refines [OF linkedGraph_ok _ refl])
  show "2 < h_next (g_world linkedGraph)" by code_simp
qed

section \<open>Queries\<close>

lemma mem_nodes_bound: "card (ran (memNodeRefs b)) \<le> length (mb_nodes b)"
proof -
  have "ran (memNodeRefs b) \<subseteq> (mn_Node \<circ> snd) ` set (mb_nodes b)"
    by (auto simp: ran_def memNodeRefs_def dest!: map_of_SomeD intro!: image_eqI)
  then have "card (ran (memNodeRefs b)) \<le> card ((mn_Node \<circ> snd) ` set (mb_nodes b))" by (rule card_mono [rotated]) simp
  also have "\<dots> \<le> card (set (mb_nodes b))" by (rule card_image_le) simp
  finally show ?thesis using card_length [of "mb_nodes b"] by simp
qed

text \<open>C3: \<^verbatim>\<open>LookupShortestPath\<close> returns, and its answer is optimal: when the matched node is reachable over
  edges that match, the path starts at the given node, follows edges, ends at the match and has
  as few hops as any path; when it is unreachable the answer is empty.\<close>

theorem shortest_path_correct:
  assumes "graph_ok mem_inv memNodeRefs memEdgeRefs g" "memNodeRefs (g_backend g) [] = None"
    and "card (ran (memNodeRefs (g_backend g))) < 2 ^ 64"
    and "findNodeMatchMetadata (g_world g) (GetNodesMap memoryBackend g (g_context g)) m = Some t"
    and "E = linked memNodeRefs memEdgeRefs g em"
  shows "\<exists>p. LookupShortestPath memoryBackend g n m em = Some p \<and>
    (\<forall>r. memNodeRefs (g_backend g) (ID (h_node (g_world g) n)) = Some r \<and> (t, r) \<in> E\<^sup>* \<longrightarrow>
       (\<exists>xs. p = n # xs \<and> walk E (r # xs) \<and> last (r # xs) = t \<and> length xs = hops E t r)) \<and>
    ((\<forall>r. memNodeRefs (g_backend g) (ID (h_node (g_world g) n)) = Some r \<longrightarrow> (t, r) \<notin> E\<^sup>*) \<longrightarrow> p = [])"
  by (rule mem.LookupShortestPath_live [OF assms])

theorem shortest_path_correct_witness:
  "\<exists>p. LookupShortestPath memoryBackend linkedGraph 0 (Some (MetadataMatcher [(''Type'', VString ''veth'')])) None = Some p \<and>
    (\<forall>r. memNodeRefs (g_backend linkedGraph) (ID (h_node (g_world linkedGraph) 0)) = Some r \<and>
         (2, r) \<in> (linked memNodeRefs memEdgeRefs linkedGraph None)\<^sup>* \<longrightarrow>
       (\<exists>xs. p = 0 # xs \<and> walk (linked memNodeRefs memEdgeRefs linkedGraph None) (r # xs) \<and> last (r # xs) = 2 \<and>
          length xs = hops (linked memNodeRefs memEdgeRefs linkedGraph None) 2 r)) \<and>
    ((\<forall>r. memNodeRefs (g_backend linkedGraph) (ID (h_node (g_world linkedGraph) 0)) = Some r \<longrightarrow>
        (2, r) \<notin> (linked memNodeRefs memEdgeRefs linkedGraph None)\<^sup>*) \<longrightarrow> p = [])"
proof (rule shortest_path_correct [OF linkedGraph_ok _ _ _ refl])
  show "memNodeRefs (g_backend linkedGraph) [] = None" by code_simp
  have "length (mb_nodes (g_backend linkedGraph)) = 3" by code_simp
  with mem_nodes_bound [of "g_backend linkedGraph"] show "card (ran (memNodeRefs (g_backend linkedGraph))) < 2 ^ 64" by simp
  show "findNodeMatchMetadata (g_world linkedGraph) (GetNodesMap memoryBackend linkedGraph (g_context linkedGraph))
      (Some (MetadataMatcher [(''Type'', VString ''veth'')])) = Some 2" by code_simp
qed

text \<open>\<^verbatim>\<open>LookupChildren\<close> returns exactly the nodes that match the node filter and hang below the node by
  an edge that matches the edge filter.\<close>

theorem LookupChildren_exact:
  assumes "graph_ok mem_inv memNodeRefs memEdgeRefs g"
  shows "\<exists>ns. LookupChildren memoryBackend g n f em = Some ns \<and>
    set ns = {c \<in> ran (memNodeRefs (g_backend g)). Node_MatchMetadata (h_env (g_world g)) f (h_node (g_world g) c) \<and>
      (\<exists>e \<in> ran (memEdgeRefs (g_backend g)). Edge_MatchMetadata (h_env (g_world g)) em (h_edge (g_world g) e) \<and>
         Parent (h_edge (g_world g) e) = ID (h_node (g_world g) n) \<and>
         Child (h_edge (g_world g) e) = ID (h_node (g_world g) c))}"
  by (rule mem.LookupChildren_live [OF assms])

theorem LookupChildren_exact_witness:
  "\<exists>ns. LookupChildren memoryBackend linkedGraph 1 None None = Some ns \<and>
    set ns = {c \<in> ran (memNodeRefs (g_backend linkedGraph)).
      Node_MatchMetadata (h_env (g_world linkedGraph)) None (h_node (g_world linkedGraph) c) \<and>
      (\<exists>e \<in> ran (memEdgeRefs (g_backend linkedGraph)). Edge_MatchMetadata (h_env (g_world linkedGraph)) None (h_edge (g_world linkedGraph) e) \<and>
         Parent (h_edge (g_world linkedGraph) e) = ID (h_node (g_world linkedGraph) 1) \<and>
         Child (h_edge (g_world linkedGraph) e) = ID (h_node (g_world linkedGraph) c))}"
  by (rule LookupChildren_exact [OF linkedGraph_ok])

text \<open>\<^verbatim>\<open>AreLinked\<close> returns, and says whether some matching edge touches both nodes.\<close>

theorem AreLinked_exact:
  assumes "graph_ok mem_inv memNodeRefs memEdgeRefs g"
  shows "AreLinked memoryBackend g n1 n2 m = Some (\<exists>e \<in> ran (memEdgeRefs (g_backend g)).
      Edge_MatchMetadata (h_env (g_world g)) m (h_edge (g_world g) e) \<and>
      incident (g_world g) e (ID (h_node (g_world g) n1)) \<and> incident (g_world g) e (ID (h_node (g_world g) n2)))"
  by (rule mem.AreLinked_live [OF assms])

theorem AreLinked_exact_witness:
  "AreLinked memoryBackend linkedGraph 0 2 None = Some (\<exists>e \<in> ran (memEdgeRefs (g_backend linkedGraph)).
      Edge_MatchMetadata (h_env (g_world linkedGraph)) None (h_edge (g_world linkedGraph) e) \<and>
      incident (g_world linkedGraph) e (ID (h_node (g_world linkedGraph) 0)) \<and>
      incident (g_world linkedGraph) e (ID (h_node (g_world linkedGraph) 2)))"
  by (rule AreLinked_exact [OF linkedGraph_ok])

text \<open>\<^verbatim>\<open>Diff\<close> of two graphs gives exactly the nodes and edges whose identifiers were added and removed.\<close>

theorem Diff_exact:
  assumes "graph_ok mem_inv memNodeRefs memEdgeRefs g" "graph_ok mem_inv memNodeRefs memEdgeRefs g'"
    and "Graph_Diff memoryBackend g memoryBackend g' = (addedNodes, removedNodes, addedEdges, removedEdges)"
  shows "(\<lambda>r. ID (h_node (g_world g') r)) ` set addedNodes = dom (memNodeRefs (g_backend g')) - dom (memNodeRefs (g_backend g)) \<and>
    (\<lambda>r. ID (h_node (g_world g) r)) ` set removedNodes = dom (memNodeRefs (g_backend g)) - dom (memNodeRefs (g_backend g')) \<and>
    (\<lambda>e. ID (h_edge (g_world g') e)) ` set addedEdges = dom (memEdgeRefs (g_backend g')) - dom (memEdgeRefs (g_backend g)) \<and>
    (\<lambda>e. ID (h_edge (g_world g) e)) ` set removedEdges = dom (memEdgeRefs (g_backend g)) - dom (memEdgeRefs (g_backend g'))"
  using mem.Diff_live [OF assms] by blast

theorem Diff_exact_witness:
  "\<exists>a r ae re. Graph_Diff memoryBackend (NewGraph ''h'' emptyWorld NewMemoryBackend ''agent'') memoryBackend linkedGraph = (a, r, ae, re) \<and>
    (\<lambda>r. ID (h_node (g_world linkedGraph) r)) ` set a = dom (memNodeRefs (g_backend linkedGraph)) - dom (memNodeRefs NewMemoryBackend) \<and>
    (\<lambda>e. ID (h_edge (g_world linkedGraph) e)) ` set ae = dom (memEdgeRefs (g_backend linkedGraph)) - dom (memEdgeRefs NewMemoryBackend)"
proof -
  let ?g = "NewGraph ''h'' emptyWorld NewMemoryBackend ''agent''"
  obtain a r ae re where d: "Graph_Diff memoryBackend ?g memoryBackend linkedGraph = (a, r, ae, re)"
    by (metis prod_cases4)
  have "g_backend ?g = NewMemoryBackend" by (simp add: NewGraph_def)
  with Diff_exact [OF NewGraph_ok linkedGraph_ok d] d show ?thesis by auto
qed

section \<open>Events\<close>

text \<open>C19: A notification that returns has delivered every event of the exchange it started to every
  listener except the one that produced it, in the order the events were produced, and leaves the
  handler idle.\<close>

theorem NotifyEvent_delivers:
  assumes "idle g" "NotifyEvent react k x g = Some g'"
  shows "idle g' \<and> eventListeners g' = eventListeners g \<and>
    (\<exists>evs. callbacks g' = callbacks g @ concat (map (deliveries (eventListeners g)) evs) \<and>
      evs = \<lparr>evKind = k, evElement = x, evListener = None\<rparr> #
        produced react (callbacks g) (concat (map (deliveries (eventListeners g)) evs)))"
  using NotifyEvent_idle_Some [OF assms] by blast

text \<open>Listener 1 answers a new node with an update of it.\<close>

definition sampleHandler :: EventHandler where
  "sampleHandler = AddEventListener 2 (AddEventListener 1 NewEventHandler)"

definition answering :: reaction where
  "answering tr = (if last tr = (1, NodeAdded, NodeElem 0) then [(NodeUpdated, NodeElem 0)] else [])"

theorem NotifyEvent_delivers_witness:
  "\<exists>g'. NotifyEvent answering NodeAdded (NodeElem 0) sampleHandler = Some g' \<and>
    callbacks g' = [(1, NodeAdded, NodeElem 0), (2, NodeAdded, NodeElem 0), (2, NodeUpdated, NodeElem 0)] \<and> idle g'"
proof -
  have idle: "idle sampleHandler" by code_simp
  obtain g' where g': "NotifyEvent answering NodeAdded (NodeElem 0) sampleHandler = Some g'"
    "callbacks g' = [(1, NodeAdded, NodeElem 0), (2, NodeAdded, NodeElem 0), (2, NodeUpdated, NodeElem 0)]"
    by (rule that [of "sampleHandler\<lparr>callbacks := [(1, NodeAdded, NodeElem 0), (2, NodeAdded, NodeElem 0), (2, NodeUpdated, NodeElem 0)]\<rparr>"])
      (simp_all add: NotifyEvent_def pushEvent_def maxEvents_def sampleHandler_def AddEventListener_def NewEventHandler_def
        drain.simps answering_def Let_def)
  from NotifyEvent_delivers [OF idle g'(1)] g' show ?thesis by blast
qed

text \<open>C20: When only one listener answers events with events, and the answers to one event fit the channel,
  a notification returns and every listener but that one sees the answers.\<close>

theorem NotifyEvent_returns:
  assumes "idle g" "kindFits k x" "onlyReacts l react" "reactionsFit react"
    and "ds = deliveries (eventListeners g) \<lparr>evKind = k, evElement = x, evListener = None\<rparr>"
    and "length (produced react (callbacks g) ds) \<le> maxEvents"
  shows "NotifyEvent react k x g =
     Some (g\<lparr>callbacks := callbacks g @ ds @
       concat (map (deliveries (eventListeners g)) (produced react (callbacks g) ds))\<rparr>)"
  using NotifyEvent_one_reacts [OF assms(1-4)] assms(5,6) by simp

theorem NotifyEvent_returns_witness:
  "NotifyEvent answering NodeAdded (NodeElem 0) sampleHandler =
     Some (sampleHandler\<lparr>callbacks := [] @ [(1, NodeAdded, NodeElem 0), (2, NodeAdded, NodeElem 0)] @
       concat (map (deliveries [1, 2])
         (produced answering [] [(1, NodeAdded, NodeElem 0), (2, NodeAdded, NodeElem 0)]))\<rparr>)"
proof -
  have h: "eventListeners sampleHandler = [1, 2]" "callbacks sampleHandler = []" "idle sampleHandler" by code_simp+
  have ds: "[(1, NodeAdded, NodeElem 0), (2, NodeAdded, NodeElem 0)] =
      deliveries (eventListeners sampleHandler) \<lparr>evKind = NodeAdded, evElement = NodeElem 0, evListener = None\<rparr>" by code_simp
  have "onlyReacts 1 answering" "reactionsFit answering" by (auto simp: onlyReacts_def reactionsFit_def answering_def)
  moreover have "length (produced answering (callbacks sampleHandler) [(1, NodeAdded, NodeElem 0), (2, NodeAdded, NodeElem 0)]) \<le> maxEvents"
    by code_simp
  ultimately show ?thesis
    using NotifyEvent_returns [OF h(3) _ _ _ ds] unfolding h by (metis kindFits.simps(2))
qed

text \<open>C37: Two listeners that answer every event with an event never let the notification return, although
  the producer of an event is left out of its delivery.\<close>

theorem NotifyEvent_endless:
  assumes "idle g" "a \<in> set (eventListeners g)" "b \<in> set (eventListeners g)" "a \<noteq> b"
    and "\<forall>tr. tr \<noteq> [] \<longrightarrow> react tr \<noteq> []"
  shows "NotifyEvent react k x g = None"
proof -
  let ?g = "g\<lparr>eventChan := eventChan g @ [\<lparr>evKind = k, evElement = x, evListener = currentEventListener g\<rparr>], eventConsumed := True\<rparr>"
  have "drain react ?g = None" by (rule drain_endless [of a _ b]) (use assms in auto)
  with assms(1) show ?thesis by (simp add: NotifyEvent_def pushEvent_def idle_def maxEvents_def)
qed

theorem NotifyEvent_endless_witness:
  "NotifyEvent (\<lambda>tr. [(NodeUpdated, NodeElem 0)]) NodeAdded (NodeElem 0) sampleHandler = None"
proof (rule NotifyEvent_endless [of sampleHandler 1 2])
  show "idle sampleHandler" "(1 :: EventListener) \<in> set (eventListeners sampleHandler)"
    "(2 :: EventListener) \<in> set (eventListeners sampleHandler)" by code_simp+
qed simp_all

text \<open>C38: \<^verbatim>\<open>UpdateMetadata\<close> announces a changed edge as a changed node: with a listener registered, the
  notification fails on the type of the element.\<close>

theorem UpdateMetadata_edge_panics:
  assumes "graph_ok mem_inv memNodeRefs memEdgeRefs g" "memEdgeRefs (g_backend g) (ID (h_edge (g_world g) e)) = Some e"
    and "eventListeners (g_eventHandler g) \<noteq> []"
    and "elementField (g_world g) (EdgeElem e) key = Inr v"
    and "snd (mutator v (Metadata (h_edge (g_world g) e)))"
  shows "Graph_UpdateMetadata memoryBackend now (EdgeElem e) key mutator g = None"
proof -
  obtain m where m: "mutator v (Metadata (h_edge (g_world g) e)) = (m, True)" using assms(5) by (cases "mutator v (Metadata (h_edge (g_world g) e))") auto
  let ?g = "g\<lparr>g_world := put_edge e (revise m now (h_edge (g_world g) e)) (g_world g)\<rparr>"
  have "ID (h_edge (g_world ?g) e) = ID (h_edge (g_world g) e)" by (simp add: revise_def)
  then have "snd (be_MetadataUpdated memoryBackend (g_world ?g) (g_backend ?g) (EdgeElem e)) = None"
    using assms(2) by (intro mem.metadata_updated_ok) simp
  moreover have "notify NodeUpdated (EdgeElem e) h = None"
    if "g_eventHandler h = g_eventHandler g" for h :: "MemoryBackend Graph"
    using assms(1,3) that by (cases "eventListeners (g_eventHandler g)")
      (simp_all add: notify_def NotifyEvent_def pushEvent_def graph_ok_def idle_def maxEvents_def drain.simps Let_def)
  ultimately show ?thesis
    using assms(4) by (auto simp: Graph_UpdateMetadata_def m publish_def callBackend_def split: prod.splits)
qed

text \<open>A graph with a listener.\<close>

definition watchedGraph :: "MemoryBackend Graph" where
  "watchedGraph = Graph_AddEventListener 1 linkedGraph"

lemma watchedGraph_ok: "graph_ok mem_inv memNodeRefs memEdgeRefs watchedGraph"
  using linkedGraph_ok by (simp add: watchedGraph_def Graph_AddEventListener_def AddEventListener_def graph_ok_def idle_def)

theorem UpdateMetadata_edge_panics_witness:
  "Graph_UpdateMetadata memoryBackend 9 (EdgeElem 3) ''ID'' (\<lambda>v m. (m, True)) watchedGraph = None"
proof (rule UpdateMetadata_edge_panics [OF watchedGraph_ok])
  show "memEdgeRefs (g_backend watchedGraph) (ID (h_edge (g_world watchedGraph) 3)) = Some 3"
    "elementField (g_world watchedGraph) (EdgeElem 3) ''ID'' = Inr (VString ''ab'')" by code_simp+
  show "eventListeners (g_eventHandler watchedGraph) \<noteq> []"
    by (simp add: watchedGraph_def Graph_AddEventListener_def AddEventListener_def)
qed simp

text \<open>\<^verbatim>\<open>EdgeUpdated\<close> of an edge that is in the graph never changes its revision, so an update can be
  applied again and again, and answers "edge not found" when the update is not newer.\<close>

theorem EdgeUpdated_revision:
  assumes "graph_ok mem_inv memNodeRefs memEdgeRefs g"
    and "new = h_edge (g_world g) e" "memEdgeRefs (g_backend g) (ID new) = Some stored" "old = h_edge (g_world g) stored"
  shows "\<exists>g' err. Graph_EdgeUpdated memoryBackend e g = Some (g', err) \<and>
    (if Revision old < Revision new
     then err = None \<and> a_edges (absGraph memNodeRefs memEdgeRefs g') (ID new) =
       Some (old\<lparr>Metadata := Metadata new, UpdatedAt := UpdatedAt new\<rparr>)
     else err = Some ErrEdgeNotFound \<and> g' = g)"
proof (cases "Revision old < Revision new")
  case False
  then show ?thesis using assms by (simp add: Graph_EdgeUpdated_def mem.GetEdge_live Let_def)
next
  case True
  let ?x = "old\<lparr>Metadata := Metadata new, UpdatedAt := UpdatedAt new\<rparr>"
  let ?g = "g\<lparr>g_world := put_edge stored ?x (g_world g)\<rparr>"
  have id: "ID old = ID new" using mem.edge_id [OF _ assms(3), of "g_world g"] assms by (simp add: graph_ok_def)
  have ok: "graph_ok mem_inv memNodeRefs memEdgeRefs ?g"
    using assms(4) by (intro mem.graph_ok_world [OF assms(1)] same_ids_put_edge) simp_all
  obtain g' err where g': "publish (\<lambda>w b. be_MetadataUpdated memoryBackend w b (EdgeElem stored)) EdgeUpdated (EdgeElem stored) ?g = Some (g', err)"
    "err = snd (be_MetadataUpdated memoryBackend (g_world ?g) (g_backend ?g) (EdgeElem stored))"
    "effect memNodeRefs memEdgeRefs ?g (g_world ?g) (memNodeRefs (g_backend ?g)) (memEdgeRefs (g_backend ?g)) EdgeUpdated (EdgeElem stored) g' err"
    using mem.publish_MetadataUpdated [OF ok, of EdgeUpdated "EdgeElem stored"] by auto
  have "err = None" unfolding g'(2) by (rule mem.metadata_updated_ok) (use id assms(3) in simp)
  then show ?thesis using True assms g'(1,3)
    by (simp add: Graph_EdgeUpdated_def mem.GetEdge_live Let_def effect_def absGraph_def)
qed

theorem EdgeUpdated_revision_witness:
  "\<exists>g' err. Graph_EdgeUpdated memoryBackend 3 linkedGraph = Some (g', err) \<and> err = Some ErrEdgeNotFound \<and> g' = linkedGraph"
proof -
  have "memEdgeRefs (g_backend linkedGraph) (ID (h_edge (g_world linkedGraph) 3)) = Some 3" by code_simp
  from EdgeUpdated_revision [OF linkedGraph_ok refl this refl] show ?thesis by simp
qed

section \<open>The indexer and what listens to it\<close>

lemma metadataHashNode_wf: "gm_wf (metadataHashNode structHash env m indexes n)"
proof -
  have "gm_wf kv \<Longrightarrow> gm_wf (fold (\<lambda>vs kv. if length indexes = length vs then gm_set (Hash structHash vs) vs kv else kv) vss kv)" for vss kv
    by (induction vss arbitrary: kv) auto
  then show ?thesis by (simp add: metadataHashNode_def split: sum.split)
qed

text \<open>C21: After any sequence of node events, \<^verbatim>\<open>FromHash\<close> of the indexer returns exactly the nodes, with
  their values, that the last events of these nodes give the hash: updates replace the hashes of a
  node (or add to them when the index only appends) and deletions remove them.\<close>

theorem indexer_tracks_events:
  assumes "\<And>n. gm_wf (hashNode n)"
  shows "\<exists>i. Indexer_events hashNode evs (NewIndexer appendOnly) = Some i \<and>
    (\<forall>h. set (zip (fst (Indexer_FromHash B g i h)) (snd (Indexer_FromHash B g i h))) =
      {(Graph_GetNode B g nid, v) | nid v.
         fold (specEvent appendOnly hashNode) (eventsOf nid evs) Map.empty h = Some v})"
proof -
  obtain i where i: "Indexer_events hashNode evs (NewIndexer appendOnly) = Some i"
    "\<forall>nid. lookupIx i nid = fold (specEvent appendOnly hashNode) (eventsOf nid evs) Map.empty"
    using Indexer_events_lookup [where hashNode = hashNode and evs = evs, OF NewIndexer_ok(1) [of appendOnly] assms] by (auto simp: NewIndexer_ok)
  have "ix_wf (NewIndexer appendOnly)" by (simp add: ix_wf_def NewIndexer_def)
  from FromHash_lookup [OF ix_wf_events [OF this i(1)], of B g] i show ?thesis by simp
qed

theorem indexer_tracks_events_witness:
  "\<exists>i. Indexer_events (metadataHashNode (\<lambda>vs. []) emptyEnv None [''Type'']) [(NodeAdded, g_world linkedGraph, 2)] (NewIndexer False) = Some i \<and>
    (\<forall>h. set (zip (fst (Indexer_FromHash memoryBackend linkedGraph i h)) (snd (Indexer_FromHash memoryBackend linkedGraph i h))) =
      {(Graph_GetNode memoryBackend linkedGraph nid, v) | nid v.
         fold (specEvent False (metadataHashNode (\<lambda>vs. []) emptyEnv None [''Type'']))
           (eventsOf nid [(NodeAdded, g_world linkedGraph, 2)]) Map.empty h = Some v})"
  by (rule indexer_tracks_events) (rule metadataHashNode_wf)

text \<open>C34: When a node appears, the processor runs, in order, exactly the actions waiting for one of its
  hashes, and afterwards exactly those of them that asked to stay are waiting.\<close>

theorem processor_runs_waiting:
  assumes "Processor_OnNodeAdded structHash (logged verdict) w n (p, calls) = (p', calls')"
    and "hs = nodeHashes structHash p (h_node w n)" "distinct hs"
  shows "calls' = calls @ concat (map (\<lambda>h. map (\<lambda>a. (a, Some n)) (waiting (p_actions p) h)) hs) \<and>
    (\<forall>h. waiting (p_actions p') h =
      (if h \<in> set hs then filter (\<lambda>a. verdict a (Some n)) (waiting (p_actions p) h) else waiting (p_actions p) h))"
  using OnNodeAdded_logged [OF assms(1,2)] assms(3) by blast

definition sampleProcessor :: "(gval list, nat) Processor" where
  "sampleProcessor =
     \<lparr>p_indexer = NewIndexer False, p_indexes = [''Type''], p_actions = [(''veth'', [1, 2]), (''bridge'', [3])]\<rparr>"

theorem processor_runs_waiting_witness:
  "\<exists>p' calls'. Processor_OnNodeAdded (\<lambda>vs. []) (logged (\<lambda>a n. a = 2)) (g_world linkedGraph) 2 (sampleProcessor, []) = (p', calls') \<and>
    calls' = [(1, Some 2), (2, Some 2)] \<and> waiting (p_actions p') ''veth'' = [2] \<and> waiting (p_actions p') ''bridge'' = [3]"
proof -
  obtain p' calls' where eq: "Processor_OnNodeAdded (\<lambda>vs. []) (logged (\<lambda>a n. a = 2)) (g_world linkedGraph) 2 (sampleProcessor, []) = (p', calls')"
    by fastforce
  have hs: "[''veth''] = nodeHashes (\<lambda>vs. []) sampleProcessor (h_node (g_world linkedGraph) 2)"
    and acts: "waiting (p_actions sampleProcessor) ''veth'' = [1, 2]" "waiting (p_actions sampleProcessor) ''bridge'' = [3]" by code_simp+
  from processor_runs_waiting [OF eq hs] eq acts show ?thesis by auto
qed

text \<open>C17: A linker that handles an event of a node whose wanted links are fresh edges between nodes of the
  graph, with identifiers that are free or belong to existing links of the node, reports no
  error; afterwards every wanted link is in the graph with the metadata asked for, every managed
  link that is no longer wanted is gone, all other nodes and edges are untouched, and the
  published events still replay to the graph.\<close>

theorem linker_links_node:
  assumes "rangeOk rangeOrder"
    and "(if \<not> deleted then newLinksFunc node (ls_graph st) else Some (ls_graph st, [])) = Some (g, es)"
    and "graph_ok mem_inv memNodeRefs memEdgeRefs g"
    and "\<forall>e \<in> set es. e < h_next (g_world g) \<and> e \<notin> ran (memEdgeRefs (g_backend g)) \<and>
      linkable memNodeRefs g (h_edge (g_world g) e)"
    and "old = getLinks memoryBackend rl direction node g"
    and "\<forall>j \<in> linkIds g es. j \<in> linkIds g old \<or> a_edges (absGraph memNodeRefs memEdgeRefs g) j = None"
  shows "\<exists>st'. nodeEvent memoryBackend clock rangeOrder rl newLinksFunc (getLinks memoryBackend rl direction) node deleted st = Some st' \<and>
    graph_ok mem_inv memNodeRefs memEdgeRefs (ls_graph st') \<and> ls_errors st' = ls_errors st \<and>
    onlyEdges memoryBackend memNodeRefs memEdgeRefs (linkIds g es \<union> linkIds g old \<inter> managed st) g (ls_graph st') \<and>
    (\<forall>j \<in> (linkIds g old - linkIds g es) \<inter> managed st. a_edges (absGraph memNodeRefs memEdgeRefs (ls_graph st')) j = None) \<and>
    (\<forall>(j, e) \<in> set (mapOfLinks (g_world g) es). linkedAs (wanted rl g e) (absGraph memNodeRefs memEdgeRefs (ls_graph st')))"
proof -
  have fresh: "\<forall>e \<in> set es. e < h_next (g_world g) \<and> e \<notin> ran (memEdgeRefs (g_backend g))" using assms(4) by blast
  have live: "ctxTimeSlice (g_context g) = None" "mem_inv (g_world g) (g_backend g)" using assms(3) by (simp_all add: graph_ok_def)
  have old: "set old \<subseteq> ran (memEdgeRefs (g_backend g))"
    using mem.get_node_edges [OF live(2,1)] by (auto simp: assms(5) getLinks_def Graph_GetNodeEdges_def)
  from mem.nodeEvent_done [where newLinksFunc = newLinksFunc and node = node and deleted = deleted and st = st and
      existingLinksFunc = "getLinks memoryBackend rl direction", OF assms(1,2,3) fresh assms(5) old, of clock rl]
  obtain st' where st': "nodeEvent memoryBackend clock rangeOrder rl newLinksFunc (getLinks memoryBackend rl direction) node deleted st = Some st'"
    "graph_ok mem_inv memNodeRefs memEdgeRefs (ls_graph st')"
    "onlyEdges memoryBackend memNodeRefs memEdgeRefs (linkIds g es \<union> linkIds g old \<inter> managed st) g (ls_graph st')"
    "\<forall>j \<in> (linkIds g old - linkIds g es) \<inter> managed st. a_edges (absGraph memNodeRefs memEdgeRefs (ls_graph st')) j = None"
    and links: "reliableWrites memoryBackend memNodeRefs memEdgeRefs \<and> (\<forall>e \<in> set es. linkable memNodeRefs g (h_edge (g_world g) e)) \<and>
      (\<forall>j \<in> linkIds g es. j \<in> linkIds g old \<or> a_edges (absGraph memNodeRefs memEdgeRefs g) j = None) \<longrightarrow>
     ls_errors st' = ls_errors st \<and>
     (\<forall>(j, e) \<in> set (mapOfLinks (g_world g) es). linkedAs (wanted rl g e) (absGraph memNodeRefs memEdgeRefs (ls_graph st')))"
    by (elim exE conjE) (rule that)
  have "\<forall>e \<in> set es. linkable memNodeRefs g (h_edge (g_world g) e)" using assms(4) by blast
  with links mem.reliable assms(6) st' show ?thesis by (intro exI [of _ st'] conjI) simp_all
qed

text \<open>A linker from nodes with a \<^verbatim>\<open>Type\<close> to the node with the same \<^verbatim>\<open>Type\<close>, itself here.\<close>

definition sampleMil :: MetadataIndexerLinker where
  "sampleMil = fst (NewMetadataIndexerLinker (NewIndexer False) [''Type''] (NewIndexer False) [''Type''] [])"

definition sampleState :: "MemoryBackend linkState" where
  "sampleState = \<lparr>ls_graph = linkedGraph, ls_links = [], ls_errors = []\<rparr>"

definition sampleNewLinks :: "MemoryBackend newLinks" where
  "sampleNewLinks node g = createEdges (\<lambda>s. s) (\<lambda>i. 9) sampleMil [(Some node, Some 2)] g"

definition sampleLinker :: ResourceLinker where
  "sampleLinker = NewResourceLinker [(''RelationType'', VString ''link'')]"

theorem linker_links_node_witness:
  "\<exists>st' g es. nodeEvent memoryBackend (\<lambda>i. 9) (\<lambda>m. m) sampleLinker sampleNewLinks (getLinks memoryBackend sampleLinker ''Parent'')
      0 False sampleState = Some st' \<and>
    sampleNewLinks 0 linkedGraph = Some (g, es) \<and> length es = 1 \<and>
    graph_ok mem_inv memNodeRefs memEdgeRefs (ls_graph st') \<and> ls_errors st' = [] \<and>
    (\<forall>(j, e) \<in> set (mapOfLinks (g_world g) es). linkedAs (wanted sampleLinker g e) (absGraph memNodeRefs memEdgeRefs (ls_graph st')))"
proof -
  have "mil_edgeMetadata sampleMil = None" by code_simp
  from mem.createEdges_new [OF linkedGraph_ok this, of "[(Some 0, Some 2)]" "\<lambda>s. s" "\<lambda>i. 9"] obtain g es where
    g: "sampleNewLinks 0 linkedGraph = Some (g, es)"
      "graph_ok mem_inv memNodeRefs memEdgeRefs g" "newEdges linkedGraph [(Some 0, Some 2)] g es"
    unfolding sampleNewLinks_def by auto
  from g(3) have "g = linkedGraph\<lparr>g_world := g_world g\<rparr>" by (simp add: newEdges_def)
  then have "g_backend g = g_backend (linkedGraph\<lparr>g_world := g_world g\<rparr>)" by (rule arg_cong)
  then have same: "g_backend g = g_backend linkedGraph" by simp
  have es: "snd (the (sampleNewLinks 0 linkedGraph)) = [5]" "h_next (g_world linkedGraph) = 5"
    "ID (h_edge (g_world (fst (the (sampleNewLinks 0 linkedGraph)))) 5) = ''a/c''"
    "memEdgeRefs (g_backend linkedGraph) ''a/c'' = None" by code_simp+
  have ends: "Parent (h_edge (g_world g) 5) = ID (h_node (g_world linkedGraph) 0)" "Child (h_edge (g_world g) 5) = ID (h_node (g_world linkedGraph) 2)"
    using g(1,3) es(1) by (auto simp: newEdges_def)
  have live: "memNodeRefs (g_backend linkedGraph) (ID (h_node (g_world linkedGraph) 0)) \<noteq> None"
    "memNodeRefs (g_backend linkedGraph) (ID (h_node (g_world linkedGraph) 2)) \<noteq> None" by code_simp+
  have "\<exists>st'. nodeEvent memoryBackend (\<lambda>i. 9) (\<lambda>m. m) sampleLinker sampleNewLinks (getLinks memoryBackend sampleLinker ''Parent'')
      0 False sampleState = Some st' \<and>
    graph_ok mem_inv memNodeRefs memEdgeRefs (ls_graph st') \<and> ls_errors st' = ls_errors sampleState \<and>
    onlyEdges memoryBackend memNodeRefs memEdgeRefs
      (linkIds g es \<union> linkIds g (getLinks memoryBackend sampleLinker ''Parent'' 0 g) \<inter> managed sampleState) g (ls_graph st') \<and>
    (\<forall>j \<in> (linkIds g (getLinks memoryBackend sampleLinker ''Parent'' 0 g) - linkIds g es) \<inter> managed sampleState.
      a_edges (absGraph memNodeRefs memEdgeRefs (ls_graph st')) j = None) \<and>
    (\<forall>(j, e) \<in> set (mapOfLinks (g_world g) es). linkedAs (wanted sampleLinker g e) (absGraph memNodeRefs memEdgeRefs (ls_graph st')))"
  proof (rule linker_links_node [OF _ _ g(2) _ refl])
    show "rangeOk (\<lambda>m. m)" by (simp add: rangeOk_def)
    show "(if \<not> False then sampleNewLinks 0 (ls_graph sampleState) else Some (ls_graph sampleState, [])) = Some (g, es)"
      using g(1) by (simp add: sampleState_def)
    show "\<forall>e \<in> set es. e < h_next (g_world g) \<and> e \<notin> ran (memEdgeRefs (g_backend g)) \<and> linkable memNodeRefs g (h_edge (g_world g) e)"
      using g(1,3) es live linkedGraph_ok same ends by (auto simp: newEdges_def linkable_def graph_ok_def)
    show "\<forall>j \<in> linkIds g es. j \<in> linkIds g (getLinks memoryBackend sampleLinker ''Parent'' 0 g) \<or>
        a_edges (absGraph memNodeRefs memEdgeRefs g) j = None"
      using g(1) es same by (auto simp: linkIds_def absGraph_def)
  qed
  then show ?thesis using g(1) es by (auto simp: sampleState_def)
qed

end
