(* ===== verification/Value_Theorems.thy ===== *)
theory Value_Theorems
  imports Cached
begin

text \<open>
  Properties of metadata values, filters, deduplication and the cached backend's writes, each with a
  concrete instance.
\<close>

definition sampleTree :: tree where
  "sampleTree = [(''Name'', VString ''eth0''), (''Ovs'', VMap [(''Rx'', VInt KInt64 3)])]"

definition sampleEnv :: regex_env where
  "sampleEnv = \<lparr>regexpCache = [], cidrRegex = (\<lambda>s. s), regexMatch = (=)\<rparr>"

definition vethNode :: Node where
  "vethNode = CreateNode ''a'' (Some [(''Type'', VString ''veth'')]) 0 [] []"

text \<open>C35: Setting a dotted field, when it succeeds, makes exactly that field read as the value: every
  field whose path leaves the path of the new one at some component reads as before.\<close>

theorem set_field_get:
  assumes "snd (SetMapField obj k v)"
    and "split_dot k = p @ a # xs" "split_dot k' = p @ b # ys" "a \<noteq> b"
  shows "GetMapField (fst (SetMapField obj k v)) k = Inr v \<and>
    GetMapField (fst (SetMapField obj k v)) k' = GetMapField obj k'"
  using setMapField_get [of "split_dot k" obj v] setMapField_other [of a b obj p xs v ys] assms
  by (simp add: SetMapField_def GetMapField_def)

theorem set_field_get_witness:
  "GetMapField (fst (SetMapField sampleTree ''Ovs.Tx'' (VInt KInt64 5))) ''Ovs.Tx'' = Inr (VInt KInt64 5) \<and>
   GetMapField (fst (SetMapField sampleTree ''Ovs.Tx'' (VInt KInt64 5))) ''Ovs.Rx'' = GetMapField sampleTree ''Ovs.Rx''"
proof (rule set_field_get [where p = "[''Ovs'']" and a = "''Tx''" and xs = "[]" and b = "''Rx''" and ys = "[]"])
  show "snd (SetMapField sampleTree ''Ovs.Tx'' (VInt KInt64 5))" by code_simp
qed simp_all

text \<open>Deleting a field that was set where nothing was before gives back the original value tree, the
  maps created on the way included.\<close>

theorem set_delete_roundtrip:
  assumes "map_of obj (hd (split_dot k)) = None"
  shows "DelField (fst (SetMapField obj k v)) k = (obj, True)"
  using set_del_restores [of "split_dot k"] assms by (simp add: DelField_def SetMapField_def)

theorem set_delete_roundtrip_witness:
  "DelField (fst (SetMapField sampleTree ''K8s.Pod.Name'' (VString ''x''))) ''K8s.Pod.Name'' = (sampleTree, True)"
  by (rule set_delete_roundtrip) code_simp

text \<open>Every key the field listing of a value tree returns can be looked up.\<close>

theorem listed_keys_resolve:
  assumes "plain_val (VMap obj)" "x \<in> set (GetMapFieldKeys obj)"
  shows "is_ok (GetMapField obj x)"
proof -
  from getFieldKeys_resolves [OF assms(1), of x "[]"] assms(2) obtain cs where
    "cs \<noteq> []" "\<forall>c \<in> set cs. plain_key c" "is_ok (getMapField obj cs)" "x = join_dot cs"
    by (auto simp: GetMapFieldKeys_def)
  then show ?thesis using split_join [of cs] by (simp add: GetMapField_def plain_key_def)
qed

theorem listed_keys_resolve_witness: "is_ok (GetMapField sampleTree ''Ovs.Rx'')"
  by (rule listed_keys_resolve) code_simp+

text \<open>Boolean filters mean what their names say, at any nesting and arity, with missing parts ignored:
  a conjunction holds when all its parts do, a disjunction when it has no part or one holds, a
  negation when its part does not.\<close>

theorem filter_bool_semantics:
  "(Eval env g (NewAndFilter fs) \<longleftrightarrow> (\<forall>f. Some f \<in> set fs \<longrightarrow> Eval env g f)) \<and>
   (Eval env g (NewOrFilter fs) \<longleftrightarrow> (\<forall>f. Some f \<notin> set fs) \<or> (\<exists>f. Some f \<in> set fs \<and> Eval env g f)) \<and>
   (Eval env g (NewNotFilter (Some f)) \<longleftrightarrow> \<not> Eval env g f)"
  using Eval_and Eval_or Eval_not by blast

theorem filter_bool_semantics_witness:
  "\<not> Eval sampleEnv (nodeGetter vethNode) (NewAndFilter [Some (NewTermStringFilter ''Type'' ''veth''), None,
     Some (NewNotFilter (Some (NewTermStringFilter ''Type'' ''veth'')))])"
  using filter_bool_semantics [of sampleEnv "nodeGetter vethNode"
    "[Some (NewTermStringFilter ''Type'' ''veth''), None, Some (NewNotFilter (Some (NewTermStringFilter ''Type'' ''veth'')))]"
    "NewTermStringFilter ''Type'' ''veth''"] by auto

text \<open>A metadata matcher with scalar values matches a node exactly when the node has every key with a
  matching value.\<close>

theorem metadata_match_exact:
  assumes "\<forall>(k, v) \<in> set m. scalar v \<and> plain_key k \<and> k \<notin> set graphElementKeys"
  shows "Metadata_Match env m (nodeGetter n) \<longleftrightarrow>
    (\<forall>(k, v) \<in> set m. \<exists>w. map_of (Metadata n) k = Some w \<and> scalarMatch v w)"
  by (rule Metadata_Match_flat [OF assms])

theorem metadata_match_exact_witness:
  "Metadata_Match sampleEnv [(''Type'', VString ''veth'')] (nodeGetter vethNode)"
proof -
  have "\<forall>(k, v) \<in> set [(''Type'', VString ''veth'')]. scalar v \<and> plain_key k \<and> k \<notin> set graphElementKeys" by code_simp
  from metadata_match_exact [OF this, of sampleEnv vethNode] show ?thesis by (simp add: vethNode_def CreateNode_def)
qed

text \<open>Deduplication keeps one revision per node identifier, taken from the input, and no input revision
  is newer than the one kept.\<close>

theorem dedup_keeps_latest:
  "distinct (map ID (dedupNodes ns)) \<and> set (dedupNodes ns) \<subseteq> set ns \<and>
   (\<forall>n \<in> set ns. \<exists>m \<in> set (dedupNodes ns). ID m = ID n \<and> Revision n \<le> Revision m)"
  using latests_dedup [where xs = ns] by (auto simp: dedupNodes_def)

theorem dedup_keeps_latest_witness:
  "\<exists>m \<in> set (dedupNodes [CreateNode ''a'' None 0 [] []]). ID m = ''a''"
proof -
  have "CreateNode ''a'' None 0 [] [] \<in> set [CreateNode ''a'' None 0 [] []]" by simp
  with dedup_keeps_latest [of "[CreateNode ''a'' None 0 [] []]"] show ?thesis by (auto simp: CreateNode_def)
qed

text \<open>In its default mode the cached backend hands every write that the memory accepted to the
  persistent backend, once, and answers what that backend answered; a write the memory refuses
  never reaches it.\<close>

theorem cached_write_through:
  assumes "cb_cacheMode c = DefaultMode"
  shows "cb_persistent (fst (cachedWrite wm (Some f) c)) =
      (if snd (wm (cb_memory c)) = None then fst (f (cb_persistent c)) else cb_persistent c) \<and>
    snd (cachedWrite wm (Some f) c) =
      (if snd (wm (cb_memory c)) = None then snd (f (cb_persistent c)) else snd (wm (cb_memory c)))"
  using cachedWrite_reaches [OF assms, of wm f] cachedWrite_err [of wm c _ "Some f"]
  by (cases "snd (wm (cb_memory c))") auto

theorem cached_write_through_witness:
  "cb_persistent (fst (cachedWrite (\<lambda>m. (m, None)) (Some (\<lambda>p :: nat. (Suc p, Some ErrBackend))) (NewCachedBackend 0))) = 1 \<and>
   snd (cachedWrite (\<lambda>m. (m, None)) (Some (\<lambda>p :: nat. (Suc p, Some ErrBackend))) (NewCachedBackend 0)) = Some ErrBackend"
proof -
  have "cb_cacheMode (NewCachedBackend 0) = DefaultMode" by (simp add: NewCachedBackend_def)
  from cached_write_through [OF this, of "\<lambda>m. (m, None)" "\<lambda>p :: nat. (Suc p, Some ErrBackend)"]
  show ?thesis by (simp add: NewCachedBackend_def)
qed

end
