(* ===== verification/Layers.thy ===== *)
theory Layers
  imports Go_Values "HOL-Library.Char_ord" "HOL-Library.List_Lexorder"
begin

text \<open>
  Packet data as the flow code reads it.  Decoding is gopacket's: a decoded packet is a list of
  layers, each with the fields that \<^verbatim>\<open>src/flow/flow.go\<close> looks at.  Bytes are characters.  What
  gopacket computes from a layer (its flow endpoints, the printed name of a layer type or of a
  DNS code) is the parameter \<open>gopacket\<close>.

  The theory also has the standard library's renderings that the code compares and hashes
  (\<^verbatim>\<open>HardwareAddr.String\<close>, \<^verbatim>\<open>IP.String\<close>, \<^verbatim>\<open>FormatUint\<close>, \<^verbatim>\<open>PutUint32\<close> and the like) and
  the DNS conversions of \<^verbatim>\<open>src/flow/layers/dns.go\<close>.
\<close>

type_synonym bytes = string

section \<open>Renderings of the standard library\<close>

definition hexDigit :: "nat \<Rightarrow> char" where
  "hexDigit n = ''0123456789abcdef'' ! (n mod 16)"

definition hexByte :: "char \<Rightarrow> string" where
  "hexByte c = [hexDigit (of_char c div 16), hexDigit (of_char c)]"

text \<open>\<^verbatim>\<open>strconv.FormatUint(n, b)\<close> for the bases 10 and 16.\<close>

function FormatUint :: "nat \<Rightarrow> nat \<Rightarrow> string" where
  "FormatUint n b = (if b < 2 \<or> n < b then [hexDigit n] else FormatUint (n div b) b @ [hexDigit (n mod b)])"
  by auto
termination
  by (relation "measure fst") (auto simp: div_less_dividend)

declare FormatUint.simps [simp del]

text \<open>\<^verbatim>\<open>binary.BigEndian\<close>: the \<open>k\<close> low bytes of a number, the most significant one first.\<close>

fun bigEndian :: "nat \<Rightarrow> nat \<Rightarrow> bytes" where
  "bigEndian 0 n = []"
| "bigEndian (Suc k) n = bigEndian k (n div 256) @ [char_of n]"

text \<open>\<^verbatim>\<open>uint64(i)\<close> of an int64, and \<^verbatim>\<open>uint32(i)\<close>.\<close>

definition uint64 :: "int \<Rightarrow> nat" where
  "uint64 i = nat (i mod 2 ^ 64)"

definition uint32 :: "int \<Rightarrow> nat" where
  "uint32 i = nat (i mod 2 ^ 32)"

fun joinWith :: "string \<Rightarrow> string list \<Rightarrow> string" where
  "joinWith sep [] = []"
| "joinWith sep [w] = w"
| "joinWith sep (w # ws) = w @ sep @ joinWith sep ws"

definition MACString :: "bytes \<Rightarrow> string" where
  "MACString m = joinWith '':'' (map hexByte m)"

definition dottedQuad :: "bytes \<Rightarrow> string" where
  "dottedQuad q = joinWith ''.'' (map (\<lambda>c. FormatUint (of_char c) 10) q)"

text \<open>
  \<^verbatim>\<open>IP.String\<close> of a 16-byte address: the first longest run of at least two zero groups is
  written as a double colon.  \<open>zeroRun gs\<close> is the number of leading zero groups.
\<close>

fun groups16 :: "bytes \<Rightarrow> nat list" where
  "groups16 (a # b # cs) = (of_char a * 256 + of_char b) # groups16 cs"
| "groups16 _ = []"

definition zeroRun :: "nat list \<Rightarrow> nat" where
  "zeroRun gs = length (takeWhile (\<lambda>g. g = 0) gs)"

fun bestRun :: "nat \<Rightarrow> nat list \<Rightarrow> nat \<times> nat" where
  "bestRun i [] = (i, 0)"
| "bestRun i (g # gs) =
     (let here = zeroRun (g # gs); (j, len) = bestRun (Suc i) gs
      in if len \<le> here then (i, here) else (j, len))"

definition hexGroups :: "nat list \<Rightarrow> string" where
  "hexGroups gs = joinWith '':'' (map (\<lambda>g. FormatUint g 16) gs)"

definition IPString :: "bytes \<Rightarrow> string" where
  "IPString p =
     (if p = [] then ''<nil>''
      else if length p = 4 then dottedQuad p
      else if length p = 16 then
        (if take 12 p = replicate 10 (CHR 0x00) @ [CHR 0xFF, CHR 0xFF] then dottedQuad (drop 12 p)
         else let gs = groups16 p; (i, len) = bestRun 0 gs
              in if len < 2 then hexGroups gs
                 else hexGroups (take i gs) @ ''::'' @ hexGroups (drop (i + len) gs))
      else ''?'' @ concat (map hexByte p))"

section \<open>Layers\<close>

record Ethernet_data =
  eth_SrcMAC :: bytes
  eth_DstMAC :: bytes
  eth_Length :: int
  eth_Payload :: bytes

record IP_data = \<comment> \<open>\<^verbatim>\<open>IPv4\<close> with its TTL and identification, \<^verbatim>\<open>IPv6\<close> with its hop limit\<close>
  ip_SrcIP :: bytes
  ip_DstIP :: bytes
  ip_Length :: int
  ip_TTL :: int
  ip_Id :: int

record TCP_data =
  tcp_SrcPort :: int
  tcp_DstPort :: int
  tcp_SYN :: bool
  tcp_ACK :: bool
  tcp_FIN :: bool
  tcp_RST :: bool

record DNSQuestion_data =
  dq_Name :: bytes
  dq_Type :: int
  dq_Class :: int

record SOA_data =
  soa_MName :: bytes
  soa_RName :: bytes
  soa_Serial :: int
  soa_Refresh :: int
  soa_Retry :: int
  soa_Expire :: int
  soa_Minimum :: int

record SRV_data =
  srv_Priority :: int
  srv_Weight :: int
  srv_Port :: int
  srv_Name :: bytes

record DNSRecord_data =
  rr_Name :: bytes
  rr_Type :: int
  rr_Class :: int
  rr_TTL :: int
  rr_DataLength :: int
  rr_IP :: bytes
  rr_NS :: bytes
  rr_CNAME :: bytes
  rr_PTR :: bytes
  rr_TXTs :: "bytes list"
  rr_SOA :: SOA_data
  rr_SRV :: SRV_data
  rr_MX :: "int \<times> bytes"
  rr_OPT :: "(int \<times> bytes) list"

record DNS_data =
  dns_ID :: int
  dns_QR :: bool
  dns_OpCode :: int
  dns_AA :: bool
  dns_TC :: bool
  dns_RD :: bool
  dns_RA :: bool
  dns_Z :: int
  dns_ResponseCode :: int
  dns_QDCount :: int
  dns_ANCount :: int
  dns_NSCount :: int
  dns_ARCount :: int
  dns_Questions :: "DNSQuestion_data list"
  dns_Answers :: "DNSRecord_data list"
  dns_Authorities :: "DNSRecord_data list"
  dns_Additionals :: "DNSRecord_data list"

record DHCPv4_data =
  dhcp_File :: bytes
  dhcp_Flags :: int
  dhcp_HardwareLen :: int
  dhcp_HardwareOpts :: int
  dhcp_ServerName :: bytes
  dhcp_Secs :: int

record VRRPv2_data =
  vrrp_AdverInt :: int
  vrrp_Priority :: int
  vrrp_Version :: int
  vrrp_VirtualRtrID :: int

datatype layer_data =
    Ethernet Ethernet_data
  | LinuxSLL
  | Dot1Q int
  | IPv4 IP_data
  | IPv6 IP_data
  | TCP TCP_data
  | UDP int int
  | SCTP int int
  | ICMPv4 int int int \<comment> \<open>type, code, identifier\<close>
  | ICMPv6 int int
  | ICMPv6Echo int
  | VXLAN int
  | Geneve int
  | GRE int
  | MPLS
  | DNS DNS_data
  | DHCPv4 DHCPv4_data
  | VRRP VRRPv2_data
  | Payload
  | DecodeFailure
  | OtherLayer string

datatype layer_type =
    LayerTypeEthernet | LayerTypeLinuxSLL | LayerTypeDot1Q | LayerTypeIPv4 | LayerTypeIPv6
  | LayerTypeTCP | LayerTypeUDP | LayerTypeSCTP | LayerTypeICMPv4 | LayerTypeICMPv6
  | LayerTypeICMPv6Echo | LayerTypeVXLAN | LayerTypeGeneve | LayerTypeGRE | LayerTypeMPLS
  | LayerTypeDNS | LayerTypeDHCPv4 | LayerTypeVRRP | LayerTypePayload | LayerTypeDecodeFailure
  | LayerTypeRawIP | LayerTypeOther string

record layer =
  layerData :: layer_data
  layerContents :: bytes

fun LayerType_of :: "layer_data \<Rightarrow> layer_type" where
  "LayerType_of (Ethernet _) = LayerTypeEthernet"
| "LayerType_of LinuxSLL = LayerTypeLinuxSLL"
| "LayerType_of (Dot1Q _) = LayerTypeDot1Q"
| "LayerType_of (IPv4 _) = LayerTypeIPv4"
| "LayerType_of (IPv6 _) = LayerTypeIPv6"
| "LayerType_of (TCP _) = LayerTypeTCP"
| "LayerType_of (UDP _ _) = LayerTypeUDP"
| "LayerType_of (SCTP _ _) = LayerTypeSCTP"
| "LayerType_of (ICMPv4 _ _ _) = LayerTypeICMPv4"
| "LayerType_of (ICMPv6 _ _) = LayerTypeICMPv6"
| "LayerType_of (ICMPv6Echo _) = LayerTypeICMPv6Echo"
| "LayerType_of (VXLAN _) = LayerTypeVXLAN"
| "LayerType_of (Geneve _) = LayerTypeGeneve"
| "LayerType_of (GRE _) = LayerTypeGRE"
| "LayerType_of MPLS = LayerTypeMPLS"
| "LayerType_of (DNS _) = LayerTypeDNS"
| "LayerType_of (DHCPv4 _) = LayerTypeDHCPv4"
| "LayerType_of (VRRP _) = LayerTypeVRRP"
| "LayerType_of Payload = LayerTypePayload"
| "LayerType_of DecodeFailure = LayerTypeDecodeFailure"
| "LayerType_of (OtherLayer n) = LayerTypeOther n"

definition LayerType :: "layer \<Rightarrow> layer_type" where
  "LayerType l = LayerType_of (layerData l)"

text \<open>\<^verbatim>\<open>gopacket.Flow\<close>: an endpoint type and the raw source and destination.\<close>

record gflow =
  gf_type :: int
  gf_src :: bytes
  gf_dst :: bytes

definition Reverse :: "gflow \<Rightarrow> gflow" where
  "Reverse f = f\<lparr>gf_src := gf_dst f, gf_dst := gf_src f\<rparr>"

record gopacket =
  LinkFlow :: "layer_data \<Rightarrow> gflow"
  NetworkFlow :: "layer_data \<Rightarrow> gflow"
  TransportFlow :: "layer_data \<Rightarrow> gflow"
  layerName :: "layer_type \<Rightarrow> string"
  dnsName :: "string \<Rightarrow> int \<Rightarrow> string" \<comment> \<open>\<^verbatim>\<open>String()\<close> of a DNS code of the given sort\<close>

section \<open>DNS layers of a flow\<close>

record DNSQuestion =
  q_Name :: string
  q_Type :: string
  q_Class :: string

record DNSResourceRecord =
  r_Name :: string
  r_Type :: string
  r_Class :: string
  r_TTL :: int
  r_DataLength :: int
  r_IP :: string
  r_NS :: string
  r_CNAME :: string
  r_PTR :: string
  r_TXTs :: "string list"
  r_SOA :: "SOA_data option"
  r_SRV :: "SRV_data option"
  r_MX :: "(int \<times> string) option"
  r_OPT :: "(string \<times> string) list"

definition newDNSRecordFromLayersRecord :: "gopacket \<Rightarrow> DNSRecord_data \<Rightarrow> DNSResourceRecord" where
  "newDNSRecordFromLayersRecord gp rr =
     \<lparr>r_Name = rr_Name rr, r_Type = dnsName gp ''Type'' (rr_Type rr),
      r_Class = dnsName gp ''Class'' (rr_Class rr), r_TTL = rr_TTL rr,
      r_DataLength = rr_DataLength rr, r_IP = [], r_NS = [], r_CNAME = [], r_PTR = [], r_TXTs = [],
      r_SOA = None, r_SRV = None, r_MX = None, r_OPT = []\<rparr>"

text \<open>
  The record types by their numbers: A 1, NS 2, CNAME 5, SOA 6, PTR 12, HINFO 13, MX 15, TXT 16,
  AAAA 28, SRV 33, OPT 41.  The options slice is a slice of nil pointers, so the first option that
  is written to it panics: that is \<open>None\<close>; \<open>Some (Inl e)\<close> is an error.
\<close>

definition toFlowDNSResourceRecord :: "gopacket \<Rightarrow> DNSRecord_data \<Rightarrow> DNSResourceRecord result option" where
  "toFlowDNSResourceRecord gp rr =
     (let record = newDNSRecordFromLayersRecord gp rr; t = rr_Type rr
      in if t = 1 \<or> t = 28 then Some (Inr (record\<lparr>r_IP := IPString (rr_IP rr)\<rparr>))
         else if t = 6 then Some (Inr (record\<lparr>r_SOA := Some (rr_SOA rr)\<rparr>))
         else if t = 33 then Some (Inr (record\<lparr>r_SRV := Some (rr_SRV rr)\<rparr>))
         else if t = 15 then Some (Inr (record\<lparr>r_MX := Some (rr_MX rr)\<rparr>))
         else if t = 16 \<or> t = 13 then Some (Inr (record\<lparr>r_TXTs := rr_TXTs rr\<rparr>))
         else if t = 2 then Some (Inr (record\<lparr>r_NS := rr_NS rr\<rparr>))
         else if t = 5 then Some (Inr (record\<lparr>r_CNAME := rr_CNAME rr\<rparr>))
         else if t = 12 then Some (Inr (record\<lparr>r_PTR := rr_PTR rr\<rparr>))
         else if t = 41 then (if rr_OPT rr = [] then Some (Inr record) else None)
         else Some (Inl ErrNoMatchingType))"

definition GetDNSQuestions :: "gopacket \<Rightarrow> DNSQuestion_data list \<Rightarrow> DNSQuestion list" where
  "GetDNSQuestions gp qs =
     map (\<lambda>v. \<lparr>q_Name = dq_Name v, q_Type = dnsName gp ''Type'' (dq_Type v),
                q_Class = dnsName gp ''Class'' (dq_Class v)\<rparr>) qs"

fun GetDNSRecords :: "gopacket \<Rightarrow> DNSRecord_data list \<Rightarrow> DNSResourceRecord list option" where
  "GetDNSRecords gp [] = Some []"
| "GetDNSRecords gp (v # vs) =
     (case toFlowDNSResourceRecord gp v of
        None \<Rightarrow> None
      | Some (Inl _) \<Rightarrow> GetDNSRecords gp vs
      | Some (Inr r) \<Rightarrow> map_option (Cons r) (GetDNSRecords gp vs))"

section \<open>Facts\<close>

lemma bigEndian_length [simp]: "length (bigEndian k n) = k"
  by (induction k arbitrary: n) auto

lemma bigEndian_inj:
  "m < 256 ^ k \<Longrightarrow> n < 256 ^ k \<Longrightarrow> bigEndian k m = bigEndian k n \<Longrightarrow> m = n"
proof (induction k arbitrary: m n)
  case (Suc k)
  have "m div 256 = n div 256"
    using Suc.prems by (intro Suc.IH) (auto simp: less_mult_imp_div_less mult.commute)
  moreover have "of_char (char_of m :: char) = (of_char (char_of n :: char) :: nat)"
    using Suc.prems by simp
  then have "m mod 256 = n mod 256" by simp
  ultimately show ?case by (metis div_mult_mod_eq)
qed simp

lemma Reverse_simps [simp]:
  "gf_src (Reverse f) = gf_dst f" "gf_dst (Reverse f) = gf_src f" "gf_type (Reverse f) = gf_type f"
  by (simp_all add: Reverse_def)

text \<open>Without an EDNS option the conversion of DNS records does not panic.\<close>

lemma GetDNSRecords_ok:
  "(\<And>r. r \<in> set rs \<Longrightarrow> rr_OPT r = []) \<Longrightarrow> \<exists>out. GetDNSRecords gp rs = Some out \<and> length out \<le> length rs"
proof (induction rs)
  case (Cons r rs)
  then obtain out where "GetDNSRecords gp rs = Some out" "length out \<le> length rs" by auto
  moreover have "toFlowDNSResourceRecord gp r \<noteq> None"
    using Cons.prems [of r] by (simp add: toFlowDNSResourceRecord_def Let_def del: not_None_eq)
  ultimately show ?case by (auto split: sum.split)
qed simp

end
