(* ===== verification/Reflect.thy ===== *)
theory Reflect
  imports Go_Values
begin

text \<open>
  The two reflective walks of \<^verbatim>\<open>src/common/types.go\<close>: \<^verbatim>\<open>LookupPath\<close> descends a struct value
  along a dotted path, \<^verbatim>\<open>StructFieldKeys\<close> lists the dotted names of a struct type.  A
  \<^verbatim>\<open>reflect.Value\<close> is what the walk can see of it: pointers and interfaces held by a field are
  already followed, a nil one being \<open>RInvalid\<close>.
\<close>

section \<open>Values\<close>

datatype rval =
    RStruct "(string \<times> rval) list"
  | RString string
  | RInt int_kind int
  | RNamedInt int_kind int \<comment> \<open>an integer of a declared type, such as a protobuf enum\<close>
  | RBool bool
  | RSlice
  | RInvalid

datatype rkind = KindStruct | KindString | KindInt | KindUint | KindBool | KindSlice | KindInvalid | KindInterface

text \<open>The kind of a value, all sized integers being mapped to \<^verbatim>\<open>Int\<close> as at the end of
  \<^verbatim>\<open>LookupPath\<close>; only \<^verbatim>\<open>uint\<close> is not in that list.\<close>

fun intKind :: "int_kind \<Rightarrow> rkind" where
  "intKind KUint = KindUint"
| "intKind _ = KindInt"

fun kindOf :: "rval \<Rightarrow> rkind" where
  "kindOf (RStruct _) = KindStruct"
| "kindOf (RString _) = KindString"
| "kindOf (RInt k _) = intKind k"
| "kindOf (RNamedInt k _) = intKind k"
| "kindOf (RBool _) = KindBool"
| "kindOf RSlice = KindSlice"
| "kindOf RInvalid = KindInvalid"

text \<open>
  The loop over the components: a component that names no field of the struct leaves the value
  where it is, and the next component is looked up in the same struct.  The result is the value
  and the last component visited.
\<close>

fun walkPath :: "rval \<Rightarrow> string \<Rightarrow> string list \<Rightarrow> rval \<times> string" where
  "walkPath v name [] = (v, name)"
| "walkPath v name (node # nodes) =
     (case v of
        RStruct fs \<Rightarrow> walkPath (case map_of fs node of Some w \<Rightarrow> w | None \<Rightarrow> v) node nodes
      | _ \<Rightarrow> (v, node))"

definition LookupPath :: "rval \<Rightarrow> string \<Rightarrow> rkind \<Rightarrow> rval \<times> bool" where
  "LookupPath obj path kind =
     (let nodes = split_dot path; (v, name) = walkPath obj [] nodes
      in if name \<noteq> last nodes then (v, False)
         else if kind = KindInterface then (v, True)
         else (v, kindOf v = kind))"

text \<open>\<^verbatim>\<open>common.ToInt64(value.Interface())\<close>: the type switch knows the basic types only.\<close>

fun rval_ToInt64 :: "rval \<Rightarrow> int result" where
  "rval_ToInt64 (RInt k i) = ToInt64 (VInt k i)"
| "rval_ToInt64 (RString s) = ToInt64 (VString s)"
| "rval_ToInt64 _ = Inl ErrToInt64"

section \<open>Types\<close>

datatype rtype =
    TStruct "(string \<times> rtype) list"
  | TPtr rtype
  | TSlice rtype
  | TBasic

text \<open>\<^verbatim>\<open>for tField.Kind() == reflect.Ptr\<close>\<close>

fun derefAll :: "rtype \<Rightarrow> rtype" where
  "derefAll (TPtr t) = derefAll t"
| "derefAll t = t"

fun deref1 :: "rtype \<Rightarrow> rtype" where
  "deref1 (TPtr t) = t"
| "deref1 t = t"

lemma derefAll_size: "size (derefAll t) \<le> size t"
  by (induction t) auto

lemma deref1_size: "size (deref1 t) \<le> size t"
  by (cases t) auto

definition isXXX :: "string \<Rightarrow> bool" where
  "isXXX n \<longleftrightarrow> take 4 n = ''XXX_''"

text \<open>\<^verbatim>\<open>structFieldKeys\<close> on the fields of a struct type; \<^verbatim>\<open>NumField\<close> of another type panics and is
  never called.\<close>

function structFieldKeys :: "(string \<times> rtype) list \<Rightarrow> string \<Rightarrow> string list" where
  "structFieldKeys [] prefix = []"
| "structFieldKeys ((n, t) # fs) prefix =
     (if isXXX n then structFieldKeys fs prefix
      else (case derefAll t of
              TStruct gs \<Rightarrow> structFieldKeys gs (prefix @ n @ ''.'')
            | TSlice e \<Rightarrow>
                (prefix @ n) #
                (case deref1 e of TStruct gs \<Rightarrow> structFieldKeys gs (prefix @ n @ ''.'') | _ \<Rightarrow> [])
            | _ \<Rightarrow> [prefix @ n]) @ structFieldKeys fs prefix)"
  by pat_completeness auto
termination
proof (relation "measure (\<lambda>(fs, _). size_list (size_prod (\<lambda>_. 0) size) fs)"; (simp; fail)?)
  fix n :: string and t gs and fs :: "(string \<times> rtype) list" and prefix
  assume "derefAll t = TStruct gs"
  then show "((gs, prefix @ n @ ''.''), (n, t) # fs, prefix)
      \<in> measure (\<lambda>(fs, _). size_list (size_prod (\<lambda>_. 0) size) fs)"
    using derefAll_size [of t] by simp
next
  fix n :: string and t e gs and fs :: "(string \<times> rtype) list" and prefix
  assume "derefAll t = TSlice e" "deref1 e = TStruct gs"
  then show "((gs, prefix @ n @ ''.''), (n, t) # fs, prefix)
      \<in> measure (\<lambda>(fs, _). size_list (size_prod (\<lambda>_. 0) size) fs)"
    using derefAll_size [of t] deref1_size [of e] by simp
qed

definition StructFieldKeys :: "(string \<times> rtype) list \<Rightarrow> string list" where
  "StructFieldKeys fs = structFieldKeys fs []"

end
