(* ===== verification/Flow_Types.thy ===== *)
theory Flow_Types
  imports Layers Reflect Filters
begin

text \<open>
  The data of \<^verbatim>\<open>src/flow\<close>: the messages of \<^verbatim>\<open>flow.proto\<close>, the flow state the table keeps
  beside them, the option types of \<^verbatim>\<open>flow.go\<close> and the field access of a flow
  (\<^verbatim>\<open>flow.go\<close>, \<^verbatim>\<open>flow.pb_gendecoder.go\<close>).  Integers are HOL integers, arithmetic on them
  wraps where the code computes.  \<^verbatim>\<open>Flow.Metric\<close> is a pointer that \<^verbatim>\<open>NewFlow\<close> always sets: it
  is modelled as the metric itself.
\<close>

section \<open>Enumerations\<close>

datatype FlowProtocol =
  FP_ETHERNET | FP_IPV4 | FP_TCP | FP_UDP | FP_SCTP | FP_IPV6 | FP_ICMPV4 | FP_ICMPV6

datatype FlowFinishType = NOT_FINISHED | TIMEOUT | TCP_FIN | TCP_RST

datatype ICMPType =
    IT_UNKNOWN | IT_DESTINATION_UNREACHABLE | IT_ECHO | IT_NEIGHBOR | IT_ADDRESS_MASK | IT_INFO
  | IT_PARAMETER_PROBLEM | IT_REDIRECT | IT_ROUTER | IT_SOURCE_QUENCH | IT_TIME_EXCEEDED
  | IT_TIMESTAMP | IT_PACKET_TOO_BIG

definition FlowProtocol_table :: "(string \<times> FlowProtocol) list" where
  "FlowProtocol_table =
     [(''ETHERNET'', FP_ETHERNET), (''IPV4'', FP_IPV4), (''TCP'', FP_TCP), (''UDP'', FP_UDP),
      (''SCTP'', FP_SCTP), (''IPV6'', FP_IPV6), (''ICMPV4'', FP_ICMPV4), (''ICMPV6'', FP_ICMPV6)]"

definition ICMPType_table :: "(string \<times> ICMPType) list" where
  "ICMPType_table =
     [(''UNKNOWN'', IT_UNKNOWN), (''DESTINATION_UNREACHABLE'', IT_DESTINATION_UNREACHABLE),
      (''ECHO'', IT_ECHO), (''NEIGHBOR'', IT_NEIGHBOR), (''ADDRESS_MASK'', IT_ADDRESS_MASK),
      (''INFO'', IT_INFO), (''PARAMETER_PROBLEM'', IT_PARAMETER_PROBLEM), (''REDIRECT'', IT_REDIRECT),
      (''ROUTER'', IT_ROUTER), (''SOURCE_QUENCH'', IT_SOURCE_QUENCH),
      (''TIME_EXCEEDED'', IT_TIME_EXCEEDED), (''TIMESTAMP'', IT_TIMESTAMP),
      (''PACKET_TOO_BIG'', IT_PACKET_TOO_BIG)]"

text \<open>The name of a value, and its number: its position in the table.\<close>

fun enumName :: "(string \<times> 'a) list \<Rightarrow> 'a \<Rightarrow> string" where
  "enumName [] v = []"
| "enumName ((n, w) # t) v = (if w = v then n else enumName t v)"

fun enumNumber :: "(string \<times> 'a) list \<Rightarrow> 'a \<Rightarrow> nat" where
  "enumNumber [] v = 0"
| "enumNumber ((n, w) # t) v = (if w = v then 0 else Suc (enumNumber t v))"

definition FlowProtocol_String :: "FlowProtocol \<Rightarrow> string" where
  "FlowProtocol_String p = enumName FlowProtocol_table p"

definition ICMPType_String :: "ICMPType \<Rightarrow> string" where
  "ICMPType_String i = enumName ICMPType_table i"

definition ICMPType_Value :: "ICMPType \<Rightarrow> nat" where
  "ICMPType_Value i = enumNumber ICMPType_table i"

definition FlowProtocol_Value :: "FlowProtocol \<Rightarrow> nat" where
  "FlowProtocol_Value p = enumNumber FlowProtocol_table p"

text \<open>\<^verbatim>\<open>b[1:len(b)-1]\<close> panics on fewer than two bytes: \<open>None\<close>.\<close>

definition unquote :: "string \<Rightarrow> string option" where
  "unquote b = (if length b < 2 then None else Some (butlast (tl b)))"

definition FlowProtocol_MarshalJSON :: "FlowProtocol \<Rightarrow> string" where
  "FlowProtocol_MarshalJSON p = ''\"'' @ FlowProtocol_String p @ ''\"''"

definition FlowProtocol_UnmarshalJSON :: "string \<Rightarrow> FlowProtocol result option" where
  "FlowProtocol_UnmarshalJSON b =
     map_option (\<lambda>n. case map_of FlowProtocol_table n of None \<Rightarrow> Inl ErrFlowProtocol | Some p \<Rightarrow> Inr p) (unquote b)"

definition ICMPType_MarshalJSON :: "ICMPType \<Rightarrow> string" where
  "ICMPType_MarshalJSON i = ''\"'' @ ICMPType_String i @ ''\"''"

definition ICMPType_UnmarshalJSON :: "string \<Rightarrow> ICMPType result option" where
  "ICMPType_UnmarshalJSON b =
     map_option (\<lambda>n. case map_of ICMPType_table n of None \<Rightarrow> Inl ErrFlowProtocol | Some p \<Rightarrow> Inr p) (unquote b)"

text \<open>The ICMP types by the numbers of the standard, requests and replies together.\<close>

definition ICMPv4TypeToFlowICMPType :: "int \<Rightarrow> ICMPType" where
  "ICMPv4TypeToFlowICMPType kind =
     (if kind = 8 \<or> kind = 0 then IT_ECHO
      else if kind = 17 \<or> kind = 18 then IT_ADDRESS_MASK
      else if kind = 3 then IT_DESTINATION_UNREACHABLE
      else if kind = 15 \<or> kind = 16 then IT_INFO
      else if kind = 12 then IT_PARAMETER_PROBLEM
      else if kind = 5 then IT_REDIRECT
      else if kind = 10 \<or> kind = 9 then IT_ROUTER
      else if kind = 4 then IT_SOURCE_QUENCH
      else if kind = 11 then IT_TIME_EXCEEDED
      else if kind = 13 \<or> kind = 14 then IT_TIMESTAMP
      else IT_UNKNOWN)"

definition ICMPv6TypeToFlowICMPType :: "int \<Rightarrow> ICMPType" where
  "ICMPv6TypeToFlowICMPType kind =
     (if kind = 128 \<or> kind = 129 then IT_ECHO
      else if kind = 135 \<or> kind = 136 then IT_NEIGHBOR
      else if kind = 1 then IT_DESTINATION_UNREACHABLE
      else if kind = 2 then IT_PACKET_TOO_BIG
      else if kind = 4 then IT_PARAMETER_PROBLEM
      else if kind = 137 then IT_REDIRECT
      else if kind = 133 \<or> kind = 134 then IT_ROUTER
      else if kind = 3 then IT_TIME_EXCEEDED
      else IT_UNKNOWN)"

section \<open>Options\<close>

datatype LayerKeyMode = L2KeyMode | L3PreferredKeyMode

definition LayerKeyMode_String :: "LayerKeyMode \<Rightarrow> string" where
  "LayerKeyMode_String l = (if l = L2KeyMode then ''L2'' else ''L3'')"

definition LayerKeyModeByName :: "string \<Rightarrow> LayerKeyMode result" where
  "LayerKeyModeByName name =
     (if name = ''L2'' then Inr L2KeyMode
      else if name = ''L3'' then Inr L3PreferredKeyMode
      else Inl ErrLayerKeyMode)"

text \<open>\<open>mode\<close> is the configuration's \<^verbatim>\<open>flow.default_layer_key_mode\<close>.\<close>

definition DefaultLayerKeyModeName :: "string \<Rightarrow> string" where
  "DefaultLayerKeyModeName mode = (if mode = [] then LayerKeyMode_String L2KeyMode else mode)"

text \<open>\<^verbatim>\<open>ExtraLayers\<close>, a bit set: VRRP 1, DNS 2, DHCPv4 4.\<close>

type_synonym ExtraLayers = nat

definition extraLayersMap :: "(string, nat) gomap" where
  "extraLayersMap = [(''VRRP'', 1), (''DNS'', 2), (''DHCPv4'', 4)]"

fun parseExtra :: "nat \<Rightarrow> string list \<Rightarrow> nat \<times> go_error option" where
  "parseExtra e [] = (e, None)"
| "parseExtra e (v # vs) =
     (case map_of extraLayersMap v of
        Some i \<Rightarrow> parseExtra (or e i) vs
      | None \<Rightarrow> (e, Some ErrExtraLayer))"

definition ExtraLayers_Parse :: "string list \<Rightarrow> ExtraLayers \<times> go_error option" where
  "ExtraLayers_Parse s = parseExtra 0 s"

text \<open>\<open>order\<close> is the order in which the map is iterated.\<close>

definition ExtraLayers_Extract :: "(string, nat) gomap \<Rightarrow> ExtraLayers \<Rightarrow> string list" where
  "ExtraLayers_Extract order e = map fst (filter (\<lambda>(k, v). and e v > 0) order)"

definition ExtraLayers_String :: "(string, nat) gomap \<Rightarrow> ExtraLayers \<Rightarrow> string" where
  "ExtraLayers_String order e = joinWith ''|'' (ExtraLayers_Extract order e)"

section \<open>Application ports\<close>

record ApplicationPortMap =
  apm_UDP :: "(int, string) gomap"
  apm_TCP :: "(int, string) gomap"

definition application :: "int \<Rightarrow> int \<Rightarrow> (int, string) gomap \<Rightarrow> string option" where
  "application srcPort dstPort protoMap =
     (case map_of protoMap srcPort of Some app \<Rightarrow> Some app | None \<Rightarrow> map_of protoMap dstPort)"

definition tcpApplication :: "ApplicationPortMap option \<Rightarrow> int \<Rightarrow> int \<Rightarrow> string option" where
  "tcpApplication a s d = (case a of None \<Rightarrow> None | Some a \<Rightarrow> application s d (apm_TCP a))"

definition udpApplication :: "ApplicationPortMap option \<Rightarrow> int \<Rightarrow> int \<Rightarrow> string option" where
  "udpApplication a s d = (case a of None \<Rightarrow> None | Some a \<Rightarrow> application s d (apm_UDP a))"

definition ToUpper :: "string \<Rightarrow> string" where
  "ToUpper s = map (\<lambda>c. if of_char c \<in> {97..122::nat} then char_of (of_char c - 32 :: nat) else c) s"

text \<open>\<open>loadPorts m conf\<close>: the entries of one protocol in the order the configuration's map is
  iterated; a port that does not parse is logged and left out.\<close>

fun loadPorts :: "(int, string) gomap \<Rightarrow> (string \<times> string) list \<Rightarrow> (int, string) gomap" where
  "loadPorts m [] = m"
| "loadPorts m ((port, name) # conf) =
     (case ParseInt port of
        Inl _ \<Rightarrow> loadPorts m conf
      | Inr i \<Rightarrow> loadPorts (gm_set i (ToUpper name) m) conf)"

definition NewApplicationPortMapFromConfig ::
  "(string \<times> string) list \<Rightarrow> (string \<times> string) list \<Rightarrow> ApplicationPortMap" where
  "NewApplicationPortMapFromConfig udp tcp = \<lparr>apm_UDP = loadPorts [] udp, apm_TCP = loadPorts [] tcp\<rparr>"

record Opts =
  o_TCPMetric :: bool
  o_IPDefrag :: bool
  o_LayerKeyMode :: LayerKeyMode
  o_AppPortMap :: "ApplicationPortMap option"
  o_ExtraLayers :: ExtraLayers

section \<open>Flows\<close>

record FlowLayer =
  fl_Protocol :: FlowProtocol
  fl_A :: string
  fl_B :: string
  fl_ID :: int

record TransportLayer =
  tl_Protocol :: FlowProtocol
  tl_A :: int
  tl_B :: int
  tl_ID :: int

record ICMPLayer =
  ic_Type :: ICMPType
  ic_Code :: int
  ic_ID :: int

record FlowMetric =
  fm_ABPackets :: int
  fm_ABBytes :: int
  fm_BAPackets :: int
  fm_BABytes :: int
  fm_Start :: int
  fm_Last :: int
  fm_RTT :: int

definition zeroFlowMetric :: FlowMetric where
  "zeroFlowMetric =
     \<lparr>fm_ABPackets = 0, fm_ABBytes = 0, fm_BAPackets = 0, fm_BABytes = 0, fm_Start = 0, fm_Last = 0, fm_RTT = 0\<rparr>"

record RawPacket =
  raw_Timestamp :: int
  raw_Index :: int
  raw_Data :: bytes
  raw_LinkType :: int

record IPMetric =
  im_Fragments :: int
  im_FragmentErrors :: int

record TCPMetric =
  tm_ABSynStart :: int
  tm_BASynStart :: int
  tm_ABSynTTL :: int
  tm_BASynTTL :: int
  tm_ABFinStart :: int
  tm_BAFinStart :: int
  tm_ABRstStart :: int
  tm_BARstStart :: int
  tm_ABSegmentOutOfOrder :: int
  tm_ABSegmentSkipped :: int
  tm_ABSegmentSkippedBytes :: int
  tm_ABPackets :: int
  tm_ABBytes :: int
  tm_ABSawStart :: int
  tm_ABSawEnd :: int
  tm_BASegmentOutOfOrder :: int
  tm_BASegmentSkipped :: int
  tm_BASegmentSkippedBytes :: int
  tm_BAPackets :: int
  tm_BABytes :: int
  tm_BASawStart :: int
  tm_BASawEnd :: int

definition zeroTCPMetric :: TCPMetric where
  "zeroTCPMetric =
     \<lparr>tm_ABSynStart = 0, tm_BASynStart = 0, tm_ABSynTTL = 0, tm_BASynTTL = 0, tm_ABFinStart = 0,
      tm_BAFinStart = 0, tm_ABRstStart = 0, tm_BARstStart = 0, tm_ABSegmentOutOfOrder = 0,
      tm_ABSegmentSkipped = 0, tm_ABSegmentSkippedBytes = 0, tm_ABPackets = 0, tm_ABBytes = 0,
      tm_ABSawStart = 0, tm_ABSawEnd = 0, tm_BASegmentOutOfOrder = 0, tm_BASegmentSkipped = 0,
      tm_BASegmentSkippedBytes = 0, tm_BAPackets = 0, tm_BABytes = 0, tm_BASawStart = 0, tm_BASawEnd = 0\<rparr>"

record DNS_layer =
  dl_ID :: int
  dl_QR :: bool
  dl_OpCode :: string
  dl_AA :: bool
  dl_TC :: bool
  dl_RD :: bool
  dl_RA :: bool
  dl_Z :: int
  dl_ResponseCode :: string
  dl_QDCount :: int
  dl_ANCount :: int
  dl_NSCount :: int
  dl_ARCount :: int
  dl_Questions :: "DNSQuestion list"
  dl_Answers :: "DNSResourceRecord list"
  dl_Authorities :: "DNSResourceRecord list"
  dl_Additionals :: "DNSResourceRecord list"
  dl_Timestamp :: int

text \<open>The state the flow table tracks within a flow; the external key is an opaque number.\<close>

record flowState =
  st_extKey :: "nat option"
  st_lastMetric :: FlowMetric
  st_rtt1stPacket :: int
  st_updateVersion :: int
  st_ipv4 :: "IP_data option"
  st_ipv6 :: "IP_data option"

record Flow =
  f_state :: flowState
  f_UUID :: string
  f_LayersPath :: string
  f_Application :: string
  f_Link :: "FlowLayer option"
  f_Network :: "FlowLayer option"
  f_Transport :: "TransportLayer option"
  f_ICMP :: "ICMPLayer option"
  f_DHCPv4 :: "DHCPv4_data option"
  f_DNS :: "DNS_layer option"
  f_VRRPv2 :: "VRRPv2_data option"
  f_LastUpdateMetric :: "FlowMetric option"
  f_Metric :: FlowMetric
  f_TCPMetric :: "TCPMetric option"
  f_IPMetric :: "IPMetric option"
  f_Start :: int
  f_Last :: int
  f_TrackingID :: string
  f_L3TrackingID :: string
  f_ParentUUID :: string
  f_NodeTID :: string
  f_CaptureID :: string
  f_LastRawPackets :: "RawPacket list"
  f_RawPacketsCaptured :: int
  f_FinishType :: FlowFinishType

definition zeroFlowState :: flowState where
  "zeroFlowState =
     \<lparr>st_extKey = None, st_lastMetric = zeroFlowMetric, st_rtt1stPacket = 0, st_updateVersion = 0,
      st_ipv4 = None, st_ipv6 = None\<rparr>"

definition NewFlow :: Flow where
  "NewFlow =
     \<lparr>f_state = zeroFlowState, f_UUID = [], f_LayersPath = [], f_Application = [], f_Link = None,
      f_Network = None, f_Transport = None, f_ICMP = None, f_DHCPv4 = None, f_DNS = None,
      f_VRRPv2 = None, f_LastUpdateMetric = None, f_Metric = zeroFlowMetric, f_TCPMetric = None,
      f_IPMetric = None, f_Start = 0, f_Last = 0, f_TrackingID = [], f_L3TrackingID = [],
      f_ParentUUID = [], f_NodeTID = [], f_CaptureID = [], f_LastRawPackets = [],
      f_RawPacketsCaptured = 0, f_FinishType = NOT_FINISHED\<rparr>"

record UUIDs =
  u_NodeTID :: string
  u_CaptureID :: string

end
