(* ===== verification/Packets.thy ===== *)
theory Packets
  imports Flow_Types "HOL-Library.Word"
begin

text \<open>
  Packets and the keys of their flows (\<^verbatim>\<open>src/flow/flow.go\<close>, \<^verbatim>\<open>src/flow/hash.go\<close>): the layers of a
  sub-packet, the three hash keys of \<^verbatim>\<open>Packet.Keys\<close>, the UUIDs of a flow, and the split of a captured
  packet into the packets of its encapsulations.  The hash function xxHash64 is the parameter
  \<open>xxh\<close>, a function of the seed and of all the bytes written; a hasher is its seed with what was
  written so far.
\<close>

section \<open>Packets\<close>

record PacketMetadata =
  pm_Timestamp :: int \<comment> \<open>nanoseconds since the epoch\<close>
  pm_CaptureLength :: int
  pm_Length :: int

text \<open>What a decoded \<^verbatim>\<open>gopacket.Packet\<close> hands out.\<close>

record GoPacket =
  gp_Layers :: "layer list"
  gp_Data :: bytes
  gp_Metadata :: "PacketMetadata option"
  gp_LinkLayer :: "layer option"
  gp_NetworkLayer :: "layer option"
  gp_TransportLayer :: "layer option"

record Packet =
  p_GoPacket :: GoPacket
  p_Layers :: "layer list"
  p_Data :: bytes
  p_Length :: int
  p_IPMetric :: "IPMetric option"
  p_linkLayer :: "layer option"
  p_networkLayer :: "layer option"
  p_transportLayer :: "layer option"

text \<open>\<^verbatim>\<open>packet.GoPacket.Metadata().CaptureInfo.Timestamp\<close>, which panics without metadata.\<close>

definition timestamp :: "Packet \<Rightarrow> int option" where
  "timestamp p = map_option pm_Timestamp (gp_Metadata (p_GoPacket p))"

definition Packet_Layer :: "Packet \<Rightarrow> layer_type \<Rightarrow> layer option" where
  "Packet_Layer p t = List.find (\<lambda>l. LayerType l = t) (p_Layers p)"

text \<open>The accessors keep what they found in the packet; the layers do not change, so they are
  functions of the packet.\<close>

definition orElse :: "'a option \<Rightarrow> 'a option \<Rightarrow> 'a option" where
  "orElse a b = (case a of Some _ \<Rightarrow> a | None \<Rightarrow> b)"

definition Packet_LinkLayer :: "Packet \<Rightarrow> layer option" where
  "Packet_LinkLayer p = orElse (p_linkLayer p) (Packet_Layer p LayerTypeEthernet)"

definition Packet_NetworkLayer :: "Packet \<Rightarrow> layer option" where
  "Packet_NetworkLayer p =
     orElse (p_networkLayer p) (orElse (Packet_Layer p LayerTypeIPv4) (Packet_Layer p LayerTypeIPv6))"

definition Packet_TransportLayer :: "Packet \<Rightarrow> layer option" where
  "Packet_TransportLayer p =
     orElse (p_transportLayer p)
       (orElse (Packet_Layer p LayerTypeUDP)
         (orElse (Packet_Layer p LayerTypeTCP) (Packet_Layer p LayerTypeSCTP)))"

fun ICMPv4_of :: "layer_data \<Rightarrow> (int \<times> int \<times> int) option" where
  "ICMPv4_of (ICMPv4 t c i) = Some (t, c, i)"
| "ICMPv4_of _ = None"

fun ICMPv6_of :: "layer_data \<Rightarrow> (int \<times> int) option" where
  "ICMPv6_of (ICMPv6 t c) = Some (t, c)"
| "ICMPv6_of _ = None"

fun ICMPv6Echo_of :: "layer_data \<Rightarrow> int option" where
  "ICMPv6Echo_of (ICMPv6Echo i) = Some i"
| "ICMPv6Echo_of _ = None"

text \<open>The typed view of the first layer of a type: \<^verbatim>\<open>layer.(*layers.T)\<close>.\<close>

definition layerAs :: "Packet \<Rightarrow> layer_type \<Rightarrow> (layer_data \<Rightarrow> 'a option) \<Rightarrow> 'a option" where
  "layerAs p t view = (case Packet_Layer p t of None \<Rightarrow> None | Some l \<Rightarrow> view (layerData l))"

definition icmp_word :: "nat \<Rightarrow> int \<Rightarrow> int \<Rightarrow> bytes" where
  "icmp_word t code ident =
     bigEndian 4 (uint32 (int (or (or (push_bit 24 t) (push_bit 16 (nat code))) (nat ident))))"

definition ApplicationFlow :: "Packet \<Rightarrow> gflow result" where
  "ApplicationFlow p =
     (case layerAs p LayerTypeICMPv4 ICMPv4_of of
        Some (t, c, i) \<Rightarrow>
          Inr \<lparr>gf_type = 0, gf_src = icmp_word (ICMPType_Value (ICMPv4TypeToFlowICMPType t)) c i, gf_dst = []\<rparr>
      | None \<Rightarrow>
      (case layerAs p LayerTypeICMPv6Echo ICMPv6Echo_of of
        Some i \<Rightarrow> Inr \<lparr>gf_type = 0, gf_src = icmp_word (ICMPType_Value IT_ECHO) 0 i, gf_dst = []\<rparr>
      | None \<Rightarrow>
      (case layerAs p LayerTypeICMPv6 ICMPv6_of of
        Some (t, c) \<Rightarrow>
          Inr \<lparr>gf_type = 0, gf_src = icmp_word (ICMPType_Value (ICMPv6TypeToFlowICMPType t)) c 0, gf_dst = []\<rparr>
      | None \<Rightarrow> Inl ErrLayerNotFound)))"

text \<open>The network identifier of a VXLAN or Geneve header, the last layer of an encapsulation.\<close>

fun tunnelVNI :: "layer_data \<Rightarrow> int option" where
  "tunnelVNI (VXLAN vni) = Some vni"
| "tunnelVNI (Geneve vni) = Some vni"
| "tunnelVNI _ = None"

fun UDP_of :: "layer_data \<Rightarrow> (int \<times> int) option" where
  "UDP_of (UDP s d) = Some (s, d)"
| "UDP_of _ = None"

text \<open>\<open>None\<close> is the panic of \<^verbatim>\<open>p.Layers[len(p.Layers)-1]\<close> on a packet without layers.\<close>

definition Packet_TransportFlow :: "gopacket \<Rightarrow> Packet \<Rightarrow> bool \<Rightarrow> gflow result option" where
  "Packet_TransportFlow gp p swap =
     (case Packet_TransportLayer p of
        None \<Rightarrow> Some (Inl ErrLayerNotFound)
      | Some l \<Rightarrow>
          (case UDP_of (layerData l) of
             None \<Rightarrow> Some (Inr (TransportFlow gp (layerData l)))
           | Some (_, dst) \<Rightarrow>
               if p_Layers p = [] then None
               else (case tunnelVNI (layerData (last (p_Layers p))) of
                       None \<Rightarrow> Some (Inr (TransportFlow gp (layerData l)))
                     | Some vni \<Rightarrow>
                         (let value16 = bigEndian 2 (nat dst); value32 = bigEndian 4 (nat vni)
                          in Some (Inr (if swap then \<lparr>gf_type = 0, gf_src = value16, gf_dst = value32\<rparr>
                                        else \<lparr>gf_type = 0, gf_src = value32, gf_dst = value16\<rparr>))))))"

section \<open>Hashing\<close>

type_synonym xxhash = "nat \<Rightarrow> bytes \<Rightarrow> nat"

record hasher =
  h_seed :: nat
  h_bytes :: bytes

definition xxHash64_New :: "nat \<Rightarrow> hasher" where
  "xxHash64_New seed = \<lparr>h_seed = seed, h_bytes = []\<rparr>"

definition Write :: "bytes \<Rightarrow> hasher \<Rightarrow> hasher" where
  "Write b h = h\<lparr>h_bytes := h_bytes h @ b\<rparr>"

definition Sum64 :: "xxhash \<Rightarrow> hasher \<Rightarrow> nat" where
  "Sum64 xxh h = xxh (h_seed h) (h_bytes h) mod 2 ^ 64"

definition hashFlow :: "gflow \<Rightarrow> bool \<Rightarrow> hasher \<Rightarrow> hasher" where
  "hashFlow f swap h =
     Write (bigEndian 8 (uint64 (gf_type f)))
       (if swap then Write (gf_src f) (Write (gf_dst f) h) else Write (gf_dst f) (Write (gf_src f) h))"

definition ICMPLayer_Hash :: "ICMPLayer option \<Rightarrow> hasher \<Rightarrow> hasher" where
  "ICMPLayer_Hash fl h =
     (case fl of
        None \<Rightarrow> h
      | Some fl \<Rightarrow>
          Write (bigEndian 4 (uint32 (int
            (or (push_bit 24 (ICMPType_Value (ic_Type fl)))
                (or (uint32 (push_bit 16 (ic_Code fl))) (nat (ic_ID fl))))))) h)"

definition TransportLayer_Hash :: "TransportLayer option \<Rightarrow> bool \<Rightarrow> hasher \<Rightarrow> hasher" where
  "TransportLayer_Hash l swap h =
     (case l of
        None \<Rightarrow> h
      | Some t \<Rightarrow>
          Write (bigEndian 8 (uint64 (tl_ID t)))
            (Write (bigEndian 4 (uint32 (if swap then or (push_bit 16 (tl_B t)) (tl_A t)
                                         else or (push_bit 16 (tl_A t)) (tl_B t)))) h))"

definition FlowLayer_Hash :: "FlowLayer option \<Rightarrow> bool \<Rightarrow> hasher \<Rightarrow> hasher" where
  "FlowLayer_Hash fl swap h =
     (case fl of
        None \<Rightarrow> h
      | Some fl \<Rightarrow>
          Write (bigEndian 8 (uint64 (fl_ID fl)))
            (if swap then Write (fl_A fl) (Write (fl_B fl) h) else Write (fl_B fl) (Write (fl_A fl) h)))"

section \<open>Keys of a packet\<close>

text \<open>Whether the link layer takes part in the keys.\<close>

definition usesLink :: "Packet \<Rightarrow> Opts \<Rightarrow> bool" where
  "usesLink p opts \<longleftrightarrow>
     (o_LayerKeyMode opts = L2KeyMode \<and> Packet_LinkLayer p \<noteq> None) \<or> Packet_NetworkLayer p = None"

text \<open>\<open>bytes.Compare(src, dst) > 0\<close>\<close>

definition flowSwap :: "gflow \<Rightarrow> bool" where
  "flowSwap f \<longleftrightarrow> gf_dst f < gf_src f"

definition networkSwap :: "gopacket \<Rightarrow> Packet \<Rightarrow> layer \<Rightarrow> bool option" where
  "networkSwap gp p l3 =
     (let nf = NetworkFlow gp (layerData l3)
      in if gf_src nf = gf_dst nf
         then (case Packet_TransportFlow gp p False of
                 None \<Rightarrow> None
               | Some (Inl _) \<Rightarrow> Some False
               | Some (Inr tf) \<Rightarrow> Some (flowSwap tf))
         else Some (flowSwap nf))"

text \<open>The direction in which the layers are hashed; \<open>None\<close> is the panic of a packet that has
  neither a link nor a network layer.\<close>

definition keySwap :: "gopacket \<Rightarrow> Packet \<Rightarrow> Opts \<Rightarrow> bool option" where
  "keySwap gp p opts =
     (if usesLink p opts
      then (case Packet_LinkLayer p of
              None \<Rightarrow> None
            | Some l2 \<Rightarrow>
                (let lf = LinkFlow gp (layerData l2)
                 in (case Packet_NetworkLayer p of
                       Some l3 \<Rightarrow> if gf_src lf = gf_dst lf then networkSwap gp p l3 else Some (flowSwap lf)
                     | None \<Rightarrow> Some (flowSwap lf))))
      else (case Packet_NetworkLayer p of None \<Rightarrow> None | Some l3 \<Rightarrow> networkSwap gp p l3))"

definition hashNetwork :: "gopacket \<Rightarrow> Packet \<Rightarrow> bool \<Rightarrow> hasher \<Rightarrow> hasher" where
  "hashNetwork gp p swap h =
     (case Packet_NetworkLayer p of None \<Rightarrow> h | Some l3 \<Rightarrow> hashFlow (NetworkFlow gp (layerData l3)) swap h)"

definition hashTransport :: "gopacket \<Rightarrow> Packet \<Rightarrow> bool \<Rightarrow> hasher \<Rightarrow> hasher option" where
  "hashTransport gp p swap h =
     (case Packet_TransportFlow gp p swap of
        None \<Rightarrow> None
      | Some (Inl _) \<Rightarrow> Some h
      | Some (Inr tf) \<Rightarrow> Some (hashFlow tf swap h))"

definition hashApplication :: "Packet \<Rightarrow> hasher \<Rightarrow> hasher" where
  "hashApplication p h =
     (case ApplicationFlow p of Inl _ \<Rightarrow> h | Inr af \<Rightarrow> hashFlow af (flowSwap af) h)"

definition hashLink :: "gopacket \<Rightarrow> Packet \<Rightarrow> Opts \<Rightarrow> bool \<Rightarrow> hasher \<Rightarrow> hasher" where
  "hashLink gp p opts swap h =
     (if usesLink p opts
      then (case Packet_LinkLayer p of None \<Rightarrow> h | Some l2 \<Rightarrow> hashFlow (LinkFlow gp (layerData l2)) swap h)
      else h)"

definition Keys :: "xxhash \<Rightarrow> gopacket \<Rightarrow> Packet \<Rightarrow> string \<Rightarrow> Opts \<Rightarrow> (nat \<times> nat \<times> nat) option" where
  "Keys xxh gp p parentUUID opts =
     (case keySwap gp p opts of
        None \<Rightarrow> None
      | Some swap \<Rightarrow>
          (case hashTransport gp p swap (hashNetwork gp p swap (xxHash64_New 0)) of
             None \<Rightarrow> None
           | Some h \<Rightarrow>
               (let h3 = hashApplication p h; h2 = hashLink gp p opts swap h3
                in Some (Sum64 xxh (Write parentUUID h2), Sum64 xxh h2, Sum64 xxh h3))))"

section \<open>Names and identifiers of the layers\<close>

fun layersPathLoop :: "gopacket \<Rightarrow> nat \<Rightarrow> string \<Rightarrow> string \<Rightarrow> layer list \<Rightarrow> string \<times> string" where
  "layersPathLoop gp i path app [] = (path, app)"
| "layersPathLoop gp i path app (l # ls) =
     (if LayerType l = LayerTypeLinuxSLL then layersPathLoop gp (Suc i) path app ls
      else if LayerType l = LayerTypePayload \<or> LayerType l = LayerTypeDecodeFailure then (path, app)
      else let name = layerName gp (LayerType l)
           in layersPathLoop gp (Suc i) (path @ (if i > 0 then ''/'' else []) @ name) name ls)"

definition LayersPath :: "gopacket \<Rightarrow> layer list \<Rightarrow> string \<times> string" where
  "LayersPath gp ls = layersPathLoop gp 0 [] [] ls"

text \<open>The VLAN identifiers, twelve bits each, the outermost one last; the shift wraps.\<close>

fun vlanOf :: "layer_data \<Rightarrow> int option" where
  "vlanOf (Dot1Q v) = Some v"
| "vlanOf _ = None"

definition linkID :: "Packet \<Rightarrow> int" where
  "linkID p =
     foldl (\<lambda>i l. case vlanOf (layerData l) of Some v \<Rightarrow> or (wrap64 (push_bit 12 i)) v | None \<Rightarrow> i)
       0 (rev (p_Layers p))"

fun netOf :: "layer_data \<Rightarrow> int option" where
  "netOf (VXLAN v) = Some v"
| "netOf (GRE k) = Some k"
| "netOf (Geneve v) = Some v"
| "netOf _ = None"

definition networkID :: "Packet \<Rightarrow> int" where
  "networkID p =
     (case List.find (\<lambda>l. netOf (layerData l) \<noteq> None) (rev (p_Layers p)) of
        None \<Rightarrow> 0
      | Some l \<Rightarrow> the (netOf (layerData l)))"

text \<open>\<^verbatim>\<open>GetFirstLayerType\<close>; link types by their numbers: Ethernet 1, IPv4 228, IPv6 229.\<close>

definition GetFirstLayerType :: "string \<Rightarrow> layer_type \<times> int" where
  "GetFirstLayerType encapType =
     (if encapType = ''ether'' then (LayerTypeEthernet, 1)
      else if encapType = ''none'' \<or> encapType = ''gre'' then (LayerTypeRawIP, 228)
      else if encapType = ''sit'' \<or> encapType = ''ipip'' then (LayerTypeIPv4, 228)
      else if encapType = ''tunnel6'' \<or> encapType = ''gre6'' then (LayerTypeIPv6, 229)
      else (LayerTypeEthernet, 1))"

section \<open>UUIDs of a flow\<close>

definition setUUIDs :: "xxhash \<Rightarrow> nat \<Rightarrow> nat \<Rightarrow> nat \<Rightarrow> Flow \<Rightarrow> Flow" where
  "setUUIDs xxh key l2Key l3Key f =
     f\<lparr>f_TrackingID := FormatUint l2Key 16, f_L3TrackingID := FormatUint l3Key 16,
       f_UUID := FormatUint (Sum64 xxh (Write (f_NodeTID f) (Write (bigEndian 8 (uint64 (f_Start f)))
                   (xxHash64_New key)))) 16\<rparr>"

text \<open>\<^verbatim>\<open>SetUUIDs\<close>, from the layers of the flow; without link and network it panics.\<close>

definition flowKeySwap :: "Flow \<Rightarrow> Opts \<Rightarrow> bool option" where
  "flowKeySwap f opts =
     (case (f_Link f, f_Network f) of
        (Some l, None) \<Rightarrow> Some (fl_B l < fl_A l)
      | (None, None) \<Rightarrow> None
      | (l, Some n) \<Rightarrow>
          (case l of
             Some l \<Rightarrow>
               if o_LayerKeyMode opts = L2KeyMode \<and> fl_A l \<noteq> fl_B l then Some (fl_B l < fl_A l)
               else (case f_Transport f of
                       Some t \<Rightarrow> if fl_A n = fl_B n then Some (tl_A t > tl_B t) else Some (fl_B n < fl_A n)
                     | None \<Rightarrow> Some (fl_B n < fl_A n))
           | None \<Rightarrow>
               (case f_Transport f of
                  Some t \<Rightarrow> if fl_A n = fl_B n then Some (tl_A t > tl_B t) else Some (fl_B n < fl_A n)
                | None \<Rightarrow> Some (fl_B n < fl_A n))))"

definition SetUUIDs :: "xxhash \<Rightarrow> nat \<Rightarrow> Opts \<Rightarrow> Flow \<Rightarrow> (Flow \<times> nat \<times> nat) option" where
  "SetUUIDs xxh key opts f =
     (case flowKeySwap f opts of
        None \<Rightarrow> None
      | Some swap \<Rightarrow>
          (let h3 = ICMPLayer_Hash (f_ICMP f) (TransportLayer_Hash (f_Transport f) swap
                      (FlowLayer_Hash (f_Network f) swap (xxHash64_New 0)));
               l3Key = Sum64 xxh h3;
               l2Key = (if (o_LayerKeyMode opts = L2KeyMode \<and> f_Link f \<noteq> None) \<or> f_Network f = None
                        then Sum64 xxh (FlowLayer_Hash (f_Link f) swap h3) else l3Key)
           in Some (setUUIDs xxh key l2Key l3Key f, l2Key, l3Key)))"

definition Flow_LinkType :: "Flow \<Rightarrow> int result" where
  "Flow_LinkType f =
     (case f_Link f of
        Some _ \<Rightarrow> Inr 1
      | None \<Rightarrow>
          (case f_Network f of
             Some n \<Rightarrow> (if fl_Protocol n = FP_IPV4 then Inr 228
                         else if fl_Protocol n = FP_IPV6 then Inr 229 else Inl ErrLinkType)
           | None \<Rightarrow> Inl ErrLinkType))"

section \<open>The two directions of a conversation\<close>

text \<open>
  A tunnel packet: the transport layer is UDP and the last layer is the tunnel's header.  Its flow
  is known by the destination port and the network identifier.
\<close>

definition tunnelOf :: "Packet \<Rightarrow> (int \<times> int) option" where
  "tunnelOf p =
     (case Packet_TransportLayer p of
        None \<Rightarrow> None
      | Some l \<Rightarrow>
          (case UDP_of (layerData l) of
             None \<Rightarrow> None
           | Some (_, dst) \<Rightarrow> if p_Layers p = [] then None
                             else map_option (Pair dst) (tunnelVNI (layerData (last (p_Layers p))))))"

text \<open>
  Packets of opposite directions: the endpoints of every layer are exchanged, or the packets are
  of the same tunnel; the ICMP identity, if any, is the same.
\<close>

definition reversed :: "(layer_data \<Rightarrow> gflow) \<Rightarrow> layer option \<Rightarrow> layer option \<Rightarrow> bool" where
  "reversed flow a b \<longleftrightarrow> rel_option (\<lambda>l m. flow (layerData m) = Reverse (flow (layerData l))) a b"

definition opposite :: "gopacket \<Rightarrow> Packet \<Rightarrow> Packet \<Rightarrow> bool" where
  "opposite gp p q \<longleftrightarrow>
     reversed (LinkFlow gp) (Packet_LinkLayer p) (Packet_LinkLayer q) \<and>
     reversed (NetworkFlow gp) (Packet_NetworkLayer p) (Packet_NetworkLayer q) \<and>
     (tunnelOf p = None \<longrightarrow> reversed (TransportFlow gp) (Packet_TransportLayer p) (Packet_TransportLayer q)) \<and>
     tunnelOf q = tunnelOf p \<and> ApplicationFlow q = ApplicationFlow p \<and>
     p_Layers p \<noteq> [] \<and> p_Layers q \<noteq> [] \<and>
     (Packet_NetworkLayer p = None \<longrightarrow> Packet_TransportLayer p = None \<and> Packet_TransportLayer q = None)"

lemma flowSwap_Reverse: "gf_src f \<noteq> gf_dst f \<Longrightarrow> flowSwap (Reverse f) \<longleftrightarrow> \<not> flowSwap f"
  by (auto simp: flowSwap_def)

lemma flowSwap_same: "gf_src f = gf_dst f \<Longrightarrow> \<not> flowSwap f"
  by (simp add: flowSwap_def)

lemma hashFlow_Reverse: "hashFlow (Reverse f) (\<not> s) h = hashFlow f s h"
  by (simp add: hashFlow_def)

lemma hashFlow_same: "gf_src f = gf_dst f \<Longrightarrow> hashFlow (Reverse f) t h = hashFlow f s h"
  by (simp add: hashFlow_def)

lemma reversed_None [simp]: "reversed fl a None \<longleftrightarrow> a = None" "reversed fl None b \<longleftrightarrow> b = None"
  by (simp_all add: reversed_def)

lemma reversed_Some [simp]:
  "reversed fl (Some l) (Some m) \<longleftrightarrow> fl (layerData m) = Reverse (fl (layerData l))"
  by (simp add: reversed_def)

lemma reversedE:
  assumes "reversed fl a b"
  obtains "a = None" "b = None" | l m where "a = Some l" "b = Some m" "fl (layerData m) = Reverse (fl (layerData l))"
  using assms by (cases a; cases b) (auto simp: reversed_def)

text \<open>The bytes hashed for the transport layer of a tunnel do not depend on the direction.\<close>

definition tunnelBytes :: "int \<Rightarrow> int \<Rightarrow> bytes" where
  "tunnelBytes dst vni = bigEndian 4 (nat vni) @ bigEndian 2 (nat dst) @ bigEndian 8 0"

lemma TransportFlow_tunnel:
  "tunnelOf p = Some (dst, vni) \<Longrightarrow>
   Packet_TransportFlow gp p swap =
     Some (Inr (if swap then \<lparr>gf_type = 0, gf_src = bigEndian 2 (nat dst), gf_dst = bigEndian 4 (nat vni)\<rparr>
                else \<lparr>gf_type = 0, gf_src = bigEndian 4 (nat vni), gf_dst = bigEndian 2 (nat dst)\<rparr>))"
  by (auto simp: tunnelOf_def Packet_TransportFlow_def Let_def split: option.splits if_splits)

lemma TransportFlow_plain:
  "tunnelOf p = None \<Longrightarrow> p_Layers p \<noteq> [] \<Longrightarrow>
   Packet_TransportFlow gp p swap =
     Some (case Packet_TransportLayer p of None \<Rightarrow> Inl ErrLayerNotFound | Some l \<Rightarrow> Inr (TransportFlow gp (layerData l)))"
  by (auto simp: tunnelOf_def Packet_TransportFlow_def Let_def split: option.splits if_splits)

lemma hashTransport_tunnel:
  "tunnelOf p = Some (dst, vni) \<Longrightarrow> hashTransport gp p swap h = Some (Write (tunnelBytes dst vni) h)"
  by (simp add: hashTransport_def TransportFlow_tunnel hashFlow_def Write_def tunnelBytes_def uint64_def)

lemma hashTransport_plain:
  "tunnelOf p = None \<Longrightarrow> p_Layers p \<noteq> [] \<Longrightarrow>
   hashTransport gp p swap h =
     Some (case Packet_TransportLayer p of None \<Rightarrow> h | Some l \<Rightarrow> hashFlow (TransportFlow gp (layerData l)) swap h)"
  by (simp add: hashTransport_def TransportFlow_plain split: option.split)

lemma usesLink_opposite: "opposite gp p q \<Longrightarrow> usesLink q opts = usesLink p opts"
  by (auto simp: usesLink_def opposite_def elim!: reversedE)

text \<open>Hashed in exchanged directions, the layers of opposite packets give the same bytes.\<close>

lemma hash_exchanged:
  assumes "opposite gp p q"
  shows "hashNetwork gp q (\<not> s) h = hashNetwork gp p s h"
    and "hashTransport gp q (\<not> s) h = hashTransport gp p s h"
    and "hashLink gp q opts (\<not> s) h = hashLink gp p opts s h"
proof -
  have net: "reversed (NetworkFlow gp) (Packet_NetworkLayer p) (Packet_NetworkLayer q)"
    and link: "reversed (LinkFlow gp) (Packet_LinkLayer p) (Packet_LinkLayer q)"
    using assms by (simp_all add: opposite_def)
  show "hashNetwork gp q (\<not> s) h = hashNetwork gp p s h"
    by (rule reversedE [OF net]) (simp_all add: hashNetwork_def hashFlow_Reverse)
  show "hashLink gp q opts (\<not> s) h = hashLink gp p opts s h"
    by (rule reversedE [OF link]) (simp_all add: hashLink_def usesLink_opposite [OF assms] hashFlow_Reverse)
  show "hashTransport gp q (\<not> s) h = hashTransport gp p s h"
  proof (cases "tunnelOf p")
    case None
    then have tr: "reversed (TransportFlow gp) (Packet_TransportLayer p) (Packet_TransportLayer q)"
      and q: "tunnelOf q = None" "p_Layers p \<noteq> []" "p_Layers q \<noteq> []" using assms by (simp_all add: opposite_def)
    show ?thesis
      by (rule reversedE [OF tr]) (simp_all add: hashTransport_plain None q hashFlow_Reverse)
  next
    case (Some t)
    then have "tunnelOf q = Some t" using assms by (simp add: opposite_def)
    then show ?thesis using Some by (cases t) (simp add: hashTransport_tunnel)
  qed
qed

text \<open>The layers that decide the direction when all endpoints are alike.\<close>

definition alike :: "(layer_data \<Rightarrow> gflow) \<Rightarrow> layer option \<Rightarrow> bool" where
  "alike fl a \<longleftrightarrow> (case a of None \<Rightarrow> True | Some l \<Rightarrow> gf_src (fl (layerData l)) = gf_dst (fl (layerData l)))"

lemma hash_alike:
  assumes opp: "opposite gp p q" and net: "alike (NetworkFlow gp) (Packet_NetworkLayer p)"
    and tr: "tunnelOf p = None \<Longrightarrow> alike (TransportFlow gp) (Packet_TransportLayer p)"
    and link: "usesLink p opts \<Longrightarrow> alike (LinkFlow gp) (Packet_LinkLayer p)"
  shows "hashNetwork gp q s h = hashNetwork gp p s h" "hashTransport gp q s h = hashTransport gp p s h"
    "hashLink gp q opts s h = hashLink gp p opts s h"
proof -
  have rnet: "reversed (NetworkFlow gp) (Packet_NetworkLayer p) (Packet_NetworkLayer q)"
    and rlink: "reversed (LinkFlow gp) (Packet_LinkLayer p) (Packet_LinkLayer q)"
    using opp by (simp_all add: opposite_def)
  show "hashNetwork gp q s h = hashNetwork gp p s h"
    using net by (rule_tac reversedE [OF rnet]) (simp_all add: hashNetwork_def alike_def hashFlow_same)
  show "hashLink gp q opts s h = hashLink gp p opts s h"
    using link
    by (rule_tac reversedE [OF rlink]) (auto simp: hashLink_def usesLink_opposite [OF opp] alike_def hashFlow_same)
  show "hashTransport gp q s h = hashTransport gp p s h"
  proof (cases "tunnelOf p")
    case None
    then have rtr: "reversed (TransportFlow gp) (Packet_TransportLayer p) (Packet_TransportLayer q)"
      and q: "tunnelOf q = None" "p_Layers p \<noteq> []" "p_Layers q \<noteq> []" using opp by (simp_all add: opposite_def)
    show ?thesis
      using tr [OF None]
      by (rule_tac reversedE [OF rtr]) (simp_all add: hashTransport_plain None q alike_def hashFlow_same)
  next
    case (Some t)
    then have "tunnelOf q = Some t" using opp by (simp add: opposite_def)
    then show ?thesis using Some by (cases t) (simp add: hashTransport_tunnel)
  qed
qed

definition settled :: "gopacket \<Rightarrow> Packet \<Rightarrow> bool" where
  "settled gp p \<longleftrightarrow> alike (NetworkFlow gp) (Packet_NetworkLayer p)
     \<and> (tunnelOf p = None \<longrightarrow> alike (TransportFlow gp) (Packet_TransportLayer p))"

lemma networkSwap_opposite:
  assumes opp: "opposite gp p q" and l: "Packet_NetworkLayer p = Some l" and m: "Packet_NetworkLayer q = Some m"
  obtains s t where "networkSwap gp p l = Some s" "networkSwap gp q m = Some t"
    "t = (\<not> s) \<or> (t = s \<and> settled gp p)"
proof -
  let ?f = "NetworkFlow gp (layerData l)"
  have rev: "NetworkFlow gp (layerData m) = Reverse ?f" using opp l m by (simp add: opposite_def)
  have ne: "p_Layers p \<noteq> []" "p_Layers q \<noteq> []" using opp by (simp_all add: opposite_def)
  show ?thesis
  proof (cases "gf_src ?f = gf_dst ?f")
    case False
    then show ?thesis by (intro that) (auto simp: networkSwap_def rev flowSwap_Reverse)
  next
    case same: True
    then have net: "alike (NetworkFlow gp) (Packet_NetworkLayer p)" by (simp add: alike_def l)
    show ?thesis
    proof (cases "tunnelOf p")
      case (Some t)
      then have "tunnelOf q = Some t" using opp by (simp add: opposite_def)
      then show ?thesis
        using Some same net by (cases t, intro that)
          (auto simp: networkSwap_def rev TransportFlow_tunnel settled_def)
    next
      case None
      then have rtr: "reversed (TransportFlow gp) (Packet_TransportLayer p) (Packet_TransportLayer q)"
        and q: "tunnelOf q = None" using opp by (simp_all add: opposite_def)
      from rtr show ?thesis
      proof (cases rule: reversedE)
        case 1
        then show ?thesis
          using same net by (intro that) (auto simp: networkSwap_def rev TransportFlow_plain None q ne settled_def alike_def)
      next
        case (2 a b)
        then show ?thesis
          using same net
          by (cases "gf_src (TransportFlow gp (layerData a)) = gf_dst (TransportFlow gp (layerData a))")
            (auto simp: networkSwap_def rev TransportFlow_plain None q ne settled_def alike_def flowSwap_Reverse flowSwap_def
              intro: that)
      qed
    qed
  qed
qed

lemma keySwap_opposite:
  assumes opp: "opposite gp p q"
  shows "(keySwap gp p opts = None \<and> keySwap gp q opts = None) \<or>
    (\<exists>s t. keySwap gp p opts = Some s \<and> keySwap gp q opts = Some t \<and>
       (t = (\<not> s) \<or> (t = s \<and> settled gp p \<and> (usesLink p opts \<longrightarrow> alike (LinkFlow gp) (Packet_LinkLayer p)))))"
proof -
  note ul = usesLink_opposite [OF opp, of opts]
  have rnet: "reversed (NetworkFlow gp) (Packet_NetworkLayer p) (Packet_NetworkLayer q)"
    and rlink: "reversed (LinkFlow gp) (Packet_LinkLayer p) (Packet_LinkLayer q)"
    using opp by (simp_all add: opposite_def)
  show ?thesis
  proof (cases "usesLink p opts")
    case False
    then obtain l where l: "Packet_NetworkLayer p = Some l" by (auto simp: usesLink_def)
    then obtain m where m: "Packet_NetworkLayer q = Some m" using rnet by (auto elim: reversedE)
    from networkSwap_opposite [OF opp l m] obtain s t where "networkSwap gp p l = Some s" "networkSwap gp q m = Some t"
      "t = (\<not> s) \<or> (t = s \<and> settled gp p)" .
    then show ?thesis using False ul l m by (auto simp: keySwap_def)
  next
    case True
    from rlink show ?thesis
    proof (cases rule: reversedE)
      case 1
      then show ?thesis using True ul by (simp add: keySwap_def)
    next
      case (2 a b)
      let ?f = "LinkFlow gp (layerData a)"
      from rnet show ?thesis
      proof (cases rule: reversedE)
        case 1
        moreover have "tunnelOf p = None" "Packet_TransportLayer p = None"
          using opp 1 by (auto simp: opposite_def tunnelOf_def)
        ultimately show ?thesis
          using 2 True ul
          by (cases "gf_src ?f = gf_dst ?f")
            (auto simp: keySwap_def alike_def settled_def Let_def flowSwap_def)
      next
        case net: (2 l m)
        from networkSwap_opposite [OF opp net(1,2)] obtain s t where
          "networkSwap gp p l = Some s" "networkSwap gp q m = Some t" "t = (\<not> s) \<or> (t = s \<and> settled gp p)" .
        then show ?thesis
          using 2 net True ul
          by (cases "gf_src ?f = gf_dst ?f") (auto simp: keySwap_def alike_def flowSwap_Reverse)
      qed
    qed
  qed
qed

lemma Keys_opposite:
  assumes opp: "opposite gp p q"
  shows "Keys xxh gp q parent opts = Keys xxh gp p parent opts"
proof -
  have app: "hashApplication q = hashApplication p"
    using opp by (intro ext) (simp add: hashApplication_def opposite_def)
  from keySwap_opposite [OF opp, of opts] show ?thesis
  proof (elim disjE exE conjE)
    fix s t
    assume "keySwap gp p opts = Some s" "keySwap gp q opts = Some t" "t = (\<not> s)"
    then show ?thesis by (simp add: Keys_def app hash_exchanged [OF opp] Let_def split: option.split)
  next
    fix s t
    assume "keySwap gp p opts = Some s" "keySwap gp q opts = Some t" "t = s" "settled gp p"
      "usesLink p opts \<longrightarrow> alike (LinkFlow gp) (Packet_LinkLayer p)"
    then show ?thesis
      using hash_alike [OF opp, of opts] by (simp add: Keys_def app settled_def Let_def split: option.split)
  qed (simp add: Keys_def)
qed

end
