(* ===== verification/Packet_Seq.thy ===== *)
theory Packet_Seq
  imports Packets Elements
begin

text \<open>
  From a captured packet to the packets of its encapsulations: defragmentation
  (\<^verbatim>\<open>src/flow/ipdefrag.go\<close>), \<^verbatim>\<open>ProcessGoPacket\<close>, \<^verbatim>\<open>PacketSeqFromGoPacket\<close> and
  \<^verbatim>\<open>PacketSeqFromSFlowSample\<close> of \<^verbatim>\<open>src/flow/flow.go\<close>.  The BPF program is a predicate on the bytes; the
  IPv4 reassembler of gopacket is a parameter with a state of its own.
\<close>

section \<open>Defragmentation\<close>

text \<open>What the reassembler answers: an error, that fragments are missing, that the packet is no
  fragment, or the packet completed with the layers decoded from the reassembled payload.\<close>

datatype defrag_answer = DefragErr | DefragMissing | DefragWhole | DefragDone GoPacket

record 's reassembler =
  ra_state :: 's
  ra_step :: "'s \<Rightarrow> IP_data \<Rightarrow> int \<Rightarrow> GoPacket \<Rightarrow> 's \<times> defrag_answer"

type_synonym ipv4Key = "gflow \<times> int"

record IPDefraggerMetric =
  dm_metric :: IPMetric
  dm_last :: int

record 's IPDefragger =
  defragger :: "'s reassembler"
  dfmetrics :: "(ipv4Key, IPDefraggerMetric) gomap"

definition newIPv4 :: "gopacket \<Rightarrow> IP_data \<Rightarrow> ipv4Key" where
  "newIPv4 gp ip = (NetworkFlow gp (IPv4 ip), ip_Id ip)"

definition NewIPDefragger :: "'s reassembler \<Rightarrow> 's IPDefragger" where
  "NewIPDefragger r = \<lparr>defragger = r, dfmetrics = []\<rparr>"

definition zeroIPMetric :: IPMetric where
  "zeroIPMetric = \<lparr>im_Fragments = 0, im_FragmentErrors = 0\<rparr>"

fun IPv4_of :: "layer_data \<Rightarrow> IP_data option" where
  "IPv4_of (IPv4 ip) = Some ip"
| "IPv4_of _ = None"

fun IPv6_of :: "layer_data \<Rightarrow> IP_data option" where
  "IPv6_of (IPv6 ip) = Some ip"
| "IPv6_of _ = None"

fun Ethernet_of :: "layer_data \<Rightarrow> Ethernet_data option" where
  "Ethernet_of (Ethernet e) = Some e"
| "Ethernet_of _ = None"

definition goLayer :: "GoPacket \<Rightarrow> layer_type \<Rightarrow> layer option" where
  "goLayer g t = List.find (\<lambda>l. LayerType l = t) (gp_Layers g)"

text \<open>
  \<^verbatim>\<open>Defrag\<close>: the defragger, the packet (reassembly adds layers to it), the metric and whether the
  packet goes on.  The metric of a key is a pointer that the map shares: its increments are
  written to the map.  A packet without metadata panics: \<open>None\<close>.
\<close>

definition Defrag ::
  "gopacket \<Rightarrow> 's IPDefragger \<Rightarrow> GoPacket \<Rightarrow> ('s IPDefragger \<times> GoPacket \<times> IPMetric option \<times> bool) option" where
  "Defrag gp d packet =
     (case goLayer packet LayerTypeIPv4 of
        None \<Rightarrow> Some (d, packet, None, True)
      | Some l \<Rightarrow>
      (case IPv4_of (layerData l) of
        None \<Rightarrow> Some (d, packet, None, True)
      | Some ip \<Rightarrow>
          (let key = newIPv4 gp ip;
               dfm = (case map_of (dfmetrics d) key of
                        Some m \<Rightarrow> m | None \<Rightarrow> \<lparr>dm_metric = zeroIPMetric, dm_last = zero_time\<rparr>)
           in case gp_Metadata packet of
                None \<Rightarrow> None
              | Some md \<Rightarrow>
                  (let (s, answer) = ra_step (defragger d) (ra_state (defragger d)) ip (pm_Timestamp md) packet;
                       d = d\<lparr>defragger := (defragger d)\<lparr>ra_state := s\<rparr>, dfmetrics := gm_set key dfm (dfmetrics d)\<rparr>
                   in case answer of
                        DefragErr \<Rightarrow>
                          (let m = (dm_metric dfm)\<lparr>im_FragmentErrors := wrap64 (im_FragmentErrors (dm_metric dfm) + 1)\<rparr>
                           in Some (d\<lparr>dfmetrics := gm_set key (dfm\<lparr>dm_metric := m\<rparr>) (dfmetrics d)\<rparr>, packet, Some m, False))
                      | DefragMissing \<Rightarrow>
                          (let m = (dm_metric dfm)\<lparr>im_Fragments := wrap64 (im_Fragments (dm_metric dfm) + 1)\<rparr>
                           in Some (d\<lparr>dfmetrics := gm_set key (dfm\<lparr>dm_metric := m\<rparr>) (dfmetrics d)\<rparr>, packet, Some m, False))
                      | DefragWhole \<Rightarrow>
                          Some (d\<lparr>dfmetrics := gm_del key (dfmetrics d)\<rparr>, packet, Some (dm_metric dfm), True)
                      | DefragDone packet' \<Rightarrow>
                          Some (d\<lparr>dfmetrics := gm_del key (dfmetrics d)\<rparr>, packet', Some (dm_metric dfm), True)))))"

definition IPDefragger_FlushOlderThan :: "'s IPDefragger \<Rightarrow> int \<Rightarrow> 's IPDefragger" where
  "IPDefragger_FlushOlderThan d t = d\<lparr>dfmetrics := filter (\<lambda>(k, v). \<not> dm_last v < t) (dfmetrics d)\<rparr>"

definition IPDefragger_FlushAll :: "'s IPDefragger \<Rightarrow> 's IPDefragger" where
  "IPDefragger_FlushAll d = d\<lparr>dfmetrics := []\<rparr>"

text \<open>A packet that does not match the filter, or waits for fragments, is dropped: \<open>None\<close> inside.\<close>

definition ProcessGoPacket ::
  "gopacket \<Rightarrow> GoPacket \<Rightarrow> (bytes \<Rightarrow> bool) option \<Rightarrow> 's IPDefragger option
   \<Rightarrow> ('s IPDefragger option \<times> (GoPacket \<times> IPMetric option) option) option" where
  "ProcessGoPacket gp packet bpf d =
     (let matches = (\<lambda>g. case bpf of None \<Rightarrow> True | Some b \<Rightarrow> b (gp_Data g))
      in case d of
           None \<Rightarrow> Some (None, if matches packet then Some (packet, None) else None)
         | Some d \<Rightarrow>
             (case Defrag gp d packet of
                None \<Rightarrow> None
              | Some (d, packet, m, ok) \<Rightarrow>
                  Some (Some d, if ok \<and> matches packet then Some (packet, m) else None)))"

section \<open>Splitting at encapsulations\<close>

text \<open>\<^verbatim>\<open>getLinkLayerLength\<close>\<close>

definition getLinkLayerLength :: "Ethernet_data \<Rightarrow> int" where
  "getLinkLayerLength e = (if eth_Length e > 0 then 14 + eth_Length e else 14 + int (length (eth_Payload e)))"

definition outerLengthOf :: "GoPacket \<Rightarrow> layer \<Rightarrow> int \<Rightarrow> int" where
  "outerLengthOf g topLayer outerLength =
     (if outerLength \<noteq> 0 then outerLength
      else case layerData topLayer of
             Ethernet e \<Rightarrow> (case gp_Metadata g of
                             Some md \<Rightarrow> if pm_Length md > 0 then pm_Length md else getLinkLayerLength e
                           | None \<Rightarrow> getLinkLayerLength e)
           | IPv4 ip \<Rightarrow> ip_Length ip
           | IPv6 ip \<Rightarrow> ip_Length ip
           | _ \<Rightarrow> 0)"

text \<open>Whether the layer at index \<open>i\<close> of the packet ends a packet of the sequence.\<close>

definition splitsAt :: "layer list \<Rightarrow> nat \<Rightarrow> bool" where
  "splitsAt ls i \<longleftrightarrow>
     (case LayerType (ls ! i) of
        LayerTypeGRE \<Rightarrow> \<not> (int i < int (length ls) - 2 \<and> LayerType (ls ! (i + 1)) = LayerTypeMPLS)
      | LayerTypeVXLAN \<Rightarrow> True
      | LayerTypeMPLS \<Rightarrow> True
      | LayerTypeGeneve \<Rightarrow> True
      | _ \<Rightarrow> False)"

record split_state =
  ss_index :: nat
  ss_offset :: nat
  ss_length :: int
  ss_packets :: "Packet list"

text \<open>\<open>packetData[offset:]\<close> panics past the end.\<close>

definition subPacket :: "GoPacket \<Rightarrow> split_state \<Rightarrow> layer list \<Rightarrow> IPMetric option \<Rightarrow> Packet option" where
  "subPacket g st ls ipMetric =
     (if ss_offset st > length (gp_Data g) then None
      else Some \<lparr>p_GoPacket = g, p_Layers = ls, p_Data = drop (ss_offset st) (gp_Data g), p_Length = ss_length st,
             p_IPMetric = ipMetric, p_linkLayer = None,
             p_networkLayer = (if ss_packets st = [] then gp_NetworkLayer g else None),
             p_transportLayer = (if ss_packets st = [] then gp_TransportLayer g else None)\<rparr>)"

text \<open>The loop over the layers from index \<open>i\<close>, with the running \<^verbatim>\<open>offset\<close> and \<^verbatim>\<open>length\<close>.\<close>

function splitLoop :: "GoPacket \<Rightarrow> split_state \<Rightarrow> nat \<Rightarrow> nat \<Rightarrow> int \<Rightarrow> split_state option" where
  "splitLoop g st i offset len =
     (let ls = gp_Layers g
      in if i \<ge> length ls then Some st
         else let n = length (layerContents (ls ! i)); len = len - int n; offset = offset + n
              in if splitsAt ls i
                 then (case subPacket g st (take (i + 1 - ss_index st) (drop (ss_index st) ls)) None of
                         None \<Rightarrow> None
                       | Some p \<Rightarrow>
                           splitLoop g \<lparr>ss_index = i + 1, ss_offset = offset, ss_length = len,
                                        ss_packets = ss_packets st @ [p]\<rparr> (i + 1) offset len)
                 else splitLoop g st (i + 1) offset len)"
  by auto
termination
  by (relation "measure (\<lambda>(g, _, i, _, _). length (gp_Layers g) - i)") auto

declare splitLoop.simps [simp del]

definition splitPacket :: "GoPacket \<Rightarrow> int \<Rightarrow> IPMetric option \<Rightarrow> Packet list option" where
  "splitPacket g outerLength ipMetric =
     (let st = \<lparr>ss_index = 0, ss_offset = 0, ss_length = outerLength, ss_packets = []\<rparr>
      in case splitLoop g st 0 0 outerLength of
           None \<Rightarrow> None
         | Some st \<Rightarrow>
             (case subPacket g st (drop (ss_index st) (gp_Layers g)) ipMetric of
                None \<Rightarrow> None
              | Some p \<Rightarrow> Some (ss_packets st @ [p])))"

definition PacketSeqFromGoPacket ::
  "gopacket \<Rightarrow> GoPacket \<Rightarrow> int \<Rightarrow> (bytes \<Rightarrow> bool) option \<Rightarrow> 's IPDefragger option
   \<Rightarrow> ('s IPDefragger option \<times> Packet list) option" where
  "PacketSeqFromGoPacket gp packet outerLength bpf d =
     (case ProcessGoPacket gp packet bpf d of
        None \<Rightarrow> None
      | Some (d, None) \<Rightarrow> Some (d, [])
      | Some (d, Some (packet, ipMetric)) \<Rightarrow>
          if gp_LinkLayer packet = None \<and> gp_NetworkLayer packet = None then Some (d, [])
          else (case gp_Layers packet of
                  [] \<Rightarrow> None
                | topLayer # _ \<Rightarrow>
                    map_option (Pair d) (splitPacket packet (outerLengthOf packet topLayer outerLength) ipMetric)))"

section \<open>sFlow samples\<close>

datatype sflow_record = RawPacketRecord GoPacket int int | OtherRecord \<comment> \<open>header, frame length, payload removed\<close>

text \<open>\<open>now\<close> is the clock; a header without metadata panics.\<close>

definition stampHeader :: "int \<Rightarrow> GoPacket \<Rightarrow> GoPacket option" where
  "stampHeader now g =
     (case gp_Metadata g of
        None \<Rightarrow> None
      | Some md \<Rightarrow>
          Some (if pm_Timestamp md = zero_time then g\<lparr>gp_Metadata := Some (md\<lparr>pm_Timestamp := now\<rparr>)\<rparr> else g))"

fun PacketSeqFromSFlowSample ::
  "gopacket \<Rightarrow> int \<Rightarrow> sflow_record list \<Rightarrow> (bytes \<Rightarrow> bool) option \<Rightarrow> 's IPDefragger option
   \<Rightarrow> ('s IPDefragger option \<times> Packet list list) option" where
  "PacketSeqFromSFlowSample gp now [] bpf d = Some (d, [])"
| "PacketSeqFromSFlowSample gp now (OtherRecord # recs) bpf d = PacketSeqFromSFlowSample gp now recs bpf d"
| "PacketSeqFromSFlowSample gp now (RawPacketRecord header frameLength payloadRemoved # recs) bpf d =
     (case stampHeader now header of
        None \<Rightarrow> None
      | Some header \<Rightarrow>
          (case PacketSeqFromGoPacket gp header (int (uint32 (frameLength - payloadRemoved))) bpf d of
             None \<Rightarrow> None
           | Some (d, ps) \<Rightarrow>
               (case PacketSeqFromSFlowSample gp now recs bpf d of
                  None \<Rightarrow> None
                | Some (d, pss) \<Rightarrow> Some (d, if ps = [] then pss else ps # pss))))"

section \<open>The packets of a sequence\<close>

definition contentsLen :: "layer list \<Rightarrow> nat" where
  "contentsLen ls = sum_list (map (\<lambda>l. length (layerContents l)) ls)"

lemma contentsLen_simps [simp]:
  "contentsLen [] = 0" "contentsLen (l # ls) = length (layerContents l) + contentsLen ls"
  "contentsLen (ls @ ms) = contentsLen ls + contentsLen ms"
  by (simp_all add: contentsLen_def)

lemma contentsLen_take_le: "contentsLen (take i ls) \<le> contentsLen ls"
  by (metis append_take_drop_id contentsLen_simps(3) le_add1)

text \<open>
  The packets follow one another in the captured packet: each one starts after the headers of those
  before it, and its length is what is left of the outer length.
\<close>

fun chained :: "GoPacket \<Rightarrow> int \<Rightarrow> nat \<Rightarrow> Packet list \<Rightarrow> bool" where
  "chained g outer off [] \<longleftrightarrow> True"
| "chained g outer off (p # ps) \<longleftrightarrow>
     p_GoPacket p = g \<and> p_Data p = drop off (gp_Data g) \<and> p_Length p = outer - int off
     \<and> chained g outer (off + contentsLen (p_Layers p)) ps"

definition layersOf :: "Packet list \<Rightarrow> layer list" where
  "layersOf ps = concat (map p_Layers ps)"

lemma layersOf_simps [simp]:
  "layersOf [] = []" "layersOf (p # ps) = p_Layers p @ layersOf ps" "layersOf (ps @ qs) = layersOf ps @ layersOf qs"
  by (simp_all add: layersOf_def)

lemma chained_append:
  "chained g outer off (ps @ qs) \<longleftrightarrow>
     chained g outer off ps \<and> chained g outer (off + contentsLen (layersOf ps)) qs"
  by (induction ps arbitrary: off) (auto simp: add.assoc)

definition split_ok :: "GoPacket \<Rightarrow> int \<Rightarrow> split_state \<Rightarrow> nat \<Rightarrow> bool" where
  "split_ok g outer st i \<longleftrightarrow>
     ss_index st \<le> i \<and> i \<le> length (gp_Layers g) \<and>
     layersOf (ss_packets st) = take (ss_index st) (gp_Layers g) \<and>
     chained g outer 0 (ss_packets st) \<and>
     ss_offset st = contentsLen (take (ss_index st) (gp_Layers g)) \<and>
     ss_length st = outer - int (ss_offset st) \<and>
     (\<forall>p \<in> set (ss_packets st). p_Layers p \<noteq> []
        \<and> (LayerType (last (p_Layers p)) \<in> {LayerTypeGRE, LayerTypeVXLAN, LayerTypeMPLS, LayerTypeGeneve}))"

lemma subPacket_ok:
  assumes "split_ok g outer st i" "contentsLen (gp_Layers g) \<le> length (gp_Data g)"
  obtains p where "subPacket g st ls m = Some p" "p_Layers p = ls" "p_GoPacket p = g" "p_IPMetric p = m"
    "p_Data p = drop (ss_offset st) (gp_Data g)" "p_Length p = outer - int (ss_offset st)"
proof -
  have "ss_offset st \<le> length (gp_Data g)"
    using assms contentsLen_take_le [of "ss_index st" "gp_Layers g"] by (simp add: split_ok_def)
  then show ?thesis using that assms(1) by (simp add: subPacket_def split_ok_def)
qed

lemma take_index: "j \<le> i \<Longrightarrow> take j ls @ take (i + 1 - j) (drop j ls) = take (i + 1) ls"
  by (metis add.commute le_SucI le_add_diff_inverse Suc_eq_plus1 take_add)

lemma split_ok_step:
  assumes ok: "split_ok g outer st i" and i: "i < length (gp_Layers g)" and split: "splitsAt (gp_Layers g) i"
    and p: "p_Layers p = take (i + 1 - ss_index st) (drop (ss_index st) (gp_Layers g))" "p_GoPacket p = g"
      "p_Data p = drop (ss_offset st) (gp_Data g)" "p_Length p = outer - int (ss_offset st)"
  shows "split_ok g outer \<lparr>ss_index = i + 1, ss_offset = contentsLen (take (i + 1) (gp_Layers g)),
    ss_length = outer - int (contentsLen (take (i + 1) (gp_Layers g))), ss_packets = ss_packets st @ [p]\<rparr> (i + 1)"
proof -
  let ?ls = "gp_Layers g"
  have j: "ss_index st \<le> i" using ok by (simp add: split_ok_def)
  have "last (p_Layers p) = ?ls ! i" "p_Layers p \<noteq> []"
    using j i by (auto simp: p(1) last_conv_nth)
  moreover have "LayerType (?ls ! i) \<in> {LayerTypeGRE, LayerTypeVXLAN, LayerTypeMPLS, LayerTypeGeneve}"
    using split by (auto simp: splitsAt_def split: layer_type.splits)
  ultimately show ?thesis
    using ok i p take_index [OF j, of ?ls] by (auto simp: split_ok_def chained_append)
qed

lemma splitLoop_ok:
  assumes fits: "contentsLen (gp_Layers g) \<le> length (gp_Data g)"
  shows "split_ok g outer st i \<Longrightarrow> offset = contentsLen (take i (gp_Layers g)) \<Longrightarrow> len = outer - int offset \<Longrightarrow>
    \<exists>st'. splitLoop g st i offset len = Some st' \<and> split_ok g outer st' (length (gp_Layers g))"
proof (induction "length (gp_Layers g) - i" arbitrary: st i offset len)
  case 0
  then show ?case by (auto simp: splitLoop.simps [of g st] split_ok_def)
next
  case (Suc n)
  let ?ls = "gp_Layers g" and ?off = "contentsLen (take (i + 1) (gp_Layers g))"
  have i: "i < length ?ls" and n: "n = length ?ls - (i + 1)" using Suc.hyps(2) by simp_all
  have off: "offset + length (layerContents (?ls ! i)) = ?off"
    using i Suc.prems(2) by (simp add: take_Suc_conv_app_nth)
  have len: "len - int (length (layerContents (?ls ! i))) = outer - int ?off"
    using off Suc.prems(3) by simp
  note unfold = splitLoop.simps [of g st i offset len, unfolded Let_def off len]
  show ?case
  proof (cases "splitsAt ?ls i")
    case True
    obtain p where p: "subPacket g st (take (i + 1 - ss_index st) (drop (ss_index st) ?ls)) None = Some p"
      "p_Layers p = take (i + 1 - ss_index st) (drop (ss_index st) ?ls)" "p_GoPacket p = g" "p_IPMetric p = None"
      "p_Data p = drop (ss_offset st) (gp_Data g)" "p_Length p = outer - int (ss_offset st)"
      using subPacket_ok [OF Suc.prems(1) fits] .
    show ?thesis
      using Suc.hyps(1) [OF n split_ok_step [OF Suc.prems(1) i True p(2,3,5,6)] refl refl] i True p(1)
      by (simp add: unfold)
  next
    case False
    have "split_ok g outer st (i + 1)" using Suc.prems(1) i by (simp add: split_ok_def)
    then show ?thesis using Suc.hyps(1) [OF n _ refl refl] i False by (simp add: unfold)
  qed
qed

text \<open>
  A packet whose headers lie within its data is split: the packets have all its layers between
  them, every one but the last ends with an encapsulation header, and they are chained.
\<close>

lemma splitPacket_ok:
  assumes fits: "contentsLen (gp_Layers g) \<le> length (gp_Data g)"
  obtains ps p where "splitPacket g outer m = Some (ps @ [p])" "layersOf (ps @ [p]) = gp_Layers g"
    and "chained g outer 0 (ps @ [p])" "p_IPMetric p = m"
    and "\<forall>q \<in> set ps. p_Layers q \<noteq> []
      \<and> LayerType (last (p_Layers q)) \<in> {LayerTypeGRE, LayerTypeVXLAN, LayerTypeMPLS, LayerTypeGeneve}"
proof -
  let ?st = "\<lparr>ss_index = 0, ss_offset = 0, ss_length = outer, ss_packets = []\<rparr>"
  have "split_ok g outer ?st 0" by (simp add: split_ok_def)
  from splitLoop_ok [OF fits this] obtain st where st: "splitLoop g ?st 0 0 outer = Some st"
    and ok: "split_ok g outer st (length (gp_Layers g))" by auto
  obtain p where p: "subPacket g st (drop (ss_index st) (gp_Layers g)) m = Some p"
    "p_Layers p = drop (ss_index st) (gp_Layers g)" "p_GoPacket p = g" "p_IPMetric p = m"
    "p_Data p = drop (ss_offset st) (gp_Data g)" "p_Length p = outer - int (ss_offset st)"
    using subPacket_ok [OF ok fits] .
  show ?thesis
  proof (rule that)
    show "splitPacket g outer m = Some (ss_packets st @ [p])" by (simp add: splitPacket_def st p(1))
  qed (use ok p in \<open>auto simp: split_ok_def chained_append\<close>)
qed

text \<open>
  Where a packet is cut, read off its layers alone: after a VXLAN, MPLS or Geneve header, and after a GRE header unless an MPLS
  header follows that carries something, which ends the part instead.
\<close>

definition endsPart :: "layer \<Rightarrow> layer list \<Rightarrow> bool" where
  "endsPart l rest \<longleftrightarrow>
     LayerType l \<in> {LayerTypeVXLAN, LayerTypeMPLS, LayerTypeGeneve} \<or>
     LayerType l = LayerTypeGRE \<and>
       \<not> (case rest of mpls # inner # _ \<Rightarrow> LayerType mpls = LayerTypeMPLS | _ \<Rightarrow> False)"

fun tunnelParts :: "layer list \<Rightarrow> layer list list" where
  "tunnelParts [] = [[]]"
| "tunnelParts (l # ls) =
     (if endsPart l ls then [l] # tunnelParts ls else (l # hd (tunnelParts ls)) # tl (tunnelParts ls))"

lemma tunnelParts_nonempty [simp]: "tunnelParts ls \<noteq> []"
  by (cases ls) simp_all

lemma tunnelParts_last:
  "list_all (\<lambda>l. LayerType l \<notin> {LayerTypeGRE, LayerTypeVXLAN, LayerTypeMPLS, LayerTypeGeneve}) (last (tunnelParts ls))"
proof (induction ls)
  case (Cons l ls)
  show ?case
  proof (cases "endsPart l ls \<or> tl (tunnelParts ls) \<noteq> []")
    case True
    then show ?thesis using Cons by (auto simp: last_tl)
  next
    case False
    then obtain part where part: "tunnelParts ls = [part]" by (cases "tunnelParts ls") auto
    have "\<not> (case ls of mpls # inner # _ \<Rightarrow> LayerType mpls = LayerTypeMPLS | _ \<Rightarrow> False)"
      using part by (cases ls) (auto simp: endsPart_def split: if_splits list.splits)
    then show ?thesis using Cons part False by (auto simp: endsPart_def)
  qed
qed simp

lemma splitsAt_endsPart:
  assumes "i < length ls"
  shows "splitsAt ls i \<longleftrightarrow> endsPart (ls ! i) (drop (i + 1) ls)"
proof -
  have "(int i < int (length ls) - 2 \<and> LayerType (ls ! (i + 1)) = LayerTypeMPLS) \<longleftrightarrow>
      (case drop (i + 1) ls of mpls # inner # _ \<Rightarrow> LayerType mpls = LayerTypeMPLS | _ \<Rightarrow> False)"
  proof (cases "drop (i + 1) ls")
    case Nil
    then show ?thesis using assms by auto
  next
    case (Cons a as)
    have "length ls = Suc (Suc (i + length as))" using arg_cong [OF Cons, of length] assms by simp
    moreover have "ls ! (i + 1) = a" using nth_via_drop [OF Cons] by simp
    ultimately show ?thesis using Cons by (cases as) auto
  qed
  then show ?thesis by (auto simp: splitsAt_def endsPart_def split: layer_type.splits)
qed

lemma subPacket_layers: "subPacket g st ls m = Some p \<Longrightarrow> p_Layers p = ls"
  by (auto simp: subPacket_def split: if_splits)

lemma splitLoop_parts:
  assumes "splitLoop g st i offset len = Some st'" "ss_index st \<le> i" "i \<le> length (gp_Layers g)"
  shows "map p_Layers (ss_packets st') @ [drop (ss_index st') (gp_Layers g)] =
    map p_Layers (ss_packets st) @
      (take (i - ss_index st) (drop (ss_index st) (gp_Layers g)) @ hd (tunnelParts (drop i (gp_Layers g)))) #
      tl (tunnelParts (drop i (gp_Layers g)))"
  using assms
proof (induction g st i offset len rule: splitLoop.induct)
  case (1 g st i offset len)
  let ?ls = "gp_Layers g" and ?j = "ss_index st"
  show ?case
  proof (cases "i < length ?ls")
    case False
    then show ?thesis using "1.prems" by (simp add: splitLoop.simps [of g st])
  next
    case i: True
    have part: "take (Suc i - ?j) (drop ?j ?ls) = take (i - ?j) (drop ?j ?ls) @ [?ls ! i]"
      using i "1.prems"(2) by (simp add: Suc_diff_le take_Suc_conv_app_nth)
    have ends: "splitsAt ?ls i \<longleftrightarrow> endsPart (?ls ! i) (drop (Suc i) ?ls)" using splitsAt_endsPart [OF i] by simp
    show ?thesis
    proof (cases "splitsAt ?ls i")
      case True
      from "1.prems"(1) i True obtain p where p: "subPacket g st (take (Suc i - ?j) (drop ?j ?ls)) None = Some p"
        and rest: "splitLoop g \<lparr>ss_index = i + 1, ss_offset = offset + length (layerContents (?ls ! i)),
          ss_length = len - int (length (layerContents (?ls ! i))), ss_packets = ss_packets st @ [p]\<rparr> (i + 1)
          (offset + length (layerContents (?ls ! i))) (len - int (length (layerContents (?ls ! i)))) = Some st'"
        by (auto simp: splitLoop.simps [of g st] Let_def split: option.splits)
      have "p_Layers p = take (i - ?j) (drop ?j ?ls) @ [?ls ! i]"
        using subPacket_layers [OF p] part by simp
      with "1.IH"(1) [OF refl _ refl refl refl True _ rest] p i True ends show ?thesis
        by (simp add: Cons_nth_drop_Suc [OF i, symmetric])
    next
      case False
      with "1.prems"(1) i have "splitLoop g st (i + 1) (offset + length (layerContents (?ls ! i)))
          (len - int (length (layerContents (?ls ! i)))) = Some st'"
        by (simp add: splitLoop.simps [of g st] Let_def)
      with "1.IH"(2) [OF refl _ refl refl refl False] i "1.prems"(2) part False ends show ?thesis
        by (simp add: Cons_nth_drop_Suc [OF i, symmetric])
    qed
  qed
qed

lemma splitPacket_parts:
  assumes "splitPacket g outer m = Some ps"
  shows "map p_Layers ps = tunnelParts (gp_Layers g)"
proof -
  from assms obtain st p where st: "splitLoop g \<lparr>ss_index = 0, ss_offset = 0, ss_length = outer, ss_packets = []\<rparr> 0 0 outer = Some st"
    and p: "subPacket g st (drop (ss_index st) (gp_Layers g)) m = Some p" "ps = ss_packets st @ [p]"
    by (auto simp: splitPacket_def split: option.splits)
  with splitLoop_parts [OF st] show ?thesis by (simp add: subPacket_layers)
qed

text \<open>The time of a fragment metric is never set, so a flush at any later time drops all of them.\<close>

definition neverSet :: "(ipv4Key, IPDefraggerMetric) gomap \<Rightarrow> bool" where
  "neverSet m \<longleftrightarrow> (\<forall>kv \<in> set m. dm_last (snd kv) = zero_time)"

lemma neverSet_set: "neverSet m \<Longrightarrow> dm_last v = zero_time \<Longrightarrow> neverSet (gm_set k v m)"
  by (induction m) (auto simp: neverSet_def)

lemma neverSet_del: "neverSet m \<Longrightarrow> neverSet (gm_del k m)"
  by (induction m) (auto simp: neverSet_def)

lemma neverSet_lookup: "neverSet m \<Longrightarrow> map_of m k = Some v \<Longrightarrow> dm_last v = zero_time"
  by (induction m) (auto simp: neverSet_def split: if_splits)

lemma Defrag_neverSet:
  "neverSet (dfmetrics d) \<Longrightarrow> Defrag gp d packet = Some (d', packet', m, ok) \<Longrightarrow> neverSet (dfmetrics d')"
  by (auto simp: Defrag_def Let_def intro!: neverSet_set neverSet_del
      split: option.splits prod.splits defrag_answer.splits)
    (erule neverSet_lookup, assumption)+

lemma FlushOlderThan_all:
  "neverSet (dfmetrics d) \<Longrightarrow> zero_time < t \<Longrightarrow> dfmetrics (IPDefragger_FlushOlderThan d t) = []"
  by (auto simp: IPDefragger_FlushOlderThan_def neverSet_def filter_empty_conv)

end
