(* ===== verification/Flow_Update.thy ===== *)
theory Flow_Update
  imports Packet_Seq "HOL-Library.Monad_Syntax"
begin

text \<open>
  How a packet creates and updates a flow (\<^verbatim>\<open>src/flow/flow.go\<close>): the layers of a new flow, the packet
  and byte counters of the two directions, round-trip time, TCP times and the extra layers.
  \<open>None\<close> is a panic: a packet without metadata, the comparison with a missing ICMP layer, or a DNS
  record with options.
\<close>

section \<open>Creation of the layers\<close>

definition Flow_Init :: "int \<Rightarrow> string \<Rightarrow> UUIDs \<Rightarrow> Flow \<Rightarrow> Flow" where
  "Flow_Init now parentUUID uuids f =
     f\<lparr>f_Start := now, f_Last := now, f_Metric := (f_Metric f)\<lparr>fm_Start := now, fm_Last := now\<rparr>,
       f_NodeTID := u_NodeTID uuids, f_CaptureID := u_CaptureID uuids, f_ParentUUID := parentUUID,
       f_FinishType := NOT_FINISHED\<rparr>"

definition getLinkLayer :: "Packet \<Rightarrow> Ethernet_data option" where
  "getLinkLayer p = layerAs p LayerTypeEthernet Ethernet_of"

definition newLinkLayer :: "Packet \<Rightarrow> Flow \<Rightarrow> Flow" where
  "newLinkLayer p f =
     (case getLinkLayer p of
        None \<Rightarrow> f
      | Some e \<Rightarrow> f\<lparr>f_Link := Some \<lparr>fl_Protocol = FP_ETHERNET, fl_A = MACString (eth_SrcMAC e),
                                    fl_B = MACString (eth_DstMAC e), fl_ID = linkID p\<rparr>\<rparr>)"

text \<open>The network layer is remembered in the state of the flow until the table resets it.\<close>

definition getNetworkLayer :: "Packet \<Rightarrow> Flow \<Rightarrow> Flow \<times> IP_data option \<times> IP_data option" where
  "getNetworkLayer p f =
     (case (st_ipv4 (f_state f), st_ipv6 (f_state f)) of
        (Some ip, _) \<Rightarrow> (f, Some ip, None)
      | (None, Some ip) \<Rightarrow> (f, None, Some ip)
      | (None, None) \<Rightarrow>
          (case layerAs p LayerTypeIPv4 IPv4_of of
             Some ip \<Rightarrow> (f\<lparr>f_state := (f_state f)\<lparr>st_ipv4 := Some ip\<rparr>\<rparr>, Some ip, None)
           | None \<Rightarrow>
               (case layerAs p LayerTypeIPv6 IPv6_of of
                  Some ip \<Rightarrow> (f\<lparr>f_state := (f_state f)\<lparr>st_ipv6 := Some ip\<rparr>\<rparr>, None, Some ip)
                | None \<Rightarrow> (f, None, None))))"

definition newNetworkLayer :: "Packet \<Rightarrow> Flow \<Rightarrow> Flow \<times> go_error option" where
  "newNetworkLayer p f =
     (case getNetworkLayer p f of
        (f, Some ip, _) \<Rightarrow>
          (let f = f\<lparr>f_Network := Some \<lparr>fl_Protocol = FP_IPV4, fl_A = IPString (ip_SrcIP ip),
                                       fl_B = IPString (ip_DstIP ip), fl_ID = networkID p\<rparr>,
                     f_IPMetric := p_IPMetric p\<rparr>
           in (case layerAs p LayerTypeICMPv4 ICMPv4_of of
                 Some (t, c, i) \<Rightarrow>
                   f\<lparr>f_ICMP := Some \<lparr>ic_Type = ICMPv4TypeToFlowICMPType t, ic_Code = c, ic_ID = i\<rparr>\<rparr>
               | None \<Rightarrow> f, None))
      | (f, None, Some ip) \<Rightarrow>
          (let f = f\<lparr>f_Network := Some \<lparr>fl_Protocol = FP_IPV6, fl_A = IPString (ip_SrcIP ip),
                                       fl_B = IPString (ip_DstIP ip), fl_ID = networkID p\<rparr>\<rparr>
           in (case layerAs p LayerTypeICMPv6 ICMPv6_of of
                 Some (t, c) \<Rightarrow>
                   (let ty = ICMPv6TypeToFlowICMPType t;
                        ident = (if ty = IT_ECHO
                                 then (case layerAs p LayerTypeICMPv6Echo ICMPv6Echo_of of Some i \<Rightarrow> i | None \<Rightarrow> 0)
                                 else 0)
                    in f\<lparr>f_ICMP := Some \<lparr>ic_Type = ty, ic_Code = c, ic_ID = ident\<rparr>\<rparr>)
               | None \<Rightarrow> f, None))
      | (f, None, None) \<Rightarrow> (f, Some ErrLayerNotFound))"

fun TCP_of :: "layer_data \<Rightarrow> TCP_data option" where
  "TCP_of (TCP t) = Some t"
| "TCP_of _ = None"

fun SCTP_of :: "layer_data \<Rightarrow> (int \<times> int) option" where
  "SCTP_of (SCTP s d) = Some (s, d)"
| "SCTP_of _ = None"

definition newTransport :: "FlowProtocol \<Rightarrow> int \<Rightarrow> int \<Rightarrow> TransportLayer" where
  "newTransport proto a b = \<lparr>tl_Protocol = proto, tl_A = a, tl_B = b, tl_ID = 0\<rparr>"

definition withApp :: "string option \<Rightarrow> Flow \<Rightarrow> Flow" where
  "withApp app f = (case app of None \<Rightarrow> f | Some a \<Rightarrow> f\<lparr>f_Application := a\<rparr>)"

definition newTransportLayer :: "Packet \<Rightarrow> Opts \<Rightarrow> Flow \<Rightarrow> Flow" where
  "newTransportLayer p opts f =
     (case layerAs p LayerTypeTCP TCP_of of
        Some t \<Rightarrow>
          (let s = tcp_SrcPort t; d = tcp_DstPort t;
               f = withApp (tcpApplication (o_AppPortMap opts) s d) (f\<lparr>f_Transport := Some (newTransport FP_TCP s d)\<rparr>);
               f = (if o_TCPMetric opts then f\<lparr>f_TCPMetric := Some zeroTCPMetric\<rparr> else f)
           in if tcp_FIN t then f\<lparr>f_FinishType := TCP_FIN\<rparr>
              else if tcp_RST t then f\<lparr>f_FinishType := TCP_RST\<rparr> else f)
      | None \<Rightarrow>
      (case layerAs p LayerTypeUDP UDP_of of
        Some (s, d) \<Rightarrow>
          withApp (udpApplication (o_AppPortMap opts) s d) (f\<lparr>f_Transport := Some (newTransport FP_UDP s d)\<rparr>)
      | None \<Rightarrow>
      (case layerAs p LayerTypeSCTP SCTP_of of
        Some (s, d) \<Rightarrow> f\<lparr>f_Transport := Some (newTransport FP_SCTP s d)\<rparr>
      | None \<Rightarrow> f)))"

section \<open>Extra layers\<close>

fun DNS_of :: "layer_data \<Rightarrow> DNS_data option" where
  "DNS_of (DNS d) = Some d"
| "DNS_of _ = None"

fun DHCPv4_of :: "layer_data \<Rightarrow> DHCPv4_data option" where
  "DHCPv4_of (DHCPv4 d) = Some d"
| "DHCPv4_of _ = None"

fun VRRP_of :: "layer_data \<Rightarrow> VRRPv2_data option" where
  "VRRP_of (VRRP d) = Some d"
| "VRRP_of _ = None"

definition updateDNSLayer :: "gopacket \<Rightarrow> DNS_data \<Rightarrow> int \<Rightarrow> Flow \<Rightarrow> Flow option" where
  "updateDNSLayer gp d ts f =
     do { answers \<leftarrow> GetDNSRecords gp (dns_Answers d);
          authorities \<leftarrow> GetDNSRecords gp (dns_Authorities d);
          additionals \<leftarrow> GetDNSRecords gp (dns_Additionals d);
          Some (f\<lparr>f_DNS := Some
            \<lparr>dl_ID = dns_ID d, dl_QR = dns_QR d, dl_OpCode = dnsName gp ''OpCode'' (dns_OpCode d), dl_AA = dns_AA d,
             dl_TC = dns_TC d, dl_RD = dns_RD d, dl_RA = dns_RA d, dl_Z = dns_Z d,
             dl_ResponseCode = dnsName gp ''ResponseCode'' (dns_ResponseCode d), dl_QDCount = dns_QDCount d,
             dl_ANCount = dns_ANCount d, dl_NSCount = dns_NSCount d, dl_ARCount = dns_ARCount d,
             dl_Questions = GetDNSQuestions gp (dns_Questions d), dl_Answers = answers,
             dl_Authorities = authorities, dl_Additionals = additionals, dl_Timestamp = ts\<rparr>\<rparr>) }"

definition wantsLayer :: "Opts \<Rightarrow> nat \<Rightarrow> bool" where
  "wantsLayer opts b \<longleftrightarrow> and (o_ExtraLayers opts) b \<noteq> 0"

definition newApplicationLayer :: "gopacket \<Rightarrow> Packet \<Rightarrow> int \<Rightarrow> Opts \<Rightarrow> Flow \<Rightarrow> Flow option" where
  "newApplicationLayer gp p ts opts f =
     (case (if wantsLayer opts 4 then layerAs p LayerTypeDHCPv4 DHCPv4_of else None) of
        Some d \<Rightarrow> Some (f\<lparr>f_DHCPv4 := Some d\<rparr>)
      | None \<Rightarrow>
      (case (if wantsLayer opts 2 then layerAs p LayerTypeDNS DNS_of else None) of
        Some d \<Rightarrow> updateDNSLayer gp d ts f
      | None \<Rightarrow>
      (case (if wantsLayer opts 1 then layerAs p LayerTypeVRRP VRRP_of else None) of
        Some d \<Rightarrow> Some (f\<lparr>f_VRRPv2 := Some d\<rparr>)
      | None \<Rightarrow> Some f)))"

section \<open>Counters\<close>

text \<open>The source port of the packet, in the order of the type tests of \<^verbatim>\<open>isABPacket\<close>.\<close>

definition sourcePort :: "Packet \<Rightarrow> int option" where
  "sourcePort p =
     orElse (map_option tcp_SrcPort (layerAs p LayerTypeTCP TCP_of))
       (orElse (map_option fst (layerAs p LayerTypeUDP UDP_of)) (map_option fst (layerAs p LayerTypeSCTP SCTP_of)))"

text \<open>The comparison for a packet whose two addresses are equal; \<open>icmp\<close> is the type of its ICMP layer.\<close>

definition sameAddressAB :: "Packet \<Rightarrow> Flow \<Rightarrow> TransportLayer \<Rightarrow> ICMPType option \<Rightarrow> bool \<Rightarrow> bool option" where
  "sameAddressAB p f t icmp cmp =
     (case sourcePort p of
        Some port \<Rightarrow> Some (tl_A t > port)
      | None \<Rightarrow>
          (case icmp of
             Some ty \<Rightarrow> map_option (\<lambda>ic. ICMPType_Value (ic_Type ic) > ICMPType_Value ty) (f_ICMP f)
           | None \<Rightarrow> Some cmp))"

definition isABWith :: "Packet \<Rightarrow> Flow \<Rightarrow> FlowLayer \<Rightarrow> IP_data \<Rightarrow> ICMPType option \<Rightarrow> bool option" where
  "isABWith p f net ip icmp =
     (let cmp = (fl_A net = IPString (ip_SrcIP ip))
      in case f_Transport f of
           Some t \<Rightarrow> if ip_SrcIP ip = ip_DstIP ip then sameAddressAB p f t icmp cmp else Some cmp
         | None \<Rightarrow> Some cmp)"

definition isABPacket :: "Packet \<Rightarrow> Flow \<Rightarrow> (Flow \<times> bool) option" where
  "isABPacket p f =
     (case f_Network f of
        None \<Rightarrow> Some (f, False)
      | Some net \<Rightarrow>
          (case getNetworkLayer p f of
             (f, Some ip, _) \<Rightarrow>
               map_option (Pair f) (isABWith p f net ip
                 (map_option (\<lambda>(t, _, _). ICMPv4TypeToFlowICMPType t) (layerAs p LayerTypeICMPv4 ICMPv4_of)))
           | (f, None, Some ip) \<Rightarrow>
               map_option (Pair f) (isABWith p f net ip
                 (map_option (\<lambda>(t, _). ICMPv6TypeToFlowICMPType t) (layerAs p LayerTypeICMPv6 ICMPv6_of)))
           | (f, None, None) \<Rightarrow> Some (f, False)))"

definition countPacket :: "bool \<Rightarrow> int \<Rightarrow> FlowMetric \<Rightarrow> FlowMetric" where
  "countPacket ab len m =
     (if ab then m\<lparr>fm_ABPackets := wrap64 (fm_ABPackets m + 1), fm_ABBytes := wrap64 (fm_ABBytes m + len)\<rparr>
      else m\<lparr>fm_BAPackets := wrap64 (fm_BAPackets m + 1), fm_BABytes := wrap64 (fm_BABytes m + len)\<rparr>)"

definition countFlow :: "bool \<Rightarrow> int \<Rightarrow> Flow \<Rightarrow> Flow" where
  "countFlow ab len f = f\<lparr>f_Metric := countPacket ab len (f_Metric f)\<rparr>"

text \<open>The flow and whether it was updated.\<close>

definition updateMetricsWithLinkLayer :: "Packet \<Rightarrow> Flow \<Rightarrow> (Flow \<times> bool) option" where
  "updateMetricsWithLinkLayer p f =
     (case (getLinkLayer p, f_Link f) of
        (Some e, Some link) \<Rightarrow>
          do { let len = (if p_Length p = 0 then getLinkLayerLength e else p_Length p);
               (f, ab) \<leftarrow> (if eth_SrcMAC e = eth_DstMAC e then isABPacket p f
                            else Some (f, fl_A link = MACString (eth_SrcMAC e)));
               Some (countFlow ab len f, True) }
      | _ \<Rightarrow> Some (f, False))"

definition updateMetricsWithNetworkLayer :: "Packet \<Rightarrow> int \<Rightarrow> Flow \<Rightarrow> Flow option" where
  "updateMetricsWithNetworkLayer p len f =
     (case getNetworkLayer p f of
        (f, None, None) \<Rightarrow> Some f
      | (f, ip4, ip6) \<Rightarrow>
          do { let ip = the (orElse ip4 ip6);
               (f, ab) \<leftarrow> isABPacket p f;
               Some (countFlow ab (if len = 0 then ip_Length ip else len) f) })"

section \<open>Round-trip time and TCP times\<close>

definition rttFirst :: "int \<Rightarrow> Flow \<Rightarrow> Flow" where
  "rttFirst ts f = f\<lparr>f_state := (f_state f)\<lparr>st_rtt1stPacket := wrap64 ts\<rparr>\<rparr>"

definition rttDone :: "int \<Rightarrow> Flow \<Rightarrow> Flow" where
  "rttDone ts f =
     f\<lparr>f_Metric := (f_Metric f)\<lparr>fm_RTT := wrap64 (wrap64 ts - st_rtt1stPacket (f_state f))\<rparr>,
       f_state := (f_state f)\<lparr>st_rtt1stPacket := 0\<rparr>\<rparr>"

text \<open>Echo requests and replies by their type numbers.\<close>

definition rttEcho :: "int \<Rightarrow> int \<Rightarrow> int \<Rightarrow> int \<Rightarrow> Flow \<Rightarrow> Flow" where
  "rttEcho request reply t ts f =
     (let started = st_rtt1stPacket (f_state f) \<noteq> 0
      in if t = request then (if started then f else rttFirst ts f)
         else if t = reply then (if started then rttDone ts f else f)
         else f)"

definition updateRTT :: "Packet \<Rightarrow> int \<Rightarrow> Flow \<Rightarrow> Flow" where
  "updateRTT p ts f =
     (case layerAs p LayerTypeICMPv4 ICMPv4_of of
        Some (t, _, _) \<Rightarrow> rttEcho 8 0 t ts f
      | None \<Rightarrow>
      (case layerAs p LayerTypeICMPv6 ICMPv6_of of
        Some (t, _) \<Rightarrow> rttEcho 128 129 t ts f
      | None \<Rightarrow>
      (case layerAs p LayerTypeTCP TCP_of of
        Some t \<Rightarrow>
          (if tcp_SYN t \<and> st_rtt1stPacket (f_state f) = 0 then rttFirst ts f
           else if st_rtt1stPacket (f_state f) \<noteq> 0 \<and> (tcp_SYN t \<and> tcp_ACK t \<or> tcp_RST t) then rttDone ts f
           else f)
      | None \<Rightarrow> f)))"

definition tcpTimes :: "TCP_data \<Rightarrow> bool \<Rightarrow> int \<Rightarrow> int \<Rightarrow> TCPMetric \<Rightarrow> TCPMetric" where
  "tcpTimes t fromA ttl captureTime m =
     (if tcp_SYN t then
        (if fromA \<and> tm_ABSynStart m = 0 then m\<lparr>tm_ABSynStart := captureTime, tm_ABSynTTL := ttl\<rparr>
         else if tm_BASynStart m = 0 then m\<lparr>tm_BASynStart := captureTime, tm_BASynTTL := ttl\<rparr>
         else m)
      else if tcp_FIN t then
        (if fromA then m\<lparr>tm_ABFinStart := captureTime\<rparr> else m\<lparr>tm_BAFinStart := captureTime\<rparr>)
      else if tcp_RST t then
        (if fromA then m\<lparr>tm_ABRstStart := captureTime\<rparr> else m\<lparr>tm_BARstStart := captureTime\<rparr>)
      else m)"

text \<open>Called with a TCP metric; \<open>ts\<close> is the capture time of the metadata.\<close>

definition updateTCPMetrics :: "Packet \<Rightarrow> int \<Rightarrow> TCPMetric \<Rightarrow> Flow \<Rightarrow> Flow \<times> go_error option" where
  "updateTCPMetrics p ts m f =
     (case (f_Network f, f_Transport f, layerAs p LayerTypeTCP TCP_of) of
        (Some net, Some tr, Some t) \<Rightarrow>
          if tl_Protocol tr \<noteq> FP_TCP then (f, None)
          else if \<not> (tcp_SYN t \<or> tcp_FIN t \<or> tcp_RST t) then (f, None)
          else (let (f, ip4, ip6) = getNetworkLayer p f;
                    upd = (\<lambda>ip. (f\<lparr>f_TCPMetric := Some (tcpTimes t (fl_A net = IPString (ip_SrcIP ip)) (ip_TTL ip)
                                      (UnixMillis ts) m)\<rparr>, None))
                in if fl_Protocol net = FP_IPV4 then
                     (case ip4 of None \<Rightarrow> (f, Some ErrLayerNotFound) | Some ip \<Rightarrow> upd ip)
                   else if fl_Protocol net = FP_IPV6 then
                     (case ip6 of None \<Rightarrow> (f, Some ErrLayerNotFound) | Some ip \<Rightarrow> upd ip)
                   else (f, None))
      | _ \<Rightarrow> (f, None))"

section \<open>Update and initialisation\<close>

definition updateMetrics :: "Packet \<Rightarrow> Opts \<Rightarrow> Flow \<Rightarrow> Flow option" where
  "updateMetrics p opts f =
     (if o_LayerKeyMode opts = L3PreferredKeyMode
      then (let len = (if p_Length p = 0
                       then (case getLinkLayer p of Some e \<Rightarrow> getLinkLayerLength e | None \<Rightarrow> 0)
                       else p_Length p)
            in updateMetricsWithNetworkLayer p len f)
      else do { (f, updated) \<leftarrow> updateMetricsWithLinkLayer p f;
                if updated then Some f else updateMetricsWithNetworkLayer p 0 f })"

definition Flow_Update :: "gopacket \<Rightarrow> Packet \<Rightarrow> Opts \<Rightarrow> Flow \<Rightarrow> Flow option" where
  "Flow_Update gp p opts f =
     do { ts \<leftarrow> timestamp p;
          let now = UnixMillis ts;
          f \<leftarrow> updateMetrics p opts (f\<lparr>f_Last := now, f_Metric := (f_Metric f)\<lparr>fm_Last := now\<rparr>\<rparr>);
          let f = updateRTT p ts f;
          let f = (case f_TCPMetric f of Some m \<Rightarrow> fst (updateTCPMetrics p ts m f) | None \<Rightarrow> f);
          (case (if wantsLayer opts 2 then layerAs p LayerTypeDNS DNS_of else None) of
             Some d \<Rightarrow> updateDNSLayer gp d ts f
           | None \<Rightarrow> Some f) }"

definition initFromPacket ::
  "xxhash \<Rightarrow> gopacket \<Rightarrow> nat \<times> nat \<times> nat \<Rightarrow> Packet \<Rightarrow> string \<Rightarrow> UUIDs \<Rightarrow> Opts \<Rightarrow> Flow \<Rightarrow> Flow option" where
  "initFromPacket xxh gp keys p parentUUID uuids opts f =
     do { ts \<leftarrow> timestamp p;
          let f = newLinkLayer p (Flow_Init (UnixMillis ts) parentUUID uuids f);
          let (path, app) = LayersPath gp (p_Layers p);
          let (f, err) = newNetworkLayer p (f\<lparr>f_LayersPath := path, f_Application := app\<rparr>);
          let f = (if err = None then newTransportLayer p opts f else f);
          f \<leftarrow> newApplicationLayer gp p ts opts f;
          (case keys of (key, l2Key, l3Key) \<Rightarrow> Flow_Update gp p opts (setUUIDs xxh key l2Key l3Key f)) }"

definition packetOf :: "GoPacket \<Rightarrow> Packet" where
  "packetOf g = \<lparr>p_GoPacket = g, p_Layers = gp_Layers g, p_Data = gp_Data g,
     p_Length = (case gp_Metadata g of Some md \<Rightarrow> pm_CaptureLength md | None \<Rightarrow> 0), p_IPMetric = None,
     p_linkLayer = None, p_networkLayer = None, p_transportLayer = None\<rparr>"

definition NewFlowFromGoPacket ::
  "xxhash \<Rightarrow> gopacket \<Rightarrow> GoPacket \<Rightarrow> string \<Rightarrow> UUIDs \<Rightarrow> Opts \<Rightarrow> Flow option" where
  "NewFlowFromGoPacket xxh gp g parentUUID uuids opts =
     do { keys \<leftarrow> Keys xxh gp (packetOf g) parentUUID opts;
          initFromPacket xxh gp keys (packetOf g) parentUUID uuids opts NewFlow }"

section \<open>What an update keeps\<close>

definition metricCounters :: "FlowMetric \<Rightarrow> int list" where
  "metricCounters m = [fm_ABPackets m, fm_ABBytes m, fm_BAPackets m, fm_BABytes m]"

text \<open>
  The relation between a flow and the flow after a step of its update: the metric last reported
  is kept, and counters that are int64 stay int64.
\<close>

definition steps_to :: "Flow \<Rightarrow> Flow \<Rightarrow> bool" where
  "steps_to f f' \<longleftrightarrow>
     st_lastMetric (f_state f') = st_lastMetric (f_state f) \<and>
     ((\<forall>x \<in> set (metricCounters (f_Metric f)). is_int64 x) \<longrightarrow> (\<forall>x \<in> set (metricCounters (f_Metric f')). is_int64 x))"

named_theorems steps

lemma steps_to_refl [steps]: "steps_to f f"
  by (simp add: steps_to_def)

lemma steps_to_trans [trans]: "steps_to f g \<Longrightarrow> steps_to g h \<Longrightarrow> steps_to f h"
  unfolding steps_to_def by metis

text \<open>A step that changes neither the counters nor the reported metric.\<close>

lemma steps_to_same:
  "metricCounters (f_Metric f') = metricCounters (f_Metric f) \<Longrightarrow>
   st_lastMetric (f_state f') = st_lastMetric (f_state f) \<Longrightarrow> steps_to f f'"
  by (simp add: steps_to_def)

lemma countPacket_int64:
  "\<forall>x \<in> set (metricCounters m). is_int64 x \<Longrightarrow> \<forall>x \<in> set (metricCounters (countPacket ab len m)). is_int64 x"
  by (cases ab) (simp_all add: countPacket_def metricCounters_def)

lemma steps_count [steps]: "steps_to f (countFlow ab len f)"
  using countPacket_int64 [of "f_Metric f"] by (simp add: steps_to_def countFlow_def)

lemma steps_getNetworkLayer [steps]: "steps_to f (fst (getNetworkLayer p f))"
  by (rule steps_to_same) (auto simp: getNetworkLayer_def split: option.split)

lemma getNetworkLayer_fields:
  "f_Metric (fst (getNetworkLayer p f)) = f_Metric f" "f_Network (fst (getNetworkLayer p f)) = f_Network f"
  "f_Transport (fst (getNetworkLayer p f)) = f_Transport f"
  by (auto simp: getNetworkLayer_def split: option.split)

lemma isABPacket_flow: "isABPacket p f = Some (f', ab) \<Longrightarrow> f' = f \<or> f' = fst (getNetworkLayer p f)"
  by (auto simp: isABPacket_def split: option.splits prod.splits)

lemma steps_isAB: "isABPacket p f = Some (f', ab) \<Longrightarrow> steps_to f f'"
  using isABPacket_flow [of p f f' ab] steps_getNetworkLayer [of f p] steps_to_refl by auto

lemma steps_isAB_count: "isABPacket p f = Some (g, ab) \<Longrightarrow> steps_to f (countFlow c len g)"
  by (rule steps_to_trans [OF steps_isAB steps_count])

lemma steps_link:
  assumes "updateMetricsWithLinkLayer p f = Some (f', b)"
  shows "steps_to f f'"
proof (cases "getLinkLayer p = None \<or> f_Link f = None")
  case True
  then show ?thesis
    using assms by (cases "getLinkLayer p") (auto simp: updateMetricsWithLinkLayer_def steps)
next
  case False
  then obtain e link where e: "getLinkLayer p = Some e" "f_Link f = Some link" by auto
  show ?thesis
  proof (cases "eth_SrcMAC e = eth_DstMAC e")
    case True
    then obtain g ab where g: "isABPacket p f = Some (g, ab)"
      using assms e by (auto simp: updateMetricsWithLinkLayer_def Let_def split: bind_splits)
    show ?thesis
      using assms e True g steps_isAB_count [OF g] by (auto simp: updateMetricsWithLinkLayer_def Let_def)
  qed (use assms e in \<open>auto simp: updateMetricsWithLinkLayer_def Let_def steps\<close>)
qed

lemma steps_network:
  assumes "updateMetricsWithNetworkLayer p len f = Some f'"
  shows "steps_to f f'"
proof -
  obtain g ip4 ip6 where g: "getNetworkLayer p f = (g, ip4, ip6)" by (cases "getNetworkLayer p f")
  have 1: "steps_to f g" using steps_getNetworkLayer [of f p] g by simp
  show ?thesis
  proof (cases "ip4 = None \<and> ip6 = None")
    case True
    then show ?thesis using assms g 1 by (simp add: updateMetricsWithNetworkLayer_def)
  next
    case False
    then have upd: "do { (h, ab) \<leftarrow> isABPacket p g;
        Some (countFlow ab (if len = 0 then ip_Length (the (orElse ip4 ip6)) else len) h) } = Some f'"
      using assms g by (cases ip4; cases ip6) (simp_all add: updateMetricsWithNetworkLayer_def Let_def split: if_splits)
    then obtain h ab where h: "isABPacket p g = Some (h, ab)" by (auto split: bind_splits)
    show ?thesis using upd h steps_to_trans [OF 1 steps_isAB_count [OF h]] by auto
  qed
qed

lemma steps_metrics: "updateMetrics p opts f = Some f' \<Longrightarrow> steps_to f f'"
  by (auto simp: updateMetrics_def Let_def split: if_splits bind_splits
      dest!: steps_network steps_link intro: steps_to_trans)

text \<open>The rest of an update does not touch the counters.\<close>

definition same_counts :: "Flow \<Rightarrow> Flow \<Rightarrow> bool" where
  "same_counts f f' \<longleftrightarrow>
     metricCounters (f_Metric f') = metricCounters (f_Metric f) \<and> st_lastMetric (f_state f') = st_lastMetric (f_state f)
     \<and> f_Last f' = f_Last f"

lemma same_counts_trans: "same_counts f g \<Longrightarrow> same_counts g h \<Longrightarrow> same_counts f h"
  unfolding same_counts_def by metis

lemma same_RTT: "same_counts f (updateRTT p ts f)"
  by (auto simp: same_counts_def updateRTT_def rttEcho_def rttFirst_def rttDone_def metricCounters_def Let_def
      split: option.split)

lemma same_TCP: "same_counts f (case f_TCPMetric f of Some m \<Rightarrow> fst (updateTCPMetrics p ts m f) | None \<Rightarrow> f)"
  by (auto simp: same_counts_def updateTCPMetrics_def getNetworkLayer_def metricCounters_def Let_def split: option.split)

lemma same_DNS: "updateDNSLayer gp d ts f = Some f' \<Longrightarrow> same_counts f f'"
  by (auto simp: same_counts_def updateDNSLayer_def split: bind_splits)

lemma steps_same_counts: "same_counts f f' \<Longrightarrow> steps_to f f'"
  unfolding same_counts_def by (blast intro: steps_to_same)

definition touched :: "int \<Rightarrow> Flow \<Rightarrow> Flow" where
  "touched ts f = f\<lparr>f_Last := UnixMillis ts, f_Metric := (f_Metric f)\<lparr>fm_Last := UnixMillis ts\<rparr>\<rparr>"

lemma Flow_Update_counted:
  assumes upd: "Flow_Update gp p opts f = Some f'"
  obtains ts g where "timestamp p = Some ts" "updateMetrics p opts (touched ts f) = Some g" "same_counts g f'"
proof -
  from upd obtain ts where ts: "timestamp p = Some ts" by (auto simp: Flow_Update_def split: bind_splits)
  from upd ts obtain g where g: "updateMetrics p opts (touched ts f) = Some g"
    by (auto simp: Flow_Update_def Let_def touched_def split: bind_splits)
  let ?h = "updateRTT p ts g"
  let ?i = "case f_TCPMetric ?h of Some m \<Rightarrow> fst (updateTCPMetrics p ts m ?h) | None \<Rightarrow> ?h"
  have "f' = ?i \<or> (\<exists>d. updateDNSLayer gp d ts ?i = Some f')"
    using upd ts g by (auto simp: Flow_Update_def Let_def touched_def split: option.splits)
  moreover have 1: "same_counts g ?i" by (rule same_counts_trans [OF same_RTT same_TCP])
  ultimately have "same_counts g f'"
    by (elim disjE exE) (simp, rule same_counts_trans [OF 1 same_DNS])
  with ts g show ?thesis by (rule that)
qed

lemma steps_Update: "Flow_Update gp p opts f = Some f' \<Longrightarrow> steps_to f f'"
proof (erule Flow_Update_counted)
  fix ts g
  assume g: "updateMetrics p opts (touched ts f) = Some g" and same: "same_counts g f'"
  have "steps_to f (touched ts f)" by (rule steps_to_same) (simp_all add: metricCounters_def touched_def)
  also have "steps_to (touched ts f) g" using g by (rule steps_metrics)
  also have "steps_to g f'" using same by (rule steps_same_counts)
  finally show ?thesis .
qed

lemma steps_initFromPacket: "initFromPacket xxh gp keys p parentUUID uuids opts f = Some f' \<Longrightarrow> steps_to f f'"
proof -
  assume init: "initFromPacket xxh gp keys p parentUUID uuids opts f = Some f'"
  then obtain ts where ts: "timestamp p = Some ts" by (auto simp: initFromPacket_def split: bind_splits)
  obtain path app where path: "LayersPath gp (p_Layers p) = (path, app)" by (cases "LayersPath gp (p_Layers p)")
  let ?f = "(newLinkLayer p (Flow_Init (UnixMillis ts) parentUUID uuids f))\<lparr>f_LayersPath := path, f_Application := app\<rparr>"
  obtain g err where g: "newNetworkLayer p ?f = (g, err)" by (cases "newNetworkLayer p ?f")
  let ?h = "if err = None then newTransportLayer p opts g else g"
  from init ts path g obtain i where i: "newApplicationLayer gp p ts opts ?h = Some i"
    by (auto simp: initFromPacket_def Let_def split: bind_splits)
  obtain key l2Key l3Key where keys: "keys = (key, l2Key, l3Key)" by (cases keys)
  have upd: "Flow_Update gp p opts (setUUIDs xxh key l2Key l3Key i) = Some f'"
    using init ts path g i keys by (simp add: initFromPacket_def Let_def)
  have "steps_to f ?f"
    by (rule steps_to_same) (simp_all add: metricCounters_def newLinkLayer_def Flow_Init_def split: option.split)
  also have "steps_to ?f g"
    using g by (intro steps_to_same)
      (auto simp: newNetworkLayer_def getNetworkLayer_def Let_def split: option.splits)
  also have "steps_to g ?h"
    by (rule steps_to_same) (auto simp: newTransportLayer_def withApp_def Let_def split: option.splits)
  also have "steps_to ?h i"
    using i by (auto simp: newApplicationLayer_def intro: steps_to_same dest!: same_DNS steps_same_counts split: option.splits if_splits)
  also have "steps_to i (setUUIDs xxh key l2Key l3Key i)" by (rule steps_to_same) (simp_all add: setUUIDs_def)
  also have "steps_to (setUUIDs xxh key l2Key l3Key i) f'" using upd by (rule steps_Update)
  finally show ?thesis .
qed

section \<open>The direction of a packet\<close>

lemma hexByte_inj: "hexByte a = hexByte b \<Longrightarrow> a = b"
proof -
  have digit: "i < 16 \<Longrightarrow> j < 16 \<Longrightarrow> hexDigit i = hexDigit j \<Longrightarrow> i = j" for i j :: nat
    by (simp add: hexDigit_def nth_eq_iff_index_eq)
  have split: "hexDigit n = hexDigit (n mod 16)" for n by (simp add: hexDigit_def)
  assume eq: "hexByte a = hexByte b"
  have "(of_char a :: nat) div 16 < 16" "(of_char b :: nat) div 16 < 16"
    by (simp_all add: less_mult_imp_div_less)
  then have "of_char a div 16 = (of_char b div 16 :: nat)"
    using eq digit [of "of_char a div 16" "of_char b div 16"] by (simp add: hexByte_def)
  moreover have "of_char a mod 16 = (of_char b mod 16 :: nat)"
    using eq digit [of "of_char a mod 16" "of_char b mod 16"] split [of "of_char a"] split [of "of_char b"]
    by (simp add: hexByte_def)
  ultimately have "(of_char a :: nat) = of_char b" by (metis div_mult_mod_eq)
  then show "a = b" by simp
qed

lemma MACString_Cons:
  "MACString (c # cs) = hexByte c @ (if cs = [] then [] else CHR '':'' # MACString cs)"
  by (cases cs) (simp_all add: MACString_def)

lemma MACString_inj: "MACString a = MACString b \<Longrightarrow> a = b"
proof (induction a arbitrary: b)
  case Nil
  then show ?case by (cases b) (auto simp: MACString_Cons hexByte_def, simp add: MACString_def)
next
  case (Cons c cs)
  then obtain d ds where b: "b = d # ds"
    by (cases b) (auto simp: MACString_Cons hexByte_def, simp add: MACString_def)
  have "length (hexByte c) = length (hexByte d)" by (simp add: hexByte_def)
  then have "hexByte c = hexByte d" "(if cs = [] then [] else CHR '':'' # MACString cs) =
      (if ds = [] then [] else CHR '':'' # MACString ds)"
    using Cons.prems by (auto simp: b MACString_Cons)
  then show ?case using Cons.IH [of ds] by (auto simp: b dest: hexByte_inj split: if_splits)
qed

definition linkBytes :: "Packet \<Rightarrow> Ethernet_data \<Rightarrow> int" where
  "linkBytes p e = (if p_Length p = 0 then getLinkLayerLength e else p_Length p)"

text \<open>
  With link keys a packet is counted once, with its length, from A to B exactly when it comes from
  the address of the flow's first packet.
\<close>

lemma Flow_Update_link_counts:
  assumes mode: "o_LayerKeyMode opts = L2KeyMode" and e: "getLinkLayer p = Some e"
    and link: "f_Link f = Some link" "fl_A link = MACString a" and ne: "eth_SrcMAC e \<noteq> eth_DstMAC e"
    and upd: "Flow_Update gp p opts f = Some f'"
  shows "metricCounters (f_Metric f') = metricCounters (countPacket (eth_SrcMAC e = a) (linkBytes p e) (f_Metric f))"
proof -
  from upd obtain ts g where g: "updateMetrics p opts (touched ts f) = Some g" and same: "same_counts g f'"
    by (rule Flow_Update_counted)
  have dir: "fl_A link = MACString (eth_SrcMAC e) \<longleftrightarrow> eth_SrcMAC e = a"
    using link(2) MACString_inj [of a "eth_SrcMAC e"] by auto
  have "g = countFlow (eth_SrcMAC e = a) (linkBytes p e) (touched ts f)"
    using g mode e link(1) ne dir
    by (simp add: updateMetrics_def updateMetricsWithLinkLayer_def touched_def Let_def linkBytes_def)
  then show ?thesis
    using same by (simp add: same_counts_def countFlow_def countPacket_def touched_def metricCounters_def)
qed

text \<open>
  A loopback flow: both packets of a conversation between ports \<open>a\<close> and \<open>b\<close> of the same address are
  counted in the same direction when \<open>a\<close> is not above \<open>b\<close>.
\<close>

lemma isABPacket_same_address:
  assumes "f_Network f = Some net" "f_Transport f = Some t" "st_ipv4 (f_state f) = None" "st_ipv6 (f_state f) = None"
    and "layerAs p LayerTypeIPv4 IPv4_of = Some ip" "ip_SrcIP ip = ip_DstIP ip" "sourcePort p = Some port"
  shows "\<exists>f'. isABPacket p f = Some (f', tl_A t > port)"
  using assms by (simp add: isABPacket_def getNetworkLayer_def isABWith_def sameAddressAB_def)

end
