(* ===== verification/Flow_Fields.thy ===== *)
theory Flow_Fields
  imports Flow_Types
begin

text \<open>
  Field access of flows: the generated decoders of \<^verbatim>\<open>src/flow/flow.pb_gendecoder.go\<close> for the
  messages inside a flow, \<^verbatim>\<open>GetFieldString\<close>, \<^verbatim>\<open>GetFieldInt64\<close>, \<^verbatim>\<open>GetField\<close> and the match
  methods of \<^verbatim>\<open>src/flow/flow.go\<close>, and the flow as a \<^verbatim>\<open>Getter\<close>, which is what the filter
  language evaluates.  A generated decoder is a switch over the field names: a table from name
  to value.
\<close>

section \<open>Generated decoders\<close>

definition switch :: "(string \<times> 'a) list \<Rightarrow> string \<Rightarrow> 'a result" where
  "switch t key = (case map_of t key of Some v \<Rightarrow> Inr v | None \<Rightarrow> Inl ErrFieldNotFound)"

definition FlowLayer_GetFieldInt64 :: "FlowLayer \<Rightarrow> string \<Rightarrow> int result" where
  "FlowLayer_GetFieldInt64 obj = switch [(''ID'', fl_ID obj)]"

definition FlowLayer_GetFieldString :: "FlowLayer \<Rightarrow> string \<Rightarrow> string result" where
  "FlowLayer_GetFieldString obj =
     switch [(''Protocol'', FlowProtocol_String (fl_Protocol obj)), (''A'', fl_A obj), (''B'', fl_B obj)]"

definition FlowMetric_GetFieldInt64 :: "FlowMetric \<Rightarrow> string \<Rightarrow> int result" where
  "FlowMetric_GetFieldInt64 obj = switch
     [(''ABPackets'', fm_ABPackets obj), (''ABBytes'', fm_ABBytes obj),
      (''BAPackets'', fm_BAPackets obj), (''BABytes'', fm_BABytes obj), (''Start'', fm_Start obj),
      (''Last'', fm_Last obj), (''RTT'', fm_RTT obj)]"

definition ICMPLayer_GetFieldInt64 :: "ICMPLayer \<Rightarrow> string \<Rightarrow> int result" where
  "ICMPLayer_GetFieldInt64 obj = switch [(''Code'', ic_Code obj), (''ID'', ic_ID obj)]"

definition ICMPLayer_GetFieldString :: "ICMPLayer \<Rightarrow> string \<Rightarrow> string result" where
  "ICMPLayer_GetFieldString obj = switch [(''Type'', ICMPType_String (ic_Type obj))]"

definition IPMetric_GetFieldInt64 :: "IPMetric \<Rightarrow> string \<Rightarrow> int result" where
  "IPMetric_GetFieldInt64 obj =
     switch [(''Fragments'', im_Fragments obj), (''FragmentErrors'', im_FragmentErrors obj)]"

definition TCPMetric_GetFieldInt64 :: "TCPMetric \<Rightarrow> string \<Rightarrow> int result" where
  "TCPMetric_GetFieldInt64 obj = switch
     [(''ABSynStart'', tm_ABSynStart obj), (''BASynStart'', tm_BASynStart obj),
      (''ABSynTTL'', tm_ABSynTTL obj), (''BASynTTL'', tm_BASynTTL obj),
      (''ABFinStart'', tm_ABFinStart obj), (''BAFinStart'', tm_BAFinStart obj),
      (''ABRstStart'', tm_ABRstStart obj), (''BARstStart'', tm_BARstStart obj),
      (''ABSegmentOutOfOrder'', tm_ABSegmentOutOfOrder obj),
      (''ABSegmentSkipped'', tm_ABSegmentSkipped obj),
      (''ABSegmentSkippedBytes'', tm_ABSegmentSkippedBytes obj), (''ABPackets'', tm_ABPackets obj),
      (''ABBytes'', tm_ABBytes obj), (''ABSawStart'', tm_ABSawStart obj),
      (''ABSawEnd'', tm_ABSawEnd obj), (''BASegmentOutOfOrder'', tm_BASegmentOutOfOrder obj),
      (''BASegmentSkipped'', tm_BASegmentSkipped obj),
      (''BASegmentSkippedBytes'', tm_BASegmentSkippedBytes obj), (''BAPackets'', tm_BAPackets obj),
      (''BABytes'', tm_BABytes obj), (''BASawStart'', tm_BASawStart obj),
      (''BASawEnd'', tm_BASawEnd obj)]"

definition TransportLayer_GetFieldInt64 :: "TransportLayer \<Rightarrow> string \<Rightarrow> int result" where
  "TransportLayer_GetFieldInt64 obj = switch [(''A'', tl_A obj), (''B'', tl_B obj), (''ID'', tl_ID obj)]"

definition TransportLayer_GetFieldString :: "TransportLayer \<Rightarrow> string \<Rightarrow> string result" where
  "TransportLayer_GetFieldString obj = switch [(''Protocol'', FlowProtocol_String (tl_Protocol obj))]"

definition FlowMetric_GetFieldKeys :: "string list" where
  "FlowMetric_GetFieldKeys =
     [''ABPackets'', ''ABBytes'', ''BAPackets'', ''BABytes'', ''Start'', ''Last'', ''RTT'']"

section \<open>The flow as a reflected struct\<close>

text \<open>Every field of the struct in its order; what a walk of at most two components cannot tell
  apart is left empty.\<close>

definition rFlowLayer :: "FlowLayer \<Rightarrow> rval" where
  "rFlowLayer l = RStruct
     [(''Protocol'', RNamedInt KInt32 (int (FlowProtocol_Value (fl_Protocol l)))),
      (''A'', RString (fl_A l)), (''B'', RString (fl_B l)), (''ID'', RInt KInt64 (fl_ID l))]"

definition rDHCPv4 :: "DHCPv4_data \<Rightarrow> rval" where
  "rDHCPv4 d = RStruct
     [(''Contents'', RSlice), (''Payload'', RSlice), (''HardwareLen'', RInt KUint8 (dhcp_HardwareLen d)),
      (''HardwareOpts'', RInt KUint8 (dhcp_HardwareOpts d)), (''Xid'', RInt KUint32 0),
      (''Secs'', RInt KUint16 (dhcp_Secs d)), (''Flags'', RInt KUint16 (dhcp_Flags d)),
      (''ServerName'', RSlice), (''File'', RSlice)]"

definition rDNS :: "DNS_layer \<Rightarrow> rval" where
  "rDNS d = RStruct
     [(''ID'', RInt KUint16 (dl_ID d)), (''QR'', RBool (dl_QR d)), (''OpCode'', RString (dl_OpCode d)),
      (''AA'', RBool (dl_AA d)), (''TC'', RBool (dl_TC d)), (''RD'', RBool (dl_RD d)),
      (''RA'', RBool (dl_RA d)), (''Z'', RInt KUint8 (dl_Z d)),
      (''ResponseCode'', RString (dl_ResponseCode d)), (''QDCount'', RInt KUint16 (dl_QDCount d)),
      (''ANCount'', RInt KUint16 (dl_ANCount d)), (''NSCount'', RInt KUint16 (dl_NSCount d)),
      (''ARCount'', RInt KUint16 (dl_ARCount d)), (''Questions'', RSlice), (''Answers'', RSlice),
      (''Authorities'', RSlice), (''Additionals'', RSlice), (''Timestamp'', RStruct [])]"

definition rVRRPv2 :: "VRRPv2_data \<Rightarrow> rval" where
  "rVRRPv2 d = RStruct
     [(''Contents'', RSlice), (''Payload'', RSlice), (''Version'', RInt KUint8 (vrrp_Version d)),
      (''VirtualRtrID'', RInt KUint8 (vrrp_VirtualRtrID d)), (''Priority'', RInt KUint8 (vrrp_Priority d)),
      (''CountIPAddr'', RInt KUint8 0), (''AdverInt'', RInt KUint8 (vrrp_AdverInt d)),
      (''Checksum'', RInt KUint16 0)]"

definition rPtr :: "('a \<Rightarrow> rval) \<Rightarrow> 'a option \<Rightarrow> rval" where
  "rPtr r p = (case p of None \<Rightarrow> RInvalid | Some x \<Rightarrow> r x)"

definition FlowFinishType_Value :: "FlowFinishType \<Rightarrow> int" where
  "FlowFinishType_Value t = (case t of NOT_FINISHED \<Rightarrow> 0 | TIMEOUT \<Rightarrow> 1 | TCP_FIN \<Rightarrow> 2 | TCP_RST \<Rightarrow> 3)"

definition rFlow :: "Flow \<Rightarrow> rval" where
  "rFlow f = RStruct
     [(''XXX_state'', RStruct []), (''UUID'', RString (f_UUID f)), (''LayersPath'', RString (f_LayersPath f)),
      (''Application'', RString (f_Application f)), (''Link'', rPtr rFlowLayer (f_Link f)),
      (''Network'', rPtr rFlowLayer (f_Network f)), (''Transport'', rPtr (\<lambda>_. RStruct []) (f_Transport f)),
      (''ICMP'', rPtr (\<lambda>_. RStruct []) (f_ICMP f)), (''DHCPv4'', rPtr rDHCPv4 (f_DHCPv4 f)),
      (''DNS'', rPtr rDNS (f_DNS f)), (''VRRPv2'', rPtr rVRRPv2 (f_VRRPv2 f)),
      (''LastUpdateMetric'', rPtr (\<lambda>_. RStruct []) (f_LastUpdateMetric f)), (''Metric'', RStruct []),
      (''TCPMetric'', rPtr (\<lambda>_. RStruct []) (f_TCPMetric f)), (''IPMetric'', rPtr (\<lambda>_. RStruct []) (f_IPMetric f)),
      (''Start'', RInt KInt64 (f_Start f)), (''Last'', RInt KInt64 (f_Last f)),
      (''TrackingID'', RString (f_TrackingID f)), (''L3TrackingID'', RString (f_L3TrackingID f)),
      (''ParentUUID'', RString (f_ParentUUID f)), (''NodeTID'', RString (f_NodeTID f)),
      (''CaptureID'', RString (f_CaptureID f)), (''LastRawPackets'', RSlice),
      (''RawPacketsCaptured'', RInt KInt64 (f_RawPacketsCaptured f)),
      (''FinishType'', RNamedInt KInt32 (FlowFinishType_Value (f_FinishType f)))]"

section \<open>Access to the fields of a flow\<close>

text \<open>A nil message falls out of its case of the switch, to the extra layers.\<close>

definition sub :: "'m option \<Rightarrow> ('m \<Rightarrow> string \<Rightarrow> 'a result) \<Rightarrow> string \<Rightarrow> 'a result \<Rightarrow> 'a result" where
  "sub m get key rest = (case m of Some x \<Rightarrow> get x key | None \<Rightarrow> rest)"

definition extraString :: "Flow \<Rightarrow> string \<Rightarrow> string \<Rightarrow> string result" where
  "extraString f name field =
     (if map_of extraLayersMap name \<noteq> None
      then (case LookupPath (rFlow f) field KindString of
              (RString s, True) \<Rightarrow> Inr s
            | _ \<Rightarrow> Inl ErrFieldNotFound)
      else Inl ErrFieldNotFound)"

definition Flow_GetFieldString :: "Flow \<Rightarrow> string \<Rightarrow> string result" where
  "Flow_GetFieldString f field =
     (let parts = split_dot field; name = hd parts; rest = extraString f name field in
      case map_of [(''UUID'', f_UUID f), (''LayersPath'', f_LayersPath f), (''TrackingID'', f_TrackingID f),
                   (''L3TrackingID'', f_L3TrackingID f), (''ParentUUID'', f_ParentUUID f),
                   (''NodeTID'', f_NodeTID f), (''Application'', f_Application f),
                   (''CaptureID'', f_CaptureID f)] name of
        Some v \<Rightarrow> Inr v
      | None \<Rightarrow>
          if length parts \<noteq> 2 then Inl ErrFieldNotFound
          else let key = parts ! 1 in
            if name \<in> set [''Link'', ''ETHERNET''] then sub (f_Link f) FlowLayer_GetFieldString key rest
            else if name \<in> set [''Network'', ''IPV4'', ''IPV6''] then sub (f_Network f) FlowLayer_GetFieldString key rest
            else if name = ''ICMP'' then sub (f_ICMP f) ICMPLayer_GetFieldString key rest
            else if name \<in> set [''Transport'', ''UDP'', ''TCP'', ''SCTP'']
            then sub (f_Transport f) TransportLayer_GetFieldString key rest
            else rest)"

definition Flow_GetFieldBool :: "Flow \<Rightarrow> string \<Rightarrow> bool result" where
  "Flow_GetFieldBool f field = Inl ErrFieldNotFound"

definition extraInt64 :: "Flow \<Rightarrow> string \<Rightarrow> string \<Rightarrow> int result" where
  "extraInt64 f name field =
     (if map_of extraLayersMap name \<noteq> None
      then (case LookupPath (rFlow f) field KindInt of
              (v, True) \<Rightarrow> (case rval_ToInt64 v of Inr i \<Rightarrow> Inr i | Inl _ \<Rightarrow> Inl ErrFieldNotFound)
            | _ \<Rightarrow> Inl ErrFieldNotFound)
      else Inl ErrFieldNotFound)"

definition Flow_GetFieldInt64 :: "Flow \<Rightarrow> string \<Rightarrow> int result" where
  "Flow_GetFieldInt64 f field =
     (if field = ''Last'' then Inr (f_Last f)
      else if field = ''Start'' then Inr (f_Start f)
      else let parts = split_dot field in
        if length parts \<noteq> 2 then Inl ErrFieldNotFound
        else let name = hd parts; key = parts ! 1; rest = extraInt64 f name field in
          if name = ''Metric'' then FlowMetric_GetFieldInt64 (f_Metric f) key
          else if name = ''LastUpdateMetric'' then sub (f_LastUpdateMetric f) FlowMetric_GetFieldInt64 key rest
          else if name = ''TCPMetric'' then sub (f_TCPMetric f) TCPMetric_GetFieldInt64 key rest
          else if name = ''IPMetric'' then sub (f_IPMetric f) IPMetric_GetFieldInt64 key rest
          else if name = ''Link'' then sub (f_Link f) FlowLayer_GetFieldInt64 key rest
          else if name = ''Network'' then sub (f_Network f) FlowLayer_GetFieldInt64 key rest
          else if name = ''ICMP'' then sub (f_ICMP f) ICMPLayer_GetFieldInt64 key rest
          else if name = ''Transport'' then sub (f_Transport f) TransportLayer_GetFieldInt64 key rest
          else if name = ''RawPacketsCaptured'' then Inr (f_RawPacketsCaptured f)
          else rest)"

text \<open>
  \<^verbatim>\<open>getFieldInterface\<close> hands out the message itself; here that it was found.  A message field
  that is nil is returned as a typed nil pointer and counts as found.
\<close>

definition Flow_hasFieldInterface :: "Flow \<Rightarrow> string \<Rightarrow> bool" where
  "Flow_hasFieldInterface f field \<longleftrightarrow>
     field \<in> set [''Metric'', ''LastUpdateMetric'', ''TCPMetric'', ''Link'', ''Network'', ''ICMP'', ''Transport'']
     \<or> (map_of extraLayersMap field \<noteq> None \<and> snd (LookupPath (rFlow f) field KindStruct))"

text \<open>\<^verbatim>\<open>GetField\<close>; a message is an opaque value.\<close>

definition Flow_GetField :: "Flow \<Rightarrow> string \<Rightarrow> gval result" where
  "Flow_GetField f field =
     (if Flow_hasFieldInterface f field then Inr VNil
      else case Flow_GetFieldInt64 f field of
             Inr i \<Rightarrow> Inr (VInt64 i)
           | Inl _ \<Rightarrow> (case Flow_GetFieldString f field of Inr s \<Rightarrow> Inr (VString s) | Inl e \<Rightarrow> Inl e))"

definition Flow_MatchBool :: "Flow \<Rightarrow> string \<Rightarrow> (bool \<Rightarrow> bool) \<Rightarrow> bool" where
  "Flow_MatchBool f key p = (case Flow_GetFieldBool f key of Inr b \<Rightarrow> p b | Inl _ \<Rightarrow> False)"

definition Flow_MatchInt64 :: "Flow \<Rightarrow> string \<Rightarrow> (int \<Rightarrow> bool) \<Rightarrow> bool" where
  "Flow_MatchInt64 f key p = (case Flow_GetFieldInt64 f key of Inr i \<Rightarrow> p i | Inl _ \<Rightarrow> False)"

definition Flow_MatchString :: "Flow \<Rightarrow> string \<Rightarrow> (string \<Rightarrow> bool) \<Rightarrow> bool" where
  "Flow_MatchString f key p = (case Flow_GetFieldString f key of Inr s \<Rightarrow> p s | Inl _ \<Rightarrow> False)"

text \<open>\<^verbatim>\<open>GetFieldKeys\<close> is \<^verbatim>\<open>StructFieldKeys(Flow{})\<close>; \<open>timeFields\<close> are the fields of
  \<^verbatim>\<open>time.Time\<close> and \<open>stateFields\<close> those of the private state, which the walk skips.\<close>

definition basics :: "string list \<Rightarrow> (string \<times> rtype) list" where
  "basics ns = map (\<lambda>n. (n, TBasic)) ns"

definition dnsRecordType :: rtype where
  "dnsRecordType = TStruct (basics [''Name'', ''Type'', ''Class'', ''TTL'', ''DataLength'', ''IP'', ''NS'', ''CNAME'', ''PTR''] @
     [(''TXTs'', TSlice TBasic),
      (''SOA'', TPtr (TStruct (basics [''MName'', ''RName'', ''Serial'', ''Refresh'', ''Retry'', ''Expire'', ''Minimum'']))),
      (''SRV'', TPtr (TStruct (basics [''Priority'', ''Weight'', ''Port'', ''Name'']))),
      (''MX'', TPtr (TStruct (basics [''Preference'', ''Name'']))),
      (''OPT'', TSlice (TPtr (TStruct (basics [''Code'', ''Data'']))))])"

definition flowType :: "(string \<times> rtype) list \<Rightarrow> (string \<times> rtype) list \<Rightarrow> (string \<times> rtype) list" where
  "flowType stateFields timeFields =
     [(''XXX_state'', TStruct stateFields), (''UUID'', TBasic), (''LayersPath'', TBasic), (''Application'', TBasic),
      (''Link'', TPtr (TStruct (basics [''Protocol'', ''A'', ''B'', ''ID'']))),
      (''Network'', TPtr (TStruct (basics [''Protocol'', ''A'', ''B'', ''ID'']))),
      (''Transport'', TPtr (TStruct (basics [''Protocol'', ''A'', ''B'', ''ID'']))),
      (''ICMP'', TPtr (TStruct (basics [''Type'', ''Code'', ''ID'']))),
      (''DHCPv4'', TPtr (TStruct ([(''Contents'', TSlice TBasic), (''Payload'', TSlice TBasic)] @
         basics [''HardwareLen'', ''HardwareOpts'', ''Xid'', ''Secs'', ''Flags''] @
         [(''ServerName'', TSlice TBasic), (''File'', TSlice TBasic)]))),
      (''DNS'', TPtr (TStruct (basics [''ID'', ''QR'', ''OpCode'', ''AA'', ''TC'', ''RD'', ''RA'', ''Z'', ''ResponseCode'',
         ''QDCount'', ''ANCount'', ''NSCount'', ''ARCount''] @
         [(''Questions'', TSlice (TStruct (basics [''Name'', ''Type'', ''Class'']))), (''Answers'', TSlice dnsRecordType),
          (''Authorities'', TSlice dnsRecordType), (''Additionals'', TSlice dnsRecordType),
          (''Timestamp'', TStruct timeFields)]))),
      (''VRRPv2'', TPtr (TStruct ([(''Contents'', TSlice TBasic), (''Payload'', TSlice TBasic)] @
         basics [''Version'', ''VirtualRtrID'', ''Priority'', ''CountIPAddr'', ''AdverInt'', ''Checksum'']))),
      (''LastUpdateMetric'', TPtr (TStruct (basics FlowMetric_GetFieldKeys))),
      (''Metric'', TPtr (TStruct (basics FlowMetric_GetFieldKeys))),
      (''TCPMetric'', TPtr (TStruct (basics [''ABSynStart'', ''BASynStart'', ''ABSynTTL'', ''BASynTTL'', ''ABFinStart'', ''BAFinStart'', ''ABRstStart'', ''BARstStart'', ''ABSegmentOutOfOrder'', ''ABSegmentSkipped'', ''ABSegmentSkippedBytes'', ''ABPackets'', ''ABBytes'', ''ABSawStart'', ''ABSawEnd'', ''BASegmentOutOfOrder'', ''BASegmentSkipped'', ''BASegmentSkippedBytes'', ''BAPackets'', ''BABytes'', ''BASawStart'', ''BASawEnd'']))),
      (''IPMetric'', TPtr (TStruct (basics [''Fragments'', ''FragmentErrors''])))] @
     basics [''Start'', ''Last'', ''TrackingID'', ''L3TrackingID'', ''ParentUUID'', ''NodeTID'', ''CaptureID''] @
     [(''LastRawPackets'', TSlice (TPtr (TStruct ([(''Timestamp'', TBasic), (''Index'', TBasic),
         (''Data'', TSlice TBasic), (''LinkType'', TBasic)]))))] @
     basics [''RawPacketsCaptured'', ''FinishType'']"

definition flow_getter :: "string list \<Rightarrow> Flow \<Rightarrow> getter" where
  "flow_getter flowFieldKeys f =
     \<lparr>GetField = Flow_GetField f, GetFieldKeys = flowFieldKeys, GetFieldBool = Flow_GetFieldBool f,
      GetFieldInt64 = Flow_GetFieldInt64 f, GetFieldString = Flow_GetFieldString f,
      MatchBool = Flow_MatchBool f, MatchInt64 = Flow_MatchInt64 f, MatchString = Flow_MatchString f\<rparr>"

section \<open>Filters over flows\<close>

interpretation fg: scalar_getter "flow_getter keys f" for keys f
  by unfold_locales
    (simp_all add: flow_getter_def Flow_MatchBool_def Flow_MatchInt64_def Flow_MatchString_def split: sum.split)

lemma flow_int64_fields [simp]:
  "Flow_GetFieldInt64 f ''Start'' = Inr (f_Start f)" "Flow_GetFieldInt64 f ''Last'' = Inr (f_Last f)"
  by (simp_all add: Flow_GetFieldInt64_def)

lemma flow_string_fields [simp]:
  "Flow_GetFieldString f ''UUID'' = Inr (f_UUID f)" "Flow_GetFieldString f ''NodeTID'' = Inr (f_NodeTID f)"
  "Flow_GetFieldString f ''TrackingID'' = Inr (f_TrackingID f)"
  by (simp_all add: Flow_GetFieldString_def Let_def)

text \<open>The filters of \<^verbatim>\<open>src/flow/filters.go\<close>.\<close>

definition NewFilterForNodeTIDs :: "string list \<Rightarrow> Filter" where
  "NewFilterForNodeTIDs uuids = NewOrTermStringFilter uuids [''NodeTID'']"

end
