(* ===== verification/Flow_Set.thy ===== *)
theory Flow_Set
  imports Flow_Fields Elements "HOL-Library.Multiset" "HOL-Library.Sublist"
begin

text \<open>
  Sets of flows, \<^verbatim>\<open>src/flow/set.go\<close>: merging, sorting, deduplication, slicing and filtering.
  Functions with an error return the flows they leave in the set together with the error
  (\<open>None\<close> is nil).
\<close>

section \<open>Operations\<close>

record MergeContext =
  mc_Sort :: bool
  mc_SortBy :: string
  mc_SortOrder :: string
  mc_Dedup :: bool
  mc_DedupBy :: string

definition SortAscending :: string where
  "SortAscending = ''ASC''"

definition SortDescending :: string where
  "SortDescending = ''DESC''"

record FlowSet =
  fs_Flows :: "Flow list"
  fs_Start :: int
  fs_End :: int

definition NewFlowSet :: FlowSet where
  "NewFlowSet = \<lparr>fs_Flows = [], fs_Start = 0, fs_End = 0\<rparr>"

text \<open>A deduplication key is the value of a string field or else of an int64 field.\<close>

datatype dkey = DString string | DInt int

definition getDedupField :: "Flow \<Rightarrow> string \<Rightarrow> dkey result" where
  "getDedupField flow field =
     (if field = [] then Inr (DString (f_TrackingID flow))
      else case Flow_GetFieldString flow field of
             Inr v \<Rightarrow> Inr (DString v)
           | Inl _ \<Rightarrow> (case Flow_GetFieldInt64 flow field of Inr i \<Rightarrow> Inr (DInt i) | Inl e \<Rightarrow> Inl e))"

definition compareByField :: "Flow \<Rightarrow> Flow \<Rightarrow> string \<Rightarrow> bool result" where
  "compareByField lf rf field =
     (if field = [] then Inr (f_Last lf \<le> f_Last rf)
      else case Flow_GetFieldInt64 lf field of
             Inr v1 \<Rightarrow> Inr (v1 \<le> value_or 0 (Flow_GetFieldInt64 rf field))
           | Inl _ \<Rightarrow>
               (case Flow_GetFieldString lf field of
                  Inr v1 \<Rightarrow> Inr (v1 \<le> value_or [] (Flow_GetFieldString rf field))
                | Inl _ \<Rightarrow> Inl ErrFieldNotFound))"

text \<open>The keys of a list of flows, up to the first error.\<close>

fun visitedKeys :: "string \<Rightarrow> Flow list \<Rightarrow> dkey list result" where
  "visitedKeys field [] = Inr []"
| "visitedKeys field (f # fs) =
     (case getDedupField f field of
        Inl e \<Rightarrow> Inl e
      | Inr k \<Rightarrow> (case visitedKeys field fs of Inl e \<Rightarrow> Inl e | Inr ks \<Rightarrow> Inr (k # ks)))"

fun appendUnvisited :: "string \<Rightarrow> dkey list \<Rightarrow> Flow list \<Rightarrow> Flow list \<Rightarrow> Flow list \<times> go_error option" where
  "appendUnvisited field visited flows [] = (flows, None)"
| "appendUnvisited field visited flows (f # ofs) =
     (case getDedupField f field of
        Inl e \<Rightarrow> (flows, Some e)
      | Inr k \<Rightarrow> appendUnvisited field visited (if k \<in> set visited then flows else flows @ [f]) ofs)"

definition mergeDedup :: "FlowSet \<Rightarrow> FlowSet \<Rightarrow> string \<Rightarrow> FlowSet \<times> go_error option" where
  "mergeDedup fs ofs field =
     (if fs_Flows ofs = [] then (fs, None)
      else case visitedKeys field (fs_Flows fs) of
             Inl e \<Rightarrow> (fs, Some e)
           | Inr visited \<Rightarrow>
               (let (flows, err) = appendUnvisited field visited (fs_Flows fs) (fs_Flows ofs)
                in (fs\<lparr>fs_Flows := flows\<rparr>, err)))"

text \<open>Appending flows whose key was not visited; on an error, what was appended so far.\<close>

fun appendDedup ::
  "string \<Rightarrow> dkey list \<Rightarrow> Flow list \<Rightarrow> Flow list \<Rightarrow> Flow list \<times> dkey list \<times> go_error option" where
  "appendDedup field visited ret [] = (ret, visited, None)"
| "appendDedup field visited ret (f # fs) =
     (case getDedupField f field of
        Inl e \<Rightarrow> (ret, visited, Some e)
      | Inr k \<Rightarrow> (if k \<in> set visited then appendDedup field visited ret fs
                 else appendDedup field (k # visited) (ret @ [f]) fs))"

definition appendRest :: "MergeContext \<Rightarrow> dkey list \<Rightarrow> Flow list \<Rightarrow> Flow list \<Rightarrow> Flow list \<times> go_error option" where
  "appendRest ctx visited ret rest =
     (if mc_Dedup ctx
      then (case appendDedup (mc_DedupBy ctx) visited ret rest of (ret, _, err) \<Rightarrow> (ret, err))
      else (ret @ rest, None))"

text \<open>The append of one flow inside the merge loop.\<close>

definition appendOne ::
  "MergeContext \<Rightarrow> dkey list \<Rightarrow> Flow list \<Rightarrow> Flow \<Rightarrow> Flow list \<times> dkey list \<times> go_error option" where
  "appendOne ctx visited ret f =
     (if mc_Dedup ctx then appendDedup (mc_DedupBy ctx) visited ret [f] else (ret @ [f], visited, None))"

definition takesLeft :: "MergeContext \<Rightarrow> Flow \<Rightarrow> Flow \<Rightarrow> bool result" where
  "takesLeft ctx lf rf =
     map_sum id (\<lambda>cv. if mc_SortOrder ctx \<noteq> SortAscending then \<not> cv else cv) (compareByField lf rf (mc_SortBy ctx))"

function mergeLoop ::
  "MergeContext \<Rightarrow> dkey list \<Rightarrow> Flow list \<Rightarrow> Flow list \<Rightarrow> Flow list \<Rightarrow> Flow list \<times> go_error option" where
  "mergeLoop ctx visited ret [] right = (if right = [] then (ret, None) else appendRest ctx visited ret right)"
| "mergeLoop ctx visited ret (lf # left) [] = appendRest ctx visited ret (lf # left)"
| "mergeLoop ctx visited ret (lf # left) (rf # right) =
     (case takesLeft ctx lf rf of
        Inl e \<Rightarrow> ([], Some e)
      | Inr cv \<Rightarrow>
          (case appendOne ctx visited ret (if cv then lf else rf) of
             (ret, visited, Some e) \<Rightarrow> (ret, Some e)
           | (ret, visited, None) \<Rightarrow>
               (if cv then mergeLoop ctx visited ret left (rf # right)
                else mergeLoop ctx visited ret (lf # left) right)))"
  by pat_completeness auto
termination
  by (relation "measure (\<lambda>(_, _, _, l, r). length l + length r)") auto

definition mergeSortedFlows :: "Flow list \<Rightarrow> Flow list \<Rightarrow> MergeContext \<Rightarrow> Flow list \<times> go_error option" where
  "mergeSortedFlows left right ctx = mergeLoop ctx [] [] left right"

definition FlowSet_Merge :: "FlowSet \<Rightarrow> FlowSet \<Rightarrow> MergeContext \<Rightarrow> FlowSet \<times> go_error option" where
  "FlowSet_Merge fs ofs ctx =
     (let start = MinInt64 (fs_Start fs) (fs_Start ofs);
          fs = fs\<lparr>fs_Start := (if start = 0 then fs_Start ofs else start), fs_End := MaxInt64 (fs_End fs) (fs_End ofs)\<rparr>
      in if mc_Sort ctx
         then (let (flows, err) = mergeSortedFlows (fs_Flows fs) (fs_Flows ofs) ctx
               in (fs\<lparr>fs_Flows := flows\<rparr>, err))
         else if mc_Dedup ctx then mergeDedup fs ofs (mc_DedupBy ctx)
         else (fs\<lparr>fs_Flows := fs_Flows fs @ fs_Flows ofs\<rparr>, None))"

function sortFlows :: "Flow list \<Rightarrow> MergeContext \<Rightarrow> Flow list" where
  "sortFlows f ctx =
     (if length f \<le> 1 then f
      else let mid = length f div 2
           in fst (mergeSortedFlows (sortFlows (take mid f) ctx) (sortFlows (drop mid f) ctx) ctx))"
  by auto
termination
  by (relation "measure (\<lambda>(f, _). length f)") auto

declare sortFlows.simps [simp del]

text \<open>\<^verbatim>\<open>fs.Flows[from:to]\<close> panics on a negative index or when \<^verbatim>\<open>from\<close> is above \<^verbatim>\<open>to\<close>: \<open>None\<close>.\<close>

definition FlowSet_Slice :: "FlowSet \<Rightarrow> int \<Rightarrow> int \<Rightarrow> FlowSet option" where
  "FlowSet_Slice fs from to =
     (let n = int (length (fs_Flows fs));
          from = (if from > n then n else from); to = (if to > n then n else to)
      in if from < 0 \<or> to < from then None
         else Some (fs\<lparr>fs_Flows := take (nat to - nat from) (drop (nat from) (fs_Flows fs))\<rparr>))"

definition FlowSet_Dedup :: "FlowSet \<Rightarrow> string \<Rightarrow> FlowSet \<times> go_error option" where
  "FlowSet_Dedup fs field =
     (if fs_Flows fs = [] then (fs, None)
      else case appendDedup field [] [] (fs_Flows fs) of
             (_, _, Some e) \<Rightarrow> (fs, Some e)
           | (deduped, _, None) \<Rightarrow> (fs\<lparr>fs_Flows := deduped\<rparr>, None))"

definition sortContext :: "string \<Rightarrow> string \<Rightarrow> MergeContext" where
  "sortContext order orderBy =
     \<lparr>mc_Sort = True, mc_SortBy = orderBy, mc_SortOrder = order, mc_Dedup = False, mc_DedupBy = []\<rparr>"

definition FlowSet_Sort :: "FlowSet \<Rightarrow> string \<Rightarrow> string \<Rightarrow> FlowSet" where
  "FlowSet_Sort fs order orderBy = fs\<lparr>fs_Flows := sortFlows (fs_Flows fs) (sortContext order orderBy)\<rparr>"

text \<open>The loop body that \<^verbatim>\<open>FlowSet.Filter\<close> and \<^verbatim>\<open>Table.getFlows\<close> share.\<close>

definition addMatching :: "FlowSet \<Rightarrow> Flow \<Rightarrow> FlowSet" where
  "addMatching fs f =
     (let fs = (if fs_Start fs = 0 \<or> fs_Start fs > f_Start f then fs\<lparr>fs_Start := f_Start f\<rparr> else fs);
          fs = (if fs_End fs = 0 \<or> fs_Start fs < f_Last f then fs\<lparr>fs_End := f_Last f\<rparr> else fs)
      in fs\<lparr>fs_Flows := fs_Flows fs @ [f]\<rparr>)"

definition collectMatching :: "(Flow \<Rightarrow> bool) \<Rightarrow> Flow list \<Rightarrow> FlowSet" where
  "collectMatching p flows = foldl addMatching NewFlowSet (filter p flows)"

definition FlowSet_Filter :: "regex_env \<Rightarrow> string list \<Rightarrow> FlowSet \<Rightarrow> Filter option \<Rightarrow> FlowSet" where
  "FlowSet_Filter env keys fs filt =
     collectMatching (\<lambda>f. case filt of None \<Rightarrow> True | Some q \<Rightarrow> Eval env (flow_getter keys f) q) (fs_Flows fs)"

text \<open>The filters of \<^verbatim>\<open>src/flow/filters.go\<close> for nodes and for the flows of a set.\<close>

fun nodeTIDs :: "string list \<Rightarrow> Node list \<Rightarrow> string list" where
  "nodeTIDs seen [] = []"
| "nodeTIDs seen (n # ns) =
     (let tid = value_or [] (element_GetFieldString n ''TID'')
      in if tid \<noteq> [] \<and> tid \<notin> set seen then tid # nodeTIDs (tid # seen) ns else nodeTIDs seen ns)"

definition NewFilterForNodes :: "Node list \<Rightarrow> Filter" where
  "NewFilterForNodes nodes = NewFilterForNodeTIDs (nodeTIDs [] nodes)"

definition NewFilterForFlowSet :: "FlowSet \<Rightarrow> Filter" where
  "NewFilterForFlowSet fs = NewOrTermStringFilter (map f_UUID (fs_Flows fs)) [''UUID'']"

section \<open>First occurrences\<close>

text \<open>The reference for deduplication: the first flow of every key, in order.\<close>

fun firstBy :: "('a \<Rightarrow> 'k) \<Rightarrow> 'k list \<Rightarrow> 'a list \<Rightarrow> 'a list" where
  "firstBy k seen [] = []"
| "firstBy k seen (x # xs) =
     (if k x \<in> set seen then firstBy k seen xs else x # firstBy k (k x # seen) xs)"

lemma firstBy_subseq: "subseq (firstBy k seen xs) xs"
  by (induction xs arbitrary: seen) auto

lemma firstBy_keys: "k ` set (firstBy k seen xs) = k ` set xs - set seen"
  by (induction xs arbitrary: seen) auto

lemma firstBy_distinct: "distinct (map k (firstBy k seen xs))"
proof (induction xs arbitrary: seen)
  case (Cons x xs)
  have "k x \<notin> k ` set (firstBy k (k x # seen) xs)" by (simp add: firstBy_keys)
  with Cons show ?case by auto
qed simp

lemma firstBy_first:
  "f \<in> set (firstBy k seen xs) \<Longrightarrow> \<exists>ys zs. xs = ys @ f # zs \<and> k f \<notin> k ` set ys \<and> k f \<notin> set seen"
proof (induction xs arbitrary: seen)
  case (Cons x xs)
  show ?case
  proof (cases "k x \<in> set seen \<or> f \<noteq> x")
    case True
    then obtain seen' where f: "f \<in> set (firstBy k seen' xs)" and s: "set seen' = set seen \<union> (if k x \<in> set seen then {} else {k x})"
      using Cons.prems by (cases "k x \<in> set seen") force+
    from Cons.IH [OF f] obtain ys zs where "xs = ys @ f # zs" "k f \<notin> k ` set ys" "k f \<notin> set seen'"
      by (elim exE conjE) (rule that)
    then have "x # xs = (x # ys) @ f # zs \<and> k f \<notin> k ` set (x # ys) \<and> k f \<notin> set seen"
      using s by (auto split: if_splits)
    then show ?thesis by blast
  next
    case False
    then show ?thesis by (intro exI [of _ "[]"] exI [of _ xs]) simp
  qed
qed simp

section \<open>Deduplication\<close>

text \<open>Where every flow has the field, \<open>dedupKey\<close> is its value.\<close>

definition dedupKey :: "string \<Rightarrow> Flow \<Rightarrow> dkey" where
  "dedupKey field f = value_or (DString []) (getDedupField f field)"

definition hasDedup :: "string \<Rightarrow> Flow \<Rightarrow> bool" where
  "hasDedup field f \<longleftrightarrow> is_ok (getDedupField f field)"

lemma getDedupField_ok: "hasDedup field f \<Longrightarrow> getDedupField f field = Inr (dedupKey field f)"
  by (auto simp: hasDedup_def dedupKey_def is_ok_iff)

lemma hasDedup_default [simp]: "hasDedup [] f"
  by (simp add: hasDedup_def getDedupField_def)

lemma appendDedup_firstBy:
  "\<forall>f \<in> set fs. hasDedup field f \<Longrightarrow>
   \<exists>v. appendDedup field visited ret fs = (ret @ firstBy (dedupKey field) visited fs, v, None)"
proof (induction fs arbitrary: visited ret)
  case (Cons f fs)
  then show ?case
    using Cons.IH [of visited ret] Cons.IH [of "dedupKey field f # visited" "ret @ [f]"]
    by (simp add: getDedupField_ok)
qed simp

lemma visitedKeys_ok: "\<forall>f \<in> set fs. hasDedup field f \<Longrightarrow> visitedKeys field fs = Inr (map (dedupKey field) fs)"
  by (induction fs) (auto simp: getDedupField_ok)

lemma appendUnvisited_filter:
  "\<forall>f \<in> set ofs. hasDedup field f \<Longrightarrow>
   appendUnvisited field visited flows ofs = (flows @ filter (\<lambda>f. dedupKey field f \<notin> set visited) ofs, None)"
  by (induction ofs arbitrary: flows) (auto simp: getDedupField_ok)

lemma FlowSet_Dedup_firstBy:
  assumes "\<forall>f \<in> set (fs_Flows fs). hasDedup field f"
  shows "FlowSet_Dedup fs field = (fs\<lparr>fs_Flows := firstBy (dedupKey field) [] (fs_Flows fs)\<rparr>, None)"
  using appendDedup_firstBy [OF assms, of "[]" "[]"] by (auto simp: FlowSet_Dedup_def)

lemma mergeDedup_keys:
  assumes "\<forall>f \<in> set (fs_Flows fs) \<union> set (fs_Flows ofs). hasDedup field f"
  shows "mergeDedup fs ofs field =
    (fs\<lparr>fs_Flows := fs_Flows fs @ filter (\<lambda>f. dedupKey field f \<notin> dedupKey field ` set (fs_Flows fs)) (fs_Flows ofs)\<rparr>, None)"
  using assms by (auto simp: mergeDedup_def visitedKeys_ok appendUnvisited_filter)

section \<open>Sorting\<close>

text \<open>
  The order the comparison gives on the flows \<open>F\<close> that all have the field, as the order of a key.
\<close>

fun mergeBy :: "('a \<Rightarrow> 'a \<Rightarrow> bool) \<Rightarrow> 'a list \<Rightarrow> 'a list \<Rightarrow> 'a list" where
  "mergeBy le [] right = right"
| "mergeBy le left [] = left"
| "mergeBy le (l # left) (r # right) =
     (if le l r then l # mergeBy le left (r # right) else r # mergeBy le (l # left) right)"

lemma mset_mergeBy [simp]: "mset (mergeBy le l r) = mset l + mset r"
  by (induction le l r rule: mergeBy.induct) auto

lemma set_mergeBy [simp]: "set (mergeBy le l r) = set l \<union> set r"
  by (metis mset_mergeBy set_mset_mset set_mset_union)

lemma mergeBy_Nil [simp]: "mergeBy le l [] = l"
  by (cases l) auto

locale flow_order =
  fixes F :: "Flow set" and field :: string and key :: "Flow \<Rightarrow> 'k::linorder"
  assumes compare: "l \<in> F \<Longrightarrow> r \<in> F \<Longrightarrow> compareByField l r field = Inr (key l \<le> key r)"
begin

definition leBy :: "string \<Rightarrow> Flow \<Rightarrow> Flow \<Rightarrow> bool" where
  "leBy order l r \<longleftrightarrow> (if order = SortAscending then key l \<le> key r else key r < key l)"

lemma takesLeft_le:
  "mc_SortBy ctx = field \<Longrightarrow> l \<in> F \<Longrightarrow> r \<in> F \<Longrightarrow> takesLeft ctx l r = Inr (leBy (mc_SortOrder ctx) l r)"
  by (auto simp: takesLeft_def leBy_def compare not_le)

lemma mergeLoop_plain:
  "mc_SortBy ctx = field \<Longrightarrow> \<not> mc_Dedup ctx \<Longrightarrow> set left \<subseteq> F \<Longrightarrow> set right \<subseteq> F \<Longrightarrow>
   mergeLoop ctx visited ret left right = (ret @ mergeBy (leBy (mc_SortOrder ctx)) left right, None)"
  by (induction ctx visited ret left right rule: mergeLoop.induct)
    (auto simp: appendRest_def appendOne_def takesLeft_le)

lemma mergeLoop_dedup:
  "mc_SortBy ctx = field \<Longrightarrow> mc_Dedup ctx \<Longrightarrow> set left \<subseteq> F \<Longrightarrow> set right \<subseteq> F \<Longrightarrow>
   \<forall>f \<in> set left \<union> set right. hasDedup (mc_DedupBy ctx) f \<Longrightarrow>
   mergeLoop ctx visited ret left right =
     (ret @ firstBy (dedupKey (mc_DedupBy ctx)) visited (mergeBy (leBy (mc_SortOrder ctx)) left right), None)"
proof (induction ctx visited ret left right rule: mergeLoop.induct)
  case (1 ctx visited ret right)
  then show ?case using appendDedup_firstBy [of right "mc_DedupBy ctx" visited ret] by (auto simp: appendRest_def)
next
  case (2 ctx visited ret lf left)
  then show ?case
    using appendDedup_firstBy [of "lf # left" "mc_DedupBy ctx" visited ret]
    by (auto simp: appendRest_def simp del: appendDedup.simps)
next
  case (3 ctx visited ret lf left rf right)
  then show ?case by (auto simp: takesLeft_le appendOne_def getDedupField_ok)
qed

lemma sorted_asc: "sorted (map key l) \<Longrightarrow> sorted (map key r) \<Longrightarrow> sorted (map key (mergeBy (leBy SortAscending) l r))"
  by (induction "leBy SortAscending" l r rule: mergeBy.induct) (auto simp: leBy_def)

lemma sorted_desc:
  "order \<noteq> SortAscending \<Longrightarrow> sorted_wrt (\<lambda>x y. key y \<le> key x) l \<Longrightarrow> sorted_wrt (\<lambda>x y. key y \<le> key x) r \<Longrightarrow>
   sorted_wrt (\<lambda>x y. key y \<le> key x) (mergeBy (leBy order) l r)"
  by (induction "leBy order" l r rule: mergeBy.induct) (auto simp: leBy_def)

lemma stable_asc:
  "sorted (map key l) \<Longrightarrow>
   filter (\<lambda>x. k = key x) (mergeBy (leBy SortAscending) l r) = filter (\<lambda>x. k = key x) l @ filter (\<lambda>x. k = key x) r"
proof (induction "leBy SortAscending" l r rule: mergeBy.induct)
  case (3 l left r right)
  have "filter (\<lambda>x. key r = key x) left = []" if "key r < key l"
    using that "3.prems" by (auto simp: filter_empty_conv)
  with 3 show ?case by (auto simp: leBy_def not_le)
qed auto

lemma stable_desc:
  "order \<noteq> SortAscending \<Longrightarrow> sorted_wrt (\<lambda>x y. key y \<le> key x) r \<Longrightarrow>
   filter (\<lambda>x. k = key x) (mergeBy (leBy order) l r) = filter (\<lambda>x. k = key x) r @ filter (\<lambda>x. k = key x) l"
proof (induction "leBy order" l r rule: mergeBy.induct)
  case (3 l left r right)
  have "filter (\<lambda>x. key l = key x) right = []" if "key r < key l"
    using that "3.prems" by (auto simp: filter_empty_conv)
  with 3 show ?case by (auto simp: leBy_def)
qed auto

text \<open>The reference: the library's stable sort, reversed for the other order.\<close>

definition sortRef :: "string \<Rightarrow> Flow list \<Rightarrow> Flow list" where
  "sortRef order fs = (if order = SortAscending then sort_key key fs else rev (sort_key key fs))"

lemma set_sortRef [simp]: "set (sortRef order fs) = set fs"
  by (simp add: sortRef_def)

lemma stable_sort: "filter (\<lambda>x. k = key x) (sort_key key xs) = filter (\<lambda>x. k = key x) xs"
proof -
  have eq: "(\<lambda>x. k = key x) = (\<lambda>x. key x = k)" by auto
  show ?thesis unfolding eq by (rule sort_key_stable)
qed

lemma mergeBy_sortRef: "mergeBy (leBy order) (sortRef order a) (sortRef order b) = sortRef order (a @ b)"
proof (cases "order = SortAscending")
  case True
  have "sort_key key (a @ b) = mergeBy (leBy SortAscending) (sort_key key a) (sort_key key b)"
    by (rule properties_for_sort_key)
      (simp_all add: sorted_asc stable_asc stable_sort)
  then show ?thesis using True by (simp add: sortRef_def)
next
  case False
  let ?m = "mergeBy (leBy order) (rev (sort_key key a)) (rev (sort_key key b))"
  have desc: "sorted_wrt (\<lambda>x y. key y \<le> key x) (rev (sort_key key c))" for c
    using sorted_sort_key [of key c] by (simp add: sorted_wrt_rev sorted_map)
  have "sort_key key (a @ b) = rev ?m"
  proof (rule properties_for_sort_key)
    show "sorted (map key (rev ?m))"
      using sorted_desc [OF False desc desc] by (simp add: sorted_map sorted_wrt_rev)
  qed (simp_all add: rev_filter [symmetric] stable_desc [OF False desc] stable_sort)
  then show ?thesis using False by (simp add: sortRef_def rev_swap)
qed

lemma merged:
  "mc_SortBy ctx = field \<Longrightarrow> \<not> mc_Dedup ctx \<Longrightarrow> set left \<subseteq> F \<Longrightarrow> set right \<subseteq> F \<Longrightarrow>
   mergeSortedFlows left right ctx = (mergeBy (leBy (mc_SortOrder ctx)) left right, None)"
  by (simp add: mergeSortedFlows_def mergeLoop_plain)

lemma sortFlows_ref:
  "mc_SortBy ctx = field \<Longrightarrow> \<not> mc_Dedup ctx \<Longrightarrow> set f \<subseteq> F \<Longrightarrow> sortFlows f ctx = sortRef (mc_SortOrder ctx) f"
proof (induction f ctx rule: sortFlows.induct)
  case (1 f ctx)
  show ?case
  proof (cases "length f \<le> 1")
    case True
    then have "f = [] \<or> (\<exists>x. f = [x])" by (cases f) auto
    then show ?thesis by (auto simp: sortFlows.simps sortRef_def)
  next
    case False
    let ?m = "length f div 2"
    have sub: "set (take ?m f) \<subseteq> F" "set (drop ?m f) \<subseteq> F"
      using "1.prems"(3) by (auto dest: in_set_takeD in_set_dropD)
    have "sortFlows f ctx = mergeBy (leBy (mc_SortOrder ctx)) (sortRef (mc_SortOrder ctx) (take ?m f))
        (sortRef (mc_SortOrder ctx) (drop ?m f))"
      using False "1.IH"(1) [OF False refl "1.prems"(1,2) sub(1)] "1.IH"(2) [OF False refl "1.prems"(1,2) sub(2)]
        "1.prems" sub by (subst sortFlows.simps) (simp add: Let_def merged)
    also have "\<dots> = sortRef (mc_SortOrder ctx) f" by (simp add: mergeBy_sortRef)
    finally show ?thesis .
  qed
qed

lemma Sort_ref:
  "set (fs_Flows fs) \<subseteq> F \<Longrightarrow> fs_Flows (FlowSet_Sort fs order field) = sortRef order (fs_Flows fs)"
  using sortFlows_ref [of "sortContext order field" "fs_Flows fs"] by (simp add: FlowSet_Sort_def sortContext_def)

text \<open>Two sets sorted with the same context merge into the sorted set of all their flows.\<close>

lemma Merge_sorted:
  assumes "set a \<subseteq> F" "set b \<subseteq> F" "mc_SortBy ctx = field" "mc_Sort ctx" "\<not> mc_Dedup ctx"
    and "fs_Flows fs = sortRef (mc_SortOrder ctx) a" "fs_Flows ofs = sortRef (mc_SortOrder ctx) b"
  shows "\<exists>fs'. FlowSet_Merge fs ofs ctx = (fs', None) \<and> fs_Flows fs' = sortRef (mc_SortOrder ctx) (a @ b)"
  using assms by (simp add: FlowSet_Merge_def Let_def merged mergeBy_sortRef)

lemma Merge_sorted_dedup:
  assumes "set a \<subseteq> F" "set b \<subseteq> F" "mc_SortBy ctx = field" "mc_Sort ctx" "mc_Dedup ctx"
    and "\<forall>f \<in> set a \<union> set b. hasDedup (mc_DedupBy ctx) f"
    and "fs_Flows fs = sortRef (mc_SortOrder ctx) a" "fs_Flows ofs = sortRef (mc_SortOrder ctx) b"
  shows "\<exists>fs'. FlowSet_Merge fs ofs ctx = (fs', None) \<and>
    fs_Flows fs' = firstBy (dedupKey (mc_DedupBy ctx)) [] (sortRef (mc_SortOrder ctx) (a @ b))"
  using assms by (simp add: FlowSet_Merge_def Let_def mergeSortedFlows_def mergeLoop_dedup mergeBy_sortRef)

end

interpretation byLast: flow_order UNIV "[]" f_Last
  by unfold_locales (simp add: compareByField_def)

interpretation byInt64: flow_order "{f. field \<noteq> [] \<and> is_ok (Flow_GetFieldInt64 f field)}" field
    "\<lambda>f. value_or 0 (Flow_GetFieldInt64 f field)" for field
  by unfold_locales (auto simp: compareByField_def is_ok_iff)

interpretation byString: flow_order
    "{f. field \<noteq> [] \<and> \<not> is_ok (Flow_GetFieldInt64 f field) \<and> is_ok (Flow_GetFieldString f field)}" field
    "\<lambda>f. value_or [] (Flow_GetFieldString f field)" for field
  by unfold_locales (auto simp: compareByField_def is_ok_iff split: sum.split)

section \<open>Filtering\<close>

lemma addMatching_Flows [simp]: "fs_Flows (addMatching fs f) = fs_Flows fs @ [f]"
  by (simp add: addMatching_def Let_def)

lemma foldl_addMatching_Flows: "fs_Flows (foldl addMatching fs fl) = fs_Flows fs @ fl"
  by (induction fl arbitrary: fs) auto

lemma FlowSet_Filter_Flows:
  "fs_Flows (FlowSet_Filter env keys fs (Some q)) = filter (\<lambda>f. Eval env (flow_getter keys f) q) (fs_Flows fs)"
  by (simp add: FlowSet_Filter_def collectMatching_def foldl_addMatching_Flows NewFlowSet_def)

end
