(* ===== verification/Metrics.thy ===== *)
theory Metrics
  imports Flow_Fields "HOL-Library.Log_Nat"
begin

text \<open>
  The two implementations of the \<^verbatim>\<open>Metric\<close> interface of \<^verbatim>\<open>src/common/types.go\<close>:
  \<^verbatim>\<open>FlowMetric\<close> (\<^verbatim>\<open>src/flow/metrics.go\<close>) and \<^verbatim>\<open>InterfaceMetric\<close>
  (\<^verbatim>\<open>src/topology/metrics.go\<close>).  Counters are int64 and wrap; the ratios of \<^verbatim>\<open>Split\<close> are
  float64, modelled as rationals rounded to 53 significant bits, ties to even.  The exponent range
  is not bounded: a ratio of int64 values and its product with one stay far inside it.
\<close>

section \<open>Rounding\<close>

text \<open>The exponent of the most significant bit of a positive rational.\<close>

definition rat_exp :: "rat \<Rightarrow> int" where
  "rat_exp q =
     (let (n, d) = quotient_of q; k = int (floorlog 2 (nat n)) - int (floorlog 2 (nat d))
      in if 2 powi k \<le> q then k else k - 1)"

definition round_even :: "rat \<Rightarrow> int" where
  "round_even q =
     (let b = \<lfloor>q\<rfloor>; r = q - of_int b
      in if r < 1 / 2 then b else if r > 1 / 2 then b + 1 else if even b then b else b + 1)"

definition fl64 :: "rat \<Rightarrow> rat" where
  "fl64 q =
     (if q = 0 then 0
      else let u = 2 powi (rat_exp \<bar>q\<bar> - 52) in of_int (round_even (q / u)) * u)"

text \<open>\<^verbatim>\<open>int64(float64(x) * ratio)\<close> and \<^verbatim>\<open>float64(a) / float64(b)\<close>.\<close>

definition scale :: "rat \<Rightarrow> int \<Rightarrow> int" where
  "scale ratio x = float_to_int64 (fl64 (fl64 (of_int x) * ratio))"

definition fdiv :: "int \<Rightarrow> int \<Rightarrow> rat" where
  "fdiv a b = fl64 (fl64 (of_int a) / fl64 (of_int b))"

lemma rat_exp_lower:
  assumes "0 < q"
  shows "2 powi (rat_exp q) \<le> q"
proof -
  obtain n d where nd: "quotient_of q = (n, d)" by (cases "quotient_of q")
  have q: "q = of_int n / of_int d" and d: "0 < d"
    using quotient_of_div [OF nd] quotient_of_denom_pos [OF nd] by simp_all
  have n: "0 < n" using assms q d by (simp add: zero_less_divide_iff)
  let ?a = "floorlog 2 (nat n)" and ?b = "floorlog 2 (nat d)"
  have "nat d < 2 ^ ?b" "2 ^ (?a - 1) \<le> nat n" and a: "0 < ?a"
    using floorlog_bounds [of "nat d" 2] floorlog_bounds [of "nat n" 2] n d
    by (auto simp: floorlog_eq_zero_iff intro: gr0I)
  then have "d \<le> 2 ^ ?b" "2 ^ (?a - 1) \<le> n"
    using n d by (simp_all add: nat_less_iff le_nat_iff)
  then have bounds: "(of_int d :: rat) \<le> 2 ^ ?b" "2 ^ (?a - 1) \<le> (of_int n :: rat)"
    by (metis of_int_le_iff of_int_numeral of_int_power)+
  have "(2 :: rat) powi (int ?a - int ?b - 1) = 2 ^ (?a - 1) / 2 ^ ?b"
    using a by (simp add: power_int_diff power_diff)
  also have "\<dots> \<le> of_int n / of_int d"
    using bounds d n by (intro frac_le) simp_all
  finally have "(2 :: rat) powi (int ?a - int ?b - 1) \<le> q" using q by simp
  then show ?thesis by (auto simp: rat_exp_def nd Let_def)
qed

lemma round_even_le: "q \<le> of_int n \<Longrightarrow> round_even q \<le> n"
  by (auto simp: round_even_def Let_def) linarith+

lemma round_even_nonneg: "0 \<le> q \<Longrightarrow> 0 \<le> round_even q"
  by (auto simp: round_even_def Let_def)

lemma round_even_int [simp]: "round_even (of_int n) = n"
  by (simp add: round_even_def)

text \<open>Below 2^53 the unit of rounding is at most one: no integer is crossed.\<close>

lemma fl64_unit:
  assumes "0 < q" "q \<le> of_int x" "x < 2 ^ 53"
  obtains k where "(2 :: rat) powi (rat_exp q - 52) = 1 / 2 ^ k"
proof -
  have "(2 :: rat) powi (rat_exp q) < 2 powi 53"
  proof -
    have "(of_int x :: rat) < of_int (2 ^ 53)" using assms(3) by (simp only: of_int_less_iff)
    then show ?thesis using rat_exp_lower [OF assms(1)] assms(2) by simp
  qed
  then have "rat_exp q < 53"
    using power_int_increasing [of 53 "rat_exp q" "2 :: rat"] by (cases "rat_exp q < 53") simp_all
  then have "(2 :: rat) powi (rat_exp q - 52) = 1 / 2 ^ nat (52 - rat_exp q)"
    by (auto simp: power_int_def field_simps)
  then show ?thesis by (rule that)
qed

lemma fl64_le:
  assumes "0 \<le> q" "q \<le> of_int x" "x < 2 ^ 53"
  shows "0 \<le> fl64 q \<and> fl64 q \<le> of_int x"
proof (cases "q = 0")
  case False
  with assms(1) have pos: "0 < q" by simp
  obtain k where u: "(2 :: rat) powi (rat_exp q - 52) = 1 / 2 ^ k"
    using fl64_unit [OF pos assms(2,3)] .
  have fl: "fl64 q = of_int (round_even (q * 2 ^ k)) / 2 ^ k"
    using pos by (simp add: fl64_def Let_def u)
  have "q * 2 ^ k \<le> of_int (x * 2 ^ k)" using assms(2) by simp
  then have "round_even (q * 2 ^ k) \<le> x * 2 ^ k" by (rule round_even_le)
  then have "(of_int (round_even (q * 2 ^ k)) :: rat) \<le> of_int x * 2 ^ k"
    by (metis of_int_le_iff of_int_mult of_int_numeral of_int_power)
  moreover have "0 \<le> round_even (q * 2 ^ k)" using pos by (intro round_even_nonneg) simp
  ultimately show ?thesis by (simp add: fl divide_le_eq)
qed (use assms in \<open>simp add: fl64_def\<close>)

lemma fl64_exact:
  assumes "0 \<le> x" "x < 2 ^ 53"
  shows "fl64 (of_int x) = of_int x"
proof (cases "x = 0")
  case False
  with assms(1) have pos: "(0 :: rat) < of_int x" by simp
  obtain k where u: "(2 :: rat) powi (rat_exp (of_int x) - 52) = 1 / 2 ^ k"
    using fl64_unit [OF pos order_refl assms(2)] .
  have "round_even (of_int x * 2 ^ k) = x * 2 ^ k"
    by (metis of_int_mult of_int_numeral of_int_power round_even_int)
  then show ?thesis using pos by (simp add: fl64_def Let_def u)
qed (simp add: fl64_def)

lemma float_to_int64_between:
  assumes "0 \<le> q" "q \<le> of_int x" "is_int64 x"
  shows "0 \<le> float_to_int64 q \<and> float_to_int64 q \<le> x"
proof -
  have "0 \<le> \<lfloor>q\<rfloor>" "\<lfloor>q\<rfloor> \<le> x" using assms(1,2) by (simp_all add: floor_le_iff)
  then show ?thesis using assms by (simp add: float_to_int64_def is_int64_def)
qed

text \<open>A ratio of two durations, and a counter scaled by a ratio.\<close>

lemma fdiv_unit:
  assumes "0 \<le> a" "a \<le> b" "0 < b" "b < 2 ^ 53"
  shows "0 \<le> fdiv a b \<and> fdiv a b \<le> 1"
  using fl64_le [of "of_int a / of_int b" 1] assms by (simp add: fdiv_def fl64_exact)

lemma scale_between:
  assumes "0 \<le> ratio" "ratio \<le> 1" "0 \<le> x" "x < 2 ^ 53"
  shows "0 \<le> scale ratio x \<and> scale ratio x \<le> x"
proof -
  have "of_int x * ratio \<le> of_int x" using assms by (simp add: mult_left_le)
  then have "0 \<le> fl64 (of_int x * ratio)" "fl64 (of_int x * ratio) \<le> of_int x"
    using fl64_le [of "of_int x * ratio" x] assms by simp_all
  then show ?thesis
    using assms float_to_int64_between [of "fl64 (of_int x * ratio)" x]
    by (simp add: scale_def fl64_exact is_int64_def)
qed

section \<open>The Metric interface\<close>

text \<open>
  What \<^verbatim>\<open>Add\<close>, \<^verbatim>\<open>Sub\<close>, \<^verbatim>\<open>IsZero\<close> and \<^verbatim>\<open>applyRatio\<close> promise, over the list of the counters.
\<close>

locale metric =
  fixes counters :: "'m \<Rightarrow> int list"
    and interval :: "'m \<Rightarrow> int \<times> int"
    and Add :: "'m \<Rightarrow> 'm \<Rightarrow> 'm"
    and Sub :: "'m \<Rightarrow> 'm \<Rightarrow> 'm"
    and IsZero :: "'m \<Rightarrow> bool"
    and applyRatio :: "rat \<Rightarrow> 'm \<Rightarrow> 'm"
    and width :: nat
  assumes width: "length (counters m) = width"
    and Add_counters: "counters (Add m n) = map2 (\<lambda>x y. wrap64 (x + y)) (counters m) (counters n)"
    and Sub_counters: "counters (Sub m n) = map2 (\<lambda>x y. wrap64 (x - y)) (counters m) (counters n)"
    and Add_interval: "interval (Add m n) = interval m"
    and Sub_interval: "interval (Sub m n) = interval m"
    and IsZero_sum: "IsZero m \<longleftrightarrow> wrap64 (sum_list (counters m)) = 0"
    and ratio_counters: "counters (applyRatio r m) = map (scale r) (counters m)"
    and ratio_interval: "interval (applyRatio r m) = interval m"
begin

definition ok :: "'m \<Rightarrow> bool" where
  "ok m \<longleftrightarrow> (\<forall>x \<in> set (counters m). is_int64 x)"

lemma Add_commute: "counters (Add m n) = counters (Add n m)"
  by (simp add: Add_counters list_eq_iff_nth_eq width add.commute)

lemma Add_Sub: "ok m \<Longrightarrow> counters (Add n (Sub m n)) = counters m"
  by (simp add: ok_def Add_counters Sub_counters list_eq_iff_nth_eq width wrap64_add_sub)

lemma Sub_self: "counters (Sub m m) = replicate width 0"
  by (simp add: Sub_counters list_eq_iff_nth_eq width wrap64_def)

lemma Sub_self_IsZero: "IsZero (Sub m m)"
  by (simp add: IsZero_sum Sub_self wrap64_def sum_list_replicate)

lemma Add_zero: "counters n = replicate width 0 \<Longrightarrow> ok m \<Longrightarrow> counters (Add m n) = counters m"
  by (simp add: ok_def Add_counters list_eq_iff_nth_eq width)

text \<open>Counters that are not negative and whose sum fits: only then does the sum tell.\<close>

lemma IsZero_iff:
  assumes "\<forall>x \<in> set (counters m). 0 \<le> x" "sum_list (counters m) < 2 ^ 63"
  shows "IsZero m \<longleftrightarrow> (\<forall>x \<in> set (counters m). x = 0)"
proof -
  have "0 \<le> sum_list (counters m)" using assms(1) by (simp add: sum_list_nonneg)
  then have "is_int64 (sum_list (counters m))" using assms(2) by (simp add: is_int64_def)
  then have "IsZero m \<longleftrightarrow> sum_list (counters m) = 0" by (simp add: IsZero_sum)
  then show ?thesis using assms(1) by (simp add: sum_list_nonneg_eq_0_iff)
qed

lemma ratio_between:
  assumes "0 \<le> r" "r \<le> 1" "\<forall>x \<in> set (counters m). 0 \<le> x \<and> x < 2 ^ 53"
  shows "list_all2 (\<lambda>y x. 0 \<le> y \<and> y \<le> x) (counters (applyRatio r m)) (counters m)"
  using assms scale_between [OF assms(1,2)] by (auto simp: ratio_counters list_all2_conv_all_nth)

text \<open>What a part takes from a whole is the rest's: nothing is lost and nothing is negative.\<close>

lemma Sub_between:
  assumes "list_all2 (\<lambda>y x. 0 \<le> y \<and> y \<le> x) (counters n) (counters m)"
    and "\<forall>x \<in> set (counters m). 0 \<le> x \<and> x < 2 ^ 53"
  shows "counters (Sub m n) = map2 (-) (counters m) (counters n)"
proof (rule nth_equalityI)
  fix i assume "i < length (counters (Sub m n))"
  then have i: "i < width" by (simp add: width)
  then have "0 \<le> counters n ! i" "counters n ! i \<le> counters m ! i" "counters m ! i < 2 ^ 53"
    using assms by (auto simp: list_all2_conv_all_nth width)
  then show "counters (Sub m n) ! i = map2 (-) (counters m) (counters n) ! i"
    using i by (simp add: Sub_counters width is_int64_def)
qed (simp add: width)

end

section \<open>Flow metrics\<close>

definition FlowMetric_SetStart :: "FlowMetric \<Rightarrow> int \<Rightarrow> FlowMetric" where
  "FlowMetric_SetStart fm start = fm\<lparr>fm_Start := start\<rparr>"

definition FlowMetric_SetLast :: "FlowMetric \<Rightarrow> int \<Rightarrow> FlowMetric" where
  "FlowMetric_SetLast fm t = fm\<lparr>fm_Last := t\<rparr>"

text \<open>The round-trip time is not copied into the results.\<close>

definition FlowMetric_Add :: "FlowMetric \<Rightarrow> FlowMetric \<Rightarrow> FlowMetric" where
  "FlowMetric_Add fm f2 = zeroFlowMetric
     \<lparr>fm_ABBytes := wrap64 (fm_ABBytes fm + fm_ABBytes f2), fm_BABytes := wrap64 (fm_BABytes fm + fm_BABytes f2),
      fm_ABPackets := wrap64 (fm_ABPackets fm + fm_ABPackets f2),
      fm_BAPackets := wrap64 (fm_BAPackets fm + fm_BAPackets f2),
      fm_Start := fm_Start fm, fm_Last := fm_Last fm\<rparr>"

definition FlowMetric_Sub :: "FlowMetric \<Rightarrow> FlowMetric \<Rightarrow> FlowMetric" where
  "FlowMetric_Sub fm f2 = zeroFlowMetric
     \<lparr>fm_ABBytes := wrap64 (fm_ABBytes fm - fm_ABBytes f2), fm_BABytes := wrap64 (fm_BABytes fm - fm_BABytes f2),
      fm_ABPackets := wrap64 (fm_ABPackets fm - fm_ABPackets f2),
      fm_BAPackets := wrap64 (fm_BAPackets fm - fm_BAPackets f2),
      fm_Start := fm_Start fm, fm_Last := fm_Last fm\<rparr>"

definition FlowMetric_IsZero :: "FlowMetric \<Rightarrow> bool" where
  "FlowMetric_IsZero fm \<longleftrightarrow>
     wrap64 (fm_ABBytes fm + fm_ABPackets fm + fm_BABytes fm + fm_BAPackets fm) = 0"

definition FlowMetric_applyRatio :: "rat \<Rightarrow> FlowMetric \<Rightarrow> FlowMetric" where
  "FlowMetric_applyRatio ratio fm = zeroFlowMetric
     \<lparr>fm_ABBytes := scale ratio (fm_ABBytes fm), fm_ABPackets := scale ratio (fm_ABPackets fm),
      fm_BABytes := scale ratio (fm_BABytes fm), fm_BAPackets := scale ratio (fm_BAPackets fm),
      fm_Start := fm_Start fm, fm_Last := fm_Last fm\<rparr>"

text \<open>A part that is nil is \<open>None\<close>.\<close>

definition FlowMetric_Split :: "FlowMetric \<Rightarrow> int \<Rightarrow> FlowMetric option \<times> FlowMetric option" where
  "FlowMetric_Split fm cutAt =
     (if cutAt \<le> fm_Start fm then (None, Some fm)
      else if cutAt \<ge> fm_Last fm \<or> fm_Start fm = fm_Last fm then (Some fm, None)
      else let duration = wrap64 (fm_Last fm - fm_Start fm);
               ratio = fdiv (wrap64 (cutAt - fm_Start fm)) duration;
               m1 = FlowMetric_SetLast (FlowMetric_applyRatio ratio fm) cutAt;
               m2 = FlowMetric_SetStart (FlowMetric_Sub fm m1) cutAt
           in (Some m1, Some m2))"

definition flowCounters :: "FlowMetric \<Rightarrow> int list" where
  "flowCounters m = [fm_ABBytes m, fm_ABPackets m, fm_BABytes m, fm_BAPackets m]"

definition flowInterval :: "FlowMetric \<Rightarrow> int \<times> int" where
  "flowInterval m = (fm_Start m, fm_Last m)"

lemma flowCounters_set [simp]:
  "flowCounters (FlowMetric_SetStart m t) = flowCounters m" "flowCounters (FlowMetric_SetLast m t) = flowCounters m"
  "flowInterval (FlowMetric_SetStart m t) = (t, fm_Last m)" "flowInterval (FlowMetric_SetLast m t) = (fm_Start m, t)"
  by (simp_all add: flowCounters_def flowInterval_def FlowMetric_SetStart_def FlowMetric_SetLast_def)

interpretation flowM: metric flowCounters flowInterval FlowMetric_Add FlowMetric_Sub FlowMetric_IsZero
  FlowMetric_applyRatio 4
  by unfold_locales
    (simp_all add: flowCounters_def flowInterval_def FlowMetric_Add_def FlowMetric_Sub_def zeroFlowMetric_def
      FlowMetric_IsZero_def FlowMetric_applyRatio_def add.assoc)

text \<open>Inside the interval both parts are there; the second one is the rest of the first.\<close>

lemma FlowMetric_Split_inside:
  assumes "fm_Start fm < cutAt" "cutAt < fm_Last fm" "fm_Last fm - fm_Start fm < 2 ^ 53"
    and small: "\<forall>x \<in> set (flowCounters fm). 0 \<le> x \<and> x < 2 ^ 53"
    and int64: "is_int64 (fm_Start fm)" "is_int64 (fm_Last fm)"
  obtains m1 m2 where "FlowMetric_Split fm cutAt = (Some m1, Some m2)"
    and "flowInterval m1 = (fm_Start fm, cutAt)" "flowInterval m2 = (cutAt, fm_Last fm)"
    and "list_all2 (\<lambda>y x. 0 \<le> y \<and> y \<le> x) (flowCounters m1) (flowCounters fm)"
    and "flowCounters m2 = map2 (-) (flowCounters fm) (flowCounters m1)"
proof -
  let ?r = "fdiv (cutAt - fm_Start fm) (fm_Last fm - fm_Start fm)"
  have w: "wrap64 (fm_Last fm - fm_Start fm) = fm_Last fm - fm_Start fm"
    "wrap64 (cutAt - fm_Start fm) = cutAt - fm_Start fm"
    using assms by (simp_all add: is_int64_def)
  have r: "0 \<le> ?r \<and> ?r \<le> 1" using assms by (intro fdiv_unit) simp_all
  define m1 where "m1 = FlowMetric_SetLast (FlowMetric_applyRatio ?r fm) cutAt"
  define m2 where "m2 = FlowMetric_SetStart (FlowMetric_Sub fm m1) cutAt"
  have 1: "FlowMetric_Split fm cutAt = (Some m1, Some m2)"
    using assms(1,2) by (simp add: FlowMetric_Split_def Let_def m1_def m2_def w)
  have 2: "list_all2 (\<lambda>y x. 0 \<le> y \<and> y \<le> x) (flowCounters m1) (flowCounters fm)"
    using r flowM.ratio_between [OF _ _ small] by (simp add: m1_def)
  have 3: "flowCounters m2 = map2 (-) (flowCounters fm) (flowCounters m1)"
    using flowM.Sub_between [OF 2 small] by (simp add: m2_def)
  show ?thesis
    using 1 _ _ 2 3
    by (rule that)
      (simp_all add: m1_def m2_def FlowMetric_applyRatio_def FlowMetric_Sub_def FlowMetric_SetLast_def
        FlowMetric_SetStart_def flowInterval_def)
qed

end
