(* ===== verification/Flow_Table.thy ===== *)
theory Flow_Table
  imports Flow_Update Flow_Set Metrics
begin

text \<open>
  The flow table of \<^verbatim>\<open>src/flow/table.go\<close>.  The table maps hash keys to flows through the LRU cache of
  \<^verbatim>\<open>simplelru\<close>, which is a parameter: its operations are the record \<open>lru_ops\<close>, its documented
  behaviour the locale \<open>lru\<close>.  The cache holds pointers; a pointer is an index into the heap
  \<open>t_heap\<close> of the table, so that what the code changes through a pointer is changed for every
  holder of it.  What leaves the table (flows and statistics handed to the sender, expired external keys) is
  recorded in \<open>t_out\<close>, the flows as they were when sent.  \<open>None\<close> is a panic.  The goroutine of
  \<^verbatim>\<open>Run\<close> handles one event at a time: \<open>Run_event\<close> is its \<^verbatim>\<open>select\<close>.

  TCP reassembly (\<^verbatim>\<open>ReassembleTCP\<close>) and eBPF flows are left out.
\<close>

section \<open>The cache\<close>

record 'l lru_ops =
  lru_Get :: "nat \<Rightarrow> 'l \<Rightarrow> 'l \<times> nat option"
  lru_Peek :: "nat \<Rightarrow> 'l \<Rightarrow> nat option"
  lru_Add :: "nat \<Rightarrow> nat \<Rightarrow> 'l \<Rightarrow> 'l \<times> bool"
  lru_Remove :: "nat \<Rightarrow> 'l \<Rightarrow> 'l"
  lru_Keys :: "'l \<Rightarrow> nat list"
  lru_Len :: "'l \<Rightarrow> nat"

text \<open>
  The documented behaviour over the entries from the oldest to the newest: a look-up or an insertion
  makes its entry the newest, an insertion into a full cache evicts the oldest.
\<close>

locale lru =
  fixes ops :: "'l lru_ops" and invar :: "'l \<Rightarrow> bool" and entries :: "'l \<Rightarrow> (nat \<times> nat) list" and capacity :: nat
  assumes distinct_keys: "invar l \<Longrightarrow> distinct (map fst (entries l))"
    and bounded: "invar l \<Longrightarrow> length (entries l) \<le> capacity"
    and Get_miss: "invar l \<Longrightarrow> map_of (entries l) k = None \<Longrightarrow> lru_Get ops k l = (l, None)"
    and Get_hit: "invar l \<Longrightarrow> map_of (entries l) k = Some v \<Longrightarrow>
      \<exists>l'. lru_Get ops k l = (l', Some v) \<and> invar l' \<and> entries l' = filter (\<lambda>e. fst e \<noteq> k) (entries l) @ [(k, v)]"
    and Peek: "invar l \<Longrightarrow> lru_Peek ops k l = map_of (entries l) k"
    and Add_hit: "invar l \<Longrightarrow> map_of (entries l) k = Some w \<Longrightarrow>
      \<exists>l'. lru_Add ops k v l = (l', False) \<and> invar l' \<and> entries l' = filter (\<lambda>e. fst e \<noteq> k) (entries l) @ [(k, v)]"
    and Add_room: "invar l \<Longrightarrow> map_of (entries l) k = None \<Longrightarrow> length (entries l) < capacity \<Longrightarrow>
      \<exists>l'. lru_Add ops k v l = (l', False) \<and> invar l' \<and> entries l' = entries l @ [(k, v)]"
    and Add_full: "invar l \<Longrightarrow> map_of (entries l) k = None \<Longrightarrow> length (entries l) = capacity \<Longrightarrow>
      \<exists>l'. lru_Add ops k v l = (l', True) \<and> invar l' \<and> entries l' = tl (entries l) @ [(k, v)]"
    and Remove: "invar l \<Longrightarrow> invar (lru_Remove ops k l) \<and> entries (lru_Remove ops k l) = filter (\<lambda>e. fst e \<noteq> k) (entries l)"
    and Keys: "invar l \<Longrightarrow> lru_Keys ops l = map fst (entries l)"
    and Len: "invar l \<Longrightarrow> lru_Len ops l = length (entries l)"

text \<open>A cache that behaves so: the list of its entries.\<close>

definition list_lru :: "nat \<Rightarrow> (nat \<times> nat) list lru_ops" where
  "list_lru n =
     \<lparr>lru_Get = (\<lambda>k l. case map_of l k of None \<Rightarrow> (l, None)
                       | Some v \<Rightarrow> (filter (\<lambda>e. fst e \<noteq> k) l @ [(k, v)], Some v)),
      lru_Peek = (\<lambda>k l. map_of l k),
      lru_Add = (\<lambda>k v l. case map_of l k of
          Some _ \<Rightarrow> (filter (\<lambda>e. fst e \<noteq> k) l @ [(k, v)], False)
        | None \<Rightarrow> if length l < n then (l @ [(k, v)], False) else (tl l @ [(k, v)], True)),
      lru_Remove = (\<lambda>k l. filter (\<lambda>e. fst e \<noteq> k) l),
      lru_Keys = map fst, lru_Len = length\<rparr>"

definition list_lru_ok :: "nat \<Rightarrow> (nat \<times> nat) list \<Rightarrow> bool" where
  "list_lru_ok n l \<longleftrightarrow> distinct (map fst l) \<and> length l \<le> n"

lemma list_lru_ok_filter: "list_lru_ok n l \<Longrightarrow> list_lru_ok n (filter p l)"
  by (auto simp: list_lru_ok_def distinct_map_filter intro: order_trans [OF length_filter_le])

lemma list_lru_ok_move:
  assumes "list_lru_ok n l" "map_of l k = Some v"
  shows "list_lru_ok n (filter (\<lambda>e. fst e \<noteq> k) l @ [(k, w)])"
proof -
  have "length (filter (\<lambda>e. fst e \<noteq> k) l) < length l"
    using assms(2) by (intro length_filter_less [of "(k, v)"]) (auto dest: map_of_SomeD)
  then show ?thesis using assms(1) by (auto simp: list_lru_ok_def distinct_map_filter)
qed

lemma list_lru_ok_evict:
  assumes "list_lru_ok (Suc n) l" "map_of l k = None" "length l = Suc n"
  shows "list_lru_ok (Suc n) (tl l @ [(k, v)])"
proof -
  have "k \<notin> fst ` set l" using assms(2) by (simp add: map_of_eq_None_iff)
  then show ?thesis using assms by (cases l) (auto simp: list_lru_ok_def)
qed

lemma list_lru_ok_append:
  "list_lru_ok (Suc n) l \<Longrightarrow> map_of l k = None \<Longrightarrow> length l < Suc n \<Longrightarrow> list_lru_ok (Suc n) (l @ [(k, v)])"
  by (simp add: list_lru_ok_def map_of_eq_None_iff)

interpretation list_lru: lru "list_lru (Suc n)" "list_lru_ok (Suc n)" "\<lambda>l. l" "Suc n" for n
proof unfold_locales
qed (simp_all add: list_lru_def list_lru_ok_filter list_lru_ok_move list_lru_ok_evict list_lru_ok_append,
    simp_all add: list_lru_ok_def)

section \<open>State\<close>

record TableOpts =
  to_RawPacketLimit :: int
  to_ExtraTCPMetric :: bool
  to_IPDefrag :: bool
  to_LayerKeyMode :: LayerKeyMode
  to_ExtraLayers :: ExtraLayers

record Stats =
  s_CaptureID :: string
  s_FlowCount :: int
  s_FlowDropped :: int
  s_KernelFlowDropped :: int
  s_PacketsDropped :: int
  s_PacketsReceived :: int

definition zeroStats :: Stats where
  "zeroStats = \<lparr>s_CaptureID = [], s_FlowCount = 0, s_FlowDropped = 0, s_KernelFlowDropped = 0,
     s_PacketsDropped = 0, s_PacketsReceived = 0\<rparr>"

datatype table_output = SendFlows "(nat \<times> Flow) list" | SendStats Stats | ExpiredExtKey nat

datatype ServiceState = StoppedState | RunningState | StoppingState

record ('l, 's) Table =
  t_Opts :: TableOpts
  t_expiredExtKeyChan :: bool
  t_table :: 'l
  t_heap :: "Flow list"
  t_state :: ServiceState
  t_lastUpdate :: int
  t_updateVersion :: int
  t_lastExpire :: int
  t_ipDefragger :: "'s IPDefragger option"
  t_opts :: Opts
  t_appTimeout :: "(string, int) gomap"
  t_stats :: Stats
  t_uuids :: UUIDs
  t_out :: "table_output list"

datatype OperationType = ReplaceOperation | UpdateOperation

record Operation =
  op_Key :: nat
  op_Flow :: Flow
  op_Type :: OperationType

text \<open>\<open>appTimeouts\<close> are the configured seconds by application; \<open>l0\<close> is the new cache and \<open>r\<close>
  the reassembler of fragments.\<close>

definition NewTable ::
  "'l \<Rightarrow> 's reassembler \<Rightarrow> (string \<times> int) list \<Rightarrow> ApplicationPortMap \<Rightarrow> UUIDs \<Rightarrow> TableOpts \<Rightarrow> ('l, 's) Table" where
  "NewTable l0 r appTimeouts appPortMap uuids tableOpts =
     \<lparr>t_Opts = tableOpts, t_expiredExtKeyChan = False, t_table = l0, t_heap = [], t_state = StoppedState,
      t_lastUpdate = 0, t_updateVersion = 0, t_lastExpire = 0,
      t_ipDefragger = (if to_IPDefrag tableOpts then Some (NewIPDefragger r) else None),
      t_opts = \<lparr>o_TCPMetric = to_ExtraTCPMetric tableOpts, o_IPDefrag = to_IPDefrag tableOpts,
                o_LayerKeyMode = to_LayerKeyMode tableOpts, o_AppPortMap = Some appPortMap,
                o_ExtraLayers = to_ExtraLayers tableOpts\<rparr>,
      t_appTimeout = foldl (\<lambda>m (k, v). gm_set (ToUpper k) (wrap64 (1000 * v)) m) [] appTimeouts,
      t_stats = zeroStats, t_uuids = uuids, t_out = []\<rparr>"

definition flowAt :: "('l, 's) Table \<Rightarrow> nat \<Rightarrow> Flow" where
  "flowAt t r = t_heap t ! r"

definition setFlow :: "nat \<Rightarrow> Flow \<Rightarrow> ('l, 's) Table \<Rightarrow> ('l, 's) Table" where
  "setFlow r f t = t\<lparr>t_heap := (t_heap t)[r := f]\<rparr>"

definition allocFlow :: "Flow \<Rightarrow> ('l, 's) Table \<Rightarrow> ('l, 's) Table \<times> nat" where
  "allocFlow f t = (t\<lparr>t_heap := t_heap t @ [f]\<rparr>, length (t_heap t))"

definition emit :: "table_output \<Rightarrow> ('l, 's) Table \<Rightarrow> ('l, 's) Table" where
  "emit x t = t\<lparr>t_out := t_out t @ [x]\<rparr>"

section \<open>Queries\<close>

record SearchQuery =
  sq_Filter :: "Filter option"
  sq_PaginationRange :: "Range option"
  sq_Sort :: bool
  sq_Dedup :: bool
  sq_DedupBy :: string
  sq_SortBy :: string
  sq_SortOrder :: string

text \<open>The flows behind the keys; \<open>None\<close> when a key is not in the cache (the type assertion panics).\<close>

fun peekAll :: "'l lru_ops \<Rightarrow> ('l, 's) Table \<Rightarrow> nat list \<Rightarrow> nat list option" where
  "peekAll ops t [] = Some []"
| "peekAll ops t (k # ks) = do { r \<leftarrow> lru_Peek ops k (t_table t); rs \<leftarrow> peekAll ops t ks; Some (r # rs) }"

definition getFlows ::
  "'l lru_ops \<Rightarrow> regex_env \<Rightarrow> string list \<Rightarrow> ('l, 's) Table \<Rightarrow> SearchQuery option \<Rightarrow> FlowSet option" where
  "getFlows ops env keys t query =
     do { rs \<leftarrow> peekAll ops t (lru_Keys ops (t_table t));
          let flows = map (flowAt t) rs;
          (case query of
             None \<Rightarrow> Some (collectMatching (\<lambda>f. True) flows)
           | Some q \<Rightarrow>
               (let fs = collectMatching
                      (\<lambda>f. case sq_Filter q of None \<Rightarrow> True | Some flt \<Rightarrow> Eval env (flow_getter keys f) flt) flows;
                    fs = (if sq_Sort q then FlowSet_Sort fs (sq_SortOrder q) (sq_SortBy q) else fs);
                    fs = (if sq_Dedup q then fst (FlowSet_Dedup fs (sq_DedupBy q)) else fs)
                in (case sq_PaginationRange q of
                      None \<Rightarrow> Some fs
                    | Some rng \<Rightarrow> FlowSet_Slice fs (From rng) (To rng)))) }"

text \<open>\<^verbatim>\<open>onQuery\<close> before the reply is marshalled; another type of query gets no answer.\<close>

definition onQuery ::
  "'l lru_ops \<Rightarrow> regex_env \<Rightarrow> string list \<Rightarrow> ('l, 's) Table \<Rightarrow> string \<Rightarrow> SearchQuery option \<Rightarrow> FlowSet option option" where
  "onQuery ops env keys t typ query =
     (if typ = ''SearchQuery'' then map_option Some (getFlows ops env keys t query) else Some None)"

section \<open>Entering flows\<close>

definition dropStat :: "bool \<Rightarrow> ('l, 's) Table \<Rightarrow> ('l, 's) Table" where
  "dropStat evicted t =
     (if evicted then t\<lparr>t_stats := (t_stats t)\<lparr>s_FlowDropped := wrap64 (s_FlowDropped (t_stats t) + 1)\<rparr>\<rparr> else t)"

definition addFlow :: "'l lru_ops \<Rightarrow> nat \<Rightarrow> nat \<Rightarrow> ('l, 's) Table \<Rightarrow> ('l, 's) Table" where
  "addFlow ops key r t =
     (let (l, evicted) = lru_Add ops key r (t_table t) in dropStat evicted (t\<lparr>t_table := l\<rparr>))"

definition getOrCreateFlow :: "'l lru_ops \<Rightarrow> nat \<Rightarrow> ('l, 's) Table \<Rightarrow> ('l, 's) Table \<times> nat \<times> bool" where
  "getOrCreateFlow ops key t =
     (case lru_Get ops key (t_table t) of
        (l, Some r) \<Rightarrow> (t\<lparr>t_table := l\<rparr>, r, False)
      | (l, None) \<Rightarrow>
          (let (t, r) = allocFlow NewFlow (t\<lparr>t_table := l\<rparr>) in (addFlow ops key r t, r, True)))"

definition replaceFlow :: "'l lru_ops \<Rightarrow> nat \<Rightarrow> nat \<Rightarrow> ('l, 's) Table \<Rightarrow> ('l, 's) Table \<times> nat option" where
  "replaceFlow ops key r t =
     (let (l, prev) = lru_Get ops key (t_table t) in (addFlow ops key r (t\<lparr>t_table := l\<rparr>), prev))"

section \<open>Update and expiry\<close>

definition updateMetric :: "int \<Rightarrow> int \<Rightarrow> Flow \<Rightarrow> Flow" where
  "updateMetric start fin f =
     (let start = (if f_LastUpdateMetric f = None then f_Start f else start);
          m = f_Metric f; lm = st_lastMetric (f_state f)
      in f\<lparr>f_LastUpdateMetric := Some (m
            \<lparr>fm_ABPackets := wrap64 (fm_ABPackets m - fm_ABPackets lm), fm_ABBytes := wrap64 (fm_ABBytes m - fm_ABBytes lm),
             fm_BAPackets := wrap64 (fm_BAPackets m - fm_BAPackets lm), fm_BABytes := wrap64 (fm_BABytes m - fm_BABytes lm),
             fm_Start := start, fm_Last := fin\<rparr>)\<rparr>)"

text \<open>The loop of \<^verbatim>\<open>expire\<close> over the keys, with the flows expired so far.\<close>

definition expireFlow :: "('l, 's) Table \<Rightarrow> Flow \<Rightarrow> Flow" where
  "expireFlow t f =
     (let f = (if st_updateVersion (f_state f) > t_updateVersion t
               then updateMetric (t_lastUpdate t) (f_Last f) f else f)
      in if f_FinishType f = NOT_FINISHED then f\<lparr>f_FinishType := TIMEOUT\<rparr> else f)"

fun expireLoop ::
  "'l lru_ops \<Rightarrow> int \<Rightarrow> nat list \<Rightarrow> nat list \<Rightarrow> ('l, 's) Table \<Rightarrow> (('l, 's) Table \<times> nat list) option" where
  "expireLoop ops before [] expired t = Some (t, expired)"
| "expireLoop ops before (k # ks) expired t =
     do { r \<leftarrow> lru_Peek ops k (t_table t);
          let f = flowAt t r;
          if f_Last f < before
          then expireLoop ops before ks (if f_FinishType f = NOT_FINISHED then expired @ [r] else expired)
                 (setFlow r (expireFlow t f) (t\<lparr>t_table := lru_Remove ops k (t_table t)\<rparr>))
          else expireLoop ops before ks expired t }"

definition sendFlows :: "nat list \<Rightarrow> ('l, 's) Table \<Rightarrow> ('l, 's) Table" where
  "sendFlows rs t = emit (SendFlows (map (\<lambda>r. (r, flowAt t r)) rs)) t"

definition sendExtKeys :: "nat list \<Rightarrow> ('l, 's) Table \<Rightarrow> ('l, 's) Table" where
  "sendExtKeys rs t =
     (if t_expiredExtKeyChan t
      then fold (\<lambda>k. emit (ExpiredExtKey k)) (List.map_filter (\<lambda>r. st_extKey (f_state (flowAt t r))) rs) t
      else t)"

definition expire :: "'l lru_ops \<Rightarrow> int \<Rightarrow> ('l, 's) Table \<Rightarrow> ('l, 's) Table option" where
  "expire ops before t =
     do { (t, expired) \<leftarrow> expireLoop ops before (lru_Keys ops (t_table t)) [] t;
          Some (sendExtKeys expired (sendFlows expired t)) }"

definition HoldTimeoutMilliseconds :: int where
  "HoldTimeoutMilliseconds = 15000"

definition appTimeoutOf :: "('l, 's) Table \<Rightarrow> Flow \<Rightarrow> int" where
  "appTimeoutOf t f = (case map_of (t_appTimeout t) (f_Application f) of Some v \<Rightarrow> v | None \<Rightarrow> 0)"

definition resetUpdateMetric :: "int \<Rightarrow> int \<Rightarrow> Flow \<Rightarrow> Flow" where
  "resetUpdateMetric start fin f =
     f\<lparr>f_LastUpdateMetric := Some (case f_LastUpdateMetric f of
         Some m \<Rightarrow> m\<lparr>fm_ABBytes := 0, fm_ABPackets := 0, fm_BABytes := 0, fm_BAPackets := 0, fm_Start := start, fm_Last := fin\<rparr>
       | None \<Rightarrow> zeroFlowMetric\<lparr>fm_Start := start, fm_Last := fin\<rparr>)\<rparr>"

definition rememberMetric :: "Flow \<Rightarrow> Flow" where
  "rememberMetric f = f\<lparr>f_state := (f_state f)\<lparr>st_lastMetric := f_Metric f\<rparr>\<rparr>"

definition appTimedOut :: "int \<Rightarrow> ('l, 's) Table \<Rightarrow> Flow \<Rightarrow> bool" where
  "appTimedOut updateTime t f \<longleftrightarrow>
     wrap64 (updateTime - f_Last f) > appTimeoutOf t f \<and> appTimeoutOf t f > 0"

text \<open>One flow of an update: the flow, whether it is sent, and whether it leaves the table.\<close>

definition updateFlow :: "int \<Rightarrow> int \<Rightarrow> ('l, 's) Table \<Rightarrow> Flow \<Rightarrow> Flow \<times> bool \<times> bool" where
  "updateFlow updateFrom updateTime t f =
     (let (f, sent, gone) =
            (if st_updateVersion (f_state f) > t_updateVersion t
             then (updateMetric updateFrom updateTime f, True, False)
             else if appTimedOut updateTime t f then (f\<lparr>f_FinishType := TIMEOUT\<rparr>, True, True)
             else (resetUpdateMetric updateFrom updateTime f, False, False));
          f = rememberMetric f
      in (f, sent, gone \<or> (f_FinishType f \<noteq> NOT_FINISHED \<and>
            wrap64 (updateTime - f_Last f) \<ge> HoldTimeoutMilliseconds)))"

fun updateLoop ::
  "'l lru_ops \<Rightarrow> int \<Rightarrow> int \<Rightarrow> nat list \<Rightarrow> nat list \<Rightarrow> ('l, 's) Table \<Rightarrow> (('l, 's) Table \<times> nat list) option" where
  "updateLoop ops updateFrom updateTime [] updated t = Some (t, updated)"
| "updateLoop ops updateFrom updateTime (k # ks) updated t =
     do { r \<leftarrow> lru_Peek ops k (t_table t);
          let (f, sent, gone) = updateFlow updateFrom updateTime t (flowAt t r);
          updateLoop ops updateFrom updateTime ks (if sent then updated @ [r] else updated)
            (setFlow r f (if gone then t\<lparr>t_table := lru_Remove ops k (t_table t)\<rparr> else t)) }"

definition clearRaw :: "nat list \<Rightarrow> ('l, 's) Table \<Rightarrow> ('l, 's) Table" where
  "clearRaw rs t =
     (if to_RawPacketLimit (t_Opts t) > 0
      then fold (\<lambda>r t. setFlow r ((flowAt t r)\<lparr>f_LastRawPackets := []\<rparr>) t) rs t else t)"

definition update :: "'l lru_ops \<Rightarrow> int \<Rightarrow> int \<Rightarrow> ('l, 's) Table \<Rightarrow> ('l, 's) Table option" where
  "update ops updateFrom updateTime t =
     do { (t, updated) \<leftarrow> updateLoop ops updateFrom updateTime (lru_Keys ops (t_table t)) [] t;
          Some (if updated = [] then t else clearRaw updated (sendFlows updated t)) }"

definition updateAt :: "'l lru_ops \<Rightarrow> int \<Rightarrow> ('l, 's) Table \<Rightarrow> ('l, 's) Table option" where
  "updateAt ops now t =
     map_option (\<lambda>t. t\<lparr>t_lastUpdate := UnixMillis now, t_updateVersion := wrap64 (t_updateVersion t + 1)\<rparr>)
       (update ops (t_lastUpdate t) (UnixMillis now) t)"

definition expireNow :: "'l lru_ops \<Rightarrow> ('l, 's) Table \<Rightarrow> ('l, 's) Table option" where
  "expireNow ops t = expire ops (2 ^ 63 - 1) t"

definition expireAt :: "'l lru_ops \<Rightarrow> int \<Rightarrow> ('l, 's) Table \<Rightarrow> ('l, 's) Table option" where
  "expireAt ops now t = map_option (\<lambda>t. t\<lparr>t_lastExpire := UnixMillis now\<rparr>) (expire ops (t_lastExpire t) t)"

section \<open>Packets\<close>

definition capturePacket :: "int \<Rightarrow> Packet \<Rightarrow> int \<Rightarrow> Flow \<Rightarrow> Flow" where
  "capturePacket limit p ts f =
     (if limit \<noteq> 0 \<and> f_RawPacketsCaptured f < limit
      then (let n = wrap64 (f_RawPacketsCaptured f + 1)
            in f\<lparr>f_RawPacketsCaptured := n,
                 f_LastRawPackets := f_LastRawPackets f @
                   [\<lparr>raw_Timestamp = UnixMillis ts, raw_Index = n, raw_Data = p_Data p,
                     raw_LinkType = value_or 0 (Flow_LinkType f)\<rparr>]\<rparr>)
      else f)"

definition stampFlow :: "int \<Rightarrow> Flow \<Rightarrow> Flow" where
  "stampFlow version f =
     f\<lparr>f_state := (f_state f)\<lparr>st_ipv4 := None, st_ipv6 := None, st_updateVersion := wrap64 (version + 1)\<rparr>\<rparr>"

definition packetToFlow ::
  "xxhash \<Rightarrow> gopacket \<Rightarrow> 'l lru_ops \<Rightarrow> Packet \<Rightarrow> string \<Rightarrow> ('l, 's) Table \<Rightarrow> (('l, 's) Table \<times> nat) option" where
  "packetToFlow xxh gp ops p parentUUID t =
     do { keys \<leftarrow> Keys xxh gp p parentUUID (t_opts t);
          let (t, r, new) = getOrCreateFlow ops (fst keys) t;
          f \<leftarrow> (if new then initFromPacket xxh gp keys p parentUUID (t_uuids t) (t_opts t) (flowAt t r)
                else Flow_Update gp p (t_opts t) (flowAt t r));
          ts \<leftarrow> timestamp p;
          Some (setFlow r (capturePacket (to_RawPacketLimit (t_Opts t)) p ts (stampFlow (t_updateVersion t) f)) t, r) }"

fun processPackets ::
  "xxhash \<Rightarrow> gopacket \<Rightarrow> 'l lru_ops \<Rightarrow> string \<Rightarrow> Packet list \<Rightarrow> ('l, 's) Table \<Rightarrow> ('l, 's) Table option" where
  "processPackets xxh gp ops parentUUID [] t = Some t"
| "processPackets xxh gp ops parentUUID (p # ps) t =
     do { (t, r) \<leftarrow> packetToFlow xxh gp ops p parentUUID t;
          processPackets xxh gp ops (f_UUID (flowAt t r)) ps t }"

definition processPacketSeq ::
  "xxhash \<Rightarrow> gopacket \<Rightarrow> 'l lru_ops \<Rightarrow> Packet list \<Rightarrow> ('l, 's) Table \<Rightarrow> ('l, 's) Table option" where
  "processPacketSeq xxh gp ops ps t = processPackets xxh gp ops [] ps t"

section \<open>Flow operations\<close>

definition updateTCPFlagTime :: "int \<Rightarrow> int \<Rightarrow> int" where
  "updateTCPFlagTime prev now = (if prev \<noteq> 0 then prev else now)"

definition mergeTCPMetric :: "TCPMetric \<Rightarrow> TCPMetric \<Rightarrow> TCPMetric" where
  "mergeTCPMetric m o' = zeroTCPMetric
     \<lparr>tm_ABSynStart := updateTCPFlagTime (tm_ABSynStart m) (tm_ABSynStart o'),
      tm_BASynStart := updateTCPFlagTime (tm_BASynStart m) (tm_BASynStart o'),
      tm_ABFinStart := updateTCPFlagTime (tm_ABFinStart m) (tm_ABFinStart o'),
      tm_BAFinStart := updateTCPFlagTime (tm_BAFinStart m) (tm_BAFinStart o'),
      tm_ABRstStart := updateTCPFlagTime (tm_ABRstStart m) (tm_ABRstStart o'),
      tm_BARstStart := updateTCPFlagTime (tm_BARstStart m) (tm_BARstStart o')\<rparr>"

text \<open>Panics when the flow has TCP metrics and the operation's has none.\<close>

definition updateFromOp :: "Flow \<Rightarrow> Flow \<Rightarrow> Flow option" where
  "updateFromOp g f =
     (let m = f_Metric f; om = f_Metric g;
          f = f\<lparr>f_Metric := m\<lparr>fm_ABBytes := wrap64 (fm_ABBytes m + fm_ABBytes om),
                              fm_BABytes := wrap64 (fm_BABytes m + fm_BABytes om),
                              fm_ABPackets := wrap64 (fm_ABPackets m + fm_ABPackets om),
                              fm_BAPackets := wrap64 (fm_BAPackets m + fm_BAPackets om)\<rparr>,
                 f_Last := f_Last g\<rparr>
      in do { f \<leftarrow> (case (f_Transport f, f_TCPMetric f) of
                       (Some t, Some tm) \<Rightarrow>
                         if tl_Protocol t = FP_TCP
                         then map_option (\<lambda>o'. f\<lparr>f_TCPMetric := Some (mergeTCPMetric tm o')\<rparr>) (f_TCPMetric g)
                         else Some f
                     | _ \<Rightarrow> Some f);
              Some (if fm_RTT (f_Metric f) = 0 \<and> fm_ABPackets (f_Metric f) > 0 \<and> fm_BAPackets (f_Metric f) > 0
                    then f\<lparr>f_Metric := (f_Metric f)\<lparr>fm_RTT := wrap64 (f_Last f - f_Start f)\<rparr>\<rparr> else f) })"

definition processFlowOP :: "'l lru_ops \<Rightarrow> Operation \<Rightarrow> ('l, 's) Table \<Rightarrow> ('l, 's) Table option" where
  "processFlowOP ops op t =
     (case op_Type op of
        ReplaceOperation \<Rightarrow>
          (let (t, r) = allocFlow (op_Flow op) t;
               (t, prev) = replaceFlow ops (op_Key op) r t
           in case prev of
                None \<Rightarrow> Some t
              | Some q \<Rightarrow>
                  Some (setFlow r ((flowAt t r)
                    \<lparr>f_LastUpdateMetric := f_LastUpdateMetric (flowAt t q),
                     f_state := (f_state (flowAt t q))\<lparr>st_updateVersion := wrap64 (t_updateVersion t + 1)\<rparr>\<rparr>) t))
      | UpdateOperation \<Rightarrow>
          (case lru_Get ops (op_Key op) (t_table t) of
             (l, None) \<Rightarrow> Some (t\<lparr>t_table := l\<rparr>)
           | (l, Some r) \<Rightarrow>
               map_option (\<lambda>f. setFlow r f (t\<lparr>t_table := l\<rparr>)) (updateFromOp (op_Flow op) (flowAt t r))))"

section \<open>The event loop\<close>

datatype event =
    ExpireTick int
  | UpdateTick int
  | Flush
  | PacketSeq "Packet list"
  | FlowOp Operation
  | CtTick int
  | AddStats Stats
  | StatsTick

definition ctDuration :: int where
  "ctDuration = 30000000000"

definition addStats :: "Stats \<Rightarrow> Stats \<Rightarrow> Stats" where
  "addStats s u = s\<lparr>s_KernelFlowDropped := wrap64 (s_KernelFlowDropped s + s_KernelFlowDropped u),
     s_PacketsReceived := wrap64 (s_PacketsReceived s + s_PacketsReceived u),
     s_PacketsDropped := wrap64 (s_PacketsDropped s + s_PacketsDropped u)\<rparr>"

fun Run_event ::
  "xxhash \<Rightarrow> gopacket \<Rightarrow> 'l lru_ops \<Rightarrow> event \<Rightarrow> ('l, 's) Table \<Rightarrow> ('l, 's) Table option" where
  "Run_event xxh gp ops (ExpireTick now) t = expireAt ops now t"
| "Run_event xxh gp ops (UpdateTick now) t = updateAt ops now t"
| "Run_event xxh gp ops Flush t = expireNow ops t"
| "Run_event xxh gp ops (PacketSeq ps) t = processPacketSeq xxh gp ops ps t"
| "Run_event xxh gp ops (FlowOp op) t = processFlowOP ops op t"
| "Run_event xxh gp ops (CtTick now) t =
     Some (t\<lparr>t_ipDefragger := map_option (\<lambda>d. IPDefragger_FlushOlderThan d (now - ctDuration)) (t_ipDefragger t)\<rparr>)"
| "Run_event xxh gp ops (AddStats s) t = Some (t\<lparr>t_stats := addStats (t_stats t) s\<rparr>)"
| "Run_event xxh gp ops StatsTick t =
     Some ((emit (SendStats ((t_stats t)\<lparr>s_CaptureID := u_CaptureID (t_uuids t), s_FlowCount := int (lru_Len ops (t_table t))\<rparr>)) t)
       \<lparr>t_stats := zeroStats\<rparr>)"

fun Run :: "xxhash \<Rightarrow> gopacket \<Rightarrow> 'l lru_ops \<Rightarrow> event list \<Rightarrow> ('l, 's) Table \<Rightarrow> ('l, 's) Table option" where
  "Run xxh gp ops [] t = Some t"
| "Run xxh gp ops (e # es) t = do { t \<leftarrow> Run_event xxh gp ops e t; Run xxh gp ops es t }"

text \<open>\<^verbatim>\<open>Stop\<close>: a running table first handles the packets and then the operations still in its
  channels; the flows left are expired in any case.\<close>

definition Stop ::
  "xxhash \<Rightarrow> gopacket \<Rightarrow> 'l lru_ops \<Rightarrow> Packet list list \<Rightarrow> Operation list \<Rightarrow> ('l, 's) Table \<Rightarrow> ('l, 's) Table option" where
  "Stop xxh gp ops packets operations t =
     do { t \<leftarrow> (if t_state t = RunningState
                 then Run xxh gp ops (map PacketSeq packets @ map FlowOp operations) (t\<lparr>t_state := StoppingState\<rparr>)
                 else Some t);
          expireNow ops t }"

text \<open>\<^verbatim>\<open>FeedWithGoPacket\<close> and \<^verbatim>\<open>FeedWithSFlowSample\<close>: the packet sequences put on the channel.\<close>

definition FeedWithGoPacket ::
  "gopacket \<Rightarrow> (bytes \<Rightarrow> bool) option \<Rightarrow> GoPacket \<Rightarrow> ('l, 's) Table \<Rightarrow> (('l, 's) Table \<times> Packet list list) option" where
  "FeedWithGoPacket gp bpf packet t =
     map_option (\<lambda>(d, ps). (t\<lparr>t_ipDefragger := d\<rparr>, if ps = [] then [] else [ps]))
       (PacketSeqFromGoPacket gp packet 0 bpf (t_ipDefragger t))"

definition FeedWithSFlowSample ::
  "gopacket \<Rightarrow> (bytes \<Rightarrow> bool) option \<Rightarrow> int \<Rightarrow> sflow_record list \<Rightarrow> ('l, 's) Table
   \<Rightarrow> (('l, 's) Table \<times> Packet list list) option" where
  "FeedWithSFlowSample gp bpf now sample t =
     map_option (\<lambda>(d, pss). (t\<lparr>t_ipDefragger := d\<rparr>, pss))
       (PacketSeqFromSFlowSample gp now sample bpf (t_ipDefragger t))"

text \<open>\<^verbatim>\<open>Start\<close> and the prologue of \<^verbatim>\<open>Run\<close>: the table is running and reports expired external keys
  when it was given a channel.\<close>

definition Start :: "bool \<Rightarrow> ('l, 's) Table \<Rightarrow> ('l, 's) Table" where
  "Start extFlowExp t = t\<lparr>t_expiredExtKeyChan := extFlowExp, t_state := RunningState\<rparr>"

text \<open>The loop answers one query after another; a table that is not running has no answer.\<close>

definition Query ::
  "'l lru_ops \<Rightarrow> regex_env \<Rightarrow> string list \<Rightarrow> ('l, 's) Table \<Rightarrow> string \<Rightarrow> SearchQuery option \<Rightarrow> FlowSet option option" where
  "Query ops env keys t typ query =
     (if t_state t = RunningState then onQuery ops env keys t typ query else Some None)"

definition Table_IPDefragger :: "('l, 's) Table \<Rightarrow> 's IPDefragger option" where
  "Table_IPDefragger t = (if to_IPDefrag (t_Opts t) then t_ipDefragger t else None)"

end
