(* ===== verification/Flow_Table_Facts.thy ===== *)
theory Flow_Table_Facts
  imports Flow_Table
begin

text \<open>
  What the operations of the flow table do, over any cache with the behaviour of \<^verbatim>\<open>simplelru\<close> (the
  locale \<open>lru\<close>): updates and expiry as one sweep over the entries, the well-formedness of the table,
  and the ledger of the metrics that were sent.
\<close>

section \<open>Sweeps over the entries\<close>

text \<open>Both loops visit every entry once: they change its flow, may collect it and may remove it.\<close>

fun sweep ::
  "'l lru_ops \<Rightarrow> (Flow \<Rightarrow> Flow \<times> bool \<times> bool) \<Rightarrow> nat list \<Rightarrow> nat list \<Rightarrow> ('l, 's) Table
   \<Rightarrow> (('l, 's) Table \<times> nat list) option" where
  "sweep ops g [] acc t = Some (t, acc)"
| "sweep ops g (k # ks) acc t =
     do { r \<leftarrow> lru_Peek ops k (t_table t);
          let (f, sent, gone) = g (flowAt t r);
          sweep ops g ks (if sent then acc @ [r] else acc)
            (setFlow r f (if gone then t\<lparr>t_table := lru_Remove ops k (t_table t)\<rparr> else t)) }"

abbreviation (input) g_flow :: "Flow \<times> bool \<times> bool \<Rightarrow> Flow" where "g_flow x \<equiv> fst x"
abbreviation (input) g_sent :: "Flow \<times> bool \<times> bool \<Rightarrow> bool" where "g_sent x \<equiv> fst (snd x)"
abbreviation (input) g_gone :: "Flow \<times> bool \<times> bool \<Rightarrow> bool" where "g_gone x \<equiv> snd (snd x)"

definition expireStep :: "int \<Rightarrow> ('l, 's) Table \<Rightarrow> Flow \<Rightarrow> Flow \<times> bool \<times> bool" where
  "expireStep before t f =
     (if f_Last f < before then (expireFlow t f, f_FinishType f = NOT_FINISHED, True) else (f, False, False))"

text \<open>What a step reads of the table does not change during the sweep.\<close>

lemma table_fields [simp]:
  "t_updateVersion (setFlow r f t) = t_updateVersion t" "t_lastUpdate (setFlow r f t) = t_lastUpdate t"
  "t_appTimeout (setFlow r f t) = t_appTimeout t" "t_table (setFlow r f t) = t_table t"
  "t_out (setFlow r f t) = t_out t" "length (t_heap (setFlow r f t)) = length (t_heap t)"
  "t_opts (setFlow r f t) = t_opts t" "t_Opts (setFlow r f t) = t_Opts t"
  by (simp_all add: setFlow_def)

lemma setFlow_same [simp]: "setFlow r (flowAt t r) t = t"
  by (simp add: setFlow_def flowAt_def)

lemma flowAt_setFlow: "r < length (t_heap t) \<Longrightarrow> flowAt (setFlow r f t) q = (if q = r then f else flowAt t q)"
  by (simp add: flowAt_def setFlow_def)

lemma flowAt_table [simp]: "flowAt (t\<lparr>t_table := l\<rparr>) r = flowAt t r"
  by (simp add: flowAt_def)

lemma expireFlow_cong:
  "t_updateVersion t = t_updateVersion u \<Longrightarrow> t_lastUpdate t = t_lastUpdate u \<Longrightarrow> expireFlow t = expireFlow u"
  by (intro ext) (simp add: expireFlow_def)

lemma updateFlow_cong:
  "t_updateVersion t = t_updateVersion u \<Longrightarrow> t_appTimeout t = t_appTimeout u \<Longrightarrow>
   updateFlow start upTo t = updateFlow start upTo u"
  by (intro ext) (simp add: updateFlow_def appTimedOut_def appTimeoutOf_def)

lemma expireLoop_sweep:
  "t_updateVersion t = t_updateVersion u \<Longrightarrow> t_lastUpdate t = t_lastUpdate u \<Longrightarrow>
   expireLoop ops before ks expired t = sweep ops (expireStep before u) ks expired t"
proof (induction ks arbitrary: expired t)
  case (Cons k ks)
  show ?case
    using Cons.prems expireFlow_cong [of t u]
    by (cases "lru_Peek ops k (t_table t)") (simp_all add: expireStep_def Let_def Cons.IH)
qed simp

lemma updateLoop_sweep:
  "t_updateVersion t = t_updateVersion u \<Longrightarrow> t_appTimeout t = t_appTimeout u \<Longrightarrow>
   updateLoop ops start upTo ks updated t = sweep ops (updateFlow start upTo u) ks updated t"
proof (induction ks arbitrary: updated t)
  case (Cons k ks)
  show ?case
    using Cons.prems updateFlow_cong [of t u start upTo]
    by (cases "lru_Peek ops k (t_table t)") (simp_all add: Let_def Cons.IH split: prod.split)
qed simp

text \<open>The cells of the heap after a sweep over the pointers \<open>rs\<close>.\<close>

definition swept :: "(Flow \<Rightarrow> Flow \<times> bool \<times> bool) \<Rightarrow> nat list \<Rightarrow> Flow list \<Rightarrow> Flow list" where
  "swept g rs h = map (\<lambda>i. if i \<in> set rs then g_flow (g (h ! i)) else h ! i) [0..<length h]"

lemma swept_length [simp]: "length (swept g rs h) = length h"
  by (simp add: swept_def)

lemma swept_nth: "i < length h \<Longrightarrow> swept g rs h ! i = (if i \<in> set rs then g_flow (g (h ! i)) else h ! i)"
  by (simp add: swept_def)

lemma swept_Nil [simp]: "swept g [] h = h"
  by (rule nth_equalityI) (simp_all add: swept_nth)

lemma swept_Cons:
  "r \<notin> set rs \<Longrightarrow> r < length h \<Longrightarrow> swept g rs (h[r := g_flow (g (h ! r))]) = swept g (r # rs) h"
  by (rule nth_equalityI) (auto simp: swept_nth nth_list_update)

section \<open>Well-formed tables\<close>

text \<open>Every entry points into the heap, and no two entries share a flow.\<close>

definition table_ok :: "('l \<Rightarrow> bool) \<Rightarrow> ('l \<Rightarrow> (nat \<times> nat) list) \<Rightarrow> ('l, 's) Table \<Rightarrow> bool" where
  "table_ok invar entries t \<longleftrightarrow>
     invar (t_table t) \<and> distinct (map snd (entries (t_table t))) \<and>
     (\<forall>e \<in> set (entries (t_table t)). snd e < length (t_heap t))"

lemma emit_fields [simp]:
  "t_table (emit x t) = t_table t" "t_heap (emit x t) = t_heap t" "t_out (emit x t) = t_out t @ [x]"
  "t_updateVersion (emit x t) = t_updateVersion t" "t_Opts (emit x t) = t_Opts t" "flowAt (emit x t) r = flowAt t r"
  by (simp_all add: emit_def flowAt_def)

lemma sendFlows_fields [simp]:
  "t_table (sendFlows rs t) = t_table t" "t_heap (sendFlows rs t) = t_heap t"
  "t_out (sendFlows rs t) = t_out t @ [SendFlows (map (\<lambda>r. (r, flowAt t r)) rs)]"
  "t_updateVersion (sendFlows rs t) = t_updateVersion t" "t_Opts (sendFlows rs t) = t_Opts t"
  by (simp_all add: sendFlows_def)

lemma fold_emit_fields:
  "t_table (fold (\<lambda>k. emit (ExpiredExtKey k)) ks t) = t_table t"
  "t_heap (fold (\<lambda>k. emit (ExpiredExtKey k)) ks t) = t_heap t"
  "t_updateVersion (fold (\<lambda>k. emit (ExpiredExtKey k)) ks t) = t_updateVersion t"
  "t_out (fold (\<lambda>k. emit (ExpiredExtKey k)) ks t) = t_out t @ map ExpiredExtKey ks"
  by (induction ks arbitrary: t) simp_all

lemma sendExtKeys_fields [simp]:
  "t_table (sendExtKeys rs t) = t_table t" "t_heap (sendExtKeys rs t) = t_heap t"
  "t_updateVersion (sendExtKeys rs t) = t_updateVersion t"
  by (simp_all add: sendExtKeys_def fold_emit_fields)

lemma sendExtKeys_out: "\<exists>ks. t_out (sendExtKeys rs t) = t_out t @ map ExpiredExtKey ks"
  by (auto simp: sendExtKeys_def fold_emit_fields intro: exI [of _ "[]"])

lemma clearRaw_fields [simp]:
  "t_table (clearRaw rs t) = t_table t" "length (t_heap (clearRaw rs t)) = length (t_heap t)"
  "t_out (clearRaw rs t) = t_out t" "t_updateVersion (clearRaw rs t) = t_updateVersion t"
proof -
  have "t_table (fold (\<lambda>r t. setFlow r ((flowAt t r)\<lparr>f_LastRawPackets := []\<rparr>) t) rs t) = t_table t \<and>
    length (t_heap (fold (\<lambda>r t. setFlow r ((flowAt t r)\<lparr>f_LastRawPackets := []\<rparr>) t) rs t)) = length (t_heap t) \<and>
    t_out (fold (\<lambda>r t. setFlow r ((flowAt t r)\<lparr>f_LastRawPackets := []\<rparr>) t) rs t) = t_out t \<and>
    t_updateVersion (fold (\<lambda>r t. setFlow r ((flowAt t r)\<lparr>f_LastRawPackets := []\<rparr>) t) rs t) = t_updateVersion t"
    by (induction rs arbitrary: t) simp_all
  then show "t_table (clearRaw rs t) = t_table t" "length (t_heap (clearRaw rs t)) = length (t_heap t)"
    "t_out (clearRaw rs t) = t_out t" "t_updateVersion (clearRaw rs t) = t_updateVersion t"
    by (simp_all add: clearRaw_def)
qed

lemma dropStat_fields [simp]:
  "t_table (dropStat b t) = t_table t" "t_heap (dropStat b t) = t_heap t" "t_out (dropStat b t) = t_out t"
  "t_updateVersion (dropStat b t) = t_updateVersion t" "t_Opts (dropStat b t) = t_Opts t"
  "t_opts (dropStat b t) = t_opts t" "t_uuids (dropStat b t) = t_uuids t"
  by (simp_all add: dropStat_def)

lemma addFlow_fields [simp]:
  "t_heap (addFlow ops k r t) = t_heap t" "t_out (addFlow ops k r t) = t_out t"
  "t_updateVersion (addFlow ops k r t) = t_updateVersion t" "t_Opts (addFlow ops k r t) = t_Opts t"
  "t_opts (addFlow ops k r t) = t_opts t" "t_uuids (addFlow ops k r t) = t_uuids t"
  by (simp_all add: addFlow_def case_prod_beta)

lemma flowAt_addFlow [simp]: "flowAt (addFlow ops k r t) q = flowAt t q"
  by (simp add: flowAt_def)

lemma heap_table_swap: "t\<lparr>t_heap := h, t_table := l\<rparr> = t\<lparr>t_table := l, t_heap := h\<rparr>"
  by (cases t) simp

lemma distinct_snd_subseq: "subseq es fs \<Longrightarrow> distinct (map snd fs) \<Longrightarrow> distinct (map snd es)"
  by (induction rule: list_emb.induct) (auto dest: list_emb_set)

text \<open>A packet enters the table: one flow, new or found, is stepped and stamped.\<close>

definition entered ::
  "('l \<Rightarrow> (nat \<times> nat) list) \<Rightarrow> nat \<Rightarrow> Flow \<Rightarrow> ('l, 's) Table \<Rightarrow> ('l, 's) Table \<Rightarrow> bool" where
  "entered entries r f t t' \<longleftrightarrow>
     t_out t' = t_out t \<and> t_updateVersion t' = t_updateVersion t \<and>
     (\<exists>k. (k, r) \<in> set (entries (t_table t')) \<and> set (entries (t_table t')) \<subseteq> insert (k, r) (set (entries (t_table t))) \<and>
        ((r = length (t_heap t) \<and> steps_to NewFlow f \<and> t_heap t' = t_heap t @ [f]) \<or>
         ((k, r) \<in> set (entries (t_table t)) \<and> steps_to (flowAt t r) f \<and> t_heap t' = (t_heap t)[r := f]))) \<and>
     st_updateVersion (f_state f) = wrap64 (t_updateVersion t + 1)"

lemma steps_stamp: "steps_to f (capturePacket limit p ts (stampFlow v f))"
  by (rule steps_to_same) (simp_all add: capturePacket_def stampFlow_def Let_def)

lemma stamp_version: "st_updateVersion (f_state (capturePacket limit p ts (stampFlow v f))) = wrap64 (v + 1)"
  by (simp add: capturePacket_def stampFlow_def Let_def)

context lru
begin

lemma entry_lookup: "invar l \<Longrightarrow> (k, r) \<in> set (entries l) \<Longrightarrow> map_of (entries l) k = Some r"
  by (simp add: distinct_keys)

text \<open>
  The sweep of the entries \<open>es\<close>: no key is missing, so it does not panic; the entries that are gone
  are removed, the others keep their order.
\<close>

lemma sweep_entries:
  assumes "invar (t_table t)" "set es \<subseteq> set (entries (t_table t))" "distinct (map fst es)" "distinct (map snd es)"
    and "\<forall>e \<in> set es. snd e < length (t_heap t)"
  shows "\<exists>l. sweep ops g (map fst es) acc t =
       Some (t\<lparr>t_table := l, t_heap := swept g (map snd es) (t_heap t)\<rparr>,
             acc @ map snd (filter (\<lambda>e. g_sent (g (flowAt t (snd e)))) es)) \<and> invar l \<and>
     entries l = filter (\<lambda>e. \<not> (e \<in> set es \<and> g_gone (g (flowAt t (snd e))))) (entries (t_table t))"
  using assms
proof (induction es arbitrary: acc t)
  case Nil
  then show ?case by (intro exI [of _ "t_table t"]) simp
next
  case (Cons e es)
  obtain k r where e: "e = (k, r)" by (cases e)
  obtain f sent gone where g: "g (flowAt t r) = (f, sent, gone)" by (cases "g (flowAt t r)")
  let ?l = "if gone then lru_Remove ops k (t_table t) else t_table t"
  let ?t = "setFlow r f (t\<lparr>t_table := ?l\<rparr>)"
  have look: "map_of (entries (t_table t)) k = Some r" using Cons.prems e by (simp add: entry_lookup)
  have only: "e' \<in> set (entries (t_table t)) \<Longrightarrow> fst e' = k \<longleftrightarrow> e' = (k, r)" for e'
    using look entry_lookup [OF Cons.prems(1)] by (cases e') auto
  have r: "r < length (t_heap t)" "r \<notin> set (map snd es)" using Cons.prems(4,5) e by auto
  have inv: "invar (t_table ?t)" using Cons.prems(1) Remove by simp
  have ents: "entries (t_table ?t) = filter (\<lambda>e'. \<not> (e' = (k, r) \<and> gone)) (entries (t_table t))"
    using Remove [OF Cons.prems(1), of k] only by (auto intro!: filter_cong)
  have sub: "set es \<subseteq> set (entries (t_table ?t))"
  proof -
    have "(k, r) \<notin> set es" using r by force
    then show ?thesis unfolding ents using Cons.prems(2) by auto
  qed
  have flows: "snd e' \<noteq> r \<Longrightarrow> flowAt ?t (snd e') = flowAt t (snd e')" for e'
    using r by (simp add: flowAt_setFlow)
  have ne: "e' \<in> set es \<Longrightarrow> snd e' \<noteq> r" for e' using r by auto
  have rest: "distinct (map fst es)" "distinct (map snd es)" "\<forall>e \<in> set es. snd e < length (t_heap ?t)"
    using Cons.prems(3-5) by simp_all
  from Cons.IH [OF inv sub rest, of "if sent then acc @ [r] else acc"] obtain l where
    l: "sweep ops g (map fst es) (if sent then acc @ [r] else acc) ?t =
       Some (?t\<lparr>t_table := l, t_heap := swept g (map snd es) (t_heap ?t)\<rparr>,
             (if sent then acc @ [r] else acc) @ map snd (filter (\<lambda>e. g_sent (g (flowAt ?t (snd e)))) es))"
    and li: "invar l" and le: "entries l =
      filter (\<lambda>e. \<not> (e \<in> set es \<and> g_gone (g (flowAt ?t (snd e))))) (entries (t_table ?t))"
    by (elim exE conjE) (rule that)
  have heap: "swept g (map snd es) ((t_heap t)[r := f]) = swept g (r # map snd es) (t_heap t)"
    using r g swept_Cons [of r "map snd es" "t_heap t" g] by (simp add: flowAt_def)
  have "filter (\<lambda>e. g_sent (g (flowAt ?t (snd e)))) es = filter (\<lambda>e. g_sent (g (flowAt t (snd e)))) es"
    using ne flows by (auto intro!: filter_cong)
  moreover have "entries l = filter (\<lambda>e'. \<not> (e' \<in> set (e # es) \<and> g_gone (g (flowAt t (snd e'))))) (entries (t_table t))"
    unfolding le ents filter_filter using ne flows g e by (intro filter_cong) auto
  ultimately show ?case
    using l li look Cons.prems(1) g e
    by (intro exI [of _ l]) (auto simp: Peek heap setFlow_def Let_def)
qed

lemma sweep_table:
  assumes "table_ok invar entries t"
  obtains l where "sweep ops g (lru_Keys ops (t_table t)) [] t =
      Some (t\<lparr>t_table := l, t_heap := swept g (map snd (entries (t_table t))) (t_heap t)\<rparr>,
            map snd (filter (\<lambda>e. g_sent (g (flowAt t (snd e)))) (entries (t_table t))))"
    and "invar l" "entries l = filter (\<lambda>e. \<not> g_gone (g (flowAt t (snd e)))) (entries (t_table t))"
proof -
  have inv: "invar (t_table t)" using assms by (simp add: table_ok_def)
  have *: "filter (\<lambda>e. \<not> (e \<in> set (entries (t_table t)) \<and> g_gone (g (flowAt t (snd e))))) (entries (t_table t)) =
      filter (\<lambda>e. \<not> g_gone (g (flowAt t (snd e)))) (entries (t_table t))"
    by (rule filter_cong) simp_all
  have ok: "distinct (map snd (entries (t_table t)))" "\<forall>e \<in> set (entries (t_table t)). snd e < length (t_heap t)"
    using assms by (simp_all add: table_ok_def)
  from sweep_entries [OF inv subset_refl distinct_keys [OF inv] ok, of g "[]"] show ?thesis
    unfolding * Keys [OF inv, symmetric] append_Nil by (elim exE conjE) (rule that)
qed

text \<open>Expiry removes exactly the flows that ended before the limit and sends those not yet finished.\<close>

definition expiredRefs :: "int \<Rightarrow> ('l, 's) Table \<Rightarrow> nat list" where
  "expiredRefs before t = map snd (filter (\<lambda>e. f_Last (flowAt t (snd e)) < before
     \<and> f_FinishType (flowAt t (snd e)) = NOT_FINISHED) (entries (t_table t)))"

lemma expire_spec:
  assumes "table_ok invar entries t"
  obtains l where "expire ops before t = Some (sendExtKeys (expiredRefs before t) (sendFlows (expiredRefs before t)
      (t\<lparr>t_table := l, t_heap := swept (expireStep before t) (map snd (entries (t_table t))) (t_heap t)\<rparr>)))"
    and "invar l" "entries l = filter (\<lambda>e. before \<le> f_Last (flowAt t (snd e))) (entries (t_table t))"
proof -
  from sweep_table [OF assms, of "expireStep before t"] obtain l where
    l: "sweep ops (expireStep before t) (lru_Keys ops (t_table t)) [] t =
      Some (t\<lparr>t_table := l, t_heap := swept (expireStep before t) (map snd (entries (t_table t))) (t_heap t)\<rparr>,
            map snd (filter (\<lambda>e. g_sent (expireStep before t (flowAt t (snd e)))) (entries (t_table t))))"
      "invar l" "entries l = filter (\<lambda>e. \<not> g_gone (expireStep before t (flowAt t (snd e)))) (entries (t_table t))" .
  have sent: "g_sent (expireStep before t f) \<longleftrightarrow> f_Last f < before \<and> f_FinishType f = NOT_FINISHED"
    and gone: "g_gone (expireStep before t f) \<longleftrightarrow> f_Last f < before" for f
    by (simp_all add: expireStep_def)
  show ?thesis
    using l by (intro that [of l]) (simp_all add: expire_def expireLoop_sweep [of t t] sent gone expiredRefs_def not_less)
qed

lemma expire_ok:
  assumes "table_ok invar entries t" "expire ops before t = Some t'"
  shows "table_ok invar entries t'"
proof -
  from expire_spec [OF assms(1), of before] obtain l where
    "expire ops before t = Some (sendExtKeys (expiredRefs before t) (sendFlows (expiredRefs before t)
      (t\<lparr>t_table := l, t_heap := swept (expireStep before t) (map snd (entries (t_table t))) (t_heap t)\<rparr>)))"
    and l: "invar l" "entries l = filter (\<lambda>e. before \<le> f_Last (flowAt t (snd e))) (entries (t_table t))" .
  then have "t_table t' = l" "length (t_heap t') = length (t_heap t)" using assms(2) by simp_all
  then show ?thesis using assms(1) l by (simp add: table_ok_def distinct_map_filter)
qed

definition updatedRefs :: "int \<Rightarrow> int \<Rightarrow> ('l, 's) Table \<Rightarrow> nat list" where
  "updatedRefs start upTo t =
     map snd (filter (\<lambda>e. g_sent (updateFlow start upTo t (flowAt t (snd e)))) (entries (t_table t)))"

lemma update_spec:
  assumes "table_ok invar entries t"
  obtains l u where "u = t\<lparr>t_table := l, t_heap := swept (updateFlow start upTo t) (map snd (entries (t_table t))) (t_heap t)\<rparr>"
    and "update ops start upTo t = Some (if updatedRefs start upTo t = [] then u
       else clearRaw (updatedRefs start upTo t) (sendFlows (updatedRefs start upTo t) u))"
    and "invar l" "entries l = filter (\<lambda>e. \<not> g_gone (updateFlow start upTo t (flowAt t (snd e)))) (entries (t_table t))"
proof -
  from sweep_table [OF assms, of "updateFlow start upTo t"] obtain l where
    "sweep ops (updateFlow start upTo t) (lru_Keys ops (t_table t)) [] t =
      Some (t\<lparr>t_table := l, t_heap := swept (updateFlow start upTo t) (map snd (entries (t_table t))) (t_heap t)\<rparr>,
            map snd (filter (\<lambda>e. g_sent (updateFlow start upTo t (flowAt t (snd e)))) (entries (t_table t))))"
      "invar l" "entries l = filter (\<lambda>e. \<not> g_gone (updateFlow start upTo t (flowAt t (snd e)))) (entries (t_table t))" .
  then show ?thesis
    by (intro that [OF refl]) (simp_all add: update_def updateLoop_sweep [of t t] updatedRefs_def)
qed

lemma update_ok:
  assumes "table_ok invar entries t" "update ops start upTo t = Some t'"
  shows "table_ok invar entries t'"
proof -
  from update_spec [OF assms(1), of start upTo] obtain l u where
    u: "u = t\<lparr>t_table := l, t_heap := swept (updateFlow start upTo t) (map snd (entries (t_table t))) (t_heap t)\<rparr>"
    and upd: "update ops start upTo t = Some (if updatedRefs start upTo t = [] then u
       else clearRaw (updatedRefs start upTo t) (sendFlows (updatedRefs start upTo t) u))"
    and l: "invar l" "entries l = filter (\<lambda>e. \<not> g_gone (updateFlow start upTo t (flowAt t (snd e)))) (entries (t_table t))" .
  have "t_table u = l" "length (t_heap u) = length (t_heap t)" by (simp_all add: u)
  moreover have "t_table t' = t_table u" "length (t_heap t') = length (t_heap u)"
    using assms(2) unfolding upd by (auto split: if_splits)
  ultimately show ?thesis using assms(1) l by (simp add: table_ok_def distinct_map_filter)
qed

section \<open>Entering flows\<close>

lemma Get_entries:
  assumes "invar l"
  obtains "map_of (entries l) k = None" "lru_Get ops k l = (l, None)"
  | l' v where "map_of (entries l) k = Some v" "lru_Get ops k l = (l', Some v)" "invar l'"
      "entries l' = filter (\<lambda>e. fst e \<noteq> k) (entries l) @ [(k, v)]"
  using assms Get_miss [of l k] Get_hit [of l k] by (cases "map_of (entries l) k") blast+

lemma Add_entries:
  assumes "invar l"
  obtains l' b es where "lru_Add ops k r l = (l', b)" "invar l'" "entries l' = es @ [(k, r)]" "subseq es (entries l)"
    "\<forall>e \<in> set es. fst e \<noteq> k"
proof (cases "map_of (entries l) k")
  case (Some v)
  from Add_hit [OF assms Some, of r] show ?thesis by (elim exE conjE) (rule that, auto)
next
  case None
  then have fresh: "\<forall>e \<in> set (entries l). fst e \<noteq> k" by (auto simp: map_of_eq_None_iff)
  show ?thesis
  proof (cases "length (entries l) = capacity")
    case True
    have "subseq (tl (entries l)) (entries l)" "\<forall>e \<in> set (tl (entries l)). fst e \<noteq> k"
      using fresh by (cases "entries l"; auto)+
    with Add_full [OF assms None True, of r] show ?thesis by (elim exE conjE) (rule that)
  next
    case False
    then have "length (entries l) < capacity" using bounded [OF assms] by simp
    from Add_room [OF assms None this, of r] show ?thesis using fresh by (elim exE conjE) (rule that, auto)
  qed
qed

lemma addFlow_entries:
  assumes "invar (t_table t)"
  obtains es where "invar (t_table (addFlow ops k r t))" "entries (t_table (addFlow ops k r t)) = es @ [(k, r)]"
    "subseq es (entries (t_table t))" "\<forall>e \<in> set es. fst e \<noteq> k"
proof -
  from Add_entries [OF assms, of k r] obtain l b es where add: "lru_Add ops k r (t_table t) = (l, b)" "invar l"
    "entries l = es @ [(k, r)]" "subseq es (entries (t_table t))" "\<forall>e \<in> set es. fst e \<noteq> k" .
  have "t_table (addFlow ops k r t) = l" by (simp add: addFlow_def add(1))
  then show ?thesis using add(2-5) by (intro that) simp_all
qed

lemma addFlow_ok:
  assumes "table_ok invar entries t" "r < length (t_heap t)" "r \<notin> snd ` set (entries (t_table t))"
  shows "table_ok invar entries (addFlow ops k r t)"
proof -
  have inv: "invar (t_table t)" using assms(1) by (simp add: table_ok_def)
  from addFlow_entries [OF inv, of k r] obtain es where es: "invar (t_table (addFlow ops k r t))"
    "entries (t_table (addFlow ops k r t)) = es @ [(k, r)]" "subseq es (entries (t_table t))" .
  have "set es \<subseteq> set (entries (t_table t))" using es(3) by (auto dest: list_emb_set)
  then show ?thesis
    using es distinct_snd_subseq [OF es(3)] assms unfolding table_ok_def by (simp add: image_iff) blast
qed

lemma get_ok:
  assumes "table_ok invar entries t" "lru_Get ops k (t_table t) = (l, v)"
  shows "table_ok invar entries (t\<lparr>t_table := l\<rparr>)"
proof -
  have inv: "invar (t_table t)" using assms(1) by (simp add: table_ok_def)
  from inv show ?thesis
  proof (cases rule: Get_entries [of _ k])
    case 1
    then show ?thesis using assms by simp
  next
    case (2 l' w)
    have "(k, w) \<in> set (entries (t_table t))" using 2(1) by (rule map_of_SomeD)
    moreover from this have "\<forall>e \<in> set (entries (t_table t)). fst e \<noteq> k \<longrightarrow> snd e \<noteq> w"
      using assms(1) by (force simp: table_ok_def distinct_map inj_on_def)
    ultimately show ?thesis
      using assms 2 by (auto simp: table_ok_def distinct_map_filter)
  qed
qed

lemma getOrCreateFlow_spec:
  assumes ok: "table_ok invar entries t"
  obtains t' r where "getOrCreateFlow ops key t = (t', r, True)" "table_ok invar entries t'" "(key, r) \<in> set (entries (t_table t'))"
      "set (entries (t_table t')) \<subseteq> insert (key, r) (set (entries (t_table t)))"
      "r = length (t_heap t)" "t_heap t' = t_heap t @ [NewFlow]" "t_out t' = t_out t"
      "t_updateVersion t' = t_updateVersion t" "t_opts t' = t_opts t"
  | t' r where "getOrCreateFlow ops key t = (t', r, False)" "table_ok invar entries t'" "(key, r) \<in> set (entries (t_table t'))"
      "set (entries (t_table t')) \<subseteq> set (entries (t_table t))" "(key, r) \<in> set (entries (t_table t))"
      "t_heap t' = t_heap t" "t_out t' = t_out t" "t_updateVersion t' = t_updateVersion t" "t_opts t' = t_opts t"
proof -
  have inv: "invar (t_table t)" using ok by (simp add: table_ok_def)
  from inv show ?thesis
  proof (cases rule: Get_entries [of _ key])
    case 1
    let ?r = "length (t_heap t)" and ?u = "t\<lparr>t_heap := t_heap t @ [NewFlow]\<rparr>"
    have get: "getOrCreateFlow ops key t = (addFlow ops key ?r ?u, ?r, True)"
      using 1 by (simp add: getOrCreateFlow_def allocFlow_def)
    have u: "table_ok invar entries ?u" using ok by (auto simp: table_ok_def)
    have "?r \<notin> snd ` set (entries (t_table t))" using ok by (auto simp: table_ok_def)
    then have ok': "table_ok invar entries (addFlow ops key ?r ?u)" using u by (intro addFlow_ok) simp_all
    have "invar (t_table ?u)" using inv by simp
    from addFlow_entries [OF this, of key ?r] obtain es where
      "entries (t_table (addFlow ops key ?r ?u)) = es @ [(key, ?r)]" "subseq es (entries (t_table ?u))" .
    then have "(key, ?r) \<in> set (entries (t_table (addFlow ops key ?r ?u)))"
      "set (entries (t_table (addFlow ops key ?r ?u))) \<subseteq> insert (key, ?r) (set (entries (t_table t)))"
      by (auto dest: list_emb_set)
    then show ?thesis by (intro that(1) [OF get ok']) simp_all
  next
    case (2 l v)
    have "(key, v) \<in> set (entries (t_table t))" using 2(1) by (rule map_of_SomeD)
    moreover have get: "getOrCreateFlow ops key t = (t\<lparr>t_table := l\<rparr>, v, False)" using 2 by (simp add: getOrCreateFlow_def)
    ultimately show ?thesis using 2(4) by (intro that(2) [OF get get_ok [OF ok 2(2)]]) auto
  qed
qed

lemma setFlow_ok: "table_ok invar entries t \<Longrightarrow> table_ok invar entries (setFlow r f t)"
  by (simp add: table_ok_def)

lemma packetToFlow_spec:
  assumes ok: "table_ok invar entries t" and pkt: "packetToFlow xxh gp ops p parent t = Some (t', r)"
  obtains f where "table_ok invar entries t'" "entered entries r f t t'"
proof -
  from pkt obtain keys where keys: "Keys xxh gp p parent (t_opts t) = Some keys"
    by (auto simp: packetToFlow_def split: bind_splits)
  let ?v = "wrap64 (t_updateVersion t + 1)"
  show ?thesis
  proof (cases rule: getOrCreateFlow_spec [OF ok, of "fst keys"])
    case (1 u q)
    from pkt keys 1(1) obtain f ts where
      f: "initFromPacket xxh gp keys p parent (t_uuids u) (t_opts u) (flowAt u q) = Some f" "timestamp p = Some ts"
      and r: "r = q" and t': "t' = setFlow q (capturePacket (to_RawPacketLimit (t_Opts u)) p ts (stampFlow (t_updateVersion u) f)) u"
      by (auto simp: packetToFlow_def split: bind_splits)
    let ?f = "capturePacket (to_RawPacketLimit (t_Opts u)) p ts (stampFlow (t_updateVersion u) f)"
    have "steps_to NewFlow ?f"
      using steps_to_trans [OF steps_initFromPacket [OF f(1)] steps_stamp] 1(5,6) by (simp add: flowAt_def)
    then have "entered entries r ?f t t'"
      using 1 r unfolding entered_def t' by (auto simp: setFlow_def stamp_version)
    with setFlow_ok [OF 1(2), of q ?f] show ?thesis using that t' by simp
  next
    case (2 u q)
    from pkt keys 2(1) obtain f ts where
      f: "Flow_Update gp p (t_opts u) (flowAt u q) = Some f" "timestamp p = Some ts"
      and r: "r = q" and t': "t' = setFlow q (capturePacket (to_RawPacketLimit (t_Opts u)) p ts (stampFlow (t_updateVersion u) f)) u"
      by (auto simp: packetToFlow_def split: bind_splits)
    let ?f = "capturePacket (to_RawPacketLimit (t_Opts u)) p ts (stampFlow (t_updateVersion u) f)"
    have "steps_to (flowAt t q) ?f"
      using steps_to_trans [OF steps_Update [OF f(1)] steps_stamp] 2(6) by (simp add: flowAt_def)
    then have "entered entries r ?f t t'"
      using 2 r unfolding entered_def t' by (auto simp: setFlow_def stamp_version)
    with setFlow_ok [OF 2(2), of q ?f] show ?thesis using that t' by simp
  qed
qed

lemma processPackets_ok:
  "table_ok invar entries t \<Longrightarrow> processPackets xxh gp ops parent ps t = Some t' \<Longrightarrow> table_ok invar entries t'"
proof (induction ps arbitrary: parent t)
  case (Cons p ps)
  then obtain u r where u: "packetToFlow xxh gp ops p parent t = Some (u, r)"
    and rest: "processPackets xxh gp ops (f_UUID (flowAt u r)) ps u = Some t'" by (auto split: bind_splits)
  from packetToFlow_spec [OF Cons.prems(1) u] have "table_ok invar entries u" .
  then show ?case using rest by (rule Cons.IH)
qed simp

lemma alloc_add_ok:
  assumes "table_ok invar entries t"
  shows "table_ok invar entries (addFlow ops k (length (t_heap t)) (t\<lparr>t_heap := t_heap t @ [f]\<rparr>))"
proof (rule addFlow_ok)
  show "table_ok invar entries (t\<lparr>t_heap := t_heap t @ [f]\<rparr>)" using assms by (auto simp: table_ok_def)
qed (use assms in \<open>auto simp: table_ok_def\<close>)

lemma processFlowOP_ok:
  assumes ok: "table_ok invar entries t" and op: "processFlowOP ops op t = Some t'"
  shows "table_ok invar entries t'"
proof -
  obtain l v where get: "lru_Get ops (op_Key op) (t_table t) = (l, v)" by fastforce
  note okl = get_ok [OF ok get]
  show ?thesis
  proof (cases "op_Type op")
    case ReplaceOperation
    let ?r = "length (t_heap t)"
    let ?u = "addFlow ops (op_Key op) ?r (t\<lparr>t_table := l, t_heap := t_heap t @ [op_Flow op]\<rparr>)"
    have u: "table_ok invar entries ?u" using alloc_add_ok [OF okl, of "op_Key op" "op_Flow op"] by simp
    have rep: "replaceFlow ops (op_Key op) ?r (t\<lparr>t_heap := t_heap t @ [op_Flow op]\<rparr>) = (?u, v)"
      using get by (simp add: replaceFlow_def heap_table_swap)
    show ?thesis
      using op u by (cases v) (auto simp: processFlowOP_def ReplaceOperation allocFlow_def rep intro: setFlow_ok)
  next
    case UpdateOperation
    then show ?thesis using op okl by (cases v) (auto simp: processFlowOP_def get intro: setFlow_ok)
  qed
qed

lemma Run_event_ok:
  assumes ok: "table_ok invar entries t" and ev: "Run_event xxh gp ops e t = Some t'"
  shows "table_ok invar entries t'"
proof (cases e)
  case (ExpireTick now)
  then obtain u where u: "expire ops (t_lastExpire t) t = Some u" "t' = u\<lparr>t_lastExpire := UnixMillis now\<rparr>"
    using ev by (auto simp: expireAt_def)
  then show ?thesis using expire_ok [OF ok u(1)] by (simp add: table_ok_def)
next
  case (UpdateTick now)
  then obtain u where u: "update ops (t_lastUpdate t) (UnixMillis now) t = Some u"
    "t' = u\<lparr>t_lastUpdate := UnixMillis now, t_updateVersion := wrap64 (t_updateVersion u + 1)\<rparr>"
    using ev by (auto simp: updateAt_def)
  then show ?thesis using update_ok [OF ok u(1)] by (simp add: table_ok_def)
next
  case Flush
  then show ?thesis using ev expire_ok [OF ok] by (simp add: expireNow_def)
next
  case (PacketSeq ps)
  then show ?thesis using ev processPackets_ok [OF ok] by (simp add: processPacketSeq_def)
next
  case (FlowOp op)
  then show ?thesis using ev processFlowOP_ok [OF ok] by simp
qed (use ok ev in \<open>force simp: table_ok_def\<close>)+

lemma Run_ok: "table_ok invar entries t \<Longrightarrow> Run xxh gp ops es t = Some t' \<Longrightarrow> table_ok invar entries t'"
proof (induction es arbitrary: t)
  case (Cons e es)
  then obtain u where "Run_event xxh gp ops e t = Some u" "Run xxh gp ops es u = Some t'" by (auto split: bind_splits)
  then show ?case using Cons.IH Run_event_ok [OF Cons.prems(1)] by blast
qed simp

text \<open>The timers never panic.\<close>

lemma timers_run:
  assumes "table_ok invar entries t"
  shows "\<exists>t'. expireAt ops now t = Some t'" "\<exists>t'. updateAt ops now t = Some t'" "\<exists>t'. expireNow ops t = Some t'"
proof -
  from expire_spec [OF assms, of "t_lastExpire t"] show "\<exists>t'. expireAt ops now t = Some t'"
    by (auto simp: expireAt_def)
  from expire_spec [OF assms, of "2 ^ 63 - 1"] show "\<exists>t'. expireNow ops t = Some t'"
    unfolding expireNow_def by blast
  from update_spec [OF assms, of "t_lastUpdate t" "UnixMillis now"] show "\<exists>t'. updateAt ops now t = Some t'"
    unfolding updateAt_def by blast
qed

lemma expireNow_empties:
  assumes ok: "table_ok invar entries t" and late: "\<forall>e \<in> set (entries (t_table t)). f_Last (flowAt t (snd e)) < 2 ^ 63 - 1"
    and run: "expireNow ops t = Some t'"
  shows "entries (t_table t') = []"
proof -
  from expire_spec [OF ok, of "2 ^ 63 - 1"] obtain l where
    "expire ops (2 ^ 63 - 1) t = Some (sendExtKeys (expiredRefs (2 ^ 63 - 1) t) (sendFlows (expiredRefs (2 ^ 63 - 1) t)
      (t\<lparr>t_table := l, t_heap := swept (expireStep (2 ^ 63 - 1) t) (map snd (entries (t_table t))) (t_heap t)\<rparr>)))"
    and l: "entries l = filter (\<lambda>e. 2 ^ 63 - 1 \<le> f_Last (flowAt t (snd e))) (entries (t_table t))" .
  then have "t_table t' = l" using run unfolding expireNow_def by auto
  then show ?thesis using late l by (auto simp: filter_empty_conv)
qed

end

end
