(* ===== verification/Flow_Ledger.thy ===== *)
theory Flow_Ledger
  imports Flow_Table_Facts
begin

text \<open>
  The ledger of the flow table: what the table has sent for a flow over all its updates adds up to
  the metric of the flow.  Counters are added with the wrap-around of int64.
\<close>

section \<open>What was sent for a flow\<close>

fun sentMetrics :: "nat \<Rightarrow> table_output list \<Rightarrow> FlowMetric list" where
  "sentMetrics r [] = []"
| "sentMetrics r (SendFlows fs # out) =
     List.map_filter (\<lambda>(q, f). if q = r then f_LastUpdateMetric f else None) fs @ sentMetrics r out"
| "sentMetrics r (_ # out) = sentMetrics r out"

definition addCounters :: "int list \<Rightarrow> int list \<Rightarrow> int list" where
  "addCounters xs ys = map2 (\<lambda>x y. wrap64 (x + y)) xs ys"

definition reported :: "nat \<Rightarrow> table_output list \<Rightarrow> int list" where
  "reported r out = foldl addCounters [0, 0, 0, 0] (map metricCounters (sentMetrics r out))"

lemma sentMetrics_append [simp]: "sentMetrics r (out @ out') = sentMetrics r out @ sentMetrics r out'"
  by (induction r out rule: sentMetrics.induct) simp_all

lemma sentMetrics_ExtKeys [simp]: "sentMetrics r (map ExpiredExtKey ks) = []"
  by (induction ks) simp_all

lemma sent_other: "r \<notin> set rs \<Longrightarrow> sentMetrics r [SendFlows (map (\<lambda>q. (q, h q)) rs)] = []"
  by (induction rs) (auto simp: List.map_filter_simps)

lemma sent_once:
  "distinct rs \<Longrightarrow> r \<in> set rs \<Longrightarrow> f_LastUpdateMetric (h r) = Some m \<Longrightarrow>
   sentMetrics r [SendFlows (map (\<lambda>q. (q, h q)) rs)] = [m]"
proof (induction rs)
  case (Cons q rs)
  then show ?case using sent_other [of r rs h] by (cases "q = r") (auto simp: List.map_filter_simps)
qed simp

lemma sentMetrics_refs: "sentMetrics r [SendFlows (map (\<lambda>q. (q, h q)) rs)] \<noteq> [] \<Longrightarrow> r \<in> set rs"
  using sent_other [of r rs h] by blast

section \<open>The invariant\<close>

text \<open>
  For each flow of the table: what was sent is the metric at the last update, and the counters have not
  changed since when the flow carries no newer version.  With \<open>d = 0\<close> no flow carries a newer version.
\<close>

definition ledger_flow :: "int \<Rightarrow> int \<Rightarrow> int list \<Rightarrow> Flow \<Rightarrow> bool" where
  "ledger_flow d version sent f \<longleftrightarrow>
     sent = metricCounters (st_lastMetric (f_state f)) \<and>
     (\<forall>x \<in> set (metricCounters (f_Metric f)). is_int64 x) \<and>
     st_updateVersion (f_state f) \<le> version + d \<and>
     (st_updateVersion (f_state f) \<le> version \<longrightarrow>
        metricCounters (f_Metric f) = metricCounters (st_lastMetric (f_state f)))"

definition ledger :: "int \<Rightarrow> ('l \<Rightarrow> (nat \<times> nat) list) \<Rightarrow> ('l, 's) Table \<Rightarrow> bool" where
  "ledger d entries t \<longleftrightarrow>
     (\<forall>e \<in> set (entries (t_table t)).
        ledger_flow d (t_updateVersion t) (reported (snd e) (t_out t)) (flowAt t (snd e))) \<and>
     (\<forall>r. sentMetrics r (t_out t) \<noteq> [] \<longrightarrow> r < length (t_heap t)) \<and>
     0 \<le> t_updateVersion t"

lemma metricCounters_length [simp]: "length (metricCounters m) = 4"
  by (simp add: metricCounters_def)

lemma zero_counters: "metricCounters zeroFlowMetric = [0, 0, 0, 0]"
  by (simp add: metricCounters_def zeroFlowMetric_def)

lemma reported_snoc: "sentMetrics r out' = [m] \<Longrightarrow> reported r (out @ out') = addCounters (reported r out) (metricCounters m)"
  by (simp add: reported_def)

lemma reported_same: "sentMetrics r out' = [] \<Longrightarrow> reported r (out @ out') = reported r out"
  by (simp add: reported_def)

text \<open>The metric of an update is the difference to what was reported before it.\<close>

lemma updateMetric_counters:
  "f_LastUpdateMetric (updateMetric start fin f) \<noteq> None \<and>
   metricCounters (the (f_LastUpdateMetric (updateMetric start fin f))) =
     map2 (\<lambda>x y. wrap64 (x - y)) (metricCounters (f_Metric f)) (metricCounters (st_lastMetric (f_state f)))"
  by (simp add: updateMetric_def Let_def metricCounters_def)

lemma addCounters_diff:
  assumes "\<forall>x \<in> set xs. is_int64 x" "length xs = length ys"
  shows "addCounters ys (map2 (\<lambda>x y. wrap64 (x - y)) xs ys) = xs"
  using assms by (intro nth_equalityI) (simp_all add: addCounters_def wrap64_add_sub)

lemma updateMetric_fields:
  "f_Metric (updateMetric start fin f) = f_Metric f" "f_state (updateMetric start fin f) = f_state f"
  "f_FinishType (updateMetric start fin f) = f_FinishType f" "f_Last (updateMetric start fin f) = f_Last f"
  by (simp_all add: updateMetric_def Let_def)

section \<open>Steps keep the ledger\<close>

lemma ledger_flow_new:
  assumes "steps_to NewFlow f" "st_updateVersion (f_state f) = v + 1"
  shows "ledger_flow 1 v [0, 0, 0, 0] f"
proof -
  have "st_lastMetric (f_state f) = zeroFlowMetric" "\<forall>x \<in> set (metricCounters (f_Metric f)). is_int64 x"
    using assms(1) by (simp_all add: steps_to_def NewFlow_def zeroFlowState_def zero_counters is_int64_def)
  then show ?thesis using assms(2) by (simp add: ledger_flow_def zero_counters)
qed

lemma ledger_flow_step:
  assumes "ledger_flow 1 v sent f" "steps_to f f'" "st_updateVersion (f_state f') = v + 1"
  shows "ledger_flow 1 v sent f'"
  using assms unfolding ledger_flow_def steps_to_def by auto

text \<open>A flow that an update keeps in the table: with what the update sends for it.\<close>

lemma ledger_flow_update:
  assumes led: "ledger_flow 1 v sent f" and v: "v = t_updateVersion t"
    and upd: "updateFlow start upTo t f = (f', sends, gone)" "\<not> gone"
  shows "if sends then \<exists>m. f_LastUpdateMetric f' = Some m \<and> ledger_flow 0 (v + 1) (addCounters sent (metricCounters m)) f'
         else ledger_flow 0 (v + 1) sent f'"
proof (cases "st_updateVersion (f_state f) > v")
  case True
  let ?g = "updateMetric start upTo f"
  have f': "f' = rememberMetric ?g" "sends" using upd True v by (auto simp: updateFlow_def Let_def)
  obtain m where m: "f_LastUpdateMetric ?g = Some m"
    and cm: "metricCounters m = map2 (\<lambda>x y. wrap64 (x - y)) (metricCounters (f_Metric f)) (metricCounters (st_lastMetric (f_state f)))"
    using updateMetric_counters [of start upTo f] by auto
  have "addCounters sent (metricCounters m) = metricCounters (f_Metric f)"
    using led unfolding cm ledger_flow_def by (simp add: addCounters_diff)
  then have "ledger_flow 0 (v + 1) (addCounters sent (metricCounters m)) f'"
    using led by (simp add: f' ledger_flow_def rememberMetric_def updateMetric_fields)
  moreover have "f_LastUpdateMetric f' = Some m" using m by (simp add: f' rememberMetric_def)
  ultimately show ?thesis using f'(2) by simp
next
  case False
  then have f': "f' = rememberMetric (resetUpdateMetric start upTo f)" "\<not> sends"
    using upd v by (auto simp: updateFlow_def Let_def split: if_splits)
  have "metricCounters (f_Metric f) = metricCounters (st_lastMetric (f_state f))"
    using led False by (simp add: ledger_flow_def)
  then show ?thesis
    using led f'(2) by (simp add: f' ledger_flow_def rememberMetric_def resetUpdateMetric_def)
qed

text \<open>Clearing the raw packets changes nothing else.\<close>

abbreviation (input) noRaw :: "Flow \<Rightarrow> Flow" where
  "noRaw f \<equiv> f\<lparr>f_LastRawPackets := []\<rparr>"

lemma noRaw_setFlow: "noRaw (flowAt (setFlow q (noRaw (flowAt t q)) t) r) = noRaw (flowAt t r)"
  by (cases "q < length (t_heap t)"; cases "q = r") (simp_all add: setFlow_def flowAt_def list_update_beyond not_less)

lemma noRaw_clear: "noRaw (flowAt (clearRaw rs t) r) = noRaw (flowAt t r)"
proof -
  have "noRaw (flowAt (fold (\<lambda>r t. setFlow r (noRaw (flowAt t r)) t) rs t) r) = noRaw (flowAt t r)"
    by (induction rs arbitrary: t) (simp_all add: noRaw_setFlow)
  then show ?thesis by (simp add: clearRaw_def)
qed

lemma ledger_flow_noRaw: "ledger_flow d v sent (noRaw f) = ledger_flow d v sent f"
  by (simp add: ledger_flow_def)

lemma ledger_flow_clear: "ledger_flow d v sent (flowAt (clearRaw rs t) r) = ledger_flow d v sent (flowAt t r)"
  by (metis noRaw_clear ledger_flow_noRaw)

text \<open>The events of a table that is fed by packets.\<close>

fun ofPackets :: "event \<Rightarrow> bool" where
  "ofPackets (FlowOp _) = False"
| "ofPackets _ = True"

lemma Run_append: "Run xxh gp ops (es @ es') t = Option.bind (Run xxh gp ops es t) (Run xxh gp ops es')"
  by (induction es arbitrary: t) (simp_all, metis bind_assoc)

context lru
begin

lemma entered_ledger:
  assumes led: "ledger 1 entries t" and ent: "entered entries r f t t'" and ok: "table_ok invar entries t"
    and ver: "t_updateVersion t < 2 ^ 63 - 1"
  shows "ledger 1 entries t'"
proof -
  let ?v = "t_updateVersion t"
  have v: "0 \<le> ?v" using led by (simp add: ledger_def)
  then have "wrap64 (?v + 1) = ?v + 1" using ver by (simp add: is_int64_def)
  then have stamp: "st_updateVersion (f_state f) = ?v + 1" and out: "t_out t' = t_out t" "t_updateVersion t' = ?v"
    using ent by (simp_all add: entered_def)
  from ent obtain k where sub: "set (entries (t_table t')) \<subseteq> insert (k, r) (set (entries (t_table t)))"
    and cell: "(r = length (t_heap t) \<and> steps_to NewFlow f \<and> t_heap t' = t_heap t @ [f]) \<or>
         ((k, r) \<in> set (entries (t_table t)) \<and> steps_to (flowAt t r) f \<and> t_heap t' = (t_heap t)[r := f])"
    unfolding entered_def by blast
  have old: "e \<in> set (entries (t_table t)) \<Longrightarrow> snd e < length (t_heap t)
      \<and> ledger_flow 1 ?v (reported (snd e) (t_out t)) (flowAt t (snd e))" for e
    using led ok by (simp add: ledger_def table_ok_def)
  have heap: "r < length (t_heap t')" "flowAt t' r = f" "length (t_heap t) \<le> length (t_heap t')"
    "q \<noteq> r \<Longrightarrow> q < length (t_heap t) \<Longrightarrow> flowAt t' q = flowAt t q" for q
    using cell old [of "(k, r)"] by (auto simp: flowAt_def nth_append)
  have "ledger_flow 1 ?v (reported r (t_out t)) f"
    using cell
  proof
    assume new: "r = length (t_heap t) \<and> steps_to NewFlow f \<and> t_heap t' = t_heap t @ [f]"
    then have "sentMetrics r (t_out t) = []" using led unfolding ledger_def by blast
    then show ?thesis using new stamp by (simp add: reported_def ledger_flow_new)
  next
    assume "(k, r) \<in> set (entries (t_table t)) \<and> steps_to (flowAt t r) f \<and> t_heap t' = (t_heap t)[r := f]"
    then show ?thesis using old [of "(k, r)"] stamp ledger_flow_step by fastforce
  qed
  then have "e \<in> set (entries (t_table t')) \<Longrightarrow> ledger_flow 1 ?v (reported (snd e) (t_out t)) (flowAt t' (snd e))" for e
    using sub old [of e] heap(2,4) by (cases "snd e = r") auto
  then show ?thesis using led heap(3) v unfolding ledger_def out by force
qed

lemma processPackets_ledger:
  "ledger 1 entries t \<Longrightarrow> table_ok invar entries t \<Longrightarrow> t_updateVersion t < 2 ^ 63 - 1 \<Longrightarrow>
   processPackets xxh gp ops parent ps t = Some t' \<Longrightarrow> ledger 1 entries t' \<and> t_updateVersion t' = t_updateVersion t"
proof (induction ps arbitrary: parent t)
  case (Cons p ps)
  then obtain u r where u: "packetToFlow xxh gp ops p parent t = Some (u, r)"
    and rest: "processPackets xxh gp ops (f_UUID (flowAt u r)) ps u = Some t'" by (auto split: bind_splits)
  from packetToFlow_spec [OF Cons.prems(2) u] obtain f where ok: "table_ok invar entries u"
    and ent: "entered entries r f t u" .
  have "t_updateVersion u = t_updateVersion t" using ent by (simp add: entered_def)
  then show ?case using Cons.IH [OF entered_ledger [OF Cons.prems(1) ent Cons.prems(2,3)] ok _ rest] Cons.prems(3) by simp
qed simp

text \<open>What an update sends, and for whom.\<close>

lemma updated_sent:
  assumes ok: "table_ok invar entries t" and e: "e \<in> set (entries (t_table t))"
    and u: "u = t\<lparr>t_table := l, t_heap := swept (updateFlow start upTo t) (map snd (entries (t_table t))) (t_heap t)\<rparr>"
    and upd: "updateFlow start upTo t (flowAt t (snd e)) = (f', sends, gone)"
  shows "flowAt u (snd e) = f'" "sends \<longleftrightarrow> snd e \<in> set (updatedRefs start upTo t)"
proof -
  have "snd e < length (t_heap t)" using ok e by (simp add: table_ok_def)
  then show "flowAt u (snd e) = f'" using e upd by (simp add: u flowAt_def swept_nth)
  show "sends \<longleftrightarrow> snd e \<in> set (updatedRefs start upTo t)" using e upd by (force simp: updatedRefs_def)
qed

lemma updatedRefs_distinct: "table_ok invar entries t \<Longrightarrow> distinct (updatedRefs start upTo t)"
  by (simp add: updatedRefs_def table_ok_def distinct_map_filter)

lemma updatedRefs_heap: "table_ok invar entries t \<Longrightarrow> r \<in> set (updatedRefs start upTo t) \<Longrightarrow> r < length (t_heap t)"
  by (auto simp: updatedRefs_def table_ok_def)

lemma update_ledger:
  assumes led: "ledger 1 entries t" and ok: "table_ok invar entries t" and ver: "t_updateVersion t < 2 ^ 63 - 1"
    and run: "updateAt ops now t = Some t'"
  shows "ledger 0 entries t' \<and> t_updateVersion t' = t_updateVersion t + 1"
proof -
  let ?v = "t_updateVersion t" and ?start = "t_lastUpdate t" and ?upTo = "UnixMillis now"
  let ?R = "updatedRefs ?start ?upTo t"
  from update_spec [OF ok, of ?start ?upTo] obtain l u where
    u: "u = t\<lparr>t_table := l, t_heap := swept (updateFlow ?start ?upTo t) (map snd (entries (t_table t))) (t_heap t)\<rparr>"
    and upd: "update ops ?start ?upTo t = Some (if ?R = [] then u else clearRaw ?R (sendFlows ?R u))"
    and l: "entries l = filter (\<lambda>e. \<not> g_gone (updateFlow ?start ?upTo t (flowAt t (snd e)))) (entries (t_table t))" .
  have v: "0 \<le> ?v" "wrap64 (?v + 1) = ?v + 1" using led ver by (auto simp: ledger_def is_int64_def)
  define w where "w = (if ?R = [] then u else clearRaw ?R (sendFlows ?R u))"
  define sent where "sent = (if ?R = [] then [] else [SendFlows (map (\<lambda>r. (r, flowAt u r)) ?R)])"
  have w: "t_table w = l" "t_out w = t_out t @ sent" "t_updateVersion w = ?v" "length (t_heap w) = length (t_heap t)"
    and cell: "ledger_flow d x s (flowAt w r) = ledger_flow d x s (flowAt u r)" for d x s r
    by (simp_all add: w_def sent_def u ledger_flow_clear) (simp add: flowAt_def)
  have t': "t' = w\<lparr>t_lastUpdate := ?upTo, t_updateVersion := ?v + 1\<rparr>"
    using run upd v(2) w(3) by (simp add: updateAt_def w_def)
  have flows: "ledger_flow 0 (?v + 1) (reported (snd e) (t_out t @ sent)) (flowAt u (snd e))"
    if e: "e \<in> set (entries l)" for e
  proof -
    obtain f' sends gone where g: "updateFlow ?start ?upTo t (flowAt t (snd e)) = (f', sends, gone)"
      by (cases "updateFlow ?start ?upTo t (flowAt t (snd e))")
    have e': "e \<in> set (entries (t_table t))" and gone: "\<not> gone" using e l g by auto
    note us = updated_sent [OF ok e' u g]
    have "ledger_flow 1 ?v (reported (snd e) (t_out t)) (flowAt t (snd e))" using led e' by (simp add: ledger_def)
    note step = ledger_flow_update [OF this refl g gone]
    show ?thesis
    proof (cases sends)
      case True
      then obtain m where m: "f_LastUpdateMetric f' = Some m"
        "ledger_flow 0 (?v + 1) (addCounters (reported (snd e) (t_out t)) (metricCounters m)) f'" using step by auto
      have "sentMetrics (snd e) sent = [m]"
        using True us m(1) sent_once [OF updatedRefs_distinct [OF ok]] by (auto simp: sent_def)
      then show ?thesis using m(2) us(1) by (simp add: reported_snoc)
    next
      case False
      then have "sentMetrics (snd e) sent = []" using us(2) sent_other by (auto simp: sent_def)
      then show ?thesis using step False us(1) by (simp add: reported_same)
    qed
  qed
  have "r < length (t_heap t)" if "sentMetrics r (t_out t @ sent) \<noteq> []" for r
  proof (cases "sentMetrics r (t_out t) = []")
    case True
    then have "r \<in> set ?R" using that sentMetrics_refs [of r "flowAt u" ?R] by (auto simp: sent_def split: if_splits)
    then show ?thesis by (rule updatedRefs_heap [OF ok])
  next
    case False
    then show ?thesis using led by (simp add: ledger_def)
  qed
  then show ?thesis
    using flows v(1) w by (simp add: ledger_def t' cell flowAt_def [of "_\<lparr>t_lastUpdate := _, t_updateVersion := _\<rparr>"] flip: flowAt_def [of w])
qed

text \<open>Expiry leaves the flows that stay as they are, and sends nothing for them.\<close>

lemma expire_ledger:
  assumes led: "ledger 1 entries t" and ok: "table_ok invar entries t" and run: "expire ops before t = Some t'"
  shows "ledger 1 entries t' \<and> t_updateVersion t' = t_updateVersion t"
proof -
  let ?R = "expiredRefs before t" and ?g = "expireStep before t"
  from expire_spec [OF ok, of before] obtain l where
    x: "expire ops before t = Some (sendExtKeys ?R (sendFlows ?R
      (t\<lparr>t_table := l, t_heap := swept ?g (map snd (entries (t_table t))) (t_heap t)\<rparr>)))"
    and l: "entries l = filter (\<lambda>e. before \<le> f_Last (flowAt t (snd e))) (entries (t_table t))" .
  define u where "u = t\<lparr>t_table := l, t_heap := swept ?g (map snd (entries (t_table t))) (t_heap t)\<rparr>"
  have t': "t' = sendExtKeys ?R (sendFlows ?R u)" using run x by (simp add: u_def)
  obtain ks where out: "t_out t' = t_out t @ SendFlows (map (\<lambda>r. (r, flowAt u r)) ?R) # map ExpiredExtKey ks"
    using sendExtKeys_out [of ?R "sendFlows ?R u"] by (auto simp: t' u_def)
  have sent: "sentMetrics r (t_out t') = sentMetrics r (t_out t) @ sentMetrics r [SendFlows (map (\<lambda>r. (r, flowAt u r)) ?R)]" for r
    by (simp add: out)
  have stay: "sentMetrics (snd e) [SendFlows (map (\<lambda>r. (r, flowAt u r)) ?R)] = []" "flowAt u (snd e) = flowAt t (snd e)"
    "e \<in> set (entries (t_table t))" if e: "e \<in> set (entries l)" for e
  proof -
    have late: "before \<le> f_Last (flowAt t (snd e))" and e': "e \<in> set (entries (t_table t))" using e l by simp_all
    then show "e \<in> set (entries (t_table t))" by simp
    have "snd e \<notin> set ?R" using late by (auto simp: expiredRefs_def)
    then show "sentMetrics (snd e) [SendFlows (map (\<lambda>r. (r, flowAt u r)) ?R)] = []" by (rule sent_other)
    have "snd e < length (t_heap t)" using ok e' by (simp add: table_ok_def)
    then show "flowAt u (snd e) = flowAt t (snd e)"
      using late by (simp add: u_def flowAt_def swept_nth expireStep_def)
  qed
  have heap: "t_table t' = l" "flowAt t' r = flowAt u r" "length (t_heap t') = length (t_heap t)"
    "t_updateVersion t' = t_updateVersion t" for r
    by (simp_all add: t' u_def) (simp add: flowAt_def)
  have "r < length (t_heap t)" if "sentMetrics r (t_out t') \<noteq> []" for r
  proof (cases "sentMetrics r (t_out t) = []")
    case True
    then have "r \<in> set ?R" using that sentMetrics_refs [of r "flowAt u" ?R] unfolding sent by simp
    then show ?thesis using ok by (auto simp: expiredRefs_def table_ok_def)
  next
    case False
    then show ?thesis using led by (simp add: ledger_def)
  qed
  moreover have "reported (snd e) (t_out t') = reported (snd e) (t_out t)" if "e \<in> set (entries l)" for e
    using stay(1) [OF that] by (simp add: reported_def sent)
  ultimately show ?thesis using led stay by (simp add: ledger_def heap)
qed

lemma ledger_weaken: "ledger 0 entries t \<Longrightarrow> ledger 1 entries t"
  by (fastforce simp: ledger_def ledger_flow_def)

lemma ledger_same:
  "ledger d entries t \<Longrightarrow> t_table t' = t_table t \<Longrightarrow> t_heap t' = t_heap t \<Longrightarrow> t_updateVersion t' = t_updateVersion t \<Longrightarrow>
   (\<And>r. sentMetrics r (t_out t') = sentMetrics r (t_out t)) \<Longrightarrow> ledger d entries t'"
  by (simp add: ledger_def flowAt_def reported_def)

lemma Run_event_ledger:
  assumes led: "ledger 1 entries t" and ok: "table_ok invar entries t" and ver: "t_updateVersion t < 2 ^ 63 - 1"
    and ev: "Run_event xxh gp ops e t = Some t'" and pkt: "ofPackets e"
  shows "ledger 1 entries t' \<and> t_updateVersion t' \<le> t_updateVersion t + 1"
proof (cases e)
  case (ExpireTick now)
  then obtain u where u: "expire ops (t_lastExpire t) t = Some u" "t' = u\<lparr>t_lastExpire := UnixMillis now\<rparr>"
    using ev by (auto simp: expireAt_def)
  from expire_ledger [OF led ok u(1)] show ?thesis by (auto simp: u(2) intro: ledger_same)
next
  case (UpdateTick now)
  then show ?thesis using update_ledger [OF led ok ver, of now t'] ev by (simp add: ledger_weaken)
next
  case Flush
  then show ?thesis using expire_ledger [OF led ok, of "2 ^ 63 - 1" t'] ev by (simp add: expireNow_def)
next
  case (PacketSeq ps)
  then show ?thesis using processPackets_ledger [OF led ok ver] ev by (simp add: processPacketSeq_def)
next
  case (FlowOp op)
  then show ?thesis using pkt by simp
next
  case StatsTick
  then have "t_table t' = t_table t" "t_heap t' = t_heap t" "t_updateVersion t' = t_updateVersion t"
    "\<exists>s. t_out t' = t_out t @ [SendStats s]" using ev by auto
  then show ?thesis using ledger_same [OF led, of t'] by auto
qed (use led ev in \<open>auto intro: ledger_same\<close>)

lemma Run_ledger:
  "ledger 1 entries t \<Longrightarrow> table_ok invar entries t \<Longrightarrow> t_updateVersion t + int (length es) < 2 ^ 63 \<Longrightarrow>
   \<forall>e \<in> set es. ofPackets e \<Longrightarrow> Run xxh gp ops es t = Some t' \<Longrightarrow>
   ledger 1 entries t' \<and> t_updateVersion t' \<le> t_updateVersion t + int (length es)"
proof (induction es arbitrary: t)
  case (Cons e es)
  then obtain u where u: "Run_event xxh gp ops e t = Some u" and rest: "Run xxh gp ops es u = Some t'"
    by (auto split: bind_splits)
  have "ledger 1 entries u \<and> t_updateVersion u \<le> t_updateVersion t + 1"
    using Cons.prems by (intro Run_event_ledger [OF _ _ _ u]) simp_all
  then show ?case using Cons.IH [OF _ Run_event_ok [OF Cons.prems(2) u] _ _ rest] Cons.prems by simp
qed simp

text \<open>From a new table: after an update, what was sent for a flow of the table is its metric.\<close>

lemma new_table_ok:
  assumes "invar l0" "entries l0 = []"
  shows "table_ok invar entries (NewTable l0 r ts pm uuids tableOpts)"
    "ledger 1 entries (NewTable l0 r ts pm uuids tableOpts)"
  using assms by (simp_all add: table_ok_def ledger_def NewTable_def)

lemma settled:
  assumes "ledger 0 entries t" "e \<in> set (entries (t_table t))"
  shows "reported (snd e) (t_out t) = metricCounters (f_Metric (flowAt t (snd e)))"
  using assms by (simp add: ledger_def ledger_flow_def)

lemma Run_update_reported:
  assumes new: "invar l0" "entries l0 = []"
    and run: "Run xxh gp ops (es @ [UpdateTick now]) (NewTable l0 r ts pm uuids tableOpts) = Some t"
    and es: "\<forall>e \<in> set es. ofPackets e" "int (length es) < 2 ^ 63 - 1"
    and k: "(k, q) \<in> set (entries (t_table t))"
  shows "reported q (t_out t) = metricCounters (f_Metric (flowAt t q))"
proof -
  let ?t = "NewTable l0 r ts pm uuids tableOpts"
  note ok = new_table_ok [OF new, of r ts pm uuids tableOpts]
  have v: "t_updateVersion ?t = 0" by (simp add: NewTable_def)
  from run obtain u where u: "Run xxh gp ops es ?t = Some u" and upd: "updateAt ops now u = Some t"
    by (auto simp: Run_append split: bind_splits)
  have "ledger 1 entries u \<and> t_updateVersion u \<le> t_updateVersion ?t + int (length es)"
    using es v by (intro Run_ledger [OF ok(2,1) _ _ u]) simp_all
  then have "ledger 0 entries t" using update_ledger [OF _ Run_ok [OF ok(1) u] _ upd] es v by simp
  from settled [OF this k] show ?thesis by simp
qed

end

end
