(* ===== verification/Flow_Examples.thy ===== *)
theory Flow_Examples
  imports Flow_Table
begin

text \<open>
  Concrete packets, a hash function and a flow table: the inputs at which the properties of the flow table
  are applied.
\<close>

definition ex_mac :: "nat \<Rightarrow> bytes" where
  "ex_mac n = [CHR 0x02, char_of n]"

definition ex_ether :: "nat \<Rightarrow> nat \<Rightarrow> layer" where
  "ex_ether s d = \<lparr>layerData = Ethernet \<lparr>eth_SrcMAC = ex_mac s, eth_DstMAC = ex_mac d, eth_Length = 0, eth_Payload = ''abcd''\<rparr>,
     layerContents = ''0123''\<rparr>"

definition ex_gopacket :: "int \<Rightarrow> nat \<Rightarrow> nat \<Rightarrow> GoPacket" where
  "ex_gopacket ts s d = \<lparr>gp_Layers = [ex_ether s d], gp_Data = ''01234567'',
     gp_Metadata = Some \<lparr>pm_Timestamp = ts, pm_CaptureLength = 8, pm_Length = 8\<rparr>,
     gp_LinkLayer = Some (ex_ether s d), gp_NetworkLayer = None, gp_TransportLayer = None\<rparr>"

definition ex_packet :: "int \<Rightarrow> nat \<Rightarrow> nat \<Rightarrow> Packet" where
  "ex_packet ts s d = packetOf (ex_gopacket ts s d)"

definition ex_flowOf :: "layer_data \<Rightarrow> gflow" where
  "ex_flowOf l = (case l of Ethernet e \<Rightarrow> \<lparr>gf_type = 1, gf_src = eth_SrcMAC e, gf_dst = eth_DstMAC e\<rparr>
     | _ \<Rightarrow> \<lparr>gf_type = 0, gf_src = [], gf_dst = []\<rparr>)"

definition ex_gp :: gopacket where
  "ex_gp = \<lparr>LinkFlow = ex_flowOf, NetworkFlow = ex_flowOf, TransportFlow = ex_flowOf,
     layerName = (\<lambda>t. if t = LayerTypeEthernet then ''Ethernet'' else ''?''), dnsName = (\<lambda>s n. s)\<rparr>"

definition ex_xxh :: xxhash where
  "ex_xxh seed b = length b"

definition ex_opts :: TableOpts where
  "ex_opts = \<lparr>to_RawPacketLimit = 0, to_ExtraTCPMetric = False, to_IPDefrag = False, to_LayerKeyMode = L2KeyMode, to_ExtraLayers = 0\<rparr>"

definition ex_uuids :: UUIDs where
  "ex_uuids = \<lparr>u_NodeTID = ''node'', u_CaptureID = ''capture''\<rparr>"

definition ex_reassembler :: "unit reassembler" where
  "ex_reassembler = \<lparr>ra_state = (), ra_step = (\<lambda>s ip ts g. (s, DefragWhole))\<rparr>"

definition ex_table :: "((nat \<times> nat) list, unit) Table" where
  "ex_table = NewTable [] ex_reassembler [] (NewApplicationPortMapFromConfig [] []) ex_uuids ex_opts"

text \<open>A packet from the first host to the second, one back, and an update.\<close>

definition ex_events :: "event list" where
  "ex_events = [PacketSeq [ex_packet 1000000000 2 3], PacketSeq [ex_packet 1200000000 3 2]]"

definition ex_after :: "((nat \<times> nat) list, unit) Table" where
  "ex_after = the (Run ex_xxh ex_gp (list_lru 4) (ex_events @ [UpdateTick 2000000000]) ex_table)"

text \<open>What the operations read of an example packet.\<close>

lemma ex_layers [simp]:
  "Packet_Layer (ex_packet ts s d) LayerTypeEthernet = Some (ex_ether s d)"
  "t \<noteq> LayerTypeEthernet \<Longrightarrow> Packet_Layer (ex_packet ts s d) t = None"
  "Packet_LinkLayer (ex_packet ts s d) = Some (ex_ether s d)" "Packet_NetworkLayer (ex_packet ts s d) = None"
  "Packet_TransportLayer (ex_packet ts s d) = None" "timestamp (ex_packet ts s d) = Some ts" "p_Length (ex_packet ts s d) = 8"
  by (simp_all add: ex_packet_def packetOf_def ex_gopacket_def ex_ether_def Packet_Layer_def LayerType_def Packet_LinkLayer_def
      Packet_NetworkLayer_def Packet_TransportLayer_def orElse_def timestamp_def)

lemma ex_layerAs [simp]:
  "layerAs (ex_packet ts s d) LayerTypeEthernet Ethernet_of =
     Some \<lparr>eth_SrcMAC = ex_mac s, eth_DstMAC = ex_mac d, eth_Length = 0, eth_Payload = ''abcd''\<rparr>"
  "t \<noteq> LayerTypeEthernet \<Longrightarrow> layerAs (ex_packet ts s d) t view = None"
  by (simp_all add: layerAs_def ex_ether_def)

lemma ex_keys:
  assumes "o_LayerKeyMode opts = L2KeyMode"
  shows "Keys ex_xxh ex_gp (ex_packet ts s d) [] opts = Some (12, 12, 0)"
  using assms
  by (simp add: Keys_def keySwap_def usesLink_def hashTransport_def hashNetwork_def Packet_TransportFlow_def hashApplication_def
      ApplicationFlow_def hashLink_def hashFlow_def Sum64_def Write_def xxHash64_New_def ex_xxh_def ex_gp_def ex_flowOf_def
      ex_ether_def ex_mac_def Let_def)

text \<open>A flow made and updated by such packets.\<close>

abbreviation (input) ex_tableOpts :: Opts where
  "ex_tableOpts \<equiv> t_opts ex_table"

lemma ex_update:
  assumes "f_Link f = Some link" "f_TCPMetric f = None" "ex_mac s \<noteq> ex_mac d"
  shows "Flow_Update ex_gp (ex_packet ts s d) ex_tableOpts f =
    Some (countFlow (fl_A link = MACString (ex_mac s)) 8 (touched ts f))"
  using assms
  by (simp add: Flow_Update_def updateMetrics_def updateMetricsWithLinkLayer_def getLinkLayer_def updateRTT_def wantsLayer_def
      touched_def countFlow_def ex_table_def NewTable_def ex_opts_def Let_def)

lemma ex_init:
  assumes "ex_mac s \<noteq> ex_mac d"
  shows "\<exists>f link. initFromPacket ex_xxh ex_gp keys (ex_packet ts s d) [] uuids ex_tableOpts NewFlow = Some f \<and>
    f_Link f = Some link \<and> f_TCPMetric f = None \<and> f_FinishType f = NOT_FINISHED \<and> f_Last f = UnixMillis ts"
  using assms
  by (cases keys; cases "LayersPath ex_gp (p_Layers (ex_packet ts s d))")
    (simp add: initFromPacket_def ex_update newNetworkLayer_def newLinkLayer_def getLinkLayer_def getNetworkLayer_def
      newApplicationLayer_def Flow_Init_def setUUIDs_def countFlow_def touched_def NewFlow_def zeroFlowState_def Let_def)

lemma ex_get:
  "getOrCreateFlow (list_lru 4) 12 ex_table = (ex_table\<lparr>t_table := [(12, 0)], t_heap := [NewFlow]\<rparr>, 0, True)"
  "getOrCreateFlow (list_lru 4) 12 (ex_table\<lparr>t_table := [(12, 0)], t_heap := h\<rparr>) =
     (ex_table\<lparr>t_table := [(12, 0)], t_heap := h\<rparr>, 0, False)"
  by (simp_all add: getOrCreateFlow_def list_lru_def ex_table_def NewTable_def allocFlow_def addFlow_def dropStat_def)

lemma ex_macs: "ex_mac 2 \<noteq> ex_mac 3"
  by (simp add: ex_mac_def)

text \<open>The flow \<open>f\<close> of the example as a packet of time \<open>ts\<close> leaves it.\<close>

definition ex_flow :: "int \<Rightarrow> Flow \<Rightarrow> bool" where
  "ex_flow ts f \<longleftrightarrow> f_Link f \<noteq> None \<and> f_TCPMetric f = None \<and> f_FinishType f = NOT_FINISHED \<and> f_Last f = UnixMillis ts
     \<and> st_updateVersion (f_state f) = 1"

lemma ex_stamp: "capturePacket (to_RawPacketLimit (t_Opts ex_table)) p ts (stampFlow (t_updateVersion ex_table) f) =
   f\<lparr>f_state := (f_state f)\<lparr>st_ipv4 := None, st_ipv6 := None, st_updateVersion := 1\<rparr>\<rparr>"
  by (simp add: capturePacket_def stampFlow_def ex_table_def NewTable_def ex_opts_def wrap64_def)

lemma ex_first:
  "\<exists>f. processPacketSeq ex_xxh ex_gp (list_lru 4) [ex_packet ts 2 3] ex_table =
     Some (ex_table\<lparr>t_table := [(12, 0)], t_heap := [f]\<rparr>) \<and> ex_flow ts f"
proof -
  have keys: "Keys ex_xxh ex_gp (ex_packet ts 2 3) [] ex_tableOpts = Some (12, 12, 0)"
    by (rule ex_keys) (simp add: ex_table_def NewTable_def ex_opts_def)
  from ex_init [OF ex_macs, of "(12, 12, 0)" ts "t_uuids ex_table"] obtain f link where
    "initFromPacket ex_xxh ex_gp (12, 12, 0) (ex_packet ts 2 3) [] (t_uuids ex_table) ex_tableOpts NewFlow = Some f"
    "f_Link f = Some link" "f_TCPMetric f = None" "f_FinishType f = NOT_FINISHED" "f_Last f = UnixMillis ts" by auto
  then show ?thesis
    by (intro exI [of _ "f\<lparr>f_state := (f_state f)\<lparr>st_ipv4 := None, st_ipv6 := None, st_updateVersion := 1\<rparr>\<rparr>"])
      (simp add: processPacketSeq_def packetToFlow_def keys ex_get ex_stamp flowAt_def setFlow_def ex_flow_def)
qed

lemma ex_second:
  assumes "ex_flow ts0 f"
  shows "\<exists>g. processPacketSeq ex_xxh ex_gp (list_lru 4) [ex_packet ts 3 2] (ex_table\<lparr>t_table := [(12, 0)], t_heap := [f]\<rparr>) =
     Some (ex_table\<lparr>t_table := [(12, 0)], t_heap := [g]\<rparr>) \<and> ex_flow ts g"
proof -
  have keys: "Keys ex_xxh ex_gp (ex_packet ts 3 2) [] ex_tableOpts = Some (12, 12, 0)"
    by (rule ex_keys) (simp add: ex_table_def NewTable_def ex_opts_def)
  obtain link where "f_Link f = Some link" "f_TCPMetric f = None" using assms by (auto simp: ex_flow_def)
  then have upd: "Flow_Update ex_gp (ex_packet ts 3 2) ex_tableOpts f =
      Some (countFlow (fl_A link = MACString (ex_mac 3)) 8 (touched ts f))" using ex_macs by (intro ex_update) auto
  let ?g = "countFlow (fl_A link = MACString (ex_mac 3)) 8 (touched ts f)"
  show ?thesis
    using assms
    by (intro exI [of _ "?g\<lparr>f_state := (f_state ?g)\<lparr>st_ipv4 := None, st_ipv6 := None, st_updateVersion := 1\<rparr>\<rparr>"])
      (simp add: upd processPacketSeq_def packetToFlow_def keys ex_get ex_stamp flowAt_def setFlow_def ex_flow_def
        countFlow_def touched_def)
qed

lemma ex_third:
  assumes "ex_flow 1200000000 g"
  shows "\<exists>t. updateAt (list_lru 4) 2000000000 (ex_table\<lparr>t_table := [(12, 0)], t_heap := [g]\<rparr>) = Some t \<and>
    t_table t = [(12, 0)] \<and> map (\<lambda>f. (f_Last f, f_FinishType f)) (t_heap t) = [(1200, NOT_FINISHED)]"
  using assms
  by (simp add: updateAt_def update_def updateFlow_def updateMetric_def rememberMetric_def sendFlows_def emit_def
      clearRaw_def list_lru_def flowAt_def setFlow_def ex_flow_def ex_table_def NewTable_def ex_opts_def UnixMillis_def go_quot_def
      wrap64_def HoldTimeoutMilliseconds_def Let_def)

lemma ex_runs:
  "\<exists>t. Run ex_xxh ex_gp (list_lru 4) (ex_events @ [UpdateTick 2000000000]) ex_table = Some t \<and> t_table t = [(12, 0)]
     \<and> map (\<lambda>f. (f_Last f, f_FinishType f)) (t_heap t) = [(1200, NOT_FINISHED)]"
proof -
  from ex_first obtain f where f: "processPacketSeq ex_xxh ex_gp (list_lru 4) [ex_packet 1000000000 2 3] ex_table =
     Some (ex_table\<lparr>t_table := [(12, 0)], t_heap := [f]\<rparr>)" "ex_flow 1000000000 f" by blast
  from ex_second [OF f(2), of 1200000000] obtain g where
    g: "processPacketSeq ex_xxh ex_gp (list_lru 4) [ex_packet 1200000000 3 2] (ex_table\<lparr>t_table := [(12, 0)], t_heap := [f]\<rparr>) =
     Some (ex_table\<lparr>t_table := [(12, 0)], t_heap := [g]\<rparr>)" "ex_flow 1200000000 g" by blast
  from ex_third [OF g(2)] show ?thesis by (auto simp: ex_events_def f(1) g(1))
qed

lemma ex_run: "Run ex_xxh ex_gp (list_lru 4) (ex_events @ [UpdateTick 2000000000]) ex_table = Some ex_after"
  and ex_table_after: "t_table ex_after = [(12, 0)]"
  and ex_heap_after: "map (\<lambda>f. (f_Last f, f_FinishType f)) (t_heap ex_after) = [(1200, NOT_FINISHED)]"
  using ex_runs by (auto simp: ex_after_def)

end
