(* ===== verification/Allocators.thy ===== *)
theory Allocators
  imports Flow_Table
begin

text \<open>
  The two allocators: ports of a range (\<^verbatim>\<open>src/common/port_allocator.go\<close>) and flow tables
  (\<^verbatim>\<open>src/flow/allocator.go\<close>).  Their locks make every operation one step.
\<close>

section \<open>Ports\<close>

record PortAllocator =
  pa_MinPort :: int
  pa_MaxPort :: int
  pa_PortMap :: "(int, bool) gomap"

definition NewPortAllocator :: "int \<Rightarrow> int \<Rightarrow> PortAllocator result" where
  "NewPortAllocator mn mx =
     (if mn \<le> 0 \<or> mx < mn then Inl ErrInvalidPortRange
      else Inr \<lparr>pa_MinPort = mn, pa_MaxPort = mx, pa_PortMap = []\<rparr>)"

text \<open>The loop over the candidate ports; \<open>fnc\<close> validates one and may change the state \<open>s\<close> of its caller.\<close>

fun allocateLoop ::
  "(int \<Rightarrow> 's \<Rightarrow> 's \<times> go_error option) \<Rightarrow> int list \<Rightarrow> 's \<Rightarrow> PortAllocator \<Rightarrow> 's \<times> PortAllocator \<times> int result" where
  "allocateLoop fnc [] s p = (s, p, Inl ErrNoPortLeft)"
| "allocateLoop fnc (i # ports) s p =
     (if map_of (pa_PortMap p) i \<noteq> None then allocateLoop fnc ports s p
      else case fnc i s of
             (s, None) \<Rightarrow> (s, p\<lparr>pa_PortMap := gm_set i True (pa_PortMap p)\<rparr>, Inr i)
           | (s, Some _) \<Rightarrow> allocateLoop fnc ports s p)"

definition Allocate ::
  "(int \<Rightarrow> 's \<Rightarrow> 's \<times> go_error option) \<Rightarrow> 's \<Rightarrow> PortAllocator \<Rightarrow> 's \<times> PortAllocator \<times> int result" where
  "Allocate fnc s p = allocateLoop fnc [pa_MinPort p..pa_MaxPort p] s p"

definition Release :: "int \<Rightarrow> PortAllocator \<Rightarrow> PortAllocator \<times> go_error option" where
  "Release i p =
     (if i < pa_MinPort p \<or> i > pa_MaxPort p then (p, Some ErrInvalidPortRange)
      else (p\<lparr>pa_PortMap := gm_del i (pa_PortMap p)\<rparr>, None))"

definition ReleaseAll :: "PortAllocator \<Rightarrow> PortAllocator" where
  "ReleaseAll p = p\<lparr>pa_PortMap := []\<rparr>"

subsection \<open>What an allocation returns\<close>

lemma allocateLoop_Inr:
  "allocateLoop fnc ports s p = (s', p', Inr i) \<Longrightarrow>
   i \<in> set ports \<and> map_of (pa_PortMap p) i = None \<and> p' = p\<lparr>pa_PortMap := gm_set i True (pa_PortMap p)\<rparr>"
  by (induction fnc ports s p rule: allocateLoop.induct) (auto split: if_splits prod.splits option.splits)

text \<open>A callback, with the state it leaves, asked about one port after the other and refusing each of them.\<close>

fun refusesAll :: "(int \<Rightarrow> 's \<Rightarrow> 's \<times> go_error option) \<Rightarrow> int list \<Rightarrow> 's \<Rightarrow> bool" where
  "refusesAll fnc [] s \<longleftrightarrow> True"
| "refusesAll fnc (i # ports) s \<longleftrightarrow> snd (fnc i s) \<noteq> None \<and> refusesAll fnc ports (fst (fnc i s))"

lemma allocateLoop_Inl:
  "allocateLoop fnc ports s p = (s', p', Inl e) \<Longrightarrow>
   p' = p \<and> e = ErrNoPortLeft \<and> refusesAll fnc (filter (\<lambda>i. map_of (pa_PortMap p) i = None) ports) s"
  by (induction fnc ports s p rule: allocateLoop.induct) (auto split: if_splits prod.splits option.splits)

lemma allocateLoop_prefix:
  "allocateLoop fnc ports s p = (s', p', Inr i) \<Longrightarrow>
   \<exists>ps qs. ports = ps @ i # qs \<and> refusesAll fnc (filter (\<lambda>i. map_of (pa_PortMap p) i = None) ps) s"
proof (induction ports arbitrary: s)
  case (Cons j ports)
  obtain s1 e where f: "fnc j s = (s1, e)" by fastforce
  consider "map_of (pa_PortMap p) j \<noteq> None" "allocateLoop fnc ports s p = (s', p', Inr i)"
    | e1 where "map_of (pa_PortMap p) j = None" "e = Some e1" "allocateLoop fnc ports s1 p = (s', p', Inr i)"
    | "j = i"
    using Cons.prems by (auto simp: f split: if_splits option.splits)
  then show ?case
  proof cases
    case 1
    from Cons.IH [OF 1(2)] obtain ps qs where "ports = ps @ i # qs"
      "refusesAll fnc (filter (\<lambda>i. map_of (pa_PortMap p) i = None) ps) s" by blast
    then show ?thesis using 1(1) by - (rule exI [of _ "j # ps"], rule exI [of _ qs], auto)
  next
    case 2
    from Cons.IH [OF 2(3)] obtain ps qs where "ports = ps @ i # qs"
      "refusesAll fnc (filter (\<lambda>i. map_of (pa_PortMap p) i = None) ps) s1" by blast
    then show ?thesis using 2(1,2) by - (rule exI [of _ "j # ps"], rule exI [of _ qs], simp add: f)
  next
    case 3
    then show ?thesis by - (rule exI [of _ "[]"], rule exI [of _ ports], simp)
  qed
qed simp

text \<open>The callback has refused every free port below the one that is taken.\<close>

lemma allocateLoop_first:
  assumes "allocateLoop fnc [mn..mx] s p = (s', p', Inr i)"
  shows "refusesAll fnc (filter (\<lambda>i. map_of (pa_PortMap p) i = None) [mn..i - 1]) s"
proof -
  from allocateLoop_prefix [OF assms] obtain ps qs where ps: "[mn..mx] = ps @ i # qs"
    "refusesAll fnc (filter (\<lambda>i. map_of (pa_PortMap p) i = None) ps) s" by blast
  have i: "mn \<le> i" "i \<le> mx" using arg_cong [OF ps(1), of set] by auto
  have "[mn..mx] = [mn..i - 1] @ i # [i + 1..mx]"
    using i upto_split2 [of mn "i" mx] by (simp add: upto_split3)
  moreover from this have "i \<notin> set [mn..i - 1]" "i \<notin> set [i + 1..mx]" by simp_all
  ultimately have "ps = [mn..i - 1]" using ps(1) append_Cons_eq_iff [of i "[mn..i - 1]" "[i + 1..mx]" ps qs] by simp
  then show ?thesis using ps(2) by simp
qed

text \<open>With a validation that depends on the port only, the first free and valid port is taken.\<close>

lemma allocateLoop_pure:
  "snd (snd (allocateLoop (\<lambda>i s. (s, err i)) ports s p)) =
     (case find (\<lambda>i. map_of (pa_PortMap p) i = None \<and> err i = None) ports of
        Some i \<Rightarrow> Inr i | None \<Rightarrow> Inl ErrNoPortLeft)"
  by (induction ports arbitrary: p) (auto split: option.splits)

subsection \<open>Sequences of operations\<close>

text \<open>An allocator and the set of the ports that were handed out and not given back.\<close>

inductive port_reach :: "int \<Rightarrow> int \<Rightarrow> PortAllocator \<Rightarrow> int set \<Rightarrow> bool" for mn mx where
  fresh: "NewPortAllocator mn mx = Inr p \<Longrightarrow> port_reach mn mx p {}"
| allocated: "port_reach mn mx p held \<Longrightarrow> Allocate fnc (s :: nat) p = (s', p', Inr i) \<Longrightarrow> port_reach mn mx p' (insert i held)"
| refused: "port_reach mn mx p held \<Longrightarrow> Allocate fnc (s :: nat) p = (s', p', Inl e) \<Longrightarrow> port_reach mn mx p' held"
| released: "port_reach mn mx p held \<Longrightarrow> Release i p = (p', None) \<Longrightarrow> port_reach mn mx p' (held - {i})"
| unreleased: "port_reach mn mx p held \<Longrightarrow> Release i p = (p', Some e) \<Longrightarrow> port_reach mn mx p' held"
| cleared: "port_reach mn mx p held \<Longrightarrow> port_reach mn mx (ReleaseAll p) {}"

definition ports_ok :: "int \<Rightarrow> int \<Rightarrow> PortAllocator \<Rightarrow> int set \<Rightarrow> bool" where
  "ports_ok mn mx p held \<longleftrightarrow>
     pa_MinPort p = mn \<and> pa_MaxPort p = mx \<and> dom (map_of (pa_PortMap p)) = held \<and> held \<subseteq> {mn..mx}"

lemma Allocate_ok:
  assumes "ports_ok mn mx p held" "Allocate fnc s p = (s', p', Inr i)"
  shows "ports_ok mn mx p' (insert i held) \<and> i \<notin> held \<and> i \<in> {mn..mx}"
proof -
  have "i \<in> {mn..mx}" "map_of (pa_PortMap p) i = None" "p' = p\<lparr>pa_PortMap := gm_set i True (pa_PortMap p)\<rparr>"
    using assms allocateLoop_Inr [of fnc "[pa_MinPort p..pa_MaxPort p]" s p s' p' i]
    by (simp_all add: Allocate_def ports_ok_def)
  then show ?thesis using assms(1) by (auto simp: ports_ok_def)
qed

lemma port_reach_ok: "port_reach mn mx p held \<Longrightarrow> ports_ok mn mx p held"
proof (induction rule: port_reach.induct)
  case (fresh p)
  then show ?case by (auto simp: NewPortAllocator_def ports_ok_def split: if_splits)
next
  case (allocated p held fnc s s' p' i)
  then show ?case using Allocate_ok [of mn mx p held fnc s s' p' i] by simp
next
  case (refused p held fnc s s' p' e)
  then show ?case by (auto simp: Allocate_def dest: allocateLoop_Inl)
next
  case (released p held i p')
  then show ?case by (auto simp: Release_def ports_ok_def split: if_splits)
next
  case (unreleased p held i p' e)
  then show ?case by (auto simp: Release_def split: if_splits)
next
  case (cleared p held)
  then show ?case by (simp add: ReleaseAll_def ports_ok_def)
qed

lemma ports_ok_free: "ports_ok mn mx p held \<Longrightarrow> map_of (pa_PortMap p) i = None \<longleftrightarrow> i \<notin> held"
  by (auto simp: ports_ok_def)

section \<open>Flow tables\<close>

text \<open>
  The tables are objects that their captures hold and change, so the allocator maps pointers and the store
  \<open>a_heap\<close> holds the tables.
\<close>

record ('l, 's) TableAllocator =
  a_updateEvery :: int
  a_expireAfter :: int
  a_tables :: "(nat, bool) gomap"
  a_heap :: "('l, 's) Table list"

definition NewTableAllocator :: "int \<Rightarrow> int \<Rightarrow> ('l, 's) TableAllocator" where
  "NewTableAllocator updateEvery expireAfter =
     \<lparr>a_updateEvery = updateEvery, a_expireAfter = expireAfter, a_tables = [], a_heap = []\<rparr>"

definition ExpireAfter :: "('l, 's) TableAllocator \<Rightarrow> int" where
  "ExpireAfter a = a_expireAfter a"

text \<open>\<open>newTable\<close> is \<^verbatim>\<open>NewTable\<close> with what it reads of the configuration.\<close>

definition Alloc ::
  "(UUIDs \<Rightarrow> TableOpts \<Rightarrow> ('l, 's) Table) \<Rightarrow> UUIDs \<Rightarrow> TableOpts \<Rightarrow> ('l, 's) TableAllocator
   \<Rightarrow> ('l, 's) TableAllocator \<times> nat" where
  "Alloc newTable uuids opts a =
     (let t = length (a_heap a)
      in (a\<lparr>a_heap := a_heap a @ [newTable uuids opts], a_tables := gm_set t True (a_tables a)\<rparr>, t))"

definition ReleaseTable :: "nat \<Rightarrow> ('l, 's) TableAllocator \<Rightarrow> ('l, 's) TableAllocator" where
  "ReleaseTable t a = a\<lparr>a_tables := gm_del t (a_tables a)\<rparr>"

text \<open>The replies of the tables, in the order the map is ranged over; a table without an answer adds none.\<close>

fun queryAll ::
  "(('l, 's) Table \<Rightarrow> FlowSet option option) \<Rightarrow> ('l, 's) Table list \<Rightarrow> nat list \<Rightarrow> FlowSet list option" where
  "queryAll q h [] = Some []"
| "queryAll q h (t # ts) =
     do { r \<leftarrow> q (h ! t); rs \<leftarrow> queryAll q h ts; Some (case r of Some b \<Rightarrow> b # rs | None \<Rightarrow> rs) }"

definition QueryTable ::
  "'l lru_ops \<Rightarrow> regex_env \<Rightarrow> string list \<Rightarrow> string \<Rightarrow> SearchQuery option \<Rightarrow> ('l, 's) TableAllocator \<Rightarrow> FlowSet list option" where
  "QueryTable ops env keys typ query a =
     queryAll (\<lambda>t. Query ops env keys t typ query) (a_heap a) (map fst (a_tables a))"

text \<open>A query reaches every allocated table that is not released, once.\<close>

definition allocator_ok :: "('l, 's) TableAllocator \<Rightarrow> bool" where
  "allocator_ok a \<longleftrightarrow> gm_wf (a_tables a) \<and> (\<forall>t \<in> fst ` set (a_tables a). t < length (a_heap a))"

lemma gm_keys_set: "fst ` set (gm_set k v m) = insert k (fst ` set m)"
  by (metis dom_map_of_conv_image_fst map_of_gm_set dom_fun_upd option.distinct(1))

lemma gm_keys_del: "fst ` set (gm_del k m) = fst ` set m - {k}"
  by (metis dom_map_of_conv_image_fst map_of_gm_del dom_fun_upd)

lemma Alloc_ok:
  assumes "allocator_ok a" "Alloc new uuids opts a = (a', t)"
  shows "allocator_ok a' \<and> a_heap a' ! t = new uuids opts \<and> fst ` set (a_tables a') = insert t (fst ` set (a_tables a))
    \<and> t \<notin> fst ` set (a_tables a)"
proof -
  have "a' = a\<lparr>a_heap := a_heap a @ [new uuids opts], a_tables := gm_set t True (a_tables a)\<rparr>" "t = length (a_heap a)"
    using assms(2) by (auto simp: Alloc_def Let_def)
  then show ?thesis using assms(1) by (auto simp: allocator_ok_def gm_keys_set)
qed

lemma ReleaseTable_ok:
  "allocator_ok a \<Longrightarrow> allocator_ok (ReleaseTable t a) \<and> fst ` set (a_tables (ReleaseTable t a)) = fst ` set (a_tables a) - {t}"
  by (auto simp: allocator_ok_def ReleaseTable_def gm_keys_del)

end
