(* ===== verification/Interface_Metrics.thy ===== *)
theory Interface_Metrics
  imports Metrics
begin

text \<open>
  The interface counters of \<^verbatim>\<open>src/topology/metrics.go\<close>, the other implementation of the
  \<^verbatim>\<open>Metric\<close> interface.  Its \<^verbatim>\<open>Split\<close> scales the two parts separately.
\<close>

record InterfaceMetric =
  if_Collisions :: int
  if_Multicast :: int
  if_RxBytes :: int
  if_RxCompressed :: int
  if_RxCrcErrors :: int
  if_RxDropped :: int
  if_RxErrors :: int
  if_RxFifoErrors :: int
  if_RxFrameErrors :: int
  if_RxLengthErrors :: int
  if_RxMissedErrors :: int
  if_RxOverErrors :: int
  if_RxPackets :: int
  if_TxAbortedErrors :: int
  if_TxBytes :: int
  if_TxCarrierErrors :: int
  if_TxCompressed :: int
  if_TxDropped :: int
  if_TxErrors :: int
  if_TxFifoErrors :: int
  if_TxHeartbeatErrors :: int
  if_TxPackets :: int
  if_TxWindowErrors :: int
  if_Start :: int
  if_Last :: int

definition InterfaceMetric_GetFieldInt64 :: "InterfaceMetric \<Rightarrow> string \<Rightarrow> int result" where
  "InterfaceMetric_GetFieldInt64 obj = switch
     [(''Collisions'', if_Collisions obj), (''Multicast'', if_Multicast obj),
      (''RxBytes'', if_RxBytes obj), (''RxCompressed'', if_RxCompressed obj),
      (''RxCrcErrors'', if_RxCrcErrors obj), (''RxDropped'', if_RxDropped obj),
      (''RxErrors'', if_RxErrors obj), (''RxFifoErrors'', if_RxFifoErrors obj),
      (''RxFrameErrors'', if_RxFrameErrors obj), (''RxLengthErrors'', if_RxLengthErrors obj),
      (''RxMissedErrors'', if_RxMissedErrors obj), (''RxOverErrors'', if_RxOverErrors obj),
      (''RxPackets'', if_RxPackets obj), (''TxAbortedErrors'', if_TxAbortedErrors obj),
      (''TxBytes'', if_TxBytes obj), (''TxCarrierErrors'', if_TxCarrierErrors obj),
      (''TxCompressed'', if_TxCompressed obj), (''TxDropped'', if_TxDropped obj),
      (''TxErrors'', if_TxErrors obj), (''TxFifoErrors'', if_TxFifoErrors obj),
      (''TxHeartbeatErrors'', if_TxHeartbeatErrors obj), (''TxPackets'', if_TxPackets obj),
      (''TxWindowErrors'', if_TxWindowErrors obj), (''Start'', if_Start obj), (''Last'', if_Last obj)]"

definition InterfaceMetric_SetStart :: "InterfaceMetric \<Rightarrow> int \<Rightarrow> InterfaceMetric" where
  "InterfaceMetric_SetStart im t = im\<lparr>if_Start := t\<rparr>"

definition InterfaceMetric_SetLast :: "InterfaceMetric \<Rightarrow> int \<Rightarrow> InterfaceMetric" where
  "InterfaceMetric_SetLast im t = im\<lparr>if_Last := t\<rparr>"

definition InterfaceMetric_Add :: "InterfaceMetric \<Rightarrow> InterfaceMetric \<Rightarrow> InterfaceMetric" where
  "InterfaceMetric_Add im om =
     \<lparr>if_Collisions = wrap64 (if_Collisions im + if_Collisions om),
      if_Multicast = wrap64 (if_Multicast im + if_Multicast om),
      if_RxBytes = wrap64 (if_RxBytes im + if_RxBytes om),
      if_RxCompressed = wrap64 (if_RxCompressed im + if_RxCompressed om),
      if_RxCrcErrors = wrap64 (if_RxCrcErrors im + if_RxCrcErrors om),
      if_RxDropped = wrap64 (if_RxDropped im + if_RxDropped om),
      if_RxErrors = wrap64 (if_RxErrors im + if_RxErrors om),
      if_RxFifoErrors = wrap64 (if_RxFifoErrors im + if_RxFifoErrors om),
      if_RxFrameErrors = wrap64 (if_RxFrameErrors im + if_RxFrameErrors om),
      if_RxLengthErrors = wrap64 (if_RxLengthErrors im + if_RxLengthErrors om),
      if_RxMissedErrors = wrap64 (if_RxMissedErrors im + if_RxMissedErrors om),
      if_RxOverErrors = wrap64 (if_RxOverErrors im + if_RxOverErrors om),
      if_RxPackets = wrap64 (if_RxPackets im + if_RxPackets om),
      if_TxAbortedErrors = wrap64 (if_TxAbortedErrors im + if_TxAbortedErrors om),
      if_TxBytes = wrap64 (if_TxBytes im + if_TxBytes om),
      if_TxCarrierErrors = wrap64 (if_TxCarrierErrors im + if_TxCarrierErrors om),
      if_TxCompressed = wrap64 (if_TxCompressed im + if_TxCompressed om),
      if_TxDropped = wrap64 (if_TxDropped im + if_TxDropped om),
      if_TxErrors = wrap64 (if_TxErrors im + if_TxErrors om),
      if_TxFifoErrors = wrap64 (if_TxFifoErrors im + if_TxFifoErrors om),
      if_TxHeartbeatErrors = wrap64 (if_TxHeartbeatErrors im + if_TxHeartbeatErrors om),
      if_TxPackets = wrap64 (if_TxPackets im + if_TxPackets om),
      if_TxWindowErrors = wrap64 (if_TxWindowErrors im + if_TxWindowErrors om), if_Start = if_Start im,
      if_Last = if_Last im\<rparr>"

definition InterfaceMetric_Sub :: "InterfaceMetric \<Rightarrow> InterfaceMetric \<Rightarrow> InterfaceMetric" where
  "InterfaceMetric_Sub im om =
     \<lparr>if_Collisions = wrap64 (if_Collisions im - if_Collisions om),
      if_Multicast = wrap64 (if_Multicast im - if_Multicast om),
      if_RxBytes = wrap64 (if_RxBytes im - if_RxBytes om),
      if_RxCompressed = wrap64 (if_RxCompressed im - if_RxCompressed om),
      if_RxCrcErrors = wrap64 (if_RxCrcErrors im - if_RxCrcErrors om),
      if_RxDropped = wrap64 (if_RxDropped im - if_RxDropped om),
      if_RxErrors = wrap64 (if_RxErrors im - if_RxErrors om),
      if_RxFifoErrors = wrap64 (if_RxFifoErrors im - if_RxFifoErrors om),
      if_RxFrameErrors = wrap64 (if_RxFrameErrors im - if_RxFrameErrors om),
      if_RxLengthErrors = wrap64 (if_RxLengthErrors im - if_RxLengthErrors om),
      if_RxMissedErrors = wrap64 (if_RxMissedErrors im - if_RxMissedErrors om),
      if_RxOverErrors = wrap64 (if_RxOverErrors im - if_RxOverErrors om),
      if_RxPackets = wrap64 (if_RxPackets im - if_RxPackets om),
      if_TxAbortedErrors = wrap64 (if_TxAbortedErrors im - if_TxAbortedErrors om),
      if_TxBytes = wrap64 (if_TxBytes im - if_TxBytes om),
      if_TxCarrierErrors = wrap64 (if_TxCarrierErrors im - if_TxCarrierErrors om),
      if_TxCompressed = wrap64 (if_TxCompressed im - if_TxCompressed om),
      if_TxDropped = wrap64 (if_TxDropped im - if_TxDropped om),
      if_TxErrors = wrap64 (if_TxErrors im - if_TxErrors om),
      if_TxFifoErrors = wrap64 (if_TxFifoErrors im - if_TxFifoErrors om),
      if_TxHeartbeatErrors = wrap64 (if_TxHeartbeatErrors im - if_TxHeartbeatErrors om),
      if_TxPackets = wrap64 (if_TxPackets im - if_TxPackets om),
      if_TxWindowErrors = wrap64 (if_TxWindowErrors im - if_TxWindowErrors om), if_Start = if_Start im,
      if_Last = if_Last im\<rparr>"

definition InterfaceMetric_IsZero :: "InterfaceMetric \<Rightarrow> bool" where
  "InterfaceMetric_IsZero im \<longleftrightarrow>
     wrap64 (if_Collisions im + if_Multicast im + if_RxBytes im + if_RxCompressed im + if_RxCrcErrors im +
      if_RxDropped im + if_RxErrors im + if_RxFifoErrors im + if_RxFrameErrors im +
      if_RxLengthErrors im + if_RxMissedErrors im + if_RxOverErrors im + if_RxPackets im +
      if_TxAbortedErrors im + if_TxBytes im + if_TxCarrierErrors im + if_TxCompressed im +
      if_TxDropped im + if_TxErrors im + if_TxFifoErrors im + if_TxHeartbeatErrors im +
      if_TxPackets im + if_TxWindowErrors im) = 0"

definition InterfaceMetric_applyRatio :: "rat \<Rightarrow> InterfaceMetric \<Rightarrow> InterfaceMetric" where
  "InterfaceMetric_applyRatio ratio im =
     \<lparr>if_Collisions = scale ratio (if_Collisions im), if_Multicast = scale ratio (if_Multicast im),
      if_RxBytes = scale ratio (if_RxBytes im), if_RxCompressed = scale ratio (if_RxCompressed im),
      if_RxCrcErrors = scale ratio (if_RxCrcErrors im), if_RxDropped = scale ratio (if_RxDropped im),
      if_RxErrors = scale ratio (if_RxErrors im), if_RxFifoErrors = scale ratio (if_RxFifoErrors im),
      if_RxFrameErrors = scale ratio (if_RxFrameErrors im),
      if_RxLengthErrors = scale ratio (if_RxLengthErrors im),
      if_RxMissedErrors = scale ratio (if_RxMissedErrors im),
      if_RxOverErrors = scale ratio (if_RxOverErrors im), if_RxPackets = scale ratio (if_RxPackets im),
      if_TxAbortedErrors = scale ratio (if_TxAbortedErrors im),
      if_TxBytes = scale ratio (if_TxBytes im),
      if_TxCarrierErrors = scale ratio (if_TxCarrierErrors im),
      if_TxCompressed = scale ratio (if_TxCompressed im), if_TxDropped = scale ratio (if_TxDropped im),
      if_TxErrors = scale ratio (if_TxErrors im), if_TxFifoErrors = scale ratio (if_TxFifoErrors im),
      if_TxHeartbeatErrors = scale ratio (if_TxHeartbeatErrors im),
      if_TxPackets = scale ratio (if_TxPackets im),
      if_TxWindowErrors = scale ratio (if_TxWindowErrors im), if_Start = if_Start im,
      if_Last = if_Last im\<rparr>"

definition InterfaceMetric_Split ::
  "InterfaceMetric \<Rightarrow> int \<Rightarrow> InterfaceMetric option \<times> InterfaceMetric option" where
  "InterfaceMetric_Split im cutAt =
     (if cutAt \<le> if_Start im then (None, Some im)
      else if cutAt \<ge> if_Last im \<or> if_Start im = if_Last im then (Some im, None)
      else let duration = wrap64 (if_Last im - if_Start im);
               ratio1 = fdiv (wrap64 (cutAt - if_Start im)) duration;
               ratio2 = fdiv (wrap64 (if_Last im - cutAt)) duration;
               m1 = InterfaceMetric_SetLast (InterfaceMetric_applyRatio ratio1 im) cutAt;
               m2 = InterfaceMetric_SetStart (InterfaceMetric_applyRatio ratio2 im) cutAt
           in (Some m1, Some m2))"

definition ifCounters :: "InterfaceMetric \<Rightarrow> int list" where
  "ifCounters im = [if_Collisions im, if_Multicast im, if_RxBytes im, if_RxCompressed im, if_RxCrcErrors im,
      if_RxDropped im, if_RxErrors im, if_RxFifoErrors im, if_RxFrameErrors im, if_RxLengthErrors im,
      if_RxMissedErrors im, if_RxOverErrors im, if_RxPackets im, if_TxAbortedErrors im, if_TxBytes im,
      if_TxCarrierErrors im, if_TxCompressed im, if_TxDropped im, if_TxErrors im, if_TxFifoErrors im,
      if_TxHeartbeatErrors im, if_TxPackets im, if_TxWindowErrors im]"

definition ifInterval :: "InterfaceMetric \<Rightarrow> int \<times> int" where
  "ifInterval im = (if_Start im, if_Last im)"

lemma ifCounters_set [simp]:
  "ifCounters (InterfaceMetric_SetStart m t) = ifCounters m" "ifCounters (InterfaceMetric_SetLast m t) = ifCounters m"
  "ifInterval (InterfaceMetric_SetStart m t) = (t, if_Last m)" "ifInterval (InterfaceMetric_SetLast m t) = (if_Start m, t)"
  by (simp_all add: ifCounters_def ifInterval_def InterfaceMetric_SetStart_def InterfaceMetric_SetLast_def)

interpretation ifM: metric ifCounters ifInterval InterfaceMetric_Add InterfaceMetric_Sub InterfaceMetric_IsZero
  InterfaceMetric_applyRatio 23
  by unfold_locales
    (simp_all add: ifCounters_def ifInterval_def InterfaceMetric_Add_def InterfaceMetric_Sub_def
      InterfaceMetric_IsZero_def InterfaceMetric_applyRatio_def add.assoc)

text \<open>Inside the interval neither part has a counter above that of the whole.\<close>

lemma InterfaceMetric_Split_inside:
  assumes "if_Start im < cutAt" "cutAt < if_Last im" "if_Last im - if_Start im < 2 ^ 53"
    and small: "\<forall>x \<in> set (ifCounters im). 0 \<le> x \<and> x < 2 ^ 53"
    and int64: "is_int64 (if_Start im)" "is_int64 (if_Last im)"
  obtains m1 m2 where "InterfaceMetric_Split im cutAt = (Some m1, Some m2)"
    and "ifInterval m1 = (if_Start im, cutAt)" "ifInterval m2 = (cutAt, if_Last im)"
    and "list_all2 (\<lambda>y x. 0 \<le> y \<and> y \<le> x) (ifCounters m1) (ifCounters im)"
    and "list_all2 (\<lambda>y x. 0 \<le> y \<and> y \<le> x) (ifCounters m2) (ifCounters im)"
proof -
  let ?r1 = "fdiv (cutAt - if_Start im) (if_Last im - if_Start im)"
    and ?r2 = "fdiv (if_Last im - cutAt) (if_Last im - if_Start im)"
  have w: "wrap64 (if_Last im - if_Start im) = if_Last im - if_Start im"
    "wrap64 (cutAt - if_Start im) = cutAt - if_Start im" "wrap64 (if_Last im - cutAt) = if_Last im - cutAt"
    using assms by (simp_all add: is_int64_def)
  have r: "0 \<le> ?r1 \<and> ?r1 \<le> 1" "0 \<le> ?r2 \<and> ?r2 \<le> 1" 
    using assms fdiv_unit [of "cutAt - if_Start im" "if_Last im - if_Start im"]
      fdiv_unit [of "if_Last im - cutAt" "if_Last im - if_Start im"] by simp_all
  show ?thesis
  proof (rule that)
    show "InterfaceMetric_Split im cutAt =
        (Some (InterfaceMetric_SetLast (InterfaceMetric_applyRatio ?r1 im) cutAt),
         Some (InterfaceMetric_SetStart (InterfaceMetric_applyRatio ?r2 im) cutAt))"
      using assms(1,2) by (simp add: InterfaceMetric_Split_def Let_def w)
  qed (use r ifM.ratio_between [OF _ _ small] in
      \<open>simp_all add: InterfaceMetric_applyRatio_def [of _ im] ifInterval_def [of "_ im"]\<close>)
qed

end
