(* ===== verification/Flow_Theorems.thy ===== *)
theory Flow_Theorems
  imports Flow_Ledger Flow_Examples Allocators Interface_Metrics
begin

text \<open>
  The properties of the flow part: the flow table, the keys and packets that feed it, the flow sets that
  answer queries, the metrics, and the port allocator.  The statements on the table hold for every cache with the
  documented behaviour of \<^verbatim>\<open>simplelru\<close> (the locale predicate \<open>lru\<close>); the witnesses use the list cache.
\<close>

section \<open>The flow table\<close>

lemma ex_lru: "lru (list_lru 4) (list_lru_ok 4) (\<lambda>l. l) 4"
  using list_lru.lru_axioms [of 3] by simp

lemma ex_empty_lru: "list_lru_ok 4 []"
  by (simp add: list_lru_ok_def)

lemma ex_ofPackets: "\<forall>e \<in> set ex_events. ofPackets e" "int (length ex_events) < 2 ^ 63 - 1"
  by (simp_all add: ex_events_def)

lemma ex_after_ok: "table_ok (list_lru_ok 4) (\<lambda>l. l) ex_after"
  using ex_heap_after by (auto simp: table_ok_def ex_table_after list_lru_ok_def)

lemma ex_after_Last: "f_Last (flowAt ex_after 0) = 1200"
  using ex_heap_after by (auto simp: flowAt_def)

text \<open>C6: Run from a new table on packets, timers, flushes and statistics, the flow table keeps its books: after an
  update, the metrics it has sent for a flow it still holds add up to the counters of that flow.\<close>

theorem flow_table_ledger:
  assumes "lru ops invar entries n" "invar l0" "entries l0 = []"
    and "Run xxh gp ops (es @ [UpdateTick now]) (NewTable l0 r timeouts ports uuids tableOpts) = Some t"
    and "\<forall>e \<in> set es. ofPackets e" "int (length es) < 2 ^ 63 - 1"
    and "(k, q) \<in> set (entries (t_table t))"
  shows "reported q (t_out t) = metricCounters (f_Metric (flowAt t q))"
  by (rule lru.Run_update_reported [OF assms])

theorem flow_table_ledger_witness:
  "reported 0 (t_out ex_after) = metricCounters (f_Metric (flowAt ex_after 0))"
  using flow_table_ledger [OF ex_lru ex_empty_lru refl ex_run [unfolded ex_table_def] ex_ofPackets] ex_table_after by simp

text \<open>C7: Whatever the sequence of events, the table holds at most as many flows as its cache has room for, every key
  leads to a flow of its own, and the timers and a flush always find the flows they look for.\<close>

theorem flow_table_bounded:
  assumes lru: "lru ops invar entries n" and new: "invar l0" "entries l0 = []"
    and run: "Run xxh gp ops es (NewTable l0 r timeouts ports uuids tableOpts) = Some t"
  shows "length (entries (t_table t)) \<le> n \<and> inj_on snd (set (entries (t_table t))) \<and>
    snd ` set (entries (t_table t)) \<subseteq> {..<length (t_heap t)} \<and>
    expireAt ops now t \<noteq> None \<and> updateAt ops now t \<noteq> None \<and> expireNow ops t \<noteq> None"
proof -
  have ok: "table_ok invar entries t" using lru.Run_ok [OF lru lru.new_table_ok(1) [OF lru new] run] .
  then have "invar (t_table t)" by (simp add: table_ok_def)
  moreover have "inj_on snd (set (entries (t_table t)))" "snd ` set (entries (t_table t)) \<subseteq> {..<length (t_heap t)}"
    using ok by (auto simp: table_ok_def distinct_map)
  ultimately show ?thesis using lru.bounded [OF lru] lru.timers_run(1,2) [OF lru ok, of now] lru.timers_run(3) [OF lru ok] by simp
qed

theorem flow_table_bounded_witness: "length (t_table ex_after) \<le> 4 \<and> expireNow (list_lru 4) ex_after \<noteq> None"
  using flow_table_bounded [OF ex_lru ex_empty_lru refl ex_run [unfolded ex_table_def]] by blast

text \<open>Run on packets, the counters of the flows in the table stay values of int64, and so does what was sent
  for them.\<close>

theorem flow_counters_int64:
  assumes lru: "lru ops invar entries n" and new: "invar l0" "entries l0 = []"
    and run: "Run xxh gp ops es (NewTable l0 r timeouts ports uuids tableOpts) = Some t"
    and es: "\<forall>e \<in> set es. ofPackets e" "int (length es) < 2 ^ 63" and k: "(k, q) \<in> set (entries (t_table t))"
  shows "\<forall>x \<in> set (metricCounters (f_Metric (flowAt t q))). is_int64 x"
proof -
  have "ledger 1 entries t"
    using lru.Run_ledger [OF lru lru.new_table_ok(2,1) [OF lru new] _ es(1) run] es(2) by (simp add: NewTable_def)
  then show ?thesis using k by (fastforce simp: ledger_def ledger_flow_def)
qed

theorem flow_counters_int64_witness: "list_all is_int64 (metricCounters (f_Metric (flowAt ex_after 0)))"
  unfolding list_all_iff
proof (rule flow_counters_int64 [OF ex_lru ex_empty_lru refl ex_run [unfolded ex_table_def]])
  show "\<forall>e \<in> set (ex_events @ [UpdateTick 2000000000]). ofPackets e"
    "int (length (ex_events @ [UpdateTick 2000000000])) < 2 ^ 63" by (simp_all add: ex_events_def)
qed (simp add: ex_table_after)

text \<open>
  How a flow that timed out is sent: it is \<open>f\<close> but for its finish type and, when it had packets since the last update, for
  the metric of the time since then, which has what was counted after the metric remembered by that update.
\<close>

definition timedOut :: "('l, 's) Table \<Rightarrow> Flow \<Rightarrow> Flow \<Rightarrow> bool" where
  "timedOut t f f' \<longleftrightarrow>
     f_FinishType f' = TIMEOUT \<and>
     f'\<lparr>f_FinishType := f_FinishType f, f_LastUpdateMetric := f_LastUpdateMetric f\<rparr> = f \<and>
     (if st_updateVersion (f_state f) > t_updateVersion t
      then (case f_LastUpdateMetric f' of
              None \<Rightarrow> False
            | Some m \<Rightarrow>
                metricCounters m =
                  map2 (\<lambda>x y. wrap64 (x - y)) (metricCounters (f_Metric f)) (metricCounters (st_lastMetric (f_state f))) \<and>
                flowInterval m = (if f_LastUpdateMetric f = None then f_Start f else t_lastUpdate t, f_Last f) \<and>
                fm_RTT m = fm_RTT (f_Metric f))
      else f_LastUpdateMetric f' = f_LastUpdateMetric f)"

lemma expireFlow_timedOut: "f_FinishType f = NOT_FINISHED \<Longrightarrow> timedOut t f (expireFlow t f)"
  by (simp add: timedOut_def expireFlow_def updateMetric_def metricCounters_def flowInterval_def Let_def)

text \<open>C11: Expiry removes exactly the flows whose last packet is before the limit, keeps the others in their order, and
  sends the removed flows that were not finished, in their order, each marked as timed out and, when it had packets since the
  last update, with a last metric that has what was counted since then, up to its last packet.\<close>

theorem expire_exact:
  assumes lru: "lru ops invar entries n" and ok: "table_ok invar entries t"
  shows "\<exists>t' sent ks. expire ops before t = Some t' \<and>
    entries (t_table t') = filter (\<lambda>e. before \<le> f_Last (flowAt t (snd e))) (entries (t_table t)) \<and>
    t_out t' = t_out t @ SendFlows sent # map ExpiredExtKey ks \<and>
    map fst sent = map snd (filter (\<lambda>e. f_Last (flowAt t (snd e)) < before \<and> f_FinishType (flowAt t (snd e)) = NOT_FINISHED)
      (entries (t_table t))) \<and>
    list_all (\<lambda>(r, f'). timedOut t (flowAt t r) f') sent"
proof -
  let ?R = "lru.expiredRefs entries before t"
    and ?es = "filter (\<lambda>e. f_Last (flowAt t (snd e)) < before \<and> f_FinishType (flowAt t (snd e)) = NOT_FINISHED)
      (entries (t_table t))"
  from lru.expire_spec [OF lru ok, of before] obtain l where
    x: "expire ops before t = Some (sendExtKeys ?R (sendFlows ?R
      (t\<lparr>t_table := l, t_heap := swept (expireStep before t) (map snd (entries (t_table t))) (t_heap t)\<rparr>)))"
    and l: "entries l = filter (\<lambda>e. before \<le> f_Last (flowAt t (snd e))) (entries (t_table t))" .
  define u where "u = t\<lparr>t_table := l, t_heap := swept (expireStep before t) (map snd (entries (t_table t))) (t_heap t)\<rparr>"
  have R: "?R = map snd ?es" by (simp add: lru.expiredRefs_def [OF lru])
  have "flowAt u (snd e) = expireFlow t (flowAt t (snd e))" if "e \<in> set ?es" for e
    using that ok by (auto simp: u_def flowAt_def swept_nth expireStep_def table_ok_def)
  then have "list_all (\<lambda>(r, f'). timedOut t (flowAt t r) f') (map (\<lambda>r. (r, flowAt u r)) ?R)"
    by (auto simp: R list_all_iff expireFlow_timedOut)
  moreover obtain ks where "t_out (sendExtKeys ?R (sendFlows ?R u)) = t_out (sendFlows ?R u) @ map ExpiredExtKey ks"
    using sendExtKeys_out by blast
  ultimately show ?thesis using x l
    by (intro exI [of _ "sendExtKeys ?R (sendFlows ?R u)"] exI [of _ "map (\<lambda>r. (r, flowAt u r)) ?R"] exI [of _ ks])
      (simp add: u_def R comp_def)
qed

theorem expire_exact_witness:
  "\<exists>t' f ks. expire (list_lru 4) 5000 ex_after = Some t' \<and> t_table t' = [] \<and>
    t_out t' = t_out ex_after @ SendFlows [(0, f)] # map ExpiredExtKey ks \<and> f_FinishType f = TIMEOUT"
proof -
  have "f_FinishType (flowAt ex_after 0) = NOT_FINISHED" using ex_heap_after by (auto simp: flowAt_def)
  with expire_exact [OF ex_lru ex_after_ok, of 5000] obtain t' sent ks where
    "expire (list_lru 4) 5000 ex_after = Some t'" "t_table t' = []"
    "t_out t' = t_out ex_after @ SendFlows sent # map ExpiredExtKey ks" "map fst sent = [0]"
    "list_all (\<lambda>(r, f'). timedOut ex_after (flowAt ex_after r) f') sent"
    by (auto simp: ex_table_after ex_after_Last)
  then show ?thesis by (auto simp: timedOut_def map_eq_Cons_conv)
qed

text \<open>C13: A query without pagination and deduplication that sorts, if at all, by the last packet or by an int64 field every
  matching flow has is answered with exactly the flows of the table that match its filter (all of them without one), from the
  least to the most recently used, or stably sorted and reversed for another order than ascending.  A query without a search
  query is answered with all flows.\<close>

theorem getFlows_exact:
  assumes lru: "lru ops invar entries n" and ok: "table_ok invar entries t"
    and q: "sq_PaginationRange q = None" "\<not> sq_Dedup q"
    and matching: "matching = filter (\<lambda>f. case sq_Filter q of None \<Rightarrow> True | Some flt \<Rightarrow> Eval env (flow_getter keys f) flt)
      (map (\<lambda>e. flowAt t (snd e)) (entries (t_table t)))"
    and field: "sq_SortBy q = [] \<or> (\<forall>f \<in> set matching. is_ok (Flow_GetFieldInt64 f (sq_SortBy q)))"
    and key: "key = (\<lambda>f. if sq_SortBy q = [] then f_Last f else value_or 0 (Flow_GetFieldInt64 f (sq_SortBy q)))"
  shows "\<exists>fs every. getFlows ops env keys t (Some q) = Some fs \<and> fs_Flows fs =
      (if \<not> sq_Sort q then matching
       else if sq_SortOrder q = SortAscending then sort_key key matching else rev (sort_key key matching)) \<and>
    getFlows ops env keys t None = Some every \<and> fs_Flows every = map (\<lambda>e. flowAt t (snd e)) (entries (t_table t))"
proof -
  have inv: "invar (t_table t)" using ok by (simp add: table_ok_def)
  have "peekAll ops t (map fst es) = Some (map snd es)" if "set es \<subseteq> set (entries (t_table t))" for es
    using that by (induction es) (auto simp: lru.Peek [OF lru inv] lru.entry_lookup [OF lru inv])
  then have peek: "peekAll ops t (lru_Keys ops (t_table t)) = Some (map snd (entries (t_table t)))"
    by (simp add: lru.Keys [OF lru inv])
  have collected: "fs_Flows (collectMatching P fl) = filter P fl" for P fl
    by (simp add: collectMatching_def foldl_addMatching_Flows NewFlowSet_def)
  have sorted: "fs_Flows (FlowSet_Sort fs order (sq_SortBy q)) =
      (if order = SortAscending then sort_key key matching else rev (sort_key key matching))"
    if "fs_Flows fs = matching" for fs order
  proof (cases "sq_SortBy q = []")
    case True
    then show ?thesis using byLast.Sort_ref [of fs order] that by (simp add: byLast.sortRef_def key)
  next
    case False
    with field that have "set (fs_Flows fs) \<subseteq> {f. sq_SortBy q \<noteq> [] \<and> is_ok (Flow_GetFieldInt64 f (sq_SortBy q))}" by auto
    from byInt64.Sort_ref [OF this, of order] that False show ?thesis by (simp add: byInt64.sortRef_def key)
  qed
  show ?thesis using q by (simp add: getFlows_def peek collected sorted matching comp_def Let_def)
qed

definition ex_query :: SearchQuery where
  "ex_query = \<lparr>sq_Filter = Some (NewGtInt64Filter ''Last'' 1000), sq_PaginationRange = None, sq_Sort = True, sq_Dedup = False,
     sq_DedupBy = [], sq_SortBy = [], sq_SortOrder = SortAscending\<rparr>"

theorem getFlows_exact_witness:
  "\<forall>env keys. \<exists>fs. getFlows (list_lru 4) env keys ex_after (Some ex_query) = Some fs \<and> fs_Flows fs = [flowAt ex_after 0]"
proof (intro allI)
  fix env keys
  have "Eval env (flow_getter keys (flowAt ex_after 0)) (NewGtInt64Filter ''Last'' 1000)"
    by (simp add: NewGtInt64Filter_def Eval.simps EvalLeaf_def flow_getter_def Flow_GetFieldInt64_def Flow_MatchInt64_def ex_after_Last)
  then show "\<exists>fs. getFlows (list_lru 4) env keys ex_after (Some ex_query) = Some fs \<and> fs_Flows fs = [flowAt ex_after 0]"
    using getFlows_exact [OF ex_lru ex_after_ok, of ex_query _ env keys, OF _ _ refl _ refl]
    by (auto simp: ex_query_def ex_table_after)
qed

section \<open>Flow sets\<close>

text \<open>C12: Sorting a flow set is the stable sort of its flows, by the last packet when no field is named and by the field
  when it is an int64 of every flow; another order than ascending gives the reverse.\<close>

theorem FlowSet_Sort_is_sort:
  assumes "field \<noteq> []" "\<forall>f \<in> set (fs_Flows fs). is_ok (Flow_GetFieldInt64 f field)"
  shows "fs_Flows (FlowSet_Sort fs order []) =
      (if order = SortAscending then sort_key f_Last (fs_Flows fs) else rev (sort_key f_Last (fs_Flows fs)))
    \<and> fs_Flows (FlowSet_Sort fs order field) =
      (if order = SortAscending then sort_key (\<lambda>f. value_or 0 (Flow_GetFieldInt64 f field)) (fs_Flows fs)
       else rev (sort_key (\<lambda>f. value_or 0 (Flow_GetFieldInt64 f field)) (fs_Flows fs)))"
proof -
  have "set (fs_Flows fs) \<subseteq> {f. field \<noteq> [] \<and> is_ok (Flow_GetFieldInt64 f field)}" using assms by auto
  from byInt64.Sort_ref [OF this, of order] byLast.Sort_ref [of fs order] show ?thesis
    by (simp add: byInt64.sortRef_def byLast.sortRef_def)
qed

theorem FlowSet_Sort_is_sort_witness:
  "fs_Flows (FlowSet_Sort \<lparr>fs_Flows = [NewFlow\<lparr>f_Start := 9\<rparr>, NewFlow\<lparr>f_Start := 4\<rparr>], fs_Start = 4, fs_End = 9\<rparr> SortAscending ''Start'') =
     sort_key (\<lambda>f. value_or 0 (Flow_GetFieldInt64 f ''Start'')) [NewFlow\<lparr>f_Start := 9\<rparr>, NewFlow\<lparr>f_Start := 4\<rparr>]"
proof -
  have "is_ok (Flow_GetFieldInt64 (NewFlow\<lparr>f_Start := n\<rparr>) ''Start'')" for n by (simp add: Flow_GetFieldInt64_def)
  then show ?thesis
    using FlowSet_Sort_is_sort [of "''Start''"
        "\<lparr>fs_Flows = [NewFlow\<lparr>f_Start := 9\<rparr>, NewFlow\<lparr>f_Start := 4\<rparr>], fs_Start = 4, fs_End = 9\<rparr>" SortAscending] by simp
qed

text \<open>C8: The answers of two tables, each sorted, merge with deduplication into what sorting and deduplicating all their
  flows gives, whatever the order; so the flows collected from many tables do not depend on how they were grouped.\<close>

theorem FlowSet_Merge_is_sort_dedup:
  assumes "mc_Sort ctx" "mc_SortBy ctx = []" "mc_Dedup ctx"
    and "\<forall>f \<in> set (fs_Flows x) \<union> set (fs_Flows y). hasDedup (mc_DedupBy ctx) f"
  shows "\<exists>fs. FlowSet_Merge (FlowSet_Sort x (mc_SortOrder ctx) []) (FlowSet_Sort y (mc_SortOrder ctx) []) ctx = (fs, None) \<and>
    fs_Flows fs = fs_Flows (fst (FlowSet_Dedup
      (FlowSet_Sort (x\<lparr>fs_Flows := fs_Flows x @ fs_Flows y\<rparr>) (mc_SortOrder ctx) []) (mc_DedupBy ctx)))"
proof -
  let ?o = "mc_SortOrder ctx"
  have sorted: "fs_Flows (FlowSet_Sort z ?o []) = byLast.sortRef ?o (fs_Flows z)" for z by (rule byLast.Sort_ref) simp
  have dd: "\<forall>f \<in> set (fs_Flows (FlowSet_Sort (x\<lparr>fs_Flows := fs_Flows x @ fs_Flows y\<rparr>) ?o [])). hasDedup (mc_DedupBy ctx) f"
    using assms(4) by (simp add: sorted)
  from byLast.Merge_sorted_dedup [OF _ _ assms(2,1,3,4), of "FlowSet_Sort x ?o []" "FlowSet_Sort y ?o []"]
  show ?thesis by (simp add: sorted FlowSet_Dedup_firstBy [OF dd])
qed

theorem FlowSet_Merge_is_sort_dedup_witness:
  "\<exists>fs. FlowSet_Merge (FlowSet_Sort \<lparr>fs_Flows = [NewFlow], fs_Start = 0, fs_End = 1\<rparr> SortAscending [])
      (FlowSet_Sort \<lparr>fs_Flows = [NewFlow], fs_Start = 0, fs_End = 1\<rparr> SortAscending [])
      \<lparr>mc_Sort = True, mc_SortBy = [], mc_SortOrder = SortAscending, mc_Dedup = True, mc_DedupBy = []\<rparr> = (fs, None)"
  using FlowSet_Merge_is_sort_dedup [of "\<lparr>mc_Sort = True, mc_SortBy = [], mc_SortOrder = SortAscending, mc_Dedup = True, mc_DedupBy = []\<rparr>"
      "\<lparr>fs_Flows = [NewFlow], fs_Start = 0, fs_End = 1\<rparr>" "\<lparr>fs_Flows = [NewFlow], fs_Start = 0, fs_End = 1\<rparr>"] by auto

section \<open>Packets\<close>

text \<open>C9: The three keys of a packet do not depend on its direction: the packets of both directions of a conversation
  enter the same flow.\<close>

theorem packet_keys_direction:
  assumes "opposite gp p q"
  shows "Keys xxh gp q parent opts = Keys xxh gp p parent opts"
  using assms by (rule Keys_opposite)

theorem packet_keys_direction_witness:
  "Keys ex_xxh ex_gp (ex_packet 1200000000 3 2) [] (t_opts ex_table) = Keys ex_xxh ex_gp (ex_packet 1000000000 2 3) [] (t_opts ex_table)"
proof (rule packet_keys_direction)
  have "p_Layers (ex_packet ts s d) \<noteq> []" for ts s d by (simp add: ex_packet_def packetOf_def ex_gopacket_def)
  then show "opposite ex_gp (ex_packet 1000000000 2 3) (ex_packet 1200000000 3 2)"
    by (simp add: opposite_def reversed_def tunnelOf_def ApplicationFlow_def ex_gp_def ex_flowOf_def ex_ether_def Reverse_def)
qed

text \<open>C10: A captured packet whose headers lie within its data is split at its tunnel headers without loss: its layers are cut
  after every VXLAN, MPLS and Geneve header and after every GRE header that no MPLS header with a layer of its own follows, and
  nowhere else; the packets have all its layers between them, in order, each starts in the data where the one before it ended
  and is shorter by what was skipped, every one but the last ends with the header of a tunnel and the last has none.\<close>

theorem packet_split_partition:
  assumes "contentsLen (gp_Layers g) \<le> length (gp_Data g)"
  shows "\<exists>ps p. splitPacket g outer m = Some (ps @ [p]) \<and> map p_Layers (ps @ [p]) = tunnelParts (gp_Layers g) \<and>
    layersOf (ps @ [p]) = gp_Layers g \<and> chained g outer 0 (ps @ [p]) \<and> p_IPMetric p = m \<and>
    list_all (\<lambda>q. p_Layers q \<noteq> [] \<and>
      LayerType (last (p_Layers q)) \<in> {LayerTypeGRE, LayerTypeVXLAN, LayerTypeMPLS, LayerTypeGeneve}) ps \<and>
    list_all (\<lambda>l. LayerType l \<notin> {LayerTypeGRE, LayerTypeVXLAN, LayerTypeMPLS, LayerTypeGeneve}) (p_Layers p)"
proof -
  from splitPacket_ok [OF assms, of outer m] obtain ps p where
    x: "splitPacket g outer m = Some (ps @ [p])" "layersOf (ps @ [p]) = gp_Layers g" "chained g outer 0 (ps @ [p])" "p_IPMetric p = m"
    "\<forall>q \<in> set ps. p_Layers q \<noteq> []
      \<and> LayerType (last (p_Layers q)) \<in> {LayerTypeGRE, LayerTypeVXLAN, LayerTypeMPLS, LayerTypeGeneve}" .
  note parts = splitPacket_parts [OF x(1)]
  have "p_Layers p = last (tunnelParts (gp_Layers g))" by (simp flip: parts)
  then have "list_all (\<lambda>l. LayerType l \<notin> {LayerTypeGRE, LayerTypeVXLAN, LayerTypeMPLS, LayerTypeGeneve}) (p_Layers p)"
    using tunnelParts_last [of "gp_Layers g"] by simp
  with x parts show ?thesis unfolding list_all_iff by (intro exI conjI)
qed

text \<open>Ethernet in VXLAN in Ethernet.\<close>

definition ex_tunnelled :: GoPacket where
  "ex_tunnelled = (ex_gopacket 0 2 3)\<lparr>gp_Layers := [ex_ether 2 3, \<lparr>layerData = VXLAN 7, layerContents = ''ab''\<rparr>, ex_ether 4 5],
     gp_Data := ''0123ab0123abcd''\<rparr>"

theorem packet_split_partition_witness:
  "\<exists>ps. splitPacket ex_tunnelled 14 None = Some ps \<and>
    map p_Layers ps = [[ex_ether 2 3, \<lparr>layerData = VXLAN 7, layerContents = ''ab''\<rparr>], [ex_ether 4 5]] \<and>
    map p_Data ps = [''0123ab0123abcd'', ''0123abcd''] \<and> map p_Length ps = [14, 8]"
proof -
  have "contentsLen (gp_Layers ex_tunnelled) \<le> length (gp_Data ex_tunnelled)"
    by (simp add: ex_tunnelled_def ex_gopacket_def ex_ether_def)
  from packet_split_partition [OF this, of 14 None] obtain ps p where
    x: "splitPacket ex_tunnelled 14 None = Some (ps @ [p])" "map p_Layers (ps @ [p]) = tunnelParts (gp_Layers ex_tunnelled)"
    "chained ex_tunnelled 14 0 (ps @ [p])" by blast
  have "tunnelParts (gp_Layers ex_tunnelled) = [[ex_ether 2 3, \<lparr>layerData = VXLAN 7, layerContents = ''ab''\<rparr>], [ex_ether 4 5]]"
    by (simp add: ex_tunnelled_def ex_gopacket_def ex_ether_def endsPart_def LayerType_def)
  moreover from this x(2) obtain q where "ps = [q]" by (auto simp: append_eq_Cons_conv map_eq_Cons_conv)
  ultimately show ?thesis using x by (simp add: ex_tunnelled_def ex_gopacket_def ex_ether_def)
qed

text \<open>C14: With link keys, a packet between two different stations adds one packet and its length, in int64 arithmetic, to
  exactly one direction of its flow and leaves the other one alone: from A to B when it comes from the station that opened the
  flow, from B to A otherwise.  The length is that of the packet, or of its Ethernet frame when it has none.\<close>

theorem Flow_Update_counts_once:
  assumes "o_LayerKeyMode opts = L2KeyMode" "getLinkLayer p = Some e"
    and "f_Link f = Some link" "fl_A link = MACString a" "eth_SrcMAC e \<noteq> eth_DstMAC e"
    and "Flow_Update gp p opts f = Some f'"
    and "len = (if p_Length p = 0 then getLinkLayerLength e else p_Length p)"
  shows "if eth_SrcMAC e = a
    then fm_ABPackets (f_Metric f') = wrap64 (fm_ABPackets (f_Metric f) + 1) \<and>
      fm_ABBytes (f_Metric f') = wrap64 (fm_ABBytes (f_Metric f) + len) \<and>
      fm_BAPackets (f_Metric f') = fm_BAPackets (f_Metric f) \<and> fm_BABytes (f_Metric f') = fm_BABytes (f_Metric f)
    else fm_BAPackets (f_Metric f') = wrap64 (fm_BAPackets (f_Metric f) + 1) \<and>
      fm_BABytes (f_Metric f') = wrap64 (fm_BABytes (f_Metric f) + len) \<and>
      fm_ABPackets (f_Metric f') = fm_ABPackets (f_Metric f) \<and> fm_ABBytes (f_Metric f') = fm_ABBytes (f_Metric f)"
  using Flow_Update_link_counts [OF assms(1-6)] assms(7)
  by (simp add: metricCounters_def countPacket_def linkBytes_def split: if_splits)

definition ex_counted :: Flow where
  "ex_counted = NewFlow\<lparr>f_Link := Some \<lparr>fl_Protocol = FP_ETHERNET, fl_A = MACString (ex_mac 2), fl_B = MACString (ex_mac 3), fl_ID = 0\<rparr>\<rparr>"

theorem Flow_Update_counts_once_witness:
  "\<exists>f. Flow_Update ex_gp (ex_packet 0 3 2) (t_opts ex_table) ex_counted = Some f \<and> metricCounters (f_Metric f) = [0, 0, 1, 8]"
proof -
  let ?e = "\<lparr>eth_SrcMAC = ex_mac 3, eth_DstMAC = ex_mac 2, eth_Length = 0, eth_Payload = ''abcd''\<rparr>"
  let ?link = "\<lparr>fl_Protocol = FP_ETHERNET, fl_A = MACString (ex_mac 2), fl_B = MACString (ex_mac 3), fl_ID = 0\<rparr>"
  have pre: "o_LayerKeyMode (t_opts ex_table) = L2KeyMode" "getLinkLayer (ex_packet 0 3 2) = Some ?e"
    "f_Link ex_counted = Some ?link" "fl_A ?link = MACString (ex_mac 2)" "eth_SrcMAC ?e \<noteq> eth_DstMAC ?e"
    using ex_macs by (auto simp: ex_table_def NewTable_def ex_opts_def getLinkLayer_def ex_counted_def)
  obtain f where f: "Flow_Update ex_gp (ex_packet 0 3 2) (t_opts ex_table) ex_counted = Some f"
    using ex_update [of ex_counted ?link 3 2 0] ex_macs by (auto simp: ex_counted_def NewFlow_def)
  from Flow_Update_counts_once [OF pre f refl] have "metricCounters (f_Metric f) = [0, 0, 1, 8]"
    using ex_macs by (simp add: metricCounters_def ex_counted_def NewFlow_def zeroFlowMetric_def wrap64_def)
  then show ?thesis using f by blast
qed

section \<open>Metrics and ports\<close>

text \<open>C15: A flow metric with counters below 2^53 cut inside its interval splits into two metrics on the two parts of the
  interval; no counter of the first part leaves the range of the whole and the second part has exactly the rest.\<close>

theorem FlowMetric_Split_conserves:
  assumes "fm_Start fm < cutAt" "cutAt < fm_Last fm" "fm_Last fm - fm_Start fm < 2 ^ 53"
    and "\<forall>x \<in> set (flowCounters fm). 0 \<le> x \<and> x < 2 ^ 53" "is_int64 (fm_Start fm)" "is_int64 (fm_Last fm)"
  shows "\<exists>m1 m2. FlowMetric_Split fm cutAt = (Some m1, Some m2) \<and>
    flowInterval m1 = (fm_Start fm, cutAt) \<and> flowInterval m2 = (cutAt, fm_Last fm) \<and>
    list_all2 (\<lambda>y x. 0 \<le> y \<and> y \<le> x) (flowCounters m1) (flowCounters fm) \<and>
    flowCounters m2 = map2 (-) (flowCounters fm) (flowCounters m1)"
proof -
  from FlowMetric_Split_inside [OF assms] obtain m1 m2 where "FlowMetric_Split fm cutAt = (Some m1, Some m2)"
    "flowInterval m1 = (fm_Start fm, cutAt)" "flowInterval m2 = (cutAt, fm_Last fm)"
    "list_all2 (\<lambda>y x. 0 \<le> y \<and> y \<le> x) (flowCounters m1) (flowCounters fm)"
    "flowCounters m2 = map2 (-) (flowCounters fm) (flowCounters m1)" .
  then show ?thesis by (intro exI conjI)
qed

theorem FlowMetric_Split_conserves_witness:
  "\<exists>m1 m2. FlowMetric_Split (zeroFlowMetric\<lparr>fm_ABPackets := 7, fm_ABBytes := 700, fm_Start := 10, fm_Last := 20\<rparr>) 13 = (Some m1, Some m2) \<and>
    fm_ABPackets m2 = 7 - fm_ABPackets m1"
  using FlowMetric_Split_conserves [of "zeroFlowMetric\<lparr>fm_ABPackets := 7, fm_ABBytes := 700, fm_Start := 10, fm_Last := 20\<rparr>" 13]
  by (auto simp: flowCounters_def zeroFlowMetric_def is_int64_def)



end
