(* ===== verification/Range_Regex.thy ===== *)
theory Range_Regex
  imports Layers Go_Values
begin

text \<open>
  Regular expressions for number ranges and address ranges (\<^verbatim>\<open>src/common/types.go\<close>): a range of numbers is cut
  at the numbers that end in nines or precede zeros, and each piece has a pattern of digits.  The patterns are strings, as in the
  code; \<open>regex\<close> is the syntax of the expressions the code writes, \<open>render\<close> their notation and \<open>matches\<close>
  what a whole match of them accepts.  \<open>None\<close> is a panic or a loop that does not end.
\<close>

section \<open>The expressions\<close>

datatype atom = Lit char | Rng char char | Times char char nat | Group "atom list list" | Opt atom

type_synonym regex = "atom list list"

fun rests :: "atom \<Rightarrow> string \<Rightarrow> string list"
  and restsSeq :: "atom list \<Rightarrow> string \<Rightarrow> string list"
  and restsAlts :: "atom list list \<Rightarrow> string \<Rightarrow> string list" where
  "rests (Lit a) s = (case s of [] \<Rightarrow> [] | c # t \<Rightarrow> if c = a then [t] else [])"
| "rests (Rng a b) s = (case s of [] \<Rightarrow> [] | c # t \<Rightarrow> if a \<le> c \<and> c \<le> b then [t] else [])"
| "rests (Times a b n) s =
     (if n \<le> length s \<and> list_all (\<lambda>c. a \<le> c \<and> c \<le> b) (take n s) then [drop n s] else [])"
| "rests (Group alts) s = restsAlts alts s"
| "rests (Opt a) s = s # rests a s"
| "restsSeq [] s = [s]"
| "restsSeq (a # q) s = concat (map (\<lambda>t. restsSeq q t) (rests a s))"
| "restsAlts [] s = []"
| "restsAlts (q # qs) s = restsSeq q s @ restsAlts qs s"

definition matches :: "regex \<Rightarrow> string \<Rightarrow> bool" where
  "matches r s \<longleftrightarrow> [] \<in> set (restsAlts r s)"

text \<open>Dots and slashes are escaped.\<close>

definition renderLit :: "char \<Rightarrow> string" where
  "renderLit c = (if c = CHR ''.'' \<or> c = CHR ''/'' then [CHR 0x5C, c] else [c])"

fun renderAtom :: "atom \<Rightarrow> string" and renderSeq :: "atom list \<Rightarrow> string" and render :: "atom list list \<Rightarrow> string" where
  "renderAtom (Lit c) = renderLit c"
| "renderAtom (Rng a b) = ''['' @ [a] @ ''-'' @ [b] @ '']''"
| "renderAtom (Times a b n) = ''['' @ [a] @ ''-'' @ [b] @ '']'' @ (if n > 1 then ''{'' @ FormatUint n 10 @ ''}'' else [])"
| "renderAtom (Group alts) = ''('' @ render alts @ '')''"
| "renderAtom (Opt a) = renderAtom a @ ''?''"
| "renderSeq [] = []"
| "renderSeq (a # q) = renderAtom a @ renderSeq q"
| "render [] = []"
| "render (q # qs) = renderSeq q @ (if qs = [] then [] else ''|'' @ render qs)"

text \<open>
  The expressions whose notation has one reading: the literals are digits and the escaped dots and slashes, so none of the
  characters of the notation itself.
\<close>

fun plainAtom :: "atom \<Rightarrow> bool" and plainSeq :: "atom list \<Rightarrow> bool" and plain :: "atom list list \<Rightarrow> bool" where
  "plainAtom (Lit c) \<longleftrightarrow> (CHR ''0'' \<le> c \<and> c \<le> CHR ''9'') \<or> c = CHR ''.'' \<or> c = CHR ''/''"
| "plainAtom (Rng a b) \<longleftrightarrow> CHR ''0'' \<le> a \<and> a \<le> b \<and> b \<le> CHR ''9''"
| "plainAtom (Times a b n) \<longleftrightarrow> 0 < n \<and> CHR ''0'' \<le> a \<and> a \<le> b \<and> b \<le> CHR ''9''"
| "plainAtom (Group alts) \<longleftrightarrow> plain alts"
| "plainAtom (Opt a) \<longleftrightarrow> plainAtom a \<and> \<not> (case a of Opt _ \<Rightarrow> True | _ \<Rightarrow> False)"
| "plainSeq [] \<longleftrightarrow> True"
| "plainSeq (a # q) \<longleftrightarrow> plainAtom a \<and> plainSeq q"
| "plain [] \<longleftrightarrow> True"
| "plain (q # qs) \<longleftrightarrow> plainSeq q \<and> plain qs"

section \<open>Ranges\<close>

definition Itoa :: "int \<Rightarrow> string" where
  "Itoa i = (if i < 0 then CHR ''-'' # FormatUint (nat (- i)) 10 else FormatUint (nat i) 10)"

text \<open>
  The value of \<^verbatim>\<open>strconv.Atoi\<close> with its error dropped, on digits with an optional minus sign: a number out of
  range gives the nearest \<^verbatim>\<open>int\<close>.
\<close>

definition AtoiDigits :: "string \<Rightarrow> int" where
  "AtoiDigits s = (if s \<noteq> [] \<and> hd s = CHR ''-'' then max (- (2 ^ 63)) (- digits_value (tl s))
     else min (2 ^ 63 - 1) (digits_value s))"

definition fillByNines :: "int \<Rightarrow> nat \<Rightarrow> int" where
  "fillByNines i count =
     (let str = Itoa i; prefix = (if count < length str then take (length str - count) str else [])
      in AtoiDigits (prefix @ replicate count (CHR ''9'')))"

definition go_rem :: "int \<Rightarrow> int \<Rightarrow> int" where
  "go_rem a b = a - b * go_quot a b"

definition fillByZeros :: "int \<Rightarrow> nat \<Rightarrow> int" where
  "fillByZeros i count = i - go_rem i (10 ^ count)"

partial_function (option) ninesLoop :: "int \<Rightarrow> int \<Rightarrow> nat \<Rightarrow> int list \<Rightarrow> int list option" where
  [code]: "ninesLoop mn mx count stops =
     (let stop = fillByNines mn count
      in if mn \<le> stop \<and> stop < mx then ninesLoop mn mx (count + 1) (stop # stops) else Some stops)"

partial_function (option) zerosLoop :: "int \<Rightarrow> int \<Rightarrow> nat \<Rightarrow> int list \<Rightarrow> int list option" where
  [code]: "zerosLoop mn mx count stops =
     (let stop = fillByZeros (mx + 1) count - 1
      in if mn < stop \<and> stop \<le> mx then zerosLoop mn mx (count + 1) (stop # stops) else Some stops)"

text \<open>The stops are the keys of a map, so without duplicates, and sorted.\<close>

definition splitToRanges :: "int \<Rightarrow> int \<Rightarrow> int list option" where
  "splitToRanges mn mx =
     (case ninesLoop mn mx 1 [mx] of
        None \<Rightarrow> None
      | Some stops \<Rightarrow> map_option (\<lambda>stops. sort (remdups stops)) (zerosLoop mn mx 1 stops))"

fun patternLoop :: "string \<Rightarrow> string \<Rightarrow> string \<Rightarrow> nat \<Rightarrow> (string \<times> nat) option" where
  "patternLoop [] stop pattern anyDigitCount = Some (pattern, anyDigitCount)"
| "patternLoop (a # start) [] pattern anyDigitCount = None"
| "patternLoop (a # start) (b # stop) pattern anyDigitCount =
     (if a = b then patternLoop start stop (pattern @ [a]) anyDigitCount
      else if a \<noteq> CHR ''0'' \<or> b \<noteq> CHR ''9''
      then patternLoop start stop (pattern @ ''['' @ [a] @ ''-'' @ [b] @ '']'') anyDigitCount
      else patternLoop start stop pattern (anyDigitCount + 1))"

definition rangeToPattern :: "int \<Rightarrow> int \<Rightarrow> string option" where
  "rangeToPattern start stop =
     map_option (\<lambda>(pattern, anyDigitCount).
         pattern @ (if anyDigitCount > 0 then ''[0-9]'' else []) @
         (if anyDigitCount > 1 then ''{'' @ FormatUint anyDigitCount 10 @ ''}'' else []))
       (patternLoop (Itoa start) (Itoa stop) [] 0)"

fun patternsLoop :: "int \<Rightarrow> int list \<Rightarrow> string list option" where
  "patternsLoop start [] = Some []"
| "patternsLoop start (stop # stops) =
     (case rangeToPattern start stop of
        None \<Rightarrow> None
      | Some p \<Rightarrow> map_option (\<lambda>ps. p # ps) (patternsLoop (stop + 1) stops))"

definition splitToPatterns :: "int \<Rightarrow> int \<Rightarrow> string list option" where
  "splitToPatterns mn mx = Option.bind (splitToRanges mn mx) (patternsLoop mn)"

definition RangeToRegex :: "int \<Rightarrow> int \<Rightarrow> string option" where
  "RangeToRegex mn mx = map_option (joinWith ''|'') (splitToPatterns mn mx)"

section \<open>Decimal digits\<close>

definition dig :: "nat \<Rightarrow> char" where
  "dig d = hexDigit d"

abbreviation (input) dec :: "nat \<Rightarrow> string" where
  "dec n \<equiv> FormatUint n 10"

text \<open>The digits before the last one, and \<open>k\<close> digits with leading zeros.\<close>

definition pre :: "nat \<Rightarrow> string" where
  "pre p = (if p = 0 then [] else dec p)"

fun pad :: "nat \<Rightarrow> nat \<Rightarrow> string" where
  "pad 0 r = []"
| "pad (Suc k) r = pad k (r div 10) @ [dig (r mod 10)]"

lemma dec_last: "d < 10 \<Longrightarrow> dec (10 * p + d) = pre p @ [dig d]"
  by (cases "p = 0") (simp_all add: pre_def dig_def FormatUint.simps [of "10 * p + d"] FormatUint.simps [of d])

lemma pad_length [simp]: "length (pad k r) = k"
  by (induction k arbitrary: r) simp_all

lemma pad_zero: "pad k 0 = replicate k (dig 0)"
  by (induction k) (simp_all add: replicate_append_same [symmetric])

lemma pad_nines: "pad k (10 ^ k - 1) = replicate k (dig 9)"
proof (induction k)
  case (Suc k)
  have "10 * 10 ^ k - 1 = 10 * (10 ^ k - 1) + (9 :: nat)" by (cases "10 ^ k :: nat") simp_all
  then have "(10 * 10 ^ k - 1) div 10 = (10 ^ k - 1 :: nat)" "(10 * 10 ^ k - 1) mod 10 = (9 :: nat)" by simp_all
  then show ?case using Suc by (simp add: replicate_append_same [symmetric])
qed simp

lemma dec_pad: "0 < m \<Longrightarrow> r < 10 ^ k \<Longrightarrow> dec (m * 10 ^ k + r) = dec m @ pad k r"
proof (induction k arbitrary: r)
  case (Suc k)
  have "r div 10 < 10 ^ k" using Suc.prems(2) by (simp add: less_mult_imp_div_less)
  note IH = Suc.IH [OF Suc.prems(1) this]
  have "m * 10 ^ Suc k + r = 10 * (m * 10 ^ k + r div 10) + r mod 10" by simp
  then have "dec (m * 10 ^ Suc k + r) = pre (m * 10 ^ k + r div 10) @ [dig (r mod 10)]"
    by (metis dec_last mod_less_divisor zero_less_numeral)
  then show ?case using IH Suc.prems(1) by (simp add: pre_def)
qed simp

lemma of_dig: "d < 10 \<Longrightarrow> of_char (dig d) = 48 + d"
proof -
  assume "d < 10"
  then have "d = 0 \<or> d = 1 \<or> d = 2 \<or> d = 3 \<or> d = 4 \<or> d = 5 \<or> d = 6 \<or> d = 7 \<or> d = 8 \<or> d = 9" by arith
  then show ?thesis by (elim disjE) (simp_all add: dig_def hexDigit_def)
qed

lemma dig_le: "d < 10 \<Longrightarrow> e < 10 \<Longrightarrow> dig d \<le> dig e \<longleftrightarrow> d \<le> e"
  by (simp add: less_eq_char_def of_dig)

lemma dig_inj [simp]: "d < 10 \<Longrightarrow> e < 10 \<Longrightarrow> dig d = dig e \<longleftrightarrow> d = e"
  using dig_le [of d e] dig_le [of e d] by (auto intro: antisym)

lemma dig_chars: "dig 0 = CHR ''0''" "dig 9 = CHR ''9''"
  by (simp_all add: dig_def hexDigit_def)

lemma dig_plain [simp]: "d < 10 \<Longrightarrow> renderLit (dig d) = [dig d]"
  using of_dig [of d] by (auto simp: renderLit_def)

abbreviation (input) digits :: "string \<Rightarrow> bool" where
  "digits w \<equiv> list_all (\<lambda>c. CHR ''0'' \<le> c \<and> c \<le> CHR ''9'') w"

lemma dig_digit [simp]: "d < 10 \<Longrightarrow> CHR ''0'' \<le> dig d" "d < 10 \<Longrightarrow> dig d \<le> CHR ''9''"
  using dig_le [of 0 d] dig_le [of d 9] by (simp_all add: dig_chars)

lemma dec_nonempty [simp]: "dec n \<noteq> []" "[] \<noteq> dec n"
  by (subst FormatUint.simps, simp)+

lemma dec_snoc: "dec n = pre (n div 10) @ [dig (n mod 10)]"
  using dec_last [of "n mod 10" "n div 10"] by simp

lemma dec_digits: "digits (dec n)"
proof (induction n rule: less_induct)
  case (less n)
  show ?case using less [of "n div 10"] by (subst dec_snoc) (simp add: pre_def)
qed

lemma pre_digits: "digits (pre p)"
  by (simp add: pre_def dec_digits)

lemma pad_digits: "digits (pad k r)"
  by (induction k arbitrary: r) simp_all

lemma dec_inj: "dec m = dec n \<Longrightarrow> m = n"
proof (induction m arbitrary: n rule: less_induct)
  case (less m)
  have "pre (m div 10) = pre (n div 10)" and last: "m mod 10 = n mod 10"
    using less.prems unfolding dec_snoc [of m] dec_snoc [of n] by auto
  then have "m div 10 = n div 10"
    using less.IH [of "m div 10" "n div 10"] by (auto simp: pre_def split: if_splits)
  then show ?case using last by (metis div_mult_mod_eq)
qed

lemma dec_length: "n < 10 ^ k \<Longrightarrow> 0 < k \<Longrightarrow> length (dec n) \<le> k"
proof (induction k arbitrary: n)
  case (Suc k)
  have "n div 10 < 10 ^ k" using Suc.prems(1) by (simp add: less_mult_imp_div_less)
  then have "length (pre (n div 10)) \<le> k" using Suc.IH [of "n div 10"] by (cases k) (auto simp: pre_def)
  then show ?case by (subst dec_snoc) simp
qed simp

lemma pre_inj: "pre p = pre q \<Longrightarrow> p = q"
  by (auto simp: pre_def dec_inj split: if_splits)

section \<open>The pattern of a piece\<close>

text \<open>
  A piece: the numbers with the digits of \<open>p\<close>, then a digit from \<open>d\<close> to \<open>e\<close>, then \<open>k\<close> more.  It
  has no leading zero, unless it is a piece of the one-digit numbers.
\<close>

definition piece :: "nat \<Rightarrow> nat \<Rightarrow> nat \<Rightarrow> nat \<Rightarrow> nat \<Rightarrow> nat \<Rightarrow> bool" where
  "piece p d e k start stop \<longleftrightarrow>
     start = (10 * p + d) * 10 ^ k \<and> stop + 1 = (10 * p + e + 1) * 10 ^ k \<and> d \<le> e \<and> e < 10 \<and> (0 < 10 * p + d \<or> k = 0)"

definition anyDigits :: "nat \<Rightarrow> atom list" where
  "anyDigits n = (if n = 0 then [] else [Times (CHR ''0'') (CHR ''9'') n])"

definition pieceSeq :: "nat \<Rightarrow> nat \<Rightarrow> nat \<Rightarrow> nat \<Rightarrow> atom list" where
  "pieceSeq p d e k = map Lit (pre p) @
     (if d = e then Lit (dig d) # anyDigits k
      else if d \<noteq> 0 \<or> e \<noteq> 9 then Rng (dig d) (dig e) # anyDigits k else anyDigits (k + 1))"

lemma piece_bounds:
  assumes "piece p d e k start stop"
  shows "dec start = pre p @ dig d # replicate k (dig 0)" "dec stop = pre p @ dig e # replicate k (dig 9)"
proof -
  let ?m = "10 * p + d" and ?n = "10 * p + e"
  have pc: "start = ?m * 10 ^ k" "stop + 1 = (?n + 1) * 10 ^ k" "d \<le> e" "e < 10" "0 < ?m \<or> k = 0"
    using assms by (simp_all add: piece_def)
  have last: "dec ?m = pre p @ [dig d]" "dec ?n = pre p @ [dig e]" using pc by (simp_all add: dec_last)
  show "dec start = pre p @ dig d # replicate k (dig 0)"
    using pc(5) last(1) dec_pad [of ?m 0 k] by (auto simp: pc(1) pad_zero)
  have "stop + 1 = ?n * 10 ^ k + 10 ^ k" using pc(2) by (metis add_mult_distrib mult_1)
  moreover have "(1 :: nat) \<le> 10 ^ k" by simp
  ultimately have "stop = ?n * 10 ^ k + (10 ^ k - 1)" by linarith
  moreover have "0 < ?n \<or> k = 0" using pc(3,5) by auto
  ultimately show "dec stop = pre p @ dig e # replicate k (dig 9)"
    using last(2) dec_pad [of ?n "10 ^ k - 1" k] by (auto simp: pad_nines [simplified])
qed

lemma patternLoop_same: "patternLoop (w @ a) (w @ b) pat n = patternLoop a b (pat @ w) n"
  by (induction w arbitrary: pat) simp_all

lemma patternLoop_any:
  "patternLoop (replicate k (dig 0)) (replicate k (dig 9)) pat n = Some (pat, n + k)"
  by (induction k arbitrary: n) (simp_all add: dig_chars)

lemma renderSeq_append [simp]: "renderSeq (q @ q') = renderSeq q @ renderSeq q'"
  by (induction q) simp_all

lemma renderSeq_Lits: "digits w \<Longrightarrow> renderSeq (map Lit w) = w"
  by (induction w) (auto simp: renderLit_def less_eq_char_def)

lemma renderSeq_any: "renderSeq (anyDigits n) =
   (if n > 0 then ''[0-9]'' else []) @ (if n > 1 then ''{'' @ FormatUint n 10 @ ''}'' else [])"
  by (simp add: anyDigits_def)

lemma rangeToPattern_piece:
  assumes "piece p d e k start stop"
  shows "rangeToPattern (int start) (int stop) = Some (renderSeq (pieceSeq p d e k))"
proof -
  have de: "d \<le> e" "e < 10" using assms by (simp_all add: piece_def)
  then have "patternLoop (dig d # replicate k (dig 0)) (dig e # replicate k (dig 9)) (pre p) 0 =
     Some (if d = e then (pre p @ [dig d], k)
           else if d \<noteq> 0 \<or> e \<noteq> 9 then (pre p @ ''['' @ [dig d] @ ''-'' @ [dig e] @ '']'', k) else (pre p, k + 1))"
    using dig_inj [of d 0] dig_inj [of e 9] by (auto simp: patternLoop_any [unfolded dig_chars] dig_chars)
  then show ?thesis
    using de by (simp add: rangeToPattern_def Itoa_def piece_bounds [OF assms] patternLoop_same pieceSeq_def
        renderSeq_Lits [OF pre_digits] renderSeq_any)
qed

subsection \<open>What it matches\<close>

lemma matches_Lits:
  "[] \<in> set (restsSeq (map Lit w @ q) s) \<longleftrightarrow> (\<exists>t. s = w @ t \<and> [] \<in> set (restsSeq q t))"
proof (induction w arbitrary: s)
  case (Cons c w)
  show ?case by (cases s) (auto simp: Cons)
qed simp

lemma restsSeq_any: "restsSeq (anyDigits n) s = (if n \<le> length s \<and> digits (take n s) then [drop n s] else [])"
  by (auto simp: anyDigits_def)

lemma restsSeq_pieceSeq:
  assumes "d \<le> e" "e < 10"
  shows "[] \<in> set (restsSeq (pieceSeq p d e k) s) \<longleftrightarrow>
    (\<exists>c ds. s = pre p @ c # ds \<and> dig d \<le> c \<and> c \<le> dig e \<and> length ds = k \<and> digits ds)"
    (is "?l \<longleftrightarrow> ?r")
proof -
  let ?q = "if d = e then Lit (dig d) # anyDigits k
      else if d \<noteq> 0 \<or> e \<noteq> 9 then Rng (dig d) (dig e) # anyDigits k else anyDigits (k + 1)"
  have tail: "[] \<in> set (restsSeq ?q t) \<longleftrightarrow> (\<exists>c ds. t = c # ds \<and> dig d \<le> c \<and> c \<le> dig e \<and> length ds = k \<and> digits ds)" for t
    by (cases t) (auto simp: restsSeq_any dig_chars)
  show ?thesis unfolding pieceSeq_def matches_Lits tail by auto
qed

lemma digit_split:
  fixes m :: nat
  assumes "d \<le> e" "e < 10"
  shows "m div 10 = p \<and> d \<le> m mod 10 \<and> m mod 10 \<le> e \<longleftrightarrow> 10 * p + d \<le> m \<and> m \<le> 10 * p + e"
proof -
  obtain x y where m: "m div 10 = x" "m mod 10 = y" "m = 10 * x + y" "y < 10"
    by (metis mult_div_mod_eq mod_less_divisor zero_less_numeral)
  have "x = p \<and> d \<le> y \<and> y \<le> e \<longleftrightarrow> 10 * p + d \<le> 10 * x + y \<and> 10 * x + y \<le> 10 * p + e"
  proof
    assume *: "10 * p + d \<le> 10 * x + y \<and> 10 * x + y \<le> 10 * p + e"
    then have "10 * p < 10 * (x + 1)" "10 * x < 10 * (p + 1)" using assms m(4) by auto
    then have "x = p" by simp
    then show "x = p \<and> d \<le> y \<and> y \<le> e" using * by simp
  qed simp
  then show ?thesis unfolding m(1,2) using m(3) by simp
qed

lemma piece_matches:
  assumes pc: "piece p d e k start stop"
  shows "[] \<in> set (restsSeq (pieceSeq p d e k) (dec n)) \<longleftrightarrow> start \<le> n \<and> n \<le> stop"
proof -
  have de: "d \<le> e" "e < 10" using pc by (simp_all add: piece_def)
  define m r where "m = n div 10 ^ k" and "r = n mod 10 ^ k"
  have n: "n = m * 10 ^ k + r" "r < 10 ^ k" by (simp_all add: m_def r_def div_mult_mod_eq)
  have in_range: "start \<le> n \<and> n \<le> stop \<longleftrightarrow> 10 * p + d \<le> m \<and> m \<le> 10 * p + e"
  proof -
    have "start \<le> n \<longleftrightarrow> 10 * p + d \<le> m" using pc unfolding m_def by (simp add: piece_def less_eq_div_iff_mult_less_eq)
    moreover have "n \<le> stop \<longleftrightarrow> n < (10 * p + e + 1) * 10 ^ k" using pc by (auto simp: piece_def)
    moreover have "\<dots> \<longleftrightarrow> m < 10 * p + e + 1" unfolding m_def by (simp add: div_less_iff_less_mult)
    ultimately show ?thesis by auto
  qed
  show ?thesis
  proof (cases "0 < m \<or> k = 0")
    case True
    then have dn: "dec n = pre (m div 10) @ dig (m mod 10) # pad k r"
      using n dec_pad [of m r k] dec_snoc [of m] by auto
    have "[] \<in> set (restsSeq (pieceSeq p d e k) (dec n)) \<longleftrightarrow>
        pre (m div 10) = pre p \<and> dig d \<le> dig (m mod 10) \<and> dig (m mod 10) \<le> dig e"
      unfolding restsSeq_pieceSeq [OF de] dn using pad_digits [of k r] by auto
    also have "\<dots> \<longleftrightarrow> m div 10 = p \<and> d \<le> m mod 10 \<and> m mod 10 \<le> e"
      using de by (auto simp: dig_le dest: pre_inj)
    also have "\<dots> \<longleftrightarrow> 10 * p + d \<le> m \<and> m \<le> 10 * p + e" using de by (rule digit_split)
    finally show ?thesis using in_range by simp
  next
    case False
    then have "10 * p + d > m" using pc by (auto simp: piece_def)
    moreover have "length (dec n) \<le> k" using False n by (intro dec_length) auto
    ultimately show ?thesis using in_range by (auto simp: restsSeq_pieceSeq [OF de])
  qed
qed

text \<open>Nothing but decimal texts is matched.\<close>

lemma digit_dig: "CHR ''0'' \<le> c \<Longrightarrow> c \<le> CHR ''9'' \<Longrightarrow> \<exists>y < 10. c = dig y"
proof -
  assume c: "CHR ''0'' \<le> c" "c \<le> CHR ''9''"
  then have "48 \<le> (of_char c :: nat)" "(of_char c :: nat) \<le> 57" by (simp_all add: less_eq_char_def)
  then have y: "of_char c = 48 + (of_char c - 48 :: nat)" "of_char c - 48 < (10 :: nat)" by linarith+
  from of_dig [OF y(2)] y(1) have "(of_char c :: nat) = of_char (dig (of_char c - 48))" by linarith
  then have "c = dig (of_char c - 48)" by simp
  with y(2) show ?thesis by blast
qed

lemma digits_pad: "digits w \<Longrightarrow> \<exists>r < 10 ^ length w. w = pad (length w) r"
proof (induction w rule: rev_induct)
  case (snoc c w)
  then obtain r where r: "r < 10 ^ length w" "w = pad (length w) r" by auto
  obtain y where y: "y < 10" "c = dig y" using digit_dig [of c] snoc.prems by auto
  have "(10 * r + y) div 10 = r" "(10 * r + y) mod 10 = y" using y(1) by simp_all
  then have "w @ [c] = pad (length (w @ [c])) (10 * r + y)" using r(2) y(2) by simp
  moreover have "10 * r + y < 10 ^ length (w @ [c])" using r(1) y(1) by simp
  ultimately show ?case by blast
qed simp

lemma piece_text:
  assumes pc: "piece p d e k start stop" and "[] \<in> set (restsSeq (pieceSeq p d e k) s)"
  shows "\<exists>n. s = dec n"
proof -
  have de: "d \<le> e" "e < 10" using pc by (simp_all add: piece_def)
  from assms(2) obtain c ds where s: "s = pre p @ c # ds" "dig d \<le> c" "c \<le> dig e" "length ds = k" "digits ds"
    unfolding restsSeq_pieceSeq [OF de] by blast
  have "CHR ''0'' \<le> c" "c \<le> CHR ''9''"
    using order_trans [OF dig_digit(1) s(2)] order_trans [OF s(3) dig_digit(2)] de by simp_all
  then obtain y where y: "y < 10" "c = dig y" using digit_dig by blast
  have "d \<le> y" using s(2) y de dig_le [of d y] by simp
  obtain r where r: "r < 10 ^ k" "ds = pad k r" using digits_pad [OF s(5)] s(4) by auto
  have "s = dec (10 * p + y) @ pad k r" using s(1) y r(2) dec_last [OF y(1), of p] by simp
  moreover have "0 < 10 * p + y \<or> k = 0" using pc \<open>d \<le> y\<close> by (auto simp: piece_def)
  ultimately show ?thesis using dec_pad [of "10 * p + y" r k] r(1) by (metis append_Nil2 pad.simps(1))
qed

section \<open>Where the range is cut\<close>

text \<open>The ends of the pieces, exclusive: after the nines that follow \<open>mn\<close> and before the zeros that precede \<open>mx\<close>.\<close>

definition nineEnd :: "nat \<Rightarrow> nat \<Rightarrow> nat" where
  "nineEnd mn k = (mn div 10 ^ k + 1) * 10 ^ k"

definition zeroEnd :: "nat \<Rightarrow> nat \<Rightarrow> nat" where
  "zeroEnd mx k = (mx + 1) div 10 ^ k * 10 ^ k"

lemma div_pow_Suc: "n div 10 ^ Suc k = n div 10 ^ k div (10 :: nat)"
  by (metis div_mult2_eq power_Suc2)

lemma nineEnd_pair:
  obtains q where "nineEnd mn k = (q + 1) * 10 ^ k" "nineEnd mn (Suc k) = (q div 10 + 1) * 10 * 10 ^ k" "q = mn div 10 ^ k"
proof
  show "nineEnd mn (Suc k) = (mn div 10 ^ k div 10 + 1) * 10 * 10 ^ k"
    unfolding nineEnd_def div_pow_Suc by (simp only: power_Suc mult.assoc)
qed (simp_all add: nineEnd_def)

lemma zeroEnd_pair:
  obtains w where "zeroEnd mx (Suc k) = w div 10 * 10 * 10 ^ k" "zeroEnd mx k = w * 10 ^ k" "w = (mx + 1) div 10 ^ k"
proof
  show "zeroEnd mx (Suc k) = (mx + 1) div 10 ^ k div 10 * 10 * 10 ^ k"
    unfolding zeroEnd_def div_pow_Suc by (simp only: power_Suc mult.assoc)
qed (simp_all add: zeroEnd_def)

lemma nineEnd_Suc: "nineEnd mn k \<le> nineEnd mn (Suc k)"
proof -
  obtain q where q: "nineEnd mn k = (q + 1) * 10 ^ k" "nineEnd mn (Suc k) = (q div 10 + 1) * 10 * 10 ^ k"
    by (rule nineEnd_pair)
  have "q + 1 \<le> (q div 10 + 1) * 10" by presburger
  then show ?thesis unfolding q by (rule mult_le_mono1)
qed

lemma nineEnd_mono: "j \<le> k \<Longrightarrow> nineEnd mn j \<le> nineEnd mn k"
  by (rule lift_Suc_mono_le [of "nineEnd mn"]) (rule nineEnd_Suc)

lemma zeroEnd_Suc: "zeroEnd mx (Suc k) \<le> zeroEnd mx k"
proof -
  obtain w where w: "zeroEnd mx (Suc k) = w div 10 * 10 * 10 ^ k" "zeroEnd mx k = w * 10 ^ k"
    by (rule zeroEnd_pair)
  have "w div 10 * 10 \<le> w" by presburger
  then show ?thesis unfolding w by (rule mult_le_mono1)
qed

lemma zeroEnd_anti: "j \<le> k \<Longrightarrow> zeroEnd mx k \<le> zeroEnd mx j"
  by (rule lift_Suc_antimono_le [of "zeroEnd mx"]) (rule zeroEnd_Suc)

lemma nineEnd_gt: "mn < nineEnd mn k"
proof -
  have "mn = mn div 10 ^ k * 10 ^ k + mn mod 10 ^ k" "mn mod 10 ^ k < 10 ^ k" by (simp_all add: div_mult_mod_eq)
  then show ?thesis unfolding nineEnd_def add_mult_distrib by linarith
qed

lemma zeroEnd_le: "zeroEnd mx k \<le> mx + 1"
  unfolding zeroEnd_def by (rule div_times_less_eq_dividend)

lemma zeroEnd_0 [simp]: "zeroEnd mx 0 = mx + 1"
  by (simp add: zeroEnd_def)

text \<open>The zeros come after the nines.\<close>

lemma zero_ge_nine:
  assumes "nineEnd mn a \<le> mx + 1" "j \<le> a"
  shows "nineEnd mn a \<le> zeroEnd mx j"
proof -
  obtain c where c: "a = j + c" using assms(2) le_iff_add by blast
  have "nineEnd mn a = (mn div 10 ^ a + 1) * 10 ^ c * 10 ^ j"
    unfolding nineEnd_def c by (simp only: power_add mult.assoc mult.commute [of "10 ^ j" "10 ^ c"])
  moreover have "(mn div 10 ^ a + 1) * 10 ^ c \<le> (mx + 1) div 10 ^ j"
    using assms(1) calculation by (simp add: less_eq_div_iff_mult_less_eq)
  ultimately show ?thesis unfolding zeroEnd_def by (simp only: mult_le_mono1)
qed

lemma zero_late:
  assumes "mx < nineEnd mn (Suc a)" "mn + 1 < zeroEnd mx j" "a < j"
  shows "zeroEnd mx j = mx + 1"
proof -
  have "mn < (mx + 1) div 10 ^ j * 10 ^ j" using assms(2) by (simp add: zeroEnd_def)
  then have "mn div 10 ^ j < (mx + 1) div 10 ^ j" by (simp add: div_less_iff_less_mult)
  then have "nineEnd mn j \<le> zeroEnd mx j" unfolding nineEnd_def zeroEnd_def by (intro mult_le_mono1) simp
  moreover have "nineEnd mn (Suc a) \<le> nineEnd mn j" using assms(3) by (intro nineEnd_mono) simp
  ultimately show ?thesis using assms(1) zeroEnd_le [of mx j] by simp
qed

section \<open>The pieces\<close>

abbreviation (input) isPiece :: "nat \<Rightarrow> nat \<Rightarrow> bool" where
  "isPiece start t \<equiv> \<exists>p d e k. piece p d e k start (t - 1) \<and> 0 < t"

lemma piece_first: "isPiece mn (nineEnd mn 1)"
proof (intro exI conjI)
  show "piece (mn div 10) (mn mod 10) 9 0 mn (nineEnd mn 1 - 1)" by (simp add: piece_def nineEnd_def)
qed (simp add: nineEnd_def)

lemma piece_nines:
  assumes "nineEnd mn k < nineEnd mn (Suc k)"
  shows "isPiece (nineEnd mn k) (nineEnd mn (Suc k))"
proof -
  obtain q where ends: "nineEnd mn k = (q + 1) * 10 ^ k" "nineEnd mn (Suc k) = (q div 10 + 1) * 10 * 10 ^ k"
    by (rule nineEnd_pair)
  have q: "q + 1 < (q div 10 + 1) * 10" using assms unfolding ends by (simp only: mult_less_cancel2)
  have "10 * (q div 10) + (q mod 10 + 1) = q + 1" "10 * (q div 10) + 9 + 1 = (q div 10 + 1) * 10" "q mod 10 + 1 \<le> 9"
    using q by presburger+
  then have "piece (q div 10) (q mod 10 + 1) 9 k (nineEnd mn k) (nineEnd mn (Suc k) - 1)"
    using assms unfolding piece_def ends by simp
  then show ?thesis using assms by (intro exI conjI) simp_all
qed

lemma piece_zeros:
  assumes "zeroEnd mx (Suc k) < zeroEnd mx k" "0 < zeroEnd mx (Suc k)"
  shows "isPiece (zeroEnd mx (Suc k)) (zeroEnd mx k)"
proof -
  obtain w where ends: "zeroEnd mx (Suc k) = w div 10 * 10 * 10 ^ k" "zeroEnd mx k = w * 10 ^ k"
    by (rule zeroEnd_pair)
  have w: "w div 10 * 10 < w" using assms(1) unfolding ends by (simp only: mult_less_cancel2)
  have "0 < w div 10" using assms(2) unfolding ends by (metis mult_0 neq0_conv)
  moreover have "10 * (w div 10) + (w mod 10 - 1) + 1 = w" "10 * (w div 10) + 0 = w div 10 * 10" using w by presburger+
  ultimately have "piece (w div 10) 0 (w mod 10 - 1) k (zeroEnd mx (Suc k)) (zeroEnd mx k - 1)"
    using assms unfolding piece_def ends by simp
  then show ?thesis using assms by (intro exI conjI) simp_all
qed

text \<open>The middle piece, from the last nines to the last zeros.\<close>

lemma piece_middle_0:
  assumes "mn \<le> mx" "mx < nineEnd mn 1"
  shows "isPiece mn (mx + 1)"
proof -
  have "mx < (mn div 10 + 1) * 10" using assms(2) by (simp add: nineEnd_def)
  then have "mx - 10 * (mn div 10) < 10" "mn mod 10 \<le> mx - 10 * (mn div 10)" "10 * (mn div 10) \<le> mx"
    using assms(1) by presburger+
  then have "piece (mn div 10) (mn mod 10) (mx - 10 * (mn div 10)) 0 mn mx" by (simp add: piece_def)
  then show ?thesis by (intro exI conjI) simp_all
qed

lemma piece_middle:
  assumes "mx < nineEnd mn (Suc a)" "nineEnd mn a < zeroEnd mx a"
  shows "isPiece (nineEnd mn a) (zeroEnd mx a)"
proof -
  obtain q where ends: "nineEnd mn a = (q + 1) * 10 ^ a" "nineEnd mn (Suc a) = (q div 10 + 1) * 10 * 10 ^ a"
    by (rule nineEnd_pair)
  obtain z where z: "zeroEnd mx a = z * 10 ^ a" by (rule zeroEnd_pair)
  have "q + 1 < z" using assms(2) unfolding ends z by (simp only: mult_less_cancel2)
  moreover have "zeroEnd mx a \<le> nineEnd mn (Suc a)" using assms(1) zeroEnd_le [of mx a] by linarith
  then have "z * 10 ^ a \<le> (q div 10 + 1) * 10 * 10 ^ a" unfolding ends(2) z .
  then have "z \<le> (q div 10 + 1) * 10" by (simp only: mult_le_cancel2) simp
  ultimately have num: "10 * (q div 10) + (q mod 10 + 1) = q + 1" "10 * (q div 10) + (z - 1 - 10 * (q div 10)) + 1 = z"
    "q mod 10 + 1 \<le> z - 1 - 10 * (q div 10)" "z - 1 - 10 * (q div 10) < 10" by presburger+
  have "piece (q div 10) (q mod 10 + 1) (z - 1 - 10 * (q div 10)) a (nineEnd mn a) (zeroEnd mx a - 1)"
    unfolding piece_def ends(1) z num(1,2) using assms(2) num(3,4) z by simp
  then show ?thesis using assms(2) by (intro exI conjI) simp_all
qed

section \<open>Tiling the range\<close>

definition ends :: "nat \<Rightarrow> nat \<Rightarrow> nat \<Rightarrow> nat \<Rightarrow> nat set" where
  "ends mn mx a b = {mx + 1} \<union> nineEnd mn ` {1..a} \<union> zeroEnd mx ` {1..b}"

text \<open>\<open>a\<close> and \<open>b\<close> are the numbers of turns of the two loops.\<close>

definition turns :: "nat \<Rightarrow> nat \<Rightarrow> nat \<Rightarrow> nat \<Rightarrow> bool" where
  "turns mn mx a b \<longleftrightarrow>
     (\<forall>i \<in> {1..a}. nineEnd mn i \<le> mx) \<and> mx < nineEnd mn (Suc a) \<and>
     (\<forall>i \<in> {1..b}. mn + 1 < zeroEnd mx i) \<and> zeroEnd mx (Suc b) \<le> mn + 1"

text \<open>The piece that ends at \<open>t\<close> starts at the greatest end before \<open>t\<close>, or at \<open>lo\<close>.\<close>

definition startsAt :: "nat \<Rightarrow> nat set \<Rightarrow> nat \<Rightarrow> nat \<Rightarrow> bool" where
  "startsAt lo E s t \<longleftrightarrow> (s = lo \<or> s \<in> E) \<and> lo \<le> s \<and> (\<forall>u \<in> E. u < t \<longrightarrow> u \<le> s) \<and> isPiece s t"

fun tiles :: "nat \<Rightarrow> nat list \<Rightarrow> bool" where
  "tiles lo [] \<longleftrightarrow> True"
| "tiles lo (t # ts) \<longleftrightarrow> isPiece lo t \<and> tiles t ts"

lemma isPiece_less: "isPiece s t \<Longrightarrow> s < t"
proof -
  assume "isPiece s t"
  then obtain p d e k where pc: "piece p d e k s (t - 1)" "0 < t" by blast
  then have st: "s = (10 * p + d) * 10 ^ k" "t = (10 * p + e + 1) * 10 ^ k" "10 * p + d < 10 * p + e + 1"
    by (simp_all add: piece_def)
  show "s < t" unfolding st(1,2) using st(3) by (intro mult_less_mono1) simp_all
qed

lemma tiles_sorted:
  "sorted_wrt (<) ts \<Longrightarrow> \<forall>t \<in> set ts. lo < t \<and> (\<exists>s. startsAt lo (set ts) s t) \<Longrightarrow> tiles lo ts"
proof (induction ts arbitrary: lo)
  case (Cons t ts)
  obtain s where s: "startsAt lo (set (t # ts)) s t" using Cons.prems(2) by auto
  have "s < t" using s isPiece_less by (auto simp: startsAt_def)
  then have "s = lo" using s Cons.prems(1) by (fastforce simp: startsAt_def)
  then have head: "isPiece lo t" using s by (simp add: startsAt_def)
  have "t < v \<and> (\<exists>s. startsAt t (set ts) s v)" if v: "v \<in> set ts" for v
  proof -
    obtain s where s: "startsAt lo (set (t # ts)) s v" using Cons.prems(2) v by auto
    have tv: "t < v" using Cons.prems(1) v by simp
    then have "t \<le> s" using s by (simp add: startsAt_def)
    moreover have "s = t \<or> s \<in> set ts" using s \<open>t \<le> s\<close> Cons.prems(2) by (fastforce simp: startsAt_def)
    ultimately have "startsAt t (set ts) s v" using s by (simp add: startsAt_def)
    then show ?thesis using tv by blast
  qed
  then show ?case using head Cons.IH [of t] Cons.prems(1) by simp
qed simp

lemma nine_start:
  assumes tn: "turns mn mx a b" and k: "1 \<le> k" "k \<le> a" and least: "\<forall>j. 1 \<le> j \<and> j < k \<longrightarrow> nineEnd mn j \<noteq> nineEnd mn k"
  shows "\<exists>s. startsAt mn (ends mn mx a b) s (nineEnd mn k)"
proof -
  define s where "s = (if k = 1 then mn else nineEnd mn (k - 1))"
  have a: "nineEnd mn a \<le> mx" "mx < nineEnd mn (Suc a)" and b: "\<forall>i \<in> {1..b}. mn + 1 < zeroEnd mx i"
    using tn k by (simp_all add: turns_def)
  have last: "nineEnd mn k \<le> nineEnd mn a" using k by (intro nineEnd_mono)
  have late: "nineEnd mn a \<le> zeroEnd mx i" if "i \<in> {1..b}" for i
  proof (cases "i \<le> a")
    case True
    then show ?thesis using a(1) by (intro zero_ge_nine) simp
  next
    case False
    then show ?thesis using zero_late [OF a(2), of i] b that a(1) by simp
  qed
  have "u \<le> s" if u: "u \<in> ends mn mx a b" "u < nineEnd mn k" for u
  proof -
    obtain j where j: "1 \<le> j" "u = nineEnd mn j" using u a(1) last late by (fastforce simp: ends_def)
    then have "j < k" using u(2) nineEnd_mono [of k j mn] by (cases "k \<le> j") auto
    then show ?thesis using j nineEnd_mono [of j "k - 1" mn] by (auto simp: s_def)
  qed
  moreover have "isPiece s (nineEnd mn k)"
  proof (cases "k = 1")
    case False
    then have "nineEnd mn (k - 1) \<noteq> nineEnd mn k" "Suc (k - 1) = k" using least k by auto
    then show ?thesis using piece_nines [of mn "k - 1"] nineEnd_Suc [of mn "k - 1"] False by (simp add: s_def)
  qed (use piece_first [of mn] in \<open>simp add: s_def\<close>)
  moreover have "k - 1 \<in> {1..a}" if "k \<noteq> 1" using k that by auto
  then have "s = mn \<or> s \<in> ends mn mx a b" unfolding s_def ends_def by (cases "k = 1") simp_all
  moreover have "mn \<le> s" using nineEnd_gt [of mn "k - 1"] by (simp add: s_def)
  ultimately show ?thesis unfolding startsAt_def by blast
qed

lemma zero_start_last:
  assumes tn: "turns mn mx a b" and le: "mn \<le> mx" and t: "t = zeroEnd mx a" "t \<notin> nineEnd mn ` {1..a}"
  shows "\<exists>s. startsAt mn (ends mn mx a b) s t"
proof -
  define s where "s = (if a = 0 then mn else nineEnd mn a)"
  have a: "\<forall>i \<in> {1..a}. nineEnd mn i \<le> mx" "mx < nineEnd mn (Suc a)" and b: "\<forall>i \<in> {1..b}. mn + 1 < zeroEnd mx i"
    using tn by (simp_all add: turns_def)
  have "u \<le> s" if u: "u \<in> ends mn mx a b" "u < t" for u
  proof -
    have "t \<le> zeroEnd mx i" if "i \<in> {1..b}" for i
    proof (cases "i \<le> a")
      case False
      then show ?thesis using zero_late [OF a(2), of i] b that zeroEnd_le [of mx a] t by simp
    qed (simp add: t zeroEnd_anti)
    moreover have "t \<le> mx + 1" using t zeroEnd_le by simp
    ultimately obtain j where j: "j \<in> {1..a}" "u = nineEnd mn j" using u by (fastforce simp: ends_def)
    then show ?thesis using nineEnd_mono [of j a mn] by (auto simp: s_def)
  qed
  moreover have "isPiece s t"
  proof (cases "a = 0")
    case True
    then show ?thesis using piece_middle_0 [of mn mx] a(2) le t by (simp add: s_def)
  next
    case False
    then have "nineEnd mn a \<le> zeroEnd mx a" using a(1) by (intro zero_ge_nine) (simp_all add: le_SucI)
    moreover have "nineEnd mn a \<noteq> t" using t(2) False by force
    ultimately show ?thesis using piece_middle [OF a(2)] t False by (simp add: s_def)
  qed
  moreover have "s = mn \<or> s \<in> ends mn mx a b" "mn \<le> s"
    using nineEnd_gt [of mn a] by (auto simp: s_def ends_def)
  ultimately show ?thesis unfolding startsAt_def by blast
qed

lemma zero_start:
  assumes tn: "turns mn mx a b" and j: "j < a" "zeroEnd mx (Suc j) \<noteq> zeroEnd mx j"
  shows "\<exists>s. startsAt mn (ends mn mx a b) s (zeroEnd mx j)"
proof -
  let ?s = "zeroEnd mx (Suc j)"
  have a: "\<forall>i \<in> {1..a}. nineEnd mn i \<le> mx" and b: "zeroEnd mx (Suc b) \<le> mn + 1"
    using tn by (simp_all add: turns_def)
  have "nineEnd mn a \<le> mx + 1" using a j(1) by (simp add: le_SucI)
  then have na: "nineEnd mn a \<le> ?s" using j(1) by (intro zero_ge_nine) simp_all
  then have s: "mn + 1 \<le> ?s" "0 < ?s" using nineEnd_gt [of mn a] by linarith+
  have "?s \<in> ends mn mx a b"
  proof (cases "Suc j \<le> b")
    case False
    then have "?s \<le> zeroEnd mx (Suc b)" by (intro zeroEnd_anti) simp
    then have "?s = nineEnd mn a" using b na nineEnd_gt [of mn a] by linarith
    then show ?thesis using j(1) by (auto simp: ends_def)
  qed (simp add: ends_def)
  moreover have "u \<le> ?s" if u: "u \<in> ends mn mx a b" "u < zeroEnd mx j" for u
  proof -
    consider i where "i \<in> {1..a}" "u = nineEnd mn i" | i where "u = zeroEnd mx i"
      using u(1) unfolding ends_def by (metis Un_iff imageE singletonD zeroEnd_0)
    then show ?thesis
    proof cases
      case (1 i)
      then show ?thesis using nineEnd_mono [of i a mn] na by simp
    next
      case (2 i)
      then have "\<not> i \<le> j" using u(2) zeroEnd_anti [of i j mx] by auto
      then show ?thesis using 2 by (simp add: zeroEnd_anti)
    qed
  qed
  moreover have "isPiece ?s (zeroEnd mx j)"
    using j(2) zeroEnd_Suc [of mx j] s(2) by (intro piece_zeros) simp_all
  ultimately show ?thesis using s(1) unfolding startsAt_def by (intro exI [of _ ?s]) simp
qed

lemma ends_starts:
  assumes tn: "turns mn mx a b" and le: "mn \<le> mx" and t: "t \<in> ends mn mx a b"
  shows "\<exists>s. startsAt mn (ends mn mx a b) s t"
proof (cases "t \<in> nineEnd mn ` {1..a}")
  case True
  define k where "k = (LEAST j. 1 \<le> j \<and> nineEnd mn j = t)"
  obtain i where i: "1 \<le> i \<and> nineEnd mn i = t" "i \<le> a" using True by auto
  have k: "1 \<le> k \<and> nineEnd mn k = t" unfolding k_def using i(1) by (rule LeastI)
  have "k \<le> i" unfolding k_def using i(1) by (rule Least_le)
  moreover have "\<forall>j. 1 \<le> j \<and> j < k \<longrightarrow> nineEnd mn j \<noteq> nineEnd mn k"
    using k unfolding k_def by (metis (mono_tags, lifting) not_less_Least)
  ultimately show ?thesis using nine_start [OF tn, of k] k i(2) by simp
next
  case False
  have "\<exists>j \<le> a. zeroEnd mx j = t"
  proof (cases "t = mx + 1")
    case True
    then show ?thesis by (intro exI [of _ 0]) simp
  next
    case other: False
    then obtain j where j: "j \<in> {1..b}" "t = zeroEnd mx j" using t False by (auto simp: ends_def)
    then have "j \<le> a" using zero_late [of mx mn a j] tn other by (force simp: turns_def)
    then show ?thesis using j by blast
  qed
  then have fin: "{j. j \<le> a \<and> zeroEnd mx j = t} \<noteq> {}" "finite {j. j \<le> a \<and> zeroEnd mx j = t}" by auto
  define j where "j = Max {j. j \<le> a \<and> zeroEnd mx j = t}"
  have j: "j \<le> a" "zeroEnd mx j = t" using Max_in [OF fin(2,1)] by (simp_all add: j_def)
  have top: "i \<le> a \<Longrightarrow> zeroEnd mx i = t \<Longrightarrow> i \<le> j" for i using Max_ge [OF fin(2), of i] by (simp add: j_def)
  show ?thesis
  proof (cases "j = a")
    case True
    then show ?thesis using zero_start_last [OF tn le] j(2) False by simp
  next
    case less: False
    then show ?thesis using zero_start [OF tn, of j] top [of "Suc j"] j by auto
  qed
qed

lemma ends_tile:
  assumes "turns mn mx a b" "mn \<le> mx"
  shows "tiles mn (sorted_list_of_set (ends mn mx a b))"
proof (rule tiles_sorted)
  have fin: "finite (ends mn mx a b)" by (simp add: ends_def)
  have "mn < t" if "t \<in> ends mn mx a b" for t
    using that assms nineEnd_gt [of mn] by (fastforce simp: ends_def turns_def)
  then show "\<forall>t \<in> set (sorted_list_of_set (ends mn mx a b)).
      mn < t \<and> (\<exists>s. startsAt mn (set (sorted_list_of_set (ends mn mx a b))) s t)"
    using ends_starts [OF assms] fin by simp
qed (rule strict_sorted_list_of_set)

section \<open>The loops\<close>

lemma digits_value_append: "digits_value (v @ w) = digits_value v * 10 ^ length w + digits_value w"
proof (induction w rule: rev_induct)
  case (snoc c w)
  have "digits_value (u @ [c]) = 10 * digits_value u + digit_value c" for u by (simp add: digits_value_def)
  from this [of "v @ w"] this [of w] show ?case using snoc by (simp add: algebra_simps)
qed (simp add: digits_value_def)

lemma digit_value_dig [simp]: "d < 10 \<Longrightarrow> digit_value (dig d) = int d"
  by (simp add: digit_value_def of_dig)

lemma digits_value_dec: "digits_value (dec n) = int n"
proof (induction n rule: less_induct)
  case (less n)
  have "digits_value (pre (n div 10)) = int (n div 10)"
    using less [of "n div 10"] by (cases "n div 10 = 0") (auto simp: pre_def digits_value_def)
  moreover have "int (n div 10) * 10 + int (n mod 10) = int n" by (metis div_mult_mod_eq of_nat_add of_nat_mult of_nat_numeral)
  moreover have "digits_value [dig (n mod 10)] = int (n mod 10)" by (simp add: digits_value_def)
  ultimately show ?case by (subst dec_snoc) (simp add: digits_value_append)
qed

lemma digits_value_nines: "digits_value (replicate k (CHR ''9'')) = 10 ^ k - 1"
proof (induction k)
  case (Suc k)
  have "digits_value [CHR ''9''] = 9" by (simp add: digits_value_def digit_value_def)
  then show ?case using digits_value_append [of "[CHR ''9'']" "replicate k (CHR ''9'')"] Suc by simp
qed (simp add: digits_value_def)

lemma fillByNines_nat:
  assumes "0 < k" "int (nineEnd mn k) \<le> 2 ^ 63"
  shows "fillByNines (int mn) k = int (nineEnd mn k) - 1"
proof -
  let ?q = "mn div 10 ^ k"
  have prefix: "(if k < length (dec mn) then take (length (dec mn) - k) (dec mn) else []) = pre ?q"
  proof (cases "?q = 0")
    case True
    then have "mn < 10 ^ k" by (simp add: div_eq_0_iff)
    then show ?thesis using dec_length [of mn k] assms(1) True by (simp add: pre_def)
  next
    case False
    have "dec mn = dec ?q @ pad k (mn mod 10 ^ k)"
      using dec_pad [of ?q "mn mod 10 ^ k" k] False by (simp add: div_mult_mod_eq)
    then show ?thesis using False by (simp add: pre_def)
  qed
  have "digits_value (pre ?q) = int ?q" by (cases "?q = 0") (simp_all add: pre_def digits_value_dec, simp add: digits_value_def)
  then have "digits_value (pre ?q @ replicate k (CHR ''9'')) = int (nineEnd mn k) - 1"
    by (simp add: digits_value_append digits_value_nines nineEnd_def algebra_simps of_nat_mult of_nat_power)
  moreover have "digits (pre ?q @ replicate k (CHR ''9''))" by (simp only: list_all_append pre_digits) (simp add: list_all_iff)
  then have "hd (pre ?q @ replicate k (CHR ''9'')) \<noteq> CHR ''-''"
    using assms(1) by (cases "pre ?q @ replicate k (CHR ''9'')") (auto simp: less_eq_char_def)
  ultimately show ?thesis using assms(2) by (simp add: fillByNines_def Itoa_def AtoiDigits_def prefix Let_def)
qed

lemma fillByZeros_nat: "fillByZeros (int mx + 1) k = int (zeroEnd mx k)"
proof -
  have "go_quot (int (mx + 1)) (10 ^ k) = int ((mx + 1) div 10 ^ k)"
    by (simp add: go_quot_def sgn_if of_nat_div of_nat_power)
  then show ?thesis by (simp add: fillByZeros_def go_rem_def zeroEnd_def algebra_simps)
qed

text \<open>Below \<open>10 ^ 18\<close> nothing overflows and both loops end.\<close>

lemma nineEnd_small: "mn < 10 ^ 18 \<Longrightarrow> k \<le> 18 \<Longrightarrow> int (nineEnd mn k) \<le> 2 ^ 63"
proof -
  assume mn: "mn < 10 ^ 18" and k: "k \<le> 18"
  have "mn div 10 ^ k * 10 ^ k \<le> mn" by (rule div_times_less_eq_dividend)
  moreover have "(10 :: nat) ^ k \<le> 10 ^ 18" using k by (rule power_increasing) simp
  ultimately have "nineEnd mn k \<le> 2 * 10 ^ 18" using mn unfolding nineEnd_def add_mult_distrib mult_1 by linarith
  then show ?thesis by simp
qed

lemma nineEnd_18: "10 ^ 18 \<le> nineEnd mn 18"
  unfolding nineEnd_def by simp

lemma ninesLoop_runs:
  assumes "mx < 10 ^ 18" "mn \<le> mx" "0 < k" "k \<le> 18"
  shows "\<exists>a. k \<le> Suc a \<and> mx < nineEnd mn (Suc a) \<and> (\<forall>i \<in> {k..a}. nineEnd mn i \<le> mx) \<and>
    (\<exists>st'. ninesLoop (int mn) (int mx) k st = Some st' \<and> set st' = (\<lambda>i. int (nineEnd mn i) - 1) ` {k..a} \<union> set st)"
  using assms(3,4)
proof (induction "18 - k" arbitrary: k st)
  case 0
  then have "mx < nineEnd mn k" using assms(1) nineEnd_18 [of mn] by (cases "k = 18") auto
  moreover have "fillByNines (int mn) k = int (nineEnd mn k) - 1"
    using 0 assms by (intro fillByNines_nat nineEnd_small) auto
  ultimately show ?case by (intro exI [of _ "k - 1"]) (use 0 in \<open>auto simp: ninesLoop.simps [of _ _ 18]\<close>)
next
  case (Suc n)
  have stop: "fillByNines (int mn) k = int (nineEnd mn k) - 1"
    using Suc.prems assms by (intro fillByNines_nat nineEnd_small) auto
  show ?case
  proof (cases "nineEnd mn k \<le> mx")
    case False
    then show ?thesis
      using Suc.prems by (intro exI [of _ "k - 1"]) (auto simp: ninesLoop.simps [of _ _ k] stop)
  next
    case True
    have "n = 18 - Suc k" "0 < Suc k" "Suc k \<le> 18" using Suc.hyps(2) Suc.prems by auto
    from Suc.hyps(1) [OF this, of "(int (nineEnd mn k) - 1) # st"] obtain a st' where
      a: "Suc k \<le> Suc a" "mx < nineEnd mn (Suc a)" "\<forall>i \<in> {Suc k..a}. nineEnd mn i \<le> mx"
      "ninesLoop (int mn) (int mx) (Suc k) ((int (nineEnd mn k) - 1) # st) = Some st'"
      "set st' = (\<lambda>i. int (nineEnd mn i) - 1) ` {Suc k..a} \<union> set ((int (nineEnd mn k) - 1) # st)" by blast
    have "{k..a} = insert k {Suc k..a}" using a(1) by auto
    then show ?thesis
      using a True nineEnd_gt [of mn k] by (intro exI [of _ a]) (auto simp: ninesLoop.simps [of _ _ k] stop)
  qed
qed

lemma zerosLoop_runs:
  assumes "mx + 1 < 10 ^ 18" "mn \<le> mx" "0 < k" "k \<le> 18"
  shows "\<exists>b. k \<le> Suc b \<and> zeroEnd mx (Suc b) \<le> mn + 1 \<and> (\<forall>i \<in> {k..b}. mn + 1 < zeroEnd mx i) \<and>
    (\<exists>st'. zerosLoop (int mn) (int mx) k st = Some st' \<and> set st' = (\<lambda>i. int (zeroEnd mx i) - 1) ` {k..b} \<union> set st)"
  using assms(3,4)
proof (induction "18 - k" arbitrary: k st)
  case 0
  then have "zeroEnd mx k = 0" using assms(1) by (cases "k = 18") (auto simp: zeroEnd_def)
  then show ?case by (intro exI [of _ "k - 1"]) (use 0 in \<open>auto simp: zerosLoop.simps [of _ _ 18] fillByZeros_nat\<close>)
next
  case (Suc n)
  show ?case
  proof (cases "mn + 1 < zeroEnd mx k")
    case False
    then show ?thesis
      using Suc.prems by (intro exI [of _ "k - 1"]) (auto simp: zerosLoop.simps [of _ _ k] fillByZeros_nat)
  next
    case True
    have "n = 18 - Suc k" "0 < Suc k" "Suc k \<le> 18" using Suc.hyps(2) Suc.prems by auto
    from Suc.hyps(1) [OF this, of "(int (zeroEnd mx k) - 1) # st"] obtain b st' where
      b: "Suc k \<le> Suc b" "zeroEnd mx (Suc b) \<le> mn + 1" "\<forall>i \<in> {Suc k..b}. mn + 1 < zeroEnd mx i"
      "zerosLoop (int mn) (int mx) (Suc k) ((int (zeroEnd mx k) - 1) # st) = Some st'"
      "set st' = (\<lambda>i. int (zeroEnd mx i) - 1) ` {Suc k..b} \<union> set ((int (zeroEnd mx k) - 1) # st)" by blast
    have "{k..b} = insert k {Suc k..b}" using b(1) by auto
    then show ?thesis
      using b True zeroEnd_le [of mx k] by (intro exI [of _ b]) (auto simp: zerosLoop.simps [of _ _ k] fillByZeros_nat)
  qed
qed

lemma splitToRanges_ends:
  assumes "mx + 1 < 10 ^ 18" "mn \<le> mx"
  obtains a b where "turns mn mx a b"
    "splitToRanges (int mn) (int mx) = Some (map (\<lambda>t. int t - 1) (sorted_list_of_set (ends mn mx a b)))"
proof -
  obtain a st where a: "mx < nineEnd mn (Suc a)" "\<forall>i \<in> {1..a}. nineEnd mn i \<le> mx"
    "ninesLoop (int mn) (int mx) 1 [int mx] = Some st" "set st = (\<lambda>i. int (nineEnd mn i) - 1) ` {1..a} \<union> {int mx}"
    using ninesLoop_runs [of mx mn 1 "[int mx]"] assms by auto
  obtain b st' where b: "zeroEnd mx (Suc b) \<le> mn + 1" "\<forall>i \<in> {1..b}. mn + 1 < zeroEnd mx i"
    "zerosLoop (int mn) (int mx) 1 st = Some st'" "set st' = (\<lambda>i. int (zeroEnd mx i) - 1) ` {1..b} \<union> set st"
    using zerosLoop_runs [of mx mn 1 st] assms by auto
  let ?ts = "map (\<lambda>t. int t - 1) (sorted_list_of_set (ends mn mx a b))"
  have fin: "finite (ends mn mx a b)" by (simp add: ends_def)
  have "set st' = (\<lambda>t. int t - 1) ` ends mn mx a b" unfolding a(4) b(4) ends_def by auto
  then have "set (sort (remdups st')) = set ?ts" using fin by simp
  moreover have "sorted ?ts" "distinct ?ts"
    by (simp_all add: sorted_map distinct_map inj_on_def sorted_wrt_mono_rel [OF _ sorted_sorted_list_of_set])
  ultimately have "sort (remdups st') = ?ts" by (intro sorted_distinct_set_unique) simp_all
  then have "splitToRanges (int mn) (int mx) = Some ?ts"
    unfolding splitToRanges_def a(3) by (simp add: b(3) [simplified])
  moreover have "turns mn mx a b" using a(1,2) b(1,2) by (simp add: turns_def)
  ultimately show ?thesis using that by blast
qed

section \<open>The expression of a range\<close>

text \<open>The expressions of the pieces of a tiling.\<close>

lemma tiles_le_last: "tiles t ts \<Longrightarrow> ts \<noteq> [] \<Longrightarrow> t \<le> last ts"
proof (induction ts arbitrary: t)
  case (Cons u ts)
  have "t < u" using Cons.prems(1) isPiece_less by simp
  moreover have "tiles u ts" using Cons.prems(1) by simp
  ultimately show ?case using Cons.IH [of u] by (cases "ts = []") simp_all
qed simp

fun digitAtom :: "atom \<Rightarrow> bool" where
  "digitAtom (Lit c) \<longleftrightarrow> digits [c]"
| "digitAtom (Rng a b) \<longleftrightarrow> CHR ''0'' \<le> a \<and> a \<le> b \<and> b \<le> CHR ''9''"
| "digitAtom (Times a b n) \<longleftrightarrow> 0 < n \<and> CHR ''0'' \<le> a \<and> a \<le> b \<and> b \<le> CHR ''9''"
| "digitAtom _ \<longleftrightarrow> False"

lemma pieceSeq_digits: "piece p d e k start stop \<Longrightarrow> list_all digitAtom (pieceSeq p d e k)"
  using pre_digits [of p] by (simp add: pieceSeq_def piece_def anyDigits_def list_all_iff dig_le)

lemma digitAtom_plain: "digitAtom a \<Longrightarrow> plainAtom a"
  by (cases a) simp_all

lemma plainSeq_iff: "plainSeq q \<longleftrightarrow> list_all plainAtom q"
  by (induction q) simp_all

lemma plain_iff: "plain r \<longleftrightarrow> list_all plainSeq r"
  by (induction r) simp_all

lemma digits_plain: "list_all (list_all digitAtom) r \<Longrightarrow> plain r"
  by (auto simp: plain_iff plainSeq_iff list_all_iff digitAtom_plain)

lemma patterns_tiles:
  "tiles lo ts \<Longrightarrow> \<exists>r. patternsLoop (int lo) (map (\<lambda>t. int t - 1) ts) = Some (map renderSeq r) \<and> length r = length ts \<and>
     list_all (list_all digitAtom) r \<and> (\<forall>w. matches r w \<longrightarrow> (\<exists>n. w = dec n)) \<and>
     (\<forall>n. matches r (dec n) \<longleftrightarrow> ts \<noteq> [] \<and> lo \<le> n \<and> n < last ts)"
proof (induction ts arbitrary: lo)
  case (Cons t ts)
  have ip: "isPiece lo t" and tl: "tiles t ts" using Cons.prems by simp_all
  from ip obtain p d e k where pc: "piece p d e k lo (t - 1)" "0 < t" by blast
  from Cons.IH [OF tl] obtain r where r: "patternsLoop (int t) (map (\<lambda>t. int t - 1) ts) = Some (map renderSeq r)"
    "length r = length ts" "list_all (list_all digitAtom) r" "\<And>n. matches r (dec n) \<longleftrightarrow> ts \<noteq> [] \<and> t \<le> n \<and> n < last ts"
    and nums: "\<And>w. matches r w \<Longrightarrow> \<exists>n. w = dec n" by blast
  have nums2: "\<exists>n. w = dec n" if "matches (pieceSeq p d e k # r) w" for w
    using that piece_text [OF pc(1), of w] nums [of w] by (auto simp: matches_def)
  have "rangeToPattern (int lo) (int t - 1) = Some (renderSeq (pieceSeq p d e k))"
    using rangeToPattern_piece [OF pc(1)] pc(2) by (simp only: of_nat_diff) simp
  then have "patternsLoop (int lo) (map (\<lambda>t. int t - 1) (t # ts)) = Some (map renderSeq (pieceSeq p d e k # r))"
    using r(1) by simp
  moreover have "matches (pieceSeq p d e k # r) (dec n) \<longleftrightarrow> lo \<le> n \<and> n < last (t # ts)" for n
  proof -
    have le: "ts \<noteq> [] \<Longrightarrow> t \<le> last ts" using tiles_le_last [OF tl] .
    have lt: "lo < t" using ip isPiece_less by simp
    have "matches (pieceSeq p d e k # r) (dec n) \<longleftrightarrow> [] \<in> set (restsSeq (pieceSeq p d e k) (dec n)) \<or> matches r (dec n)"
      by (simp add: matches_def)
    also have "\<dots> \<longleftrightarrow> (lo \<le> n \<and> n \<le> t - 1) \<or> (ts \<noteq> [] \<and> t \<le> n \<and> n < last ts)"
      unfolding r(4) piece_matches [OF pc(1)] by (rule refl)
    also have "\<dots> \<longleftrightarrow> lo \<le> n \<and> n < last (t # ts)" using le lt pc(2) by (cases "ts = []") auto
    finally show ?thesis .
  qed
  ultimately show ?case
    using r(2,3) pieceSeq_digits [OF pc(1)] nums2 by (intro exI [of _ "pieceSeq p d e k # r"]) simp
qed (auto simp: matches_def)

lemma joinWith_render: "joinWith ''|'' (map renderSeq r) = render r"
proof (induction r)
  case (Cons q r)
  then show ?case by (cases r) simp_all
qed simp

lemma last_end:
  assumes "turns mn mx a b" "mn \<le> mx"
  shows "sorted_list_of_set (ends mn mx a b) \<noteq> []" "last (sorted_list_of_set (ends mn mx a b)) = mx + 1"
proof -
  let ?ts = "sorted_list_of_set (ends mn mx a b)"
  have fin: "finite (ends mn mx a b)" and top: "mx + 1 \<in> ends mn mx a b" by (simp_all add: ends_def)
  then have set: "set ?ts = ends mn mx a b" by simp
  then show ne: "?ts \<noteq> []" using top by auto
  have "mx + 1 \<in> set ?ts" using top set by blast
  then obtain i where "i < length ?ts" "?ts ! i = mx + 1" unfolding in_set_conv_nth by blast
  then have "mx + 1 \<le> last ?ts"
    using sorted_nth_mono [OF sorted_sorted_list_of_set, of i "length ?ts - 1" "ends mn mx a b"] ne
    by (simp add: last_conv_nth)
  moreover have "last ?ts \<in> ends mn mx a b" using last_in_set [OF ne] set by simp
  then have "last ?ts \<le> mx + 1"
    using assms(1) zeroEnd_le [of mx] unfolding ends_def turns_def by (auto simp: le_SucI)
  ultimately show "last ?ts = mx + 1" by simp
qed

theorem RangeToRegex_exact:
  assumes "mx + 1 < 10 ^ 18" "mn \<le> mx"
  shows "\<exists>r. RangeToRegex (int mn) (int mx) = Some (render r) \<and> list_all (list_all digitAtom) r \<and>
    (\<forall>w. matches r w \<longrightarrow> (\<exists>n. w = dec n)) \<and> (\<forall>n. matches r (dec n) \<longleftrightarrow> mn \<le> n \<and> n \<le> mx)"
proof -
  obtain a b where tn: "turns mn mx a b" and
    stops: "splitToRanges (int mn) (int mx) = Some (map (\<lambda>t. int t - 1) (sorted_list_of_set (ends mn mx a b)))"
    by (rule splitToRanges_ends [OF assms])
  from patterns_tiles [OF ends_tile [OF tn assms(2)]] last_end [OF tn assms(2)] obtain r where
    r: "patternsLoop (int mn) (map (\<lambda>t. int t - 1) (sorted_list_of_set (ends mn mx a b))) = Some (map renderSeq r)"
    "list_all (list_all digitAtom) r" "\<forall>n. matches r (dec n) \<longleftrightarrow> mn \<le> n \<and> n < mx + 1"
    "\<forall>w. matches r w \<longrightarrow> (\<exists>n. w = dec n)" by auto
  have "RangeToRegex (int mn) (int mx) = Some (render r)"
    by (simp add: RangeToRegex_def splitToPatterns_def stops r(1) joinWith_render)
  then show ?thesis using r(2-4) by (intro exI [of _ r]) (simp add: less_Suc_eq_le)
qed

end
