(* ===== verification/Gremlin_Scanner.thy ===== *)
theory Gremlin_Scanner
  imports Range_Regex
begin

text \<open>
  The scanner of the Gremlin query language (\<^verbatim>\<open>src/graffiti/graph/traversal/traversal_scanner.go\<close>).  The reader is
  the rest of the text, a rune a character (runes above 255 are left out); its end reads as the rune 0, as in the code, so that a rune 0 in the text ends it
  too.  No extension is registered, as after \<^verbatim>\<open>NewGremlinTraversalParser\<close>.
\<close>

datatype Token =
    ILLEGAL | EOF | WS | IDENT | COMMA | DOT | LEFTPARENTHESIS | RIGHTPARENTHESIS | STRING | NUMBER
  | TokG | TokV | TokE | HAS | HASKEY | HASNOT | HASEITHER | OUT | IN_tok | OUTV | INV | BOTHV | OUTE | INE | BOTHE | DEDUP
  | WITHIN | WITHOUT | METADATA | SHORTESTPATHTO | NE | NEE | BOTH | CONTEXT | REGEX | LT | GT | LTE | GTE | INSIDE | OUTSIDE
  | BETWEEN | COUNT | RANGE | LIMIT | SORT | VALUES | KEYS | SUM_tok | ASC | DESC | IPV4RANGE | SUBGRAPH | FOREVER | NOW | AS
  | SELECT | TRUE | FALSE

abbreviation NUL :: char where
  "NUL \<equiv> CHR 0x00"

definition isString :: "char \<Rightarrow> bool" where
  "isString ch \<longleftrightarrow> ch = CHR 0x22 \<or> ch = CHR 0x27"

definition isWhitespace :: "char \<Rightarrow> bool" where
  "isWhitespace ch \<longleftrightarrow> ch = CHR '' '' \<or> ch = CHR 0x09 \<or> ch = CHR 0x0A"

definition isLetter :: "char \<Rightarrow> bool" where
  "isLetter ch \<longleftrightarrow> (CHR ''a'' \<le> ch \<and> ch \<le> CHR ''z'') \<or> (CHR ''A'' \<le> ch \<and> ch \<le> CHR ''Z'')"

definition isDigit :: "char \<Rightarrow> bool" where
  "isDigit ch \<longleftrightarrow> CHR ''0'' \<le> ch \<and> ch \<le> CHR ''9''"

section \<open>The loops\<close>

text \<open>Each returns the token with its text and what is left to read; \<open>buf\<close> is what has been read.\<close>

type_synonym scanned = "Token \<times> string \<times> string"

fun scanWhitespace :: "string \<Rightarrow> string \<Rightarrow> scanned" where
  "scanWhitespace buf [] = (WS, buf, [])"
| "scanWhitespace buf (ch # s) =
     (if ch = NUL then (WS, buf, s)
      else if \<not> isWhitespace ch then (WS, buf, ch # s)
      else scanWhitespace (buf @ [ch]) s)"

fun scanNumber :: "string \<Rightarrow> string \<Rightarrow> scanned" where
  "scanNumber buf [] = (NUMBER, buf, [])"
| "scanNumber buf (ch # s) =
     (if isLetter ch then (ILLEGAL, [ch], s)
      else if ch = NUL \<or> (\<not> isDigit ch \<and> ch \<noteq> CHR ''.'') then (NUMBER, buf, ch # s)
      else scanNumber (buf @ [ch]) s)"

fun scanString :: "string \<Rightarrow> string \<Rightarrow> scanned" where
  "scanString buf [] = (STRING, buf, [])"
| "scanString buf (ch # s) =
     (if ch = CHR 0x22 \<or> ch = CHR 0x27 \<or> ch = NUL then (STRING, buf, s) else scanString (buf @ [ch]) s)"

fun identLoop :: "string \<Rightarrow> string \<Rightarrow> string \<times> string" where
  "identLoop buf [] = (buf, [])"
| "identLoop buf (ch # s) =
     (if ch = NUL then (buf, s)
      else if \<not> isLetter ch \<and> \<not> isDigit ch \<and> ch \<noteq> CHR ''_'' then (buf, ch # s)
      else identLoop (buf @ [ch]) s)"

definition upperChar :: "char \<Rightarrow> char" where
  "upperChar ch = (if CHR ''a'' \<le> ch \<and> ch \<le> CHR ''z'' then char_of (of_char ch - 32 :: nat) else ch)"

text \<open>The cases of the switch; there is none for the token \<^verbatim>\<open>OUTSIDE\<close>.\<close>

definition keywords_list :: "(string \<times> Token) list" where
  "keywords_list =
     [(''G'', TokG), (''V'', TokV), (''E'', TokE), (''HAS'', HAS), (''HASKEY'', HASKEY), (''HASNOT'', HASNOT),
      (''HASEITHER'', HASEITHER), (''OUT'', OUT), (''IN'', IN_tok), (''OUTV'', OUTV), (''INV'', INV), (''BOTHV'', BOTHV),
      (''OUTE'', OUTE), (''INE'', INE), (''BOTHE'', BOTHE), (''WITHIN'', WITHIN), (''WITHOUT'', WITHOUT), (''DEDUP'', DEDUP),
      (''METADATA'', METADATA), (''SHORTESTPATHTO'', SHORTESTPATHTO), (''NE'', NE), (''NEE'', NEE), (''BOTH'', BOTH),
      (''CONTEXT'', CONTEXT), (''AT'', CONTEXT), (''REGEX'', REGEX), (''LT'', LT), (''GT'', GT), (''LTE'', LTE), (''GTE'', GTE),
      (''INSIDE'', INSIDE), (''BETWEEN'', BETWEEN), (''COUNT'', COUNT), (''RANGE'', RANGE), (''LIMIT'', LIMIT), (''SORT'', SORT),
      (''VALUES'', VALUES), (''KEYS'', KEYS), (''SUM'', SUM_tok), (''ASC'', ASC), (''DESC'', DESC), (''IPV4RANGE'', IPV4RANGE),
      (''SUBGRAPH'', SUBGRAPH), (''FOREVER'', FOREVER), (''NOW'', NOW), (''AS'', AS), (''SELECT'', SELECT), (''TRUE'', TRUE),
      (''FALSE'', FALSE)]"

definition identToken :: "string \<Rightarrow> Token" where
  "identToken us = (case map_of keywords_list us of Some tok \<Rightarrow> tok | None \<Rightarrow> IDENT)"

definition scanIdent :: "string \<Rightarrow> string \<Rightarrow> scanned" where
  "scanIdent buf s = (let (lit, r) = identLoop buf s in (identToken (map upperChar lit), lit, r))"

fun Scan :: "string \<Rightarrow> scanned" where
  "Scan [] = (EOF, [], [])"
| "Scan (ch # s) =
     (if isWhitespace ch then scanWhitespace [] s
      else if isDigit ch then scanNumber [ch] s
      else if isString ch then scanString [] s
      else if isLetter ch then scanIdent [ch] s
      else if ch = NUL then (EOF, [], s)
      else if ch = CHR ''('' then (LEFTPARENTHESIS, [ch], s)
      else if ch = CHR '')'' then (RIGHTPARENTHESIS, [ch], s)
      else if ch = CHR '','' then (COMMA, [ch], s)
      else if ch = CHR ''.'' then (DOT, [ch], s)
      else (ILLEGAL, [ch], s))"

section \<open>Every token consumes text\<close>

text \<open>What is left is a suffix of the text, and a proper one but for the end.\<close>

lemma scanWhitespace_consumes: "scanWhitespace buf s = (tok, lit, r) \<Longrightarrow> length r \<le> length s"
  by (induction buf s rule: scanWhitespace.induct) (auto split: if_splits)

lemma scanNumber_consumes: "scanNumber buf s = (tok, lit, r) \<Longrightarrow> length r \<le> length s"
  by (induction buf s rule: scanNumber.induct) (auto split: if_splits)

lemma scanString_consumes: "scanString buf s = (tok, lit, r) \<Longrightarrow> length r \<le> length s"
  by (induction buf s rule: scanString.induct) (auto split: if_splits)

lemma identLoop_consumes: "identLoop buf s = (lit, r) \<Longrightarrow> length r \<le> length s"
  by (induction buf s rule: identLoop.induct) (auto split: if_splits)

lemma Scan_consumes: "Scan s = (tok, lit, r) \<Longrightarrow> s \<noteq> [] \<Longrightarrow> length r < length s"
  by (cases s)
    (auto simp: scanIdent_def le_imp_less_Suc split: if_splits prod.splits
      dest: scanWhitespace_consumes scanNumber_consumes scanString_consumes identLoop_consumes)

lemma scanWhitespace_token: "fst (scanWhitespace buf s) = WS"
  by (induction buf s rule: scanWhitespace.induct) simp_all

lemma scanNumber_token: "fst (scanNumber buf s) \<in> {NUMBER, ILLEGAL}"
  by (induction buf s rule: scanNumber.induct) simp_all

lemma scanString_token: "fst (scanString buf s) = STRING"
  by (induction buf s rule: scanString.induct) simp_all

lemma Scan_WS_consumes: "Scan s = (WS, lit, r) \<Longrightarrow> length r < length s"
  using Scan_consumes [of s WS lit r] by (cases s) auto

function scanIgnoreWhitespace :: "string \<Rightarrow> scanned" where
  "scanIgnoreWhitespace s =
     (case Scan s of (tok, lit, r) \<Rightarrow> if tok = WS then scanIgnoreWhitespace r else (tok, lit, r))"
  by auto
termination
  by (relation "measure length") (auto dest: Scan_WS_consumes [OF sym])

declare scanIgnoreWhitespace.simps [simp del]

lemma scanIgnoreWhitespace_consumes:
  "scanIgnoreWhitespace s = (tok, lit, r) \<Longrightarrow> length r \<le> length s \<and> (tok \<noteq> EOF \<longrightarrow> length r < length s)"
proof (induction s rule: scanIgnoreWhitespace.induct)
  case (1 s)
  obtain t l q where sc: "Scan s = (t, l, q)" by (cases "Scan s") auto
  show ?case
  proof (cases "t = WS")
    case True
    then have "length q < length s" using sc Scan_WS_consumes by simp
    then show ?thesis using 1 sc True by (fastforce simp: scanIgnoreWhitespace.simps [of s])
  next
    case False
    then have "tok = t" "r = q" using 1(2) sc by (simp_all add: scanIgnoreWhitespace.simps [of s])
    then show ?thesis using sc Scan_consumes [OF sc] by (cases "s = []") auto
  qed
qed

section \<open>Scanning printed text\<close>

text \<open>What the scanner reads at the start of a text that continues with another token.\<close>

definition breaks :: "string \<Rightarrow> bool" where
  "breaks s \<longleftrightarrow> s = [] \<or> hd s \<in> {CHR ''('', CHR '')'', CHR '',''} \<or> isWhitespace (hd s)"

lemma breaks_Cons [simp]: "breaks (CHR ''('' # s)" "breaks (CHR '')'' # s)" "breaks (CHR '','' # s)"
  by (simp_all add: breaks_def)

lemma break_char: "breaks (c # s) \<Longrightarrow> \<not> isLetter c \<and> \<not> isDigit c \<and> c \<noteq> CHR ''_'' \<and> c \<noteq> CHR ''.'' \<and> c \<noteq> NUL"
  by (auto simp: breaks_def isLetter_def isDigit_def isWhitespace_def less_eq_char_def)

lemma identLoop_letters:
  "list_all (\<lambda>c. isLetter c \<or> isDigit c) w \<Longrightarrow> breaks t \<Longrightarrow> identLoop buf (w @ t) = (buf @ w, t)"
proof (induction w arbitrary: buf)
  case Nil
  then show ?case using break_char by (cases t) auto
next
  case (Cons c w)
  moreover have "c \<noteq> NUL" using Cons.prems(1) by (auto simp: isLetter_def isDigit_def less_eq_char_def)
  ultimately show ?case by auto
qed

lemma scan_word:
  assumes "isLetter c" "list_all (\<lambda>c. isLetter c \<or> isDigit c) w" "breaks t" "tok = identToken (map upperChar (c # w))"
  shows "scanIgnoreWhitespace ((c # w) @ t) = (tok, c # w, t)"
proof -
  have "\<not> isWhitespace c" "\<not> isDigit c" "\<not> isString c"
    using assms(1) by (auto simp: isLetter_def isWhitespace_def isDigit_def isString_def less_eq_char_def)
  then have "Scan ((c # w) @ t) = (tok, c # w, t)"
    using assms identLoop_letters [OF assms(2,3), of "[c]"] by (simp add: scanIdent_def)
  moreover have "tok \<noteq> WS" unfolding assms(4) identToken_def keywords_list_def by (auto split: option.splits)
  ultimately show ?thesis by (simp add: scanIgnoreWhitespace.simps)
qed

lemma scanNumber_digits: "list_all isDigit w \<Longrightarrow> breaks t \<Longrightarrow> scanNumber buf (w @ t) = (NUMBER, buf @ w, t)"
proof (induction w arbitrary: buf)
  case Nil
  then show ?case using break_char by (cases t) auto
next
  case (Cons c w)
  moreover have "\<not> isLetter c" "c \<noteq> NUL" using Cons.prems(1) by (auto simp: isLetter_def isDigit_def less_eq_char_def)
  ultimately show ?case by simp
qed

lemma scan_digits:
  assumes "list_all isDigit w" "w \<noteq> []" "breaks t"
  shows "scanIgnoreWhitespace (w @ t) = (NUMBER, w, t)"
proof -
  obtain c w' where w: "w = c # w'" using assms(2) by (cases w) auto
  have "isDigit c" "\<not> isWhitespace c" using assms(1) w by (auto simp: isDigit_def isWhitespace_def less_eq_char_def)
  then show ?thesis using scanNumber_digits [of w' t "[c]"] assms(1,3) w by (simp add: scanIgnoreWhitespace.simps)
qed

lemma scan_quoted:
  assumes "list_all (\<lambda>c. \<not> isString c \<and> c \<noteq> NUL) w"
  shows "scanIgnoreWhitespace (CHR 0x22 # w @ CHR 0x22 # t) = (STRING, w, t)"
proof -
  have "scanString buf (w @ CHR 0x22 # t) = (STRING, buf @ w, t)" for buf
    using assms by (induction w arbitrary: buf) (auto simp: isString_def)
  then show ?thesis by (simp add: scanIgnoreWhitespace.simps isWhitespace_def isDigit_def isString_def less_eq_char_def)
qed

lemma scan_punctuation [simp]:
  "scanIgnoreWhitespace (CHR ''('' # t) = (LEFTPARENTHESIS, ''('', t)"
  "scanIgnoreWhitespace (CHR '')'' # t) = (RIGHTPARENTHESIS, '')'', t)"
  "scanIgnoreWhitespace (CHR '','' # t) = (COMMA, '','', t)"
  "scanIgnoreWhitespace (CHR ''.'' # t) = (DOT, ''.'', t)"
  "scanIgnoreWhitespace [] = (EOF, [], [])"
  by (simp_all add: scanIgnoreWhitespace.simps isWhitespace_def isDigit_def isString_def isLetter_def less_eq_char_def)

end
