(* ===== verification/Gremlin_Parser.thy ===== *)
theory Gremlin_Parser
  imports Gremlin_Scanner Metrics
begin

text \<open>
  The parser of Gremlin queries (\<^verbatim>\<open>src/graffiti/graph/traversal/traversal_parser.go\<close>, with the predicates of
  \<^verbatim>\<open>traversal.go\<close> a parameter can be).  \<open>None\<close> is a parser that does not return; the errors are values.
\<close>

section \<open>Parameters and steps\<close>

datatype SortOrder = SortAscending | SortDescending

datatype param =
    PInt int | PFloat rat | PString string | PBool bool
  | PMetadata "(string \<times> param) list"
  | Within "param list" | Without "param list"
  | Ne param | Nee param | Lt param | Gt param | Lte param | Gte param
  | Inside param param | Outside param param | Between param param
  | Regex string | IPV4Range param
  | PSort SortOrder | ForeverPredicate | NowPredicate
  | PTime int | PDuration int \<comment> \<open>what \<^verbatim>\<open>Context\<close> leaves in place of its parameters\<close>

datatype parse_error =
    ExpectedLeft string | ExpectedRight | ExpectedNumber string | PairExpected | KeyNotString
  | ParamCount Token | RegexNotString | UnexpectedToken string
  | ExpectedStep string | BadStepParams Token | ExpectedG string | ExpectedDot string

datatype stepKind =
    StepG | StepV | StepE | StepContext | StepOut | StepIn | StepOutV | StepInV | StepBothV | StepSubGraph | StepOutE | StepInE
  | StepBothE | StepDedup | StepHas | StepHasKey | StepHasNot | StepHasEither | StepShortestPathTo | StepBoth | StepCount
  | StepRange | StepLimit | StepSort | StepValues | StepKeys | StepSum | StepAs | StepSelect

text \<open>All kinds of steps embed \<^verbatim>\<open>GremlinTraversalContext\<close>.\<close>

record GremlinStep =
  kind :: stepKind
  PaginationRange :: "(int \<times> int) option"
  Params :: "param list"

section \<open>Parameters\<close>

fun isPString :: "param \<Rightarrow> bool" where
  "isPString (PString _) = True"
| "isPString _ = False"

fun isPSort :: "param \<Rightarrow> bool" where
  "isPSort (PSort _) = True"
| "isPSort _ = False"

text \<open>\<^verbatim>\<open>strconv.ParseFloat\<close> of a text of digits and dots: nearest value, and an error beyond the largest float64.\<close>

definition ParseFloat :: "string \<Rightarrow> rat option" where
  "ParseFloat lit =
     (let whole = takeWhile (\<lambda>c. c \<noteq> CHR ''.'') lit; rest = dropWhile (\<lambda>c. c \<noteq> CHR ''.'') lit; frac = tl rest;
          f = fl64 (of_int (digits_value (whole @ frac)) / 10 ^ length frac)
      in if CHR ''.'' \<in> set frac \<or> whole @ frac = [] \<or> 2 ^ 1024 \<le> f then None else Some f)"

definition numberParam :: "string \<Rightarrow> param option" where
  "numberParam lit =
     (case ParseInt lit of Inr i \<Rightarrow> Some (PInt i) | Inl _ \<Rightarrow> map_option PFloat (ParseFloat lit))"

text \<open>The parameters that are a single token.\<close>

definition literalParam :: "Token \<Rightarrow> param option" where
  "literalParam tok =
     (if tok = ASC then Some (PSort SortAscending)
      else if tok = DESC then Some (PSort SortDescending)
      else if tok = FOREVER then Some ForeverPredicate
      else if tok = NOW then Some NowPredicate
      else if tok = TRUE then Some (PBool True)
      else if tok = FALSE then Some (PBool False)
      else None)"

fun paramsToMetadata :: "param list \<Rightarrow> (string, param) gomap \<Rightarrow> parse_error + (string, param) gomap" where
  "paramsToMetadata [] m = Inr m"
| "paramsToMetadata (PString k # v # s) m = paramsToMetadata s (gm_set k v m)"
| "paramsToMetadata (_ # v # s) m = Inl KeyNotString"
| "paramsToMetadata [v] m = Inl PairExpected"

definition isPredicate :: "Token \<Rightarrow> bool" where
  "isPredicate tok \<longleftrightarrow>
     tok \<in> set [METADATA, WITHIN, WITHOUT, LT, GT, LTE, GTE, INSIDE, OUTSIDE, BETWEEN, NE, NEE, REGEX, IPV4RANGE]"

definition one :: "Token \<Rightarrow> (param \<Rightarrow> param) \<Rightarrow> param list \<Rightarrow> parse_error + param" where
  "one tok f ps = (case ps of [p] \<Rightarrow> Inr (f p) | _ \<Rightarrow> Inl (ParamCount tok))"

definition two :: "Token \<Rightarrow> (param \<Rightarrow> param \<Rightarrow> param) \<Rightarrow> param list \<Rightarrow> parse_error + param" where
  "two tok f ps = (case ps of [p, q] \<Rightarrow> Inr (f p q) | _ \<Rightarrow> Inl (ParamCount tok))"

text \<open>The predicate of a token from its parameters; the length of the metadata is checked before its keys.\<close>

definition predicate :: "Token \<Rightarrow> param list \<Rightarrow> parse_error + param" where
  "predicate tok ps =
     (if tok = METADATA then
        (if length ps mod 2 \<noteq> 0 then Inl PairExpected
         else case paramsToMetadata ps [] of Inl err \<Rightarrow> Inl err | Inr m \<Rightarrow> Inr (PMetadata m))
      else if tok = WITHIN then Inr (Within ps)
      else if tok = WITHOUT then Inr (Without ps)
      else if tok = LT then one tok Lt ps
      else if tok = GT then one tok Gt ps
      else if tok = LTE then one tok Lte ps
      else if tok = GTE then one tok Gte ps
      else if tok = INSIDE then two tok Inside ps
      else if tok = OUTSIDE then two tok Outside ps
      else if tok = BETWEEN then two tok Between ps
      else if tok = NE then one tok Ne ps
      else if tok = NEE then one tok Nee ps
      else if tok = REGEX then
        (case ps of [p] \<Rightarrow> (case p of PString s \<Rightarrow> Inr (Regex s) | _ \<Rightarrow> Inl RegexNotString) | _ \<Rightarrow> Inl (ParamCount tok))
      else one tok IPV4Range ps)"

text \<open>The loop of \<^verbatim>\<open>parseStepParams\<close>, after the left parenthesis.\<close>

type_synonym 'a parsed = "(parse_error + 'a) \<times> string"

partial_function (option) paramsLoop :: "string \<Rightarrow> param list \<Rightarrow> param list parsed option" where
  [code]: "paramsLoop s params =
     (let (tok, lit, r) = scanIgnoreWhitespace s in
      if tok = RIGHTPARENTHESIS then Some (Inr params, r)
      else if tok = EOF then Some (Inl ExpectedRight, r)
      else if tok = COMMA then paramsLoop r params
      else if tok = NUMBER then
        (case numberParam lit of
           None \<Rightarrow> Some (Inl (ExpectedNumber lit), r)
         | Some p \<Rightarrow> paramsLoop r (params @ [p]))
      else if tok = STRING then paramsLoop r (params @ [PString lit])
      else if isPredicate tok then
        (let (tok2, lit2, r2) = scanIgnoreWhitespace r in
         if tok2 \<noteq> LEFTPARENTHESIS then Some (Inl (ExpectedLeft lit2), r2)
         else Option.bind (paramsLoop r2 [])
           (\<lambda>(res, r3). case res of
              Inl err \<Rightarrow> Some (Inl err, r3)
            | Inr ps \<Rightarrow>
                (case predicate tok ps of
                   Inl err \<Rightarrow> Some (Inl err, r3)
                 | Inr p \<Rightarrow> paramsLoop r3 (params @ [p]))))
      else (case literalParam tok of
              None \<Rightarrow> Some (Inl (UnexpectedToken lit), r)
            | Some p \<Rightarrow> paramsLoop r (params @ [p])))"

definition parseStepParams :: "string \<Rightarrow> param list parsed option" where
  "parseStepParams s =
     (let (tok, lit, r) = scanIgnoreWhitespace s
      in if tok \<noteq> LEFTPARENTHESIS then Some (Inl (ExpectedLeft lit), r) else paramsLoop r [])"

section \<open>Steps\<close>

definition mkStep :: "stepKind \<Rightarrow> param list \<Rightarrow> GremlinStep" where
  "mkStep k ps = \<lparr>kind = k, PaginationRange = None, Params = ps\<rparr>"

definition check :: "Token \<Rightarrow> bool \<Rightarrow> stepKind \<Rightarrow> param list \<Rightarrow> parse_error + GremlinStep" where
  "check tok ok k ps = (if ok then Inr (mkStep k ps) else Inl (BadStepParams tok))"

text \<open>The kinds of steps whose parameters are not checked by the parser.\<close>

definition freeSteps :: "(Token \<times> stepKind) list" where
  "freeSteps =
     [(OUT, StepOut), (IN_tok, StepIn), (OUTV, StepOutV), (INV, StepInV), (BOTHV, StepBothV), (SUBGRAPH, StepSubGraph),
      (OUTE, StepOutE), (INE, StepInE), (BOTHE, StepBothE), (HAS, StepHas), (HASEITHER, StepHasEither), (BOTH, StepBoth),
      (CONTEXT, StepContext), (KEYS, StepKeys), (SUM_tok, StepSum)]"

definition stepOf :: "Token \<Rightarrow> string \<Rightarrow> param list \<Rightarrow> parse_error + GremlinStep" where
  "stepOf tok lit ps =
     (let oneString = (length ps = 1 \<and> isPString (ps ! 0)) in
      if tok = TokV then check tok (ps = [] \<or> oneString) StepV ps
      else if tok = TokE then check tok (ps = [] \<or> oneString) StepE ps
      else if tok = DEDUP then check tok (list_all isPString ps) StepDedup ps
      else if tok = HASNOT then check tok oneString StepHasNot ps
      else if tok = HASKEY then check tok oneString StepHasKey ps
      else if tok = SHORTESTPATHTO then check tok (length ps \<noteq> 0 \<and> length ps \<le> 2) StepShortestPathTo ps
      else if tok = COUNT then check tok (length ps = 0) StepCount ps
      else if tok = SORT then
        (if length ps = 0 then Inr (mkStep StepSort ps)
         else if length ps = 1 then check tok oneString StepSort [PSort SortAscending, ps ! 0]
         else check tok (length ps = 2 \<and> isPSort (ps ! 0) \<and> isPString (ps ! 1)) StepSort ps)
      else if tok = RANGE then check tok (length ps = 2) StepRange ps
      else if tok = LIMIT then check tok (length ps = 1) StepLimit ps
      else if tok = VALUES then check tok oneString StepValues ps
      else if tok = AS then check tok oneString StepAs ps
      else if tok = SELECT then check tok (length ps \<noteq> 0) StepSelect ps
      else (case map_of freeSteps tok of Some k \<Rightarrow> Inr (mkStep k ps) | None \<Rightarrow> Inl (ExpectedStep lit)))"

definition parserStep :: "string \<Rightarrow> GremlinStep parsed option" where
  "parserStep s =
     (let (tok, lit, r) = scanIgnoreWhitespace s in
      if tok = IDENT then Some (Inl (ExpectedStep lit), r)
      else if tok = TokG then Some (Inr (mkStep StepG []), r)
      else map_option (\<lambda>(res, r). (case res of Inl err \<Rightarrow> Inl err | Inr ps \<Rightarrow> stepOf tok lit ps, r)) (parseStepParams r))"

partial_function (option) stepsLoop :: "string \<Rightarrow> GremlinStep list \<Rightarrow> (parse_error + GremlinStep list) option" where
  [code]: "stepsLoop s steps =
     (let (tok, lit, r) = scanIgnoreWhitespace s in
      if tok = EOF then Some (Inr steps)
      else if tok \<noteq> DOT then Some (Inl (ExpectedDot lit))
      else Option.bind (parserStep r)
        (\<lambda>(res, r). case res of Inl err \<Rightarrow> Some (Inl err) | Inr step \<Rightarrow> stepsLoop r (steps @ [step])))"

definition Parse :: "string \<Rightarrow> (parse_error + GremlinStep list) option" where
  "Parse s =
     (let (tok, lit, r) = scanIgnoreWhitespace s
      in if tok \<noteq> TokG then Some (Inl (ExpectedG lit)) else stepsLoop r [])"

section \<open>The parser returns\<close>

lemma paramsLoop_returns: "\<exists>res r. paramsLoop s params = Some (res, r) \<and> length r \<le> length s"
proof (induction s arbitrary: params rule: length_induct)
  case (1 s)
  obtain tok lit r where sc: "scanIgnoreWhitespace s = (tok, lit, r)" by (cases "scanIgnoreWhitespace s") auto
  have le: "length r \<le> length s" using scanIgnoreWhitespace_consumes [OF sc] by simp
  have IH: "\<exists>res r'. paramsLoop q ps = Some (res, r') \<and> length r' \<le> length q" if "length q < length s" for q ps
    using 1 that by blast
  show ?case
  proof (cases "tok = EOF")
    case True
    then show ?thesis using le by (simp add: paramsLoop.simps [of s] sc)
  next
    case False
    then have lt: "length r < length s" using scanIgnoreWhitespace_consumes [OF sc] by simp
    have more: "\<exists>res r'. paramsLoop r ps = Some (res, r') \<and> length r' \<le> length s" for ps
      using IH [OF lt, of ps] lt by fastforce
    show ?thesis
    proof (cases "isPredicate tok")
      case pred: False
      then show ?thesis
        using False le more by (auto simp: paramsLoop.simps [of s] sc split: option.split)
    next
      case pred: True
      then have tk: "tok \<noteq> RIGHTPARENTHESIS" "tok \<noteq> COMMA" "tok \<noteq> NUMBER" "tok \<noteq> STRING" by (auto simp: isPredicate_def)
      obtain tok2 lit2 r2 where sc2: "scanIgnoreWhitespace r = (tok2, lit2, r2)" by (cases "scanIgnoreWhitespace r") auto
      have le2: "length r2 \<le> length r" using scanIgnoreWhitespace_consumes [OF sc2] by simp
      have lt2: "length r2 < length s" using le2 lt by linarith
      obtain res r3 where in3: "paramsLoop r2 [] = Some (res, r3)" and le3: "length r3 \<le> length r2" using IH [OF lt2, of "[]"] by blast
      have lt3: "length r3 < length s" using le3 lt2 by linarith
      have rest: "\<exists>res r'. paramsLoop r3 ps = Some (res, r') \<and> length r' \<le> length s" for ps
        using IH [OF lt3, of ps] lt3 by fastforce
      show ?thesis
        unfolding paramsLoop.simps [of s] sc Let_def prod.case sc2 in3 using False tk pred lt2 lt3 rest
        by (auto split: sum.split)
    qed
  qed
qed

lemma parserStep_returns:
  "scanIgnoreWhitespace q = (DOT, lit, s) \<Longrightarrow> \<exists>res r. parserStep s = Some (res, r) \<and> length r < length q"
proof -
  assume q: "scanIgnoreWhitespace q = (DOT, lit, s)"
  have ls: "length s < length q" using scanIgnoreWhitespace_consumes [OF q] by simp
  obtain tok lit r where sc: "scanIgnoreWhitespace s = (tok, lit, r)" by (cases "scanIgnoreWhitespace s") auto
  obtain tok2 lit2 r2 where sc2: "scanIgnoreWhitespace r = (tok2, lit2, r2)" by (cases "scanIgnoreWhitespace r") auto
  obtain res r3 where r3: "paramsLoop r2 [] = Some (res, r3)" "length r3 \<le> length r2" using paramsLoop_returns by blast
  have "length r \<le> length s" "length r2 \<le> length r"
    using scanIgnoreWhitespace_consumes [OF sc] scanIgnoreWhitespace_consumes [OF sc2] by simp_all
  then show ?thesis using r3 ls by (simp add: parserStep_def parseStepParams_def sc sc2)
qed

lemma stepsLoop_returns: "\<exists>res. stepsLoop s steps = Some res"
proof (induction s arbitrary: steps rule: length_induct)
  case (1 s)
  obtain tok lit r where sc: "scanIgnoreWhitespace s = (tok, lit, r)" by (cases "scanIgnoreWhitespace s") auto
  show ?case
  proof (cases "tok = DOT")
    case True
    then obtain res r' where st: "parserStep r = Some (res, r')" "length r' < length s"
      using parserStep_returns sc by blast
    then show ?thesis using 1 True sc by (cases res) (simp_all add: stepsLoop.simps [of s])
  qed (simp add: stepsLoop.simps [of s] sc)
qed

lemma Parse_returns: "\<exists>res. Parse s = Some res"
  using stepsLoop_returns by (cases "scanIgnoreWhitespace s") (simp add: Parse_def)

text \<open>No text scans as the token \<open>OUTSIDE\<close>.\<close>

lemma identToken_not_OUTSIDE: "identToken us \<noteq> OUTSIDE"
  by (auto simp: identToken_def keywords_list_def split: option.splits)

lemma scanNumber_not_OUTSIDE: "fst (scanNumber buf s) \<noteq> OUTSIDE"
  using scanNumber_token [of buf s] by auto

lemma Scan_not_OUTSIDE: "fst (Scan s) \<noteq> OUTSIDE"
  by (cases s) (simp_all add: scanIdent_def scanNumber_not_OUTSIDE scanWhitespace_token scanString_token
      identToken_not_OUTSIDE split: prod.split)

end
