(* ===== verification/Traversal.thy ===== *)
theory Traversal
  imports Gremlin_Parser ShortestPath
begin

text \<open>
  The steps of a graph traversal (\<^verbatim>\<open>src/graffiti/graph/traversal/traversal.go\<close>, \<^verbatim>\<open>graph/sort.go\<close>,
  \<^verbatim>\<open>common/iterator.go\<close>).  The operations are on a receiver without error: a sequence ends at the first error, so the
  branches that hand an error on are the error results here.  \<open>None\<close> is a panic.  The locks are left out.
\<close>

section \<open>Parameters of the model\<close>

text \<open>
  A graph may be over any backend, and a subgraph is over a new in-memory one: \<open>tp_memory\<close> is the conversion to the
  interface.  The others stand for \<^verbatim>\<open>regexp.Compile\<close>, \<^verbatim>\<open>net.ParseCIDR\<close>, \<^verbatim>\<open>hashstructure.Hash\<close>,
  \<^verbatim>\<open>sort.Sort\<close> and the parsers of times; the clock stands still during a query.
\<close>

record 'c tparams =
  tp_backend :: "'c Backend"
  tp_memory :: "MemoryBackend \<Rightarrow> 'c"
  tp_compiles :: "string \<Rightarrow> bool"
  tp_isCIDR :: "string \<Rightarrow> bool"
  tp_hash :: "gval \<Rightarrow> nat result"
  tp_sort :: "(nref \<Rightarrow> nref \<Rightarrow> bool) \<Rightarrow> nref list \<Rightarrow> nref list"
  tp_now :: int
  tp_parseTime :: "string \<Rightarrow> int option"
  tp_parseDuration :: "string \<Rightarrow> int option"

section \<open>Steps\<close>

text \<open>
  \<open>tr_as\<close> is \<open>None\<close> for a nil map.  A slice of nodes remembered by \<^verbatim>\<open>As\<close> is shared with the step it was
  taken from, which can sort it in place: the last field of \<open>TV\<close> are the names of the entries that share the slice.
\<close>

record 'c GraphTraversal =
  tr_Graph :: "'c Graph"
  tr_as :: "(string, nref list) gomap option"

datatype tvalue = ValItems "gval list" | ValInt int

datatype 'c tstep =
    TG "'c GraphTraversal"
  | TV "'c GraphTraversal" "nref list" "string list"
  | TE "'c GraphTraversal" "eref list"
  | TPath "'c GraphTraversal" "nref list list"
  | TValue "'c GraphTraversal" tvalue

type_synonym 'c touts = "'c tstep result option"

definition NewGraphTraversal :: "'c Graph \<Rightarrow> 'c GraphTraversal" where
  "NewGraphTraversal g = \<lparr>tr_Graph = g, tr_as = Some []\<rparr>"

abbreviation (input) tworld :: "'c GraphTraversal \<Rightarrow> world" where
  "tworld t \<equiv> g_world (tr_Graph t)"

abbreviation (input) tnode :: "'c GraphTraversal \<Rightarrow> nref \<Rightarrow> Node" where
  "tnode t r \<equiv> h_node (g_world (tr_Graph t)) r"

abbreviation (input) tedge :: "'c GraphTraversal \<Rightarrow> eref \<Rightarrow> Edge" where
  "tedge t e \<equiv> h_edge (g_world (tr_Graph t)) e"

text \<open>The cache of compiled expressions is state of the process.\<close>

definition setEnv :: "regex_env \<Rightarrow> 'c GraphTraversal \<Rightarrow> 'c GraphTraversal" where
  "setEnv env t = t\<lparr>tr_Graph := (tr_Graph t)\<lparr>g_world := (tworld t)\<lparr>h_env := env\<rparr>\<rparr>\<rparr>"

section \<open>Pagination\<close>

record Iterator =
  it_at :: int
  it_from :: int
  it_to :: int

definition Done :: "Iterator \<Rightarrow> bool" where
  "Done it \<longleftrightarrow> it_to it \<noteq> - 1 \<and> it_at it \<ge> it_to it"

definition Next :: "Iterator \<Rightarrow> Iterator \<times> bool" where
  "Next it = (it\<lparr>it_at := it_at it + 1\<rparr>, it_at it \<ge> it_from it)"

definition rangeIterator :: "(int \<times> int) option \<Rightarrow> Iterator" where
  "rangeIterator r =
     (case r of Some (from, to) \<Rightarrow> \<lparr>it_at = 0, it_from = from, it_to = to\<rparr>
              | None \<Rightarrow> \<lparr>it_at = 0, it_from = 0, it_to = - 1\<rparr>)"

text \<open>
  A loop over items that takes what the iterator lets through; the last result tells whether it was left by a break.
\<close>

fun iterate :: "Iterator \<Rightarrow> 'a list \<Rightarrow> Iterator \<times> 'a list \<times> bool" where
  "iterate it [] = (it, [], False)"
| "iterate it (x # xs) =
     (if Done it then (it, [], True)
      else let (it, ok) = Next it; (it, ys, broke) = iterate it xs in (it, if ok then x # ys else ys, broke))"

text \<open>
  Nested loops: the items of \<open>f x\<close> for every \<open>x\<close>.  The break leaves both loops in \<open>pagedLoop\<close>, the inner one
  in \<open>pagedInner\<close>.
\<close>

fun pagedLoop :: "('x \<Rightarrow> 'a list option) \<Rightarrow> Iterator \<Rightarrow> 'x list \<Rightarrow> 'a list option" where
  "pagedLoop f it [] = Some []"
| "pagedLoop f it (x # xs) =
     (case f x of
        None \<Rightarrow> None
      | Some ys \<Rightarrow>
          (let (it, zs, broke) = iterate it ys
           in if broke then Some zs else map_option (\<lambda>rest. zs @ rest) (pagedLoop f it xs)))"

fun pagedInner :: "('x \<Rightarrow> 'a list option) \<Rightarrow> Iterator \<Rightarrow> 'x list \<Rightarrow> 'a list option" where
  "pagedInner f it [] = Some []"
| "pagedInner f it (x # xs) =
     (case f x of
        None \<Rightarrow> None
      | Some ys \<Rightarrow>
          (let (it, zs, broke) = iterate it ys in map_option (\<lambda>rest. zs @ rest) (pagedInner f it xs)))"

text \<open>The loop of the filtering steps: only the items that pass count.\<close>

fun filterLoop :: "('a \<Rightarrow> bool) \<Rightarrow> Iterator \<Rightarrow> 'a list \<Rightarrow> 'a list" where
  "filterLoop p it [] = []"
| "filterLoop p it (x # xs) =
     (if Done it then []
      else if p x then let (it, ok) = Next it in (if ok then x # filterLoop p it xs else filterLoop p it xs)
      else filterLoop p it xs)"

section \<open>Filters of parameters\<close>

fun asPString :: "param \<Rightarrow> string option" where
  "asPString (PString s) = Some s"
| "asPString _ = None"

fun asSort :: "param \<Rightarrow> SortOrder option" where
  "asSort (PSort order) = Some order"
| "asSort _ = None"

fun asInt :: "param \<Rightarrow> int option" where
  "asInt (PInt i) = Some i"
| "asInt _ = None"

fun paramVal :: "param \<Rightarrow> gval" where
  "paramVal (PInt i) = VInt64 i"
| "paramVal (PFloat f) = VFloat f"
| "paramVal (PString s) = VString s"
| "paramVal (PBool b) = VBool b"
| "paramVal (PMetadata m) = VMetadata (map (\<lambda>(k, v). (k, paramVal v)) m)"
| "paramVal _ = VNil" \<comment> \<open>the other types have no conversion to int64\<close>

definition paramInt64 :: "param \<Rightarrow> int result" where
  "paramInt64 p = ToInt64 (paramVal p)"

definition anchored :: "string \<Rightarrow> bool" where
  "anchored s \<longleftrightarrow> (s \<noteq> [] \<and> hd s = CHR ''^'') \<or> (s \<noteq> [] \<and> last s = CHR ''$'')"

fun termFilter :: "string \<Rightarrow> param \<Rightarrow> Filter result" where
  "termFilter k (PString s) = Inr (NewTermStringFilter k s)"
| "termFilter k p = (case paramInt64 p of Inl err \<Rightarrow> Inl err | Inr i \<Rightarrow> Inr (NewTermInt64Filter k i))"

fun notEqualFilter :: "string \<Rightarrow> param \<Rightarrow> Filter result" where
  "notEqualFilter k (PString s) = Inr (NewNotFilter (Some (NewTermStringFilter k s)))"
| "notEqualFilter k (PBool b) = Inr (NewTermBoolFilter k (\<not> b))"
| "notEqualFilter k p =
     (case paramInt64 p of Inl err \<Rightarrow> Inl err | Inr i \<Rightarrow> Inr (NewNotFilter (Some (NewTermInt64Filter k i))))"

definition boundFilter :: "(string \<Rightarrow> int \<Rightarrow> Filter) \<Rightarrow> string \<Rightarrow> string \<Rightarrow> param \<Rightarrow> Filter result" where
  "boundFilter f msg k p =
     (case paramInt64 p of Inl _ \<Rightarrow> Inl (ErrMsg (msg @ '' values should be of int64 type'')) | Inr i \<Rightarrow> Inr (f k i))"

definition pairFilter ::
  "(string \<Rightarrow> int \<Rightarrow> Filter) \<Rightarrow> (string \<Rightarrow> int \<Rightarrow> Filter) \<Rightarrow> string \<Rightarrow> string \<Rightarrow> param \<Rightarrow> param \<Rightarrow> Filter result" where
  "pairFilter f h msg k from to =
     (case (paramInt64 from, paramInt64 to) of
        (Inr i, Inr j) \<Rightarrow> Inr (NewAndFilter [Some (f k i), Some (h k j)])
      | _ \<Rightarrow> Inl (ErrMsg (msg @ '' values should be of int64 type'')))"

fun collectFilters :: "(param \<Rightarrow> Filter result) \<Rightarrow> param list \<Rightarrow> Filter list result" where
  "collectFilters f [] = Inr []"
| "collectFilters f (p # ps) =
     (case f p of
        Inl err \<Rightarrow> Inl err
      | Inr x \<Rightarrow> (case collectFilters f ps of Inl err \<Rightarrow> Inl err | Inr xs \<Rightarrow> Inr (x # xs)))"

definition notTerm :: "string \<Rightarrow> param \<Rightarrow> Filter result" where
  "notTerm k p = (case termFilter k p of Inl err \<Rightarrow> Inl err | Inr f \<Rightarrow> Inr (NewNotFilter (Some f)))"

fun KeyValueToFilter :: "'c tparams \<Rightarrow> regex_env \<Rightarrow> string \<Rightarrow> param \<Rightarrow> regex_env \<times> Filter result" where
  "KeyValueToFilter tp env k (Regex s) =
     (if anchored s then (env, Inl (ErrMsg ''Regex are anchored by default''))
      else NewRegexFilter (tp_compiles tp) env k (''^'' @ s @ ''$''))"
| "KeyValueToFilter tp env k (Ne p) =
     (env, case notEqualFilter k p of
             Inl err \<Rightarrow> Inl err
           | Inr f \<Rightarrow> Inr (NewAndFilter [Some (NewNotNullFilter k), Some f]))"
| "KeyValueToFilter tp env k (Nee p) = (env, notEqualFilter k p)"
| "KeyValueToFilter tp env k (Lt p) = (env, boundFilter NewLtInt64Filter ''LT'' k p)"
| "KeyValueToFilter tp env k (Gt p) = (env, boundFilter NewGtInt64Filter ''GT'' k p)"
| "KeyValueToFilter tp env k (Gte p) = (env, boundFilter NewGteInt64Filter ''GTE'' k p)"
| "KeyValueToFilter tp env k (Lte p) = (env, boundFilter NewLteInt64Filter ''LTE'' k p)"
| "KeyValueToFilter tp env k (Inside p q) = (env, pairFilter NewGtInt64Filter NewLtInt64Filter ''Inside'' k p q)"
| "KeyValueToFilter tp env k (Outside p q) = (env, pairFilter NewLtInt64Filter NewGtInt64Filter ''Outside'' k p q)"
| "KeyValueToFilter tp env k (Between p q) = (env, pairFilter NewGteInt64Filter NewLtInt64Filter ''Between'' k p q)"
| "KeyValueToFilter tp env k (Within ps) =
     (env, case collectFilters (termFilter k) ps of Inl err \<Rightarrow> Inl err | Inr fs \<Rightarrow> Inr (NewOrFilter (map Some fs)))"
| "KeyValueToFilter tp env k (Without ps) =
     (env, case collectFilters (notTerm k) ps of Inl err \<Rightarrow> Inl err | Inr fs \<Rightarrow> Inr (NewAndFilter (map Some fs)))"
| "KeyValueToFilter tp env k (PBool b) = (env, Inr (NewTermBoolFilter k b))"
| "KeyValueToFilter tp env k (IPV4Range p) =
     (case p of
        PString cidr \<Rightarrow> NewIPV4RangeFilter (tp_isCIDR tp) (tp_compiles tp) env k cidr
      | _ \<Rightarrow> (env, Inl (ErrMsg ''Ipv4Range value has to be a string'')))"
| "KeyValueToFilter tp env k p = (env, termFilter k p)"

fun pairFilters :: "'c tparams \<Rightarrow> regex_env \<Rightarrow> param list \<Rightarrow> regex_env \<times> Filter list result" where
  "pairFilters tp env [] = (env, Inr [])"
| "pairFilters tp env [p] = (env, Inl (ErrMsg ''params should be a list of key,value''))"
| "pairFilters tp env (PString k # v # s) =
     (case KeyValueToFilter tp env k v of
        (env, Inl err) \<Rightarrow> (env, Inl err)
      | (env, Inr f) \<Rightarrow>
          (case pairFilters tp env s of (env, Inl err) \<Rightarrow> (env, Inl err) | (env, Inr fs) \<Rightarrow> (env, Inr (f # fs))))"
| "pairFilters tp env (p # v # s) = (env, Inl (ErrMsg ''keys should be of string type''))"

definition ParamsToFilter :: "'c tparams \<Rightarrow> regex_env \<Rightarrow> BoolFilterOp \<Rightarrow> param list \<Rightarrow> regex_env \<times> Filter result" where
  "ParamsToFilter tp env filterOp s =
     (if length s = 1 then
        (env, case s ! 0 of PString k \<Rightarrow> Inr (NewNotNullFilter k) | _ \<Rightarrow> Inl (ErrMsg ''Key must be a string''))
      else if length s mod 2 \<noteq> 0 then (env, Inl (ErrMsg ''params should be a list of key,value''))
      else case pairFilters tp env s of
             (env, Inl err) \<Rightarrow> (env, Inl err)
           | (env, Inr fs) \<Rightarrow> (env, Inr (NewBoolFilter filterOp (map Some fs))))"

text \<open>A step with a filter: the environment it leaves, and the work done with the filter.\<close>

definition withFilter ::
  "'c tparams \<Rightarrow> BoolFilterOp \<Rightarrow> param list \<Rightarrow> 'c GraphTraversal \<Rightarrow> ('c GraphTraversal \<Rightarrow> Filter \<Rightarrow> 'c touts) \<Rightarrow> 'c touts" where
  "withFilter tp filterOp s t body =
     (case ParamsToFilter tp (h_env (tworld t)) filterOp s of
        (env, Inl err) \<Rightarrow> Some (Inl err)
      | (env, Inr f) \<Rightarrow> body (setEnv env t) f)"

abbreviation withMatcher ::
  "'c tparams \<Rightarrow> param list \<Rightarrow> 'c GraphTraversal \<Rightarrow> ('c GraphTraversal \<Rightarrow> ElementMatcher option \<Rightarrow> 'c touts) \<Rightarrow> 'c touts" where
  "withMatcher tp s t body \<equiv> withFilter tp AND_op s t (\<lambda>t f. body t (Some (ElementFilter f)))"

section \<open>Steps on the graph\<close>

text \<open>\<^verbatim>\<open>Context\<close>: the new traversal has no map for \<^verbatim>\<open>As\<close>.\<close>

definition Traversal_Context :: "'c tparams \<Rightarrow> int \<Rightarrow> int option \<Rightarrow> 'c GraphTraversal \<Rightarrow> 'c touts" where
  "Traversal_Context tp point duration t =
     (let ctx = \<lparr>ctxTimeSlice = Some \<lparr>Start = UnixMillis (point - (case duration of Some d \<Rightarrow> d | None \<Rightarrow> 0)),
                                     Last = UnixMillis point\<rparr>, TimePoint = (duration = None)\<rparr>
      in Some (case CloneWithContext (tp_backend tp) (tr_Graph t) ctx of
           Inl err \<Rightarrow> Inl err
         | Inr g \<Rightarrow> Inr (TG \<lparr>tr_Graph = g, tr_as = None\<rparr>)))"

definition Traversal_V ::
  "'c tparams \<Rightarrow> (int \<times> int) option \<Rightarrow> param list \<Rightarrow> 'c GraphTraversal \<Rightarrow> 'c touts" where
  "Traversal_V tp ctx s t =
     (let finish = (\<lambda>t nodes. Some (Inr (TV t (if ctx \<noteq> None then fst (snd (iterate (rangeIterator ctx) nodes)) else nodes) [])))
      in if length s = 1 then
           (case s ! 0 of
              PString i \<Rightarrow>
                (case Graph_GetNode (tp_backend tp) (tr_Graph t) i of
                   None \<Rightarrow> Some (Inl (ErrMsg ''Node does not exist''))
                 | Some n \<Rightarrow> finish t [n])
            | _ \<Rightarrow> Some (Inl (ErrMsg ''V accepts only a string when there is only one argument'')))
         else if s = [] then finish t (Graph_GetNodes (tp_backend tp) (tr_Graph t) None)
         else withMatcher tp s t (\<lambda>t m. finish t (Graph_GetNodes (tp_backend tp) (tr_Graph t) m)))"

definition Traversal_E ::
  "'c tparams \<Rightarrow> (int \<times> int) option \<Rightarrow> param list \<Rightarrow> 'c GraphTraversal \<Rightarrow> 'c touts" where
  "Traversal_E tp ctx s t =
     (let finish = (\<lambda>t edges. Some (Inr (TE t (if ctx \<noteq> None then fst (snd (iterate (rangeIterator ctx) edges)) else edges))))
      in if length s = 1 then
           (case s ! 0 of
              PString i \<Rightarrow>
                (case Graph_GetEdge (tp_backend tp) (tr_Graph t) i of
                   None \<Rightarrow> Some (Inl (ErrMsg ''Edge does not exist''))
                 | Some e \<Rightarrow> finish t [e])
            | _ \<Rightarrow> Some (Inl (ErrMsg ''E accepts only a string when there is only one argument'')))
         else if s = [] then finish t (Graph_GetEdges (tp_backend tp) (tr_Graph t) None)
         else withMatcher tp s t (\<lambda>t m. finish t (Graph_GetEdges (tp_backend tp) (tr_Graph t) m)))"

section \<open>Steps on nodes\<close>

text \<open>Empty maps and slices are left out of the values; \<^verbatim>\<open>reflect\<close> sees the kind of the value.\<close>

fun emptyCollection :: "gval \<Rightarrow> bool" where
  "emptyCollection (VList vs) = (vs = [])"
| "emptyCollection (VStrings vs) = (vs = [])"
| "emptyCollection (VInts vs) = (vs = [])"
| "emptyCollection (VBools vs) = (vs = [])"
| "emptyCollection (VMap m) = (m = [])"
| "emptyCollection (VMetadata m) = (m = [])"
| "emptyCollection _ = False"

definition V_PropertyValues :: "param list \<Rightarrow> 'c GraphTraversal \<Rightarrow> nref list \<Rightarrow> 'c touts" where
  "V_PropertyValues k t nodes =
     (case map asPString k of
        Some key # _ \<Rightarrow>
          Some (Inr (TValue t (ValItems (List.map_filter (\<lambda>n.
            case element_GetField (tnode t n) key of
              Inr v \<Rightarrow> if emptyCollection v then None else Some v
            | Inl _ \<Rightarrow> None) nodes))))
      | _ \<Rightarrow> None)"

fun newKeys :: "string list \<Rightarrow> string list \<Rightarrow> string list" where
  "newKeys [] seen = []"
| "newKeys (k # ks) seen = (if k \<in> set seen then newKeys ks seen else k # newKeys ks (k # seen))"

definition V_PropertyKeys :: "'c GraphTraversal \<Rightarrow> nref list \<Rightarrow> 'c touts" where
  "V_PropertyKeys t nodes =
     Some (Inr (TValue t (ValItems (map VString (newKeys (concat (map (\<lambda>n. element_GetFieldKeys (tnode t n)) nodes)) [])))))"

fun sumLoop :: "string \<Rightarrow> 'c GraphTraversal \<Rightarrow> int \<Rightarrow> nref list \<Rightarrow> int result" where
  "sumLoop key t s [] = Inr s"
| "sumLoop key t s (n # nodes) =
     (case element_GetFieldInt64 (tnode t n) key of
        Inr v \<Rightarrow> sumLoop key t (wrap64 (s + v)) nodes
      | Inl err \<Rightarrow> if err \<noteq> ErrFieldNotFound then Inl err else sumLoop key t s nodes)"

definition V_Sum :: "param list \<Rightarrow> 'c GraphTraversal \<Rightarrow> nref list \<Rightarrow> 'c touts" where
  "V_Sum keys t nodes =
     Some (case keys of
       [k] \<Rightarrow>
         (case asPString k of
            None \<Rightarrow> Inl (ErrMsg ''Sum parameter has to be a string key'')
          | Some key \<Rightarrow> (case sumLoop key t 0 nodes of Inl err \<Rightarrow> Inl err | Inr s \<Rightarrow> Inr (TValue t (ValInt s))))
     | _ \<Rightarrow> Inl (ErrMsg ''Sum requires 1 parameter''))"

text \<open>An entry in a nil map panics.\<close>

definition V_As :: "param list \<Rightarrow> 'c GraphTraversal \<Rightarrow> nref list \<Rightarrow> string list \<Rightarrow> 'c touts" where
  "V_As keys t nodes shared =
     (case map asPString keys of
        [Some key] \<Rightarrow>
          (case tr_as t of
             None \<Rightarrow> None
           | Some m \<Rightarrow> Some (Inr (TV (t\<lparr>tr_as := Some (gm_set key nodes m)\<rparr>) nodes (key # shared))))
      | _ \<Rightarrow> Some (Inl (ErrMsg ''As parameter have to be a string key'')))"

fun selectLoop :: "(string, nref list) gomap \<Rightarrow> param list \<Rightarrow> nref list result" where
  "selectLoop m [] = Inr []"
| "selectLoop m (k # keys) =
     (case asPString k of
        None \<Rightarrow> Inl (ErrMsg ''Select accepts only string parameters'')
      | Some key \<Rightarrow>
          (case map_of m key of
             None \<Rightarrow> Inl (ErrMsg ''Key not registered'')
           | Some nodes \<Rightarrow> (case selectLoop m keys of Inl err \<Rightarrow> Inl err | Inr rest \<Rightarrow> Inr (nodes @ rest))))"

definition V_Select :: "param list \<Rightarrow> 'c GraphTraversal \<Rightarrow> 'c touts" where
  "V_Select keys t =
     Some (if keys = [] then Inl (ErrMsg ''Select requires at least one key'')
           else case selectLoop (case tr_as t of Some m \<Rightarrow> m | None \<Rightarrow> []) keys of
                  Inl err \<Rightarrow> Inl err
                | Inr nodes \<Rightarrow> Inr (TV t nodes []))"

text \<open>The order of a sort: the type of the key is found anew for every comparison.\<close>

fun strLess :: "string \<Rightarrow> string \<Rightarrow> bool" where
  "strLess s [] = False"
| "strLess [] (c # t) = True"
| "strLess (a # s) (c # t) = (a < c \<or> (a = c \<and> strLess s t))"

definition nodeLess :: "string \<Rightarrow> SortOrder \<Rightarrow> world \<Rightarrow> nref \<Rightarrow> nref \<Rightarrow> bool" where
  "nodeLess sortBy order w i j =
     (if is_ok (element_GetFieldInt64 (h_node w i) sortBy) then
        (let i1 = value_or 0 (element_GetFieldInt64 (h_node w i) sortBy); i2 = value_or 0 (element_GetFieldInt64 (h_node w j) sortBy)
         in if order = SortAscending then i1 < i2 else i1 > i2)
      else
        (let s1 = value_or [] (element_GetFieldString (h_node w i) sortBy); s2 = value_or [] (element_GetFieldString (h_node w j) sortBy)
         in if order = SortAscending then strLess s1 s2 else strLess s2 s1))"

definition SortNodes :: "'c tparams \<Rightarrow> world \<Rightarrow> nref list \<Rightarrow> string \<Rightarrow> SortOrder \<Rightarrow> nref list" where
  "SortNodes tp w nodes sortBy order = tp_sort tp (nodeLess sortBy order w) nodes"

definition ParseSortParameter :: "param list \<Rightarrow> (SortOrder \<times> string) result" where
  "ParseSortParameter keys =
     (case keys of
        [] \<Rightarrow> Inr (SortAscending, [])
      | [p, q] \<Rightarrow>
          (case (asSort p, asPString q) of
             (Some order, Some sortBy) \<Rightarrow> Inr (order, sortBy)
           | _ \<Rightarrow> Inl (ErrMsg ''Sort parameters have to be SortOrder(ASC/DESC) and a sort string Key''))
      | _ \<Rightarrow> Inl (ErrMsg ''Sort accepts up to 2 parameters only''))"

definition V_Sort :: "'c tparams \<Rightarrow> param list \<Rightarrow> 'c GraphTraversal \<Rightarrow> nref list \<Rightarrow> string list \<Rightarrow> 'c touts" where
  "V_Sort tp keys t nodes shared =
     Some (case ParseSortParameter keys of
       Inl err \<Rightarrow> Inl err
     | Inr (order, sortBy) \<Rightarrow>
         (let sorted = SortNodes tp (tworld t) nodes (if sortBy = [] then ''CreatedAt'' else sortBy) order
          in Inr (TV (t\<lparr>tr_as := map_option (\<lambda>m. fold (\<lambda>k. gm_set k sorted) shared m) (tr_as t)\<rparr>) sorted shared)))"

text \<open>
  \<^verbatim>\<open>Dedup\<close>: the key of an item is the hash of its values of the fields, none when it has none of them, or its
  identifier.  The iterator moves before an item is looked up among the visited ones.
\<close>

definition dedupValues :: "(string \<Rightarrow> gval result) \<Rightarrow> string list \<Rightarrow> gval list" where
  "dedupValues getField keys = List.map_filter (\<lambda>k. ok_value (getField k)) keys"

datatype dedupKey = HashKey nat | IdKey Identifier

definition dedupKeyOf ::
  "'c tparams \<Rightarrow> string list \<Rightarrow> Identifier \<Rightarrow> (string \<Rightarrow> gval result) \<Rightarrow> dedupKey option result" where
  "dedupKeyOf tp keys i getField =
     (if keys \<noteq> [] then
        (let values = dedupValues getField keys
         in if values = [] then Inr None
            else case tp_hash tp (VList values) of
                   Inl _ \<Rightarrow> Inl (ErrMsg ''Dedup unable to hash the key values'')
                 | Inr h \<Rightarrow> Inr (Some (HashKey h)))
      else Inr (Some (IdKey i)))"

fun dedupLoop :: "bool \<Rightarrow> ('a \<Rightarrow> dedupKey option result) \<Rightarrow> Iterator \<Rightarrow> dedupKey list \<Rightarrow> 'a list \<Rightarrow> 'a list result" where
  "dedupLoop stops key it visited [] = Inr []"
| "dedupLoop stops key it visited (x # xs) =
     (if stops \<and> Done it then Inr []
      else case key x of
             Inl err \<Rightarrow> Inl err
           | Inr k \<Rightarrow>
               (let (it, ok) = Next it in
                if \<not> ok then dedupLoop stops key it visited xs
                else (case k of
                        None \<Rightarrow> (case dedupLoop stops key it visited xs of Inl err \<Rightarrow> Inl err | Inr ys \<Rightarrow> Inr (x # ys))
                      | Some k \<Rightarrow>
                          (if k \<in> set visited then dedupLoop stops key it visited xs
                           else case dedupLoop stops key it (k # visited) xs of
                                  Inl err \<Rightarrow> Inl err
                                | Inr ys \<Rightarrow> Inr (x # ys)))))"

definition stringKeys :: "param list \<Rightarrow> string list option" where
  "stringKeys s = those (map asPString s)"

definition V_Dedup ::
  "'c tparams \<Rightarrow> (int \<times> int) option \<Rightarrow> param list \<Rightarrow> 'c GraphTraversal \<Rightarrow> nref list \<Rightarrow> 'c touts" where
  "V_Dedup tp ctx s t nodes =
     Some (case stringKeys s of
       None \<Rightarrow> Inl (ErrMsg ''Dedup parameters have to be string keys'')
     | Some keys \<Rightarrow>
         (case dedupLoop True (\<lambda>n. dedupKeyOf tp keys (ID (tnode t n)) (element_GetField (tnode t n))) (rangeIterator ctx) [] nodes of
            Inl err \<Rightarrow> Inl err
          | Inr ns \<Rightarrow> Inr (TV t ns [])))"

text \<open>The paths to a node with the metadata; the set of visited nodes stays empty.\<close>

fun metadataOf :: "param \<Rightarrow> metadata option" where
  "metadataOf (PMetadata m) = Some (map (\<lambda>(k, v). (k, paramVal v)) m)"
| "metadataOf _ = None"

fun pathsLoop :: "(nref \<Rightarrow> nref list option) \<Rightarrow> nref list \<Rightarrow> nref list list option" where
  "pathsLoop f [] = Some []"
| "pathsLoop f (n # nodes) =
     (case f n of
        None \<Rightarrow> None
      | Some path \<Rightarrow> map_option (\<lambda>ps. if path \<noteq> [] then path # ps else ps) (pathsLoop f nodes))"

definition V_ShortestPathTo :: "'c tparams \<Rightarrow> metadata \<Rightarrow> metadata \<Rightarrow> 'c GraphTraversal \<Rightarrow> nref list \<Rightarrow> 'c touts" where
  "V_ShortestPathTo tp m e t nodes =
     map_option (\<lambda>ps. Inr (TPath t ps))
       (pathsLoop (\<lambda>n. LookupShortestPath (tp_backend tp) (tr_Graph t) n (Some (MetadataMatcher m)) (Some (MetadataMatcher e))) nodes)"

definition V_has ::
  "'c tparams \<Rightarrow> BoolFilterOp \<Rightarrow> (int \<times> int) option \<Rightarrow> param list \<Rightarrow> 'c GraphTraversal \<Rightarrow> nref list \<Rightarrow> 'c touts" where
  "V_has tp filterOp ctx s t nodes =
     (if s = [] then Some (Inl (ErrMsg ''At least one parameter must be provided''))
      else withFilter tp filterOp s t (\<lambda>t f.
        Some (Inr (TV t (filterLoop (\<lambda>n. Eval (h_env (tworld t)) (nodeGetter (tnode t n)) f) (rangeIterator ctx) nodes) []))))"

definition V_HasNot :: "(int \<times> int) option \<Rightarrow> string \<Rightarrow> 'c GraphTraversal \<Rightarrow> nref list \<Rightarrow> 'c touts" where
  "V_HasNot ctx k t nodes =
     Some (Inr (TV t (filterLoop (\<lambda>n. Eval (h_env (tworld t)) (nodeGetter (tnode t n)) (NewNullFilter k)) (rangeIterator ctx) nodes) []))"

text \<open>The nodes at the other ends of the edges of a node.\<close>

definition bothEnds ::
  "'c tparams \<Rightarrow> 'c GraphTraversal \<Rightarrow> ElementMatcher option \<Rightarrow> nref \<times> eref \<Rightarrow> nref list option" where
  "bothEnds tp t m = (\<lambda>(n, e).
     if Child (tedge t e) = ID (tnode t n) then map_option fst (Graph_GetEdgeNodes (tp_backend tp) (tr_Graph t) e m None)
     else map_option snd (Graph_GetEdgeNodes (tp_backend tp) (tr_Graph t) e None m))"

definition V_Both ::
  "'c tparams \<Rightarrow> (int \<times> int) option \<Rightarrow> param list \<Rightarrow> 'c GraphTraversal \<Rightarrow> nref list \<Rightarrow> 'c touts" where
  "V_Both tp ctx s t nodes =
     withMatcher tp s t (\<lambda>t m. map_option (\<lambda>ns. Inr (TV t ns []))
       (pagedLoop (bothEnds tp t m) (rangeIterator ctx)
         (concat (map (\<lambda>n. map (\<lambda>e. (n, e)) (Graph_GetNodeEdges (tp_backend tp) (tr_Graph t) n None)) nodes))))"

definition V_Out ::
  "'c tparams \<Rightarrow> (int \<times> int) option \<Rightarrow> param list \<Rightarrow> 'c GraphTraversal \<Rightarrow> nref list \<Rightarrow> 'c touts" where
  "V_Out tp ctx s t nodes =
     withMatcher tp s t (\<lambda>t m. map_option (\<lambda>ns. Inr (TV t ns []))
       (pagedLoop (\<lambda>n. LookupChildren (tp_backend tp) (tr_Graph t) n m None) (rangeIterator ctx) nodes))"

definition V_In ::
  "'c tparams \<Rightarrow> (int \<times> int) option \<Rightarrow> param list \<Rightarrow> 'c GraphTraversal \<Rightarrow> nref list \<Rightarrow> 'c touts" where
  "V_In tp ctx s t nodes =
     withMatcher tp s t (\<lambda>t m. map_option (\<lambda>ns. Inr (TV t ns []))
       (pagedLoop (\<lambda>n. LookupParents (tp_backend tp) (tr_Graph t) n m None) (rangeIterator ctx) nodes))"

text \<open>The edges of the nodes that pass a test.\<close>

definition nodeEdgesStep ::
  "(Edge \<Rightarrow> Identifier \<Rightarrow> bool) \<Rightarrow> 'c tparams \<Rightarrow> (int \<times> int) option \<Rightarrow> param list \<Rightarrow> 'c GraphTraversal \<Rightarrow> nref list \<Rightarrow> 'c touts" where
  "nodeEdgesStep test tp ctx s t nodes =
     withMatcher tp s t (\<lambda>t m. map_option (\<lambda>es. Inr (TE t es))
       (pagedLoop (\<lambda>n. Some (filter (\<lambda>e. test (tedge t e) (ID (tnode t n))) (Graph_GetNodeEdges (tp_backend tp) (tr_Graph t) n m)))
         (rangeIterator ctx) nodes))"

definition V_OutE ::
  "'c tparams \<Rightarrow> (int \<times> int) option \<Rightarrow> param list \<Rightarrow> 'c GraphTraversal \<Rightarrow> nref list \<Rightarrow> 'c touts" where
  "V_OutE tp ctx s t nodes = nodeEdgesStep (\<lambda>e i. Parent e = i) tp ctx s t nodes"

definition V_InE ::
  "'c tparams \<Rightarrow> (int \<times> int) option \<Rightarrow> param list \<Rightarrow> 'c GraphTraversal \<Rightarrow> nref list \<Rightarrow> 'c touts" where
  "V_InE tp ctx s t nodes = nodeEdgesStep (\<lambda>e i. Child e = i) tp ctx s t nodes"

definition V_BothE ::
  "'c tparams \<Rightarrow> (int \<times> int) option \<Rightarrow> param list \<Rightarrow> 'c GraphTraversal \<Rightarrow> nref list \<Rightarrow> 'c touts" where
  "V_BothE tp ctx s t nodes = nodeEdgesStep (\<lambda>e i. True) tp ctx s t nodes"

definition V_Count :: "'c GraphTraversal \<Rightarrow> nref list \<Rightarrow> 'c touts" where
  "V_Count t nodes = Some (Inr (TValue t (ValInt (int (length nodes)))))"

text \<open>\<^verbatim>\<open>Range\<close>: the index starts at the first parameter, so a negative one panics when the loop is entered.\<close>

fun rangeLoop :: "nat \<Rightarrow> nat \<Rightarrow> 'a list \<Rightarrow> 'a list" where
  "rangeLoop 0 from xs = []"
| "rangeLoop (Suc k) from xs = (if from < length xs then xs ! from # rangeLoop k (Suc from) xs else [])"

definition rangeOf :: "param list \<Rightarrow> 'a list \<Rightarrow> 'a list result option" where
  "rangeOf s xs =
     (case s of
        [p, q] \<Rightarrow>
          (case (asInt p, asInt q) of
             (Some from, Some to) \<Rightarrow>
               (if from < int (length xs) \<and> from < to then
                  (if from < 0 then None else Some (Inr (rangeLoop (nat (to - from)) (nat from) xs)))
                else Some (Inr []))
           | _ \<Rightarrow> Some (Inl (ErrMsg ''not an integer'')))
      | _ \<Rightarrow> Some (Inl (ErrMsg ''2 parameters must be provided to range'')))"

definition V_Range :: "param list \<Rightarrow> 'c GraphTraversal \<Rightarrow> nref list \<Rightarrow> 'c touts" where
  "V_Range s t nodes = map_option (\<lambda>r. case r of Inl err \<Rightarrow> Inl err | Inr ns \<Rightarrow> Inr (TV t ns [])) (rangeOf s nodes)"

definition V_Limit :: "param list \<Rightarrow> 'c GraphTraversal \<Rightarrow> nref list \<Rightarrow> 'c touts" where
  "V_Limit s t nodes = (case s of [] \<Rightarrow> None | p # _ \<Rightarrow> V_Range [PInt 0, p] t nodes)"

section \<open>Subgraphs\<close>

text \<open>
  A new in-memory backend with some nodes and edges: \<open>ignored\<close> are the errors that do not end the loop.
\<close>

fun addNodes :: "world \<Rightarrow> go_error list \<Rightarrow> nref list \<Rightarrow> MemoryBackend \<Rightarrow> MemoryBackend result" where
  "addNodes w ignored [] m = Inr m"
| "addNodes w ignored (n # ns) m =
     (let (m, err) = Memory_NodeAdded w m n
      in case err of
           Some e \<Rightarrow> if e \<in> set ignored then addNodes w ignored ns m else Inl (ErrMsg ''Error while adding node to SubGraph'')
         | None \<Rightarrow> addNodes w ignored ns m)"

fun addEdges :: "world \<Rightarrow> go_error list \<Rightarrow> eref list \<Rightarrow> MemoryBackend \<Rightarrow> MemoryBackend result" where
  "addEdges w ignored [] m = Inr m"
| "addEdges w ignored (e # es) m =
     (let (m, err) = Memory_EdgeAdded w m e
      in case err of
           Some x \<Rightarrow> if x \<in> set ignored then addEdges w ignored es m else Inl (ErrMsg ''Error while adding edge to SubGraph'')
         | None \<Rightarrow> addEdges w ignored es m)"

definition subTraversal :: "'c tparams \<Rightarrow> 'c GraphTraversal \<Rightarrow> MemoryBackend \<Rightarrow> 'c tstep" where
  "subTraversal tp t m = TG (NewGraphTraversal (NewGraph (g_host (tr_Graph t)) (tworld t) (tp_memory tp m) ''unknown''))"

definition linkErrors :: "go_error list" where
  "linkErrors = [ErrParentNotFound, ErrChildNotFound, ErrEdgeConflict]"

definition nodesSubGraph :: "'c tparams \<Rightarrow> go_error list \<Rightarrow> 'c GraphTraversal \<Rightarrow> nref list \<Rightarrow> 'c touts" where
  "nodesSubGraph tp ignored t nodes =
     Some (case addNodes (tworld t) ignored nodes NewMemoryBackend of
       Inl err \<Rightarrow> Inl err
     | Inr m \<Rightarrow>
         (case addEdges (tworld t) linkErrors
                 (concat (map (\<lambda>n. Graph_GetNodeEdges (tp_backend tp) (tr_Graph t) n None) nodes)) m of
            Inl err \<Rightarrow> Inl err
          | Inr m \<Rightarrow> Inr (subTraversal tp t m)))"

text \<open>A step on nodes does not accept a node twice, one on paths does.\<close>

definition V_SubGraph :: "'c tparams \<Rightarrow> 'c GraphTraversal \<Rightarrow> nref list \<Rightarrow> 'c touts" where
  "V_SubGraph tp t nodes = nodesSubGraph tp [] t nodes"

definition Path_SubGraph :: "'c tparams \<Rightarrow> 'c GraphTraversal \<Rightarrow> nref list list \<Rightarrow> 'c touts" where
  "Path_SubGraph tp t paths = nodesSubGraph tp [ErrNodeConflict] t (concat paths)"

fun edgesSubGraph :: "'c tparams \<Rightarrow> 'c GraphTraversal \<Rightarrow> eref list \<Rightarrow> MemoryBackend \<Rightarrow> MemoryBackend result option" where
  "edgesSubGraph tp t [] m = Some (Inr m)"
| "edgesSubGraph tp t (e # es) m =
     (case Graph_GetEdgeNodes (tp_backend tp) (tr_Graph t) e None None of
        None \<Rightarrow> None
      | Some (parents, children) \<Rightarrow>
          (case addNodes (tworld t) [ErrNodeConflict] (children @ parents) m of
             Inl err \<Rightarrow> Some (Inl err)
           | Inr m \<Rightarrow>
               (case addEdges (tworld t) [ErrEdgeConflict] [e] m of
                  Inl err \<Rightarrow> Some (Inl err)
                | Inr m \<Rightarrow> edgesSubGraph tp t es m)))"

definition E_SubGraph :: "'c tparams \<Rightarrow> 'c GraphTraversal \<Rightarrow> eref list \<Rightarrow> 'c touts" where
  "E_SubGraph tp t edges =
     map_option (\<lambda>r. case r of Inl err \<Rightarrow> Inl err | Inr m \<Rightarrow> Inr (subTraversal tp t m)) (edgesSubGraph tp t edges NewMemoryBackend)"

section \<open>Steps on edges\<close>

definition E_Count :: "'c GraphTraversal \<Rightarrow> eref list \<Rightarrow> 'c touts" where
  "E_Count t edges = Some (Inr (TValue t (ValInt (int (length edges)))))"

definition E_Range :: "param list \<Rightarrow> 'c GraphTraversal \<Rightarrow> eref list \<Rightarrow> 'c touts" where
  "E_Range s t edges = map_option (\<lambda>r. case r of Inl err \<Rightarrow> Inl err | Inr es \<Rightarrow> Inr (TE t es)) (rangeOf s edges)"

definition E_Limit :: "param list \<Rightarrow> 'c GraphTraversal \<Rightarrow> eref list \<Rightarrow> 'c touts" where
  "E_Limit s t edges = (case s of [] \<Rightarrow> None | p # _ \<Rightarrow> E_Range [PInt 0, p] t edges)"

text \<open>The loop over the edges does not ask the iterator whether it is done.\<close>

definition E_Dedup ::
  "'c tparams \<Rightarrow> (int \<times> int) option \<Rightarrow> param list \<Rightarrow> 'c GraphTraversal \<Rightarrow> eref list \<Rightarrow> 'c touts" where
  "E_Dedup tp ctx s t edges =
     Some (case stringKeys s of
       None \<Rightarrow> Inl (ErrMsg ''Dedup parameters have to be string keys'')
     | Some keys \<Rightarrow>
         (case dedupLoop False (\<lambda>e. dedupKeyOf tp keys (ID (tedge t e)) (element_GetField (tedge t e))) (rangeIterator ctx) [] edges of
            Inl err \<Rightarrow> Inl err
          | Inr es \<Rightarrow> Inr (TE t es)))"

definition E_has ::
  "'c tparams \<Rightarrow> BoolFilterOp \<Rightarrow> (int \<times> int) option \<Rightarrow> param list \<Rightarrow> 'c GraphTraversal \<Rightarrow> eref list \<Rightarrow> 'c touts" where
  "E_has tp filterOp ctx s t edges =
     (if s = [] then Some (Inl (ErrMsg ''At least one parameter must be provided''))
      else withFilter tp filterOp s t (\<lambda>t f.
        Some (Inr (TE t (filterLoop (\<lambda>e. Eval (h_env (tworld t)) (edgeGetter (tedge t e)) f) (rangeIterator ctx) edges)))))"

definition E_HasNot :: "(int \<times> int) option \<Rightarrow> string \<Rightarrow> 'c GraphTraversal \<Rightarrow> eref list \<Rightarrow> 'c touts" where
  "E_HasNot ctx k t edges =
     Some (Inr (TE t (filterLoop (\<lambda>e. Eval (h_env (tworld t)) (edgeGetter (tedge t e)) (NewNullFilter k)) (rangeIterator ctx) edges)))"

definition E_InV ::
  "'c tparams \<Rightarrow> (int \<times> int) option \<Rightarrow> param list \<Rightarrow> 'c GraphTraversal \<Rightarrow> eref list \<Rightarrow> 'c touts" where
  "E_InV tp ctx s t edges =
     withMatcher tp s t (\<lambda>t m. map_option (\<lambda>ns. Inr (TV t ns []))
       (pagedInner (\<lambda>e. map_option fst (Graph_GetEdgeNodes (tp_backend tp) (tr_Graph t) e m None)) (rangeIterator ctx) edges))"

definition E_OutV ::
  "'c tparams \<Rightarrow> (int \<times> int) option \<Rightarrow> param list \<Rightarrow> 'c GraphTraversal \<Rightarrow> eref list \<Rightarrow> 'c touts" where
  "E_OutV tp ctx s t edges =
     withMatcher tp s t (\<lambda>t m. map_option (\<lambda>ns. Inr (TV t ns []))
       (pagedInner (\<lambda>e. map_option snd (Graph_GetEdgeNodes (tp_backend tp) (tr_Graph t) e None m)) (rangeIterator ctx) edges))"

text \<open>Two loops per edge, over its parents and then over its children.\<close>

definition edgeEnd ::
  "'c tparams \<Rightarrow> 'c GraphTraversal \<Rightarrow> ElementMatcher option \<Rightarrow> bool \<times> eref \<Rightarrow> nref list option" where
  "edgeEnd tp t m = (\<lambda>(parent, e).
     if parent then map_option fst (Graph_GetEdgeNodes (tp_backend tp) (tr_Graph t) e m None)
     else map_option snd (Graph_GetEdgeNodes (tp_backend tp) (tr_Graph t) e None m))"

definition E_BothV ::
  "'c tparams \<Rightarrow> (int \<times> int) option \<Rightarrow> param list \<Rightarrow> 'c GraphTraversal \<Rightarrow> eref list \<Rightarrow> 'c touts" where
  "E_BothV tp ctx s t edges =
     withMatcher tp s t (\<lambda>t m. map_option (\<lambda>ns. Inr (TV t ns []))
       (pagedInner (edgeEnd tp t m) (rangeIterator ctx) (concat (map (\<lambda>e. [(True, e), (False, e)]) edges))))"

section \<open>Steps on paths and values\<close>

definition Path_Dedup ::
  "'c tparams \<Rightarrow> (int \<times> int) option \<Rightarrow> param list \<Rightarrow> 'c GraphTraversal \<Rightarrow> nref list list \<Rightarrow> 'c touts" where
  "Path_Dedup tp ctx s t paths = V_Dedup tp ctx s t (concat paths)"

fun valueItems :: "tvalue \<Rightarrow> gval list" where
  "valueItems (ValItems vs) = vs"
| "valueItems (ValInt i) = [VInt64 i]"

fun valueDedupLoop :: "(gval \<Rightarrow> nat result) \<Rightarrow> nat list \<Rightarrow> gval list \<Rightarrow> gval list result" where
  "valueDedupLoop hash visited [] = Inr []"
| "valueDedupLoop hash visited (v # vs) =
     (case hash v of
        Inl _ \<Rightarrow> Inl (ErrMsg ''Dedup unable to hash the key values'')
      | Inr h \<Rightarrow>
          (if h \<in> set visited then valueDedupLoop hash visited vs
           else case valueDedupLoop hash (h # visited) vs of Inl err \<Rightarrow> Inl err | Inr ws \<Rightarrow> Inr (v # ws)))"

definition Value_Dedup :: "'c tparams \<Rightarrow> 'c GraphTraversal \<Rightarrow> tvalue \<Rightarrow> 'c touts" where
  "Value_Dedup tp t v =
     Some (case valueDedupLoop (tp_hash tp) [] (valueItems v) of Inl err \<Rightarrow> Inl err | Inr vs \<Rightarrow> Inr (TValue t (ValItems vs)))"

text \<open>The getter of a metadata value.\<close>

definition metadataGetter :: "metadata \<Rightarrow> getter" where
  "metadataGetter m =
     \<lparr>GetField = Metadata_GetField m, GetFieldKeys = GetMapFieldKeys m, GetFieldBool = Metadata_GetFieldBool m,
      GetFieldInt64 = Metadata_GetFieldInt64 m, GetFieldString = Metadata_GetFieldString m, MatchBool = Metadata_MatchBool m,
      MatchInt64 = Metadata_MatchInt64 m, MatchString = Metadata_MatchString m\<rparr>"

definition valuePasses :: "regex_env \<Rightarrow> Filter \<Rightarrow> gval \<Rightarrow> bool" where
  "valuePasses env f v =
     (case v of VMetadata m \<Rightarrow> Eval env (metadataGetter m) f | VMap m \<Rightarrow> Eval env (metadataGetter m) f | _ \<Rightarrow> False)"

definition Value_Has ::
  "'c tparams \<Rightarrow> (int \<times> int) option \<Rightarrow> param list \<Rightarrow> 'c GraphTraversal \<Rightarrow> tvalue \<Rightarrow> 'c touts" where
  "Value_Has tp ctx s t v =
     (if s = [] then Some (Inl (ErrMsg ''At least one parameter must be provided''))
      else withFilter tp AND_op s t (\<lambda>t f.
        Some (Inr (TValue t (ValItems (case v of
          ValItems vs \<Rightarrow> filterLoop (valuePasses (h_env (tworld t)) f) (rangeIterator ctx) vs
        | ValInt _ \<Rightarrow> []))))))"

end
