(* ===== verification/Gremlin_Exec.thy ===== *)
theory Gremlin_Exec
  imports Traversal
begin

text \<open>
  The execution of a parsed query (\<^verbatim>\<open>src/graffiti/graph/traversal/traversal_parser.go\<close>): every step first absorbs
  the steps after it that it can do itself (\<^verbatim>\<open>Reduce\<close>), then runs on the result of the step before
  (\<^verbatim>\<open>Exec\<close>).  A step is changed by both, so the sequence that is left is a result too.  \<open>None\<close> is a panic.
\<close>

section \<open>Reduce\<close>

text \<open>\<^verbatim>\<open>ReduceRange\<close> asserts the types of the parameters of \<^verbatim>\<open>Range\<close> and \<^verbatim>\<open>Limit\<close>.\<close>

definition ReduceRange :: "GremlinStep \<Rightarrow> GremlinStep \<Rightarrow> (GremlinStep \<times> bool) option" where
  "ReduceRange p nxt =
     (if PaginationRange p \<noteq> None then Some (p, False)
      else if kind nxt = StepRange then
        (case map asInt (Params nxt) of
           Some from # Some to # _ \<Rightarrow> Some (p\<lparr>PaginationRange := Some (from, to)\<rparr>, True)
         | _ \<Rightarrow> None)
      else if kind nxt = StepLimit then
        (case map asInt (Params nxt) of
           Some to # _ \<Rightarrow> Some (p\<lparr>PaginationRange := Some (0, to)\<rparr>, True)
         | _ \<Rightarrow> None)
      else Some (p, False))"

text \<open>
  The result tells whether the next step was absorbed.  The steps are of three kinds: those that read the graph, those that only
  take a range, and those that walk, which take the parameters of a \<^verbatim>\<open>Has\<close> as theirs.
\<close>

definition Reduce_source :: "GremlinStep \<Rightarrow> GremlinStep \<Rightarrow> (GremlinStep \<times> bool) option" where
  "Reduce_source s nxt =
     (case ReduceRange s nxt of
        None \<Rightarrow> None
      | Some (s', True) \<Rightarrow> Some (s', True)
      | Some (s', False) \<Rightarrow>
          (if kind nxt = StepHas \<and> Params s = [] \<and> length (Params nxt) \<ge> 2 then Some (s\<lparr>Params := Params nxt\<rparr>, True)
           else Some (s, False)))"

definition Reduce_filter :: "GremlinStep \<Rightarrow> GremlinStep \<Rightarrow> (GremlinStep \<times> bool) option" where
  "Reduce_filter s nxt =
     (case ReduceRange s nxt of None \<Rightarrow> None | Some (s', True) \<Rightarrow> Some (s', True) | Some (s', False) \<Rightarrow> Some (s, False))"

definition Reduce_walk :: "GremlinStep \<Rightarrow> GremlinStep \<Rightarrow> (GremlinStep \<times> bool) option" where
  "Reduce_walk s nxt =
     (if kind nxt = StepHas \<and> Params s = [] then Some (s\<lparr>Params := Params nxt\<rparr>, True)
      else case ReduceRange s nxt of None \<Rightarrow> None | Some (s', True) \<Rightarrow> Some (s', True) | Some (s', False) \<Rightarrow> Some (s, False))"

definition takesHas :: "stepKind \<Rightarrow> bool" where
  "takesHas k \<longleftrightarrow> k \<in> set [StepOut, StepIn, StepOutV, StepInV, StepBothV, StepOutE, StepInE, StepBothE, StepBoth, StepAs, StepSelect]"

definition takesRange :: "stepKind \<Rightarrow> bool" where
  "takesRange k \<longleftrightarrow> takesHas k \<or> k \<in> set [StepV, StepE, StepHas, StepHasKey, StepHasNot, StepHasEither, StepDedup]"

definition Reduce :: "GremlinStep \<Rightarrow> GremlinStep \<Rightarrow> (GremlinStep \<times> bool) option" where
  "Reduce s nxt =
     (if takesHas (kind s) then Reduce_walk s nxt
      else if kind s \<in> {StepV, StepE} then Reduce_source s nxt
      else if takesRange (kind s) then Reduce_filter s nxt
      else Some (s, False))"

lemmas Reduce_defs = Reduce_def Reduce_source_def Reduce_filter_def Reduce_walk_def

fun absorb :: "GremlinStep \<Rightarrow> GremlinStep list \<Rightarrow> (GremlinStep \<times> GremlinStep list \<times> GremlinStep list) option" where
  "absorb s [] = Some (s, [], [])"
| "absorb s (n # ns) =
     (case Reduce s n of
        None \<Rightarrow> None
      | Some (s', True) \<Rightarrow> map_option (\<lambda>(s'', taken, rest). (s'', n # taken, rest)) (absorb s' ns)
      | Some (s', False) \<Rightarrow> Some (s', [], n # ns))"

section \<open>Exec\<close>

definition ErrExecutionError :: go_error where
  "ErrExecutionError = ErrMsg ''Error while executing the query''"

text \<open>
  \<^verbatim>\<open>invokeStepFnc\<close> looks a method up by its name: the ones the typed cases do not cover.
\<close>

definition invokeStepFnc :: "'c tparams \<Rightarrow> 'c tstep \<Rightarrow> string \<Rightarrow> GremlinStep \<Rightarrow> 'c touts" where
  "invokeStepFnc tp prev name s =
     (case prev of
        TV t nodes _ \<Rightarrow>
          (if name = ''PropertyValues'' then V_PropertyValues (Params s) t nodes
           else if name = ''PropertyKeys'' then V_PropertyKeys t nodes
           else if name = ''Sum'' then V_Sum (Params s) t nodes
           else Some (Inl (ErrMsg ''Invalid step'')))
      | TPath t paths \<Rightarrow>
          (if name = ''Dedup'' then Path_Dedup tp (PaginationRange s) (Params s) t paths else Some (Inl (ErrMsg ''Invalid step'')))
      | TValue t v \<Rightarrow> (if name = ''Dedup'' then Value_Dedup tp t v else Some (Inl (ErrMsg ''Invalid step'')))
      | _ \<Rightarrow> Some (Inl (ErrMsg ''Invalid step'')))"

definition onV :: "'c tstep \<Rightarrow> ('c GraphTraversal \<Rightarrow> nref list \<Rightarrow> string list \<Rightarrow> 'c touts) \<Rightarrow> 'c touts \<Rightarrow> 'c touts" where
  "onV prev f other = (case prev of TV t nodes shared \<Rightarrow> f t nodes shared | _ \<Rightarrow> other)"

definition onE :: "'c tstep \<Rightarrow> ('c GraphTraversal \<Rightarrow> eref list \<Rightarrow> 'c touts) \<Rightarrow> 'c touts \<Rightarrow> 'c touts" where
  "onE prev f other = (case prev of TE t edges \<Rightarrow> f t edges | _ \<Rightarrow> other)"

abbreviation (input) execError :: "'c touts" where
  "execError \<equiv> Some (Inl ErrExecutionError)"

text \<open>The times of \<^verbatim>\<open>Context\<close>, in nanoseconds; an integer is in milliseconds when it is beyond 32 bits.\<close>

definition contextDuration :: "'c tparams \<Rightarrow> param \<Rightarrow> int result" where
  "contextDuration tp p =
     (case p of
        PString d \<Rightarrow> (case tp_parseDuration tp d of None \<Rightarrow> Inl (ErrMsg ''invalid duration'') | Some n \<Rightarrow> Inr n)
      | PInt i \<Rightarrow> Inr (wrap64 (i * 1000000000))
      | ForeverPredicate \<Rightarrow> Inr (wrap64 (tp_now tp))
      | _ \<Rightarrow> Inl (ErrMsg ''Key Context must be either an integer or a string''))"

definition parseTimeContext :: "'c tparams \<Rightarrow> string \<Rightarrow> int result" where
  "parseTimeContext tp p =
     (case tp_parseTime tp p of
        Some n \<Rightarrow> Inr n
      | None \<Rightarrow>
          (case tp_parseDuration tp p of
             Some d \<Rightarrow> Inr (tp_now tp + d)
           | None \<Rightarrow> Inl (ErrMsg ''Time must be in RFC1123 or in Go Duration format'')))"

definition contextTime :: "'c tparams \<Rightarrow> param \<Rightarrow> int result" where
  "contextTime tp p =
     (case p of
        PString s \<Rightarrow> parseTimeContext tp s
      | PInt i \<Rightarrow> Inr (if i > 2 ^ 31 - 1 then wrap64 (i * 1000000) else i * 1000000000)
      | NowPredicate \<Rightarrow> Inr (tp_now tp)
      | _ \<Rightarrow> Inl (ErrMsg ''Key Context must be either an integer or a string''))"

definition Exec_Context :: "'c tparams \<Rightarrow> param list \<Rightarrow> 'c tstep \<Rightarrow> (param list \<times> 'c tstep result) option" where
  "Exec_Context tp ps prev =
     (case prev of
        TG t \<Rightarrow>
          (let point = (\<lambda>ps duration.
             case contextTime tp (ps ! 0) of
               Inl err \<Rightarrow> Some (ps, Inl err)
             | Inr time \<Rightarrow> map_option (\<lambda>r. (ps[0 := PTime time], r)) (Traversal_Context tp time duration t))
           in if length ps = 0 then Some (ps, Inl (ErrMsg ''At least one parameter must be provided to Context''))
              else if length ps = 2 then
                (case contextDuration tp (ps ! 1) of
                   Inl err \<Rightarrow> Some (ps, Inl err)
                 | Inr d \<Rightarrow> point (ps[1 := PDuration d]) (Some d))
              else if length ps = 1 then point ps None
              else Some (ps, Inl (ErrMsg ''At most two parameters must be provided to Context'')))
      | _ \<Rightarrow> Some (ps, Inl ErrExecutionError))"

definition Exec_ShortestPathTo :: "'c tparams \<Rightarrow> param list \<Rightarrow> 'c tstep \<Rightarrow> 'c touts" where
  "Exec_ShortestPathTo tp ps prev =
     onV prev (\<lambda>t nodes _.
       case ps of
         [] \<Rightarrow> None
       | p # qs \<Rightarrow>
           (case metadataOf p of
              None \<Rightarrow> execError
            | Some m \<Rightarrow>
                (case qs of
                   [] \<Rightarrow> V_ShortestPathTo tp m [] t nodes
                 | q # _ \<Rightarrow>
                     (case metadataOf q of None \<Rightarrow> execError | Some e \<Rightarrow> V_ShortestPathTo tp m e t nodes)))) execError"

text \<open>The first parameter of \<^verbatim>\<open>HasKey\<close> and \<^verbatim>\<open>HasNot\<close> is asserted to be a string.\<close>

definition firstString :: "param list \<Rightarrow> (string \<Rightarrow> 'c touts) \<Rightarrow> 'c touts" where
  "firstString ps f = (case map asPString ps of Some k # _ \<Rightarrow> f k | _ \<Rightarrow> None)"

definition Exec_G :: "'c tparams \<Rightarrow> GremlinStep \<Rightarrow> 'c tstep \<Rightarrow> 'c touts" where
  "Exec_G tp s prev =
     (case prev of TV t _ _ \<Rightarrow> Some (Inr (TG t)) | TE t _ \<Rightarrow> Some (Inr (TG t)) | _ \<Rightarrow> invokeStepFnc tp prev ''G'' s)"

definition Exec_V :: "'c tparams \<Rightarrow> GremlinStep \<Rightarrow> 'c tstep \<Rightarrow> 'c touts" where
  "Exec_V tp s prev =
     (case prev of TG t \<Rightarrow> Traversal_V tp (PaginationRange s) (Params s) t | _ \<Rightarrow> execError)"

definition Exec_E :: "'c tparams \<Rightarrow> GremlinStep \<Rightarrow> 'c tstep \<Rightarrow> 'c touts" where
  "Exec_E tp s prev =
     (case prev of TG t \<Rightarrow> Traversal_E tp (PaginationRange s) (Params s) t | _ \<Rightarrow> execError)"

definition Exec_Has :: "'c tparams \<Rightarrow> GremlinStep \<Rightarrow> 'c tstep \<Rightarrow> 'c touts" where
  "Exec_Has tp s prev =
     (case prev of
        TV t nodes _ \<Rightarrow> V_has tp AND_op (PaginationRange s) (Params s) t nodes
      | TE t edges \<Rightarrow> E_has tp AND_op (PaginationRange s) (Params s) t edges
      | TValue t v \<Rightarrow> Value_Has tp (PaginationRange s) (Params s) t v
      | _ \<Rightarrow> invokeStepFnc tp prev ''Has'' s)"

definition Exec_HasKey :: "'c tparams \<Rightarrow> GremlinStep \<Rightarrow> 'c tstep \<Rightarrow> 'c touts" where
  "Exec_HasKey tp s prev =
     onV prev (\<lambda>t nodes _. firstString (Params s) (\<lambda>k. V_has tp AND_op (PaginationRange s) [PString k] t nodes))
       (onE prev (\<lambda>t edges. firstString (Params s) (\<lambda>k. E_has tp AND_op (PaginationRange s) [PString k] t edges))
         (invokeStepFnc tp prev ''HasKey'' s))"

definition Exec_HasNot :: "'c tparams \<Rightarrow> GremlinStep \<Rightarrow> 'c tstep \<Rightarrow> 'c touts" where
  "Exec_HasNot tp s prev =
     onV prev (\<lambda>t nodes _. firstString (Params s) (\<lambda>k. V_HasNot (PaginationRange s) k t nodes))
       (onE prev (\<lambda>t edges. firstString (Params s) (\<lambda>k. E_HasNot (PaginationRange s) k t edges)) (invokeStepFnc tp prev ''HasNot'' s))"

definition Exec_HasEither :: "'c tparams \<Rightarrow> GremlinStep \<Rightarrow> 'c tstep \<Rightarrow> 'c touts" where
  "Exec_HasEither tp s prev =
     onV prev (\<lambda>t nodes _. V_has tp OR_op (PaginationRange s) (Params s) t nodes)
       (onE prev (\<lambda>t edges. E_has tp OR_op (PaginationRange s) (Params s) t edges) (invokeStepFnc tp prev ''HasEither'' s))"

definition Exec_Dedup :: "'c tparams \<Rightarrow> GremlinStep \<Rightarrow> 'c tstep \<Rightarrow> 'c touts" where
  "Exec_Dedup tp s prev =
     onV prev (\<lambda>t nodes _. V_Dedup tp (PaginationRange s) (Params s) t nodes)
       (onE prev (\<lambda>t edges. E_Dedup tp (PaginationRange s) (Params s) t edges) (invokeStepFnc tp prev ''Dedup'' s))"

definition Exec_Out :: "'c tparams \<Rightarrow> GremlinStep \<Rightarrow> 'c tstep \<Rightarrow> 'c touts" where
  "Exec_Out tp s prev =
     onV prev (\<lambda>t nodes _. V_Out tp (PaginationRange s) (Params s) t nodes) (invokeStepFnc tp prev ''Out'' s)"

definition Exec_In :: "'c tparams \<Rightarrow> GremlinStep \<Rightarrow> 'c tstep \<Rightarrow> 'c touts" where
  "Exec_In tp s prev =
     onV prev (\<lambda>t nodes _. V_In tp (PaginationRange s) (Params s) t nodes) (invokeStepFnc tp prev ''In'' s)"

definition Exec_OutV :: "'c tparams \<Rightarrow> GremlinStep \<Rightarrow> 'c tstep \<Rightarrow> 'c touts" where
  "Exec_OutV tp s prev =
     onE prev (\<lambda>t edges. E_OutV tp (PaginationRange s) (Params s) t edges) execError"

definition Exec_InV :: "'c tparams \<Rightarrow> GremlinStep \<Rightarrow> 'c tstep \<Rightarrow> 'c touts" where
  "Exec_InV tp s prev =
     onE prev (\<lambda>t edges. E_InV tp (PaginationRange s) (Params s) t edges) execError"

definition Exec_BothV :: "'c tparams \<Rightarrow> GremlinStep \<Rightarrow> 'c tstep \<Rightarrow> 'c touts" where
  "Exec_BothV tp s prev =
     onE prev (\<lambda>t edges. E_BothV tp (PaginationRange s) (Params s) t edges) execError"

definition Exec_SubGraph :: "'c tparams \<Rightarrow> GremlinStep \<Rightarrow> 'c tstep \<Rightarrow> 'c touts" where
  "Exec_SubGraph tp s prev =
     (case prev of
        TE t edges \<Rightarrow> E_SubGraph tp t edges
      | TV t nodes _ \<Rightarrow> V_SubGraph tp t nodes
      | TPath t paths \<Rightarrow> Path_SubGraph tp t paths
      | _ \<Rightarrow> execError)"

definition Exec_OutE :: "'c tparams \<Rightarrow> GremlinStep \<Rightarrow> 'c tstep \<Rightarrow> 'c touts" where
  "Exec_OutE tp s prev =
     onV prev (\<lambda>t nodes _. V_OutE tp (PaginationRange s) (Params s) t nodes) execError"

definition Exec_InE :: "'c tparams \<Rightarrow> GremlinStep \<Rightarrow> 'c tstep \<Rightarrow> 'c touts" where
  "Exec_InE tp s prev =
     onV prev (\<lambda>t nodes _. V_InE tp (PaginationRange s) (Params s) t nodes) execError"

definition Exec_BothE :: "'c tparams \<Rightarrow> GremlinStep \<Rightarrow> 'c tstep \<Rightarrow> 'c touts" where
  "Exec_BothE tp s prev =
     onV prev (\<lambda>t nodes _. V_BothE tp (PaginationRange s) (Params s) t nodes) execError"

definition Exec_Both :: "'c tparams \<Rightarrow> GremlinStep \<Rightarrow> 'c tstep \<Rightarrow> 'c touts" where
  "Exec_Both tp s prev =
     onV prev (\<lambda>t nodes _. V_Both tp (PaginationRange s) (Params s) t nodes) (invokeStepFnc tp prev ''Both'' s)"

definition Exec_Count :: "'c tparams \<Rightarrow> GremlinStep \<Rightarrow> 'c tstep \<Rightarrow> 'c touts" where
  "Exec_Count tp s prev =
     onV prev (\<lambda>t nodes _. V_Count t nodes) (onE prev (\<lambda>t edges. E_Count t edges) (invokeStepFnc tp prev ''Count'' s))"

definition Exec_Range :: "'c tparams \<Rightarrow> GremlinStep \<Rightarrow> 'c tstep \<Rightarrow> 'c touts" where
  "Exec_Range tp s prev =
     onV prev (\<lambda>t nodes _. V_Range (Params s) t nodes) (onE prev (\<lambda>t edges. E_Range (Params s) t edges) (invokeStepFnc tp prev ''Range'' s))"

definition Exec_Limit :: "'c tparams \<Rightarrow> GremlinStep \<Rightarrow> 'c tstep \<Rightarrow> 'c touts" where
  "Exec_Limit tp s prev =
     onV prev (\<lambda>t nodes _. V_Limit (Params s) t nodes) (onE prev (\<lambda>t edges. E_Limit (Params s) t edges) (invokeStepFnc tp prev ''Limit'' s))"

definition Exec_Sort :: "'c tparams \<Rightarrow> GremlinStep \<Rightarrow> 'c tstep \<Rightarrow> 'c touts" where
  "Exec_Sort tp s prev =
     onV prev (\<lambda>t nodes shared. V_Sort tp (Params s) t nodes shared) (invokeStepFnc tp prev ''Sort'' s)"

definition Exec_As :: "'c tparams \<Rightarrow> GremlinStep \<Rightarrow> 'c tstep \<Rightarrow> 'c touts" where
  "Exec_As tp s prev =
     onV prev (\<lambda>t nodes shared. V_As (Params s) t nodes shared) (invokeStepFnc tp prev ''As'' s)"

definition Exec_Select :: "'c tparams \<Rightarrow> GremlinStep \<Rightarrow> 'c tstep \<Rightarrow> 'c touts" where
  "Exec_Select tp s prev =
     onV prev (\<lambda>t nodes _. V_Select (Params s) t) (invokeStepFnc tp prev ''Select'' s)"

definition Exec_step :: "'c tparams \<Rightarrow> GremlinStep \<Rightarrow> 'c tstep \<Rightarrow> 'c touts" where
  "Exec_step tp s prev =
     (case kind s of
        StepG \<Rightarrow> Exec_G tp s prev
      | StepV \<Rightarrow> Exec_V tp s prev
      | StepE \<Rightarrow> Exec_E tp s prev
      | StepHas \<Rightarrow> Exec_Has tp s prev
      | StepHasKey \<Rightarrow> Exec_HasKey tp s prev
      | StepHasNot \<Rightarrow> Exec_HasNot tp s prev
      | StepHasEither \<Rightarrow> Exec_HasEither tp s prev
      | StepDedup \<Rightarrow> Exec_Dedup tp s prev
      | StepOut \<Rightarrow> Exec_Out tp s prev
      | StepIn \<Rightarrow> Exec_In tp s prev
      | StepOutV \<Rightarrow> Exec_OutV tp s prev
      | StepInV \<Rightarrow> Exec_InV tp s prev
      | StepBothV \<Rightarrow> Exec_BothV tp s prev
      | StepSubGraph \<Rightarrow> Exec_SubGraph tp s prev
      | StepOutE \<Rightarrow> Exec_OutE tp s prev
      | StepInE \<Rightarrow> Exec_InE tp s prev
      | StepBothE \<Rightarrow> Exec_BothE tp s prev
      | StepBoth \<Rightarrow> Exec_Both tp s prev
      | StepCount \<Rightarrow> Exec_Count tp s prev
      | StepRange \<Rightarrow> Exec_Range tp s prev
      | StepLimit \<Rightarrow> Exec_Limit tp s prev
      | StepSort \<Rightarrow> Exec_Sort tp s prev
      | StepAs \<Rightarrow> Exec_As tp s prev
      | StepSelect \<Rightarrow> Exec_Select tp s prev
      | StepContext \<Rightarrow> map_option snd (Exec_Context tp (Params s) prev)
      | StepShortestPathTo \<Rightarrow> Exec_ShortestPathTo tp (Params s) prev
      | StepValues \<Rightarrow> invokeStepFnc tp prev ''PropertyValues'' s
      | StepKeys \<Rightarrow> invokeStepFnc tp prev ''PropertyKeys'' s
      | StepSum \<Rightarrow> invokeStepFnc tp prev ''Sum'' s)"

lemmas Exec_defs = Exec_step_def Exec_G_def Exec_V_def Exec_E_def Exec_Has_def Exec_HasKey_def Exec_HasNot_def Exec_HasEither_def Exec_Dedup_def Exec_Out_def Exec_In_def Exec_OutV_def Exec_InV_def Exec_BothV_def Exec_SubGraph_def Exec_OutE_def Exec_InE_def Exec_BothE_def Exec_Both_def Exec_Count_def Exec_Range_def Exec_Limit_def Exec_Sort_def Exec_As_def Exec_Select_def

text \<open>What running a step leaves of its parameters.\<close>

definition ranStep :: "'c tparams \<Rightarrow> GremlinStep \<Rightarrow> 'c tstep \<Rightarrow> GremlinStep" where
  "ranStep tp s prev =
     (if kind s = StepContext
      then (case Exec_Context tp (Params s) prev of Some (ps, _) \<Rightarrow> s\<lparr>Params := ps\<rparr> | None \<Rightarrow> s) else s)"

lemma absorb_length: "absorb s ns = Some (s', taken, rest) \<Longrightarrow> length rest \<le> length ns"
proof (induction ns arbitrary: s s' taken rest)
  case (Cons n ns)
  then show ?case by (fastforce split: option.splits prod.splits bool.splits intro: le_SucI)
qed simp

text \<open>The loop of \<^verbatim>\<open>GremlinTraversalSequence.Exec\<close>, with the sequence it leaves.\<close>

function execLoop ::
  "'c tparams \<Rightarrow> GremlinStep list \<Rightarrow> 'c tstep \<Rightarrow> (GremlinStep list \<times> 'c tstep result) option" where
  "execLoop tp [] prev = Some ([], Inr prev)"
| "execLoop tp (s # ss) prev =
     (case absorb s ss of
        None \<Rightarrow> None
      | Some (s', taken, rest) \<Rightarrow>
          (case Exec_step tp s' prev of
             None \<Rightarrow> None
           | Some (Inl err) \<Rightarrow> Some (ranStep tp s' prev # taken @ rest, Inl err)
           | Some (Inr nxt) \<Rightarrow>
               map_option (\<lambda>(rest', r). (ranStep tp s' prev # taken @ rest', r)) (execLoop tp rest nxt)))"
  by pat_completeness auto
termination
  by (relation "measure (\<lambda>(_, ss, _). length ss)") (auto dest: absorb_length simp: le_imp_less_Suc)

definition Sequence_Exec ::
  "'c tparams \<Rightarrow> GremlinStep list \<Rightarrow> 'c Graph \<Rightarrow> (GremlinStep list \<times> 'c tstep result) option" where
  "Sequence_Exec tp steps g = execLoop tp steps (TG (NewGraphTraversal g))"

end
