(* ===== verification/Gremlin_Typing.thy ===== *)
theory Gremlin_Typing
  imports Gremlin_Exec Graph_Theorems
begin

text \<open>
  What a query can answer: every step that runs on a well-formed in-memory graph gives elements of the graph, or a subgraph that is
  well formed and lies within it.  The proof follows the steps one by one, as a proof of type preservation does.
\<close>

section \<open>Answers within a graph\<close>

definition nodesOf :: "MemoryBackend Graph \<Rightarrow> nref set" where
  "nodesOf g = ran (memNodeRefs (g_backend g))"

definition edgesOf :: "MemoryBackend Graph \<Rightarrow> eref set" where
  "edgesOf g = ran (memEdgeRefs (g_backend g))"

text \<open>The cache of compiled expressions may have new entries, each for its own text.\<close>

definition cachesMore :: "regex_env \<Rightarrow> regex_env \<Rightarrow> bool" where
  "cachesMore env env' \<longleftrightarrow> cidrRegex env' = cidrRegex env \<and> regexMatch env' = regexMatch env \<and>
     (\<forall>v. map_of (regexpCache env') v \<in> {map_of (regexpCache env) v, Some v, Some (cidrRegex env v)})"

lemma cachesMore_refl [simp]: "cachesMore env env"
  by (simp add: cachesMore_def)

lemma cachesMore_trans: "cachesMore env env1 \<Longrightarrow> cachesMore env1 env2 \<Longrightarrow> cachesMore env env2"
  unfolding cachesMore_def by (metis insert_iff singletonD)

lemma KeyValueToFilter_env: "cachesMore env (fst (KeyValueToFilter tp env k p))"
  by (cases "(tp, env, k, p)" rule: KeyValueToFilter.cases)
    (auto simp: NewRegexFilter_def NewIPV4RangeFilter_def cachesMore_def split: param.split)

lemma pairFilters_env: "cachesMore env (fst (pairFilters tp env s))"
proof (induction tp env s rule: pairFilters.induct)
  case (3 tp env k v s)
  have "cachesMore env env1" if "KeyValueToFilter tp env k v = (env1, r)" for env1 r
    using KeyValueToFilter_env [of env tp k v] that by simp
  then show ?case using 3 cachesMore_trans by (fastforce split: prod.split sum.split)
qed simp_all

lemma ParamsToFilter_env: "ParamsToFilter tp env op s = (env', r) \<Longrightarrow> cachesMore env env'"
  using pairFilters_env [of env tp s] by (auto simp: ParamsToFilter_def split: if_splits prod.splits sum.splits)

text \<open>The traversal is on a well-formed part of \<open>g\<close>, in the same store up to the cache of compiled expressions, and what
  \<^verbatim>\<open>As\<close> marked is in it.\<close>

definition partOf :: "MemoryBackend Graph \<Rightarrow> MemoryBackend GraphTraversal \<Rightarrow> bool" where
  "partOf g t \<longleftrightarrow>
     graph_ok mem_inv memNodeRefs memEdgeRefs (tr_Graph t) \<and>
     nodesOf (tr_Graph t) \<subseteq> nodesOf g \<and> edgesOf (tr_Graph t) \<subseteq> edgesOf g \<and>
     (\<exists>env. cachesMore (h_env (g_world g)) env \<and> g_world (tr_Graph t) = (g_world g)\<lparr>h_env := env\<rparr>) \<and>
     (\<forall>m k ns. tr_as t = Some m \<longrightarrow> map_of m k = Some ns \<longrightarrow> set ns \<subseteq> nodesOf (tr_Graph t))"

fun answerOk :: "MemoryBackend Graph \<Rightarrow> MemoryBackend tstep \<Rightarrow> bool" where
  "answerOk g (TG t) = partOf g t"
| "answerOk g (TV t ns _) = (partOf g t \<and> set ns \<subseteq> nodesOf (tr_Graph t))"
| "answerOk g (TE t es) = (partOf g t \<and> set es \<subseteq> edgesOf (tr_Graph t))"
| "answerOk g (TPath t ps) = (partOf g t \<and> (\<forall>p \<in> set ps. set p \<subseteq> nodesOf (tr_Graph t)))"
| "answerOk g (TValue t _) = partOf g t"

definition sound :: "MemoryBackend Graph \<Rightarrow> MemoryBackend touts \<Rightarrow> bool" where
  "sound g out \<longleftrightarrow> (\<forall>r. out = Some (Inr r) \<longrightarrow> answerOk g r)"

lemma sound_simps [simp]:
  "sound g None" "sound g (Some (Inl err))" "sound g (Some (Inr r)) = answerOk g r"
  by (simp_all add: sound_def)

lemma sound_map: "(\<And>x. out = Some x \<Longrightarrow> answerOk g (f x)) \<Longrightarrow> sound g (map_option (\<lambda>x. Inr (f x)) out)"
  by (auto simp: sound_def)

lemma sound_result:
  "(\<And>x. out = Some (Inr x) \<Longrightarrow> answerOk g (f x)) \<Longrightarrow>
   sound g (map_option (\<lambda>r. case r of Inl err \<Rightarrow> Inl err | Inr x \<Rightarrow> Inr (f x)) out)"
  by (cases out) (auto split: sum.split)

section \<open>The loops take what they are given\<close>

lemma iterate_subset: "set (fst (snd (iterate it xs))) \<subseteq> set xs"
proof (induction xs arbitrary: it)
  case (Cons x xs)
  show ?case
  proof (cases "Done it")
    case False
    obtain it1 ok where n: "Next it = (it1, ok)" by fastforce
    obtain it2 ys broke where i: "iterate it1 xs = (it2, ys, broke)" by (metis prod_cases3)
    have "set ys \<subseteq> set xs" using Cons.IH [of it1] i by simp
    then show ?thesis using False n i by auto
  qed simp
qed simp

lemma pagedLoop_subset:
  assumes "pagedLoop f it xs = Some ys" "\<forall>x \<in> set xs. \<forall>zs. f x = Some zs \<longrightarrow> set zs \<subseteq> A"
  shows "set ys \<subseteq> A"
  using assms
proof (induction xs arbitrary: it ys)
  case (Cons x xs)
  obtain zs where zs: "f x = Some zs" "set zs \<subseteq> A" using Cons.prems by (cases "f x") auto
  obtain it' us broke where i: "iterate it zs = (it', us, broke)" by (metis prod_cases3)
  have "set us \<subseteq> A" using iterate_subset [of it zs] zs(2) i by auto
  then show ?case using Cons.prems Cons.IH [of it'] zs(1) i by (cases broke) auto
qed simp

lemma pagedInner_subset:
  assumes "pagedInner f it xs = Some ys" "\<forall>x \<in> set xs. \<forall>zs. f x = Some zs \<longrightarrow> set zs \<subseteq> A"
  shows "set ys \<subseteq> A"
  using assms
proof (induction xs arbitrary: it ys)
  case (Cons x xs)
  obtain zs where zs: "f x = Some zs" "set zs \<subseteq> A" using Cons.prems by (cases "f x") auto
  obtain it' us broke where i: "iterate it zs = (it', us, broke)" by (metis prod_cases3)
  have "set us \<subseteq> A" using iterate_subset [of it zs] zs(2) i by auto
  then show ?case using Cons.prems Cons.IH [of it'] zs(1) i by auto
qed simp

lemma filterLoop_subset: "set (filterLoop p it xs) \<subseteq> set xs"
proof (induction xs arbitrary: it)
  case (Cons x xs)
  then show ?case by (auto simp: Next_def)
qed simp

lemma dedupLoop_subset: "dedupLoop stops key it visited xs = Inr ys \<Longrightarrow> set ys \<subseteq> set xs"
proof (induction xs arbitrary: it visited ys)
  case (Cons x xs)
  obtain it1 ok where n: "Next it = (it1, ok)" by fastforce
  show ?case using Cons.prems Cons.IH [of it1] unfolding dedupLoop.simps n
    by (fastforce simp: Let_def split: if_splits sum.splits option.splits)
qed simp

lemma rangeLoop_subset: "set (rangeLoop k from xs) \<subseteq> set xs"
  by (induction k "from" xs rule: rangeLoop.induct) auto

lemma rangeOf_subset: "rangeOf s xs = Some (Inr ys) \<Longrightarrow> set ys \<subseteq> set xs"
  using rangeLoop_subset by (fastforce simp: rangeOf_def split: list.splits option.splits if_splits)

lemma selectLoop_subset:
  "selectLoop m keys = Inr ns \<Longrightarrow> (\<And>k ns. map_of m k = Some ns \<Longrightarrow> set ns \<subseteq> A) \<Longrightarrow> set ns \<subseteq> A"
  by (induction m keys arbitrary: ns rule: selectLoop.induct) (fastforce split: option.splits sum.splits)+

section \<open>What the graph is read for\<close>

definition memParams :: "MemoryBackend tparams \<Rightarrow> bool" where
  "memParams tp \<longleftrightarrow> tp_backend tp = memoryBackend \<and> tp_memory tp = (\<lambda>m. m) \<and> (\<forall>less xs. set (tp_sort tp less xs) = set xs)"

lemma partOf_ok: "partOf g t \<Longrightarrow> graph_ok mem_inv memNodeRefs memEdgeRefs (tr_Graph t)"
  by (simp add: partOf_def)

lemma partOf_env: "partOf g t \<Longrightarrow> cachesMore (h_env (g_world (tr_Graph t))) env \<Longrightarrow> partOf g (setEnv env t)"
  using mem.graph_ok_world [of "tr_Graph t" "(g_world (tr_Graph t))\<lparr>h_env := env\<rparr>"]
  by (auto simp: partOf_def setEnv_def same_ids_def nodesOf_def edgesOf_def intro!: exI [of _ env] intro: cachesMore_trans)

lemma env_parts [simp]: "nodesOf (tr_Graph (setEnv env t)) = nodesOf (tr_Graph t)" "edgesOf (tr_Graph (setEnv env t)) = edgesOf (tr_Graph t)"
  by (simp_all add: setEnv_def nodesOf_def edgesOf_def)

lemma reads_within:
  assumes ok: "graph_ok mem_inv memNodeRefs memEdgeRefs g"
  shows "Graph_GetNode memoryBackend g i = Some n \<Longrightarrow> n \<in> nodesOf g"
    and "Graph_GetEdge memoryBackend g i = Some e \<Longrightarrow> e \<in> edgesOf g"
    and "set (Graph_GetNodes memoryBackend g m) \<subseteq> nodesOf g"
    and "set (Graph_GetEdges memoryBackend g m) \<subseteq> edgesOf g"
    and "set (Graph_GetNodeEdges memoryBackend g n m) \<subseteq> edgesOf g"
    and "Graph_GetEdgeNodes memoryBackend g e pm cm = Some (ps, cs) \<Longrightarrow> set ps \<subseteq> nodesOf g \<and> set cs \<subseteq> nodesOf g"
    and "LookupChildren memoryBackend g n m em = Some ns \<Longrightarrow> set ns \<subseteq> nodesOf g"
    and "LookupParents memoryBackend g n m em = Some ns \<Longrightarrow> set ns \<subseteq> nodesOf g"
proof -
  have inv: "mem_inv (g_world g) (g_backend g)" and live: "ctxTimeSlice (g_context g) = None"
    using ok by (auto simp: graph_ok_def)
  show "Graph_GetNode memoryBackend g i = Some n \<Longrightarrow> n \<in> nodesOf g" "Graph_GetEdge memoryBackend g i = Some e \<Longrightarrow> e \<in> edgesOf g"
    by (auto simp: mem.GetNode_live [OF ok] mem.GetEdge_live [OF ok] nodesOf_def edgesOf_def intro: ranI)
  show "set (Graph_GetNodes memoryBackend g m) \<subseteq> nodesOf g" "set (Graph_GetEdges memoryBackend g m) \<subseteq> edgesOf g"
    using mem.get_nodes [OF inv live, of m] mem.get_edges [OF inv live, of m]
    by (auto simp: Graph_GetNodes_def Graph_GetEdges_def nodesOf_def edgesOf_def)
  show "set (Graph_GetNodeEdges memoryBackend g n m) \<subseteq> edgesOf g"
    by (auto simp: mem.GetNodeEdges_live [OF ok] edgesOf_def)
  show "Graph_GetEdgeNodes memoryBackend g e pm cm = Some (ps, cs) \<Longrightarrow> set ps \<subseteq> nodesOf g \<and> set cs \<subseteq> nodesOf g"
    by (auto simp: Graph_GetEdgeNodes_def mem.get_edge_nodes [OF live] nodesOf_def split: option.splits if_splits intro: ranI)
  show "LookupChildren memoryBackend g n m em = Some ns \<Longrightarrow> set ns \<subseteq> nodesOf g"
    using mem.LookupChildren_live [OF ok, of n m em] by (auto simp: nodesOf_def)
  show "LookupParents memoryBackend g n m em = Some ns \<Longrightarrow> set ns \<subseteq> nodesOf g"
    using mem.LookupParents_live [OF ok, of n m em] by (auto simp: nodesOf_def)
qed

text \<open>A path starts at the node it was asked for and goes on along predecessors, which were unvisited nodes.\<close>

lemma minDistance_node: "getNodeMinDistance nodesMap dmap = Some u \<Longrightarrow> u \<in> ran (map_of nodesMap)"
  by (auto simp: getNodeMinDistance_def intro: ranI)

lemma relaxAll_previous:
  "ran (map_of (previous (relaxAll idOf u vs s))) \<subseteq> insert u (ran (map_of (previous s)))"
proof (induction vs arbitrary: s)
  case (Cons v vs)
  let ?s = "s\<lparr>distance := gm_set (idOf v) (distOf s (idOf u) + 1) (distance s), previous := gm_set (idOf v) u (previous s)\<rparr>"
  have "ran (map_of (previous ?s)) \<subseteq> insert u (ran (map_of (previous s)))" by (auto simp: ran_def)
  with Cons.IH [of ?s] have "ran (map_of (previous (relaxAll idOf u vs ?s))) \<subseteq> insert u (ran (map_of (previous s)))" by blast
  then show ?case using Cons.IH [of s] by (simp add: Let_def)
qed auto

lemma dijkstra_previous:
  assumes "dijkstra idOf nbrs s = Some s'" "ran (map_of (unvisited s)) \<subseteq> A" "ran (map_of (previous s)) \<subseteq> A"
  shows "ran (map_of (previous s')) \<subseteq> A"
  using assms
proof (induction rule: dijkstra.raw_induct [rotated, consumes 1, case_names step])
  case (step dij idOf nbrs s s')
  show ?case
  proof (cases "unvisited s = [] \<or> getNodeMinDistance (unvisited s) (distance s) = None")
    case False
    then obtain u vs where u: "getNodeMinDistance (unvisited s) (distance s) = Some u" "nbrs u = Some vs"
      "dij idOf nbrs (relaxAll idOf u vs (s\<lparr>unvisited := gm_del (idOf u) (unvisited s)\<rparr>)) = Some s'"
      using step(2) by (auto split: option.splits)
    let ?s = "s\<lparr>unvisited := gm_del (idOf u) (unvisited s)\<rparr>"
    have "u \<in> A" using minDistance_node [OF u(1)] step(3) by blast
    then have "ran (map_of (previous (relaxAll idOf u vs ?s))) \<subseteq> A" using step(4) relaxAll_previous [of idOf u vs ?s] by auto
    moreover have "ran (map_of (unvisited (relaxAll idOf u vs ?s))) \<subseteq> A" using step(3) by (auto simp: ran_def)
    ultimately show ?thesis by (intro step(1) [OF u(3)])
  next
    case True
    then have "s' = s" using step(2) by (auto split: if_splits)
    then show ?thesis using step(4) by simp
  qed
qed

lemma followPath_subset:
  assumes "followPath idOf prev n acc = Some ns" "ran (map_of prev) \<subseteq> A" "n \<in> A" "set acc \<subseteq> A"
  shows "set ns \<subseteq> A"
  using assms
proof (induction rule: followPath.raw_induct [rotated, consumes 1, case_names step])
  case (step f idOf prev n acc ns)
  show ?case
  proof (cases "map_of prev (idOf n)")
    case (Some p)
    then have "p \<in> A" using step(3) by (auto intro: ranI)
    then show ?thesis using step(1) [of idOf prev p "acc @ [n]" ns] step(2-5) Some by (auto split: if_splits)
  qed (use step in auto)
qed

lemma shortest_path_within:
  assumes ok: "graph_ok mem_inv memNodeRefs memEdgeRefs g" and n: "n \<in> nodesOf g"
    and p: "LookupShortestPath memoryBackend g n m em = Some p"
  shows "set p \<subseteq> nodesOf g"
proof (cases "findNodeMatchMetadata (g_world g) (GetNodesMap memoryBackend g (g_context g)) m")
  case (Some target)
  let ?id = "\<lambda>r. ID (h_node (g_world g) r)" and ?map = "GetNodesMap memoryBackend g (g_context g)"
  have "ran (map_of (fold (\<lambda>n m. gm_set (?id n) n m) ns m)) \<subseteq> ran (map_of m) \<union> set ns" for ns and m :: "(Identifier, nref) gomap"
  proof (induction ns arbitrary: m)
    case (Cons x ns)
    have "ran (map_of (gm_set (?id x) x m)) \<subseteq> insert x (ran (map_of m))" by (auto simp: ran_def)
    with Cons.IH [of "gm_set (?id x) x m"]
    have "ran (map_of (fold (\<lambda>n m. gm_set (?id n) n m) ns (gm_set (?id x) x m))) \<subseteq> insert x (ran (map_of m)) \<union> set ns" by blast
    then show ?case by auto
  qed simp
  from this [of _ "[]"] have map: "ran (map_of ?map) \<subseteq> nodesOf g"
    using reads_within(3) [OF ok, of None] unfolding GetNodesMap_def Graph_GetNodes_def by fastforce
  from p Some obtain s ns where s: "dijkstra ?id (\<lambda>u. getNeighborNodes memoryBackend g u em) (initialSearch ?id ?map target) = Some s"
    "followPath ?id (previous s) n [] = Some ns" "set p \<subseteq> set ns"
    by (auto simp: LookupShortestPath_def Let_def bind_eq_Some_conv split: if_splits)
  have "ran (map_of (previous s)) \<subseteq> nodesOf g"
    by (rule dijkstra_previous [OF s(1)]) (use map in \<open>auto simp: initialSearch_def\<close>)
  from followPath_subset [OF s(2) this n] s(3) show ?thesis by auto
qed (use p in \<open>simp add: LookupShortestPath_def\<close>)

lemma pathsLoop_subset:
  assumes "pathsLoop f ns = Some ps" "\<forall>n \<in> set ns. \<forall>p. f n = Some p \<longrightarrow> set p \<subseteq> A"
  shows "\<forall>p \<in> set ps. set p \<subseteq> A"
  using assms
proof (induction ns arbitrary: ps)
  case (Cons n ns)
  obtain p where p: "f n = Some p" "set p \<subseteq> A" using Cons.prems by (cases "f n") auto
  obtain ps' where ps': "pathsLoop f ns = Some ps'" "ps = (if p \<noteq> [] then p # ps' else ps')" using Cons.prems(1) p(1) by auto
  from Cons.IH [OF ps'(1)] Cons.prems(2) p(2) ps'(2) show ?case by auto
qed simp

section \<open>Subgraphs\<close>

definition backendWithin :: "world \<Rightarrow> nref set \<Rightarrow> eref set \<Rightarrow> MemoryBackend \<Rightarrow> bool" where
  "backendWithin w N E m \<longleftrightarrow> mem_inv w m \<and> ran (memNodeRefs m) \<subseteq> N \<and> ran (memEdgeRefs m) \<subseteq> E"

lemma ran_upd_subset: "ran (m(k \<mapsto> v)) \<subseteq> insert v (ran m)"
  by (auto simp: ran_def)

lemma addNodes_within:
  assumes "addNodes w ignored ns m = Inr m'" "set ns \<subseteq> N" "backendWithin w N E m"
  shows "backendWithin w N E m'"
  using assms
proof (induction ns arbitrary: m)
  case (Cons n ns)
  obtain m1 err where a: "Memory_NodeAdded w m n = (m1, err)" by fastforce
  have "backendWithin w N E m1"
    using mem.node_added [of w m n m1 err] Cons.prems(2,3) a ran_upd_subset [of "memNodeRefs m"]
    by (auto simp: backendWithin_def memoryBackend_sel split: if_splits)
  moreover have "addNodes w ignored ns m1 = Inr m'" using Cons.prems(1) a by (auto split: option.splits if_splits)
  ultimately show ?case using Cons.IH Cons.prems(2) by simp
qed simp

lemma addEdges_within:
  assumes "addEdges w ignored es m = Inr m'" "set es \<subseteq> E" "backendWithin w N E m"
  shows "backendWithin w N E m'"
  using assms
proof (induction es arbitrary: m)
  case (Cons e es)
  obtain m1 err where a: "Memory_EdgeAdded w m e = (m1, err)" by fastforce
  have "backendWithin w N E m1"
    using mem.edge_added [of w m e m1 err] Cons.prems(2,3) a ran_upd_subset [of "memEdgeRefs m"]
    by (auto simp: backendWithin_def memoryBackend_sel split: if_splits)
  moreover have "addEdges w ignored es m1 = Inr m'" using Cons.prems(1) a by (auto split: option.splits if_splits)
  ultimately show ?case using Cons.IH Cons.prems(2) by simp
qed simp

lemma newBackend_within: "backendWithin w N E NewMemoryBackend"
  using NewGraph_ok [of "[]" w "[]"]
  by (simp add: backendWithin_def graph_ok_def NewGraph_def NewMemoryBackend_def memNodeRefs_def memEdgeRefs_def ran_def)

lemma subTraversal_part:
  assumes tp: "memParams tp" and t: "partOf g t"
    and m: "backendWithin (g_world (tr_Graph t)) (nodesOf (tr_Graph t)) (edgesOf (tr_Graph t)) m"
  shows "answerOk g (subTraversal tp t m)"
proof -
  let ?g = "NewGraph (g_host (tr_Graph t)) (g_world (tr_Graph t)) m ''unknown''"
  have "graph_ok mem_inv memNodeRefs memEdgeRefs ?g"
    using t m by (auto simp: partOf_def backendWithin_def graph_ok_def NewGraph_def nodesOf_def edgesOf_def idle_def NewEventHandler_def)
  then show ?thesis using tp t m
    by (auto simp: subTraversal_def memParams_def partOf_def backendWithin_def nodesOf_def edgesOf_def NewGraphTraversal_def NewGraph_def)
qed

lemma nodesSubGraph_sound:
  assumes tp: "memParams tp" and t: "partOf g t" and ns: "set ns \<subseteq> nodesOf (tr_Graph t)"
  shows "sound g (nodesSubGraph tp ignored t ns)"
proof -
  let ?in = "backendWithin (g_world (tr_Graph t)) (nodesOf (tr_Graph t)) (edgesOf (tr_Graph t))"
  have es: "set (concat (map (\<lambda>n. Graph_GetNodeEdges (tp_backend tp) (tr_Graph t) n None) ns)) \<subseteq> edgesOf (tr_Graph t)"
    using tp reads_within(5) [OF partOf_ok [OF t]] by (auto simp: memParams_def)
  have "?in m2" if "addNodes (g_world (tr_Graph t)) ignored ns NewMemoryBackend = Inr m1"
    "addEdges (g_world (tr_Graph t)) linkErrors (concat (map (\<lambda>n. Graph_GetNodeEdges (tp_backend tp) (tr_Graph t) n None) ns)) m1 = Inr m2"
    for m1 m2
    using addEdges_within [OF that(2) es addNodes_within [OF that(1) ns newBackend_within]] .
  then show ?thesis using subTraversal_part [OF tp t] by (simp add: nodesSubGraph_def split: sum.split)
qed

lemma edgesSubGraph_within:
  assumes tp: "memParams tp" and t: "partOf g t"
    and "edgesSubGraph tp t es m = Some (Inr m')" "set es \<subseteq> edgesOf (tr_Graph t)"
    and "backendWithin (g_world (tr_Graph t)) (nodesOf (tr_Graph t)) (edgesOf (tr_Graph t)) m"
  shows "backendWithin (g_world (tr_Graph t)) (nodesOf (tr_Graph t)) (edgesOf (tr_Graph t)) m'"
  using assms(3-5)
proof (induction es arbitrary: m)
  case (Cons e es)
  let ?in = "backendWithin (g_world (tr_Graph t)) (nodesOf (tr_Graph t)) (edgesOf (tr_Graph t))"
  from Cons.prems(1) obtain ps cs m1 m2 where
    nodes: "Graph_GetEdgeNodes memoryBackend (tr_Graph t) e None None = Some (ps, cs)"
    and m1: "addNodes (g_world (tr_Graph t)) [ErrNodeConflict] (cs @ ps) m = Inr m1"
    and m2: "addEdges (g_world (tr_Graph t)) [ErrEdgeConflict] [e] m1 = Inr m2"
    and rest: "edgesSubGraph tp t es m2 = Some (Inr m')"
    using tp by (auto simp: memParams_def simp del: addEdges.simps split: option.splits sum.splits)
  have "set (cs @ ps) \<subseteq> nodesOf (tr_Graph t)" using reads_within(6) [OF partOf_ok [OF t] nodes] by auto
  then have "?in m1" by (rule addNodes_within [OF m1 _ Cons.prems(3)])
  then have "?in m2" using Cons.prems(2) by (intro addEdges_within [OF m2]) auto
  then show ?case using Cons.IH [OF rest] Cons.prems(2) by simp
qed simp

lemma subgraphs_sound:
  assumes tp: "memParams tp"
  shows "answerOk g (TV t ns shared) \<Longrightarrow> sound g (V_SubGraph tp t ns)"
    and "answerOk g (TPath t ps) \<Longrightarrow> sound g (Path_SubGraph tp t ps)"
    and "answerOk g (TE t es) \<Longrightarrow> sound g (E_SubGraph tp t es)"
proof -
  show "answerOk g (TV t ns shared) \<Longrightarrow> sound g (V_SubGraph tp t ns)"
    using nodesSubGraph_sound [OF tp] by (simp add: V_SubGraph_def)
  show "answerOk g (TPath t ps) \<Longrightarrow> sound g (Path_SubGraph tp t ps)"
    unfolding Path_SubGraph_def by (rule nodesSubGraph_sound [OF tp]) auto
  show "answerOk g (TE t es) \<Longrightarrow> sound g (E_SubGraph tp t es)"
    using edgesSubGraph_within [OF tp, of g t es NewMemoryBackend] subTraversal_part [OF tp, of g t] newBackend_within
    by (cases "edgesSubGraph tp t es NewMemoryBackend") (auto simp: E_SubGraph_def split: sum.split)
qed

section \<open>Every step\<close>

lemma sound_withFilter:
  assumes t: "partOf g t"
    and body: "\<And>t' f. partOf g t' \<Longrightarrow> nodesOf (tr_Graph t') = nodesOf (tr_Graph t) \<Longrightarrow> edgesOf (tr_Graph t') = edgesOf (tr_Graph t) \<Longrightarrow>
      sound g (body t' f)"
  shows "sound g (withFilter tp op s t body)"
  using body [OF partOf_env [OF t ParamsToFilter_env]] by (auto simp: withFilter_def split: prod.split sum.split)

lemma sources_sound:
  assumes tp: "memParams tp" and t: "partOf g t"
  shows "sound g (Traversal_V tp ctx s t)" "sound g (Traversal_E tp ctx s t)"
proof -
  define pick where "pick xs = (if ctx \<noteq> None then fst (snd (iterate (rangeIterator ctx) xs)) else xs)" for xs :: "nat list"
  have pick: "set (pick xs) \<subseteq> set xs" for xs using iterate_subset [of "rangeIterator ctx" xs] by (simp add: pick_def)
  have B: "tp_backend tp = memoryBackend" using tp by (simp add: memParams_def)
  have V: "answerOk g (TV t' (pick ns) [])" if "partOf g t'" "set ns \<subseteq> nodesOf (tr_Graph t')" for t' ns
    using that pick [of ns] by auto
  have E: "answerOk g (TE t' (pick es))" if "partOf g t'" "set es \<subseteq> edgesOf (tr_Graph t')" for t' es
    using that pick [of es] by auto
  note reads = reads_within [OF partOf_ok]
  have "sound g (withMatcher tp s t (\<lambda>t m. Some (Inr (TV t (pick (Graph_GetNodes memoryBackend (tr_Graph t) m)) []))))"
    "sound g (withMatcher tp s t (\<lambda>t m. Some (Inr (TE t (pick (Graph_GetEdges memoryBackend (tr_Graph t) m))))))"
    by (rule sound_withFilter [OF t], unfold sound_simps, (rule V E, assumption, rule reads(3,4), assumption))+
  with V [OF t] E [OF t] reads(1,2) [OF t] reads(3,4) [OF t, of None]
  show "sound g (Traversal_V tp ctx s t)" "sound g (Traversal_E tp ctx s t)"
    unfolding Traversal_V_def Traversal_E_def B Let_def pick_def [symmetric]
    by (simp_all del: answerOk.simps split: param.split option.split)
qed

lemma filters_sound:
  assumes "answerOk g (TV t ns shared)"
  shows "sound g (V_has tp op ctx s t ns)" "sound g (V_HasNot ctx k t ns)" "sound g (V_Dedup tp ctx s t ns)"
    "sound g (V_Range s t ns)" "sound g (V_Limit s t ns)"
proof -
  have t: "partOf g t" and ns: "set ns \<subseteq> nodesOf (tr_Graph t)" using assms by auto
  note sub = subset_trans [OF filterLoop_subset ns] subset_trans [OF dedupLoop_subset ns] subset_trans [OF rangeOf_subset ns]
  show "sound g (V_has tp op ctx s t ns)"
    using sub(1) by (auto simp: V_has_def intro!: sound_withFilter [OF t])
  show "sound g (V_HasNot ctx k t ns)" using sub(1) t by (auto simp: V_HasNot_def)
  show "sound g (V_Dedup tp ctx s t ns)" using sub(2) t by (auto simp: V_Dedup_def split: option.split sum.split)
  show range: "sound g (V_Range s t ns)" for s using sub(3) t unfolding V_Range_def by (intro sound_result) auto
  show "sound g (V_Limit s t ns)" using range by (simp add: V_Limit_def split: list.split)
qed

lemma edge_filters_sound:
  assumes "answerOk g (TE t es)"
  shows "sound g (E_has tp op ctx s t es)" "sound g (E_HasNot ctx k t es)" "sound g (E_Dedup tp ctx s t es)"
    "sound g (E_Range s t es)" "sound g (E_Limit s t es)"
proof -
  have t: "partOf g t" and es: "set es \<subseteq> edgesOf (tr_Graph t)" using assms by auto
  note sub = subset_trans [OF filterLoop_subset es] subset_trans [OF dedupLoop_subset es] subset_trans [OF rangeOf_subset es]
  show "sound g (E_has tp op ctx s t es)"
    using sub(1) by (auto simp: E_has_def intro!: sound_withFilter [OF t])
  show "sound g (E_HasNot ctx k t es)" using sub(1) t by (auto simp: E_HasNot_def)
  show "sound g (E_Dedup tp ctx s t es)" using sub(2) t by (auto simp: E_Dedup_def split: option.split sum.split)
  show range: "sound g (E_Range s t es)" for s using sub(3) t unfolding E_Range_def by (intro sound_result) auto
  show "sound g (E_Limit s t es)" using range by (simp add: E_Limit_def split: list.split)
qed

lemma sound_paged:
  assumes "partOf g t"
  shows "(\<And>x ns. x \<in> set xs \<Longrightarrow> f x = Some ns \<Longrightarrow> set ns \<subseteq> nodesOf (tr_Graph t)) \<Longrightarrow>
      sound g (map_option (\<lambda>ns. Inr (TV t ns [])) (pagedLoop f it xs))"
    and "(\<And>x ns. x \<in> set xs \<Longrightarrow> f x = Some ns \<Longrightarrow> set ns \<subseteq> nodesOf (tr_Graph t)) \<Longrightarrow>
      sound g (map_option (\<lambda>ns. Inr (TV t ns [])) (pagedInner f it xs))"
    and "(\<And>x es. x \<in> set xs \<Longrightarrow> f x = Some es \<Longrightarrow> set es \<subseteq> edgesOf (tr_Graph t)) \<Longrightarrow>
      sound g (map_option (\<lambda>es. Inr (TE t es)) (pagedLoop f it xs))"
  using assms pagedLoop_subset [of f it xs] pagedInner_subset [of f it xs] by (auto intro!: sound_map)

lemma end_reads:
  assumes ok: "graph_ok mem_inv memNodeRefs memEdgeRefs g"
  shows "map_option fst (Graph_GetEdgeNodes memoryBackend g e pm cm) = Some ns \<Longrightarrow> set ns \<subseteq> nodesOf g"
    "map_option snd (Graph_GetEdgeNodes memoryBackend g e pm cm) = Some ns \<Longrightarrow> set ns \<subseteq> nodesOf g"
  using reads_within(6) [OF ok] by (auto simp del: subset_iff) blast+

lemma walks_sound:
  assumes tp: "memParams tp" and v: "answerOk g (TV t ns shared)"
  shows "sound g (V_Out tp ctx s t ns)" "sound g (V_In tp ctx s t ns)" "sound g (V_Both tp ctx s t ns)"
    "sound g (nodeEdgesStep test tp ctx s t ns)"
proof -
  have t: "partOf g t" using v by simp
  have B: "tp_backend tp = memoryBackend" using tp by (simp add: memParams_def)
  note reads = reads_within [OF partOf_ok] and sides = end_reads [OF partOf_ok]
  show "sound g (V_Out tp ctx s t ns)" unfolding V_Out_def B
    by (intro sound_withFilter [OF t] sound_paged(1), assumption, rule reads(7))
  show "sound g (V_In tp ctx s t ns)" unfolding V_In_def B
    by (intro sound_withFilter [OF t] sound_paged(1), assumption, rule reads(8))
  have picked: "set es \<subseteq> edgesOf (tr_Graph t')" if "partOf g t'" "Some (filter P (Graph_GetNodeEdges memoryBackend (tr_Graph t') n m)) = Some es"
    for t' P n m es using that(2) reads(5) [OF that(1), of n m] by auto
  show "sound g (nodeEdgesStep test tp ctx s t ns)" unfolding nodeEdgesStep_def B
    by (intro sound_withFilter [OF t] sound_paged(3), assumption, rule picked)
  have "set zs \<subseteq> nodesOf (tr_Graph t')" if "partOf g t'" "bothEnds tp t' m x = Some zs" for t' m x zs
    using that(2) sides [OF that(1)] by (cases x) (simp add: bothEnds_def B del: map_option_eq_Some split: if_splits)
  then show "sound g (V_Both tp ctx s t ns)" unfolding V_Both_def B
    by (intro sound_withFilter [OF t] sound_paged(1))
qed

lemma ends_sound:
  assumes tp: "memParams tp" and v: "answerOk g (TE t es)"
  shows "sound g (E_InV tp ctx s t es)" "sound g (E_OutV tp ctx s t es)" "sound g (E_BothV tp ctx s t es)"
proof -
  have t: "partOf g t" using v by simp
  have B: "tp_backend tp = memoryBackend" using tp by (simp add: memParams_def)
  note sides = end_reads [OF partOf_ok]
  show "sound g (E_InV tp ctx s t es)" unfolding E_InV_def B
    by (intro sound_withFilter [OF t] sound_paged(2), assumption, rule sides(1))
  show "sound g (E_OutV tp ctx s t es)" unfolding E_OutV_def B
    by (intro sound_withFilter [OF t] sound_paged(2), assumption, rule sides(2))
  have "set zs \<subseteq> nodesOf (tr_Graph t')" if "partOf g t'" "edgeEnd tp t' m x = Some zs" for t' m x zs
    using that(2) sides [OF that(1)] by (cases x) (simp add: edgeEnd_def B del: map_option_eq_Some split: if_splits)
  then show "sound g (E_BothV tp ctx s t es)" unfolding E_BothV_def
    by (intro sound_withFilter [OF t] sound_paged(2))
qed

lemma marks_sound:
  assumes tp: "memParams tp" and v: "answerOk g (TV t ns shared)"
  shows "sound g (V_As keys t ns shared)" "sound g (V_Select keys t)" "sound g (V_Sort tp keys t ns shared)"
    "sound g (V_ShortestPathTo tp m e t ns)"
proof -
  have t: "partOf g t" and ns: "set ns \<subseteq> nodesOf (tr_Graph t)" using v by simp_all
  have mark: "partOf g (t\<lparr>tr_as := Some m'\<rparr>)" if "\<And>k xs. map_of m' k = Some xs \<Longrightarrow> set xs \<subseteq> nodesOf (tr_Graph t)" for m'
    using t that by (simp add: partOf_def)
  have marks: "map_of m' k = Some xs \<Longrightarrow> set xs \<subseteq> nodesOf (tr_Graph t)" if "tr_as t = Some m'" for m' k xs
    using t that by (simp add: partOf_def)
  show "sound g (V_As keys t ns shared)"
    using ns by (auto simp: V_As_def split: list.split option.split intro!: mark dest!: marks split: if_splits)
  show "sound g (V_Select keys t)"
    using t marks by (auto simp: V_Select_def split: option.splits sum.split dest!: selectLoop_subset [where A = "nodesOf (tr_Graph t)"])
  have sort: "set (SortNodes tp w ns k order) \<subseteq> nodesOf (tr_Graph t)" for w k order
    using tp ns by (simp add: SortNodes_def memParams_def)
  have "partOf g (t\<lparr>tr_as := map_option (\<lambda>m. fold (\<lambda>k. gm_set k xs) shared m) (tr_as t)\<rparr>)" if "set xs \<subseteq> nodesOf (tr_Graph t)" for xs
  proof (cases "tr_as t")
    case (Some m')
    have "map_of (fold (\<lambda>k. gm_set k xs) shared m0) k = Some ys \<Longrightarrow> ys = xs \<or> map_of m0 k = Some ys" for k ys m0
    proof (induction shared arbitrary: m0)
      case (Cons a shared)
      then show ?case using Cons.IH [of "gm_set a xs m0"] by (auto split: if_splits)
    qed simp
    then have "set ys \<subseteq> nodesOf (tr_Graph t)" if "map_of (fold (\<lambda>k. gm_set k xs) shared m') k = Some ys" for k ys
      using that \<open>set xs \<subseteq> nodesOf (tr_Graph t)\<close> marks [OF Some] by blast
    then show ?thesis using Some by (simp add: mark)
  qed (use t in \<open>simp add: partOf_def\<close>)
  then show "sound g (V_Sort tp keys t ns shared)" using sort
    by (auto simp: V_Sort_def Let_def split: sum.split)
  have B: "tp_backend tp = memoryBackend" using tp by (simp add: memParams_def)
  show "sound g (V_ShortestPathTo tp m e t ns)" unfolding V_ShortestPathTo_def B
    using t ns by (auto intro!: sound_map dest!: pathsLoop_subset [where A = "nodesOf (tr_Graph t)"]
        dest: shortest_path_within [OF partOf_ok [OF t], THEN subsetD])
qed

lemma invoke_sound: "answerOk g prev \<Longrightarrow> sound g (invokeStepFnc tp prev name s)"
proof (cases prev)
  case (TPath t ps)
  assume "answerOk g prev"
  then have "answerOk g (TV t (concat ps) [])" using TPath by auto
  then show ?thesis using TPath filters_sound(3) by (simp add: invokeStepFnc_def Path_Dedup_def)
qed (auto simp: invokeStepFnc_def V_PropertyValues_def V_PropertyKeys_def V_Sum_def Value_Dedup_def
    split: list.split option.split sum.split)

lemma context_sound:
  assumes tp: "memParams tp" and v: "answerOk g prev"
  shows "sound g (map_option snd (Exec_Context tp ps prev))"
proof -
  have "sound g (map_option snd (map_option (\<lambda>r. (qs, r)) (Traversal_Context tp time d t)))" for qs time d t
    using tp by (simp add: Traversal_Context_def CloneWithContext_def memParams_def memoryBackend_sel Memory_IsHistorySupported_def Let_def)
  then show ?thesis by (auto simp: Exec_Context_def Let_def split: tstep.split sum.split)
qed

lemma sound_firstString: "(\<And>k. sound g (f k)) \<Longrightarrow> sound g (firstString ps f)"
  by (simp add: firstString_def split: list.split option.split)

lemma path_step_sound:
  "memParams tp \<Longrightarrow> answerOk g prev \<Longrightarrow> sound g (Exec_ShortestPathTo tp ps prev)"
  using marks_sound(4) [of tp g] by (cases prev) (simp_all add: Exec_ShortestPathTo_def onV_def split: list.split option.split)

lemma Exec_step_sound:
  assumes tp: "memParams tp" and v: "answerOk g prev"
  shows "sound g (Exec_step tp s prev)"
proof -
  note any = invoke_sound [OF v] context_sound [OF tp v] path_step_sound [OF tp v]
  show ?thesis
  proof (cases prev)
    case (TV t ns shared)
    note V = v [unfolded TV]
    show ?thesis using any unfolding TV
      by (cases "kind s") (simp_all add: Exec_defs onV_def onE_def V_OutE_def V_InE_def V_BothE_def V_Count_def sound_firstString
          filters_sound [OF V] walks_sound [OF tp V] marks_sound [OF tp V] subgraphs_sound(1) [OF tp V] V [simplified])
  next
    case (TE t es)
    note E = v [unfolded TE]
    show ?thesis using any unfolding TE
      by (cases "kind s") (simp_all add: Exec_defs onV_def onE_def E_Count_def sound_firstString
          edge_filters_sound [OF E] ends_sound [OF tp E] subgraphs_sound(3) [OF tp E] E [simplified])
  next
    case (TG t)
    then have t: "partOf g t" using v by simp
    show ?thesis using any unfolding TG by (cases "kind s") (simp_all add: Exec_defs onV_def onE_def sources_sound [OF tp t])
  next
    case (TPath t ps)
    note P = v [unfolded TPath]
    show ?thesis using any unfolding TPath by (cases "kind s") (simp_all add: Exec_defs onV_def onE_def subgraphs_sound(2) [OF tp P])
  next
    case (TValue t x)
    then have t: "partOf g t" using v by simp
    have "sound g (Value_Has tp ctx ps t x)" for ctx ps by (simp add: Value_Has_def sound_withFilter [OF t])
    then show ?thesis using any unfolding TValue by (cases "kind s") (simp_all add: Exec_defs onV_def onE_def)
  qed
qed

lemma execLoop_answers:
  assumes "memParams tp" "answerOk g prev" "execLoop tp steps prev = Some (left, Inr r)"
  shows "answerOk g r"
  using assms
proof (induction tp steps prev arbitrary: left rule: execLoop.induct)
  case (2 tp s ss prev)
  from "2.prems"(3) obtain s' taken rest nxt left' where
    run: "absorb s ss = Some (s', taken, rest)" "Exec_step tp s' prev = Some (Inr nxt)" "execLoop tp rest nxt = Some (left', Inr r)"
    by (auto split: option.splits sum.splits)
  have "answerOk g nxt" using Exec_step_sound [OF "2.prems"(1,2), of s'] run(2) by simp
  then show ?case using "2.IH" [OF run(1) refl refl run(2) refl "2.prems"(1) _ run(3)] by simp
qed simp

text \<open>C22: Whatever steps a query has, if it runs on a well-formed graph over the in-memory backend, the nodes, edges and paths it
  answers consist of elements of the graph it ended on, which is well formed and a part of the graph it started from, be it that
  graph itself or a subgraph that was cut out on the way.\<close>

theorem query_answers_within:
  assumes "tp_backend tp = memoryBackend" "tp_memory tp = (\<lambda>m. m)" "\<forall>less xs. set (tp_sort tp less xs) = set xs"
    and "graph_ok mem_inv memNodeRefs memEdgeRefs g" "Sequence_Exec tp steps g = Some (left, Inr r)"
  shows "answerOk g r"
proof (rule execLoop_answers)
  show "memParams tp" using assms by (simp add: memParams_def)
  show "answerOk g (TG (NewGraphTraversal g))"
    using assms(4) by (auto simp: partOf_def NewGraphTraversal_def intro!: exI [of _ "h_env (g_world g)"])
  show "execLoop tp steps (TG (NewGraphTraversal g)) = Some (left, Inr r)" using assms(5) by (simp add: Sequence_Exec_def)
qed

definition sampleParams :: "MemoryBackend tparams" where
  "sampleParams = \<lparr>tp_backend = memoryBackend, tp_memory = (\<lambda>m. m), tp_compiles = (\<lambda>_. True), tp_isCIDR = (\<lambda>_. True),
     tp_hash = (\<lambda>_. Inr 0), tp_sort = (\<lambda>_ ns. ns), tp_now = 0, tp_parseTime = (\<lambda>_. None), tp_parseDuration = (\<lambda>_. None)\<rparr>"

text \<open>The nodes next to those with a large MTU, cut out as a graph.\<close>

definition neighbours :: "GremlinStep list" where
  "neighbours = [mkStep StepV [], mkStep StepHas [PString ''MTU'', Gt (PInt 1400)], mkStep StepBoth [], mkStep StepSubGraph []]"

fun graphOf :: "'c tstep \<Rightarrow> 'c GraphTraversal option" where
  "graphOf (TG t) = Some t"
| "graphOf _ = None"

theorem query_answers_within_witness:
  "\<exists>left t. Sequence_Exec sampleParams neighbours linkedGraph = Some (left, Inr (TG t)) \<and>
    graph_ok mem_inv memNodeRefs memEdgeRefs (tr_Graph t) \<and> nodesOf (tr_Graph t) \<subseteq> nodesOf linkedGraph \<and>
    map fst (mb_nodes (g_backend (tr_Graph t))) = [''b'']"
proof -
  have "case Sequence_Exec sampleParams neighbours linkedGraph of Some (_, Inr r) \<Rightarrow>
      map_option (\<lambda>t. map fst (mb_nodes (g_backend (tr_Graph t)))) (graphOf r) = Some [''b''] | _ \<Rightarrow> False" by code_simp
  then obtain left r where run: "Sequence_Exec sampleParams neighbours linkedGraph = Some (left, Inr r)"
    "map_option (\<lambda>t. map fst (mb_nodes (g_backend (tr_Graph t)))) (graphOf r) = Some [''b'']"
    by (cases "Sequence_Exec sampleParams neighbours linkedGraph"; cases "snd (the (Sequence_Exec sampleParams neighbours linkedGraph))") auto
  have "answerOk linkedGraph r"
    by (rule query_answers_within [OF _ _ _ linkedGraph_ok run(1)]) (simp_all add: sampleParams_def)
  with run show ?thesis by (cases r) (auto simp: partOf_def)
qed

end
