(* ===== verification/Gremlin_Query.thy ===== *)
theory Gremlin_Query
  imports Gremlin_Parser
begin

text \<open>
  The builder of Gremlin queries (\<^verbatim>\<open>src/gremlin/query.go\<close>, \<^verbatim>\<open>src/gremlin/value.go\<close>): a query is a string
  that grows by a step per call, and the values of a step are quoted strings, numbers and predicates.  The round trip through the
  parser is proved for the values the scanner can read.
\<close>

section \<open>Values\<close>

text \<open>The types of argument the builder accepts; a \<^verbatim>\<open>ValueString\<close> is taken as it is.\<close>

datatype argument = ArgValue string | ArgString string | ArgInt int | ArgBool bool

text \<open>\<^verbatim>\<open>json.Marshal\<close> of a string.\<close>

definition jsonEscape :: "char \<Rightarrow> string" where
  "jsonEscape c =
     (if c = CHR 0x22 \<or> c = CHR 0x5C then [CHR 0x5C, c]
      else if c = CHR 0x0A then [CHR 0x5C, CHR ''n'']
      else if c = CHR 0x0D then [CHR 0x5C, CHR ''r'']
      else if c = CHR 0x09 then [CHR 0x5C, CHR ''t'']
      else if of_char c < (32 :: nat) \<or> c \<in> set ''<>&'' then [CHR 0x5C] @ ''u00'' @ hexByte c
      else [c])"

definition Quote :: "string \<Rightarrow> string" where
  "Quote s = [CHR 0x22] @ concat (map jsonEscape s) @ [CHR 0x22]"

fun NewValueStringFromArgument :: "argument \<Rightarrow> string" where
  "NewValueStringFromArgument (ArgValue v) = v"
| "NewValueStringFromArgument (ArgString s) = Quote s"
| "NewValueStringFromArgument (ArgInt i) = Itoa i"
| "NewValueStringFromArgument (ArgBool b) = (if b then ''true'' else ''false'')"

text \<open>The arguments between parentheses, with a comma and a space between them.\<close>

definition newValueString :: "string \<Rightarrow> argument list \<Rightarrow> string" where
  "newValueString name list = name @ ''('' @ joinWith '', '' (map NewValueStringFromArgument list) @ '')''"

definition RegexValue :: "string \<Rightarrow> string" where
  "RegexValue s = ''Regex('' @ Quote s @ '')''"

definition DESC_value :: string where
  "DESC_value = ''DESC''"

definition BetweenValue :: "argument list \<Rightarrow> string" where
  "BetweenValue list = newValueString ''Between'' list"

definition GtValue :: "argument \<Rightarrow> string" where
  "GtValue v = newValueString ''Gt'' [v]"

definition GteValue :: "argument \<Rightarrow> string" where
  "GteValue v = newValueString ''Gte'' [v]"

definition Ipv4RangeValue :: "argument list \<Rightarrow> string" where
  "Ipv4RangeValue list = newValueString ''Ipv4Range'' list"

definition InsideValue :: "argument list \<Rightarrow> string" where
  "InsideValue list = newValueString ''Inside'' list"

definition LtValue :: "argument \<Rightarrow> string" where
  "LtValue v = newValueString ''Lt'' [v]"

definition LteValue :: "argument \<Rightarrow> string" where
  "LteValue v = newValueString ''Lte'' [v]"

definition MetadataValue :: "argument list \<Rightarrow> string" where
  "MetadataValue list = newValueString ''Metadata'' list"

definition NeValue :: "argument \<Rightarrow> string" where
  "NeValue v = newValueString ''Ne'' [v]"

definition WithinValue :: "argument list \<Rightarrow> string" where
  "WithinValue list = newValueString ''Within'' list"

section \<open>Queries\<close>

definition newQueryString :: "string \<Rightarrow> string \<Rightarrow> argument list \<Rightarrow> string" where
  "newQueryString q name list =
     q @ ''.'' @ name @ ''('' @ joinWith '', '' (map NewValueStringFromArgument list) @ '')''"

text \<open>
  The methods that append a step: all but \<^verbatim>\<open>Context\<close> hand their name and arguments to \<^verbatim>\<open>newQueryString\<close>.
\<close>

definition queryMethods :: "string list" where
  "queryMethods =
     [''Aggregates'', ''At'', ''Both'', ''BPF'', ''CaptureNode'', ''Count'', ''Values'', ''Dedup'', ''Flows'', ''Has'', ''HasKey'',
      ''Hops'', ''In'', ''InE'', ''InV'', ''BothE'', ''BothV'', ''Metrics'', ''Sum'', ''Nodes'', ''Out'', ''OutE'', ''OutV'',
      ''RawPackets'', ''ShortestPathTo'', ''Sort'', ''Sockets'', ''V'']"

text \<open>
  \<^verbatim>\<open>Context\<close>: times in milliseconds and integers; the first argument may be the text of a special value, and a
  zero time makes the query what it was.  Other arguments panic.
\<close>

datatype contextArg = CtxString string | CtxTime int | CtxInt int | CtxOther

fun contextLoop :: "contextArg list \<Rightarrow> bool \<Rightarrow> string \<Rightarrow> string option option" where
  "contextLoop [] first newQ = Some (Some (newQ @ '')''))"
| "contextLoop (v # list) first newQ =
     (let newQ' = (if first then newQ else newQ @ '', '') in
      case v of
        CtxString t \<Rightarrow>
          (let up = map upperChar t in
           if first \<and> (up = ''NOW'' \<or> up = ''FOREVER'') then contextLoop list False (newQ' @ up) else None)
      | CtxTime t \<Rightarrow> if t = - 62135596800000000000 then Some None else contextLoop list False (newQ' @ Itoa (UnixMillis t))
      | CtxInt i \<Rightarrow> contextLoop list False (newQ' @ Itoa i)
      | CtxOther \<Rightarrow> None)"

definition ContextQuery :: "string \<Rightarrow> contextArg list \<Rightarrow> string option" where
  "ContextQuery q list =
     map_option (\<lambda>r. case r of None \<Rightarrow> q | Some newQ \<Rightarrow> newQ) (contextLoop list True (q @ ''.Context(''))"

section \<open>Values that can be read back\<close>

text \<open>
  How a parameter is written with the builder.  It has no method for \<^verbatim>\<open>Without\<close>, \<^verbatim>\<open>Nee\<close>,
  \<^verbatim>\<open>Outside\<close>, ascending order and floats.
\<close>

fun argOf :: "param \<Rightarrow> argument" where
  "argOf (PString s) = ArgString s"
| "argOf (PInt i) = ArgInt i"
| "argOf (PBool b) = ArgBool b"
| "argOf (PMetadata m) = ArgValue (MetadataValue (concat (map (\<lambda>(k, v). [ArgString k, argOf v]) m)))"
| "argOf (Within ps) = ArgValue (WithinValue (map argOf ps))"
| "argOf (Ne p) = ArgValue (NeValue (argOf p))"
| "argOf (Lt p) = ArgValue (LtValue (argOf p))"
| "argOf (Gt p) = ArgValue (GtValue (argOf p))"
| "argOf (Lte p) = ArgValue (LteValue (argOf p))"
| "argOf (Gte p) = ArgValue (GteValue (argOf p))"
| "argOf (Inside p q) = ArgValue (InsideValue [argOf p, argOf q])"
| "argOf (Between p q) = ArgValue (BetweenValue [argOf p, argOf q])"
| "argOf (Regex s) = ArgValue (RegexValue s)"
| "argOf (IPV4Range p) = ArgValue (Ipv4RangeValue [argOf p])"
| "argOf (PSort _) = ArgValue DESC_value"
| "argOf _ = ArgValue []"

text \<open>Strings the scanner reads back: it ends at any quote, and has no escapes.\<close>

definition plainChar :: "char \<Rightarrow> bool" where
  "plainChar c \<longleftrightarrow> \<not> isString c \<and> jsonEscape c = [c]"

fun readable :: "param \<Rightarrow> bool" where
  "readable (PString s) = list_all plainChar s"
| "readable (PInt i) = (0 \<le> i \<and> i < 2 ^ 63)"
| "readable (PBool b) = True"
| "readable (PMetadata m) =
     (distinct (map fst m) \<and> list_all (\<lambda>(k, v). list_all plainChar k \<and> readable v) m)"
| "readable (Within ps) = list_all readable ps"
| "readable (Ne p) = readable p"
| "readable (Lt p) = readable p"
| "readable (Gt p) = readable p"
| "readable (Lte p) = readable p"
| "readable (Gte p) = readable p"
| "readable (Inside p q) = (readable p \<and> readable q)"
| "readable (Between p q) = (readable p \<and> readable q)"
| "readable (Regex s) = list_all plainChar s"
| "readable (IPV4Range p) = readable p"
| "readable (PSort ord) = (ord = SortDescending)"
| "readable _ = False"

abbreviation (input) paramText :: "param \<Rightarrow> string" where
  "paramText p \<equiv> NewValueStringFromArgument (argOf p)"

abbreviation (input) argsText :: "string list \<Rightarrow> string" where
  "argsText ws \<equiv> joinWith '', '' ws"

section \<open>Reading a value back\<close>

text \<open>A text that the loop over the parameters reads as \<open>p\<close>, whatever it has read before and finds after.\<close>

definition reading :: "string \<Rightarrow> param \<Rightarrow> bool" where
  "reading w p \<longleftrightarrow> w \<noteq> [] \<and> \<not> isWhitespace (hd w) \<and> hd w \<noteq> NUL \<and>
     (\<forall>t acc. breaks t \<longrightarrow> paramsLoop (w @ t) acc = paramsLoop t (acc @ [p]))"

lemma scan_space: "w \<noteq> [] \<Longrightarrow> \<not> isWhitespace (hd w) \<Longrightarrow> hd w \<noteq> NUL \<Longrightarrow>
    scanIgnoreWhitespace (CHR '' '' # w @ t) = scanIgnoreWhitespace (w @ t)"
  by (cases w) (simp_all add: scanIgnoreWhitespace.simps [of "CHR '' '' # x" for x] isWhitespace_def)

lemma paramsLoop_space: "reading w p \<Longrightarrow> paramsLoop (CHR '' '' # w @ t) acc = paramsLoop (w @ t) acc"
  unfolding reading_def by (subst (1 2) paramsLoop.simps) (simp add: scan_space)

lemma paramsLoop_comma: "paramsLoop (CHR '','' # t) acc = paramsLoop t acc"
  by (subst paramsLoop.simps) simp

lemma paramsLoop_close: "paramsLoop (CHR '')'' # t) acc = Some (Inr acc, t)"
  by (subst paramsLoop.simps) simp

lemma joinWith_Cons: "ws \<noteq> [] \<Longrightarrow> joinWith sep (w # ws) = w @ sep @ joinWith sep ws"
  by (cases ws) simp_all

lemma reading_list:
  "list_all2 reading ws ps \<Longrightarrow> paramsLoop (argsText ws @ CHR '')'' # t) acc = Some (Inr (acc @ ps), t)"
proof (induction ws ps arbitrary: acc rule: list_all2_induct)
  case (Cons w ws p ps)
  show ?case
  proof (cases ws)
    case Nil
    then show ?thesis using Cons by (simp add: reading_def paramsLoop_close)
  next
    case (Cons v vs)
    then obtain q qs where q: "reading v q" "ps = q # qs" using Cons.hyps(2) by (auto simp: list_all2_Cons1)
    obtain u where u: "argsText ws = v @ u" using Cons by (cases vs) simp_all
    have "paramsLoop (argsText (w # ws) @ CHR '')'' # t) acc = paramsLoop (CHR '' '' # v @ u @ CHR '')'' # t) (acc @ [p])"
      using Cons.hyps(1) Cons u by (simp add: joinWith_Cons reading_def paramsLoop_comma)
    also have "\<dots> = paramsLoop (argsText ws @ CHR '')'' # t) (acc @ [p])" using paramsLoop_space [OF q(1)] u by simp
    finally show ?thesis using Cons.IH by simp
  qed
qed (simp add: paramsLoop_close)

text \<open>A word that scans as a keyword.\<close>

definition isWord :: "string \<Rightarrow> Token \<Rightarrow> bool" where
  "isWord name tok \<longleftrightarrow> name \<noteq> [] \<and> isLetter (hd name) \<and> list_all (\<lambda>c. isLetter c \<or> isDigit c) (tl name) \<and>
     identToken (map upperChar name) = tok"

lemma isWord_scan: "isWord name tok \<Longrightarrow> breaks t \<Longrightarrow> scanIgnoreWhitespace (name @ t) = (tok, name, t)"
  using scan_word [of "hd name" "tl name" t tok] by (cases name) (simp_all add: isWord_def)

lemma isWord_head: "isWord name tok \<Longrightarrow> name \<noteq> [] \<and> \<not> isWhitespace (hd name) \<and> hd name \<noteq> NUL"
  by (auto simp: isWord_def isLetter_def isWhitespace_def less_eq_char_def)

lemma isWord_names:
  "isWord ''true'' TRUE" "isWord ''false'' FALSE" "isWord ''DESC'' DESC" "isWord ''Ne'' NE" "isWord ''Lt'' LT" "isWord ''Gt'' GT"
  "isWord ''Lte'' LTE" "isWord ''Gte'' GTE" "isWord ''Ipv4Range'' IPV4RANGE" "isWord ''Inside'' INSIDE"
  "isWord ''Between'' BETWEEN" "isWord ''Within'' WITHIN" "isWord ''Metadata'' METADATA" "isWord ''Regex'' REGEX"
  by code_simp+

lemma reading_predicate:
  assumes word: "isWord name tok" and tok: "isPredicate tok" and args: "list_all2 reading ws ps" and res: "predicate tok ps = Inr p"
  shows "reading (name @ ''('' @ argsText ws @ '')'') p"
  unfolding reading_def
proof (intro conjI allI impI)
  fix t acc
  assume "breaks t"
  have "scanIgnoreWhitespace (name @ CHR ''('' # argsText ws @ CHR '')'' # t) = (tok, name, CHR ''('' # argsText ws @ CHR '')'' # t)"
    using isWord_scan [OF word, of "CHR ''('' # argsText ws @ CHR '')'' # t"] by simp
  moreover have "tok \<notin> {RIGHTPARENTHESIS, EOF, COMMA, NUMBER, STRING}" using tok by (auto simp: isPredicate_def)
  ultimately show "paramsLoop ((name @ ''('' @ argsText ws @ '')'') @ t) acc = paramsLoop t (acc @ [p])"
    using tok res reading_list [OF args, of t "[]"] by (subst paramsLoop.simps) simp
qed (use isWord_head [OF word] in simp_all)

text \<open>Single tokens.\<close>

lemma Quote_plain: "list_all plainChar s \<Longrightarrow> Quote s = CHR 0x22 # s @ [CHR 0x22]"
  by (induction s) (auto simp: Quote_def plainChar_def)

lemma plainChar_scans: "plainChar c \<Longrightarrow> \<not> isString c \<and> c \<noteq> NUL"
  by (auto simp: plainChar_def jsonEscape_def)

lemma reading_string:
  assumes "list_all plainChar s"
  shows "reading (Quote s) (PString s)"
proof -
  have "list_all (\<lambda>c. \<not> isString c \<and> c \<noteq> NUL) s" using assms plainChar_scans by (simp add: list_all_iff)
  then have "scanIgnoreWhitespace (Quote s @ t) = (STRING, s, t)" for t
    using scan_quoted [of s t] assms by (simp add: Quote_plain)
  then have "paramsLoop (Quote s @ t) acc = paramsLoop t (acc @ [PString s])" for t acc
    by (subst paramsLoop.simps) simp
  then show ?thesis using assms by (simp add: reading_def Quote_plain isWhitespace_def)
qed

lemma dig_is_digit: "d < 10 \<Longrightarrow> is_digit (dig d)"
proof -
  assume "d < 10"
  then have "d = 0 \<or> d = 1 \<or> d = 2 \<or> d = 3 \<or> d = 4 \<or> d = 5 \<or> d = 6 \<or> d = 7 \<or> d = 8 \<or> d = 9" by arith
  then show ?thesis by (elim disjE) (simp_all add: dig_def hexDigit_def is_digit_def)
qed

lemma dec_is_digit: "list_all is_digit (dec n)"
proof (induction n rule: less_induct)
  case (less n)
  show ?case using less [of "n div 10"] by (subst dec_snoc) (simp add: pre_def dig_is_digit)
qed

lemma digit_heads: "digits (c # w) \<Longrightarrow> c \<noteq> CHR ''-'' \<and> c \<noteq> CHR ''+'' \<and> \<not> isWhitespace c \<and> c \<noteq> NUL"
  by (auto simp: less_eq_char_def isWhitespace_def)

lemma reading_number:
  assumes "0 \<le> i" "i < 2 ^ 63"
  shows "reading (Itoa i) (PInt i)"
proof -
  obtain n where n: "i = int n" using assms(1) nonneg_int_cases by blast
  obtain c w where cw: "dec n = c # w" using dec_nonempty(1) by (cases "dec n") auto
  have heads: "c \<noteq> CHR ''-''" "c \<noteq> CHR ''+''" "\<not> isWhitespace c" "c \<noteq> NUL"
    using digit_heads [of c w] dec_digits [of n] cw by simp_all
  have "digits_value (c # w) = i" "list_all is_digit (c # w)"
    using digits_value_dec [of n] dec_is_digit [of n] n by (simp_all only: cw)
  then have num: "numberParam (dec n) = Some (PInt i)"
    using assms heads by (simp add: numberParam_def ParseInt_def cw is_int64_def)
  have "list_all isDigit (dec n)" using dec_digits [of n] by (simp add: isDigit_def list_all_iff)
  then have "scanIgnoreWhitespace (dec n @ t) = (NUMBER, dec n, t)" if "breaks t" for t
    using scan_digits that by simp
  then have "paramsLoop (dec n @ t) acc = paramsLoop t (acc @ [PInt i])" if "breaks t" for t acc
    using num that by (subst paramsLoop.simps) simp
  then show ?thesis using heads(3,4) cw n by (simp add: reading_def Itoa_def)
qed

lemma reading_word:
  assumes word: "isWord name tok" and tok: "\<not> isPredicate tok" "literalParam tok = Some p"
  shows "reading name p"
  unfolding reading_def
proof (intro conjI allI impI)
  fix t acc
  assume "breaks t"
  then have "scanIgnoreWhitespace (name @ t) = (tok, name, t)" by (rule isWord_scan [OF word])
  moreover have "tok \<notin> {RIGHTPARENTHESIS, EOF, COMMA, NUMBER, STRING}" using tok(2) by (auto simp: literalParam_def)
  ultimately show "paramsLoop (name @ t) acc = paramsLoop t (acc @ [p])" using tok by (subst paramsLoop.simps) simp
qed (use isWord_head [OF word] in simp_all)

lemma reading_bool: "reading (if b then ''true'' else ''false'') (PBool b)"
  by (cases b) (auto intro: reading_word isWord_names simp: isPredicate_def literalParam_def)

lemma reading_DESC: "reading DESC_value (PSort SortDescending)"
  unfolding DESC_value_def by (rule reading_word) (auto intro: isWord_names simp: isPredicate_def literalParam_def)

text \<open>Predicates.\<close>

lemmas predicate_simps = isPredicate_def predicate_def one_def two_def

lemma reading_one:
  assumes "reading w p"
  shows "reading (''Ne'' @ ''('' @ argsText [w] @ '')'') (Ne p)" "reading (''Lt'' @ ''('' @ argsText [w] @ '')'') (Lt p)"
    "reading (''Gt'' @ ''('' @ argsText [w] @ '')'') (Gt p)" "reading (''Lte'' @ ''('' @ argsText [w] @ '')'') (Lte p)"
    "reading (''Gte'' @ ''('' @ argsText [w] @ '')'') (Gte p)"
    "reading (''Ipv4Range'' @ ''('' @ argsText [w] @ '')'') (IPV4Range p)"
  using assms
  by (auto intro!: reading_predicate [where ps = "[p]"] isWord_names simp: predicate_simps simp del: append.simps joinWith.simps)

lemma reading_two:
  assumes "reading v p" "reading w q"
  shows "reading (''Inside'' @ ''('' @ argsText [v, w] @ '')'') (Inside p q)"
    "reading (''Between'' @ ''('' @ argsText [v, w] @ '')'') (Between p q)"
  using assms
  by (auto intro!: reading_predicate [where ps = "[p, q]"] isWord_names simp: predicate_simps simp del: append.simps joinWith.simps)

lemma AList_update_fresh: "k \<notin> set (map fst m) \<Longrightarrow> gm_set k v m = m @ [(k, v)]"
  by (induction m) auto

lemma paramsToMetadata_pairs:
  "distinct (map fst (acc @ m)) \<Longrightarrow> paramsToMetadata (concat (map (\<lambda>(k, v). [PString k, v]) m)) acc = Inr (acc @ m)"
proof (induction m arbitrary: acc)
  case (Cons e m)
  then show ?case using Cons.IH [of "acc @ [e]"] by (cases e) (simp add: AList_update_fresh)
qed simp

lemma length_pairs: "length (concat (map (\<lambda>(k, v). [PString k, v]) m)) mod 2 = 0"
  by (induction m) auto

lemma predicate_metadata:
  "distinct (map fst m) \<Longrightarrow> predicate METADATA (concat (map (\<lambda>(k, v). [PString k, v]) m)) = Inr (PMetadata m)"
  using length_pairs [of m] paramsToMetadata_pairs [of "[]" m] unfolding predicate_def by simp

lemma reading_pairs:
  "list_all (\<lambda>(k, v). list_all plainChar k \<and> reading (paramText v) v) m \<Longrightarrow>
   list_all2 reading (map NewValueStringFromArgument (concat (map (\<lambda>(k, v). [ArgString k, argOf v]) m)))
     (concat (map (\<lambda>(k, v). [PString k, v]) m))"
  by (induction m) (auto simp: reading_string)

lemma reading_param: "readable p \<Longrightarrow> reading (paramText p) p"
proof (induction p)
  case (PMetadata m)
  have "list_all (\<lambda>(k, v). list_all plainChar k \<and> reading (paramText v) v) m"
    using PMetadata by (fastforce simp: list_all_iff)
  from reading_pairs [OF this] have "reading (''Metadata'' @ ''('' @
      argsText (map NewValueStringFromArgument (concat (map (\<lambda>(k, v). [ArgString k, argOf v]) m))) @ '')'') (PMetadata m)"
    using PMetadata.prems
    by (intro reading_predicate [OF isWord_names(13) _ _ predicate_metadata]) (simp_all add: isPredicate_def)
  then show ?case by (simp only: argOf.simps MetadataValue_def newValueString_def NewValueStringFromArgument.simps)
next
  case (Within ps)
  then have "list_all2 reading (map NewValueStringFromArgument (map argOf ps)) ps"
    by (simp add: list_all2_map1 list.rel_refl_strong list_all_iff list_all2_same)
  then have "reading (''Within'' @ ''('' @ argsText (map NewValueStringFromArgument (map argOf ps)) @ '')'') (Within ps)"
    by (intro reading_predicate [OF isWord_names(12), where ps = ps]) (simp_all add: predicate_simps)
  then show ?case by (simp only: argOf.simps WithinValue_def newValueString_def NewValueStringFromArgument.simps)
next
  case (Regex s)
  then have "list_all2 reading [Quote s] [PString s]" using reading_string by simp
  then have "reading (''Regex'' @ ''('' @ argsText [Quote s] @ '')'') (Regex s)"
    by (intro reading_predicate [OF isWord_names(14), where ps = "[PString s]"]) (simp_all add: predicate_simps)
  then show ?case by (simp add: RegexValue_def)
qed (simp_all add: reading_string reading_number reading_bool reading_DESC NeValue_def LtValue_def GtValue_def LteValue_def
    GteValue_def Ipv4RangeValue_def InsideValue_def BetweenValue_def newValueString_def reading_one [simplified] reading_two [simplified])

section \<open>Reading a query back\<close>

text \<open>
  Calls of the builder: of a method that hands its name to \<^verbatim>\<open>newQueryString\<close>, or of \<^verbatim>\<open>Context\<close>.
  \<open>None\<close> is a panic of the builder.
\<close>

datatype call = Call string "param list" | ContextCall "contextArg list"

fun buildCalls :: "call list \<Rightarrow> string \<Rightarrow> string option" where
  "buildCalls [] q = Some q"
| "buildCalls (Call name ps # calls) q = buildCalls calls (newQueryString q name (map argOf ps))"
| "buildCalls (ContextCall cs # calls) q = Option.bind (ContextQuery q cs) (buildCalls calls)"

text \<open>
  The steps a caller asks for, written out without the tables of the scanner and the parser.  The other methods of the builder
  make steps of extensions, which the parser without extensions does not know.
\<close>

definition methodSteps :: "(string \<times> stepKind) list" where
  "methodSteps =
     [(''V'', StepV), (''Has'', StepHas), (''HasKey'', StepHasKey), (''In'', StepIn), (''Out'', StepOut), (''Both'', StepBoth),
      (''InE'', StepInE), (''OutE'', StepOutE), (''BothE'', StepBothE), (''InV'', StepInV), (''OutV'', StepOutV),
      (''BothV'', StepBothV), (''ShortestPathTo'', StepShortestPathTo), (''Dedup'', StepDedup), (''Count'', StepCount),
      (''Sum'', StepSum), (''Values'', StepValues), (''Sort'', StepSort), (''At'', StepContext)]"

text \<open>Which parameters a step may have.\<close>

fun paramsFit :: "stepKind \<Rightarrow> param list \<Rightarrow> bool" where
  "paramsFit StepV ps \<longleftrightarrow> (case ps of [] \<Rightarrow> True | [p] \<Rightarrow> isPString p | _ \<Rightarrow> False)"
| "paramsFit StepHasKey ps \<longleftrightarrow> (case ps of [p] \<Rightarrow> isPString p | _ \<Rightarrow> False)"
| "paramsFit StepValues ps \<longleftrightarrow> (case ps of [p] \<Rightarrow> isPString p | _ \<Rightarrow> False)"
| "paramsFit StepShortestPathTo ps \<longleftrightarrow> (case ps of [p] \<Rightarrow> True | [p, q] \<Rightarrow> True | _ \<Rightarrow> False)"
| "paramsFit StepDedup ps \<longleftrightarrow> list_all isPString ps"
| "paramsFit StepCount ps \<longleftrightarrow> ps = []"
| "paramsFit StepSort ps \<longleftrightarrow> (case ps of [] \<Rightarrow> True | [p] \<Rightarrow> isPString p | [p, q] \<Rightarrow> isPSort p \<and> isPString q | _ \<Rightarrow> False)"
| "paramsFit _ ps \<longleftrightarrow> True"

text \<open>Sorting by a key alone is ascending.\<close>

fun askedParams :: "stepKind \<Rightarrow> param list \<Rightarrow> param list" where
  "askedParams StepSort [p] = [PSort SortAscending, p]"
| "askedParams _ ps = ps"

definition askedStep :: "stepKind \<Rightarrow> param list \<Rightarrow> GremlinStep" where
  "askedStep k ps = \<lparr>kind = k, PaginationRange = None, Params = askedParams k ps\<rparr>"

definition zeroTime :: contextArg where
  "zeroTime = CtxTime (- 62135596800000000000)"

fun contextParam :: "contextArg \<Rightarrow> param" where
  "contextParam (CtxString t) = (if map upperChar t = ''NOW'' then NowPredicate else ForeverPredicate)"
| "contextParam (CtxTime t) = PInt (UnixMillis t)"
| "contextParam (CtxInt i) = PInt i"
| "contextParam CtxOther = PInt 0"

text \<open>A zero time among the arguments of \<^verbatim>\<open>Context\<close> means no step at all.\<close>

fun askedSteps :: "call \<Rightarrow> GremlinStep list" where
  "askedSteps (Call name ps) = (case map_of methodSteps name of Some k \<Rightarrow> [askedStep k ps] | None \<Rightarrow> [])"
| "askedSteps (ContextCall cs) = (if zeroTime \<in> set cs then [] else [askedStep StepContext (map contextParam cs)])"

fun callFits :: "call \<Rightarrow> bool" where
  "callFits (Call name ps) = (case map_of methodSteps name of Some k \<Rightarrow> paramsFit k ps | None \<Rightarrow> False)"
| "callFits (ContextCall cs) = True"

text \<open>Calls whose arguments the scanner can read: integers and times that are not negative, and a special value as the first.\<close>

fun specialContext :: "contextArg \<Rightarrow> bool" where
  "specialContext (CtxString t) = (map upperChar t = ''NOW'' \<or> map upperChar t = ''FOREVER'')"
| "specialContext _ = False"

fun numericContext :: "contextArg \<Rightarrow> bool" where
  "numericContext (CtxTime t) = (CtxTime t = zeroTime \<or> 0 \<le> UnixMillis t \<and> UnixMillis t < 2 ^ 63)"
| "numericContext (CtxInt i) = (0 \<le> i \<and> i < 2 ^ 63)"
| "numericContext _ = False"

fun callReadable :: "call \<Rightarrow> bool" where
  "callReadable (Call name ps) = (name \<in> set queryMethods \<and> list_all readable ps)"
| "callReadable (ContextCall []) = True"
| "callReadable (ContextCall (c # cs)) = ((specialContext c \<or> numericContext c) \<and> list_all numericContext cs)"

subsection \<open>Methods\<close>

lemma queryMethods_words: "name \<in> set queryMethods \<Longrightarrow> isWord name (identToken (map upperChar name))"
proof -
  have "list_all (\<lambda>name. name \<noteq> [] \<and> isLetter (hd name) \<and> list_all (\<lambda>c. isLetter c \<or> isDigit c) (tl name)) queryMethods"
    by code_simp
  then show "name \<in> set queryMethods \<Longrightarrow> isWord name (identToken (map upperChar name))" by (simp add: list_all_iff isWord_def)
qed

lemma extension_words: "name \<in> set queryMethods \<Longrightarrow> map_of methodSteps name = None \<Longrightarrow> identToken (map upperChar name) = IDENT"
proof -
  have "list_all (\<lambda>name. map_of methodSteps name = None \<longrightarrow> identToken (map upperChar name) = IDENT) queryMethods" by code_simp
  then show "name \<in> set queryMethods \<Longrightarrow> map_of methodSteps name = None \<Longrightarrow> identToken (map upperChar name) = IDENT"
    by (simp add: list_all_iff)
qed

text \<open>The token under which the parser makes the step of a kind.\<close>

definition kindTokens :: "(stepKind \<times> Token) list" where
  "kindTokens =
     [(StepV, TokV), (StepHas, HAS), (StepHasKey, HASKEY), (StepIn, IN_tok), (StepOut, OUT), (StepBoth, BOTH), (StepInE, INE),
      (StepOutE, OUTE), (StepBothE, BOTHE), (StepInV, INV), (StepOutV, OUTV), (StepBothV, BOTHV),
      (StepShortestPathTo, SHORTESTPATHTO), (StepDedup, DEDUP), (StepCount, COUNT), (StepSum, SUM_tok), (StepValues, VALUES),
      (StepSort, SORT), (StepContext, CONTEXT)]"

lemma method_tokens:
  "list_all (\<lambda>(name, k). map_of kindTokens k = Some (identToken (map upperChar name)) \<and>
     identToken (map upperChar name) \<notin> {IDENT, TokG}) methodSteps"
  by code_simp

lemma param_cases:
  "(case ps of [] \<Rightarrow> False | [p] \<Rightarrow> P p | p # q # rs \<Rightarrow> False) \<longleftrightarrow> length ps = 1 \<and> P (ps ! 0)"
  "(case ps of [] \<Rightarrow> True | [p] \<Rightarrow> P p | p # q # rs \<Rightarrow> False) \<longleftrightarrow> ps = [] \<or> length ps = 1 \<and> P (ps ! 0)"
  "(case ps of [] \<Rightarrow> False | [p] \<Rightarrow> True | [p, q] \<Rightarrow> True | p # q # r # rs \<Rightarrow> False) \<longleftrightarrow> length ps \<noteq> 0 \<and> length ps \<le> 2"
  by (simp_all split: list.split)

lemma stepOf_sort:
  "stepOf SORT lit ps = (if paramsFit StepSort ps then Inr (askedStep StepSort ps) else Inl (BadStepParams SORT))"
  by (cases "(StepSort, ps)" rule: askedParams.cases)
    (simp_all add: stepOf_def check_def askedStep_def mkStep_def split: list.split)

lemma stepOf_fits:
  assumes "map_of kindTokens k = Some tok"
  shows "stepOf tok lit ps = (if paramsFit k ps then Inr (askedStep k ps) else Inl (BadStepParams tok))"
proof (cases "k = StepSort")
  case True
  then have "tok = SORT" using assms by (simp add: kindTokens_def)
  then show ?thesis using True by (simp only: stepOf_sort)
next
  case False
  then have "askedStep k ps = mkStep k ps" by (cases k) (simp_all add: askedStep_def mkStep_def)
  moreover have "(k, tok) \<in> set kindTokens" using assms by (rule map_of_SomeD)
  ultimately show ?thesis using False unfolding kindTokens_def set_simps insert_iff empty_iff prod.inject
    by (elim disjE conjE; simp only: paramsFit.simps param_cases; simp add: stepOf_def check_def freeSteps_def)
qed

lemma parserStep_call:
  assumes "name \<in> set queryMethods" "list_all readable ps"
  shows "\<exists>res t'. parserStep (name @ CHR ''('' # argsText (map NewValueStringFromArgument (map argOf ps)) @ CHR '')'' # t) = Some (res, t') \<and>
    (if callFits (Call name ps) then \<exists>step. askedSteps (Call name ps) = [step] \<and> res = Inr step \<and> t' = t else \<exists>err. res = Inl err)"
proof -
  let ?args = "argsText (map NewValueStringFromArgument (map argOf ps))" and ?tok = "identToken (map upperChar name)"
  note scan = isWord_scan [OF queryMethods_words [OF assms(1)], of "CHR ''('' # ?args @ CHR '')'' # t", simplified]
  have "list_all2 reading (map NewValueStringFromArgument (map argOf ps)) ps"
    using assms(2) reading_param by (simp add: list_all2_map1 list_all_iff list_all2_same)
  note args = reading_list [OF this, of t "[]", simplified]
  show ?thesis
  proof (cases "map_of methodSteps name")
    case None
    then show ?thesis using scan extension_words [OF assms(1)] by (simp add: parserStep_def)
  next
    case (Some k)
    then have tok: "map_of kindTokens k = Some ?tok" "?tok \<noteq> IDENT" "?tok \<noteq> TokG"
      using method_tokens map_of_SomeD [OF Some] by (auto simp: list_all_iff)
    then show ?thesis using scan args Some by (simp add: parserStep_def parseStepParams_def stepOf_fits [OF tok(1)])
  qed
qed

subsection \<open>Contexts\<close>

fun contextText :: "contextArg \<Rightarrow> string" where
  "contextText (CtxString t) = map upperChar t"
| "contextText (CtxTime t) = Itoa (UnixMillis t)"
| "contextText (CtxInt i) = Itoa i"
| "contextText CtxOther = []"

lemma isWord_context: "isWord ''NOW'' NOW" "isWord ''FOREVER'' FOREVER" "isWord ''Context'' CONTEXT"
  by code_simp+

lemma reading_special: "reading ''NOW'' NowPredicate" "reading ''FOREVER'' ForeverPredicate"
  using isWord_context(1,2) by (auto intro!: reading_word simp: isPredicate_def literalParam_def)

lemma reading_context:
  assumes "specialContext c \<or> numericContext c" "c \<noteq> zeroTime"
  shows "reading (contextText c) (contextParam c)"
proof (cases c)
  case (CtxString t)
  then have "map upperChar t = ''NOW'' \<or> map upperChar t = ''FOREVER''" using assms(1) by simp
  then show ?thesis unfolding CtxString contextText.simps contextParam.simps by (elim disjE) (simp_all only: reading_special, simp_all add: reading_special)
qed (use assms in \<open>auto intro: reading_number\<close>)

lemma contextLoop_numbers:
  assumes "list_all numericContext cs"
  shows "contextLoop cs False q = Some (if zeroTime \<in> set cs then None
    else Some (q @ concat (map (\<lambda>c. '', '' @ contextText c) cs) @ '')''))"
  using assms
proof (induction cs arbitrary: q)
  case (Cons c cs)
  then show ?case by (cases c) (auto simp: zeroTime_def Let_def)
qed simp

lemma joinWith_tail: "joinWith sep (w # ws) = w @ concat (map (\<lambda>w. sep @ w) ws)"
  by (induction ws arbitrary: w) simp_all

lemma ContextQuery_text:
  assumes "callReadable (ContextCall cs)"
  shows "ContextQuery q cs = Some (if zeroTime \<in> set cs then q else q @ ''.Context('' @ argsText (map contextText cs) @ '')'')"
proof (cases cs)
  case (Cons c ds)
  then have "specialContext c \<or> numericContext c" "list_all numericContext ds" using assms by simp_all
  then show ?thesis
    using contextLoop_numbers [of ds] unfolding Cons joinWith_tail list.map
    by (cases c) (auto simp: ContextQuery_def zeroTime_def Let_def comp_def)
qed (simp add: ContextQuery_def)

lemma parserStep_context:
  assumes "callReadable (ContextCall cs)" "zeroTime \<notin> set cs"
  shows "parserStep (''Context('' @ argsText (map contextText cs) @ CHR '')'' # t) =
    Some (Inr (askedStep StepContext (map contextParam cs)), t)"
proof -
  have "list_all (\<lambda>c. specialContext c \<or> numericContext c) cs"
    using assms(1) by (cases cs) (auto simp: list_all_iff)
  then have "list_all2 reading (map contextText cs) (map contextParam cs)"
    using assms(2) reading_context by (auto simp: list_all2_map1 list_all2_map2 list_all_iff list_all2_same)
  note args = reading_list [OF this, of t "[]", simplified]
  note scan = isWord_scan [OF isWord_context(3), of "CHR ''('' # argsText (map contextText cs) @ CHR '')'' # t", simplified]
  show ?thesis using scan args by (simp add: parserStep_def parseStepParams_def stepOf_def askedStep_def mkStep_def freeSteps_def)
qed

subsection \<open>Queries\<close>

text \<open>What the calls append to a query.\<close>

fun callText :: "call \<Rightarrow> string" where
  "callText (Call name ps) = newQueryString [] name (map argOf ps)"
| "callText (ContextCall cs) = (if zeroTime \<in> set cs then [] else ''.Context('' @ argsText (map contextText cs) @ '')'')"

lemma buildCalls_text: "list_all callReadable calls \<Longrightarrow> buildCalls calls q = Some (q @ concat (map callText calls))"
proof (induction calls arbitrary: q)
  case (Cons c calls)
  then show ?case
  proof (cases c)
    case (ContextCall cs)
    then have "callReadable (ContextCall cs)" using Cons.prems by simp
    from ContextQuery_text [OF this] show ?thesis using ContextCall Cons by simp
  qed (simp add: newQueryString_def)
qed simp

lemma stepsLoop_dot:
  "parserStep s = Some (Inr step, t) \<Longrightarrow> stepsLoop (CHR ''.'' # s) steps = stepsLoop t (steps @ [step])"
  "parserStep s = Some (Inl err, t) \<Longrightarrow> stepsLoop (CHR ''.'' # s) steps = Some (Inl err)"
  by (subst stepsLoop.simps, simp)+

lemma stepsLoop_calls:
  "list_all callReadable calls \<Longrightarrow>
   if list_all callFits calls then stepsLoop (concat (map callText calls)) steps = Some (Inr (steps @ concat (map askedSteps calls)))
   else \<exists>err. stepsLoop (concat (map callText calls)) steps = Some (Inl err)"
proof (induction calls arbitrary: steps)
  case Nil
  show ?case by (simp add: stepsLoop.simps)
next
  case (Cons c calls)
  let ?rest = "concat (map callText calls)"
  show ?case
  proof (cases c)
    case (Call name ps)
    let ?s = "name @ CHR ''('' # argsText (map NewValueStringFromArgument (map argOf ps)) @ CHR '')'' # ?rest"
    have tx: "concat (map callText (c # calls)) = CHR ''.'' # ?s" by (simp add: Call newQueryString_def)
    from parserStep_call [of name ps ?rest] Cons.prems Call obtain res t' where step: "parserStep ?s = Some (res, t')"
      "if callFits c then \<exists>step. askedSteps c = [step] \<and> res = Inr step \<and> t' = ?rest else \<exists>err. res = Inl err" by auto
    show ?thesis
    proof (cases "callFits c")
      case True
      with step(2) obtain st where st: "askedSteps c = [st]" "res = Inr st" "t' = ?rest" by auto
      have "stepsLoop (CHR ''.'' # ?s) steps = stepsLoop ?rest (steps @ [st])"
        using step(1) unfolding st(2,3) by (rule stepsLoop_dot(1))
      then show ?thesis using Cons.IH [of "steps @ [st]"] Cons.prems True st(1) unfolding tx by simp
    next
      case False
      with step(2) obtain err where err: "res = Inl err" by auto
      have "stepsLoop (CHR ''.'' # ?s) steps = Some (Inl err)" using step(1) unfolding err by (rule stepsLoop_dot(2))
      then show ?thesis using False unfolding tx by simp
    qed
  next
    case (ContextCall cs)
    show ?thesis
    proof (cases "zeroTime \<in> set cs")
      case True
      then show ?thesis using Cons ContextCall by simp
    next
      case False
      let ?s = "''Context('' @ argsText (map contextText cs) @ CHR '')'' # ?rest" and ?st = "askedStep StepContext (map contextParam cs)"
      have tx: "concat (map callText (c # calls)) = CHR ''.'' # ?s" using False by (simp add: ContextCall)
      have "parserStep ?s = Some (Inr ?st, ?rest)" using Cons.prems False by (intro parserStep_context) (simp_all add: ContextCall)
      then have "stepsLoop (CHR ''.'' # ?s) steps = stepsLoop ?rest (steps @ [?st])" by (rule stepsLoop_dot(1))
      then show ?thesis using Cons.IH [of "steps @ [?st]"] Cons.prems False unfolding tx by (simp add: ContextCall)
    qed
  qed
qed

lemma scan_G: "t = [] \<or> hd t = CHR ''.'' \<Longrightarrow> scanIgnoreWhitespace (CHR ''G'' # t) = (TokG, ''G'', t)"
proof -
  assume t: "t = [] \<or> hd t = CHR ''.''"
  have "isWord ''G'' TokG" "\<not> isWhitespace (CHR ''G'')" "\<not> isDigit (CHR ''G'')" "\<not> isString (CHR ''G'')"
    "\<not> isLetter (CHR ''.'')" "\<not> isDigit (CHR ''.'')" by code_simp+
  then show ?thesis using t by (cases t) (auto simp: scanIgnoreWhitespace.simps scanIdent_def isWord_def)
qed

lemma calls_dot: "concat (map callText calls) = [] \<or> hd (concat (map callText calls)) = CHR ''.''"
proof (induction calls)
  case (Cons c calls)
  then show ?case by (cases c) (simp_all add: newQueryString_def)
qed simp

lemma Parse_calls:
  assumes "list_all callReadable calls"
  shows "\<exists>tx. buildCalls calls ''G'' = Some tx \<and>
    (if list_all callFits calls then Parse tx = Some (Inr (concat (map askedSteps calls))) else \<exists>err. Parse tx = Some (Inl err))"
  using buildCalls_text [OF assms, of "''G''"] stepsLoop_calls [OF assms, of "[]"] scan_G [OF calls_dot [of calls]]
  by (simp add: Parse_def)

end
