(* ===== verification/Gremlin_Reduce.thy ===== *)
theory Gremlin_Reduce
  imports Gremlin_Exec
begin

text \<open>
  What the execution of a query means: running the steps one by one.  The sections are the slices the iterators take, the
  backends whose filters select from what they return without one, and the two ways a step absorbs the next.
\<close>

section \<open>Slices\<close>

fun rangeSlice :: "(int \<times> int) option \<Rightarrow> 'a list \<Rightarrow> 'a list" where
  "rangeSlice None xs = xs"
| "rangeSlice (Some (from, to)) xs = drop (nat from) (take (nat to) xs)"

definition iter :: "nat \<Rightarrow> nat \<Rightarrow> nat \<Rightarrow> Iterator" where
  "iter a f t = \<lparr>it_at = int a, it_from = int f, it_to = int t\<rparr>"

definition endless :: "nat \<Rightarrow> Iterator" where
  "endless a = \<lparr>it_at = int a, it_from = 0, it_to = - 1\<rparr>"

lemma iter_steps [simp]:
  "Done (iter a f t) \<longleftrightarrow> t \<le> a" "Next (iter a f t) = (iter (Suc a) f t, f \<le> a)"
  "\<not> Done (endless a)" "Next (endless a) = (endless (Suc a), True)"
  by (simp_all add: iter_def endless_def Done_def Next_def)

lemma rangeIterator_iter:
  "rangeIterator None = endless 0" "0 \<le> f \<Longrightarrow> 0 \<le> t \<Longrightarrow> rangeIterator (Some (f, t)) = iter 0 (nat f) (nat t)"
  by (simp_all add: rangeIterator_def iter_def endless_def)

lemma iterate_iter:
  "iterate (iter a f t) xs = (iter (a + min (length xs) (t - a)) f t, drop (f - a) (take (t - a) xs), t - a < length xs)"
proof (induction xs arbitrary: a)
  case (Cons x xs)
  show ?case
  proof (cases "t \<le> a")
    case False
    then have t: "t - a = Suc (t - Suc a)" by simp
    show ?thesis
    proof (cases "f \<le> a")
      case False
      then have "f - a = Suc (f - Suc a)" by simp
      then show ?thesis using t Cons.IH [of "Suc a"] \<open>\<not> t \<le> a\<close> False by simp
    qed (use t Cons.IH [of "Suc a"] \<open>\<not> t \<le> a\<close> in simp)
  qed simp
qed simp

lemma iterate_endless: "iterate (endless a) xs = (endless (a + length xs), xs, False)"
proof (induction xs arbitrary: a)
  case (Cons x xs)
  then show ?case by simp
qed simp

lemma filterLoop_iter: "filterLoop p (iter a f t) xs = drop (f - a) (take (t - a) (filter p xs))"
proof (induction xs arbitrary: a)
  case (Cons x xs)
  show ?case
  proof (cases "t \<le> a")
    case False
    then have t: "t - a = Suc (t - Suc a)" by simp
    show ?thesis
    proof (cases "f \<le> a")
      case False
      then have "f - a = Suc (f - Suc a)" by simp
      then show ?thesis using t Cons.IH [of "Suc a"] Cons.IH [of a] \<open>\<not> t \<le> a\<close> False by simp
    qed (use t Cons.IH [of "Suc a"] Cons.IH [of a] \<open>\<not> t \<le> a\<close> in simp)
  qed simp
qed simp

lemma filterLoop_endless: "filterLoop p (endless a) xs = filter p xs"
  by (induction xs arbitrary: a) simp_all

lemma pagedLoop_endless: "pagedLoop F (endless a) xs = map_option concat (those (map F xs))"
proof (induction xs arbitrary: a)
  case (Cons x xs)
  show ?case by (cases "F x"; cases "those (map F xs)") (simp_all add: iterate_endless Cons.IH)
qed simp

lemma pagedInner_endless: "pagedInner F (endless a) xs = map_option concat (those (map F xs))"
proof (induction xs arbitrary: a)
  case (Cons x xs)
  show ?case by (cases "F x"; cases "those (map F xs)") (simp_all add: iterate_endless Cons.IH)
qed simp

lemma those_Cons_Some: "those (y # ys) = Some zs \<longleftrightarrow> (\<exists>v vs. y = Some v \<and> those ys = Some vs \<and> zs = v # vs)"
  by (auto split: option.splits)

lemma pagedLoop_iter:
  "those (map F xs) = Some yss \<Longrightarrow> pagedLoop F (iter a f t) xs = Some (drop (f - a) (take (t - a) (concat yss)))"
proof (induction xs arbitrary: a yss)
  case (Cons x xs)
  then obtain ys zss where y: "F x = Some ys" "those (map F xs) = Some zss" "yss = ys # zss"
    by (auto simp: those_Cons_Some split: option.splits)
  have "f - (a + length ys) = f - a - length ys" "t - (a + length ys) = t - a - length ys" by simp_all
  then show ?case
    using Cons.IH [OF y(2), of "a + length ys"] y
    by (auto simp: iterate_iter min_def not_less take_all_iff)
qed simp

lemma pagedInner_iter:
  "those (map F xs) = Some yss \<Longrightarrow> pagedInner F (iter a f t) xs = Some (drop (f - a) (take (t - a) (concat yss)))"
proof (induction xs arbitrary: a yss)
  case (Cons x xs)
  then obtain ys zss where y: "F x = Some ys" "those (map F xs) = Some zss" "yss = ys # zss"
    by (auto simp: those_Cons_Some split: option.splits)
  let ?b = "a + min (length ys) (t - a)"
  have "drop (f - ?b) (take (t - ?b) (concat zss)) =
      drop (f - a - length ys) (take (t - a - length ys) (concat zss))"
    by (cases "length ys \<le> t - a") simp_all
  then show ?case using Cons.IH [OF y(2), of ?b] y by (simp add: iterate_iter drop_take min_def)
qed simp

lemma rangeLoop_take: "rangeLoop k from xs = take k (drop from xs)"
proof (induction k arbitrary: "from")
  case (Suc k)
  show ?case by (cases "from < length xs") (simp_all add: Suc Cons_nth_drop_Suc [symmetric])
qed simp

lemma rangeOf_slice:
  assumes "0 \<le> f" "0 \<le> t"
  shows "rangeOf [PInt f, PInt t] xs = Some (Inr (rangeSlice (Some (f, t)) xs))"
proof -
  have "take (nat (t - f)) (drop (nat f) xs) = drop (nat f) (take (nat t) xs)"
    using assms by (cases "f \<le> t") (simp_all add: drop_take nat_diff_distrib)
  then show ?thesis using assms by (auto simp: rangeOf_def rangeLoop_take)
qed

section \<open>Absorbing a range\<close>

fun tslice :: "int \<times> int \<Rightarrow> 'c tstep \<Rightarrow> 'c tstep" where
  "tslice r (TV t nodes shared) = TV t (rangeSlice (Some r) nodes) []"
| "tslice r (TE t edges) = TE t (rangeSlice (Some r) edges)"
| "tslice r (TValue t (ValItems vs)) = TValue t (ValItems (rangeSlice (Some r) vs))"
| "tslice r st = st"

text \<open>A result that is another one with a range.\<close>

definition sliced :: "int \<times> int \<Rightarrow> 'c touts \<Rightarrow> 'c touts \<Rightarrow> bool" where
  "sliced r x y \<longleftrightarrow> (\<forall>v. x = Some (Inr v) \<longrightarrow> y = Some (Inr (tslice r v)))"

lemma sliced_withFilter: "(\<And>t f. sliced r (body t f) (body' t f)) \<Longrightarrow> sliced r (withFilter tp op s t body) (withFilter tp op s t body')"
  by (auto simp: sliced_def withFilter_def split: prod.splits sum.splits)

lemma sliced_filterLoop:
  assumes "0 \<le> f" "0 \<le> t"
  shows "filterLoop p (rangeIterator (Some (f, t))) xs = rangeSlice (Some (f, t)) (filterLoop p (rangeIterator None) xs)"
  using assms by (simp add: rangeIterator_iter filterLoop_iter filterLoop_endless)

lemma sliced_pagedLoop:
  assumes "0 \<le> f" "0 \<le> t" "pagedLoop F (rangeIterator None) xs = Some ys"
  shows "pagedLoop F (rangeIterator (Some (f, t))) xs = Some (rangeSlice (Some (f, t)) ys)"
  using assms by (auto simp: rangeIterator_iter pagedLoop_endless pagedLoop_iter)

lemma sliced_pagedInner:
  assumes "0 \<le> f" "0 \<le> t" "pagedInner F (rangeIterator None) xs = Some ys"
  shows "pagedInner F (rangeIterator (Some (f, t))) xs = Some (rangeSlice (Some (f, t)) ys)"
  using assms by (auto simp: rangeIterator_iter pagedInner_endless pagedInner_iter)

lemma sliced_iterate: "0 \<le> f \<Longrightarrow> 0 \<le> t \<Longrightarrow> fst (snd (iterate (rangeIterator (Some (f, t))) xs)) = rangeSlice (Some (f, t)) xs"
  by (simp add: rangeIterator_iter iterate_iter)

lemma sliced_intros:
  "sliced r (Some (Inl err)) any"
  "v2 = tslice r v \<Longrightarrow> sliced r (Some (Inr v)) (Some (Inr v2))"
  "(\<And>ys. x = Some ys \<Longrightarrow> y = Some (rangeSlice (Some r) ys)) \<Longrightarrow>
     sliced r (map_option (\<lambda>ns. Inr (TV t ns [])) x) (map_option (\<lambda>ns. Inr (TV t ns [])) y)"
  "(\<And>zs. z = Some zs \<Longrightarrow> w = Some (rangeSlice (Some r) zs)) \<Longrightarrow>
     sliced r (map_option (\<lambda>es. Inr (TE t es)) z) (map_option (\<lambda>es. Inr (TE t es)) w)"
  "(b \<Longrightarrow> sliced r x1 y1) \<Longrightarrow> (\<not> b \<Longrightarrow> sliced r x2 y2) \<Longrightarrow> sliced r (if b then x1 else x2) (if b then y1 else y2)"
  by (auto simp: sliced_def)

lemmas sliced_rules = sliced_intros sliced_withFilter

text \<open>Every step that filters or walks takes the slice of what it takes without a range.\<close>

lemma sliced_steps:
  assumes r: "0 \<le> f" "0 \<le> u"
  shows "sliced (f, u) (V_has tp op None s t ns) (V_has tp op (Some (f, u)) s t ns)"
    "sliced (f, u) (V_HasNot None k t ns) (V_HasNot (Some (f, u)) k t ns)"
    "sliced (f, u) (V_Out tp None s t ns) (V_Out tp (Some (f, u)) s t ns)"
    "sliced (f, u) (V_In tp None s t ns) (V_In tp (Some (f, u)) s t ns)"
    "sliced (f, u) (V_Both tp None s t ns) (V_Both tp (Some (f, u)) s t ns)"
    "sliced (f, u) (nodeEdgesStep test tp None s t ns) (nodeEdgesStep test tp (Some (f, u)) s t ns)"
    "sliced (f, u) (E_has tp op None s t es) (E_has tp op (Some (f, u)) s t es)"
    "sliced (f, u) (E_HasNot None k t es) (E_HasNot (Some (f, u)) k t es)"
    "sliced (f, u) (E_InV tp None s t es) (E_InV tp (Some (f, u)) s t es)"
    "sliced (f, u) (E_OutV tp None s t es) (E_OutV tp (Some (f, u)) s t es)"
    "sliced (f, u) (E_BothV tp None s t es) (E_BothV tp (Some (f, u)) s t es)"
    "sliced (f, u) (Value_Has tp None s t v) (Value_Has tp (Some (f, u)) s t v)"
  unfolding V_has_def V_HasNot_def V_Out_def V_In_def V_Both_def nodeEdgesStep_def E_has_def E_HasNot_def E_InV_def E_OutV_def
    E_BothV_def Value_Has_def
  by (intro sliced_rules sliced_pagedLoop [OF r] sliced_pagedInner [OF r];
      simp add: sliced_filterLoop [OF r] split: tvalue.split)+

lemma sliced_sources:
  assumes r: "0 \<le> f" "0 \<le> u"
  shows "sliced (f, u) (Traversal_V tp None s t) (Traversal_V tp (Some (f, u)) s t)"
    "sliced (f, u) (Traversal_E tp None s t) (Traversal_E tp (Some (f, u)) s t)"
proof -
  have single: "sliced (f, u) (case p of PString i \<Rightarrow> (case x i of None \<Rightarrow> e i | Some n \<Rightarrow> Some (Inr (v n))) | _ \<Rightarrow> Some (Inl err))
      (case p of PString i \<Rightarrow> (case x i of None \<Rightarrow> e i | Some n \<Rightarrow> Some (Inr (w n))) | _ \<Rightarrow> Some (Inl err))"
    if "\<And>i. \<exists>err. e i = Some (Inl err)" "\<And>n. w n = tslice (f, u) (v n)" for p and x :: "string \<Rightarrow> nat option" and e v w err
    using that by (cases p) (auto simp: sliced_def split: option.split, metis (no_types, lifting) option.inject sum.distinct(1))
  show "sliced (f, u) (Traversal_V tp None s t) (Traversal_V tp (Some (f, u)) s t)"
    "sliced (f, u) (Traversal_E tp None s t) (Traversal_E tp (Some (f, u)) s t)"
    unfolding Traversal_V_def Traversal_E_def Let_def
    by (intro sliced_rules single; simp add: sliced_iterate [OF r] del: iterate.simps rangeSlice.simps)+
qed

definition rangeKinds :: "stepKind list" where
  "rangeKinds = [StepV, StepE, StepHas, StepHasKey, StepHasNot, StepHasEither, StepOut, StepIn, StepOutV, StepInV, StepBothV,
     StepOutE, StepInE, StepBothE, StepBoth]"

lemma sliced_firstString: "(\<And>k. sliced r (F k) (F' k)) \<Longrightarrow> sliced r (firstString ps F) (firstString ps F')"
  by (auto simp: firstString_def sliced_def split: list.splits option.splits)

text \<open>No other method of a typed step is found by its name.\<close>

lemma sliced_invoke:
  "name \<in> {''G'', ''Has'', ''HasKey'', ''HasNot'', ''HasEither'', ''Out'', ''In'', ''Both''} \<Longrightarrow>
   sliced r (invokeStepFnc tp prev name s) y"
  by (cases prev) (auto simp: invokeStepFnc_def sliced_def)

lemma Exec_step_range:
  assumes "kind s \<in> set rangeKinds" "PaginationRange s = None" "0 \<le> f" "0 \<le> u"
  shows "sliced (f, u) (Exec_step tp s prev) (Exec_step tp (s\<lparr>PaginationRange := Some (f, u)\<rparr>) prev)"
proof -
  have "kind s = StepV \<or> kind s = StepE \<or> kind s = StepHas \<or> kind s = StepHasKey \<or> kind s = StepHasNot \<or>
      kind s = StepHasEither \<or> kind s = StepOut \<or> kind s = StepIn \<or> kind s = StepOutV \<or> kind s = StepInV \<or>
      kind s = StepBothV \<or> kind s = StepOutE \<or> kind s = StepInE \<or> kind s = StepBothE \<or> kind s = StepBoth"
    using assms(1) by (simp add: rangeKinds_def)
  then show ?thesis
    by (elim disjE; cases prev;
        simp add: Exec_defs Let_def assms(2) onV_def onE_def V_OutE_def V_InE_def V_BothE_def sliced_intros(1) sliced_invoke
          sliced_firstString sliced_steps [OF assms(3,4)] sliced_sources [OF assms(3,4)])
qed

section \<open>Absorbing a filter\<close>

text \<open>The filter of no parameters lets everything through and leaves the environment.\<close>

lemma ParamsToFilter_none: "ParamsToFilter tp env op [] = (env, Inr (NewBoolFilter op []))"
  by (simp add: ParamsToFilter_def)

lemma Eval_no_terms [simp]: "Eval env g (NewBoolFilter AND_op [])"
  by (simp add: Eval.simps NewBoolFilter_def map_filter_simps)

lemma Match_no_terms [simp]:
  "Node_MatchMetadata env (Some (ElementFilter (NewBoolFilter AND_op []))) n"
  "Edge_MatchMetadata env (Some (ElementFilter (NewBoolFilter AND_op []))) e"
  by (simp_all add: Node_MatchMetadata_def Edge_MatchMetadata_def)

lemma setEnv_same [simp]: "setEnv (h_env (g_world (tr_Graph t))) t = t"
  by (simp add: setEnv_def)

lemma setEnv_twice [simp]: "setEnv env' (setEnv env t) = setEnv env' t" "h_env (g_world (tr_Graph (setEnv env t))) = env"
  "h_node (g_world (tr_Graph (setEnv env t))) = h_node (g_world (tr_Graph t))"
  "h_edge (g_world (tr_Graph (setEnv env t))) = h_edge (g_world (tr_Graph t))"
  by (simp_all add: setEnv_def)

text \<open>
  A backend whose filters select from what it returns without one, in the same order, and that does not look at the filters'
  environment otherwise.
\<close>

locale filtering_backend =
  fixes B :: "'c Backend"
  assumes nodes_filtered: "be_GetNodes B w b c m = filter (\<lambda>r. Node_MatchMetadata (h_env w) m (h_node w r)) (be_GetNodes B w b c None)"
    and edges_filtered: "be_GetEdges B w b c m = filter (\<lambda>e. Edge_MatchMetadata (h_env w) m (h_edge w e)) (be_GetEdges B w b c None)"
    and node_edges_filtered: "be_GetNodeEdges B w b r c m =
      filter (\<lambda>e. Edge_MatchMetadata (h_env w) m (h_edge w e)) (be_GetNodeEdges B w b r c None)"
    and parents_filtered: "map_option fst (be_GetEdgeNodes B w b e c m None) =
      map_option (\<lambda>(ps, cs). filter (\<lambda>r. Node_MatchMetadata (h_env w) m (h_node w r)) ps) (be_GetEdgeNodes B w b e c None None)"
    and children_filtered: "map_option snd (be_GetEdgeNodes B w b e c None m) =
      map_option (\<lambda>(ps, cs). filter (\<lambda>r. Node_MatchMetadata (h_env w) m (h_node w r)) cs) (be_GetEdgeNodes B w b e c None None)"
    and env_unused: "be_GetNodes B (w\<lparr>h_env := env\<rparr>) b c None = be_GetNodes B w b c None"
      "be_GetEdges B (w\<lparr>h_env := env\<rparr>) b c None = be_GetEdges B w b c None"
      "be_GetNodeEdges B (w\<lparr>h_env := env\<rparr>) b r c None = be_GetNodeEdges B w b r c None"
      "be_GetEdgeNodes B (w\<lparr>h_env := env\<rparr>) b e c None None = be_GetEdgeNodes B w b e c None None"

interpretation memf: filtering_backend memoryBackend
  by unfold_locales
    (simp_all add: memoryBackend_def Memory_GetNodes_def Memory_GetEdges_def Memory_GetNodeEdges_def Memory_GetEdgeNodes_def
      Node_MatchMetadata_def Edge_MatchMetadata_def split: option.split)

lemma those_map_option: "those (map (\<lambda>x. map_option h (F x)) xs) = map_option (map h) (those (map F xs))"
proof (induction xs)
  case (Cons x xs)
  then show ?case by (cases "F x"; cases "those (map F xs)") simp_all
qed simp

lemma collect_filter:
  "map_option concat (those (map (\<lambda>x. map_option (filter p) (F x)) xs)) = map_option (filter p) (map_option concat (those (map F xs)))"
  by (simp add: those_map_option option.map_comp comp_def filter_concat)

lemma Eval_matches:
  "Node_MatchMetadata env (Some (ElementFilter f)) n = Eval env (nodeGetter n) f"
  "Edge_MatchMetadata env (Some (ElementFilter f)) e = Eval env (edgeGetter e) f"
  by (simp_all add: Node_MatchMetadata_def Edge_MatchMetadata_def)

text \<open>A step that walks with a filter does what the step without one and the filter after it do.\<close>

lemma merge_nodes:
  assumes "\<And>env f. G (setEnv env t) (Some (ElementFilter f)) = Some (filter (\<lambda>r. Eval env (nodeGetter (tnode t r)) f) ns0)"
    "V_has tp AND_op None ps t ns0 = Some (Inr w)"
  shows "withMatcher tp ps t (\<lambda>t m. map_option (\<lambda>ns. Inr (TV t ns [])) (G t m)) = Some (Inr w)"
  using assms by (auto simp: V_has_def withFilter_def rangeIterator_iter filterLoop_endless split: if_splits prod.splits sum.splits)

lemma merge_edges:
  assumes "\<And>env f. G (setEnv env t) (Some (ElementFilter f)) = Some (filter (\<lambda>e. Eval env (edgeGetter (tedge t e)) f) es0)"
    "E_has tp AND_op None ps t es0 = Some (Inr w)"
  shows "withMatcher tp ps t (\<lambda>t m. map_option (\<lambda>es. Inr (TE t es)) (G t m)) = Some (Inr w)"
  using assms by (auto simp: E_has_def withFilter_def rangeIterator_iter filterLoop_endless split: if_splits prod.splits sum.splits)

definition hasKinds :: "stepKind list" where
  "hasKinds = [StepV, StepE, StepOut, StepIn, StepOutV, StepInV, StepBothV, StepOutE, StepInE, StepBothE, StepBoth]"

lemma step_shapes:
  "V_Out tp c ps t ns = Some (Inr v) \<Longrightarrow> \<exists>t ns sh. v = TV t ns sh"
  "V_In tp c ps t ns = Some (Inr v) \<Longrightarrow> \<exists>t ns sh. v = TV t ns sh"
  "V_Both tp c ps t ns = Some (Inr v) \<Longrightarrow> \<exists>t ns sh. v = TV t ns sh"
  "E_InV tp c ps t es = Some (Inr v) \<Longrightarrow> \<exists>t ns sh. v = TV t ns sh"
  "E_OutV tp c ps t es = Some (Inr v) \<Longrightarrow> \<exists>t ns sh. v = TV t ns sh"
  "E_BothV tp c ps t es = Some (Inr v) \<Longrightarrow> \<exists>t ns sh. v = TV t ns sh"
  "nodeEdgesStep test tp c ps t ns = Some (Inr v) \<Longrightarrow> \<exists>t es. v = TE t es"
  "Traversal_V tp c ps t = Some (Inr v) \<Longrightarrow> \<exists>t ns sh. v = TV t ns sh"
  "Traversal_E tp c ps t = Some (Inr v) \<Longrightarrow> \<exists>t es. v = TE t es"
  unfolding V_Out_def V_In_def V_Both_def E_InV_def E_OutV_def E_BothV_def nodeEdgesStep_def Traversal_V_def Traversal_E_def
  by (auto simp: withFilter_def Let_def split: if_splits prod.splits sum.splits option.splits param.splits)

context filtering_backend
begin

abbreviation (input) filtered :: "'c GraphTraversal \<Rightarrow> regex_env \<Rightarrow> Filter \<Rightarrow> nref list \<Rightarrow> nref list" where
  "filtered t env f \<equiv> filter (\<lambda>r. Eval env (nodeGetter (tnode t r)) f)"

abbreviation (input) noTerms :: "ElementMatcher option" where
  "noTerms \<equiv> Some (ElementFilter (NewBoolFilter AND_op []))"

lemma parents_env:
  "map_option fst (Graph_GetEdgeNodes B (tr_Graph (setEnv env t)) e (Some (ElementFilter f)) None) =
   map_option (filtered t env f) (map_option fst (Graph_GetEdgeNodes B (tr_Graph t) e noTerms None))"
  unfolding Graph_GetEdgeNodes_def setEnv_def parents_filtered [where m = "Some (ElementFilter f)"] parents_filtered [where m = noTerms]
  by (simp add: env_unused Eval_matches option.map_comp comp_def split_def)

lemma children_env:
  "map_option snd (Graph_GetEdgeNodes B (tr_Graph (setEnv env t)) e None (Some (ElementFilter f))) =
   map_option (filtered t env f) (map_option snd (Graph_GetEdgeNodes B (tr_Graph t) e None noTerms))"
  unfolding Graph_GetEdgeNodes_def setEnv_def children_filtered [where m = "Some (ElementFilter f)"] children_filtered [where m = noTerms]
  by (simp add: env_unused Eval_matches option.map_comp comp_def split_def)

lemma node_edges_env: "Graph_GetNodeEdges B (tr_Graph (setEnv env t)) n None = Graph_GetNodeEdges B (tr_Graph t) n None"
  by (simp add: Graph_GetNodeEdges_def setEnv_def env_unused)

lemma walks_env:
  "LookupChildren B (tr_Graph (setEnv env t)) n (Some (ElementFilter f)) None =
     map_option (filtered t env f) (LookupChildren B (tr_Graph t) n noTerms None)"
  "LookupParents B (tr_Graph (setEnv env t)) n (Some (ElementFilter f)) None =
     map_option (filtered t env f) (LookupParents B (tr_Graph t) n noTerms None)"
proof -
  have if_map: "(if b then map_option h x else Some []) = map_option h (if b then x else Some [])" if "h [] = []" for b h and x :: "nref list option"
    using that by simp
  show "LookupChildren B (tr_Graph (setEnv env t)) n (Some (ElementFilter f)) None =
     map_option (filtered t env f) (LookupChildren B (tr_Graph t) n noTerms None)"
    unfolding LookupChildren_def collectNodes_def node_edges_env children_env setEnv_twice
    by (subst if_map, simp) (rule collect_filter)
  show "LookupParents B (tr_Graph (setEnv env t)) n (Some (ElementFilter f)) None =
     map_option (filtered t env f) (LookupParents B (tr_Graph t) n noTerms None)"
    unfolding LookupParents_def collectNodes_def node_edges_env parents_env setEnv_twice
    by (subst if_map, simp) (rule collect_filter)
qed

lemma ends_env:
  "tp_backend tp = B \<Longrightarrow> bothEnds tp (setEnv env t) (Some (ElementFilter f)) x = map_option (filtered t env f) (bothEnds tp t noTerms x)"
  "tp_backend tp = B \<Longrightarrow> edgeEnd tp (setEnv env t) (Some (ElementFilter f)) y = map_option (filtered t env f) (edgeEnd tp t noTerms y)"
  by (cases x, simp add: bothEnds_def parents_env children_env) (cases y, simp add: edgeEnd_def parents_env children_env)

text \<open>One lemma per step: the step without parameters, then the filter.\<close>

lemma walk_has:
  assumes tp: "tp_backend tp = B"
    and F: "\<And>env f x. F (setEnv env t) (Some (ElementFilter f)) x = map_option (filtered t env f) (F t noTerms x)"
    and X: "\<And>env. X (setEnv env t) = X t"
    and plain: "withMatcher tp [] t (\<lambda>t m. map_option (\<lambda>ns. Inr (TV t ns [])) (map_option concat (those (map (F t m) (X t))))) = Some (Inr v)"
    and has: "onV v (\<lambda>t ns _. V_has tp AND_op None ps t ns) None = Some (Inr w)"
  shows "withMatcher tp ps t (\<lambda>t m. map_option (\<lambda>ns. Inr (TV t ns [])) (map_option concat (those (map (F t m) (X t))))) = Some (Inr w)"
proof -
  obtain ns0 where ns0: "map_option concat (those (map (F t noTerms) (X t))) = Some ns0" "v = TV t ns0 []"
    using plain by (auto simp: withFilter_def ParamsToFilter_none)
  show ?thesis
  proof (rule merge_nodes [where G = "\<lambda>t m. map_option concat (those (map (F t m) (X t)))"])
    show "map_option concat (those (map (F (setEnv env t) (Some (ElementFilter f))) (X (setEnv env t)))) = Some (filtered t env f ns0)"
      for env f
      unfolding X F collect_filter ns0(1) by simp
    show "V_has tp AND_op None ps t ns0 = Some (Inr w)" using has ns0(2) by (simp add: onV_def)
  qed
qed

lemma steps_has:
  assumes tp: "tp_backend tp = B" and has: "onV v (\<lambda>t ns _. V_has tp AND_op None ps t ns) None = Some (Inr w)"
  shows "V_Out tp None [] t ns = Some (Inr v) \<Longrightarrow> V_Out tp None ps t ns = Some (Inr w)"
    "V_In tp None [] t ns = Some (Inr v) \<Longrightarrow> V_In tp None ps t ns = Some (Inr w)"
    "V_Both tp None [] t ns = Some (Inr v) \<Longrightarrow> V_Both tp None ps t ns = Some (Inr w)"
    "E_InV tp None [] t es = Some (Inr v) \<Longrightarrow> E_InV tp None ps t es = Some (Inr w)"
    "E_OutV tp None [] t es = Some (Inr v) \<Longrightarrow> E_OutV tp None ps t es = Some (Inr w)"
    "E_BothV tp None [] t es = Some (Inr v) \<Longrightarrow> E_BothV tp None ps t es = Some (Inr w)"
  unfolding V_Out_def V_In_def V_Both_def E_InV_def E_OutV_def E_BothV_def rangeIterator_iter pagedLoop_endless pagedInner_endless
  subgoal using walk_has [OF tp, where F = "\<lambda>t m n. LookupChildren (tp_backend tp) (tr_Graph t) n m None" and X = "\<lambda>t. ns", OF _ refl _ has]
    by (simp add: tp walks_env)
  subgoal using walk_has [OF tp, where F = "\<lambda>t m n. LookupParents (tp_backend tp) (tr_Graph t) n m None" and X = "\<lambda>t. ns", OF _ refl _ has]
    by (simp add: tp walks_env)
  subgoal using walk_has [OF tp, where F = "\<lambda>t m x. bothEnds tp t m x" and
        X = "\<lambda>t. concat (map (\<lambda>n. map (\<lambda>e. (n, e)) (Graph_GetNodeEdges (tp_backend tp) (tr_Graph t) n None)) ns)", OF _ _ _ has]
    by (simp add: tp ends_env node_edges_env)
  subgoal using walk_has [OF tp, where F = "\<lambda>t m e. map_option fst (Graph_GetEdgeNodes (tp_backend tp) (tr_Graph t) e m None)" and X = "\<lambda>t. es", OF _ refl _ has]
    by (simp add: tp parents_env)
  subgoal using walk_has [OF tp, where F = "\<lambda>t m e. map_option snd (Graph_GetEdgeNodes (tp_backend tp) (tr_Graph t) e None m)" and X = "\<lambda>t. es", OF _ refl _ has]
    by (simp add: tp children_env)
  subgoal using walk_has [OF tp, where F = "\<lambda>t m x. edgeEnd tp t m x" and
        X = "\<lambda>t. concat (map (\<lambda>e. [(True, e), (False, e)]) es)", OF _ refl _ has]
    by (simp add: tp ends_env)
  done

lemma nodeEdges_has:
  assumes tp: "tp_backend tp = B" and has: "onE v (\<lambda>t es. E_has tp AND_op None ps t es) None = Some (Inr w)"
    and plain: "nodeEdgesStep test tp None [] t ns = Some (Inr v)"
  shows "nodeEdgesStep test tp None ps t ns = Some (Inr w)"
proof -
  let ?E = "\<lambda>t m. pagedLoop (\<lambda>n. Some (filter (\<lambda>e. test (tedge t e) (ID (tnode t n))) (Graph_GetNodeEdges (tp_backend tp) (tr_Graph t) n m))) (rangeIterator None) ns"
  obtain es0 where es0: "?E t noTerms = Some es0" "v = TE t es0"
    using plain by (auto simp: nodeEdgesStep_def withFilter_def ParamsToFilter_none)
  have one: "Some (filter (\<lambda>e. test (tedge t e) (ID (tnode t n))) (Graph_GetNodeEdges B (tr_Graph (setEnv env t)) n (Some (ElementFilter f)))) =
      map_option (filter (\<lambda>e. Eval env (edgeGetter (tedge t e)) f))
        (Some (filter (\<lambda>e. test (tedge t e) (ID (tnode t n))) (Graph_GetNodeEdges B (tr_Graph t) n noTerms)))" for n env f
    unfolding Graph_GetNodeEdges_def setEnv_def node_edges_filtered [where m = "Some (ElementFilter f)"] node_edges_filtered [where m = noTerms]
    by (simp add: env_unused Eval_matches conj_commute)
  show ?thesis
    unfolding nodeEdgesStep_def
  proof (rule merge_edges [where G = ?E])
    show "?E (setEnv env t) (Some (ElementFilter f)) = Some (filter (\<lambda>e. Eval env (edgeGetter (tedge t e)) f) es0)" for env f
      using es0(1) unfolding tp rangeIterator_iter pagedLoop_endless setEnv_twice one collect_filter by auto
    show "E_has tp AND_op None ps t es0 = Some (Inr w)" using has es0(2) by (simp add: onE_def)
  qed
qed

lemma sources_has:
  assumes tp: "tp_backend tp = B" and len: "length ps \<ge> 2"
  shows "Traversal_V tp None [] t = Some (Inr v) \<Longrightarrow> onV v (\<lambda>t ns _. V_has tp AND_op None ps t ns) None = Some (Inr w) \<Longrightarrow>
      Traversal_V tp None ps t = Some (Inr w)"
    "Traversal_E tp None [] t = Some (Inr v) \<Longrightarrow> onE v (\<lambda>t es. E_has tp AND_op None ps t es) None = Some (Inr w) \<Longrightarrow>
      Traversal_E tp None ps t = Some (Inr w)"
proof -
  have ps: "length ps \<noteq> 1" "ps \<noteq> []" using len by auto
  show "Traversal_V tp None ps t = Some (Inr w)"
    if "Traversal_V tp None [] t = Some (Inr v)" "onV v (\<lambda>t ns _. V_has tp AND_op None ps t ns) None = Some (Inr w)"
  proof -
    have "withMatcher tp ps t (\<lambda>t m. map_option (\<lambda>ns. Inr (TV t ns [])) (Some (Graph_GetNodes B (tr_Graph t) m))) = Some (Inr w)"
    proof (rule merge_nodes)
      show "Some (Graph_GetNodes B (tr_Graph (setEnv env t)) (Some (ElementFilter f))) =
          Some (filtered t env f (Graph_GetNodes B (tr_Graph t) None))" for env f
        unfolding Graph_GetNodes_def setEnv_def nodes_filtered [where m = "Some (ElementFilter f)"] by (simp add: env_unused Eval_matches)
      show "V_has tp AND_op None ps t (Graph_GetNodes B (tr_Graph t) None) = Some (Inr w)"
        using that tp by (auto simp: Traversal_V_def onV_def)
    qed
    then show ?thesis using ps tp by (simp add: Traversal_V_def)
  qed
  show "Traversal_E tp None ps t = Some (Inr w)"
    if "Traversal_E tp None [] t = Some (Inr v)" "onE v (\<lambda>t es. E_has tp AND_op None ps t es) None = Some (Inr w)"
  proof -
    have "withMatcher tp ps t (\<lambda>t m. map_option (\<lambda>es. Inr (TE t es)) (Some (Graph_GetEdges B (tr_Graph t) m))) = Some (Inr w)"
    proof (rule merge_edges)
      show "Some (Graph_GetEdges B (tr_Graph (setEnv env t)) (Some (ElementFilter f))) =
          Some (filter (\<lambda>e. Eval env (edgeGetter (tedge t e)) f) (Graph_GetEdges B (tr_Graph t) None))" for env f
        unfolding Graph_GetEdges_def setEnv_def edges_filtered [where m = "Some (ElementFilter f)"] by (simp add: env_unused Eval_matches)
      show "E_has tp AND_op None ps t (Graph_GetEdges B (tr_Graph t) None) = Some (Inr w)"
        using that tp by (auto simp: Traversal_E_def onE_def)
    qed
    then show ?thesis using ps tp by (simp add: Traversal_E_def)
  qed
qed

text \<open>The steps that absorb a filter.\<close>

lemma Exec_step_has:
  assumes tp: "tp_backend tp = B" and s: "kind s \<in> set hasKinds" "Params s = []" "PaginationRange s = None"
    and n: "kind n = StepHas" "PaginationRange n = None" "kind s \<in> {StepV, StepE} \<Longrightarrow> length (Params n) \<ge> 2"
    and plain: "Exec_step tp s prev = Some (Inr v)" "Exec_step tp n v = Some (Inr w)"
  shows "Exec_step tp (s\<lparr>Params := Params n\<rparr>) prev = Some (Inr w)"
proof -
  have has: "onV v (\<lambda>t ns _. V_has tp AND_op None (Params n) t ns) None = Some (Inr w)" if "\<exists>t ns sh. v = TV t ns sh"
    using plain(2) n that by (auto simp: Exec_defs onV_def)
  have hasE: "onE v (\<lambda>t es. E_has tp AND_op None (Params n) t es) None = Some (Inr w)" if "\<exists>t es. v = TE t es"
    using plain(2) n that by (auto simp: Exec_defs onE_def)
  have "kind s = StepV \<or> kind s = StepE \<or> kind s = StepOut \<or> kind s = StepIn \<or> kind s = StepOutV \<or> kind s = StepInV \<or>
      kind s = StepBothV \<or> kind s = StepOutE \<or> kind s = StepInE \<or> kind s = StepBothE \<or> kind s = StepBoth"
    using s(1) by (simp add: hasKinds_def)
  then show ?thesis
    using plain(1) n(3)
    by (elim disjE; cases prev;
        simp add: Exec_defs Let_def s(2,3) onV_def onE_def V_OutE_def V_InE_def V_BothE_def invokeStepFnc_def
          steps_has [OF tp has [OF step_shapes(1)]] steps_has [OF tp has [OF step_shapes(2)]] steps_has [OF tp has [OF step_shapes(3)]]
          steps_has [OF tp has [OF step_shapes(4)]] steps_has [OF tp has [OF step_shapes(5)]] steps_has [OF tp has [OF step_shapes(6)]]
          nodeEdges_has [OF tp hasE [OF step_shapes(7)]] sources_has(1) [OF tp _ _ has [OF step_shapes(8)]]
          sources_has(2) [OF tp _ _ hasE [OF step_shapes(9)]])
qed

end

section \<open>Step by step\<close>

text \<open>The meaning of a sequence: every step runs on the result of the one before, none absorbs another.\<close>

fun plainExec :: "'c tparams \<Rightarrow> GremlinStep list \<Rightarrow> 'c tstep \<Rightarrow> 'c touts" where
  "plainExec tp [] prev = Some (Inr prev)"
| "plainExec tp (s # ss) prev =
     (case Exec_step tp s prev of
        None \<Rightarrow> None
      | Some (Inl err) \<Rightarrow> Some (Inl err)
      | Some (Inr v) \<Rightarrow> plainExec tp ss v)"

text \<open>Steps as the parser makes them; ranges are of non-negative integers.\<close>

definition rangeOfStep :: "GremlinStep \<Rightarrow> (int \<times> int) option" where
  "rangeOfStep s =
     (case (kind s, map asInt (Params s)) of
        (StepRange, [Some f, Some u]) \<Rightarrow> if 0 \<le> f \<and> 0 \<le> u then Some (f, u) else None
      | (StepLimit, [Some u]) \<Rightarrow> if 0 \<le> u then Some (0, u) else None
      | _ \<Rightarrow> None)"

definition freshStep :: "GremlinStep \<Rightarrow> bool" where
  "freshStep s \<longleftrightarrow> PaginationRange s = None \<and> (kind s \<in> {StepRange, StepLimit} \<longrightarrow> rangeOfStep s \<noteq> None) \<and>
     (kind s \<in> {StepAs, StepSelect} \<longrightarrow> Params s \<noteq> [])"

text \<open>No filter right after a range, and no range right after the steps that absorb but do not obey it.\<close>

definition mayFollow :: "GremlinStep \<Rightarrow> GremlinStep \<Rightarrow> bool" where
  "mayFollow s n \<longleftrightarrow> (kind s \<in> {StepRange, StepLimit} \<longrightarrow> kind n \<noteq> StepHas) \<and>
     (kind s \<in> {StepDedup, StepAs, StepSelect} \<longrightarrow> kind n \<notin> {StepRange, StepLimit})"

fun wellOrdered :: "GremlinStep list \<Rightarrow> bool" where
  "wellOrdered (s # n # ss) \<longleftrightarrow> mayFollow s n \<and> wellOrdered (n # ss)"
| "wellOrdered _ \<longleftrightarrow> True"

lemma wellOrdered_tl: "wellOrdered (s # ss) \<Longrightarrow> wellOrdered ss"
  by (cases ss) simp_all

lemma rangeOfStep_cases:
  assumes "rangeOfStep n = Some (f, u)"
  shows "0 \<le> f" "0 \<le> u" "(kind n = StepRange \<and> Params n = [PInt f, PInt u]) \<or> (kind n = StepLimit \<and> f = 0 \<and> Params n = [PInt u])"
proof -
  have int: "asInt p = Some i \<longleftrightarrow> p = PInt i" for p i by (cases p) auto
  show "0 \<le> f" "0 \<le> u" "(kind n = StepRange \<and> Params n = [PInt f, PInt u]) \<or> (kind n = StepLimit \<and> f = 0 \<and> Params n = [PInt u])"
    using assms by (auto simp: rangeOfStep_def int map_eq_Cons_conv split: stepKind.splits list.splits option.splits if_splits)
qed

lemma Exec_step_of_range:
  assumes "rangeOfStep n = Some (f, u)" "Exec_step tp n v = Some (Inr w)"
  shows "w = tslice (f, u) v"
proof -
  note n = rangeOfStep_cases [OF assms(1)]
  show ?thesis
    using assms(2) n(3)
    by (cases v) (auto simp: Exec_defs onV_def onE_def V_Range_def E_Range_def V_Limit_def E_Limit_def invokeStepFnc_def
        rangeOf_slice [OF n(1,2)] rangeOf_slice [OF order_refl n(2)])
qed

lemma Exec_step_range_TV: "rangeOfStep n = Some (f, u) \<Longrightarrow> Exec_step tp n (TV t ns shared) = Some (Inr (TV t (rangeSlice (Some (f, u)) ns) []))"
  using rangeOfStep_cases [of n f u]
  by (auto simp: Exec_defs onV_def V_Range_def V_Limit_def rangeOf_slice simp del: rangeSlice.simps)

text \<open>What a step absorbs.\<close>

lemma Reduce_range:
  assumes "rangeOfStep n = Some r"
  shows "Reduce s n = (if takesRange (kind s) \<and> PaginationRange s = None then Some (s\<lparr>PaginationRange := Some r\<rparr>, True) else Some (s, False))"
proof -
  obtain f u where r: "r = (f, u)" by (cases r)
  have "kind n \<noteq> StepHas" "ReduceRange s n = (if PaginationRange s = None then Some (s\<lparr>PaginationRange := Some r\<rparr>, True) else Some (s, False))"
    using rangeOfStep_cases [of n f u] assms r by (auto simp: ReduceRange_def)
  then show ?thesis by (auto simp: Reduce_defs takesRange_def)
qed

lemma Reduce_has:
  assumes "kind n = StepHas"
  shows "Reduce s n = (if Params s = [] \<and> (takesHas (kind s) \<or> (kind s \<in> {StepV, StepE} \<and> length (Params n) \<ge> 2))
    then Some (s\<lparr>Params := Params n\<rparr>, True) else Some (s, False))"
  using assms by (auto simp: Reduce_defs ReduceRange_def takesHas_def takesRange_def)

lemma Reduce_other:
  assumes "kind n \<notin> {StepHas, StepRange, StepLimit}"
  shows "Reduce s n = Some (s, False)"
  using assms by (auto simp: Reduce_defs ReduceRange_def)

lemma Has_params: "kind n = StepHas \<Longrightarrow> Exec_step tp n v = Some (Inr w) \<Longrightarrow> Params n \<noteq> []"
  by (cases v) (auto simp: Exec_defs V_has_def E_has_def Value_Has_def invokeStepFnc_def)

lemma wellOrdered_suffix: "wellOrdered (xs @ ys) \<Longrightarrow> wellOrdered ys"
  by (induction xs) (auto dest: wellOrdered_tl)

lemma takesRange_kinds: "takesRange k \<longleftrightarrow> k \<in> set rangeKinds \<or> k \<in> {StepDedup, StepAs, StepSelect}"
  by (auto simp: takesRange_def takesHas_def rangeKinds_def)

lemma takesHas_kinds: "takesHas k \<or> k \<in> {StepV, StepE} \<longleftrightarrow> k \<in> set hasKinds \<or> k \<in> {StepAs, StepSelect}"
  by (auto simp: takesHas_def hasKinds_def)

text \<open>A paged step absorbs no other range, and no filter follows a range.\<close>

lemma absorb_paged:
  assumes "PaginationRange s \<noteq> None" "list_all freshStep ss" "ss \<noteq> [] \<Longrightarrow> kind (hd ss) \<noteq> StepHas"
  shows "absorb s ss = Some (s, [], ss)"
proof (cases ss)
  case (Cons n ns)
  then consider r where "rangeOfStep n = Some r" | "kind n \<notin> {StepHas, StepRange, StepLimit}"
    using assms(2,3) by (auto simp: freshStep_def)
  then show ?thesis by cases (use assms(1) Cons in \<open>simp_all add: Reduce_range Reduce_other\<close>)
qed simp

lemma absorb_range:
  assumes s: "PaginationRange s = None" and ss: "list_all freshStep ss" "wellOrdered ss"
    and follow: "ss \<noteq> [] \<Longrightarrow> kind s \<in> {StepDedup, StepAs, StepSelect} \<Longrightarrow> kind (hd ss) \<notin> {StepRange, StepLimit}"
    and has: "ss \<noteq> [] \<Longrightarrow> kind (hd ss) = StepHas \<Longrightarrow> Reduce s (hd ss) = Some (s, False)"
    and plain: "Exec_step tp s prev = Some (Inr v)" "plainExec tp ss v = Some (Inr r)"
  shows "\<exists>s' taken rest v'. absorb s ss = Some (s', taken, rest) \<and> ss = taken @ rest \<and>
    Exec_step tp s' prev = Some (Inr v') \<and> plainExec tp rest v' = Some (Inr r)"
proof (cases "ss = [] \<or> Reduce s (hd ss) = Some (s, False)")
  case True
  then have "absorb s ss = Some (s, [], ss)" by (cases ss) auto
  then show ?thesis using plain by auto
next
  case False
  then obtain n ns where n: "ss = n # ns" "Reduce s n \<noteq> Some (s, False)" by (cases ss) auto
  then have "kind n \<noteq> StepHas" using has by auto
  with n(2) have "kind n \<in> {StepRange, StepLimit}" using Reduce_other by blast
  with ss(1) n(1) obtain f u where r: "rangeOfStep n = Some (f, u)" by (auto simp: freshStep_def)
  note fu = rangeOfStep_cases [OF r]
  let ?s = "s\<lparr>PaginationRange := Some (f, u)\<rparr>"
  have red: "Reduce s n = Some (?s, True)" "takesRange (kind s)" using n(2) Reduce_range [OF r, of s] s by (auto split: if_splits)
  have "kind s \<in> set rangeKinds" using red(2) follow n(1) \<open>kind n \<in> _\<close> by (auto simp: takesRange_kinds)
  from Exec_step_range [OF this s fu(1,2)] plain(1) have ex: "Exec_step tp ?s prev = Some (Inr (tslice (f, u) v))"
    by (auto simp: sliced_def)
  obtain w where w: "Exec_step tp n v = Some (Inr w)" "plainExec tp ns w = Some (Inr r)"
    using plain(2) n(1) by (auto split: option.splits sum.splits)
  have "ns \<noteq> [] \<Longrightarrow> kind (hd ns) \<noteq> StepHas"
    using ss(2) n(1) \<open>kind n \<in> _\<close> by (cases ns) (auto simp: mayFollow_def)
  then have "absorb ?s ns = Some (?s, [], ns)" using ss(1) n(1) by (intro absorb_paged) simp_all
  then have "absorb s ss = Some (?s, [n], ns)" using red(1) n(1) by simp
  then show ?thesis using ex w Exec_step_of_range [OF r w(1)] n(1) by auto
qed

context filtering_backend
begin

lemma absorb_sound:
  assumes tp: "tp_backend tp = B" and fresh: "list_all freshStep (s # ss)" and ordered: "wellOrdered (s # ss)"
    and plain: "plainExec tp (s # ss) prev = Some (Inr r)"
  shows "\<exists>s' taken rest v. absorb s ss = Some (s', taken, rest) \<and> ss = taken @ rest \<and>
    Exec_step tp s' prev = Some (Inr v) \<and> plainExec tp rest v = Some (Inr r)"
proof -
  obtain v where v: "Exec_step tp s prev = Some (Inr v)" "plainExec tp ss v = Some (Inr r)"
    using plain by (auto split: option.splits sum.splits)
  have s: "PaginationRange s = None" using fresh by (simp add: freshStep_def)
  show ?thesis
  proof (cases "ss \<noteq> [] \<and> kind (hd ss) = StepHas \<and> Reduce s (hd ss) \<noteq> Some (s, False)")
    case False
    have "ss \<noteq> [] \<Longrightarrow> kind s \<in> {StepDedup, StepAs, StepSelect} \<Longrightarrow> kind (hd ss) \<notin> {StepRange, StepLimit}"
      using ordered by (cases ss) (auto simp: mayFollow_def)
    then show ?thesis using False fresh wellOrdered_tl [OF ordered] s v by (intro absorb_range) auto
  next
    case True
    then obtain n ns where n: "ss = n # ns" "kind n = StepHas" "Reduce s n \<noteq> Some (s, False)" by (cases ss) auto
    let ?s = "s\<lparr>Params := Params n\<rparr>"
    have red: "Reduce s n = Some (?s, True)" "Params s = []" "takesHas (kind s) \<or> kind s \<in> {StepV, StepE}"
      "kind s \<in> {StepV, StepE} \<Longrightarrow> length (Params n) \<ge> 2"
      using n(3) Reduce_has [OF n(2), of s] by (auto simp: takesHas_def split: if_splits)
    have k: "kind s \<in> set hasKinds" using red(2) red(3) [unfolded takesHas_kinds] fresh by (auto simp: freshStep_def)
    obtain w where w: "Exec_step tp n v = Some (Inr w)" "plainExec tp ns w = Some (Inr r)"
      using v(2) n(1) by (auto split: option.splits sum.splits)
    have ex: "Exec_step tp ?s prev = Some (Inr w)"
      using Exec_step_has [OF tp k red(2) s n(2) _ red(4) v(1) w(1)] fresh n(1) by (simp add: freshStep_def)
    have "Params n \<noteq> []" by (rule Has_params [OF n(2) w(1)])
    then have "Reduce ?s m = Some (?s, False)" if "kind m = StepHas" for m using Reduce_has [OF that, of ?s] by simp
    moreover have "kind ?s \<notin> {StepDedup, StepAs, StepSelect}" using k by (auto simp: hasKinds_def)
    ultimately obtain s' taken rest v' where "absorb ?s ns = Some (s', taken, rest)" "ns = taken @ rest"
      "Exec_step tp s' prev = Some (Inr v')" "plainExec tp rest v' = Some (Inr r)"
      using absorb_range [of ?s ns tp prev w r] s fresh n(1) wellOrdered_tl [OF ordered] wellOrdered_tl [of n ns] ex w(2) by auto
    then show ?thesis using red(1) n(1) by auto
  qed
qed

theorem execLoop_sound:
  assumes tp: "tp_backend tp = B"
  shows "list_all freshStep ss \<Longrightarrow> wellOrdered ss \<Longrightarrow> plainExec tp ss prev = Some (Inr r) \<Longrightarrow>
    \<exists>left. execLoop tp ss prev = Some (left, Inr r)"
proof (induction "length ss" arbitrary: ss prev rule: less_induct)
  case less
  show ?case
  proof (cases ss)
    case (Cons s ns)
    obtain s' taken rest v where a: "absorb s ns = Some (s', taken, rest)" "ns = taken @ rest"
      "Exec_step tp s' prev = Some (Inr v)" "plainExec tp rest v = Some (Inr r)"
      using absorb_sound [OF tp] less.prems Cons by blast
    have "wellOrdered rest" using wellOrdered_suffix [of "s # taken"] less.prems(2) Cons a(2) by simp
    then obtain left where "execLoop tp rest v = Some (left, Inr r)"
      using less.hyps [of rest] less.prems(1) a(2,4) Cons by auto
    then show ?thesis using Cons a by simp
  qed (use less.prems in simp)
qed

end

end
