(* ===== verification/Gremlin_Theorems.thy ===== *)
theory Gremlin_Theorems
  imports Gremlin_Typing Gremlin_Query Gremlin_Reduce Graph_Theorems
begin

text \<open>
  The properties of the query language: what the builder writes the parser reads back, the parser returns on every text, and
  the execution that merges steps is the one that runs them one by one, where it is.
\<close>

section \<open>Inputs of the witnesses\<close>

definition sampleQuery :: "call list" where
  "sampleQuery =
     [ContextCall [CtxString ''now'', CtxInt 30], Call ''V'' [],
      Call ''Has'' [PString ''Type'', Within [PString ''veth'', PString ''bridge''], PString ''MTU'', Gt (PInt 1400)],
      Call ''Out'' [PString ''Name'', Regex ''eth.*''], Call ''Sort'' [PString ''Name''], Call ''Count'' []]"

definition sampleSteps :: "GremlinStep list" where
  "sampleSteps = [mkStep StepV [], mkStep StepHas [PString ''Type'', PString ''veth''], mkStep StepLimit [PInt 1], mkStep StepBoth [],
     mkStep StepRange [PInt 0, PInt 5]]"

definition resultNodes :: "'c tstep \<Rightarrow> nref list" where
  "resultNodes v = (case v of TV _ ns _ \<Rightarrow> ns | _ \<Rightarrow> [])"

abbreviation (input) rootOf :: "'c Graph \<Rightarrow> 'c tstep" where
  "rootOf g \<equiv> TG (NewGraphTraversal g)"

section \<open>Texts\<close>

text \<open>C26: A query written with the builder parses to the steps that were asked for.  The calls are of any methods of the
  builder, \<^verbatim>\<open>Context\<close> included, with arguments in the syntax the scanner reads: strings without quotes and without
  characters that JSON escapes, integers and times that are not negative, the predicates the builder has.  When every
  method is one the parser knows without extensions and its parameters are right in number and type, the text parses to the
  steps of those methods with those parameters; otherwise it is refused with an error.\<close>

theorem query_roundtrip:
  assumes "list_all callReadable calls"
  shows "\<exists>tx. buildCalls calls ''G'' = Some tx \<and>
    (if list_all callFits calls then Parse tx = Some (Inr (concat (map askedSteps calls))) else \<exists>err. Parse tx = Some (Inl err))"
  by (rule Parse_calls [OF assms])

theorem query_roundtrip_witness:
  "(\<exists>tx. buildCalls sampleQuery ''G'' = Some tx \<and>
     Parse tx = Some (Inr [mkStep StepContext [NowPredicate, PInt 30], mkStep StepV [],
       mkStep StepHas [PString ''Type'', Within [PString ''veth'', PString ''bridge''], PString ''MTU'', Gt (PInt 1400)],
       mkStep StepOut [PString ''Name'', Regex ''eth.*''], mkStep StepSort [PSort SortAscending, PString ''Name''], mkStep StepCount []])) \<and>
   (\<exists>tx err. buildCalls [Call ''V'' [], Call ''Flows'' []] ''G'' = Some tx \<and> Parse tx = Some (Inl err))"
proof
  have "list_all callReadable sampleQuery" "list_all callFits sampleQuery"
    "concat (map askedSteps sampleQuery) = [mkStep StepContext [NowPredicate, PInt 30], mkStep StepV [],
       mkStep StepHas [PString ''Type'', Within [PString ''veth'', PString ''bridge''], PString ''MTU'', Gt (PInt 1400)],
       mkStep StepOut [PString ''Name'', Regex ''eth.*''], mkStep StepSort [PSort SortAscending, PString ''Name''], mkStep StepCount []]"
    by code_simp+
  with query_roundtrip [of sampleQuery] show "\<exists>tx. buildCalls sampleQuery ''G'' = Some tx \<and>
     Parse tx = Some (Inr [mkStep StepContext [NowPredicate, PInt 30], mkStep StepV [],
       mkStep StepHas [PString ''Type'', Within [PString ''veth'', PString ''bridge''], PString ''MTU'', Gt (PInt 1400)],
       mkStep StepOut [PString ''Name'', Regex ''eth.*''], mkStep StepSort [PSort SortAscending, PString ''Name''], mkStep StepCount []])"
    by auto
  have "list_all callReadable [Call ''V'' [], Call ''Flows'' []]" "\<not> list_all callFits [Call ''V'' [], Call ''Flows'' []]"
    by code_simp+
  with query_roundtrip [of "[Call ''V'' [], Call ''Flows'' []]"]
  show "\<exists>tx err. buildCalls [Call ''V'' [], Call ''Flows'' []] ''G'' = Some tx \<and> Parse tx = Some (Inl err)" by auto
qed

text \<open>C31: The parser returns on every text, with the steps or an error: no input makes its loops run on.\<close>

theorem parser_returns: "\<exists>res. Parse s = Some res"
  by (rule Parse_returns)

section \<open>Runs\<close>

text \<open>C25: Merging steps does not change the answer, over the in-memory backend: whenever running the steps one by one succeeds, the
  execution that lets every step absorb the filters and ranges after it succeeds with the same result.  The steps are as the parser
  makes them, which is without an absorbed range, \<^verbatim>\<open>Range\<close> and \<^verbatim>\<open>Limit\<close> with integers that are not negative,
  \<^verbatim>\<open>As\<close> and \<^verbatim>\<open>Select\<close> with parameters (\<open>freshStep\<close>); and no \<^verbatim>\<open>Has\<close> comes right after a
  \<^verbatim>\<open>Range\<close> or \<^verbatim>\<open>Limit\<close>, and neither of those right after a \<^verbatim>\<open>Dedup\<close>, \<^verbatim>\<open>As\<close> or
  \<^verbatim>\<open>Select\<close>, which absorb a range but do not obey it (\<open>wellOrdered\<close>).\<close>

theorem reduce_sound:
  assumes "tp_backend tp = memoryBackend" "list_all freshStep steps" "wellOrdered steps"
    and "plainExec tp steps (TG (NewGraphTraversal g)) = Some (Inr r)"
  shows "\<exists>left. Sequence_Exec tp steps g = Some (left, Inr r)"
  unfolding Sequence_Exec_def by (rule memf.execLoop_sound [OF assms])

theorem reduce_sound_witness:
  "\<exists>left r. Sequence_Exec sampleParams sampleSteps linkedGraph = Some (left, Inr r) \<and> resultNodes r = [1]"
proof -
  have "case plainExec sampleParams sampleSteps (rootOf linkedGraph) of Some (Inr r) \<Rightarrow> resultNodes r = [1] | _ \<Rightarrow> False"
    by code_simp
  then obtain r where r: "plainExec sampleParams sampleSteps (rootOf linkedGraph) = Some (Inr r)" "resultNodes r = [1]"
    by (auto split: option.splits sum.splits)
  have "tp_backend sampleParams = memoryBackend" "list_all freshStep sampleSteps" "wellOrdered sampleSteps"
    by (simp add: sampleParams_def) code_simp+
  from reduce_sound [OF this r(1)] r(2) show ?thesis by blast
qed

text \<open>C32: A \<^verbatim>\<open>Has\<close> with at least two parameters that comes after \<^verbatim>\<open>V()\<close> without parameters and a range is applied
  before the range: over the in-memory backend \<^verbatim>\<open>V().Range(f, u).Has(k, v)\<close>, and \<^verbatim>\<open>Limit\<close> likewise, gives what
  \<^verbatim>\<open>V().Has(k, v).Range(f, u)\<close> gives step by step, whenever the latter succeeds.  A \<^verbatim>\<open>V\<close> that has parameters does not
  absorb the filter.\<close>

theorem filter_before_range:
  assumes "tp_backend tp = memoryBackend" "rangeOfStep n = Some (f, u)" "2 \<le> length ps"
    and "plainExec tp [mkStep StepV [], mkStep StepHas ps, n] (TG (NewGraphTraversal g)) = Some (Inr r)" "PaginationRange n = None"
  shows "\<exists>left. Sequence_Exec tp [mkStep StepV [], n, mkStep StepHas ps] g = Some (left, Inr r)"
proof -
  let ?V = "mkStep StepV []" and ?H = "mkStep StepHas ps"
  let ?m = "\<lparr>kind = StepV, PaginationRange = Some (f, u), Params = ps\<rparr>"
  have k: "kind n \<in> {StepRange, StepLimit}" using rangeOfStep_cases(3) [OF assms(2)] by auto
  have "list_all freshStep [?V, ?H, n]" "wellOrdered [?V, ?H, n]"
    using assms(2,5) k by (auto simp: freshStep_def mayFollow_def mkStep_def)
  then obtain left where "execLoop tp [?V, ?H, n] (rootOf g) = Some (left, Inr r)"
    using memf.execLoop_sound [OF assms(1)] assms(4) by blast
  moreover have "absorb ?V [?H, n] = Some (?m, [?H, n], [])"
    using assms(3) by (simp add: Reduce_range [OF assms(2)] Reduce_has mkStep_def takesRange_def takesHas_def)
  moreover have "absorb ?V [n, ?H] = Some (?m, [n, ?H], [])"
    using assms(3) by (simp add: Reduce_range [OF assms(2)] Reduce_has mkStep_def takesRange_def takesHas_def)
  ultimately show ?thesis by (auto simp: Sequence_Exec_def split: option.splits sum.splits)
qed

theorem filter_before_range_witness:
  "(\<exists>left r. Sequence_Exec sampleParams [mkStep StepV [], mkStep StepLimit [PInt 1], mkStep StepHas [PString ''Type'', PString ''veth'']] linkedGraph =
      Some (left, Inr r) \<and> resultNodes r = [2]) \<and>
   (case plainExec sampleParams [mkStep StepV [], mkStep StepLimit [PInt 1], mkStep StepHas [PString ''Type'', PString ''veth'']]
      (TG (NewGraphTraversal linkedGraph)) of Some (Inr r) \<Rightarrow> resultNodes r = [] | _ \<Rightarrow> False)"
proof
  let ?H = "mkStep StepHas [PString ''Type'', PString ''veth'']" and ?L = "mkStep StepLimit [PInt 1]"
  have "case plainExec sampleParams [mkStep StepV [], ?H, ?L] (rootOf linkedGraph) of Some (Inr r) \<Rightarrow> resultNodes r = [2] | _ \<Rightarrow> False"
    by code_simp
  then obtain r where r: "plainExec sampleParams [mkStep StepV [], ?H, ?L] (rootOf linkedGraph) = Some (Inr r)" "resultNodes r = [2]"
    by (auto split: option.splits sum.splits)
  have "rangeOfStep ?L = Some (0, 1)" by code_simp
  from filter_before_range [OF _ this _ r(1)] r(2)
  show "\<exists>left r. Sequence_Exec sampleParams [mkStep StepV [], ?L, ?H] linkedGraph = Some (left, Inr r) \<and> resultNodes r = [2]"
    by (auto simp: sampleParams_def mkStep_def)
  show "case plainExec sampleParams [mkStep StepV [], ?L, ?H] (TG (NewGraphTraversal linkedGraph)) of
      Some (Inr r) \<Rightarrow> resultNodes r = [] | _ \<Rightarrow> False" by code_simp
qed

text \<open>C33: A run changes the sequence it runs: the range a step has absorbed is applied by the step and again by the range itself
  when the same sequence runs a second time, so its answer is a slice of the slice.\<close>

theorem rerun_slices_twice:
  assumes "rangeOfStep n = Some (f, u)" "PaginationRange n = None"
  shows "\<exists>left left'.
    Sequence_Exec tp [mkStep StepV [], n] g =
      Some (left, Inr (TV (NewGraphTraversal g) (rangeSlice (Some (f, u)) (Graph_GetNodes (tp_backend tp) g None)) [])) \<and>
    Sequence_Exec tp left g =
      Some (left', Inr (TV (NewGraphTraversal g) (rangeSlice (Some (f, u)) (rangeSlice (Some (f, u)) (Graph_GetNodes (tp_backend tp) g None))) []))"
proof -
  let ?V = "mkStep StepV []"
  let ?P = "?V\<lparr>PaginationRange := Some (f, u)\<rparr>"
  note fu = rangeOfStep_cases(1,2) [OF assms(1)]
  have plain: "Exec_step tp ?V (rootOf g) = Some (Inr (TV (NewGraphTraversal g) (Graph_GetNodes (tp_backend tp) g None) []))"
    by (simp add: Exec_defs mkStep_def Traversal_V_def NewGraphTraversal_def)
  have paged: "Exec_step tp ?P (rootOf g) = Some (Inr (TV (NewGraphTraversal g) (rangeSlice (Some (f, u)) (Graph_GetNodes (tp_backend tp) g None)) []))"
    using Exec_step_range [of ?V f u tp "rootOf g"] fu plain by (simp add: sliced_def rangeKinds_def mkStep_def)
  have ran: "ranStep tp ?P v = ?P" for v by (simp add: ranStep_def mkStep_def)
  have ran': "ranStep tp n v = n" for v using rangeOfStep_cases(3) [OF assms(1)] by (auto simp: ranStep_def)
  have "absorb ?V [n] = Some (?P, [n], [])" by (simp add: Reduce_range [OF assms(1)] takesRange_def mkStep_def)
  then have "Sequence_Exec tp [?V, n] g =
      Some ([?P, n], Inr (TV (NewGraphTraversal g) (rangeSlice (Some (f, u)) (Graph_GetNodes (tp_backend tp) g None)) []))"
    by (simp add: Sequence_Exec_def paged ran del: rangeSlice.simps absorb.simps)
  moreover have "absorb ?P [n] = Some (?P, [], [n])" by (simp add: Reduce_range [OF assms(1)] mkStep_def)
  then have "Sequence_Exec tp [?P, n] g =
      Some ([?P, n], Inr (TV (NewGraphTraversal g) (rangeSlice (Some (f, u)) (rangeSlice (Some (f, u)) (Graph_GetNodes (tp_backend tp) g None))) []))"
    by (simp add: Sequence_Exec_def paged ran ran' Exec_step_range_TV [OF assms(1)] del: rangeSlice.simps absorb.simps(2))
  ultimately show ?thesis by blast
qed

theorem rerun_slices_twice_witness:
  "\<exists>left left'.
    Sequence_Exec sampleParams [mkStep StepV [], mkStep StepRange [PInt 1, PInt 3]] linkedGraph = Some (left, Inr (TV (NewGraphTraversal linkedGraph) [1, 2] [])) \<and>
    Sequence_Exec sampleParams left linkedGraph = Some (left', Inr (TV (NewGraphTraversal linkedGraph) [2] []))"
proof -
  have "rangeOfStep (mkStep StepRange [PInt 1, PInt 3]) = Some (1, 3)" "PaginationRange (mkStep StepRange [PInt 1, PInt 3]) = None"
    by code_simp+
  moreover have "Graph_GetNodes (tp_backend sampleParams) linkedGraph None = [0, 1, 2]" by code_simp
  ultimately show ?thesis
    using rerun_slices_twice [of "mkStep StepRange [PInt 1, PInt 3]" 1 3 sampleParams linkedGraph] by (simp add: numeral_2_eq_2 numeral_3_eq_3)
qed

end
