(* ===== verification/Cidr_Regex.thy ===== *)
theory Cidr_Regex
  imports Range_Regex "HOL-Library.Word"
begin

unbundle bit_operations_syntax

text \<open>
  The regular expression of an IPv4 network (\<^verbatim>\<open>IPV4CIDRToRegex\<close> of \<^verbatim>\<open>src/common/types.go\<close>), the
  one the filters compile for a network and the storage back ends send to their databases.  An address is its bytes.  The parsed
  form of the network comes from \<^verbatim>\<open>net.ParseCIDR\<close>, a parameter: the address and the mask it returns.  \<open>None\<close>
  is a panic.
\<close>

section \<open>The code\<close>

type_synonym ip = "8 word list"

record IPNet =
  net_IP :: ip
  net_Mask :: ip

definition v4InV6Prefix :: ip where
  "v4InV6Prefix = replicate 10 0 @ [0xFF, 0xFF]"

text \<open>\<^verbatim>\<open>IP.To4\<close> and \<^verbatim>\<open>IP.Mask\<close>; the empty list is the nil slice.\<close>

definition To4 :: "ip \<Rightarrow> ip" where
  "To4 a = (if length a = 4 then a else if length a = 16 \<and> take 12 a = v4InV6Prefix then drop 12 a else [])"

definition MaskIP :: "ip \<Rightarrow> ip \<Rightarrow> ip" where
  "MaskIP a m =
     (let m = (if length m = 16 \<and> length a = 4 \<and> take 12 m = replicate 12 0xFF then drop 12 m else m);
          a = (if length m = 4 \<and> length a = 16 \<and> take 12 a = v4InV6Prefix then drop 12 a else a)
      in if length a = length m then map2 (AND) a m else [])"

definition indexIP :: "ip \<Rightarrow> nat \<Rightarrow> 8 word option" where
  "indexIP a i = (if i < length a then Some (a ! i) else None)"

text \<open>One round of the loop, with the separator, the group of fixed bytes and the range of the others.\<close>

definition cidrByte :: "8 word \<Rightarrow> 8 word \<Rightarrow> string \<times> bool \<Rightarrow> (string \<times> bool) option" where
  "cidrByte fip lip st =
     (let (regex, groupMask) = st; regex = (if regex \<noteq> [] then regex @ [CHR 0x5C, CHR ''.''] else regex)
      in if fip = lip
         then Some ((if \<not> groupMask then regex @ ''('' else regex) @ Itoa (uint fip), True)
         else map_option (\<lambda>r. ((if groupMask then regex @ '')'' else regex) @ ''('' @ r @ '')'', False))
                (RangeToRegex (uint fip) (uint lip)))"

fun cidrLoop :: "ip \<Rightarrow> ip \<Rightarrow> ip \<Rightarrow> nat list \<Rightarrow> string \<times> bool \<Rightarrow> (string \<times> bool) option" where
  "cidrLoop netIP firstIP ms [] st = Some st"
| "cidrLoop netIP firstIP ms (i # is) st =
     (case (indexIP netIP i, indexIP ms i, indexIP firstIP i) of
        (Some b, Some m, Some fip) \<Rightarrow>
          (case cidrByte fip (b OR NOT m) st of
             None \<Rightarrow> None
           | Some st' \<Rightarrow> cidrLoop netIP firstIP ms is st')
      | _ \<Rightarrow> None)"

definition IPV4CIDRToRegex :: "(string \<Rightarrow> IPNet result) \<Rightarrow> string \<Rightarrow> string result option" where
  "IPV4CIDRToRegex ParseCIDR cidr =
     (case ParseCIDR cidr of
        Inl err \<Rightarrow> Some (Inl err)
      | Inr ipnet \<Rightarrow>
          (let netIP = To4 (net_IP ipnet); firstIP = MaskIP netIP (net_Mask ipnet)
           in map_option (\<lambda>(regex, groupMask). Inr (''^'' @ (if groupMask then regex @ '')'' else regex) @
                  ''('' @ [CHR 0x5C] @ ''/[0-9]?[0-9])?$''))
                (cidrLoop netIP firstIP (net_Mask ipnet) [0, 1, 2, 3] ([], False))))"

section \<open>Languages\<close>

text \<open>What an atom, a sequence and the alternatives consume.\<close>

fun takes :: "atom \<Rightarrow> string \<Rightarrow> bool"
  and takesSeq :: "atom list \<Rightarrow> string \<Rightarrow> bool"
  and takesAlts :: "atom list list \<Rightarrow> string \<Rightarrow> bool" where
  "takes (Lit a) w \<longleftrightarrow> w = [a]"
| "takes (Rng a b) w \<longleftrightarrow> (\<exists>c. w = [c] \<and> a \<le> c \<and> c \<le> b)"
| "takes (Times a b n) w \<longleftrightarrow> length w = n \<and> list_all (\<lambda>c. a \<le> c \<and> c \<le> b) w"
| "takes (Group alts) w \<longleftrightarrow> takesAlts alts w"
| "takes (Opt a) w \<longleftrightarrow> w = [] \<or> takes a w"
| "takesSeq [] w \<longleftrightarrow> w = []"
| "takesSeq (a # q) w \<longleftrightarrow> (\<exists>u v. w = u @ v \<and> takes a u \<and> takesSeq q v)"
| "takesAlts [] w \<longleftrightarrow> False"
| "takesAlts (q # qs) w \<longleftrightarrow> takesSeq q w \<or> takesAlts qs w"

lemma rests_takes:
  "t \<in> set (rests a s) \<longleftrightarrow> (\<exists>w. s = w @ t \<and> takes a w)"
  "t \<in> set (restsSeq q s) \<longleftrightarrow> (\<exists>w. s = w @ t \<and> takesSeq q w)"
  "t \<in> set (restsAlts r s) \<longleftrightarrow> (\<exists>w. s = w @ t \<and> takesAlts r w)"
proof (induction a s and q s and r s arbitrary: t and t and t rule: rests_restsSeq_restsAlts.induct)
  case (1 a s)
  then show ?case by (cases s) auto
next
  case (2 a b s)
  then show ?case by (cases s) auto
next
  case (3 a b n s)
  then show ?case by (auto intro: exI [of _ "take n s"])
next
  case (7 a q s)
  have "t \<in> set (restsSeq (a # q) s) \<longleftrightarrow> (\<exists>u \<in> set (rests a s). t \<in> set (restsSeq q u))" by simp
  also have "\<dots> \<longleftrightarrow> (\<exists>u w v. s = w @ u \<and> takes a w \<and> u = v @ t \<and> takesSeq q v)" using 7 by blast
  also have "\<dots> \<longleftrightarrow> (\<exists>w. s = w @ t \<and> takesSeq (a # q) w)"
    unfolding takesSeq.simps by (metis append_assoc)
  finally show ?case .
qed auto

lemma matches_takes: "matches r s \<longleftrightarrow> takesAlts r s"
  by (simp add: matches_def rests_takes)

lemma takesSeq_append: "takesSeq (p @ q) w \<longleftrightarrow> (\<exists>u v. w = u @ v \<and> takesSeq p u \<and> takesSeq q v)"
proof (induction p arbitrary: w)
  case (Cons a p)
  have "takesSeq ((a # p) @ q) w \<longleftrightarrow> (\<exists>x u v. w = x @ u @ v \<and> takes a x \<and> takesSeq p u \<and> takesSeq q v)"
    using Cons.IH by auto
  also have "\<dots> \<longleftrightarrow> (\<exists>u v. w = u @ v \<and> takesSeq (a # p) u \<and> takesSeq q v)" 
    unfolding takesSeq.simps by (metis append_assoc)
  finally show ?case .
qed simp

lemma takesSeq_Lits: "takesSeq (map Lit v) w \<longleftrightarrow> w = v"
  by (induction v arbitrary: w) auto

lemma takesSeq_group_Lits: "takesSeq (ds @ [Group [map Lit v]]) w \<longleftrightarrow> (\<exists>x. w = x @ v \<and> takesSeq ds x)"
  by (auto simp: takesSeq_append takesSeq_Lits)

lemma takesSeq_Lits_group:
  "takesSeq (ds @ map Lit v @ [Group r]) w \<longleftrightarrow> (\<exists>x u. w = x @ v @ u \<and> takesSeq ds x \<and> takesAlts r u)"
  "takesSeq (ds @ [Group [map Lit v], Group r]) w \<longleftrightarrow> (\<exists>x u. w = x @ v @ u \<and> takesSeq ds x \<and> takesAlts r u)"
  by (simp_all add: takesSeq_append takesSeq_Lits) blast+

section \<open>The expression of a network\<close>

text \<open>The address in text, and the byte-wise ranges.\<close>

definition dots :: "nat list \<Rightarrow> string" where
  "dots ns = joinWith ''.'' (map (\<lambda>n. dec n) ns)"

abbreviation (input) inRanges :: "nat list \<Rightarrow> (nat \<times> nat) list \<Rightarrow> bool" where
  "inRanges ns bs \<equiv> list_all2 (\<lambda>n (f, l). f \<le> n \<and> n \<le> l) ns bs"

lemma dots_nil: "dots [] = []" "dots [n] = dec n"
  by (simp_all add: dots_def)

lemma dots_snoc: "dots (ns @ [n]) = (if ns = [] then dec n else dots ns @ ''.'' @ dec n)"
proof (induction ns)
  case (Cons m ns)
  then show ?case by (cases ns) (simp_all add: dots_def)
qed (simp add: dots_def)

lemma digits_no_dot: "digits w \<Longrightarrow> CHR ''.'' \<notin> set w" "digits w \<Longrightarrow> CHR ''/'' \<notin> set w"
  by (auto simp: list_all_iff less_eq_char_def)

lemma last_dot:
  assumes "digits u" "digits v"
  shows "x @ ''.'' @ u = y @ ''.'' @ v \<longleftrightarrow> x = y \<and> u = v"
proof
  assume eq: "x @ ''.'' @ u = y @ ''.'' @ v"
  have "rev (x @ ''.'' @ u) = rev (y @ ''.'' @ v)" unfolding eq by (rule refl)
  then have r: "rev u @ CHR ''.'' # rev x = rev v @ CHR ''.'' # rev y" by simp
  have cut: "takeWhile (\<lambda>c. c \<noteq> CHR ''.'') (rev a @ CHR ''.'' # b) = rev a" if "digits a" for a b
    using digits_no_dot(1) [OF that] by (subst takeWhile_append2) auto
  have "rev u = rev v" using arg_cong [OF r, of "takeWhile (\<lambda>c. c \<noteq> CHR ''.'')"] cut assms by simp
  then show "x = y \<and> u = v" using eq by simp
qed simp

text \<open>
  The text of the loop is the expression \<open>ds\<close>, then the open group of the literal \<open>w\<close>.
\<close>

definition openText :: "atom list \<Rightarrow> string option \<Rightarrow> string" where
  "openText ds cur = renderSeq ds @ (case cur of None \<Rightarrow> [] | Some w \<Rightarrow> ''('' @ renderSeq (map Lit w))"

definition closed :: "atom list \<Rightarrow> string option \<Rightarrow> atom list" where
  "closed ds cur = ds @ (case cur of None \<Rightarrow> [] | Some w \<Rightarrow> [Group [map Lit w]])"

definition reads :: "(nat \<times> nat) list \<Rightarrow> string \<times> bool \<Rightarrow> bool" where
  "reads bs st \<longleftrightarrow> (\<exists>ds cur. st = (openText ds cur, cur \<noteq> None) \<and> (bs = [] \<longrightarrow> ds = [] \<and> cur = None) \<and>
     (bs \<noteq> [] \<longrightarrow> fst st \<noteq> []) \<and> plainSeq (closed ds cur) \<and>
     (\<forall>w. takesSeq (closed ds cur) w \<longrightarrow> (\<exists>ns. length ns = length bs \<and> w = dots ns)) \<and>
     (\<forall>ns. length ns = length bs \<longrightarrow> takesSeq (closed ds cur) (dots ns) = inRanges ns bs))"

lemma reads_start: "reads [] ([], False)"
  unfolding reads_def by (intro exI [of _ "[]"] exI [of _ None]) (simp add: openText_def closed_def dots_def)

text \<open>Appending a byte: its separator, then what the byte itself accepts.\<close>

lemma reads_append:
  assumes st: "st = (openText ds cur, cur \<noteq> None)" "bs = [] \<longrightarrow> ds = [] \<and> cur = None"
      "\<And>w. takesSeq (closed ds cur) w \<Longrightarrow> \<exists>ns. length ns = length bs \<and> w = dots ns"
    and old: "\<And>ns. length ns = length bs \<Longrightarrow> takesSeq (closed ds cur) (dots ns) = inRanges ns bs"
    and new: "\<And>w. takesSeq (closed ds' cur') w \<longleftrightarrow>
      (\<exists>v u. w = v @ (if bs = [] then [] else ''.'') @ u \<and> takesSeq (closed ds cur) v \<and> B u)"
    and B: "\<And>u. B u \<Longrightarrow> \<exists>n. u = dec n" "\<And>n. B (dec n) \<longleftrightarrow> f \<le> n \<and> n \<le> l"
    and ne: "openText ds' cur' \<noteq> []" "plainSeq (closed ds' cur')"
  shows "reads (bs @ [(f, l)]) (openText ds' cur', cur' \<noteq> None)"
  unfolding reads_def
proof (rule exI [of _ ds'], rule exI [of _ cur'], intro conjI allI impI)
  fix ns :: "nat list" assume len: "length ns = length (bs @ [(f, l)])"
  then obtain ms n where ns: "ns = ms @ [n]" "length ms = length bs" by (cases ns rule: rev_cases) auto
  show "takesSeq (closed ds' cur') (dots ns) = inRanges ns (bs @ [(f, l)])"
  proof (cases "bs = []")
    case True
    then show ?thesis using ns st(2) B(2) dots_snoc [of "[]" n] unfolding new by (simp add: closed_def)
  next
    case False
    then have "takesSeq (closed ds' cur') (dots ns) \<longleftrightarrow>
        (\<exists>v u. dots ms @ ''.'' @ dec n = v @ ''.'' @ u \<and> takesSeq (closed ds cur) v \<and> B u)"
      using ns unfolding new by (auto simp: dots_snoc)
    also have "\<dots> \<longleftrightarrow> (\<exists>v u. (v = dots ms \<and> u = dec n) \<and> takesSeq (closed ds cur) v \<and> B u)"
    proof -
      have "(dots ms @ ''.'' @ dec n = v @ ''.'' @ u) = (v = dots ms \<and> u = dec n)" if "B u" for u v
        using B(1) [OF that] last_dot [OF dec_digits dec_digits] by (metis (no_types))
      then show ?thesis by blast
    qed
    also have "\<dots> \<longleftrightarrow> takesSeq (closed ds cur) (dots ms) \<and> B (dec n)" by blast
    also have "\<dots> \<longleftrightarrow> inRanges ns (bs @ [(f, l)])"
      using old [OF ns(2)] B(2) ns by (simp add: list_all2_append)
    finally show ?thesis .
  qed
next
  fix w assume "takesSeq (closed ds' cur') w"
  then obtain v u where "w = v @ (if bs = [] then [] else ''.'') @ u" "takesSeq (closed ds cur) v" "B u"
    unfolding new by blast
  moreover from this obtain ms n where "length ms = length bs" "v = dots ms" "u = dec n" using st(3) B(1) by blast
  ultimately show "\<exists>ns. length ns = length (bs @ [(f, l)]) \<and> w = dots ns"
    by (cases "bs = []") (auto simp: dots_snoc dots_nil intro!: exI [of _ "ms @ [n]"])
qed (use ne in simp_all)

lemma cidrByte_reads:
  assumes rd: "reads bs st" and le: "fip \<le> lip"
  shows "\<exists>st'. cidrByte fip lip st = Some st' \<and> reads (bs @ [(unat fip, unat lip)]) st'"
proof -
  obtain ds cur where st: "st = (openText ds cur, cur \<noteq> None)" "bs = [] \<longrightarrow> ds = [] \<and> cur = None" "bs \<noteq> [] \<longrightarrow> fst st \<noteq> []" "plainSeq (closed ds cur)"
    and slash: "\<And>w. takesSeq (closed ds cur) w \<Longrightarrow> \<exists>ns. length ns = length bs \<and> w = dots ns" and old: "\<And>ns. length ns = length bs \<Longrightarrow> takesSeq (closed ds cur) (dots ns) = inRanges ns bs"
    using rd unfolding reads_def by blast
  let ?dot = "if bs = [] then [] else ''.''"
  have emp: "openText ds cur = [] \<longleftrightarrow> bs = []" using st by (auto simp: openText_def)
  note app = reads_append [OF st(1,2) slash old]
  show ?thesis
  proof (cases "fip = lip")
    case True
    define ds' where "ds' = (if cur = None then ds @ map Lit ?dot else ds)"
    define w' where "w' = (case cur of None \<Rightarrow> [] | Some w \<Rightarrow> w @ ?dot) @ dec (unat fip)"
    have tx: "cidrByte fip lip st = Some (openText ds' (Some w'), True)"
      using True emp renderSeq_Lits [OF dec_digits, of "unat fip"]
      by (cases cur) (simp_all add: cidrByte_def st(1) Let_def Itoa_def openText_def ds'_def w'_def renderLit_def)
    have "takesSeq (closed ds' (Some w')) w \<longleftrightarrow>
        (\<exists>v u. w = v @ ?dot @ u \<and> takesSeq (closed ds cur) v \<and> u = dec (unat fip))" for w
      by (cases cur) (auto simp: closed_def ds'_def w'_def takesSeq_append takesSeq_Lits simp del: map_append)
    moreover have "plainSeq (closed ds' (Some w'))"
      using st(4) dec_digits [of "unat fip"] by (cases cur) (auto simp: closed_def ds'_def w'_def plainSeq_iff plain_iff list_all_iff)
    ultimately have "reads (bs @ [(unat fip, unat lip)]) (openText ds' (Some w'), Some w' \<noteq> None)"
      using True dec_inj by (intro app [where B = "\<lambda>u. u = dec (unat fip)"]) (auto simp: openText_def)
    then show ?thesis using tx by simp
  next
    case False
    have "unat fip \<le> unat lip" using le by (simp add: word_le_nat_alt)
    moreover have "unat lip < 2 ^ 8" using unsigned_less [of lip] by simp
    ultimately obtain r where r: "RangeToRegex (uint fip) (uint lip) = Some (render r)" "list_all (list_all digitAtom) r"
      "\<And>n. matches r (dec n) \<longleftrightarrow> unat fip \<le> n \<and> n \<le> unat lip" "\<And>w. matches r w \<Longrightarrow> \<exists>n. w = dec n"
      using RangeToRegex_exact [of "unat lip" "unat fip"] by auto
    define ds' where "ds' = (case cur of None \<Rightarrow> ds @ map Lit ?dot | Some w \<Rightarrow> ds @ [Group [map Lit (w @ ?dot)]]) @ [Group r]"
    have tx: "cidrByte fip lip st = Some (openText ds' None, False)"
      using False emp r(1)
      by (cases cur) (simp_all add: cidrByte_def st(1) Let_def openText_def ds'_def renderLit_def)
    have "takesSeq (closed ds' None) w \<longleftrightarrow>
        (\<exists>v u. w = v @ ?dot @ u \<and> takesSeq (closed ds cur) v \<and> takesAlts r u)" for w
    proof (cases cur)
      case (Some v)
      have "takesSeq (closed ds' None) w \<longleftrightarrow> (\<exists>x u. w = (x @ v) @ ?dot @ u \<and> takesSeq ds x \<and> takesAlts r u)"
        using takesSeq_Lits_group(2) [of ds "v @ ?dot" r w] Some by (simp add: closed_def ds'_def)
      also have "\<dots> \<longleftrightarrow> (\<exists>y u. w = y @ ?dot @ u \<and> (\<exists>x. y = x @ v \<and> takesSeq ds x) \<and> takesAlts r u)" by blast
      also have "(\<lambda>y. \<exists>x. y = x @ v \<and> takesSeq ds x) = takesSeq (closed ds cur)"
        using Some by (simp add: closed_def takesSeq_group_Lits fun_eq_iff)
      finally show ?thesis .
    qed (use takesSeq_Lits_group(1) [of ds ?dot r w] in \<open>simp add: closed_def ds'_def\<close>)
    moreover have "plainSeq (closed ds' None)"
      using st(4) digits_plain [OF r(2)] by (cases cur) (auto simp: closed_def ds'_def plainSeq_iff plain_iff list_all_iff)
    ultimately have "reads (bs @ [(unat fip, unat lip)]) (openText ds' None, None \<noteq> (None :: string option))"
      using r(3,4)
      by (intro app [where B = "takesAlts r"]) (auto simp: openText_def ds'_def matches_takes)
    then show ?thesis using tx by simp
  qed
qed

text \<open>The mask of a prefix length, and the range of a byte under it.\<close>

definition cidrMask :: "nat \<Rightarrow> ip" where
  "cidrMask p = map (\<lambda>i. NOT (mask (8 - (p - 8 * i)))) [0, 1, 2, 3]"

lemma unat_and_not_mask: "unat (x AND NOT (mask k) :: 8 word) = unat x div 2 ^ k * 2 ^ k"
proof -
  have "unat (x AND NOT (mask k) :: 8 word) = push_bit k (drop_bit k (unat x))"
    by (rule bit_eqI) (auto simp: bit_simps dest: bit_imp_le_length)
  then show ?thesis by (simp add: push_bit_eq_mult drop_bit_eq_div)
qed

lemma unat_or_mask:
  assumes "k \<le> 8"
  shows "unat (x OR mask k :: 8 word) = unat x div 2 ^ k * 2 ^ k + (2 ^ k - 1)"
proof -
  have "unat (x OR mask k :: 8 word) = push_bit k (drop_bit k (unat x)) OR mask k"
    by (rule bit_eqI) (use assms in \<open>auto simp: bit_simps\<close>)
  also have "\<dots> = push_bit k (drop_bit k (unat x)) + mask k"
    by (rule disjunctive_add [symmetric]) (auto simp: bit_simps)
  finally show ?thesis by (simp add: push_bit_eq_mult drop_bit_eq_div mask_eq_exp_minus_1)
qed

lemma same_block: "(0 :: nat) < m \<Longrightarrow> n div m * m \<le> x \<and> x \<le> n div m * m + (m - 1) \<longleftrightarrow> x div m = n div m"
proof -
  assume m: "0 < m"
  have "x div m = n div m \<longleftrightarrow> n div m * m \<le> x \<and> x < (n div m + 1) * m"
    using m by (metis Suc_eq_plus1 div_less_iff_less_mult dividend_less_div_times div_times_less_eq_dividend
        less_Suc_eq_le order_antisym_conv less_eq_div_iff_mult_less_eq)
  then show ?thesis using m by auto
qed

lemma byte_range:
  assumes "k \<le> 8"
  shows "n AND NOT (mask k) \<le> n OR mask k"
    "unat (n AND NOT (mask k)) \<le> unat x \<and> unat x \<le> unat (n OR mask k) \<longleftrightarrow>
       x AND NOT (mask k) = (n AND NOT (mask k) :: 8 word)"
proof -
  show "n AND NOT (mask k) \<le> n OR mask k"
    unfolding word_le_nat_alt unat_and_not_mask unat_or_mask [OF assms] by (rule le_add1)
  have "x AND NOT (mask k) = n AND NOT (mask k) \<longleftrightarrow> unat x div 2 ^ k * 2 ^ k = unat n div 2 ^ k * 2 ^ k"
    unfolding word_unat_eq_iff unat_and_not_mask ..
  then show "unat (n AND NOT (mask k)) \<le> unat x \<and> unat x \<le> unat (n OR mask k) \<longleftrightarrow>
       x AND NOT (mask k) = (n AND NOT (mask k) :: 8 word)"
    unfolding unat_and_not_mask unat_or_mask [OF assms] using same_block [of "2 ^ k" "unat n" "unat x"] by simp
qed

section \<open>Addresses\<close>

text \<open>An address may be followed by a prefix length.\<close>

definition prefixAtom :: atom where
  "prefixAtom = Opt (Group [[Lit (CHR ''/''), Opt (Rng (CHR ''0'') (CHR ''9'')), Rng (CHR ''0'') (CHR ''9'')]])"

definition prefixSuffix :: "string \<Rightarrow> bool" where
  "prefixSuffix w \<longleftrightarrow> w = [] \<or> (hd w = CHR ''/'' \<and> digits (tl w) \<and> length (tl w) \<in> {1, 2})"

lemma takes_prefix: "takes prefixAtom w \<longleftrightarrow> prefixSuffix w"
proof (cases w)
  case (Cons c t)
  have "takes prefixAtom w \<longleftrightarrow> c = CHR ''/'' \<and> takesSeq [Opt (Rng (CHR ''0'') (CHR ''9'')), Rng (CHR ''0'') (CHR ''9'')] t"
    using Cons by (auto simp: prefixAtom_def)
  also have "takesSeq [Opt (Rng (CHR ''0'') (CHR ''9'')), Rng (CHR ''0'') (CHR ''9'')] t \<longleftrightarrow>
      digits t \<and> length t \<in> {1, 2}"
    by (cases t; cases "tl t"; cases "tl (tl t)") (auto simp: Cons_eq_append_conv)
  finally show ?thesis using Cons by (simp add: prefixSuffix_def)
qed (simp add: prefixAtom_def prefixSuffix_def)

lemma dots_no_slash: "CHR ''/'' \<notin> set (dots ns)"
proof (induction ns rule: rev_induct)
  case (snoc n ns)
  then show ?case using digits_no_dot(2) [OF dec_digits, of n] by (simp add: dots_snoc)
qed (simp add: dots_def)

lemma prefix_cut:
  "CHR ''/'' \<notin> set w \<Longrightarrow> prefixSuffix sfx \<Longrightarrow> takeWhile (\<lambda>c. c \<noteq> CHR ''/'') (w @ sfx) = w"
  by (cases sfx) (auto simp: prefixSuffix_def takeWhile_append)

lemma takes_with_prefix:
  assumes q: "\<And>w. takesSeq q w \<Longrightarrow> CHR ''/'' \<notin> set w" and sfx: "prefixSuffix sfx"
  shows "takesSeq (q @ [prefixAtom]) (dots ns @ sfx) \<longleftrightarrow> takesSeq q (dots ns)"
proof
  assume "takesSeq (q @ [prefixAtom]) (dots ns @ sfx)"
  then obtain u v where uv: "dots ns @ sfx = u @ v" "takesSeq q u" "prefixSuffix v"
    by (auto simp: takesSeq_append takes_prefix)
  have "u = dots ns"
    using prefix_cut [OF dots_no_slash sfx, of ns] prefix_cut [OF q [OF uv(2)] uv(3)] uv(1) by simp
  then show "takesSeq q (dots ns)" using uv(2) by simp
qed (use sfx in \<open>auto simp: takesSeq_append takes_prefix\<close>)

lemma four_bytes: "length x = 4 \<longleftrightarrow> (\<exists>a b c d. x = [a, b, c, d])"
  by (auto simp: length_Suc_conv eval_nat_numeral)

lemma cidrLoop_step:
  assumes "reads bs st" "i < length a" "i < 4" "length a = 4"
  shows "\<exists>st'. cidrLoop a (MaskIP a (cidrMask p)) (cidrMask p) (i # is) st = cidrLoop a (MaskIP a (cidrMask p)) (cidrMask p) is st' \<and>
    reads (bs @ [(unat (a ! i AND cidrMask p ! i), unat (a ! i OR NOT (cidrMask p ! i)))]) st'"
proof -
  let ?k = "8 - (p - 8 * i)"
  have i: "i = 0 \<or> i = 1 \<or> i = 2 \<or> i = 3" using assms(3) by arith
  then have m: "cidrMask p ! i = NOT (mask ?k)" by (auto simp: cidrMask_def)
  have len: "length (cidrMask p) = 4" by (simp add: cidrMask_def)
  have "MaskIP a (cidrMask p) = map2 (AND) a (cidrMask p)" using assms(4) len by (simp add: MaskIP_def)
  then have f: "indexIP (MaskIP a (cidrMask p)) i = Some (a ! i AND cidrMask p ! i)"
    using assms(3,4) len by (simp add: indexIP_def)
  have "a ! i AND cidrMask p ! i \<le> a ! i OR NOT (cidrMask p ! i)" using byte_range(1) [of ?k "a ! i"] m by simp
  from cidrByte_reads [OF assms(1) this] obtain st' where st': "cidrByte (a ! i AND cidrMask p ! i) (a ! i OR NOT (cidrMask p ! i)) st = Some st'"
    "reads (bs @ [(unat (a ! i AND cidrMask p ! i), unat (a ! i OR NOT (cidrMask p ! i)))]) st'" by blast
  then show ?thesis using f assms(3,4) len by (intro exI [of _ st']) (simp add: indexIP_def)
qed

lemma cidrLoop_reads:
  assumes "length a = 4"
  shows "\<exists>st. cidrLoop a (MaskIP a (cidrMask p)) (cidrMask p) [0, 1, 2, 3] ([], False) = Some st \<and>
    reads (map (\<lambda>i. (unat (a ! i AND cidrMask p ! i), unat (a ! i OR NOT (cidrMask p ! i)))) [0, 1, 2, 3]) st"
proof -
  let ?b = "\<lambda>i. (unat (a ! i AND cidrMask p ! i), unat (a ! i OR NOT (cidrMask p ! i)))"
  let ?loop = "cidrLoop a (MaskIP a (cidrMask p)) (cidrMask p)"
  note step = cidrLoop_step [OF _ _ _ assms, of _ _ _ p]
  obtain s0 where s0: "?loop [0, 1, 2, 3] ([], False) = ?loop [1, 2, 3] s0" "reads [?b 0] s0"
    using step [OF reads_start, of 0 "[1, 2, 3]"] assms by auto
  obtain s1 where s1: "?loop [1, 2, 3] s0 = ?loop [2, 3] s1" "reads [?b 0, ?b 1] s1"
    using step [OF s0(2), of 1 "[2, 3]"] assms by auto
  obtain s2 where s2: "?loop [2, 3] s1 = ?loop [3] s2" "reads [?b 0, ?b 1, ?b 2] s2"
    using step [OF s1(2), of 2 "[3]"] assms by auto
  obtain s3 where s3: "?loop [3] s2 = ?loop [] s3" "reads [?b 0, ?b 1, ?b 2, ?b 3] s3"
    using step [OF s2(2), of 3 "[]"] assms by auto
  show ?thesis using s0(1) s1(1) s2(1) s3 by simp
qed

lemma inRanges_masked:
  assumes "length n = 4" "length x = 4"
  shows "inRanges (map unat x) (map (\<lambda>i. (unat (n ! i AND cidrMask p ! i), unat (n ! i OR NOT (cidrMask p ! i)))) [0, 1, 2, 3]) \<longleftrightarrow>
    MaskIP x (cidrMask p) = MaskIP n (cidrMask p)"
proof -
  obtain a b c d where n: "n = [a, b, c, d]" using assms(1) unfolding four_bytes by blast
  obtain a' b' c' d' where x: "x = [a', b', c', d']" using assms(2) unfolding four_bytes by blast
  obtain k0 k1 k2 k3 where k: "k0 \<le> 8" "k1 \<le> 8" "k2 \<le> 8" "k3 \<le> 8"
    and m: "cidrMask p = [NOT (mask k0), NOT (mask k1), NOT (mask k2), NOT (mask k3)]"
    by (rule that [of "8 - (p - 8 * 0)" "8 - (p - 8 * 1)" "8 - (p - 8 * 2)" "8 - (p - 8 * 3)"])
      (simp_all add: cidrMask_def)
  have mk: "MaskIP [s, t, u, v] (cidrMask p) =
      [s AND NOT (mask k0), t AND NOT (mask k1), u AND NOT (mask k2), v AND NOT (mask k3)]" for s t u v
    by (simp add: MaskIP_def m)
  have at: "[s, t, u, v] ! 0 = s" "[s, t, u, v] ! 1 = t" "[s, t, u, v] ! 2 = u" "[s, t, u, v] ! 3 = v" for s t u v :: "8 word"
    by simp_all
  show ?thesis
    unfolding n x mk unfolding m list.map at list_all2_Cons list_all2_Nil list.inject prod.case bit.double_compl
      byte_range(2) [OF k(1)] byte_range(2) [OF k(2)] byte_range(2) [OF k(3)] byte_range(2) [OF k(4)] by blast
qed

lemma inRanges_bytes:
  assumes "inRanges ns (map (\<lambda>i. (lo i, unat (hi i :: 8 word))) [0, 1, 2, 3 :: nat])"
  obtains x :: ip where "length x = 4" "ns = map unat x"
proof -
  have "length ns = 4" using list_all2_lengthD [OF assms] by simp
  moreover have "m < 2 ^ LENGTH(8)" if "m \<in> set ns" for m
  proof -
    from that obtain i where "i < length ns" "m = ns ! i" by (auto simp: in_set_conv_nth)
    then obtain h :: "8 word" where "m \<le> unat h" using list_all2_nthD [OF assms, of i] \<open>length ns = 4\<close> by (auto simp: nth_Cons split: nat.splits)
    then show ?thesis using order_le_less_trans [OF _ unsigned_less [of h]] by simp
  qed
  then have "map unat (map of_nat ns :: ip) = ns" by (auto simp: unsigned_of_nat take_bit_eq_mod intro!: map_idI)
  ultimately show thesis using that [of "map of_nat ns"] by simp
qed

lemma IPV4CIDRToRegex_exact:
  assumes pr: "ParseCIDR cidr = Inr \<lparr>net_IP = n, net_Mask = cidrMask p\<rparr>" and n: "length n = 4"
  shows "\<exists>q. IPV4CIDRToRegex ParseCIDR cidr = Some (Inr (''^'' @ render [q] @ ''$'')) \<and> plain [q] \<and>
    (\<forall>x sfx. length x = 4 \<and> prefixSuffix sfx \<longrightarrow>
       matches [q] (dots (map unat x) @ sfx) = (MaskIP x (cidrMask p) = MaskIP n (cidrMask p))) \<and>
    (\<forall>w. matches [q] w \<longrightarrow> (\<exists>x :: ip. \<exists>sfx. length x = 4 \<and> prefixSuffix sfx \<and> w = dots (map unat x) @ sfx))"
proof -
  let ?bs = "map (\<lambda>i. (unat (n ! i AND cidrMask p ! i), unat (n ! i OR NOT (cidrMask p ! i)))) [0, 1, 2, 3]"
  obtain st where loop: "cidrLoop n (MaskIP n (cidrMask p)) (cidrMask p) [0, 1, 2, 3] ([], False) = Some st" and
    rd: "reads ?bs st" using cidrLoop_reads [OF n, of p] by blast
  obtain ds cur where st: "st = (openText ds cur, cur \<noteq> None)" and pl: "plainSeq (closed ds cur)" and
    tx: "\<And>w. takesSeq (closed ds cur) w \<Longrightarrow> \<exists>ns. length ns = length ?bs \<and> w = dots ns" and
    rng: "\<And>ns. length ns = length ?bs \<Longrightarrow> takesSeq (closed ds cur) (dots ns) = inRanges ns ?bs"
    using rd unfolding reads_def by blast
  have slash: "CHR ''/'' \<notin> set w" if "takesSeq (closed ds cur) w" for w using tx [OF that] dots_no_slash by blast
  let ?q = "closed ds cur @ [prefixAtom]"
  have "To4 n = n" using n by (simp add: To4_def)
  then have "IPV4CIDRToRegex ParseCIDR cidr = Some (Inr (''^'' @ render [?q] @ ''$''))"
    using loop by (cases cur) (simp_all add: IPV4CIDRToRegex_def pr st openText_def closed_def prefixAtom_def renderLit_def)
  moreover have "matches [?q] (dots (map unat x) @ sfx) = (MaskIP x (cidrMask p) = MaskIP n (cidrMask p))"
    if x: "length x = 4" and sfx: "prefixSuffix sfx" for x sfx
  proof -
    have "matches [?q] (dots (map unat x) @ sfx) = takesSeq (closed ds cur) (dots (map unat x))"
      using takes_with_prefix [OF slash sfx] by (simp add: matches_takes)
    also have "\<dots> = inRanges (map unat x) ?bs" by (rule rng) (simp add: x)
    finally show ?thesis using inRanges_masked [OF n x] by simp
  qed
  moreover have "\<exists>x :: ip. \<exists>sfx. length x = 4 \<and> prefixSuffix sfx \<and> w = dots (map unat x) @ sfx" if "matches [?q] w" for w
  proof -
    from that obtain u v where uv: "w = u @ v" "takesSeq (closed ds cur) u" "prefixSuffix v"
      by (auto simp: matches_takes takesSeq_append takes_prefix)
    from tx [OF uv(2)] obtain ns where ns: "length ns = length ?bs" "u = dots ns" by blast
    then have "inRanges ns ?bs" using rng [of ns] uv(2) by simp
    then obtain x :: ip where "length x = 4" "ns = map unat x" by (rule inRanges_bytes)
    then show ?thesis using uv(1,3) ns(2) by blast
  qed
  moreover have "plain [?q]" using pl by (simp add: plainSeq_iff prefixAtom_def)
  ultimately show ?thesis by (intro exI [of _ ?q]) blast
qed

lemma IPV4CIDRToRegex_panics:
  assumes "ParseCIDR cidr = Inr ipnet" "To4 (net_IP ipnet) = []"
  shows "IPV4CIDRToRegex ParseCIDR cidr = None"
  using assms by (simp add: IPV4CIDRToRegex_def indexIP_def)

section \<open>Properties\<close>

text \<open>C27: the expression of a range of numbers exists and, anchored, matches exactly the decimal texts of the numbers of the
  range, and no other text.\<close>

theorem range_regex:
  assumes "mn \<le> mx" "mx + 1 < 10 ^ 18"
  shows "\<exists>r. RangeToRegex (int mn) (int mx) = Some (render r) \<and> plain r \<and>
    (\<forall>n. matches r (FormatUint n 10) \<longleftrightarrow> mn \<le> n \<and> n \<le> mx) \<and> (\<forall>w. matches r w \<longrightarrow> (\<exists>n. w = FormatUint n 10))"
  using RangeToRegex_exact [OF assms(2,1)] digits_plain by blast

theorem range_regex_witness:
  "\<exists>r. RangeToRegex (int 7) (int 1234) = Some (render r) \<and> plain r \<and> (\<forall>n. matches r (FormatUint n 10) \<longleftrightarrow> 7 \<le> n \<and> n \<le> 1234)"
  using range_regex [of 7 1234] by auto

text \<open>C28: the expression of an IPv4 network exists and, anchored, matches the dotted texts of exactly the addresses of the network,
  those equal to the network's address under its mask, each alone or followed by a slash and one or two digits, and it matches
  no other text.\<close>

theorem cidr_regex:
  assumes "ParseCIDR cidr = Inr \<lparr>net_IP = n, net_Mask = cidrMask p\<rparr>" "length n = 4"
  shows "\<exists>q. IPV4CIDRToRegex ParseCIDR cidr = Some (Inr (''^'' @ render [q] @ ''$'')) \<and> plain [q] \<and>
    (\<forall>w. matches [q] w \<longleftrightarrow>
       (\<exists>x sfx. length x = 4 \<and> prefixSuffix sfx \<and> w = joinWith ''.'' (map (\<lambda>b. FormatUint (unat b) 10) x) @ sfx \<and>
          map2 (AND) x (cidrMask p) = map2 (AND) n (cidrMask p))) \<and>
    (\<forall>x sfx. length x = 4 \<and> prefixSuffix sfx \<longrightarrow>
       matches [q] (joinWith ''.'' (map (\<lambda>b. FormatUint (unat b) 10) x) @ sfx) =
         (map2 (AND) x (cidrMask p) = map2 (AND) n (cidrMask p)))"
proof -
  have len: "length (cidrMask p) = 4" by (simp add: cidrMask_def)
  have mk: "length x = 4 \<Longrightarrow> MaskIP x (cidrMask p) = map2 (AND) x (cidrMask p)" for x by (simp add: MaskIP_def len)
  have dt: "dots (map unat x) = joinWith ''.'' (map (\<lambda>b. FormatUint (unat b) 10) x)" for x :: ip
    by (simp add: dots_def comp_def)
  obtain q where q: "IPV4CIDRToRegex ParseCIDR cidr = Some (Inr (''^'' @ render [q] @ ''$''))" "plain [q]"
    "\<And>x sfx. length x = 4 \<Longrightarrow> prefixSuffix sfx \<Longrightarrow>
       matches [q] (dots (map unat x) @ sfx) = (MaskIP x (cidrMask p) = MaskIP n (cidrMask p))"
    "\<And>w. matches [q] w \<Longrightarrow> \<exists>x :: ip. \<exists>sfx. length x = 4 \<and> prefixSuffix sfx \<and> w = dots (map unat x) @ sfx"
    using IPV4CIDRToRegex_exact [of ParseCIDR cidr n p] assms by blast
  have m: "matches [q] (joinWith ''.'' (map (\<lambda>b. FormatUint (unat b) 10) x) @ sfx) =
         (map2 (AND) x (cidrMask p) = map2 (AND) n (cidrMask p))" if "length x = 4" "prefixSuffix sfx" for x sfx
    using q(3) [OF that] unfolding dt mk [OF that(1)] mk [OF assms(2)] .
  have "matches [q] w \<longleftrightarrow>
       (\<exists>x sfx. length x = 4 \<and> prefixSuffix sfx \<and> w = joinWith ''.'' (map (\<lambda>b. FormatUint (unat b) 10) x) @ sfx \<and>
          map2 (AND) x (cidrMask p) = map2 (AND) n (cidrMask p))" for w
    using m q(4) [of w, unfolded dt] by blast
  then show ?thesis using q(1,2) m by blast
qed

definition sampleParse :: "string \<Rightarrow> IPNet result" where
  "sampleParse s = Inr \<lparr>net_IP = [192, 168, 20, 0], net_Mask = [255, 255, 252, 0]\<rparr>"

theorem cidr_regex_witness:
  "\<exists>q. IPV4CIDRToRegex sampleParse ''192.168.20.0/22'' = Some (Inr (''^'' @ render [q] @ ''$'')) \<and>
     matches [q] ''192.168.23.7'' \<and> \<not> matches [q] ''192.168.24.7''"
proof -
  have m: "cidrMask 22 = [255, 255, 252, 0]" by (simp add: cidrMask_def mask_eq_exp_minus_1)
  have p: "sampleParse ''192.168.20.0/22'' = Inr \<lparr>net_IP = [192, 168, 20, 0], net_Mask = cidrMask 22\<rparr>"
    by (simp add: sampleParse_def m)
  obtain q where q: "IPV4CIDRToRegex sampleParse ''192.168.20.0/22'' = Some (Inr (''^'' @ render [q] @ ''$''))"
    "\<forall>x sfx. length x = 4 \<and> prefixSuffix sfx \<longrightarrow> matches [q] (joinWith ''.'' (map (\<lambda>b. FormatUint (unat b) 10) x) @ sfx) =
         (map2 (AND) x (cidrMask 22) = map2 (AND) [192, 168, 20, 0] (cidrMask 22))"
    using cidr_regex [of sampleParse "''192.168.20.0/22''" "[192, 168, 20, 0]" 22, OF p] by force
  have q2: "length x = 4 \<Longrightarrow> matches [q] (joinWith ''.'' (map (\<lambda>b. FormatUint (unat b) 10) x)) =
         (map2 (AND) x (cidrMask 22) = map2 (AND) [192, 168, 20, 0] (cidrMask 22))" for x
    using spec [OF spec [OF q(2), of x], of "[]"] by (simp add: prefixSuffix_def)
  have "matches [q] ''192.168.23.7''" using q2 [of "[192, 168, 23, 7]"] by (simp add: m FormatUint.simps hexDigit_def)
  moreover have "\<not> matches [q] ''192.168.24.7''" using q2 [of "[192, 168, 24, 7]"] by (simp add: m FormatUint.simps hexDigit_def)
  ultimately show ?thesis using q(1) by blast
qed

end
