(* ===== verification/Openflow_Parser.thy ===== *)
theory Openflow_Parser
  imports Sky_Prelude "HOL-Library.Char_ord"
begin

text \<open>
  The parser for the rules and groups that \<^verbatim>\<open>ovs-ofctl\<close> prints
  (\<^verbatim>\<open>src/topology/probes/ovsdb/jsonof/ovs_rule_parser.go\<close>).  A stream is the text that is left: a token is only ever
  put back right after it was read, so \<^verbatim>\<open>unscan\<close> is the text before the token.  The texts are in ASCII, and the
  character 0 ends them as in the code.  A pointer is an option, and \<open>None\<close> as the result of a function is a panic.
\<close>

section \<open>Data\<close>

datatype Action = Action (act_Action: string) (act_Arguments: "Action option list") (act_Key: string)

record OFFilter =
  of_Key :: string
  of_Value :: string
  of_Mask :: string

record Meta =
  me_Key :: string
  me_Value :: string

record JSONRule =
  ru_Cookie :: int
  ru_Table :: int
  ru_Priority :: int
  ru_Meta :: "Meta list"
  ru_Filters :: "OFFilter list"
  ru_Actions :: "Action option list"
  ru_UUID :: string
  ru_RawFilter :: string

record Bucket =
  bu_ID :: int
  bu_Meta :: "Meta list"
  bu_Actions :: "Action option list"

record JSONGroup =
  gr_GroupID :: int
  gr_Type :: string
  gr_Meta :: "Meta list"
  gr_Buckets :: "Bucket list"
  gr_UUID :: string

text \<open>The zero values of the types.\<close>

definition emptyRule :: JSONRule where
  "emptyRule = \<lparr>ru_Cookie = 0, ru_Table = 0, ru_Priority = 0, ru_Meta = [], ru_Filters = [], ru_Actions = [], ru_UUID = [], ru_RawFilter = []\<rparr>"

definition emptyBucket :: Bucket where
  "emptyBucket = \<lparr>bu_ID = 0, bu_Meta = [], bu_Actions = []\<rparr>"

definition emptyGroup :: JSONGroup where
  "emptyGroup = \<lparr>gr_GroupID = 0, gr_Type = [], gr_Meta = [], gr_Buckets = [], gr_UUID = []\<rparr>"

datatype OFToken = tEOF | tText | tSpace | tComma | tEqual | tClosePar

section \<open>Strings\<close>

definition NUL :: char where
  "NUL = CHR 0x00"

text \<open>\<^verbatim>\<open>strings.Index\<close> with the two slices around the place it finds.\<close>

fun cutAt :: "string \<Rightarrow> string \<Rightarrow> (string \<times> string) option" where
  "cutAt sep [] = (if sep = [] then Some ([], []) else None)"
| "cutAt sep (c # s) =
     (if take (length sep) (c # s) = sep then Some ([], drop (length sep) (c # s))
      else map_option (\<lambda>(l, r). (c # l, r)) (cutAt sep s))"

text \<open>\<^verbatim>\<open>strings.Split\<close> at a character.\<close>

fun splitChar :: "char \<Rightarrow> string \<Rightarrow> string list" where
  "splitChar d [] = [[]]"
| "splitChar d (c # s) =
     (if c = d then [] # splitChar d s
      else case splitChar d s of w # ws \<Rightarrow> (c # w) # ws | [] \<Rightarrow> [[c]])"

text \<open>\<^verbatim>\<open>strconv.ParseUint\<close>: the value is 0 after a syntax error and the largest one beyond the range.\<close>

definition digitVal :: "char \<Rightarrow> int" where
  "digitVal c =
     (if CHR ''0'' \<le> c \<and> c \<le> CHR ''9'' then of_char c - 48
      else if CHR ''a'' \<le> c \<and> c \<le> CHR ''z'' then of_char c - 87
      else if CHR ''A'' \<le> c \<and> c \<le> CHR ''Z'' then of_char c - 55
      else 36)"

fun uintLoop :: "int \<Rightarrow> int \<Rightarrow> int \<Rightarrow> string \<Rightarrow> int \<times> bool" where
  "uintLoop base m n [] = (n, True)"
| "uintLoop base m n (c # s) =
     (if digitVal c \<ge> base then (0, False)
      else if n * base + digitVal c > m then (m, False)
      else uintLoop base m (n * base + digitVal c) s)"

definition ParseUint :: "string \<Rightarrow> int \<Rightarrow> nat \<Rightarrow> int \<times> bool" where
  "ParseUint s base bits =
     (let m = 2 ^ bits - 1 in
      if s = [] then (0, False)
      else if base \<noteq> 0 then uintLoop base m 0 s
      else if hd s = CHR ''0'' \<and> length s > 1 \<and> s ! 1 \<in> {CHR ''x'', CHR ''X''} then
        (if length s < 3 then (0, False) else uintLoop 16 m 0 (drop 2 s))
      else if hd s = CHR ''0'' then uintLoop 8 m 0 (tl s)
      else uintLoop 10 m 0 s)"

section \<open>Tokens\<close>

definition isWhitespace :: "char \<Rightarrow> bool" where
  "isWhitespace c \<longleftrightarrow> c = CHR '' '' \<or> c = CHR 0x09 \<or> c = CHR 0x0A"

fun fill :: "string \<Rightarrow> nat \<Rightarrow> string \<times> string" where
  "fill [] parLevel = ([], [])"
| "fill (c # s) parLevel =
     (if c = NUL then ([], s)
      else if parLevel = 0 \<and> (isWhitespace c \<or> c = CHR '','' \<or> c = CHR ''='' \<or> c = CHR '')'') then ([], c # s)
      else let (w, r) = fill s (if c = CHR ''('' then parLevel + 1 else if c = CHR '')'' then parLevel - 1 else parLevel)
           in (c # w, r))"

fun skipSpace :: "string \<Rightarrow> string" where
  "skipSpace [] = []"
| "skipSpace (c # s) = (if c = NUL then s else if isWhitespace c then skipSpace s else c # s)"

fun scan :: "string \<Rightarrow> OFToken \<times> string \<times> string" where
  "scan [] = (tEOF, [], [])"
| "scan (c # s) =
     (if c = NUL then (tEOF, [], s)
      else if isWhitespace c then (tSpace, [], skipSpace s)
      else if c = CHR ''='' then (tEqual, [], s)
      else if c = CHR '','' then (tComma, [], s)
      else if c = CHR '')'' then (tClosePar, [], s)
      else let (w, r) = fill s (if c = CHR ''('' then 1 else 0) in (tText, c # w, r))"

lemma fill_length: "length (fst (fill s l)) + length (snd (fill s l)) \<le> length s"
proof (induction s l rule: fill.induct)
  case (2 c s l)
  then show ?case by (auto simp: Let_def split: prod.splits)
qed simp

lemma skipSpace_length: "length (skipSpace s) \<le> length s"
  by (induction s) auto

lemma scan_length:
  assumes "scan s = (tok, v, r)"
  shows "length v + length r \<le> length s" "tok \<noteq> tEOF \<Longrightarrow> length r < length s" "tok = tText \<Longrightarrow> v \<noteq> []"
proof -
  show "length v + length r \<le> length s" "tok \<noteq> tEOF \<Longrightarrow> length r < length s" "tok = tText \<Longrightarrow> v \<noteq> []"
    using assms fill_length [of "tl s" 0] fill_length [of "tl s" 1] skipSpace_length [of "tl s"]
    by (cases s; auto split: if_splits prod.splits)+
qed

lemma scan_bounds: "(tok, v, r) = scan s \<Longrightarrow> length v + length r \<le> length s \<and> (tok \<noteq> tEOF \<longrightarrow> length r < length s)"
  using scan_length [of s tok v r] by simp

section \<open>Actions\<close>

text \<open>An argument, possibly with a range of bits; a missing bracket gives a nil pointer.\<close>

abbreviation (input) leaf :: "string \<Rightarrow> Action option" where
  "leaf s \<equiv> Some (Action s [] [])"

definition makeArg :: "string \<Rightarrow> Action option" where
  "makeArg raw =
     (case cutAt ''['' raw of
        None \<Rightarrow> leaf raw
      | Some (field, rest) \<Rightarrow>
          (if last raw \<noteq> CHR '']'' then None
           else Some (Action ''range''
             (leaf field #
              (if length rest > 1 then
                 (let content = butlast rest in
                  case cutAt ''..'' content of None \<Rightarrow> [leaf content] | Some (start, stop) \<Rightarrow> [leaf start, leaf stop])
               else [])) [])))"

definition makeFieldAssign :: "string \<Rightarrow> string \<Rightarrow> Action option list" where
  "makeFieldAssign key rem =
     (case cutAt ''->'' rem of
        None \<Rightarrow> []
      | Some (arg1, arg2) \<Rightarrow>
          (if key = ''load'' then [leaf arg1, makeArg arg2]
           else if key = ''move'' then [makeArg arg1, makeArg arg2]
           else if key = ''set_field'' then
             (case cutAt ''/'' arg1 of
                None \<Rightarrow> [leaf arg1, None, makeArg arg2]
              | Some (arg11, arg12) \<Rightarrow> [leaf arg11, leaf arg12, makeArg arg2])
           else []))"

text \<open>The arguments of an action after a colon.\<close>

definition colonArguments :: "string \<Rightarrow> string \<Rightarrow> Action option list" where
  "colonArguments key rem =
     (if key \<in> {''set_field'', ''load'', ''move''} then makeFieldAssign key rem
      else if key = ''enqueue'' then
        (case cutAt '':'' rem of None \<Rightarrow> [makeArg rem] | Some (port, queue) \<Rightarrow> [leaf port, leaf queue])
      else [makeArg rem])"

text \<open>The named arguments of \<^verbatim>\<open>learn\<close>; the others are assignments.\<close>

definition learnKeys :: "string list" where
  "learnKeys = [[], ''idle_timeout'', ''hard_timeout'', ''priority'', ''cookie'', ''fin_idle_timeout'', ''fin_hard_timeout'',
     ''table'', ''limit'', ''result_dst'']"

definition fixLearn :: "Action \<Rightarrow> Action" where
  "fixLearn arg =
     (if act_Key arg \<in> set learnKeys then arg
      else Action ''='' [makeArg (act_Key arg), Some (Action (act_Action arg) (act_Arguments arg) [])] [])"

text \<open>A nil argument panics.\<close>

definition fixLearnArguments :: "Action option list \<Rightarrow> Action option list option" where
  "fixLearnArguments args = (if None \<in> set args then None else Some (map (map_option fixLearn) args))"

definition withKey :: "string \<Rightarrow> Action option \<Rightarrow> Action option option" where
  "withKey k a = (case a of None \<Rightarrow> None | Some a \<Rightarrow> Some (Some (Action (act_Action a) (act_Arguments a) k)))"

text \<open>
  \<^verbatim>\<open>makeAction\<close> and \<^verbatim>\<open>ParseActionBody\<close>.  An error in the body is logged and what was read is kept.
\<close>

definition isSep :: "char \<Rightarrow> bool" where
  "isSep c \<longleftrightarrow> c = CHR '':'' \<or> c = CHR ''(''"

function makeAction :: "string \<Rightarrow> Action option option"
  and ParseActionBody :: "string \<Rightarrow> Action option list \<Rightarrow> bool \<Rightarrow> (Action option list \<times> bool) option"
  and bodyNext :: "string \<Rightarrow> Action option list \<Rightarrow> (Action option list \<times> bool) option" where
  "makeAction raw =
     (case dropWhile (\<lambda>c. \<not> isSep c) raw of
        [] \<Rightarrow> Some (makeArg raw)
      | c # rem \<Rightarrow>
          (let key = takeWhile (\<lambda>c. \<not> isSep c) raw in
           if c = CHR '':'' then Some (Some (Action key (colonArguments key rem) []))
           else case ParseActionBody rem [] True of
                  None \<Rightarrow> None
                | Some (args, _) \<Rightarrow>
                    (if key = ''learn'' then map_option (\<lambda>args. Some (Action key args [])) (fixLearnArguments args)
                     else Some (Some (Action key args [])))))"
| "ParseActionBody s args isFirst =
     (case scan s of
        (tok, v, r) \<Rightarrow>
          (if tok = tText then
             (case scan r of
                (tok1, _, r1) \<Rightarrow>
                  (if tok1 \<noteq> tEqual then
                     (case makeAction v of None \<Rightarrow> None | Some a \<Rightarrow> bodyNext r (args @ [a]))
                   else case scan r1 of
                          (tok2, v2, r2) \<Rightarrow>
                            (if tok2 = tText then
                               (case makeAction v2 of
                                  None \<Rightarrow> None
                                | Some a \<Rightarrow> (case withKey v a of None \<Rightarrow> None | Some a \<Rightarrow> bodyNext r2 (args @ [a])))
                             else Some (args, False))))
           else if tok = tComma then ParseActionBody r (args @ [None]) False
           else if tok = tClosePar then Some (if isFirst then args else args @ [None], True)
           else Some (args, False)))"
| "bodyNext s args =
     (case scan s of
        (tok, _, r) \<Rightarrow>
          (if tok = tComma then ParseActionBody r args False
           else Some (args, tok = tClosePar)))"
  by pat_completeness auto
termination
proof (relation "measure (\<lambda>x. case x of Inl raw \<Rightarrow> 2 * length raw | Inr (Inl (s, _, _)) \<Rightarrow> 2 * length s + 1 | Inr (Inr (s, _)) \<Rightarrow> 2 * length s + 2)",
    goal_cases)
  case (2 raw c rem key)
  have "length (dropWhile (\<lambda>c. \<not> isSep c) raw) \<le> length raw" by (rule length_dropWhile_le)
  with 2 show ?case by simp
qed (auto dest!: scan_bounds)

declare makeAction.simps [simp del] ParseActionBody.simps [simp del] bodyNext.simps [simp del]

section \<open>Rules\<close>

definition makeFilter :: "Meta \<Rightarrow> OFFilter" where
  "makeFilter pair =
     (case splitChar (CHR ''/'') (me_Value pair) of
        [v, m] \<Rightarrow> \<lparr>of_Key = me_Key pair, of_Value = v, of_Mask = m\<rparr>
      | _ \<Rightarrow> \<lparr>of_Key = me_Key pair, of_Value = me_Value pair, of_Mask = []\<rparr>)"

fun joinComma :: "string list \<Rightarrow> string" where
  "joinComma [] = []"
| "joinComma [w] = w"
| "joinComma (w # ws) = w @ CHR '','' # joinComma ws"

definition rawFilter :: "Meta list \<Rightarrow> string" where
  "rawFilter stack =
     joinComma (map (\<lambda>m. me_Key m @ (if me_Value m \<noteq> [] then CHR '':'' # me_Value m else [])) stack)"

function ParseRuleAction :: "string \<Rightarrow> JSONRule \<Rightarrow> (string + JSONRule) option" where
  "ParseRuleAction s result =
     (case scan s of
        (tok, _, r) \<Rightarrow>
          (if tok = tEOF then Some (Inr result)
           else if tok = tComma then
             (case scan r of
                (tok2, v, r2) \<Rightarrow>
                  (if tok2 = tText then
                     (case makeAction v of
                        None \<Rightarrow> None
                      | Some a \<Rightarrow> ParseRuleAction r2 (result\<lparr>ru_Actions := ru_Actions result @ [a]\<rparr>))
                   else Some (Inl ''parseRuleAction: expecting an action after comma'')))
           else Some (Inl ''parseRuleAction: expecting a comma or eof'')))"
  by pat_completeness auto
termination
  by (relation "measure (\<lambda>(s, _). length s)") (auto dest!: scan_bounds)

declare ParseRuleAction.simps [simp del]

definition metaOnly :: "string list" where
  "metaOnly = [''reset_counts'', ''no_packet_counts'', ''no_byte_counts'']"

function ParseRule :: "string \<Rightarrow> JSONRule \<Rightarrow> (string + JSONRule) option"
  and ParseRuleEq :: "string \<Rightarrow> JSONRule \<Rightarrow> Meta list \<Rightarrow> string \<Rightarrow> (string + JSONRule) option"
  and parseRulePair :: "string \<Rightarrow> JSONRule \<Rightarrow> Meta list \<Rightarrow> string \<Rightarrow> string \<Rightarrow> (string + JSONRule) option"
  and ParseRuleSep :: "string \<Rightarrow> JSONRule \<Rightarrow> Meta list \<Rightarrow> (string + JSONRule) option" where
  "ParseRule s result =
     (case scan s of
        (tok, v, r) \<Rightarrow>
          (case (if tok = tSpace then scan r else (tok, v, r)) of
             (tok, v, r) \<Rightarrow> if tok = tText then ParseRuleEq r result [] v else Some (Inl ''expecting an ident'')))"
| "ParseRuleEq s result stack lhs =
     (case scan s of
        (tok, _, r) \<Rightarrow>
          (if tok = tEqual then
             (case scan r of
                (tok2, rhs, r2) \<Rightarrow>
                  (if tok2 = tText then parseRulePair r2 result stack lhs rhs else Some (Inl ''expecting a right hand side'')))
           else if tok = tComma \<or> tok = tSpace then
             (let stack = stack @ [\<lparr>me_Key = lhs, me_Value = []\<rparr>] in
              if lhs \<in> set metaOnly then ParseRule r (result\<lparr>ru_Meta := ru_Meta result @ stack\<rparr>)
              else ParseRuleSep s result stack)
           else Some (Inl ''expecting = , or space'')))"
| "parseRulePair s result stack lhs rhs =
     (if lhs = ''cookie'' then ParseRuleSep s (result\<lparr>ru_Cookie := fst (ParseUint rhs 0 64)\<rparr>) stack
      else if lhs = ''table'' then ParseRuleSep s (result\<lparr>ru_Table := fst (ParseUint rhs 10 32)\<rparr>) stack
      else if lhs = ''priority'' then ParseRuleSep s (result\<lparr>ru_Priority := fst (ParseUint rhs 10 32)\<rparr>) stack
      else if lhs = ''actions'' then
        (case makeAction rhs of
           None \<Rightarrow> None
         | Some a \<Rightarrow> ParseRuleAction s (result\<lparr>ru_Actions := ru_Actions result @ [a]\<rparr>))
      else ParseRuleSep s result (stack @ [\<lparr>me_Key = lhs, me_Value = rhs\<rparr>]))"
| "ParseRuleSep s result stack =
     (case scan s of
        (tok, _, r) \<Rightarrow>
          (if tok = tComma then
             (case scan r of
                (tok2, v2, r2) \<Rightarrow>
                  (if tok2 = tSpace then ParseRule r2 (result\<lparr>ru_Meta := ru_Meta result @ stack\<rparr>)
                   else if tok2 = tText then ParseRuleEq r2 result stack v2
                   else Some (Inl ''expected text or space after comma'')))
           else if tok = tSpace then
             ParseRule r (result\<lparr>ru_Filters := ru_Filters result @ map makeFilter stack, ru_RawFilter := rawFilter stack\<rparr>)
           else Some (Inl ''expecting a comma or a space'')))"
  by pat_completeness auto
termination
  by (relation "measure (\<lambda>x. case x of Inl (Inl (s, _)) \<Rightarrow> 4 * length s | Inl (Inr (s, _)) \<Rightarrow> 4 * length s + 1
      | Inr (Inl (s, _)) \<Rightarrow> 4 * length s + 1 | Inr (Inr (s, _)) \<Rightarrow> 4 * length s)")
    (auto dest!: scan_bounds split: if_splits)

declare ParseRule.simps [simp del] ParseRuleEq.simps [simp del] parseRulePair.simps [simp del] ParseRuleSep.simps [simp del]

definition ToAST :: "string \<Rightarrow> (string + JSONRule) option" where
  "ToAST rule = ParseRule rule emptyRule"

section \<open>Groups\<close>

definition parseMetaBucket :: "Bucket \<Rightarrow> string \<Rightarrow> string + Bucket" where
  "parseMetaBucket result v =
     (case cutAt '':'' v of
        None \<Rightarrow> Inr (result\<lparr>bu_Meta := bu_Meta result @ [\<lparr>me_Key = v, me_Value = []\<rparr>]\<rparr>)
      | Some (lhs, rhs) \<Rightarrow>
          (if lhs = ''bucket_id'' then
             (case ParseUint rhs 0 32 of
                (bID, ok) \<Rightarrow> if ok then Inr (result\<lparr>bu_ID := bID\<rparr>) else Inl ''Cannot parse bucket id'')
           else Inr (result\<lparr>bu_Meta := bu_Meta result @ [\<lparr>me_Key = v, me_Value = []\<rparr>]\<rparr>)))"

function parseGroupBucketActions :: "string \<Rightarrow> Bucket \<Rightarrow> (string + Bucket \<times> string) option" where
  "parseGroupBucketActions s result =
     (case scan s of
        (tok, v, r) \<Rightarrow>
          (if tok \<noteq> tText then Some (Inl ''expecting id'')
           else if v = ''bucket'' then Some (Inr (result, s))
           else case makeAction v of
                  None \<Rightarrow> None
                | Some a \<Rightarrow>
                    (let result = result\<lparr>bu_Actions := bu_Actions result @ [a]\<rparr> in
                     case scan r of
                       (tok2, _, r2) \<Rightarrow>
                         (if tok2 = tComma then parseGroupBucketActions r2 result
                          else if tok2 = tEOF then Some (Inr (result, r2))
                          else Some (Inl ''expecting comma or eof'')))))"
  by pat_completeness auto
termination
  by (relation "measure (\<lambda>(s, _). length s)") (auto dest!: scan_bounds)

function parseGroupBucket :: "string \<Rightarrow> Bucket \<Rightarrow> (string + Bucket \<times> string) option" where
  "parseGroupBucket s result =
     (case scan s of
        (tok, v, r) \<Rightarrow>
          (if tok \<noteq> tText then Some (Inl ''expecting id in pair'')
           else if v = ''actions'' then
             (case scan r of
                (tok2, _, r2) \<Rightarrow> if tok2 \<noteq> tEqual then Some (Inl ''Expecting ='') else parseGroupBucketActions r2 result)
           else if v = ''bucket'' then Some (Inr (result, s))
           else case parseMetaBucket result v of
                  Inl err \<Rightarrow> Some (Inl err)
                | Inr result \<Rightarrow>
                    (case scan r of
                       (tok2, _, r2) \<Rightarrow>
                         (if tok2 = tEOF then Some (Inr (result, r2))
                          else if tok2 \<noteq> tComma then Some (Inl ''cannot parse bucket, expecting comma or eof'')
                          else parseGroupBucket r2 result))))"
  by pat_completeness auto
termination
  by (relation "measure (\<lambda>(s, _). length s)") (auto dest!: scan_bounds)

declare parseGroupBucketActions.simps [simp del] parseGroupBucket.simps [simp del]

lemma parseGroupBucketActions_length:
  "parseGroupBucketActions s b = Some (Inr (b', rest)) \<Longrightarrow> length rest \<le> length s"
proof (induction s b rule: parseGroupBucketActions.induct)
  case (1 s b)
  then show ?case
    by (subst (asm) parseGroupBucketActions.simps)
      (fastforce simp: Let_def dest!: scan_length(1) split: prod.splits if_splits option.splits)
qed

lemma parseGroupBucket_length: "parseGroupBucket s b = Some (Inr (b', rest)) \<Longrightarrow> length rest \<le> length s"
proof (induction s b rule: parseGroupBucket.induct)
  case (1 s b)
  then show ?case
    by (subst (asm) parseGroupBucket.simps)
      (fastforce dest!: scan_length(1) parseGroupBucketActions_length split: prod.splits if_splits option.splits sum.splits)
qed

function ParseGroup :: "string \<Rightarrow> JSONGroup \<Rightarrow> (string + JSONGroup) option"
  and parseGroupSep :: "string \<Rightarrow> JSONGroup \<Rightarrow> (string + JSONGroup) option"
  and parseGroupEq :: "string \<Rightarrow> JSONGroup \<Rightarrow> string \<Rightarrow> (string + JSONGroup) option"
  and groupPair :: "string \<Rightarrow> JSONGroup \<Rightarrow> string \<Rightarrow> string \<Rightarrow> (string + JSONGroup) option" where
  "ParseGroup s result =
     (case scan s of
        (tok, v, r) \<Rightarrow>
          (case (if tok = tSpace then scan r else (tok, v, r)) of
             (tok, lhs, r) \<Rightarrow>
               (if tok = tText then parseGroupEq r result lhs
                else if tok = tEOF \<and> gr_Buckets result \<noteq> [] then Some (Inr result)
                else Some (Inl ''expecting id or eof''))))"
| "parseGroupSep s result =
     (case scan s of
        (tok, _, r) \<Rightarrow>
          (if tok = tComma then
             (case scan r of
                (tok2, lhs, r2) \<Rightarrow>
                  if tok2 = tText then parseGroupEq r2 result lhs else Some (Inl ''expecting key after comma''))
           else if tok = tEOF then Some (Inr result)
           else Some (Inl ''expecting comma or eof'')))"
| "parseGroupEq s result lhs =
     (case scan s of
        (tok, _, r) \<Rightarrow>
          (if tok \<noteq> tEqual then groupPair s result lhs []
           else if lhs = ''bucket'' then
             (case parseGroupBucket r emptyBucket of
                None \<Rightarrow> None
              | Some (Inl err) \<Rightarrow> Some (Inl err)
              | Some (Inr (bucket, rest)) \<Rightarrow> ParseGroup rest (result\<lparr>gr_Buckets := gr_Buckets result @ [bucket]\<rparr>))
           else case scan r of
                  (tok2, rhs, r2) \<Rightarrow> if tok2 \<noteq> tText then Some (Inl ''expecting rhs of equal'') else groupPair r2 result lhs rhs))"
| "groupPair s result lhs rhs =
     (if lhs = ''group_id'' then parseGroupSep s (result\<lparr>gr_GroupID := fst (ParseUint rhs 0 32)\<rparr>)
      else if lhs = ''type'' then parseGroupSep s (result\<lparr>gr_Type := rhs\<rparr>)
      else parseGroupSep s (result\<lparr>gr_Meta := gr_Meta result @ [\<lparr>me_Key = lhs, me_Value = rhs\<rparr>]\<rparr>))"
  by pat_completeness auto
termination
  by (relation "measure (\<lambda>x. case x of Inl (Inl (s, _)) \<Rightarrow> 4 * length s | Inl (Inr (s, _)) \<Rightarrow> 4 * length s
      | Inr (Inl (s, _)) \<Rightarrow> 4 * length s + 2 | Inr (Inr (s, _)) \<Rightarrow> 4 * length s + 1)")
    (auto dest!: scan_bounds parseGroupBucket_length split: if_splits)

declare ParseGroup.simps [simp del] parseGroupSep.simps [simp del] parseGroupEq.simps [simp del] groupPair.simps [simp del]

definition ToASTGroup :: "string \<Rightarrow> (string + JSONGroup) option" where
  "ToASTGroup grp = ParseGroup grp emptyGroup"

end
