(* ===== verification/Openflow_Print.thy ===== *)
theory Openflow_Print
  imports Openflow_Parser
begin

text \<open>
  Printing of rules and groups (\<^verbatim>\<open>PrettyAST\<close>, \<^verbatim>\<open>PrettyASTGroup\<close> of
  \<^verbatim>\<open>src/topology/probes/ovsdb/jsonof/ovs_rule_parser.go\<close>), and that the parser reads the texts back.
  \<open>None\<close> is a panic.
\<close>

section \<open>Printing\<close>

definition digitChar :: "int \<Rightarrow> char" where
  "digitChar d = (if d < 10 then char_of (nat d + 48) else char_of (nat d + 87))"

text \<open>\<^verbatim>\<open>strconv.FormatUint\<close>, also for \<^verbatim>\<open>Itoa\<close>.\<close>

function FormatUint :: "int \<Rightarrow> int \<Rightarrow> string" where
  "FormatUint n base =
     (if n < base \<or> base < 2 then [digitChar n] else FormatUint (n div base) base @ [digitChar (n mod base)])"
  by pat_completeness auto
termination
  by (relation "measure (nat \<circ> fst)") (auto simp: nat_less_iff int_div_less_self)

declare FormatUint.simps [simp del]

fun writeAct :: "Action \<Rightarrow> string option" where
  "writeAct (Action a args key) =
     (let ws = map (\<lambda>x. case x of None \<Rightarrow> Some [] | Some b \<Rightarrow> writeAct b) args;
          body =
            (if a = ''range'' then
               (case ws of
                  [] \<Rightarrow> None
                | [w] \<Rightarrow> map_option (\<lambda>w. w @ ''[]'') w
                | [w, x] \<Rightarrow> (case (w, x) of (Some w, Some x) \<Rightarrow> Some (w @ ''['' @ x @ '']'') | _ \<Rightarrow> None)
                | [w, x, y] \<Rightarrow>
                    (case (w, x, y) of (Some w, Some x, Some y) \<Rightarrow> Some (w @ ''['' @ x @ ''..'' @ y @ '']'') | _ \<Rightarrow> None)
                | w # _ \<Rightarrow> map_option (\<lambda>w. w @ ''[]'') w)
             else if a = ''='' then
               (case ws of Some w # Some x # _ \<Rightarrow> Some (w @ '':='' @ x) | _ \<Rightarrow> None)
             else if args = [] then Some a
             else map_option (\<lambda>ws. a @ ''('' @ joinComma ws @ '')'') (those ws))
      in map_option (\<lambda>b. (if key \<noteq> [] then key @ ''='' else []) @ b) body)"

definition writeAction :: "Action option \<Rightarrow> string option" where
  "writeAction a = (case a of None \<Rightarrow> Some [] | Some a \<Rightarrow> writeAct a)"

definition writeActions :: "Action option list \<Rightarrow> string option" where
  "writeActions as = map_option joinComma (those (map writeAction as))"

definition writePair :: "string \<Rightarrow> Meta \<Rightarrow> string" where
  "writePair sep m = me_Key m @ (if me_Value m \<noteq> [] then sep @ me_Value m else [])"

definition writeFilter :: "OFFilter \<Rightarrow> string" where
  "writeFilter f =
     '','' @ of_Key f @
     (if of_Value f \<noteq> [] then ''='' @ of_Value f @ (if of_Mask f \<noteq> [] then ''/'' @ of_Mask f else []) else [])"

definition PrettyAST :: "JSONRule \<Rightarrow> string option" where
  "PrettyAST ast =
     map_option (\<lambda>actions.
       ''cookie=0x'' @ FormatUint (ru_Cookie ast) 16 @ '', table='' @ FormatUint (ru_Table ast) 10 @ '', '' @
       concat (map (\<lambda>m. writePair ''='' m @ '', '') (ru_Meta ast)) @
       ''priority='' @ FormatUint (ru_Priority ast) 10 @ concat (map writeFilter (ru_Filters ast)) @
       '' actions='' @ actions) (writeActions (ru_Actions ast))"

definition writeBucket :: "Bucket \<Rightarrow> string option" where
  "writeBucket b =
     map_option (\<lambda>actions.
       '', bucket=bucket_id:'' @ FormatUint (bu_ID b) 10 @ concat (map (\<lambda>m. '','' @ writePair '':'' m) (bu_Meta b)) @
       '',actions='' @ actions) (writeActions (bu_Actions b))"

definition PrettyASTGroup :: "JSONGroup \<Rightarrow> string option" where
  "PrettyASTGroup ast =
     map_option (\<lambda>buckets.
       ''group_id='' @ FormatUint (gr_GroupID ast) 10 @ '', type='' @ gr_Type ast @
       concat (map (\<lambda>m. '', '' @ writePair ''='' m) (gr_Meta ast)) @ concat buckets) (those (map writeBucket (gr_Buckets ast)))"

section \<open>Reading tokens back\<close>

definition stopChar :: "char \<Rightarrow> bool" where
  "stopChar c \<longleftrightarrow> isWhitespace c \<or> c = CHR '','' \<or> c = CHR ''='' \<or> c = CHR '')''"

definition stops :: "string \<Rightarrow> bool" where
  "stops t \<longleftrightarrow> t = [] \<or> (stopChar (hd t) \<and> hd t \<noteq> NUL)"

text \<open>The level of parentheses after a text that is read through.\<close>

fun runs :: "string \<Rightarrow> nat \<Rightarrow> nat option" where
  "runs [] l = Some l"
| "runs (c # s) l =
     (if c = NUL \<or> (l = 0 \<and> stopChar c) then None
      else runs s (if c = CHR ''('' then l + 1 else if c = CHR '')'' then l - 1 else l))"

definition tokenText :: "string \<Rightarrow> bool" where
  "tokenText w \<longleftrightarrow> w \<noteq> [] \<and> runs w 0 = Some 0"

lemma runs_append: "runs (u @ w) l = Option.bind (runs u l) (runs w)"
  by (induction u arbitrary: l) auto

lemma runs_shift: "runs w l = Some l' \<Longrightarrow> runs w (l + k) = Some (l' + k)"
proof (induction w arbitrary: l)
  case (Cons c w)
  from Cons.prems have c: "c \<noteq> NUL" "\<not> (l = 0 \<and> stopChar c)" by (auto split: if_splits)
  show ?case
  proof (cases "c = CHR '')''")
    case True
    with c have "l \<noteq> 0" by (auto simp: stopChar_def)
    then have "l + k - 1 = (l - 1) + k" by simp
    then show ?thesis using Cons.IH [of "l - 1"] Cons.prems c True by (auto simp: stopChar_def)
  next
    case False
    then show ?thesis using Cons.IH [of "l + 1"] Cons.IH [of l] Cons.prems c by auto
  qed
qed simp

lemma fill_runs: "runs w l = Some l' \<Longrightarrow> fill (w @ t) l = (w @ fst (fill t l'), snd (fill t l'))"
proof (induction w arbitrary: l)
  case (Cons c w)
  then show ?case by (auto simp: stopChar_def Let_def split: if_splits prod.splits)
qed simp

lemma fill_stops: "stops t \<Longrightarrow> fill t 0 = ([], t)"
  by (cases t) (auto simp: stops_def stopChar_def)

lemma scan_text:
  assumes "c \<noteq> NUL" "\<not> stopChar c"
  shows "scan (c # s) = (tText, fst (fill (c # s) 0), snd (fill (c # s) 0))"
  using assms by (auto simp: stopChar_def Let_def split: prod.splits)

lemma scan_token:
  assumes "tokenText w" "stops t"
  shows "scan (w @ t) = (tText, w, t)"
proof -
  obtain c v where w: "w = c # v" using assms(1) by (cases w) (auto simp: tokenText_def)
  then have c: "c \<noteq> NUL" "\<not> stopChar c" using assms(1) by (auto simp: tokenText_def split: if_splits)
  have "fill (w @ t) 0 = (w, t)" using fill_runs [of w 0 0 t] assms by (simp add: tokenText_def fill_stops)
  then show ?thesis using scan_text [OF c, of "v @ t"] w by simp
qed

lemma scan_signs [simp]:
  "scan (CHR '','' # t) = (tComma, [], t)" "scan (CHR ''='' # t) = (tEqual, [], t)" "scan (CHR '')'' # t) = (tClosePar, [], t)"
  "stops (CHR '','' # t)" "stops (CHR ''='' # t)" "stops (CHR '')'' # t)" "stops []" "stops (CHR '' '' # t)"
  by (simp_all add: stops_def stopChar_def NUL_def isWhitespace_def)

lemma scan_blank: "tokenText w \<Longrightarrow> scan (CHR '' '' # w @ t) = (tSpace, [], w @ t)"
  by (cases w) (auto simp: tokenText_def NUL_def isWhitespace_def stopChar_def split: if_splits)

declare scan.simps(2) [simp del]

section \<open>Words\<close>

definition plain :: "char \<Rightarrow> bool" where
  "plain c \<longleftrightarrow> c \<noteq> NUL \<and> \<not> stopChar c \<and> c \<noteq> CHR ''(''"

definition word :: "string \<Rightarrow> bool" where
  "word w \<longleftrightarrow> w \<noteq> [] \<and> list_all plain w"

definition name :: "string \<Rightarrow> bool" where
  "name w \<longleftrightarrow> word w \<and> list_all (\<lambda>c. c \<noteq> CHR '':'' \<and> c \<noteq> CHR ''['') w"

lemma plain_runs: "list_all plain w \<Longrightarrow> runs w l = Some l"
  by (induction w) (auto simp: plain_def stopChar_def)

lemma word_token [simp]: "word w \<Longrightarrow> tokenText w"
  by (simp add: word_def tokenText_def plain_runs)

lemma name_word [simp]: "name w \<Longrightarrow> word w"
  by (simp add: name_def)

lemma plain_sep: "list_all plain w \<Longrightarrow> list_all (\<lambda>c. c \<noteq> CHR '':'') w \<Longrightarrow> list_all (\<lambda>c. \<not> isSep c) w"
  by (induction w) (auto simp: plain_def isSep_def)

lemma name_sep: "name w \<Longrightarrow> list_all (\<lambda>c. \<not> isSep c) w"
  by (rule plain_sep) (auto simp: name_def word_def list_all_iff)

lemma cutAt_none: "list_all (\<lambda>c. c \<noteq> d) w \<Longrightarrow> cutAt [d] w = None"
  by (induction w) auto

lemma cutAt_first: "list_all (\<lambda>c. c \<noteq> d) l \<Longrightarrow> cutAt (d # sep) (l @ d # sep @ r) = Some (l, r)"
proof (induction l)
  case (Cons c l)
  then show ?case by simp
qed simp

lemma cutAt_dots: "list_all (\<lambda>c. c \<noteq> CHR ''.'') w \<Longrightarrow> cutAt ''..'' w = None"
  by (induction w) (auto simp: take_Suc split: list.splits)

section \<open>Actions\<close>

text \<open>The arguments that \<^verbatim>\<open>makeArg\<close> makes of a range of bits.\<close>

definition fieldText :: "string \<Rightarrow> bool" where
  "fieldText f \<longleftrightarrow> f \<noteq> ''range'' \<and> list_all plain f \<and> list_all (\<lambda>c. c \<noteq> CHR '':'' \<and> c \<noteq> CHR ''['') f"

definition bitText :: "string \<Rightarrow> bool" where
  "bitText x \<longleftrightarrow> x \<noteq> ''range'' \<and> list_all plain x \<and> list_all (\<lambda>c. c \<noteq> CHR '':'' \<and> c \<noteq> CHR ''.'') x"

fun leafText :: "Action option \<Rightarrow> string option" where
  "leafText (Some (Action s [] [])) = Some s"
| "leafText _ = None"

fun wfRange :: "Action option list \<Rightarrow> bool" where
  "wfRange [f] = (case leafText f of Some f \<Rightarrow> fieldText f | None \<Rightarrow> False)"
| "wfRange [f, x] =
     (case (leafText f, leafText x) of (Some f, Some x) \<Rightarrow> fieldText f \<and> bitText x \<and> x \<noteq> [] | _ \<Rightarrow> False)"
| "wfRange [f, x, y] =
     (case (leafText f, leafText x, leafText y) of
        (Some f, Some x, Some y) \<Rightarrow> fieldText f \<and> bitText x \<and> bitText y
      | _ \<Rightarrow> False)"
| "wfRange _ = False"

text \<open>The actions that are read back: names, ranges, and calls with nested arguments.\<close>

fun wfAct :: "Action \<Rightarrow> bool" where
  "wfAct (Action a args key) \<longleftrightarrow>
     (if a = ''range'' then wfRange args
      else name a \<and> args \<noteq> [None] \<and>
        list_all (\<lambda>x. case x of None \<Rightarrow> True | Some b \<Rightarrow> wfAct b \<and> (act_Key b = [] \<or> word (act_Key b))) args \<and>
        (a = ''learn'' \<longrightarrow> list_all (\<lambda>x. case x of None \<Rightarrow> False | Some b \<Rightarrow> act_Key b \<in> set learnKeys) args))"

definition wfAction :: "Action option \<Rightarrow> bool" where
  "wfAction a \<longleftrightarrow> (case a of None \<Rightarrow> False | Some a \<Rightarrow> wfAct a \<and> act_Key a = [])"

definition keyText :: "Action \<Rightarrow> string" where
  "keyText b = (if act_Key b \<noteq> [] then act_Key b @ ''='' else [])"

definition noKey :: "Action \<Rightarrow> Action" where
  "noKey b = Action (act_Action b) (act_Arguments b) []"

text \<open>A text that is read as an argument.\<close>

definition argReads :: "Action option \<Rightarrow> string \<Rightarrow> bool" where
  "argReads x w \<longleftrightarrow>
     (case x of
        None \<Rightarrow> w = []
      | Some b \<Rightarrow> \<exists>v. w = keyText b @ v \<and> tokenText v \<and> (act_Key b = [] \<or> word (act_Key b)) \<and> makeAction v = Some (Some (noKey b)))"

lemma body_arg:
  assumes "argReads (Some b) w" "t = CHR '','' # u \<or> t = CHR '')'' # u"
  shows "ParseActionBody (w @ t) acc isFirst = bodyNext t (acc @ [Some b])"
proof -
  obtain v where v: "w = keyText b @ v" "tokenText v" "act_Key b = [] \<or> word (act_Key b)" "makeAction v = Some (Some (noKey b))"
    using assms(1) by (auto simp: argReads_def)
  have t: "stops t" "fst (scan t) \<noteq> tEqual" using assms(2) by auto
  have b: "Action (act_Action b) (act_Arguments b) (act_Key b) = b" by (cases b) simp
  show ?thesis
  proof (cases "act_Key b = []")
    case True
    then have "noKey b = b" by (metis b noKey_def)
    then show ?thesis
      using v t True by (subst ParseActionBody.simps) (auto simp: keyText_def scan_token split: prod.split)
  next
    case False
    then have "tokenText (act_Key b)" using v(3) by simp
    then have "scan (act_Key b @ CHR ''='' # v @ t) = (tText, act_Key b, CHR ''='' # v @ t)" by (simp add: scan_token)
    then show ?thesis
      using v(1,2,4) t(1) False
      by (subst ParseActionBody.simps) (simp add: keyText_def scan_token withKey_def noKey_def b split: prod.split)
  qed
qed

lemma body_args:
  "list_all2 argReads args ws \<Longrightarrow> args \<noteq> [] \<Longrightarrow> (isFirst \<Longrightarrow> args \<noteq> [None]) \<Longrightarrow>
   ParseActionBody (joinComma ws @ '')'') acc isFirst = Some (acc @ args, True)"
proof (induction args ws arbitrary: acc isFirst rule: list_all2_induct)
  case (Cons x args w ws)
  show ?case
  proof (cases args)
    case Nil
    then have ws: "ws = []" using Cons.hyps by simp
    show ?thesis
    proof (cases x)
      case None
      then show ?thesis using Cons ws Nil by (subst ParseActionBody.simps) (auto simp: argReads_def)
    next
      case (Some b)
      then show ?thesis using Cons ws Nil body_arg [of b w "'')''" "[]"] by (simp add: bodyNext.simps [of "'')''"])
    qed
  next
    case (Cons y ys)
    then obtain v vs where ws: "ws = v # vs" using \<open>list_all2 argReads args ws\<close> by (auto simp: list_all2_Cons1)
    have rest: "ParseActionBody (joinComma ws @ '')'') acc' False = Some (acc' @ args, True)" for acc'
      using Cons.IH Cons by simp
    have tx: "joinComma (w # ws) @ '')'' = w @ CHR '','' # joinComma ws @ '')''" using ws by simp
    show ?thesis
    proof (cases x)
      case None
      then have "w = []" using \<open>argReads x w\<close> by (simp add: argReads_def)
      then show ?thesis unfolding tx using None rest [of "acc @ [None]"] by (subst ParseActionBody.simps) simp
    next
      case (Some b)
      then have "ParseActionBody (w @ CHR '','' # joinComma ws @ '')'') acc isFirst = bodyNext (CHR '','' # joinComma ws @ '')'') (acc @ [x])"
        using body_arg [of b w] \<open>argReads x w\<close> by simp
      then show ?thesis using rest [of "acc @ [x]"] unfolding tx by (simp add: bodyNext.simps [of "CHR '','' # u" for u])
    qed
  qed
qed simp

text \<open>The text of an action that is read back.\<close>

definition actionReads :: "Action \<Rightarrow> bool" where
  "actionReads b \<longleftrightarrow> (\<exists>v. writeAct b = Some (keyText b @ v) \<and> tokenText v \<and> makeAction v = Some (Some (noKey b)))"

lemma makeAction_arg: "list_all (\<lambda>c. \<not> isSep c) w \<Longrightarrow> makeAction w = Some (makeArg w)"
  by (subst makeAction.simps) (simp add: list_all_iff dropWhile_eq_Nil_conv [THEN iffD2])

lemma makeAction_call:
  assumes "name a" "ParseActionBody s [] True = Some (args, ok)"
  shows "makeAction (a @ CHR ''('' # s) =
    (if a = ''learn'' then map_option (\<lambda>args. Some (Action a args [])) (fixLearnArguments args) else Some (Some (Action a args [])))"
proof -
  have "dropWhile (\<lambda>c. \<not> isSep c) (a @ CHR ''('' # s) = CHR ''('' # s" "takeWhile (\<lambda>c. \<not> isSep c) (a @ CHR ''('' # s) = a"
    using name_sep [OF assms(1)] by (simp_all add: list_all_iff dropWhile_append2 takeWhile_append2 isSep_def)
  then show ?thesis using assms(2) by (subst makeAction.simps) simp
qed

lemma writeAct_key: "writeAct (Action a args []) = Some v \<Longrightarrow> writeAct (Action a args key) = Some (keyText (Action a args key) @ v)"
  by (simp add: keyText_def Let_def)

lemma makeArg_range:
  assumes "fieldText f"
  shows "makeArg (f @ ''[]'') = Some (Action ''range'' [leaf f] [])"
    "bitText x \<Longrightarrow> x \<noteq> [] \<Longrightarrow> makeArg (f @ ''['' @ x @ '']'') = Some (Action ''range'' [leaf f, leaf x] [])"
    "bitText x \<Longrightarrow> bitText y \<Longrightarrow> makeArg (f @ ''['' @ x @ ''..'' @ y @ '']'') = Some (Action ''range'' [leaf f, leaf x, leaf y] [])"
proof -
  have cut: "cutAt ''['' (f @ CHR ''['' # r) = Some (f, r)" for r
    using cutAt_first [of "CHR ''[''" f "[]" r] assms by (simp add: fieldText_def list_all_iff)
  show "makeArg (f @ ''[]'') = Some (Action ''range'' [leaf f] [])" by (simp add: makeArg_def cut)
  show "makeArg (f @ ''['' @ x @ '']'') = Some (Action ''range'' [leaf f, leaf x] [])" if "bitText x" "x \<noteq> []"
    using that cutAt_dots [of x] by (simp add: makeArg_def cut butlast_append bitText_def list_all_iff)
  show "makeArg (f @ ''['' @ x @ ''..'' @ y @ '']'') = Some (Action ''range'' [leaf f, leaf x, leaf y] [])" if "bitText x" "bitText y"
    using that cutAt_first [of "CHR ''.''" x "''.''" y] by (simp add: makeArg_def cut butlast_append bitText_def list_all_iff)
qed

lemma bit_plain: "fieldText w \<or> bitText w \<Longrightarrow> list_all plain w \<and> list_all (\<lambda>c. \<not> isSep c) w \<and> writeAct (Action w [] []) = Some w"
proof -
  assume w: "fieldText w \<or> bitText w"
  have "w \<noteq> ''=''" using w by (auto simp: fieldText_def bitText_def plain_def stopChar_def)
  moreover have "w \<noteq> ''range''" "list_all plain w" using w by (auto simp: fieldText_def bitText_def)
  moreover have "list_all (\<lambda>c. \<not> isSep c) w"
    using w plain_sep [of w] by (auto simp: fieldText_def bitText_def list_all_iff)
  ultimately show ?thesis by simp
qed

lemma range_reads:
  assumes "wfRange args"
  shows "actionReads (Action ''range'' args key)"
proof -
  have leaf: "leafText x = Some s \<longleftrightarrow> x = leaf s" for x s by (cases x rule: leafText.cases) auto
  have sig: "plain (CHR ''['')" "plain (CHR '']'')" "plain (CHR ''.'')"
    "\<not> isSep (CHR ''['')" "\<not> isSep (CHR '']'')" "\<not> isSep (CHR ''.'')" by code_simp+
  have key: "writeAct (Action ''range'' args key) = Some (keyText (Action ''range'' args key) @ v)"
    if "writeAct (Action ''range'' args []) = Some v" for v
    using that by (rule writeAct_key)
  have fin: ?thesis if "writeAct (Action ''range'' args []) = Some v" "v \<noteq> []" "list_all plain v" "list_all (\<lambda>c. \<not> isSep c) v"
    "makeArg v = Some (Action ''range'' args [])" for v
    using that key makeAction_arg by (auto simp: actionReads_def tokenText_def plain_runs noKey_def)
  from assms consider f where "args = [leaf f]" "fieldText f"
    | f x where "args = [leaf f, leaf x]" "fieldText f" "bitText x" "x \<noteq> []"
    | f x y where "args = [leaf f, leaf x, leaf y]" "fieldText f" "bitText x" "bitText y"
    by (cases args rule: wfRange.cases) (auto simp: leaf split: option.splits)
  then show ?thesis
  proof cases
    case 1
    then show ?thesis using bit_plain [of f] sig makeArg_range(1) [of f] by (intro fin [of "f @ ''[]''"]) simp_all
  next
    case 2
    then show ?thesis using bit_plain [of f] bit_plain [of x] sig makeArg_range(2) [of f x] by (intro fin [of "f @ ''['' @ x @ '']''"]) simp_all
  next
    case 3
    then show ?thesis using bit_plain [of f] bit_plain [of x] bit_plain [of y] sig makeArg_range(3) [of f x y]
      by (intro fin [of "f @ ''['' @ x @ ''..'' @ y @ '']''"]) simp_all
  qed
qed

lemma runs_args:
  "list_all2 argReads args ws \<Longrightarrow> runs (joinComma ws) 1 = Some 1"
proof (induction args ws rule: list_all2_induct)
  case (Cons x args w ws)
  have "runs w 1 = Some 1"
  proof (cases x)
    case (Some b)
    then obtain v where v: "w = keyText b @ v" "tokenText v" "act_Key b = [] \<or> word (act_Key b)"
      using Cons.hyps(1) by (auto simp: argReads_def)
    have "runs v 1 = Some 1" using runs_shift [of v 0 0 1] v(2) by (simp add: tokenText_def)
    moreover have "runs (keyText b) 1 = Some 1"
      using v(3) by (auto simp: keyText_def runs_append word_def plain_runs NUL_def)
    ultimately show ?thesis using v(1) by (simp add: runs_append)
  qed (use Cons.hyps(1) in \<open>simp add: argReads_def\<close>)
  then show ?case using Cons.IH by (cases ws) (simp_all add: runs_append NUL_def)
qed simp

lemma those_reads:
  "(\<And>x. x \<in> set xs \<Longrightarrow> \<exists>w. f x = Some w \<and> P x w) \<Longrightarrow> \<exists>ws. those (map f xs) = Some ws \<and> list_all2 P xs ws"
proof (induction xs)
  case (Cons x xs)
  then obtain w ws where "f x = Some w" "P x w" "those (map f xs) = Some ws" "list_all2 P xs ws" by fastforce
  then show ?case by auto
qed simp

lemma learn_same:
  "list_all (\<lambda>x. case x of None \<Rightarrow> False | Some b \<Rightarrow> act_Key b \<in> set learnKeys) args \<Longrightarrow> fixLearnArguments args = Some args"
proof -
  assume l: "list_all (\<lambda>x. case x of None \<Rightarrow> False | Some b \<Rightarrow> act_Key b \<in> set learnKeys) args"
  then have "map (map_option fixLearn) args = args" "None \<notin> set args"
    by (induction args) (auto simp: fixLearn_def split: option.splits)
  then show ?thesis by (simp add: fixLearnArguments_def)
qed

lemma wfAct_reads: "wfAct b \<Longrightarrow> actionReads b"
proof (induction b rule: wfAct.induct)
  case (1 a args key)
  show ?case
  proof (cases "a = ''range''")
    case True
    then show ?thesis using 1 range_reads by simp
  next
    case False
    then have a: "name a" "args \<noteq> [None]" using "1.prems" by simp_all
    have sub: "act_Key b = [] \<or> word (act_Key b)" "wfAct b" if "Some b \<in> set args" for b
      using "1.prems" False that by (auto simp: list_all_iff split: option.splits)
    have "\<exists>w. writeAction x = Some w \<and> argReads x w" if "x \<in> set args" for x
    proof (cases x)
      case (Some b)
      then show ?thesis using "1.IH" [of x b] False sub [of b] that by (auto simp: actionReads_def argReads_def writeAction_def)
    qed (simp add: writeAction_def argReads_def)
    then obtain ws where ws: "those (map writeAction args) = Some ws" "list_all2 argReads args ws"
      using those_reads [of args writeAction argReads] by blast
    show ?thesis
    proof (cases "args = []")
      case True
      have "a \<noteq> ''=''" using a(1) by (auto simp: name_def word_def plain_def stopChar_def)
      then have "writeAct (Action a args []) = Some a" using True False by simp
      moreover have "makeAction a = Some (Some (Action a [] []))"
        using makeAction_arg [OF name_sep [OF a(1)]] a(1) by (simp add: makeArg_def cutAt_none name_def list_all_iff)
      ultimately show ?thesis using a(1) True writeAct_key [of a args a key] by (auto simp: actionReads_def noKey_def)
    next
      case args: False
      let ?v = "a @ ''('' @ joinComma ws @ '')''"
      have "a \<noteq> ''=''" using a(1) by (auto simp: name_def word_def plain_def stopChar_def)
      then have "writeAct (Action a args []) = Some ?v"
        using args False ws(1) by (simp add: writeAction_def [abs_def] cong: option.case_cong)
      moreover have "tokenText ?v"
        using a(1) runs_args [OF ws(2)] by (simp add: tokenText_def runs_append name_def word_def plain_runs NUL_def stopChar_def isWhitespace_def)
      moreover have "makeAction ?v = Some (Some (Action a args []))"
        using makeAction_call [OF a(1) body_args [OF ws(2) args a(2), of "[]"]] learn_same [of args] "1.prems" False
        by auto
      ultimately show ?thesis using writeAct_key [of a args ?v key] by (auto simp: actionReads_def noKey_def)
    qed
  qed
qed

end
