(* ===== verification/Openflow_Roundtrip.thy ===== *)
theory Openflow_Roundtrip
  imports Openflow_Print
begin

text \<open>
  What is printed for a rule is read back as the rule, and the texts of groups, in the syntax of the dumps that the tests of the
  parser have, are read as the groups they describe.
\<close>

section \<open>Numbers\<close>

lemma digit_round: "0 \<le> d \<Longrightarrow> d < 36 \<Longrightarrow> digitVal (digitChar d) = d \<and> plain (digitChar d) \<and> digitChar d \<noteq> CHR ''/''"
proof -
  have "list_all (\<lambda>d. digitVal (digitChar d) = d \<and> plain (digitChar d) \<and> digitChar d \<noteq> CHR ''/'') [0..35]" by code_simp
  moreover assume "0 \<le> d" "d < 36"
  ultimately show ?thesis by (auto simp: list_all_iff)
qed

lemma uintLoop_format:
  "2 \<le> base \<Longrightarrow> base \<le> 36 \<Longrightarrow> 0 \<le> n \<Longrightarrow> n \<le> m \<Longrightarrow> uintLoop base m 0 (FormatUint n base @ rest) = uintLoop base m n rest"
proof (induction n base arbitrary: rest rule: FormatUint.induct)
  case (1 n base)
  show ?case
  proof (cases "n < base")
    case True
    then show ?thesis using "1.prems" digit_round [of n] by (subst FormatUint.simps) simp
  next
    case False
    have d: "0 \<le> n mod base" "n mod base < base" "n div base * base + n mod base = n" using "1.prems" by simp_all
    have "0 \<le> n div base" "n div base < n" using "1.prems" False by (simp_all add: pos_imp_zdiv_nonneg_iff int_div_less_self)
    then have "0 \<le> n div base" "n div base \<le> m" using "1.prems" by simp_all
    then have "uintLoop base m 0 (FormatUint (n div base) base @ digitChar (n mod base) # rest) =
        uintLoop base m (n div base) (digitChar (n mod base) # rest)"
      using "1.IH" "1.prems" False by simp
    then show ?thesis using "1.prems" False d digit_round [of "n mod base"] by (subst FormatUint.simps) simp
  qed
qed

lemma format_word: "2 \<le> base \<Longrightarrow> base \<le> 36 \<Longrightarrow> 0 \<le> n \<Longrightarrow> word (FormatUint n base)"
proof (induction n base rule: FormatUint.induct)
  case (1 n base)
  have "0 \<le> n mod base" "n mod base < 36" using "1.prems" pos_mod_bound [of base n] pos_mod_sign [of base n] by linarith+
  then show ?case using 1 digit_round [of n] digit_round [of "n mod base"] pos_imp_zdiv_nonneg_iff [of base n]
    by (subst FormatUint.simps) (auto simp: word_def)
qed

lemma ParseUint_format:
  "0 \<le> n \<Longrightarrow> n < 2 ^ bits \<Longrightarrow> ParseUint (FormatUint n 10) 10 bits = (n, True)"
  "0 \<le> n \<Longrightarrow> n < 2 ^ bits \<Longrightarrow> ParseUint (''0x'' @ FormatUint n 16) 0 bits = (n, True)"
  using uintLoop_format [of 10 n "2 ^ bits - 1" "[]"] uintLoop_format [of 16 n "2 ^ bits - 1" "[]"]
    format_word [of 10 n] format_word [of 16 n]
  by (auto simp: ParseUint_def Let_def word_def)

text \<open>A decimal text has no leading zero, so it is read in base 10 whatever the base.\<close>

lemma format_head: "0 \<le> n \<Longrightarrow> hd (FormatUint n 10) \<noteq> CHR ''0'' \<or> FormatUint n 10 = ''0''"
proof (induction n "10 :: int" rule: FormatUint.induct)
  case (1 n)
  have "list_all (\<lambda>d. d = 0 \<or> digitChar d \<noteq> CHR ''0'') [0..9]" "digitChar 0 = CHR ''0''" by code_simp+
  then have d: "d = 0 \<or> digitChar d \<noteq> CHR ''0''" if "0 \<le> d" "d < 10" for d using that by (auto simp: list_all_iff)
  show ?case
  proof (cases "n < 10")
    case True
    then show ?thesis using d [of n] \<open>0 \<le> n\<close> \<open>digitChar 0 = CHR ''0''\<close> by (subst (1 2) FormatUint.simps) auto
  next
    case False
    then have "0 < n div 10" "n div 10 \<le> n" by simp_all
    then have "FormatUint (n div 10) 10 \<noteq> ''0''" "FormatUint (n div 10) 10 \<noteq> []"
      using uintLoop_format [of 10 "n div 10" n "[]"] format_word [of 10 "n div 10"] \<open>0 \<le> n\<close>
      by (auto simp: word_def digitVal_def)
    then show ?thesis using 1 False by (subst FormatUint.simps) simp
  qed
qed

lemma ParseUint_dec: "0 \<le> n \<Longrightarrow> n < 2 ^ bits \<Longrightarrow> ParseUint (FormatUint n 10) 0 bits = (n, True)"
proof -
  assume n: "0 \<le> n" "n < 2 ^ bits"
  show ?thesis
  proof (cases "FormatUint n 10 = ''0''")
    case True
    then show ?thesis using uintLoop_format [of 10 n "2 ^ bits - 1" "[]"] n by (simp add: ParseUint_def digitVal_def)
  next
    case False
    then show ?thesis using format_head [of n] uintLoop_format [of 10 n "2 ^ bits - 1" "[]"] format_word [of 10 n] n
      by (auto simp: ParseUint_def Let_def word_def)
  qed
qed

section \<open>Rules\<close>

lemma ParseRule_word: "tokenText w \<Longrightarrow> stops t \<Longrightarrow> ParseRule (w @ t) result = ParseRuleEq t result [] w"
  by (subst ParseRule.simps) (simp add: scan_token)

lemma ParseRule_space: "tokenText w \<Longrightarrow> stops t \<Longrightarrow> ParseRule (CHR '' '' # w @ t) result = ParseRule (w @ t) result"
  by (subst (1 2) ParseRule.simps) (simp add: scan_blank scan_token)

lemma Eq_pair: "tokenText rhs \<Longrightarrow> stops t \<Longrightarrow> ParseRuleEq (CHR ''='' # rhs @ t) result stack lhs = parseRulePair t result stack lhs rhs"
  by (subst ParseRuleEq.simps) (simp add: scan_token)

lemma Sep_meta:
  "tokenText w \<Longrightarrow> ParseRuleSep (CHR '','' # CHR '' '' # w @ t) result stack = ParseRule (w @ t) (result\<lparr>ru_Meta := ru_Meta result @ stack\<rparr>)"
  by (subst ParseRuleSep.simps) (simp add: scan_blank)

lemma Sep_filter: "tokenText w \<Longrightarrow> stops t \<Longrightarrow> ParseRuleSep (CHR '','' # w @ t) result stack = ParseRuleEq t result stack w"
  by (subst ParseRuleSep.simps) (simp add: scan_token)

lemma Sep_end:
  "tokenText w \<Longrightarrow> ParseRuleSep (CHR '' '' # w @ t) result stack =
    ParseRule (w @ t) (result\<lparr>ru_Filters := ru_Filters result @ map makeFilter stack, ru_RawFilter := rawFilter stack\<rparr>)"
  by (subst ParseRuleSep.simps) (simp add: scan_blank)

definition specialKeys :: "string list" where
  "specialKeys = [''cookie'', ''table'', ''priority'', ''actions'']"

definition wfMeta :: "Meta \<Rightarrow> bool" where
  "wfMeta m \<longleftrightarrow> word (me_Key m) \<and> me_Key m \<notin> set specialKeys \<and> (me_Value m = [] \<or> tokenText (me_Value m))"

definition slashFree :: "string \<Rightarrow> bool" where
  "slashFree w \<longleftrightarrow> word w \<and> list_all (\<lambda>c. c \<noteq> CHR ''/'') w"

definition wfFilter :: "OFFilter \<Rightarrow> bool" where
  "wfFilter f \<longleftrightarrow> word (of_Key f) \<and> of_Key f \<notin> set specialKeys \<and>
     (if of_Value f = [] then of_Mask f = [] \<and> of_Key f \<notin> set metaOnly
      else slashFree (of_Value f) \<and> (of_Mask f = [] \<or> slashFree (of_Mask f)))"

text \<open>The pair a filter was read from.\<close>

definition filterPair :: "OFFilter \<Rightarrow> Meta" where
  "filterPair f = \<lparr>me_Key = of_Key f, me_Value = of_Value f @ (if of_Mask f \<noteq> [] then ''/'' @ of_Mask f else [])\<rparr>"

definition wfRule :: "JSONRule \<Rightarrow> bool" where
  "wfRule r \<longleftrightarrow> 0 \<le> ru_Cookie r \<and> ru_Cookie r < 2 ^ 64 \<and> 0 \<le> ru_Table r \<and> ru_Table r < 2 ^ 32 \<and>
     0 \<le> ru_Priority r \<and> ru_Priority r < 2 ^ 32 \<and> list_all wfMeta (ru_Meta r) \<and> list_all wfFilter (ru_Filters r) \<and>
     ru_Actions r \<noteq> [] \<and> list_all wfAction (ru_Actions r) \<and> ru_UUID r = [] \<and>
     ru_RawFilter r = rawFilter (map filterPair (ru_Filters r))"

lemma pair_other:
  "lhs \<notin> set specialKeys \<Longrightarrow> parseRulePair s result stack lhs rhs = ParseRuleSep s result (stack @ [\<lparr>me_Key = lhs, me_Value = rhs\<rparr>])"
  by (subst parseRulePair.simps) (auto simp: specialKeys_def)

lemma meta_reads:
  assumes "wfMeta m" "tokenText w" "stops t"
  shows "ParseRule (writePair ''='' m @ '', '' @ w @ t) result = ParseRule (w @ t) (result\<lparr>ru_Meta := ru_Meta result @ [m]\<rparr>)"
proof -
  have m: "tokenText (me_Key m)" "me_Key m \<notin> set specialKeys" using assms(1) by (simp_all add: wfMeta_def)
  show ?thesis
  proof (cases "me_Value m = []")
    case True
    then have meta: "\<lparr>me_Key = me_Key m, me_Value = []\<rparr> = m" by simp
    have "ParseRule (me_Key m @ CHR '','' # CHR '' '' # w @ t) result = ParseRule (w @ t) (result\<lparr>ru_Meta := ru_Meta result @ [m]\<rparr>)"
      using assms(2,3) True ParseRule_word [OF m(1), of "CHR '','' # CHR '' '' # w @ t" result]
      by (simp add: ParseRuleEq.simps [of "CHR '','' # u" for u] ParseRule_space Sep_meta meta Let_def)
    then show ?thesis using True by (simp add: writePair_def)
  next
    case False
    then show ?thesis
      using m assms by (cases m) (simp add: writePair_def ParseRule_word Eq_pair pair_other Sep_meta wfMeta_def)
  qed
qed

lemma metas_start:
  assumes "list_all wfMeta ms" "tokenText w" "stops t"
  obtains w' t' where "concat (map (\<lambda>m. writePair ''='' m @ '', '') ms) @ w @ t = w' @ t'" "tokenText w'" "stops t'"
proof (cases ms)
  case (Cons m ms')
  let ?t = "(if me_Value m \<noteq> [] then ''='' @ me_Value m else []) @ '', '' @ concat (map (\<lambda>m. writePair ''='' m @ '', '') ms') @ w @ t"
  have "tokenText (me_Key m)" "stops ?t" using assms(1) Cons by (simp_all add: wfMeta_def)
  moreover have "concat (map (\<lambda>m. writePair ''='' m @ '', '') ms) @ w @ t = me_Key m @ ?t" using Cons by (simp add: writePair_def)
  ultimately show ?thesis using that by blast
qed (use that assms in auto)

lemma metas_read:
  "list_all wfMeta ms \<Longrightarrow> tokenText w \<Longrightarrow> stops t \<Longrightarrow>
   ParseRule (concat (map (\<lambda>m. writePair ''='' m @ '', '') ms) @ w @ t) result = ParseRule (w @ t) (result\<lparr>ru_Meta := ru_Meta result @ ms\<rparr>)"
proof (induction ms arbitrary: result)
  case (Cons m ms)
  obtain w' t' where rest: "concat (map (\<lambda>m. writePair ''='' m @ '', '') ms) @ w @ t = w' @ t'" "tokenText w'" "stops t'"
    using metas_start [of ms w t] Cons.prems by auto
  have "ParseRule (writePair ''='' m @ '', '' @ w' @ t') result = ParseRule (w' @ t') (result\<lparr>ru_Meta := ru_Meta result @ [m]\<rparr>)"
    using Cons.prems rest by (intro meta_reads) simp_all
  then show ?case using Cons.IH [of "result\<lparr>ru_Meta := ru_Meta result @ [m]\<rparr>"] Cons.prems rest(1) by simp
qed simp

lemma filter_reads:
  assumes "wfFilter f" "t = CHR '','' # u \<or> t = CHR '' '' # u"
  shows "ParseRuleSep (writeFilter f @ t) result stack = ParseRuleSep t result (stack @ [filterPair f])"
proof -
  have f: "tokenText (of_Key f)" "of_Key f \<notin> set specialKeys" and t: "stops t" "fst (scan t) \<in> {tComma, tSpace}"
    using assms by (auto simp: wfFilter_def) (auto simp: scan.simps isWhitespace_def NUL_def)
  show ?thesis
  proof (cases "of_Value f = []")
    case True
    then show ?thesis
      using f t assms(1)
      by (simp add: writeFilter_def Sep_filter filterPair_def wfFilter_def) (subst ParseRuleEq.simps, auto split: prod.splits)
  next
    case False
    define v where "v = of_Value f @ (if of_Mask f \<noteq> [] then ''/'' @ of_Mask f else [])"
    have "plain (CHR ''/'')" by code_simp
    then have "word v" using assms(1) False by (auto simp: wfFilter_def slashFree_def word_def v_def)
    moreover have "writeFilter f @ t = CHR '','' # of_Key f @ CHR ''='' # v @ t" using False by (simp add: writeFilter_def v_def)
    moreover have "filterPair f = \<lparr>me_Key = of_Key f, me_Value = v\<rparr>" by (simp add: filterPair_def v_def)
    ultimately show ?thesis using f t(1) by (simp add: Sep_filter Eq_pair pair_other)
  qed
qed

lemma filters_read:
  "list_all wfFilter fs \<Longrightarrow> tokenText w \<Longrightarrow>
   ParseRuleSep (concat (map writeFilter fs) @ CHR '' '' # w @ t) result stack =
     ParseRule (w @ t) (result\<lparr>ru_Filters := ru_Filters result @ map makeFilter (stack @ map filterPair fs),
       ru_RawFilter := rawFilter (stack @ map filterPair fs)\<rparr>)"
proof (induction fs arbitrary: stack)
  case Nil
  then show ?case by (simp add: Sep_end)
next
  case (Cons f fs)
  have "\<exists>u. concat (map writeFilter fs) @ CHR '' '' # w @ t = CHR '','' # u \<or> concat (map writeFilter fs) @ CHR '' '' # w @ t = CHR '' '' # u"
    by (cases fs) (auto simp: writeFilter_def)
  then obtain u where "concat (map writeFilter fs) @ CHR '' '' # w @ t = CHR '','' # u \<or> concat (map writeFilter fs) @ CHR '' '' # w @ t = CHR '' '' # u" ..
  then show ?case
    using filter_reads [of f "concat (map writeFilter fs) @ CHR '' '' # w @ t" u result stack] Cons by simp
qed

lemma splitChar_free: "list_all (\<lambda>c. c \<noteq> d) w \<Longrightarrow> splitChar d w = [w]"
  by (induction w) auto

lemma splitChar_append: "list_all (\<lambda>c. c \<noteq> d) u \<Longrightarrow> splitChar d (u @ d # v) = u # splitChar d v"
  by (induction u) auto

lemma makeFilter_pair: "wfFilter f \<Longrightarrow> makeFilter (filterPair f) = f"
  by (auto simp: makeFilter_def filterPair_def wfFilter_def slashFree_def splitChar_append splitChar_free split: if_splits)

section \<open>The round trip\<close>

lemma wfAction_reads: "wfAction x \<Longrightarrow> \<exists>w. writeAction x = Some w \<and> tokenText w \<and> makeAction w = Some x"
proof -
  assume "wfAction x"
  then obtain a where a: "x = Some a" "wfAct a" "act_Key a = []" by (auto simp: wfAction_def split: option.splits)
  have "noKey a = a" using a(3) by (cases a) (simp add: noKey_def)
  then show ?thesis using wfAct_reads [OF a(2)] a by (auto simp: actionReads_def keyText_def writeAction_def)
qed

lemma joinComma_Cons: "joinComma (w # ws) = w @ concat (map ((#) (CHR '','')) ws)"
  by (induction ws arbitrary: w) simp_all

lemma ParseRuleAction_reads:
  "list_all2 (\<lambda>x w. tokenText w \<and> makeAction w = Some x) xs ws \<Longrightarrow>
   ParseRuleAction (concat (map ((#) (CHR '','')) ws)) result = Some (Inr (result\<lparr>ru_Actions := ru_Actions result @ xs\<rparr>))"
proof (induction xs ws arbitrary: result rule: list_all2_induct)
  case Nil
  show ?case by (subst ParseRuleAction.simps) simp
next
  case (Cons x xs w ws)
  have "stops (concat (map ((#) (CHR '','')) ws))" by (cases ws) simp_all
  then show ?case
    using Cons.hyps(1) Cons.IH [of "result\<lparr>ru_Actions := ru_Actions result @ [x]\<rparr>"]
    by (subst ParseRuleAction.simps) (simp add: scan_token)
qed

lemma actions_read:
  assumes "xs \<noteq> []" "list_all wfAction xs"
  shows "\<exists>txt. writeActions xs = Some txt \<and>
    (\<forall>result. ParseRule (''actions='' @ txt) result = Some (Inr (result\<lparr>ru_Actions := ru_Actions result @ xs\<rparr>)))"
proof -
  have "\<exists>w. writeAction x = Some w \<and> tokenText w \<and> makeAction w = Some x" if "x \<in> set xs" for x
    using wfAction_reads assms(2) that by (auto simp: list_all_iff)
  then obtain ws where ws: "those (map writeAction xs) = Some ws" "list_all2 (\<lambda>x w. tokenText w \<and> makeAction w = Some x) xs ws"
    using those_reads [of xs writeAction "\<lambda>x w. tokenText w \<and> makeAction w = Some x"] by blast
  obtain x ys w vs where c: "xs = x # ys" "ws = w # vs" "tokenText w" "makeAction w = Some x"
    "list_all2 (\<lambda>x w. tokenText w \<and> makeAction w = Some x) ys vs"
    using ws(2) assms(1) by (cases xs) (auto simp: list_all2_Cons1)
  have st: "stops (concat (map ((#) (CHR '','')) vs))" by (cases vs) simp_all
  have "tokenText ''actions''" by code_simp
  then have "ParseRule (''actions'' @ CHR ''='' # w @ concat (map ((#) (CHR '','')) vs)) result =
      parseRulePair (concat (map ((#) (CHR '','')) vs)) result [] ''actions'' w" for result
    using ParseRule_word [of "''actions''"] st c(3) by (simp add: Eq_pair)
  then have "ParseRule (''actions='' @ joinComma ws) result = Some (Inr (result\<lparr>ru_Actions := ru_Actions result @ xs\<rparr>))" for result
    using c ParseRuleAction_reads [OF c(5), of "result\<lparr>ru_Actions := ru_Actions result @ [x]\<rparr>"]
    by (simp add: joinComma_Cons parseRulePair.simps)
  then show ?thesis using ws(1) by (auto simp: writeActions_def)
qed

lemma ToAST_PrettyAST:
  assumes "wfRule r"
  shows "\<exists>txt. PrettyAST r = Some txt \<and> ToAST txt = Some (Inr r)"
proof -
  note wf = assms [unfolded wfRule_def]
  obtain acts where acts: "writeActions (ru_Actions r) = Some acts"
    "ParseRule (''actions='' @ acts) result = Some (Inr (result\<lparr>ru_Actions := ru_Actions result @ ru_Actions r\<rparr>))" for result
    using actions_read wf by blast
  have tok: "tokenText ''cookie''" "tokenText ''table''" "tokenText ''priority''" "tokenText ''actions''" by code_simp+
  have num: "word (FormatUint (ru_Cookie r) 16)" "word (FormatUint (ru_Table r) 10)" "word (FormatUint (ru_Priority r) 10)"
    using wf by (simp_all add: format_word)
  have "plain (CHR ''0'')" "plain (CHR ''x'')" by code_simp+
  then have hex: "tokenText (''0x'' @ FormatUint (ru_Cookie r) 16)" using num(1) by (intro word_token) (simp add: word_def)
  have pairs: "parseRulePair t result stack ''cookie'' (''0x'' @ FormatUint (ru_Cookie r) 16) = ParseRuleSep t (result\<lparr>ru_Cookie := ru_Cookie r\<rparr>) stack"
    "parseRulePair t result stack ''table'' (FormatUint (ru_Table r) 10) = ParseRuleSep t (result\<lparr>ru_Table := ru_Table r\<rparr>) stack"
    "parseRulePair t result stack ''priority'' (FormatUint (ru_Priority r) 10) = ParseRuleSep t (result\<lparr>ru_Priority := ru_Priority r\<rparr>) stack"
    for t result stack
    using wf ParseUint_format(2) [of "ru_Cookie r" 64] by (simp_all add: parseRulePair.simps ParseUint_format)
  let ?fin = "concat (map writeFilter (ru_Filters r)) @ '' '' @ ''actions='' @ acts"
  let ?prio = "''priority'' @ ''='' @ FormatUint (ru_Priority r) 10 @ ?fin"
  let ?metas = "concat (map (\<lambda>m. writePair ''='' m @ '', '') (ru_Meta r))"
  let ?txt = "''cookie'' @ ''='' @ (''0x'' @ FormatUint (ru_Cookie r) 16) @ '', '' @ ''table'' @ ''='' @ FormatUint (ru_Table r) 10 @ '', '' @ ?metas @ ?prio"
  have se: "stops ?fin" by (cases "ru_Filters r") (simp_all add: writeFilter_def)
  have filters: "map makeFilter (map filterPair (ru_Filters r)) = ru_Filters r"
    using wf makeFilter_pair by (simp add: list_all_iff map_idI)
  have prio: "ParseRule ?prio result = Some (Inr (result\<lparr>ru_Priority := ru_Priority r, ru_Filters := ru_Filters result @ ru_Filters r,
      ru_RawFilter := ru_RawFilter r, ru_Actions := ru_Actions result @ ru_Actions r\<rparr>))" for result
    using ParseRule_word [OF tok(3), of "''='' @ FormatUint (ru_Priority r) 10 @ ?fin"] num(3) se wf acts(2) filters
      filters_read [of "ru_Filters r" "''actions''" "''='' @ acts"] tok(4)
    by (simp add: Eq_pair pairs)
  obtain w t where wt: "?metas @ ?prio = w @ t" "tokenText w" "stops t"
    using metas_start [of "ru_Meta r" "''priority''" "''='' @ FormatUint (ru_Priority r) 10 @ ?fin"] wf tok(3) by auto
  have "ParseRule (''cookie'' @ ''='' @ (''0x'' @ FormatUint (ru_Cookie r) 16) @ '', '' @ ''table'' @ u) emptyRule =
      ParseRule (''table'' @ u) (emptyRule\<lparr>ru_Cookie := ru_Cookie r\<rparr>)" for u
    using ParseRule_word [OF tok(1), of "''='' @ (''0x'' @ FormatUint (ru_Cookie r) 16) @ '', '' @ ''table'' @ u"]
      Eq_pair [OF hex, of "'', '' @ ''table'' @ u"] Sep_meta [OF tok(2), of u] pairs(1) [of "'', '' @ ''table'' @ u" emptyRule]
    by simp
  moreover have "ParseRule (''table'' @ ''='' @ FormatUint (ru_Table r) 10 @ '', '' @ w @ t) result =
      ParseRule (w @ t) (result\<lparr>ru_Table := ru_Table r\<rparr>)" for result
    using ParseRule_word [OF tok(2), of "''='' @ FormatUint (ru_Table r) 10 @ '', '' @ w @ t"] num(2) wt(2)
    by (simp add: Eq_pair pairs Sep_meta)
  ultimately have "ParseRule ?txt emptyRule = ParseRule (?metas @ ?prio) (emptyRule\<lparr>ru_Cookie := ru_Cookie r, ru_Table := ru_Table r\<rparr>)"
    unfolding wt(1) by simp
  also have "\<dots> = Some (Inr r)"
    using metas_read [of "ru_Meta r" "''priority''" "''='' @ FormatUint (ru_Priority r) 10 @ ?fin"] wf tok(3) prio
    by (simp add: emptyRule_def)
  finally have "ToAST ?txt = Some (Inr r)" by (simp add: ToAST_def)
  moreover have "PrettyAST r = Some ?txt" using acts(1) by (simp add: PrettyAST_def)
  ultimately show ?thesis by blast
qed

section \<open>Groups\<close>

text \<open>
  The syntax of the texts of groups, as in the dumps that \<^verbatim>\<open>ovs_rule_parser_test.go\<close> has, and what they describe.  An
  argument is a word, or a field with a range of bits.
\<close>

inductive argText :: "string \<Rightarrow> Action option \<Rightarrow> bool" where
  arg: "word w \<Longrightarrow> CHR ''['' \<notin> set w \<Longrightarrow> argText w (leaf w)"
| field: "fieldText f \<Longrightarrow> argText (f @ ''[]'') (Some (Action ''range'' [leaf f] []))"
| bit: "fieldText f \<Longrightarrow> bitText x \<Longrightarrow> x \<noteq> [] \<Longrightarrow> argText (f @ ''['' @ x @ '']'') (Some (Action ''range'' [leaf f, leaf x] []))"
| bits: "fieldText f \<Longrightarrow> bitText x \<Longrightarrow> bitText y \<Longrightarrow>
    argText (f @ ''['' @ x @ ''..'' @ y @ '']'') (Some (Action ''range'' [leaf f, leaf x, leaf y] []))"

text \<open>An action is a name, a name with an argument after a colon, an assignment to a field, or a call in parentheses.\<close>

inductive actionText :: "string \<Rightarrow> Action option \<Rightarrow> bool" where
  bare: "name a \<Longrightarrow> actionText a (leaf a)"
| colon: "name a \<Longrightarrow> a \<notin> {''set_field'', ''load'', ''move'', ''enqueue''} \<Longrightarrow> argText w x \<Longrightarrow>
    actionText (a @ '':'' @ w) (Some (Action a [x] []))"
| enqueue: "word p \<Longrightarrow> CHR '':'' \<notin> set p \<Longrightarrow> word q \<Longrightarrow>
    actionText (''enqueue'' @ '':'' @ p @ '':'' @ q) (Some (Action ''enqueue'' [leaf p, leaf q] []))"
| set_field: "word v \<Longrightarrow> CHR ''-'' \<notin> set v \<Longrightarrow> CHR ''/'' \<notin> set v \<Longrightarrow> argText w x \<Longrightarrow>
    actionText (''set_field'' @ '':'' @ v @ ''->'' @ w) (Some (Action ''set_field'' [leaf v, None, x] []))"
| set_masked: "word v \<Longrightarrow> CHR ''-'' \<notin> set v \<Longrightarrow> CHR ''/'' \<notin> set v \<Longrightarrow> word m \<Longrightarrow> CHR ''-'' \<notin> set m \<Longrightarrow> argText w x \<Longrightarrow>
    actionText (''set_field'' @ '':'' @ (v @ ''/'' @ m) @ ''->'' @ w) (Some (Action ''set_field'' [leaf v, leaf m, x] []))"
| load: "word v \<Longrightarrow> CHR ''-'' \<notin> set v \<Longrightarrow> argText w x \<Longrightarrow>
    actionText (''load'' @ '':'' @ v @ ''->'' @ w) (Some (Action ''load'' [leaf v, x] []))"
| move: "argText v x \<Longrightarrow> CHR ''-'' \<notin> set v \<Longrightarrow> argText w y \<Longrightarrow>
    actionText (''move'' @ '':'' @ v @ ''->'' @ w) (Some (Action ''move'' [x, y] []))"
| call: "wfAction x \<Longrightarrow> writeAction x = Some w \<Longrightarrow> actionText w x"

lemma signs_plain: "plain (CHR '':'')" "plain (CHR ''-'')" "plain (CHR ''>'')" "plain (CHR ''/'')" "plain (CHR ''['')" "plain (CHR '']'')" "plain (CHR ''.'')"
  by code_simp+

lemma argText_reads: "argText w x \<Longrightarrow> word w \<and> makeArg w = x"
proof (induction rule: argText.induct)
  case (arg w)
  then have "cutAt ''['' w = None" by (intro cutAt_none) (auto simp: list_all_iff)
  then show ?case using arg by (simp add: makeArg_def)
qed (simp_all add: word_def fieldText_def bitText_def signs_plain makeArg_range [unfolded fieldText_def bitText_def, simplified])

lemma makeAction_colon: "name a \<Longrightarrow> makeAction (a @ '':'' @ w) = Some (Some (Action a (colonArguments a w) []))"
proof -
  assume a: "name a"
  have "dropWhile (\<lambda>c. \<not> isSep c) (a @ CHR '':'' # w) = CHR '':'' # w" "takeWhile (\<lambda>c. \<not> isSep c) (a @ CHR '':'' # w) = a"
    using name_sep [OF a] by (simp_all add: list_all_iff dropWhile_append2 takeWhile_append2 isSep_def)
  then show ?thesis by (subst makeAction.simps) simp
qed

lemma colon_token: "name a \<Longrightarrow> word w \<Longrightarrow> tokenText (a @ '':'' @ w)"
  by (rule word_token) (auto simp: name_def word_def signs_plain)

lemma arrow_cut: "CHR ''-'' \<notin> set v \<Longrightarrow> cutAt ''->'' (v @ ''->'' @ w) = Some (v, w)"
  using cutAt_first [of "CHR ''-''" v "''>''" w] by (auto simp: list_all_iff)

lemma arrow_word: "list_all plain v \<Longrightarrow> word w \<Longrightarrow> word (v @ ''->'' @ w)"
  by (auto simp: word_def signs_plain)

lemma slash_cut: "CHR ''/'' \<notin> set v \<Longrightarrow> cutAt ''/'' v = None" "CHR ''/'' \<notin> set v \<Longrightarrow> cutAt ''/'' (v @ ''/'' @ m) = Some (v, m)"
  using cutAt_none [of "CHR ''/''" v] cutAt_first [of "CHR ''/''" v "[]" m] by (auto simp: list_all_iff)

lemma assign_names: "name ''set_field''" "name ''load''" "name ''move''" "name ''enqueue''"
  by code_simp+

lemma assign_reads:
  assumes a: "name a" "a \<in> {''set_field'', ''load'', ''move''}" and v: "list_all plain v" "CHR ''-'' \<notin> set v" and w: "argText w x"
  shows "tokenText (a @ '':'' @ v @ ''->'' @ w) \<and>
    makeAction (a @ '':'' @ v @ ''->'' @ w) = Some (Some (Action a
      (if a = ''load'' then [leaf v, x] else if a = ''move'' then [makeArg v, x]
       else case cutAt ''/'' v of None \<Rightarrow> [leaf v, None, x] | Some (l, m) \<Rightarrow> [leaf l, leaf m, x]) []))"
proof -
  note w = argText_reads [OF w]
  have "tokenText (a @ '':'' @ v @ ''->'' @ w)" by (rule colon_token [OF a(1) arrow_word]) (use v w in simp_all)
  moreover have "colonArguments a (v @ ''->'' @ w) =
      (if a = ''load'' then [leaf v, x] else if a = ''move'' then [makeArg v, x]
       else case cutAt ''/'' v of None \<Rightarrow> [leaf v, None, x] | Some (l, m) \<Rightarrow> [leaf l, leaf m, x])"
    using a(2) w unfolding colonArguments_def makeFieldAssign_def arrow_cut [OF v(2)] by auto
  ultimately show ?thesis using makeAction_colon [OF a(1), of "v @ ''->'' @ w"] by simp
qed

lemma actionText_reads: "actionText w x \<Longrightarrow> tokenText w \<and> makeAction w = Some x"
proof (induction rule: actionText.induct)
  case (bare a)
  then have "cutAt ''['' a = None" by (intro cutAt_none) (auto simp: name_def list_all_iff)
  then show ?case using bare makeAction_arg [OF name_sep [OF bare]] by (simp add: makeArg_def)
next
  case (colon a w x)
  note w = argText_reads [OF colon(3)]
  have "colonArguments a w = [x]" using colon(2) w by (simp add: colonArguments_def)
  then show ?case using colon_token [OF colon(1)] makeAction_colon [OF colon(1), of w] w by simp
next
  case (enqueue p q)
  have "cutAt '':'' (p @ '':'' @ q) = Some (p, q)"
    using cutAt_first [of "CHR '':''" p "[]" q] enqueue(2) by (auto simp: list_all_iff)
  then have "colonArguments ''enqueue'' (p @ '':'' @ q) = [leaf p, leaf q]" by (simp add: colonArguments_def)
  moreover have "word (p @ '':'' @ q)" using enqueue by (auto simp: word_def signs_plain)
  ultimately show ?case using makeAction_colon [OF assign_names(4)] colon_token [OF assign_names(4)] by metis
next
  case (set_field v w x)
  then show ?case using assign_reads [OF assign_names(1), of v w x] by (simp add: word_def slash_cut)
next
  case (set_masked v m w x)
  then have "list_all plain (v @ ''/'' @ m)" "CHR ''-'' \<notin> set (v @ ''/'' @ m)" by (auto simp: word_def signs_plain)
  from assign_reads [OF assign_names(1) _ this set_masked(6)] show ?case unfolding slash_cut(2) [OF set_masked(3)] by simp
next
  case (load v w x)
  then show ?case using assign_reads [OF assign_names(2), of v w x] by (simp add: word_def)
next
  case (move v x w y)
  then show ?case using assign_reads [OF assign_names(3), of v w y] argText_reads [OF move(1)] by (simp add: word_def)
next
  case (call x w)
  then show ?case using wfAction_reads [of x] by auto
qed

text \<open>A bucket has a number, properties such as \<^verbatim>\<open>weight:2\<close> and actions; a group a number, a type, properties and buckets.\<close>

definition bucketText :: "int \<times> string list \<times> string list \<Rightarrow> string" where
  "bucketText = (\<lambda>(i, ms, ws).
     '',bucket=bucket_id:'' @ FormatUint i 10 @ '','' @ concat (map (\<lambda>m. m @ '','') ms) @ ''actions='' @ joinComma ws)"

definition groupText :: "int \<Rightarrow> string \<Rightarrow> (string \<times> string) list \<Rightarrow> (int \<times> string list \<times> string list) list \<Rightarrow> string" where
  "groupText n ty ms bs =
     ''group_id='' @ FormatUint n 10 @ '',type='' @ ty @
     concat (map (\<lambda>(k, v). '','' @ k @ (if v = [] then [] else ''='' @ v)) ms) @ concat (map bucketText bs)"

definition wfBucketMeta :: "Meta \<Rightarrow> bool" where
  "wfBucketMeta m \<longleftrightarrow> tokenText (me_Key m) \<and> me_Key m \<notin> {''actions'', ''bucket''} \<and> me_Value m = [] \<and>
     (case cutAt '':'' (me_Key m) of Some (l, _) \<Rightarrow> l \<noteq> ''bucket_id'' | None \<Rightarrow> True)"

definition bucketReads :: "int \<times> string list \<times> string list \<Rightarrow> Bucket \<Rightarrow> bool" where
  "bucketReads = (\<lambda>(i, ms, ws) b.
     0 \<le> i \<and> i < 2 ^ 32 \<and> bu_ID b = i \<and>
     bu_Meta b = map (\<lambda>m. \<lparr>me_Key = m, me_Value = []\<rparr>) ms \<and> list_all wfBucketMeta (bu_Meta b) \<and>
     ws \<noteq> [] \<and> ''bucket'' \<notin> set ws \<and> list_all2 actionText ws (bu_Actions b))"

definition wfGroupMeta :: "Meta \<Rightarrow> bool" where
  "wfGroupMeta m \<longleftrightarrow> tokenText (me_Key m) \<and> me_Key m \<notin> {''group_id'', ''type'', ''bucket''} \<and> (me_Value m = [] \<or> tokenText (me_Value m))"

text \<open>What may follow the actions of a bucket: nothing, or the next bucket.\<close>

definition bucketEnd :: "string \<Rightarrow> bool" where
  "bucketEnd t \<longleftrightarrow> t = [] \<or> (\<exists>u. t = '',bucket='' @ u)"

lemma bucket_token: "tokenText ''bucket''" "tokenText ''actions''" "tokenText ''group_id''" "tokenText ''type''"
  by code_simp+

lemma bucketActions_read:
  "list_all2 (\<lambda>x w. tokenText w \<and> w \<noteq> ''bucket'' \<and> makeAction w = Some x) xs ws \<Longrightarrow> xs \<noteq> [] \<Longrightarrow> bucketEnd t \<Longrightarrow>
   parseGroupBucketActions (joinComma ws @ t) b = Some (Inr (b\<lparr>bu_Actions := bu_Actions b @ xs\<rparr>, drop 1 t))"
proof (induction xs ws arbitrary: b rule: list_all2_induct)
  case (Cons x xs w ws)
  let ?b = "b\<lparr>bu_Actions := bu_Actions b @ [x]\<rparr>"
  note w = Cons.hyps(1)
  have step: "parseGroupBucketActions (w @ u) b =
      (case scan u of (tok, _, r) \<Rightarrow> if tok = tComma then parseGroupBucketActions r ?b else if tok = tEOF then Some (Inr (?b, r))
         else Some (Inl ''expecting comma or eof''))" if "stops u" for u
    using w that by (subst parseGroupBucketActions.simps) (simp add: scan_token Let_def)
  show ?case
  proof (cases "xs = []")
    case True
    then have ws: "ws = []" using Cons.hyps by simp
    show ?thesis
    proof (cases "t = []")
      case False
      then obtain u where u: "t = '',bucket='' @ u" using Cons.prems by (auto simp: bucketEnd_def)
      have "parseGroupBucketActions (''bucket'' @ ''='' @ u) ?b = Some (Inr (?b, ''bucket'' @ ''='' @ u))"
        using scan_token [OF bucket_token(1), of "''='' @ u"] by (subst parseGroupBucketActions.simps) simp
      then show ?thesis using step [of t] u ws True by simp
    qed (use step [of "[]"] ws True in simp)
  next
    case False
    then obtain v vs where vs: "ws = v # vs" using Cons.hyps by (cases ws) auto
    have "joinComma (w # ws) @ t = w @ CHR '','' # joinComma ws @ t" using vs by simp
    then show ?thesis using step [of "CHR '','' # joinComma ws @ t"] Cons.IH [of ?b] False Cons.prems by simp
  qed
qed simp

lemma bucketMetas_read:
  "list_all wfBucketMeta ms \<Longrightarrow> parseGroupBucket (concat (map (\<lambda>m. me_Key m @ '','') ms) @ u) b = parseGroupBucket u (b\<lparr>bu_Meta := bu_Meta b @ ms\<rparr>)"
proof (induction ms arbitrary: b)
  case (Cons m ms)
  have m: "tokenText (me_Key m)" "me_Key m \<notin> {''actions'', ''bucket''}"
    "parseMetaBucket b (me_Key m) = Inr (b\<lparr>bu_Meta := bu_Meta b @ [m]\<rparr>)"
    using Cons.prems by (cases m; auto simp: wfBucketMeta_def parseMetaBucket_def split: option.splits)+
  then have "parseGroupBucket (me_Key m @ CHR '','' # v) b = parseGroupBucket v (b\<lparr>bu_Meta := bu_Meta b @ [m]\<rparr>)" for v
    by (subst parseGroupBucket.simps) (simp add: scan_token)
  then show ?case using Cons.IH [of "b\<lparr>bu_Meta := bu_Meta b @ [m]\<rparr>"] Cons.prems by simp
qed simp

lemma bucket_reads:
  assumes "bucketReads btx b"
  shows "\<exists>txt. bucketText btx = '',bucket='' @ txt \<and>
    (\<forall>t. bucketEnd t \<longrightarrow> parseGroupBucket (txt @ t) emptyBucket = Some (Inr (b, drop 1 t)))"
proof -
  obtain k ms ws where btx: "btx = (k, ms, ws)" by (cases btx)
  note wf = assms(1) [unfolded bucketReads_def btx prod.case]
  have id: "bu_ID b = k" and wfm: "list_all wfBucketMeta (bu_Meta b)" using wf by blast+
  have acts_ne: "bu_Actions b \<noteq> []" using wf list_all2_lengthD [of actionText ws "bu_Actions b"] by auto
  have ws: "list_all2 (\<lambda>x w. tokenText w \<and> w \<noteq> ''bucket'' \<and> makeAction w = Some x) (bu_Actions b) ws"
    using wf actionText_reads by (auto simp: list_all2_conv_all_nth in_set_conv_nth)
  define num where "num = FormatUint (bu_ID b) 10"
  have num: "word num" using wf by (simp add: format_word num_def)
  have sig: "plain (CHR '':'')" "list_all plain ''bucket_id''" "list_all (\<lambda>c. c \<noteq> CHR '':'') ''bucket_id''" by code_simp+
  define i where "i = ''bucket_id'' @ CHR '':'' # num"
  have i: "tokenText i" using num sig by (intro word_token) (simp add: word_def i_def)
  have "ParseUint num 0 32 = (bu_ID b, True)" using ParseUint_dec [of "bu_ID b" 32] wf by (simp add: num_def)
  then have meta: "parseMetaBucket emptyBucket i = Inr (emptyBucket\<lparr>bu_ID := bu_ID b\<rparr>)"
    using cutAt_first [OF sig(3), of "[]" num] by (simp add: parseMetaBucket_def i_def)
  have ne: "i \<noteq> ''actions''" "i \<noteq> ''bucket''" by (simp_all add: i_def)
  have first: "parseGroupBucket (i @ CHR '','' # u) emptyBucket = parseGroupBucket u (emptyBucket\<lparr>bu_ID := bu_ID b\<rparr>)" for u
    using i ne meta by (subst parseGroupBucket.simps) (simp add: scan_token)
  have acts: "parseGroupBucket (''actions'' @ ''='' @ joinComma ws @ t) b' = Some (Inr (b'\<lparr>bu_Actions := bu_Actions b' @ bu_Actions b\<rparr>, drop 1 t))"
    if "bucketEnd t" for t b'
    using that acts_ne bucketActions_read [OF ws] scan_token [OF bucket_token(2), of "''='' @ joinComma ws @ t"]
    by (subst parseGroupBucket.simps) simp
  let ?txt = "i @ '','' @ concat (map (\<lambda>m. me_Key m @ '','') (bu_Meta b)) @ ''actions='' @ joinComma ws"
  have "parseGroupBucket (?txt @ t) emptyBucket = Some (Inr (b, drop 1 t))" if "bucketEnd t" for t
    using first bucketMetas_read [OF wfm] id acts [OF that] by (cases b) (simp add: emptyBucket_def)
  moreover have "bucketText btx = '',bucket='' @ ?txt" using wf by (simp add: bucketText_def btx i_def num_def comp_def)
  ultimately show ?thesis by blast
qed

lemma buckets_read:
  "list_all2 bucketReads txs bs \<Longrightarrow> bs \<noteq> [] \<Longrightarrow>
   (\<exists>u. concat (map bucketText txs) = '',bucket='' @ u) \<and>
   (\<forall>g. ParseGroup (drop 1 (concat (map bucketText txs))) g = Some (Inr (g\<lparr>gr_Buckets := gr_Buckets g @ bs\<rparr>)))"
proof (induction txs bs rule: list_all2_induct)
  case (Cons btx txs b bs)
  let ?rest = "concat (map bucketText txs)"
  obtain tx where tx: "bucketText btx = '',bucket='' @ tx"
    "bucketEnd t \<Longrightarrow> parseGroupBucket (tx @ t) emptyBucket = Some (Inr (b, drop 1 t))" for t
    using bucket_reads [OF Cons.hyps(1)] by auto
  have eq: "ParseGroup (''bucket'' @ ''='' @ u) g = parseGroupEq (''='' @ u) g ''bucket''" for u g
    using scan_token [OF bucket_token(1), of "''='' @ u"] by (subst ParseGroup.simps) simp
  have step: "ParseGroup (''bucket'' @ ''='' @ tx @ t) g = ParseGroup (drop 1 t) (g\<lparr>gr_Buckets := gr_Buckets g @ [b]\<rparr>)"
    if "bucketEnd t" for t g
    using tx(2) [OF that] unfolding eq by (subst parseGroupEq.simps) simp
  show ?case
  proof (cases "bs = []")
    case True
    have "ParseGroup [] (g\<lparr>gr_Buckets := gr_Buckets g @ [b]\<rparr>) = Some (Inr (g\<lparr>gr_Buckets := gr_Buckets g @ [b]\<rparr>))" for g
      by (subst ParseGroup.simps) simp
    then show ?thesis using True Cons.hyps tx(1) step [of "[]"] by (simp add: bucketEnd_def)
  next
    case False
    then obtain u where t: "?rest = '',bucket='' @ u"
      "ParseGroup (drop 1 ?rest) g = Some (Inr (g\<lparr>gr_Buckets := gr_Buckets g @ bs\<rparr>))" for g using Cons.IH by auto
    have "bucketEnd ?rest" using t(1) by (auto simp: bucketEnd_def)
    from step [OF this] t(2) have "ParseGroup (''bucket'' @ ''='' @ tx @ ?rest) g = Some (Inr (g\<lparr>gr_Buckets := gr_Buckets g @ b # bs\<rparr>))" for g
      by simp
    then show ?thesis using tx(1) by simp
  qed
qed simp

lemma groupSep_next: "tokenText w \<Longrightarrow> stops t \<Longrightarrow> parseGroupSep (CHR '','' # w @ t) g = parseGroupEq t g w"
  by (subst parseGroupSep.simps) (simp add: scan_token)

lemma groupEq_pair: "tokenText rhs \<Longrightarrow> stops t \<Longrightarrow> lhs \<noteq> ''bucket'' \<Longrightarrow> parseGroupEq (CHR ''='' # rhs @ t) g lhs = groupPair t g lhs rhs"
  by (subst parseGroupEq.simps) (simp add: scan_token)

lemma groupEnd_read:
  assumes "list_all2 bucketReads txs bs"
  shows "(concat (map bucketText txs) = [] \<or> (\<exists>u. concat (map bucketText txs) = '',bucket='' @ u)) \<and>
     (\<forall>g. parseGroupSep (concat (map bucketText txs)) g = Some (Inr (g\<lparr>gr_Buckets := gr_Buckets g @ bs\<rparr>)))"
proof (cases "bs = []")
  case True
  then show ?thesis using assms by (simp add: parseGroupSep.simps [of "[]"])
next
  case False
  let ?txt = "concat (map bucketText txs)"
  obtain u where t: "?txt = '',bucket='' @ u" "ParseGroup (drop 1 ?txt) g = Some (Inr (g\<lparr>gr_Buckets := gr_Buckets g @ bs\<rparr>))" for g
    using buckets_read [OF assms False] by auto
  have "parseGroupSep ?txt g = ParseGroup (drop 1 ?txt) g" for g
    using groupSep_next [OF bucket_token(1), of "''='' @ u"] scan_token [OF bucket_token(1), of "''='' @ u"] t(1)
    by (subst ParseGroup.simps) simp
  then show ?thesis using t by auto
qed

lemma groupMeta_reads:
  assumes "wfGroupMeta m" "stops t" "fst (scan t) \<noteq> tEqual"
  shows "parseGroupSep (CHR '','' # writePair ''='' m @ t) g = parseGroupSep t (g\<lparr>gr_Meta := gr_Meta g @ [m]\<rparr>)"
proof -
  have m: "tokenText (me_Key m)" "me_Key m \<notin> {''group_id'', ''type'', ''bucket''}" using assms(1) by (simp_all add: wfGroupMeta_def)
  then have pair: "groupPair t g (me_Key m) (me_Value m) = parseGroupSep t (g\<lparr>gr_Meta := gr_Meta g @ [m]\<rparr>)"
    by (cases m) (simp add: groupPair.simps)
  show ?thesis
  proof (cases "me_Value m = []")
    case True
    have "parseGroupEq t g (me_Key m) = groupPair t g (me_Key m) []"
      using assms(3) by (subst parseGroupEq.simps) (auto split: prod.split)
    then show ?thesis using True m(1) assms(2) pair by (simp add: writePair_def groupSep_next)
  next
    case False
    then show ?thesis using m assms pair by (simp add: writePair_def groupSep_next groupEq_pair wfGroupMeta_def)
  qed
qed

lemma groupMetas_read:
  assumes "t = [] \<or> (\<exists>u. t = CHR '','' # u)"
  shows "list_all wfGroupMeta ms \<Longrightarrow>
    parseGroupSep (concat (map (\<lambda>m. '','' @ writePair ''='' m) ms) @ t) g = parseGroupSep t (g\<lparr>gr_Meta := gr_Meta g @ ms\<rparr>)"
proof (induction ms arbitrary: g)
  case (Cons m ms)
  let ?t = "concat (map (\<lambda>m. '','' @ writePair ''='' m) ms) @ t"
  have "stops ?t" "fst (scan ?t) \<noteq> tEqual" using assms by (cases ms; auto)+
  then show ?case using groupMeta_reads [of m ?t g] Cons by simp
qed simp

lemma ToASTGroup_reads:
  assumes n: "0 \<le> n" "n < 2 ^ 32" and ty: "word ty"
    and ms: "list_all (\<lambda>(k, v). wfGroupMeta \<lparr>me_Key = k, me_Value = v\<rparr>) ms" and bs: "list_all2 bucketReads txs bs"
  shows "ToASTGroup (groupText n ty ms txs) =
    Some (Inr \<lparr>gr_GroupID = n, gr_Type = ty, gr_Meta = map (\<lambda>(k, v). \<lparr>me_Key = k, me_Value = v\<rparr>) ms, gr_Buckets = bs, gr_UUID = []\<rparr>)"
proof -
  let ?ms = "map (\<lambda>(k, v). \<lparr>me_Key = k, me_Value = v\<rparr>) ms" and ?txt = "concat (map bucketText txs)"
  note t = groupEnd_read [OF bs]
  define num where "num = FormatUint n 10"
  define rest where "rest = concat (map (\<lambda>m. '','' @ writePair ''='' m) ?ms) @ ?txt"
  have num: "tokenText num" "ParseUint num 0 32 = (n, True)" using n by (simp_all add: num_def format_word ParseUint_dec)
  have "stops ?txt" using t by (auto simp del: concat_eq_Nil_conv)
  then have sr: "stops rest" by (cases ms) (auto simp: rest_def)
  have "list_all wfGroupMeta ?ms" using ms by (auto simp: list_all_iff)
  then have metas: "parseGroupSep rest h = Some (Inr (h\<lparr>gr_Meta := gr_Meta h @ ?ms, gr_Buckets := gr_Buckets h @ bs\<rparr>))" for h
    using groupMetas_read [of ?txt ?ms h] t by (auto simp: rest_def)
  have "parseGroupSep (CHR '','' # ''type'' @ ''='' @ ty @ rest) h = parseGroupSep rest (h\<lparr>gr_Type := ty\<rparr>)" for h
    using groupSep_next [OF bucket_token(4), of "''='' @ ty @ rest"] ty sr
    by (simp add: groupEq_pair groupPair.simps)
  moreover have "ParseGroup (''group_id'' @ ''='' @ num @ CHR '','' # u) emptyGroup = parseGroupSep (CHR '','' # u) (emptyGroup\<lparr>gr_GroupID := n\<rparr>)" for u
    using scan_token [OF bucket_token(3), of "''='' @ num @ CHR '','' # u"] num
    by (subst ParseGroup.simps) (simp add: groupEq_pair groupPair.simps)
  moreover have "groupText n ty ms txs = ''group_id'' @ ''='' @ num @ CHR '','' # ''type'' @ ''='' @ ty @ rest"
  proof -
    have "concat (map (\<lambda>(k, v). '','' @ k @ (if v = [] then [] else ''='' @ v)) ms) = concat (map (\<lambda>m. '','' @ writePair ''='' m) ?ms)"
      by (induction ms) (auto simp: writePair_def)
    then show ?thesis by (simp add: groupText_def num_def rest_def)
  qed
  ultimately show ?thesis using metas by (simp add: ToASTGroup_def emptyGroup_def)
qed

section \<open>Properties\<close>

definition sampleRule :: JSONRule where
  "sampleRule = \<lparr>ru_Cookie = 26, ru_Table = 21, ru_Priority = 100, ru_Meta = [\<lparr>me_Key = ''duration'', me_Value = ''1.11s''\<rparr>],
     ru_Filters = [\<lparr>of_Key = ''ip'', of_Value = [], of_Mask = []\<rparr>,
       \<lparr>of_Key = ''nw_src'', of_Value = ''10.0.0.0'', of_Mask = ''255.0.0.0''\<rparr>],
     ru_Actions = [Some (Action ''resubmit'' [None, Some (Action ''11'' [] [])] []),
       Some (Action ''ct'' [Some (Action ''5'' [] ''zone''), Some (Action ''nat'' [Some (Action ''1.2.3.4'' [] ''src'')] [])] []),
       Some (Action ''move'' [Some (Action ''range'' [leaf ''reg0'', leaf ''0'', leaf ''15''] []), leaf ''reg1''] [])],
     ru_UUID = [], ru_RawFilter = ''ip,nw_src:10.0.0.0/255.0.0.0''\<rparr>"

text \<open>The first group of \<^verbatim>\<open>testGroupParses\<close>, and a property and a bucket of the others.\<close>

definition sampleBuckets :: "(int \<times> string list \<times> string list) list" where
  "sampleBuckets =
     [(0, [], [''set_field:00:00:00:11:11:11->eth_src'', ''output:2'']), (1, [''weight:2''], [''output:v3''])]"

text \<open>C29: A rule is read back from its text: for every rule with numbers in range, keys and values without separators and
  actions made of names, ranges of bits and calls with nested, named or missing arguments, printing returns a text and parsing the
  text returns the rule.\<close>

theorem rule_roundtrip:
  assumes "wfRule r"
  shows "\<exists>s. PrettyAST r = Some s \<and> ToAST s = Some (Inr r)"
  using ToAST_PrettyAST [OF assms] .

theorem rule_roundtrip_witness:
  "\<exists>s. PrettyAST sampleRule = Some s \<and> ToAST s = Some (Inr sampleRule)"
proof (rule rule_roundtrip)
  show "wfRule sampleRule" by code_simp
qed

text \<open>C30: The text of a group is read as the group it describes: its number, type and properties, and the buckets in
  order, each with its number, its properties and, in order, the actions its text has, in the syntax of the tests of
  the parser: a name, a name and an argument after a colon, an assignment with an arrow, or a call in parentheses.\<close>

theorem group_reads:
  assumes "0 \<le> n" "n < 2 ^ 32" "word ty" "list_all (\<lambda>(k, v). wfGroupMeta \<lparr>me_Key = k, me_Value = v\<rparr>) ms"
    and "list_all2 bucketReads txs bs"
  shows "ToASTGroup (groupText n ty ms txs) =
    Some (Inr \<lparr>gr_GroupID = n, gr_Type = ty, gr_Meta = map (\<lambda>(k, v). \<lparr>me_Key = k, me_Value = v\<rparr>) ms, gr_Buckets = bs, gr_UUID = []\<rparr>)"
  using assms by (rule ToASTGroup_reads)

theorem group_reads_witness:
  "ToASTGroup ''group_id=4,type=select,selection_method=hash,bucket=bucket_id:0,actions=set_field:00:00:00:11:11:11->eth_src,output:2,bucket=bucket_id:1,weight:2,actions=output:v3'' =
     Some (Inr \<lparr>gr_GroupID = 4, gr_Type = ''select'', gr_Meta = [\<lparr>me_Key = ''selection_method'', me_Value = ''hash''\<rparr>],
       gr_Buckets =
         [\<lparr>bu_ID = 0, bu_Meta = [], bu_Actions = [Some (Action ''set_field'' [leaf ''00:00:00:11:11:11'', None, leaf ''eth_src''] []),
            Some (Action ''output'' [leaf ''2''] [])]\<rparr>,
          \<lparr>bu_ID = 1, bu_Meta = [\<lparr>me_Key = ''weight:2'', me_Value = []\<rparr>], bu_Actions = [Some (Action ''output'' [leaf ''v3''] [])]\<rparr>],
       gr_UUID = []\<rparr>)"
proof -
  have words: "word ''2''" "word ''v3''" "word ''eth_src''" "word ''00:00:00:11:11:11''" "name ''output''" "word ''select''" by code_simp+
  have acts: "actionText ''set_field:00:00:00:11:11:11->eth_src'' (Some (Action ''set_field'' [leaf ''00:00:00:11:11:11'', None, leaf ''eth_src''] []))"
    "actionText ''output:2'' (Some (Action ''output'' [leaf ''2''] []))" "actionText ''output:v3'' (Some (Action ''output'' [leaf ''v3''] []))"
    using set_field [of "''00:00:00:11:11:11''" "''eth_src''" "leaf ''eth_src''"] colon [of "''output''" "''2''" "leaf ''2''"]
      colon [of "''output''" "''v3''" "leaf ''v3''"] arg [of "''2''"] arg [of "''v3''"] arg [of "''eth_src''"] words by auto
  have "wfBucketMeta \<lparr>me_Key = ''weight:2'', me_Value = []\<rparr>" "wfGroupMeta \<lparr>me_Key = ''selection_method'', me_Value = ''hash''\<rparr>"
    by code_simp+
  then have "list_all2 bucketReads sampleBuckets
      [\<lparr>bu_ID = 0, bu_Meta = [], bu_Actions = [Some (Action ''set_field'' [leaf ''00:00:00:11:11:11'', None, leaf ''eth_src''] []),
            Some (Action ''output'' [leaf ''2''] [])]\<rparr>,
       \<lparr>bu_ID = 1, bu_Meta = [\<lparr>me_Key = ''weight:2'', me_Value = []\<rparr>], bu_Actions = [Some (Action ''output'' [leaf ''v3''] [])]\<rparr>]"
    using acts by (simp add: sampleBuckets_def bucketReads_def)
  from group_reads [OF _ _ words(6) _ this, of 4 "[(''selection_method'', ''hash'')]"] \<open>wfGroupMeta _\<close>
  have "ToASTGroup (groupText 4 ''select'' [(''selection_method'', ''hash'')] sampleBuckets) =
     Some (Inr \<lparr>gr_GroupID = 4, gr_Type = ''select'', gr_Meta = [\<lparr>me_Key = ''selection_method'', me_Value = ''hash''\<rparr>],
       gr_Buckets =
         [\<lparr>bu_ID = 0, bu_Meta = [], bu_Actions = [Some (Action ''set_field'' [leaf ''00:00:00:11:11:11'', None, leaf ''eth_src''] []),
            Some (Action ''output'' [leaf ''2''] [])]\<rparr>,
          \<lparr>bu_ID = 1, bu_Meta = [\<lparr>me_Key = ''weight:2'', me_Value = []\<rparr>], bu_Actions = [Some (Action ''output'' [leaf ''v3''] [])]\<rparr>],
       gr_UUID = []\<rparr>)" by simp
  moreover have "groupText 4 ''select'' [(''selection_method'', ''hash'')] sampleBuckets =
      ''group_id=4,type=select,selection_method=hash,bucket=bucket_id:0,actions=set_field:00:00:00:11:11:11->eth_src,output:2,bucket=bucket_id:1,weight:2,actions=output:v3''"
    by code_simp
  ultimately show ?thesis by simp
qed

text \<open>Texts that make the parser or the printer panic: an empty argument of \<^verbatim>\<open>learn\<close>, a named argument with an open
  bracket, and an action named \<^verbatim>\<open>range\<close>.\<close>

lemma learn_panics:
  "ToAST ''priority=1 actions=learn(table=1,,priority=2)'' = None"
  "ToAST ''priority=1 actions=ct(zone=reg0[1)'' = None"
  "Option.bind (ToAST ''priority=1 actions=range'') (case_sum (\<lambda>_. Some []) PrettyAST) = None"
  by code_simp+

end
