(* ===== verification/Graph_Sync.thy ===== *)
theory Graph_Sync
  imports Graph_Theorems Traversal
begin

text \<open>
  Synchronisation of graphs between processes: the messages (\<^verbatim>\<open>src/graffiti/websocket/message.go\<close>), the elements of a
  graph (\<^verbatim>\<open>Elements\<close> of \<^verbatim>\<open>graph.go\<close>, \<^verbatim>\<open>sort.go\<close>), the forwarder of a pod with the
  election of its master (\<^verbatim>\<open>graffiti/common/forwarder.go\<close>, \<^verbatim>\<open>websocket/master.go\<close>), the endpoint of a hub for
  publishers (\<^verbatim>\<open>graffiti/common/publisher_endpoint.go\<close>) and the seed (\<^verbatim>\<open>graffiti/seed/seed.go\<close>).  A graph is over
  any backend \<open>B\<close>; the text of a message is of any type and its decoders are arguments, as are the clock and the library
  sort.  \<open>None\<close> is a panic.
\<close>

section \<open>Messages\<close>

record PartiallyUpdatedOp =
  pu_Type :: int
  pu_Key :: string
  pu_Value :: gval

text \<open>The objects of the messages by their type; \<open>OtherMsg\<close> has a type without a case.  In the two \<open>Nil\<close> messages the
  text had none of the fields of \<^verbatim>\<open>Elements\<close>, so that the embedded pointer is nil.\<close>

datatype gmsg =
    SyncRequestMsg Context "string option"
  | SyncMsg "Node list" "Edge list"
  | SyncReplyMsg "Node list" "Edge list"
  | NilSyncMsg | NilSyncReplyMsg
  | NodeUpdatedMsg Node | NodeDeletedMsg Node | NodeAddedMsg Node
  | EdgeUpdatedMsg Edge | EdgeDeletedMsg Edge | EdgeAddedMsg Edge
  | PartiallyUpdatedMsg Identifier "PartiallyUpdatedOp list"
  | OtherMsg

record 'o StructMessage =
  sm_Type :: string
  sm_Status :: int
  sm_Obj :: 'o

text \<open>\<^verbatim>\<open>json.Unmarshal\<close> into the type of each object; \<open>None\<close> is an error, \<open>Some None\<close> a nil
  pointer to the elements.\<close>

record 'o decoders =
  dec_SyncRequest :: "'o \<Rightarrow> (Context \<times> string option) option"
  dec_Elements :: "'o \<Rightarrow> (Node list \<times> Edge list) option option"
  dec_Node :: "'o \<Rightarrow> Node option"
  dec_Edge :: "'o \<Rightarrow> Edge option"
  dec_Partial :: "'o \<Rightarrow> (Identifier \<times> PartiallyUpdatedOp list) option"

definition UnmarshalMessage :: "'o decoders \<Rightarrow> 'o StructMessage \<Rightarrow> gmsg option" where
  "UnmarshalMessage d msg =
     (let typ = sm_Type msg; obj = sm_Obj msg in
      if typ = ''SyncRequest'' then map_option (\<lambda>(c, f). SyncRequestMsg c f) (dec_SyncRequest d obj)
      else if typ = ''Sync'' then map_option (case_option NilSyncMsg (\<lambda>(ns, es). SyncMsg ns es)) (dec_Elements d obj)
      else if typ = ''SyncReply'' then map_option (case_option NilSyncReplyMsg (\<lambda>(ns, es). SyncReplyMsg ns es)) (dec_Elements d obj)
      else if typ = ''NodeUpdated'' then map_option NodeUpdatedMsg (dec_Node d obj)
      else if typ = ''NodeDeleted'' then map_option NodeDeletedMsg (dec_Node d obj)
      else if typ = ''NodeAdded'' then map_option NodeAddedMsg (dec_Node d obj)
      else if typ = ''EdgeUpdated'' then map_option EdgeUpdatedMsg (dec_Edge d obj)
      else if typ = ''EdgeDeleted'' then map_option EdgeDeletedMsg (dec_Edge d obj)
      else if typ = ''EdgeAdded'' then map_option EdgeAddedMsg (dec_Edge d obj)
      else if typ = ''NodePartiallyUpdated'' \<or> typ = ''EdgePartiallyUpdated''
      then map_option (\<lambda>(i, ops). PartiallyUpdatedMsg i ops) (dec_Partial d obj)
      else Some OtherMsg)"

section \<open>The elements of a graph\<close>

text \<open>
  \<^verbatim>\<open>Less\<close> of edges; the one of nodes is \<open>nodeLess\<close>.  \<open>sorter\<close> is \<^verbatim>\<open>sort.Sort\<close>.
\<close>

definition edgeLess :: "string \<Rightarrow> SortOrder \<Rightarrow> world \<Rightarrow> eref \<Rightarrow> eref \<Rightarrow> bool" where
  "edgeLess sortBy order w i j =
     (if is_ok (element_GetFieldInt64 (h_edge w i) sortBy) then
        (let i1 = value_or 0 (element_GetFieldInt64 (h_edge w i) sortBy); i2 = value_or 0 (element_GetFieldInt64 (h_edge w j) sortBy)
         in if order = SortAscending then i1 < i2 else i1 > i2)
      else
        (let s1 = value_or [] (Edge_GetFieldString (h_edge w i) sortBy); s2 = value_or [] (Edge_GetFieldString (h_edge w j) sortBy)
         in if order = SortAscending then strLess s1 s2 else strLess s2 s1))"

type_synonym sorter = "(nat \<Rightarrow> nat \<Rightarrow> bool) \<Rightarrow> nat list \<Rightarrow> nat list"

definition SortEdges :: "sorter \<Rightarrow> world \<Rightarrow> eref list \<Rightarrow> string \<Rightarrow> SortOrder \<Rightarrow> eref list" where
  "SortEdges sorter w edges sortBy order = sorter (edgeLess sortBy order w) edges"

definition Graph_Elements :: "sorter \<Rightarrow> 'b Backend \<Rightarrow> 'b Graph \<Rightarrow> Node list \<times> Edge list" where
  "Graph_Elements sorter B g =
     (map (h_node (g_world g)) (sorter (nodeLess ''CreatedAt'' SortAscending (g_world g)) (Graph_GetNodes B g None)),
      map (h_edge (g_world g)) (SortEdges sorter (g_world g) (Graph_GetEdges B g None) ''CreatedAt'' SortAscending))"

section \<open>Speakers\<close>

record Speaker =
  sp_ServiceType :: string
  sp_RemoteHost :: string
  sp_Headers :: "(string, string) gomap"

definition headerGet :: "Speaker \<Rightarrow> string \<Rightarrow> string" where
  "headerGet c k = (case map_of (sp_Headers c) k of Some v \<Rightarrow> v | None \<Rightarrow> [])"

definition ClientOrigin :: "Speaker \<Rightarrow> string" where
  "ClientOrigin c = sp_ServiceType c @ (if length (sp_RemoteHost c) > 0 then CHR ''.'' # sp_RemoteHost c else [])"

definition DelSubGraphOfOrigin :: "'b Backend \<Rightarrow> int \<Rightarrow> string \<Rightarrow> 'b Graph \<Rightarrow> 'b Graph option" where
  "DelSubGraphOfOrigin B now origin g =
     map_option fst (Graph_DelNodes B now (Some (MetadataMatcher [(''Origin'', VString origin)])) g)"

section \<open>Receiving a message\<close>

text \<open>
  The cases for single elements are the same in every receiver.  The decoded element is a new object.  The error is logged.
\<close>

fun applyElement :: "'b Backend \<Rightarrow> gmsg \<Rightarrow> 'b Graph \<Rightarrow> 'b outcome" where
  "applyElement B (NodeUpdatedMsg n) g = (let (w, r) = new_node n (g_world g) in Graph_NodeUpdated B r (g\<lparr>g_world := w\<rparr>))"
| "applyElement B (NodeDeletedMsg n) g = (let (w, r) = new_node n (g_world g) in Graph_NodeDeleted B r (g\<lparr>g_world := w\<rparr>))"
| "applyElement B (NodeAddedMsg n) g = (let (w, r) = new_node n (g_world g) in Graph_NodeAdded B r (g\<lparr>g_world := w\<rparr>))"
| "applyElement B (EdgeUpdatedMsg e) g = (let (w, r) = new_edge e (g_world g) in Graph_EdgeUpdated B r (g\<lparr>g_world := w\<rparr>))"
| "applyElement B (EdgeDeletedMsg e) g = (let (w, r) = new_edge e (g_world g) in Graph_EdgeDeleted B r (g\<lparr>g_world := w\<rparr>))"
| "applyElement B (EdgeAddedMsg e) g = (let (w, r) = new_edge e (g_world g) in Graph_EdgeAdded B r (g\<lparr>g_world := w\<rparr>))"
| "applyElement B _ g = Some (g, None)"

text \<open>The two loops over the elements of a synchronisation; an element that is there already is left alone.\<close>

fun syncNodes :: "'b Backend \<Rightarrow> Node list \<Rightarrow> 'b Graph \<Rightarrow> 'b Graph option" where
  "syncNodes B [] g = Some g"
| "syncNodes B (n # ns) g =
     (if Graph_GetNode B g (ID n) = None
      then Option.bind (applyElement B (NodeAddedMsg n) g) (\<lambda>(g, _). syncNodes B ns g)
      else syncNodes B ns g)"

fun syncEdges :: "'b Backend \<Rightarrow> Edge list \<Rightarrow> 'b Graph \<Rightarrow> 'b Graph option" where
  "syncEdges B [] g = Some g"
| "syncEdges B (e # es) g =
     (if Graph_GetEdge B g (ID e) = None
      then Option.bind (applyElement B (EdgeAddedMsg e) g) (\<lambda>(g, _). syncEdges B es g)
      else syncEdges B es g)"

definition syncElements :: "'b Backend \<Rightarrow> Node list \<Rightarrow> Edge list \<Rightarrow> 'b Graph \<Rightarrow> 'b Graph option" where
  "syncElements B ns es g = Option.bind (syncNodes B ns g) (syncEdges B es)"

section \<open>The publisher endpoint\<close>

text \<open>An implementation of the interface \<^verbatim>\<open>validator.Validator\<close>; \<open>None\<close> as a result is nil.\<close>

record Validator =
  ValidateNode :: "Node \<Rightarrow> go_error option"
  ValidateEdge :: "Edge \<Rightarrow> go_error option"

record 'b PublisherEndpoint =
  pub_Graph :: "'b Graph"
  pub_authors :: "(string, bool) gomap"
  pub_sent :: "(Speaker \<times> gmsg) list" \<comment> \<open>history: the replies sent\<close>

definition NewPublisherEndpoint :: "'b Graph \<Rightarrow> 'b PublisherEndpoint" where
  "NewPublisherEndpoint g = \<lparr>pub_Graph = g, pub_authors = [], pub_sent = []\<rparr>"

definition Publisher_OnDisconnected ::
  "'b Backend \<Rightarrow> int \<Rightarrow> Speaker \<Rightarrow> 'b PublisherEndpoint \<Rightarrow> 'b PublisherEndpoint option" where
  "Publisher_OnDisconnected B now c t =
     (let origin = ClientOrigin c in
      if map_of (pub_authors t) origin = None then Some t
      else map_option (\<lambda>g. t\<lparr>pub_Graph := g, pub_authors := gm_del origin (pub_authors t)\<rparr>)
             (if headerGet c ''X-Persistence-Policy'' \<noteq> ''Persistent''
              then DelSubGraphOfOrigin B now origin (pub_Graph t)
              else Some (pub_Graph t)))"

text \<open>With a validator the origin is set and the element validated.\<close>

fun validate :: "Validator \<Rightarrow> string \<Rightarrow> gmsg \<Rightarrow> gmsg result" where
  "validate v origin (NodeAddedMsg n) =
     (let n = n\<lparr>Origin := origin\<rparr> in case ValidateNode v n of None \<Rightarrow> Inr (NodeAddedMsg n) | Some err \<Rightarrow> Inl err)"
| "validate v origin (NodeUpdatedMsg n) =
     (let n = n\<lparr>Origin := origin\<rparr> in case ValidateNode v n of None \<Rightarrow> Inr (NodeUpdatedMsg n) | Some err \<Rightarrow> Inl err)"
| "validate v origin (NodeDeletedMsg n) =
     (let n = n\<lparr>Origin := origin\<rparr> in case ValidateNode v n of None \<Rightarrow> Inr (NodeDeletedMsg n) | Some err \<Rightarrow> Inl err)"
| "validate v origin (EdgeAddedMsg e) =
     (let e = e\<lparr>Origin := origin\<rparr> in case ValidateEdge v e of None \<Rightarrow> Inr (EdgeAddedMsg e) | Some err \<Rightarrow> Inl err)"
| "validate v origin (EdgeUpdatedMsg e) =
     (let e = e\<lparr>Origin := origin\<rparr> in case ValidateEdge v e of None \<Rightarrow> Inr (EdgeUpdatedMsg e) | Some err \<Rightarrow> Inl err)"
| "validate v origin (EdgeDeletedMsg e) =
     (let e = e\<lparr>Origin := origin\<rparr> in case ValidateEdge v e of None \<Rightarrow> Inr (EdgeDeletedMsg e) | Some err \<Rightarrow> Inl err)"
| "validate v origin m = Inr m"

fun publisherApply ::
  "sorter \<Rightarrow> 'b Backend \<Rightarrow> int \<Rightarrow> Speaker \<Rightarrow> gmsg \<Rightarrow> 'b PublisherEndpoint \<Rightarrow> 'b PublisherEndpoint option" where
  "publisherApply sorter B now c (SyncRequestMsg _ _) t =
     Some (t\<lparr>pub_sent := pub_sent t @ [(c, case Graph_Elements sorter B (pub_Graph t) of (ns, es) \<Rightarrow> SyncReplyMsg ns es)]\<rparr>)"
| "publisherApply sorter B now c (SyncMsg ns es) t =
     map_option (\<lambda>g. t\<lparr>pub_Graph := g\<rparr>)
       (Option.bind (DelSubGraphOfOrigin B now (ClientOrigin c) (pub_Graph t)) (syncElements B ns es))"
| "publisherApply sorter B now c (SyncReplyMsg ns es) t =
     map_option (\<lambda>g. t\<lparr>pub_Graph := g\<rparr>)
       (Option.bind (DelSubGraphOfOrigin B now (ClientOrigin c) (pub_Graph t)) (syncElements B ns es))"
| "publisherApply sorter B now c NilSyncMsg t = None"
| "publisherApply sorter B now c NilSyncReplyMsg t = None"
| "publisherApply sorter B now c m t = map_option (\<lambda>(g, _). t\<lparr>pub_Graph := g\<rparr>) (applyElement B m (pub_Graph t))"

definition Publisher_OnStructMessage ::
  "'o decoders \<Rightarrow> sorter \<Rightarrow> Validator option \<Rightarrow> 'b Backend \<Rightarrow> int \<Rightarrow> Speaker \<Rightarrow> 'o StructMessage \<Rightarrow>
   'b PublisherEndpoint \<Rightarrow> 'b PublisherEndpoint option" where
  "Publisher_OnStructMessage d sorter validator B now c msg t =
     (case UnmarshalMessage d msg of
        None \<Rightarrow> Some t
      | Some m \<Rightarrow>
          (let origin = ClientOrigin c;
               t = (if map_of (pub_authors t) origin = None then t\<lparr>pub_authors := gm_set origin True (pub_authors t)\<rparr> else t)
           in case (case validator of None \<Rightarrow> Inr m | Some v \<Rightarrow> validate v origin m) of
                Inl err \<Rightarrow> Some t
              | Inr m \<Rightarrow> publisherApply sorter B now c m t))"

text \<open>The messages of one publisher in the order they arrive.\<close>

fun publisherRun ::
  "'o decoders \<Rightarrow> sorter \<Rightarrow> Validator option \<Rightarrow> 'b Backend \<Rightarrow> int \<Rightarrow> Speaker \<Rightarrow> 'o StructMessage list \<Rightarrow>
   'b PublisherEndpoint \<Rightarrow> 'b PublisherEndpoint option" where
  "publisherRun d sorter v B now c [] t = Some t"
| "publisherRun d sorter v B now c (msg # msgs) t =
     Option.bind (Publisher_OnStructMessage d sorter v B now c msg t) (publisherRun d sorter v B now c msgs)"

section \<open>The seed\<close>

record 'b Seed =
  sd_g :: "'b Graph"
  sd_listeners :: "nat list"
  sd_synchronized :: "nat list" \<comment> \<open>history: the calls of \<open>OnSynchronized\<close>\<close>
  sd_sent :: "gmsg list" \<comment> \<open>history: the messages to the subscriber connection\<close>

definition Seed_OnConnected :: "'b Seed \<Rightarrow> 'b Seed" where
  "Seed_OnConnected s = s\<lparr>sd_sent := sd_sent s @ [SyncRequestMsg \<lparr>ctxTimeSlice = None, TimePoint = False\<rparr> None]\<rparr>"

definition seedSync :: "'b Backend \<Rightarrow> int \<Rightarrow> string \<Rightarrow> Node list \<Rightarrow> Edge list \<Rightarrow> 'b Seed \<Rightarrow> 'b Seed option" where
  "seedSync B now origin ns es s =
     map_option (\<lambda>g. s\<lparr>sd_g := g, sd_synchronized := sd_synchronized s @ sd_listeners s\<rparr>)
       (Option.bind (DelSubGraphOfOrigin B now origin (sd_g s)) (syncElements B ns es))"

definition Seed_OnStructMessage ::
  "'o decoders \<Rightarrow> 'b Backend \<Rightarrow> int \<Rightarrow> Speaker \<Rightarrow> 'o StructMessage \<Rightarrow> 'b Seed \<Rightarrow> 'b Seed option" where
  "Seed_OnStructMessage d B now c msg s =
     (if sm_Status msg \<noteq> 200 then Some s
      else case UnmarshalMessage d msg of
             None \<Rightarrow> Some s
           | Some (SyncMsg ns es) \<Rightarrow> seedSync B now (ClientOrigin c) ns es s
           | Some (SyncReplyMsg ns es) \<Rightarrow> seedSync B now (ClientOrigin c) ns es s
           | Some NilSyncMsg \<Rightarrow> None
           | Some NilSyncReplyMsg \<Rightarrow> None
           | Some m \<Rightarrow> map_option (\<lambda>(g, _). s\<lparr>sd_g := g\<rparr>) (applyElement B m (sd_g s)))"

definition Seed_AddEventHandler :: "nat \<Rightarrow> 'b Seed \<Rightarrow> 'b Seed" where
  "Seed_AddEventHandler h s = s\<lparr>sd_listeners := sd_listeners s @ [h]\<rparr>"

definition Seed_RemoveEventHandler :: "nat \<Rightarrow> 'b Seed \<Rightarrow> 'b Seed" where
  "Seed_RemoveEventHandler h s = s\<lparr>sd_listeners := remove1 h (sd_listeners s)\<rparr>"

section \<open>The forwarder and the election of its master\<close>

text \<open>
  The master election of a forwarder has the forwarder as its only handler.  \<open>fw_id\<close> is the forwarder as a listener of the
  graph.  A speaker of the pool comes with whether it is connected.
\<close>

record 'b Forwarder =
  fw_graph :: "'b Graph"
  fw_id :: EventListener
  fw_pool :: "(Speaker \<times> bool) list"
  fw_master :: "Speaker option"
  fw_sent :: "(Speaker \<times> gmsg) list" \<comment> \<open>history: the messages sent and to whom\<close>

definition NewForwarder :: "'b Graph \<Rightarrow> EventListener \<Rightarrow> (Speaker \<times> bool) list \<Rightarrow> 'b Forwarder" where
  "NewForwarder g l pool = \<lparr>fw_graph = g, fw_id = l, fw_pool = pool, fw_master = None, fw_sent = []\<rparr>"

definition SendMessageToMaster :: "gmsg \<Rightarrow> 'b Forwarder \<Rightarrow> 'b Forwarder" where
  "SendMessageToMaster m f = (case fw_master f of None \<Rightarrow> f | Some c \<Rightarrow> f\<lparr>fw_sent := fw_sent f @ [(c, m)]\<rparr>)"

definition triggerResync :: "sorter \<Rightarrow> 'b Backend \<Rightarrow> 'b Forwarder \<Rightarrow> 'b Forwarder" where
  "triggerResync sorter B f =
     SendMessageToMaster (case Graph_Elements sorter B (fw_graph f) of (ns, es) \<Rightarrow> SyncMsg ns es) f"

definition OnNewMaster :: "sorter \<Rightarrow> 'b Backend \<Rightarrow> Speaker option \<Rightarrow> 'b Forwarder \<Rightarrow> 'b Forwarder" where
  "OnNewMaster sorter B c f =
     (case c of
        None \<Rightarrow> f\<lparr>fw_graph := Graph_RemoveEventListener (fw_id f) (fw_graph f)\<rparr>
      | Some _ \<Rightarrow>
          (let f = triggerResync sorter B f in f\<lparr>fw_graph := Graph_AddEventListener (fw_id f) (fw_graph f)\<rparr>))"

text \<open>\<^verbatim>\<open>PickConnectedSpeaker\<close> from a random index, which is an argument.\<close>

fun pickLoop :: "(Speaker \<times> bool) list \<Rightarrow> nat \<Rightarrow> nat \<Rightarrow> Speaker option" where
  "pickLoop speakers index 0 = None"
| "pickLoop speakers index (Suc n) =
     (if snd (speakers ! index) then Some (fst (speakers ! index))
      else pickLoop speakers (if index + 1 \<ge> length speakers then 0 else index + 1) n)"

definition PickConnectedSpeaker :: "(Speaker \<times> bool) list \<Rightarrow> nat \<Rightarrow> Speaker option" where
  "PickConnectedSpeaker speakers index = (if length speakers = 0 then None else pickLoop speakers index (length speakers))"

definition Master_OnConnected :: "sorter \<Rightarrow> 'b Backend \<Rightarrow> Speaker \<Rightarrow> 'b Forwarder \<Rightarrow> 'b Forwarder" where
  "Master_OnConnected sorter B c f =
     (if fw_master f = None then OnNewMaster sorter B (Some c) (f\<lparr>fw_master := Some c\<rparr>) else f)"

definition Master_OnDisconnected :: "sorter \<Rightarrow> 'b Backend \<Rightarrow> nat \<Rightarrow> Speaker \<Rightarrow> 'b Forwarder \<Rightarrow> 'b Forwarder" where
  "Master_OnDisconnected sorter B index c f =
     (case fw_master f of
        Some m \<Rightarrow>
          (if sp_RemoteHost m = sp_RemoteHost c then
             (let master = PickConnectedSpeaker (fw_pool f) index in OnNewMaster sorter B master (f\<lparr>fw_master := master\<rparr>))
           else f)
      | None \<Rightarrow> f)"

text \<open>The callbacks of the graph: each event is sent with the element as it is.\<close>

fun eventMsg :: "graphEventType \<times> snapshot \<Rightarrow> gmsg" where
  "eventMsg (NodeUpdated, NodeSnap n) = NodeUpdatedMsg n"
| "eventMsg (NodeAdded, NodeSnap n) = NodeAddedMsg n"
| "eventMsg (NodeDeleted, NodeSnap n) = NodeDeletedMsg n"
| "eventMsg (EdgeUpdated, EdgeSnap e) = EdgeUpdatedMsg e"
| "eventMsg (EdgeAdded, EdgeSnap e) = EdgeAddedMsg e"
| "eventMsg (EdgeDeleted, EdgeSnap e) = EdgeDeletedMsg e"
| "eventMsg _ = OtherMsg"

text \<open>The forwarder is called once for every time it is registered.\<close>

definition registrations :: "'b Forwarder \<Rightarrow> nat" where
  "registrations f = count_list (eventListeners (g_eventHandler (fw_graph f))) (fw_id f)"

definition Forwarder_hear :: "nat \<Rightarrow> (graphEventType \<times> snapshot) list \<Rightarrow> 'b Forwarder \<Rightarrow> 'b Forwarder" where
  "Forwarder_hear k evs f = fold (\<lambda>ev. SendMessageToMaster (eventMsg ev) ^^ k) evs f"

text \<open>The listeners stay the same while calls run on the graph of the pod, which are followed by the messages about
  their events.\<close>

definition Forwarder_run :: "(string \<Rightarrow> string) \<Rightarrow> 'b Backend \<Rightarrow> gop list \<Rightarrow> 'b Forwarder \<Rightarrow> 'b Forwarder option" where
  "Forwarder_run u B ops f =
     (case runOps u B ops (fw_graph f) of
        None \<Rightarrow> None
      | Some g \<Rightarrow>
          Some (Forwarder_hear (registrations f) (drop (length (g_published (fw_graph f))) (g_published g)) (f\<lparr>fw_graph := g\<rparr>)))"

end
