(* ===== verification/Sync_Facts.thy ===== *)
theory Sync_Facts
  imports Graph_Sync "HOL-Library.Multiset"
begin

text \<open>
  What the receivers of graph messages do to the abstract graph: every message of a single element is \<open>deliver\<close>, the graph of
  an origin is removed as a whole, and a synchronisation adds what is missing.  On top of it, a receiver that gets the elements of
  a graph and then the messages of its events has that graph, beside what it has from others.
\<close>

section \<open>Messages on the abstract graph\<close>

fun deliver :: "gmsg \<Rightarrow> agraph \<Rightarrow> agraph" where
  "deliver (NodeAddedMsg n) a = fst (specAddNode n a)"
| "deliver (NodeUpdatedMsg n) a =
     (case a_nodes a (ID n) of
        Some old \<Rightarrow>
          (if Revision old < Revision n
           then a\<lparr>a_nodes := (a_nodes a)(ID n \<mapsto> old\<lparr>Metadata := Metadata n, UpdatedAt := UpdatedAt n, Revision := Revision n\<rparr>)\<rparr>
           else a)
      | None \<Rightarrow> a)"
| "deliver (NodeDeletedMsg n) a = fst (specDelNode (ID n) a)"
| "deliver (EdgeAddedMsg e) a = fst (specAddEdge e a)"
| "deliver (EdgeUpdatedMsg e) a =
     (case a_edges a (ID e) of
        Some old \<Rightarrow>
          (if Revision old < Revision e
           then a\<lparr>a_edges := (a_edges a)(ID e \<mapsto> old\<lparr>Metadata := Metadata e, UpdatedAt := UpdatedAt e\<rparr>)\<rparr>
           else a)
      | None \<Rightarrow> a)"
| "deliver (EdgeDeletedMsg e) a = fst (specDelEdge (ID e) a)"
| "deliver _ a = a"

text \<open>The edge of a deletion has the ends of the edge it deletes, and a synchronisation has its elements.\<close>

fun endsFit :: "agraph \<Rightarrow> gmsg \<Rightarrow> bool" where
  "endsFit a (EdgeDeletedMsg e) =
     (case a_edges a (ID e) of None \<Rightarrow> True | Some old \<Rightarrow> Parent old = Parent e \<and> Child old = Child e)"
| "endsFit a NilSyncMsg = False"
| "endsFit a _ = True"

context reliable_backend
begin

lemma updateNode_abs:
  assumes ok: "graph_ok binv nrefs erefs g" and r: "nrefs (g_backend g) i = Some r" and upd: "sameButData (h_node (g_world g) r) n"
  shows "\<exists>g'. publish (\<lambda>w b. be_MetadataUpdated B w b (NodeElem r)) NodeUpdated (NodeElem r) (g\<lparr>g_world := put_node r n (g_world g)\<rparr>) =
      Some (g', None) \<and> graph_ok binv nrefs erefs g' \<and>
    absGraph nrefs erefs g' = (absGraph nrefs erefs g)\<lparr>a_nodes := (a_nodes (absGraph nrefs erefs g))(i \<mapsto> n)\<rparr>"
proof -
  let ?w = "put_node r n (g_world g)"
  let ?g = "g\<lparr>g_world := ?w\<rparr>"
  have id: "ID (h_node (g_world g) r) = i" by (rule stored_node_id [OF ok r])
  have ok': "graph_ok binv nrefs erefs ?g"
    using ok sameButDataD [OF upd] by (intro graph_ok_world) (auto intro: same_ids_put_node)
  have sel: "g_backend ?g = g_backend g" "g_world ?g = ?w" by simp_all
  obtain g' err where g': "publish (\<lambda>w b. be_MetadataUpdated B w b (NodeElem r)) NodeUpdated (NodeElem r) ?g = Some (g', err)"
    "graph_ok binv nrefs erefs g'" "err = snd (be_MetadataUpdated B ?w (g_backend g) (NodeElem r))"
    "effect nrefs erefs g ?w (nrefs (g_backend g)) (erefs (g_backend g)) NodeUpdated (NodeElem r) g' err"
    using publish_MetadataUpdated [OF ok', of NodeUpdated "NodeElem r"] unfolding sel effect_world by auto
  have "err = None" using metadata_updated_ok [where x = "NodeElem r" and b = "g_backend g" and w = ?w] g'(3) r id sameButDataD [OF upd] by simp
  moreover have "map_option (h_node ?w) (nrefs (g_backend g) j) =
      (if j = i then Some n else map_option (h_node (g_world g)) (nrefs (g_backend g) j))" for j
    using abs_put_node [OF ok refl, of j r n] r id by simp
  ultimately show ?thesis using g'(1,2,4) by (simp add: effect_def absGraph_def fun_eq_iff)
qed

lemma updateEdge_abs:
  assumes ok: "graph_ok binv nrefs erefs g" and e: "erefs (g_backend g) j = Some e" and upd: "sameButData (h_edge (g_world g) e) x"
  shows "\<exists>g'. publish (\<lambda>w b. be_MetadataUpdated B w b (EdgeElem e)) EdgeUpdated (EdgeElem e) (g\<lparr>g_world := put_edge e x (g_world g)\<rparr>) =
      Some (g', None) \<and> graph_ok binv nrefs erefs g' \<and> g_published g' = g_published g @ [(EdgeUpdated, EdgeSnap x)] \<and>
    absGraph nrefs erefs g' = (absGraph nrefs erefs g)\<lparr>a_edges := (a_edges (absGraph nrefs erefs g))(j \<mapsto> x)\<rparr>"
proof -
  let ?w = "put_edge e x (g_world g)"
  let ?g = "g\<lparr>g_world := ?w\<rparr>"
  have id: "ID (h_edge (g_world g) e) = j" by (rule stored_edge_id [OF ok e])
  have ok': "graph_ok binv nrefs erefs ?g"
    using ok sameButDataD [OF upd] sameButData_ends [OF upd] by (intro graph_ok_world) (auto intro: same_ids_put_edge)
  have sel: "g_backend ?g = g_backend g" "g_world ?g = ?w" by simp_all
  obtain g' err where g': "publish (\<lambda>w b. be_MetadataUpdated B w b (EdgeElem e)) EdgeUpdated (EdgeElem e) ?g = Some (g', err)"
    "graph_ok binv nrefs erefs g'" "err = snd (be_MetadataUpdated B ?w (g_backend g) (EdgeElem e))"
    "effect nrefs erefs g ?w (nrefs (g_backend g)) (erefs (g_backend g)) EdgeUpdated (EdgeElem e) g' err"
    using publish_MetadataUpdated [OF ok', of EdgeUpdated "EdgeElem e"] unfolding sel effect_world by auto
  have "err = None" using metadata_updated_ok [where x = "EdgeElem e" and b = "g_backend g" and w = ?w] g'(3) e id sameButDataD [OF upd] by simp
  moreover have "map_option (h_edge ?w) (erefs (g_backend g) i) =
      (if i = j then Some x else map_option (h_edge (g_world g)) (erefs (g_backend g) i))" for i
    using abs_put_edge [OF ok refl, of i e x] e id by simp
  ultimately show ?thesis using g'(1,2,4) by (simp add: effect_def absGraph_def fun_eq_iff)
qed

lemma EdgeDeleted_spec:
  assumes ok: "graph_ok binv nrefs erefs g" and ends: "endsAgree erefs g e"
  shows "\<exists>g' err. Graph_EdgeDeleted B e g = Some (g', err) \<and> graph_ok binv nrefs erefs g' \<and>
    (absGraph nrefs erefs g', err) = specDelEdge (ID (h_edge (g_world g) e)) (absGraph nrefs erefs g)"
proof -
  let ?j = "ID (h_edge (g_world g) e)"
  obtain g' err where g': "Graph_EdgeDeleted B e g = Some (g', err)" "graph_ok binv nrefs erefs g'"
    "err = snd (be_EdgeDeleted B (g_world g) (g_backend g) e)"
    "if erefs (g_backend g) ?j = None then g' = g \<and> err = Some ErrEdgeNotFound
     else effect nrefs erefs g (g_world g) (nrefs (g_backend g)) ((erefs (g_backend g))(?j := None)) EdgeDeleted (EdgeElem e) g' err"
    using EdgeDeleted_effect [OF ok refl ends] by blast
  have "erefs (g_backend g) ?j \<noteq> None \<Longrightarrow> err = None" using edge_deleted_ok g'(3) by simp
  then show ?thesis using g'(1,2,4)
    by (cases "erefs (g_backend g) ?j") (auto simp: specDelEdge_def absGraph_def effect_def fun_eq_iff)
qed

section \<open>Single elements\<close>

lemma NodeUpdated_deliver:
  assumes ok: "graph_ok binv nrefs erefs g"
  shows "\<exists>g' err. Graph_NodeUpdated B r g = Some (g', err) \<and> graph_ok binv nrefs erefs g' \<and>
    absGraph nrefs erefs g' = deliver (NodeUpdatedMsg (h_node (g_world g) r)) (absGraph nrefs erefs g)"
proof (cases "nrefs (g_backend g) (ID (h_node (g_world g) r))")
  case None
  then show ?thesis using ok by (simp add: Graph_NodeUpdated_def GetNode_live [OF ok] absGraph_def)
next
  case (Some r')
  from updateNode_abs [OF ok Some sameButData_update(1)] show ?thesis using ok Some
    by (simp add: Graph_NodeUpdated_def GetNode_live [OF ok] Let_def) (simp add: absGraph_def, blast)
qed

lemma EdgeUpdated_deliver:
  assumes ok: "graph_ok binv nrefs erefs g"
  shows "\<exists>g' err. Graph_EdgeUpdated B r g = Some (g', err) \<and> graph_ok binv nrefs erefs g' \<and>
    absGraph nrefs erefs g' = deliver (EdgeUpdatedMsg (h_edge (g_world g) r)) (absGraph nrefs erefs g)"
proof (cases "erefs (g_backend g) (ID (h_edge (g_world g) r))")
  case None
  then show ?thesis using ok by (simp add: Graph_EdgeUpdated_def GetEdge_live [OF ok] absGraph_def)
next
  case (Some r')
  from updateEdge_abs [OF ok Some sameButData_update(2)] show ?thesis using ok Some
    by (simp add: Graph_EdgeUpdated_def GetEdge_live [OF ok] Let_def) (simp add: absGraph_def, blast)
qed

lemma NodeAdded_deliver:
  assumes ok: "graph_ok binv nrefs erefs g" and r: "r < h_next (g_world g)"
  shows "\<exists>g' err. Graph_NodeAdded B r g = Some (g', err) \<and> graph_ok binv nrefs erefs g' \<and>
    absGraph nrefs erefs g' = deliver (NodeAddedMsg (h_node (g_world g) r)) (absGraph nrefs erefs g)"
proof (cases "nrefs (g_backend g) (ID (h_node (g_world g) r))")
  case None
  from AddNode_spec [OF ok r refl] show ?thesis using ok None
    by (simp add: Graph_NodeAdded_def GetNode_live [OF ok]) (metis fst_conv)
next
  case (Some r')
  then show ?thesis using ok by (simp add: Graph_NodeAdded_def GetNode_live [OF ok] specAddNode_def absGraph_def)
qed

lemma EdgeAdded_deliver:
  assumes ok: "graph_ok binv nrefs erefs g" and r: "r < h_next (g_world g)"
  shows "\<exists>g' err. Graph_EdgeAdded B r g = Some (g', err) \<and> graph_ok binv nrefs erefs g' \<and>
    absGraph nrefs erefs g' = deliver (EdgeAddedMsg (h_edge (g_world g) r)) (absGraph nrefs erefs g)"
proof (cases "erefs (g_backend g) (ID (h_edge (g_world g) r))")
  case None
  from AddEdge_spec [OF ok r refl] show ?thesis using ok None
    by (simp add: Graph_EdgeAdded_def GetEdge_live [OF ok]) (metis fst_conv)
next
  case (Some r')
  then show ?thesis using ok by (simp add: Graph_EdgeAdded_def GetEdge_live [OF ok] specAddEdge_def absGraph_def)
qed

lemma applyElement_deliver:
  assumes ok: "graph_ok binv nrefs erefs g" and ends: "endsFit (absGraph nrefs erefs g) m"
  shows "\<exists>g' err. applyElement B m g = Some (g', err) \<and> graph_ok binv nrefs erefs g' \<and>
    absGraph nrefs erefs g' = deliver m (absGraph nrefs erefs g)"
proof -
  have node: "\<exists>w r. new_node n (g_world g) = (w, r) \<and> graph_ok binv nrefs erefs (g\<lparr>g_world := w\<rparr>) \<and> r < h_next w \<and> h_node w r = n \<and>
      absGraph nrefs erefs (g\<lparr>g_world := w\<rparr>) = absGraph nrefs erefs g" for n
    using new_node_ok [OF ok, of n] by (cases "new_node n (g_world g)") auto
  have edge: "\<exists>w r. new_edge e (g_world g) = (w, r) \<and> graph_ok binv nrefs erefs (g\<lparr>g_world := w\<rparr>) \<and> r < h_next w \<and> h_edge w r = e \<and>
      absGraph nrefs erefs (g\<lparr>g_world := w\<rparr>) = absGraph nrefs erefs g" for e
    using new_edge_ok [OF ok, of e] by (cases "new_edge e (g_world g)") auto
  show ?thesis
  proof (cases m)
    case (NodeUpdatedMsg n)
    obtain w r where w: "new_node n (g_world g) = (w, r)" "graph_ok binv nrefs erefs (g\<lparr>g_world := w\<rparr>)" "h_node w r = n"
      "absGraph nrefs erefs (g\<lparr>g_world := w\<rparr>) = absGraph nrefs erefs g" using node [of n] by blast
    then show ?thesis using NodeUpdated_deliver [OF w(2), of r] NodeUpdatedMsg by (simp del: deliver.simps)
  next
    case (NodeDeletedMsg n)
    obtain w r where w: "new_node n (g_world g) = (w, r)" "graph_ok binv nrefs erefs (g\<lparr>g_world := w\<rparr>)" "h_node w r = n"
      "absGraph nrefs erefs (g\<lparr>g_world := w\<rparr>) = absGraph nrefs erefs g" using node [of n] by blast
    from DelNode_spec [OF w(2) refl, of "DeletedAt n" r] obtain g' err where
      "Graph_DelNode B (DeletedAt n) r (g\<lparr>g_world := w\<rparr>) = Some (g', err)" "graph_ok binv nrefs erefs g'"
      "(absGraph nrefs erefs g', err) = specDelNode (ID n) (absGraph nrefs erefs g)" using w(3,4) by auto
    then show ?thesis using NodeDeletedMsg w(1,3)
      by (simp add: Graph_NodeDeleted_def Graph_DelNode_def) (metis fst_conv)
  next
    case (NodeAddedMsg n)
    obtain w r where w: "new_node n (g_world g) = (w, r)" "graph_ok binv nrefs erefs (g\<lparr>g_world := w\<rparr>)" "r < h_next w" "h_node w r = n"
      "absGraph nrefs erefs (g\<lparr>g_world := w\<rparr>) = absGraph nrefs erefs g" using node [of n] by blast
    then show ?thesis using NodeAdded_deliver [OF w(2), of r] NodeAddedMsg by simp
  next
    case (EdgeUpdatedMsg e)
    obtain w r where w: "new_edge e (g_world g) = (w, r)" "graph_ok binv nrefs erefs (g\<lparr>g_world := w\<rparr>)" "h_edge w r = e"
      "absGraph nrefs erefs (g\<lparr>g_world := w\<rparr>) = absGraph nrefs erefs g" using edge [of e] by blast
    then show ?thesis using EdgeUpdated_deliver [OF w(2), of r] EdgeUpdatedMsg by (simp del: deliver.simps)
  next
    case (EdgeDeletedMsg e)
    obtain w r where w: "new_edge e (g_world g) = (w, r)" "graph_ok binv nrefs erefs (g\<lparr>g_world := w\<rparr>)" "h_edge w r = e"
      "absGraph nrefs erefs (g\<lparr>g_world := w\<rparr>) = absGraph nrefs erefs g" using edge [of e] by blast
    have "endsFit (absGraph nrefs erefs (g\<lparr>g_world := w\<rparr>)) m" using ends w(4) by simp
    then have "endsAgree erefs (g\<lparr>g_world := w\<rparr>) r"
      using EdgeDeletedMsg w(3) by (auto simp: endsAgree_def absGraph_def split: option.splits)
    from EdgeDeleted_spec [OF w(2) this] show ?thesis using EdgeDeletedMsg w(1,3,4) by (simp) (metis fst_conv)
  next
    case (EdgeAddedMsg e)
    obtain w r where w: "new_edge e (g_world g) = (w, r)" "graph_ok binv nrefs erefs (g\<lparr>g_world := w\<rparr>)" "r < h_next w" "h_edge w r = e"
      "absGraph nrefs erefs (g\<lparr>g_world := w\<rparr>) = absGraph nrefs erefs g" using edge [of e] by blast
    then show ?thesis using EdgeAdded_deliver [OF w(2), of r] EdgeAddedMsg by simp
  qed (use ok in simp_all)
qed

end

section \<open>Removing the nodes of an origin\<close>

definition removeNodes :: "Identifier set \<Rightarrow> agraph \<Rightarrow> agraph" where
  "removeNodes I a =
     \<lparr>a_nodes = (a_nodes a) |` (- I),
      a_edges = (\<lambda>j. case a_edges a j of
         Some e \<Rightarrow> if Parent e \<in> I \<or> Child e \<in> I then None else Some e | None \<Rightarrow> None)\<rparr>"

definition originIds :: "string \<Rightarrow> agraph \<Rightarrow> Identifier set" where
  "originIds origin a = {i. \<exists>n. a_nodes a i = Some n \<and> Origin n = origin}"

lemma removeNodes_empty [simp]: "removeNodes {} a = a"
  by (auto simp: removeNodes_def fun_eq_iff intro!: agraph.equality split: option.split)

lemma removeNodes_Un: "removeNodes I (removeNodes J a) = removeNodes (I \<union> J) a"
  by (auto simp: removeNodes_def fun_eq_iff restrict_map_def split: option.splits)

lemma specDelNode_remove: "a_nodes a i \<noteq> None \<Longrightarrow> specDelNode i a = (removeNodes {i} a, None)"
  by (auto simp: specDelNode_def removeNodes_def fun_eq_iff restrict_map_def intro!: agraph.equality split: option.split)

lemma origin_match: "Node_MatchMetadata env (Some (MetadataMatcher [(''Origin'', VString origin)])) n \<longleftrightarrow> Origin n = origin"
  by (simp add: Node_MatchMetadata_def Metadata_Match_def Metadata_Filter_def Eval_and Eval_leaves nodeGetter_def
      element_MatchString_def element_GetFieldString_def graphElementKeys_def)

lemma publish_world: "publish f k x g = Some (g', err) \<Longrightarrow> g_world g' = g_world g"
  by (auto simp: publish_def callBackend_def notify_def split: if_splits prod.splits)

lemma delEdges_nodes: "delEdges B t es g = Some (g', err) \<Longrightarrow> h_node (g_world g') = h_node (g_world g)"
proof (induction es arbitrary: g)
  case (Cons e es)
  then show ?case by (auto simp: Graph_delEdge_def dest!: publish_world split: option.splits prod.splits)
qed simp

lemma delNode_ids:
  assumes "Graph_delNode B t r g = Some (g', err)"
  shows "ID (h_node (g_world g') r') = ID (h_node (g_world g) r')"
  using assms by (auto simp: Graph_delNode_def dest!: publish_world delEdges_nodes split: option.splits prod.splits)

context reliable_backend
begin

lemma delNodesLoop_abs:
  assumes "graph_ok binv nrefs erefs g" "distinct (map (\<lambda>r. ID (h_node (g_world g) r)) ns)"
    and "\<forall>r \<in> set ns. a_nodes (absGraph nrefs erefs g) (ID (h_node (g_world g) r)) \<noteq> None"
  shows "\<exists>g'. delNodesLoop B t ns g = Some (g', None) \<and> graph_ok binv nrefs erefs g' \<and>
    absGraph nrefs erefs g' = removeNodes ((\<lambda>r. ID (h_node (g_world g) r)) ` set ns) (absGraph nrefs erefs g)"
  using assms
proof (induction ns arbitrary: g)
  case (Cons r ns)
  let ?i = "ID (h_node (g_world g) r)"
  from DelNode_spec [OF Cons.prems(1) refl, of t r] Cons.prems(3) obtain g1 where
    g1: "Graph_delNode B t r g = Some (g1, None)" "graph_ok binv nrefs erefs g1"
      "absGraph nrefs erefs g1 = removeNodes {?i} (absGraph nrefs erefs g)"
    by (auto simp: Graph_DelNode_def specDelNode_remove)
  note ids = delNode_ids [OF g1(1)]
  have "distinct (map (\<lambda>r. ID (h_node (g_world g1) r)) ns)"
    "\<forall>r \<in> set ns. a_nodes (absGraph nrefs erefs g1) (ID (h_node (g_world g1) r)) \<noteq> None"
    using Cons.prems(2,3) by (auto simp: ids g1(3) removeNodes_def restrict_map_def image_iff)
  from Cons.IH [OF g1(2) this] show ?case using g1 by (auto simp: ids removeNodes_Un)
qed simp

lemma DelSubGraphOfOrigin_abs:
  assumes ok: "graph_ok binv nrefs erefs g"
  shows "\<exists>g'. DelSubGraphOfOrigin B now origin g = Some g' \<and> graph_ok binv nrefs erefs g' \<and>
    absGraph nrefs erefs g' = removeNodes (originIds origin (absGraph nrefs erefs g)) (absGraph nrefs erefs g)"
proof -
  let ?m = "Some (MetadataMatcher [(''Origin'', VString origin)])" and ?id = "\<lambda>r. ID (h_node (g_world g) r)"
  have inv: "binv (g_world g) (g_backend g)" "ctxTimeSlice (g_context g) = None" using ok by (simp_all add: graph_ok_def)
  have ns: "distinct (Graph_GetNodes B g ?m)"
    "set (Graph_GetNodes B g ?m) = {r \<in> ran (nrefs (g_backend g)). Origin (h_node (g_world g) r) = origin}"
    using get_nodes [OF inv, of ?m] by (simp_all add: Graph_GetNodes_def origin_match)
  have stored: "nrefs (g_backend g) (?id r) = Some r" if "r \<in> set (Graph_GetNodes B g ?m)" for r
    using that ns(2) stored_node_id [OF ok] by (auto simp: ran_def)
  have "inj_on ?id (set (Graph_GetNodes B g ?m))" by (rule inj_onI) (metis stored option.inject)
  then have dist: "distinct (map ?id (Graph_GetNodes B g ?m))" using ns(1) by (simp add: distinct_map)
  have "?id ` set (Graph_GetNodes B g ?m) = originIds origin (absGraph nrefs erefs g)"
  proof (intro set_eqI iffI)
    fix i assume "i \<in> originIds origin (absGraph nrefs erefs g)"
    then obtain r where r: "nrefs (g_backend g) i = Some r" "Origin (h_node (g_world g) r) = origin"
      by (auto simp: originIds_def absGraph_def)
    with stored_node_id [OF ok r(1)] show "i \<in> ?id ` set (Graph_GetNodes B g ?m)" by (auto simp: ns(2) ran_def)
  qed (use stored ns(2) in \<open>auto simp: originIds_def absGraph_def\<close>)
  moreover have "\<forall>r \<in> set (Graph_GetNodes B g ?m). a_nodes (absGraph nrefs erefs g) (?id r) \<noteq> None"
    using stored by (auto simp: absGraph_def)
  ultimately show ?thesis using delNodesLoop_abs [OF ok dist, of now]
    by (auto simp: DelSubGraphOfOrigin_def Graph_DelNodes_def)
qed

section \<open>Synchronisation\<close>

lemma syncNodes_abs:
  assumes "graph_ok binv nrefs erefs g"
  shows "\<exists>g'. syncNodes B ns g = Some g' \<and> graph_ok binv nrefs erefs g' \<and>
    absGraph nrefs erefs g' = fold (\<lambda>n. deliver (NodeAddedMsg n)) ns (absGraph nrefs erefs g)"
  using assms
proof (induction ns arbitrary: g)
  case (Cons n ns)
  show ?case
  proof (cases "nrefs (g_backend g) (ID n)")
    case None
    from applyElement_deliver [OF Cons.prems, of "NodeAddedMsg n"] obtain g1 err where
      g1: "applyElement B (NodeAddedMsg n) g = Some (g1, err)" "graph_ok binv nrefs erefs g1"
        "absGraph nrefs erefs g1 = deliver (NodeAddedMsg n) (absGraph nrefs erefs g)" by auto
    then show ?thesis using Cons.IH [OF g1(2)] None
      by (simp add: GetNode_live [OF Cons.prems] del: applyElement.simps deliver.simps)
  next
    case (Some r)
    then have "deliver (NodeAddedMsg n) (absGraph nrefs erefs g) = absGraph nrefs erefs g"
      by (simp add: specAddNode_def absGraph_def)
    then show ?thesis using Cons.IH [OF Cons.prems] Some
      by (simp add: GetNode_live [OF Cons.prems] del: applyElement.simps deliver.simps)
  qed
qed simp

lemma syncEdges_abs:
  assumes "graph_ok binv nrefs erefs g"
  shows "\<exists>g'. syncEdges B es g = Some g' \<and> graph_ok binv nrefs erefs g' \<and>
    absGraph nrefs erefs g' = fold (\<lambda>e. deliver (EdgeAddedMsg e)) es (absGraph nrefs erefs g)"
  using assms
proof (induction es arbitrary: g)
  case (Cons e es)
  show ?case
  proof (cases "erefs (g_backend g) (ID e)")
    case None
    from applyElement_deliver [OF Cons.prems, of "EdgeAddedMsg e"] obtain g1 err where
      g1: "applyElement B (EdgeAddedMsg e) g = Some (g1, err)" "graph_ok binv nrefs erefs g1"
        "absGraph nrefs erefs g1 = deliver (EdgeAddedMsg e) (absGraph nrefs erefs g)" by auto
    then show ?thesis using Cons.IH [OF g1(2)] None
      by (simp add: GetEdge_live [OF Cons.prems] del: applyElement.simps deliver.simps)
  next
    case (Some r)
    then have "deliver (EdgeAddedMsg e) (absGraph nrefs erefs g) = absGraph nrefs erefs g"
      by (simp add: specAddEdge_def absGraph_def)
    then show ?thesis using Cons.IH [OF Cons.prems] Some
      by (simp add: GetEdge_live [OF Cons.prems] del: applyElement.simps deliver.simps)
  qed
qed simp

end

section \<open>Mirrors\<close>

text \<open>
  A receiver with the nodes and edges \<open>base\<close> of others mirrors a graph when it has its elements beside them.  The revision of
  an edge is the one it was added with, as an update does not store its own.
\<close>

definition overlay :: "agraph \<Rightarrow> agraph \<Rightarrow> agraph" where
  "overlay base s = \<lparr>a_nodes = a_nodes base ++ a_nodes s, a_edges = a_edges base ++ a_edges s\<rparr>"

definition copyOf :: "Edge \<Rightarrow> Edge \<Rightarrow> bool" where
  "copyOf x y \<longleftrightarrow> x = y\<lparr>Revision := Revision x\<rparr> \<and> Revision x \<le> Revision y"

definition mirrors :: "agraph \<Rightarrow> agraph \<Rightarrow> bool" where
  "mirrors r s \<longleftrightarrow> a_nodes r = a_nodes s \<and> (\<forall>j. rel_option copyOf (a_edges r j) (a_edges s j))"

lemma copyOf_refl [simp]: "copyOf x x"
  by (simp add: copyOf_def)

lemma mirrors_refl [simp]: "mirrors s s"
  by (simp add: mirrors_def option.rel_refl)

lemma copyOf_fields: "copyOf x y \<Longrightarrow> Parent x = Parent y" "copyOf x y \<Longrightarrow> Child x = Child y"
  unfolding copyOf_def by (elim conjE, drule arg_cong [where f = Parent], simp) (elim conjE, drule arg_cong [where f = Child], simp)

text \<open>The elements of an event are not among those of others, and an update has a higher revision than what it updates.\<close>

fun apart :: "agraph \<Rightarrow> graphEventType \<times> snapshot \<Rightarrow> bool" where
  "apart base (k, NodeSnap n) \<longleftrightarrow> a_nodes base (ID n) = None"
| "apart base (k, EdgeSnap e) \<longleftrightarrow> a_edges base (ID e) = None"

fun rises :: "agraph \<Rightarrow> graphEventType \<times> snapshot \<Rightarrow> bool" where
  "rises s (k, NodeSnap n) \<longleftrightarrow> (case a_nodes s (ID n) of Some old \<Rightarrow> k = NodeUpdated \<longrightarrow> Revision old < Revision n | None \<Rightarrow> True)"
| "rises s (k, EdgeSnap e) \<longleftrightarrow> (case a_edges s (ID e) of Some old \<Rightarrow> k = EdgeUpdated \<longrightarrow> Revision old < Revision e | None \<Rightarrow> True)"

fun risesFrom :: "agraph \<Rightarrow> (graphEventType \<times> snapshot) list \<Rightarrow> bool" where
  "risesFrom s [] = True"
| "risesFrom s (ev # evs) = (rises s ev \<and> risesFrom (applyEvent ev s) evs)"

lemma lawful_cases:
  assumes "lawful s ev"
  obtains n where "ev = (NodeAdded, NodeSnap n)" "a_nodes s (ID n) = None"
  | n old where "ev = (NodeUpdated, NodeSnap n)" "a_nodes s (ID n) = Some old" "sameButData old n"
  | n old where "ev = (NodeDeleted, NodeSnap n)" "a_nodes s (ID n) = Some old"
      "\<And>j e. a_edges s j = Some e \<Longrightarrow> Parent e \<noteq> ID n \<and> Child e \<noteq> ID n"
  | e where "ev = (EdgeAdded, EdgeSnap e)" "a_edges s (ID e) = None" "a_nodes s (Parent e) \<noteq> None" "a_nodes s (Child e) \<noteq> None"
  | e old where "ev = (EdgeUpdated, EdgeSnap e)" "a_edges s (ID e) = Some old" "sameButData old e"
  | e old where "ev = (EdgeDeleted, EdgeSnap e)" "a_edges s (ID e) = Some old" "Parent old = Parent e" "Child old = Child e"
proof -
  obtain k snap where ev: "ev = (k, snap)" by (cases ev)
  show thesis
  proof (cases snap)
    case (NodeSnap n)
    then show thesis using assms that(1-3) ev by (auto split: option.splits)
  next
    case (EdgeSnap e)
    then show thesis using assms that(4-6) ev by (auto split: option.splits)
  qed
qed

lemma mirrors_edges:
  assumes "mirrors r s"
  shows "a_edges r j = None \<longleftrightarrow> a_edges s j = None"
    and "a_edges s j = Some y \<Longrightarrow> \<exists>x. a_edges r j = Some x \<and> copyOf x y"
    and "a_edges r j = Some x \<Longrightarrow> \<exists>y. a_edges s j = Some y \<and> copyOf x y"
proof -
  have "rel_option copyOf (a_edges r j) (a_edges s j)" using assms by (simp add: mirrors_def)
  then show "a_edges r j = None \<longleftrightarrow> a_edges s j = None"
    "a_edges s j = Some y \<Longrightarrow> \<exists>x. a_edges r j = Some x \<and> copyOf x y"
    "a_edges r j = Some x \<Longrightarrow> \<exists>y. a_edges s j = Some y \<and> copyOf x y"
    by (auto elim: option.rel_cases)
qed

lemma deliver_event:
  assumes law: "lawful s ev" and up: "rises s ev" and apart: "apart base ev" and wf: "agraph_wf base"
    and mir: "mirrors r (overlay base s)"
  shows "mirrors (deliver (eventMsg ev) r) (overlay base (applyEvent ev s)) \<and> endsFit r (eventMsg ev)"
proof -
  have nodes: "a_nodes r i = (a_nodes base ++ a_nodes s) i" for i using mir by (simp add: mirrors_def overlay_def)
  have edges: "rel_option copyOf (a_edges r j) ((a_edges base ++ a_edges s) j)" for j using mir by (simp add: mirrors_def overlay_def)
  from law show ?thesis
  proof (cases rule: lawful_cases)
    case (1 n)
    then show ?thesis using nodes edges apart
      by (auto simp: specAddNode_def mirrors_def overlay_def map_add_def fun_eq_iff split: option.splits)
  next
    case (2 n old)
    then show ?thesis using nodes edges up
      by (auto simp: mirrors_def overlay_def sameButData_def map_add_def fun_eq_iff split: option.splits)
  next
    case (3 n old)
    have free: "Parent x \<noteq> ID n \<and> Child x \<noteq> ID n" if x: "a_edges r j = Some x" for j x
    proof -
      from mirrors_edges(3) [OF mir x] obtain y where y: "a_edges s j = Some y \<or> a_edges base j = Some y" "copyOf x y"
        by (auto simp: overlay_def)
      from y(1) have "Parent y \<noteq> ID n \<and> Child y \<noteq> ID n"
        using 3(1,3) wf apart unfolding agraph_wf_def by (metis apart.simps(1))
      with copyOf_fields [OF y(2)] show ?thesis by simp
    qed
    have "(case a_edges r j of None \<Rightarrow> None | Some e \<Rightarrow> if Parent e = ID n \<or> Child e = ID n then None else Some e) = a_edges r j" for j
      using free by (auto split: option.split)
    then show ?thesis using 3 nodes edges apart
      by (auto simp: specDelNode_def mirrors_def overlay_def map_add_def fun_eq_iff split: option.splits)
  next
    case (4 e)
    then show ?thesis using nodes edges [of "ID e"] edges apart
      by (auto simp: specAddEdge_def mirrors_def overlay_def map_add_def fun_eq_iff split: option.splits)
  next
    case (5 e old)
    from mirrors_edges(2) [OF mir, of "ID e" old] 5(2) obtain x where x: "a_edges r (ID e) = Some x" "copyOf x old"
      by (auto simp: overlay_def)
    have "Revision x < Revision e" using x(2) up 5(1,2) by (simp add: copyOf_def)
    moreover have "copyOf (x\<lparr>Metadata := Metadata e, UpdatedAt := UpdatedAt e\<rparr>) e"
      using x(2) 5(3) calculation by (cases x; cases old; cases e) (auto simp: copyOf_def sameButData_def)
    ultimately show ?thesis using 5(1,2) x(1) nodes edges
      by (auto simp: mirrors_def overlay_def map_add_def fun_eq_iff split: option.splits)
  next
    case (6 e old)
    from mirrors_edges(2) [OF mir, of "ID e" old] 6(2) obtain x where x: "a_edges r (ID e) = Some x" "copyOf x old"
      by (auto simp: overlay_def)
    then show ?thesis using 6 nodes edges apart
      by (auto simp: specDelEdge_def mirrors_def overlay_def map_add_def fun_eq_iff copyOf_fields split: option.splits)
  qed
qed

text \<open>A message that comes twice changes nothing.\<close>

lemma deliver_again:
  assumes law: "lawful s ev" and mir: "mirrors r (overlay base (applyEvent ev s))" and apart: "apart base ev"
  shows "mirrors (deliver (eventMsg ev) r) (overlay base (applyEvent ev s)) \<and> endsFit r (eventMsg ev)"
proof -
  have nodes: "a_nodes r = a_nodes base ++ a_nodes (applyEvent ev s)"
    and edges: "rel_option copyOf (a_edges r j) ((a_edges base ++ a_edges (applyEvent ev s)) j)" for j
    using mir by (simp_all add: mirrors_def overlay_def)
  from law show ?thesis
  proof (cases rule: lawful_cases)
    case (5 e old)
    have ov: "a_edges (overlay base (applyEvent ev s)) (ID e) = Some e" using 5(1) by (simp add: overlay_def)
    from mirrors_edges(2) [OF mir ov] obtain x where x: "a_edges r (ID e) = Some x" "copyOf x e" by auto
    have "x\<lparr>Metadata := Metadata e, UpdatedAt := UpdatedAt e\<rparr> = x"
      using x(2) by (cases x; cases e) (auto simp: copyOf_def)
    then have "deliver (eventMsg ev) r = r" using 5(1) x(1) by (simp add: fun_upd_idem)
    then show ?thesis using mir 5(1) by simp
  next
    case (6 e old)
    then have "a_edges r (ID e) = None" using edges [of "ID e"] apart by (auto simp: map_add_def)
    then show ?thesis using 6(1) mir by (simp add: specDelEdge_def)
  next
    case (4 e)
    then have "a_edges r (ID e) \<noteq> None" using mirrors_edges(1) [OF mir, of "ID e"] by (simp add: overlay_def)
    then show ?thesis using 4(1) mir by (simp add: specAddEdge_def)
  qed (use nodes mir apart in \<open>auto simp: specAddNode_def specDelNode_def map_add_def\<close>)
qed

lemma deliver_copies:
  assumes "lawful s ev" "rises s ev" "apart base ev" "agraph_wf base" "mirrors r (overlay base s)"
  shows "mirrors ((deliver (eventMsg ev) ^^ Suc k) r) (overlay base (applyEvent ev s))"
proof (induction k)
  case (Suc k)
  with deliver_again [OF assms(1) _ assms(3)] show ?case by simp
qed (use deliver_event [OF assms] in simp)

section \<open>The elements of a graph\<close>

lemma fold_nodes:
  assumes "\<forall>n \<in> set ns. m (ID n) = Some n"
  shows "fold (\<lambda>n. deliver (NodeAddedMsg n)) ns a =
    a\<lparr>a_nodes := (\<lambda>i. if a_nodes a i = None \<and> i \<in> ID ` set ns then m i else a_nodes a i)\<rparr>"
  using assms
proof (induction ns arbitrary: a)
  case (Cons n ns)
  then show ?case by (intro agraph.equality ext) (auto simp: specAddNode_def)
qed simp

lemma fold_edges:
  assumes "\<forall>e \<in> set es. m (ID e) = Some e \<and> a_nodes a (Parent e) \<noteq> None \<and> a_nodes a (Child e) \<noteq> None"
  shows "fold (\<lambda>e. deliver (EdgeAddedMsg e)) es a =
    a\<lparr>a_edges := (\<lambda>i. if a_edges a i = None \<and> i \<in> ID ` set es then m i else a_edges a i)\<rparr>"
  using assms
proof (induction es arbitrary: a)
  case (Cons e es)
  have "deliver (EdgeAddedMsg e) a = (if a_edges a (ID e) = None then a\<lparr>a_edges := (a_edges a)(ID e \<mapsto> e)\<rparr> else a)"
    using Cons.prems by (auto simp: specAddEdge_def)
  then show ?case using Cons by (intro agraph.equality ext) (auto simp del: deliver.simps)
qed simp

lemma sync_overlay:
  assumes wf: "agraph_wf s" and ns: "set ns = ran (a_nodes s)" and es: "set es = ran (a_edges s)"
    and apart: "\<forall>i \<in> dom (a_nodes s). a_nodes base i = None" "\<forall>j \<in> dom (a_edges s). a_edges base j = None"
  shows "fold (\<lambda>e. deliver (EdgeAddedMsg e)) es (fold (\<lambda>n. deliver (NodeAddedMsg n)) ns base) = overlay base s"
proof -
  have n: "\<forall>n \<in> set ns. a_nodes s (ID n) = Some n" using wf ns by (auto simp: agraph_wf_def ran_def)
  have ids: "ID ` set ns = dom (a_nodes s)" "ID ` set es = dom (a_edges s)"
    using wf unfolding ns es agraph_wf_def ran_def dom_def by (auto simp: image_iff) blast+
  have nodes: "fold (\<lambda>n. deliver (NodeAddedMsg n)) ns base = base\<lparr>a_nodes := a_nodes base ++ a_nodes s\<rparr>"
    unfolding fold_nodes [OF n] ids using apart(1) by (auto simp: map_add_def fun_eq_iff dom_def split: option.split)
  have e: "\<forall>e \<in> set es. a_edges s (ID e) = Some e \<and> a_nodes (base\<lparr>a_nodes := a_nodes base ++ a_nodes s\<rparr>) (Parent e) \<noteq> None \<and>
      a_nodes (base\<lparr>a_nodes := a_nodes base ++ a_nodes s\<rparr>) (Child e) \<noteq> None"
  proof
    fix e assume "e \<in> set es"
    then obtain j where "a_edges s j = Some e" using es by (auto simp: ran_def)
    with wf obtain p c where "ID e = j" "a_nodes s (Parent e) = Some p" "a_nodes s (Child e) = Some c"
      unfolding agraph_wf_def by blast
    with \<open>a_edges s j = Some e\<close> show "a_edges s (ID e) = Some e \<and>
      a_nodes (base\<lparr>a_nodes := a_nodes base ++ a_nodes s\<rparr>) (Parent e) \<noteq> None \<and>
      a_nodes (base\<lparr>a_nodes := a_nodes base ++ a_nodes s\<rparr>) (Child e) \<noteq> None" by simp
  qed
  show ?thesis unfolding nodes fold_edges [OF e] ids using apart(2)
    by (auto simp: overlay_def map_add_def fun_eq_iff dom_def split: option.split)
qed

lemma removeNodes_wf: "agraph_wf a \<Longrightarrow> agraph_wf (removeNodes I a)"
  by (auto simp: agraph_wf_def removeNodes_def restrict_map_def split: option.splits if_splits)

context backend_laws
begin

lemma Graph_Elements_set:
  assumes ok: "graph_ok binv nrefs erefs g" and sort: "\<forall>less xs. mset (sorter less xs) = mset xs"
  shows "set (fst (Graph_Elements sorter B g)) = ran (a_nodes (absGraph nrefs erefs g))"
    and "set (snd (Graph_Elements sorter B g)) = ran (a_edges (absGraph nrefs erefs g))"
proof -
  have inv: "binv (g_world g) (g_backend g)" "ctxTimeSlice (g_context g) = None" using ok by (simp_all add: graph_ok_def)
  have "set (sorter less xs) = set xs" for less xs using sort by (metis set_mset_mset)
  then show "set (fst (Graph_Elements sorter B g)) = ran (a_nodes (absGraph nrefs erefs g))"
    "set (snd (Graph_Elements sorter B g)) = ran (a_edges (absGraph nrefs erefs g))"
    using get_nodes [OF inv, of None] get_edges [OF inv, of None]
    by (auto simp: Graph_Elements_def SortEdges_def Graph_GetNodes_def Graph_GetEdges_def Node_MatchMetadata_def
        Edge_MatchMetadata_def absGraph_def ran_def image_iff)
qed

end

section \<open>Events are only added\<close>

definition grows :: "'b Graph \<Rightarrow> 'b outcome \<Rightarrow> bool" where
  "grows g out \<longleftrightarrow> (\<forall>g' err. out = Some (g', err) \<longrightarrow> (\<exists>evs. g_published g' = g_published g @ evs))"

lemma grows_same: "g_published g' = g_published g \<Longrightarrow> grows g (Some (g', err))"
  by (simp add: grows_def)

lemma grows_publish: "g_published g1 = g_published g \<Longrightarrow> grows g (publish f k x g1)"
  by (auto simp: grows_def publish_def callBackend_def notify_def split: if_splits prod.splits)

lemma grows_trans: "grows g (Some (g1, err)) \<Longrightarrow> grows g1 out \<Longrightarrow> grows g out"
  unfolding grows_def by fastforce

text \<open>A call, then another one unless the first failed.\<close>

lemma grows_then:
  assumes "grows g out" "\<And>g1. grows g1 (f g1)"
  shows "grows g (case out of None \<Rightarrow> None | Some (g, Some err) \<Rightarrow> Some (g, Some err) | Some (g, None) \<Rightarrow> f g)"
  using assms unfolding grows_def by (fastforce split: option.splits)

lemma grows_delEdges: "grows g (delEdges B t es g)"
proof (induction es arbitrary: g)
  case (Cons e es)
  have "grows g (Graph_delEdge B t e g)" unfolding Graph_delEdge_def by (rule grows_publish) simp
  then show ?case unfolding delEdges.simps by (rule grows_then) (rule Cons.IH)
qed (simp add: grows_same)

lemma grows_delNode: "grows g (Graph_delNode B t n g)"
  unfolding Graph_delNode_def by (rule grows_then [OF grows_delEdges]) (rule grows_publish, simp)

lemma grows_delNodesLoop: "grows g (delNodesLoop B t ns g)"
proof (induction ns arbitrary: g)
  case (Cons n ns)
  show ?case unfolding delNodesLoop.simps by (rule grows_then [OF grows_delNode]) (rule Cons.IH)
qed (simp add: grows_same)

lemma grows_unlinkLoop: "grows g (unlinkLoop B now i es err g)"
proof (induction es arbitrary: g err)
  case (Cons e es)
  have one: "grows g (Graph_DelEdge B now e g)" unfolding Graph_DelEdge_def Graph_delEdge_def by (rule grows_publish) simp
  then have "Graph_DelEdge B now e g = Some (g1, err1) \<Longrightarrow> grows g (Some (g1, err2))" for g1 err1 err2 by (auto simp: grows_def)
  from grows_trans [OF this Cons.IH] have "Graph_DelEdge B now e g = Some (g1, err1) \<Longrightarrow> grows g (unlinkLoop B now i es err2 g1)" for g1 err1 err2 .
  then show ?case using Cons.IH by (auto simp: grows_def split: option.splits)
qed (simp add: grows_same)

lemma grows_drop: "grows g out \<Longrightarrow> grows g (dropResult (map_option (\<lambda>(g, err). (g, case err of Some x \<Rightarrow> Inl x | None \<Rightarrow> Inr v)) out))"
  by (auto simp: grows_def dropResult_def)

lemma grows_runOp: "grows g (runOp u B op g)"
  by (cases op) (auto intro!: grows_publish grows_same grows_drop simp: grows_delNode grows_delNodesLoop grows_unlinkLoop
      Graph_AddNode_def Graph_AddEdge_def Graph_NodeAdded_def Graph_EdgeAdded_def Graph_NewNode_def Graph_NewEdge_def Graph_Link_def
      Graph_Unlink_def Graph_DelEdge_def Graph_delEdge_def Graph_EdgeDeleted_def Graph_DelNode_def Graph_NodeDeleted_def
      Graph_DelNodes_def Graph_NodeUpdated_def Graph_EdgeUpdated_def Graph_SetMetadata_def Graph_DelMetadata_def
      Graph_AddMetadata_def Graph_addMetadata_def Transaction_Commit_def Graph_UpdateMetadata_def publishRevision_def Let_def
      new_node_def new_edge_def case_prod_beta split: option.split sum.split)

lemma runOps_grows: "runOps u B ops g = Some g' \<Longrightarrow> \<exists>evs. g_published g' = g_published g @ evs"
proof (induction ops arbitrary: g)
  case (Cons op ops)
  then obtain g1 err where "runOp u B op g = Some (g1, err)" "runOps u B ops g1 = Some g'" by (auto split: option.splits)
  with Cons.IH [of g1] grows_runOp [of g u B op] show ?case by (auto simp: grows_def)
qed simp

end
