(* ===== verification/Sync_Theorems.thy ===== *)
theory Sync_Theorems
  imports Sync_Facts
begin

text \<open>
  Properties of graph synchronisation: a hub mirrors the graph of a pod that forwards it, up to what messages do not keep, removes it
  when the pod leaves, and what is lost when an update of an edge goes over a hub.
\<close>

section \<open>What a pod sends\<close>

definition copies :: "nat \<Rightarrow> (graphEventType \<times> snapshot) list \<Rightarrow> gmsg list" where
  "copies k evs = concat (map (\<lambda>ev. replicate k (eventMsg ev)) evs)"

lemma send_copies:
  assumes "fw_master f = Some c"
  shows "(SendMessageToMaster m ^^ k) f = f\<lparr>fw_sent := fw_sent f @ replicate k (c, m)\<rparr>"
proof (induction k)
  case (Suc k)
  then show ?case using assms by (simp add: SendMessageToMaster_def replicate_append_same)
qed simp

lemma hear_sent:
  assumes "fw_master f = Some c"
  shows "Forwarder_hear k evs f = f\<lparr>fw_sent := fw_sent f @ map (Pair c) (copies k evs)\<rparr>"
  using assms
proof (induction evs arbitrary: f)
  case (Cons ev evs)
  then show ?case by (simp add: Forwarder_hear_def send_copies copies_def)
qed (simp add: Forwarder_hear_def copies_def)

text \<open>
  A pod connects to its master and goes on: it sends its elements and then every event, as often as the forwarder is registered.
\<close>

lemma pod_sends:
  assumes ok: "graph_ok mem_inv memNodeRefs memEdgeRefs g" "synced memNodeRefs memEdgeRefs g"
    and f1: "f1 = Master_OnConnected sorter memoryBackend c (NewForwarder g l pool)"
    and calls: "callsOk memNodeRefs memEdgeRefs u memoryBackend ops (fw_graph f1)"
    and run: "Forwarder_run u memoryBackend ops f1 = Some f2"
  obtains k evs where
    "map snd (fw_sent f2) = (case Graph_Elements sorter memoryBackend g of (ns, es) \<Rightarrow> SyncMsg ns es) # copies (Suc k) evs"
    "g_published (fw_graph f2) = g_published g @ evs"
    "lawfulFrom (absGraph memNodeRefs memEdgeRefs g) evs"
    "absGraph memNodeRefs memEdgeRefs (fw_graph f2) = fold applyEvent evs (absGraph memNodeRefs memEdgeRefs g)"
proof -
  let ?g = "Graph_AddEventListener l g"
  have new: "fw_graph f1 = ?g" "fw_master f1 = Some c" "fw_id f1 = l"
    "map snd (fw_sent f1) = [case Graph_Elements sorter memoryBackend g of (ns, es) \<Rightarrow> SyncMsg ns es]"
    unfolding f1 by (simp_all add: Master_OnConnected_def NewForwarder_def OnNewMaster_def triggerResync_def SendMessageToMaster_def Let_def)
  from mem.runOps_ok [of ?g u ops] calls ok new(1) obtain g' where
    g': "runOps u memoryBackend ops ?g = Some g'" "synced memNodeRefs memEdgeRefs g'"
    using mem.reliable by (auto simp: listener_ok)
  from runOps_grows [OF g'(1)] obtain evs where evs: "g_published g' = g_published g @ evs" by (auto simp: listener_ok)
  have reg: "registrations f1 = Suc (count_list (eventListeners (g_eventHandler g)) l)"
    by (simp add: registrations_def new Graph_AddEventListener_def AddEventListener_def)
  have "f2 = Forwarder_hear (registrations f1) evs (f1\<lparr>fw_graph := g'\<rparr>)"
    using run g'(1) evs by (simp add: Forwarder_run_def new listener_ok)
  then have "map snd (fw_sent f2) = (case Graph_Elements sorter memoryBackend g of (ns, es) \<Rightarrow> SyncMsg ns es) # copies (registrations f1) evs"
    "fw_graph f2 = g'"
    using new hear_sent [of "f1\<lparr>fw_graph := g'\<rparr>" c "registrations f1" evs] by (simp_all add: comp_def)
  then show thesis
    using that [of "count_list (eventListeners (g_eventHandler g)) l" evs] evs ok(2) g'(2) reg
    by (simp add: synced_def lawfulFrom_append replay_def)
qed

section \<open>What a message keeps of an element\<close>

text \<open>
  The times of an element go over the wire in milliseconds (\<^verbatim>\<open>MarshalJSON\<close> and \<^verbatim>\<open>UnmarshalJSON\<close> of
  \<^verbatim>\<open>src/graffiti/graph/time.go\<close>; \<open>None\<close> is \<^verbatim>\<open>null\<close>, which leaves the time that was there), and decoding
  changes metadata, the types of its numbers for one, by a function \<open>mm\<close>.  Everything else arrives as it is.
\<close>

definition Time_MarshalJSON :: "int \<Rightarrow> int option" where
  "Time_MarshalJSON t = (if t = zero_time then None else Some (UnixMillis t))"

definition Time_UnmarshalJSON :: "int option \<Rightarrow> int \<Rightarrow> int" where
  "Time_UnmarshalJSON b t = (case b of None \<Rightarrow> t | Some ms \<Rightarrow> wrap64 (ms * 1000000))"

definition receivedTime :: "int \<Rightarrow> int" where
  "receivedTime t = Time_UnmarshalJSON (Time_MarshalJSON t) zero_time"

lemma receivedTime_zero: "receivedTime zero_time = zero_time"
  by (simp add: receivedTime_def Time_MarshalJSON_def Time_UnmarshalJSON_def)

text \<open>Since 1970 a time loses what it has below a millisecond.\<close>

lemma receivedTime_truncates:
  assumes "0 \<le> t" "t < 2 ^ 63"
  shows "receivedTime t = t - t mod 1000000"
proof -
  have q: "0 \<le> t div 1000000 * 1000000" "t div 1000000 * 1000000 \<le> t" using assms(1) by (simp_all add: div_times_less_eq_dividend)
  then have "is_int64 t" "is_int64 (t div 1000000 * 1000000)" using assms by (simp_all add: is_int64_def)
  moreover have "go_quot t 1000000 = t div 1000000" using assms(1) by (auto simp: go_quot_def sgn_if)
  moreover have "t \<noteq> zero_time" using assms(1) by (simp add: zero_time_def)
  ultimately show ?thesis
    by (simp add: receivedTime_def Time_MarshalJSON_def Time_UnmarshalJSON_def UnixMillis_def minus_mod_eq_div_mult)
qed

definition received :: "(metadata \<Rightarrow> metadata) \<Rightarrow> 'e graphElement_scheme \<Rightarrow> 'e graphElement_scheme" where
  "received mm x =
     x\<lparr>Metadata := mm (Metadata x), CreatedAt := receivedTime (CreatedAt x), UpdatedAt := receivedTime (UpdatedAt x),
       DeletedAt := receivedTime (DeletedAt x)\<rparr>"

fun receivedMsg :: "(metadata \<Rightarrow> metadata) \<Rightarrow> gmsg \<Rightarrow> gmsg" where
  "receivedMsg mm (SyncMsg ns es) = SyncMsg (map (received mm) ns) (map (received mm) es)"
| "receivedMsg mm (SyncReplyMsg ns es) = SyncReplyMsg (map (received mm) ns) (map (received mm) es)"
| "receivedMsg mm (NodeUpdatedMsg n) = NodeUpdatedMsg (received mm n)"
| "receivedMsg mm (NodeDeletedMsg n) = NodeDeletedMsg (received mm n)"
| "receivedMsg mm (NodeAddedMsg n) = NodeAddedMsg (received mm n)"
| "receivedMsg mm (EdgeUpdatedMsg e) = EdgeUpdatedMsg (received mm e)"
| "receivedMsg mm (EdgeDeletedMsg e) = EdgeDeletedMsg (received mm e)"
| "receivedMsg mm (EdgeAddedMsg e) = EdgeAddedMsg (received mm e)"
| "receivedMsg mm m = m"

fun receivedEvent :: "(metadata \<Rightarrow> metadata) \<Rightarrow> graphEventType \<times> snapshot \<Rightarrow> graphEventType \<times> snapshot" where
  "receivedEvent mm (k, NodeSnap n) = (k, NodeSnap (received mm n))"
| "receivedEvent mm (k, EdgeSnap e) = (k, EdgeSnap (received mm e))"

definition receivedAbs :: "(metadata \<Rightarrow> metadata) \<Rightarrow> agraph \<Rightarrow> agraph" where
  "receivedAbs mm a =
     \<lparr>a_nodes = (\<lambda>i. map_option (received mm) (a_nodes a i)), a_edges = (\<lambda>j. map_option (received mm) (a_edges a j))\<rparr>"

lemma received_sel [simp]:
  "ID (received mm x) = ID x" "Host (received mm x) = Host x" "Origin (received mm x) = Origin x"
  "Revision (received mm x) = Revision x" "Parent (received mm e) = Parent e" "Child (received mm e) = Child e"
  by (simp_all add: received_def)

lemma receivedAbs_sel [simp]:
  "a_nodes (receivedAbs mm a) i = map_option (received mm) (a_nodes a i)"
  "a_edges (receivedAbs mm a) j = map_option (received mm) (a_edges a j)"
  by (simp_all add: receivedAbs_def)

lemma sameButData_received: "sameButData x y \<Longrightarrow> sameButData (received mm x) (received mm y)"
  unfolding sameButData_def received_def by (erule ssubst) simp

lemma apart_received [simp]: "apart base (receivedEvent mm ev) = apart base ev"
  by (cases "(mm, ev)" rule: receivedEvent.cases) simp_all

lemma eventMsg_received: "eventMsg (receivedEvent mm ev) = receivedMsg mm (eventMsg ev)"
  by (cases ev rule: eventMsg.cases) simp_all

lemma applyEvent_received: "applyEvent (receivedEvent mm ev) (receivedAbs mm a) = receivedAbs mm (applyEvent ev a)"
  by (cases "(mm, ev)" rule: receivedEvent.cases) (auto simp: receivedAbs_def fun_eq_iff)

lemma lawful_received: "lawful a ev \<Longrightarrow> lawful (receivedAbs mm a) (receivedEvent mm ev)"
  by (erule lawful_cases) (auto simp: sameButData_received)

lemma rises_received: "rises (receivedAbs mm a) (receivedEvent mm ev) = rises a ev"
  by (cases "(mm, ev)" rule: receivedEvent.cases) (simp_all split: option.split)

lemma agraph_wf_received: "agraph_wf a \<Longrightarrow> agraph_wf (receivedAbs mm a)"
  by (auto simp: agraph_wf_def)

lemma ran_received:
  "ran (a_nodes (receivedAbs mm a)) = received mm ` ran (a_nodes a)" "ran (a_edges (receivedAbs mm a)) = received mm ` ran (a_edges a)"
  by (auto simp: ran_def)

section \<open>What a hub receives\<close>

definition isElement :: "gmsg \<Rightarrow> bool" where
  "isElement m \<longleftrightarrow> (case m of SyncRequestMsg _ _ \<Rightarrow> False | SyncMsg _ _ \<Rightarrow> False | SyncReplyMsg _ _ \<Rightarrow> False
     | NilSyncMsg \<Rightarrow> False | NilSyncReplyMsg \<Rightarrow> False | _ \<Rightarrow> True)"

lemma publisherApply_element:
  "isElement m \<Longrightarrow> publisherApply sorter B now c m t = map_option (\<lambda>(g, _). t\<lparr>pub_Graph := g\<rparr>) (applyElement B m (pub_Graph t))"
  by (cases m) (auto simp: isElement_def)

lemma lawful_element: "lawful s ev \<Longrightarrow> isElement (eventMsg ev)"
  by (erule lawful_cases) (simp_all add: isElement_def)

lemma publisherRun_append:
  "publisherRun d sorter v B now c (xs @ ys) t = Option.bind (publisherRun d sorter v B now c xs t) (publisherRun d sorter v B now c ys)"
proof (induction xs arbitrary: t)
  case (Cons x xs)
  then show ?case by (cases "Publisher_OnStructMessage d sorter v B now c x t") simp_all
qed simp

context reliable_backend
begin

lemma publisher_element:
  assumes ok: "graph_ok binv nrefs erefs (pub_Graph t)" and m: "UnmarshalMessage d msg = Some m" "isElement m"
    and ends: "endsFit (absGraph nrefs erefs (pub_Graph t)) m"
  shows "\<exists>t'. Publisher_OnStructMessage d sorter None B now c msg t = Some t' \<and> graph_ok binv nrefs erefs (pub_Graph t') \<and>
    absGraph nrefs erefs (pub_Graph t') = deliver m (absGraph nrefs erefs (pub_Graph t))"
proof -
  let ?t = "if map_of (pub_authors t) (ClientOrigin c) = None
    then t\<lparr>pub_authors := gm_set (ClientOrigin c) True (pub_authors t)\<rparr> else t"
  have g: "pub_Graph ?t = pub_Graph t" by simp
  from applyElement_deliver [OF ok ends] show ?thesis
    by (auto simp: Publisher_OnStructMessage_def m publisherApply_element Let_def g)
qed

lemma publisher_copies:
  assumes "lawful s ev" "apart base ev" "UnmarshalMessage d msg = Some (eventMsg ev)"
    and "graph_ok binv nrefs erefs (pub_Graph t)" "mirrors (absGraph nrefs erefs (pub_Graph t)) (overlay base (applyEvent ev s))"
  shows "\<exists>t'. publisherRun d sorter None B now c (replicate k msg) t = Some t' \<and>
    graph_ok binv nrefs erefs (pub_Graph t') \<and> mirrors (absGraph nrefs erefs (pub_Graph t')) (overlay base (applyEvent ev s))"
  using assms(4,5)
proof (induction k arbitrary: t)
  case (Suc k)
  note again = deliver_again [OF assms(1) Suc.prems(2) assms(2)]
  from publisher_element [OF Suc.prems(1) assms(3) lawful_element [OF assms(1)], of sorter now c] again obtain t1 where
    "Publisher_OnStructMessage d sorter None B now c msg t = Some t1" "graph_ok binv nrefs erefs (pub_Graph t1)"
    "mirrors (absGraph nrefs erefs (pub_Graph t1)) (overlay base (applyEvent ev s))" by auto
  then show ?case using Suc.IH [of t1] by simp
qed simp

lemma publisher_events:
  assumes "graph_ok binv nrefs erefs (pub_Graph t)" "mirrors (absGraph nrefs erefs (pub_Graph t)) (overlay base (receivedAbs mm s))"
    and "lawfulFrom s evs" "risesFrom s evs" "\<forall>ev \<in> set evs. apart base ev" "agraph_wf base"
    and "\<forall>ev \<in> set evs. UnmarshalMessage d (wire (eventMsg ev)) = Some (receivedMsg mm (eventMsg ev))"
  shows "\<exists>t'. publisherRun d sorter None B now c (map wire (copies (Suc k) evs)) t = Some t' \<and>
    graph_ok binv nrefs erefs (pub_Graph t') \<and>
    mirrors (absGraph nrefs erefs (pub_Graph t')) (overlay base (receivedAbs mm (fold applyEvent evs s)))"
  using assms
proof (induction evs arbitrary: s t)
  case (Cons ev evs)
  let ?s = "receivedAbs mm s" and ?ev = "receivedEvent mm ev"
  have law: "lawful ?s ?ev" "rises ?s ?ev" "apart base ?ev" "UnmarshalMessage d (wire (eventMsg ev)) = Some (eventMsg ?ev)"
    using Cons.prems by (auto simp: lawful_received rises_received eventMsg_received)
  note step = deliver_event [OF law(1-3) Cons.prems(6,2)]
  from publisher_element [OF Cons.prems(1) law(4) lawful_element [OF law(1)], of sorter now c] step obtain t1 where
    t1: "Publisher_OnStructMessage d sorter None B now c (wire (eventMsg ev)) t = Some t1" "graph_ok binv nrefs erefs (pub_Graph t1)"
    "mirrors (absGraph nrefs erefs (pub_Graph t1)) (overlay base (applyEvent ?ev ?s))" by auto
  from publisher_copies [OF law(1,3,4) t1(2,3), of sorter now c k] obtain t2 where
    t2: "publisherRun d sorter None B now c (replicate k (wire (eventMsg ev))) t1 = Some t2" "graph_ok binv nrefs erefs (pub_Graph t2)"
    "mirrors (absGraph nrefs erefs (pub_Graph t2)) (overlay base (receivedAbs mm (applyEvent ev s)))"
    by (auto simp: applyEvent_received)
  from Cons.IH [OF t2(2,3)] Cons.prems show ?case using t1(1) t2(1)
    by (auto simp: copies_def publisherRun_append)
qed (simp add: copies_def)

lemma publisher_sync:
  assumes ok: "graph_ok binv nrefs erefs (pub_Graph t)" and m: "UnmarshalMessage d msg = Some (SyncMsg ns es)"
    and wf: "agraph_wf s" "set ns = ran (a_nodes s)" "set es = ran (a_edges s)"
    and base: "base = removeNodes (originIds (ClientOrigin c) (absGraph nrefs erefs (pub_Graph t))) (absGraph nrefs erefs (pub_Graph t))"
    and apart: "\<forall>i \<in> dom (a_nodes s). a_nodes base i = None" "\<forall>j \<in> dom (a_edges s). a_edges base j = None"
  shows "\<exists>t'. Publisher_OnStructMessage d sorter None B now c msg t = Some t' \<and> graph_ok binv nrefs erefs (pub_Graph t') \<and>
    absGraph nrefs erefs (pub_Graph t') = overlay base s"
proof -
  let ?t = "if map_of (pub_authors t) (ClientOrigin c) = None
    then t\<lparr>pub_authors := gm_set (ClientOrigin c) True (pub_authors t)\<rparr> else t"
  have g: "pub_Graph ?t = pub_Graph t" by simp
  from DelSubGraphOfOrigin_abs [OF ok, of now "ClientOrigin c"] base obtain g1 where
    g1: "DelSubGraphOfOrigin B now (ClientOrigin c) (pub_Graph t) = Some g1" "graph_ok binv nrefs erefs g1"
      "absGraph nrefs erefs g1 = base" by auto
  from syncNodes_abs [OF g1(2), of ns] obtain g2 where
    g2: "syncNodes B ns g1 = Some g2" "graph_ok binv nrefs erefs g2"
      "absGraph nrefs erefs g2 = fold (\<lambda>n. deliver (NodeAddedMsg n)) ns base" using g1(3) by auto
  from syncEdges_abs [OF g2(2), of es] obtain g3 where
    g3: "syncEdges B es g2 = Some g3" "graph_ok binv nrefs erefs g3" "absGraph nrefs erefs g3 = overlay base s"
    using g2(3) sync_overlay [OF wf apart] by auto
  show ?thesis using g1 g2 g3 by (auto simp: Publisher_OnStructMessage_def m Let_def g syncElements_def)
qed

end

section \<open>Concrete messages and processes\<close>

text \<open>Messages whose text is the message itself, decoded with times in milliseconds and untyped numbers.\<close>

fun msgType :: "gmsg \<Rightarrow> string" where
  "msgType (SyncRequestMsg _ _) = ''SyncRequest''"
| "msgType (SyncMsg _ _) = ''Sync''"
| "msgType (SyncReplyMsg _ _) = ''SyncReply''"
| "msgType NilSyncMsg = ''Sync''"
| "msgType NilSyncReplyMsg = ''SyncReply''"
| "msgType (NodeUpdatedMsg _) = ''NodeUpdated''"
| "msgType (NodeDeletedMsg _) = ''NodeDeleted''"
| "msgType (NodeAddedMsg _) = ''NodeAdded''"
| "msgType (EdgeUpdatedMsg _) = ''EdgeUpdated''"
| "msgType (EdgeDeletedMsg _) = ''EdgeDeleted''"
| "msgType (EdgeAddedMsg _) = ''EdgeAdded''"
| "msgType (PartiallyUpdatedMsg _ _) = ''NodePartiallyUpdated''"
| "msgType OtherMsg = []"

definition plainWire :: "gmsg \<Rightarrow> gmsg StructMessage" where
  "plainWire m = \<lparr>sm_Type = msgType m, sm_Status = 200, sm_Obj = m\<rparr>"

text \<open>Numbers have no type in a message and become 64-bit integers, in lists and maps too.\<close>

fun jsonValue :: "gval \<Rightarrow> gval" where
  "jsonValue (VInt k i) = VInt KInt64 i"
| "jsonValue (VInts is) = VList (map (VInt KInt64) is)"
| "jsonValue (VStrings ss) = VList (map VString ss)"
| "jsonValue (VBools bs) = VList (map VBool bs)"
| "jsonValue (VList vs) = VList (map jsonValue vs)"
| "jsonValue (VMap m) = VMap (map (\<lambda>(k, v). (k, jsonValue v)) m)"
| "jsonValue (VMetadata m) = VMap (map (\<lambda>(k, v). (k, jsonValue v)) m)"
| "jsonValue v = v"

definition jsonMetadata :: "metadata \<Rightarrow> metadata" where
  "jsonMetadata m = map (\<lambda>(k, v). (k, jsonValue v)) m"

definition jsonDecoders :: "gmsg decoders" where
  "jsonDecoders =
     \<lparr>dec_SyncRequest = (\<lambda>m. case m of SyncRequestMsg c f \<Rightarrow> Some (c, f) | _ \<Rightarrow> None),
      dec_Elements = (\<lambda>m. case receivedMsg jsonMetadata m of SyncMsg ns es \<Rightarrow> Some (Some (ns, es))
         | SyncReplyMsg ns es \<Rightarrow> Some (Some (ns, es)) | NilSyncMsg \<Rightarrow> Some None | NilSyncReplyMsg \<Rightarrow> Some None | _ \<Rightarrow> None),
      dec_Node = (\<lambda>m. case receivedMsg jsonMetadata m of NodeUpdatedMsg n \<Rightarrow> Some n | NodeDeletedMsg n \<Rightarrow> Some n
         | NodeAddedMsg n \<Rightarrow> Some n | _ \<Rightarrow> None),
      dec_Edge = (\<lambda>m. case receivedMsg jsonMetadata m of EdgeUpdatedMsg e \<Rightarrow> Some e | EdgeDeletedMsg e \<Rightarrow> Some e
         | EdgeAddedMsg e \<Rightarrow> Some e | _ \<Rightarrow> None),
      dec_Partial = (\<lambda>m. case m of PartiallyUpdatedMsg i ops \<Rightarrow> Some (i, ops) | _ \<Rightarrow> None)\<rparr>"

lemma json_decoded: "UnmarshalMessage jsonDecoders (plainWire m) = Some (receivedMsg jsonMetadata m)"
  by (cases m) (simp_all add: UnmarshalMessage_def jsonDecoders_def plainWire_def)

definition podSpeaker :: Speaker where
  "podSpeaker = \<lparr>sp_ServiceType = ''agent'', sp_RemoteHost = ''h'', sp_Headers = []\<rparr>"

definition podConnected :: "MemoryBackend Forwarder" where
  "podConnected = Master_OnConnected (\<lambda>less xs. xs) memoryBackend podSpeaker (NewForwarder linkedGraph 0 [])"

text \<open>The metadata of an edge and a node change, a node is added, another one deleted with its edges.\<close>

definition podOps :: "gop list" where
  "podOps =
     [AddMetadataOp 8000001 (EdgeElem 3) ''Speed'' (VInt KInt64 10), AddMetadataOp 9000001 (NodeElem 2) ''MTU'' (VInt KInt32 9000),
      NewNodeOp 10000001 ''d'' None [], DelNodeOp 11000001 1]"

definition podForwarded :: "MemoryBackend Forwarder" where
  "podForwarded = the (Forwarder_run (\<lambda>s. s) memoryBackend podOps podConnected)"

lemma linkedGraph_synced: "synced memNodeRefs memEdgeRefs linkedGraph"
proof -
  have "callsOk memNodeRefs memEdgeRefs (\<lambda>s. s) memoryBackend (butlast sampleOps)
      (NewGraph ''h'' emptyWorld NewMemoryBackend ''agent'')" by code_simp
  from mem.runOps_ok [OF NewGraph_ok this] NewGraph_synced mem.reliable show ?thesis by (auto simp: linkedGraph_def)
qed

lemma podOps_ok: "callsOk memNodeRefs memEdgeRefs (\<lambda>s. s) memoryBackend podOps (fw_graph podConnected)"
  by code_simp

lemma podConnected_graph: "fw_graph podConnected = Graph_AddEventListener 0 linkedGraph"
  by (simp add: podConnected_def Master_OnConnected_def NewForwarder_def OnNewMaster_def triggerResync_def SendMessageToMaster_def Let_def)

lemma podForwarded_run: "Forwarder_run (\<lambda>s. s) memoryBackend podOps podConnected = Some podForwarded"
proof -
  from mem.runOps_ok [OF _ podOps_ok] obtain g' where "runOps (\<lambda>s. s) memoryBackend podOps (fw_graph podConnected) = Some g'"
    by (auto simp: podConnected_graph listener_ok linkedGraph_ok)
  then show ?thesis by (simp add: podForwarded_def Forwarder_run_def)
qed

lemma newGraph_abs: "absGraph memNodeRefs memEdgeRefs (NewGraph host w NewMemoryBackend service) = emptyAbs"
  by (simp add: absGraph_def NewGraph_def NewMemoryBackend_def memNodeRefs_def memEdgeRefs_def emptyAbs_def)

lemma removeNodes_emptyAbs: "removeNodes I emptyAbs = emptyAbs"
  by (simp add: removeNodes_def emptyAbs_def)

lemma apart_emptyAbs: "apart emptyAbs ev"
  by (cases "(emptyAbs, ev)" rule: apart.cases) (simp_all add: emptyAbs_def)

section \<open>Properties\<close>

text \<open>C4: A pod that connects to a hub without a validator and then forwards the events of its graph gives the hub its graph, when
  the calls at the pod get pointers to existing elements, delete edges with the ends the graph has, change metadata through the elements
  of the graph and not through copies, and use \<^verbatim>\<open>UpdateMetadata\<close> for nodes with callbacks that report a change
  (\<open>callsOk\<close>): the hub handles every message, stays well formed
  and has, beside the elements of others, the nodes and edges of the pod as a message keeps them, which is with times in
  milliseconds and metadata as \<open>mm\<close> decodes it, whatever the hub had from that pod before and however often a message is
  repeated.  An edge of the hub has all fields of the pod's but the revision, which may be lower.  It is required that the identifiers of
  the pod's elements are not among those of others at the hub, that each update has a higher revision than what it updates, and
  that every message decodes.\<close>

theorem hub_mirrors_pod:
  assumes sort: "\<forall>less xs. mset (sorter less xs) = mset xs"
    and pod: "graph_ok mem_inv memNodeRefs memEdgeRefs g" "synced memNodeRefs memEdgeRefs g"
    and connected: "f1 = Master_OnConnected sorter memoryBackend c (NewForwarder g l pool)"
    and calls: "callsOk memNodeRefs memEdgeRefs u memoryBackend ops (fw_graph f1)" "Forwarder_run u memoryBackend ops f1 = Some f2"
    and hub: "reliable_backend B binv nrefs erefs" "graph_ok binv nrefs erefs (pub_Graph t)"
    and base: "base = removeNodes (originIds (ClientOrigin s) (absGraph nrefs erefs (pub_Graph t))) (absGraph nrefs erefs (pub_Graph t))"
    and others: "\<forall>i \<in> dom (a_nodes (absGraph memNodeRefs memEdgeRefs g)). a_nodes base i = None"
      "\<forall>j \<in> dom (a_edges (absGraph memNodeRefs memEdgeRefs g)). a_edges base j = None"
      "\<forall>ev \<in> set (drop (length (g_published g)) (g_published (fw_graph f2))). apart base ev"
    and revisions: "risesFrom (absGraph memNodeRefs memEdgeRefs g) (drop (length (g_published g)) (g_published (fw_graph f2)))"
    and wire: "\<forall>m \<in> set (map snd (fw_sent f2)). UnmarshalMessage d (wire m) = Some (receivedMsg mm m)"
  shows "\<exists>t'. publisherRun d sorter None B now s (map wire (map snd (fw_sent f2))) t = Some t' \<and>
    graph_ok binv nrefs erefs (pub_Graph t') \<and>
    mirrors (absGraph nrefs erefs (pub_Graph t')) (overlay base (receivedAbs mm (absGraph memNodeRefs memEdgeRefs (fw_graph f2))))"
proof -
  obtain k evs where sent: "map snd (fw_sent f2) =
      (case Graph_Elements sorter memoryBackend g of (ns, es) \<Rightarrow> SyncMsg ns es) # copies (Suc k) evs"
    and evs: "g_published (fw_graph f2) = g_published g @ evs" "lawfulFrom (absGraph memNodeRefs memEdgeRefs g) evs"
      "absGraph memNodeRefs memEdgeRefs (fw_graph f2) = fold applyEvent evs (absGraph memNodeRefs memEdgeRefs g)"
    by (rule pod_sends [OF pod connected calls])
  obtain ns es where el: "Graph_Elements sorter memoryBackend g = (ns, es)" by fastforce
  let ?s = "receivedAbs mm (absGraph memNodeRefs memEdgeRefs g)"
  note set = mem.Graph_Elements_set [OF pod(1) sort, unfolded el, simplified]
  have elems: "set (map (received mm) ns) = ran (a_nodes ?s)" "set (map (received mm) es) = ran (a_edges ?s)"
    using set by (simp_all add: ran_received)
  have free: "\<forall>i \<in> dom (a_nodes ?s). a_nodes base i = None" "\<forall>j \<in> dom (a_edges ?s). a_edges base j = None"
    using others(1,2) by (auto simp: dom_def)
  have first: "UnmarshalMessage d (wire (SyncMsg ns es)) = Some (SyncMsg (map (received mm) ns) (map (received mm) es))"
    using wire unfolding sent el by simp
  from reliable_backend.publisher_sync [OF hub first agraph_wf_received [OF mem.agraph_wf_abs [OF pod(1)]] elems base free] obtain t1 where
    t1: "Publisher_OnStructMessage d sorter None B now s (wire (SyncMsg ns es)) t = Some t1" "graph_ok binv nrefs erefs (pub_Graph t1)"
    "mirrors (absGraph nrefs erefs (pub_Graph t1)) (overlay base ?s)" by fastforce
  have wf: "agraph_wf base" unfolding base
    by (rule removeNodes_wf) (rule backend_laws.agraph_wf_abs [OF reliable_backend.axioms(1) [OF hub(1)] hub(2)])
  have "\<forall>ev \<in> set evs. UnmarshalMessage d (wire (eventMsg ev)) = Some (receivedMsg mm (eventMsg ev))"
    using wire unfolding sent by (auto simp: copies_def)
  from reliable_backend.publisher_events [OF hub(1) t1(2,3) evs(2) _ _ wf this] revisions others(3) show ?thesis
    using t1(1) by (simp add: sent el evs(1) evs(3))
qed

theorem hub_mirrors_pod_witness:
  "\<exists>t'. publisherRun jsonDecoders (\<lambda>less xs. xs) None memoryBackend 20 podSpeaker (map plainWire (map snd (fw_sent podForwarded)))
      (NewPublisherEndpoint (NewGraph ''hub'' emptyWorld NewMemoryBackend ''analyzer'')) = Some t' \<and>
    graph_ok mem_inv memNodeRefs memEdgeRefs (pub_Graph t') \<and>
    mirrors (absGraph memNodeRefs memEdgeRefs (pub_Graph t'))
      (overlay emptyAbs (receivedAbs jsonMetadata (absGraph memNodeRefs memEdgeRefs (fw_graph podForwarded))))"
proof (rule hub_mirrors_pod [OF _ linkedGraph_ok linkedGraph_synced podConnected_def podOps_ok podForwarded_run mem.reliable_backend_axioms])
  show "risesFrom (absGraph memNodeRefs memEdgeRefs linkedGraph)
      (drop (length (g_published linkedGraph)) (g_published (fw_graph podForwarded)))" by code_simp
qed (simp_all add: NewPublisherEndpoint_def NewGraph_ok newGraph_abs removeNodes_emptyAbs apart_emptyAbs json_decoded,
  simp_all add: emptyAbs_def)

text \<open>C36: When a publisher leaves that has sent something, and did not ask for persistence, exactly its nodes and the edges at them
  are removed; otherwise the graph stays.\<close>

theorem publisher_leaves:
  assumes "reliable_backend B binv nrefs erefs" "graph_ok binv nrefs erefs (pub_Graph t)"
  shows "\<exists>t'. Publisher_OnDisconnected B now c t = Some t' \<and> graph_ok binv nrefs erefs (pub_Graph t') \<and>
    absGraph nrefs erefs (pub_Graph t') =
      (if map_of (pub_authors t) (ClientOrigin c) = None \<or> headerGet c ''X-Persistence-Policy'' = ''Persistent''
       then absGraph nrefs erefs (pub_Graph t)
       else removeNodes (originIds (ClientOrigin c) (absGraph nrefs erefs (pub_Graph t))) (absGraph nrefs erefs (pub_Graph t)))"
  using reliable_backend.DelSubGraphOfOrigin_abs [OF assms, of now "ClientOrigin c"] assms(2)
  by (auto simp: Publisher_OnDisconnected_def Let_def)

theorem publisher_leaves_witness:
  "\<exists>t'. Publisher_OnDisconnected memoryBackend 20 podSpeaker
      \<lparr>pub_Graph = linkedGraph, pub_authors = [(''agent.h'', True)], pub_sent = []\<rparr> = Some t' \<and>
    absGraph memNodeRefs memEdgeRefs (pub_Graph t') =
      removeNodes (originIds ''agent.h'' (absGraph memNodeRefs memEdgeRefs linkedGraph)) (absGraph memNodeRefs memEdgeRefs linkedGraph)"
proof -
  let ?t = "\<lparr>pub_Graph = linkedGraph, pub_authors = [(''agent.h'', True)], pub_sent = []\<rparr>"
  have o: "ClientOrigin podSpeaker = ''agent.h''" and h: "headerGet podSpeaker ''X-Persistence-Policy'' \<noteq> ''Persistent''" by code_simp+
  have "graph_ok mem_inv memNodeRefs memEdgeRefs (pub_Graph ?t)" by (simp add: linkedGraph_ok)
  from publisher_leaves [OF mem.reliable_backend_axioms this, of 20 podSpeaker] h show ?thesis unfolding o by auto
qed

text \<open>C40: A hub that receives an update of an edge applies it and announces the edge with the revision it had before, so that every
  peer or subscriber that has the edge already refuses the update: changes of the metadata of edges end at the first hub.\<close>

theorem edge_update_not_relayed:
  assumes g: "graph_ok mem_inv memNodeRefs memEdgeRefs g" "a_edges (absGraph memNodeRefs memEdgeRefs g) (ID e) = Some old"
    and new: "Revision old < Revision e"
    and p: "graph_ok mem_inv memNodeRefs memEdgeRefs p" "a_edges (absGraph memNodeRefs memEdgeRefs p) (ID e) = Some cp"
      "Revision old \<le> Revision cp"
  shows "\<exists>g' x p'. applyElement memoryBackend (EdgeUpdatedMsg e) g = Some (g', None) \<and>
    a_edges (absGraph memNodeRefs memEdgeRefs g') (ID e) = Some x \<and> Metadata x = Metadata e \<and>
    g_published g' = g_published g @ [(EdgeUpdated, EdgeSnap x)] \<and>
    applyElement memoryBackend (eventMsg (EdgeUpdated, EdgeSnap x)) p = Some (p', Some ErrEdgeNotFound) \<and>
    absGraph memNodeRefs memEdgeRefs p' = absGraph memNodeRefs memEdgeRefs p"
proof -
  let ?abs = "absGraph memNodeRefs memEdgeRefs"
  obtain w r where w: "new_edge e (g_world g) = (w, r)" by fastforce
  note n = mem.new_edge_ok [OF g(1) w]
  from g(2) n(5) obtain r' where r': "memEdgeRefs (g_backend g) (ID e) = Some r'" "h_edge w r' = old"
    unfolding n(5) [symmetric] by (auto simp: absGraph_def)
  let ?x = "old\<lparr>Metadata := Metadata e, UpdatedAt := UpdatedAt e\<rparr>"
  from mem.updateEdge_abs [OF n(1), of "ID e" r' ?x] r' obtain g' where
    g': "applyElement memoryBackend (EdgeUpdatedMsg e) g = Some (g', None)" "?abs g' = (?abs g)\<lparr>a_edges := (a_edges (?abs g))(ID e \<mapsto> ?x)\<rparr>"
      "g_published g' = g_published g @ [(EdgeUpdated, EdgeSnap ?x)]"
    using new n(3,5) by (auto simp: w Graph_EdgeUpdated_def mem.GetEdge_live [OF n(1)] Let_def)
  have id: "ID old = ID e" using mem.agraph_wf_abs [OF g(1)] g(2) by (simp add: agraph_wf_def)
  obtain w' s where w': "new_edge ?x (g_world p) = (w', s)" by fastforce
  note m = mem.new_edge_ok [OF p(1) w']
  from p(2) obtain s' where s': "memEdgeRefs (g_backend p) (ID e) = Some s'" "h_edge w' s' = cp"
    unfolding m(5) [symmetric] by (auto simp: absGraph_def)
  have "applyElement memoryBackend (eventMsg (EdgeUpdated, EdgeSnap ?x)) p = Some (p\<lparr>g_world := w'\<rparr>, Some ErrEdgeNotFound)"
    using s' p(3) m(3) id by (simp add: w' Graph_EdgeUpdated_def mem.GetEdge_live [OF m(1)] Let_def)
  with g' m(5) show ?thesis by (intro exI [of _ g'] exI [of _ ?x] exI [of _ "p\<lparr>g_world := w'\<rparr>"]) simp
qed

definition fasterEdge :: Edge where
  "fasterEdge = (the (a_edges (absGraph memNodeRefs memEdgeRefs linkedGraph) ''ab''))\<lparr>Metadata := [(''Speed'', VInt KInt64 10)], Revision := 7\<rparr>"

theorem edge_update_not_relayed_witness:
  "\<exists>g' x p'. applyElement memoryBackend (EdgeUpdatedMsg fasterEdge) linkedGraph = Some (g', None) \<and>
    a_edges (absGraph memNodeRefs memEdgeRefs g') (ID fasterEdge) = Some x \<and> Metadata x = Metadata fasterEdge \<and>
    g_published g' = g_published linkedGraph @ [(EdgeUpdated, EdgeSnap x)] \<and>
    applyElement memoryBackend (eventMsg (EdgeUpdated, EdgeSnap x)) linkedGraph = Some (p', Some ErrEdgeNotFound) \<and>
    absGraph memNodeRefs memEdgeRefs p' = absGraph memNodeRefs memEdgeRefs linkedGraph"
proof (rule edge_update_not_relayed [OF linkedGraph_ok _ _ linkedGraph_ok])
  let ?old = "the (a_edges (absGraph memNodeRefs memEdgeRefs linkedGraph) (ID fasterEdge))"
  show "a_edges (absGraph memNodeRefs memEdgeRefs linkedGraph) (ID fasterEdge) = Some ?old"
    "a_edges (absGraph memNodeRefs memEdgeRefs linkedGraph) (ID fasterEdge) = Some ?old" by code_simp+
  show "Revision ?old < Revision fasterEdge" "Revision ?old \<le> Revision ?old" by code_simp+
qed

end
