(* ===== verification/Replication.thy ===== *)
theory Replication
  imports Sync_Theorems
begin

text \<open>
  Replication between hubs (\<^verbatim>\<open>src/graffiti/hub/replication_endpoint.go\<close>): the connections a hub opens to its peers
  (\<^verbatim>\<open>ReplicatorPeer\<close>) and those it accepts (\<^verbatim>\<open>ReplicationEndpoint\<close>), which share the count of
  connections by host.  The graph is over the cached backend with any persistent one.  The endpoint is a listener of the graph: what
  the graph announces it sends to all peers, unless it is handling a message of a peer.
\<close>

section \<open>State\<close>

record 'p ReplicationEndpoint =
  re_Graph :: "'p CachedBackend Graph"
  re_in :: "Speaker list"
  re_out :: "Speaker list"
  re_peerStates :: "(string, int) gomap"
  re_replicateMsg :: bool
  re_sent :: "(Speaker \<times> gmsg) list" \<comment> \<open>history: the messages sent and to whom\<close>
  re_stopped :: "Speaker list" \<comment> \<open>history: the connections that were closed\<close>

definition NewReplicationEndpoint :: "'p CachedBackend Graph \<Rightarrow> Speaker list \<Rightarrow> EventListener \<Rightarrow> 'p ReplicationEndpoint" where
  "NewReplicationEndpoint g pool l =
     \<lparr>re_Graph = Graph_AddEventListener l g, re_in = pool, re_out = [], re_peerStates = [], re_replicateMsg = True,
      re_sent = [], re_stopped = []\<rparr>"

section \<open>Events of the graph\<close>

definition notifyPeers :: "gmsg \<Rightarrow> 'p ReplicationEndpoint \<Rightarrow> 'p ReplicationEndpoint" where
  "notifyPeers m t = t\<lparr>re_sent := re_sent t @ map (\<lambda>c. (c, m)) (re_in t @ re_out t)\<rparr>"

definition Replication_OnEvent :: "graphEventType \<times> snapshot \<Rightarrow> 'p ReplicationEndpoint \<Rightarrow> 'p ReplicationEndpoint" where
  "Replication_OnEvent ev t = (if re_replicateMsg t then notifyPeers (eventMsg ev) t else t)"

text \<open>The graph after a call, with the callbacks of the events it announced.\<close>

definition Replication_hear :: "'p CachedBackend Graph \<Rightarrow> 'p ReplicationEndpoint \<Rightarrow> 'p ReplicationEndpoint" where
  "Replication_hear g t =
     fold Replication_OnEvent (drop (length (g_published (re_Graph t))) (g_published g)) (t\<lparr>re_Graph := g\<rparr>)"

section \<open>Connections\<close>

definition peerCount :: "'p ReplicationEndpoint \<Rightarrow> string \<Rightarrow> int" where
  "peerCount t host = (case map_of (re_peerStates t) host of None \<Rightarrow> 0 | Some n \<Rightarrow> n)"

definition countPeer :: "string \<Rightarrow> 'p ReplicationEndpoint \<Rightarrow> 'p ReplicationEndpoint" where
  "countPeer host t = t\<lparr>re_peerStates := gm_set host (peerCount t host + 1) (re_peerStates t)\<rparr>"

definition Replication_sync :: "sorter \<Rightarrow> 'p Backend option \<Rightarrow> 'p ReplicationEndpoint \<Rightarrow> gmsg" where
  "Replication_sync sorter P t = (case Graph_Elements sorter (cachedBackend P) (re_Graph t) of (ns, es) \<Rightarrow> SyncMsg ns es)"

definition Peer_OnConnected ::
  "sorter \<Rightarrow> 'p Backend option \<Rightarrow> string \<Rightarrow> Speaker \<Rightarrow> 'p ReplicationEndpoint \<Rightarrow> 'p ReplicationEndpoint" where
  "Peer_OnConnected sorter P hostID c t =
     (let host = sp_RemoteHost c; t = countPeer host t in
      if host = hostID then t\<lparr>re_stopped := re_stopped t @ [c]\<rparr>
      else if peerCount t host > 1 then t\<lparr>re_stopped := re_stopped t @ [c]\<rparr>
      else t\<lparr>re_sent := re_sent t @ [(c, Replication_sync sorter P t)], re_out := re_out t @ [c]\<rparr>)"

definition Endpoint_OnConnected :: "sorter \<Rightarrow> 'p Backend option \<Rightarrow> Speaker \<Rightarrow> 'p ReplicationEndpoint \<Rightarrow> 'p ReplicationEndpoint" where
  "Endpoint_OnConnected sorter P c t =
     (let host = sp_RemoteHost c; t = countPeer host t in
      if peerCount t host > 1 then t\<lparr>re_stopped := re_stopped t @ [c]\<rparr>
      else t\<lparr>re_sent := re_sent t @ [(c, Replication_sync sorter P t)]\<rparr>)"

text \<open>\<^verbatim>\<open>RemoveClient\<close>: the first speaker of the same host.\<close>

fun removeClient :: "string \<Rightarrow> Speaker list \<Rightarrow> Speaker list" where
  "removeClient host [] = []"
| "removeClient host (c # cs) = (if sp_RemoteHost c = host then cs else c # removeClient host cs)"

text \<open>The common part of the two disconnections; a host without a state is a nil pointer.\<close>

definition peerGone ::
  "'p Backend option \<Rightarrow> int \<Rightarrow> Speaker \<Rightarrow> ('p ReplicationEndpoint \<Rightarrow> 'p ReplicationEndpoint) \<Rightarrow> 'p ReplicationEndpoint \<Rightarrow>
   'p ReplicationEndpoint option" where
  "peerGone P now c remove t =
     (let host = sp_RemoteHost c; origin = ClientOrigin c in
      case map_of (re_peerStates t) host of
        None \<Rightarrow> None
      | Some n \<Rightarrow>
          (let t = t\<lparr>re_peerStates := gm_set host (n - 1) (re_peerStates t)\<rparr> in
           if n - 1 > 0 then Some t
           else if Graph_Origin (re_Graph t) = origin then Some t
           else map_option (\<lambda>g. let t = remove (Replication_hear g t) in t\<lparr>re_peerStates := gm_del host (re_peerStates t)\<rparr>)
                  (DelSubGraphOfOrigin (cachedBackend P) now origin (re_Graph t))))"

definition Peer_OnDisconnected ::
  "'p Backend option \<Rightarrow> int \<Rightarrow> Speaker \<Rightarrow> 'p ReplicationEndpoint \<Rightarrow> 'p ReplicationEndpoint option" where
  "Peer_OnDisconnected P now c t = peerGone P now c (\<lambda>t. t\<lparr>re_out := removeClient (sp_RemoteHost c) (re_out t)\<rparr>) t"

definition Endpoint_OnDisconnected ::
  "'p Backend option \<Rightarrow> int \<Rightarrow> Speaker \<Rightarrow> 'p ReplicationEndpoint \<Rightarrow> 'p ReplicationEndpoint option" where
  "Endpoint_OnDisconnected P now c t = peerGone P now c (\<lambda>t. t) t"

section \<open>Messages of a peer\<close>

definition setCacheMode :: "cacheMode \<Rightarrow> 'p CachedBackend Graph \<Rightarrow> 'p CachedBackend Graph" where
  "setCacheMode mode g = g\<lparr>g_backend := SetMode mode (g_backend g)\<rparr>"

definition replicaApply :: "'p Backend option \<Rightarrow> gmsg \<Rightarrow> 'p CachedBackend Graph \<Rightarrow> 'p CachedBackend Graph option" where
  "replicaApply P m g =
     (case m of
        SyncMsg ns es \<Rightarrow> syncElements (cachedBackend P) ns es g
      | NilSyncMsg \<Rightarrow> None
      | _ \<Rightarrow> map_option fst (applyElement (cachedBackend P) m g))"

definition Endpoint_OnStructMessage ::
  "'o decoders \<Rightarrow> 'p Backend option \<Rightarrow> string \<Rightarrow> Speaker \<Rightarrow> 'o StructMessage \<Rightarrow> 'p ReplicationEndpoint \<Rightarrow>
   'p ReplicationEndpoint option" where
  "Endpoint_OnStructMessage d P hostID c msg t =
     (if sp_RemoteHost c = hostID then Some t
      else case UnmarshalMessage d msg of
             None \<Rightarrow> Some t
           | Some m \<Rightarrow>
               (let t = t\<lparr>re_replicateMsg := False, re_Graph := setCacheMode CacheOnlyMode (re_Graph t)\<rparr> in
                map_option (\<lambda>g. let t = Replication_hear g t in
                    t\<lparr>re_Graph := setCacheMode DefaultMode (re_Graph t), re_replicateMsg := True\<rparr>)
                  (replicaApply P m (re_Graph t))))"

section \<open>Sequences of connections\<close>

datatype connEvent = PeerUp Speaker | EndpointUp Speaker | PeerDown int Speaker | EndpointDown int Speaker

fun connStep :: "sorter \<Rightarrow> 'p Backend option \<Rightarrow> string \<Rightarrow> connEvent \<Rightarrow> 'p ReplicationEndpoint \<Rightarrow> 'p ReplicationEndpoint option" where
  "connStep sorter P hostID (PeerUp c) t = Some (Peer_OnConnected sorter P hostID c t)"
| "connStep sorter P hostID (EndpointUp c) t = Some (Endpoint_OnConnected sorter P c t)"
| "connStep sorter P hostID (PeerDown now c) t = Peer_OnDisconnected P now c t"
| "connStep sorter P hostID (EndpointDown now c) t = Endpoint_OnDisconnected P now c t"

fun connRun :: "sorter \<Rightarrow> 'p Backend option \<Rightarrow> string \<Rightarrow> connEvent list \<Rightarrow> 'p ReplicationEndpoint \<Rightarrow> 'p ReplicationEndpoint option" where
  "connRun sorter P hostID [] t = Some t"
| "connRun sorter P hostID (ev # evs) t = Option.bind (connStep sorter P hostID ev t) (connRun sorter P hostID evs)"

text \<open>The number of open connections by host, and that only open ones are closed.\<close>

fun openAfter :: "connEvent \<Rightarrow> (string \<Rightarrow> int) \<Rightarrow> string \<Rightarrow> int" where
  "openAfter (PeerUp c) n = n(sp_RemoteHost c := n (sp_RemoteHost c) + 1)"
| "openAfter (EndpointUp c) n = n(sp_RemoteHost c := n (sp_RemoteHost c) + 1)"
| "openAfter (PeerDown _ c) n = n(sp_RemoteHost c := n (sp_RemoteHost c) - 1)"
| "openAfter (EndpointDown _ c) n = n(sp_RemoteHost c := n (sp_RemoteHost c) - 1)"

fun connsOk :: "(string \<Rightarrow> int) \<Rightarrow> connEvent list \<Rightarrow> bool" where
  "connsOk n [] = True"
| "connsOk n (ev # evs) =
     ((case ev of PeerDown _ c \<Rightarrow> n (sp_RemoteHost c) > 0 | EndpointDown _ c \<Rightarrow> n (sp_RemoteHost c) > 0 | _ \<Rightarrow> True) \<and>
      connsOk (openAfter ev n) evs)"

section \<open>The cached backend in cache-only mode\<close>

text \<open>It is the cached backend without persistence, which writes reliably.\<close>

interpretation cachedAlone: reliable_backend "cachedBackend None" cached_inv cachedNodeRefs cachedEdgeRefs
  using mem.node_added_ok mem.node_deleted_ok mem.edge_added_ok mem.edge_deleted_ok mem.metadata_updated_ok
  by unfold_locales
    (simp_all add: cachedBackend_sel Cached_NodeAdded_def Cached_NodeDeleted_def Cached_EdgeAdded_def Cached_EdgeDeleted_def
      Cached_MetadataUpdated_def cachedWrite_cacheOnly memoryBackend_sel)

definition cacheOnly :: "'p \<Rightarrow> 'p CachedBackend Graph \<Rightarrow> bool" where
  "cacheOnly p g \<longleftrightarrow> cb_cacheMode (g_backend g) = CacheOnlyMode \<and> cb_persistent (g_backend g) = p"

text \<open>Two calls agree, and leave the mode and the persistent backend alone.\<close>

definition quiet :: "'p \<Rightarrow> 'p CachedBackend outcome \<Rightarrow> 'p CachedBackend outcome \<Rightarrow> bool" where
  "quiet p out out' \<longleftrightarrow> out = out' \<and> (\<forall>g err. out' = Some (g, err) \<longrightarrow> cacheOnly p g)"

definition quietWrite :: "(world \<Rightarrow> 'p CachedBackend \<Rightarrow> 'p CachedBackend \<times> go_error option) \<Rightarrow>
    (world \<Rightarrow> 'p CachedBackend \<Rightarrow> 'p CachedBackend \<times> go_error option) \<Rightarrow> bool" where
  "quietWrite f f' \<longleftrightarrow> (\<forall>w b. cb_cacheMode b = CacheOnlyMode \<longrightarrow> f w b = f' w b \<and>
     cb_cacheMode (fst (f' w b)) = CacheOnlyMode \<and> cb_persistent (fst (f' w b)) = cb_persistent b)"

lemma quiet_writes:
  "quietWrite (\<lambda>w b. be_NodeAdded (cachedBackend P) w b r) (\<lambda>w b. be_NodeAdded (cachedBackend None) w b r)"
  "quietWrite (\<lambda>w b. be_NodeDeleted (cachedBackend P) w b r) (\<lambda>w b. be_NodeDeleted (cachedBackend None) w b r)"
  "quietWrite (\<lambda>w b. be_EdgeAdded (cachedBackend P) w b e) (\<lambda>w b. be_EdgeAdded (cachedBackend None) w b e)"
  "quietWrite (\<lambda>w b. be_EdgeDeleted (cachedBackend P) w b e) (\<lambda>w b. be_EdgeDeleted (cachedBackend None) w b e)"
  "quietWrite (\<lambda>w b. be_MetadataUpdated (cachedBackend P) w b x) (\<lambda>w b. be_MetadataUpdated (cachedBackend None) w b x)"
  by (simp_all add: quietWrite_def cachedBackend_sel Cached_NodeAdded_def Cached_NodeDeleted_def Cached_EdgeAdded_def
      Cached_EdgeDeleted_def Cached_MetadataUpdated_def cachedWrite_cacheOnly)

lemma quiet_reads:
  assumes "cacheOnly p g"
  shows "Graph_GetNode (cachedBackend P) g i = Graph_GetNode (cachedBackend None) g i"
    "Graph_GetEdge (cachedBackend P) g i = Graph_GetEdge (cachedBackend None) g i"
    "be_GetNodeEdges (cachedBackend P) w (g_backend g) n c m = be_GetNodeEdges (cachedBackend None) w (g_backend g) n c m"
  using assms by (simp_all add: Graph_GetNode_def Graph_GetEdge_def cachedBackend_sel cached_reads cachedRead_def cacheOnly_def split: option.split)

lemma cacheOnly_world [simp]: "cacheOnly p (g\<lparr>g_world := w\<rparr>) = cacheOnly p g"
  by (simp add: cacheOnly_def)

lemma quiet_publish:
  assumes "cacheOnly p g" "quietWrite f f'"
  shows "quiet p (publish f k x g) (publish f' k x g)"
  using assms unfolding quiet_def quietWrite_def publish_def callBackend_def notify_def cacheOnly_def
  by (auto simp: Let_def split: prod.splits if_splits) (metis fst_conv)+

lemma quiet_same: "cacheOnly p g \<Longrightarrow> quiet p (Some (g, err)) (Some (g, err))"
  by (simp add: quiet_def)

lemma quiet_then:
  assumes "quiet p out out'" "\<And>g. cacheOnly p g \<Longrightarrow> quiet p (f g) (f' g)"
  shows "quiet p (case out of None \<Rightarrow> None | Some (g, Some err) \<Rightarrow> Some (g, Some err) | Some (g, None) \<Rightarrow> f g)
    (case out' of None \<Rightarrow> None | Some (g, Some err) \<Rightarrow> Some (g, Some err) | Some (g, None) \<Rightarrow> f' g)"
  using assms by (auto simp: quiet_def split: option.splits)

lemma quiet_delEdges: "cacheOnly p g \<Longrightarrow> quiet p (delEdges (cachedBackend P) t es g) (delEdges (cachedBackend None) t es g)"
proof (induction es arbitrary: g)
  case (Cons e es)
  have "quiet p (Graph_delEdge (cachedBackend P) t e g) (Graph_delEdge (cachedBackend None) t e g)"
    unfolding Graph_delEdge_def by (rule quiet_publish [OF _ quiet_writes(4)]) (simp add: Cons.prems)
  then show ?case unfolding delEdges.simps by (rule quiet_then) (rule Cons.IH)
qed (simp add: quiet_same)

lemma quiet_delNode:
  assumes "cacheOnly p g"
  shows "quiet p (Graph_delNode (cachedBackend P) t n g) (Graph_delNode (cachedBackend None) t n g)"
  unfolding Graph_delNode_def quiet_reads(3) [OF assms, where P = P]
  by (rule quiet_then [OF quiet_delEdges [OF assms]]) (rule quiet_publish [OF _ quiet_writes(2)], simp)

lemma quiet_applyElement:
  assumes g: "cacheOnly p g"
  shows "quiet p (applyElement (cachedBackend P) m g) (applyElement (cachedBackend None) m g)"
proof -
  have w: "cacheOnly p (g\<lparr>g_world := w\<rparr>)" for w using g by simp
  note reads = quiet_reads(1,2) [OF w]
  show ?thesis
    by (cases m) (auto simp: new_node_def new_edge_def Graph_NodeUpdated_def Graph_EdgeUpdated_def Graph_NodeDeleted_def
        Graph_EdgeDeleted_def Graph_NodeAdded_def Graph_EdgeAdded_def Graph_AddNode_def Graph_AddEdge_def Let_def reads [where P = P] g
        intro!: quiet_publish quiet_writes quiet_same quiet_delNode split: option.split)
qed

lemma quiet_syncNodes:
  "cacheOnly p g \<Longrightarrow> syncNodes (cachedBackend P) ns g = syncNodes (cachedBackend None) ns g \<and>
     (\<forall>g'. syncNodes (cachedBackend None) ns g = Some g' \<longrightarrow> cacheOnly p g')"
proof (induction ns arbitrary: g)
  case (Cons n ns)
  from quiet_applyElement [OF Cons.prems, of P "NodeAddedMsg n"] Cons show ?case
    by (cases "applyElement (cachedBackend None) (NodeAddedMsg n) g")
      (auto simp: quiet_def quiet_reads(1) [OF Cons.prems, of P] simp del: applyElement.simps)
qed simp

lemma quiet_syncEdges:
  "cacheOnly p g \<Longrightarrow> syncEdges (cachedBackend P) es g = syncEdges (cachedBackend None) es g \<and>
     (\<forall>g'. syncEdges (cachedBackend None) es g = Some g' \<longrightarrow> cacheOnly p g')"
proof (induction es arbitrary: g)
  case (Cons e es)
  from quiet_applyElement [OF Cons.prems, of P "EdgeAddedMsg e"] Cons show ?case
    by (cases "applyElement (cachedBackend None) (EdgeAddedMsg e) g")
      (auto simp: quiet_def quiet_reads(2) [OF Cons.prems, of P] simp del: applyElement.simps)
qed simp

lemma quiet_replica:
  assumes "cacheOnly p g"
  shows "replicaApply P m g = replicaApply None m g" "replicaApply None m g = Some g' \<Longrightarrow> cacheOnly p g'"
proof -
  have "map_option fst (applyElement (cachedBackend P) m g) = map_option fst (applyElement (cachedBackend None) m g) \<and>
      (\<forall>g'. map_option fst (applyElement (cachedBackend None) m g) = Some g' \<longrightarrow> cacheOnly p g')"
    using quiet_applyElement [OF assms, of P m] by (auto simp: quiet_def)
  moreover have "syncElements (cachedBackend P) ns es g = syncElements (cachedBackend None) ns es g \<and>
      (\<forall>g'. syncElements (cachedBackend None) ns es g = Some g' \<longrightarrow> cacheOnly p g')" for ns es
    using quiet_syncNodes [OF assms, of P ns] quiet_syncEdges [of p _ P es]
    by (cases "syncNodes (cachedBackend None) ns g") (auto simp: syncElements_def)
  ultimately show "replicaApply P m g = replicaApply None m g" "replicaApply None m g = Some g' \<Longrightarrow> cacheOnly p g'"
    by (auto simp: replicaApply_def split: gmsg.split gmsg.split_asm simp del: applyElement.simps)
qed

section \<open>Properties\<close>

lemma hear_fields:
  "re_Graph (Replication_hear g t) = g" "re_peerStates (Replication_hear g t) = re_peerStates t"
  "re_replicateMsg (Replication_hear g t) = re_replicateMsg t"
proof -
  have "re_Graph (fold Replication_OnEvent evs t) = re_Graph t \<and> re_peerStates (fold Replication_OnEvent evs t) = re_peerStates t \<and>
      re_replicateMsg (fold Replication_OnEvent evs t) = re_replicateMsg t" for evs and t :: "'a ReplicationEndpoint"
    by (induction evs arbitrary: t) (simp_all add: Replication_OnEvent_def notifyPeers_def)
  then show "re_Graph (Replication_hear g t) = g" "re_peerStates (Replication_hear g t) = re_peerStates t"
    "re_replicateMsg (Replication_hear g t) = re_replicateMsg t" by (simp_all add: Replication_hear_def)
qed

lemma hear_silent: "\<not> re_replicateMsg t \<Longrightarrow> Replication_hear g t = t\<lparr>re_Graph := g\<rparr>"
proof -
  have "\<not> re_replicateMsg t \<Longrightarrow> fold Replication_OnEvent evs t = t" for evs and t :: "'a ReplicationEndpoint"
    by (induction evs) (simp_all add: Replication_OnEvent_def)
  then show "\<not> re_replicateMsg t \<Longrightarrow> Replication_hear g t = t\<lparr>re_Graph := g\<rparr>" by (simp add: Replication_hear_def)
qed

lemma setCacheMode_ok [simp]:
  "graph_ok cached_inv cachedNodeRefs cachedEdgeRefs (setCacheMode mode g) = graph_ok cached_inv cachedNodeRefs cachedEdgeRefs g"
  "absGraph cachedNodeRefs cachedEdgeRefs (setCacheMode mode g) = absGraph cachedNodeRefs cachedEdgeRefs g"
  by (simp_all add: graph_ok_def absGraph_def setCacheMode_def SetMode_def)

text \<open>The effect of a message of a peer on the abstract graph.\<close>

fun receive :: "gmsg \<Rightarrow> agraph \<Rightarrow> agraph" where
  "receive (SyncMsg ns es) a = fold (\<lambda>e. deliver (EdgeAddedMsg e)) es (fold (\<lambda>n. deliver (NodeAddedMsg n)) ns a)"
| "receive m a = deliver m a"

lemma replica_receive:
  assumes ok: "graph_ok cached_inv cachedNodeRefs cachedEdgeRefs g"
    and ends: "endsFit (absGraph cachedNodeRefs cachedEdgeRefs g) m"
  shows "\<exists>g'. replicaApply None m g = Some g' \<and> graph_ok cached_inv cachedNodeRefs cachedEdgeRefs g' \<and>
    absGraph cachedNodeRefs cachedEdgeRefs g' = receive m (absGraph cachedNodeRefs cachedEdgeRefs g)"
proof (cases "\<exists>ns es. m = SyncMsg ns es")
  case True
  then obtain ns es where m: "m = SyncMsg ns es" by blast
  from cachedAlone.syncNodes_abs [OF ok, of ns] obtain g1 where
    g1: "syncNodes (cachedBackend None) ns g = Some g1" "graph_ok cached_inv cachedNodeRefs cachedEdgeRefs g1"
      "absGraph cachedNodeRefs cachedEdgeRefs g1 = fold (\<lambda>n. deliver (NodeAddedMsg n)) ns (absGraph cachedNodeRefs cachedEdgeRefs g)" by blast
  from cachedAlone.syncEdges_abs [OF g1(2), of es] show ?thesis using g1 by (auto simp: m replicaApply_def syncElements_def)
next
  case False
  then have "replicaApply None m g = map_option fst (applyElement (cachedBackend None) m g)"
    "receive m (absGraph cachedNodeRefs cachedEdgeRefs g) = deliver m (absGraph cachedNodeRefs cachedEdgeRefs g)"
    using ends by (cases m; simp add: replicaApply_def)+
  then show ?thesis using cachedAlone.applyElement_deliver [OF ok ends] by auto
qed

text \<open>C23: A message of a peer, a synchronisation with its elements or a single change, is applied to the live graph, and stays there: nothing of it is sent on to any peer, nothing is
  written to the persistent backend, whatever that backend would answer, and afterwards writes and replication are on again.\<close>

theorem replica_stays_local:
  assumes ok: "graph_ok cached_inv cachedNodeRefs cachedEdgeRefs (re_Graph t)"
    and msg: "sp_RemoteHost c \<noteq> hostID" "UnmarshalMessage d msg = Some m"
    and ends: "endsFit (absGraph cachedNodeRefs cachedEdgeRefs (re_Graph t)) m"
  shows "\<exists>t'. Endpoint_OnStructMessage d P hostID c msg t = Some t' \<and>
    graph_ok cached_inv cachedNodeRefs cachedEdgeRefs (re_Graph t') \<and>
    absGraph cachedNodeRefs cachedEdgeRefs (re_Graph t') = receive m (absGraph cachedNodeRefs cachedEdgeRefs (re_Graph t)) \<and>
    re_sent t' = re_sent t \<and> cb_persistent (g_backend (re_Graph t')) = cb_persistent (g_backend (re_Graph t)) \<and>
    cb_cacheMode (g_backend (re_Graph t')) = DefaultMode \<and> re_replicateMsg t'"
proof -
  let ?g = "setCacheMode CacheOnlyMode (re_Graph t)" and ?p = "cb_persistent (g_backend (re_Graph t))"
  have quiet: "cacheOnly ?p ?g" by (simp add: cacheOnly_def setCacheMode_def SetMode_def)
  from replica_receive [of ?g m] ok ends obtain g' where
    g': "replicaApply None m ?g = Some g'" "graph_ok cached_inv cachedNodeRefs cachedEdgeRefs g'"
      "absGraph cachedNodeRefs cachedEdgeRefs g' = receive m (absGraph cachedNodeRefs cachedEdgeRefs (re_Graph t))" by auto
  have "cb_persistent (g_backend g') = ?p" using quiet_replica(2) [OF quiet g'(1)] by (simp add: cacheOnly_def)
  then have "cb_persistent (g_backend (setCacheMode DefaultMode g')) = ?p" "cb_cacheMode (g_backend (setCacheMode DefaultMode g')) = DefaultMode"
    by (simp_all add: setCacheMode_def SetMode_def)
  then show ?thesis using g' by (simp add: Endpoint_OnStructMessage_def msg quiet_replica(1) [OF quiet, of P] hear_silent Let_def)
qed

definition hubEndpoint :: "unit ReplicationEndpoint" where
  "hubEndpoint = NewReplicationEndpoint (NewGraph ''hub1'' emptyWorld (NewCachedBackend ()) ''analyzer'') [] 0"

definition peerSpeaker :: Speaker where
  "peerSpeaker = \<lparr>sp_ServiceType = ''analyzer'', sp_RemoteHost = ''hub2'', sp_Headers = []\<rparr>"

lemma hubEndpoint_ok: "graph_ok cached_inv cachedNodeRefs cachedEdgeRefs (re_Graph hubEndpoint)"
  by (simp add: hubEndpoint_def NewReplicationEndpoint_def listener_ok NewCachedGraph_ok)

theorem replica_stays_local_witness:
  "\<exists>t'. Endpoint_OnStructMessage jsonDecoders (Some brokenBackend) ''hub1'' peerSpeaker (plainWire (NodeAddedMsg someNode)) hubEndpoint = Some t' \<and>
    a_nodes (absGraph cachedNodeRefs cachedEdgeRefs (re_Graph t')) (ID someNode) \<noteq> None \<and> re_sent t' = []"
proof -
  have host: "sp_RemoteHost peerSpeaker \<noteq> ''hub1''" by (simp add: peerSpeaker_def)
  have "endsFit (absGraph cachedNodeRefs cachedEdgeRefs (re_Graph hubEndpoint)) (receivedMsg jsonMetadata (NodeAddedMsg someNode))" by simp
  from replica_stays_local [OF hubEndpoint_ok host json_decoded this, of "Some brokenBackend"] show ?thesis
    by (auto simp: specAddNode_def hubEndpoint_def NewReplicationEndpoint_def)
qed

lemma cached_DelSubGraph:
  assumes "graph_ok cached_inv cachedNodeRefs cachedEdgeRefs g"
  shows "\<exists>g'. DelSubGraphOfOrigin (cachedBackend P) now origin g = Some g' \<and> graph_ok cached_inv cachedNodeRefs cachedEdgeRefs g'"
  using cached.delNodesLoop_step [OF assms, of P now] by (fastforce simp: DelSubGraphOfOrigin_def Graph_DelNodes_def okStep_def)

lemma peerGone_count:
  assumes ok: "graph_ok cached_inv cachedNodeRefs cachedEdgeRefs (re_Graph t)" and n: "peerCount t (sp_RemoteHost c) > 0"
    and remove: "\<And>t. re_Graph (remove t) = re_Graph t" "\<And>t. re_peerStates (remove t) = re_peerStates t"
  shows "\<exists>t'. peerGone P now c remove t = Some t' \<and> graph_ok cached_inv cachedNodeRefs cachedEdgeRefs (re_Graph t') \<and>
    peerCount t' = (peerCount t)(sp_RemoteHost c := peerCount t (sp_RemoteHost c) - 1)"
proof -
  from n obtain k where k: "map_of (re_peerStates t) (sp_RemoteHost c) = Some k" "k > 0"
    by (auto simp: peerCount_def split: option.splits)
  obtain g' where g': "DelSubGraphOfOrigin (cachedBackend P) now (ClientOrigin c) (re_Graph t) = Some g'"
    "graph_ok cached_inv cachedNodeRefs cachedEdgeRefs g'" using cached_DelSubGraph [OF ok] by blast
  show ?thesis using k g' ok
    by (auto simp: peerGone_def Let_def remove hear_fields peerCount_def fun_eq_iff split: option.split)
qed

lemma conn_step:
  assumes ok: "graph_ok cached_inv cachedNodeRefs cachedEdgeRefs (re_Graph t)" and conns: "connsOk (peerCount t) [ev]"
  shows "\<exists>t'. connStep sorter P hostID ev t = Some t' \<and> graph_ok cached_inv cachedNodeRefs cachedEdgeRefs (re_Graph t') \<and>
    peerCount t' = openAfter ev (peerCount t)"
proof (cases ev)
  case (PeerUp c)
  then show ?thesis using ok by (simp add: Peer_OnConnected_def countPeer_def Let_def peerCount_def fun_eq_iff)
next
  case (EndpointUp c)
  then show ?thesis using ok by (simp add: Endpoint_OnConnected_def countPeer_def Let_def peerCount_def fun_eq_iff)
next
  case (PeerDown now c)
  then show ?thesis using conns peerGone_count [OF ok, of c] by (simp add: Peer_OnDisconnected_def)
next
  case (EndpointDown now c)
  then show ?thesis using conns peerGone_count [OF ok, of c] by (simp add: Endpoint_OnDisconnected_def)
qed

lemma conn_run:
  assumes "graph_ok cached_inv cachedNodeRefs cachedEdgeRefs (re_Graph t)" "connsOk (peerCount t) evs"
  shows "\<exists>t'. connRun sorter P hostID evs t = Some t' \<and> graph_ok cached_inv cachedNodeRefs cachedEdgeRefs (re_Graph t') \<and>
    peerCount t' = fold openAfter evs (peerCount t)"
  using assms
proof (induction evs arbitrary: t)
  case (Cons ev evs)
  from conn_step [OF Cons.prems(1), of ev sorter P hostID] Cons.prems(2) obtain t1 where
    "connStep sorter P hostID ev t = Some t1" "graph_ok cached_inv cachedNodeRefs cachedEdgeRefs (re_Graph t1)"
    "peerCount t1 = openAfter ev (peerCount t)" by auto
  then show ?case using Cons.IH [of t1] Cons.prems(2) by auto
qed simp

text \<open>C24: Over any sequence of connections to and from peers, several with the same host included, in which only open connections
  are closed, the handlers never find a host without its state, the graph stays well formed, and the count of a host is the number of
  its open connections.\<close>

theorem peers_counted:
  assumes "graph_ok cached_inv cachedNodeRefs cachedEdgeRefs g" "connsOk (\<lambda>_. 0) evs"
  shows "\<exists>t. connRun sorter P hostID evs (NewReplicationEndpoint g pool l) = Some t \<and>
    graph_ok cached_inv cachedNodeRefs cachedEdgeRefs (re_Graph t) \<and> peerCount t = fold openAfter evs (\<lambda>_. 0)"
proof -
  let ?t = "NewReplicationEndpoint g pool l"
  have "graph_ok cached_inv cachedNodeRefs cachedEdgeRefs (re_Graph ?t)" "peerCount ?t = (\<lambda>_. 0)"
    using assms(1) by (simp_all add: NewReplicationEndpoint_def listener_ok peerCount_def fun_eq_iff)
  with conn_run [of ?t evs sorter P hostID] assms(2) show ?thesis by simp
qed

theorem peers_counted_witness:
  "\<exists>t. connRun (\<lambda>less xs. xs) (Some brokenBackend) ''hub1''
      [PeerUp peerSpeaker, EndpointUp peerSpeaker, EndpointDown 1 peerSpeaker, PeerDown 2 peerSpeaker, EndpointUp peerSpeaker] hubEndpoint = Some t \<and>
    graph_ok cached_inv cachedNodeRefs cachedEdgeRefs (re_Graph t) \<and> peerCount t ''hub2'' = 1"
proof -
  have "connsOk (\<lambda>_. 0) [PeerUp peerSpeaker, EndpointUp peerSpeaker, EndpointDown 1 peerSpeaker, PeerDown 2 peerSpeaker, EndpointUp peerSpeaker]"
    by code_simp
  from peers_counted [OF NewCachedGraph_ok this] show ?thesis
    by (fastforce simp: hubEndpoint_def peerSpeaker_def)
qed

end
