(* ===== verification/Subscriber.thy ===== *)
theory Subscriber
  imports Graph_Sync Gremlin_Typing
begin

text \<open>
  The endpoint for subscribers (\<^verbatim>\<open>src/graffiti/common/subscriber_endpoint.go\<close>): a client may subscribe with a Gremlin filter,
  and is then told after every event how the graph the filter answers has changed since the last one.  Speakers are pointers, so a
  client is a number.  \<open>None\<close> is a panic.
\<close>

section \<open>State\<close>

text \<open>
  Without a \<^verbatim>\<open>SubGraph\<close> step the answer of a filter is the live graph, or a graph on its backend: \<open>sub_shared\<close>.
  Elements are shared in any case.  A nil subscriber is \<open>None\<close>.
\<close>

record 'c subscriber =
  sub_graph :: "'c Graph"
  sub_shared :: bool
  sub_gremlinFilter :: string
  sub_ts :: "GremlinStep list"

datatype subError = InvalidFilter string string | ExecError go_error | NotAGraph string

text \<open>What the endpoint sends: a message of the graph, or the reply to a request with its status.\<close>

datatype replyObj = ReplyElements "Node list" "Edge list" | ReplyError subError | ReplyNil

datatype sent = Sent gmsg | Replied int replyObj

record 'c SubscriberEndpoint =
  se_Graph :: "'c Graph"
  se_pool :: "nat list"
  se_subscribers :: "(nat, 'c subscriber option) gomap"
  se_sent :: "(nat \<times> sent) list" \<comment> \<open>history: the messages sent and to whom\<close>

definition NewSubscriberEndpoint :: "nat list \<Rightarrow> EventListener \<Rightarrow> 'c Graph \<Rightarrow> 'c SubscriberEndpoint" where
  "NewSubscriberEndpoint pool l g = \<lparr>se_Graph = Graph_AddEventListener l g, se_pool = pool, se_subscribers = [], se_sent = []\<rparr>"

definition sendTo :: "nat \<Rightarrow> sent list \<Rightarrow> 'c SubscriberEndpoint \<Rightarrow> 'c SubscriberEndpoint" where
  "sendTo c ms t = t\<lparr>se_sent := se_sent t @ map (Pair c) ms\<rparr>"

definition setSubscriber :: "nat \<Rightarrow> 'c subscriber option \<Rightarrow> 'c SubscriberEndpoint \<Rightarrow> 'c SubscriberEndpoint" where
  "setSubscriber c s t = t\<lparr>se_subscribers := gm_set c s (se_subscribers t)\<rparr>"

section \<open>Running a filter\<close>

text \<open>The run changes the sequence; an error leaves it changed too.\<close>

definition getGraph ::
  "'c tparams \<Rightarrow> string \<Rightarrow> GremlinStep list \<Rightarrow> 'c Graph \<Rightarrow> (GremlinStep list \<times> (subError + 'c Graph)) option" where
  "getGraph tp gremlinQuery ts g =
     map_option (\<lambda>(ts', res). (ts',
         case res of
           Inl err \<Rightarrow> Inl (ExecError err)
         | Inr (TG tv) \<Rightarrow> Inr (tr_Graph tv)
         | Inr _ \<Rightarrow> Inl (NotAGraph gremlinQuery))) (Sequence_Exec tp ts g)"

definition sharesGraph :: "GremlinStep list \<Rightarrow> bool" where
  "sharesGraph ts \<longleftrightarrow> list_all (\<lambda>s. kind s \<noteq> StepSubGraph) ts"

text \<open>The cache of compiled expressions is state of the process.\<close>

definition keepEnv :: "'c Graph \<Rightarrow> 'c Graph \<Rightarrow> 'c Graph" where
  "keepEnv g' g = g\<lparr>g_world := (g_world g)\<lparr>h_env := h_env (g_world g')\<rparr>\<rparr>"

definition newSubscriber :: "'c tparams \<Rightarrow> string \<Rightarrow> string \<Rightarrow> 'c Graph \<Rightarrow> (subError + 'c subscriber) option" where
  "newSubscriber tp host gremlinFilter g =
     Option.bind (Parse gremlinFilter) (\<lambda>r.
       case r of
         Inl _ \<Rightarrow> Some (Inl (InvalidFilter gremlinFilter host))
       | Inr ts \<Rightarrow>
           map_option (\<lambda>(ts', res).
             case res of
               Inl err \<Rightarrow> Inl err
             | Inr g' \<Rightarrow> Inr \<lparr>sub_graph = g', sub_shared = sharesGraph ts, sub_gremlinFilter = gremlinFilter, sub_ts = ts'\<rparr>)
             (getGraph tp gremlinFilter ts g))"

text \<open>The graph of a subscriber as it is now: the elements may have changed, and a shared backend too.\<close>

definition seenNow :: "'c Graph \<Rightarrow> 'c subscriber \<Rightarrow> 'c Graph" where
  "seenNow g s =
     (if sub_shared s then (sub_graph s)\<lparr>g_world := g_world g, g_backend := g_backend g\<rparr>
      else (sub_graph s)\<lparr>g_world := g_world g\<rparr>)"

section \<open>Subscriptions\<close>

definition queryGet :: "(string, string) gomap \<Rightarrow> string \<Rightarrow> string" where
  "queryGet q k = (case map_of q k of Some v \<Rightarrow> v | None \<Rightarrow> [])"

definition Subscriber_OnConnected ::
  "'c tparams \<Rightarrow> nat \<Rightarrow> Speaker \<Rightarrow> (string, string) gomap \<Rightarrow> 'c SubscriberEndpoint \<Rightarrow> 'c SubscriberEndpoint option" where
  "Subscriber_OnConnected tp c sp query t =
     (let gremlinFilter = headerGet sp ''X-Gremlin-Filter'';
          gremlinFilter = (if gremlinFilter = [] then queryGet query ''x-gremlin-filter'' else gremlinFilter)
      in if gremlinFilter \<noteq> [] then
           map_option (\<lambda>r. case r of
               Inl err \<Rightarrow> t
             | Inr s \<Rightarrow> setSubscriber c (Some s) (t\<lparr>se_Graph := keepEnv (sub_graph s) (se_Graph t)\<rparr>))
             (newSubscriber tp (sp_RemoteHost sp) gremlinFilter (se_Graph t))
         else Some t)"

definition Subscriber_OnDisconnected :: "nat \<Rightarrow> 'c SubscriberEndpoint \<Rightarrow> 'c SubscriberEndpoint" where
  "Subscriber_OnDisconnected c t = t\<lparr>se_subscribers := gm_del c (se_subscribers t)\<rparr>"

definition replyGraph :: "sorter \<Rightarrow> 'c Backend \<Rightarrow> nat \<Rightarrow> 'c Graph \<Rightarrow> 'c SubscriberEndpoint \<Rightarrow> 'c SubscriberEndpoint" where
  "replyGraph sorter B c g t =
     sendTo c [Replied 200 (case Graph_Elements sorter B g of (ns, es) \<Rightarrow> ReplyElements ns es)] t"

fun syncRequest ::
  "'c tparams \<Rightarrow> sorter \<Rightarrow> nat \<Rightarrow> Speaker \<Rightarrow> Context \<Rightarrow> string option \<Rightarrow> 'c SubscriberEndpoint \<Rightarrow> 'c SubscriberEndpoint option" where
  "syncRequest tp sorter c sp ctx gremlinFilter t =
     (case CloneWithContext (tp_backend tp) (se_Graph t) ctx of
        Inl err \<Rightarrow> Some (sendTo c [Replied 400 ReplyNil] t)
      | Inr result \<Rightarrow>
          (case gremlinFilter of
             Some f \<Rightarrow>
               (if f = [] then Some (replyGraph sorter (tp_backend tp) c result (Subscriber_OnDisconnected c t))
                else map_option (\<lambda>r. case r of
                    Inl err \<Rightarrow> setSubscriber c None (sendTo c [Replied 400 (ReplyError err)] t)
                  | Inr s \<Rightarrow>
                      (let t = setSubscriber c (Some s) (t\<lparr>se_Graph := keepEnv (sub_graph s) (se_Graph t)\<rparr>)
                       in replyGraph sorter (tp_backend tp) c (sub_graph s) t))
                  (newSubscriber tp (sp_RemoteHost sp) f (se_Graph t)))
           | None \<Rightarrow>
               (case map_of (se_subscribers t) c of
                  Some (Some s) \<Rightarrow> Some (replyGraph sorter (tp_backend tp) c (seenNow (se_Graph t) s) t)
                | _ \<Rightarrow> Some (replyGraph sorter (tp_backend tp) c result t))))"

definition Subscriber_OnStructMessage ::
  "'o decoders \<Rightarrow> 'c tparams \<Rightarrow> sorter \<Rightarrow> nat \<Rightarrow> Speaker \<Rightarrow> 'o StructMessage \<Rightarrow> 'c SubscriberEndpoint \<Rightarrow> 'c SubscriberEndpoint option" where
  "Subscriber_OnStructMessage d tp sorter c sp msg t =
     (case UnmarshalMessage d msg of
        Some (SyncRequestMsg ctx gremlinFilter) \<Rightarrow> syncRequest tp sorter c sp ctx gremlinFilter t
      | _ \<Rightarrow> Some t)"

section \<open>Notifications\<close>

definition diffMsgs :: "'c Backend \<Rightarrow> 'c Graph \<Rightarrow> 'c Graph \<Rightarrow> gmsg list" where
  "diffMsgs B old g =
     (case Graph_Diff B old B g of
        (addedNodes, removedNodes, addedEdges, removedEdges) \<Rightarrow>
          map (\<lambda>n. NodeAddedMsg (h_node (g_world g) n)) addedNodes @ map (\<lambda>n. NodeDeletedMsg (h_node (g_world old) n)) removedNodes @
          map (\<lambda>e. EdgeAddedMsg (h_edge (g_world g) e)) addedEdges @ map (\<lambda>e. EdgeDeletedMsg (h_edge (g_world old) e)) removedEdges)"

definition updateMsgs :: "'c Backend \<Rightarrow> 'c Graph \<Rightarrow> gmsg \<Rightarrow> gmsg list" where
  "updateMsgs B g m =
     (case m of
        NodeUpdatedMsg n \<Rightarrow> if Graph_GetNode B g (ID n) \<noteq> None then [m] else []
      | EdgeUpdatedMsg e \<Rightarrow> if Graph_GetEdge B g (ID e) \<noteq> None then [m] else []
      | _ \<Rightarrow> [])"

definition notifySubscriber ::
  "'c tparams \<Rightarrow> gmsg \<Rightarrow> nat \<Rightarrow> 'c subscriber \<Rightarrow> 'c SubscriberEndpoint \<Rightarrow> 'c SubscriberEndpoint option" where
  "notifySubscriber tp m c s t =
     map_option (\<lambda>(ts', res).
       case res of
         Inl err \<Rightarrow> setSubscriber c (Some (s\<lparr>sub_ts := ts'\<rparr>)) t
       | Inr g \<Rightarrow>
           setSubscriber c (Some (s\<lparr>sub_ts := ts', sub_graph := g\<rparr>))
             (sendTo c (map Sent (diffMsgs (tp_backend tp) (seenNow (se_Graph t) s) g @ updateMsgs (tp_backend tp) g m))
               (t\<lparr>se_Graph := keepEnv g (se_Graph t)\<rparr>)))
       (getGraph tp (sub_gremlinFilter s) (sub_ts s) (se_Graph t))"

text \<open>The loop over the speakers of the pool; a nil subscriber ends it.\<close>

fun notifyLoop :: "'c tparams \<Rightarrow> gmsg \<Rightarrow> nat list \<Rightarrow> 'c SubscriberEndpoint \<Rightarrow> 'c SubscriberEndpoint option" where
  "notifyLoop tp m [] t = Some t"
| "notifyLoop tp m (c # cs) t =
     (case map_of (se_subscribers t) c of
        None \<Rightarrow> notifyLoop tp m cs (sendTo c [Sent m] t)
      | Some None \<Rightarrow> Some t
      | Some (Some s) \<Rightarrow> Option.bind (notifySubscriber tp m c s t) (notifyLoop tp m cs))"

definition notifyClients :: "'c tparams \<Rightarrow> gmsg \<Rightarrow> 'c SubscriberEndpoint \<Rightarrow> 'c SubscriberEndpoint option" where
  "notifyClients tp m t = notifyLoop tp m (se_pool t) t"

text \<open>Events one after the other, each with the graph as it was when the listeners were called.\<close>

fun notifyRun :: "'c tparams \<Rightarrow> (gmsg \<times> 'c Graph) list \<Rightarrow> 'c SubscriberEndpoint \<Rightarrow> 'c SubscriberEndpoint option" where
  "notifyRun tp [] t = Some t"
| "notifyRun tp ((m, g) # evs) t = Option.bind (notifyClients tp m (t\<lparr>se_Graph := g\<rparr>)) (notifyRun tp evs)"

end
