(* ===== verification/Subscriber_Theorems.thy ===== *)
theory Subscriber_Theorems
  imports Subscriber
begin

text \<open>
  What subscribers are told: a client whose filter cuts out a subgraph knows exactly the elements its filter answers; a failed
  subscription silences other clients, and the filter that is the whole graph its own client.
\<close>

section \<open>What a client knows\<close>

text \<open>The identifiers of the nodes and edges a client has after the messages it was sent.\<close>

fun learn :: "sent \<Rightarrow> Identifier set \<times> Identifier set \<Rightarrow> Identifier set \<times> Identifier set" where
  "learn (Replied _ (ReplyElements ns es)) k = (ID ` set ns, ID ` set es)"
| "learn (Sent (NodeAddedMsg n)) (N, E) = (insert (ID n) N, E)"
| "learn (Sent (NodeDeletedMsg n)) (N, E) = (N - {ID n}, E)"
| "learn (Sent (EdgeAddedMsg e)) (N, E) = (N, insert (ID e) E)"
| "learn (Sent (EdgeDeletedMsg e)) (N, E) = (N, E - {ID e})"
| "learn _ k = k"

definition known :: "nat \<Rightarrow> (nat \<times> sent) list \<Rightarrow> Identifier set \<times> Identifier set" where
  "known c msgs = fold learn (map snd (filter (\<lambda>x. fst x = c) msgs)) ({}, {})"

definition idsOf :: "MemoryBackend Graph \<Rightarrow> Identifier set \<times> Identifier set" where
  "idsOf g = (dom (memNodeRefs (g_backend g)), dom (memEdgeRefs (g_backend g)))"

lemma known_send:
  "known c (se_sent (sendTo c ms t)) = fold learn ms (known c (se_sent t))"
  "d \<noteq> c \<Longrightarrow> known c (se_sent (sendTo d ms t)) = known c (se_sent t)"
  by (simp_all add: known_def sendTo_def comp_def)

lemma learn_lists:
  "fold learn (map Sent (map (\<lambda>n. NodeAddedMsg (h n)) ns)) (N, E) = (N \<union> (\<lambda>n. ID (h n)) ` set ns, E)"
  "fold learn (map Sent (map (\<lambda>n. NodeDeletedMsg (h n)) ns)) (N, E) = (N - (\<lambda>n. ID (h n)) ` set ns, E)"
  "fold learn (map Sent (map (\<lambda>e. EdgeAddedMsg (h' e)) es)) (N, E) = (N, E \<union> (\<lambda>e. ID (h' e)) ` set es)"
  "fold learn (map Sent (map (\<lambda>e. EdgeDeletedMsg (h' e)) es)) (N, E) = (N, E - (\<lambda>e. ID (h' e)) ` set es)"
  by (induction ns arbitrary: N, auto) (induction es arbitrary: E, auto)+

lemma learn_updates: "fold learn (map Sent (updateMsgs B g m)) k = k"
  by (cases k) (simp add: updateMsgs_def split: gmsg.split)

lemma learn_diff:
  assumes "graph_ok mem_inv memNodeRefs memEdgeRefs old" "graph_ok mem_inv memNodeRefs memEdgeRefs g"
  shows "fold learn (map Sent (diffMsgs memoryBackend old g)) (idsOf old) = idsOf g"
proof -
  obtain an rn ae re where d: "Graph_Diff memoryBackend old memoryBackend g = (an, rn, ae, re)" by (metis prod_cases4)
  from mem.Diff_live [OF assms d] show ?thesis
    by (auto simp: diffMsgs_def d idsOf_def learn_lists simp del: map_map)
qed

section \<open>Identifiers never change\<close>

definition keepsIds :: "world \<Rightarrow> world \<Rightarrow> bool" where
  "keepsIds w w' \<longleftrightarrow> h_next w \<le> h_next w' \<and>
     (\<forall>r < h_next w. ID (h_node w' r) = ID (h_node w r) \<and> ID (h_edge w' r) = ID (h_edge w r) \<and>
        Parent (h_edge w' r) = Parent (h_edge w r) \<and> Child (h_edge w' r) = Child (h_edge w r))"

lemma keepsIds_refl: "keepsIds w w"
  by (simp add: keepsIds_def)

lemma keepsIds_trans: "keepsIds w w1 \<Longrightarrow> keepsIds w1 w2 \<Longrightarrow> keepsIds w w2"
  by (force simp: keepsIds_def)

lemma keepsIds_env [simp]: "keepsIds w (w'\<lparr>h_env := env\<rparr>) = keepsIds w w'" "keepsIds (w\<lparr>h_env := env\<rparr>) w' = keepsIds w w'"
  by (simp_all add: keepsIds_def)

lemma graph_ok_later:
  assumes "graph_ok mem_inv memNodeRefs memEdgeRefs g" "keepsIds (g_world g) w"
  shows "graph_ok mem_inv memNodeRefs memEdgeRefs (g\<lparr>g_world := w\<rparr>)"
  using assms by (intro mem.graph_ok_world) (auto simp: same_ids_def keepsIds_def graph_ok_def)

text \<open>Every call keeps the identifiers of the objects it finds.\<close>

definition keeps :: "'b Graph \<Rightarrow> 'b outcome \<Rightarrow> bool" where
  "keeps g out \<longleftrightarrow> (\<forall>g' err. out = Some (g', err) \<longrightarrow> keepsIds (g_world g) (g_world g'))"

lemma keeps_same: "keepsIds (g_world g) (g_world g') \<Longrightarrow> keeps g (Some (g', err))"
  by (simp add: keeps_def)

lemma keeps_publish: "keepsIds (g_world g) (g_world g1) \<Longrightarrow> keeps g (publish f k x g1)"
  by (auto simp: keeps_def publish_def callBackend_def notify_def split: if_splits prod.splits)

lemma keeps_then:
  assumes "keeps g out" "\<And>g1. keeps g1 (f g1)"
  shows "keeps g (case out of None \<Rightarrow> None | Some (g, Some err) \<Rightarrow> Some (g, Some err) | Some (g, None) \<Rightarrow> f g)"
  using assms keepsIds_trans unfolding keeps_def by (fastforce split: option.splits)

lemma keepsIds_put:
  "ID n = ID (h_node w r) \<Longrightarrow> keepsIds w (put_node r n w)"
  "ID x = ID (h_edge w e) \<Longrightarrow> Parent x = Parent (h_edge w e) \<Longrightarrow> Child x = Child (h_edge w e) \<Longrightarrow> keepsIds w (put_edge e x w)"
  by (simp_all add: keepsIds_def put_node_def put_edge_def)

lemma keepsIds_new:
  "keepsIds w (put_node (h_next w) n w\<lparr>h_next := Suc (h_next w)\<rparr>)"
  "keepsIds w (put_edge (h_next w) x w\<lparr>h_next := Suc (h_next w)\<rparr>)"
  by (simp_all add: keepsIds_def put_node_def put_edge_def)

lemma keepsIds_revise: "keepsIds w (reviseElement md now x w)"
  by (cases x) (simp_all add: keepsIds_put revise_def)

lemma keeps_delEdges: "keeps g (delEdges B t es g)"
proof (induction es arbitrary: g)
  case (Cons e es)
  have "keeps g (Graph_delEdge B t e g)" unfolding Graph_delEdge_def by (rule keeps_publish) (simp add: keepsIds_put)
  then show ?case unfolding delEdges.simps by (rule keeps_then) (rule Cons.IH)
qed (simp add: keeps_same keepsIds_refl)

lemma keeps_delNode: "keeps g (Graph_delNode B t n g)"
  unfolding Graph_delNode_def by (rule keeps_then [OF keeps_delEdges]) (rule keeps_publish, simp add: keepsIds_put)

lemma keeps_delNodesLoop: "keeps g (delNodesLoop B t ns g)"
proof (induction ns arbitrary: g)
  case (Cons n ns)
  show ?case unfolding delNodesLoop.simps by (rule keeps_then [OF keeps_delNode]) (rule Cons.IH)
qed (simp add: keeps_same keepsIds_refl)

lemma keeps_unlinkLoop: "keeps g (unlinkLoop B now i es err g)"
proof (induction es arbitrary: g err)
  case (Cons e es)
  have "keeps g (Graph_DelEdge B now e g)" unfolding Graph_DelEdge_def Graph_delEdge_def
    by (rule keeps_publish) (simp add: keepsIds_put)
  then show ?case using Cons.IH keepsIds_trans unfolding keeps_def by (fastforce split: option.splits if_splits)
qed (simp add: keeps_same keepsIds_refl)

lemma keeps_drop: "keeps g out \<Longrightarrow> keeps g (dropResult (map_option (\<lambda>(g, err). (g, case err of Some x \<Rightarrow> Inl x | None \<Rightarrow> Inr v)) out))"
  by (auto simp: keeps_def dropResult_def)

lemma keeps_runOp: "keeps g (runOp u B op g)"
  by (cases op) (auto intro!: keeps_publish keeps_same keeps_drop keepsIds_put keepsIds_new simp: keeps_delNode keeps_delNodesLoop keeps_unlinkLoop
      Graph_AddNode_def Graph_AddEdge_def Graph_NodeAdded_def Graph_EdgeAdded_def Graph_NewNode_def Graph_NewEdge_def Graph_Link_def
      Graph_Unlink_def Graph_DelEdge_def Graph_delEdge_def Graph_EdgeDeleted_def Graph_DelNode_def Graph_NodeDeleted_def
      Graph_DelNodes_def Graph_NodeUpdated_def Graph_EdgeUpdated_def Graph_SetMetadata_def Graph_DelMetadata_def
      Graph_AddMetadata_def Graph_addMetadata_def Transaction_Commit_def Graph_UpdateMetadata_def publishRevision_def Let_def
      new_node_def new_edge_def case_prod_beta keepsIds_refl keepsIds_revise split: option.split sum.split)

section \<open>One notification\<close>

definition withEnv :: "regex_env \<Rightarrow> 'c Graph \<Rightarrow> 'c Graph" where
  "withEnv env g = g\<lparr>g_world := (g_world g)\<lparr>h_env := env\<rparr>\<rparr>"

lemma withEnv_twice [simp]: "withEnv env (withEnv env' g) = withEnv env g" "withEnv (h_env (g_world g)) g = g"
  by (simp_all add: withEnv_def)

lemma keepEnv_withEnv: "keepEnv g' g = withEnv (h_env (g_world g')) g"
  by (simp add: keepEnv_def withEnv_def)

definition upToEnv :: "'c Graph \<Rightarrow> 'c Graph \<Rightarrow> bool" where
  "upToEnv g g' \<longleftrightarrow> (\<exists>env. g' = withEnv env g)"

lemma upToEnv_simps [simp]: "upToEnv g g" "upToEnv g (withEnv env g)"
  unfolding upToEnv_def by (metis withEnv_twice(2)) blast

lemma upToEnv_trans: "upToEnv g g1 \<Longrightarrow> upToEnv g1 g2 \<Longrightarrow> upToEnv g g2"
  by (auto simp: upToEnv_def)

text \<open>The same graph, with a cache of expressions that may have grown.\<close>

definition upToCache :: "'c Graph \<Rightarrow> 'c Graph \<Rightarrow> bool" where
  "upToCache g g' \<longleftrightarrow> g' = withEnv (h_env (g_world g')) g \<and> cachesMore (h_env (g_world g)) (h_env (g_world g'))"

lemma upToCache_refl [simp]: "upToCache g g"
  by (simp add: upToCache_def)

lemma upToCache_env: "upToCache g (withEnv env g) = cachesMore (h_env (g_world g)) env"
  by (simp add: upToCache_def withEnv_def)

lemma upToCache_trans: "upToCache g g1 \<Longrightarrow> upToCache g1 g2 \<Longrightarrow> upToCache g g2"
  unfolding upToCache_def using cachesMore_trans by (metis withEnv_twice(1))

text \<open>Nothing has happened to a client but that the cache may have grown.\<close>

definition untouched :: "nat \<Rightarrow> 'c SubscriberEndpoint \<Rightarrow> 'c SubscriberEndpoint \<Rightarrow> bool" where
  "untouched c t t' \<longleftrightarrow> upToEnv (se_Graph t) (se_Graph t') \<and> map_of (se_subscribers t') c = map_of (se_subscribers t) c \<and>
     filter (\<lambda>x. fst x = c) (se_sent t') = filter (\<lambda>x. fst x = c) (se_sent t)"

lemma untouched_refl: "untouched c t t"
  by (simp add: untouched_def)

lemma untouched_trans: "untouched c t t1 \<Longrightarrow> untouched c t1 t2 \<Longrightarrow> untouched c t t2"
  using upToEnv_trans by (fastforce simp: untouched_def)

lemma untouched_known: "untouched c t t' \<Longrightarrow> known c (se_sent t') = known c (se_sent t)"
  by (simp add: untouched_def known_def)

lemma untouched_send: "d \<noteq> c \<Longrightarrow> untouched c t (sendTo d ms t)"
  using untouched_refl [of c t] by (simp add: untouched_def sendTo_def comp_def)

lemma notifySubscriber_cases:
  assumes "notifySubscriber tp m c s t = Some t'"
  obtains (fails) ts' err where "getGraph tp (sub_gremlinFilter s) (sub_ts s) (se_Graph t) = Some (ts', Inl err)"
      "t' = setSubscriber c (Some (s\<lparr>sub_ts := ts'\<rparr>)) t"
    | (answers) ts' g where "getGraph tp (sub_gremlinFilter s) (sub_ts s) (se_Graph t) = Some (ts', Inr g)"
      "t' = setSubscriber c (Some (s\<lparr>sub_ts := ts', sub_graph := g\<rparr>))
        (sendTo c (map Sent (diffMsgs (tp_backend tp) (seenNow (se_Graph t) s) g @ updateMsgs (tp_backend tp) g m))
          (t\<lparr>se_Graph := withEnv (h_env (g_world g)) (se_Graph t)\<rparr>))"
proof -
  obtain ts' res where run: "getGraph tp (sub_gremlinFilter s) (sub_ts s) (se_Graph t) = Some (ts', res)"
    using assms by (auto simp: notifySubscriber_def)
  show thesis using that assms run by (cases res) (auto simp: notifySubscriber_def keepEnv_withEnv)
qed

lemma untouched_other:
  assumes "notifySubscriber tp m d s t = Some t'" "d \<noteq> c"
  shows "untouched c t t'"
  using assms(1)
proof (cases rule: notifySubscriber_cases)
  case fails
  then show ?thesis using assms(2) untouched_refl [of c t] by (simp add: untouched_def setSubscriber_def)
next
  case answers
  then show ?thesis using assms(2) by (auto simp: untouched_def setSubscriber_def sendTo_def comp_def)
qed

lemma notifyLoop_other: "notifyLoop tp m cs t = Some t' \<Longrightarrow> c \<notin> set cs \<Longrightarrow> untouched c t t'"
proof (induction cs arbitrary: t)
  case (Cons d cs)
  then have d: "d \<noteq> c" "c \<notin> set cs" by auto
  show ?case
  proof (cases "map_of (se_subscribers t) d")
    case None
    then have "untouched c (sendTo d [Sent m] t) t'" using Cons.IH Cons.prems(1) d by simp
    with untouched_send [OF d(1), of t] show ?thesis using untouched_trans by blast
  next
    case (Some s)
    then show ?thesis
    proof (cases s)
      case None
      then show ?thesis using Some Cons.prems(1) untouched_refl by simp
    next
      case (Some s')
      with \<open>map_of (se_subscribers t) d = Some s\<close> Cons.prems(1) obtain t1 where
        t1: "notifySubscriber tp m d s' t = Some t1" "notifyLoop tp m cs t1 = Some t'" by (auto simp: bind_eq_Some_conv)
      show ?thesis using untouched_trans [OF untouched_other [OF t1(1) d(1)] Cons.IH [OF t1(2) d(2)]] .
    qed
  qed
qed (simp add: untouched_refl)

lemma notifyLoop_reaches:
  assumes "notifyLoop tp m cs t = Some t'" "c \<in> set cs" "distinct cs" "map_of (se_subscribers t) c = Some (Some s)"
    and "\<forall>d \<in> set cs. map_of (se_subscribers t) d \<noteq> Some None"
    and kept: "\<And>d s t t'. P (se_Graph t) \<Longrightarrow> notifySubscriber tp m d s t = Some t' \<Longrightarrow> P (se_Graph t')" and "P (se_Graph t)"
  shows "\<exists>t1 t2. untouched c t t1 \<and> P (se_Graph t1) \<and> notifySubscriber tp m c s t1 = Some t2 \<and> untouched c t2 t'"
  using assms(1-5,7)
proof (induction cs arbitrary: t)
  case (Cons d cs)
  show ?case
  proof (cases "d = c")
    case True
    with Cons.prems obtain t2 where "notifySubscriber tp m c s t = Some t2" "notifyLoop tp m cs t2 = Some t'"
      by (auto simp: bind_eq_Some_conv)
    then show ?thesis using True Cons.prems(3,6) notifyLoop_other [of tp m cs t2 t' c] untouched_refl [of c t] by auto
  next
    case False
    then have c: "c \<in> set cs" using Cons.prems(2) by simp
    obtain t1 where t1: "untouched c t t1" "notifyLoop tp m cs t1 = Some t'"
      "\<forall>x \<in> set cs. map_of (se_subscribers t1) x = map_of (se_subscribers t) x" "P (se_Graph t1)"
    proof (cases "map_of (se_subscribers t) d")
      case None
      then show thesis using that [OF untouched_send [OF False, of t "[Sent m]"]] Cons.prems(1,6) by (simp add: sendTo_def)
    next
      case (Some s1)
      with Cons.prems(5) obtain s2 where "s1 = Some s2" by (cases s1) auto
      with Some Cons.prems(1) obtain t1 where run: "notifySubscriber tp m d s2 t = Some t1" "notifyLoop tp m cs t1 = Some t'"
        by (auto simp: bind_eq_Some_conv)
      have "d \<noteq> x" if "x \<in> set cs" for x using that Cons.prems(3) by auto
      then have "\<forall>x \<in> set cs. map_of (se_subscribers t1) x = map_of (se_subscribers t) x"
        using untouched_other [OF run(1)] by (simp add: untouched_def)
      then show thesis by (rule that [OF untouched_other [OF run(1) False] run(2)]) (rule kept [OF Cons.prems(6) run(1)])
    qed
    moreover have "map_of (se_subscribers t1) c = Some (Some s)" using t1(3) c Cons.prems(4) by simp
    ultimately obtain t2 t3 where "untouched c t1 t2" "P (se_Graph t2)" "notifySubscriber tp m c s t2 = Some t3" "untouched c t3 t'"
      using Cons.IH [OF t1(2) c _ _ _ t1(4)] Cons.prems(3,5) t1(3) by auto
    then show ?thesis using t1(1) untouched_trans by blast
  qed
qed simp

lemma notifySubscriber_keeps:
  assumes "notifySubscriber tp m c s t = Some t'"
  shows "se_pool t' = se_pool t \<and> upToEnv (se_Graph t) (se_Graph t') \<and>
    (map_of (se_subscribers t) d \<noteq> Some None \<longrightarrow> map_of (se_subscribers t') d \<noteq> Some None)"
  using assms by (cases rule: notifySubscriber_cases) (simp_all add: setSubscriber_def sendTo_def)

lemma notifyLoop_keeps:
  assumes "notifyLoop tp m cs t = Some t'"
  shows "se_pool t' = se_pool t \<and> upToEnv (se_Graph t) (se_Graph t') \<and>
    (map_of (se_subscribers t) d \<noteq> Some None \<longrightarrow> map_of (se_subscribers t') d \<noteq> Some None)"
  using assms
proof (induction cs arbitrary: t)
  case (Cons c cs)
  show ?case
  proof (cases "map_of (se_subscribers t) c")
    case None
    then have "notifyLoop tp m cs (sendTo c [Sent m] t) = Some t'" using Cons.prems by simp
    from Cons.IH [OF this] show ?thesis by (simp add: sendTo_def)
  next
    case (Some s)
    show ?thesis
    proof (cases s)
      case None
      then show ?thesis using Some Cons.prems by simp
    next
      case (Some s')
      with \<open>map_of (se_subscribers t) c = Some s\<close> Cons.prems obtain t1 where
        t1: "notifySubscriber tp m c s' t = Some t1" "notifyLoop tp m cs t1 = Some t'" by (auto simp: bind_eq_Some_conv)
      from Cons.IH [OF t1(2)] notifySubscriber_keeps [OF t1(1), of d] show ?thesis using upToEnv_trans by (metis (no_types))
    qed
  qed
qed simp

section \<open>The view of a client\<close>

text \<open>The client has the identifiers of the graph of its subscription, which is its own.\<close>

definition ownView :: "nat \<Rightarrow> MemoryBackend subscriber \<Rightarrow> MemoryBackend SubscriberEndpoint \<Rightarrow> bool" where
  "ownView c s t \<longleftrightarrow> map_of (se_subscribers t) c = Some (Some s) \<and> \<not> sub_shared s \<and>
     graph_ok mem_inv memNodeRefs memEdgeRefs (sub_graph s) \<and> keepsIds (g_world (sub_graph s)) (g_world (se_Graph t)) \<and>
     known c (se_sent t) = idsOf (sub_graph s)"

text \<open>The filter of a client runs on one graph after the other, each with the steps the last run left and a cache of expressions that
  other clients may have added to.  The view is the answer of the last run that had one.\<close>

inductive filterRuns ::
  "'c tparams \<Rightarrow> string \<Rightarrow> 'c Graph list \<Rightarrow> GremlinStep list \<Rightarrow> 'c Graph \<Rightarrow> GremlinStep list \<Rightarrow> 'c Graph \<Rightarrow> bool" for tp f where
  none: "filterRuns tp f [] ts view ts view"
| fails: "upToCache g g' \<Longrightarrow> getGraph tp f ts g' = Some (ts1, Inl err) \<Longrightarrow> filterRuns tp f gs ts1 view ts2 view2 \<Longrightarrow>
     filterRuns tp f (g # gs) ts view ts2 view2"
| answers: "upToCache g g' \<Longrightarrow> getGraph tp f ts g' = Some (ts1, Inr view1) \<Longrightarrow> filterRuns tp f gs ts1 view1 ts2 view2 \<Longrightarrow>
     filterRuns tp f (g # gs) ts view ts2 view2"

definition ranOn :: "'c tparams \<Rightarrow> 'c Graph list \<Rightarrow> 'c subscriber \<Rightarrow> 'c subscriber \<Rightarrow> bool" where
  "ranOn tp gs s s' \<longleftrightarrow> sub_gremlinFilter s' = sub_gremlinFilter s \<and>
     filterRuns tp (sub_gremlinFilter s) gs (sub_ts s) (sub_graph s) (sub_ts s') (sub_graph s')"

lemma filterRuns_append:
  "filterRuns tp f gs ts view ts1 view1 \<Longrightarrow> filterRuns tp f gs' ts1 view1 ts2 view2 \<Longrightarrow> filterRuns tp f (gs @ gs') ts view ts2 view2"
  by (induction rule: filterRuns.induct) (auto intro: filterRuns.intros)

inductive_cases filterRuns_oneE: "filterRuns tp f [g] ts view ts' view'"

inductive_cases filterRuns_noneE: "filterRuns tp f [] ts view ts' view'"

lemma ranOn_Cons: "ranOn tp [g] s s1 \<Longrightarrow> ranOn tp gs s1 s2 \<Longrightarrow> ranOn tp (g # gs) s s2"
  unfolding ranOn_def using filterRuns_append [of tp "sub_gremlinFilter s" "[g]"] by fastforce

lemma ranOn_cache: "ranOn tp [g'] s s' \<Longrightarrow> upToCache g g' \<Longrightarrow> ranOn tp [g] s s'"
  unfolding ranOn_def using filterRuns.fails [OF upToCache_trans _ filterRuns.none] filterRuns.answers [OF upToCache_trans _ filterRuns.none]
  by (auto elim!: filterRuns_oneE filterRuns_noneE)

lemma getGraph_answer:
  assumes "getGraph tp q ts g = Some (ts', Inr g')"
  obtains tv where "Sequence_Exec tp ts g = Some (ts', Inr (TG tv))" "g' = tr_Graph tv"
proof -
  from assms obtain res where res: "Sequence_Exec tp ts g = Some (ts', res)" by (auto simp: getGraph_def)
  show thesis
  proof (cases res)
    case (Inr r)
    then show thesis using assms res that by (cases r) (auto simp: getGraph_def)
  qed (use assms res in \<open>simp add: getGraph_def\<close>)
qed

lemma getGraph_part:
  assumes tp: "memParams tp" and ok: "graph_ok mem_inv memNodeRefs memEdgeRefs g" and run: "getGraph tp q ts g = Some (ts', Inr g')"
  shows "graph_ok mem_inv memNodeRefs memEdgeRefs g'" "\<exists>env. cachesMore (h_env (g_world g)) env \<and> g_world g' = (g_world g)\<lparr>h_env := env\<rparr>"
proof -
  from run obtain tv where tv: "Sequence_Exec tp ts g = Some (ts', Inr (TG tv))" "g' = tr_Graph tv"
    by (rule getGraph_answer)
  have "answerOk g (TG (NewGraphTraversal g))"
    using ok by (auto simp: partOf_def NewGraphTraversal_def intro!: exI [of _ "h_env (g_world g)"])
  from execLoop_answers [OF tp this] tv(1) have "partOf g tv" by (fastforce simp: Sequence_Exec_def)
  with tv(2) show "graph_ok mem_inv memNodeRefs memEdgeRefs g'" "\<exists>env. cachesMore (h_env (g_world g)) env \<and> g_world g' = (g_world g)\<lparr>h_env := env\<rparr>"
    by (simp_all add: partOf_def)
qed

lemma graph_ok_env: "graph_ok mem_inv memNodeRefs memEdgeRefs g \<Longrightarrow> upToEnv g g' \<Longrightarrow> graph_ok mem_inv memNodeRefs memEdgeRefs g'"
  using graph_ok_later [of g] by (auto simp: upToEnv_def withEnv_def keepsIds_refl)

lemma upToEnv_world: "upToEnv g g' \<Longrightarrow> keepsIds w (g_world g') = keepsIds w (g_world g)"
  by (auto simp: upToEnv_def withEnv_def)

lemma notify_own:
  assumes tp: "memParams tp" and ok: "graph_ok mem_inv memNodeRefs memEdgeRefs (se_Graph t)" and view: "ownView c s t"
    and run: "notifySubscriber tp m c s t = Some t'"
  shows "\<exists>s'. ownView c s' t' \<and> ranOn tp [se_Graph t] s s'"
  using run
proof (cases rule: notifySubscriber_cases)
  case (fails ts' err)
  have "ranOn tp [se_Graph t] s (s\<lparr>sub_ts := ts'\<rparr>)"
    unfolding ranOn_def using filterRuns.fails [OF upToCache_refl fails(1) filterRuns.none] by simp
  then show ?thesis using view fails(2) by (auto simp: ownView_def setSubscriber_def)
next
  case (answers ts' g)
  let ?s = "s\<lparr>sub_ts := ts', sub_graph := g\<rparr>" and ?old = "seenNow (se_Graph t) s"
  have B: "tp_backend tp = memoryBackend" using tp by (simp add: memParams_def)
  note g = getGraph_part [OF tp ok answers(1)]
  have old: "graph_ok mem_inv memNodeRefs memEdgeRefs ?old" "idsOf ?old = idsOf (sub_graph s)"
    using view graph_ok_later [of "sub_graph s" "g_world (se_Graph t)"] by (simp_all add: ownView_def seenNow_def idsOf_def)
  have "known c (se_sent t') = fold learn (map Sent (diffMsgs memoryBackend ?old g @ updateMsgs memoryBackend g m)) (known c (se_sent t))"
    unfolding answers(2) by (simp add: setSubscriber_def sendTo_def known_def B comp_def)
  also have "\<dots> = idsOf g" using view learn_diff [OF old(1) g(1)] old(2) by (simp add: ownView_def learn_updates)
  finally have "ownView c ?s t'" using view g answers(2)
    by (auto simp: ownView_def setSubscriber_def sendTo_def withEnv_def keepsIds_refl)
  moreover have "ranOn tp [se_Graph t] s ?s"
    unfolding ranOn_def using filterRuns.answers [OF upToCache_refl answers(1) filterRuns.none] by simp
  ultimately show ?thesis by blast
qed

lemma ownView_untouched: "ownView c s t \<Longrightarrow> untouched c t t' \<Longrightarrow> ownView c s t'"
  using untouched_known [of c t t'] upToEnv_world by (fastforce simp: ownView_def untouched_def)

lemma notifySubscriber_cache:
  assumes tp: "memParams tp" and run: "notifySubscriber tp m c s t = Some t'"
    and ok: "graph_ok mem_inv memNodeRefs memEdgeRefs (se_Graph t)"
  shows "upToCache (se_Graph t) (se_Graph t')" "graph_ok mem_inv memNodeRefs memEdgeRefs (se_Graph t')"
proof -
  show "upToCache (se_Graph t) (se_Graph t')" using run
  proof (cases rule: notifySubscriber_cases)
    case (answers ts' g)
    with getGraph_part(2) [OF tp ok answers(1)] show ?thesis by (auto simp: setSubscriber_def sendTo_def upToCache_env)
  qed (simp add: setSubscriber_def)
  then show "graph_ok mem_inv memNodeRefs memEdgeRefs (se_Graph t')"
    using graph_ok_env [OF ok] by (auto simp: upToCache_def upToEnv_def)
qed

lemma notify_follows:
  assumes tp: "memParams tp" and ok: "graph_ok mem_inv memNodeRefs memEdgeRefs (se_Graph t)" and view: "ownView c s t"
    and pool: "distinct (se_pool t)" "c \<in> set (se_pool t)" "\<forall>d \<in> set (se_pool t). map_of (se_subscribers t) d \<noteq> Some None"
    and run: "notifyClients tp m t = Some t'"
  shows "\<exists>s'. ownView c s' t' \<and> ranOn tp [se_Graph t] s s'"
proof -
  have "map_of (se_subscribers t) c = Some (Some s)" using view by (simp add: ownView_def)
  from notifyLoop_reaches [where P = "\<lambda>g. upToCache (se_Graph t) g \<and> graph_ok mem_inv memNodeRefs memEdgeRefs g",
      OF run [unfolded notifyClients_def] pool(2,1) this pool(3)] notifySubscriber_cache [OF tp] ok obtain t1 t2 where
    t1: "untouched c t t1" "upToCache (se_Graph t) (se_Graph t1)" "graph_ok mem_inv memNodeRefs memEdgeRefs (se_Graph t1)"
      "notifySubscriber tp m c s t1 = Some t2" "untouched c t2 t'" using upToCache_trans by (metis (no_types, lifting) upToCache_refl)
  from notify_own [OF tp t1(3) ownView_untouched [OF view t1(1)] t1(4)] obtain s' where
    "ownView c s' t2" "ranOn tp [se_Graph t1] s s'" by blast
  then show ?thesis using ownView_untouched [OF _ t1(5)] ranOn_cache [OF _ t1(2)] by blast
qed

text \<open>The graphs of the events, each later than the one before.\<close>

fun laterGraphs :: "world \<Rightarrow> MemoryBackend Graph list \<Rightarrow> bool" where
  "laterGraphs w [] = True"
| "laterGraphs w (g # gs) = (graph_ok mem_inv memNodeRefs memEdgeRefs g \<and> keepsIds w (g_world g) \<and> laterGraphs (g_world g) gs)"

lemma laterGraphs_env [simp]: "laterGraphs (w\<lparr>h_env := env\<rparr>) gs = laterGraphs w gs"
  by (cases gs) simp_all

lemma run_follows:
  assumes tp: "memParams tp" and view: "ownView c s t" and later: "laterGraphs (g_world (se_Graph t)) (map snd evs)"
    and pool: "distinct (se_pool t)" "c \<in> set (se_pool t)" "\<forall>d \<in> set (se_pool t). map_of (se_subscribers t) d \<noteq> Some None"
    and run: "notifyRun tp evs t = Some t'"
  shows "\<exists>s'. ownView c s' t' \<and> ranOn tp (map snd evs) s s'"
  using view later pool run
proof (induction evs arbitrary: s t)
  case (Cons ev evs)
  obtain m g where ev: "ev = (m, g)" by fastforce
  let ?t = "t\<lparr>se_Graph := g\<rparr>"
  obtain t1 where t1: "notifyClients tp m ?t = Some t1" "notifyRun tp evs t1 = Some t'"
    using Cons.prems(6) by (auto simp: ev bind_eq_Some_conv)
  have g: "graph_ok mem_inv memNodeRefs memEdgeRefs g" "keepsIds (g_world (se_Graph t)) (g_world g)" "laterGraphs (g_world g) (map snd evs)"
    using Cons.prems(2) by (simp_all add: ev)
  have "ownView c s ?t" using Cons.prems(1) g(2) keepsIds_trans by (fastforce simp: ownView_def)
  from notify_follows [OF tp _ this _ _ _ t1(1)] obtain s1 where s1: "ownView c s1 t1" "ranOn tp [g] s s1"
    using g(1) Cons.prems(3-5) by auto
  note keeps = notifyLoop_keeps [OF t1(1) [unfolded notifyClients_def]]
  have "laterGraphs (g_world (se_Graph t1)) (map snd evs)" using keeps [of 0] g(3) by (auto simp: upToEnv_def withEnv_def)
  then obtain s' where "ownView c s' t'" "ranOn tp (map snd evs) s1 s'"
    using Cons.IH [OF s1(1) _ _ _ _ t1(2)] keeps Cons.prems(3-5) by auto
  then show ?case using ranOn_Cons [OF s1(2)] by (auto simp: ev)
qed (auto simp: ranOn_def intro: filterRuns.none)

section \<open>Subscribing\<close>

lemma elements_ids:
  assumes ok: "graph_ok mem_inv memNodeRefs memEdgeRefs g" and sort: "\<forall>less xs. set (sorter less xs) = set xs"
    and "Graph_Elements sorter memoryBackend g = (ns, es)"
  shows "(ID ` set ns, ID ` set es) = idsOf g"
  using assms(3) sort unfolding idsOf_def mem.node_ids_live [OF ok, symmetric]
  by (auto simp: Graph_Elements_def SortEdges_def image_image)

lemma newSubscriber_graph:
  assumes tp: "memParams tp" and ok: "graph_ok mem_inv memNodeRefs memEdgeRefs g" and new: "newSubscriber tp host f g = Some (Inr s)"
  shows "graph_ok mem_inv memNodeRefs memEdgeRefs (sub_graph s)" "\<exists>env. g_world (sub_graph s) = (g_world g)\<lparr>h_env := env\<rparr>"
    "\<exists>ts. Parse f = Some (Inr ts) \<and> getGraph tp f ts g = Some (sub_ts s, Inr (sub_graph s)) \<and> sub_shared s = sharesGraph ts"
    "sub_gremlinFilter s = f"
proof -
  from new obtain r where r: "Parse f = Some r" by (auto simp: newSubscriber_def bind_eq_Some_conv)
  with new obtain ts where ts: "r = Inr ts" by (cases r) (auto simp: newSubscriber_def)
  with r new obtain ts' res where run: "getGraph tp f ts g = Some (ts', res)" by (auto simp: newSubscriber_def)
  with r ts new obtain g' where g': "res = Inr g'" "s = \<lparr>sub_graph = g', sub_shared = sharesGraph ts, sub_gremlinFilter = f, sub_ts = ts'\<rparr>"
    by (cases res) (auto simp: newSubscriber_def)
  with getGraph_part [OF tp ok, of f ts ts' g'] run show "graph_ok mem_inv memNodeRefs memEdgeRefs (sub_graph s)"
    "\<exists>env. g_world (sub_graph s) = (g_world g)\<lparr>h_env := env\<rparr>" by auto
  show "\<exists>ts. Parse f = Some (Inr ts) \<and> getGraph tp f ts g = Some (sub_ts s, Inr (sub_graph s)) \<and> sub_shared s = sharesGraph ts"
    "sub_gremlinFilter s = f" using r ts run g' by simp_all
qed

lemma subscribe_view:
  assumes tp: "memParams tp" and sort: "\<forall>less xs. set (sorter less xs) = set xs"
    and ok: "graph_ok mem_inv memNodeRefs memEdgeRefs (se_Graph t)" and ctx: "ctxTimeSlice ctx = None" and f: "f \<noteq> []"
    and run: "syncRequest tp sorter c sp ctx (Some f) t = Some t1"
    and parsed: "Parse f = Some (Inr ts)" "\<not> sharesGraph ts" and sub: "map_of (se_subscribers t1) c = Some (Some s)"
  shows "ownView c s t1" "se_pool t1 = se_pool t" "\<And>gs. laterGraphs (g_world (se_Graph t1)) gs = laterGraphs (g_world (se_Graph t)) gs"
    "\<And>d. d \<noteq> c \<Longrightarrow> map_of (se_subscribers t1) d = map_of (se_subscribers t) d"
    "getGraph tp f ts (se_Graph t) = Some (sub_ts s, Inr (sub_graph s))" "sub_gremlinFilter s = f"
proof -
  have B: "tp_backend tp = memoryBackend" using tp by (simp add: memParams_def)
  from run f ctx obtain r where r: "newSubscriber tp (sp_RemoteHost sp) f (se_Graph t) = Some r"
    by (auto simp: CloneWithContext_def Let_def)
  with run f ctx sub have "\<exists>s0. r = Inr s0" by (cases r) (auto simp: CloneWithContext_def Let_def setSubscriber_def sendTo_def)
  then obtain s0 where s0: "r = Inr s0" ..
  have t1: "t1 = replyGraph sorter memoryBackend c (sub_graph s0)
      (setSubscriber c (Some s0) (t\<lparr>se_Graph := withEnv (h_env (g_world (sub_graph s0))) (se_Graph t)\<rparr>))"
    using run f ctx r s0 by (simp add: CloneWithContext_def Let_def B keepEnv_withEnv)
  then have s: "s0 = s" using sub by (simp add: replyGraph_def setSubscriber_def sendTo_def)
  note g = newSubscriber_graph [OF tp ok r [unfolded s0 s]]
  from g(3) parsed show first: "getGraph tp f ts (se_Graph t) = Some (sub_ts s, Inr (sub_graph s))" by simp
  have "\<not> sub_shared s" using g(3) parsed by simp
  obtain ns es where el: "Graph_Elements sorter memoryBackend (sub_graph s) = (ns, es)" by fastforce
  have "known c (se_sent t1) = idsOf (sub_graph s)"
    using elements_ids [OF g(1) sort el] unfolding t1 s by (simp add: replyGraph_def known_send el)
  with \<open>\<not> sub_shared s\<close> show "ownView c s t1" using g(1,2) sub unfolding t1 s
    by (auto simp: ownView_def replyGraph_def setSubscriber_def sendTo_def withEnv_def keepsIds_refl)
  show "se_pool t1 = se_pool t" "\<And>gs. laterGraphs (g_world (se_Graph t1)) gs = laterGraphs (g_world (se_Graph t)) gs"
    "\<And>d. d \<noteq> c \<Longrightarrow> map_of (se_subscribers t1) d = map_of (se_subscribers t) d"
    unfolding t1 by (simp_all add: replyGraph_def setSubscriber_def sendTo_def withEnv_def)
  show "sub_gremlinFilter s = f" by (rule g(4))
qed

section \<open>Properties\<close>

text \<open>C5: A client that subscribes with a filter that has a \<^verbatim>\<open>SubGraph\<close> step, so that its answer is a graph of its own, has after
  the reply and the messages of any number of events exactly the nodes and edges that its own filter answered in the last run that had
  an answer: the filter ran when the client subscribed and then once for every event, in order, on the graph of that event.  This holds
  whatever happened to the graph in between and whatever other clients have subscribed to, as long as no client of the pool has a
  failed subscription, and without a time slice.\<close>

theorem subscriber_follows:
  assumes tp: "tp_backend tp = memoryBackend" "tp_memory tp = (\<lambda>m. m)" "\<forall>less xs. set (tp_sort tp less xs) = set xs"
    and sort: "\<forall>less xs. set (sorter less xs) = set xs"
    and ok: "graph_ok mem_inv memNodeRefs memEdgeRefs (se_Graph t)" and ctx: "ctxTimeSlice ctx = None" and f: "f \<noteq> []"
    and filter: "Parse f = Some (Inr ts)" "\<exists>step \<in> set ts. kind step = StepSubGraph"
    and subscribed: "syncRequest tp sorter c sp ctx (Some f) t = Some t1" "map_of (se_subscribers t1) c = Some (Some s)"
    and pool: "distinct (se_pool t)" "c \<in> set (se_pool t)" "\<forall>d \<in> set (se_pool t) - {c}. map_of (se_subscribers t) d \<noteq> Some None"
    and events: "laterGraphs (g_world (se_Graph t)) (map snd evs)" "notifyRun tp evs t1 = Some t2"
  shows "\<exists>ts0 first ts' view. getGraph tp f ts (se_Graph t) = Some (ts0, Inr first) \<and>
    filterRuns tp f (map snd evs) ts0 first ts' view \<and> known c (se_sent t2) = idsOf view"
proof -
  have mp: "memParams tp" using tp by (simp add: memParams_def)
  have own: "\<not> sharesGraph ts" using filter(2) by (simp add: sharesGraph_def list_all_iff)
  note view = subscribe_view [OF mp sort ok ctx f subscribed(1) filter(1) own subscribed(2)]
  have "\<forall>d \<in> set (se_pool t). map_of (se_subscribers t1) d \<noteq> Some None"
    using pool(3) subscribed(2) view(4) by (metis Diff_iff option.distinct(1) option.inject singletonD)
  with run_follows [OF mp view(1) _ _ _ _ events(2)] view(2,3) pool(1,2) events(1) obtain s' where
    "ownView c s' t2" "ranOn tp (map snd evs) s s'" by auto
  then show ?thesis using view(5,6) by (auto simp: ownView_def ranOn_def)
qed

text \<open>The client 7 subscribes to all edges with their nodes; then a node is deleted.\<close>

definition subEndpoint :: "MemoryBackend SubscriberEndpoint" where
  "subEndpoint = NewSubscriberEndpoint [7, 8] 0 linkedGraph"

definition uiSpeaker :: Speaker where
  "uiSpeaker = \<lparr>sp_ServiceType = ''webui'', sp_RemoteHost = ''ui'', sp_Headers = []\<rparr>"

definition subscribed :: "MemoryBackend SubscriberEndpoint" where
  "subscribed = the (syncRequest sampleParams (\<lambda>less xs. xs) 7 uiSpeaker liveContext (Some ''G.E().SubGraph()'') subEndpoint)"

definition shrunkGraph :: "MemoryBackend Graph" where
  "shrunkGraph = fst (the (runOp (\<lambda>s. s) memoryBackend (DelNodeOp 11 0) linkedGraph))"

definition shrinking :: "(gmsg \<times> MemoryBackend Graph) list" where
  "shrinking =
     [(EdgeDeletedMsg (h_edge (g_world shrunkGraph) 3), shrunkGraph), (NodeDeletedMsg (h_node (g_world shrunkGraph) 0), shrunkGraph)]"

lemma shrunk_run: "\<exists>err. runOp (\<lambda>s. s) memoryBackend (DelNodeOp 11 0) linkedGraph = Some (shrunkGraph, err)"
  "graph_ok mem_inv memNodeRefs memEdgeRefs shrunkGraph"
proof -
  have "callOk memNodeRefs memEdgeRefs linkedGraph (DelNodeOp 11 0)" by code_simp
  from mem.runOp_step [OF linkedGraph_ok this, of "\<lambda>s. s"]
  show "\<exists>err. runOp (\<lambda>s. s) memoryBackend (DelNodeOp 11 0) linkedGraph = Some (shrunkGraph, err)"
    "graph_ok mem_inv memNodeRefs memEdgeRefs shrunkGraph" by (auto simp: okStep_def shrunkGraph_def)
qed

theorem subscriber_follows_witness:
  "\<exists>t2 ts ts' first view. notifyRun sampleParams shrinking subscribed = Some t2 \<and>
    filterRuns sampleParams ''G.E().SubGraph()'' [shrunkGraph, shrunkGraph] ts first ts' view \<and>
    known 7 (se_sent t2) = idsOf view \<and> idsOf view = ({''b'', ''c''}, {''bc''})"
proof -
  let ?f = "''G.E().SubGraph()''"
  have "case notifyRun sampleParams shrinking subscribed of None \<Rightarrow> False | Some t2 \<Rightarrow> known 7 (se_sent t2) = ({''b'', ''c''}, {''bc''})"
    by code_simp
  then obtain t2 where t2: "notifyRun sampleParams shrinking subscribed = Some t2" "known 7 (se_sent t2) = ({''b'', ''c''}, {''bc''})"
    by (auto split: option.splits)
  have "case Parse ?f of Some (Inr ts) \<Rightarrow> \<exists>step \<in> set ts. kind step = StepSubGraph | _ \<Rightarrow> False" by code_simp
  then obtain ts where ts: "Parse ?f = Some (Inr ts)" "\<exists>step \<in> set ts. kind step = StepSubGraph"
    by (auto split: option.splits sum.splits)
  have "case map_of (se_subscribers subscribed) 7 of Some (Some s) \<Rightarrow> True | _ \<Rightarrow> False" by code_simp
  then obtain s where s: "map_of (se_subscribers subscribed) 7 = Some (Some s)" by (auto split: option.splits)
  have "case syncRequest sampleParams (\<lambda>less xs. xs) 7 uiSpeaker liveContext (Some ?f) subEndpoint of None \<Rightarrow> False | Some t \<Rightarrow> True"
    by code_simp
  then have run: "syncRequest sampleParams (\<lambda>less xs. xs) 7 uiSpeaker liveContext (Some ?f) subEndpoint = Some subscribed"
    by (auto simp: subscribed_def split: option.splits)
  have "keepsIds (g_world linkedGraph) (g_world shrunkGraph)"
    using shrunk_run(1) keeps_runOp [of linkedGraph "\<lambda>s. s" memoryBackend "DelNodeOp 11 0"] by (auto simp: keeps_def)
  then have later: "laterGraphs (g_world (se_Graph subEndpoint)) (map snd shrinking)"
    by (simp add: shrinking_def shrunk_run(2) keepsIds_refl subEndpoint_def NewSubscriberEndpoint_def Graph_AddEventListener_def)
  have ok: "graph_ok mem_inv memNodeRefs memEdgeRefs (se_Graph subEndpoint)"
    using linkedGraph_ok by (simp add: subEndpoint_def NewSubscriberEndpoint_def Graph_AddEventListener_def AddEventListener_def graph_ok_def idle_def)
  have "\<exists>ts0 first ts' view. getGraph sampleParams ?f ts (se_Graph subEndpoint) = Some (ts0, Inr first) \<and>
      filterRuns sampleParams ?f (map snd shrinking) ts0 first ts' view \<and> known 7 (se_sent t2) = idsOf view"
    by (rule subscriber_follows [OF _ _ _ _ ok _ _ ts run s _ _ _ later t2(1)])
      (simp_all add: sampleParams_def liveContext_def subEndpoint_def NewSubscriberEndpoint_def)
  moreover have "map snd shrinking = [shrunkGraph, shrunkGraph]" by (simp add: shrinking_def)
  ultimately show ?thesis using t2 by metis
qed

lemma notifyLoop_nil:
  assumes "notifyLoop tp m (ds @ c # cs) t = Some t'" "map_of (se_subscribers t) c = Some None" "c \<notin> set ds" "d \<notin> set ds"
  shows "untouched d t t'"
  using assms
proof (induction ds arbitrary: t)
  case (Cons x ds)
  then have x: "x \<noteq> c" "x \<noteq> d" by auto
  show ?case
  proof (cases "map_of (se_subscribers t) x")
    case None
    then have "notifyLoop tp m (ds @ c # cs) (sendTo x [Sent m] t) = Some t'" using Cons.prems(1) by simp
    from Cons.IH [OF this] Cons.prems(2-4) have "untouched d (sendTo x [Sent m] t) t'" by (simp add: sendTo_def)
    then show ?thesis using untouched_trans [OF untouched_send [OF x(2)]] by blast
  next
    case (Some s)
    show ?thesis
    proof (cases s)
      case None
      then show ?thesis using Some Cons.prems(1) untouched_refl by simp
    next
      case (Some s')
      with \<open>map_of (se_subscribers t) x = Some s\<close> Cons.prems(1) obtain t1 where
        t1: "notifySubscriber tp m x s' t = Some t1" "notifyLoop tp m (ds @ c # cs) t1 = Some t'" by (auto simp: bind_eq_Some_conv)
      have "map_of (se_subscribers t1) c = Some None" using untouched_other [OF t1(1) x(1)] Cons.prems(2) by (simp add: untouched_def)
      from Cons.IH [OF t1(2) this] Cons.prems(3,4) have "untouched d t1 t'" by simp
      then show ?thesis using untouched_trans [OF untouched_other [OF t1(1) x(2)]] by blast
    qed
  qed
qed (use untouched_refl in auto)

text \<open>C39: A subscription that failed silences the clients that come after it in the pool: none of them is sent anything of any
  later event, be it subscribed with a filter or not.\<close>

theorem failed_subscription_silences:
  assumes "map_of (se_subscribers t) c = Some None" "se_pool t = ds @ c # cs" "distinct (se_pool t)" "d \<in> set cs"
    and "notifyRun tp evs t = Some t'"
  shows "filter (\<lambda>x. fst x = d) (se_sent t') = filter (\<lambda>x. fst x = d) (se_sent t)"
  using assms(1,2,3,5)
proof (induction evs arbitrary: t)
  case (Cons ev evs)
  obtain m g where ev: "ev = (m, g)" by fastforce
  let ?t = "t\<lparr>se_Graph := g\<rparr>"
  obtain t1 where t1: "notifyLoop tp m (ds @ c # cs) ?t = Some t1" "notifyRun tp evs t1 = Some t'"
    using Cons.prems(2,4) by (auto simp: ev bind_eq_Some_conv notifyClients_def)
  have cd: "c \<notin> set ds" "d \<notin> set ds" using Cons.prems(2,3) assms(4) by auto
  have "untouched c ?t t1" "untouched d ?t t1" using notifyLoop_nil [OF t1(1) _ cd(1)] Cons.prems(1) cd by simp_all
  moreover have "se_pool t1 = se_pool t" using notifyLoop_keeps [OF t1(1)] by simp
  ultimately show ?case using Cons.IH [OF _ _ _ t1(2)] Cons.prems(1-3) by (simp add: untouched_def)
qed simp

definition failedSubscription :: "MemoryBackend SubscriberEndpoint" where
  "failedSubscription = the (syncRequest sampleParams (\<lambda>less xs. xs) 7 uiSpeaker liveContext (Some ''V()'') subEndpoint)"

theorem failed_subscription_silences_witness:
  "\<exists>t'. notifyRun sampleParams shrinking failedSubscription = Some t' \<and> filter (\<lambda>x. fst x = 8) (se_sent t') = []"
proof -
  have "case notifyRun sampleParams shrinking failedSubscription of None \<Rightarrow> False | Some t \<Rightarrow> True" by code_simp
  then obtain t' where t': "notifyRun sampleParams shrinking failedSubscription = Some t'" by (auto split: option.splits)
  have "case map_of (se_subscribers failedSubscription) 7 of Some None \<Rightarrow> True | _ \<Rightarrow> False" by code_simp
  then have "map_of (se_subscribers failedSubscription) 7 = Some None" by (auto split: option.splits)
  moreover have "se_pool failedSubscription = [] @ 7 # [8]" "filter (\<lambda>x. fst x = 8) (se_sent failedSubscription) = []" by code_simp+
  ultimately show ?thesis using failed_subscription_silences [OF _ _ _ _ t', of 7 "[]" "[8]" 8] t' by auto
qed

definition wholeGraph :: "MemoryBackend subscriber \<Rightarrow> bool" where
  "wholeGraph s \<longleftrightarrow> sub_shared s \<and> sub_ts s = [] \<and> ctxTimeSlice (g_context (sub_graph s)) = None \<and> idle (g_eventHandler (sub_graph s))"

lemma getGraph_whole: "getGraph tp q [] g = Some ([], Inr g)"
  by (simp add: getGraph_def Sequence_Exec_def NewGraphTraversal_def)

lemma same_backend_diff:
  assumes "graph_ok mem_inv memNodeRefs memEdgeRefs g" "ctxTimeSlice (g_context g') = None" "idle (g_eventHandler g')"
    and "g_world g' = g_world g" "g_backend g' = g_backend g"
  shows "diffMsgs memoryBackend g' g = []"
proof -
  have ok: "graph_ok mem_inv memNodeRefs memEdgeRefs g'" using assms by (simp add: graph_ok_def)
  obtain an rn ae re where d: "Graph_Diff memoryBackend g' memoryBackend g = (an, rn, ae, re)" by (metis prod_cases4)
  from mem.Diff_live [OF ok assms(1) d] show ?thesis by (simp add: diffMsgs_def d assms(5))
qed

lemma whole_notified:
  assumes "tp_backend tp = memoryBackend" "graph_ok mem_inv memNodeRefs memEdgeRefs (se_Graph t)" "wholeGraph s"
    and "\<forall>n. m \<noteq> NodeUpdatedMsg n" "\<forall>e. m \<noteq> EdgeUpdatedMsg e"
  shows "\<exists>s'. wholeGraph s' \<and> notifySubscriber tp m c s t = Some (setSubscriber c (Some s') t)"
proof -
  let ?g = "se_Graph t" and ?s = "s\<lparr>sub_ts := [], sub_graph := se_Graph t\<rparr>"
  have "updateMsgs memoryBackend ?g m = []" using assms(4,5) by (auto simp: updateMsgs_def split: gmsg.split)
  moreover have "diffMsgs memoryBackend (seenNow ?g s) ?g = []"
    using assms(2,3) by (intro same_backend_diff) (simp_all add: wholeGraph_def seenNow_def)
  moreover have "wholeGraph ?s" using assms(2,3) by (simp add: wholeGraph_def graph_ok_def)
  ultimately show ?thesis using assms(1,3)
    by (intro exI [of _ ?s]) (simp add: notifySubscriber_def wholeGraph_def getGraph_whole sendTo_def keepEnv_def)
qed

text \<open>A subscriber whose filter is the whole graph is never told of an element that was added or removed: its graph is the live
  graph, so that the difference is empty whatever happens.\<close>

theorem whole_graph_filter_silent:
  assumes tp: "tp_backend tp = memoryBackend" and ok: "graph_ok mem_inv memNodeRefs memEdgeRefs g"
    and s: "newSubscriber tp host ''G'' g = Some (Inr s)" "map_of (se_subscribers t) c = Some (Some s)" "se_pool t = [c]"
    and evs: "\<forall>(m, g) \<in> set evs. graph_ok mem_inv memNodeRefs memEdgeRefs g \<and> (\<forall>n. m \<noteq> NodeUpdatedMsg n) \<and> (\<forall>e. m \<noteq> EdgeUpdatedMsg e)"
  shows "\<exists>t'. notifyRun tp evs t = Some t' \<and> se_sent t' = se_sent t"
proof -
  have "Parse ''G'' = Some (Inr [])" by code_simp
  then have "wholeGraph s" using s(1) ok by (auto simp: newSubscriber_def getGraph_whole wholeGraph_def sharesGraph_def graph_ok_def)
  then show ?thesis using s(2,3) evs
  proof (induction evs arbitrary: s t)
    case (Cons ev evs)
    obtain m g where ev: "ev = (m, g)" by fastforce
    let ?t = "t\<lparr>se_Graph := g\<rparr>"
    from whole_notified [OF tp, of ?t s m c] Cons.prems(1,4) obtain s' where
      s': "wholeGraph s'" "notifySubscriber tp m c s ?t = Some (setSubscriber c (Some s') ?t)" by (auto simp: ev)
    let ?t1 = "setSubscriber c (Some s') ?t"
    have "notifyClients tp m ?t = Some ?t1" using Cons.prems(2,3) s'(2) by (simp add: notifyClients_def)
    moreover obtain t' where "notifyRun tp evs ?t1 = Some t'" "se_sent t' = se_sent ?t1"
      using Cons.IH [OF s'(1), of ?t1] Cons.prems(3,4) by (auto simp: setSubscriber_def)
    ultimately show ?case by (auto simp: ev setSubscriber_def)
  qed simp
qed

theorem whole_graph_filter_silent_witness:
  "\<exists>s t'. newSubscriber sampleParams ''ui'' ''G'' linkedGraph = Some (Inr s) \<and>
    notifyRun sampleParams shrinking (setSubscriber 7 (Some s) (NewSubscriberEndpoint [7] 0 linkedGraph)) = Some t' \<and> se_sent t' = []"
proof -
  have parse: "Parse ''G'' = Some (Inr [])" by code_simp
  then obtain s where s: "newSubscriber sampleParams ''ui'' ''G'' linkedGraph = Some (Inr s)" by (simp add: newSubscriber_def getGraph_whole)
  let ?t = "setSubscriber 7 (Some s) (NewSubscriberEndpoint [7] 0 linkedGraph)"
  have "\<exists>t'. notifyRun sampleParams shrinking ?t = Some t' \<and> se_sent t' = se_sent ?t"
    by (rule whole_graph_filter_silent [OF _ linkedGraph_ok s, of ?t 7])
      (simp_all add: sampleParams_def setSubscriber_def NewSubscriberEndpoint_def shrinking_def shrunk_run(2))
  then show ?thesis using s by (auto simp: setSubscriber_def NewSubscriberEndpoint_def)
qed

end
