(* ===== verification/Spec2Isabelle.thy ===== *)
theory Spec2Isabelle
  imports Graph_Theorems Value_Theorems Flow_Theorems Gremlin_Theorems Cidr_Regex Openflow_Roundtrip Replication Subscriber_Theorems
begin

text \<open>
  Verification of the core of Skydive, a network analyzer: the topology graph of \<^verbatim>\<open>src/graffiti/graph\<close> with the
  filters and dynamic values it rests on, the Gremlin language that queries it (\<^verbatim>\<open>src/graffiti/graph/traversal\<close>,
  \<^verbatim>\<open>src/gremlin\<close>), the processes that keep copies of it (\<^verbatim>\<open>src/graffiti/common\<close>, \<^verbatim>\<open>hub\<close>, \<^verbatim>\<open>seed\<close>), and the flow part of \<^verbatim>\<open>src/flow\<close>, from the captured packet to the answer of a query.

  \<^bold>\<open>The program.\<close>  Agents capture packets and watch the interfaces of a host; an analyzer collects both.  The
  topology is a graph of nodes and edges with metadata, kept in a backend and changed by calls that notify listeners; indexers,
  processors and linkers are such listeners.  Packets are split at their tunnel headers, hashed into keys and entered into
  the flows of a flow table, which reports the flows that changed on every update, expires those that ended, and answers
  queries with flow sets.  Nodes, edges and flows are all read through getters with dotted field names, and selected by the
  same filters.  A user asks for them in Gremlin: the text is parsed to steps, and a run lets each step absorb the filters and
  ranges after it before it works on the result of the step before.  An agent, the pod, forwards its graph to one of the hubs, its
  master; hubs replicate what they get to each other and tell subscribers how the answers of their queries change.

  \<^bold>\<open>Common ground.\<close>
  \<^item> \<open>Sky_Prelude\<close>: Go maps as association lists in the order a range visits them, int64 wrap-around (\<open>wrap64\<close>), results
    with errors.
  \<^item> \<open>Go_Values\<close> (\<^verbatim>\<open>common/types.go\<close>): JSON-like values, dotted-path set, get and delete, listing of the keys.
  \<^item> \<open>Reflect\<close> (\<^verbatim>\<open>common/types.go\<close>): look-up of a dotted path in Go structures by reflection.
  \<^item> \<open>Filters\<close> (\<^verbatim>\<open>filters/filters.go\<close>, \<^verbatim>\<open>graffiti/graph/filters.go\<close>): the filter language over a getter; the engine for
    regular expressions is a parameter.
  \<^item> \<open>Range_Regex\<close>, \<open>Cidr_Regex\<close> (\<^verbatim>\<open>common/types.go\<close>): the regular expressions of ranges of numbers and of IPv4 networks,
    with a matcher for the fragment they use; they match exactly the numbers and the addresses meant, an address with or without
    the length of a prefix after it, and no other text.
  \<^item> \<open>Value_Theorems\<close>: round trips of the dotted paths, the meaning of filters and matchers, deduplication by revision.

  \<^bold>\<open>The graph.\<close>
  \<^item> \<open>Elements\<close>, \<open>Backend\<close>, \<open>Memory\<close>, \<open>Cached\<close> (\<^verbatim>\<open>graph.go\<close>, \<^verbatim>\<open>metadata.go\<close>, \<^verbatim>\<open>memory.go\<close>,
    \<^verbatim>\<open>cachedbackend.go\<close>): nodes, edges and the backends that keep them.  The locale of backends is interpreted on the
    in-memory and the cached one.
  \<^item> \<open>EventHandler\<close>: listeners and the channel of pending events.  A notification may not return, so it is a
    partial function with option result.
  \<^item> \<open>Graph\<close>, \<open>Graph_Queries\<close> (\<^verbatim>\<open>graph.go\<close>, \<^verbatim>\<open>transaction.go\<close>): the operations, queries and metadata
    transactions; \<open>Graph_Spec\<close> has the abstract graph they refine, \<open>Graph_Steps\<close> their invariant.
  \<^item> \<open>ShortestPath\<close>: Dijkstra's loop with its 64-bit distances; the number of nodes bounds the fuel.
  \<^item> \<open>Indexer\<close>, \<open>Processor\<close>, \<open>Linker\<close> (\<^verbatim>\<open>indexer.go\<close>, \<^verbatim>\<open>processor.go\<close>, \<^verbatim>\<open>linker.go\<close>).
  \<^item> \<open>Graph_Theorems\<close>: sequences of calls return and keep the graph well formed (\<open>callsSafe\<close> has what a call needs), and when
    every call changes and announces elements of the graph (\<open>callsOk\<close>) its events replay to it; each operation refines
    its specification; shortest paths are shortest; notifications are delivered in order, and when they return; indexes,
    processors and linkers follow the nodes.

  \<^bold>\<open>The query language.\<close>
  \<^item> \<open>Gremlin_Scanner\<close>, \<open>Gremlin_Parser\<close> (\<^verbatim>\<open>traversal_scanner.go\<close>, \<^verbatim>\<open>traversal_parser.go\<close>): tokens, parameters and steps.
    The loops over the input are partial functions; every text is shown to parse or fail.
  \<^item> \<open>Gremlin_Query\<close> (\<^verbatim>\<open>gremlin/query.go\<close>, \<^verbatim>\<open>gremlin/value.go\<close>): the builder of queries, and that the texts of its calls are
    read back as the steps they ask for, or refused.
  \<^item> \<open>Traversal\<close> (\<^verbatim>\<open>traversal.go\<close>, \<^verbatim>\<open>graph/sort.go\<close>, \<^verbatim>\<open>common/iterator.go\<close>): filters of parameters, pagination and all
    built-in steps.
  \<^item> \<open>Gremlin_Exec\<close> (\<^verbatim>\<open>traversal_parser.go\<close>): \<^verbatim>\<open>Reduce\<close> and \<^verbatim>\<open>Exec\<close> of every step and the loop over a sequence.
  \<^item> \<open>Gremlin_Reduce\<close>: the reference semantics, one step after the other, and that merging steps keeps it over any backend whose
    filters select from what it returns without one (the locale \<open>filtering_backend\<close>, interpreted on the in-memory backend).
  \<^item> \<open>Gremlin_Theorems\<close>: the round trip of queries, termination of the parser, soundness of merging, and two cases in which a
    run does not do what the query says: a filter after a range, and a second run.
  \<^item> \<open>Gremlin_Typing\<close>: whatever the steps, a query answers with elements of the graph, and a subgraph it cuts out is well
    formed.

  \<^bold>\<open>Synchronisation.\<close>
  \<^item> \<open>Graph_Sync\<close> (\<^verbatim>\<open>graffiti/websocket/message.go\<close>, \<^verbatim>\<open>graffiti/common/forwarder.go\<close>,
    \<^verbatim>\<open>graffiti/common/publisher_endpoint.go\<close>, \<^verbatim>\<open>graffiti/seed/seed.go\<close>, \<^verbatim>\<open>websocket/master.go\<close>): the messages, the
    forwarder of a pod with the election of its master, the endpoint that receives them, and the seed.
  \<^item> \<open>Sync_Facts\<close>, \<open>Sync_Theorems\<close>: what a message does to the abstract graph of its receiver, proved in the locale of
    reliable backends; a hub mirrors the graph of its pod, with what a message keeps of an element (\<open>received\<close>: times in
    milliseconds after \<^verbatim>\<open>graph/time.go\<close>, metadata as decoded), and removes it when the pod leaves.
  \<^item> \<open>Replication\<close> (\<^verbatim>\<open>graffiti/hub/replication_endpoint.go\<close>): what comes from a peer stays local; peers are counted.  The
    cached backend in cache-only mode is an interpretation of the locale of reliable backends.
  \<^item> \<open>Subscriber\<close>, \<open>Subscriber_Theorems\<close> (\<^verbatim>\<open>graffiti/common/subscriber_endpoint.go\<close>): subscriptions with a Gremlin filter.  A
    client has what its filter answered in its last run (\<open>filterRuns\<close>); when it is not told.

  \<^bold>\<open>The flows.\<close>
  \<^item> \<open>Layers\<close>, \<open>Flow_Types\<close>, \<open>Flow_Fields\<close> (\<^verbatim>\<open>flow.pb.go\<close>, \<^verbatim>\<open>flow.go\<close>, \<^verbatim>\<open>icmp.go\<close>,
    \<^verbatim>\<open>application.go\<close>, \<^verbatim>\<open>layers/dns.go\<close>): the decoded layers, the flow record, and its getter.
  \<^item> \<open>Metrics\<close>, \<open>Interface_Metrics\<close> (\<^verbatim>\<open>flow/metrics.go\<close>, \<^verbatim>\<open>topology/metrics.go\<close>): the counters; a locale of metrics
    interpreted on both kinds.  The float64 ratio of a split is a rational rounded to 53 bits.
  \<^item> \<open>Flow_Set\<close> (\<^verbatim>\<open>set.go\<close>, \<^verbatim>\<open>filters.go\<close>): merging, sorting, deduplication; a locale of orders on flows
    interpreted on the three ways to compare them.
  \<^item> \<open>Packets\<close>, \<open>Packet_Seq\<close>, \<open>Flow_Update\<close> (\<^verbatim>\<open>flow.go\<close>, \<^verbatim>\<open>hash.go\<close>, \<^verbatim>\<open>ipdefrag.go\<close>): keys, splitting
    at tunnels, creation and update of a flow.  \<open>None\<close> is a panic.
  \<^item> \<open>Flow_Table\<close>, \<open>Flow_Table_Facts\<close>, \<open>Flow_Ledger\<close> (\<^verbatim>\<open>table.go\<close>): the table over any cache with the documented
    behaviour of \<^verbatim>\<open>simplelru\<close> (the locale \<open>lru\<close>, interpreted on a list cache), its sweeps, its invariant and the ledger of what
    it sent.  The table holds pointers, so its flows live in a heap.
  \<^item> \<open>Allocators\<close> (\<^verbatim>\<open>allocator.go\<close>, \<^verbatim>\<open>common/port_allocator.go\<close>).
  \<^item> \<open>Flow_Theorems\<close>: the reported metrics add up to the flow's counters; the table is bounded; expiry and queries are
    exact; keys do not depend on the direction; packets are split at their tunnels and nowhere else, without loss; sorting and merging are the stable sort; splitting
    a metric conserves its counters; a packet is counted once; ports are never shared.  \<open>Flow_Examples\<close> has the inputs of their witnesses.

  \<^bold>\<open>OpenFlow rules.\<close>
  \<^item> \<open>Openflow_Parser\<close>, \<open>Openflow_Print\<close> (\<^verbatim>\<open>topology/probes/ovsdb/jsonof/ovs_rule_parser.go\<close>): the scanner and parser of the
    rules and groups that \<^verbatim>\<open>ovs-ofctl\<close> prints, and the printer.  A measure on the text that is left shows that all of them end;
    \<open>None\<close> is a nil pointer that is dereferenced.
  \<^item> \<open>Openflow_Roundtrip\<close>: printed rules are read back, the texts of groups, in the syntax of the parser's tests, are read as the
    groups they describe, and the texts on which the parser panics.

  \<^bold>\<open>Parameters.\<close>  The hash functions, gopacket's endpoints and names, the reassembler of fragments, the cache, the
    regular-expression engine, the parsers of networks, times and durations, the structural hash, the library sort, the
    decoders of messages, the validator and the persistent backend are arguments of the definitions that use them.

  \<^bold>\<open>Not modelled.\<close>  The extensions of Gremlin (steps on flows, sockets, metrics and raw packets, which query the agents); everything whose work is input and output: the web sockets themselves and the start-up of
    hubs and pods, HTTP, databases, the probes that read the kernel, packet capture and injection; generated marshalling; TCP reassembly and eBPF
    flows of the table, which rest on third-party assemblers and kernel maps; locking, since every modelled operation runs
    under its lock.  Characters are 8-bit, so that of the runes of a query those above 255 are left out; metadata are values, so
    that a change of a map through one element is not seen through another that shares the map.
\<close>

end
